(* ===== verification/RW_Prelude.thy ===== *)
theory RW_Prelude
  imports Main "HOL-Library.Sublist" "HOL-Library.List_Lexorder" "HOL-Library.Char_ord"
    "HOL-Library.Code_Target_Nat"
begin

section \<open>Prelude\<close>

text \<open>
  What every theory of the development shares: the time line and the call context of a Go
  operation, results as sums (\<open>Inl\<close> is the returned error, \<open>Inr\<close> the value), generic
  lemmas on lists and partial maps, and the named collections the component proofs draw on.
\<close>

named_theorems go_path_simps \<open>facts about cleaned paths\<close>
named_theorems engine_defs \<open>definitions of the security engine\<close>
named_theorems lease_defs \<open>definitions of the workspace lease layer\<close>

text \<open>
  An instant is the number of nanoseconds since the Unix epoch, a duration a number of
  nanoseconds. \<open>zero_time\<close> is Go's zero \<open>time.Time\<close> (1 January of year 1, UTC). Every
  operation reads the clock once: the readings a Go method makes inside one critical section
  are one argument of its model.
\<close>

type_synonym instant = int
type_synonym duration = int

definition zero_time :: instant where
  "zero_time = - 62135596800000000000"

definition second :: duration where "second = 1000000000"
definition minute :: duration where "minute = 60 * second"
definition hour :: duration where "hour = 60 * minute"

lemmas duration_defs = second_def minute_def hour_def

text \<open>
  A \<open>context.Context\<close> argument: the nil interface, a live context, one that was cancelled,
  or one whose deadline has passed.
\<close>

datatype go_ctx = Ctx_Nil | Ctx_Live | Ctx_Canceled | Ctx_Deadline

definition ctx_err :: "go_ctx \<Rightarrow> bool" where
  "ctx_err c \<longleftrightarrow> c = Ctx_Canceled \<or> c = Ctx_Deadline"

subsection \<open>Results\<close>

definition is_ok :: "'e + 'a \<Rightarrow> bool" where
  "is_ok r = (case r of Inl _ \<Rightarrow> False | Inr _ \<Rightarrow> True)"

lemma is_ok_simps [simp]: "\<not> is_ok (Inl e)" "is_ok (Inr x)"
  by (simp_all add: is_ok_def)

lemma is_ok_iff: "is_ok r \<longleftrightarrow> (\<exists>x. r = Inr x)"
  by (cases r) auto

subsection \<open>Durable writes\<close>

text \<open>A file that is absent, unreadable or holds a value; and a write that happens, happens and then
  reports an error (a failed sync or commit), or does not happen.\<close>

datatype 'a slot = Slot_Absent | Slot_Corrupt | Slot_Has 'a

datatype write_outcome = W_Done | W_Unsynced | W_Failed

definition write_slot :: "write_outcome \<Rightarrow> 'a \<Rightarrow> 'a slot \<Rightarrow> 'a slot" where
  "write_slot w v s = (case w of W_Failed \<Rightarrow> s | _ \<Rightarrow> Slot_Has v)"

subsection \<open>Machine integers\<close>

text \<open>\<open>wrap64\<close> is the value of a sum of two Go \<open>int\<close> or \<open>int64\<close> values: the mathematical
  sum reduced to two's complement on 64 bits.\<close>

definition wrap64 :: "int \<Rightarrow> int" where
  "wrap64 x = (x + 9223372036854775808) mod 18446744073709551616 - 9223372036854775808"

lemma wrap64_id [simp]: "- 9223372036854775808 \<le> x \<Longrightarrow> x < 9223372036854775808 \<Longrightarrow> wrap64 x = x"
  by (simp add: wrap64_def)

lemma wrap64_range: "- 9223372036854775808 \<le> wrap64 x \<and> wrap64 x < 9223372036854775808"
  by (simp add: wrap64_def)

subsection \<open>Lists\<close>

lemma foldl_invariant:
  assumes "P a" and "\<And>a x. x \<in> set xs \<Longrightarrow> P a \<Longrightarrow> P (f a x)"
  shows "P (foldl f a xs)"
  using assms by (induction xs arbitrary: a) auto

lemma list_all_append_iff [simp]: "list_all P (xs @ ys) \<longleftrightarrow> list_all P xs \<and> list_all P ys"
  by (induction xs) auto

lemma sum_list_remove1:
  "x \<in> set xs \<Longrightarrow> sum_list (map f (remove1 x xs)) = sum_list (map f xs) - (f x :: 'b::ab_group_add)"
  by (induction xs) (auto simp: algebra_simps)

lemma sum_list_nonneg_ge_member:
  assumes "\<And>y. y \<in> set xs \<Longrightarrow> (0::int) \<le> f y" and "x \<in> set xs"
  shows "f x \<le> sum_list (map f xs)"
proof -
  have "sum_list (map f (remove1 x xs)) = sum_list (map f xs) - f x"
    using assms(2) by (rule sum_list_remove1)
  moreover have "0 \<le> sum_list (map f (remove1 x xs))"
    by (rule sum_list_nonneg) (use assms(1) notin_set_remove1 in \<open>fastforce dest: notin_set_remove1\<close>)
  ultimately show ?thesis by simp
qed

lemma distinct_map_filter: "distinct (map f xs) \<Longrightarrow> distinct (map f (filter P xs))"
  by (induction xs) auto

lemma length_filter_lt: "x \<in> set xs \<Longrightarrow> \<not> P x \<Longrightarrow> length (filter P xs) < length xs"
  by (induction xs) (auto simp: less_Suc_eq_le)

subsection \<open>Partial maps\<close>

lemma finite_dom_upd [simp]: "finite (dom m) \<Longrightarrow> finite (dom (m(k \<mapsto> v)))"
  by simp

lemma ran_upd_subset: "ran (m(k \<mapsto> v)) \<subseteq> insert v (ran m)"
  by (auto simp: ran_def)

end
