(* ===== verification/Go_Strings.thy ===== *)
theory Go_Strings
  imports RW_Prelude
begin

section \<open>The part of Go's strings, utf8, hex and strconv packages the program uses\<close>

text \<open>
  A Go string is a sequence of bytes: \<open>string\<close> is a list of \<open>char\<close>, one per byte, and
  \<open>length\<close> is \<open>len\<close>. Code that ranges over runes decodes UTF-8 with \<open>decode_rune\<close>,
  which follows \<open>utf8.DecodeRuneInString\<close>: an invalid sequence is the rune U+FFFD of width
  one. Substring tests are \<open>sublist\<close>, \<open>prefix\<close> and \<open>suffix\<close> of the library.
\<close>

abbreviation byte :: "char \<Rightarrow> nat" where "byte c \<equiv> of_char c"

definition NUL :: char where "NUL = CHR 0x00"
definition CR :: char where "CR = CHR 0x0D"
definition LF :: char where "LF = CHR 0x0A"

lemmas ctrl_defs = NUL_def CR_def LF_def

definition contains_any :: "string \<Rightarrow> string \<Rightarrow> bool" where
  "contains_any s cs = list_ex (\<lambda>c. c \<in> set cs) s"

lemma contains_any_iff: "contains_any s cs \<longleftrightarrow> set s \<inter> set cs \<noteq> {}"
  by (auto simp: contains_any_def list_ex_iff)

definition control_chars :: string where
  "control_chars = [NUL, CR, LF]"

subsection \<open>UTF-8\<close>

definition in_byte_range :: "nat \<Rightarrow> nat \<Rightarrow> char \<Rightarrow> bool" where
  "in_byte_range lo hi c \<longleftrightarrow> lo \<le> byte c \<and> byte c \<le> hi"

definition rune_error :: nat where "rune_error = 65533"

fun decode_rune :: "string \<Rightarrow> nat \<times> nat" where
  "decode_rune [] = (rune_error, 0)"
| "decode_rune (c # cs) =
    (let b = byte c in
     if b < 128 then (b, 1)
     else if 194 \<le> b \<and> b \<le> 223 then
       (case cs of
          c1 # _ \<Rightarrow>
            if in_byte_range 128 191 c1 then ((b - 192) * 64 + (byte c1 - 128), 2)
            else (rune_error, 1)
        | _ \<Rightarrow> (rune_error, 1))
     else if 224 \<le> b \<and> b \<le> 239 then
       (case cs of
          c1 # c2 # _ \<Rightarrow>
            if in_byte_range (if b = 224 then 160 else 128) (if b = 237 then 159 else 191) c1
               \<and> in_byte_range 128 191 c2
            then ((b - 224) * 4096 + (byte c1 - 128) * 64 + (byte c2 - 128), 3)
            else (rune_error, 1)
        | _ \<Rightarrow> (rune_error, 1))
     else if 240 \<le> b \<and> b \<le> 244 then
       (case cs of
          c1 # c2 # c3 # _ \<Rightarrow>
            if in_byte_range (if b = 240 then 144 else 128) (if b = 244 then 143 else 191) c1
               \<and> in_byte_range 128 191 c2 \<and> in_byte_range 128 191 c3
            then ((b - 240) * 262144 + (byte c1 - 128) * 4096 + (byte c2 - 128) * 64
                   + (byte c3 - 128), 4)
            else (rune_error, 1)
        | _ \<Rightarrow> (rune_error, 1))
     else (rune_error, 1))"

lemma decode_rune_width: "0 < snd (decode_rune (c # cs))"
  by (auto simp: Let_def split: list.split)

lemma decode_rune_ascii [simp]: "byte c < 128 \<Longrightarrow> decode_rune (c # cs) = (byte c, 1)"
  by simp

declare decode_rune.simps(2) [simp del]

text \<open>A string as the runes a \<open>for range\<close> visits, each with the bytes it was read from.\<close>

function runes :: "string \<Rightarrow> (nat \<times> string) list" where
  "runes [] = []"
| "runes (c # cs) =
    (let w = snd (decode_rune (c # cs))
     in (fst (decode_rune (c # cs)), take w (c # cs)) # runes (drop w (c # cs)))"
  by pat_completeness auto
termination
  by (relation "measure length") (use decode_rune_width in auto)

definition bad_rune :: "nat \<times> string \<Rightarrow> bool" where
  "bad_rune p \<longleftrightarrow> fst p = rune_error \<and> length (snd p) = 1"

definition utf8_valid :: "string \<Rightarrow> bool" where
  "utf8_valid s \<longleftrightarrow> list_all (\<lambda>p. \<not> bad_rune p) (runes s)"

definition ascii :: "string \<Rightarrow> bool" where
  "ascii s \<longleftrightarrow> list_all (\<lambda>c. byte c < 128) s"

lemma ascii_simps [simp]:
  "ascii []"
  "ascii (c # cs) \<longleftrightarrow> byte c < 128 \<and> ascii cs"
  "ascii (xs @ ys) \<longleftrightarrow> ascii xs \<and> ascii ys"
  by (auto simp: ascii_def)

lemma runes_ascii: "ascii s \<Longrightarrow> runes s = map (\<lambda>c. (byte c, [c])) s"
  by (induction s) auto

lemma utf8_valid_ascii: "ascii s \<Longrightarrow> utf8_valid s"
  by (auto simp: utf8_valid_def runes_ascii list_all_iff bad_rune_def rune_error_def ascii_def)

lemma runes_concat: "concat (map snd (runes s)) = s"
proof (induction s rule: runes.induct)
  case (2 c cs)
  then show ?case
    by (simp add: Let_def)
qed simp

text \<open>
  \<open>strings.ToLower\<close> and \<open>strings.ToUpper\<close>, as far as the program can observe them: it
  compares their results with ASCII literals only. ASCII letters are mapped, and so are the two
  code points of each direction whose image is an ASCII letter (KELVIN SIGN and I WITH DOT
  ABOVE; LONG S and DOTLESS I); an invalid byte becomes U+FFFD in a string that is not ASCII;
  every other rune keeps its bytes, none of which is an ASCII byte before or after the mapping.
\<close>

definition replacement_bytes :: string where
  "replacement_bytes = [CHR 0xEF, CHR 0xBF, CHR 0xBD]"

definition lower_rune :: "nat \<times> string \<Rightarrow> string" where
  "lower_rune p =
    (if 65 \<le> fst p \<and> fst p \<le> 90 then [char_of (fst p + 32)]
     else if fst p = 8490 then ''k''
     else if fst p = 304 then ''i''
     else if bad_rune p then replacement_bytes
     else snd p)"

definition upper_rune :: "nat \<times> string \<Rightarrow> string" where
  "upper_rune p =
    (if 97 \<le> fst p \<and> fst p \<le> 122 then [char_of (fst p - 32)]
     else if fst p = 383 then ''S''
     else if fst p = 305 then ''I''
     else if bad_rune p then replacement_bytes
     else snd p)"

definition to_lower :: "string \<Rightarrow> string" where
  "to_lower s = concat (map lower_rune (runes s))"

definition to_upper :: "string \<Rightarrow> string" where
  "to_upper s = concat (map upper_rune (runes s))"

text \<open>\<open>unicode.IsSpace\<close>, \<open>strings.TrimSpace\<close> and \<open>strings.Fields\<close>.\<close>

definition is_space_rune :: "nat \<Rightarrow> bool" where
  "is_space_rune r \<longleftrightarrow>
     r \<in> {9, 10, 11, 12, 13, 32, 133, 160, 5760, 8232, 8233, 8239, 8287, 12288}
     \<or> (8192 \<le> r \<and> r \<le> 8202)"

definition trim_space :: "string \<Rightarrow> string" where
  "trim_space s =
    (let sp = (\<lambda>p. is_space_rune (fst p))
     in concat (map snd (rev (dropWhile sp (rev (dropWhile sp (runes s)))))))"

fun fields_aux :: "string \<Rightarrow> (nat \<times> string) list \<Rightarrow> string list" where
  "fields_aux w [] = (if w = [] then [] else [w])"
| "fields_aux w (p # ps) =
    (if is_space_rune (fst p)
     then (if w = [] then fields_aux [] ps else w # fields_aux [] ps)
     else fields_aux (w @ snd p) ps)"

definition fields :: "string \<Rightarrow> string list" where
  "fields s = fields_aux [] (runes s)"

subsection \<open>Splitting and joining\<close>

text \<open>\<open>strings.Split\<close> at a one-byte separator, and \<open>strings.Join\<close>.\<close>

primrec split_on :: "char \<Rightarrow> string \<Rightarrow> string list" where
  "split_on d [] = [[]]"
| "split_on d (c # cs) =
    (if c = d then [] # split_on d cs
     else (case split_on d cs of [] \<Rightarrow> [[c]] | w # ws \<Rightarrow> (c # w) # ws))"

fun join_with :: "string \<Rightarrow> string list \<Rightarrow> string" where
  "join_with d [] = []"
| "join_with d [w] = w"
| "join_with d (w # v # ws) = w @ d @ join_with d (v # ws)"

lemma split_on_nonempty [simp]: "split_on d s \<noteq> []"
  by (cases s) (auto split: list.split)

lemma split_on_no_sep: "w \<in> set (split_on d s) \<Longrightarrow> d \<notin> set w"
  by (induction s arbitrary: w) (auto split: if_splits list.splits)

lemma split_on_plain: "d \<notin> set w \<Longrightarrow> split_on d w = [w]"
  by (induction w) auto

lemma split_on_append: "d \<notin> set w \<Longrightarrow> split_on d (w @ d # s) = w # split_on d s"
  by (induction w) auto

lemma split_join:
  "ws \<noteq> [] \<Longrightarrow> \<forall>w \<in> set ws. d \<notin> set w \<Longrightarrow> split_on d (join_with [d] ws) = ws"
  by (induction "[d]" ws rule: join_with.induct) (auto simp: split_on_plain split_on_append)

lemma join_split: "join_with [d] (split_on d s) = s"
proof (induction s)
  case (Cons c cs)
  show ?case
  proof (cases "split_on d cs")
    case Nil
    then show ?thesis by simp
  next
    case (Cons w ws)
    with Cons.IH show ?thesis
      by (cases ws) auto
  qed
qed simp

lemma split_on_inj: "split_on d s = split_on d t \<Longrightarrow> s = t"
  by (metis join_split)

text \<open>\<open>strings.Cut\<close> at a one-byte separator.\<close>

definition cut_at :: "char \<Rightarrow> string \<Rightarrow> string \<times> string \<times> bool" where
  "cut_at d s =
    (if d \<in> set s
     then (takeWhile (\<lambda>c. c \<noteq> d) s, tl (dropWhile (\<lambda>c. c \<noteq> d) s), True)
     else (s, [], False))"

lemma cut_at_append: "d \<notin> set a \<Longrightarrow> cut_at d (a @ d # b) = (a, b, True)"
  by (induction a) (auto simp: cut_at_def split: if_splits)

lemma cut_at_sound: "cut_at d s = (a, b, True) \<Longrightarrow> s = a @ d # b \<and> d \<notin> set a"
proof -
  assume h: "cut_at d s = (a, b, True)"
  then have d: "d \<in> set s" and a: "a = takeWhile (\<lambda>c. c \<noteq> d) s"
    and b: "b = tl (dropWhile (\<lambda>c. c \<noteq> d) s)"
    by (auto simp: cut_at_def split: if_splits)
  from d have "dropWhile (\<lambda>c. c \<noteq> d) s \<noteq> []" and "hd (dropWhile (\<lambda>c. c \<noteq> d) s) = d"
    using hd_dropWhile [of "\<lambda>c. c \<noteq> d" s] by auto
  then have "dropWhile (\<lambda>c. c \<noteq> d) s = d # b"
    using b by (cases "dropWhile (\<lambda>c. c \<noteq> d) s") auto
  then have "s = a @ d # b"
    using a takeWhile_dropWhile_id [of "\<lambda>c. c \<noteq> d" s] by simp
  moreover have "d \<notin> set a"
    using a by (auto dest: set_takeWhileD)
  ultimately show ?thesis by simp
qed

subsection \<open>Hexadecimal and decimal text\<close>

definition hex_digits :: string where "hex_digits = ''0123456789abcdef''"

definition hex_digit :: "nat \<Rightarrow> char" where "hex_digit n = hex_digits ! (n mod 16)"

definition hex_encode :: "string \<Rightarrow> string" where
  "hex_encode s = concat (map (\<lambda>c. [hex_digit (byte c div 16), hex_digit (byte c mod 16)]) s)"

text \<open>\<open>hex.DecodeString\<close>: upper and lower case digits, an even number of them.\<close>

definition hex_value :: "char \<Rightarrow> nat option" where
  "hex_value c =
    (if in_byte_range 48 57 c then Some (byte c - 48)
     else if in_byte_range 97 102 c then Some (byte c - 87)
     else if in_byte_range 65 70 c then Some (byte c - 55)
     else None)"

fun hex_decode :: "string \<Rightarrow> string option" where
  "hex_decode [] = Some []"
| "hex_decode [c] = None"
| "hex_decode (a # b # cs) =
    (case (hex_value a, hex_value b, hex_decode cs) of
       (Some x, Some y, Some r) \<Rightarrow> Some (char_of (16 * x + y) # r)
     | _ \<Rightarrow> None)"

definition lower_hex :: "char \<Rightarrow> bool" where
  "lower_hex c \<longleftrightarrow> in_byte_range 48 57 c \<or> in_byte_range 97 102 c"

lemma nibble_all:
  assumes "list_all P [0..<16]" and "n < 16"
  shows "P n"
  using assms by (simp add: list_all_iff)

lemma hex_value_digit: "n < 16 \<Longrightarrow> hex_value (hex_digit n) = Some n"
  by (rule nibble_all [where P = "\<lambda>n. hex_value (hex_digit n) = Some n"], code_simp, simp)

lemma lower_hex_digit: "lower_hex (hex_digit n)"
proof -
  have "list_all (\<lambda>n. lower_hex (hex_digit n)) [0..<16]" by code_simp
  then have "lower_hex (hex_digit (n mod 16))" by (rule nibble_all) simp
  then show ?thesis by (simp add: hex_digit_def)
qed

lemma hex_decode_encode: "hex_decode (hex_encode s) = Some s"
proof (induction s)
  case (Cons c cs)
  have "byte c < (16::nat) * 16"
    using mod_less_divisor [of 256 "byte c"] by simp
  then have "byte c div 16 < (16::nat)"
    by (rule less_mult_imp_div_less)
  moreover have "char_of (16 * (byte c div 16) + byte c mod 16) = c"
    by simp
  ultimately show ?case
    using Cons by (simp add: hex_encode_def hex_value_digit)
qed (simp add: hex_encode_def)

lemma length_hex_encode [simp]: "length (hex_encode s) = 2 * length s"
  by (induction s) (auto simp: hex_encode_def)

lemma hex_encode_lower: "c \<in> set (hex_encode s) \<Longrightarrow> lower_hex c"
  by (auto simp: hex_encode_def lower_hex_digit)

text \<open>\<open>strconv.FormatInt(n, 10)\<close> and \<open>strconv.ParseInt(s, 10, 64)\<close>.\<close>

fun digits_of :: "nat \<Rightarrow> string" where
  "digits_of n = (if n < 10 then [char_of (48 + n)] else digits_of (n div 10) @ [char_of (48 + n mod 10)])"

declare digits_of.simps [simp del]

definition format_int :: "int \<Rightarrow> string" where
  "format_int i = (if i < 0 then CHR ''-'' # digits_of (nat (- i)) else digits_of (nat i))"

definition is_digit :: "char \<Rightarrow> bool" where "is_digit c \<longleftrightarrow> in_byte_range 48 57 c"

definition value_of_digits :: "string \<Rightarrow> nat" where
  "value_of_digits s = foldl (\<lambda>n c. 10 * n + (byte c - 48)) 0 s"

definition parse_nat :: "string \<Rightarrow> nat option" where
  "parse_nat s = (if s \<noteq> [] \<and> list_all is_digit s then Some (value_of_digits s) else None)"

definition int64_max :: int where "int64_max = 9223372036854775807"
definition int64_min :: int where "int64_min = - 9223372036854775808"

definition parse_int64 :: "string \<Rightarrow> int option" where
  "parse_int64 s =
    (let neg = (s \<noteq> [] \<and> hd s = CHR ''-'');
         body = (if s \<noteq> [] \<and> (hd s = CHR ''-'' \<or> hd s = CHR ''+'') then tl s else s)
     in case parse_nat body of
          None \<Rightarrow> None
        | Some n \<Rightarrow>
            let v = (if neg then - int n else int n)
            in if int64_min \<le> v \<and> v \<le> int64_max then Some v else None)"

lemma digits_of_digits: "list_all is_digit (digits_of n)"
proof (induction n rule: digits_of.induct)
  case (1 n)
  show ?case
  proof (cases "n < 10")
    case True
    then show ?thesis
      by (simp add: digits_of.simps [of n] is_digit_def in_byte_range_def)
  next
    case False
    with 1 show ?thesis
      by (simp add: digits_of.simps [of n] is_digit_def in_byte_range_def)
  qed
qed

lemma digits_of_nonempty [simp]: "digits_of n \<noteq> []"
  by (simp add: digits_of.simps [of n])

lemma value_of_digits_snoc: "value_of_digits (s @ [c]) = 10 * value_of_digits s + (byte c - 48)"
  by (simp add: value_of_digits_def)

lemma value_digits_of: "value_of_digits (digits_of n) = n"
proof (induction n rule: digits_of.induct)
  case (1 n)
  show ?case
  proof (cases "n < 10")
    case True
    then show ?thesis
      by (simp add: digits_of.simps [of n] value_of_digits_def)
  next
    case False
    with 1 show ?thesis
      by (simp add: digits_of.simps [of n] value_of_digits_snoc)
  qed
qed

lemma digits_of_char: "c \<in> set (digits_of n) \<Longrightarrow> in_byte_range 48 57 c"
  using digits_of_digits [of n] by (auto simp: list_all_iff is_digit_def)

lemma digits_of_head: "hd (digits_of n) \<noteq> CHR ''-'' \<and> hd (digits_of n) \<noteq> CHR ''+''"
  using digits_of_char [of "hd (digits_of n)" n] by (auto simp: in_byte_range_def)

lemma parse_format_int:
  "0 \<le> i \<Longrightarrow> i \<le> int64_max \<Longrightarrow> parse_int64 (format_int i) = Some i"
  using digits_of_head [of "nat i"]
  by (simp add: parse_int64_def format_int_def parse_nat_def digits_of_digits value_digits_of
        int64_min_def Let_def)

lemma digits_of_inj: "digits_of m = digits_of n \<Longrightarrow> m = n"
  by (metis value_digits_of)

lemma until_sep:
  assumes "d \<notin> set a" and "d \<notin> set b" and "a @ d # x = b @ d # y"
  shows "a = b \<and> x = y"
  using assms
proof (induction a arbitrary: b)
  case Nil
  then show ?case by (cases b) auto
next
  case (Cons c cs)
  then show ?case by (cases b) auto
qed

end
