(* ===== verification/Go_Paths.thy ===== *)
theory Go_Paths
  imports Go_Strings
begin

section \<open>The part of Go's path/filepath package the program uses (Unix)\<close>

text \<open>
  \<open>filepath.IsAbs\<close>, \<open>filepath.Clean\<close>, \<open>filepath.Rel\<close>, \<open>filepath.Base\<close>, \<open>filepath.Ext\<close>
  and \<open>filepath.Join\<close> on slash-separated paths. The program calls \<open>Rel\<close> with an absolute
  base only, so \<open>rel_from_abs\<close> models that case: a relative target is the error \<open>None\<close>.
  The lemmas reduce every containment test of the program to a prefix test on path components.
\<close>

definition slash :: char where "slash = CHR ''/''"

definition is_abs :: "string \<Rightarrow> bool" where
  "is_abs p \<longleftrightarrow> p \<noteq> [] \<and> hd p = slash"

text \<open>One component of \<open>Clean\<close>: \<open>acc\<close> is the reversed list of components kept so far.\<close>

definition clean_step :: "bool \<Rightarrow> string list \<Rightarrow> string \<Rightarrow> string list" where
  "clean_step rooted acc c =
    (if c = [] \<or> c = ''.'' then acc
     else if c = ''..'' then
       (case acc of
          [] \<Rightarrow> (if rooted then [] else [''..''])
        | a # as \<Rightarrow> (if a = ''..'' then ''..'' # acc else as))
     else c # acc)"

definition clean_comps :: "string \<Rightarrow> string list" where
  "clean_comps p = rev (foldl (clean_step (is_abs p)) [] (split_on slash p))"

definition clean :: "string \<Rightarrow> string" where
  "clean p =
    (if p = [] then ''.''
     else if is_abs p then slash # join_with [slash] (clean_comps p)
     else if clean_comps p = [] then ''.''
     else join_with [slash] (clean_comps p))"

text \<open>The directory part before the last slash is dropped by \<open>filepath.Base\<close>.\<close>

definition base_name :: "string \<Rightarrow> string" where
  "base_name p =
    (if p = [] then ''.''
     else let q = rev (dropWhile (\<lambda>c. c = slash) (rev p))
          in if q = [] then [slash] else last (split_on slash q))"

text \<open>\<open>filepath.Ext\<close> of a name without a slash: the suffix from its last dot, or empty.\<close>

definition ext_of :: "string \<Rightarrow> string" where
  "ext_of n =
    (if CHR ''.'' \<in> set n then CHR ''.'' # rev (takeWhile (\<lambda>c. c \<noteq> CHR ''.'') (rev n)) else [])"

definition join_path :: "string \<Rightarrow> string \<Rightarrow> string" where
  "join_path a b =
    (if a = [] \<and> b = [] then [] else if a = [] then clean b
     else if b = [] then clean a else clean (a @ slash # b))"

fun strip_common :: "'a list \<Rightarrow> 'a list \<Rightarrow> 'a list \<times> 'a list" where
  "strip_common (x # xs) (y # ys) = (if x = y then strip_common xs ys else (x # xs, y # ys))"
| "strip_common xs ys = (xs, ys)"

definition rel_from_abs :: "string \<Rightarrow> string \<Rightarrow> string option" where
  "rel_from_abs base targ =
    (if \<not> is_abs targ then None
     else if clean base = clean targ then Some ''.''
     else (case strip_common (clean_comps base) (clean_comps targ) of
             (b, t) \<Rightarrow> Some (join_with [slash] (replicate (length b) ''..'' @ t))))"

subsection \<open>Components of a cleaned path\<close>

definition plain_comp :: "string \<Rightarrow> bool" where
  "plain_comp c \<longleftrightarrow> c \<noteq> [] \<and> c \<noteq> ''.'' \<and> c \<noteq> ''..'' \<and> slash \<notin> set c"

lemma plain_compD:
  assumes "plain_comp c"
  shows "c \<noteq> []" "c \<noteq> ''.''" "c \<noteq> ''..''" "slash \<notin> set c"
  using assms by (simp_all add: plain_comp_def)

lemma clean_step_plain:
  "slash \<notin> set c \<Longrightarrow> list_all plain_comp acc \<Longrightarrow> list_all plain_comp (clean_step True acc c)"
  by (auto simp: clean_step_def plain_comp_def split: list.split)

lemma foldl_clean_step_plain:
  "\<forall>c \<in> set cs. slash \<notin> set c \<Longrightarrow> list_all plain_comp acc
     \<Longrightarrow> list_all plain_comp (foldl (clean_step True) acc cs)"
  by (induction cs arbitrary: acc) (simp_all add: clean_step_plain)

lemma list_all_rev_iff [simp]: "list_all P (rev xs) \<longleftrightarrow> list_all P xs"
  by (simp add: list_all_iff)

lemma clean_comps_abs_plain [go_path_simps]: "is_abs p \<Longrightarrow> list_all plain_comp (clean_comps p)"
  using foldl_clean_step_plain [of "split_on slash p" "[]"] split_on_no_sep [of _ slash p]
  by (auto simp: clean_comps_def)

lemma foldl_clean_step_id:
  "list_all plain_comp cs \<Longrightarrow> foldl (clean_step r) acc cs = rev cs @ acc"
  by (induction cs arbitrary: acc) (auto simp: clean_step_def plain_comp_def)

lemma split_abs: "split_on slash (slash # s) = [] # split_on slash s"
  by simp

lemma clean_comps_join:
  assumes "list_all plain_comp cs"
  shows "clean_comps (slash # join_with [slash] cs) = cs"
proof (cases "cs = []")
  case True
  then show ?thesis
    by (simp add: clean_comps_def clean_step_def)
next
  case False
  have "\<forall>w \<in> set cs. slash \<notin> set w"
    using assms by (auto simp: list_all_iff plain_comp_def)
  with False have "split_on slash (join_with [slash] cs) = cs"
    by (rule split_join)
  then show ?thesis
    using assms by (simp add: clean_comps_def clean_step_def foldl_clean_step_id)
qed

lemma clean_abs: "is_abs p \<Longrightarrow> clean p = slash # join_with [slash] (clean_comps p)"
  by (auto simp: clean_def is_abs_def)

lemma clean_eq_iff_comps:
  assumes "is_abs p" and "is_abs q"
  shows "clean p = clean q \<longleftrightarrow> clean_comps p = clean_comps q"
proof
  assume "clean p = clean q"
  then have "slash # join_with [slash] (clean_comps p) = slash # join_with [slash] (clean_comps q)"
    by (simp only: clean_abs [OF assms(1)] clean_abs [OF assms(2)])
  then show "clean_comps p = clean_comps q"
    by (metis assms clean_comps_join clean_comps_abs_plain)
next
  assume "clean_comps p = clean_comps q"
  then show "clean p = clean q"
    by (simp only: clean_abs [OF assms(1)] clean_abs [OF assms(2)])
qed

lemma clean_idem_abs [go_path_simps]:
  assumes "is_abs p"
  shows "clean (clean p) = clean p"
proof -
  let ?q = "slash # join_with [slash] (clean_comps p)"
  have "clean_comps ?q = clean_comps p"
    by (rule clean_comps_join [OF clean_comps_abs_plain [OF assms]])
  moreover have "clean ?q = slash # join_with [slash] (clean_comps ?q)"
    by (rule clean_abs) (simp add: is_abs_def)
  ultimately show ?thesis
    by (simp only: clean_abs [OF assms])
qed

subsection \<open>Containment\<close>

lemma strip_common_spec:
  "strip_common xs ys = (a, b) \<Longrightarrow> \<exists>ps. xs = ps @ a \<and> ys = ps @ b"
proof (induction xs ys rule: strip_common.induct)
  case (1 x xs y ys)
  show ?case
  proof (cases "x = y")
    case True
    with 1 obtain ps where "xs = ps @ a" "ys = ps @ b" by auto
    with True have "x # xs = (x # ps) @ a \<and> y # ys = (x # ps) @ b" by simp
    then show ?thesis by blast
  next
    case False
    with 1 show ?thesis by auto
  qed
qed auto

lemma strip_common_prefix: "fst (strip_common xs ys) = [] \<longleftrightarrow> prefix xs ys"
  by (induction xs ys rule: strip_common.induct) auto

lemma strip_common_of_prefix: "prefix xs ys \<Longrightarrow> strip_common xs ys = ([], drop (length xs) ys)"
  by (induction xs ys rule: strip_common.induct) auto

text \<open>
  The test that \<open>sameOrWithin\<close> and the \<open>pathWithin\<close> functions make on the result of
  \<open>Rel\<close>: not an error, and neither \<open>".."\<close> nor below \<open>"../"\<close>.
\<close>

definition rel_inside :: "string option \<Rightarrow> bool" where
  "rel_inside r =
    (case r of
       None \<Rightarrow> False
     | Some rel \<Rightarrow> rel = ''.'' \<or> (rel \<noteq> ''..'' \<and> \<not> prefix ''../'' rel \<and> \<not> is_abs rel))"

lemma join_with_Cons: "ws \<noteq> [] \<Longrightarrow> join_with d (w # ws) = w @ d @ join_with d ws"
  by (cases ws) auto

lemma join_plain_outside:
  "rel_inside (Some (join_with [slash] (''..'' # ws))) = False"
  by (cases ws) (auto simp: rel_inside_def slash_def)

lemma join_plain_inside:
  assumes "list_all plain_comp ws" and "ws \<noteq> []"
  shows "rel_inside (Some (join_with [slash] ws))"
proof -
  obtain w vs where ws: "ws = w # vs" using assms(2) by (cases ws) auto
  have w: "w \<noteq> []" "w \<noteq> ''..''" "slash \<notin> set w"
    using assms(1) ws by (auto simp: plain_comp_def)
  obtain c cs where wc: "w = c # cs" using w(1) by (cases w) auto
  have j: "join_with [slash] ws = w \<or> (\<exists>r. join_with [slash] ws = w @ slash # r)"
    using ws by (cases vs) auto
  have "\<not> is_abs (join_with [slash] ws)"
    using j wc w(3) by (auto simp: is_abs_def)
  moreover have "join_with [slash] ws \<noteq> ''..''"
  proof
    assume h: "join_with [slash] ws = ''..''"
    then have no: "slash \<notin> set (join_with [slash] ws)" by (simp add: slash_def)
    from j show False
    proof
      assume "join_with [slash] ws = w"
      with h w(2) show False by simp
    next
      assume "\<exists>r. join_with [slash] ws = w @ slash # r"
      with no show False by auto
    qed
  qed
  moreover have "\<not> prefix ''../'' (join_with [slash] ws)"
  proof
    assume "prefix ''../'' (join_with [slash] ws)"
    then obtain z where z: "join_with [slash] ws = ''..'' @ slash # z"
      by (auto simp: prefix_def slash_def)
    have dots: "slash \<notin> set ''..''" by (simp add: slash_def)
    have sp: "split_on slash (join_with [slash] ws) = ws"
      by (rule split_join) (use assms in \<open>auto simp: list_all_iff plain_comp_def\<close>)
    have "split_on slash (''..'' @ slash # z) = ''..'' # split_on slash z"
      by (rule split_on_append [OF dots])
    with sp z ws have "w = ''..''" by simp
    with w(2) show False by simp
  qed
  ultimately show ?thesis
    by (simp add: rel_inside_def)
qed

lemma rel_inside_iff_prefix [go_path_simps]:
  assumes "is_abs base" and "is_abs targ"
  shows "rel_inside (rel_from_abs base targ) \<longleftrightarrow> prefix (clean_comps base) (clean_comps targ)"
proof (cases "clean base = clean targ")
  case True
  then have "clean_comps base = clean_comps targ"
    using clean_eq_iff_comps [OF assms] by simp
  with True assms show ?thesis
    by (simp add: rel_from_abs_def rel_inside_def)
next
  case False
  obtain b t where bt: "strip_common (clean_comps base) (clean_comps targ) = (b, t)"
    by (cases "strip_common (clean_comps base) (clean_comps targ)") auto
  have rel: "rel_from_abs base targ = Some (join_with [slash] (replicate (length b) ''..'' @ t))"
    using False assms bt by (simp add: rel_from_abs_def)
  have ne: "clean_comps base \<noteq> clean_comps targ"
    using False clean_eq_iff_comps [OF assms] by simp
  show ?thesis
  proof (cases b)
    case Nil
    then have pre: "prefix (clean_comps base) (clean_comps targ)"
      using bt strip_common_prefix [of "clean_comps base" "clean_comps targ"] by simp
    obtain ps where ps: "clean_comps base = ps @ b" "clean_comps targ = ps @ t"
      using strip_common_spec [OF bt] by blast
    have "t \<noteq> []" using ne ps Nil by auto
    moreover have "list_all plain_comp t"
      using clean_comps_abs_plain [OF assms(2)] ps by simp
    ultimately show ?thesis
      using pre rel Nil join_plain_inside [of t] by simp
  next
    case (Cons x xs)
    then have "\<not> prefix (clean_comps base) (clean_comps targ)"
      using bt strip_common_prefix [of "clean_comps base" "clean_comps targ"] by auto
    moreover have "\<not> rel_inside (rel_from_abs base targ)"
      using rel Cons join_plain_outside [of "replicate (length xs) ''..'' @ t"] by simp
    ultimately show ?thesis by simp
  qed
qed

subsection \<open>Relative paths that cleaning leaves unchanged\<close>

text \<open>
  A relative path is accepted by the program's path checks when \<open>Clean\<close> leaves it unchanged
  and it is neither \<open>"."\<close> nor climbs out; then every component is a plain name, so the path
  names something strictly below the directory it is resolved in.
\<close>

definition dots_then_plain :: "string list \<Rightarrow> bool" where
  "dots_then_plain acc \<longleftrightarrow> (\<exists>n ps. acc = ps @ replicate n ''..'' \<and> list_all plain_comp ps)"

lemma clean_step_dots_then_plain:
  assumes "slash \<notin> set c" and "dots_then_plain acc"
  shows "dots_then_plain (clean_step False acc c)"
proof -
  obtain n ps where acc: "acc = ps @ replicate n ''..''" and ps: "list_all plain_comp ps"
    using assms(2) by (auto simp: dots_then_plain_def)
  consider "c = [] \<or> c = ''.''" | "c = ''..''" | "plain_comp c"
    using assms(1) by (auto simp: plain_comp_def)
  then show ?thesis
  proof cases
    case 1
    with assms(2) show ?thesis by (auto simp: clean_step_def)
  next
    case 2
    show ?thesis
    proof (cases ps)
      case Nil
      then have "clean_step False acc c = [] @ replicate (Suc n) ''..''"
        using acc 2 by (cases n) (auto simp: clean_step_def)
      then show ?thesis
        unfolding dots_then_plain_def by (intro exI [of _ "Suc n"] exI [of _ "[]"]) simp
    next
      case (Cons a as)
      then have "clean_step False acc c = as @ replicate n ''..''"
        using acc ps 2 by (auto simp: clean_step_def plain_comp_def)
      then show ?thesis
        using ps Cons unfolding dots_then_plain_def by auto
    qed
  next
    case 3
    then have "clean_step False acc c = (c # ps) @ replicate n ''..''"
      using acc by (auto simp: clean_step_def plain_comp_def)
    then show ?thesis
      using ps 3 unfolding dots_then_plain_def by (intro exI [of _ n] exI [of _ "c # ps"]) simp
  qed
qed

lemma clean_comps_rel_shape:
  assumes "\<not> is_abs p"
  shows "\<exists>n ps. clean_comps p = replicate n ''..'' @ ps \<and> list_all plain_comp ps"
proof -
  have "dots_then_plain (foldl (clean_step False) [] (split_on slash p))"
  proof (rule foldl_invariant [where P = dots_then_plain])
    show "dots_then_plain []" by (auto simp: dots_then_plain_def)
  qed (auto intro: clean_step_dots_then_plain dest: split_on_no_sep)
  then obtain n ps where "foldl (clean_step False) [] (split_on slash p) = ps @ replicate n ''..''"
    and "list_all plain_comp ps"
    by (auto simp: dots_then_plain_def)
  then have "clean_comps p = replicate n ''..'' @ rev ps \<and> list_all plain_comp (rev ps)"
    using assms by (simp add: clean_comps_def)
  then show ?thesis by blast
qed

lemma clean_rel_plain:
  assumes rel: "\<not> is_abs p" and cl: "clean p = p"
    and dot: "p \<noteq> ''.''" and dd: "p \<noteq> ''..''" and up: "\<not> prefix ''../'' p"
  shows "list_all plain_comp (split_on slash p)"
proof -
  obtain n ps where c: "clean_comps p = replicate n ''..'' @ ps" and ps: "list_all plain_comp ps"
    using clean_comps_rel_shape [OF rel] by blast
  have ne: "p \<noteq> []"
  proof
    assume e: "p = []"
    then have "clean p = ''.''" by (simp add: clean_def)
    with cl e show False by simp
  qed
  have cp: "clean p = (if clean_comps p = [] then ''.'' else join_with [slash] (clean_comps p))"
    by (simp add: clean_def rel ne)
  have cne: "clean_comps p \<noteq> []" using cp cl dot by metis
  have j: "p = join_with [slash] (clean_comps p)" using cp cl cne by metis
  have dots: "slash \<notin> set ''..''" by (simp add: slash_def)
  have nos: "\<forall>w \<in> set (clean_comps p). slash \<notin> set w"
  proof
    fix w assume "w \<in> set (clean_comps p)"
    then have "w = ''..'' \<or> w \<in> set ps" by (simp only: c) auto
    then show "slash \<notin> set w"
      using ps dots by (auto simp only: list_all_iff plain_comp_def)
  qed
  have sp: "split_on slash p = clean_comps p"
    using split_join [OF cne nos] j by metis
  have "n = 0"
  proof (rule ccontr)
    assume "n \<noteq> 0"
    then obtain m where "n = Suc m" by (cases n) auto
    then have "clean_comps p = ''..'' # (replicate m ''..'' @ ps)" using c by simp
    then have "p = join_with [slash] (''..'' # (replicate m ''..'' @ ps))" using j by simp
    then consider "p = ''..''" | r where "p = ''..'' @ slash # r"
      by (cases "replicate m ''..'' @ ps") simp_all
    then show False
    proof cases
      case 1
      with dd show False by blast
    next
      case 2
      then have "prefix ''../'' p" by (simp only: slash_def) simp
      with up show False by blast
    qed
  qed
  with c ps sp show ?thesis by simp
qed

subsection \<open>A child of a directory\<close>

lemma split_on_append2: "split_on d (a @ d # b) = split_on d a @ split_on d b"
  by (induction a) (auto split: list.splits)

lemma clean_comps_child:
  assumes "is_abs a" and "plain_comp b"
  shows "clean_comps (a @ slash # b) = clean_comps a @ [b]"
proof -
  have abs: "is_abs (a @ slash # b) = is_abs a" using assms(1) by (auto simp: is_abs_def)
  have "split_on slash b = [b]" using assms(2) by (simp add: plain_comp_def split_on_plain)
  then show ?thesis using assms abs
    by (simp add: clean_comps_def split_on_append2) (simp add: clean_step_def plain_comp_def)
qed

lemma join_path_child:
  assumes "is_abs a" and "plain_comp b"
  shows "join_path a b = clean (a @ slash # b)"
  using assms by (auto simp: join_path_def is_abs_def plain_comp_def)

lemma is_abs_append: "is_abs a \<Longrightarrow> is_abs (a @ b)"
  by (auto simp: is_abs_def)

lemma join_path_inj:
  assumes "is_abs a" and "plain_comp b" and "plain_comp c"
  shows "join_path a b = join_path a c \<longleftrightarrow> b = c"
  using assms by (simp add: join_path_child clean_eq_iff_comps is_abs_append clean_comps_child)

lemma join_path_within:
  assumes "is_abs a" and "clean a = a" and "plain_comp b"
  shows "rel_inside (rel_from_abs a (join_path a b))"
proof -
  have c: "is_abs (clean (a @ slash # b))"
    using assms(1) by (simp add: clean_abs is_abs_append) (simp add: is_abs_def)
  have "clean_comps (clean (a @ slash # b)) = clean_comps (a @ slash # b)"
    using assms(1) clean_eq_iff_comps [OF c] clean_idem_abs is_abs_append by metis
  then show ?thesis
    using assms c by (simp add: join_path_child rel_inside_iff_prefix clean_comps_child)
qed

lemma lower_hex_plain: "lower_hex c \<Longrightarrow> c \<noteq> slash \<and> c \<noteq> CHR ''-'' \<and> c \<noteq> CHR ''.''"
  by (auto simp: lower_hex_def in_byte_range_def slash_def)

end
