(* ===== verification/Security_Policy.thy ===== *)
theory Security_Policy
  imports Go_Paths Go_Case
begin

section \<open>Typed execution policy (internal/security/policy.go)\<close>

text \<open>
  The domain values of \<open>policy.go\<close> and its pure functions: the identifier and path checks,
  environment validation, and the compilation of a policy and of an execution request into
  runtime inputs. Capabilities, targets, confirmation classes and network modes are Go string
  types, so any string can occur in a request; they are strings here, with the source's constants.
\<close>

subsection \<open>Constants and records\<close>

definition PolicyVersion :: string where "PolicyVersion = ''m3.2-v1''"

datatype sec_error = ErrDenied | ErrReplay | ErrExpired | ErrRequestMetadata | ErrUnauthenticated

definition CapabilityRepoRead :: string where "CapabilityRepoRead = ''repo.read''"
definition CapabilityRepoSearch :: string where "CapabilityRepoSearch = ''repo.search''"
definition CapabilityWorkspaceRead :: string where "CapabilityWorkspaceRead = ''workspace.read''"
definition CapabilityWorkspaceWrite :: string where "CapabilityWorkspaceWrite = ''workspace.write''"
definition CapabilityExecute :: string where "CapabilityExecute = ''runtime.execute''"
definition CapabilityProcessControl :: string where "CapabilityProcessControl = ''runtime.process''"
definition CapabilityRuntimeCreate :: string where "CapabilityRuntimeCreate = ''runtime.create''"
definition CapabilityNetworkRegistry :: string where "CapabilityNetworkRegistry = ''network.registry''"
definition CapabilityIntegrate :: string where "CapabilityIntegrate = ''repository.integrate''"
definition CapabilityPublish :: string where "CapabilityPublish = ''repository.publish''"

lemmas capability_defs = CapabilityRepoRead_def CapabilityRepoSearch_def CapabilityWorkspaceRead_def
  CapabilityWorkspaceWrite_def CapabilityExecute_def CapabilityProcessControl_def
  CapabilityRuntimeCreate_def CapabilityNetworkRegistry_def CapabilityIntegrate_def
  CapabilityPublish_def

definition TargetLiveRepository :: string where "TargetLiveRepository = ''live_repository''"
definition TargetTaskWorkspace :: string where "TargetTaskWorkspace = ''task_workspace''"
definition TargetRuntime :: string where "TargetRuntime = ''runtime''"

lemmas target_defs = TargetLiveRepository_def TargetTaskWorkspace_def TargetRuntime_def

definition ConfirmationNone :: string where "ConfirmationNone = ''none''"
definition ConfirmationDestructive :: string where "ConfirmationDestructive = ''destructive''"
definition ConfirmationPublication :: string where "ConfirmationPublication = ''publication''"

lemmas confirmation_defs = ConfirmationNone_def ConfirmationDestructive_def ConfirmationPublication_def

definition NetworkNone :: string where "NetworkNone = ''none''"
definition NetworkRegistry :: string where "NetworkRegistry = ''registry''"
definition NetworkFull :: string where "NetworkFull = ''full''"

lemmas network_defs = NetworkNone_def NetworkRegistry_def NetworkFull_def

definition MountTaskWorkspace :: string where "MountTaskWorkspace = ''task_workspace''"

record mount_rule =
  mr_Source :: string
  mr_Target :: string
  mr_ReadOnly :: bool

record network_policy =
  np_Mode :: string
  np_RegistryDomain :: "string list"

record credential_policy =
  cp_AllowedScopes :: "string list"
  cp_Provider :: string

record execution_policy =
  xp_AllowedExecutables :: "string list"
  xp_MaxArgBytes :: int
  xp_MaxArguments :: int
  xp_MaxEnvironmentBytes :: int
  xp_MaxEnvironmentItems :: int

record policy =
  pol_Version :: string
  pol_Capabilities :: "string list"
  pol_Mounts :: "mount_rule list"
  pol_Network :: network_policy
  pol_Credentials :: credential_policy
  pol_Execution :: execution_policy

record confirmation_binding =
  cb_Action :: string
  cb_RepositoryID :: string
  cb_PrincipalID :: string
  cb_SessionID :: string
  cb_GenerationID :: string
  cb_FencingGeneration :: nat
  cb_CandidateSnapshot :: string
  cb_PlanDigest :: string

record execution_spec =
  xs_Backend :: string
  xs_Executable :: string
  xs_Arguments :: "string list"
  xs_CWD :: string
  xs_Environment :: "string list"

record sec_request =
  rq_SessionID :: string
  rq_PrincipalID :: string
  rq_RepositoryID :: string
  rq_Nonce :: string
  rq_Capability :: string
  rq_Target :: string
  rq_Path :: string
  rq_TrustedIntegrationRef :: string
  rq_ConfirmationToken :: string
  rq_ConfirmationBinding :: confirmation_binding
  rq_Execution :: execution_spec

record sec_binding =
  bd_RepositoryID :: string
  bd_FilesystemID :: string
  bd_LiveRepository :: string
  bd_TaskWorkspace :: string
  bd_WorkspaceID :: string

record compiled_mount =
  cm_Source :: string
  cm_Target :: string
  cm_ReadOnly :: bool

record compiled_policy =
  cpl_Version :: string
  cpl_Mounts :: "compiled_mount list"
  cpl_Network :: network_policy
  cpl_Provider :: string
  cpl_Scopes :: "string list"

type_synonym compiled_execution = execution_spec

subsection \<open>Identifiers and paths\<close>

definition validOpaque :: "string \<Rightarrow> bool" where
  "validOpaque v \<longleftrightarrow>
     \<not> (v = [] \<or> 256 < length v \<or> \<not> utf8_valid v
        \<or> contains_any v [NUL, CR, LF, CHR ''/'', CHR 0x5C])"

definition validID :: "string \<Rightarrow> bool" where
  "validID v \<longleftrightarrow> validOpaque v \<and> \<not> sublist ''secret'' v \<and> \<not> sublist ''token'' v"

text \<open>A rune in the two ranges of the source is one ASCII byte, so the loop over runes is a
  test of every byte.\<close>

definition validIdentity :: "string \<Rightarrow> bool" where
  "validIdentity v \<longleftrightarrow> length v = 64 \<and> utf8_valid v \<and> list_all lower_hex v"

definition sec_validRelativePath :: "string \<Rightarrow> bool" where
  "sec_validRelativePath p \<longleftrightarrow>
     \<not> (p = [] \<or> is_abs p \<or> contains_any p [CHR 0x5C, NUL])
     \<and> clean p = p \<and> clean p \<noteq> ''.'' \<and> clean p \<noteq> ''..'' \<and> \<not> prefix ''../'' (clean p)"

definition safeAbsolute :: "string \<Rightarrow> bool" where
  "safeAbsolute p \<longleftrightarrow> p \<noteq> [] \<and> is_abs p \<and> clean p = p \<and> \<not> contains_any p control_chars"

definition safeRuntimePath :: "string \<Rightarrow> bool" where
  "safeRuntimePath p \<longleftrightarrow>
     safeAbsolute p \<and> (p = ''/workspace'' \<or> prefix ''/workspace/'' p) \<and> \<not> sublist ''..'' p"

definition sameOrWithin :: "string \<Rightarrow> string \<Rightarrow> bool" where
  "sameOrWithin parent candidate \<longleftrightarrow>
     (if \<not> safeAbsolute parent \<or> \<not> safeAbsolute candidate then True
      else rel_inside (rel_from_abs parent candidate))"

definition isShell :: "string \<Rightarrow> bool" where
  "isShell executable =
    (let base = to_lower (base_name executable)
     in base \<in> {''sh'', ''bash'', ''zsh'', ''fish'', ''cmd'', ''powershell''})"

subsection \<open>Environment\<close>

definition is_upper_letter :: "char \<Rightarrow> bool" where "is_upper_letter c = in_byte_range 65 90 c"
definition is_lower_letter :: "char \<Rightarrow> bool" where "is_lower_letter c = in_byte_range 97 122 c"

definition validEnvironmentName :: "string \<Rightarrow> bool" where
  "validEnvironmentName name =
    (case name of
       [] \<Rightarrow> False
     | c # cs \<Rightarrow>
         (c = CHR ''_'' \<or> is_upper_letter c \<or> is_lower_letter c)
         \<and> list_all (\<lambda>v. v = CHR ''_'' \<or> is_upper_letter v \<or> is_lower_letter v \<or> is_digit v) cs)"

definition protected_names :: "string list" where
  "protected_names =
    [''PATH'', ''HOME'', ''TMPDIR'', ''LC_ALL'', ''PWD'', ''OLDPWD'', ''SHELL'', ''ENV'',
     ''BASH_ENV'', ''ZDOTDIR'', ''LD_PRELOAD'', ''LD_LIBRARY_PATH'', ''GIT_CONFIG_SYSTEM'',
     ''GIT_CONFIG_GLOBAL'']"

definition protectedEnvironmentName :: "string \<Rightarrow> bool" where
  "protectedEnvironmentName name = list_ex (\<lambda>p. to_upper name = p) protected_names"

definition sensitive_markers :: "string list" where
  "sensitive_markers =
    [''AUTHORIZATION'', ''BEARER'', ''TOKEN'', ''SECRET'', ''PASSWORD'', ''PRIVATE_KEY'',
     ''SSH_AUTH_SOCK'', ''CONTROL_PLANE_API_KEY'', ''OPERATOR_KEY'', ''GITHUB_TOKEN'',
     ''AWS_SECRET'', ''AWS_ACCESS_KEY'', ''AZURE_CLIENT_SECRET'',
     ''GOOGLE_APPLICATION_CREDENTIALS'']"

definition containsSensitiveEnvironmentMarker :: "string \<Rightarrow> bool" where
  "containsSensitiveEnvironmentMarker name =
     list_ex (\<lambda>m. sublist m (to_upper name)) sensitive_markers"

fun validate_env_loop :: "bool \<Rightarrow> int \<Rightarrow> int \<Rightarrow> string list \<Rightarrow> bool" where
  "validate_env_loop user maxBytes used [] = True"
| "validate_env_loop user maxBytes used (v # vs) =
    (case cut_at (CHR ''='') v of
       (name, _, ok) \<Rightarrow>
         if \<not> ok \<or> \<not> validEnvironmentName name \<or> contains_any v control_chars \<or> \<not> utf8_valid v
         then False
         else if user \<and> protectedEnvironmentName name then False
         else if containsSensitiveEnvironmentMarker name then False
         else (let used' = used + int (length v)
               in if used' > maxBytes then False
                  else validate_env_loop user maxBytes used' vs))"

definition validateEnvironment :: "string list \<Rightarrow> int \<Rightarrow> int \<Rightarrow> bool \<Rightarrow> bool" where
  "validateEnvironment values maxItems maxBytes userSupplied =
    (if int (length values) > maxItems \<or> maxItems \<le> 0 \<or> maxBytes \<le> 0 then False
     else validate_env_loop userSupplied maxBytes 0 values)"

definition ValidateEnvironment :: "string list \<Rightarrow> bool" where
  "ValidateEnvironment values = validateEnvironment values 128 32768 False"

definition ValidateUserEnvironment :: "string list \<Rightarrow> int \<Rightarrow> int \<Rightarrow> bool" where
  "ValidateUserEnvironment values maxItems maxBytes = validateEnvironment values maxItems maxBytes True"

subsection \<open>Policies, targets, confirmation classes\<close>

definition validatePolicy :: "policy \<Rightarrow> bool" where
  "validatePolicy p \<longleftrightarrow>
     pol_Version p = PolicyVersion
     \<and> list_all (\<lambda>c. c \<noteq> []) (pol_Capabilities p) \<and> distinct (pol_Capabilities p)
     \<and> np_Mode (pol_Network p) \<noteq> NetworkFull"

definition containsCapability :: "string list \<Rightarrow> string \<Rightarrow> bool" where
  "containsCapability cs wanted = list_ex (\<lambda>c. c = wanted) cs"

lemma containsCapability_iff [simp]: "containsCapability cs w \<longleftrightarrow> w \<in> set cs"
  by (auto simp: containsCapability_def list_ex_iff)

definition validateTarget :: "sec_request \<Rightarrow> sec_binding \<Rightarrow> bool" where
  "validateTarget r b =
    ((if rq_Capability r = CapabilityRepoRead \<or> rq_Capability r = CapabilityRepoSearch then
        rq_Target r = TargetLiveRepository \<and> sec_validRelativePath (rq_Path r)
      else if rq_Capability r \<in> {CapabilityWorkspaceRead, CapabilityWorkspaceWrite,
                CapabilityExecute, CapabilityProcessControl, CapabilityRuntimeCreate} then
        (rq_Target r = TargetTaskWorkspace \<or> rq_Target r = TargetRuntime)
        \<and> (rq_Path r \<noteq> [] \<longrightarrow> sec_validRelativePath (rq_Path r))
      else if rq_Capability r = CapabilityIntegrate \<or> rq_Capability r = CapabilityPublish then
        rq_Target r = TargetLiveRepository \<and> (rq_Path r \<noteq> [] \<longrightarrow> sec_validRelativePath (rq_Path r))
      else False)
     \<and> \<not> (sameOrWithin (bd_LiveRepository b) (bd_TaskWorkspace b)
          \<or> sameOrWithin (bd_TaskWorkspace b) (bd_LiveRepository b)))"

definition requiredConfirmation :: "string \<Rightarrow> string" where
  "requiredConfirmation c =
    (if c = CapabilityIntegrate then ConfirmationDestructive
     else if c = CapabilityPublish then ConfirmationPublication
     else ConfirmationNone)"

definition canonicalDomains :: "string list \<Rightarrow> string list" where
  "canonicalDomains ds =
    sort (remdups (filter (\<lambda>d. d \<noteq> [] \<and> \<not> contains_any d [CHR ''/'', CHR 0x5C, NUL, CHR '':'', CHR '' ''])
                          (map (\<lambda>d. ToLower (trim_space d)) ds)))"

subsection \<open>Compiling a policy\<close>

fun compile_mounts :: "policy \<Rightarrow> sec_binding \<Rightarrow> mount_rule list \<Rightarrow> compiled_mount list option" where
  "compile_mounts p b [] = Some []"
| "compile_mounts p b (m # ms) =
    (if mr_Source m \<noteq> MountTaskWorkspace \<or> \<not> safeAbsolute (mr_Target m)
        \<or> sameOrWithin (bd_LiveRepository b) (bd_TaskWorkspace b)
     then None
     else
       (let ro = (if containsCapability (pol_Capabilities p) CapabilityWorkspaceWrite
                  then False else mr_ReadOnly m)
        in map_option (\<lambda>rest. \<lparr>cm_Source = bd_TaskWorkspace b, cm_Target = mr_Target m,
                                cm_ReadOnly = ro\<rparr> # rest)
             (compile_mounts p b ms)))"

definition compile_network :: "policy \<Rightarrow> network_policy option" where
  "compile_network p =
    (let net = pol_Network p;
         net = (if np_Mode net = [] then net\<lparr>np_Mode := NetworkNone\<rparr> else net)
     in if np_Mode net = NetworkFull then None
        else if np_Mode net = NetworkRegistry then
          (if \<not> containsCapability (pol_Capabilities p) CapabilityNetworkRegistry
              \<or> np_RegistryDomain net = [] then None
           else (let ds = canonicalDomains (np_RegistryDomain net)
                 in if ds = [] then None else Some (net\<lparr>np_RegistryDomain := ds\<rparr>)))
        else if np_Mode net \<noteq> NetworkNone then None
        else Some net)"

definition Compile :: "policy \<Rightarrow> sec_binding \<Rightarrow> sec_error + compiled_policy" where
  "Compile p b =
    (if \<not> validatePolicy p \<or> \<not> validIdentity (bd_RepositoryID b) \<or> bd_FilesystemID b = []
        \<or> \<not> validOpaque (bd_WorkspaceID b) \<or> \<not> safeAbsolute (bd_TaskWorkspace b)
        \<or> \<not> safeAbsolute (bd_LiveRepository b)
        \<or> sameOrWithin (bd_LiveRepository b) (bd_TaskWorkspace b)
        \<or> sameOrWithin (bd_TaskWorkspace b) (bd_LiveRepository b)
     then Inl ErrDenied
     else
       (case compile_mounts p b (pol_Mounts p) of
          None \<Rightarrow> Inl ErrDenied
        | Some ms \<Rightarrow>
            let ms' = (if ms = []
                       then [\<lparr>cm_Source = bd_TaskWorkspace b, cm_Target = ''/workspace'',
                              cm_ReadOnly = (\<not> containsCapability (pol_Capabilities p)
                                                 CapabilityWorkspaceWrite)\<rparr>]
                       else ms)
            in (case compile_network p of
                  None \<Rightarrow> Inl ErrDenied
                | Some net \<Rightarrow>
                    Inr \<lparr>cpl_Version = pol_Version p, cpl_Mounts = ms', cpl_Network = net,
                         cpl_Provider = cp_Provider (pol_Credentials p),
                         cpl_Scopes = cp_AllowedScopes (pol_Credentials p)\<rparr>)))"

subsection \<open>Compiling an execution request\<close>

definition default_if_not_positive :: "int \<Rightarrow> int \<Rightarrow> int" where
  "default_if_not_positive d v = (if v \<le> 0 then d else v)"

definition args_valid :: "string list \<Rightarrow> bool" where
  "args_valid args = list_all (\<lambda>a. NUL \<notin> set a \<and> utf8_valid a) args"

definition total_bytes :: "string list \<Rightarrow> int" where
  "total_bytes args = sum_list (map (\<lambda>a. int (length a)) args)"

definition CompileExecution :: "execution_policy \<Rightarrow> execution_spec \<Rightarrow> sec_error + compiled_execution" where
  "CompileExecution p spec =
    (if xs_Backend spec \<noteq> ''apple-container'' \<and> xs_Backend spec \<noteq> ''lima'' then Inl ErrDenied
     else if \<not> safeRuntimePath (xs_CWD spec) \<or> xs_Executable spec = []
             \<or> contains_any (xs_Executable spec) control_chars
             \<or> xs_Executable spec \<notin> set (xp_AllowedExecutables p) then Inl ErrDenied
     else if isShell (xs_Executable spec) \<and> xs_Backend spec \<noteq> ''apple-container'' then Inl ErrDenied
     else if int (length (xs_Arguments spec)) > default_if_not_positive 128 (xp_MaxArguments p)
     then Inl ErrDenied
     else if \<not> args_valid (xs_Arguments spec) then Inl ErrDenied
     else if total_bytes (xs_Arguments spec) > default_if_not_positive 65536 (xp_MaxArgBytes p)
     then Inl ErrDenied
     else if \<not> ValidateUserEnvironment (xs_Environment spec)
                (default_if_not_positive 64 (xp_MaxEnvironmentItems p))
                (default_if_not_positive 16384 (xp_MaxEnvironmentBytes p)) then Inl ErrDenied
     else Inr \<lparr>xs_Backend = xs_Backend spec, xs_Executable = xs_Executable spec,
               xs_Arguments = xs_Arguments spec, xs_CWD = xs_CWD spec,
               xs_Environment = xs_Environment spec\<rparr>)"

subsection \<open>Redaction of audit details\<close>

definition map_drop_nul_cr :: "string \<Rightarrow> string" where
  "map_drop_nul_cr v =
    concat (map (\<lambda>p. if fst p = 0 \<or> fst p = 13 then []
                     else if bad_rune p then replacement_bytes else snd p) (runes v))"

definition redact_markers :: "string list" where
  "redact_markers =
    [''authorization: bearer '', ''-----begin private key-----'', ''ghp_'', ''github_pat_'', ''sk-proj-'']"

definition redact :: "string \<Rightarrow> string" where
  "redact value =
    (let v = map_drop_nul_cr value
     in if list_ex (\<lambda>m. sublist m (to_lower v)) redact_markers then ''[redacted]''
        else if length v > 1024 then take 1024 v @ [CHR 0xE2, CHR 0x80, CHR 0xA6]
        else v)"

subsection \<open>Path checks as statements about components\<close>

text \<open>On two safe absolute paths \<open>sameOrWithin\<close> is exactly "the components of the parent are
  a prefix of the components of the candidate"; if either path is not safe it answers True, so
  every caller that rejects on True fails closed.\<close>

theorem sameOrWithin_iff:
  "sameOrWithin p c \<longleftrightarrow>
     (safeAbsolute p \<and> safeAbsolute c \<longrightarrow> prefix (clean_comps p) (clean_comps c))"
  by (auto simp: sameOrWithin_def safeAbsolute_def rel_inside_iff_prefix)

theorem sameOrWithin_iff_witness:
  "safeAbsolute ''/a/b'' \<and> safeAbsolute ''/a/b/c'' \<and> sameOrWithin ''/a/b'' ''/a/b/c''
   \<and> \<not> sameOrWithin ''/a/b'' ''/a/bc''"
proof -
  have 1: "safeAbsolute ''/a/b''" "safeAbsolute ''/a/b/c''" "safeAbsolute ''/a/bc''"
    by code_simp+
  have 2: "prefix (clean_comps ''/a/b'') (clean_comps ''/a/b/c'')"
    "\<not> prefix (clean_comps ''/a/b'') (clean_comps ''/a/bc'')"
    by code_simp+
  show ?thesis
    using 1 2 sameOrWithin_iff [of "''/a/b''" "''/a/b/c''"] sameOrWithin_iff [of "''/a/b''" "''/a/bc''"]
    by blast
qed

lemma sameOrWithin_prefix:
  assumes "safeAbsolute p" and "safeAbsolute c"
  shows "sameOrWithin p c \<longleftrightarrow> prefix (clean_comps p) (clean_comps c)"
  using assms by (simp add: sameOrWithin_def safeAbsolute_def rel_inside_iff_prefix)

lemma sec_validRelativePath_plain:
  assumes "sec_validRelativePath p"
  shows "list_all plain_comp (split_on slash p)"
  using assms by (intro clean_rel_plain) (auto simp: sec_validRelativePath_def)

lemma safeRuntimePath_comps:
  assumes "safeRuntimePath p"
  shows "prefix [''workspace''] (clean_comps p)"
proof -
  have abs: "is_abs p" "clean p = p" using assms by (auto simp: safeRuntimePath_def safeAbsolute_def)
  have ws: "slash \<notin> set ''workspace''" by (simp add: slash_def)
  have "p = slash # ''workspace'' \<or> (\<exists>r. p = slash # ''workspace'' @ slash # r)"
    using assms by (auto simp: safeRuntimePath_def slash_def prefix_def)
  then have "\<exists>rest. split_on slash p = [] # ''workspace'' # rest"
  proof
    assume "p = slash # ''workspace''"
    then show ?thesis
      using split_on_plain [OF ws] by (simp only: split_abs) blast
  next
    assume "\<exists>r. p = slash # ''workspace'' @ slash # r"
    then obtain r where "p = slash # ''workspace'' @ slash # r" by blast
    then show ?thesis
      using split_on_append [OF ws, of r] by (simp only: split_abs) blast
  qed
  then obtain rest where sp: "split_on slash p = [] # ''workspace'' # rest" by blast
  have pl: "list_all plain_comp (clean_comps p)" by (rule clean_comps_abs_plain [OF abs(1)])
  have "p = slash # join_with [slash] (clean_comps p)"
    using clean_abs [OF abs(1)] abs(2) by simp
  then have sp2: "split_on slash p = [] # split_on slash (join_with [slash] (clean_comps p))"
    by (metis split_abs)
  show ?thesis
  proof (cases "clean_comps p = []")
    case True
    then show ?thesis using sp sp2 by simp
  next
    case False
    have "split_on slash (join_with [slash] (clean_comps p)) = clean_comps p"
      by (rule split_join [OF False]) (use pl in \<open>auto simp: list_all_iff plain_comp_def\<close>)
    then have "clean_comps p = ''workspace'' # rest" using sp sp2 by simp
    then show ?thesis by simp
  qed
qed

subsection \<open>What a compiled policy exposes\<close>

lemma compile_mounts_spec:
  "compile_mounts p b ms = Some cms \<Longrightarrow>
     cms = map (\<lambda>m. \<lparr>cm_Source = bd_TaskWorkspace b, cm_Target = mr_Target m,
                     cm_ReadOnly = (CapabilityWorkspaceWrite \<notin> set (pol_Capabilities p)
                                    \<and> mr_ReadOnly m)\<rparr>) ms
     \<and> list_all (\<lambda>m. mr_Source m = MountTaskWorkspace \<and> safeAbsolute (mr_Target m)) ms"
  by (induction ms arbitrary: cms) (auto simp: Let_def split: if_splits)

lemma canonicalDomains_sorted: "sorted (canonicalDomains ds) \<and> distinct (canonicalDomains ds)"
  by (simp add: canonicalDomains_def)

lemma safe_workspace_root: "safeAbsolute ''/workspace''"
  by code_simp

text \<open>Two directories are disjoint when neither component list is a prefix of the other.\<close>

definition disjoint_trees :: "string \<Rightarrow> string \<Rightarrow> bool" where
  "disjoint_trees p q \<longleftrightarrow>
     \<not> prefix (clean_comps p) (clean_comps q) \<and> \<not> prefix (clean_comps q) (clean_comps p)"

text \<open>The domains a request for registries stands for, one by one.\<close>

lemma canonicalDomains_iff:
  "d \<in> set (canonicalDomains ds) \<longleftrightarrow>
     (\<exists>d0 \<in> set ds. d = ToLower (trim_space d0)) \<and> d \<noteq> [] \<and> \<not> contains_any d [CHR ''/'', CHR 0x5C, NUL, CHR '':'', CHR '' '']"
  by (auto simp: canonicalDomains_def)

lemma compile_network_spec:
  assumes "compile_network p = Some net"
  shows "(np_Mode net = NetworkNone \<and> np_Mode (pol_Network p) \<in> {[], NetworkNone})
    \<or> (np_Mode net = NetworkRegistry \<and> np_Mode (pol_Network p) = NetworkRegistry
       \<and> CapabilityNetworkRegistry \<in> set (pol_Capabilities p)
       \<and> np_RegistryDomain net = canonicalDomains (np_RegistryDomain (pol_Network p)) \<and> np_RegistryDomain net \<noteq> [])"
  using assms by (auto simp: compile_network_def Let_def network_defs split: if_splits)

text \<open>C4: A policy that compiles exposes nothing but the task workspace. The workspace and the live
  repository are disjoint trees. The mounts are those of the policy, in their order, each with the
  workspace as its source and a safe absolute target, and read-only exactly when the policy's mount is
  and workspace.write is not granted; without mounts there is one, at /workspace, read-only exactly when
  workspace.write is not granted. The network is off, or the policy asks for registries and grants it:
  then the domains are, sorted and without repetition, exactly those of the policy without surrounding
  space and in lower case, less the empty ones and those with a slash, a backslash, a NUL, a colon or a
  space, and there is at least one.\<close>

theorem Compile_isolates:
  assumes ok: "Compile p b = Inr c"
  shows "disjoint_trees (bd_LiveRepository b) (bd_TaskWorkspace b)
    \<and> (\<forall>m \<in> set (pol_Mounts p). mr_Source m = MountTaskWorkspace \<and> safeAbsolute (mr_Target m))
    \<and> cpl_Mounts c =
        (if pol_Mounts p = []
         then [\<lparr>cm_Source = bd_TaskWorkspace b, cm_Target = ''/workspace'',
                cm_ReadOnly = (CapabilityWorkspaceWrite \<notin> set (pol_Capabilities p))\<rparr>]
         else map (\<lambda>m. \<lparr>cm_Source = bd_TaskWorkspace b, cm_Target = mr_Target m,
                        cm_ReadOnly = (CapabilityWorkspaceWrite \<notin> set (pol_Capabilities p) \<and> mr_ReadOnly m)\<rparr>) (pol_Mounts p))
    \<and> (np_Mode (cpl_Network c) = NetworkNone
       \<or> (np_Mode (cpl_Network c) = NetworkRegistry \<and> np_Mode (pol_Network p) = NetworkRegistry
          \<and> CapabilityNetworkRegistry \<in> set (pol_Capabilities p)
          \<and> np_RegistryDomain (cpl_Network c) \<noteq> []
          \<and> sorted (np_RegistryDomain (cpl_Network c)) \<and> distinct (np_RegistryDomain (cpl_Network c))
          \<and> set (np_RegistryDomain (cpl_Network c)) =
              {d \<in> (\<lambda>d0. ToLower (trim_space d0)) ` set (np_RegistryDomain (pol_Network p)).
                 d \<noteq> [] \<and> \<not> contains_any d [CHR ''/'', CHR 0x5C, NUL, CHR '':'', CHR '' '']}))"
proof -
  let ?b = "bd_TaskWorkspace b"
  obtain ms net where
    safe: "safeAbsolute ?b" "safeAbsolute (bd_LiveRepository b)"
    and out: "\<not> sameOrWithin (bd_LiveRepository b) ?b" "\<not> sameOrWithin ?b (bd_LiveRepository b)"
    and ms: "compile_mounts p b (pol_Mounts p) = Some ms"
    and net: "compile_network p = Some net"
    and c: "cpl_Mounts c = (if ms = []
               then [\<lparr>cm_Source = ?b, cm_Target = ''/workspace'',
                      cm_ReadOnly = (\<not> containsCapability (pol_Capabilities p) CapabilityWorkspaceWrite)\<rparr>]
               else ms)" "cpl_Network c = net"
    using ok by (auto simp: Compile_def Let_def split: if_splits option.splits)
  have "disjoint_trees (bd_LiveRepository b) ?b"
    using safe out by (simp add: disjoint_trees_def sameOrWithin_prefix)
  moreover have "\<forall>m \<in> set (pol_Mounts p). mr_Source m = MountTaskWorkspace \<and> safeAbsolute (mr_Target m)"
    using compile_mounts_spec [OF ms] by (simp add: list_all_iff)
  moreover note c(1) [unfolded compile_mounts_spec [OF ms, THEN conjunct1]]
  moreover have "set (canonicalDomains ds) = {d \<in> (\<lambda>d0. ToLower (trim_space d0)) ` set ds.
                 d \<noteq> [] \<and> \<not> contains_any d [CHR ''/'', CHR 0x5C, NUL, CHR '':'', CHR '' '']}" for ds
    by (auto simp: canonicalDomains_iff)
  ultimately show ?thesis
    using compile_network_spec [OF net] canonicalDomains_sorted by (auto simp: c(2))
qed

text \<open>The policy the composition root installs (\<open>defaultPolicy\<close> of
  internal/controlplane/plane.go).\<close>

definition defaultPolicy :: policy where
  "defaultPolicy =
    \<lparr>pol_Version = PolicyVersion,
     pol_Capabilities =
       [CapabilityRepoRead, CapabilityRepoSearch, CapabilityWorkspaceRead, CapabilityWorkspaceWrite,
        CapabilityExecute, CapabilityProcessControl, CapabilityRuntimeCreate, CapabilityIntegrate,
        CapabilityPublish],
     pol_Mounts = [\<lparr>mr_Source = MountTaskWorkspace, mr_Target = ''/workspace'', mr_ReadOnly = False\<rparr>],
     pol_Network = \<lparr>np_Mode = NetworkNone, np_RegistryDomain = []\<rparr>,
     pol_Credentials = \<lparr>cp_AllowedScopes = [], cp_Provider = []\<rparr>,
     pol_Execution =
       \<lparr>xp_AllowedExecutables =
          [''sh'', ''bash'', ''zsh'', ''go'', ''node'', ''npm'', ''pnpm'', ''yarn'', ''npx'', ''cargo'',
           ''rustc'', ''python'', ''python3'', ''pip'', ''pip3'', ''uv'', ''poetry'', ''git'', ''make'',
           ''staticcheck'', ''golangci-lint'', ''ruff'', ''black'', ''mypy'', ''pytest'', ''eslint'',
           ''tsc'', ''deno'', ''nx'', ''turbo'', ''bazel''],
        xp_MaxArgBytes = 8192, xp_MaxArguments = 64, xp_MaxEnvironmentBytes = 16384,
        xp_MaxEnvironmentItems = 64\<rparr>\<rparr>"

text \<open>Concrete values the witnesses of this and the following theories evaluate.\<close>

definition sample_identity :: string where
  "sample_identity = replicate 64 (CHR ''a'')"

definition sample_binding :: sec_binding where
  "sample_binding =
    \<lparr>bd_RepositoryID = sample_identity, bd_FilesystemID = sample_identity,
     bd_LiveRepository = ''/live/repo'', bd_TaskWorkspace = ''/state/gen'',
     bd_WorkspaceID = ''gen''\<rparr>"

lemma sample_compiles: "is_ok (Compile defaultPolicy sample_binding)"
  by code_simp

theorem Compile_isolates_witness:
  "\<exists>c. Compile defaultPolicy sample_binding = Inr c
     \<and> disjoint_trees (bd_LiveRepository sample_binding) (bd_TaskWorkspace sample_binding)"
proof -
  obtain c where c: "Compile defaultPolicy sample_binding = Inr c"
    using sample_compiles by (auto simp: is_ok_iff)
  show ?thesis using c Compile_isolates [OF c] by blast
qed

subsection \<open>What a compiled execution may run\<close>

lemma validate_env_loop_spec:
  assumes "validate_env_loop user maxBytes used vs" and "used \<le> maxBytes"
  shows "used + total_bytes vs \<le> maxBytes
    \<and> (\<forall>v \<in> set vs. \<exists>name val. v = name @ CHR ''='' # val \<and> validEnvironmentName name
         \<and> (user \<longrightarrow> \<not> protectedEnvironmentName name)
         \<and> \<not> containsSensitiveEnvironmentMarker name \<and> \<not> contains_any v control_chars)"
  using assms
proof (induction user maxBytes used vs rule: validate_env_loop.induct)
  case (2 user maxBytes used v vs)
  obtain name val ok where cut: "cut_at (CHR ''='') v = (name, val, ok)"
    by (cases "cut_at (CHR ''='') v") auto
  from 2(2) cut have ok: "ok" "validEnvironmentName name" "\<not> contains_any v control_chars"
    "utf8_valid v" "user \<longrightarrow> \<not> protectedEnvironmentName name" "\<not> containsSensitiveEnvironmentMarker name"
    and le: "used + int (length v) \<le> maxBytes"
    and rest: "validate_env_loop user maxBytes (used + int (length v)) vs"
    by (auto simp: Let_def split: if_splits)
  have v: "v = name @ CHR ''='' # val" using cut ok(1) cut_at_sound by simp
  have IH: "used + int (length v) + total_bytes vs \<le> maxBytes
    \<and> (\<forall>v \<in> set vs. \<exists>name val. v = name @ CHR ''='' # val \<and> validEnvironmentName name
         \<and> (user \<longrightarrow> \<not> protectedEnvironmentName name)
         \<and> \<not> containsSensitiveEnvironmentMarker name \<and> \<not> contains_any v control_chars)"
    by (rule "2.IH" [OF cut [symmetric] refl]) (use ok le rest in \<open>auto\<close>)
  then show ?case using v ok by (auto simp: total_bytes_def)
qed (simp add: total_bytes_def)

text \<open>An execution that compiles is the request itself, on one of the two runtime backends
  with an allow-listed executable; a shell only ever crosses into apple-container; the working
  directory has \<open>workspace\<close> as its first component; argument and environment sizes respect the
  policy's limits (or the defaults); and no environment entry overrides a baseline variable or
  carries a credential-like name.\<close>

theorem CompileExecution_safe:
  assumes ok: "CompileExecution p spec = Inr e"
  shows "e = spec
    \<and> xs_Backend e \<in> {''apple-container'', ''lima''}
    \<and> xs_Executable e \<in> set (xp_AllowedExecutables p)
    \<and> (isShell (xs_Executable e) \<longrightarrow> xs_Backend e = ''apple-container'')
    \<and> prefix [''workspace''] (clean_comps (xs_CWD e))
    \<and> int (length (xs_Arguments e)) \<le> default_if_not_positive 128 (xp_MaxArguments p)
    \<and> total_bytes (xs_Arguments e) \<le> default_if_not_positive 65536 (xp_MaxArgBytes p)
    \<and> total_bytes (xs_Environment e) \<le> default_if_not_positive 16384 (xp_MaxEnvironmentBytes p)
    \<and> (\<forall>v \<in> set (xs_Environment e). \<exists>name val. v = name @ CHR ''='' # val
         \<and> validEnvironmentName name \<and> \<not> protectedEnvironmentName name
         \<and> \<not> containsSensitiveEnvironmentMarker name)"
proof -
  have e: "e = spec"
    and be: "xs_Backend spec = ''apple-container'' \<or> xs_Backend spec = ''lima''"
    and ex: "xs_Executable spec \<in> set (xp_AllowedExecutables p)"
    and sh: "isShell (xs_Executable spec) \<longrightarrow> xs_Backend spec = ''apple-container''"
    and cwd: "safeRuntimePath (xs_CWD spec)"
    and na: "int (length (xs_Arguments spec)) \<le> default_if_not_positive 128 (xp_MaxArguments p)"
    and nb: "total_bytes (xs_Arguments spec) \<le> default_if_not_positive 65536 (xp_MaxArgBytes p)"
    and env: "ValidateUserEnvironment (xs_Environment spec)
                (default_if_not_positive 64 (xp_MaxEnvironmentItems p))
                (default_if_not_positive 16384 (xp_MaxEnvironmentBytes p))"
    using ok by (auto simp: CompileExecution_def not_less split: if_splits)
  let ?mb = "default_if_not_positive 16384 (xp_MaxEnvironmentBytes p)"
  have "validate_env_loop True ?mb 0 (xs_Environment spec)" and "0 \<le> ?mb"
    using env by (auto simp: ValidateUserEnvironment_def validateEnvironment_def split: if_splits)
  from validate_env_loop_spec [OF this]
  have "total_bytes (xs_Environment spec) \<le> ?mb
    \<and> (\<forall>v \<in> set (xs_Environment spec). \<exists>name val. v = name @ CHR ''='' # val
         \<and> validEnvironmentName name \<and> \<not> protectedEnvironmentName name
         \<and> \<not> containsSensitiveEnvironmentMarker name)"
    by fastforce
  then show ?thesis
    using e be ex sh na nb safeRuntimePath_comps [OF cwd] by auto
qed

definition sample_execution :: execution_spec where
  "sample_execution =
    \<lparr>xs_Backend = ''apple-container'', xs_Executable = ''sh'', xs_Arguments = [''-lc'', ''make test''],
     xs_CWD = ''/workspace/pkg'', xs_Environment = [''GOFLAGS=-race'']\<rparr>"

theorem CompileExecution_safe_witness:
  "CompileExecution (pol_Execution defaultPolicy) sample_execution = Inr sample_execution
   \<and> isShell (xs_Executable sample_execution)
   \<and> prefix [''workspace''] (clean_comps (xs_CWD sample_execution))"
proof -
  have 1: "CompileExecution (pol_Execution defaultPolicy) sample_execution = Inr sample_execution"
    by code_simp
  have 2: "isShell (xs_Executable sample_execution)" by code_simp
  show ?thesis using 1 2 CompileExecution_safe [OF 1] by blast
qed

end
