(* ===== verification/Replay_Window.thy ===== *)
theory Replay_Window
  imports RW_Prelude "HOL-Library.Multiset"
begin

section \<open>Bounded replay windows\<close>

text \<open>
  Two places keep a bounded table of recently seen identities: the request replay cache of the
  security package and the nonce table of the operator channel. Both drop expired entries, refuse
  an identity that clashes with a remembered one, evict the oldest entry when full and remember
  the new one. This theory holds the contract \<open>replay_window\<close> with its consequences, and the
  steps on Go maps that both implementations write out.
\<close>

subsection \<open>Iteration over a Go map\<close>

text \<open>
  A Go map is a list of pairs with distinct keys; \<open>range\<close> visits it in an order the runtime
  chooses. The choice is a function \<open>ord\<close>; a function that is not a permutation on the given
  list stands for the list's own order.
\<close>

definition iter_order :: "('a list \<Rightarrow> 'a list) \<Rightarrow> 'a list \<Rightarrow> 'a list" where
  "iter_order ord xs = (if mset (ord xs) = mset xs then ord xs else xs)"

lemma mset_iter_order [simp]: "mset (iter_order ord xs) = mset xs"
  by (simp add: iter_order_def)

lemma set_iter_order [simp]: "set (iter_order ord xs) = set xs"
  by (metis mset_iter_order set_mset_mset)

lemma length_iter_order [simp]: "length (iter_order ord xs) = length xs"
  by (metis mset_iter_order size_mset)

lemma iter_order_Nil [simp]: "iter_order ord xs = [] \<longleftrightarrow> xs = []"
  by (metis length_iter_order length_0_conv)

subsection \<open>Expiry and eviction\<close>

type_synonym ('k, 'v) go_map = "('k \<times> 'v) list"

definition drop_expired :: "('v \<Rightarrow> instant) \<Rightarrow> duration \<Rightarrow> instant \<Rightarrow> ('k, 'v) go_map \<Rightarrow> ('k, 'v) go_map" where
  "drop_expired seen_at ttl now m = filter (\<lambda>(k, v). now < seen_at v + ttl) m"

definition oldest_key :: "('v \<Rightarrow> instant) \<Rightarrow> 'k \<Rightarrow> ('k, 'v) go_map \<Rightarrow> 'k \<times> instant" where
  "oldest_key seen_at k0 m =
     foldl (\<lambda>(k, t) (k', v). if t = zero_time \<or> seen_at v < t then (k', seen_at v) else (k, t))
       (k0, zero_time) m"

definition delete_key :: "'k \<Rightarrow> ('k, 'v) go_map \<Rightarrow> ('k, 'v) go_map" where
  "delete_key k m = filter (\<lambda>(k', v). k' \<noteq> k) m"

definition evict_oldest ::
  "(('k \<times> 'v) list \<Rightarrow> ('k \<times> 'v) list) \<Rightarrow> ('v \<Rightarrow> instant) \<Rightarrow> 'k \<Rightarrow> nat \<Rightarrow> ('k, 'v) go_map \<Rightarrow> ('k, 'v) go_map" where
  "evict_oldest ord seen_at k0 cap m =
     (if cap \<le> length m then delete_key (fst (oldest_key seen_at k0 (iter_order ord m))) m else m)"

lemma oldest_key_aux:
  assumes "\<forall>(k, v) \<in> set m. zero_time < seen_at v" and "zero_time < t0"
  shows "\<exists>k t. foldl (\<lambda>(k, t) (k', v). if t = zero_time \<or> seen_at v < t then (k', seen_at v) else (k, t))
             (k0, t0) m = (k, t)
     \<and> ((k, t) = (k0, t0) \<or> (\<exists>v. (k, v) \<in> set m \<and> seen_at v = t))
     \<and> t \<le> t0 \<and> (\<forall>(k', v) \<in> set m. t \<le> seen_at v)"
  using assms
proof (induction m arbitrary: k0 t0)
  case (Cons x m)
  obtain kx vx where x: "x = (kx, vx)" by fastforce
  show ?case
  proof (cases "seen_at vx < t0")
    case True
    obtain k t where "foldl (\<lambda>(k, t) (k', v). if t = zero_time \<or> seen_at v < t then (k', seen_at v) else (k, t))
             (kx, seen_at vx) m = (k, t)"
      and "(k, t) = (kx, seen_at vx) \<or> (\<exists>v. (k, v) \<in> set m \<and> seen_at v = t)"
      and "t \<le> seen_at vx" "\<forall>(k', v) \<in> set m. t \<le> seen_at v"
      using Cons.IH [of "seen_at vx" kx] Cons.prems x by auto
    then show ?thesis using True x by auto
  next
    case False
    obtain k t where "foldl (\<lambda>(k, t) (k', v). if t = zero_time \<or> seen_at v < t then (k', seen_at v) else (k, t))
             (k0, t0) m = (k, t)"
      and "(k, t) = (k0, t0) \<or> (\<exists>v. (k, v) \<in> set m \<and> seen_at v = t)"
      and "t \<le> t0" "\<forall>(k', v) \<in> set m. t \<le> seen_at v"
      using Cons.IH [of t0 k0] Cons.prems x by auto
    then show ?thesis using False x Cons.prems(2) by auto
  qed
qed simp

lemma oldest_key_in:
  assumes "\<forall>(k, v) \<in> set m. zero_time < seen_at v" and "m \<noteq> []"
  shows "\<exists>v. (fst (oldest_key seen_at k0 m), v) \<in> set m \<and> (\<forall>(k', v') \<in> set m. seen_at v \<le> seen_at v')"
proof -
  obtain kx vx m' where m: "m = (kx, vx) # m'" using assms(2) by (cases m) auto
  have "zero_time < seen_at vx" "\<forall>(k, v) \<in> set m'. zero_time < seen_at v" using assms(1) m by auto
  from oldest_key_aux [OF this(2,1), of kx]
  obtain k t where "oldest_key seen_at k0 m = (k, t)"
    and "(k, t) = (kx, seen_at vx) \<or> (\<exists>v. (k, v) \<in> set m' \<and> seen_at v = t)"
    and "t \<le> seen_at vx" "\<forall>(k', v) \<in> set m'. t \<le> seen_at v"
    by (auto simp: m oldest_key_def)
  then show ?thesis using m by auto
qed

lemma set_drop_expired: "(k, v) \<in> set (drop_expired f ttl now m) \<longleftrightarrow> (k, v) \<in> set m \<and> now < f v + ttl"
  by (auto simp: drop_expired_def)

lemma length_drop_expired: "length (drop_expired f ttl now m) \<le> length m"
  by (simp add: drop_expired_def)

lemma distinct_drop_expired: "distinct (map fst m) \<Longrightarrow> distinct (map fst (drop_expired f ttl now m))"
  by (simp add: drop_expired_def distinct_map_filter)

lemma length_evict:
  assumes "\<forall>(k, v) \<in> set m. zero_time < f v" and "length m \<le> cap" and "0 < cap"
  shows "length (evict_oldest ord f k0 cap m) < cap"
proof (cases "cap \<le> length m")
  case True
  then have "iter_order ord m \<noteq> []" using assms(3) by auto
  then obtain v where "(fst (oldest_key f k0 (iter_order ord m)), v) \<in> set m"
    using oldest_key_in [of "iter_order ord m" f k0] assms(1) by auto
  then have "length (delete_key (fst (oldest_key f k0 (iter_order ord m))) m) < length m"
    unfolding delete_key_def by (rule length_filter_lt) simp
  then show ?thesis using True assms(2) by (simp add: evict_oldest_def)
qed (auto simp: evict_oldest_def)

lemma set_evict: "set (evict_oldest ord f k0 cap m) \<subseteq> set m"
  by (auto simp: evict_oldest_def delete_key_def)

lemma distinct_evict: "distinct (map fst m) \<Longrightarrow> distinct (map fst (evict_oldest ord f k0 cap m))"
  by (simp add: evict_oldest_def delete_key_def distinct_map_filter)

text \<open>How many entries were seen at \<open>t\<close> or later.\<close>

definition young :: "instant \<Rightarrow> ('k \<times> instant) list \<Rightarrow> nat" where
  "young t m = length (filter (\<lambda>p. t \<le> snd p) m)"

abbreviation seen_pairs :: "('v \<Rightarrow> instant) \<Rightarrow> ('k, 'v) go_map \<Rightarrow> ('k \<times> instant) list" where
  "seen_pairs f m \<equiv> map (\<lambda>(k, v). (k, f v)) m"

lemma young_filter: "young t (seen_pairs f (filter P m)) \<le> young t (seen_pairs f m)"
  by (induction m) (auto simp: young_def)

lemma young_drop: "young t (seen_pairs f (drop_expired f ttl now m)) \<le> young t (seen_pairs f m)"
  by (simp add: drop_expired_def young_filter)

lemma young_evict: "young t (seen_pairs f (evict_oldest ord f k0 cap m)) \<le> young t (seen_pairs f m)"
  by (simp add: evict_oldest_def delete_key_def young_filter)

lemma young_snoc: "young t (m @ [x]) \<le> Suc (young t m)"
  by (simp add: young_def)

text \<open>An entry with fewer than \<open>cap\<close> entries as young as itself survives eviction.\<close>

lemma evict_keeps:
  assumes "\<forall>(k, v) \<in> set m. zero_time < f v" and "distinct (map fst m)"
    and "(k, v) \<in> set m" and "young (f v) (seen_pairs f m) < cap"
  shows "(k, v) \<in> set (evict_oldest ord f k0 cap m)"
proof (cases "cap \<le> length m")
  case True
  have "iter_order ord m \<noteq> []" using assms(3) by auto
  then obtain v' where v': "(fst (oldest_key f k0 (iter_order ord m)), v') \<in> set m"
    and old: "\<forall>(k'', v'') \<in> set m. f v' \<le> f v''"
    using oldest_key_in [of "iter_order ord m" f k0] assms(1) by auto
  have "k \<noteq> fst (oldest_key f k0 (iter_order ord m))"
  proof
    assume "k = fst (oldest_key f k0 (iter_order ord m))"
    then have "v = v'" using v' assms(2,3) by (metis eq_key_imp_eq_value)
    then have "filter (\<lambda>p. f v \<le> snd p) (seen_pairs f m) = seen_pairs f m"
      using old by (intro filter_True) auto
    then have "young (f v) (seen_pairs f m) = length m"
      by (simp add: young_def)
    then show False using assms(4) True by simp
  qed
  then show ?thesis using True assms(3) by (auto simp: evict_oldest_def delete_key_def)
qed (use assms(3) in \<open>simp add: evict_oldest_def\<close>)

subsection \<open>The contract\<close>

text \<open>
  \<open>offer now r s\<close> presents request \<open>r\<close> at time \<open>now\<close>; \<open>seen s\<close> lists the remembered
  identities with the time they were seen; \<open>clash\<close> says when two identities may not both be
  accepted. Entries younger than \<open>ttl\<close> are refused again and only leave when \<open>cap\<close> entries
  at least as young exist.
\<close>

locale replay_window =
  fixes offer :: "instant \<Rightarrow> 'r \<Rightarrow> 's \<Rightarrow> bool \<times> 's"
    and ident :: "'r \<Rightarrow> 'i"
    and clash :: "'i \<Rightarrow> 'i \<Rightarrow> bool"
    and seen :: "'s \<Rightarrow> ('i \<times> instant) list"
    and cap :: nat
    and ttl :: duration
    and wf :: "'s \<Rightarrow> bool"
  assumes clash_refl: "clash i i"
    and wf_offer: "wf s \<Longrightarrow> zero_time < now \<Longrightarrow> wf (snd (offer now r s))"
    and bounded: "wf s \<Longrightarrow> length (seen s) \<le> cap"
    and refuses: "wf s \<Longrightarrow> (i, t) \<in> set (seen s) \<Longrightarrow> now < t + ttl \<Longrightarrow> clash i (ident r)
        \<Longrightarrow> \<not> fst (offer now r s)"
    and remembers: "wf s \<Longrightarrow> fst (offer now r s) \<Longrightarrow> (ident r, now) \<in> set (seen (snd (offer now r s)))"
    and keeps: "wf s \<Longrightarrow> (i, t) \<in> set (seen s) \<Longrightarrow> now < t + ttl \<Longrightarrow> young t (seen s) < cap
        \<Longrightarrow> (i, t) \<in> set (seen (snd (offer now r s)))"
    and ages: "wf s \<Longrightarrow> young t (seen (snd (offer now r s))) \<le> Suc (young t (seen s))"
begin

definition offers :: "(instant \<times> 'r) list \<Rightarrow> 's \<Rightarrow> 's" where
  "offers rs s = foldl (\<lambda>s (now, r). snd (offer now r s)) s rs"

lemma offers_simps:
  "offers [] s = s" "offers ((now, r) # rs) s = offers rs (snd (offer now r s))"
  by (simp_all add: offers_def)

lemma offers_bounded:
  assumes "wf s" and "\<forall>(now, r) \<in> set rs. zero_time < now"
  shows "wf (offers rs s) \<and> length (seen (offers rs s)) \<le> cap"
proof -
  have "wf (offers rs s)"
    using assms
  proof (induction rs arbitrary: s)
    case (Cons x rs)
    obtain now r where x: "x = (now, r)" by fastforce
    then show ?case using Cons wf_offer by (simp add: offers_simps)
  qed (simp add: offers_simps)
  then show ?thesis using bounded by blast
qed

lemma offers_keep:
  assumes "wf s" and "\<forall>(now, r) \<in> set rs. zero_time < now \<and> now < t + ttl"
    and "(i, t) \<in> set (seen s)" and "young t (seen s) + length rs \<le> cap"
  shows "(i, t) \<in> set (seen (offers rs s)) \<and> wf (offers rs s)"
  using assms
proof (induction rs arbitrary: s)
  case (Cons x rs)
  obtain now r where x: "x = (now, r)" by fastforce
  have "young t (seen s) < cap" using Cons.prems(4) by simp
  then have "(i, t) \<in> set (seen (snd (offer now r s)))"
    using Cons.prems x keeps by auto
  moreover have "young t (seen (snd (offer now r s))) + length rs \<le> cap"
    using Cons.prems(1,4) ages [of s t now r] by simp
  ultimately show ?case
    using Cons.IH [of "snd (offer now r s)"] Cons.prems(1,2) x wf_offer by (simp add: offers_simps)
qed (simp add: offers_simps)

lemma no_replay:
  assumes "wf s" and "zero_time < t" and "fst (offer t r s)"
    and "\<forall>(now, q) \<in> set rs. zero_time < now \<and> now < t + ttl"
    and "young t (seen s) + Suc (length rs) \<le> cap"
    and "now < t + ttl" and "clash (ident r) (ident r')"
  shows "\<not> fst (offer now r' (offers rs (snd (offer t r s))))"
proof -
  have wf1: "wf (snd (offer t r s))" using assms(1,2) by (rule wf_offer)
  have "young t (seen (snd (offer t r s))) + length rs \<le> cap"
    using ages [OF assms(1), of t t r] assms(5) by simp
  then have "(ident r, t) \<in> set (seen (offers rs (snd (offer t r s))))"
    and "wf (offers rs (snd (offer t r s)))"
    using offers_keep [OF wf1 assms(4) remembers [OF assms(1,3)]] by auto
  then show ?thesis using refuses assms(6,7) by blast
qed

end

end
