(* ===== verification/Request_Replay.thy ===== *)
theory Request_Replay
  imports Security_Policy Replay_Window
begin

section \<open>The request replay cache (internal/security/request_replay.go)\<close>

text \<open>
  \<open>RequestReplayCache\<close>: a bounded table of accepted request identities. A request identifier is
  single-use in the whole cache, a sequence number in its MCP session. The cache is interpreted as
  a \<open>replay_window\<close>, which gives its bound and its refusal of replays.
\<close>

subsection \<open>State and construction\<close>

record replay_key =
  rk_mcpSession :: string
  rk_requestID :: string
  rk_sequence :: nat

record replay_entry =
  re_key :: replay_key
  re_transportID :: string
  re_authSessionID :: string
  re_principalID :: string
  re_seenAt :: instant

record replay_cache =
  rc_max :: int
  rc_ttl :: duration
  rc_entries :: "(replay_key, replay_entry) go_map"

definition defaultReplayEntries :: int where "defaultReplayEntries = 2048"
definition defaultReplayTTL :: duration where "defaultReplayTTL = 30 * minute"

definition NewRequestReplayCache :: "int \<Rightarrow> duration \<Rightarrow> sec_error + replay_cache" where
  "NewRequestReplayCache maxEntries ttl =
    (let maxEntries = (if maxEntries \<le> 0 then defaultReplayEntries else maxEntries);
         ttl = (if ttl \<le> 0 then defaultReplayTTL else ttl)
     in if 65536 < maxEntries \<or> 24 * hour < ttl then Inl ErrDenied
        else Inr \<lparr>rc_max = maxEntries, rc_ttl = ttl, rc_entries = []\<rparr>)"

subsection \<open>Accept\<close>

record replay_call =
  rl_transportID :: string
  rl_authSessionID :: string
  rl_principalID :: string
  rl_mcpSessionID :: string
  rl_requestID :: string
  rl_sequence :: nat

definition call_valid :: "replay_call \<Rightarrow> bool" where
  "call_valid r \<longleftrightarrow>
     validOpaque (rl_transportID r) \<and> validOpaque (rl_authSessionID r) \<and> validID (rl_principalID r)
     \<and> validOpaque (rl_mcpSessionID r) \<and> validOpaque (rl_requestID r) \<and> rl_sequence r \<noteq> 0"

definition call_key :: "replay_call \<Rightarrow> replay_key" where
  "call_key r = \<lparr>rk_mcpSession = rl_mcpSessionID r, rk_requestID = rl_requestID r, rk_sequence = rl_sequence r\<rparr>"

definition key_clash :: "replay_key \<Rightarrow> replay_key \<Rightarrow> bool" where
  "key_clash k k' \<longleftrightarrow>
     rk_requestID k = rk_requestID k'
     \<or> (rk_mcpSession k = rk_mcpSession k' \<and> rk_sequence k = rk_sequence k')"

definition zero_replay_key :: replay_key where
  "zero_replay_key = \<lparr>rk_mcpSession = [], rk_requestID = [], rk_sequence = 0\<rparr>"

type_synonym replay_order = "(replay_key \<times> replay_entry) list \<Rightarrow> (replay_key \<times> replay_entry) list"

definition Accept ::
  "replay_order \<Rightarrow> instant \<Rightarrow> replay_call \<Rightarrow> replay_cache \<Rightarrow> (sec_error + unit) \<times> replay_cache" where
  "Accept ord now r c =
    (if \<not> call_valid r then (Inl ErrRequestMetadata, c)
     else
       (let live = drop_expired re_seenAt (rc_ttl c) now (rc_entries c)
        in if list_ex (\<lambda>(k, e). key_clash (re_key e) (call_key r)) live
           then (Inl ErrReplay, c\<lparr>rc_entries := live\<rparr>)
           else
             (let kept = evict_oldest ord re_seenAt zero_replay_key (nat (rc_max c)) live;
                  entry = \<lparr>re_key = call_key r, re_transportID = rl_transportID r,
                           re_authSessionID = rl_authSessionID r, re_principalID = rl_principalID r,
                           re_seenAt = now\<rparr>
              in (Inr (), c\<lparr>rc_entries := kept @ [(call_key r, entry)]\<rparr>))))"

text \<open>A call on the nil cache is refused.\<close>

definition Accept_receiver ::
  "replay_order \<Rightarrow> instant \<Rightarrow> replay_call \<Rightarrow> replay_cache option
   \<Rightarrow> (sec_error + unit) \<times> replay_cache option" where
  "Accept_receiver ord now r c =
    (case c of
       None \<Rightarrow> (Inl ErrRequestMetadata, None)
     | Some c \<Rightarrow> map_prod id Some (Accept ord now r c))"

subsection \<open>Invariant\<close>

definition cache_wf :: "nat \<Rightarrow> duration \<Rightarrow> replay_cache \<Rightarrow> bool" where
  "cache_wf mx ttl c \<longleftrightarrow>
     rc_max c = int mx \<and> 0 < mx \<and> rc_ttl c = ttl
     \<and> length (rc_entries c) \<le> mx \<and> distinct (map fst (rc_entries c))
     \<and> (\<forall>(k, e) \<in> set (rc_entries c). re_key e = k \<and> zero_time < re_seenAt e)"

definition cache_seen :: "replay_cache \<Rightarrow> (replay_key \<times> instant) list" where
  "cache_seen c = seen_pairs re_seenAt (rc_entries c)"

definition cache_offer :: "replay_order \<Rightarrow> instant \<Rightarrow> replay_call \<Rightarrow> replay_cache \<Rightarrow> bool \<times> replay_cache" where
  "cache_offer ord now r c = map_prod is_ok id (Accept ord now r c)"

lemma NewRequestReplayCache_wf:
  assumes "NewRequestReplayCache mx ttl = Inr c"
  shows "cache_wf (nat (rc_max c)) (rc_ttl c) c \<and> rc_max c \<le> 65536 \<and> 0 < rc_ttl c \<and> rc_ttl c \<le> 24 * hour"
  using assms
  by (auto simp: NewRequestReplayCache_def cache_wf_def Let_def defaultReplayEntries_def
      defaultReplayTTL_def duration_defs split: if_splits)

lemma drop_wf:
  assumes "cache_wf mx ttl c"
  shows "length (drop_expired re_seenAt t now (rc_entries c)) \<le> mx"
    and "distinct (map fst (drop_expired re_seenAt t now (rc_entries c)))"
    and "\<forall>(k, e) \<in> set (drop_expired re_seenAt t now (rc_entries c)). re_key e = k \<and> zero_time < re_seenAt e"
  using assms le_trans [OF length_drop_expired]
  by (auto simp: cache_wf_def distinct_drop_expired set_drop_expired)

lemma drop_times:
  assumes "cache_wf mx ttl c"
  shows "\<forall>(k, e) \<in> set (drop_expired re_seenAt t now (rc_entries c)). zero_time < re_seenAt e"
  using drop_wf(3) [OF assms, of t now] by fastforce

lemma Accept_wf:
  assumes "cache_wf mx ttl c" and "zero_time < now"
  shows "cache_wf mx ttl (snd (Accept ord now r c))"
proof -
  let ?live = "drop_expired re_seenAt (rc_ttl c) now (rc_entries c)"
  let ?kept = "evict_oldest ord re_seenAt zero_replay_key (nat (rc_max c)) ?live"
  have mx: "nat (rc_max c) = mx" "0 < mx" "rc_max c = int mx" "rc_ttl c = ttl"
    using assms(1) by (auto simp: cache_wf_def)
  note live = drop_wf [OF assms(1), of "rc_ttl c" now]
  have len: "length ?kept < mx"
    using length_evict [OF drop_times [OF assms(1)] live(1) mx(2)] by (simp add: mx)
  have dist: "distinct (map fst ?kept)" by (rule distinct_evict [OF live(2)])
  have all: "\<forall>(k, e) \<in> set ?kept. re_key e = k \<and> zero_time < re_seenAt e"
    using live(3) set_evict by fastforce
  have key: "call_key r \<notin> fst ` set ?kept" if "\<not> list_ex (\<lambda>(k, e). key_clash (re_key e) (call_key r)) ?live"
  proof
    assume "call_key r \<in> fst ` set ?kept"
    then obtain e where "(call_key r, e) \<in> set ?live" using set_evict by fastforce
    moreover from this have "re_key e = call_key r" using live(3) by auto
    ultimately show False using that by (auto simp: list_ex_iff key_clash_def)
  qed
  show ?thesis
  proof (cases "call_valid r")
    case False
    then show ?thesis using assms(1) by (simp add: Accept_def)
  next
    case valid: True
    show ?thesis
    proof (cases "list_ex (\<lambda>(k, e). key_clash (re_key e) (call_key r)) ?live")
      case True
      then show ?thesis using live mx valid by (simp add: Accept_def cache_wf_def)
    next
      case False
      then show ?thesis
        using valid mx len dist all key [OF False] assms(2)
        by (simp add: Accept_def cache_wf_def Let_def)
    qed
  qed
qed

lemma Accept_refuses:
  assumes "cache_wf mx ttl c" and "(k, t) \<in> set (cache_seen c)" and "now < t + ttl"
    and "key_clash k (call_key r)"
  shows "\<not> is_ok (fst (Accept ord now r c))"
proof -
  obtain e where e: "(k, e) \<in> set (rc_entries c)" "re_seenAt e = t"
    using assms(2) by (auto simp: cache_seen_def)
  have "re_key e = k" "rc_ttl c = ttl" using assms(1) e(1) by (auto simp: cache_wf_def)
  then have "list_ex (\<lambda>(k, e). key_clash (re_key e) (call_key r)) (drop_expired re_seenAt (rc_ttl c) now (rc_entries c))"
    using e assms(3,4) by (auto simp: list_ex_iff set_drop_expired)
  then show ?thesis by (simp add: Accept_def)
qed

lemma Accept_keeps:
  assumes "cache_wf mx ttl c" and "(k, t) \<in> set (cache_seen c)" and "now < t + ttl"
    and "young t (cache_seen c) < mx"
  shows "(k, t) \<in> set (cache_seen (snd (Accept ord now r c)))"
proof -
  let ?live = "drop_expired re_seenAt (rc_ttl c) now (rc_entries c)"
  obtain e where e: "(k, e) \<in> set (rc_entries c)" "re_seenAt e = t"
    using assms(2) by (auto simp: cache_seen_def)
  have mx: "nat (rc_max c) = mx" "rc_ttl c = ttl" using assms(1) by (auto simp: cache_wf_def)
  have live: "(k, e) \<in> set ?live" using e assms(3) mx by (simp add: set_drop_expired)
  have "young (re_seenAt e) (seen_pairs re_seenAt ?live) < mx"
    using assms(4) young_drop [of t re_seenAt "rc_ttl c" now "rc_entries c"] e(2)
    by (simp add: cache_seen_def)
  then have "(k, e) \<in> set (evict_oldest ord re_seenAt zero_replay_key mx ?live)"
    using evict_keeps [OF drop_times [OF assms(1)] drop_wf(2) [OF assms(1)] live] by simp
  then show ?thesis
    using live e mx by (force simp: Accept_def cache_seen_def Let_def)
qed

lemma Accept_ages:
  "young t (cache_seen (snd (Accept ord now r c))) \<le> Suc (young t (cache_seen c))"
proof -
  let ?live = "drop_expired re_seenAt (rc_ttl c) now (rc_entries c)"
  have "young t (seen_pairs re_seenAt (evict_oldest ord re_seenAt zero_replay_key (nat (rc_max c)) ?live))
      \<le> young t (cache_seen c)"
    unfolding cache_seen_def by (rule le_trans [OF young_evict young_drop])
  moreover have "young t (seen_pairs re_seenAt ?live) \<le> young t (cache_seen c)"
    unfolding cache_seen_def by (rule young_drop)
  ultimately show ?thesis
    using young_snoc [of t "seen_pairs re_seenAt (evict_oldest ord re_seenAt zero_replay_key (nat (rc_max c)) ?live)"]
    by (auto simp: Accept_def cache_seen_def Let_def intro: le_trans le_SucI)
qed

interpretation request_cache:
  replay_window "cache_offer ord" call_key key_clash cache_seen mx ttl "cache_wf mx ttl"
  for ord mx ttl
proof
  fix s :: replay_cache and now t r and i :: replay_key
  show "key_clash i i" by (simp add: key_clash_def)
  show "cache_wf mx ttl s \<Longrightarrow> zero_time < now \<Longrightarrow> cache_wf mx ttl (snd (cache_offer ord now r s))"
    by (simp add: cache_offer_def Accept_wf)
  show "cache_wf mx ttl s \<Longrightarrow> length (cache_seen s) \<le> mx"
    by (simp add: cache_wf_def cache_seen_def)
  show "cache_wf mx ttl s \<Longrightarrow> (i, t) \<in> set (cache_seen s) \<Longrightarrow> now < t + ttl \<Longrightarrow> key_clash i (call_key r)
      \<Longrightarrow> \<not> fst (cache_offer ord now r s)"
    using Accept_refuses by (simp add: cache_offer_def)
  show "cache_wf mx ttl s \<Longrightarrow> fst (cache_offer ord now r s)
      \<Longrightarrow> (call_key r, now) \<in> set (cache_seen (snd (cache_offer ord now r s)))"
    by (auto simp: cache_offer_def Accept_def cache_seen_def Let_def split: if_splits)
  show "cache_wf mx ttl s \<Longrightarrow> (i, t) \<in> set (cache_seen s) \<Longrightarrow> now < t + ttl \<Longrightarrow> young t (cache_seen s) < mx
      \<Longrightarrow> (i, t) \<in> set (cache_seen (snd (cache_offer ord now r s)))"
    using Accept_keeps by (simp add: cache_offer_def)
  show "cache_wf mx ttl s \<Longrightarrow> young t (cache_seen (snd (cache_offer ord now r s))) \<le> Suc (young t (cache_seen s))"
    using Accept_ages by (simp add: cache_offer_def)
qed

subsection \<open>Properties\<close>

definition accept_all :: "replay_order \<Rightarrow> (instant \<times> replay_call) list \<Rightarrow> replay_cache \<Rightarrow> replay_cache" where
  "accept_all ord rs c = foldl (\<lambda>c (now, r). snd (Accept ord now r c)) c rs"

lemma offers_accept_all: "request_cache.offers ord rs c = accept_all ord rs c"
  by (simp add: request_cache.offers_def accept_all_def cache_offer_def)

definition sample_call :: replay_call where
  "sample_call =
    \<lparr>rl_transportID = ''t'', rl_authSessionID = ''a'', rl_principalID = ''p'', rl_mcpSessionID = ''m'',
     rl_requestID = ''rpc-1'', rl_sequence = 1\<rparr>"

text \<open>The replay cache is bounded. Whatever requests arrive, in whatever order the map is
  iterated, a cache built with any accepted configuration never holds more than its maximum, and
  that maximum is at most 65536.\<close>

theorem request_replay_bounded:
  assumes "NewRequestReplayCache maxEntries ttl = Inr c"
    and "\<forall>(now, r) \<in> set rs. zero_time < now"
  shows "int (length (rc_entries (accept_all ord rs c))) \<le> rc_max c \<and> rc_max c \<le> 65536"
proof -
  have wf: "cache_wf (nat (rc_max c)) (rc_ttl c) c" and le: "rc_max c \<le> 65536"
    using NewRequestReplayCache_wf [OF assms(1)] by auto
  have "length (cache_seen (accept_all ord rs c)) \<le> nat (rc_max c)"
    using request_cache.offers_bounded [OF wf assms(2), of ord] by (simp add: offers_accept_all)
  moreover have "0 < rc_max c" using wf by (simp add: cache_wf_def)
  ultimately show ?thesis using le by (simp add: cache_seen_def)
qed

lemma sample_cache_new: "is_ok (NewRequestReplayCache 2 minute)"
  by code_simp

theorem request_replay_bounded_witness:
  "\<exists>c. NewRequestReplayCache 2 minute = Inr c
     \<and> int (length (rc_entries (accept_all rev [(1, sample_call), (2, sample_call)] c))) \<le> rc_max c"
proof -
  obtain c where c: "NewRequestReplayCache 2 minute = Inr c"
    using sample_cache_new by (auto simp: is_ok_iff)
  have "\<forall>(now, r) \<in> set [(1, sample_call), (2, sample_call)]. zero_time < now"
    by (simp add: zero_time_def)
  then show ?thesis using request_replay_bounded [OF c] c by blast
qed

text \<open>An accepted request cannot be replayed. After request \<open>r\<close> was accepted at time
  \<open>t\<close>, every request with its identifier (in any session) or with its MCP session and sequence
  number is refused until \<open>t\<close> plus the time to live, whatever other requests came before and in
  between, as long as fewer requests follow than the cache has room for beside the entries as
  young as \<open>t\<close>. Evicting the oldest entry never makes room for a replay.\<close>

theorem request_replay_refused:
  assumes "NewRequestReplayCache maxEntries ttl = Inr c0"
    and "\<forall>(now, q) \<in> set before. zero_time < now" and "c = accept_all ord before c0"
    and "zero_time < t" and "Accept ord t r c = (Inr (), c1)"
    and "\<forall>(now, q) \<in> set later. zero_time < now \<and> now < t + rc_ttl c0"
    and "int (young t (cache_seen c) + length later) < rc_max c0"
    and "now < t + rc_ttl c0" and "key_clash (call_key r) (call_key r')"
  shows "\<not> is_ok (fst (Accept ord now r' (accept_all ord later c1)))"
proof -
  have wf0: "cache_wf (nat (rc_max c0)) (rc_ttl c0) c0"
    using NewRequestReplayCache_wf [OF assms(1)] by auto
  have "cache_wf (nat (rc_max c0)) (rc_ttl c0) c"
    using request_cache.offers_bounded [OF wf0 assms(2), of ord] assms(3) by (simp add: offers_accept_all)
  moreover have "fst (cache_offer ord t r c)" "snd (cache_offer ord t r c) = c1"
    using assms(5) by (simp_all add: cache_offer_def)
  moreover have "young t (cache_seen c) + Suc (length later) \<le> nat (rc_max c0)"
    using assms(7) by linarith
  ultimately have "\<not> fst (cache_offer ord now r' (request_cache.offers ord later c1))"
    using request_cache.no_replay [OF _ assms(4) _ assms(6) _ assms(8,9), where s = c and ord = ord] by auto
  then show ?thesis by (simp add: offers_accept_all cache_offer_def)
qed

theorem request_replay_refused_witness:
  "\<exists>c0 c1. NewRequestReplayCache 2 minute = Inr c0 \<and> Accept rev 5 sample_call c0 = (Inr (), c1)
     \<and> \<not> is_ok (fst (Accept rev 9 (sample_call\<lparr>rl_mcpSessionID := ''other'', rl_sequence := 7\<rparr>)
           (accept_all rev [(6, sample_call\<lparr>rl_requestID := ''rpc-2'', rl_sequence := 2\<rparr>)] c1)))"
proof -
  let ?later = "[(6, sample_call\<lparr>rl_requestID := ''rpc-2'', rl_sequence := 2\<rparr>)]"
  obtain c0 where c0: "NewRequestReplayCache 2 minute = Inr c0"
    using sample_cache_new by (auto simp: is_ok_iff)
  have conf: "rc_max c0 = 2" "rc_ttl c0 = minute" "rc_entries c0 = []"
    using c0 by (auto simp: NewRequestReplayCache_def Let_def duration_defs split: if_splits)
  have "call_valid sample_call" by code_simp
  then obtain c1 where c1: "Accept rev 5 sample_call c0 = (Inr (), c1)"
    using conf by (simp add: Accept_def drop_expired_def Let_def)
  have "key_clash (call_key sample_call)
      (call_key (sample_call\<lparr>rl_mcpSessionID := ''other'', rl_sequence := 7\<rparr>))"
    by (simp add: key_clash_def call_key_def)
  then have "\<not> is_ok (fst (Accept rev 9 (sample_call\<lparr>rl_mcpSessionID := ''other'', rl_sequence := 7\<rparr>)
           (accept_all rev ?later c1)))"
    by (intro request_replay_refused [OF c0 _ _ _ c1, where before = "[]"])
       (auto simp: accept_all_def zero_time_def conf cache_seen_def young_def duration_defs)
  then show ?thesis using c0 c1 by blast
qed

end
