(* ===== verification/Security_Engine.thy ===== *)
theory Security_Engine
  imports Security_Policy
begin

section \<open>The security engine (internal/security/policy.go)\<close>

text \<open>
  \<open>Engine\<close> with its four tables and every operation that changes them. A method that locks the
  engine is one atomic step: it takes the clock reading \<open>now\<close>, the outcome of each
  \<open>rand.Read\<close> (\<open>None\<close> is an error, \<open>Some\<close> the sixteen bytes) and the digest function
  \<open>sha\<close>, and returns its result with the next engine. The lemmas show that nonces and
  confirmation tokens are single-use along every sequence of operations.
\<close>

subsection \<open>State\<close>

record enrollment =
  en_RepositoryID :: string
  en_FilesystemID :: string
  en_TrustedRefDigest :: string
  en_EnrolledAt :: instant

record session =
  ss_ID :: string
  ss_PrincipalID :: string
  ss_RepositoryID :: string
  ss_TransportID :: string
  ss_AuthenticationID :: string
  ss_Nonce :: string
  ss_ExpiresAt :: instant

record confirmation =
  cf_Token :: string
  cf_Class :: string
  cf_Binding :: confirmation_binding
  cf_ExpiresAt :: instant

record operator_request =
  or_Binding :: confirmation_binding
  or_Class :: string
  or_TTL :: duration

record principal =
  pr_ID :: string
  pr_TransportID :: string
  pr_AuthenticationID :: string
  pr_ExpiresAt :: instant

record audit_event =
  ae_At :: instant
  ae_PrincipalID :: string
  ae_SessionID :: string
  ae_RepositoryID :: string
  ae_Capability :: string
  ae_Outcome :: string
  ae_Detail :: string

record decision =
  dc_Allowed :: bool
  dc_NextNonce :: string
  dc_Policy :: compiled_policy
  dc_Execution :: "compiled_execution option"
  dc_AuditEvent :: audit_event

record engine =
  eng_policy :: policy
  eng_enrollments :: "string \<rightharpoonup> enrollment"
  eng_sessions :: "string \<rightharpoonup> session"
  eng_confirmations :: "string \<rightharpoonup> confirmation"
  eng_audit :: "audit_event list"

subsection \<open>Opaque values and validation\<close>

definition opaque :: "string \<Rightarrow> string \<Rightarrow> string" where
  "opaque pre data = pre @ hex_encode data"

definition newOpaque :: "string \<Rightarrow> string option \<Rightarrow> string option" where
  "newOpaque pre rnd = map_option (opaque pre) rnd"

definition digestString :: "(string \<Rightarrow> string) \<Rightarrow> string \<Rightarrow> string" where
  "digestString sha v = hex_encode (sha v)"

definition validPrincipal :: "instant \<Rightarrow> principal \<Rightarrow> bool" where
  "validPrincipal now p \<longleftrightarrow>
     validID (pr_ID p) \<and> validOpaque (pr_TransportID p) \<and> validIdentity (pr_AuthenticationID p)
     \<and> pr_ExpiresAt p \<noteq> zero_time \<and> now < pr_ExpiresAt p"

definition validConfirmationBinding :: "confirmation_binding \<Rightarrow> bool" where
  "validConfirmationBinding b \<longleftrightarrow>
     validOpaque (cb_Action b) \<and> validIdentity (cb_RepositoryID b) \<and> validID (cb_PrincipalID b)
     \<and> validOpaque (cb_SessionID b) \<and> validOpaque (cb_GenerationID b)
     \<and> 0 < cb_FencingGeneration b \<and> validIdentity (cb_CandidateSnapshot b)
     \<and> validIdentity (cb_PlanDigest b)"

definition confirmable_class :: "string \<Rightarrow> bool" where
  "confirmable_class c \<longleftrightarrow> c = ConfirmationDestructive \<or> c = ConfirmationPublication"

subsection \<open>Operator authorities\<close>

text \<open>The context of an operator call: its liveness and the value under
  \<open>authenticatedOperatorContextKey\<close>. The two implementations of \<open>OperatorAuthority\<close> are
  the constructors; \<open>None\<close> is the nil interface.\<close>

record op_context =
  oc_ctx :: go_ctx
  oc_operator :: "string option"

datatype operator_authority =
    AuthenticatedOperatorAuthority string
  | ExplicitOperatorAuthority string

definition WithOperatorAuthentication :: "op_context \<Rightarrow> string \<Rightarrow> op_context" where
  "WithOperatorAuthentication c oid =
    (if oc_ctx c = Ctx_Nil \<or> \<not> validID oid then \<lparr>oc_ctx = Ctx_Nil, oc_operator = None\<rparr>
     else c\<lparr>oc_operator := Some oid\<rparr>)"

definition NewAuthenticatedOperatorAuthority :: "string \<Rightarrow> sec_error + operator_authority" where
  "NewAuthenticatedOperatorAuthority oid =
    (if \<not> validID oid then Inl ErrDenied else Inr (AuthenticatedOperatorAuthority oid))"

definition NewExplicitOperatorAuthority :: "string \<Rightarrow> sec_error + operator_authority" where
  "NewExplicitOperatorAuthority oid =
    (if \<not> validID oid then Inl ErrDenied else Inr (ExplicitOperatorAuthority oid))"

fun AuthorizeOperator :: "operator_authority \<Rightarrow> op_context \<Rightarrow> operator_request \<Rightarrow> bool" where
  "AuthorizeOperator (AuthenticatedOperatorAuthority oid) c r =
    (if oc_ctx c = Ctx_Nil then False
     else if oc_operator c \<noteq> Some oid \<or> \<not> validID oid
             \<or> \<not> validConfirmationBinding (or_Binding r)
             \<or> cb_PrincipalID (or_Binding r) = oid then False
     else confirmable_class (or_Class r))"
| "AuthorizeOperator (ExplicitOperatorAuthority oid) c r =
    (if oc_ctx c = Ctx_Nil \<or> \<not> validID oid \<or> \<not> validConfirmationBinding (or_Binding r)
        \<or> cb_PrincipalID (or_Binding r) = oid then False
     else confirmable_class (or_Class r))"

fun operator_id :: "operator_authority \<Rightarrow> string" where
  "operator_id (AuthenticatedOperatorAuthority oid) = oid"
| "operator_id (ExplicitOperatorAuthority oid) = oid"

subsection \<open>Operations\<close>

definition NewEngine :: "policy \<Rightarrow> sec_error + engine" where
  "NewEngine p =
    (if \<not> validatePolicy p then Inl ErrDenied
     else Inr \<lparr>eng_policy = p, eng_enrollments = Map.empty, eng_sessions = Map.empty,
               eng_confirmations = Map.empty, eng_audit = []\<rparr>)"

definition appendAuditLocked :: "audit_event \<Rightarrow> engine \<Rightarrow> engine" where
  "appendAuditLocked ev e =
     e\<lparr>eng_audit := eng_audit e @ [ev\<lparr>ae_Detail := redact (ae_Detail ev)\<rparr>]\<rparr>"

definition EnrollRepository ::
  "(string \<Rightarrow> string) \<Rightarrow> instant \<Rightarrow> string option \<Rightarrow> go_ctx \<Rightarrow> string \<Rightarrow> string \<Rightarrow> string
   \<Rightarrow> engine \<Rightarrow> (sec_error + enrollment \<times> string) \<times> engine" where
  "EnrollRepository sha now rnd ctx principalID repositoryID filesystemID e =
    (if ctx = Ctx_Nil \<or> \<not> validID principalID \<or> \<not> validIdentity repositoryID
        \<or> \<not> validIdentity filesystemID then (Inl ErrDenied, e)
     else (case newOpaque ''ref_'' rnd of
             None \<Rightarrow> (Inl ErrDenied, e)
           | Some ref \<Rightarrow>
               let en = \<lparr>en_RepositoryID = repositoryID, en_FilesystemID = filesystemID,
                         en_TrustedRefDigest = digestString sha ref, en_EnrolledAt = now\<rparr>;
                   e1 = e\<lparr>eng_enrollments := (eng_enrollments e)(repositoryID \<mapsto> en)\<rparr>;
                   ev = \<lparr>ae_At = now, ae_PrincipalID = principalID, ae_SessionID = [],
                         ae_RepositoryID = repositoryID, ae_Capability = [],
                         ae_Outcome = ''enrolled'', ae_Detail = ''repository enrolled''\<rparr>
               in (Inr (en, ref), appendAuditLocked ev e1)))"

definition OpenAuthenticatedSession ::
  "instant \<Rightarrow> string option \<Rightarrow> string option \<Rightarrow> go_ctx \<Rightarrow> principal \<Rightarrow> string \<Rightarrow> duration
   \<Rightarrow> engine \<Rightarrow> (sec_error + session) \<times> engine" where
  "OpenAuthenticatedSession now rnd1 rnd2 ctx p repositoryID ttl e =
    (if ctx = Ctx_Nil \<or> \<not> validPrincipal now p \<or> \<not> validIdentity repositoryID
        \<or> ttl \<le> 0 \<or> 24 * hour < ttl then (Inl ErrDenied, e)
     else if eng_enrollments e repositoryID = None then (Inl ErrDenied, e)
     else (case newOpaque ''session_'' rnd1 of
             None \<Rightarrow> (Inl ErrDenied, e)
           | Some sid \<Rightarrow>
               (case newOpaque ''nonce_'' rnd2 of
                  None \<Rightarrow> (Inl ErrDenied, e)
                | Some nonce \<Rightarrow>
                    let s = \<lparr>ss_ID = sid, ss_PrincipalID = pr_ID p,
                             ss_RepositoryID = repositoryID, ss_TransportID = pr_TransportID p,
                             ss_AuthenticationID = pr_AuthenticationID p, ss_Nonce = nonce,
                             ss_ExpiresAt = (if pr_ExpiresAt p < now + ttl then pr_ExpiresAt p
                                             else now + ttl)\<rparr>
                    in (Inr s, e\<lparr>eng_sessions := (eng_sessions e)(sid \<mapsto> s)\<rparr>))))"

definition IssueOperatorConfirmation ::
  "instant \<Rightarrow> string option \<Rightarrow> op_context \<Rightarrow> operator_authority option \<Rightarrow> operator_request
   \<Rightarrow> engine \<Rightarrow> (sec_error + confirmation) \<times> engine" where
  "IssueOperatorConfirmation now rnd c authority r e =
    (case authority of
       None \<Rightarrow> (Inl ErrDenied, e)
     | Some a \<Rightarrow>
         if \<not> AuthorizeOperator a c r then (Inl ErrDenied, e)
         else if oc_ctx c = Ctx_Nil \<or> \<not> validConfirmationBinding (or_Binding r)
                 \<or> \<not> confirmable_class (or_Class r) \<or> or_TTL r \<le> 0 \<or> hour < or_TTL r
         then (Inl ErrDenied, e)
         else (case eng_sessions e (cb_SessionID (or_Binding r)) of
                 None \<Rightarrow> (Inl ErrExpired, e)
               | Some s \<Rightarrow>
                   if \<not> now < ss_ExpiresAt s then (Inl ErrExpired, e)
                   else if ss_PrincipalID s \<noteq> cb_PrincipalID (or_Binding r)
                           \<or> ss_RepositoryID s \<noteq> cb_RepositoryID (or_Binding r)
                   then (Inl ErrDenied, e)
                   else (case newOpaque ''confirm_'' rnd of
                           None \<Rightarrow> (Inl ErrDenied, e)
                         | Some token \<Rightarrow>
                             let cf = \<lparr>cf_Token = token, cf_Class = or_Class r,
                                       cf_Binding = or_Binding r, cf_ExpiresAt = now + or_TTL r\<rparr>
                             in (Inr cf,
                                 e\<lparr>eng_confirmations := (eng_confirmations e)(token \<mapsto> cf)\<rparr>))))"

definition RevokeSession :: "go_ctx \<Rightarrow> string \<Rightarrow> engine \<Rightarrow> (sec_error + unit) \<times> engine" where
  "RevokeSession ctx sid e =
    (if ctx = Ctx_Nil \<or> \<not> validOpaque sid then (Inl ErrDenied, e)
     else if eng_sessions e sid = None then (Inl ErrExpired, e)
     else (Inr (),
           e\<lparr>eng_sessions := (eng_sessions e)(sid := None),
             eng_confirmations := (\<lambda>t. case eng_confirmations e t of
                None \<Rightarrow> None
              | Some cf \<Rightarrow> if cb_SessionID (cf_Binding cf) = sid then None else Some cf)\<rparr>))"

definition consumeConfirmationLocked ::
  "instant \<Rightarrow> string \<Rightarrow> string \<Rightarrow> string \<Rightarrow> confirmation_binding \<Rightarrow> engine \<Rightarrow> bool \<times> engine" where
  "consumeConfirmationLocked now sid token cls b e =
    (case eng_confirmations e token of
       None \<Rightarrow> (False, e)
     | Some cf \<Rightarrow>
         (cb_SessionID (cf_Binding cf) = sid \<and> cf_Class cf = cls \<and> now < cf_ExpiresAt cf
            \<and> cf_Binding cf = b,
          e\<lparr>eng_confirmations := (eng_confirmations e)(token := None)\<rparr>))"

definition validateTrustedRefLocked :: "(string \<Rightarrow> string) \<Rightarrow> string \<Rightarrow> string \<Rightarrow> engine \<Rightarrow> bool" where
  "validateTrustedRefLocked sha repositoryID ref e =
    (case eng_enrollments e repositoryID of
       None \<Rightarrow> False
     | Some en \<Rightarrow> ref \<noteq> [] \<and> digestString sha ref = en_TrustedRefDigest en)"

definition request_event :: "instant \<Rightarrow> sec_request \<Rightarrow> audit_event" where
  "request_event now r =
    \<lparr>ae_At = now, ae_PrincipalID = rq_PrincipalID r, ae_SessionID = rq_SessionID r,
     ae_RepositoryID = rq_RepositoryID r, ae_Capability = rq_Capability r,
     ae_Outcome = [], ae_Detail = []\<rparr>"

definition deny :: "instant \<Rightarrow> sec_request \<Rightarrow> sec_error \<Rightarrow> string \<Rightarrow> engine
                    \<Rightarrow> (sec_error + decision) \<times> engine" where
  "deny now r err detail e =
    (Inl err,
     appendAuditLocked ((request_event now r)\<lparr>ae_Outcome := ''denied'', ae_Detail := redact detail\<rparr>) e)"

text \<open>The tail of \<open>Authorize\<close>, after the nonce has been consumed.\<close>

definition needs_trusted_ref :: "string \<Rightarrow> bool" where
  "needs_trusted_ref c \<longleftrightarrow> c = CapabilityIntegrate \<or> c = CapabilityPublish"

definition authorize_finish ::
  "(string \<Rightarrow> string) \<Rightarrow> instant \<Rightarrow> sec_request \<Rightarrow> string \<Rightarrow> compiled_policy \<Rightarrow> engine
   \<Rightarrow> (sec_error + decision) \<times> engine" where
  "authorize_finish sha now r nextNonce compiled e =
    (if needs_trusted_ref (rq_Capability r)
        \<and> \<not> validateTrustedRefLocked sha (rq_RepositoryID r) (rq_TrustedIntegrationRef r) e
     then deny now r ErrDenied ''trusted integration reference denied'' e
     else
       (case (if rq_Capability r = CapabilityExecute
              then map_sum id Some (CompileExecution (pol_Execution (eng_policy e)) (rq_Execution r))
              else Inr None) of
          Inl _ \<Rightarrow> deny now r ErrDenied ''execution denied'' e
        | Inr ex \<Rightarrow>
            let ev = (request_event now r)\<lparr>ae_Outcome := ''allowed'',
                                           ae_Detail := ''typed policy allowed''\<rparr>
            in (Inr \<lparr>dc_Allowed = True, dc_NextNonce = nextNonce, dc_Policy = compiled,
                     dc_Execution = ex, dc_AuditEvent = ev\<rparr>,
                appendAuditLocked ev e)))"

definition authorize_checked ::
  "(string \<Rightarrow> string) \<Rightarrow> instant \<Rightarrow> sec_request \<Rightarrow> sec_binding \<Rightarrow> string \<Rightarrow> engine
   \<Rightarrow> (sec_error + decision) \<times> engine" where
  "authorize_checked sha now r b nextNonce e =
    (if \<not> containsCapability (pol_Capabilities (eng_policy e)) (rq_Capability r)
     then deny now r ErrDenied ''capability denied'' e
     else
       (case Compile (eng_policy e) b of
          Inl _ \<Rightarrow> deny now r ErrDenied ''runtime policy compilation failed'' e
        | Inr compiled \<Rightarrow>
            if \<not> validateTarget r b then deny now r ErrDenied ''target denied'' e
            else
              (let cls = requiredConfirmation (rq_Capability r)
               in if cls \<noteq> ConfirmationNone
                  then (case consumeConfirmationLocked now (rq_SessionID r) (rq_ConfirmationToken r)
                               cls (rq_ConfirmationBinding r) e of
                          (False, e') \<Rightarrow> deny now r ErrDenied ''confirmation denied'' e'
                        | (True, e') \<Rightarrow> authorize_finish sha now r nextNonce compiled e')
                  else authorize_finish sha now r nextNonce compiled e)))"

definition Authorize ::
  "(string \<Rightarrow> string) \<Rightarrow> instant \<Rightarrow> string option \<Rightarrow> go_ctx \<Rightarrow> sec_request \<Rightarrow> sec_binding \<Rightarrow> engine
   \<Rightarrow> (sec_error + decision) \<times> engine" where
  "Authorize sha now rnd ctx r b e =
    (if ctx = Ctx_Nil then (Inl ErrDenied, e)
     else
       (case eng_sessions e (rq_SessionID r) of
          None \<Rightarrow> deny now r ErrExpired ''session expired'' e
        | Some s \<Rightarrow>
            if \<not> now < ss_ExpiresAt s then deny now r ErrExpired ''session expired'' e
            else if ss_PrincipalID s \<noteq> rq_PrincipalID r \<or> ss_RepositoryID s \<noteq> rq_RepositoryID r
                    \<or> rq_Nonce r = [] \<or> rq_Nonce r \<noteq> ss_Nonce s
            then deny now r ErrReplay ''session binding or nonce rejected'' e
            else
              (case eng_enrollments e (rq_RepositoryID r) of
                 None \<Rightarrow> deny now r ErrDenied ''repository enrollment rejected'' e
               | Some en \<Rightarrow>
                   if bd_RepositoryID b \<noteq> rq_RepositoryID r \<or> bd_FilesystemID b = []
                      \<or> en_FilesystemID en \<noteq> bd_FilesystemID b
                   then deny now r ErrDenied ''repository enrollment rejected'' e
                   else
                     (case newOpaque ''nonce_'' rnd of
                        None \<Rightarrow> deny now r ErrDenied ''nonce generation failed'' e
                      | Some nextNonce \<Rightarrow>
                          authorize_checked sha now r b nextNonce
                            (e\<lparr>eng_sessions := (eng_sessions e)(ss_ID s \<mapsto> s\<lparr>ss_Nonce := nextNonce\<rparr>)\<rparr>)))))"

definition AuditEvents :: "engine \<Rightarrow> audit_event list" where
  "AuditEvents e = eng_audit e"

subsection \<open>The engine as a sequence of operations\<close>

datatype engine_op =
    Op_Enroll instant "string option" go_ctx string string string
  | Op_Open instant "string option" "string option" go_ctx principal string duration
  | Op_Issue instant "string option" op_context "operator_authority option" operator_request
  | Op_Revoke go_ctx string
  | Op_Authorize instant "string option" go_ctx sec_request sec_binding

fun engine_step :: "(string \<Rightarrow> string) \<Rightarrow> engine_op \<Rightarrow> engine \<Rightarrow> engine" where
  "engine_step sha (Op_Enroll now rnd ctx pid rid fid) e = snd (EnrollRepository sha now rnd ctx pid rid fid e)"
| "engine_step sha (Op_Open now r1 r2 ctx p rid ttl) e = snd (OpenAuthenticatedSession now r1 r2 ctx p rid ttl e)"
| "engine_step sha (Op_Issue now rnd c a r) e = snd (IssueOperatorConfirmation now rnd c a r e)"
| "engine_step sha (Op_Revoke ctx sid) e = snd (RevokeSession ctx sid e)"
| "engine_step sha (Op_Authorize now rnd ctx r b) e = snd (Authorize sha now rnd ctx r b e)"

fun engine_allows :: "(string \<Rightarrow> string) \<Rightarrow> engine_op \<Rightarrow> engine \<Rightarrow> bool" where
  "engine_allows sha (Op_Authorize now rnd ctx r b) e = is_ok (fst (Authorize sha now rnd ctx r b e))"
| "engine_allows sha _ e = False"

text \<open>How many operations of a sequence satisfy \<open>P\<close> in the state they run in.\<close>

fun uses :: "(engine_op \<Rightarrow> engine \<Rightarrow> bool) \<Rightarrow> (string \<Rightarrow> string) \<Rightarrow> engine_op list \<Rightarrow> engine \<Rightarrow> nat" where
  "uses P sha [] e = 0"
| "uses P sha (op # ops) e = of_bool (P op e) + uses P sha ops (engine_step sha op e)"

definition engine_run :: "(string \<Rightarrow> string) \<Rightarrow> engine_op list \<Rightarrow> engine \<Rightarrow> engine" where
  "engine_run sha ops e = foldl (\<lambda>e op. engine_step sha op e) e ops"

text \<open>The random values an operation draws, by the table they are stored in.\<close>

fun nonce_draw :: "engine_op \<Rightarrow> string list" where
  "nonce_draw (Op_Open now r1 r2 ctx p rid ttl) = (case newOpaque ''nonce_'' r2 of None \<Rightarrow> [] | Some n \<Rightarrow> [n])"
| "nonce_draw (Op_Authorize now rnd ctx r b) = (case newOpaque ''nonce_'' rnd of None \<Rightarrow> [] | Some n \<Rightarrow> [n])"
| "nonce_draw _ = []"

fun token_draw :: "engine_op \<Rightarrow> string list" where
  "token_draw (Op_Issue now rnd c a r) = (case newOpaque ''confirm_'' rnd of None \<Rightarrow> [] | Some t \<Rightarrow> [t])"
| "token_draw _ = []"

fun session_draw :: "engine_op \<Rightarrow> string list" where
  "session_draw (Op_Open now r1 r2 ctx p rid ttl) = (case newOpaque ''session_'' r1 of None \<Rightarrow> [] | Some s \<Rightarrow> [s])"
| "session_draw _ = []"

subsection \<open>Well-formed engines\<close>

definition engine_wf :: "engine \<Rightarrow> bool" where
  "engine_wf e \<longleftrightarrow>
     (\<forall>k s. eng_sessions e k = Some s \<longrightarrow> ss_ID s = k \<and> eng_enrollments e (ss_RepositoryID s) \<noteq> None)
     \<and> (\<forall>k en. eng_enrollments e k = Some en \<longrightarrow> en_RepositoryID en = k \<and> validIdentity (en_FilesystemID en))
     \<and> (\<forall>t cf. eng_confirmations e t = Some cf \<longrightarrow>
           cf_Token cf = t \<and> confirmable_class (cf_Class cf) \<and> validConfirmationBinding (cf_Binding cf))
     \<and> validatePolicy (eng_policy e)"

lemmas authorize_parts = Authorize_def authorize_checked_def authorize_finish_def deny_def
  appendAuditLocked_def

lemma newOpaque_Some [simp]: "newOpaque pre (Some d) = Some (opaque pre d)"
  "newOpaque pre None = None"
  by (simp_all add: newOpaque_def)

lemma consume_eng [simp]:
  "eng_sessions (snd (consumeConfirmationLocked now sid t c b e)) = eng_sessions e"
  "eng_enrollments (snd (consumeConfirmationLocked now sid t c b e)) = eng_enrollments e"
  "eng_policy (snd (consumeConfirmationLocked now sid t c b e)) = eng_policy e"
  "eng_audit (snd (consumeConfirmationLocked now sid t c b e)) = eng_audit e"
  "eng_confirmations (snd (consumeConfirmationLocked now sid t c b e)) = (eng_confirmations e)(t := None)"
  by (auto simp: consumeConfirmationLocked_def fun_eq_iff split: option.splits)

lemma deny_eng [simp]:
  "eng_sessions (snd (deny now r err d e)) = eng_sessions e"
  "eng_enrollments (snd (deny now r err d e)) = eng_enrollments e"
  "eng_policy (snd (deny now r err d e)) = eng_policy e"
  "eng_confirmations (snd (deny now r err d e)) = eng_confirmations e"
  "fst (deny now r err d e) = Inl err"
  by (auto simp: deny_def appendAuditLocked_def)

lemma finish_eng [simp]:
  "eng_sessions (snd (authorize_finish sha now r n c e)) = eng_sessions e"
  "eng_enrollments (snd (authorize_finish sha now r n c e)) = eng_enrollments e"
  "eng_policy (snd (authorize_finish sha now r n c e)) = eng_policy e"
  "eng_confirmations (snd (authorize_finish sha now r n c e)) = eng_confirmations e"
  by (auto simp: authorize_finish_def appendAuditLocked_def Let_def split: sum.splits)

lemma consume_pair:
  "consumeConfirmationLocked now sid t c b e = (k, e') \<Longrightarrow>
     eng_sessions e' = eng_sessions e \<and> eng_enrollments e' = eng_enrollments e
     \<and> eng_policy e' = eng_policy e \<and> eng_audit e' = eng_audit e
     \<and> eng_confirmations e' = (eng_confirmations e)(t := None)"
  using consume_eng [of now sid t c b e] by simp

lemma checked_eng_all:
  "eng_sessions (snd (authorize_checked sha now r b n e)) = eng_sessions e
   \<and> eng_enrollments (snd (authorize_checked sha now r b n e)) = eng_enrollments e
   \<and> eng_policy (snd (authorize_checked sha now r b n e)) = eng_policy e"
  by (auto simp: authorize_checked_def Let_def dest: consume_pair
      split: sum.splits prod.splits bool.splits)

lemmas checked_eng [simp] = checked_eng_all [THEN conjunct1]
  checked_eng_all [THEN conjunct2, THEN conjunct1] checked_eng_all [THEN conjunct2, THEN conjunct2]

text \<open>Only the token of the request can leave the confirmation table.\<close>

lemma checked_confirmations:
  "eng_confirmations (snd (authorize_checked sha now r b n e)) = eng_confirmations e
   \<or> eng_confirmations (snd (authorize_checked sha now r b n e))
       = (eng_confirmations e)(rq_ConfirmationToken r := None)"
  by (auto simp: authorize_checked_def Let_def dest: consume_pair
      split: sum.splits prod.splits bool.splits)

lemma checked_allowed_consumes:
  assumes "is_ok (fst (authorize_checked sha now r b n e))"
    and "requiredConfirmation (rq_Capability r) \<noteq> ConfirmationNone"
  shows "eng_confirmations e (rq_ConfirmationToken r) \<noteq> None
    \<and> eng_confirmations (snd (authorize_checked sha now r b n e)) (rq_ConfirmationToken r) = None"
proof -
  obtain k e' where c: "consumeConfirmationLocked now (rq_SessionID r) (rq_ConfirmationToken r)
      (requiredConfirmation (rq_Capability r)) (rq_ConfirmationBinding r) e = (k, e')"
    by fastforce
  have "k" and "snd (authorize_checked sha now r b n e) = snd (authorize_finish sha now r n
      (projr (Compile (eng_policy e) b)) e')"
    using assms c by (auto simp: authorize_checked_def Let_def split: sum.splits if_splits bool.splits)
  then show ?thesis
    using consume_pair [OF c] c
    by (auto simp: consumeConfirmationLocked_def split: option.splits)
qed

text \<open>A request gets past the replay check when its session is live, carries its nonce and
  repository, the repository is enrolled on the binding's filesystem, and a new nonce is drawn.\<close>

definition nonce_accepted :: "instant \<Rightarrow> string option \<Rightarrow> go_ctx \<Rightarrow> sec_request \<Rightarrow> sec_binding \<Rightarrow> engine \<Rightarrow> bool" where
  "nonce_accepted now rnd ctx r b e \<longleftrightarrow>
     ctx \<noteq> Ctx_Nil
     \<and> (case (eng_sessions e (rq_SessionID r), eng_enrollments e (rq_RepositoryID r)) of
          (Some s, Some en) \<Rightarrow>
            now < ss_ExpiresAt s \<and> ss_PrincipalID s = rq_PrincipalID r
            \<and> ss_RepositoryID s = rq_RepositoryID r \<and> rq_Nonce r \<noteq> [] \<and> rq_Nonce r = ss_Nonce s
            \<and> bd_RepositoryID b = rq_RepositoryID r \<and> bd_FilesystemID b \<noteq> []
            \<and> en_FilesystemID en = bd_FilesystemID b
        | _ \<Rightarrow> False)
     \<and> rnd \<noteq> None"

lemma deny_again: "\<exists>err' d'. deny now r err d e = deny now r err' d' e"
  by blast

lemma Authorize_rejected:
  assumes "\<not> nonce_accepted now rnd ctx r b e" and "ctx \<noteq> Ctx_Nil"
  shows "\<exists>err d. Authorize sha now rnd ctx r b e = deny now r err d e"
proof (cases "eng_sessions e (rq_SessionID r)")
  case None
  then show ?thesis using assms(2) by (simp add: Authorize_def deny_again)
next
  case s: (Some s)
  show ?thesis
  proof (cases "eng_enrollments e (rq_RepositoryID r)")
    case None
    then show ?thesis using assms(2) s by (simp add: Authorize_def deny_again)
  next
    case (Some en)
    then show ?thesis
      using s assms by (cases rnd) (auto simp: Authorize_def nonce_accepted_def deny_again)
  qed
qed

lemma Authorize_nil: "Authorize sha now rnd Ctx_Nil r b e = (Inl ErrDenied, e)"
  by (simp add: Authorize_def)

lemma Authorize_accepted:
  assumes "nonce_accepted now rnd ctx r b e"
  obtains s bytes where "eng_sessions e (rq_SessionID r) = Some s" "rnd = Some bytes"
    "rq_Nonce r = ss_Nonce s"
    "Authorize sha now rnd ctx r b e = authorize_checked sha now r b (opaque ''nonce_'' bytes)
       (e\<lparr>eng_sessions := (eng_sessions e)(ss_ID s \<mapsto> s\<lparr>ss_Nonce := opaque ''nonce_'' bytes\<rparr>)\<rparr>)"
proof -
  from assms obtain s en bytes where
    "eng_sessions e (rq_SessionID r) = Some s" "eng_enrollments e (rq_RepositoryID r) = Some en"
    "rnd = Some bytes" "rq_Nonce r = ss_Nonce s"
    by (auto simp: nonce_accepted_def split: option.splits)
  with assms show thesis
    by (intro that) (simp_all add: Authorize_def nonce_accepted_def)
qed

lemma Authorize_allowed_accepted:
  assumes "is_ok (fst (Authorize sha now rnd ctx r b e))"
  shows "nonce_accepted now rnd ctx r b e"
proof (rule ccontr)
  assume "\<not> nonce_accepted now rnd ctx r b e"
  then have "ctx = Ctx_Nil \<or> (\<exists>err d. Authorize sha now rnd ctx r b e = deny now r err d e)"
    using Authorize_rejected by blast
  then show False using assms by (auto simp: Authorize_nil)
qed

subsection \<open>Invariant\<close>

lemma enroll_step:
  "snd (EnrollRepository sha now rnd ctx pid rid fid e) = e
   \<or> (\<exists>en. en_RepositoryID en = rid \<and> validIdentity fid \<and> en_FilesystemID en = fid
        \<and> eng_enrollments (snd (EnrollRepository sha now rnd ctx pid rid fid e)) = (eng_enrollments e)(rid \<mapsto> en)
        \<and> eng_sessions (snd (EnrollRepository sha now rnd ctx pid rid fid e)) = eng_sessions e
        \<and> eng_confirmations (snd (EnrollRepository sha now rnd ctx pid rid fid e)) = eng_confirmations e
        \<and> eng_policy (snd (EnrollRepository sha now rnd ctx pid rid fid e)) = eng_policy e)"
proof (cases "ctx = Ctx_Nil \<or> \<not> validID pid \<or> \<not> validIdentity rid \<or> \<not> validIdentity fid \<or> rnd = None")
  case True
  then show ?thesis by (cases rnd) (auto simp: EnrollRepository_def)
next
  case False
  then obtain bytes where "rnd = Some bytes" by blast
  with False show ?thesis
    by (intro disjI2 exI [of _ "\<lparr>en_RepositoryID = rid, en_FilesystemID = fid,
          en_TrustedRefDigest = digestString sha (opaque ''ref_'' bytes), en_EnrolledAt = now\<rparr>"])
       (simp add: EnrollRepository_def appendAuditLocked_def Let_def)
qed

lemma open_step:
  "snd (OpenAuthenticatedSession now r1 r2 ctx p rid ttl e) = e
   \<or> (\<exists>s bytes nb. r1 = Some bytes \<and> r2 = Some nb \<and> ss_ID s = opaque ''session_'' bytes
        \<and> ss_Nonce s = opaque ''nonce_'' nb \<and> ss_RepositoryID s = rid
        \<and> ss_PrincipalID s = pr_ID p \<and> ss_ExpiresAt s \<le> now + ttl
        \<and> eng_enrollments e rid \<noteq> None
        \<and> snd (OpenAuthenticatedSession now r1 r2 ctx p rid ttl e)
            = e\<lparr>eng_sessions := (eng_sessions e)(ss_ID s \<mapsto> s)\<rparr>)"
proof (cases "ctx = Ctx_Nil \<or> \<not> validPrincipal now p \<or> \<not> validIdentity rid \<or> ttl \<le> 0
    \<or> 24 * hour < ttl \<or> eng_enrollments e rid = None \<or> r1 = None \<or> r2 = None")
  case True
  then show ?thesis by (cases r1; cases r2) (auto simp: OpenAuthenticatedSession_def)
next
  case False
  then obtain bytes nb where "r1 = Some bytes" "r2 = Some nb" by (cases r1; cases r2) auto
  with False show ?thesis
    by - (rule disjI2, rule exI [of _ "\<lparr>ss_ID = opaque ''session_'' bytes, ss_PrincipalID = pr_ID p,
          ss_RepositoryID = rid, ss_TransportID = pr_TransportID p,
          ss_AuthenticationID = pr_AuthenticationID p, ss_Nonce = opaque ''nonce_'' nb,
          ss_ExpiresAt = (if pr_ExpiresAt p < now + ttl then pr_ExpiresAt p else now + ttl)\<rparr>"],
          rule exI [of _ bytes], rule exI [of _ nb], auto simp: OpenAuthenticatedSession_def Let_def)
qed

lemma issue_step:
  "snd (IssueOperatorConfirmation now rnd c a r e) = e
   \<or> (\<exists>cf bytes. rnd = Some bytes \<and> cf_Token cf = opaque ''confirm_'' bytes
        \<and> cf_Binding cf = or_Binding r \<and> confirmable_class (cf_Class cf)
        \<and> validConfirmationBinding (cf_Binding cf)
        \<and> eng_sessions e (cb_SessionID (cf_Binding cf)) \<noteq> None
        \<and> snd (IssueOperatorConfirmation now rnd c a r e)
            = e\<lparr>eng_confirmations := (eng_confirmations e)(cf_Token cf \<mapsto> cf)\<rparr>)"
proof (cases "is_ok (fst (IssueOperatorConfirmation now rnd c a r e))")
  case False
  then show ?thesis
    by (cases rnd) (auto simp: IssueOperatorConfirmation_def Let_def split: option.splits)
next
  case True
  then obtain bytes where "rnd = Some bytes"
    by (cases rnd) (auto simp: IssueOperatorConfirmation_def split: option.splits if_splits)
  with True show ?thesis
    by (intro disjI2 exI [of _ "\<lparr>cf_Token = opaque ''confirm_'' bytes, cf_Class = or_Class r,
          cf_Binding = or_Binding r, cf_ExpiresAt = now + or_TTL r\<rparr>"] exI [of _ bytes])
       (auto simp: IssueOperatorConfirmation_def Let_def split: option.splits if_splits)
qed

lemma authorize_step:
  "(eng_sessions (snd (Authorize sha now rnd ctx r b e)) = eng_sessions e
      \<and> eng_confirmations (snd (Authorize sha now rnd ctx r b e)) = eng_confirmations e
    \<or> (\<exists>s bytes. nonce_accepted now rnd ctx r b e \<and> eng_sessions e (rq_SessionID r) = Some s
         \<and> rnd = Some bytes
         \<and> eng_sessions (snd (Authorize sha now rnd ctx r b e))
             = (eng_sessions e)(ss_ID s \<mapsto> s\<lparr>ss_Nonce := opaque ''nonce_'' bytes\<rparr>)
         \<and> (eng_confirmations (snd (Authorize sha now rnd ctx r b e)) = eng_confirmations e
            \<or> eng_confirmations (snd (Authorize sha now rnd ctx r b e))
                = (eng_confirmations e)(rq_ConfirmationToken r := None))))
   \<and> eng_enrollments (snd (Authorize sha now rnd ctx r b e)) = eng_enrollments e
   \<and> eng_policy (snd (Authorize sha now rnd ctx r b e)) = eng_policy e"
proof (cases "nonce_accepted now rnd ctx r b e")
  case False
  then have "ctx = Ctx_Nil \<or> (\<exists>err d. Authorize sha now rnd ctx r b e = deny now r err d e)"
    using Authorize_rejected by blast
  then show ?thesis by (auto simp: Authorize_nil)
next
  case True
  then obtain s bytes where s: "eng_sessions e (rq_SessionID r) = Some s" "rnd = Some bytes"
    and eq: "Authorize sha now rnd ctx r b e = authorize_checked sha now r b (opaque ''nonce_'' bytes)
       (e\<lparr>eng_sessions := (eng_sessions e)(ss_ID s \<mapsto> s\<lparr>ss_Nonce := opaque ''nonce_'' bytes\<rparr>)\<rparr>)"
    by (rule Authorize_accepted)
  have "eng_sessions (snd (Authorize sha now rnd ctx r b e))
      = (eng_sessions e)(ss_ID s \<mapsto> s\<lparr>ss_Nonce := opaque ''nonce_'' bytes\<rparr>)"
    and "eng_enrollments (snd (Authorize sha now rnd ctx r b e)) = eng_enrollments e"
    and "eng_policy (snd (Authorize sha now rnd ctx r b e)) = eng_policy e"
    by (simp_all add: eq)
  moreover have "eng_confirmations (snd (Authorize sha now rnd ctx r b e)) = eng_confirmations e
      \<or> eng_confirmations (snd (Authorize sha now rnd ctx r b e))
          = (eng_confirmations e)(rq_ConfirmationToken r := None)"
    using checked_confirmations
      [of sha now r b "opaque ''nonce_'' bytes"
        "e\<lparr>eng_sessions := (eng_sessions e)(ss_ID s \<mapsto> s\<lparr>ss_Nonce := opaque ''nonce_'' bytes\<rparr>)\<rparr>"]
    unfolding eq by simp
  ultimately show ?thesis using True s by blast
qed

lemma engine_wf_step: "engine_wf e \<Longrightarrow> engine_wf (engine_step sha op e)"
proof (cases op)
  case (Op_Enroll now rnd ctx pid rid fid)
  assume "engine_wf e"
  then show ?thesis
    using enroll_step [of sha now rnd ctx pid rid fid e] unfolding Op_Enroll
    by (auto simp: engine_wf_def split: if_splits)
next
  case (Op_Open now r1 r2 ctx p rid ttl)
  assume "engine_wf e"
  then show ?thesis
    using open_step [of now r1 r2 ctx p rid ttl e] unfolding Op_Open
    by (auto simp: engine_wf_def split: if_splits)
next
  case (Op_Issue now rnd c a r)
  assume "engine_wf e"
  then show ?thesis
    using issue_step [of now rnd c a r e] unfolding Op_Issue
    by (auto simp: engine_wf_def split: if_splits)
next
  case (Op_Revoke ctx sid)
  assume "engine_wf e"
  then show ?thesis
    unfolding Op_Revoke
    by (auto simp: engine_wf_def RevokeSession_def split: option.splits if_splits)
next
  case (Op_Authorize now rnd ctx r b)
  assume "engine_wf e"
  then show ?thesis
    using authorize_step [of sha now rnd ctx r b e] unfolding Op_Authorize
    by (auto simp: engine_wf_def split: if_splits)
qed

lemma NewEngine_wf: "NewEngine p = Inr e \<Longrightarrow> engine_wf e"
  by (auto simp: NewEngine_def engine_wf_def split: if_splits)

lemma engine_run_wf: "engine_wf e \<Longrightarrow> engine_wf (engine_run sha ops e)"
  unfolding engine_run_def by (rule foldl_invariant) (auto intro: engine_wf_step)

subsection \<open>A sample run\<close>

text \<open>A repository is enrolled, a session opened, a publication confirmed by an operator and
  used, and the same request replayed.\<close>

definition rnd16 :: "nat \<Rightarrow> string option" where
  "rnd16 k = Some (replicate 16 (char_of k))"

definition sample_engine :: engine where
  "sample_engine =
    \<lparr>eng_policy = defaultPolicy, eng_enrollments = Map.empty, eng_sessions = Map.empty,
     eng_confirmations = Map.empty, eng_audit = []\<rparr>"

definition sample_principal :: principal where
  "sample_principal =
    \<lparr>pr_ID = ''agent'', pr_TransportID = ''transport'', pr_AuthenticationID = sample_identity,
     pr_ExpiresAt = 1000 * hour\<rparr>"

definition sample_sid :: string where
  "sample_sid = opaque ''session_'' (replicate 16 (char_of (1::nat)))"

definition sample_nonce :: string where
  "sample_nonce = opaque ''nonce_'' (replicate 16 (char_of (2::nat)))"

definition sample_token :: string where
  "sample_token = opaque ''confirm_'' (replicate 16 (char_of (3::nat)))"

definition sample_confirmation_binding :: confirmation_binding where
  "sample_confirmation_binding =
    \<lparr>cb_Action = ''publish'', cb_RepositoryID = sample_identity, cb_PrincipalID = ''agent'',
     cb_SessionID = sample_sid, cb_GenerationID = ''gen'', cb_FencingGeneration = 1,
     cb_CandidateSnapshot = sample_identity, cb_PlanDigest = sample_identity\<rparr>"

definition sample_request :: sec_request where
  "sample_request =
    \<lparr>rq_SessionID = sample_sid, rq_PrincipalID = ''agent'', rq_RepositoryID = sample_identity,
     rq_Nonce = sample_nonce, rq_Capability = CapabilityPublish, rq_Target = TargetLiveRepository,
     rq_Path = [], rq_TrustedIntegrationRef = opaque ''ref_'' (replicate 16 (char_of (4::nat))),
     rq_ConfirmationToken = sample_token, rq_ConfirmationBinding = sample_confirmation_binding,
     rq_Execution = sample_execution\<rparr>"

definition sample_op_context :: op_context where
  "sample_op_context =
     WithOperatorAuthentication \<lparr>oc_ctx = Ctx_Live, oc_operator = None\<rparr> ''operator''"

definition sample_setup :: "engine_op list" where
  "sample_setup =
    [Op_Enroll 1 (rnd16 4) Ctx_Live ''agent'' sample_identity sample_identity,
     Op_Open 2 (rnd16 1) (rnd16 2) Ctx_Live sample_principal sample_identity hour]"

definition sample_op_request :: operator_request where
  "sample_op_request =
    \<lparr>or_Binding = sample_confirmation_binding, or_Class = ConfirmationPublication, or_TTL = minute\<rparr>"

definition sample_ops :: "engine_op list" where
  "sample_ops = sample_setup @
    [Op_Issue 3 (rnd16 3) sample_op_context (Some (AuthenticatedOperatorAuthority ''operator'')) sample_op_request,
     Op_Authorize 4 (rnd16 5) Ctx_Live sample_request sample_binding,
     Op_Authorize 5 (rnd16 6) Ctx_Live sample_request sample_binding]"

lemma sample_engine_new: "NewEngine defaultPolicy = Inr sample_engine"
proof -
  have "validatePolicy defaultPolicy" by code_simp
  then show ?thesis by (simp add: NewEngine_def sample_engine_def)
qed

subsection \<open>Single use\<close>

lemma uses_potential:
  assumes "engine_wf e"
    and "\<And>op e. engine_wf e \<Longrightarrow> of_bool (P op e) + f (engine_step sha op e) \<le> f e + d op"
  shows "uses P sha ops e \<le> f e + sum_list (map d ops)"
  using assms(1)
proof (induction ops arbitrary: e)
  case (Cons op ops)
  have "uses P sha ops (engine_step sha op e)
      \<le> f (engine_step sha op e) + sum_list (map d ops)"
    using Cons.IH Cons.prems engine_wf_step by blast
  moreover have "of_bool (P op e) + f (engine_step sha op e) \<le> f e + d op"
    using assms(2) Cons.prems by blast
  ultimately show ?case by simp
qed simp

lemma count_concat: "sum_list (map (\<lambda>x. count_list (g x) n) xs) = count_list (concat (map g xs)) n"
  by (induction xs) auto

lemma count_distinct: "distinct xs \<Longrightarrow> count_list xs n \<le> 1"
  by (induction xs) (auto simp: count_list_0_iff)

definition session_nonce_is :: "string \<Rightarrow> string \<Rightarrow> engine \<Rightarrow> bool" where
  "session_nonce_is sid n e \<longleftrightarrow> (\<exists>s. eng_sessions e sid = Some s \<and> ss_Nonce s = n)"

text \<open>An operation that spends nonce \<open>n\<close> of session \<open>sid\<close>: a request that carries them and
  gets past the replay check, whether it is allowed in the end or not.\<close>

fun spends_nonce :: "string \<Rightarrow> string \<Rightarrow> engine_op \<Rightarrow> engine \<Rightarrow> bool" where
  "spends_nonce sid n (Op_Authorize now rnd ctx r b) e \<longleftrightarrow>
     rq_SessionID r = sid \<and> rq_Nonce r = n \<and> nonce_accepted now rnd ctx r b e"
| "spends_nonce sid n _ e \<longleftrightarrow> False"

lemma nonce_potential:
  assumes "engine_wf e"
  shows "of_bool (spends_nonce sid n op e) + of_bool (session_nonce_is sid n (engine_step sha op e))
         \<le> of_bool (session_nonce_is sid n e) + count_list (nonce_draw op) n"
proof (cases op)
  case (Op_Enroll now rnd ctx pid rid fid)
  then show ?thesis
    using enroll_step [of sha now rnd ctx pid rid fid e] by (auto simp: session_nonce_is_def split: if_splits)
next
  case (Op_Open now r1 r2 ctx p rid ttl)
  then show ?thesis
    using open_step [of now r1 r2 ctx p rid ttl e] by (auto simp: session_nonce_is_def split: if_splits)
next
  case (Op_Issue now rnd c a r)
  then show ?thesis
    using issue_step [of now rnd c a r e] by (auto simp: session_nonce_is_def split: if_splits)
next
  case (Op_Revoke ctx sid)
  then show ?thesis
    by (auto simp: session_nonce_is_def RevokeSession_def split: if_splits)
next
  case op: (Op_Authorize now rnd ctx r b)
  show ?thesis
  proof (cases "nonce_accepted now rnd ctx r b e")
    case False
    then show ?thesis
      using authorize_step [of sha now rnd ctx r b e] unfolding op
      by (auto simp: session_nonce_is_def split: if_splits)
  next
    case True
    then obtain s bytes where s: "eng_sessions e (rq_SessionID r) = Some s" "rnd = Some bytes"
      and n: "rq_Nonce r = ss_Nonce s"
      and eq: "Authorize sha now rnd ctx r b e = authorize_checked sha now r b (opaque ''nonce_'' bytes)
         (e\<lparr>eng_sessions := (eng_sessions e)(ss_ID s \<mapsto> s\<lparr>ss_Nonce := opaque ''nonce_'' bytes\<rparr>)\<rparr>)"
      by (rule Authorize_accepted)
    have "ss_ID s = rq_SessionID r" using assms s(1) by (auto simp: engine_wf_def)
    moreover have "eng_sessions (snd (Authorize sha now rnd ctx r b e))
        = (eng_sessions e)(ss_ID s \<mapsto> s\<lparr>ss_Nonce := opaque ''nonce_'' bytes\<rparr>)"
      by (simp add: eq)
    ultimately show ?thesis
      using s n unfolding op by (auto simp: session_nonce_is_def split: if_splits)
  qed
qed

text \<open>A session nonce is spent at most once. Over every sequence of engine operations that
  starts from a new engine and draws pairwise distinct nonces, at most one request carrying nonce
  \<open>n\<close> of session \<open>sid\<close> gets past the replay check, no matter how requests, enrolments, session
  openings, confirmations and revocations are interleaved, and whether that request is then
  allowed or denied.\<close>

theorem session_nonce_single_use:
  assumes "NewEngine p = Inr e" and "distinct (concat (map nonce_draw ops))"
  shows "uses (spends_nonce sid n) sha ops e \<le> 1"
proof -
  have "uses (spends_nonce sid n) sha ops e
      \<le> of_bool (session_nonce_is sid n e) + sum_list (map (\<lambda>op. count_list (nonce_draw op) n) ops)"
    by (rule uses_potential [OF NewEngine_wf [OF assms(1)] nonce_potential])
  also have "session_nonce_is sid n e = False"
    using assms(1) by (auto simp: NewEngine_def session_nonce_is_def split: if_splits)
  finally show ?thesis
    using count_distinct [OF assms(2), of n] by (simp add: count_concat)
qed

theorem session_nonce_single_use_witness:
  "uses (spends_nonce sample_sid sample_nonce) (\<lambda>v. v) sample_ops sample_engine \<le> 1
   \<and> uses (spends_nonce sample_sid sample_nonce) (\<lambda>v. v) sample_ops sample_engine = 1"
proof -
  have d: "distinct (concat (map nonce_draw sample_ops))" by code_simp
  have "uses (spends_nonce sample_sid sample_nonce) (\<lambda>v. v) sample_ops sample_engine = 1" by code_simp
  then show ?thesis using session_nonce_single_use [OF sample_engine_new d] by blast
qed

text \<open>An operation that spends confirmation token \<open>t\<close>: an allowed request for a capability that
  needs a confirmation and that carries the token.\<close>

fun spends_token :: "(string \<Rightarrow> string) \<Rightarrow> string \<Rightarrow> engine_op \<Rightarrow> engine \<Rightarrow> bool" where
  "spends_token sha t (Op_Authorize now rnd ctx r b) e \<longleftrightarrow>
     rq_ConfirmationToken r = t \<and> requiredConfirmation (rq_Capability r) \<noteq> ConfirmationNone
     \<and> is_ok (fst (Authorize sha now rnd ctx r b e))"
| "spends_token sha t _ e \<longleftrightarrow> False"

lemma Authorize_spends:
  assumes "is_ok (fst (Authorize sha now rnd ctx r b e))"
    and "requiredConfirmation (rq_Capability r) \<noteq> ConfirmationNone"
  shows "eng_confirmations e (rq_ConfirmationToken r) \<noteq> None
    \<and> eng_confirmations (snd (Authorize sha now rnd ctx r b e)) (rq_ConfirmationToken r) = None"
proof -
  obtain s bytes where
    eq: "Authorize sha now rnd ctx r b e = authorize_checked sha now r b (opaque ''nonce_'' bytes)
       (e\<lparr>eng_sessions := (eng_sessions e)(ss_ID s \<mapsto> s\<lparr>ss_Nonce := opaque ''nonce_'' bytes\<rparr>)\<rparr>)"
    using Authorize_allowed_accepted [OF assms(1)] by (rule Authorize_accepted)
  show ?thesis
    using checked_allowed_consumes [OF assms(1) [unfolded eq] assms(2)] by (simp add: eq)
qed

lemma token_potential:
  assumes "engine_wf e"
  shows "of_bool (spends_token sha t op e) + of_bool (eng_confirmations (engine_step sha op e) t \<noteq> None)
         \<le> of_bool (eng_confirmations e t \<noteq> None) + count_list (token_draw op) t"
proof (cases op)
  case (Op_Enroll now rnd ctx pid rid fid)
  then show ?thesis
    using enroll_step [of sha now rnd ctx pid rid fid e] by auto
next
  case (Op_Open now r1 r2 ctx p rid ttl)
  then show ?thesis
    using open_step [of now r1 r2 ctx p rid ttl e] by auto
next
  case (Op_Issue now rnd c a r)
  then show ?thesis
    using issue_step [of now rnd c a r e] by (auto split: if_splits)
next
  case (Op_Revoke ctx sid)
  then show ?thesis
    by (auto simp: RevokeSession_def split: if_splits option.splits)
next
  case op: (Op_Authorize now rnd ctx r b)
  show ?thesis
  proof (cases "spends_token sha t op e")
    case True
    then show ?thesis using Authorize_spends [of sha now rnd ctx r b e] unfolding op by auto
  next
    case False
    then show ?thesis
      using authorize_step [of sha now rnd ctx r b e] unfolding op by (auto split: if_splits)
  qed
qed

text \<open>An operator confirmation is one-time. Over every sequence of engine operations from a
  new engine that draws pairwise distinct tokens, at most one integrate or publish request is
  allowed with a given token.\<close>

theorem confirmation_single_use:
  assumes "NewEngine p = Inr e" and "distinct (concat (map token_draw ops))"
  shows "uses (spends_token sha t) sha ops e \<le> 1"
proof -
  have "uses (spends_token sha t) sha ops e
      \<le> of_bool (eng_confirmations e t \<noteq> None) + sum_list (map (\<lambda>op. count_list (token_draw op) t) ops)"
    by (rule uses_potential [OF NewEngine_wf [OF assms(1)] token_potential])
  also have "(eng_confirmations e t \<noteq> None) = False"
    using assms(1) by (auto simp: NewEngine_def split: if_splits)
  finally show ?thesis
    using count_distinct [OF assms(2), of t] by (simp add: count_concat)
qed

theorem confirmation_single_use_witness:
  "uses (spends_token (\<lambda>v. v) sample_token) (\<lambda>v. v) sample_ops sample_engine \<le> 1
   \<and> uses (spends_token (\<lambda>v. v) sample_token) (\<lambda>v. v) sample_ops sample_engine = 1"
proof -
  have d: "distinct (concat (map token_draw sample_ops))" by code_simp
  have "uses (spends_token (\<lambda>v. v) sample_token) (\<lambda>v. v) sample_ops sample_engine = 1" by code_simp
  then show ?thesis using confirmation_single_use [OF sample_engine_new d] by blast
qed

subsection \<open>What an allowed request has passed\<close>

definition confirmation_matches :: "instant \<Rightarrow> sec_request \<Rightarrow> engine \<Rightarrow> bool" where
  "confirmation_matches now r e \<longleftrightarrow>
     (case eng_confirmations e (rq_ConfirmationToken r) of
        None \<Rightarrow> False
      | Some cf \<Rightarrow> cb_SessionID (cf_Binding cf) = rq_SessionID r
          \<and> cf_Class cf = requiredConfirmation (rq_Capability r) \<and> now < cf_ExpiresAt cf
          \<and> cf_Binding cf = rq_ConfirmationBinding r)"

lemma deny_not_ok [simp]: "\<not> is_ok (fst (deny now r err d e))"
  by simp

lemma finish_ok:
  "is_ok (fst (authorize_finish sha now r n c e)) \<longleftrightarrow>
     (\<not> needs_trusted_ref (rq_Capability r)
        \<or> validateTrustedRefLocked sha (rq_RepositoryID r) (rq_TrustedIntegrationRef r) e)
     \<and> (rq_Capability r \<noteq> CapabilityExecute
        \<or> is_ok (CompileExecution (pol_Execution (eng_policy e)) (rq_Execution r)))"
  by (auto simp: authorize_finish_def Let_def split: sum.splits
      simp: map_sum_def is_ok_def)

lemma consume_ok:
  "fst (consumeConfirmationLocked now (rq_SessionID r) (rq_ConfirmationToken r)
      (requiredConfirmation (rq_Capability r)) (rq_ConfirmationBinding r) e)
   \<longleftrightarrow> confirmation_matches now r e"
  by (auto simp: consumeConfirmationLocked_def confirmation_matches_def split: option.splits)

lemma trusted_ref_enrollments:
  "eng_enrollments e' = eng_enrollments e \<Longrightarrow>
     validateTrustedRefLocked sha rid ref e' = validateTrustedRefLocked sha rid ref e"
  by (simp add: validateTrustedRefLocked_def)

lemma checked_ok:
  "is_ok (fst (authorize_checked sha now r b n e)) \<longleftrightarrow>
     rq_Capability r \<in> set (pol_Capabilities (eng_policy e))
     \<and> is_ok (Compile (eng_policy e) b) \<and> validateTarget r b
     \<and> (requiredConfirmation (rq_Capability r) = ConfirmationNone \<or> confirmation_matches now r e)
     \<and> (\<not> needs_trusted_ref (rq_Capability r)
        \<or> validateTrustedRefLocked sha (rq_RepositoryID r) (rq_TrustedIntegrationRef r) e)
     \<and> (rq_Capability r \<noteq> CapabilityExecute
        \<or> is_ok (CompileExecution (pol_Execution (eng_policy e)) (rq_Execution r)))"
proof -
  obtain k e' where c: "consumeConfirmationLocked now (rq_SessionID r) (rq_ConfirmationToken r)
      (requiredConfirmation (rq_Capability r)) (rq_ConfirmationBinding r) e = (k, e')"
    by fastforce
  have k: "k \<longleftrightarrow> confirmation_matches now r e" using consume_ok [of now r e] c by simp
  have e': "eng_enrollments e' = eng_enrollments e" "eng_policy e' = eng_policy e"
    using consume_pair [OF c] by auto
  show ?thesis
  proof (cases "requiredConfirmation (rq_Capability r) = ConfirmationNone")
    case True
    then show ?thesis
      by (auto simp: authorize_checked_def Let_def finish_ok split: sum.splits)
  next
    case False
    then show ?thesis
      using c k e' trusted_ref_enrollments [OF e'(1)]
      by (cases k) (auto simp: authorize_checked_def Let_def finish_ok split: sum.splits)
  qed
qed

text \<open>C3: \<open>Authorize\<close> allows a request exactly when all of its guards hold: a live session of
  that principal and repository whose current nonce the request carries, an enrolment on the
  binding's filesystem, randomness for the next nonce, a granted capability, a policy that compiles
  for the binding, a valid target, for integrate and publish an unexpired confirmation of the right
  class issued for exactly the claimed binding and the enrolled trusted reference, and for execute
  an execution that compiles.\<close>

theorem Authorize_allows_iff:
  shows "is_ok (fst (Authorize sha now rnd ctx r b e)) \<longleftrightarrow>
    nonce_accepted now rnd ctx r b e
    \<and> rq_Capability r \<in> set (pol_Capabilities (eng_policy e))
    \<and> is_ok (Compile (eng_policy e) b) \<and> validateTarget r b
    \<and> (requiredConfirmation (rq_Capability r) = ConfirmationNone \<or> confirmation_matches now r e)
    \<and> (requiredConfirmation (rq_Capability r) = ConfirmationNone
       \<or> validateTrustedRefLocked sha (rq_RepositoryID r) (rq_TrustedIntegrationRef r) e)
    \<and> (if rq_Capability r = CapabilityExecute
       then is_ok (CompileExecution (pol_Execution (eng_policy e)) (rq_Execution r)) else True)"
proof (cases "nonce_accepted now rnd ctx r b e")
  case False
  then show ?thesis using Authorize_allowed_accepted by blast
next
  case True
  then obtain s bytes where
    eq: "Authorize sha now rnd ctx r b e = authorize_checked sha now r b (opaque ''nonce_'' bytes)
       (e\<lparr>eng_sessions := (eng_sessions e)(ss_ID s \<mapsto> s\<lparr>ss_Nonce := opaque ''nonce_'' bytes\<rparr>)\<rparr>)"
    by (rule Authorize_accepted)
  have "confirmation_matches now r
      (e\<lparr>eng_sessions := (eng_sessions e)(ss_ID s \<mapsto> s\<lparr>ss_Nonce := opaque ''nonce_'' bytes\<rparr>)\<rparr>)
      = confirmation_matches now r e"
    by (simp add: confirmation_matches_def)
  moreover have "needs_trusted_ref c \<longleftrightarrow> requiredConfirmation c \<noteq> ConfirmationNone" for c
    by (auto simp: needs_trusted_ref_def requiredConfirmation_def confirmation_defs)
  ultimately show ?thesis
    using True trusted_ref_enrollments [of "e\<lparr>eng_sessions := (eng_sessions e)(ss_ID s \<mapsto> s\<lparr>ss_Nonce := opaque ''nonce_'' bytes\<rparr>)\<rparr>" e]
    by (simp add: eq checked_ok)
qed

subsection \<open>The audit trail\<close>

definition audited_once ::
  "instant \<Rightarrow> sec_request \<Rightarrow> engine \<Rightarrow> (sec_error + decision) \<times> engine \<Rightarrow> bool" where
  "audited_once now r e res \<longleftrightarrow>
     (\<exists>ev. eng_audit (snd res) = eng_audit e @ [ev]
       \<and> ae_Outcome ev = (if is_ok (fst res) then ''allowed'' else ''denied'')
       \<and> ae_PrincipalID ev = rq_PrincipalID r \<and> ae_SessionID ev = rq_SessionID r
       \<and> ae_RepositoryID ev = rq_RepositoryID r \<and> ae_Capability ev = rq_Capability r
       \<and> ae_At ev = now)"

lemma deny_audited: "eng_audit e' = eng_audit e \<Longrightarrow> audited_once now r e (deny now r err det e')"
  by (simp add: audited_once_def deny_def appendAuditLocked_def request_event_def)

lemma finish_audited:
  assumes "eng_audit e' = eng_audit e"
  shows "audited_once now r e (authorize_finish sha now r n c e')"
proof (cases "is_ok (fst (authorize_finish sha now r n c e'))")
  case True
  then show ?thesis
    using assms
    by (auto simp: authorize_finish_def audited_once_def appendAuditLocked_def
        request_event_def Let_def split: sum.splits if_splits)
next
  case False
  then show ?thesis
    using deny_audited [OF assms]
    by (auto simp: authorize_finish_def Let_def split: sum.splits if_splits)
qed

lemma checked_audit: "audited_once now r e (authorize_checked sha now r b n e)"
proof -
  obtain k e' where c: "consumeConfirmationLocked now (rq_SessionID r) (rq_ConfirmationToken r)
      (requiredConfirmation (rq_Capability r)) (rq_ConfirmationBinding r) e = (k, e')"
    by fastforce
  have e': "eng_audit e' = eng_audit e" using consume_pair [OF c] by simp
  show ?thesis
    by (cases k) (simp_all add: authorize_checked_def Let_def c deny_audited finish_audited e' split: sum.split)
qed

text \<open>Every decision is audited: a call of \<open>Authorize\<close> with a context appends exactly one
  event, naming the request's principal, session, repository and capability and the time, and
  whose outcome is "allowed" just when the request is allowed.\<close>

theorem Authorize_audited:
  assumes "ctx \<noteq> Ctx_Nil"
  shows "\<exists>ev. AuditEvents (snd (Authorize sha now rnd ctx r b e)) = AuditEvents e @ [ev]
     \<and> ae_Outcome ev = (if is_ok (fst (Authorize sha now rnd ctx r b e)) then ''allowed'' else ''denied'')
     \<and> ae_PrincipalID ev = rq_PrincipalID r \<and> ae_SessionID ev = rq_SessionID r
     \<and> ae_RepositoryID ev = rq_RepositoryID r \<and> ae_Capability ev = rq_Capability r \<and> ae_At ev = now"
proof (cases "nonce_accepted now rnd ctx r b e")
  case False
  then obtain err d where "Authorize sha now rnd ctx r b e = deny now r err d e"
    using Authorize_rejected assms by blast
  then show ?thesis
    by (simp add: deny_def appendAuditLocked_def request_event_def AuditEvents_def)
next
  case True
  then obtain s bytes where
    eq: "Authorize sha now rnd ctx r b e = authorize_checked sha now r b (opaque ''nonce_'' bytes)
       (e\<lparr>eng_sessions := (eng_sessions e)(ss_ID s \<mapsto> s\<lparr>ss_Nonce := opaque ''nonce_'' bytes\<rparr>)\<rparr>)"
    by (rule Authorize_accepted)
  show ?thesis
    using checked_audit [of now r
        "e\<lparr>eng_sessions := (eng_sessions e)(ss_ID s \<mapsto> s\<lparr>ss_Nonce := opaque ''nonce_'' bytes\<rparr>)\<rparr>"
        sha b "opaque ''nonce_'' bytes"]
    by (simp add: eq AuditEvents_def audited_once_def)
qed

theorem Authorize_audited_witness:
  "\<exists>ev. AuditEvents (snd (Authorize (\<lambda>v. v) 3 None Ctx_Live sample_request sample_binding sample_engine))
     = AuditEvents sample_engine @ [ev] \<and> ae_Outcome ev = ''denied''"
proof -
  have "\<not> is_ok (fst (Authorize (\<lambda>v. v) 3 None Ctx_Live sample_request sample_binding sample_engine))"
    by code_simp
  then show ?thesis
    using Authorize_audited [of Ctx_Live "\<lambda>v. v" 3 None sample_request sample_binding sample_engine]
    by auto
qed

subsection \<open>Revocation\<close>

definition session_absent :: "string \<Rightarrow> engine \<Rightarrow> bool" where
  "session_absent sid e \<longleftrightarrow>
     eng_sessions e sid = None
     \<and> (\<forall>t cf. eng_confirmations e t = Some cf \<longrightarrow> cb_SessionID (cf_Binding cf) \<noteq> sid)"

lemma session_absent_step:
  assumes "engine_wf e" and "session_absent sid e" and "sid \<notin> set (session_draw op)"
  shows "session_absent sid (engine_step sha op e)"
proof (cases op)
  case (Op_Enroll now rnd ctx pid rid fid)
  then show ?thesis
    using assms enroll_step [of sha now rnd ctx pid rid fid e] by (fastforce simp: session_absent_def)
next
  case (Op_Open now r1 r2 ctx p rid ttl)
  then show ?thesis
    using assms open_step [of now r1 r2 ctx p rid ttl e] by (fastforce simp: session_absent_def)
next
  case (Op_Issue now rnd c a r)
  then show ?thesis
    using assms issue_step [of now rnd c a r e] by (fastforce simp: session_absent_def split: if_splits)
next
  case (Op_Revoke ctx sid)
  then show ?thesis
    using assms by (fastforce simp: session_absent_def RevokeSession_def split: if_splits option.splits)
next
  case op: (Op_Authorize now rnd ctx r b)
  have "ss_ID s = k" if "eng_sessions e k = Some s" for k s
    using assms(1) that by (simp add: engine_wf_def)
  then show ?thesis
    using assms(2) authorize_step [of sha now rnd ctx r b e] unfolding op
    by (fastforce simp: session_absent_def split: if_splits)
qed

lemma session_absent_run:
  assumes "engine_wf e" and "session_absent sid e" and "sid \<notin> set (concat (map session_draw ops))"
  shows "session_absent sid (engine_run sha ops e)"
  using assms
proof (induction ops arbitrary: e)
  case (Cons op ops)
  have "engine_run sha (op # ops) e = engine_run sha ops (engine_step sha op e)"
    by (simp add: engine_run_def)
  then show ?case
    using Cons.IH [OF engine_wf_step [OF Cons.prems(1)] session_absent_step [OF Cons.prems(1,2)]]
      Cons.prems(3) by simp
qed (simp add: engine_run_def)

text \<open>Revocation is final. Once \<open>RevokeSession\<close> succeeds on a session, no request in that
  session is allowed after any further operations (none of which draws the same session identifier
  again), and no confirmation issued for the session survives.\<close>

theorem RevokeSession_final:
  assumes "NewEngine p = Inr e0"
    and "RevokeSession ctx sid (engine_run sha before e0) = (Inr u, e)"
    and "sid \<notin> set (concat (map session_draw later))"
    and "rq_SessionID r = sid"
  shows "\<not> is_ok (fst (Authorize sha now rnd ctx' r b (engine_run sha later e)))
    \<and> (\<forall>t cf. eng_confirmations (engine_run sha later e) t = Some cf
          \<longrightarrow> cb_SessionID (cf_Binding cf) \<noteq> sid)"
proof -
  have wf: "engine_wf (engine_run sha before e0)"
    by (rule engine_run_wf [OF NewEngine_wf [OF assms(1)]])
  have e: "e = engine_step sha (Op_Revoke ctx sid) (engine_run sha before e0)"
    using assms(2) by simp
  have "session_absent sid e"
    using assms(2) by (auto simp: RevokeSession_def session_absent_def split: if_splits option.splits)
  then have "session_absent sid (engine_run sha later e)"
    using session_absent_run engine_wf_step [OF wf] assms(3) e by blast
  then show ?thesis
    using Authorize_allowed_accepted [of sha now rnd ctx' r b "engine_run sha later e"] assms(4)
    by (auto simp: session_absent_def nonce_accepted_def)
qed

theorem RevokeSession_final_witness:
  "\<exists>e. RevokeSession Ctx_Live sample_sid (engine_run (\<lambda>v. v) sample_setup sample_engine) = (Inr (), e)
     \<and> \<not> is_ok (fst (Authorize (\<lambda>v. v) 4 (rnd16 5) Ctx_Live sample_request sample_binding e))"
proof -
  let ?e = "engine_run (\<lambda>v. v) sample_setup sample_engine"
  have "is_ok (fst (RevokeSession Ctx_Live sample_sid ?e))" by code_simp
  then obtain e where e: "RevokeSession Ctx_Live sample_sid ?e = (Inr (), e)"
    by (cases "RevokeSession Ctx_Live sample_sid ?e") (auto simp: is_ok_iff)
  have "rq_SessionID sample_request = sample_sid" by (simp add: sample_request_def)
  then show ?thesis
    using RevokeSession_final [OF sample_engine_new e, of "[]"] e by (auto simp: engine_run_def)
qed

subsection \<open>Separation of duty\<close>

text \<open>A confirmation comes from someone else than the requesting principal: whatever
  \<open>IssueOperatorConfirmation\<close> issues was approved by a valid operator identity different from the
  principal in the binding, for a confirmable class and a complete binding, in a live session of
  that principal and repository, and expires within one hour. An authenticated authority has
  approved only in a context that carries its own identity.\<close>

theorem IssueOperatorConfirmation_separation:
  assumes "IssueOperatorConfirmation now rnd c authority r e = (Inr cf, e')"
  shows "\<exists>a s. authority = Some a \<and> validID (operator_id a)
    \<and> operator_id a \<noteq> cb_PrincipalID (cf_Binding cf)
    \<and> cf_Binding cf = or_Binding r \<and> validConfirmationBinding (cf_Binding cf)
    \<and> confirmable_class (cf_Class cf)
    \<and> eng_sessions e (cb_SessionID (cf_Binding cf)) = Some s \<and> now < ss_ExpiresAt s
    \<and> ss_PrincipalID s = cb_PrincipalID (cf_Binding cf)
    \<and> ss_RepositoryID s = cb_RepositoryID (cf_Binding cf)
    \<and> now < cf_ExpiresAt cf \<and> cf_ExpiresAt cf \<le> now + hour
    \<and> (a = AuthenticatedOperatorAuthority (operator_id a) \<longrightarrow> oc_operator c = Some (operator_id a))
    \<and> eng_confirmations e' = (eng_confirmations e)(cf_Token cf \<mapsto> cf)"
proof -
  obtain a where a: "authority = Some a"
    using assms by (cases authority) (auto simp: IssueOperatorConfirmation_def)
  have au: "AuthorizeOperator a c r" "confirmable_class (or_Class r)" "0 < or_TTL r" "or_TTL r \<le> hour"
    "validConfirmationBinding (or_Binding r)"
    using assms a by (auto simp: IssueOperatorConfirmation_def split: if_splits)
  from assms a obtain s where s: "eng_sessions e (cb_SessionID (or_Binding r)) = Some s"
    "now < ss_ExpiresAt s" "ss_PrincipalID s = cb_PrincipalID (or_Binding r)"
    "ss_RepositoryID s = cb_RepositoryID (or_Binding r)"
    by (auto simp: IssueOperatorConfirmation_def split: if_splits option.splits)
  from assms a s au have cf: "cf_Class cf = or_Class r" "cf_Binding cf = or_Binding r"
    "cf_ExpiresAt cf = now + or_TTL r" "eng_confirmations e' = (eng_confirmations e)(cf_Token cf \<mapsto> cf)"
    by (cases rnd; auto simp: IssueOperatorConfirmation_def Let_def split: if_splits)+
  have "validID (operator_id a)" "operator_id a \<noteq> cb_PrincipalID (or_Binding r)"
    "a = AuthenticatedOperatorAuthority (operator_id a) \<longrightarrow> oc_operator c = Some (operator_id a)"
    using au(1) by (cases a; auto split: if_splits)+
  then show ?thesis using a s au cf by (intro exI [of _ a] exI [of _ s]) auto
qed

theorem IssueOperatorConfirmation_separation_witness:
  "\<exists>cf e'. IssueOperatorConfirmation 3 (rnd16 3) sample_op_context
       (Some (AuthenticatedOperatorAuthority ''operator'')) sample_op_request
       (engine_run (\<lambda>v. v) sample_setup sample_engine) = (Inr cf, e')
     \<and> cf_ExpiresAt cf \<le> 3 + hour \<and> confirmable_class (cf_Class cf)"
proof -
  let ?r = "IssueOperatorConfirmation 3 (rnd16 3) sample_op_context
       (Some (AuthenticatedOperatorAuthority ''operator'')) sample_op_request
       (engine_run (\<lambda>v. v) sample_setup sample_engine)"
  have "is_ok (fst ?r)" by code_simp
  then obtain cf e' where r: "?r = (Inr cf, e')" by (cases ?r) (auto simp: is_ok_iff)
  then show ?thesis using IssueOperatorConfirmation_separation [OF r] by blast
qed

end
