(* ===== verification/Operator_Channel.thy ===== *)
theory Operator_Channel
  imports Security_Engine Replay_Window
begin

section \<open>The private operator channel (internal/operator/channel.go)\<close>

text \<open>
  The Unix-socket channel on which a human operator approves a destructive action: the framing,
  the signed request, the server's verification with its nonce table (a second interpretation of
  \<open>replay_window\<close>), the handler that turns a verified request into a call of the engine, and the
  client. The HMAC \<open>mac\<close>, the JSON encoder of the signed payload \<open>enc\<close> and the JSON codec of
  the wire values are arguments; the socket is the bytes read from it and the bytes written.
\<close>

subsection \<open>Wire values\<close>

definition maxFrameBytes :: nat where "maxFrameBytes = 16384"
definition maxReplayNonces :: nat where "maxReplayNonces = 4096"
definition op_replayTTL :: duration where "op_replayTTL = hour"

record wire_request =
  wr_OperatorID :: string
  wr_Nonce :: string
  wr_Class :: string
  wr_TTLSeconds :: int
  wr_Binding :: confirmation_binding
  wr_Signature :: string

record wire_response =
  wresp_Confirmation :: "confirmation option"
  wresp_Error :: string

record signature_payload =
  sp_OperatorID :: string
  sp_Nonce :: string
  sp_Class :: string
  sp_TTLSeconds :: int
  sp_Action :: string
  sp_RepositoryID :: string
  sp_PrincipalID :: string
  sp_SessionID :: string
  sp_GenerationID :: string
  sp_FencingGeneration :: nat
  sp_CandidateSnapshot :: string
  sp_PlanDigest :: string

definition signaturePayloadFor :: "wire_request \<Rightarrow> signature_payload" where
  "signaturePayloadFor r =
    \<lparr>sp_OperatorID = wr_OperatorID r, sp_Nonce = wr_Nonce r, sp_Class = wr_Class r,
     sp_TTLSeconds = wr_TTLSeconds r, sp_Action = cb_Action (wr_Binding r),
     sp_RepositoryID = cb_RepositoryID (wr_Binding r), sp_PrincipalID = cb_PrincipalID (wr_Binding r),
     sp_SessionID = cb_SessionID (wr_Binding r), sp_GenerationID = cb_GenerationID (wr_Binding r),
     sp_FencingGeneration = cb_FencingGeneration (wr_Binding r),
     sp_CandidateSnapshot = cb_CandidateSnapshot (wr_Binding r),
     sp_PlanDigest = cb_PlanDigest (wr_Binding r)\<rparr>"

definition validValue :: "string \<Rightarrow> bool" where
  "validValue v \<longleftrightarrow> v \<noteq> [] \<and> length v \<le> 256 \<and> \<not> contains_any v control_chars"

subsection \<open>Framing\<close>

text \<open>
  \<open>bufio.Reader.ReadSlice\<close> on a reader of 1024 bytes: a slice through the first newline when it
  lies in the buffer, a full buffer without one, or what is left when the stream ends.
\<close>

datatype slice_end = Slice_Delim | Slice_Full | Slice_EOF

definition bufferBytes :: nat where "bufferBytes = 1024"

definition through_newline :: "string \<Rightarrow> string" where
  "through_newline s = takeWhile (\<lambda>c. c \<noteq> LF) s @ [LF]"

definition ReadSlice :: "string \<Rightarrow> string \<times> slice_end \<times> string" where
  "ReadSlice s =
    (if LF \<in> set (take bufferBytes s)
     then (through_newline s, Slice_Delim, drop (length (through_newline s)) s)
     else if bufferBytes \<le> length s then (take bufferBytes s, Slice_Full, drop bufferBytes s)
     else (s, Slice_EOF, []))"

lemma ReadSlice_full: "ReadSlice s = (part, Slice_Full, rest) \<Longrightarrow> length rest < length s"
  by (auto simp: ReadSlice_def bufferBytes_def split: if_splits)

function read_frame_loop :: "string \<Rightarrow> string \<Rightarrow> string option" where
  "read_frame_loop frame s =
    (case ReadSlice s of
       (part, status, rest) \<Rightarrow>
         if maxFrameBytes - length frame < length part then None
         else
           (let frame' = frame @ part
            in case status of
                 Slice_Delim \<Rightarrow> if frame' = [] then None else Some frame'
               | Slice_Full \<Rightarrow> read_frame_loop frame' rest
               | Slice_EOF \<Rightarrow> None))"
  by pat_completeness auto
termination
  by (relation "measure (length \<circ> snd)") (auto dest: ReadSlice_full [OF sym] ReadSlice_full)

declare read_frame_loop.simps [simp del]

definition readBoundedFrame :: "string \<Rightarrow> string option" where
  "readBoundedFrame s = read_frame_loop [] s"

definition writeResponse :: "(wire_response \<Rightarrow> string option) \<Rightarrow> wire_response \<Rightarrow> string" where
  "writeResponse encr resp =
    (case encr resp of
       None \<Rightarrow> []
     | Some frame \<Rightarrow> if length frame + 1 \<le> maxFrameBytes then frame @ [LF] else [])"

subsection \<open>The server\<close>

record op_server =
  sv_path :: string
  sv_key :: string
  sv_operatorID :: string
  sv_seen :: "(string, instant) go_map"

datatype op_error = ErrRejected

definition NewServer :: "string \<Rightarrow> string \<Rightarrow> string \<Rightarrow> bool \<Rightarrow> op_error + op_server" where
  "NewServer path key operatorID hasApprove =
    (if \<not> is_abs path \<or> clean path \<noteq> path \<or> length key < 32 \<or> \<not> hasApprove then Inl ErrRejected
     else (case NewAuthenticatedOperatorAuthority operatorID of
             Inl _ \<Rightarrow> Inl ErrRejected
           | Inr a \<Rightarrow> Inr \<lparr>sv_path = path, sv_key = key, sv_operatorID = operator_id a, sv_seen = []\<rparr>))"

text \<open>The checks of \<open>verify\<close> before it locks the nonce table.\<close>

definition signed_ok ::
  "(string \<Rightarrow> string \<Rightarrow> string) \<Rightarrow> (signature_payload \<Rightarrow> string option) \<Rightarrow> wire_request \<Rightarrow> op_server \<Rightarrow> bool" where
  "signed_ok mac enc r s \<longleftrightarrow>
     wr_OperatorID r = sv_operatorID s \<and> validValue (wr_Nonce r)
     \<and> 0 < wr_TTLSeconds r \<and> wr_TTLSeconds r \<le> 3600 \<and> confirmable_class (wr_Class r)
     \<and> validValue (wr_Signature r)
     \<and> (case enc (signaturePayloadFor r) of
          None \<Rightarrow> False
        | Some payload \<Rightarrow>
            (case hex_decode (wr_Signature r) of
               None \<Rightarrow> False
             | Some sig \<Rightarrow> length sig = 32 \<and> sig = mac (sv_key s) payload))"

type_synonym nonce_order = "(string \<times> instant) list \<Rightarrow> (string \<times> instant) list"

definition verify ::
  "(string \<Rightarrow> string \<Rightarrow> string) \<Rightarrow> (signature_payload \<Rightarrow> string option) \<Rightarrow> nonce_order \<Rightarrow> instant
   \<Rightarrow> wire_request \<Rightarrow> op_server \<Rightarrow> bool \<times> op_server" where
  "verify mac enc ord now r s =
    (if \<not> signed_ok mac enc r s then (False, s)
     else
       (let live = drop_expired id op_replayTTL now (sv_seen s)
        in if wr_Nonce r \<in> fst ` set live then (False, s\<lparr>sv_seen := live\<rparr>)
           else (True, s\<lparr>sv_seen := evict_oldest ord id [] maxReplayNonces live @ [(wr_Nonce r, now)]\<rparr>)))"

definition rejected_response :: wire_response where
  "rejected_response = \<lparr>wresp_Confirmation = None, wresp_Error = ''operator request rejected''\<rparr>"

text \<open>\<open>handle\<close> reads one frame, decodes and verifies it, and asks \<open>approve\<close>, which runs on
  the state \<open>st\<close> behind it, in a context authenticated as the operator. The result is what is
  written to the connection.\<close>

definition channel_handle ::
  "(string \<Rightarrow> string \<Rightarrow> string) \<Rightarrow> (signature_payload \<Rightarrow> string option) \<Rightarrow> (string \<Rightarrow> wire_request option)
   \<Rightarrow> (wire_response \<Rightarrow> string option) \<Rightarrow> nonce_order \<Rightarrow> instant
   \<Rightarrow> (op_context \<Rightarrow> operator_request \<Rightarrow> 's \<Rightarrow> ('e + confirmation) \<times> 's)
   \<Rightarrow> string \<Rightarrow> op_server \<Rightarrow> 's \<Rightarrow> string \<times> op_server \<times> 's" where
  "channel_handle mac enc dec encr ord now approve input s st =
    (case readBoundedFrame input of
       None \<Rightarrow> (writeResponse encr rejected_response, s, st)
     | Some frame \<Rightarrow>
         (case dec frame of
            None \<Rightarrow> (writeResponse encr rejected_response, s, st)
          | Some r \<Rightarrow>
              (case verify mac enc ord now r s of
                 (False, s') \<Rightarrow> (writeResponse encr rejected_response, s', st)
               | (True, s') \<Rightarrow>
                   let c = WithOperatorAuthentication \<lparr>oc_ctx = Ctx_Live, oc_operator = None\<rparr> (wr_OperatorID r);
                       q = \<lparr>or_Binding = wr_Binding r, or_Class = wr_Class r,
                            or_TTL = wr_TTLSeconds r * second\<rparr>
                   in (case approve c q st of
                         (Inl _, st') \<Rightarrow> (writeResponse encr rejected_response, s', st')
                       | (Inr cf, st') \<Rightarrow>
                           (writeResponse encr \<lparr>wresp_Confirmation = Some cf, wresp_Error = []\<rparr>, s', st')))))"

subsection \<open>The client\<close>

definition go_quot :: "int \<Rightarrow> int \<Rightarrow> int" where
  "go_quot a b = sgn a * sgn b * (\<bar>a\<bar> div \<bar>b\<bar>)"

definition client_request ::
  "(string \<Rightarrow> string \<Rightarrow> string) \<Rightarrow> (signature_payload \<Rightarrow> string option) \<Rightarrow> string option \<Rightarrow> go_ctx
   \<Rightarrow> string \<Rightarrow> string \<Rightarrow> string \<Rightarrow> operator_request \<Rightarrow> wire_request option" where
  "client_request mac enc rnd ctx socketPath key operatorID q =
    (if ctx = Ctx_Nil \<or> \<not> is_abs socketPath \<or> length key < 32 \<or> \<not> validValue operatorID
        \<or> cb_PrincipalID (or_Binding q) = operatorID then None
     else (case newOpaque ''operator_'' rnd of
             None \<Rightarrow> None
           | Some nonce \<Rightarrow>
               let w = \<lparr>wr_OperatorID = operatorID, wr_Nonce = nonce, wr_Class = or_Class q,
                        wr_TTLSeconds = go_quot (or_TTL q) second, wr_Binding = or_Binding q,
                        wr_Signature = []\<rparr>
               in if wr_TTLSeconds w \<le> 0 then None
                  else (case enc (signaturePayloadFor w) of
                          None \<Rightarrow> None
                        | Some payload \<Rightarrow> Some (w\<lparr>wr_Signature := hex_encode (mac key payload)\<rparr>))))"

text \<open>\<open>Approve\<close> sends the frame over \<open>dial\<close>, which gives the bytes of the answer or fails.\<close>

definition op_Approve ::
  "(string \<Rightarrow> string \<Rightarrow> string) \<Rightarrow> (signature_payload \<Rightarrow> string option) \<Rightarrow> (wire_request \<Rightarrow> string option)
   \<Rightarrow> (string \<Rightarrow> wire_response option) \<Rightarrow> (string \<Rightarrow> string \<Rightarrow> string option) \<Rightarrow> string option \<Rightarrow> go_ctx
   \<Rightarrow> string \<Rightarrow> string \<Rightarrow> string \<Rightarrow> operator_request \<Rightarrow> op_error + confirmation" where
  "op_Approve mac enc encw decr dial rnd ctx socketPath key operatorID q =
    (case client_request mac enc rnd ctx socketPath key operatorID q of
       None \<Rightarrow> Inl ErrRejected
     | Some w \<Rightarrow>
         (case encw w of
            None \<Rightarrow> Inl ErrRejected
          | Some frame \<Rightarrow>
              if maxFrameBytes < length frame + 1 then Inl ErrRejected
              else (case dial socketPath (frame @ [LF]) of
                      None \<Rightarrow> Inl ErrRejected
                    | Some answer \<Rightarrow>
                        (case readBoundedFrame answer of
                           None \<Rightarrow> Inl ErrRejected
                         | Some respFrame \<Rightarrow>
                             (case decr respFrame of
                                None \<Rightarrow> Inl ErrRejected
                              | Some resp \<Rightarrow>
                                  (case wresp_Confirmation resp of
                                     None \<Rightarrow> Inl ErrRejected
                                   | Some cf \<Rightarrow> if wresp_Error resp \<noteq> [] then Inl ErrRejected
                                               else Inr cf))))))"

subsection \<open>Frames are bounded lines\<close>

lemma through_newline_append: "LF \<notin> set a \<Longrightarrow> through_newline (a @ b) = a @ through_newline b"
  by (induction a) (auto simp: through_newline_def)

lemma through_newline_long: "LF \<notin> set (take n s) \<Longrightarrow> n \<le> length s \<Longrightarrow> n < length (through_newline s)"
  using through_newline_append [of "take n s" "drop n s"]
  by (simp add: through_newline_def min_def)

lemma through_newline_take:
  assumes "LF \<in> set (take n s)"
  shows "LF \<in> set s"
  using assms by (meson in_set_takeD)

lemma read_frame_loop_line:
  assumes "length frame \<le> maxFrameBytes"
  shows "read_frame_loop frame s =
    (if LF \<in> set s \<and> length frame + length (through_newline s) \<le> maxFrameBytes
     then Some (frame @ through_newline s) else None)"
  using assms
proof (induction frame s rule: read_frame_loop.induct)
  case (1 frame s)
  consider (delim) "LF \<in> set (take bufferBytes s)"
    | (full) "LF \<notin> set (take bufferBytes s)" "bufferBytes \<le> length s"
    | (eof) "LF \<notin> set (take bufferBytes s)" "length s < bufferBytes"
    by linarith
  then show ?case
  proof cases
    case delim
    then show ?thesis
      using "1.prems" through_newline_take [OF delim]
      by (auto simp: read_frame_loop.simps [of frame s] ReadSlice_def Let_def through_newline_def)
  next
    case full
    let ?a = "take bufferBytes s" and ?b = "drop bufferBytes s"
    have slice: "ReadSlice s = (?a, Slice_Full, ?b)" using full by (simp add: ReadSlice_def)
    have split: "through_newline s = ?a @ through_newline ?b"
      using through_newline_append [OF full(1), of ?b] by simp
    have LF: "LF \<in> set s \<longleftrightarrow> LF \<in> set ?b"
      using full(1) by (metis Un_iff append_take_drop_id set_append)
    have len: "length ?a = bufferBytes" using full(2) by simp
    show ?thesis
    proof (cases "maxFrameBytes - length frame < bufferBytes")
      case True
      then have "\<not> length frame + length (through_newline s) \<le> maxFrameBytes"
        using len "1.prems" by (simp add: split)
      then show ?thesis using True slice len by (simp add: read_frame_loop.simps [of frame s])
    next
      case False
      have "read_frame_loop frame s = read_frame_loop (frame @ ?a) ?b"
        using False slice len by (simp add: read_frame_loop.simps [of frame s])
      also have "\<dots> = (if LF \<in> set ?b \<and> length (frame @ ?a) + length (through_newline ?b) \<le> maxFrameBytes
          then Some ((frame @ ?a) @ through_newline ?b) else None)"
        by (rule "1.IH" [OF slice [symmetric] refl]) (use False len "1.prems" in auto)
      finally show ?thesis using LF split len by (simp add: add.assoc)
    qed
  next
    case eof
    then have "LF \<notin> set s" by simp
    then show ?thesis
      using eof by (simp add: read_frame_loop.simps [of frame s] ReadSlice_def)
  qed
qed

text \<open>Reading a frame through the 1024-byte buffer is the same as taking the first line of the
  stream: the frame is that line with its newline when the line exists and has at most 16384 bytes,
  and a longer line or a stream that ends without a newline is rejected.\<close>

theorem readBoundedFrame_line:
  shows "readBoundedFrame s =
    (if LF \<in> set s \<and> length (through_newline s) \<le> maxFrameBytes then Some (through_newline s) else None)"
  using read_frame_loop_line [of "[]" s] by (simp add: readBoundedFrame_def)

subsection \<open>The nonce table\<close>

definition server_wf :: "op_server \<Rightarrow> bool" where
  "server_wf s \<longleftrightarrow>
     length (sv_seen s) \<le> maxReplayNonces \<and> distinct (map fst (sv_seen s))
     \<and> (\<forall>(n, t) \<in> set (sv_seen s). zero_time < t)"

lemma live_wf:
  assumes "server_wf s"
  shows "length (drop_expired id op_replayTTL now (sv_seen s)) \<le> maxReplayNonces"
    and "distinct (map fst (drop_expired id op_replayTTL now (sv_seen s)))"
    and "\<forall>(n, t) \<in> set (drop_expired id op_replayTTL now (sv_seen s)). zero_time < id t"
  using assms le_trans [OF length_drop_expired]
  by (auto simp: server_wf_def distinct_drop_expired set_drop_expired)

lemma verify_wf:
  assumes "server_wf s" and "zero_time < now"
  shows "server_wf (snd (verify mac enc ord now r s))"
proof -
  let ?live = "drop_expired id op_replayTTL now (sv_seen s)"
  let ?kept = "evict_oldest ord id [] maxReplayNonces ?live"
  note live = live_wf [OF assms(1), of now]
  have len: "length ?kept < maxReplayNonces"
    by (rule length_evict [OF live(3,1)]) (simp add: maxReplayNonces_def)
  have sub: "set ?kept \<subseteq> set ?live" by (rule set_evict)
  have dist: "distinct (map fst ?kept)" by (rule distinct_evict [OF live(2)])
  have "wr_Nonce r \<notin> fst ` set ?live \<Longrightarrow> wr_Nonce r \<notin> fst ` set ?kept" using sub by blast
  moreover have "\<forall>(n, t) \<in> set ?kept. zero_time < t" using live(3) sub by auto
  ultimately show ?thesis
    using assms len dist live by (auto simp: verify_def Let_def server_wf_def)
qed

lemma verify_refuses:
  assumes "(wr_Nonce r, t) \<in> set (sv_seen s)" and "now < t + op_replayTTL"
  shows "\<not> fst (verify mac enc ord now r s)"
proof -
  have "(wr_Nonce r, t) \<in> set (drop_expired id op_replayTTL now (sv_seen s))"
    using assms by (simp add: set_drop_expired)
  then have "wr_Nonce r \<in> fst ` set (drop_expired id op_replayTTL now (sv_seen s))"
    by (metis fst_conv image_eqI)
  then show ?thesis by (simp add: verify_def Let_def)
qed

lemma verify_keeps:
  assumes "server_wf s" and "(n, t) \<in> set (sv_seen s)" and "now < t + op_replayTTL"
    and "young t (sv_seen s) < maxReplayNonces"
  shows "(n, t) \<in> set (sv_seen (snd (verify mac enc ord now r s)))"
proof -
  let ?live = "drop_expired id op_replayTTL now (sv_seen s)"
  have live: "(n, t) \<in> set ?live" using assms(2,3) by (simp add: set_drop_expired)
  have "young (id t) (seen_pairs id ?live) < maxReplayNonces"
    using assms(4) young_drop [of t id op_replayTTL now "sv_seen s"] by simp
  then have "(n, t) \<in> set (evict_oldest ord id [] maxReplayNonces ?live)"
    by (rule evict_keeps [OF live_wf(3) [OF assms(1)] live_wf(2) [OF assms(1)] live])
  then show ?thesis using live assms(2) by (simp add: verify_def Let_def)
qed

lemma verify_ages:
  "young t (sv_seen (snd (verify mac enc ord now r s))) \<le> Suc (young t (sv_seen s))"
proof -
  let ?live = "drop_expired id op_replayTTL now (sv_seen s)"
  have 1: "young t ?live \<le> young t (sv_seen s)"
    using young_drop [of t id op_replayTTL now "sv_seen s"] by simp
  have "young t (evict_oldest ord id [] maxReplayNonces ?live) \<le> young t ?live"
    using young_evict [of t id ord "[]" maxReplayNonces ?live] by simp
  then have "young t (evict_oldest ord id [] maxReplayNonces ?live @ [(wr_Nonce r, now)]) \<le> Suc (young t (sv_seen s))"
    using 1 young_snoc [of t "evict_oldest ord id [] maxReplayNonces ?live"] by (meson Suc_le_mono le_trans)
  then show ?thesis using 1 by (auto simp: verify_def Let_def)
qed

interpretation operator_nonces:
  replay_window "verify mac enc ord" wr_Nonce "(=)" sv_seen maxReplayNonces op_replayTTL server_wf
  for mac enc ord
proof
  fix s :: op_server and i :: string and t now r
  show "server_wf s \<Longrightarrow> zero_time < now \<Longrightarrow> server_wf (snd (verify mac enc ord now r s))"
    by (rule verify_wf)
  show "server_wf s \<Longrightarrow> length (sv_seen s) \<le> maxReplayNonces" by (simp add: server_wf_def)
  show "server_wf s \<Longrightarrow> (i, t) \<in> set (sv_seen s) \<Longrightarrow> now < t + op_replayTTL \<Longrightarrow> i = wr_Nonce r
      \<Longrightarrow> \<not> fst (verify mac enc ord now r s)"
    by (rule verify_refuses) simp_all
  show "server_wf s \<Longrightarrow> fst (verify mac enc ord now r s)
      \<Longrightarrow> (wr_Nonce r, now) \<in> set (sv_seen (snd (verify mac enc ord now r s)))"
    by (auto simp: verify_def Let_def split: if_splits)
  show "server_wf s \<Longrightarrow> (i, t) \<in> set (sv_seen s) \<Longrightarrow> now < t + op_replayTTL
      \<Longrightarrow> young t (sv_seen s) < maxReplayNonces
      \<Longrightarrow> (i, t) \<in> set (sv_seen (snd (verify mac enc ord now r s)))"
    by (rule verify_keeps)
  show "server_wf s \<Longrightarrow> young t (sv_seen (snd (verify mac enc ord now r s))) \<le> Suc (young t (sv_seen s))"
    by (rule verify_ages)
qed simp

definition verify_all ::
  "(string \<Rightarrow> string \<Rightarrow> string) \<Rightarrow> (signature_payload \<Rightarrow> string option) \<Rightarrow> nonce_order
   \<Rightarrow> (instant \<times> wire_request) list \<Rightarrow> op_server \<Rightarrow> op_server" where
  "verify_all mac enc ord rs s = foldl (\<lambda>s (now, r). snd (verify mac enc ord now r s)) s rs"

lemma offers_verify_all: "operator_nonces.offers mac enc ord rs s = verify_all mac enc ord rs s"
  by (simp add: operator_nonces.offers_def verify_all_def)

lemma NewServer_wf: "NewServer path key oid b = Inr s \<Longrightarrow> server_wf s"
  by (auto simp: NewServer_def server_wf_def split: if_splits sum.splits)

text \<open>A concrete server, request and codec for the witnesses: the encoder writes the nonce, the
  MAC is constant, the decoder always gives the same request.\<close>

definition sample_mac :: "string \<Rightarrow> string \<Rightarrow> string" where
  "sample_mac k m = replicate 32 (CHR ''m'')"

definition sample_enc :: "signature_payload \<Rightarrow> string option" where
  "sample_enc p = Some (concat (map (\<lambda>v. v @ [LF]) [sp_OperatorID p, sp_Nonce p, sp_Class p, sp_Action p,
      sp_RepositoryID p, sp_PrincipalID p, sp_SessionID p, sp_GenerationID p, sp_CandidateSnapshot p, sp_PlanDigest p])
      @ replicate (nat (sp_TTLSeconds p)) (CHR ''t'') @ replicate (sp_FencingGeneration p) (CHR ''f''))"

definition sample_server :: op_server where
  "sample_server =
    \<lparr>sv_path = ''/run/op.sock'', sv_key = replicate 32 (CHR ''k''), sv_operatorID = ''operator'', sv_seen = []\<rparr>"

definition sample_wire :: wire_request where
  "sample_wire =
    \<lparr>wr_OperatorID = ''operator'', wr_Nonce = ''n1'', wr_Class = ConfirmationPublication,
     wr_TTLSeconds = 60, wr_Binding = sample_confirmation_binding,
     wr_Signature = hex_encode (replicate 32 (CHR ''m''))\<rparr>"

lemma sample_wire_ok: "signed_ok sample_mac sample_enc sample_wire sample_server"
  by code_simp

lemma sample_server_new:
  "NewServer (sv_path sample_server) (sv_key sample_server) ''operator'' True = Inr sample_server"
proof -
  have "is_abs (sv_path sample_server) \<and> clean (sv_path sample_server) = sv_path sample_server
      \<and> 32 \<le> length (sv_key sample_server) \<and> validID ''operator''" by code_simp
  then show ?thesis
    by (simp add: NewServer_def NewAuthenticatedOperatorAuthority_def) (simp add: sample_server_def)
qed

text \<open>A captured operator request cannot be replayed: after a request was verified at time
  \<open>t\<close>, no request with its nonce is verified during the following hour, whatever the server sees
  before and in between, as long as fewer than 4096 entries can be as young as it; and the nonce
  table never exceeds 4096 entries.\<close>

theorem operator_nonce_no_replay:
  assumes "NewServer path key oid True = Inr s0"
    and "\<forall>(now, q) \<in> set before. zero_time < now" and "s = verify_all mac enc ord before s0"
    and "zero_time < t" and "verify mac enc ord t r s = (True, s1)"
    and "\<forall>(now, q) \<in> set later. zero_time < now \<and> now < t + op_replayTTL"
    and "young t (sv_seen s) + length later < maxReplayNonces"
    and "now < t + op_replayTTL" and "wr_Nonce r' = wr_Nonce r"
  shows "\<not> fst (verify mac enc ord now r' (verify_all mac enc ord later s1))
    \<and> length (sv_seen (verify_all mac enc ord later s1)) \<le> maxReplayNonces"
proof -
  have wf: "server_wf s"
    using operator_nonces.offers_bounded [OF NewServer_wf [OF assms(1)] assms(2)] assms(3)
    by (simp add: offers_verify_all)
  have acc: "fst (verify mac enc ord t r s)" "snd (verify mac enc ord t r s) = s1"
    using assms(5) by simp_all
  have wf1: "server_wf s1" using verify_wf [OF wf assms(4), of mac enc ord r] acc by simp
  have "\<not> fst (verify mac enc ord now r' (verify_all mac enc ord later s1))"
    using operator_nonces.no_replay [OF wf assms(4) acc(1) assms(6), of now r'] assms(7-9) acc(2)
    by (simp add: offers_verify_all)
  moreover have "length (sv_seen (verify_all mac enc ord later s1)) \<le> maxReplayNonces"
    using operator_nonces.offers_bounded [OF wf1, of later mac enc ord] assms(6)
    by (fastforce simp: offers_verify_all)
  ultimately show ?thesis by blast
qed

theorem operator_nonce_no_replay_witness:
  "\<exists>s1. verify sample_mac sample_enc rev 5 sample_wire sample_server = (True, s1)
     \<and> \<not> fst (verify sample_mac sample_enc rev 9 sample_wire
               (verify_all sample_mac sample_enc rev [(6, sample_wire\<lparr>wr_Nonce := ''n2''\<rparr>)] s1))"
proof -
  let ?later = "[(6, sample_wire\<lparr>wr_Nonce := ''n2''\<rparr>)]"
  have empty: "sv_seen sample_server = []" by (simp add: sample_server_def)
  obtain s1 where s1: "verify sample_mac sample_enc rev 5 sample_wire sample_server = (True, s1)"
    using sample_wire_ok empty by (simp add: verify_def drop_expired_def Let_def)
  have "\<not> fst (verify sample_mac sample_enc rev 9 sample_wire (verify_all sample_mac sample_enc rev ?later s1))
      \<and> length (sv_seen (verify_all sample_mac sample_enc rev ?later s1)) \<le> maxReplayNonces"
    by (rule operator_nonce_no_replay [OF sample_server_new _ _ _ s1, where before = "[]"])
       (auto simp: verify_all_def zero_time_def empty young_def duration_defs op_replayTTL_def maxReplayNonces_def)
  then show ?thesis using s1 by blast
qed

subsection \<open>What the channel approves\<close>

text \<open>What a signature that passes covers: every field of the request and of its binding.\<close>

lemma signed_okD:
  assumes "signed_ok mac enc r s"
  obtains payload where "enc
         \<lparr>sp_OperatorID = wr_OperatorID r, sp_Nonce = wr_Nonce r, sp_Class = wr_Class r,
           sp_TTLSeconds = wr_TTLSeconds r, sp_Action = cb_Action (wr_Binding r),
           sp_RepositoryID = cb_RepositoryID (wr_Binding r), sp_PrincipalID = cb_PrincipalID (wr_Binding r),
           sp_SessionID = cb_SessionID (wr_Binding r), sp_GenerationID = cb_GenerationID (wr_Binding r),
           sp_FencingGeneration = cb_FencingGeneration (wr_Binding r),
           sp_CandidateSnapshot = cb_CandidateSnapshot (wr_Binding r), sp_PlanDigest = cb_PlanDigest (wr_Binding r)\<rparr> = Some payload"
    and "hex_decode (wr_Signature r) = Some (mac (sv_key s) payload)"
  using assms by (auto simp: signed_ok_def signaturePayloadFor_def split: option.splits)

text \<open>C10: Nothing reaches the approval function but a signed operator request. When \<open>handle\<close>
  changes the state behind \<open>approve\<close>, the bytes it read are one bounded line that decodes to a
  request of the configured operator whose signature is the HMAC, under the server's key, of the payload
  that carries the operator, the nonce, the class, the lifetime and all eight fields of the binding
  (action, repository, principal, session, generation, fencing generation, candidate snapshot, plan
  digest); its nonce was not in the table as a live entry and is now, and \<open>approve\<close> ran on
  exactly that class, lifetime and binding in a context authenticated as that operator.\<close>

theorem channel_handle_authentic:
  assumes "channel_handle mac enc dec encr ord now approve input s st = (out, s', st')"
    and "st' \<noteq> st"
  shows "\<exists>frame r payload. readBoundedFrame input = Some frame \<and> dec frame = Some r
    \<and> wr_OperatorID r = sv_operatorID s
    \<and> enc
         \<lparr>sp_OperatorID = wr_OperatorID r, sp_Nonce = wr_Nonce r, sp_Class = wr_Class r,
           sp_TTLSeconds = wr_TTLSeconds r, sp_Action = cb_Action (wr_Binding r),
           sp_RepositoryID = cb_RepositoryID (wr_Binding r), sp_PrincipalID = cb_PrincipalID (wr_Binding r),
           sp_SessionID = cb_SessionID (wr_Binding r), sp_GenerationID = cb_GenerationID (wr_Binding r),
           sp_FencingGeneration = cb_FencingGeneration (wr_Binding r),
           sp_CandidateSnapshot = cb_CandidateSnapshot (wr_Binding r), sp_PlanDigest = cb_PlanDigest (wr_Binding r)\<rparr> = Some payload
    \<and> hex_decode (wr_Signature r) = Some (mac (sv_key s) payload)
    \<and> 0 < wr_TTLSeconds r \<and> wr_TTLSeconds r \<le> 3600 \<and> confirmable_class (wr_Class r)
    \<and> (\<forall>t. (wr_Nonce r, t) \<in> set (sv_seen s) \<longrightarrow> t + hour \<le> now) \<and> (wr_Nonce r, now) \<in> set (sv_seen s')
    \<and> (\<exists>c. st' = snd (approve c \<lparr>or_Binding = wr_Binding r, or_Class = wr_Class r,
                              or_TTL = wr_TTLSeconds r * second\<rparr> st)
           \<and> c = WithOperatorAuthentication \<lparr>oc_ctx = Ctx_Live, oc_operator = None\<rparr> (sv_operatorID s))"
proof -
  obtain frame where f: "readBoundedFrame input = Some frame"
    using assms by (cases "readBoundedFrame input") (auto simp: channel_handle_def)
  obtain r where r: "dec frame = Some r"
    using assms f by (cases "dec frame") (auto simp: channel_handle_def)
  obtain k s1 where v: "verify mac enc ord now r s = (k, s1)" by fastforce
  have k: "k" using assms f r v by (cases k) (auto simp: channel_handle_def)
  let ?c = "WithOperatorAuthentication \<lparr>oc_ctx = Ctx_Live, oc_operator = None\<rparr> (wr_OperatorID r)"
  let ?q = "\<lparr>or_Binding = wr_Binding r, or_Class = wr_Class r, or_TTL = wr_TTLSeconds r * second\<rparr>"
  obtain res st1 where a: "approve ?c ?q st = (res, st1)" by fastforce
  have st: "st' = st1" "s' = s1"
    using assms(1) f r v k a by (cases res; simp add: channel_handle_def Let_def)+
  have ok: "signed_ok mac enc r s" "(wr_Nonce r, now) \<in> set (sv_seen s1)"
    using v k by (auto simp: verify_def Let_def split: if_splits)
  have "wr_Nonce r \<notin> fst ` set (drop_expired id op_replayTTL now (sv_seen s))"
    using v k by (auto simp: verify_def Let_def split: if_splits)
  then have fresh: "t + hour \<le> now" if "(wr_Nonce r, t) \<in> set (sv_seen s)" for t
    using that set_drop_expired [of "wr_Nonce r" t id op_replayTTL now "sv_seen s"]
    by (force simp: op_replayTTL_def not_less [symmetric])
  obtain payload where p: "enc
         \<lparr>sp_OperatorID = wr_OperatorID r, sp_Nonce = wr_Nonce r, sp_Class = wr_Class r,
           sp_TTLSeconds = wr_TTLSeconds r, sp_Action = cb_Action (wr_Binding r),
           sp_RepositoryID = cb_RepositoryID (wr_Binding r), sp_PrincipalID = cb_PrincipalID (wr_Binding r),
           sp_SessionID = cb_SessionID (wr_Binding r), sp_GenerationID = cb_GenerationID (wr_Binding r),
           sp_FencingGeneration = cb_FencingGeneration (wr_Binding r),
           sp_CandidateSnapshot = cb_CandidateSnapshot (wr_Binding r), sp_PlanDigest = cb_PlanDigest (wr_Binding r)\<rparr> = Some payload"
    "hex_decode (wr_Signature r) = Some (mac (sv_key s) payload)"
    by (rule signed_okD [OF ok(1)])
  show ?thesis
    by (intro exI [of _ frame] exI [of _ r] exI [of _ payload] conjI allI impI fresh)
       (use f r ok st a p in \<open>auto simp: signed_ok_def\<close>)
qed

text \<open>An approval function on a counter, to show that a signed request does reach it.\<close>

definition count_approve :: "op_context \<Rightarrow> operator_request \<Rightarrow> nat \<Rightarrow> (op_error + confirmation) \<times> nat" where
  "count_approve c q n = (Inl ErrRejected, Suc n)"

theorem channel_handle_authentic_witness:
  "\<exists>out s'. channel_handle sample_mac sample_enc (\<lambda>f. Some sample_wire) (\<lambda>r. Some ''x'') rev 5
       count_approve (''{}'' @ [LF]) sample_server 0 = (out, s', 1)
     \<and> (''n1'', 5) \<in> set (sv_seen s')"
proof -
  let ?h = "channel_handle sample_mac sample_enc (\<lambda>f. Some sample_wire) (\<lambda>r. Some ''x'') rev 5
       count_approve (''{}'' @ [LF]) sample_server 0"
  have one: "snd (snd ?h) = 1" by code_simp
  obtain out s' where h: "?h = (out, s', 1)" using one by (cases ?h) auto
  obtain r where "(\<lambda>f::string. Some sample_wire) ''x'' = Some r" "(wr_Nonce r, 5) \<in> set (sv_seen s')"
    using channel_handle_authentic [OF h] by auto
  then have "(''n1'', 5) \<in> set (sv_seen s')" by (auto simp: sample_wire_def)
  then show ?thesis using h by blast
qed

subsection \<open>Client and server agree\<close>

lemma hex_encode_ctrl: "\<not> contains_any (hex_encode v) control_chars"
proof -
  have "list_all lower_hex (hex_encode v)" using hex_encode_lower by (simp add: list_all_iff)
  moreover have "\<not> lower_hex c" if "c \<in> set control_chars" for c
    using that by (auto simp: control_chars_def ctrl_defs lower_hex_def in_byte_range_def)
  ultimately show ?thesis
    by (auto simp: contains_any_iff list_all_iff)
qed

text \<open>The client's requests are accepted: a request that \<open>Approve\<close> builds with the server's
  key and operator, for a confirmable class and a lifetime of at most one hour, passes \<open>verify\<close>
  on every server that has not seen its nonce, provided the HMAC has 32 bytes.\<close>

theorem client_request_verifies:
  assumes "client_request mac enc (Some bytes) ctx path (sv_key s) (sv_operatorID s) q = Some w"
    and "length bytes = 16" and "\<And>k m. length (mac k m) = 32"
    and "confirmable_class (or_Class q)" and "or_TTL q \<le> hour"
    and "opaque ''operator_'' bytes \<notin> fst ` set (sv_seen s)"
  shows "fst (verify mac enc ord now w s)"
proof -
  obtain payload where
    w: "w = \<lparr>wr_OperatorID = sv_operatorID s, wr_Nonce = opaque ''operator_'' bytes,
             wr_Class = or_Class q, wr_TTLSeconds = go_quot (or_TTL q) second,
             wr_Binding = or_Binding q, wr_Signature = hex_encode (mac (sv_key s) payload)\<rparr>"
    and pos: "0 < go_quot (or_TTL q) second"
    and payload: "enc (signaturePayloadFor (w\<lparr>wr_Signature := []\<rparr>)) = Some payload"
    using assms(1) by (auto simp: client_request_def Let_def split: if_splits option.splits)
  have "0 < or_TTL q"
    using pos by (auto simp: go_quot_def second_def sgn_if split: if_splits)
  then have le: "go_quot (or_TTL q) second \<le> 3600"
    using assms(5) by (simp add: go_quot_def duration_defs sgn_if)
  have pl: "enc (signaturePayloadFor w) = Some payload"
    using payload by (simp add: signaturePayloadFor_def w)
  have len: "length (hex_encode (mac (sv_key s) payload)) = 64"
    using assms(3) by simp
  then have "hex_encode (mac (sv_key s) payload) \<noteq> []" by (metis length_0_conv zero_neq_numeral)
  then have sig: "validValue (hex_encode (mac (sv_key s) payload))"
    using hex_encode_ctrl len by (simp add: validValue_def del: length_hex_encode)
  have nonce: "validValue (opaque ''operator_'' bytes)"
    using hex_encode_ctrl [of bytes] assms(2) length_hex_encode [of bytes]
    by (auto simp: validValue_def opaque_def contains_any_iff control_chars_def ctrl_defs)
  have "signed_ok mac enc w s"
    using pos le pl sig nonce assms(3,4)
    by (simp add: signed_ok_def w hex_decode_encode)
  moreover have "wr_Nonce w \<notin> fst ` set (drop_expired id op_replayTTL now (sv_seen s))"
    using assms(6) by (auto simp: w drop_expired_def)
  ultimately show ?thesis by (simp add: verify_def Let_def)
qed

theorem client_request_verifies_witness:
  "\<exists>w. client_request sample_mac sample_enc (rnd16 7) Ctx_Live ''/run/op.sock'' (sv_key sample_server)
       (sv_operatorID sample_server) sample_op_request = Some w
     \<and> fst (verify sample_mac sample_enc rev 5 w sample_server)"
proof -
  let ?c = "client_request sample_mac sample_enc (rnd16 7) Ctx_Live ''/run/op.sock'' (sv_key sample_server)
       (sv_operatorID sample_server) sample_op_request"
  have "?c \<noteq> None" by code_simp
  then obtain w where w: "?c = Some w" by blast
  have "fst (verify sample_mac sample_enc rev 5 w sample_server)"
    by (rule client_request_verifies [OF w [unfolded rnd16_def]])
       (simp_all add: sample_mac_def sample_op_request_def confirmable_class_def duration_defs sample_server_def)
  then show ?thesis using w by blast
qed

end
