(* ===== verification/Job_Graph.thy ===== *)
theory Job_Graph
  imports Replay_Window Complex_Main "HOL-Library.Product_Lexorder"
begin

section \<open>Scheduler jobs and their dependency graph (internal/scheduler/scheduler.go)\<close>

text \<open>
  The data of the scheduler, its configuration, the queue of submitted jobs and the validation of
  a job graph. \<open>validateGraph\<close> is a depth-first search with a set of identifiers on the current
  path and a list of finished ones; it is shown to accept exactly the well-formed acyclic graphs.
\<close>

subsection \<open>Data\<close>

datatype sched_error =
    Sched_ErrRejected | Sched_ErrBackpressure | Sched_ErrCycle | Sched_ErrUnschedulable
  | Sched_ErrHostPressure | Sched_ErrContext | Sched_ErrJob string

record resources =
  rs_CPU :: int
  rs_MemoryBytes :: int

record quota =
  qt_CPU :: int
  qt_MemoryBytes :: int
  qt_Concurrent :: int

record host_pressure =
  hp_AvailableCPU :: int
  hp_AvailableMemoryBytes :: int

record job_class =
  jc_Weight :: int
  jc_MaxConcurrent :: int

record job =
  jb_ID :: string
  jb_TaskID :: string
  jb_RuntimeID :: string
  jb_Class :: string
  jb_Resources :: resources
  jb_DependsOn :: "string list"
  jb_HasRun :: bool

record sched_config =
  sc_Capacity :: resources
  sc_MaxConcurrent :: int
  sc_MaxQueued :: int
  sc_Classes :: "(string, job_class) go_map"
  sc_PerTaskQuota :: quota
  sc_PerRuntimeQuota :: quota
  sc_HasPressure :: bool

record scheduler =
  sd_config :: sched_config
  sd_queued :: "job list"
  sd_run :: bool

record usage =
  us_resources :: resources
  us_concurrent :: int

subsection \<open>Construction and submission\<close>

definition default_if_zero :: "int \<Rightarrow> int \<Rightarrow> int" where
  "default_if_zero d v = (if v = 0 then d else v)"

definition fill_quota :: "sched_config \<Rightarrow> quota \<Rightarrow> quota" where
  "fill_quota c q =
    \<lparr>qt_CPU = default_if_zero (rs_CPU (sc_Capacity c)) (qt_CPU q),
     qt_MemoryBytes = default_if_zero (rs_MemoryBytes (sc_Capacity c)) (qt_MemoryBytes q),
     qt_Concurrent = default_if_zero (sc_MaxConcurrent c) (qt_Concurrent q)\<rparr>"

definition New_scheduler :: "sched_config \<Rightarrow> sched_error + scheduler" where
  "New_scheduler c =
    (if rs_CPU (sc_Capacity c) \<le> 0 \<or> rs_MemoryBytes (sc_Capacity c) \<le> 0
        \<or> sc_MaxConcurrent c \<le> 0 \<or> sc_MaxQueued c \<le> 0 then Inl Sched_ErrRejected
     else
       (let c' = c\<lparr>sc_PerTaskQuota := fill_quota c (sc_PerTaskQuota c),
                  sc_PerRuntimeQuota := fill_quota c (sc_PerRuntimeQuota c)\<rparr>
        in if list_ex (\<lambda>(name, cl). name = [] \<or> jc_Weight cl \<le> 0 \<or> jc_MaxConcurrent cl < 0) (sc_Classes c')
           then Inl Sched_ErrRejected
           else Inr \<lparr>sd_config = c', sd_queued = [], sd_run = False\<rparr>))"

definition validJob :: "job \<Rightarrow> bool" where
  "validJob j \<longleftrightarrow>
     jb_ID j \<noteq> [] \<and> jb_TaskID j \<noteq> [] \<and> jb_RuntimeID j \<noteq> [] \<and> jb_Class j \<noteq> []
     \<and> 0 < rs_CPU (jb_Resources j) \<and> 0 < rs_MemoryBytes (jb_Resources j) \<and> jb_HasRun j"

definition Submit :: "go_ctx \<Rightarrow> job \<Rightarrow> scheduler \<Rightarrow> (sched_error + unit) \<times> scheduler" where
  "Submit ctx j s =
    (if ctx = Ctx_Nil \<or> ctx_err ctx \<or> sd_run s \<or> \<not> validJob j then (Inl Sched_ErrRejected, s)
     else if sc_MaxQueued (sd_config s) \<le> int (length (sd_queued s)) then (Inl Sched_ErrBackpressure, s)
     else if list_ex (\<lambda>q. jb_ID q = jb_ID j) (sd_queued s) then (Inl Sched_ErrRejected, s)
     else (Inr (), s\<lparr>sd_queued := sd_queued s @ [j]\<rparr>))"

text \<open>\<open>RunSubmitted\<close> takes the queue and marks the scheduler as running; the mark is cleared when
  \<open>Run\<close> on the jobs returns.\<close>

definition RunSubmitted_begin :: "scheduler \<Rightarrow> (sched_error + job list) \<times> scheduler" where
  "RunSubmitted_begin s =
    (if sd_run s then (Inl Sched_ErrRejected, s)
     else (Inr (sd_queued s), s\<lparr>sd_run := True, sd_queued := []\<rparr>))"

definition RunSubmitted_end :: "scheduler \<Rightarrow> scheduler" where
  "RunSubmitted_end s = s\<lparr>sd_run := False\<rparr>"

subsection \<open>Graph validation\<close>

definition job_ids :: "job list \<Rightarrow> string list" where
  "job_ids js = map jb_ID js"

definition deps_of :: "job list \<Rightarrow> string \<Rightarrow> string list" where
  "deps_of js i = (case find (\<lambda>j. jb_ID j = i) js of None \<Rightarrow> [] | Some j \<Rightarrow> jb_DependsOn j)"

lemma deps_of_unknown: "i \<notin> set (job_ids js) \<Longrightarrow> deps_of js i = []"
  by (auto simp: deps_of_def job_ids_def find_Some_iff split: option.splits)

definition open_ids :: "job list \<Rightarrow> string list \<Rightarrow> nat" where
  "open_ids js visiting = card (set (job_ids js) - set visiting)"

lemma open_ids_less:
  assumes "i \<in> set (job_ids js)" and "i \<notin> set visiting"
  shows "open_ids js (i # visiting) < open_ids js visiting"
proof -
  have "set (job_ids js) - set (i # visiting) \<subset> set (job_ids js) - set visiting"
    using assms by auto
  then show ?thesis unfolding open_ids_def by (intro psubset_card_mono) auto
qed

lemma open_ids_le: "open_ids js (i # visiting) \<le> open_ids js visiting"
  unfolding open_ids_def by (intro card_mono) auto

text \<open>
  \<open>visit\<close> restores \<open>visiting[id]\<close> before it returns without an error, so the set of identifiers
  on the path is an argument; \<open>visited\<close> is threaded.
\<close>

function visit :: "job list \<Rightarrow> string list \<Rightarrow> string list \<Rightarrow> string \<Rightarrow> sched_error + string list"
  and visit_deps :: "job list \<Rightarrow> string list \<Rightarrow> string list \<Rightarrow> string list \<Rightarrow> sched_error + string list"
where
  "visit js visiting visited i =
    (if i \<in> set visiting then Inl Sched_ErrCycle
     else if i \<in> set visited then Inr visited
     else (case visit_deps js (i # visiting) visited (deps_of js i) of
             Inl e \<Rightarrow> Inl e
           | Inr visited' \<Rightarrow> Inr (i # visited')))"
| "visit_deps js visiting visited [] = Inr visited"
| "visit_deps js visiting visited (d # ds) =
    (if d \<notin> set (job_ids js) then Inl Sched_ErrRejected
     else (case visit js visiting visited d of
             Inl e \<Rightarrow> Inl e
           | Inr visited' \<Rightarrow> visit_deps js visiting visited' ds))"
  by pat_completeness auto

termination
proof (relation "measures
    [\<lambda>x. case x of Inl (js, v, _, _) \<Rightarrow> open_ids js v | Inr (js, v, _, _) \<Rightarrow> open_ids js v,
     \<lambda>x. case x of Inl _ \<Rightarrow> 1 | Inr (_, _, _, ds) \<Rightarrow> 2 * length ds]")
  fix js visiting visited and i :: string
  assume "i \<notin> set visiting"
  then show "(Inr (js, i # visiting, visited, deps_of js i), Inl (js, visiting, visited, i))
    \<in> measures [\<lambda>x. case x of Inl (js, v, _, _) \<Rightarrow> open_ids js v | Inr (js, v, _, _) \<Rightarrow> open_ids js v,
     \<lambda>x. case x of Inl _ \<Rightarrow> 1 | Inr (_, _, _, ds) \<Rightarrow> 2 * length ds]"
    using open_ids_less [of i js visiting] deps_of_unknown [of i js] open_ids_le [of js i visiting]
    by (cases "i \<in> set (job_ids js)") auto
qed auto

declare visit.simps [simp del]

fun visit_all :: "job list \<Rightarrow> string list \<Rightarrow> string list \<Rightarrow> sched_error option" where
  "visit_all js visited [] = None"
| "visit_all js visited (i # is) =
    (case visit js [] visited i of Inl e \<Rightarrow> Some e | Inr visited' \<Rightarrow> visit_all js visited' is)"

text \<open>The first loop refuses an invalid or repeated job; the second visits the identifiers in the
  order \<open>ord\<close> in which the runtime iterates the map.\<close>

definition validateGraph :: "(string list \<Rightarrow> string list) \<Rightarrow> job list \<Rightarrow> sched_error option" where
  "validateGraph ord js =
    (if \<not> (list_all validJob js \<and> distinct (job_ids js)) then Some Sched_ErrRejected
     else visit_all js [] (iter_order ord (job_ids js)))"

subsection \<open>What an accepted graph is\<close>

definition dep_rel :: "job list \<Rightarrow> (string \<times> string) set" where
  "dep_rel js = {(a, b). a \<in> set (job_ids js) \<and> b \<in> set (deps_of js a)}"

fun topo :: "job list \<Rightarrow> string list \<Rightarrow> bool" where
  "topo js [] \<longleftrightarrow> True"
| "topo js (x # xs) \<longleftrightarrow> set (deps_of js x) \<subseteq> set xs \<and> x \<notin> set xs \<and> topo js xs"

lemma topo_closed: "topo js xs \<Longrightarrow> a \<in> set xs \<Longrightarrow> set (deps_of js a) \<subseteq> set xs"
  by (induction xs) auto

lemma topo_acyclic:
  assumes "topo js xs" and "(a, b) \<in> (dep_rel js)\<^sup>+" and "a \<in> set xs"
  shows "b \<in> set xs \<and> b \<noteq> a"
  using assms
proof (induction xs arbitrary: a b)
  case (Cons x xs)
  have tail: "b' \<in> set xs" if "(a', b') \<in> (dep_rel js)\<^sup>+" "a' \<in> set xs" for a' b'
    using Cons.IH Cons.prems(1) that by auto
  show ?case
  proof (cases "a = x")
    case False
    then show ?thesis using Cons by auto
  next
    case True
    have step: "c \<in> set xs" if "(a, c) \<in> dep_rel js" for c
      using that True Cons.prems(1) by (auto simp: dep_rel_def)
    have "b \<in> set xs"
      using Cons.prems(2) by (rule converse_tranclE) (use step tail in auto)
    then show ?thesis using True Cons.prems(1) by auto
  qed
qed simp

lemma visit_sound:
  "visit js visiting visited i = Inr v \<Longrightarrow> topo js visited \<Longrightarrow> set visited \<inter> set visiting = {}
     \<Longrightarrow> topo js v \<and> set visited \<subseteq> set v \<and> i \<in> set v \<and> set v \<inter> set visiting = {}"
  "visit_deps js visiting visited ds = Inr v \<Longrightarrow> topo js visited \<Longrightarrow> set visited \<inter> set visiting = {}
     \<Longrightarrow> topo js v \<and> set visited \<subseteq> set v \<and> set ds \<subseteq> set v \<and> set ds \<subseteq> set (job_ids js)
       \<and> set v \<inter> set visiting = {}"
proof (induction js visiting visited i and js visiting visited ds arbitrary: v and v rule: visit_visit_deps.induct)
  case (1 js visiting visited i)
  show ?case
  proof (cases "i \<in> set visited")
    case True
    then show ?thesis using "1.prems" by (auto simp: visit.simps [of js visiting visited i] split: if_splits)
  next
    case False
    obtain v' where v': "visit_deps js (i # visiting) visited (deps_of js i) = Inr v'" "v = i # v'"
      and i: "i \<notin> set visiting"
      using "1.prems"(1) False by (auto simp: visit.simps [of js visiting visited i] split: if_splits sum.splits)
    then show ?thesis using "1.IH" [OF i False v'(1)] "1.prems" False by auto
  qed
next
  case (3 js visiting visited d ds)
  obtain v1 where d: "d \<in> set (job_ids js)" and v1: "visit js visiting visited d = Inr v1"
    and v: "visit_deps js visiting v1 ds = Inr v"
    using "3.prems"(1) by (auto split: if_splits sum.splits)
  show ?case using "3.IH"(1) [OF _ v1] "3.IH"(2) [OF _ v1 v] d "3.prems" by auto
qed auto

definition missing_dep :: "job list \<Rightarrow> bool" where
  "missing_dep js \<longleftrightarrow> (\<exists>a b. (a, b) \<in> dep_rel js \<and> b \<notin> set (job_ids js))"

lemma visit_complete:
  "visit js visiting visited i = Inl e \<Longrightarrow> i \<in> set (job_ids js)
     \<Longrightarrow> \<forall>x \<in> set visiting. (x, i) \<in> (dep_rel js)\<^sup>+
     \<Longrightarrow> (e = Sched_ErrRejected \<and> missing_dep js) \<or> (e = Sched_ErrCycle \<and> \<not> acyclic (dep_rel js))"
  "visit_deps js path visited ds = Inl e \<Longrightarrow> path = a # vis \<Longrightarrow> a \<in> set (job_ids js) \<Longrightarrow> set ds \<subseteq> set (deps_of js a)
     \<Longrightarrow> \<forall>x \<in> set vis. (x, a) \<in> (dep_rel js)\<^sup>+
     \<Longrightarrow> (e = Sched_ErrRejected \<and> missing_dep js) \<or> (e = Sched_ErrCycle \<and> \<not> acyclic (dep_rel js))"
proof (induction js visiting visited i and js path visited ds arbitrary: e and e a vis
    rule: visit_visit_deps.induct)
  case (1 js visiting visited i)
  show ?case
  proof (cases "i \<in> set visiting")
    case True
    then show ?thesis using "1.prems" by (auto simp: visit.simps [of js visiting visited i] acyclic_def)
  next
    case False
    then have "i \<notin> set visited" and e: "visit_deps js (i # visiting) visited (deps_of js i) = Inl e"
      using "1.prems"(1) by (auto simp: visit.simps [of js visiting visited i] split: if_splits sum.splits)
    then show ?thesis using "1.IH" [OF False] "1.prems" by auto
  qed
next
  case (3 js path visited d ds)
  have ad: "(a, d) \<in> dep_rel js" using "3.prems" by (auto simp: dep_rel_def)
  show ?case
  proof (cases "d \<in> set (job_ids js)")
    case False
    then show ?thesis using "3.prems"(1) ad by (auto simp: missing_dep_def)
  next
    case True
    have path: "\<forall>x \<in> set path. (x, d) \<in> (dep_rel js)\<^sup>+"
      using ad "3.prems"(2,5) by (auto intro: trancl_into_trancl)
    show ?thesis
    proof (cases "visit js path visited d")
      case (Inl e')
      then show ?thesis using "3.IH"(1) [of e'] True path "3.prems"(1) by auto
    next
      case (Inr v)
      then show ?thesis using "3.IH"(2) [OF _ Inr] True "3.prems" by auto
    qed
  qed
qed auto

lemma visit_all_complete:
  "visit_all js visited is = Some e \<Longrightarrow> set is \<subseteq> set (job_ids js)
     \<Longrightarrow> (e = Sched_ErrRejected \<and> missing_dep js) \<or> (e = Sched_ErrCycle \<and> \<not> acyclic (dep_rel js))"
proof (induction js visited "is" rule: visit_all.induct)
  case (2 js visited i ks)
  show ?case
  proof (cases "visit js [] visited i")
    case (Inl e')
    then show ?thesis using visit_complete(1) [of js "[]" visited i e'] "2.prems" by auto
  next
    case (Inr v)
    then show ?thesis using "2.IH" [OF Inr] "2.prems" by auto
  qed
qed simp

lemma find_member: "x \<in> set xs \<Longrightarrow> P x \<Longrightarrow> \<exists>y. find P xs = Some y"
  by (induction xs) auto

lemma topo_no_missing:
  assumes "topo js v" and "set (job_ids js) \<subseteq> set v" and "set v \<subseteq> set (job_ids js)"
  shows "\<not> missing_dep js \<and> acyclic (dep_rel js)"
proof -
  have "\<not> missing_dep js"
    using assms topo_closed [OF assms(1)] by (fastforce simp: missing_dep_def dep_rel_def)
  moreover have "(a, a) \<notin> (dep_rel js)\<^sup>+" for a
  proof
    assume cyc: "(a, a) \<in> (dep_rel js)\<^sup>+"
    then have "a \<in> set (job_ids js)" by (rule converse_tranclE) (auto simp: dep_rel_def)
    then show False using topo_acyclic [OF assms(1) cyc] assms(2) by auto
  qed
  ultimately show ?thesis by (simp add: acyclic_def)
qed

lemma visit_ids:
  "visit js visiting visited i = Inr v \<Longrightarrow> i \<in> set (job_ids js) \<Longrightarrow> set visited \<subseteq> set (job_ids js)
     \<Longrightarrow> set v \<subseteq> set (job_ids js)"
  "visit_deps js visiting visited ds = Inr v \<Longrightarrow> set visited \<subseteq> set (job_ids js)
     \<Longrightarrow> set v \<subseteq> set (job_ids js)"
proof (induction js visiting visited i and js visiting visited ds arbitrary: v and v rule: visit_visit_deps.induct)
  case (1 js visiting visited i)
  show ?case
  proof (cases "i \<in> set visited")
    case True
    then show ?thesis using "1.prems" by (simp add: visit.simps [of js visiting visited i] split: if_splits)
  next
    case False
    obtain v' where v': "visit_deps js (i # visiting) visited (deps_of js i) = Inr v'" "v = i # v'"
      and i: "i \<notin> set visiting"
      using "1.prems"(1) False by (auto simp: visit.simps [of js visiting visited i] split: if_splits sum.splits)
    then show ?thesis using "1.IH" [OF i False v'(1)] "1.prems" by simp
  qed
next
  case (3 js visiting visited d ds)
  obtain v1 where d: "d \<in> set (job_ids js)" and v1: "visit js visiting visited d = Inr v1"
    and v: "visit_deps js visiting v1 ds = Inr v"
    using "3.prems"(1) by (auto split: if_splits sum.splits)
  have "set v1 \<subseteq> set (job_ids js)" using "3.IH"(1) [OF _ v1] d "3.prems"(2) by blast
  then show ?case using "3.IH"(2) [OF _ v1 v] d by blast
qed auto

lemma visit_all_ids:
  "visit_all js visited is = None \<Longrightarrow> topo js visited \<Longrightarrow> set visited \<subseteq> set (job_ids js)
     \<Longrightarrow> set is \<subseteq> set (job_ids js)
     \<Longrightarrow> \<exists>v. topo js v \<and> set is \<subseteq> set v \<and> set visited \<subseteq> set v \<and> set v \<subseteq> set (job_ids js)"
proof (induction js visited "is" rule: visit_all.induct)
  case (2 js visited i ks)
  then obtain v1 where v1: "visit js [] visited i = Inr v1" "visit_all js v1 ks = None"
    by (auto split: sum.splits)
  have "topo js v1" "set visited \<subseteq> set v1" "i \<in> set v1"
    using visit_sound(1) [OF v1(1) "2.prems"(2)] by auto
  moreover have "set v1 \<subseteq> set (job_ids js)" using visit_ids(1) [OF v1(1)] "2.prems" by simp
  moreover have "set ks \<subseteq> set (job_ids js)" "set visited \<subseteq> set v1" using "2.prems"(4) calculation by simp_all
  ultimately obtain v where "topo js v" "set ks \<subseteq> set v" "set v1 \<subseteq> set v" "set v \<subseteq> set (job_ids js)"
    using "2.IH" [OF v1] by blast
  then show ?case using \<open>i \<in> set v1\<close> \<open>set visited \<subseteq> set v1\<close> by (intro exI [of _ v]) auto
qed auto

lemma validateGraph_topo:
  assumes "validateGraph ord js = None"
  shows "list_all validJob js \<and> distinct (job_ids js) \<and> \<not> missing_dep js \<and> acyclic (dep_rel js)"
proof -
  have h: "list_all validJob js" "distinct (job_ids js)"
    "visit_all js [] (iter_order ord (job_ids js)) = None"
    using assms by (auto simp: validateGraph_def split: if_splits)
  obtain v where "topo js v" "set (job_ids js) \<subseteq> set v" "set v \<subseteq> set (job_ids js)"
    using visit_all_ids [OF h(3)] by auto
  then show ?thesis using topo_no_missing h by blast
qed

lemma deps_of_member:
  assumes "distinct (job_ids js)" and "j \<in> set js"
  shows "deps_of js (jb_ID j) = jb_DependsOn j"
proof -
  obtain j' where "find (\<lambda>k. jb_ID k = jb_ID j) js = Some j'"
    using find_member [OF assms(2), of "\<lambda>k. jb_ID k = jb_ID j"] by blast
  moreover from this have "j' = j"
    using assms by (auto simp: find_Some_iff job_ids_def distinct_map inj_on_def)
  ultimately show ?thesis by (simp add: deps_of_def)
qed

lemma validateGraph_deps:
  assumes "validateGraph ord js = None" and "j \<in> set js"
  shows "set (jb_DependsOn j) \<subseteq> set (job_ids js)"
  using validateGraph_topo [OF assms(1)] deps_of_member [OF _ assms(2)] assms(2)
  by (fastforce simp: missing_dep_def dep_rel_def job_ids_def)

text \<open>C23: \<open>validateGraph\<close> accepts a list of jobs exactly when every job is valid, the identifiers
  are distinct, every dependency names a job of the list, and the dependency relation is acyclic;
  the verdict does not depend on the order in which the map of jobs is iterated.\<close>

theorem validateGraph_accepts_iff:
  shows "validateGraph ord js = None \<longleftrightarrow>
     list_all validJob js \<and> distinct (job_ids js)
     \<and> list_all (\<lambda>j. set (jb_DependsOn j) \<subseteq> set (job_ids js)) js
     \<and> acyclic {(jb_ID j, d) |j d. j \<in> set js \<and> d \<in> set (jb_DependsOn j)}"
proof (cases "list_all validJob js \<and> distinct (job_ids js)")
  case False
  then show ?thesis by (auto simp: validateGraph_def)
next
  case True
  have deps: "deps_of js (jb_ID j) = jb_DependsOn j" if "j \<in> set js" for j
    using deps_of_member True that by blast
  have rel: "dep_rel js = {(jb_ID j, d) |j d. j \<in> set js \<and> d \<in> set (jb_DependsOn j)}"
    using deps by (fastforce simp: dep_rel_def job_ids_def)
  have miss: "missing_dep js \<longleftrightarrow> \<not> (\<forall>j \<in> set js. set (jb_DependsOn j) \<subseteq> set (job_ids js))"
    unfolding missing_dep_def rel by blast
  have "validateGraph ord js = None \<longleftrightarrow> \<not> missing_dep js \<and> acyclic (dep_rel js)"
  proof
    assume "validateGraph ord js = None"
    then show "\<not> missing_dep js \<and> acyclic (dep_rel js)" using validateGraph_topo by blast
  next
    assume ok: "\<not> missing_dep js \<and> acyclic (dep_rel js)"
    show "validateGraph ord js = None"
      using True ok visit_all_complete [of js "[]" "iter_order ord (job_ids js)"]
      by (cases "visit_all js [] (iter_order ord (job_ids js))") (auto simp: validateGraph_def)
  qed
  then show ?thesis using True miss rel by (simp add: list_all_iff)
qed

end
