(* ===== verification/Job_Scheduler.thy ===== *)
theory Job_Scheduler
  imports Job_Graph
begin

section \<open>Resource-aware execution of a job graph (internal/scheduler/scheduler.go)\<close>

text \<open>
  \<open>chooseReady\<close> and the loop of \<open>Run\<close>. The loop is a step relation: its events are the reading
  of the context at the top of an iteration, a launch, a failed choice, a result received from a
  job or the context's end, and the return. Arithmetic on resources wraps on 64 bits as in Go.
\<close>

subsection \<open>Resources and quotas\<close>

definition addResources :: "resources \<Rightarrow> resources \<Rightarrow> resources" where
  "addResources l r = \<lparr>rs_CPU = wrap64 (rs_CPU l + rs_CPU r),
                       rs_MemoryBytes = wrap64 (rs_MemoryBytes l + rs_MemoryBytes r)\<rparr>"

definition subtractResources :: "resources \<Rightarrow> resources \<Rightarrow> resources" where
  "subtractResources l r = \<lparr>rs_CPU = wrap64 (rs_CPU l - rs_CPU r),
                            rs_MemoryBytes = wrap64 (rs_MemoryBytes l - rs_MemoryBytes r)\<rparr>"

definition addUsage :: "usage \<Rightarrow> resources \<Rightarrow> usage" where
  "addUsage u r = \<lparr>us_resources = addResources (us_resources u) r, us_concurrent = us_concurrent u + 1\<rparr>"

definition subtractUsage :: "usage \<Rightarrow> resources \<Rightarrow> usage" where
  "subtractUsage u r = \<lparr>us_resources = subtractResources (us_resources u) r, us_concurrent = us_concurrent u - 1\<rparr>"

definition withinQuota :: "usage \<Rightarrow> resources \<Rightarrow> quota \<Rightarrow> bool" where
  "withinQuota u r q \<longleftrightarrow>
     wrap64 (rs_CPU (us_resources u) + rs_CPU r) \<le> qt_CPU q
     \<and> wrap64 (rs_MemoryBytes (us_resources u) + rs_MemoryBytes r) \<le> qt_MemoryBytes q
     \<and> us_concurrent u + 1 \<le> qt_Concurrent q"

definition no_resources :: resources where "no_resources = \<lparr>rs_CPU = 0, rs_MemoryBytes = 0\<rparr>"
definition no_usage :: usage where "no_usage = \<lparr>us_resources = no_resources, us_concurrent = 0\<rparr>"

subsection \<open>State of a run\<close>

datatype job_phase = JP_None | JP_Pending | JP_Running | JP_Done

datatype run_pc = PC_Top | PC_Launch | PC_Wait | PC_Drain | PC_Returned

text \<open>\<open>rn_inflight\<close> are the jobs whose goroutine was started and whose result has not been
  received from the channel; \<open>rn_errs\<close> the errors job functions have returned to the group.\<close>

record run_state =
  rn_phase :: "string \<Rightarrow> job_phase"
  rn_active :: int
  rn_completed :: int
  rn_served :: "string \<Rightarrow> int"
  rn_running :: "string \<Rightarrow> int"
  rn_task :: "string \<Rightarrow> usage"
  rn_runtime :: "string \<Rightarrow> usage"
  rn_used :: resources
  rn_firstErr :: "sched_error option"
  rn_cancelled :: bool
  rn_inflight :: "job list"
  rn_errs :: "sched_error list"
  rn_pc :: run_pc

subsection \<open>Choosing a job\<close>

definition sched_class :: "sched_config \<Rightarrow> string \<Rightarrow> job_class" where
  "sched_class c name =
    (case map_of (sc_Classes c) name of
       Some cl \<Rightarrow> cl
     | None \<Rightarrow> \<lparr>jc_Weight = 1, jc_MaxConcurrent = 0\<rparr>)"

text \<open>The score is the quotient of two integers. Go computes it in float64: the order is the same
  as long as count and weight are below \<open>2 ^ 26\<close>, since distinct quotients then differ by more than
  the rounding error.\<close>

definition sched_score :: "sched_config \<Rightarrow> (string \<Rightarrow> int) \<Rightarrow> job \<Rightarrow> rat" where
  "sched_score c served j = of_int (served (jb_Class j)) / of_int (jc_Weight (sched_class c (jb_Class j)))"

definition sort_ready :: "sched_config \<Rightarrow> (string \<Rightarrow> int) \<Rightarrow> job list \<Rightarrow> job list" where
  "sort_ready c served ready = sort_key (\<lambda>j. (sched_score c served j, jb_ID j)) ready"

definition pressure_admits :: "sched_config \<Rightarrow> (job \<Rightarrow> host_pressure option) \<Rightarrow> job \<Rightarrow> bool" where
  "pressure_admits c pr j \<longleftrightarrow>
     (if sc_HasPressure c
      then (case pr j of
              None \<Rightarrow> False
            | Some p \<Rightarrow> \<not> (hp_AvailableCPU p < rs_CPU (jb_Resources j)
                         \<or> hp_AvailableMemoryBytes p < rs_MemoryBytes (jb_Resources j)))
      else True)"

definition admits :: "sched_config \<Rightarrow> (job \<Rightarrow> host_pressure option) \<Rightarrow> run_state \<Rightarrow> job \<Rightarrow> bool" where
  "admits c pr st j \<longleftrightarrow>
     \<not> (0 < jc_MaxConcurrent (sched_class c (jb_Class j))
        \<and> jc_MaxConcurrent (sched_class c (jb_Class j)) \<le> rn_running st (jb_Class j))
     \<and> \<not> (sc_MaxConcurrent c \<le> 0
          \<or> rs_CPU (sc_Capacity c) < wrap64 (rs_CPU (rn_used st) + rs_CPU (jb_Resources j))
          \<or> rs_MemoryBytes (sc_Capacity c) < wrap64 (rs_MemoryBytes (rn_used st) + rs_MemoryBytes (jb_Resources j)))
     \<and> withinQuota (rn_task st (jb_TaskID j)) (jb_Resources j) (sc_PerTaskQuota c)
     \<and> withinQuota (rn_runtime st (jb_RuntimeID j)) (jb_Resources j) (sc_PerRuntimeQuota c)
     \<and> pressure_admits c pr j"

definition chooseReady ::
  "sched_config \<Rightarrow> (job \<Rightarrow> host_pressure option) \<Rightarrow> run_state \<Rightarrow> job list \<Rightarrow> job option" where
  "chooseReady c pr st ready = find (admits c pr st) (sort_ready c (rn_served st) ready)"

definition readyJobs :: "(job list \<Rightarrow> job list) \<Rightarrow> job list \<Rightarrow> run_state \<Rightarrow> job list" where
  "readyJobs ord js st =
     filter (\<lambda>j. rn_phase st (jb_ID j) = JP_Pending \<and> list_all (\<lambda>d. rn_phase st d = JP_Done) (jb_DependsOn j))
       (iter_order ord js)"

fun admissionError :: "sched_config \<Rightarrow> (job \<Rightarrow> host_pressure option) \<Rightarrow> job list \<Rightarrow> sched_error" where
  "admissionError c pr [] = Sched_ErrUnschedulable"
| "admissionError c pr (j # js) =
    (if rs_CPU (sc_Capacity c) < rs_CPU (jb_Resources j)
        \<or> rs_MemoryBytes (sc_Capacity c) < rs_MemoryBytes (jb_Resources j) then Sched_ErrUnschedulable
     else if sc_HasPressure c
             \<and> (case pr j of
                  None \<Rightarrow> False
                | Some p \<Rightarrow> hp_AvailableCPU p < rs_CPU (jb_Resources j)
                            \<or> hp_AvailableMemoryBytes p < rs_MemoryBytes (jb_Resources j))
     then Sched_ErrHostPressure
     else admissionError c pr js)"

subsection \<open>The loop\<close>

definition run_init :: "job list \<Rightarrow> run_state" where
  "run_init js =
    \<lparr>rn_phase = (\<lambda>i. if i \<in> set (job_ids js) then JP_Pending else JP_None), rn_active = 0,
     rn_completed = 0, rn_served = (\<lambda>_. 0), rn_running = (\<lambda>_. 0), rn_task = (\<lambda>_. no_usage),
     rn_runtime = (\<lambda>_. no_usage), rn_used = no_resources, rn_firstErr = None, rn_cancelled = False,
     rn_inflight = [], rn_errs = [], rn_pc = PC_Top\<rparr>"

definition or_err :: "sched_error option \<Rightarrow> sched_error option \<Rightarrow> sched_error option" where
  "or_err first e = (case first of None \<Rightarrow> e | Some x \<Rightarrow> Some x)"

definition run_top :: "sched_error option \<Rightarrow> run_state \<Rightarrow> run_state" where
  "run_top e st = st\<lparr>rn_firstErr := or_err (rn_firstErr st) e,
                    rn_cancelled := (rn_cancelled st \<or> e \<noteq> None), rn_pc := PC_Launch\<rparr>"

definition run_launch :: "job \<Rightarrow> run_state \<Rightarrow> run_state" where
  "run_launch j st = st\<lparr>
     rn_phase := (rn_phase st)(jb_ID j := JP_Running),
     rn_active := rn_active st + 1,
     rn_running := (rn_running st)(jb_Class j := rn_running st (jb_Class j) + 1),
     rn_served := (rn_served st)(jb_Class j := rn_served st (jb_Class j) + 1),
     rn_used := addResources (rn_used st) (jb_Resources j),
     rn_task := (rn_task st)(jb_TaskID j := addUsage (rn_task st (jb_TaskID j)) (jb_Resources j)),
     rn_runtime := (rn_runtime st)(jb_RuntimeID j := addUsage (rn_runtime st (jb_RuntimeID j)) (jb_Resources j)),
     rn_inflight := rn_inflight st @ [j]\<rparr>"

definition run_block :: "sched_config \<Rightarrow> (job \<Rightarrow> host_pressure option) \<Rightarrow> job list \<Rightarrow> job list \<Rightarrow> run_state \<Rightarrow> run_state" where
  "run_block c pr js ready st =
    (if rn_active st \<noteq> 0 then st\<lparr>rn_pc := PC_Wait\<rparr>
     else if rn_completed st = int (length js) then st\<lparr>rn_pc := PC_Drain\<rparr>
     else
       (let e1 = (if ready \<noteq> [] then or_err (rn_firstErr st) (Some (admissionError c pr ready))
                  else rn_firstErr st)
        in st\<lparr>rn_firstErr := or_err e1 (Some Sched_ErrUnschedulable), rn_cancelled := True,
             rn_pc := PC_Drain\<rparr>))"

definition run_result :: "job \<Rightarrow> sched_error option \<Rightarrow> run_state \<Rightarrow> run_state" where
  "run_result j err st = st\<lparr>
     rn_active := rn_active st - 1,
     rn_phase := (rn_phase st)(jb_ID j := JP_Done),
     rn_used := subtractResources (rn_used st) (jb_Resources j),
     rn_task := (rn_task st)(jb_TaskID j := subtractUsage (rn_task st (jb_TaskID j)) (jb_Resources j)),
     rn_runtime := (rn_runtime st)(jb_RuntimeID j := subtractUsage (rn_runtime st (jb_RuntimeID j)) (jb_Resources j)),
     rn_running := (rn_running st)(jb_Class j := rn_running st (jb_Class j) - 1),
     rn_completed := rn_completed st + 1,
     rn_firstErr := or_err (rn_firstErr st) err,
     rn_cancelled := (rn_cancelled st \<or> (err \<noteq> None \<and> rn_firstErr st = None)),
     rn_inflight := remove1 j (rn_inflight st),
     rn_errs := (case err of None \<Rightarrow> rn_errs st | Some e \<Rightarrow> rn_errs st @ [e]),
     rn_pc := PC_Top\<rparr>"

definition run_drain :: "job \<Rightarrow> sched_error option \<Rightarrow> run_state \<Rightarrow> run_state" where
  "run_drain j err st = st\<lparr>
     rn_active := rn_active st - 1,
     rn_firstErr := or_err (rn_firstErr st) err,
     rn_inflight := remove1 j (rn_inflight st),
     rn_errs := (case err of None \<Rightarrow> rn_errs st | Some e \<Rightarrow> rn_errs st @ [e])\<rparr>"

datatype run_event =
    Ev_Top "sched_error option" | Ev_Exit | Ev_Launch job | Ev_Block
  | Ev_Result job "sched_error option" | Ev_CtxDone sched_error
  | Ev_Drain job "sched_error option" | Ev_Return "sched_error option"

text \<open>A cancelled run context has an error; otherwise it may have one at any time, because the
  caller's context or the error group can cancel it.\<close>

inductive run_step :: "sched_config \<Rightarrow> job list \<Rightarrow> run_state \<Rightarrow> run_event \<Rightarrow> run_state \<Rightarrow> bool"
  for c js where
  step_top: "rn_pc st = PC_Top \<Longrightarrow> rn_completed st < int (length js)
     \<Longrightarrow> (rn_cancelled st \<Longrightarrow> e \<noteq> None) \<Longrightarrow> run_step c js st (Ev_Top e) (run_top e st)"
| step_exit: "rn_pc st = PC_Top \<Longrightarrow> \<not> rn_completed st < int (length js)
     \<Longrightarrow> run_step c js st Ev_Exit (st\<lparr>rn_pc := PC_Drain\<rparr>)"
| step_launch: "rn_pc st = PC_Launch \<Longrightarrow> rn_active st < sc_MaxConcurrent c
     \<Longrightarrow> chooseReady c pr st (readyJobs ord js st) = Some j
     \<Longrightarrow> run_step c js st (Ev_Launch j) (run_launch j st)"
| step_block: "rn_pc st = PC_Launch
     \<Longrightarrow> \<not> rn_active st < sc_MaxConcurrent c \<or> chooseReady c pr st (readyJobs ord js st) = None
     \<Longrightarrow> run_step c js st Ev_Block (run_block c pr' js (readyJobs ord' js st) st)"
| step_result: "rn_pc st = PC_Wait \<Longrightarrow> j \<in> set (rn_inflight st)
     \<Longrightarrow> run_step c js st (Ev_Result j err) (run_result j err st)"
| step_ctx: "rn_pc st = PC_Wait
     \<Longrightarrow> run_step c js st (Ev_CtxDone e)
           (st\<lparr>rn_firstErr := or_err (rn_firstErr st) (Some e), rn_pc := PC_Top\<rparr>)"
| step_drain: "rn_pc st = PC_Drain \<Longrightarrow> 0 < rn_active st \<Longrightarrow> j \<in> set (rn_inflight st)
     \<Longrightarrow> run_step c js st (Ev_Drain j err) (run_drain j err st)"
| step_return: "rn_pc st = PC_Drain \<Longrightarrow> \<not> 0 < rn_active st
     \<Longrightarrow> (case g of None \<Rightarrow> rn_errs st = [] | Some e \<Rightarrow> e \<in> set (rn_errs st))
     \<Longrightarrow> run_step c js st (Ev_Return (or_err (rn_firstErr st) g)) (st\<lparr>rn_pc := PC_Returned\<rparr>)"

inductive_cases run_step_cases: "run_step c js st ev st'"

inductive run_trace :: "sched_config \<Rightarrow> job list \<Rightarrow> run_state \<Rightarrow> run_event list \<Rightarrow> run_state \<Rightarrow> bool"
  for c js where
  trace_nil: "run_trace c js st [] st"
| trace_snoc: "run_trace c js st evs st' \<Longrightarrow> run_step c js st' ev st'' \<Longrightarrow> run_trace c js st (evs @ [ev]) st''"

text \<open>The checks of \<open>Run\<close> before the loop: a returned error, or the loop is entered.\<close>

definition Run_checks :: "(string list \<Rightarrow> string list) \<Rightarrow> sched_config \<Rightarrow> go_ctx \<Rightarrow> job list \<Rightarrow> sched_error + unit" where
  "Run_checks ord c ctx js =
    (if ctx = Ctx_Nil then Inl Sched_ErrRejected
     else if sc_MaxQueued c < int (length js) then Inl Sched_ErrBackpressure
     else (case validateGraph ord js of Some e \<Rightarrow> Inl e | None \<Rightarrow> Inr ()))"

subsection \<open>Accounting\<close>

definition cpu_of :: "job list \<Rightarrow> int" where "cpu_of xs = sum_list (map (\<lambda>j. rs_CPU (jb_Resources j)) xs)"
definition mem_of :: "job list \<Rightarrow> int" where "mem_of xs = sum_list (map (\<lambda>j. rs_MemoryBytes (jb_Resources j)) xs)"

definition usage_of :: "job list \<Rightarrow> usage" where
  "usage_of xs = \<lparr>us_resources = \<lparr>rs_CPU = cpu_of xs, rs_MemoryBytes = mem_of xs\<rparr>,
                  us_concurrent = int (length xs)\<rparr>"

definition small :: "job list \<Rightarrow> bool" where
  "small xs \<longleftrightarrow> (\<forall>j \<in> set xs. 0 < rs_CPU (jb_Resources j) \<and> rs_CPU (jb_Resources j) < 2 ^ 62
                 \<and> 0 < rs_MemoryBytes (jb_Resources j) \<and> rs_MemoryBytes (jb_Resources j) < 2 ^ 62)"

lemma small_sub: "small xs \<Longrightarrow> set ys \<subseteq> set xs \<Longrightarrow> small ys"
  by (auto simp: small_def)

lemma cpu_mem_simps [simp]:
  "cpu_of [] = 0" "mem_of [] = 0"
  "cpu_of (j # xs) = rs_CPU (jb_Resources j) + cpu_of xs"
  "mem_of (j # xs) = rs_MemoryBytes (jb_Resources j) + mem_of xs"
  "cpu_of (xs @ ys) = cpu_of xs + cpu_of ys" "mem_of (xs @ ys) = mem_of xs + mem_of ys"
  by (simp_all add: cpu_of_def mem_of_def)

lemma cpu_mem_nonneg: "small xs \<Longrightarrow> 0 \<le> cpu_of xs \<and> 0 \<le> mem_of xs"
  by (induction xs) (auto simp: small_def)

lemma cpu_mem_filter: "small xs \<Longrightarrow> cpu_of (filter P xs) \<le> cpu_of xs \<and> mem_of (filter P xs) \<le> mem_of xs"
  by (induction xs) (auto simp: small_def)

lemma cpu_mem_remove:
  "j \<in> set xs \<Longrightarrow> cpu_of (remove1 j xs) = cpu_of xs - rs_CPU (jb_Resources j)
     \<and> mem_of (remove1 j xs) = mem_of xs - rs_MemoryBytes (jb_Resources j)"
  by (induction xs) auto

lemma usage_of_snoc:
  assumes "small (xs @ [j])" and "cpu_of xs < 2 ^ 62" and "mem_of xs < 2 ^ 62"
  shows "usage_of (xs @ [j]) = addUsage (usage_of xs) (jb_Resources j)"
proof -
  have "small xs" using assms(1) by (auto simp: small_def)
  then show ?thesis
    using assms cpu_mem_nonneg [of xs]
    by (simp add: usage_of_def addUsage_def addResources_def small_def)
qed

lemma usage_of_remove:
  assumes "small xs" and "j \<in> set xs" and "cpu_of xs < 2 ^ 62" and "mem_of xs < 2 ^ 62"
  shows "usage_of (remove1 j xs) = subtractUsage (usage_of xs) (jb_Resources j)"
proof -
  have "0 \<le> cpu_of xs" "0 \<le> mem_of xs" using cpu_mem_nonneg [OF assms(1)] by auto
  moreover have "0 < rs_CPU (jb_Resources j)" "rs_CPU (jb_Resources j) < 2 ^ 62"
    "0 < rs_MemoryBytes (jb_Resources j)" "rs_MemoryBytes (jb_Resources j) < 2 ^ 62"
    using assms(1,2) by (auto simp: small_def)
  moreover have "int (length xs - Suc 0) = int (length xs) - 1" using assms(2) by (cases xs) auto
  ultimately show ?thesis
    using assms(2-4) cpu_mem_remove [OF assms(2)]
    by (simp add: usage_of_def subtractUsage_def subtractResources_def length_remove1)
qed

definition usage_within :: "usage \<Rightarrow> quota \<Rightarrow> bool" where
  "usage_within u q \<longleftrightarrow> rs_CPU (us_resources u) \<le> qt_CPU q
     \<and> rs_MemoryBytes (us_resources u) \<le> qt_MemoryBytes q \<and> us_concurrent u \<le> qt_Concurrent q"

lemma usage_within_remove:
  assumes "small xs" and "usage_within (usage_of xs) q"
  shows "usage_within (usage_of (remove1 j xs)) q"
proof (cases "j \<in> set xs")
  case True
  then show ?thesis
    using assms cpu_mem_remove [OF True] by (auto simp: usage_within_def usage_of_def small_def length_remove1)
qed (use assms in \<open>simp add: remove1_idem\<close>)

lemma withinQuota_add:
  assumes "small (xs @ [j])" and "cpu_of xs < 2 ^ 62" and "mem_of xs < 2 ^ 62"
    and "withinQuota (usage_of xs) (jb_Resources j) q"
  shows "usage_within (usage_of (xs @ [j])) q"
  using assms cpu_mem_nonneg [of xs]
  by (auto simp: withinQuota_def usage_within_def usage_of_def small_def)

subsection \<open>The invariant of the loop\<close>

definition in_class :: "string \<Rightarrow> job list \<Rightarrow> job list" where "in_class k = filter (\<lambda>j. jb_Class j = k)"
definition in_task :: "string \<Rightarrow> job list \<Rightarrow> job list" where "in_task t = filter (\<lambda>j. jb_TaskID j = t)"
definition in_runtime :: "string \<Rightarrow> job list \<Rightarrow> job list" where "in_runtime r = filter (\<lambda>j. jb_RuntimeID j = r)"

text \<open>The counters of the state are what the jobs in flight add up to.\<close>

definition run_counts :: "job list \<Rightarrow> run_state \<Rightarrow> bool" where
  "run_counts js st \<longleftrightarrow>
     distinct (map jb_ID (rn_inflight st)) \<and> set (rn_inflight st) \<subseteq> set js
     \<and> rn_active st = int (length (rn_inflight st))
     \<and> rn_used st = us_resources (usage_of (rn_inflight st))
     \<and> (\<forall>k. rn_running st k = int (length (in_class k (rn_inflight st))))
     \<and> (\<forall>t. rn_task st t = usage_of (in_task t (rn_inflight st)))
     \<and> (\<forall>r. rn_runtime st r = usage_of (in_runtime r (rn_inflight st)))"

text \<open>The jobs in flight respect every limit.\<close>

definition run_limits :: "sched_config \<Rightarrow> job list \<Rightarrow> bool" where
  "run_limits c xs \<longleftrightarrow>
     cpu_of xs \<le> rs_CPU (sc_Capacity c) \<and> mem_of xs \<le> rs_MemoryBytes (sc_Capacity c)
     \<and> int (length xs) \<le> sc_MaxConcurrent c
     \<and> (\<forall>j \<in> set xs.
          (jc_MaxConcurrent (sched_class c (jb_Class j)) \<le> 0
           \<or> int (length (in_class (jb_Class j) xs)) \<le> jc_MaxConcurrent (sched_class c (jb_Class j)))
          \<and> usage_within (usage_of (in_task (jb_TaskID j) xs)) (sc_PerTaskQuota c)
          \<and> usage_within (usage_of (in_runtime (jb_RuntimeID j) xs)) (sc_PerRuntimeQuota c))"

definition run_phases :: "job list \<Rightarrow> run_state \<Rightarrow> bool" where
  "run_phases js st \<longleftrightarrow>
     (\<forall>j \<in> set js. if j \<in> set (rn_inflight st) then rn_phase st (jb_ID j) = JP_Running
                     else rn_phase st (jb_ID j) = JP_Done \<or> rn_phase st (jb_ID j) = JP_Pending)
     \<and> rn_completed st = int (length (filter (\<lambda>j. rn_phase st (jb_ID j) = JP_Done) js))
     \<and> (\<forall>j \<in> set js. rn_phase st (jb_ID j) = JP_Pending
           \<or> list_all (\<lambda>d. rn_phase st d = JP_Done) (jb_DependsOn j))
     \<and> (rn_pc st = PC_Drain \<or> rn_pc st = PC_Returned \<longrightarrow> rn_active st = 0)"

definition run_inv :: "sched_config \<Rightarrow> job list \<Rightarrow> run_state \<Rightarrow> bool" where
  "run_inv c js st \<longleftrightarrow> run_counts js st \<and> run_limits c (rn_inflight st) \<and> run_phases js st"

definition sane_config :: "sched_config \<Rightarrow> bool" where
  "sane_config c \<longleftrightarrow> 0 < rs_CPU (sc_Capacity c) \<and> rs_CPU (sc_Capacity c) < 2 ^ 62
     \<and> 0 < rs_MemoryBytes (sc_Capacity c) \<and> rs_MemoryBytes (sc_Capacity c) < 2 ^ 62
     \<and> 0 < sc_MaxConcurrent c"

lemma run_init_inv:
  assumes "sane_config c"
  shows "run_inv c js (run_init js)"
  using assms
  by (auto simp: run_inv_def run_counts_def run_limits_def run_phases_def run_init_def sane_config_def
      in_class_def in_task_def in_runtime_def usage_of_def no_usage_def no_resources_def job_ids_def
      filter_empty_conv)

lemma chooseReady_Some:
  assumes "chooseReady c pr st (readyJobs ord js st) = Some j"
  shows "j \<in> set js \<and> rn_phase st (jb_ID j) = JP_Pending
    \<and> list_all (\<lambda>d. rn_phase st d = JP_Done) (jb_DependsOn j) \<and> admits c pr st j"
proof -
  have "j \<in> set (sort_ready c (rn_served st) (readyJobs ord js st))" "admits c pr st j"
    using assms by (auto simp: chooseReady_def find_Some_iff)
  then show ?thesis by (auto simp: sort_ready_def readyJobs_def)
qed

lemma limits_bound:
  assumes "sane_config c" and "small xs" and "run_limits c xs"
  shows "cpu_of (filter P xs) < 2 ^ 62 \<and> mem_of (filter P xs) < 2 ^ 62"
    and "cpu_of xs < 2 ^ 62 \<and> mem_of xs < 2 ^ 62"
  using assms cpu_mem_filter [OF assms(2), of P] by (auto simp: run_limits_def sane_config_def)

lemma launch_inv:
  assumes c: "sane_config c" and js: "small js" "distinct (job_ids js)"
    and inv: "run_inv c js st" and act: "rn_active st < sc_MaxConcurrent c"
    and pc: "rn_pc st = PC_Launch"
    and ch: "chooseReady c pr st (readyJobs ord js st) = Some j"
  shows "run_inv c js (run_launch j st)"
proof -
  let ?xs = "rn_inflight st"
  have j: "j \<in> set js" "rn_phase st (jb_ID j) = JP_Pending"
    "list_all (\<lambda>d. rn_phase st d = JP_Done) (jb_DependsOn j)" "admits c pr st j"
    using chooseReady_Some [OF ch] by auto
  have cnt: "run_counts js st" and lim: "run_limits c ?xs" and ph: "run_phases js st"
    using inv by (auto simp: run_inv_def)
  have sm: "small (?xs @ [j])" using small_sub [OF js(1)] cnt j(1) by (auto simp: run_counts_def)
  then have smx: "small ?xs" by (auto simp: small_def)
  have smf: "small (filter P ?xs @ [j])" for P using sm by (auto simp: small_def)
  note bf = limits_bound [OF c smx lim]
  have fresh: "jb_ID j \<notin> jb_ID ` set ?xs"
  proof
    assume "jb_ID j \<in> jb_ID ` set ?xs"
    then obtain k where "k \<in> set ?xs" "jb_ID k = jb_ID j" by auto
    moreover have "rn_phase st (jb_ID k) = JP_Running"
      using ph cnt calculation(1) unfolding run_phases_def run_counts_def by (meson subsetD)
    ultimately show False using j(2) by simp
  qed
  have addf: "usage_of (filter P (?xs @ [j])) = addUsage (usage_of (filter P ?xs)) (jb_Resources j)"
    if "P j" for P
    using usage_of_snoc [OF smf] bf(1) that by simp
  have adda: "usage_of (?xs @ [j]) = addUsage (usage_of ?xs) (jb_Resources j)"
    using usage_of_snoc [OF sm] bf(2) by simp
  have counts: "run_counts js (run_launch j st)"
    unfolding run_counts_def
  proof (intro conjI allI)
    show "distinct (map jb_ID (rn_inflight (run_launch j st)))"
      using cnt fresh by (simp add: run_counts_def run_launch_def)
    show "set (rn_inflight (run_launch j st)) \<subseteq> set js"
      using cnt j(1) by (simp add: run_counts_def run_launch_def)
    show "rn_active (run_launch j st) = int (length (rn_inflight (run_launch j st)))"
      using cnt by (simp add: run_counts_def run_launch_def)
    show "rn_used (run_launch j st) = us_resources (usage_of (rn_inflight (run_launch j st)))"
      using cnt adda by (simp add: run_counts_def run_launch_def addUsage_def)
    fix k
    show "rn_running (run_launch j st) k = int (length (in_class k (rn_inflight (run_launch j st))))"
      using cnt by (simp add: run_counts_def run_launch_def in_class_def)
    show "rn_task (run_launch j st) k = usage_of (in_task k (rn_inflight (run_launch j st)))"
      using cnt addf [of "\<lambda>x. jb_TaskID x = k"] by (cases "jb_TaskID j = k") (auto simp: run_counts_def run_launch_def in_task_def)
    show "rn_runtime (run_launch j st) k = usage_of (in_runtime k (rn_inflight (run_launch j st)))"
      using cnt addf [of "\<lambda>x. jb_RuntimeID x = k"] by (cases "jb_RuntimeID j = k") (auto simp: run_counts_def run_launch_def in_runtime_def)
  qed
  have used: "rs_CPU (rn_used st) = cpu_of ?xs" "rs_MemoryBytes (rn_used st) = mem_of ?xs"
    and run: "rn_running st k = int (length (in_class k ?xs))"
    and tsk: "rn_task st k = usage_of (in_task k ?xs)" and rtm: "rn_runtime st k = usage_of (in_runtime k ?xs)"
    and actl: "rn_active st = int (length ?xs)" for k
    using cnt by (auto simp: run_counts_def usage_of_def)
  have jr: "0 < rs_CPU (jb_Resources j)" "rs_CPU (jb_Resources j) < 2 ^ 62"
    "0 < rs_MemoryBytes (jb_Resources j)" "rs_MemoryBytes (jb_Resources j) < 2 ^ 62"
    using sm by (auto simp: small_def)
  have nn: "0 \<le> cpu_of ?xs" "0 \<le> mem_of ?xs" using cpu_mem_nonneg [OF smx] by auto
  have capc: "cpu_of (?xs @ [j]) \<le> rs_CPU (sc_Capacity c)" "mem_of (?xs @ [j]) \<le> rs_MemoryBytes (sc_Capacity c)"
    using j(4) used jr nn bf(2) by (auto simp: admits_def)
  have cls: "jc_MaxConcurrent (sched_class c (jb_Class j)) \<le> 0
      \<or> int (length (in_class (jb_Class j) (?xs @ [j]))) \<le> jc_MaxConcurrent (sched_class c (jb_Class j))"
    using j(4) run [of "jb_Class j"] by (auto simp: admits_def in_class_def)
  have tq: "usage_within (usage_of (in_task (jb_TaskID j) (?xs @ [j]))) (sc_PerTaskQuota c)"
    using withinQuota_add [OF smf] bf(1) j(4) tsk [of "jb_TaskID j"]
    by (simp add: admits_def in_task_def)
  have rq: "usage_within (usage_of (in_runtime (jb_RuntimeID j) (?xs @ [j]))) (sc_PerRuntimeQuota c)"
    using withinQuota_add [OF smf] bf(1) j(4) rtm [of "jb_RuntimeID j"]
    by (simp add: admits_def in_runtime_def)
  have limits: "run_limits c (?xs @ [j])"
    unfolding run_limits_def
  proof (intro conjI ballI capc)
    show "int (length (?xs @ [j])) \<le> sc_MaxConcurrent c" using act actl by simp
    fix k assume k: "k \<in> set (?xs @ [j])"
    show "jc_MaxConcurrent (sched_class c (jb_Class k)) \<le> 0
        \<or> int (length (in_class (jb_Class k) (?xs @ [j]))) \<le> jc_MaxConcurrent (sched_class c (jb_Class k))"
      using cls lim k by (cases "jb_Class k = jb_Class j") (auto simp: run_limits_def in_class_def)
    show "usage_within (usage_of (in_task (jb_TaskID k) (?xs @ [j]))) (sc_PerTaskQuota c)"
      using tq lim k by (cases "jb_TaskID k = jb_TaskID j") (auto simp: run_limits_def in_task_def)
    show "usage_within (usage_of (in_runtime (jb_RuntimeID k) (?xs @ [j]))) (sc_PerRuntimeQuota c)"
      using rq lim k by (cases "jb_RuntimeID k = jb_RuntimeID j") (auto simp: run_limits_def in_runtime_def)
  qed
  have inj: "k = j" if "k \<in> set js" "jb_ID k = jb_ID j" for k
    using js(2) that j(1) by (auto simp: job_ids_def distinct_map inj_on_def)
  have done_same: "(rn_phase (run_launch j st) d = JP_Done) = (rn_phase st d = JP_Done)" for d
    using j(2) by (simp add: run_launch_def)
  have phases: "run_phases js (run_launch j st)"
    unfolding run_phases_def done_same
  proof (intro conjI ballI)
    fix k assume k: "k \<in> set js"
    show "if k \<in> set (rn_inflight (run_launch j st)) then rn_phase (run_launch j st) (jb_ID k) = JP_Running
          else rn_phase st (jb_ID k) = JP_Done \<or> rn_phase (run_launch j st) (jb_ID k) = JP_Pending"
      using ph k inj [OF k] by (auto simp: run_phases_def run_launch_def split: if_splits)
    show "rn_phase (run_launch j st) (jb_ID k) = JP_Pending
        \<or> list_all (\<lambda>d. rn_phase st d = JP_Done) (jb_DependsOn k)"
      using ph k inj [OF k] j(3) by (cases "k = j") (auto simp: run_phases_def run_launch_def)
  next
    show "rn_completed (run_launch j st) = int (length (filter (\<lambda>k. rn_phase st (jb_ID k) = JP_Done) js))"
      using ph by (simp add: run_phases_def run_launch_def)
    show "rn_pc (run_launch j st) = PC_Drain \<or> rn_pc (run_launch j st) = PC_Returned
        \<longrightarrow> rn_active (run_launch j st) = 0"
      using pc by (simp add: run_launch_def)
  qed
  show ?thesis using counts limits phases by (simp add: run_inv_def run_launch_def)
qed

lemma length_pred: "x \<in> set xs \<Longrightarrow> int (length xs - Suc 0) = int (length xs) - 1"
  by (cases xs) auto

lemma filter_remove1_in: "filter P (remove1 j xs) = (if P j then remove1 j (filter P xs) else filter P xs)"
  by (induction xs) auto

lemma usage_of_filter_remove:
  assumes "small xs" and "j \<in> set xs" and "cpu_of (filter P xs) < 2 ^ 62" and "mem_of (filter P xs) < 2 ^ 62"
  shows "usage_of (filter P (remove1 j xs))
    = (if P j then subtractUsage (usage_of (filter P xs)) (jb_Resources j) else usage_of (filter P xs))"
proof -
  have "small (filter P xs)" using assms(1) by (auto simp: small_def)
  then show ?thesis
    using usage_of_remove [of "filter P xs" j] assms by (simp add: filter_remove1_in)
qed

lemma limits_remove:
  assumes "small xs" and "run_limits c xs"
  shows "run_limits c (remove1 j xs)"
proof (cases "j \<in> set xs")
  case True
  have sub: "set (remove1 j xs) \<subseteq> set xs" by (rule set_remove1_subset)
  have smf: "small (filter P xs)" for P using assms(1) by (auto simp: small_def)
  have len: "length (filter P (remove1 j xs)) \<le> length (filter P xs)" for P
    by (simp add: filter_remove1_in length_remove1)
  have us: "usage_within (usage_of (filter P xs)) q \<Longrightarrow> usage_within (usage_of (filter P (remove1 j xs))) q" for P q
    using usage_within_remove [OF smf] by (simp add: filter_remove1_in)
  have "0 < rs_CPU (jb_Resources j)" "0 < rs_MemoryBytes (jb_Resources j)"
    using assms(1) True by (auto simp: small_def)
  then have tot: "cpu_of (remove1 j xs) \<le> rs_CPU (sc_Capacity c)"
    "mem_of (remove1 j xs) \<le> rs_MemoryBytes (sc_Capacity c)"
    using cpu_mem_remove [OF True] assms(2) by (auto simp: run_limits_def)
  show ?thesis
    unfolding run_limits_def
  proof (intro conjI ballI tot)
    show "int (length (remove1 j xs)) \<le> sc_MaxConcurrent c"
      using assms(2) True by (auto simp: run_limits_def length_remove1)
    fix k assume "k \<in> set (remove1 j xs)"
    then have k: "k \<in> set xs" using sub by blast
    show "jc_MaxConcurrent (sched_class c (jb_Class k)) \<le> 0
        \<or> int (length (in_class (jb_Class k) (remove1 j xs))) \<le> jc_MaxConcurrent (sched_class c (jb_Class k))"
      using assms(2) k len [of "\<lambda>x. jb_Class x = jb_Class k"] by (fastforce simp: run_limits_def in_class_def)
    show "usage_within (usage_of (in_task (jb_TaskID k) (remove1 j xs))) (sc_PerTaskQuota c)"
      using assms(2) k us by (auto simp: run_limits_def in_task_def)
    show "usage_within (usage_of (in_runtime (jb_RuntimeID k) (remove1 j xs))) (sc_PerRuntimeQuota c)"
      using assms(2) k us by (auto simp: run_limits_def in_runtime_def)
  qed
qed (use assms in \<open>simp add: remove1_idem\<close>)

lemma length_filter_one_more:
  assumes "distinct (map f js)" and "j \<in> set js" and "\<not> P (f j)"
  shows "length (filter (\<lambda>k. f k = f j \<or> P (f k)) js) = Suc (length (filter (\<lambda>k. P (f k)) js))"
  using assms
proof (induction js)
  case (Cons a js)
  show ?case
  proof (cases "a = j")
    case True
    then have "\<forall>k \<in> set js. f k \<noteq> f j" using Cons.prems(1) by (auto simp: image_iff)
    then have "filter (\<lambda>k. f k = f j \<or> P (f k)) js = filter (\<lambda>k. P (f k)) js"
      by (intro filter_cong) auto
    then show ?thesis using True Cons.prems(3) by simp
  next
    case False
    then have "f a \<noteq> f j" using Cons.prems(1,2) by force
    then show ?thesis using Cons False by auto
  qed
qed simp

lemma result_inv:
  assumes c: "sane_config c" and js: "small js" "distinct (job_ids js)"
    and inv: "run_inv c js st" and j: "j \<in> set (rn_inflight st)"
  shows "run_inv c js (run_result j err st)"
proof -
  let ?xs = "rn_inflight st"
  have cnt: "run_counts js st" and lim: "run_limits c ?xs" and ph: "run_phases js st"
    using inv by (auto simp: run_inv_def)
  have jjs: "j \<in> set js" using cnt j by (auto simp: run_counts_def)
  have smx: "small ?xs" using small_sub [OF js(1)] cnt by (auto simp: run_counts_def)
  note bf = limits_bound [OF c smx lim]
  have sub: "usage_of (filter P (remove1 j ?xs))
      = (if P j then subtractUsage (usage_of (filter P ?xs)) (jb_Resources j) else usage_of (filter P ?xs))" for P
    using usage_of_filter_remove [OF smx j] bf(1) by blast
  have dist: "distinct ?xs" using cnt by (simp add: run_counts_def distinct_map)
  have lenp: "int (length ?xs - Suc 0) = int (length ?xs) - 1" using j by (cases ?xs) auto
  have counts: "run_counts js (run_result j err st)"
    unfolding run_counts_def
  proof (intro conjI allI)
    show "distinct (map jb_ID (rn_inflight (run_result j err st)))"
      using cnt by (simp add: run_counts_def run_result_def distinct_map inj_on_diff)
    show "set (rn_inflight (run_result j err st)) \<subseteq> set js"
      using cnt set_remove1_subset [of j ?xs] by (auto simp: run_counts_def run_result_def)
    show "rn_active (run_result j err st) = int (length (rn_inflight (run_result j err st)))"
      using cnt j lenp by (simp add: run_counts_def run_result_def length_remove1)
    show "rn_used (run_result j err st) = us_resources (usage_of (rn_inflight (run_result j err st)))"
      using cnt usage_of_remove [OF smx j] bf(2) by (simp add: run_counts_def run_result_def subtractUsage_def)
    fix k
    show "rn_running (run_result j err st) k = int (length (in_class k (rn_inflight (run_result j err st))))"
    proof (cases "jb_Class j = k")
      case True
      then have "j \<in> set (in_class k ?xs)" using j by (simp add: in_class_def)
      then have "int (length (remove1 j (in_class k ?xs))) = int (length (in_class k ?xs)) - 1"
        by (simp add: length_remove1 length_pred)
      then show ?thesis
        using True cnt by (simp add: run_counts_def run_result_def in_class_def filter_remove1_in)
    next
      case False
      then show ?thesis using cnt by (auto simp: run_counts_def run_result_def in_class_def filter_remove1_in)
    qed
    show "rn_task (run_result j err st) k = usage_of (in_task k (rn_inflight (run_result j err st)))"
      using cnt sub [of "\<lambda>x. jb_TaskID x = k"]
      by (cases "jb_TaskID j = k") (auto simp: run_counts_def run_result_def in_task_def)
    show "rn_runtime (run_result j err st) k = usage_of (in_runtime k (rn_inflight (run_result j err st)))"
      using cnt sub [of "\<lambda>x. jb_RuntimeID x = k"]
      by (cases "jb_RuntimeID j = k") (auto simp: run_counts_def run_result_def in_runtime_def)
  qed
  have inj: "k = j" if "k \<in> set js" "jb_ID k = jb_ID j" for k
    using js(2) that jjs by (auto simp: job_ids_def distinct_map inj_on_def)
  have run: "rn_phase st (jb_ID j) = JP_Running" using ph jjs j by (simp add: run_phases_def)
  have done_more: "(rn_phase (run_result j err st) d = JP_Done) = (d = jb_ID j \<or> rn_phase st d = JP_Done)" for d
    by (simp add: run_result_def)
  have mono: "list_all (\<lambda>d. rn_phase st d = JP_Done) ds
      \<Longrightarrow> list_all (\<lambda>d. d = jb_ID j \<or> rn_phase st d = JP_Done) ds" for ds
    by (auto simp: list_all_iff)
  have phases: "run_phases js (run_result j err st)"
    unfolding run_phases_def done_more
  proof (intro conjI ballI)
    fix k assume k: "k \<in> set js"
    show "if k \<in> set (rn_inflight (run_result j err st)) then rn_phase (run_result j err st) (jb_ID k) = JP_Running
          else (jb_ID k = jb_ID j \<or> rn_phase st (jb_ID k) = JP_Done)
            \<or> rn_phase (run_result j err st) (jb_ID k) = JP_Pending"
    proof (cases "k = j")
      case True
      then show ?thesis using dist by (simp add: run_result_def)
    next
      case False
      then have "jb_ID k \<noteq> jb_ID j" using inj k by blast
      then show ?thesis
        using ph k False by (auto simp: run_phases_def run_result_def in_set_remove1 split: if_splits)
    qed
    show "rn_phase (run_result j err st) (jb_ID k) = JP_Pending
        \<or> list_all (\<lambda>d. d = jb_ID j \<or> rn_phase st d = JP_Done) (jb_DependsOn k)"
    proof (cases "k = j")
      case True
      then show ?thesis using ph jjs run mono unfolding run_phases_def by fastforce
    next
      case False
      then have "jb_ID k \<noteq> jb_ID j" using inj k by blast
      then show ?thesis using ph k mono by (auto simp: run_phases_def run_result_def)
    qed
  next
    have "\<not> rn_phase st (jb_ID j) = JP_Done" using run by simp
    then have "length (filter (\<lambda>k. jb_ID k = jb_ID j \<or> rn_phase st (jb_ID k) = JP_Done) js)
        = Suc (length (filter (\<lambda>k. rn_phase st (jb_ID k) = JP_Done) js))"
      using length_filter_one_more [of jb_ID js j "\<lambda>i. rn_phase st i = JP_Done"] js(2) jjs
      by (simp add: job_ids_def)
    then show "rn_completed (run_result j err st)
        = int (length (filter (\<lambda>k. jb_ID k = jb_ID j \<or> rn_phase st (jb_ID k) = JP_Done) js))"
      using ph by (simp add: run_phases_def run_result_def)
    show "rn_pc (run_result j err st) = PC_Drain \<or> rn_pc (run_result j err st) = PC_Returned
        \<longrightarrow> rn_active (run_result j err st) = 0"
      by (simp add: run_result_def)
  qed
  show ?thesis
    using counts limits_remove [OF smx lim, of j] phases by (simp add: run_inv_def run_result_def)
qed

lemma inv_same:
  assumes "run_inv c js st"
    and "rn_phase st' = rn_phase st" "rn_active st' = rn_active st" "rn_completed st' = rn_completed st"
      "rn_running st' = rn_running st" "rn_task st' = rn_task st" "rn_runtime st' = rn_runtime st"
      "rn_used st' = rn_used st" "rn_inflight st' = rn_inflight st"
    and "rn_pc st' = PC_Drain \<or> rn_pc st' = PC_Returned \<Longrightarrow> rn_active st = 0"
  shows "run_inv c js st'"
  using assms by (auto simp: run_inv_def run_counts_def run_phases_def)

lemma exit_active:
  assumes "run_inv c js st" and "\<not> rn_completed st < int (length js)" and "distinct (job_ids js)"
  shows "rn_active st = 0"
proof -
  have ph: "run_phases js st" and cnt: "run_counts js st" using assms(1) by (auto simp: run_inv_def)
  have all: "\<forall>j \<in> set js. rn_phase st (jb_ID j) = JP_Done"
  proof (rule ccontr)
    assume "\<not> (\<forall>j \<in> set js. rn_phase st (jb_ID j) = JP_Done)"
    then have "length (filter (\<lambda>j. rn_phase st (jb_ID j) = JP_Done) js) < length js"
      by (meson length_filter_lt)
    then show False using ph assms(2) by (simp add: run_phases_def)
  qed
  have "rn_inflight st = []"
  proof (rule ccontr)
    assume "rn_inflight st \<noteq> []"
    then obtain j where j: "j \<in> set (rn_inflight st)" by (cases "rn_inflight st") auto
    then have "j \<in> set js" using cnt by (auto simp: run_counts_def)
    then show False using ph all j by (auto simp: run_phases_def)
  qed
  then show ?thesis using cnt by (simp add: run_counts_def)
qed

lemma run_step_inv:
  assumes "run_step c js st ev st'" and c: "sane_config c" and js: "small js" "distinct (job_ids js)"
    and inv: "run_inv c js st"
  shows "run_inv c js st'"
  using assms(1)
proof cases
  case (step_top e)
  show ?thesis by (rule inv_same [OF inv]) (simp_all add: step_top run_top_def)
next
  case step_exit
  show ?thesis
    by (rule inv_same [OF inv]) (simp_all add: step_exit exit_active [OF inv _ js(2)])
next
  case (step_launch pr ord j)
  then show ?thesis using launch_inv [OF c js inv] by simp
next
  case (step_block pr ord pr' ord')
  show ?thesis
    by (rule inv_same [OF inv]) (auto simp: step_block run_block_def Let_def split: if_splits)
next
  case (step_result j err)
  then show ?thesis using result_inv [OF c js inv] by simp
next
  case (step_ctx e)
  show ?thesis by (rule inv_same [OF inv]) (simp_all add: step_ctx)
next
  case (step_drain j err)
  then have "rn_active st = 0" using inv by (simp add: run_inv_def run_phases_def)
  then show ?thesis using step_drain by simp
next
  case (step_return g)
  show ?thesis
    by (rule inv_same [OF inv]) (use inv step_return in \<open>simp_all add: run_inv_def run_phases_def\<close>)
qed

lemma run_trace_inv:
  assumes "run_trace c js (run_init js) evs st" and "sane_config c" and "small js" and "distinct (job_ids js)"
  shows "run_inv c js st"
  using assms(1)
  by (induction "run_init js" evs st rule: run_trace.induct)
     (auto simp: run_init_inv [OF assms(2)] intro: run_step_inv [OF _ assms(2-4)])

subsection \<open>Properties of a run\<close>

definition run_ok :: "(string list \<Rightarrow> string list) \<Rightarrow> sched_config \<Rightarrow> go_ctx \<Rightarrow> job list \<Rightarrow> bool" where
  "run_ok ord c ctx js \<longleftrightarrow> Run_checks ord c ctx js = Inr () \<and> sane_config c
     \<and> (\<forall>j \<in> set js. rs_CPU (jb_Resources j) < 2 ^ 62 \<and> rs_MemoryBytes (jb_Resources j) < 2 ^ 62)"

lemma run_ok_D:
  assumes "run_ok ord c ctx js"
  shows "sane_config c" "small js" "distinct (job_ids js)" "validateGraph ord js = None"
proof -
  show v: "validateGraph ord js = None" and c: "sane_config c"
    using assms by (auto simp: run_ok_def Run_checks_def split: if_splits option.splits)
  have "list_all validJob js" "distinct (job_ids js)" using validateGraph_topo [OF v] by auto
  then show "small js" "distinct (job_ids js)"
    using assms by (auto simp: small_def run_ok_def list_all_iff validJob_def)
qed

fun launch_of :: "run_event \<Rightarrow> string list" where
  "launch_of (Ev_Launch j) = [jb_ID j]"
| "launch_of _ = []"

fun result_of :: "run_event \<Rightarrow> (string \<times> sched_error option) list" where
  "result_of (Ev_Result j e) = [(jb_ID j, e)]"
| "result_of _ = []"

definition launched :: "run_event list \<Rightarrow> string list" where "launched evs = concat (map launch_of evs)"
definition finished :: "run_event list \<Rightarrow> (string \<times> sched_error option) list" where
  "finished evs = concat (map result_of evs)"

lemma launched_simps [simp]: "launched [] = []" "launched (evs @ [ev]) = launched evs @ launch_of ev"
  "finished [] = []" "finished (evs @ [ev]) = finished evs @ result_of ev"
  by (simp_all add: launched_def finished_def)

text \<open>What the events of a trace say about its last state.\<close>

definition trace_agrees :: "job list \<Rightarrow> run_event list \<Rightarrow> run_state \<Rightarrow> bool" where
  "trace_agrees js evs st \<longleftrightarrow>
     distinct (launched evs) \<and> distinct (map fst (finished evs))
     \<and> set (launched evs) = {i \<in> set (job_ids js). rn_phase st i \<noteq> JP_Pending}
     \<and> fst ` set (finished evs) = {i \<in> set (job_ids js). rn_phase st i = JP_Done}
     \<and> rn_errs st = concat (map (\<lambda>(i, e). case e of None \<Rightarrow> [] | Some x \<Rightarrow> [x]) (finished evs))
     \<and> (rn_firstErr st = None \<longrightarrow> (\<forall>(i, e) \<in> set (finished evs). e = None))
     \<and> (rn_pc st = PC_Drain \<or> rn_pc st = PC_Returned \<longrightarrow>
          rn_firstErr st \<noteq> None \<or> rn_completed st = int (length js))
     \<and> (rn_pc st = PC_Wait \<longrightarrow> rn_active st \<noteq> 0)"

lemma or_err_None [simp]: "or_err f e = None \<longleftrightarrow> f = None \<and> e = None"
  by (cases f) (auto simp: or_err_def)

lemma None_eq_or_err [simp]: "None = or_err f e \<longleftrightarrow> f = None \<and> e = None"
  using or_err_None by metis

lemma or_err_Some [simp]: "or_err f (Some e) = Some (case f of None \<Rightarrow> e | Some x \<Rightarrow> x)"
  by (cases f) (auto simp: or_err_def)

lemma step_agrees:
  assumes "run_step c js st ev st'" and inv: "run_inv c js st" and js: "distinct (job_ids js)"
    and ag: "trace_agrees js evs st"
  shows "trace_agrees js (evs @ [ev]) st'"
  using assms(1)
proof cases
  case (step_top e)
  then show ?thesis using ag by (auto simp: trace_agrees_def run_top_def)
next
  case step_exit
  have "rn_completed st \<le> int (length js)"
    using inv length_filter_le by (simp add: run_inv_def run_phases_def)
  then show ?thesis using ag step_exit by (auto simp: trace_agrees_def)
next
  case (step_launch pr ord j)
  have j: "j \<in> set js" "rn_phase st (jb_ID j) = JP_Pending" using chooseReady_Some [OF step_launch(5)] by auto
  then have "jb_ID j \<in> set (job_ids js)" by (simp add: job_ids_def)
  then show ?thesis using ag j(2) step_launch by (auto simp: trace_agrees_def run_launch_def split: if_splits)
next
  case (step_block pr ord pr' ord')
  then show ?thesis using ag by (auto simp: trace_agrees_def run_block_def Let_def)
next
  case (step_result j err)
  have jjs: "j \<in> set js" using inv step_result by (auto simp: run_inv_def run_counts_def)
  then have run: "rn_phase st (jb_ID j) = JP_Running"
    using inv step_result by (auto simp: run_inv_def run_phases_def)
  have id: "jb_ID j \<in> set (job_ids js)" using jjs by (simp add: job_ids_def)
  have nf: "jb_ID j \<notin> fst ` set (finished evs)" using ag run by (simp add: trace_agrees_def)
  have 1: "distinct (launched evs)" "distinct (map fst (finished evs @ [(jb_ID j, err)]))"
    using ag nf by (auto simp: trace_agrees_def)
  have 2: "set (launched evs) = {i \<in> set (job_ids js). rn_phase st' i \<noteq> JP_Pending}"
    using ag run step_result by (auto simp: trace_agrees_def run_result_def)
  have 3: "fst ` set (finished evs @ [(jb_ID j, err)]) = {i \<in> set (job_ids js). rn_phase st' i = JP_Done}"
    using ag id step_result by (auto simp: trace_agrees_def run_result_def)
  have 4: "rn_errs st' = concat (map (\<lambda>(i, e). case e of None \<Rightarrow> [] | Some x \<Rightarrow> [x]) (finished evs @ [(jb_ID j, err)]))"
    using ag step_result by (auto simp: trace_agrees_def run_result_def split: option.splits)
  have 5: "rn_firstErr st' = None \<longrightarrow> (\<forall>(i, e) \<in> set (finished evs @ [(jb_ID j, err)]). e = None)"
    using ag step_result by (auto simp: trace_agrees_def run_result_def)
  have "rn_pc st' = PC_Top" using step_result by (simp add: run_result_def)
  then show ?thesis unfolding trace_agrees_def using 1 2 3 4 5 step_result by simp
next
  case (step_ctx e)
  then show ?thesis using ag by (auto simp: trace_agrees_def)
next
  case (step_drain j err)
  then have "rn_active st = 0" using inv by (simp add: run_inv_def run_phases_def)
  then show ?thesis using step_drain by simp
next
  case (step_return g)
  then show ?thesis using ag by (auto simp: trace_agrees_def)
qed

lemma init_agrees: "trace_agrees js [] (run_init js)"
  by (auto simp: trace_agrees_def run_init_def)

lemma trace_agrees_all:
  assumes "run_trace c js (run_init js) evs st" and "sane_config c" and "small js" and "distinct (job_ids js)"
  shows "trace_agrees js evs st"
  using assms(1)
proof (induction "run_init js" evs st rule: run_trace.induct)
  case trace_nil
  show ?case by (rule init_agrees)
next
  case (trace_snoc evs st' ev st'')
  then show ?case
    using step_agrees [OF _ run_trace_inv [OF trace_snoc(1) assms(2-4)] assms(4)] by blast
qed

text \<open>A concrete graph for the witnesses: a test job that depends on a build job, and the run in
  which both succeed.\<close>

definition sample_sched :: sched_config where
  "sample_sched =
    \<lparr>sc_Capacity = \<lparr>rs_CPU = 4, rs_MemoryBytes = 1024\<rparr>, sc_MaxConcurrent = 2, sc_MaxQueued = 8,
     sc_Classes = [(''test'', \<lparr>jc_Weight = 2, jc_MaxConcurrent = 1\<rparr>)],
     sc_PerTaskQuota = \<lparr>qt_CPU = 4, qt_MemoryBytes = 1024, qt_Concurrent = 2\<rparr>,
     sc_PerRuntimeQuota = \<lparr>qt_CPU = 4, qt_MemoryBytes = 1024, qt_Concurrent = 2\<rparr>,
     sc_HasPressure = False\<rparr>"

definition sample_build :: job where
  "sample_build =
    \<lparr>jb_ID = ''b'', jb_TaskID = ''t'', jb_RuntimeID = ''r'', jb_Class = ''build'',
     jb_Resources = \<lparr>rs_CPU = 2, rs_MemoryBytes = 100\<rparr>, jb_DependsOn = [], jb_HasRun = True\<rparr>"

definition sample_test :: job where
  "sample_test = sample_build\<lparr>jb_ID := ''a'', jb_Class := ''test'', jb_DependsOn := [''b'']\<rparr>"

definition sample_jobs :: "job list" where "sample_jobs = [sample_test, sample_build]"

lemma sample_run_ok: "run_ok id sample_sched Ctx_Live sample_jobs"
proof -
  have 1: "is_ok (Run_checks id sample_sched Ctx_Live sample_jobs)" by code_simp
  have 2: "sane_config sample_sched" by code_simp
  show ?thesis
    using 1 2 by (auto simp: run_ok_def is_ok_iff sample_jobs_def sample_test_def sample_build_def)
qed

abbreviation "sm0 \<equiv> run_init sample_jobs"
abbreviation "sm1 \<equiv> run_launch sample_build (run_top None sm0)"
abbreviation "sm2 \<equiv> run_block sample_sched (\<lambda>_. None) sample_jobs (readyJobs id sample_jobs sm1) sm1"
abbreviation "sm3 \<equiv> run_top None (run_result sample_build None sm2)"
abbreviation "sm4 \<equiv> run_launch sample_test sm3"
abbreviation "sm5 \<equiv> run_block sample_sched (\<lambda>_. None) sample_jobs (readyJobs id sample_jobs sm4) sm4"
abbreviation "sm6 \<equiv> run_result sample_test None sm5"

lemma sample_choices:
  "chooseReady sample_sched (\<lambda>_. None) (run_top None sm0) (readyJobs id sample_jobs (run_top None sm0)) = Some sample_build"
  "chooseReady sample_sched (\<lambda>_. None) sm1 (readyJobs id sample_jobs sm1) = None"
  "chooseReady sample_sched (\<lambda>_. None) sm3 (readyJobs id sample_jobs sm3) = Some sample_test"
  "chooseReady sample_sched (\<lambda>_. None) sm4 (readyJobs id sample_jobs sm4) = None"
  by code_simp+

lemmas sample_state_defs = run_init_def run_top_def run_launch_def run_block_def run_result_def

lemma sample_trace:
  "run_trace sample_sched sample_jobs sm0 [Ev_Top None, Ev_Launch sample_build, Ev_Block, Ev_Result sample_build None, Ev_Top None] sm3"
proof -
  have cfg: "sc_MaxConcurrent sample_sched = 2" "length sample_jobs = 2"
    by (simp_all add: sample_sched_def sample_jobs_def)
  have 1: "run_step sample_sched sample_jobs sm0 (Ev_Top None) (run_top None sm0)"
    by (rule run_step.step_top) (simp_all add: run_init_def cfg)
  have 2: "run_step sample_sched sample_jobs (run_top None sm0) (Ev_Launch sample_build) sm1"
    by (rule run_step.step_launch [OF _ _ sample_choices(1)]) (simp_all add: run_init_def run_top_def cfg)
  have 3: "run_step sample_sched sample_jobs sm1 Ev_Block sm2"
    by (rule run_step.step_block [OF _ disjI2 [OF sample_choices(2)]]) (simp add: sample_state_defs)
  have 4: "run_step sample_sched sample_jobs sm2 (Ev_Result sample_build None) (run_result sample_build None sm2)"
    by (rule run_step.step_result) (simp_all add: sample_state_defs)
  have 5: "run_step sample_sched sample_jobs (run_result sample_build None sm2) (Ev_Top None) sm3"
    by (rule run_step.step_top) (simp_all add: sample_state_defs cfg)
  show ?thesis
    using run_trace.trace_nil [of sample_sched sample_jobs sm0, THEN run_trace.trace_snoc [OF _ 1],
        THEN run_trace.trace_snoc [OF _ 2], THEN run_trace.trace_snoc [OF _ 3],
        THEN run_trace.trace_snoc [OF _ 4], THEN run_trace.trace_snoc [OF _ 5]]
    by simp
qed

lemma sample_launch:
  "run_trace sample_sched sample_jobs sm0 ([Ev_Top None, Ev_Launch sample_build, Ev_Block, Ev_Result sample_build None, Ev_Top None]
     @ [Ev_Launch sample_test]) sm4"
  by (rule run_trace.trace_snoc [OF sample_trace run_step.step_launch [OF _ _ sample_choices(3)]])
     (simp_all add: sample_state_defs sample_sched_def)

definition sample_events :: "run_event list" where
  "sample_events = [Ev_Top None, Ev_Launch sample_build, Ev_Block, Ev_Result sample_build None, Ev_Top None,
     Ev_Launch sample_test, Ev_Block, Ev_Result sample_test None, Ev_Exit]"

lemma sample_complete:
  "run_trace sample_sched sample_jobs sm0 (sample_events @ [Ev_Return None]) (sm6\<lparr>rn_pc := PC_Returned\<rparr>)"
proof -
  have 1: "run_step sample_sched sample_jobs sm4 Ev_Block sm5"
    by (rule run_step.step_block [OF _ disjI2 [OF sample_choices(4)]]) (simp add: sample_state_defs)
  have 2: "run_step sample_sched sample_jobs sm5 (Ev_Result sample_test None) sm6"
    by (rule run_step.step_result) (simp_all add: sample_state_defs)
  have 3: "run_step sample_sched sample_jobs sm6 Ev_Exit (sm6\<lparr>rn_pc := PC_Drain\<rparr>)"
    by (rule run_step.step_exit) (simp_all add: sample_state_defs sample_jobs_def)
  have "run_step sample_sched sample_jobs (sm6\<lparr>rn_pc := PC_Drain\<rparr>)
      (Ev_Return (or_err (rn_firstErr (sm6\<lparr>rn_pc := PC_Drain\<rparr>)) None)) (sm6\<lparr>rn_pc := PC_Drain, rn_pc := PC_Returned\<rparr>)"
    by (rule run_step.step_return) (simp_all add: sample_state_defs)
  then have 4: "run_step sample_sched sample_jobs (sm6\<lparr>rn_pc := PC_Drain\<rparr>) (Ev_Return None) (sm6\<lparr>rn_pc := PC_Returned\<rparr>)"
    by (simp add: sample_state_defs or_err_def)
  show ?thesis
    using run_trace.trace_snoc [OF run_trace.trace_snoc [OF run_trace.trace_snoc
        [OF run_trace.trace_snoc [OF sample_launch 1] 2] 3] 4]
    by (simp add: sample_events_def)
qed



text \<open>C17: A job is launched at most once, and only after every job it depends on has delivered its
  result.\<close>

theorem run_dependency_order:
  assumes "run_ok ord c ctx js" and "run_trace c js (run_init js) (evs @ [Ev_Launch j]) st"
  shows "jb_ID j \<notin> set (launched evs) \<and> set (jb_DependsOn j) \<subseteq> fst ` set (finished evs)"
proof -
  obtain st1 where tr: "run_trace c js (run_init js) evs st1" and step: "run_step c js st1 (Ev_Launch j) st"
    using assms(2) by (cases rule: run_trace.cases) auto
  have ag: "trace_agrees js evs st1" by (rule trace_agrees_all [OF tr run_ok_D(1-3) [OF assms(1)]])
  from step have "j \<in> set js" "rn_phase st1 (jb_ID j) = JP_Pending"
    "list_all (\<lambda>d. rn_phase st1 d = JP_Done) (jb_DependsOn j)"
    by (auto elim!: run_step_cases dest: chooseReady_Some)
  moreover from this(1) have "set (jb_DependsOn j) \<subseteq> set (job_ids js)"
    using validateGraph_topo [OF run_ok_D(4) [OF assms(1)]] validateGraph_deps [OF run_ok_D(4) [OF assms(1)]] by blast
  ultimately show ?thesis using ag by (auto simp: trace_agrees_def list_all_iff)
qed

theorem run_dependency_order_witness:
  "set (jb_DependsOn sample_test)
     \<subseteq> fst ` set (finished [Ev_Top None, Ev_Launch sample_build, Ev_Block, Ev_Result sample_build None, Ev_Top None])"
  using run_dependency_order [OF sample_run_ok sample_launch] by blast

text \<open>The events of a run are counted against the program counter: an iteration of the loop is a
  reading of the context, its launches, a failed choice, and a result or a wake-up by the ended
  context.\<close>

fun is_ctx_done :: "run_event \<Rightarrow> bool" where
  "is_ctx_done (Ev_CtxDone e) = True"
| "is_ctx_done _ = False"

definition wakeups :: "run_event list \<Rightarrow> nat" where "wakeups evs = length (filter is_ctx_done evs)"

fun pc_weight :: "run_pc \<Rightarrow> nat" where
  "pc_weight PC_Top = 0"
| "pc_weight PC_Launch = 1"
| "pc_weight PC_Wait = 2"
| "pc_weight PC_Drain = 2"
| "pc_weight PC_Returned = 3"

lemma pc_weight_le: "pc_weight p \<le> 3"
  by (cases p) simp_all

lemma wakeups_simps [simp]: "wakeups [] = 0" "wakeups (evs @ fs) = wakeups evs + wakeups fs"
  "wakeups [Ev_CtxDone e] = 1" "\<not> is_ctx_done ev \<Longrightarrow> wakeups [ev] = 0"
  by (simp_all add: wakeups_def)

lemma run_length_weight:
  assumes "run_trace c js (run_init js) evs st" and "sane_config c" and "small js" and "distinct (job_ids js)"
  shows "length evs \<le> length (launched evs) + 3 * length (finished evs) + 3 * wakeups evs + pc_weight (rn_pc st)"
  using assms(1)
proof (induction "run_init js" evs st rule: run_trace.induct)
  case trace_nil
  show ?case by simp
next
  case (trace_snoc evs st' ev st'')
  have inv: "run_inv c js st'" by (rule run_trace_inv [OF trace_snoc(1) assms(2-4)])
  from trace_snoc(3) show ?case
  proof cases
    case (step_block pr ord1 pr' ord2)
    have "pc_weight (rn_pc (run_block c pr' js (readyJobs ord2 js st') st')) = 2"
      by (simp add: run_block_def Let_def)
    then show ?thesis using trace_snoc(2) step_block by simp
  next
    case (step_drain j err)
    then have "rn_active st' = 0" using inv by (simp add: run_inv_def run_phases_def)
    then show ?thesis using step_drain by simp
  qed (use trace_snoc(2) in \<open>simp_all add: run_top_def run_launch_def run_result_def\<close>)
qed

lemma run_counted:
  assumes "run_trace c js (run_init js) evs st" and "sane_config c" and "small js" and "distinct (job_ids js)"
  shows "distinct (launched evs)" and "set (launched evs) \<subseteq> set (job_ids js)"
    and "distinct (map fst (finished evs))" and "fst ` set (finished evs) \<subseteq> set (launched evs)"
    and "length evs \<le> 4 * length js + 3 * wakeups evs + 3"
proof -
  have ag: "trace_agrees js evs st" by (rule trace_agrees_all [OF assms])
  show 1: "distinct (launched evs)" and 2: "set (launched evs) \<subseteq> set (job_ids js)"
    and 3: "distinct (map fst (finished evs))" and 4: "fst ` set (finished evs) \<subseteq> set (launched evs)"
    using ag by (auto simp: trace_agrees_def)
  have len: "length xs \<le> length js" if "distinct xs" "set xs \<subseteq> set (job_ids js)" for xs
    using that distinct_card [of xs] card_mono [of "set (job_ids js)" "set xs"]
      card_length [of "job_ids js"] by (simp add: job_ids_def)
  have "length (launched evs) \<le> length js" by (rule len [OF 1 2])
  moreover have "length (finished evs) \<le> length js" using len [OF 3] 2 4 by auto
  ultimately show "length evs \<le> 4 * length js + 3 * wakeups evs + 3"
    using run_length_weight [OF assms] pc_weight_le [of "rn_pc st"] by linarith
qed

lemma run_step_possible:
  assumes "run_trace c js (run_init js) evs st" and "sane_config c" and "small js" and "distinct (job_ids js)"
    and "rn_pc st \<noteq> PC_Returned"
  shows "\<exists>ev st'. run_step c js st ev st' \<and> \<not> is_ctx_done ev"
proof -
  have ag: "trace_agrees js evs st" by (rule trace_agrees_all [OF assms(1-4)])
  have inv: "run_inv c js st" by (rule run_trace_inv [OF assms(1-4)])
  show ?thesis
  proof (cases "rn_pc st")
    case PC_Top
    show ?thesis
    proof (cases "rn_completed st < int (length js)")
      case True
      then show ?thesis using run_step.step_top [of st js "Some Sched_ErrContext"] PC_Top by fastforce
    next
      case False
      then show ?thesis using run_step.step_exit PC_Top by fastforce
    qed
  next
    case PC_Launch
    show ?thesis
    proof (cases "rn_active st < sc_MaxConcurrent c \<and> chooseReady c (\<lambda>_. None) st (readyJobs id js st) \<noteq> None")
      case True
      then obtain j where "chooseReady c (\<lambda>_. None) st (readyJobs id js st) = Some j" by auto
      then have "run_step c js st (Ev_Launch j) (run_launch j st)"
        using True PC_Launch by (intro run_step.step_launch) auto
      then show ?thesis by fastforce
    next
      case False
      then have "run_step c js st Ev_Block (run_block c (\<lambda>_. None) js (readyJobs id js st) st)"
        using PC_Launch by (intro run_step.step_block) auto
      then show ?thesis by fastforce
    qed
  next
    case PC_Wait
    then obtain j where "j \<in> set (rn_inflight st)"
      using ag inv by (cases "rn_inflight st") (auto simp: trace_agrees_def run_inv_def run_counts_def)
    then have "run_step c js st (Ev_Result j None) (run_result j None st)"
      using PC_Wait by (intro run_step.step_result)
    then show ?thesis by fastforce
  next
    case PC_Drain
    then have "\<not> 0 < rn_active st" using inv by (simp add: run_inv_def run_phases_def)
    then show ?thesis
      using PC_Drain run_step.step_return [of st "case rn_errs st of [] \<Rightarrow> None | e # _ \<Rightarrow> Some e" c js]
      by (cases "rn_errs st") fastforce+
  qed (use assms(5) in simp)
qed

lemma run_can_return:
  assumes "run_trace c js (run_init js) evs st" and "sane_config c" and "small js" and "distinct (job_ids js)"
  shows "\<exists>more st'. run_trace c js (run_init js) (evs @ more) st' \<and> wakeups more = 0 \<and> rn_pc st' = PC_Returned"
  using assms(1)
proof (induction "4 * length js + 3 * wakeups evs + 3 - length evs" arbitrary: evs st rule: less_induct)
  case less
  show ?case
  proof (cases "rn_pc st = PC_Returned")
    case True
    then show ?thesis using less.prems by (intro exI [of _ "[]"] exI [of _ st]) simp
  next
    case False
    obtain ev st1 where ev: "run_step c js st ev st1" "\<not> is_ctx_done ev"
      using run_step_possible [OF less.prems assms(2-4) False] by blast
    have tr: "run_trace c js (run_init js) (evs @ [ev]) st1" by (rule run_trace.trace_snoc [OF less.prems ev(1)])
    have "length (evs @ [ev]) \<le> 4 * length js + 3 * wakeups (evs @ [ev]) + 3"
      by (rule run_counted(5) [OF tr assms(2-4)])
    then have "4 * length js + 3 * wakeups (evs @ [ev]) + 3 - length (evs @ [ev])
        < 4 * length js + 3 * wakeups evs + 3 - length evs" using ev(2) by simp
    from less.hyps [OF this tr] obtain more st' where
      "run_trace c js (run_init js) ((evs @ [ev]) @ more) st'" "wakeups more = 0" "rn_pc st' = PC_Returned" by blast
    then show ?thesis
      using ev(2) by (intro exI [of _ "[ev] @ more"] exI [of _ st']) (simp add: wakeups_def)
  qed
qed

text \<open>C18: A run of an admitted graph (capacities and requests below \<open>2 ^ 62\<close>) launches no job twice
  and receives no result twice, and only results of launched jobs. Its length is bounded: at most
  \<open>4 * n + 3\<close> steps for \<open>n\<close> jobs and three more for each time the ended context wakes the loop
  while jobs still run, so nothing else can make it spin. It cannot get stuck: from every
  reachable state some continuation without such a wake-up ends with the return of \<open>Run\<close>.\<close>

theorem run_bounded_progress:
  assumes "run_ok ord c ctx js" and "run_trace c js (run_init js) evs st"
  shows "distinct (launched evs) \<and> set (launched evs) \<subseteq> set (job_ids js)
    \<and> distinct (map fst (finished evs)) \<and> fst ` set (finished evs) \<subseteq> set (launched evs)
    \<and> length evs \<le> 4 * length js + 3 + 3 * length (filter is_ctx_done evs)
    \<and> (\<exists>more st'. run_trace c js (run_init js) (evs @ more) st' \<and> filter is_ctx_done more = []
         \<and> rn_pc st' = PC_Returned)"
  using run_counted [OF assms(2) run_ok_D(1-3) [OF assms(1)]]
    run_can_return [OF assms(2) run_ok_D(1-3) [OF assms(1)]]
  by (simp add: wakeups_def)

theorem run_bounded_progress_witness:
  "distinct (launched sample_events) \<and> length sample_events \<le> 10
    \<and> (\<exists>more st'. run_trace sample_sched sample_jobs sm0
          ([Ev_Top None, Ev_Launch sample_build, Ev_Block, Ev_Result sample_build None, Ev_Top None,
            Ev_Launch sample_test] @ more) st'
        \<and> rn_pc st' = PC_Returned)"
proof -
  have "length sample_jobs = 2" by (simp add: sample_jobs_def)
  moreover have "filter is_ctx_done (sample_events @ [Ev_Return None]) = []" by (simp add: sample_events_def)
  ultimately have "distinct (launched sample_events) \<and> length sample_events \<le> 10"
    using run_bounded_progress [OF sample_run_ok sample_complete] by simp
  then show ?thesis using run_bounded_progress [OF sample_run_ok sample_launch] by auto
qed

text \<open>Success means success: when \<open>Run\<close> returns no error, every job of the graph was
  launched and every job delivered a result without an error.\<close>

theorem run_success_complete:
  assumes "run_ok ord c ctx js" and "run_trace c js (run_init js) (evs @ [Ev_Return None]) st"
  shows "set (launched evs) = set (job_ids js) \<and> set (finished evs) = {(jb_ID j, None) |j. j \<in> set js}"
proof -
  note ok = run_ok_D(1-3) [OF assms(1)]
  obtain st1 where tr: "run_trace c js (run_init js) evs st1" and step: "run_step c js st1 (Ev_Return None) st"
    using assms(2) by (cases rule: run_trace.cases) auto
  have ag: "trace_agrees js evs st1" by (rule trace_agrees_all [OF tr ok])
  have ph: "run_phases js st1" using run_trace_inv [OF tr ok] by (simp add: run_inv_def)
  from step have "rn_pc st1 = PC_Drain" "rn_firstErr st1 = None"
    by (auto elim!: run_step_cases)
  then have cmp: "rn_completed st1 = int (length js)" and noerr: "\<forall>(i, e) \<in> set (finished evs). e = None"
    using ag by (auto simp: trace_agrees_def)
  have done_all: "\<forall>j \<in> set js. rn_phase st1 (jb_ID j) = JP_Done"
  proof (rule ccontr)
    assume "\<not> (\<forall>j \<in> set js. rn_phase st1 (jb_ID j) = JP_Done)"
    then have "length (filter (\<lambda>j. rn_phase st1 (jb_ID j) = JP_Done) js) < length js"
      by (meson length_filter_lt)
    then show False using ph cmp by (simp add: run_phases_def)
  qed
  have L: "set (launched evs) = set (job_ids js)"
    using ag done_all by (auto simp: trace_agrees_def job_ids_def)
  have F: "fst ` set (finished evs) = jb_ID ` set js"
    using ag done_all by (auto simp: trace_agrees_def job_ids_def)
  have "set (finished evs) = {(jb_ID j, None) |j. j \<in> set js}"
  proof (intro set_eqI iffI)
    fix p assume p: "p \<in> set (finished evs)"
    obtain i e where ie: "p = (i, e)" by fastforce
    have "i \<in> jb_ID ` set js" using F p ie by force
    moreover have "e = None" using noerr p ie by auto
    ultimately show "p \<in> {(jb_ID j, None) |j. j \<in> set js}" using ie by auto
  next
    fix p assume "p \<in> {(jb_ID j, None :: sched_error option) |j. j \<in> set js}"
    then obtain j where "j \<in> set js" "p = (jb_ID j, None)" by blast
    moreover from this have "jb_ID j \<in> fst ` set (finished evs)" using F by simp
    ultimately show "p \<in> set (finished evs)" using noerr by fastforce
  qed
  then show ?thesis using L by simp
qed

theorem run_success_complete_witness:
  "set (launched sample_events) = {''a'', ''b''}"
  using run_success_complete [OF sample_run_ok sample_complete]
  by (simp add: job_ids_def sample_jobs_def sample_test_def sample_build_def)

subsection \<open>No spurious failure\<close>

definition fits_alone :: "sched_config \<Rightarrow> job \<Rightarrow> bool" where
  "fits_alone c j \<longleftrightarrow>
     rs_CPU (jb_Resources j) \<le> rs_CPU (sc_Capacity c)
     \<and> rs_MemoryBytes (jb_Resources j) \<le> rs_MemoryBytes (sc_Capacity c)
     \<and> usage_within (usage_of [j]) (sc_PerTaskQuota c) \<and> usage_within (usage_of [j]) (sc_PerRuntimeQuota c)"

fun quiet :: "run_event \<Rightarrow> bool" where
  "quiet (Ev_Top e) = (e = None)"
| "quiet (Ev_Result j e) = (e = None)"
| "quiet (Ev_Drain j e) = (e = None)"
| "quiet (Ev_CtxDone e) = False"
| "quiet _ = True"

lemma idle_admits:
  assumes "run_inv c js st" and "rn_active st = 0" and "small js" and "sane_config c"
    and "j \<in> set js" and "fits_alone c j" and "\<not> sc_HasPressure c"
  shows "admits c pr st j"
proof -
  have "run_counts js st" using assms(1) by (simp add: run_inv_def)
  then have e: "rn_inflight st = []" "rn_used st = us_resources (usage_of [])" "rn_running st k = 0"
    "rn_task st k = usage_of []" "rn_runtime st k = usage_of []" for k
    using assms(2) by (auto simp: run_counts_def in_class_def in_task_def in_runtime_def)
  show ?thesis
    using assms(3-7) e
    by (auto simp: admits_def withinQuota_def fits_alone_def usage_within_def usage_of_def small_def
        sane_config_def pressure_admits_def)
qed

lemma idle_ready:
  assumes "run_inv c js st" and "rn_active st = 0" and "rn_completed st \<noteq> int (length js)"
    and "validateGraph ord js = None"
  shows "readyJobs ord' js st \<noteq> []"
proof -
  have g: "distinct (job_ids js)" "acyclic (dep_rel js)" using validateGraph_topo [OF assms(4)] by auto
  have ph: "run_phases js st" and fl: "rn_inflight st = []"
    using assms(1,2) by (auto simp: run_inv_def run_counts_def)
  let ?P = "{i \<in> set (job_ids js). rn_phase st i = JP_Pending}"
  have "?P \<noteq> {}"
  proof
    assume none: "?P = {}"
    have "\<forall>j \<in> set js. rn_phase st (jb_ID j) = JP_Done"
      using ph fl none by (auto simp: run_phases_def job_ids_def)
    then have "filter (\<lambda>j. rn_phase st (jb_ID j) = JP_Done) js = js" by (intro filter_True) auto
    then show False using ph assms(3) by (simp add: run_phases_def)
  qed
  have "dep_rel js \<subseteq> set (job_ids js) \<times> (\<Union>i \<in> set (job_ids js). set (deps_of js i))"
    by (auto simp: dep_rel_def)
  then have "finite (dep_rel js)" by (rule finite_subset) auto
  then have "wf ((dep_rel js)\<inverse>)" using g(2) by (rule finite_acyclic_wf_converse)
  then obtain i where i: "i \<in> ?P" and mn: "\<forall>y. (y, i) \<in> (dep_rel js)\<inverse> \<longrightarrow> y \<notin> ?P"
    using \<open>?P \<noteq> {}\<close> by (metis (no_types, lifting) wf_eq_minimal ex_in_conv)
  then obtain j where j: "j \<in> set js" "jb_ID j = i" by (auto simp: job_ids_def)
  have "rn_phase st d = JP_Done" if d: "d \<in> set (jb_DependsOn j)" for d
  proof -
    have "(i, d) \<in> dep_rel js" using d j i deps_of_member [OF g(1) j(1)] by (auto simp: dep_rel_def)
    moreover have "d \<in> set (job_ids js)" using validateGraph_deps [OF assms(4) j(1)] d by blast
    ultimately have "rn_phase st d \<noteq> JP_Pending" and "\<exists>k \<in> set js. jb_ID k = d"
      using mn by (auto simp: job_ids_def)
    then show ?thesis using ph fl by (auto simp: run_phases_def)
  qed
  then have "j \<in> set (readyJobs ord' js st)" using i j by (auto simp: readyJobs_def list_all_iff)
  then show ?thesis by (metis empty_iff empty_set)
qed

text \<open>A run fails only for a reason. When each job alone fits the capacity and the quotas, no
  host-pressure probe is configured, no job returns an error and the context stays live, \<open>Run\<close>
  returns no error: the scheduler neither deadlocks nor reports a graph as unschedulable.\<close>

theorem run_no_spurious_failure:
  assumes "run_ok ord c ctx js" and "\<forall>j \<in> set js. fits_alone c j" and "\<not> sc_HasPressure c"
    and "run_trace c js (run_init js) (evs @ [Ev_Return r]) st" and "\<forall>ev \<in> set evs. quiet ev"
  shows "r = None"
proof -
  note ok = run_ok_D(1-3) [OF assms(1)]
  obtain st1 where tr: "run_trace c js (run_init js) evs st1" and step: "run_step c js st1 (Ev_Return r) st"
    using assms(4) by (cases rule: run_trace.cases) auto
  have "rn_firstErr st1 = None \<and> rn_errs st1 = []"
    using tr assms(5)
  proof (induction "run_init js" evs st1 rule: run_trace.induct)
    case trace_nil
    show ?case by (simp add: run_init_def)
  next
    case (trace_snoc evs st' ev st'')
    have inv: "run_inv c js st'" by (rule run_trace_inv [OF trace_snoc(1) ok])
    have IH: "rn_firstErr st' = None" "rn_errs st' = []" and q: "quiet ev" using trace_snoc by auto
    from trace_snoc(3) show ?case
    proof cases
      case (step_block pr ord1 pr' ord2)
      have "\<not> (rn_active st' = 0 \<and> rn_completed st' \<noteq> int (length js))"
      proof
        assume idle: "rn_active st' = 0 \<and> rn_completed st' \<noteq> int (length js)"
        obtain j where j: "j \<in> set (readyJobs ord1 js st')"
          using idle_ready [OF inv _ _ run_ok_D(4) [OF assms(1)], of ord1] idle
          by (metis last_in_set)
        then have "j \<in> set js" by (simp add: readyJobs_def)
        then have "admits c pr st' j" using idle_admits [OF inv _ ok(2,1)] idle assms(2,3) by blast
        then have "chooseReady c pr st' (readyJobs ord1 js st') \<noteq> None"
          using j by (auto simp: chooseReady_def find_None_iff sort_ready_def)
        moreover have "rn_active st' < sc_MaxConcurrent c" using idle ok(1) by (simp add: sane_config_def)
        ultimately show False using step_block(4) by simp
      qed
      then show ?thesis using step_block IH by (auto simp: run_block_def)
    qed (use IH q in \<open>auto simp: run_top_def run_launch_def run_result_def run_drain_def\<close>)
  qed
  with step show ?thesis by (auto elim!: run_step_cases split: option.splits)
qed

theorem run_no_spurious_failure_witness:
  "(None :: sched_error option) = None \<and> list_all quiet sample_events"
proof -
  have q: "\<forall>ev \<in> set sample_events. quiet ev" by (simp add: sample_events_def)
  have "list_all (fits_alone sample_sched) sample_jobs" by code_simp
  then have f: "\<forall>j \<in> set sample_jobs. fits_alone sample_sched j" by (simp add: list_all_iff)
  have "\<not> sc_HasPressure sample_sched" by (simp add: sample_sched_def)
  from run_no_spurious_failure [OF sample_run_ok f this sample_complete q] show ?thesis using q by (simp add: list_all_iff)
qed

subsection \<open>Determinism\<close>

text \<open>The choice is deterministic: the job that \<open>chooseReady\<close> picks does not depend on the
  order in which the runtime iterates the map of jobs. Among the ready jobs it is the admitted one
  with the least share of its class's weight served so far, ties broken by identifier.\<close>

theorem chooseReady_order_independent:
  assumes "distinct (job_ids js)"
  shows "chooseReady c pr st (readyJobs ord js st) = chooseReady c pr st (readyJobs ord' js st)"
proof -
  let ?f = "\<lambda>j. (sched_score c (rn_served st) j, jb_ID j)"
  have ms: "mset (readyJobs ord js st) = mset (readyJobs ord' js st)" by (simp add: readyJobs_def)
  have "inj_on ?f (set (readyJobs ord js st))"
    using assms by (auto simp: inj_on_def readyJobs_def job_ids_def distinct_map)
  then have "sort_key ?f (readyJobs ord js st) = sort_key ?f (readyJobs ord' js st)"
    using ms by (metis (no_types, lifting) sort_key_inj_key_eq sorted_sort_key mset_sort)
  then show ?thesis by (simp add: chooseReady_def sort_ready_def)
qed

theorem chooseReady_order_independent_witness:
  "chooseReady sample_sched (\<lambda>_. None) (run_top None sm0) (readyJobs id sample_jobs (run_top None sm0))
   = chooseReady sample_sched (\<lambda>_. None) (run_top None sm0) (readyJobs rev sample_jobs (run_top None sm0))"
proof -
  have "distinct (job_ids sample_jobs)" by code_simp
  then show ?thesis by (rule chooseReady_order_independent)
qed

subsection \<open>Wrap-around\<close>

text \<open>Without the bound on requests the capacity check can be passed by wrap-around: beside a
  running job of one CPU, a job that asks for \<open>2 ^ 63 - 1\<close> CPUs is admitted, although alone it is
  refused.\<close>

definition huge_job :: job where
  "huge_job = sample_build\<lparr>jb_ID := ''h'',
     jb_Resources := \<lparr>rs_CPU = 9223372036854775807, rs_MemoryBytes = 1\<rparr>\<rparr>"

lemma admission_wraps:
  "admits sample_sched (\<lambda>_. None) (run_launch sample_build (run_init [sample_build, huge_job])) huge_job
   \<and> \<not> admits sample_sched (\<lambda>_. None) (run_init [sample_build, huge_job]) huge_job"
  by code_simp

end
