(* ===== verification/Workspace_Tree.thy ===== *)
theory Workspace_Tree
  imports Go_Paths
begin

section \<open>Directory trees and their snapshots (internal/workspace/workspace.go)\<close>

text \<open>
  A directory tree is the list of its entries in the order \<open>filepath.WalkDir\<close> visits them,
  without the root. \<open>snapshotTree\<close> hashes one record per entry that is not excluded; the lemmas
  say when the hashed bytes determine the tree, and that they do not when a directory may be
  exchanged for a file.
\<close>

subsection \<open>Entries\<close>

datatype tree_kind = Tree_Dir | Tree_File string | Tree_Symlink | Tree_Other

record tree_entry =
  te_Path :: string
  te_Perm :: nat
  te_Size :: nat
  te_Kind :: tree_kind

definition first_component :: "string \<Rightarrow> string" where
  "first_component p = hd (split_on slash p)"

definition excluded :: "string \<Rightarrow> bool" where
  "excluded p \<longleftrightarrow> first_component p \<in> {''.git'', ''.cache'', ''bin'', ''.repoworker-state'',
     ''.generation.json'', ''.lease.json'', ''.runtime-owner.json''}"

definition candidateExcluded :: "string \<Rightarrow> bool" where
  "candidateExcluded p \<longleftrightarrow> first_component p \<in> {''.git'', ''.cache'', ''.repoworker-state'',
     ''.generation.json'', ''.lease.json'', ''.runtime-owner.json''}"

definition is_symlink :: "tree_entry \<Rightarrow> bool" where "is_symlink e \<longleftrightarrow> te_Kind e = Tree_Symlink"

definition is_dir :: "tree_entry \<Rightarrow> bool" where "is_dir e \<longleftrightarrow> te_Kind e = Tree_Dir"

definition is_regular :: "tree_entry \<Rightarrow> bool" where
  "is_regular e \<longleftrightarrow> (case te_Kind e of Tree_File _ \<Rightarrow> True | _ \<Rightarrow> False)"

subsection \<open>Snapshots\<close>

text \<open>An excluded directory is skipped with everything below it, which has the same first
  component; so the walk keeps the entries that are not excluded and fails on a symbolic link
  among them.\<close>

definition included :: "tree_entry list \<Rightarrow> tree_entry list" where
  "included t = filter (\<lambda>e. \<not> excluded (te_Path e)) t"

definition entry_bytes :: "tree_entry \<Rightarrow> string" where
  "entry_bytes e =
     te_Path e @ [NUL] @ digits_of (te_Perm e) @ [NUL] @ digits_of (te_Size e) @ [NUL]
     @ (case te_Kind e of Tree_File content \<Rightarrow> content | _ \<Rightarrow> []) @ [NUL]"

definition sorted_included :: "tree_entry list \<Rightarrow> tree_entry list" where
  "sorted_included t = sort_key te_Path (included t)"

definition tree_bytes :: "tree_entry list \<Rightarrow> string" where
  "tree_bytes t = concat (map entry_bytes (sorted_included t))"

definition snapshotTree :: "(string \<Rightarrow> string) \<Rightarrow> go_ctx \<Rightarrow> tree_entry list \<Rightarrow> string option" where
  "snapshotTree sha ctx t =
    (if list_ex is_symlink (included t) then None
     else if ctx_err ctx \<and> included t \<noteq> [] then None
     else if list_ex (\<lambda>e. \<not> is_regular e \<and> \<not> is_dir e) (included t) then None
     else Some (hex_encode (sha (tree_bytes t))))"

text \<open>Copying a tree: \<open>size_of\<close> gives the size the destination's file system reports for a new
  directory. The copy fails on symbolic links and special files.\<close>

fun copyTree :: "go_ctx \<Rightarrow> (tree_entry \<Rightarrow> nat) \<Rightarrow> tree_entry list \<Rightarrow> tree_entry list option" where
  "copyTree ctx size_of [] = Some []"
| "copyTree ctx size_of (e # es) =
    (if candidateExcluded (te_Path e) then copyTree ctx size_of es
     else if ctx_err ctx then None
     else if is_symlink e then None
     else if is_dir e then map_option (\<lambda>r. e\<lparr>te_Size := size_of e\<rparr> # r) (copyTree ctx size_of es)
     else if \<not> is_regular e then None
     else map_option (\<lambda>r. e # r) (copyTree ctx size_of es))"

subsection \<open>What the hashed bytes determine\<close>

definition tree_wf :: "tree_entry list \<Rightarrow> bool" where
  "tree_wf t \<longleftrightarrow>
     (\<forall>e \<in> set t. NUL \<notin> set (te_Path e)
        \<and> (case te_Kind e of Tree_File c \<Rightarrow> te_Size e = length c | Tree_Dir \<Rightarrow> True | _ \<Rightarrow> False))"

lemma NUL_digits: "NUL \<notin> set (digits_of n)"
  using digits_of_char [of NUL n] by (auto simp: in_byte_range_def NUL_def)

lemma entry_bytes_split:
  assumes wf: "tree_wf (e # t)" "tree_wf (f # u)" and kind: "te_Path e = te_Path f \<Longrightarrow> is_dir e = is_dir f"
    and eq: "entry_bytes e @ x = entry_bytes f @ y"
  shows "e = f \<and> x = y"
proof -
  let ?c = "\<lambda>e. case te_Kind e of Tree_File content \<Rightarrow> content | _ \<Rightarrow> []"
  have n: "NUL \<notin> set (te_Path e)" "NUL \<notin> set (te_Path f)" using wf by (auto simp: tree_wf_def)
  have 1: "te_Path e = te_Path f"
    and r1: "digits_of (te_Perm e) @ NUL # digits_of (te_Size e) @ NUL # ?c e @ NUL # x
      = digits_of (te_Perm f) @ NUL # digits_of (te_Size f) @ NUL # ?c f @ NUL # y"
    using until_sep [OF n] eq by (auto simp: entry_bytes_def)
  have 2: "digits_of (te_Perm e) = digits_of (te_Perm f)"
    and r2: "digits_of (te_Size e) @ NUL # ?c e @ NUL # x = digits_of (te_Size f) @ NUL # ?c f @ NUL # y"
    using until_sep [OF NUL_digits NUL_digits r1] by auto
  have 3: "digits_of (te_Size e) = digits_of (te_Size f)" and r3: "?c e @ NUL # x = ?c f @ NUL # y"
    using until_sep [OF NUL_digits NUL_digits r2] by auto
  have perm: "te_Perm e = te_Perm f" and size: "te_Size e = te_Size f"
    using 2 3 digits_of_inj by auto
  have "te_Kind e = te_Kind f \<and> x = y"
    using kind [OF 1] wf r3 size
    by (cases "te_Kind e"; cases "te_Kind f") (auto simp: tree_wf_def is_dir_def)
  then show ?thesis using 1 perm size by (cases e; cases f) auto
qed

lemma entries_bytes_inj:
  assumes "tree_wf xs" and "tree_wf ys"
    and "\<forall>e \<in> set xs. \<forall>f \<in> set ys. te_Path e = te_Path f \<longrightarrow> is_dir e = is_dir f"
    and "concat (map entry_bytes xs) = concat (map entry_bytes ys)"
  shows "xs = ys"
  using assms
proof (induction xs arbitrary: ys)
  case Nil
  then show ?case by (cases ys) (auto simp: entry_bytes_def)
next
  case (Cons e xs)
  obtain f us where ys: "ys = f # us" using Cons.prems(4) by (cases ys) (auto simp: entry_bytes_def)
  have "e = f \<and> concat (map entry_bytes xs) = concat (map entry_bytes us)"
    by (rule entry_bytes_split [OF Cons.prems(1) Cons.prems(2) [unfolded ys]])
       (use Cons.prems(3,4) ys in auto)
  moreover have "xs = us"
    by (rule Cons.IH) (use Cons.prems ys calculation in \<open>auto simp: tree_wf_def\<close>)
  ultimately show ?case using ys by simp
qed

text \<open>A snapshot determines the files of a tree: two trees whose hashed bytes agree, and in
  which the same paths are directories, have the same entries outside the excluded names, with the
  same permissions, sizes and contents.\<close>

theorem tree_bytes_determine:
  assumes "tree_wf t" and "tree_wf u"
    and "\<forall>e \<in> set t. \<forall>f \<in> set u. te_Path e = te_Path f \<longrightarrow> is_dir e = is_dir f"
    and "tree_bytes t = tree_bytes u"
  shows "set (included t) = set (included u)"
proof -
  have "sorted_included t = sorted_included u"
    using assms by (intro entries_bytes_inj) (auto simp: tree_bytes_def sorted_included_def tree_wf_def included_def)
  then show ?thesis by (metis sorted_included_def set_sort)
qed

definition sample_tree :: "tree_entry list" where
  "sample_tree =
    [\<lparr>te_Path = ''.git'', te_Perm = 493, te_Size = 96, te_Kind = Tree_Dir\<rparr>,
     \<lparr>te_Path = ''a'', te_Perm = 420, te_Size = 2, te_Kind = Tree_File ''hi''\<rparr>]"

theorem tree_bytes_determine_witness:
  "set (included sample_tree) = set (included (rev sample_tree))"
proof -
  have "tree_wf sample_tree" "tree_wf (rev sample_tree)"
    by (auto simp: tree_wf_def sample_tree_def NUL_def)
  moreover have "tree_bytes sample_tree = tree_bytes (rev sample_tree)" by code_simp
  moreover have "\<forall>e \<in> set sample_tree. \<forall>f \<in> set (rev sample_tree). te_Path e = te_Path f \<longrightarrow> is_dir e = is_dir f"
    by (auto simp: sample_tree_def)
  ultimately show ?thesis using tree_bytes_determine by blast
qed

text \<open>The kind of an entry is not hashed: a directory of size 64 that holds one file of 52 bytes and
  a file of 64 bytes with the same name and permissions have the same snapshot.\<close>

definition dir_tree :: "tree_entry list" where
  "dir_tree =
    [\<lparr>te_Path = ''d'', te_Perm = 493, te_Size = 64, te_Kind = Tree_Dir\<rparr>,
     \<lparr>te_Path = ''d/x'', te_Perm = 420, te_Size = 52, te_Kind = Tree_File (replicate 52 (CHR ''c''))\<rparr>]"

definition file_tree :: "tree_entry list" where
  "file_tree =
    [\<lparr>te_Path = ''d'', te_Perm = 493, te_Size = 64,
      te_Kind = Tree_File ([NUL] @ ''d/x'' @ [NUL] @ ''420'' @ [NUL] @ ''52'' @ [NUL] @ replicate 52 (CHR ''c''))\<rparr>]"

lemma snapshot_confuses_kinds:
  "tree_wf dir_tree \<and> tree_wf file_tree \<and> included dir_tree \<noteq> included file_tree
   \<and> snapshotTree sha Ctx_Live dir_tree = snapshotTree sha Ctx_Live file_tree"
proof -
  have "tree_bytes dir_tree = tree_bytes file_tree" by code_simp
  moreover have "tree_wf dir_tree \<and> tree_wf file_tree"
    by (auto simp: tree_wf_def dir_tree_def file_tree_def NUL_def)
  moreover have "included dir_tree \<noteq> included file_tree" by code_simp
  moreover have "\<not> list_ex is_symlink (included dir_tree) \<and> \<not> list_ex is_symlink (included file_tree)
      \<and> \<not> list_ex (\<lambda>e. \<not> is_regular e \<and> \<not> is_dir e) (included dir_tree)
      \<and> \<not> list_ex (\<lambda>e. \<not> is_regular e \<and> \<not> is_dir e) (included file_tree)" by code_simp
  ultimately show ?thesis by (simp add: snapshotTree_def ctx_err_def)
qed

end
