(* ===== verification/Workspace_Lease.thy ===== *)
theory Workspace_Lease
  imports Workspace_Tree
begin

section \<open>Generations, leases and fences (internal/workspace/workspace.go)\<close>

text \<open>
  \<open>Repository\<close> with its store of generations on disk. A JSON or counter file is a \<open>slot\<close>: it does
  not exist, does not parse (or has unknown fields or trailing data), or holds a value. A file is
  replaced by writing a temporary file, renaming it and syncing the directory, so a write either
  happens, fails before the rename, or happens and then reports the failed sync. Each method is one
  critical section; \<open>RefreshGeneration\<close>, \<open>AssertGeneration\<close>, \<open>ReserveRuntime\<close> and
  \<open>ReleaseRuntime\<close> are two, the first of which is \<open>AssertLease\<close>.
\<close>

subsection \<open>State\<close>

datatype ws_error = WS_ErrRejected | WS_ErrLeaseBusy | WS_ErrStaleFence | WS_ErrContext

record ws_generation =
  wg_ID :: string
  wg_Path :: string
  wg_RepositoryID :: string
  wg_SourceFilesystem :: string
  wg_CandidateSnapshot :: string
  wg_FencingGeneration :: nat
  wg_State :: string
  wg_CreatedAt :: instant

record ws_lease =
  le_GenerationID :: string
  le_Owner :: string
  le_FencingGeneration :: nat
  le_ExpiresAt :: instant

record runtime_owner =
  ro_Owner :: string
  ro_FencingGeneration :: nat
  ro_ReservedAt :: instant

text \<open>A directory of the workspace root: its three metadata files, whether its path is a real
  directory reached without symbolic links, and its content.\<close>

record gen_dir =
  gd_generation :: "ws_generation slot"
  gd_lease :: "ws_lease slot"
  gd_runtime :: "runtime_owner slot"
  gd_real :: bool
  gd_tree :: "tree_entry list"

record ws_repo =
  wr_root :: string
  wr_rootIdentity :: string
  wr_filesystemID :: string
  wr_workspaceRoot :: string
  wr_open :: bool
  wr_fence :: "nat slot"
  wr_dirs :: "string \<rightharpoonup> gen_dir"
  wr_quarantine :: "(string \<times> gen_dir) list"

definition activeState :: string where "activeState = ''ACTIVE''"
definition quarantinedState :: string where "quarantinedState = ''QUARANTINED''"
definition maxGenerationID :: nat where "maxGenerationID = 64"
definition max_uint64 :: nat where "max_uint64 = 18446744073709551615"

definition pathWithin :: "string \<Rightarrow> string \<Rightarrow> bool" where
  "pathWithin parent candidate \<longleftrightarrow> rel_inside (rel_from_abs parent candidate)"

definition validGenerationID :: "string \<Rightarrow> bool" where
  "validGenerationID i \<longleftrightarrow>
     length i \<le> maxGenerationID \<and> prefix ''gen_'' i \<and> \<not> contains_any i [slash, CHR 0x5C, NUL]"

definition validOwner :: "string \<Rightarrow> bool" where
  "validOwner w \<longleftrightarrow>
     w \<noteq> [] \<and> length w \<le> 256 \<and> \<not> contains_any w [slash, CHR 0x5C, NUL, CR, LF]"

definition newGenerationID :: "string option \<Rightarrow> string option" where
  "newGenerationID rnd = map_option (\<lambda>b. ''gen_'' @ hex_encode b) rnd"

definition upd_dir :: "string \<Rightarrow> (gen_dir \<Rightarrow> gen_dir) \<Rightarrow> ws_repo \<Rightarrow> ws_repo" where
  "upd_dir i f r =
     (case wr_dirs r i of None \<Rightarrow> r | Some d \<Rightarrow> r\<lparr>wr_dirs := (wr_dirs r)(i \<mapsto> f d)\<rparr>)"

definition lease_at :: "string \<Rightarrow> ws_repo \<Rightarrow> ws_lease slot" where
  "lease_at i r = (case wr_dirs r i of None \<Rightarrow> Slot_Absent | Some d \<Rightarrow> gd_lease d)"

definition runtime_at :: "string \<Rightarrow> ws_repo \<Rightarrow> runtime_owner slot" where
  "runtime_at i r = (case wr_dirs r i of None \<Rightarrow> Slot_Absent | Some d \<Rightarrow> gd_runtime d)"

subsection \<open>Loading a generation\<close>

definition loadGeneration :: "string \<Rightarrow> ws_repo \<Rightarrow> ws_error + ws_generation" where
  "loadGeneration i r =
    (if \<not> validGenerationID i then Inl WS_ErrRejected
     else (case wr_dirs r i of
             None \<Rightarrow> Inl WS_ErrRejected
           | Some d \<Rightarrow>
               (let path = join_path (wr_workspaceRoot r) i
                in case gd_generation d of
                     Slot_Has g \<Rightarrow>
                       if wg_ID g \<noteq> i \<or> wg_Path g \<noteq> path \<or> wg_RepositoryID g \<noteq> wr_rootIdentity r
                          \<or> wg_SourceFilesystem g \<noteq> wr_filesystemID r \<or> wg_State g \<noteq> activeState
                          \<or> wg_CandidateSnapshot g = []
                       then Inl WS_ErrRejected
                       else if \<not> gd_real d \<or> pathWithin (wr_root r) path then Inl WS_ErrRejected
                       else Inr g
                   | _ \<Rightarrow> Inl WS_ErrRejected)))"

definition LoadGeneration :: "go_ctx \<Rightarrow> string \<Rightarrow> ws_repo \<Rightarrow> ws_error + ws_generation" where
  "LoadGeneration ctx i r =
    (if ctx = Ctx_Nil \<or> \<not> wr_open r then Inl WS_ErrRejected else loadGeneration i r)"

definition CurrentLease :: "go_ctx \<Rightarrow> string \<Rightarrow> ws_repo \<Rightarrow> ws_error + ws_lease" where
  "CurrentLease ctx i r =
    (if ctx = Ctx_Nil \<or> \<not> wr_open r then Inl WS_ErrRejected
     else (case loadGeneration i r of
             Inl e \<Rightarrow> Inl e
           | Inr g \<Rightarrow>
               (case lease_at i r of
                  Slot_Has l \<Rightarrow>
                    if le_GenerationID l \<noteq> i \<or> \<not> validOwner (le_Owner l)
                       \<or> le_FencingGeneration l = 0 \<or> le_ExpiresAt l = zero_time
                    then Inl WS_ErrRejected else Inr l
                | _ \<Rightarrow> Inl WS_ErrRejected)))"

subsection \<open>Leases\<close>

definition nextFence :: "write_outcome \<Rightarrow> ws_repo \<Rightarrow> (ws_error + nat) \<times> ws_repo" where
  "nextFence w r =
    (let bump = (\<lambda>current.
           if current = max_uint64 then (Inl WS_ErrRejected, r)
           else (let r' = r\<lparr>wr_fence := write_slot w (current + 1) (wr_fence r)\<rparr>
                 in (if w = W_Done then Inr (current + 1) else Inl WS_ErrRejected, r')))
     in case wr_fence r of
          Slot_Has v \<Rightarrow> bump v
        | Slot_Absent \<Rightarrow> bump 0
        | Slot_Corrupt \<Rightarrow> (Inl WS_ErrRejected, r))"

definition AcquireLease ::
  "instant \<Rightarrow> write_outcome \<Rightarrow> write_outcome \<Rightarrow> go_ctx \<Rightarrow> string \<Rightarrow> string \<Rightarrow> duration \<Rightarrow> ws_repo
   \<Rightarrow> (ws_error + ws_lease) \<times> ws_repo" where
  "AcquireLease now w1 w2 ctx i owner ttl r =
    (if ctx = Ctx_Nil \<or> \<not> validOwner owner \<or> ttl \<le> 0 \<or> 24 * hour < ttl then (Inl WS_ErrRejected, r)
     else (case loadGeneration i r of
             Inl e \<Rightarrow> (Inl e, r)
           | Inr g \<Rightarrow>
               (case lease_at i r of
                  Slot_Has l \<Rightarrow>
                    if now < le_ExpiresAt l then (Inl WS_ErrLeaseBusy, r)
                    else (if w1 = W_Done then Inl WS_ErrStaleFence else Inl WS_ErrRejected,
                          upd_dir i (\<lambda>d. d\<lparr>gd_generation :=
                             write_slot w1 (g\<lparr>wg_State := quarantinedState\<rparr>) (gd_generation d)\<rparr>) r)
                | Slot_Corrupt \<Rightarrow> (Inl WS_ErrRejected, r)
                | Slot_Absent \<Rightarrow>
                    (case nextFence w1 r of
                       (Inl _, r') \<Rightarrow> (Inl WS_ErrRejected, r')
                     | (Inr fence, r') \<Rightarrow>
                         (let l = \<lparr>le_GenerationID = i, le_Owner = owner,
                                   le_FencingGeneration = fence, le_ExpiresAt = now + ttl\<rparr>
                          in (if w2 = W_Done then Inr l else Inl WS_ErrRejected,
                              upd_dir i (\<lambda>d. d\<lparr>gd_lease := write_slot w2 l (gd_lease d)\<rparr>) r'))))))"

definition RenewLease ::
  "instant \<Rightarrow> write_outcome \<Rightarrow> go_ctx \<Rightarrow> ws_lease \<Rightarrow> duration \<Rightarrow> ws_repo
   \<Rightarrow> (ws_error + ws_lease) \<times> ws_repo" where
  "RenewLease now w ctx l ttl r =
    (let i = le_GenerationID l
     in if ctx = Ctx_Nil \<or> \<not> validOwner (le_Owner l) \<or> \<not> validGenerationID i \<or> ttl \<le> 0 \<or> 24 * hour < ttl
        then (Inl WS_ErrRejected, r)
        else (case loadGeneration i r of
                Inl e \<Rightarrow> (Inl e, r)
              | Inr g \<Rightarrow>
                  if lease_at i r \<noteq> Slot_Has l \<or> \<not> now < le_ExpiresAt l then (Inl WS_ErrStaleFence, r)
                  else (let l' = l\<lparr>le_ExpiresAt := now + ttl\<rparr>
                        in (if w = W_Done then Inr l' else Inl WS_ErrRejected,
                            upd_dir i (\<lambda>d. d\<lparr>gd_lease := write_slot w l' (gd_lease d)\<rparr>) r))))"

text \<open>\<open>removed\<close> and \<open>synced\<close> are the outcomes of \<open>os.Remove\<close> and of the directory sync.\<close>

definition ReleaseLease ::
  "bool \<Rightarrow> bool \<Rightarrow> go_ctx \<Rightarrow> ws_lease \<Rightarrow> ws_repo \<Rightarrow> (ws_error + unit) \<times> ws_repo" where
  "ReleaseLease removed synced ctx l r =
    (let i = le_GenerationID l
     in if ctx = Ctx_Nil \<or> \<not> validOwner (le_Owner l) \<or> \<not> validGenerationID i then (Inl WS_ErrRejected, r)
        else (case loadGeneration i r of
                Inl e \<Rightarrow> (Inl e, r)
              | Inr g \<Rightarrow>
                  if lease_at i r \<noteq> Slot_Has l then (Inl WS_ErrStaleFence, r)
                  else if \<not> removed then (Inl WS_ErrRejected, r)
                  else (if synced then Inr () else Inl WS_ErrRejected,
                        upd_dir i (\<lambda>d. d\<lparr>gd_lease := Slot_Absent\<rparr>) r)))"

definition AssertLease :: "instant \<Rightarrow> go_ctx \<Rightarrow> ws_lease \<Rightarrow> ws_repo \<Rightarrow> ws_error option" where
  "AssertLease now ctx l r =
    (let i = le_GenerationID l
     in if ctx = Ctx_Nil \<or> \<not> validGenerationID i \<or> \<not> validOwner (le_Owner l) then Some WS_ErrRejected
        else (case loadGeneration i r of
                Inl e \<Rightarrow> Some e
              | Inr g \<Rightarrow>
                  if lease_at i r \<noteq> Slot_Has l then Some WS_ErrStaleFence
                  else if \<not> now < le_ExpiresAt l then Some WS_ErrStaleFence
                  else None))"

definition AssertGeneration :: "instant \<Rightarrow> go_ctx \<Rightarrow> ws_generation \<Rightarrow> ws_lease \<Rightarrow> ws_repo \<Rightarrow> ws_error option" where
  "AssertGeneration now ctx g l r =
    (case AssertLease now ctx l r of
       Some e \<Rightarrow> Some e
     | None \<Rightarrow>
         (case loadGeneration (wg_ID g) r of
            Inl e \<Rightarrow> Some WS_ErrStaleFence
          | Inr g' \<Rightarrow>
              if wg_Path g' \<noteq> wg_Path g \<or> wg_CandidateSnapshot g' \<noteq> wg_CandidateSnapshot g
                 \<or> le_GenerationID l \<noteq> wg_ID g
              then Some WS_ErrStaleFence else None))"

subsection \<open>Generations\<close>

definition DiscardGeneration ::
  "bool \<Rightarrow> bool \<Rightarrow> go_ctx \<Rightarrow> string \<Rightarrow> ws_repo \<Rightarrow> (ws_error + unit) \<times> ws_repo" where
  "DiscardGeneration removed synced ctx i r =
    (if ctx = Ctx_Nil \<or> \<not> validGenerationID i then (Inl WS_ErrRejected, r)
     else if \<not> wr_open r then (Inl WS_ErrRejected, r)
     else if pathWithin (wr_root r) (join_path (wr_workspaceRoot r) i) then (Inl WS_ErrRejected, r)
     else if lease_at i r \<noteq> Slot_Absent then (Inl WS_ErrLeaseBusy, r)
     else if \<not> removed then (Inl WS_ErrRejected, r)
     else (if synced then Inr () else Inl WS_ErrRejected, r\<lparr>wr_dirs := (wr_dirs r)(i := None)\<rparr>))"

text \<open>The second critical section of \<open>RefreshGeneration\<close>; the first is \<open>AssertLease\<close>.\<close>

definition refresh_locked ::
  "(string \<Rightarrow> string) \<Rightarrow> write_outcome \<Rightarrow> go_ctx \<Rightarrow> ws_generation \<Rightarrow> ws_lease \<Rightarrow> ws_repo
   \<Rightarrow> (ws_error + ws_generation) \<times> ws_repo" where
  "refresh_locked sha w ctx g l r =
    (if ctx = Ctx_Nil \<or> \<not> wr_open r then (Inl WS_ErrRejected, r)
     else (case (loadGeneration (wg_ID g) r, wr_dirs r (wg_ID g)) of
             (Inr loaded, Some d) \<Rightarrow>
               if wg_Path loaded \<noteq> wg_Path g \<or> wg_RepositoryID loaded \<noteq> wr_rootIdentity r
                  \<or> wg_SourceFilesystem loaded \<noteq> wr_filesystemID r \<or> le_GenerationID l \<noteq> wg_ID g
               then (Inl WS_ErrStaleFence, r)
               else (case snapshotTree sha ctx (gd_tree d) of
                       None \<Rightarrow> (Inl WS_ErrRejected, r)
                     | Some snapshot \<Rightarrow>
                         if snapshot = [] then (Inl WS_ErrRejected, r)
                         else (let g' = loaded\<lparr>wg_CandidateSnapshot := snapshot\<rparr>
                               in (if w = W_Done then Inr g' else Inl WS_ErrRejected,
                                   upd_dir (wg_ID g) (\<lambda>d. d\<lparr>gd_generation :=
                                      write_slot w g' (gd_generation d)\<rparr>) r)))
           | _ \<Rightarrow> (Inl WS_ErrStaleFence, r)))"

definition RefreshGeneration ::
  "(string \<Rightarrow> string) \<Rightarrow> instant \<Rightarrow> write_outcome \<Rightarrow> go_ctx \<Rightarrow> ws_generation \<Rightarrow> ws_lease \<Rightarrow> ws_repo
   \<Rightarrow> (ws_error + ws_generation) \<times> ws_repo" where
  "RefreshGeneration sha now w ctx g l r =
    (case AssertLease now ctx l r of
       Some e \<Rightarrow> (Inl e, r)
     | None \<Rightarrow> refresh_locked sha w ctx g l r)"

definition reserve_locked ::
  "instant \<Rightarrow> write_outcome \<Rightarrow> ws_lease \<Rightarrow> string \<Rightarrow> ws_repo \<Rightarrow> (ws_error + unit) \<times> ws_repo" where
  "reserve_locked now w l owner r =
    (let i = le_GenerationID l
     in case loadGeneration i r of
          Inl e \<Rightarrow> (Inl e, r)
        | Inr g \<Rightarrow>
            (case runtime_at i r of
               Slot_Has _ \<Rightarrow> (Inl WS_ErrLeaseBusy, r)
             | Slot_Corrupt \<Rightarrow> (Inl WS_ErrRejected, r)
             | Slot_Absent \<Rightarrow>
                 (let ro = \<lparr>ro_Owner = owner, ro_FencingGeneration = le_FencingGeneration l,
                            ro_ReservedAt = now\<rparr>
                  in (if w = W_Done then Inr () else Inl WS_ErrRejected,
                      upd_dir i (\<lambda>d. d\<lparr>gd_runtime := write_slot w ro (gd_runtime d)\<rparr>) r))))"

definition ReserveRuntime ::
  "instant \<Rightarrow> write_outcome \<Rightarrow> go_ctx \<Rightarrow> ws_lease \<Rightarrow> string \<Rightarrow> ws_repo \<Rightarrow> (ws_error + unit) \<times> ws_repo" where
  "ReserveRuntime now w ctx l owner r =
    (case AssertLease now ctx l r of
       Some e \<Rightarrow> (Inl e, r)
     | None \<Rightarrow> if \<not> validOwner owner then (Inl WS_ErrRejected, r) else reserve_locked now w l owner r)"

definition release_runtime_locked ::
  "bool \<Rightarrow> bool \<Rightarrow> ws_lease \<Rightarrow> string \<Rightarrow> ws_repo \<Rightarrow> (ws_error + unit) \<times> ws_repo" where
  "release_runtime_locked removed synced l owner r =
    (let i = le_GenerationID l
     in case loadGeneration i r of
          Inl e \<Rightarrow> (Inl e, r)
        | Inr g \<Rightarrow>
            (case runtime_at i r of
               Slot_Has ro \<Rightarrow>
                 if ro_Owner ro \<noteq> owner \<or> ro_FencingGeneration ro \<noteq> le_FencingGeneration l
                 then (Inl WS_ErrStaleFence, r)
                 else if \<not> removed then (Inl WS_ErrRejected, r)
                 else (if synced then Inr () else Inl WS_ErrRejected,
                       upd_dir i (\<lambda>d. d\<lparr>gd_runtime := Slot_Absent\<rparr>) r)
             | _ \<Rightarrow> (Inl WS_ErrStaleFence, r)))"

definition ReleaseRuntime ::
  "instant \<Rightarrow> bool \<Rightarrow> bool \<Rightarrow> go_ctx \<Rightarrow> ws_lease \<Rightarrow> string \<Rightarrow> ws_repo \<Rightarrow> (ws_error + unit) \<times> ws_repo" where
  "ReleaseRuntime now removed synced ctx l owner r =
    (case AssertLease now ctx l r of
       Some e \<Rightarrow> (Inl e, r)
     | None \<Rightarrow> if \<not> validOwner owner then (Inl WS_ErrRejected, r)
               else release_runtime_locked removed synced l owner r)"

text \<open>\<open>Materialize\<close> reads the live tree before (\<open>before\<close>) and after (\<open>after\<close>) copying it; the
  source identity is checked before each reading (\<open>same1\<close>, \<open>same2\<close>). \<open>ok\<close> is whether the other
  file operations up to the rename succeed (creating the temporary directory, git, sync, rename),
  \<open>synced\<close> the last directory sync.\<close>

definition Materialize ::
  "(string \<Rightarrow> string) \<Rightarrow> instant \<Rightarrow> string option \<Rightarrow> bool \<Rightarrow> bool \<Rightarrow> tree_entry list \<Rightarrow> tree_entry list
   \<Rightarrow> (tree_entry \<Rightarrow> nat) \<Rightarrow> bool \<Rightarrow> write_outcome \<Rightarrow> bool \<Rightarrow> go_ctx \<Rightarrow> ws_repo
   \<Rightarrow> (ws_error + ws_generation) \<times> ws_repo" where
  "Materialize sha now rnd same1 same2 before after size_of ok w synced ctx r =
    (if ctx = Ctx_Nil \<or> wr_root r = [] then (Inl WS_ErrRejected, r)
     else if \<not> wr_open r \<or> \<not> same1 then (Inl WS_ErrRejected, r)
     else (case (snapshotTree sha ctx before, newGenerationID rnd, copyTree ctx size_of before,
                 snapshotTree sha ctx after) of
             (Some b, Some i, Some copied, Some a) \<Rightarrow>
               if \<not> ok \<or> \<not> same2 \<or> b \<noteq> a \<or> wr_dirs r i \<noteq> None then (Inl WS_ErrRejected, r)
               else (let g = \<lparr>wg_ID = i, wg_Path = join_path (wr_workspaceRoot r) i,
                              wg_RepositoryID = wr_rootIdentity r,
                              wg_SourceFilesystem = wr_filesystemID r, wg_CandidateSnapshot = b,
                              wg_FencingGeneration = 0, wg_State = activeState, wg_CreatedAt = now\<rparr>;
                         d = \<lparr>gd_generation = write_slot w g Slot_Absent, gd_lease = Slot_Absent,
                              gd_runtime = Slot_Absent, gd_real = True, gd_tree = copied\<rparr>
                     in (if w = W_Done \<and> synced then Inr g else Inl WS_ErrRejected,
                         r\<lparr>wr_dirs := (wr_dirs r)(i \<mapsto> d)\<rparr>))
           | _ \<Rightarrow> (Inl WS_ErrRejected, r)))"

subsection \<open>Recovery\<close>

definition quarantineGeneration :: "string \<Rightarrow> ws_repo \<Rightarrow> ws_repo" where
  "quarantineGeneration i r =
     (case wr_dirs r i of
        None \<Rightarrow> r
      | Some d \<Rightarrow> r\<lparr>wr_dirs := (wr_dirs r)(i := None), wr_quarantine := wr_quarantine r @ [(i, d)]\<rparr>)"

definition lease_recoverable :: "string \<Rightarrow> ws_lease \<Rightarrow> bool" where
  "lease_recoverable i l \<longleftrightarrow>
     le_GenerationID l = i \<and> validOwner (le_Owner l) \<and> le_FencingGeneration l \<noteq> 0
     \<and> le_ExpiresAt l \<noteq> zero_time"

text \<open>One directory entry of the loop in \<open>Recover\<close>. \<open>io\<close> is whether the file operations on this
  entry succeed: the rename into quarantine, or the removals and the sync (which are idempotent, so
  a failure in between leaves work that the next call of \<open>Recover\<close> finishes).\<close>

definition recover_entry :: "bool \<Rightarrow> string \<Rightarrow> ws_repo \<Rightarrow> (ws_error + unit) \<times> ws_repo" where
  "recover_entry io i r =
    (let quarantine = (if io then (Inr (), quarantineGeneration i r) else (Inl WS_ErrRejected, r))
     in if prefix ''.tmp-'' i then quarantine
        else if \<not> prefix ''gen_'' i then (Inr (), r)
        else (case loadGeneration i r of
                Inl _ \<Rightarrow> quarantine
              | Inr g \<Rightarrow>
                  (let clear = (if io then (Inr (), upd_dir i (\<lambda>d. d\<lparr>gd_lease := Slot_Absent,
                                                                  gd_runtime := Slot_Absent\<rparr>) r)
                                else (Inl WS_ErrRejected, r))
                   in case lease_at i r of
                        Slot_Has l \<Rightarrow> if lease_recoverable i l then clear else quarantine
                      | Slot_Absent \<Rightarrow> clear
                      | Slot_Corrupt \<Rightarrow> quarantine)))"

fun recover_entries :: "(string \<Rightarrow> bool) \<Rightarrow> go_ctx \<Rightarrow> string list \<Rightarrow> ws_repo \<Rightarrow> (ws_error + unit) \<times> ws_repo" where
  "recover_entries io ctx [] r = (Inr (), r)"
| "recover_entries io ctx (i # is) r =
    (if ctx_err ctx then (Inl WS_ErrContext, r)
     else (case recover_entry (io i) i r of
             (Inl e, r') \<Rightarrow> (Inl e, r')
           | (Inr _, r') \<Rightarrow> recover_entries io ctx is r'))"

definition Recover :: "(string \<Rightarrow> bool) \<Rightarrow> bool \<Rightarrow> go_ctx \<Rightarrow> string list \<Rightarrow> ws_repo \<Rightarrow> (ws_error + unit) \<times> ws_repo" where
  "Recover io synced ctx entries r =
    (if ctx = Ctx_Nil \<or> \<not> wr_open r then (Inl WS_ErrRejected, r)
     else (case recover_entries io ctx entries r of
             (Inl e, r') \<Rightarrow> (Inl e, r')
           | (Inr _, r') \<Rightarrow> (if synced then Inr () else Inl WS_ErrRejected, r')))"

definition Close :: "ws_repo \<Rightarrow> ws_repo" where "Close r = r\<lparr>wr_open := False\<rparr>"

subsection \<open>Sequences of operations\<close>

text \<open>Every critical section that changes the store, so that any interleaving of the methods is a
  list of operations.\<close>

datatype ws_op =
    Op_Acquire instant write_outcome write_outcome go_ctx string string duration
  | Op_Renew instant write_outcome go_ctx ws_lease duration
  | Op_Release bool bool go_ctx ws_lease
  | Op_Discard bool bool go_ctx string
  | Op_Refresh "string \<Rightarrow> string" write_outcome go_ctx ws_generation ws_lease
  | Op_Reserve instant write_outcome ws_lease string
  | Op_ReleaseRuntime bool bool ws_lease string
  | Op_Materialize "string \<Rightarrow> string" instant "string option" bool bool "tree_entry list" "tree_entry list"
      "tree_entry \<Rightarrow> nat" bool write_outcome bool go_ctx
  | Op_Recover "string \<Rightarrow> bool" bool go_ctx "string list"

fun ws_step :: "ws_op \<Rightarrow> ws_repo \<Rightarrow> ws_repo" where
  "ws_step (Op_Acquire now w1 w2 ctx i owner ttl) r = snd (AcquireLease now w1 w2 ctx i owner ttl r)"
| "ws_step (Op_Renew now w ctx l ttl) r = snd (RenewLease now w ctx l ttl r)"
| "ws_step (Op_Release rm sy ctx l) r = snd (ReleaseLease rm sy ctx l r)"
| "ws_step (Op_Discard rm sy ctx i) r = snd (DiscardGeneration rm sy ctx i r)"
| "ws_step (Op_Refresh sha w ctx g l) r = snd (refresh_locked sha w ctx g l r)"
| "ws_step (Op_Reserve now w l owner) r = snd (reserve_locked now w l owner r)"
| "ws_step (Op_ReleaseRuntime rm sy l owner) r = snd (release_runtime_locked rm sy l owner r)"
| "ws_step (Op_Materialize sha now rnd s1 s2 b a sz ok w sy ctx) r
     = snd (Materialize sha now rnd s1 s2 b a sz ok w sy ctx r)"
| "ws_step (Op_Recover io sy ctx es) r = snd (Recover io sy ctx es r)"

definition ws_run :: "ws_op list \<Rightarrow> ws_repo \<Rightarrow> ws_repo" where
  "ws_run ops r = foldl (\<lambda>r op. ws_step op r) r ops"

lemma ws_run_simps [simp]: "ws_run [] r = r" "ws_run (op # ops) r = ws_run ops (ws_step op r)"
  by (simp_all add: ws_run_def)

fun ws_grants :: "ws_op \<Rightarrow> ws_repo \<Rightarrow> nat list" where
  "ws_grants (Op_Acquire now w1 w2 ctx i owner ttl) r =
     (case fst (AcquireLease now w1 w2 ctx i owner ttl r) of Inr l \<Rightarrow> [le_FencingGeneration l] | Inl _ \<Rightarrow> [])"
| "ws_grants _ r = []"

definition fence_level :: "ws_repo \<Rightarrow> nat" where
  "fence_level r = (case wr_fence r of Slot_Has v \<Rightarrow> v | _ \<Rightarrow> 0)"

text \<open>The interface of a store that hands out fencing numbers: a step may grant one number, above
  every number granted before, and never lowers the level.\<close>

locale fenced_store =
  fixes step :: "'op \<Rightarrow> 's \<Rightarrow> 's"
    and grants :: "'op \<Rightarrow> 's \<Rightarrow> nat list"
    and level :: "'s \<Rightarrow> nat"
  assumes grants_above: "x \<in> set (grants op s) \<Longrightarrow> level s < x \<and> x \<le> level (step op s)"
    and grants_one: "length (grants op s) \<le> 1"
    and level_mono: "level s \<le> level (step op s)"
begin

primrec all_grants :: "'op list \<Rightarrow> 's \<Rightarrow> nat list" where
  "all_grants [] s = []"
| "all_grants (op # ops) s = grants op s @ all_grants ops (step op s)"

lemma all_grants_above: "x \<in> set (all_grants ops s) \<Longrightarrow> level s < x"
proof (induction ops arbitrary: s)
  case (Cons op ops)
  then show ?case
    using grants_above [of x op s] level_mono [of s op] by (auto dest: le_less_trans)
qed simp

lemma grants_increasing: "sorted_wrt (<) (all_grants ops s)"
proof (induction ops arbitrary: s)
  case (Cons op ops)
  have "sorted_wrt (<) (grants op s)"
    using grants_one [of op s] by (cases "grants op s" rule: remdups_adj.cases) auto
  moreover have "x < y" if "x \<in> set (grants op s)" "y \<in> set (all_grants ops (step op s))" for x y
    using grants_above [OF that(1)] all_grants_above [OF that(2)] by simp
  ultimately show ?case using Cons.IH by (simp add: sorted_wrt_append)
qed simp

end

lemma upd_dir_fence [simp]: "wr_fence (upd_dir i f r) = wr_fence r"
  by (simp add: upd_dir_def split: option.split)

lemma quarantine_fence [simp]: "wr_fence (quarantineGeneration i r) = wr_fence r"
  by (simp add: quarantineGeneration_def split: option.split)

lemma nextFence_level:
  assumes "nextFence w r = (res, r')"
  shows "fence_level r \<le> fence_level r' \<and> wr_dirs r' = wr_dirs r \<and> wr_root r' = wr_root r
    \<and> wr_workspaceRoot r' = wr_workspaceRoot r \<and> wr_rootIdentity r' = wr_rootIdentity r
    \<and> wr_filesystemID r' = wr_filesystemID r \<and> wr_open r' = wr_open r
    \<and> (\<forall>v. res = Inr v \<longrightarrow> fence_level r < v \<and> v = fence_level r')"
  using assms
  by (cases w) (auto simp: nextFence_def fence_level_def write_slot_def Let_def split: slot.splits if_splits)

lemma recover_entry_fence: "wr_fence (snd (recover_entry io i r)) = wr_fence r"
  by (auto simp: recover_entry_def Let_def split: sum.splits slot.splits)

lemma recover_entries_fence: "wr_fence (snd (recover_entries io ctx is r)) = wr_fence r"
proof (induction "is" arbitrary: r)
  case (Cons i "is")
  then show ?case
    using recover_entry_fence [of "io i" i r] by (auto split: prod.splits sum.splits)
qed simp

lemma acquire_cases:
  "snd (AcquireLease now w1 w2 ctx i owner ttl r) = r \<and> (\<exists>e. fst (AcquireLease now w1 w2 ctx i owner ttl r) = Inl e)
   \<or> (\<exists>g. loadGeneration i r = Inr g \<and> (\<exists>l. lease_at i r = Slot_Has l \<and> le_ExpiresAt l \<le> now)
        \<and> (\<exists>e. fst (AcquireLease now w1 w2 ctx i owner ttl r) = Inl e)
        \<and> snd (AcquireLease now w1 w2 ctx i owner ttl r) = upd_dir i (\<lambda>d. d\<lparr>gd_generation :=
             write_slot w1 (g\<lparr>wg_State := quarantinedState\<rparr>) (gd_generation d)\<rparr>) r)
   \<or> (lease_at i r = Slot_Absent \<and> (\<exists>g. loadGeneration i r = Inr g)
      \<and> (\<exists>e. fst (AcquireLease now w1 w2 ctx i owner ttl r) = Inl e)
      \<and> snd (AcquireLease now w1 w2 ctx i owner ttl r) = snd (nextFence w1 r))
   \<or> (\<exists>fence l. lease_at i r = Slot_Absent \<and> (\<exists>g. loadGeneration i r = Inr g)
      \<and> fst (nextFence w1 r) = Inr fence
      \<and> l = \<lparr>le_GenerationID = i, le_Owner = owner, le_FencingGeneration = fence, le_ExpiresAt = now + ttl\<rparr>
      \<and> fst (AcquireLease now w1 w2 ctx i owner ttl r) = (if w2 = W_Done then Inr l else Inl WS_ErrRejected)
      \<and> snd (AcquireLease now w1 w2 ctx i owner ttl r)
          = upd_dir i (\<lambda>d. d\<lparr>gd_lease := write_slot w2 l (gd_lease d)\<rparr>) (snd (nextFence w1 r)))"
  (is "?A \<or> ?B \<or> ?C \<or> ?D")
proof (cases "ctx = Ctx_Nil \<or> \<not> validOwner owner \<or> ttl \<le> 0 \<or> 24 * hour < ttl")
  case True
  then have ?A by (simp add: AcquireLease_def)
  then show ?thesis by blast
next
  case ok: False
  show ?thesis
  proof (cases "loadGeneration i r")
    case (Inl e)
    then have ?A using ok by (simp add: AcquireLease_def)
    then show ?thesis by blast
  next
    case (Inr g)
    show ?thesis
    proof (cases "lease_at i r")
      case Slot_Absent
      obtain res r' where n: "nextFence w1 r = (res, r')" by fastforce
      show ?thesis
      proof (cases res)
        case (Inl e)
        then have ?C using ok Inr Slot_Absent n by (simp add: AcquireLease_def)
        then show ?thesis by blast
      next
        case res: (Inr fence)
        then have ?D using ok Inr Slot_Absent n by (simp add: AcquireLease_def Let_def)
        then show ?thesis by blast
      qed
    next
      case Slot_Corrupt
      then have ?A using ok Inr by (simp add: AcquireLease_def)
      then show ?thesis by blast
    next
      case (Slot_Has l)
      then have "?A \<or> ?B" using ok Inr by (simp add: AcquireLease_def not_less)
      then show ?thesis by blast
    qed
  qed
qed

lemma acquire_level:
  "fence_level r \<le> fence_level (snd (AcquireLease now w1 w2 ctx i owner ttl r))
   \<and> (\<forall>l. fst (AcquireLease now w1 w2 ctx i owner ttl r) = Inr l
        \<longrightarrow> fence_level r < le_FencingGeneration l
          \<and> le_FencingGeneration l = fence_level (snd (AcquireLease now w1 w2 ctx i owner ttl r)))"
proof -
  obtain res r' where n: "nextFence w1 r = (res, r')" by fastforce
  have u: "fence_level (upd_dir i f s) = fence_level s" for f s by (simp add: fence_level_def)
  show ?thesis
    using acquire_cases [of now w1 w2 ctx i owner ttl r] nextFence_level [OF n]
    by (elim disjE exE conjE) (auto simp: n u split: if_splits)
qed

fun is_acquire :: "ws_op \<Rightarrow> bool" where
  "is_acquire (Op_Acquire now w1 w2 ctx i owner ttl) = True"
| "is_acquire _ = False"

lemma is_acquireE:
  assumes "is_acquire op"
  obtains now w1 w2 ctx i owner ttl where "op = Op_Acquire now w1 w2 ctx i owner ttl"
  using assms by (cases op) auto

lemma ws_grantsD:
  assumes "x \<in> set (ws_grants op r)"
  obtains now w1 w2 ctx i owner ttl l where "op = Op_Acquire now w1 w2 ctx i owner ttl"
    "fst (AcquireLease now w1 w2 ctx i owner ttl r) = Inr l" "x = le_FencingGeneration l"
proof (cases op)
  case (Op_Acquire now w1 w2 ctx i owner ttl)
  then show thesis
    using assms that by (cases "fst (AcquireLease now w1 w2 ctx i owner ttl r)") auto
qed (use assms in auto)

lemma other_fence:
  assumes "\<not> is_acquire op"
  shows "wr_fence (ws_step op r) = wr_fence r"
  using assms
proof (cases op)
  case (Op_Recover io sy ctx es)
  then show ?thesis
    using recover_entries_fence [of io ctx es r]
    by (auto simp: Recover_def split: prod.splits sum.splits)
qed (auto simp: RenewLease_def ReleaseLease_def DiscardGeneration_def refresh_locked_def reserve_locked_def
    release_runtime_locked_def Materialize_def Let_def split: sum.splits slot.splits option.splits if_splits)

interpretation workspace_fences: fenced_store ws_step ws_grants fence_level
proof
  fix op r x
  show "fence_level r < x \<and> x \<le> fence_level (ws_step op r)" if "x \<in> set (ws_grants op r)"
  proof -
    from that obtain now w1 w2 ctx i owner ttl l where
      op: "op = Op_Acquire now w1 w2 ctx i owner ttl"
      and l: "fst (AcquireLease now w1 w2 ctx i owner ttl r) = Inr l" "x = le_FencingGeneration l"
      by (rule ws_grantsD)
    have "fence_level r < le_FencingGeneration l
        \<and> le_FencingGeneration l = fence_level (snd (AcquireLease now w1 w2 ctx i owner ttl r))"
      using acquire_level l(1) by blast
    then show ?thesis using op l(2) by simp
  qed
  show "length (ws_grants op r) \<le> 1" by (cases op) (auto split: sum.splits)
  show "fence_level r \<le> fence_level (ws_step op r)"
  proof (cases "is_acquire op")
    case True
    then show ?thesis using acquire_level by (auto elim!: is_acquireE)
  next
    case False
    then show ?thesis using other_fence [of op r] by (simp add: fence_level_def)
  qed
qed

subsection \<open>Fences increase\<close>

primrec ws_fences :: "ws_op list \<Rightarrow> ws_repo \<Rightarrow> nat list" where
  "ws_fences [] r = []"
| "ws_fences (op # ops) r = ws_grants op r @ ws_fences ops (ws_step op r)"

lemma ws_fences_all: "ws_fences ops r = workspace_fences.all_grants ops r"
  by (induction ops arbitrary: r) auto

text \<open>Fencing numbers strictly increase: over every sequence of operations on a repository,
  with any file write failing before or after its rename, the fences of the granted leases are
  strictly increasing, so no two leases ever share one.\<close>

theorem lease_fences_increase:
  shows "sorted_wrt (<) (ws_fences ops r)"
  unfolding ws_fences_all by (rule workspace_fences.grants_increasing)

subsection \<open>The lease file through a step\<close>

lemma lease_at_upd: "lease_at i (upd_dir k f r)
    = (case wr_dirs r i of None \<Rightarrow> Slot_Absent | Some d \<Rightarrow> gd_lease (if i = k then f d else d))"
  by (auto simp: lease_at_def upd_dir_def split: option.splits)

lemma lease_at_quarantine: "lease_at i (quarantineGeneration k r) = (if i = k then Slot_Absent else lease_at i r)"
  by (auto simp: lease_at_def quarantineGeneration_def split: option.splits)

lemma recover_entry_lease:
  "lease_at i (snd (recover_entry io k r)) = lease_at i r \<or> lease_at i (snd (recover_entry io k r)) = Slot_Absent"
  unfolding recover_entry_def Let_def
  by (auto simp: lease_at_quarantine lease_at_upd split: sum.split slot.split)
     (auto simp: lease_at_def split: option.splits)

lemma recover_entries_lease:
  "lease_at i (snd (recover_entries io ctx ks r)) = lease_at i r
   \<or> lease_at i (snd (recover_entries io ctx ks r)) = Slot_Absent"
proof (induction ks arbitrary: r)
  case (Cons k ks)
  obtain res r' where e: "recover_entry (io k) k r = (res, r')" by fastforce
  have "lease_at i r' = lease_at i r \<or> lease_at i r' = Slot_Absent"
    using recover_entry_lease [of i "io k" k r] e by simp
  then show ?case using Cons.IH [of r'] e by (cases res) auto
qed simp

lemma upd_generation_lease: "lease_at i (upd_dir k (\<lambda>d. d\<lparr>gd_generation := f d\<rparr>) r) = lease_at i r"
  unfolding lease_at_upd by (simp add: lease_at_def split: option.split)

lemma upd_runtime_lease: "lease_at i (upd_dir k (\<lambda>d. d\<lparr>gd_runtime := f d\<rparr>) r) = lease_at i r"
  unfolding lease_at_upd by (simp add: lease_at_def split: option.split)

lemma upd_write_lease:
  "lease_at i (upd_dir k (\<lambda>d. d\<lparr>gd_lease := write_slot w l (gd_lease d)\<rparr>) r)
     = (if i = k \<and> wr_dirs r i \<noteq> None \<and> w \<noteq> W_Failed then Slot_Has l else lease_at i r)"
  unfolding lease_at_upd by (cases w) (auto simp: lease_at_def write_slot_def split: option.split)

lemma acquire_lease_at:
  assumes "lease_at i (snd (AcquireLease now w1 w2 ctx k owner ttl r)) = Slot_Has l'"
  shows "lease_at i r = Slot_Has l' \<or> fence_level r < le_FencingGeneration l'"
proof -
  obtain res r' where n: "nextFence w1 r = (res, r')" by fastforce
  note nf = nextFence_level [OF n]
  have dirs: "lease_at i r' = lease_at i r" using nf by (simp add: lease_at_def)
  from acquire_cases [of now w1 w2 ctx k owner ttl r] show ?thesis
  proof (elim disjE exE conjE)
    fix fence l
    assume "fst (nextFence w1 r) = Inr fence"
      and l: "l = \<lparr>le_GenerationID = k, le_Owner = owner, le_FencingGeneration = fence, le_ExpiresAt = now + ttl\<rparr>"
      and eq: "snd (AcquireLease now w1 w2 ctx k owner ttl r)
          = upd_dir k (\<lambda>d. d\<lparr>gd_lease := write_slot w2 l (gd_lease d)\<rparr>) (snd (nextFence w1 r))"
    then have "fence_level r < fence" using nf n by simp
    moreover have "lease_at i r = Slot_Has l' \<or> l' = l"
      using assms dirs by (auto simp: eq n upd_write_lease split: if_splits)
    ultimately show ?thesis using l by auto
  qed (use assms dirs n in \<open>simp_all add: upd_generation_lease\<close>)
qed

text \<open>A lease file holds what it held, or a renewal with the same fence, or a new fence.\<close>

lemma lease_step:
  assumes "lease_at i (ws_step op r) = Slot_Has l'"
  shows "(\<exists>l. lease_at i r = Slot_Has l \<and> le_FencingGeneration l = le_FencingGeneration l')
    \<or> (is_acquire op \<and> fence_level r < le_FencingGeneration l')"
proof (cases op)
  case (Op_Acquire now w1 w2 ctx k owner ttl)
  then show ?thesis using assms acquire_lease_at [of i now w1 w2 ctx k owner ttl r l'] by auto
next
  case (Op_Renew now w ctx l ttl)
  then show ?thesis
    using assms
    by (auto simp: RenewLease_def upd_write_lease Let_def split: sum.splits if_splits)
next
  case (Op_Recover io sy ctx es)
  then show ?thesis
    using assms recover_entries_lease [of i io ctx es r]
    by (cases "lease_at i r") (auto simp: Recover_def split: prod.splits sum.splits if_splits)
next
  case (Op_Discard rm sy ctx k)
  then show ?thesis
    using assms by (auto simp: DiscardGeneration_def lease_at_def split: if_splits)
next
  case (Op_Materialize sha now rnd s1 s2 b a sz ok w sy ctx)
  then show ?thesis
    using assms
    by (auto simp: Materialize_def lease_at_def Let_def split: option.splits if_splits)
next
  case (Op_Release rm sy ctx l)
  then show ?thesis
    using assms
    by (auto simp: ReleaseLease_def lease_at_upd Let_def split: sum.splits if_splits option.splits)
       (auto simp: lease_at_def)
next
  case (Op_Refresh sha w ctx g l)
  then show ?thesis
    using assms
    by (auto simp: refresh_locked_def upd_generation_lease Let_def split: sum.splits if_splits option.splits)
next
  case (Op_Reserve now w l owner)
  then show ?thesis
    using assms
    by (auto simp: reserve_locked_def upd_runtime_lease Let_def split: sum.splits slot.splits)
next
  case (Op_ReleaseRuntime rm sy l owner)
  then show ?thesis
    using assms
    by (auto simp: release_runtime_locked_def upd_runtime_lease Let_def split: sum.splits slot.splits if_splits)
qed

lemma acquire_ok:
  assumes "AcquireLease now w1 w2 ctx i owner ttl r = (Inr l, r')"
  shows "lease_at i r = Slot_Absent \<and> le_GenerationID l = i \<and> le_Owner l = owner
    \<and> le_ExpiresAt l = now + ttl \<and> fence_level r < le_FencingGeneration l
    \<and> le_FencingGeneration l = fence_level r' \<and> lease_at i r' = Slot_Has l"
proof -
  have lv: "fence_level r < le_FencingGeneration l" "le_FencingGeneration l = fence_level r'"
    using acquire_level [of r now w1 w2 ctx i owner ttl] assms by auto
  obtain res r1 where n: "nextFence w1 r = (res, r1)" by fastforce
  have dirs: "wr_dirs r1 = wr_dirs r" using nextFence_level [OF n] by simp
  from acquire_cases [of now w1 w2 ctx i owner ttl r] show ?thesis
  proof (elim disjE exE conjE)
    fix fence k g
    assume abs: "lease_at i r = Slot_Absent" and g: "loadGeneration i r = Inr g"
      and k: "k = \<lparr>le_GenerationID = i, le_Owner = owner, le_FencingGeneration = fence, le_ExpiresAt = now + ttl\<rparr>"
      and f: "fst (AcquireLease now w1 w2 ctx i owner ttl r) = (if w2 = W_Done then Inr k else Inl WS_ErrRejected)"
      and s: "snd (AcquireLease now w1 w2 ctx i owner ttl r)
          = upd_dir i (\<lambda>d. d\<lparr>gd_lease := write_slot w2 k (gd_lease d)\<rparr>) (snd (nextFence w1 r))"
    have "w2 = W_Done" "l = k" using f assms by (auto split: if_splits)
    moreover have "wr_dirs r i \<noteq> None" using g by (auto simp: loadGeneration_def split: if_splits option.splits)
    ultimately have "lease_at i r' = Slot_Has l"
      using s assms n dirs by (simp add: upd_write_lease)
    then show ?thesis using abs lv k \<open>l = k\<close> by simp
  qed (use assms in auto)
qed

lemma level_run: "fence_level r \<le> fence_level (ws_run ops r)"
proof (induction ops arbitrary: r)
  case (Cons op ops)
  then show ?case using workspace_fences.level_mono [of r op] by (auto intro: le_trans)
qed simp

lemma superseded_run:
  assumes "F \<le> fence_level r" and "\<And>l. lease_at i r = Slot_Has l \<Longrightarrow> le_FencingGeneration l \<noteq> F"
    and "lease_at i (ws_run ops r) = Slot_Has l'"
  shows "le_FencingGeneration l' \<noteq> F"
  using assms
proof (induction ops arbitrary: r)
  case (Cons op ops)
  show ?case
  proof (rule Cons.IH)
    show "F \<le> fence_level (ws_step op r)"
      using Cons.prems(1) workspace_fences.level_mono [of r op] by simp
    show "le_FencingGeneration l \<noteq> F" if "lease_at i (ws_step op r) = Slot_Has l" for l
      using lease_step [OF that] Cons.prems(1,2) by auto
    show "lease_at i (ws_run ops (ws_step op r)) = Slot_Has l'" using Cons.prems(3) by simp
  qed
qed simp

text \<open>A superseded lease is dead: once a second lease has been granted on the generation, the
  first one never passes \<open>AssertLease\<close> again, whatever happens before, between and after, so an
  owner that was paused across the change of ownership cannot mutate.\<close>

theorem superseded_lease_rejected:
  assumes "AcquireLease t1 w1 w2 c1 i o1 ttl1 r0 = (Inr l1, r1)"
    and "AcquireLease t2 w3 w4 c2 i o2 ttl2 (ws_run ops1 r1) = (Inr l2, r2)"
  shows "AssertLease now ctx l1 (ws_run ops2 r2) \<noteq> None"
proof
  assume ok: "AssertLease now ctx l1 (ws_run ops2 r2) = None"
  have a1: "le_GenerationID l1 = i" "le_FencingGeneration l1 = fence_level r1"
    using acquire_ok [OF assms(1)] by auto
  have a2: "lease_at i r2 = Slot_Has l2" "fence_level (ws_run ops1 r1) < le_FencingGeneration l2"
    "le_FencingGeneration l2 = fence_level r2"
    using acquire_ok [OF assms(2)] by auto
  have lt: "le_FencingGeneration l1 < le_FencingGeneration l2"
    using a1(2) a2(2) level_run [of r1 ops1] by simp
  have "lease_at i (ws_run ops2 r2) = Slot_Has l1"
    using ok a1(1) by (auto simp: AssertLease_def Let_def split: if_splits sum.splits)
  then have "le_FencingGeneration l1 \<noteq> le_FencingGeneration l1"
    using superseded_run [of "le_FencingGeneration l1" r2 i ops2 l1] lt a2 by auto
  then show False by simp
qed

text \<open>A concrete repository with one generation.\<close>

definition sample_dir :: gen_dir where
  "sample_dir =
    \<lparr>gd_generation = Slot_Has \<lparr>wg_ID = ''gen_1'', wg_Path = ''/state/ws/gen_1'', wg_RepositoryID = ''repo'',
       wg_SourceFilesystem = ''fs'', wg_CandidateSnapshot = ''snap'', wg_FencingGeneration = 0,
       wg_State = activeState, wg_CreatedAt = 1\<rparr>,
     gd_lease = Slot_Absent, gd_runtime = Slot_Absent, gd_real = True, gd_tree = sample_tree\<rparr>"

definition sample_repo :: ws_repo where
  "sample_repo =
    \<lparr>wr_root = ''/live/repo'', wr_rootIdentity = ''repo'', wr_filesystemID = ''fs'',
     wr_workspaceRoot = ''/state/ws'', wr_open = True, wr_fence = Slot_Absent,
     wr_dirs = [''gen_1'' \<mapsto> sample_dir], wr_quarantine = []\<rparr>"

definition acq :: "instant \<Rightarrow> string \<Rightarrow> ws_repo \<Rightarrow> (ws_error + ws_lease) \<times> ws_repo" where
  "acq now owner r = AcquireLease now W_Done W_Done Ctx_Live ''gen_1'' owner minute r"

definition sample_lease :: ws_lease where
  "sample_lease = \<lparr>le_GenerationID = ''gen_1'', le_Owner = ''a'', le_FencingGeneration = 1, le_ExpiresAt = 5 + minute\<rparr>"

theorem superseded_lease_rejected_witness:
  "\<exists>l1 r1 l2 r2. acq 5 ''a'' sample_repo = (Inr l1, r1)
     \<and> acq 9 ''b'' (ws_run [Op_Release True True Ctx_Live l1] r1) = (Inr l2, r2)
     \<and> AssertLease 10 Ctx_Live l1 r2 \<noteq> None"
proof -
  have 1: "fst (acq 5 ''a'' sample_repo) = Inr sample_lease" by code_simp
  then obtain r1 where r1: "acq 5 ''a'' sample_repo = (Inr sample_lease, r1)" by (metis prod.collapse)
  have "is_ok (fst (acq 9 ''b'' (ws_run [Op_Release True True Ctx_Live sample_lease] (snd (acq 5 ''a'' sample_repo)))))"
    by code_simp
  then obtain l2 r2 where r2: "acq 9 ''b'' (ws_run [Op_Release True True Ctx_Live sample_lease] r1) = (Inr l2, r2)"
    using r1 by (cases "acq 9 ''b'' (ws_run [Op_Release True True Ctx_Live sample_lease] r1)") (auto simp: is_ok_iff)
  have "AssertLease 10 Ctx_Live sample_lease (ws_run [] r2) \<noteq> None"
    by (rule superseded_lease_rejected [OF r1 [unfolded acq_def] r2 [unfolded acq_def]])
  then show ?thesis using r1 r2 by auto
qed

subsection \<open>Exclusive ownership and quarantine\<close>

definition same_lease :: "ws_lease \<Rightarrow> ws_lease \<Rightarrow> bool" where
  "same_lease l l' \<longleftrightarrow> le_GenerationID l' = le_GenerationID l \<and> le_Owner l' = le_Owner l
     \<and> le_FencingGeneration l' = le_FencingGeneration l"

text \<open>The operations that may take a lease off its holder: a release that presents this very lease (in
  any state of its renewals) and a recovery. A release that presents any other lease is none of
  them.\<close>

fun frees_lease :: "ws_lease \<Rightarrow> ws_op \<Rightarrow> bool" where
  "frees_lease l0 (Op_Release rm sy ctx l) = same_lease l0 l"
| "frees_lease l0 (Op_Recover io sy ctx es) = True"
| "frees_lease l0 _ = False"

definition lease_held :: "ws_lease \<Rightarrow> ws_repo \<Rightarrow> bool" where
  "lease_held l0 r \<longleftrightarrow> (\<exists>l. lease_at (le_GenerationID l0) r = Slot_Has l \<and> same_lease l0 l)"

lemma lease_stays:
  assumes "lease_held l0 r" and "\<not> frees_lease l0 op"
  shows "lease_held l0 (ws_step op r)"
proof (cases op)
  case (Op_Acquire now w1 w2 ctx k owner ttl)
  obtain res r' where n: "nextFence w1 r = (res, r')" by fastforce
  have dirs: "lease_at i r' = lease_at i r" for i using nextFence_level [OF n] by (simp add: lease_at_def)
  have at: "lease_at (le_GenerationID l0) r \<noteq> Slot_Absent" using assms(1) by (auto simp: lease_held_def)
  from acquire_cases [of now w1 w2 ctx k owner ttl r]
  have "lease_at (le_GenerationID l0) (snd (AcquireLease now w1 w2 ctx k owner ttl r)) = lease_at (le_GenerationID l0) r"
    by (elim disjE exE conjE) (use at dirs n in \<open>auto simp: upd_generation_lease upd_write_lease\<close>)
  then show ?thesis using Op_Acquire assms(1) by (simp add: lease_held_def)
next
  case (Op_Renew now w ctx l ttl)
  then show ?thesis
    using assms
    by (auto simp: lease_held_def same_lease_def RenewLease_def upd_write_lease Let_def split: sum.splits)
next
  case (Op_Release rm sy ctx l)
  then show ?thesis
    using assms
    by (auto simp: lease_held_def ReleaseLease_def Let_def upd_dir_def lease_at_def
          split: sum.splits option.splits if_splits)
next
  case (Op_Discard rm sy ctx k)
  then show ?thesis
    using assms by (auto simp: lease_held_def DiscardGeneration_def lease_at_def split: if_splits)
next
  case (Op_Materialize sha now rnd s1 s2 b a sz ok w sy ctx)
  then show ?thesis
    using assms by (auto simp: lease_held_def Materialize_def lease_at_def Let_def split: option.splits if_splits)
next
  case (Op_Refresh sha w ctx g l)
  then show ?thesis
    using assms
    by (auto simp: lease_held_def refresh_locked_def upd_generation_lease Let_def split: sum.splits if_splits option.splits)
next
  case (Op_Reserve now w l owner)
  then show ?thesis
    using assms
    by (auto simp: lease_held_def reserve_locked_def upd_runtime_lease Let_def split: sum.splits slot.splits)
next
  case (Op_ReleaseRuntime rm sy l owner)
  then show ?thesis
    using assms
    by (auto simp: lease_held_def release_runtime_locked_def upd_runtime_lease Let_def
          split: sum.splits slot.splits if_splits)
qed (use assms in auto)

lemma lease_held_run:
  "lease_held l0 r \<Longrightarrow> \<forall>op \<in> set ops. \<not> frees_lease l0 op \<Longrightarrow> lease_held l0 (ws_run ops r)"
  by (induction ops arbitrary: r) (simp_all add: lease_stays)

text \<open>C8: Ownership is exclusive: after a lease was granted on a generation, the generation stays with
  that holder (its owner and fencing number stay in the stored lease) and no other lease is granted on
  it, at any later time and also when the first has long expired, until a release presents this very
  lease or the repository is recovered after a restart. A release that presents another lease frees
  nothing.\<close>

theorem lease_exclusive:
  assumes "AcquireLease t1 w1 w2 c1 i o1 ttl1 r0 = (Inr l1, r1)"
    and "\<forall>op \<in> set ops. \<not> frees_lease l1 op"
  shows "\<not> is_ok (fst (AcquireLease t2 w3 w4 c2 i o2 ttl2 (ws_run ops r1)))
     \<and> (\<exists>l. lease_at i (ws_run ops r1) = Slot_Has l \<and> le_GenerationID l = i \<and> le_Owner l = o1
            \<and> le_FencingGeneration l = le_FencingGeneration l1)"
proof -
  have l1: "lease_at i r1 = Slot_Has l1" "le_GenerationID l1 = i" "le_Owner l1 = o1"
    using acquire_ok [OF assms(1)] by auto
  then have "lease_held l1 r1" by (simp add: lease_held_def same_lease_def)
  from lease_held_run [OF this assms(2)] obtain l where
    l: "lease_at i (ws_run ops r1) = Slot_Has l" "same_lease l1 l" using l1 by (auto simp: lease_held_def)
  have "\<not> is_ok (fst (AcquireLease t2 w3 w4 c2 i o2 ttl2 (ws_run ops r1)))"
    using acquire_ok [of t2 w3 w4 c2 i o2 ttl2 "ws_run ops r1"] l(1)
    by (cases "AcquireLease t2 w3 w4 c2 i o2 ttl2 (ws_run ops r1)") (auto simp: is_ok_iff)
  then show ?thesis using l l1 by (simp add: same_lease_def)
qed

theorem lease_exclusive_witness:
  "\<exists>l1 r1. acq 5 ''a'' sample_repo = (Inr l1, r1)
     \<and> \<not> is_ok (fst (acq (10 * hour) ''b'' (ws_run [Op_Acquire 7 W_Done W_Done Ctx_Live ''gen_1'' ''c'' hour,
          Op_Release True True Ctx_Live (l1\<lparr>le_Owner := ''c''\<rparr>)] r1)))"
proof -
  have 1: "fst (acq 5 ''a'' sample_repo) = Inr sample_lease" by code_simp
  then obtain r1 where r1: "acq 5 ''a'' sample_repo = (Inr sample_lease, r1)" by (metis prod.collapse)
  have "\<not> is_ok (fst (AcquireLease (10 * hour) W_Done W_Done Ctx_Live ''gen_1'' ''b'' minute
      (ws_run [Op_Acquire 7 W_Done W_Done Ctx_Live ''gen_1'' ''c'' hour,
          Op_Release True True Ctx_Live (sample_lease\<lparr>le_Owner := ''c''\<rparr>)] r1)))"
    using lease_exclusive [OF r1 [unfolded acq_def], of "[Op_Acquire 7 W_Done W_Done Ctx_Live ''gen_1'' ''c'' hour,
          Op_Release True True Ctx_Live (sample_lease\<lparr>le_Owner := ''c''\<rparr>)]"]
    by (simp add: same_lease_def sample_lease_def)
  then show ?thesis using r1 by (auto simp: acq_def)
qed

definition gen_at :: "string \<Rightarrow> ws_repo \<Rightarrow> ws_generation slot" where
  "gen_at i r = (case wr_dirs r i of None \<Rightarrow> Slot_Absent | Some d \<Rightarrow> gd_generation d)"

definition gen_dead :: "string \<Rightarrow> ws_repo \<Rightarrow> bool" where
  "gen_dead i r \<longleftrightarrow> (\<forall>g. gen_at i r = Slot_Has g \<longrightarrow> wg_State g \<noteq> activeState)"

lemma gen_dead_load: "gen_dead i r \<Longrightarrow> \<exists>e. loadGeneration i r = Inl e"
  by (auto simp: gen_dead_def gen_at_def loadGeneration_def Let_def split: option.split slot.split)

lemma gen_at_upd:
  "gen_at i (upd_dir k f r) = (case wr_dirs r i of None \<Rightarrow> Slot_Absent | Some d \<Rightarrow> gd_generation (if i = k then f d else d))"
  by (auto simp: gen_at_def upd_dir_def split: option.splits)

lemma gen_at_upd_lease [simp]: "gen_at i (upd_dir k (\<lambda>d. d\<lparr>gd_lease := f d\<rparr>) r) = gen_at i r"
  "gen_at i (upd_dir k (\<lambda>d. d\<lparr>gd_runtime := h d\<rparr>) r) = gen_at i r"
  "gen_at i (upd_dir k (\<lambda>d. d\<lparr>gd_lease := f d, gd_runtime := h d\<rparr>) r) = gen_at i r"
  "i \<noteq> k \<Longrightarrow> gen_at i (upd_dir k q r) = gen_at i r"
  unfolding gen_at_upd by (simp_all add: gen_at_def split: option.split)

lemma gen_at_quarantine: "gen_at i (quarantineGeneration k r) = (if i = k then Slot_Absent else gen_at i r)"
  by (auto simp: gen_at_def quarantineGeneration_def split: option.splits)

lemma recover_entry_gen:
  "gen_at i (snd (recover_entry io k r)) = gen_at i r \<or> gen_at i (snd (recover_entry io k r)) = Slot_Absent"
  unfolding recover_entry_def Let_def
  by (auto simp: gen_at_quarantine split: sum.split slot.split)

lemma recover_entries_gen:
  "gen_at i (snd (recover_entries io ctx ks r)) = gen_at i r
   \<or> gen_at i (snd (recover_entries io ctx ks r)) = Slot_Absent"
proof (induction ks arbitrary: r)
  case (Cons k ks)
  obtain res r' where e: "recover_entry (io k) k r = (res, r')" by fastforce
  have "gen_at i r' = gen_at i r \<or> gen_at i r' = Slot_Absent"
    using recover_entry_gen [of i "io k" k r] e by simp
  then show ?case using Cons.IH [of r'] e by (cases res) auto
qed simp

fun generation_draw :: "ws_op \<Rightarrow> string option" where
  "generation_draw (Op_Materialize sha now rnd s1 s2 b a sz ok w sy ctx) = newGenerationID rnd"
| "generation_draw _ = None"

lemma gen_dead_step:
  assumes dead: "gen_dead i r" and "generation_draw op \<noteq> Some i"
  shows "gen_dead i (ws_step op r)"
proof -
  obtain e where load: "loadGeneration i r = Inl e" using gen_dead_load [OF dead] by blast
  have "gen_at i (ws_step op r) = gen_at i r \<or> gen_at i (ws_step op r) = Slot_Absent"
  proof (cases op)
    case (Op_Acquire now w1 w2 ctx k owner ttl)
    obtain res r' where n: "nextFence w1 r = (res, r')" by fastforce
    have dirs: "gen_at i r' = gen_at i r" using nextFence_level [OF n] by (simp add: gen_at_def)
    from acquire_cases [of now w1 w2 ctx k owner ttl r]
    have "gen_at i (snd (AcquireLease now w1 w2 ctx k owner ttl r)) = gen_at i r"
      by (elim disjE exE conjE) (use load dirs n in \<open>cases "i = k"; simp\<close>)+
    then show ?thesis using Op_Acquire by simp
  next
    case (Op_Refresh sha w ctx g l)
    then show ?thesis
      using load
      by (cases "i = wg_ID g") (auto simp: refresh_locked_def Let_def split: sum.splits option.splits)
  next
    case (Op_Recover io sy ctx es)
    then show ?thesis
      using recover_entries_gen [of i io ctx es r]
      by (auto simp: Recover_def split: prod.splits sum.splits)
  next
    case (Op_Renew now w ctx l ttl)
    then show ?thesis by (auto simp: RenewLease_def Let_def split: sum.splits)
  next
    case (Op_Release rm sy ctx l)
    then show ?thesis by (auto simp: ReleaseLease_def Let_def split: sum.splits)
  next
    case (Op_Discard rm sy ctx k)
    then show ?thesis by (auto simp: DiscardGeneration_def gen_at_def)
  next
    case (Op_Reserve now w l owner)
    then show ?thesis by (auto simp: reserve_locked_def Let_def split: sum.splits slot.splits)
  next
    case (Op_ReleaseRuntime rm sy l owner)
    then show ?thesis by (auto simp: release_runtime_locked_def Let_def split: sum.splits slot.splits)
  next
    case (Op_Materialize sha now rnd s1 s2 b a sz ok w sy ctx)
    then show ?thesis
      using assms(2) by (auto simp: Materialize_def gen_at_def Let_def split: option.splits)
  qed
  then show ?thesis using dead by (auto simp: gen_dead_def)
qed

text \<open>An expired lease quarantines its generation for good: when \<open>AcquireLease\<close> finds an
  expired lease and reports the stale fence, the generation never loads again, so no operation can
  lease, assert, refresh or run in it, unless a new generation is created under the same name.\<close>

theorem expired_lease_quarantines:
  assumes "AcquireLease now w1 w2 ctx i owner ttl r = (Inl WS_ErrStaleFence, r1)"
    and "Some i \<notin> generation_draw ` set ops"
  shows "\<not> is_ok (loadGeneration i (ws_run ops r1))"
proof -
  have "gen_dead i r1"
  proof -
    obtain g l where g: "loadGeneration i r = Inr g" and l: "lease_at i r = Slot_Has l"
      and ok: "ctx \<noteq> Ctx_Nil" "validOwner owner" "0 < ttl" "ttl \<le> 24 * hour"
      using assms(1) unfolding AcquireLease_def
      by (auto simp: loadGeneration_def Let_def nextFence_def not_less split: sum.splits slot.splits if_splits option.splits prod.splits)
    then have "w1 = W_Done" and r1: "r1 = upd_dir i (\<lambda>d. d\<lparr>gd_generation :=
             write_slot w1 (g\<lparr>wg_State := quarantinedState\<rparr>) (gd_generation d)\<rparr>) r"
      using assms(1) by (auto simp: AcquireLease_def split: if_splits)
    then show ?thesis
      by (auto simp: gen_dead_def gen_at_upd write_slot_def quarantinedState_def activeState_def split: option.splits)
  qed
  then have "gen_dead i (ws_run ops r1)"
    using assms(2)
  proof (induction ops arbitrary: r1)
    case (Cons op ops)
    then show ?case using gen_dead_step [of i r1 op] by (auto simp: image_iff)
  qed simp
  then show ?thesis using gen_dead_load by fastforce
qed

theorem expired_lease_quarantines_witness:
  "\<exists>l1 r1 r2. acq 5 ''a'' sample_repo = (Inr l1, r1) \<and> acq hour ''b'' r1 = (Inl WS_ErrStaleFence, r2)
     \<and> \<not> is_ok (loadGeneration ''gen_1'' (ws_run [Op_Recover (\<lambda>_. True) True Ctx_Live []] r2))"
proof -
  have 1: "fst (acq 5 ''a'' sample_repo) = Inr sample_lease" by code_simp
  then obtain r1 where r1: "acq 5 ''a'' sample_repo = (Inr sample_lease, r1)" by (metis prod.collapse)
  have "fst (acq hour ''b'' (snd (acq 5 ''a'' sample_repo))) = Inl WS_ErrStaleFence" by code_simp
  then obtain r2 where r2: "acq hour ''b'' r1 = (Inl WS_ErrStaleFence, r2)"
    using r1 by (metis prod.collapse snd_conv)
  have "\<not> is_ok (loadGeneration ''gen_1'' (ws_run [Op_Recover (\<lambda>_. True) True Ctx_Live []] r2))"
    by (rule expired_lease_quarantines [OF r2 [unfolded acq_def]]) simp
  then show ?thesis using r1 r2 by blast
qed

subsection \<open>Recovery\<close>

definition recovered :: "ws_repo \<Rightarrow> string \<Rightarrow> bool" where
  "recovered r i \<longleftrightarrow>
     wr_dirs r i = None
     \<or> (\<not> prefix ''.tmp-'' i
        \<and> (\<not> prefix ''gen_'' i
           \<or> (is_ok (loadGeneration i r) \<and> lease_at i r = Slot_Absent \<and> runtime_at i r = Slot_Absent)))"

lemma upd_dir_env [simp]:
  "wr_root (upd_dir k f r) = wr_root r" "wr_workspaceRoot (upd_dir k f r) = wr_workspaceRoot r"
  "wr_rootIdentity (upd_dir k f r) = wr_rootIdentity r" "wr_filesystemID (upd_dir k f r) = wr_filesystemID r"
  "wr_root (quarantineGeneration k r) = wr_root r" "wr_workspaceRoot (quarantineGeneration k r) = wr_workspaceRoot r"
  "wr_rootIdentity (quarantineGeneration k r) = wr_rootIdentity r"
  "wr_filesystemID (quarantineGeneration k r) = wr_filesystemID r"
  by (simp_all add: upd_dir_def quarantineGeneration_def split: option.split)

lemma clear_load: "loadGeneration i (upd_dir k (\<lambda>d. d\<lparr>gd_lease := a, gd_runtime := b\<rparr>) r) = loadGeneration i r"
  by (auto simp: loadGeneration_def upd_dir_def Let_def split: option.splits slot.splits)

lemma quarantine_none: "wr_dirs (quarantineGeneration i r) i = None"
  by (simp add: quarantineGeneration_def split: option.split)

lemma quarantine_dirs: "wr_dirs (quarantineGeneration k r) = (wr_dirs r)(k := None)"
  by (auto simp: quarantineGeneration_def fun_eq_iff split: option.split)

lemma quarantine_load: "k \<noteq> i \<Longrightarrow> loadGeneration i (quarantineGeneration k r) = loadGeneration i r"
  by (auto simp: loadGeneration_def quarantine_dirs Let_def split: option.split slot.split)

lemma clear_slots:
  "lease_at i (upd_dir k (\<lambda>d. d\<lparr>gd_lease := Slot_Absent, gd_runtime := Slot_Absent\<rparr>) r)
     = (if i = k then Slot_Absent else lease_at i r)"
  "runtime_at i (upd_dir k (\<lambda>d. d\<lparr>gd_lease := Slot_Absent, gd_runtime := Slot_Absent\<rparr>) r)
     = (if i = k then Slot_Absent else runtime_at i r)"
  by (auto simp: lease_at_def runtime_at_def upd_dir_def split: option.splits)

lemma clear_dirs: "i \<noteq> k \<Longrightarrow> wr_dirs (upd_dir k f r) i = wr_dirs r i"
  by (simp add: upd_dir_def split: option.split)

lemma recover_entry_local:
  assumes "k \<noteq> i"
  shows "recovered (snd (recover_entry io k r)) i = recovered r i"
proof -
  have q: "recovered (quarantineGeneration k r) i = recovered r i"
    using assms quarantine_load [OF assms]
    by (simp add: recovered_def lease_at_def runtime_at_def quarantine_dirs)
  have c: "recovered (upd_dir k (\<lambda>d. d\<lparr>gd_lease := Slot_Absent, gd_runtime := Slot_Absent\<rparr>) r) i = recovered r i"
    using assms by (simp add: recovered_def clear_load clear_slots clear_dirs)
  show ?thesis
    unfolding recover_entry_def Let_def by (auto simp: q c split: sum.split slot.split)
qed

lemma recover_entry_done:
  assumes "fst (recover_entry io i r) = Inr u"
  shows "recovered (snd (recover_entry io i r)) i"
proof -
  have q: "recovered (quarantineGeneration i r) i" by (simp add: recovered_def quarantine_none)
  have c: "recovered (upd_dir i (\<lambda>d. d\<lparr>gd_lease := Slot_Absent, gd_runtime := Slot_Absent\<rparr>) r) i"
    if "is_ok (loadGeneration i r)" "\<not> prefix ''.tmp-'' i"
    using that by (simp add: recovered_def clear_load clear_slots)
  have n: "recovered r i" if "\<not> prefix ''gen_'' i" "\<not> prefix ''.tmp-'' i"
    using that by (simp add: recovered_def)
  show ?thesis
    using assms q c n
    by (auto simp: recover_entry_def Let_def split: sum.splits slot.splits if_splits)
qed

lemma recover_entries_done:
  assumes "recover_entries io ctx is r = (Inr u, r')" and "distinct is"
  shows "\<forall>i. (i \<in> set is \<or> recovered r i) \<longrightarrow> recovered r' i"
  using assms
proof (induction "is" arbitrary: r)
  case (Cons i ks)
  obtain v r1 where e: "recover_entry (io i) i r = (Inr v, r1)"
    and rest: "recover_entries io ctx ks r1 = (Inr u, r')"
    using Cons.prems(1) by (auto split: if_splits prod.splits sum.splits)
  have "recovered r1 i" using recover_entry_done [of "io i" i r v] e by simp
  moreover have "recovered r k \<Longrightarrow> k \<noteq> i \<Longrightarrow> recovered r1 k" for k
    using recover_entry_local [of i k "io i" r] e by simp
  ultimately show ?case using Cons.IH [OF rest] Cons.prems(2) by (metis distinct.simps(2) set_ConsD)
qed simp

lemma recover_entry_dom: "dom (wr_dirs (snd (recover_entry io k r))) \<subseteq> dom (wr_dirs r)"
  unfolding recover_entry_def Let_def
  by (auto simp: quarantineGeneration_def upd_dir_def split: sum.splits slot.splits option.splits if_splits)

lemma recover_entries_dom: "dom (wr_dirs (snd (recover_entries io ctx ks r))) \<subseteq> dom (wr_dirs r)"
proof (induction ks arbitrary: r)
  case (Cons k ks)
  obtain res r' where e: "recover_entry (io k) k r = (res, r')" by fastforce
  then show ?case
    using Cons.IH [of r'] recover_entry_dom [of "io k" k r] by (cases res) auto
qed simp

text \<open>Recovery is complete: when \<open>Recover\<close> succeeds over the directory's entries, no temporary
  directory remains and every remaining generation loads and has neither a lease nor a runtime
  owner; everything else was moved to quarantine.\<close>

theorem Recover_complete:
  assumes "Recover io synced ctx entries r = (Inr u, r')"
    and "distinct entries" and "dom (wr_dirs r) \<subseteq> set entries"
  shows "recovered r' i"
proof -
  obtain v where "recover_entries io ctx entries r = (Inr v, r')"
    using assms(1) by (auto simp: Recover_def split: if_splits prod.splits sum.splits)
  then have all: "\<forall>i. i \<in> set entries \<or> recovered r i \<longrightarrow> recovered r' i"
    using recover_entries_done assms(2) by blast
  have "i \<in> set entries \<or> recovered r i"
    using assms(3) by (auto simp: recovered_def)
  then show ?thesis using all by blast
qed

theorem Recover_complete_witness:
  "\<exists>l1 r1 r2. acq 5 ''a'' sample_repo = (Inr l1, r1)
     \<and> Recover (\<lambda>_. True) True Ctx_Live [''gen_1''] r1 = (Inr (), r2) \<and> recovered r2 ''gen_1''"
proof -
  have 1: "fst (acq 5 ''a'' sample_repo) = Inr sample_lease" by code_simp
  then obtain r1 where r1: "acq 5 ''a'' sample_repo = (Inr sample_lease, r1)" by (metis prod.collapse)
  have "is_ok (fst (Recover (\<lambda>_. True) True Ctx_Live [''gen_1''] (snd (acq 5 ''a'' sample_repo))))"
    by code_simp
  then obtain r2 where r2: "Recover (\<lambda>_. True) True Ctx_Live [''gen_1''] r1 = (Inr (), r2)"
    using r1 by (cases "Recover (\<lambda>_. True) True Ctx_Live [''gen_1''] r1") (auto simp: is_ok_iff)
  have "dom (wr_dirs r1) \<subseteq> {''gen_1''}"
    using r1 by (auto simp: acq_def AcquireLease_def sample_repo_def loadGeneration_def nextFence_def
        upd_dir_def Let_def split: if_splits sum.splits slot.splits option.splits prod.splits)
  then have "recovered r2 ''gen_1''" using Recover_complete [OF r2] by simp
  then show ?thesis using r1 r2 by blast
qed

end
