(* ===== verification/Integration_Journal.thy ===== *)
theory Integration_Journal
  imports Workspace_Lease
begin

section \<open>Integration plans and their journal (internal/workspace/integration.go)\<close>

text \<open>
  Building a plan from the live and the candidate tree, the guards of \<open>ApplyIntegration\<close>, its
  loop as a step relation whose states are what a crash leaves behind (the live tree and the journal
  file), and the recovery of a journal. Trees are the entry lists of \<open>Workspace_Tree\<close>, looked up by
  path. The properties are about the regular files of the trees: what an integration does to them,
  and what recovery makes of an interrupted one.
\<close>

subsection \<open>Plans and journals\<close>

record integration_step =
  is_Path :: string
  is_Operation :: string
  is_BeforeDigest :: string
  is_AfterDigest :: string
  is_Mode :: nat
  is_StagedBlob :: string

record integration_plan =
  ip_RepositoryID :: string
  ip_SourceFilesystem :: string
  ip_GenerationID :: string
  ip_LeaseGeneration :: nat
  ip_BaseSnapshot :: string
  ip_CandidateSnapshot :: string
  ip_Steps :: "integration_step list"
  ip_PlanDigest :: string

record integration_journal =
  ij_ID :: string
  ij_State :: string
  ij_Cursor :: nat
  ij_Plan :: integration_plan
  ij_UpdatedAt :: instant

definition integrationPrepared :: string where "integrationPrepared = ''PREPARED''"
definition integrationApplying :: string where "integrationApplying = ''APPLYING''"
definition integrationCommitted :: string where "integrationCommitted = ''COMMITTED''"
definition integrationQuarantined :: string where "integrationQuarantined = ''QUARANTINED''"
definition maxIntegrationBlob :: nat where "maxIntegrationBlob = 4194304"

lemmas integration_state_defs = integrationPrepared_def integrationApplying_def
  integrationCommitted_def integrationQuarantined_def

definition ws_validRelativePath :: "string \<Rightarrow> bool" where
  "ws_validRelativePath p \<longleftrightarrow>
     \<not> (p = [] \<or> is_abs p \<or> contains_any p [CHR 0x5C, NUL])
     \<and> \<not> (clean p \<noteq> p \<or> clean p = ''.'' \<or> prefix ''../'' (clean p) \<or> clean p = ''..''
          \<or> prefix ''.git/'' (clean p))"

subsection \<open>Files of a tree\<close>

record file_state =
  fs_Exists :: bool
  fs_Digest :: string
  fs_Mode :: nat

definition entry_at :: "tree_entry list \<Rightarrow> string \<Rightarrow> tree_entry option" where
  "entry_at t p = find (\<lambda>e. te_Path e = p) t"

definition put_entry :: "tree_entry \<Rightarrow> tree_entry list \<Rightarrow> tree_entry list" where
  "put_entry e t = filter (\<lambda>x. te_Path x \<noteq> te_Path e) t @ [e]"

definition del_entry :: "string \<Rightarrow> tree_entry list \<Rightarrow> tree_entry list" where
  "del_entry p t = filter (\<lambda>x. te_Path x \<noteq> p) t"

text \<open>The proper ancestors of a relative path, from the top.\<close>

definition ancestors :: "string \<Rightarrow> string list" where
  "ancestors p = (let cs = split_on slash p
                  in map (\<lambda>k. join_with [slash] (take k cs)) [1..<length cs])"

definition file_digest :: "(string \<Rightarrow> string) \<Rightarrow> string \<Rightarrow> nat \<Rightarrow> string" where
  "file_digest sha content mode =
     hex_encode (sha (content @ [NUL, char_of (mode div 256), char_of mode]))"

definition fileStateAt :: "(string \<Rightarrow> string) \<Rightarrow> tree_entry list \<Rightarrow> string \<Rightarrow> file_state option" where
  "fileStateAt sha t p =
    (if \<not> ws_validRelativePath p then None
     else if list_ex (\<lambda>a. case entry_at t a of None \<Rightarrow> False | Some e \<Rightarrow> \<not> is_dir e) (ancestors p) then None
     else (case entry_at t p of
             None \<Rightarrow> Some \<lparr>fs_Exists = False, fs_Digest = [], fs_Mode = 0\<rparr>
           | Some e \<Rightarrow>
               (case te_Kind e of
                  Tree_File c \<Rightarrow> Some \<lparr>fs_Exists = True, fs_Digest = file_digest sha c (te_Perm e),
                                       fs_Mode = te_Perm e\<rparr>
                | _ \<Rightarrow> None)))"

fun tree_files_loop ::
  "(string \<Rightarrow> string) \<Rightarrow> go_ctx \<Rightarrow> tree_entry list \<Rightarrow> tree_entry list \<Rightarrow> (string \<times> file_state) list option" where
  "tree_files_loop sha ctx t [] = Some []"
| "tree_files_loop sha ctx t (e # es) =
    (if excluded (te_Path e) then tree_files_loop sha ctx t es
     else if is_symlink e then None
     else if is_dir e then tree_files_loop sha ctx t es
     else if \<not> is_regular e then None
     else (case fileStateAt sha t (te_Path e) of
             None \<Rightarrow> None
           | Some st \<Rightarrow> if ctx_err ctx then None
                        else map_option (\<lambda>r. (te_Path e, st) # r) (tree_files_loop sha ctx t es)))"

definition treeFiles :: "(string \<Rightarrow> string) \<Rightarrow> go_ctx \<Rightarrow> tree_entry list \<Rightarrow> (string \<times> file_state) list option" where
  "treeFiles sha ctx t = tree_files_loop sha ctx t t"

definition file_of :: "(string \<times> file_state) list \<Rightarrow> string \<Rightarrow> file_state" where
  "file_of fs p = (case map_of fs p of Some st \<Rightarrow> st | None \<Rightarrow> \<lparr>fs_Exists = False, fs_Digest = [], fs_Mode = 0\<rparr>)"

subsection \<open>Building a plan\<close>

definition content_at :: "tree_entry list \<Rightarrow> string \<Rightarrow> string option" where
  "content_at t p =
    (case entry_at t p of
       Some e \<Rightarrow> (case te_Kind e of Tree_File c \<Rightarrow> Some c | _ \<Rightarrow> None)
     | None \<Rightarrow> None)"

fun plan_steps ::
  "tree_entry list \<Rightarrow> (string \<times> file_state) list \<Rightarrow> (string \<times> file_state) list \<Rightarrow> string list
   \<Rightarrow> integration_step list option" where
  "plan_steps cand bf cf [] = Some []"
| "plan_steps cand bf cf (p # ps) =
    (let b = file_of bf p; a = file_of cf p
     in if fs_Digest b = fs_Digest a \<and> fs_Exists b = fs_Exists a then plan_steps cand bf cf ps
        else
          (let op = (if \<not> fs_Exists b \<and> fs_Exists a then ''create''
                     else if fs_Exists b \<and> \<not> fs_Exists a then ''delete'' else ''update'')
           in if \<not> fs_Exists b \<and> \<not> fs_Exists a then None
              else (case (if fs_Exists a then content_at cand p else Some []) of
                      None \<Rightarrow> None
                    | Some blob \<Rightarrow>
                        if maxIntegrationBlob < length blob then None
                        else map_option (\<lambda>r. \<lparr>is_Path = p, is_Operation = op,
                                is_BeforeDigest = fs_Digest b, is_AfterDigest = fs_Digest a,
                                is_Mode = fs_Mode a, is_StagedBlob = blob\<rparr> # r)
                              (plan_steps cand bf cf ps))))"

definition computePlanDigest :: "(string \<Rightarrow> string) \<Rightarrow> (integration_plan \<Rightarrow> string option) \<Rightarrow> integration_plan \<Rightarrow> string option" where
  "computePlanDigest sha enc plan = map_option (\<lambda>d. hex_encode (sha d)) (enc (plan\<lparr>ip_PlanDigest := []\<rparr>))"

definition BuildIntegrationPlan ::
  "(string \<Rightarrow> string) \<Rightarrow> (integration_plan \<Rightarrow> string option) \<Rightarrow> instant \<Rightarrow> go_ctx \<Rightarrow> tree_entry list
   \<Rightarrow> tree_entry list \<Rightarrow> ws_generation \<Rightarrow> ws_lease \<Rightarrow> ws_repo \<Rightarrow> ws_error + integration_plan" where
  "BuildIntegrationPlan sha enc now ctx live cand g l r =
    (case AssertLease now ctx l r of
       Some e \<Rightarrow> Inl e
     | None \<Rightarrow>
         if \<not> wr_open r then Inl WS_ErrRejected
         else (case loadGeneration (wg_ID g) r of
                 Inl _ \<Rightarrow> Inl WS_ErrRejected
               | Inr loaded \<Rightarrow>
                   if wg_CandidateSnapshot loaded \<noteq> wg_CandidateSnapshot g \<or> le_FencingGeneration l = 0
                   then Inl WS_ErrRejected
                   else (case (snapshotTree sha ctx live, snapshotTree sha ctx cand,
                               treeFiles sha ctx live, treeFiles sha ctx cand) of
                           (Some base, Some candidate, Some bf, Some cf) \<Rightarrow>
                             if candidate = [] then Inl WS_ErrRejected
                             else (case plan_steps cand bf cf (sort (remdups (map fst bf @ map fst cf))) of
                                     None \<Rightarrow> Inl WS_ErrRejected
                                   | Some steps \<Rightarrow>
                                       (let plan = \<lparr>ip_RepositoryID = wr_rootIdentity r,
                                              ip_SourceFilesystem = wr_filesystemID r,
                                              ip_GenerationID = wg_ID g,
                                              ip_LeaseGeneration = le_FencingGeneration l,
                                              ip_BaseSnapshot = base, ip_CandidateSnapshot = candidate,
                                              ip_Steps = steps, ip_PlanDigest = []\<rparr>
                                        in case computePlanDigest sha enc plan of
                                             None \<Rightarrow> Inl WS_ErrRejected
                                           | Some d \<Rightarrow> Inr (plan\<lparr>ip_PlanDigest := d\<rparr>)))
                         | _ \<Rightarrow> Inl WS_ErrRejected)))"

definition known_operation :: "string \<Rightarrow> bool" where
  "known_operation op \<longleftrightarrow> op = ''create'' \<or> op = ''update'' \<or> op = ''delete''"

fun valid_steps :: "string \<Rightarrow> integration_step list \<Rightarrow> bool" where
  "valid_steps previous [] = True"
| "valid_steps previous (s # ss) =
    (if \<not> ws_validRelativePath (is_Path s) \<or> is_Path s \<le> previous \<or> is_BeforeDigest s = is_AfterDigest s
        \<or> \<not> known_operation (is_Operation s) \<or> maxIntegrationBlob < length (is_StagedBlob s) then False
     else if is_Operation s = ''delete'' \<and> length (is_StagedBlob s) \<noteq> 0 then False
     else valid_steps (is_Path s) ss)"

definition validIntegrationPlan :: "integration_plan \<Rightarrow> bool" where
  "validIntegrationPlan p \<longleftrightarrow>
     \<not> (ip_RepositoryID p = [] \<or> ip_SourceFilesystem p = [] \<or> \<not> validGenerationID (ip_GenerationID p)
        \<or> ip_LeaseGeneration p = 0 \<or> ip_BaseSnapshot p = [] \<or> ip_CandidateSnapshot p = []
        \<or> ip_PlanDigest p = [])
     \<and> valid_steps [] (ip_Steps p)"

subsection \<open>Applying one step\<close>

text \<open>\<open>dsz\<close> is the size the file system reports for a new directory.\<close>

fun open_ancestors :: "nat \<Rightarrow> bool \<Rightarrow> string list \<Rightarrow> tree_entry list \<Rightarrow> bool \<times> tree_entry list" where
  "open_ancestors dsz create [] t = (True, t)"
| "open_ancestors dsz create (a # as) t =
    (case entry_at t a of
       Some e \<Rightarrow> if is_dir e then open_ancestors dsz create as t else (False, t)
     | None \<Rightarrow> if create
               then open_ancestors dsz create as
                      (put_entry \<lparr>te_Path = a, te_Perm = 448, te_Size = dsz, te_Kind = Tree_Dir\<rparr> t)
               else (False, t))"

definition openParentDirectory :: "nat \<Rightarrow> bool \<Rightarrow> string \<Rightarrow> tree_entry list \<Rightarrow> bool \<times> tree_entry list" where
  "openParentDirectory dsz create p t =
    (if \<not> ws_validRelativePath p then (False, t) else open_ancestors dsz create (ancestors p) t)"

text \<open>Where the system calls of a step fail, if they do: after some of the parent directories, before
  the file is renamed or unlinked, so that the temporary file (named by random bytes, with a part of
  the content) stays, or when the parent is synced afterwards.\<close>

datatype step_io = IO_Ok | IO_ParentFails nat | IO_Fails | IO_Leaves string string | IO_SyncFails

definition temp_prefix :: string where "temp_prefix = ''.repoworker-tmp-''"

definition temp_path :: "string \<Rightarrow> string \<Rightarrow> string" where
  "temp_path rnd p = join_with [slash] (butlast (split_on slash p) @ [temp_prefix @ hex_encode rnd])"

definition is_temp :: "string \<Rightarrow> bool" where
  "is_temp p \<longleftrightarrow> prefix temp_prefix (last (split_on slash p))"

definition parent_directory :: "nat \<Rightarrow> step_io \<Rightarrow> bool \<Rightarrow> string \<Rightarrow> tree_entry list \<Rightarrow> bool \<times> tree_entry list" where
  "parent_directory dsz io create p t =
    (case io of
       IO_ParentFails k \<Rightarrow> (False, snd (open_ancestors dsz create (take k (ancestors p)) t))
     | _ \<Rightarrow> openParentDirectory dsz create p t)"

definition check_after :: "(string \<Rightarrow> string) \<Rightarrow> integration_step \<Rightarrow> tree_entry list \<Rightarrow> ws_error option" where
  "check_after sha s t =
    (case fileStateAt sha t (is_Path s) of
       None \<Rightarrow> Some WS_ErrRejected
     | Some after \<Rightarrow> if fs_Digest after \<noteq> is_AfterDigest s then Some WS_ErrRejected else None)"

definition delete_file ::
  "(string \<Rightarrow> string) \<Rightarrow> nat \<Rightarrow> step_io \<Rightarrow> integration_step \<Rightarrow> tree_entry list
   \<Rightarrow> ws_error option \<times> tree_entry list" where
  "delete_file sha dsz io s t =
    (case parent_directory dsz io False (is_Path s) t of
       (False, t1) \<Rightarrow> (Some WS_ErrRejected, t1)
     | (True, t1) \<Rightarrow>
         if io = IO_Fails \<or> entry_at t1 (is_Path s) = None then (Some WS_ErrRejected, t1)
         else (let t2 = del_entry (is_Path s) t1
               in if io = IO_SyncFails then (Some WS_ErrRejected, t2) else (check_after sha s t2, t2)))"

definition staged_entry :: "integration_step \<Rightarrow> tree_entry" where
  "staged_entry s = \<lparr>te_Path = is_Path s, te_Perm = is_Mode s mod 512,
     te_Size = length (is_StagedBlob s), te_Kind = Tree_File (is_StagedBlob s)\<rparr>"

definition write_file ::
  "(string \<Rightarrow> string) \<Rightarrow> nat \<Rightarrow> step_io \<Rightarrow> integration_step \<Rightarrow> tree_entry list
   \<Rightarrow> ws_error option \<times> tree_entry list" where
  "write_file sha dsz io s t =
    (if maxIntegrationBlob < length (is_StagedBlob s) then (Some WS_ErrRejected, t)
     else (case parent_directory dsz io True (is_Path s) t of
             (False, t1) \<Rightarrow> (Some WS_ErrRejected, t1)
           | (True, t1) \<Rightarrow>
               (case io of
                  IO_Fails \<Rightarrow> (Some WS_ErrRejected, t1)
                | IO_Leaves rnd part \<Rightarrow>
                    (Some WS_ErrRejected,
                     if entry_at t1 (temp_path rnd (is_Path s)) \<noteq> None then t1
                     else put_entry \<lparr>te_Path = temp_path rnd (is_Path s), te_Perm = is_Mode s mod 512,
                            te_Size = length part, te_Kind = Tree_File part\<rparr> t1)
                | IO_SyncFails \<Rightarrow> (Some WS_ErrRejected, put_entry (staged_entry s) t1)
                | _ \<Rightarrow> (check_after sha s (put_entry (staged_entry s) t1), put_entry (staged_entry s) t1))))"

definition applyIntegrationStep ::
  "(string \<Rightarrow> string) \<Rightarrow> nat \<Rightarrow> step_io \<Rightarrow> integration_step \<Rightarrow> tree_entry list
   \<Rightarrow> ws_error option \<times> tree_entry list" where
  "applyIntegrationStep sha dsz io s t =
    (if \<not> ws_validRelativePath (is_Path s) \<or> \<not> known_operation (is_Operation s)
     then (Some WS_ErrRejected, t)
     else (case fileStateAt sha t (is_Path s) of
             None \<Rightarrow> (Some WS_ErrStaleFence, t)
           | Some current \<Rightarrow>
               if fs_Digest current \<noteq> is_BeforeDigest s then (Some WS_ErrStaleFence, t)
               else if is_Operation s = ''delete'' then delete_file sha dsz io s t
               else write_file sha dsz io s t))"

subsection \<open>The journalled loop\<close>

text \<open>The guards of \<open>ApplyIntegration\<close> up to the identifier of the new journal.\<close>

definition integration_begin ::
  "(string \<Rightarrow> string) \<Rightarrow> (integration_plan \<Rightarrow> string option) \<Rightarrow> instant \<Rightarrow> string option \<Rightarrow> go_ctx
   \<Rightarrow> tree_entry list \<Rightarrow> integration_plan \<Rightarrow> ws_lease \<Rightarrow> ws_repo \<Rightarrow> ws_error + integration_journal" where
  "integration_begin sha enc now rnd ctx live plan l r =
    (case AssertLease now ctx l r of
       Some e \<Rightarrow> Inl e
     | None \<Rightarrow>
         if \<not> wr_open r \<or> ip_RepositoryID plan \<noteq> wr_rootIdentity r
            \<or> ip_SourceFilesystem plan \<noteq> wr_filesystemID r
            \<or> ip_GenerationID plan \<noteq> le_GenerationID l
            \<or> ip_LeaseGeneration plan \<noteq> le_FencingGeneration l
         then Inl WS_ErrRejected
         else if computePlanDigest sha enc plan \<noteq> Some (ip_PlanDigest plan) \<or> \<not> validIntegrationPlan plan
         then Inl WS_ErrRejected
         else if snapshotTree sha ctx live \<noteq> Some (ip_BaseSnapshot plan) then Inl WS_ErrStaleFence
         else (case rnd of
                 None \<Rightarrow> Inl WS_ErrRejected
               | Some b \<Rightarrow> Inr \<lparr>ij_ID = ''journal_'' @ hex_encode b, ij_State = integrationPrepared,
                               ij_Cursor = 0, ij_Plan = plan, ij_UpdatedAt = now\<rparr>))"

datatype integ_pc =
    IG_Prepare | IG_Loop | IG_Advance | IG_Quarantine ws_error | IG_Commit | IG_Done | IG_Failed ws_error

record integ_state =
  ig_live :: "tree_entry list"
  ig_disk :: "integration_journal slot"
  ig_mem :: integration_journal
  ig_pc :: integ_pc

definition save_journal ::
  "write_outcome \<Rightarrow> integration_journal \<Rightarrow> integ_pc \<Rightarrow> integ_pc \<Rightarrow> integ_state \<Rightarrow> integ_state" where
  "save_journal w j ok bad st =
     st\<lparr>ig_mem := j, ig_disk := write_slot w j (ig_disk st), ig_pc := (if w = W_Done then ok else bad)\<rparr>"

definition integ_steps :: "integ_state \<Rightarrow> integration_step list" where
  "integ_steps st = ip_Steps (ij_Plan (ig_mem st))"

inductive integ_step :: "(string \<Rightarrow> string) \<Rightarrow> nat \<Rightarrow> integ_state \<Rightarrow> integ_state \<Rightarrow> bool"
  for sha dsz where
  ig_prepare: "ig_pc st = IG_Prepare
     \<Longrightarrow> integ_step sha dsz st (save_journal w (ig_mem st) IG_Loop (IG_Failed WS_ErrRejected) st)"
| ig_apply: "ig_pc st = IG_Loop \<Longrightarrow> ij_Cursor (ig_mem st) < length (integ_steps st)
     \<Longrightarrow> applyIntegrationStep sha dsz io (integ_steps st ! ij_Cursor (ig_mem st)) (ig_live st) = (None, t)
     \<Longrightarrow> integ_step sha dsz st (st\<lparr>ig_live := t, ig_pc := IG_Advance\<rparr>)"
| ig_reject: "ig_pc st = IG_Loop \<Longrightarrow> ij_Cursor (ig_mem st) < length (integ_steps st)
     \<Longrightarrow> applyIntegrationStep sha dsz io (integ_steps st ! ij_Cursor (ig_mem st)) (ig_live st) = (Some e, t)
     \<Longrightarrow> integ_step sha dsz st (st\<lparr>ig_live := t, ig_pc := IG_Quarantine e\<rparr>)"
| ig_quarantine: "ig_pc st = IG_Quarantine e
     \<Longrightarrow> integ_step sha dsz st (save_journal w ((ig_mem st)\<lparr>ij_State := integrationQuarantined, ij_UpdatedAt := now\<rparr>)
           (IG_Failed e) (IG_Failed e) st)"
| ig_advance: "ig_pc st = IG_Advance
     \<Longrightarrow> integ_step sha dsz st (save_journal w ((ig_mem st)\<lparr>ij_State := integrationApplying,
             ij_Cursor := ij_Cursor (ig_mem st) + 1, ij_UpdatedAt := now\<rparr>)
           IG_Loop (IG_Failed WS_ErrRejected) st)"
| ig_finish: "ig_pc st = IG_Loop \<Longrightarrow> \<not> ij_Cursor (ig_mem st) < length (integ_steps st)
     \<Longrightarrow> integ_step sha dsz st (st\<lparr>ig_pc := IG_Commit\<rparr>)"
| ig_commit: "ig_pc st = IG_Commit
     \<Longrightarrow> integ_step sha dsz st (save_journal w ((ig_mem st)\<lparr>ij_State := integrationCommitted, ij_UpdatedAt := now\<rparr>)
           IG_Done (IG_Failed WS_ErrRejected) st)"

inductive_cases integ_stepE: "integ_step sha dsz st st'"

definition integ_init :: "tree_entry list \<Rightarrow> integration_journal \<Rightarrow> integ_state" where
  "integ_init live j = \<lparr>ig_live = live, ig_disk = Slot_Absent, ig_mem = j, ig_pc = IG_Prepare\<rparr>"

definition integ_reach :: "(string \<Rightarrow> string) \<Rightarrow> nat \<Rightarrow> integ_state \<Rightarrow> integ_state \<Rightarrow> bool" where
  "integ_reach sha dsz = (integ_step sha dsz)\<^sup>*\<^sup>*"

subsection \<open>Recovery of a journal\<close>

text \<open>The loop of \<open>recoverJournal\<close> over the steps from the cursor on. Its result is the journal
  that was last written to disk and whether recovery goes on; the live tree is only read.\<close>

fun recover_loop ::
  "(string \<Rightarrow> string) \<Rightarrow> instant \<Rightarrow> (nat \<Rightarrow> write_outcome) \<Rightarrow> tree_entry list \<Rightarrow> integration_step list
   \<Rightarrow> integration_journal \<Rightarrow> integration_journal slot \<Rightarrow> bool \<times> integration_journal \<times> integration_journal slot" where
  "recover_loop sha now w live [] j disk = (True, j, disk)"
| "recover_loop sha now w live (s # ss) j disk =
    (case fileStateAt sha live (is_Path s) of
       None \<Rightarrow> (False, j, disk)
     | Some current \<Rightarrow>
         if fs_Digest current = is_AfterDigest s
         then (let j' = j\<lparr>ij_Cursor := ij_Cursor j + 1, ij_State := integrationApplying, ij_UpdatedAt := now\<rparr>;
                   disk' = write_slot (w (ij_Cursor j)) j' disk
               in if w (ij_Cursor j) = W_Done then recover_loop sha now w live ss j' disk' else (False, j', disk'))
         else (let j' = j\<lparr>ij_State := integrationQuarantined, ij_UpdatedAt := now\<rparr>
               in (False, j', write_slot (w (ij_Cursor j)) j' disk)))"

definition recoverJournal ::
  "(string \<Rightarrow> string) \<Rightarrow> instant \<Rightarrow> (nat \<Rightarrow> write_outcome) \<Rightarrow> tree_entry list
   \<Rightarrow> integration_journal \<Rightarrow> integration_journal slot \<Rightarrow> bool \<times> integration_journal slot" where
  "recoverJournal sha now w live j disk =
    (if ij_State j \<noteq> integrationPrepared \<and> ij_State j \<noteq> integrationApplying then (False, disk)
     else if \<not> validIntegrationPlan (ij_Plan j) \<or> length (ip_Steps (ij_Plan j)) < ij_Cursor j then (False, disk)
     else (case recover_loop sha now w live (drop (ij_Cursor j) (ip_Steps (ij_Plan j))) j disk of
             (False, j', disk') \<Rightarrow> (False, disk')
           | (True, j', disk') \<Rightarrow>
               (w (length (ip_Steps (ij_Plan j))) = W_Done,
                write_slot (w (length (ip_Steps (ij_Plan j))))
                  (j'\<lparr>ij_State := integrationCommitted, ij_UpdatedAt := now\<rparr>) disk')))"

text \<open>\<open>recoverJournals\<close> over the journal files in directory order: a committed journal is left
  alone, a file that does not parse or a journal that cannot be recovered stops it. \<open>jsize\<close> is the
  length of the JSON text of a journal, of which \<open>readJSON\<close> reads at most 64 KiB.\<close>

definition maxJSON :: nat where "maxJSON = 65536"

fun recoverJournals ::
  "(string \<Rightarrow> string) \<Rightarrow> (integration_journal \<Rightarrow> nat) \<Rightarrow> instant \<Rightarrow> (nat \<Rightarrow> nat \<Rightarrow> write_outcome)
   \<Rightarrow> tree_entry list \<Rightarrow> integration_journal slot list \<Rightarrow> bool \<times> integration_journal slot list" where
  "recoverJournals sha jsize now w live [] = (True, [])"
| "recoverJournals sha jsize now w live (f # fs) =
    (case f of
       Slot_Has j \<Rightarrow>
         if maxJSON < jsize j then (False, f # fs)
         else if ij_State j = integrationCommitted
         then map_prod id (\<lambda>r. f # r) (recoverJournals sha jsize now (\<lambda>n. w (Suc n)) live fs)
         else (case recoverJournal sha now (w 0) live j f of
                 (False, f') \<Rightarrow> (False, f' # fs)
               | (True, f') \<Rightarrow> map_prod id (\<lambda>r. f' # r) (recoverJournals sha jsize now (\<lambda>n. w (Suc n)) live fs))
     | _ \<Rightarrow> (False, f # fs))"

text \<open>\<open>OpenRepository\<close>: the resolved paths of the live root and of the state directory, the
  identity of the root's file system, the outcome of making the directories and of the lock are its
  surroundings; \<open>fence\<close> and \<open>dirs\<close> are what the workspace root holds.\<close>

definition OpenRepository ::
  "(string \<Rightarrow> string) \<Rightarrow> (integration_journal \<Rightarrow> nat) \<Rightarrow> instant \<Rightarrow> (nat \<Rightarrow> nat \<Rightarrow> write_outcome)
   \<Rightarrow> string option \<Rightarrow> string option \<Rightarrow> string option \<Rightarrow> bool \<Rightarrow> bool
   \<Rightarrow> tree_entry list \<Rightarrow> integration_journal slot list \<Rightarrow> nat slot \<Rightarrow> (string \<rightharpoonup> gen_dir)
   \<Rightarrow> string \<Rightarrow> string \<Rightarrow> (ws_error + ws_repo) \<times> integration_journal slot list" where
  "OpenRepository sha jsize now w resolved_root resolved_state fsid made locked live journals fence dirs root stateRoot =
    (if root = [] \<or> stateRoot = [] \<or> \<not> is_abs root \<or> \<not> is_abs stateRoot then (Inl WS_ErrRejected, journals)
     else (case (resolved_root, resolved_state, fsid) of
             (Some rr, Some rs, Some fs) \<Rightarrow>
               (let croot = clean rr; cstate = clean rs
                in if pathWithin croot cstate \<or> \<not> made \<or> \<not> locked then (Inl WS_ErrRejected, journals)
                   else (let ident = hex_encode (sha croot)
                         in case recoverJournals sha jsize now w live journals of
                              (False, js) \<Rightarrow> (Inl WS_ErrRejected, js)
                            | (True, js) \<Rightarrow>
                                (Inr \<lparr>wr_root = croot, wr_rootIdentity = ident, wr_filesystemID = fs,
                                      wr_workspaceRoot = join_path (join_path cstate ident) ''workspaces'',
                                      wr_open = True, wr_fence = fence, wr_dirs = dirs,
                                      wr_quarantine = []\<rparr>, js)))
           | _ \<Rightarrow> (Inl WS_ErrRejected, journals)))"

subsection \<open>What a step does to the files of a tree\<close>

definition fdig :: "(string \<Rightarrow> string) \<Rightarrow> tree_entry list \<Rightarrow> string \<Rightarrow> string" where
  "fdig sha t p =
    (case entry_at t p of
       Some e \<Rightarrow> (case te_Kind e of Tree_File c \<Rightarrow> file_digest sha c (te_Perm e) | _ \<Rightarrow> [])
     | None \<Rightarrow> [])"

lemma find_filter_same: "(\<And>x. P x \<Longrightarrow> Q x) \<Longrightarrow> find P (filter Q t) = find P t"
  by (induction t) auto

lemma find_filter_none: "(\<And>x. Q x \<Longrightarrow> \<not> P x) \<Longrightarrow> find P (filter Q t) = None"
  by (induction t) auto

lemma find_append: "find P (xs @ ys) = (case find P xs of None \<Rightarrow> find P ys | Some x \<Rightarrow> Some x)"
  by (induction xs) auto

lemma entry_at_del: "entry_at (del_entry q t) p = (if p = q then None else entry_at t p)"
  by (auto simp: entry_at_def del_entry_def find_filter_same find_filter_none)

lemma entry_at_put: "entry_at (put_entry e t) p = (if p = te_Path e then Some e else entry_at t p)"
  by (auto simp: entry_at_def put_entry_def find_append find_filter_same find_filter_none split: option.split)

lemma fileStateAt_digest: "fileStateAt sha t p = Some st \<Longrightarrow> fs_Digest st = fdig sha t p"
  by (auto simp: fileStateAt_def fdig_def split: if_splits option.splits tree_kind.splits)

lemma fdig_new_dir:
  "entry_at t (te_Path e) = None \<Longrightarrow> te_Kind e = Tree_Dir \<Longrightarrow> fdig sha (put_entry e t) q = fdig sha t q"
  by (simp add: fdig_def entry_at_put)

lemma open_ancestors_fdig:
  "open_ancestors dsz create as t = (b, t') \<Longrightarrow> fdig sha t' q = fdig sha t q"
proof (induction as arbitrary: t)
  case (Cons a as)
  then show ?case by (auto simp: fdig_new_dir split: option.splits if_splits)
qed simp

lemma parent_directory_fdig:
  "parent_directory dsz io create p t = (b, t') \<Longrightarrow> fdig sha t' q = fdig sha t q"
  by (auto simp: parent_directory_def openParentDirectory_def split: step_io.splits if_splits
      dest: open_ancestors_fdig)
     (metis open_ancestors_fdig prod.collapse)

lemma temp_path_is_temp: "is_temp (temp_path rnd p)"
proof -
  have slash: "slash \<notin> set (temp_prefix @ hex_encode rnd)"
    using hex_encode_lower [of slash rnd]
    by (auto simp: temp_prefix_def slash_def lower_hex_def in_byte_range_def)
  have "split_on slash (temp_path rnd p) = butlast (split_on slash p) @ [temp_prefix @ hex_encode rnd]"
    unfolding temp_path_def
    by (rule split_join) (use slash in \<open>auto dest: in_set_butlastD split_on_no_sep\<close>)
  then show ?thesis by (simp add: is_temp_def)
qed

lemma fdig_put: "p \<noteq> te_Path e \<Longrightarrow> fdig sha (put_entry e t) p = fdig sha t p"
  by (simp add: fdig_def entry_at_put)

lemma fdig_del: "p \<noteq> q \<Longrightarrow> fdig sha (del_entry q t) p = fdig sha t p"
  by (simp add: fdig_def entry_at_del)

lemma delete_file_other:
  assumes "delete_file sha dsz io s t = (r, t')" and "q \<noteq> is_Path s"
  shows "fdig sha t' q = fdig sha t q"
  using assms by (auto simp: delete_file_def Let_def fdig_del split: prod.splits bool.splits if_splits
      dest: parent_directory_fdig [where sha = sha and q = q])

lemma write_file_other:
  assumes "write_file sha dsz io s t = (r, t')" and "q \<noteq> is_Path s" and "\<not> is_temp q"
  shows "fdig sha t' q = fdig sha t q"
proof -
  have "q \<noteq> temp_path rnd p" for rnd p using assms(3) temp_path_is_temp by metis
  then show ?thesis
    using assms(1,2)
    by (auto simp: write_file_def fdig_put staged_entry_def
        split: prod.splits bool.splits if_splits step_io.splits
        dest: parent_directory_fdig [where sha = sha and q = q])
qed

lemma apply_step_other:
  assumes "applyIntegrationStep sha dsz io s t = (r, t')" and "q \<noteq> is_Path s" and "\<not> is_temp q"
  shows "fdig sha t' q = fdig sha t q"
  using assms delete_file_other write_file_other
  by (auto simp: applyIntegrationStep_def split: if_splits option.splits)

lemma check_after_None: "check_after sha s t = None \<Longrightarrow> fdig sha t (is_Path s) = is_AfterDigest s"
  by (auto simp: check_after_def split: option.splits if_splits dest: fileStateAt_digest)

lemma apply_step_ok:
  assumes "applyIntegrationStep sha dsz io s t = (None, t')"
  shows "fdig sha t (is_Path s) = is_BeforeDigest s \<and> fdig sha t' (is_Path s) = is_AfterDigest s"
  using assms fileStateAt_digest check_after_None
  by (fastforce simp: applyIntegrationStep_def delete_file_def write_file_def Let_def
      split: if_splits option.splits prod.splits bool.splits step_io.splits)

subsection \<open>Crash consistency\<close>

definition step_path :: "integration_step list \<Rightarrow> nat \<Rightarrow> string" where
  "step_path ss i = is_Path (ss ! i)"

text \<open>The first \<open>k\<close> steps are applied and the others are not; with \<open>in_doubt\<close> the step \<open>k\<close> may be
  in any state.\<close>

definition others_kept ::
  "(string \<Rightarrow> string) \<Rightarrow> integration_step list \<Rightarrow> tree_entry list \<Rightarrow> tree_entry list \<Rightarrow> bool" where
  "others_kept sha ss t0 t \<longleftrightarrow>
     (\<forall>q. \<not> is_temp q \<longrightarrow> q \<notin> is_Path ` set ss \<longrightarrow> fdig sha t q = fdig sha t0 q)"

definition applied_upto ::
  "(string \<Rightarrow> string) \<Rightarrow> integration_step list \<Rightarrow> tree_entry list \<Rightarrow> nat \<Rightarrow> tree_entry list \<Rightarrow> bool" where
  "applied_upto sha ss t0 k t \<longleftrightarrow> others_kept sha ss t0 t
     \<and> (\<forall>i < length ss. fdig sha t (step_path ss i)
           = (if i < k then is_AfterDigest (ss ! i) else fdig sha t0 (step_path ss i)))"

definition in_doubt ::
  "(string \<Rightarrow> string) \<Rightarrow> integration_step list \<Rightarrow> tree_entry list \<Rightarrow> nat \<Rightarrow> tree_entry list \<Rightarrow> bool" where
  "in_doubt sha ss t0 k t \<longleftrightarrow> others_kept sha ss t0 t
     \<and> (\<forall>i < length ss. i \<noteq> k \<longrightarrow> fdig sha t (step_path ss i)
           = (if i < k then is_AfterDigest (ss ! i) else fdig sha t0 (step_path ss i)))"

lemma applied_in_doubt: "applied_upto sha ss t0 k t \<Longrightarrow> in_doubt sha ss t0 k t"
  by (simp add: applied_upto_def in_doubt_def)

lemma applied_Suc_in_doubt: "applied_upto sha ss t0 (Suc k) t \<Longrightarrow> in_doubt sha ss t0 k t"
  by (auto simp: applied_upto_def in_doubt_def less_Suc_eq)

lemma in_doubt_end: "in_doubt sha ss t0 (length ss) t \<Longrightarrow> applied_upto sha ss t0 (length ss) t"
  by (auto simp: applied_upto_def in_doubt_def)

lemma applied_refl: "applied_upto sha ss t 0 t"
  by (simp add: applied_upto_def others_kept_def)

lemma valid_steps_sorted:
  "valid_steps previous ss \<Longrightarrow> sorted_wrt (<) (map is_Path ss) \<and> (\<forall>s \<in> set ss. previous < is_Path s)"
proof (induction ss arbitrary: previous)
  case (Cons s ss)
  then have p: "previous < is_Path s" and v: "valid_steps (is_Path s) ss"
    by (auto simp: not_le split: if_splits)
  show ?case using Cons.IH [OF v] p by (auto intro: less_trans)
qed simp

lemma sorted_paths_distinct: "sorted_wrt (<) (map is_Path ss) \<Longrightarrow> distinct (map is_Path ss)"
  by (metis strict_sorted_iff)

definition plan_ok :: "integration_step list \<Rightarrow> bool" where
  "plan_ok ss \<longleftrightarrow> distinct (map is_Path ss) \<and> list_all (\<lambda>s. \<not> is_temp (is_Path s)) ss"

lemma plan_okI: "valid_steps [] ss \<Longrightarrow> list_all (\<lambda>s. \<not> is_temp (is_Path s)) ss \<Longrightarrow> plan_ok ss"
  using valid_steps_sorted sorted_paths_distinct by (auto simp: plan_ok_def)

lemma step_path_neq: "plan_ok ss \<Longrightarrow> i < length ss \<Longrightarrow> k < length ss \<Longrightarrow> i \<noteq> k
    \<Longrightarrow> step_path ss i \<noteq> is_Path (ss ! k)"
  by (simp add: plan_ok_def step_path_def nth_eq_iff_index_eq [of "map is_Path ss" i k, simplified])

lemma step_path_temp: "plan_ok ss \<Longrightarrow> i < length ss \<Longrightarrow> \<not> is_temp (step_path ss i)"
  by (simp add: plan_ok_def step_path_def list_all_length)

lemma apply_step_doubt:
  assumes ok: "plan_ok ss" and k: "k < length ss" and a: "applied_upto sha ss t0 k t"
    and s: "applyIntegrationStep sha dsz io (ss ! k) t = (r, t')"
  shows "in_doubt sha ss t0 k t'"
proof -
  have other: "fdig sha t' q = fdig sha t q" if "q \<noteq> is_Path (ss ! k)" "\<not> is_temp q" for q
    using apply_step_other [OF s] that by blast
  have "others_kept sha ss t0 t'"
    using a other k nth_mem [OF k] unfolding applied_upto_def others_kept_def by (metis imageI)
  then show ?thesis
    using a other step_path_neq [OF ok _ k] step_path_temp [OF ok]
    by (simp add: in_doubt_def applied_upto_def)
qed

lemma apply_step_applied:
  assumes ok: "plan_ok ss" and k: "k < length ss" and a: "applied_upto sha ss t0 k t"
    and s: "applyIntegrationStep sha dsz io (ss ! k) t = (None, t')"
  shows "applied_upto sha ss t0 (Suc k) t'"
  using apply_step_doubt [OF ok k a s] apply_step_ok [OF s]
  by (auto simp: applied_upto_def in_doubt_def less_Suc_eq step_path_def)

text \<open>The relation between the live tree, the journal on disk and the journal in memory that holds at
  each point of the loop.\<close>

definition disk_view ::
  "(string \<Rightarrow> string) \<Rightarrow> integration_plan \<Rightarrow> tree_entry list \<Rightarrow> tree_entry list
   \<Rightarrow> integration_journal slot \<Rightarrow> bool" where
  "disk_view sha plan t0 t d \<longleftrightarrow>
     (case d of
        Slot_Absent \<Rightarrow> applied_upto sha (ip_Steps plan) t0 0 t
      | Slot_Corrupt \<Rightarrow> False
      | Slot_Has j \<Rightarrow> ij_Plan j = plan \<and> ij_Cursor j \<le> length (ip_Steps plan)
          \<and> in_doubt sha (ip_Steps plan) t0 (ij_Cursor j) t
          \<and> (ij_State j = integrationCommitted \<longrightarrow> ij_Cursor j = length (ip_Steps plan))
          \<and> (ij_State j = integrationPrepared \<longrightarrow> ij_Cursor j = 0))"

definition mem_view ::
  "(string \<Rightarrow> string) \<Rightarrow> integration_plan \<Rightarrow> tree_entry list \<Rightarrow> nat \<Rightarrow> integ_state \<Rightarrow> bool" where
  "mem_view sha plan t0 k st \<longleftrightarrow>
     ig_disk st = Slot_Has (ig_mem st) \<and> ij_State (ig_mem st) \<noteq> integrationCommitted
     \<and> applied_upto sha (ip_Steps plan) t0 k (ig_live st)"

definition integ_inv ::
  "(string \<Rightarrow> string) \<Rightarrow> integration_plan \<Rightarrow> tree_entry list \<Rightarrow> integ_state \<Rightarrow> bool" where
  "integ_inv sha plan t0 st \<longleftrightarrow>
     ij_Plan (ig_mem st) = plan \<and> ij_Cursor (ig_mem st) \<le> length (ip_Steps plan)
     \<and> disk_view sha plan t0 (ig_live st) (ig_disk st)
     \<and> (case ig_pc st of
          IG_Prepare \<Rightarrow> ig_disk st = Slot_Absent \<and> ij_Cursor (ig_mem st) = 0
             \<and> ij_State (ig_mem st) = integrationPrepared
        | IG_Loop \<Rightarrow> mem_view sha plan t0 (ij_Cursor (ig_mem st)) st
        | IG_Advance \<Rightarrow> mem_view sha plan t0 (Suc (ij_Cursor (ig_mem st))) st
             \<and> ij_Cursor (ig_mem st) < length (ip_Steps plan)
        | IG_Commit \<Rightarrow> mem_view sha plan t0 (length (ip_Steps plan)) st
             \<and> ij_Cursor (ig_mem st) = length (ip_Steps plan)
        | IG_Quarantine e \<Rightarrow> ig_disk st = Slot_Has (ig_mem st)
             \<and> ij_State (ig_mem st) \<noteq> integrationCommitted
        | IG_Done \<Rightarrow> ig_disk st = Slot_Has (ig_mem st) \<and> ij_State (ig_mem st) = integrationCommitted
        | IG_Failed e \<Rightarrow> True)"

lemma disk_view_write:
  "disk_view sha plan t0 t d \<Longrightarrow> disk_view sha plan t0 t (Slot_Has j) \<Longrightarrow> disk_view sha plan t0 t (write_slot w j d)"
  by (cases w) (simp_all add: write_slot_def)

lemma write_done [simp]: "write_slot W_Done j d = Slot_Has j"
  by (simp add: write_slot_def)

lemma state_names_distinct [simp]:
  "integrationPrepared \<noteq> integrationCommitted" "integrationApplying \<noteq> integrationCommitted"
  "integrationQuarantined \<noteq> integrationCommitted" "integrationApplying \<noteq> integrationPrepared"
  "integrationQuarantined \<noteq> integrationPrepared" "integrationCommitted \<noteq> integrationPrepared"
  "integrationApplying \<noteq> integrationQuarantined" "integrationCommitted \<noteq> integrationQuarantined"
  by (simp_all add: integration_state_defs)

lemma disk_view_Has: "disk_view sha plan t0 t (Slot_Has j) \<longleftrightarrow>
     ij_Plan j = plan \<and> ij_Cursor j \<le> length (ip_Steps plan)
     \<and> in_doubt sha (ip_Steps plan) t0 (ij_Cursor j) t
     \<and> (ij_State j = integrationCommitted \<longrightarrow> ij_Cursor j = length (ip_Steps plan))
     \<and> (ij_State j = integrationPrepared \<longrightarrow> ij_Cursor j = 0)"
  by (simp add: disk_view_def)

lemma integ_inv_step:
  assumes ok: "plan_ok (ip_Steps plan)" and inv: "integ_inv sha plan t0 st"
    and step: "integ_step sha dsz st st'"
  shows "integ_inv sha plan t0 st'"
  using step
proof (cases rule: integ_step.cases)
  case (ig_prepare w)
  have "disk_view sha plan t0 (ig_live st) (Slot_Has (ig_mem st))"
    using inv ig_prepare by (auto simp: integ_inv_def disk_view_def intro: applied_in_doubt)
  then show ?thesis
    using inv ig_prepare by (auto simp: integ_inv_def save_journal_def mem_view_def intro: disk_view_write)
      (auto simp: disk_view_def)
next
  case (ig_apply io t)
  have "applied_upto sha (ip_Steps plan) t0 (Suc (ij_Cursor (ig_mem st))) t"
    by (rule apply_step_applied [OF ok]) (use inv ig_apply in \<open>auto simp: integ_inv_def mem_view_def integ_steps_def\<close>)
  then show ?thesis
    using inv ig_apply by (auto simp: integ_inv_def mem_view_def integ_steps_def disk_view_Has
        intro: applied_Suc_in_doubt)
next
  case (ig_reject io e t)
  have "in_doubt sha (ip_Steps plan) t0 (ij_Cursor (ig_mem st)) t"
    by (rule apply_step_doubt [OF ok]) (use inv ig_reject in \<open>auto simp: integ_inv_def mem_view_def integ_steps_def\<close>)
  then show ?thesis
    using inv ig_reject by (auto simp: integ_inv_def mem_view_def disk_view_Has)
next
  case (ig_quarantine e w now)
  then show ?thesis
    using inv by (auto simp: integ_inv_def save_journal_def disk_view_Has intro!: disk_view_write)
next
  case (ig_advance w now)
  then have "applied_upto sha (ip_Steps plan) t0 (Suc (ij_Cursor (ig_mem st))) (ig_live st)"
    using inv by (simp add: integ_inv_def mem_view_def)
  then show ?thesis
    using inv ig_advance applied_in_doubt
    by (auto simp: integ_inv_def save_journal_def mem_view_def disk_view_Has intro!: disk_view_write)
next
  case ig_finish
  then show ?thesis
    using inv by (auto simp: integ_inv_def mem_view_def integ_steps_def)
next
  case (ig_commit w now)
  then show ?thesis
    using inv by (auto simp: integ_inv_def save_journal_def mem_view_def disk_view_Has
        intro!: disk_view_write applied_in_doubt)
qed

lemma integ_inv_init:
  "ij_Plan j = plan \<Longrightarrow> ij_Cursor j = 0 \<Longrightarrow> ij_State j = integrationPrepared
   \<Longrightarrow> integ_inv sha plan t (integ_init t j)"
  by (simp add: integ_inv_def integ_init_def disk_view_def applied_refl)

lemma integ_inv_reach:
  assumes "plan_ok (ip_Steps plan)" and "integ_inv sha plan t0 st" and "integ_reach sha dsz st st'"
  shows "integ_inv sha plan t0 st'"
  using assms(3,2) unfolding integ_reach_def
  by (induction rule: rtranclp_induct) (auto intro: integ_inv_step [OF assms(1)])

lemma integration_begin_ok:
  assumes "integration_begin sha enc now rnd ctx live plan l r = Inr j"
  shows "ij_Plan j = plan \<and> ij_Cursor j = 0 \<and> ij_State j = integrationPrepared
     \<and> validIntegrationPlan plan \<and> valid_steps [] (ip_Steps plan)
     \<and> snapshotTree sha ctx live = Some (ip_BaseSnapshot plan)
     \<and> AssertLease now ctx l r = None \<and> ip_LeaseGeneration plan = le_FencingGeneration l
     \<and> ip_GenerationID plan = le_GenerationID l"
  using assms by (auto simp: integration_begin_def validIntegrationPlan_def split: option.splits if_splits)

subsection \<open>What a plan contains\<close>

lemma regular_kind: "is_regular e \<Longrightarrow> \<not> is_dir e \<and> \<not> is_symlink e"
  by (auto simp: is_regular_def is_dir_def is_symlink_def)

lemma tree_files_sound:
  "tree_files_loop sha ctx t es = Some fs \<Longrightarrow>
   \<forall>(p, st) \<in> set fs. \<not> excluded p \<and> fileStateAt sha t p = Some st \<and> p \<in> te_Path ` set es"
proof (induction es arbitrary: fs)
  case (Cons e es)
  show ?case using Cons.prems Cons.IH by (fastforce split: if_splits option.splits)
qed simp

lemma tree_files_complete:
  "tree_files_loop sha ctx t es = Some fs \<Longrightarrow> e \<in> set es \<Longrightarrow> \<not> excluded (te_Path e) \<Longrightarrow> is_regular e
   \<Longrightarrow> te_Path e \<in> fst ` set fs"
proof (induction es arbitrary: fs)
  case (Cons a es)
  show ?case using Cons.prems Cons.IH by (auto split: if_splits option.splits dest: regular_kind)
qed simp

lemma regular_entry_at: "entry_at t p = Some e \<Longrightarrow> e \<in> set t \<and> te_Path e = p"
  by (metis (mono_tags, lifting) entry_at_def find_Some_iff nth_mem)

lemma file_of_digest:
  assumes f: "treeFiles sha ctx t = Some fs" and p: "\<not> excluded p"
  shows "fs_Digest (file_of fs p) = fdig sha t p"
proof (cases "map_of fs p")
  case (Some st)
  then have "fileStateAt sha t p = Some st"
    using tree_files_sound [OF f [unfolded treeFiles_def]] map_of_SomeD [OF Some] by auto
  then show ?thesis using Some fileStateAt_digest by (simp add: file_of_def)
next
  case None
  have "fdig sha t p = []"
  proof (rule ccontr)
    assume "fdig sha t p \<noteq> []"
    then obtain e c where e: "entry_at t p = Some e" and c: "te_Kind e = Tree_File c"
      by (auto simp: fdig_def split: option.splits tree_kind.splits)
    have "p \<in> fst ` set fs"
      using tree_files_complete [OF f [unfolded treeFiles_def], of e] regular_entry_at [OF e] c p
      by (auto simp: is_regular_def)
    then show False using None by (simp add: map_of_eq_None_iff)
  qed
  then show ?thesis using None by (simp add: file_of_def)
qed

lemma file_of_excluded:
  "treeFiles sha ctx t = Some fs \<Longrightarrow> p \<in> fst ` set fs \<Longrightarrow> \<not> excluded p \<and> p \<in> te_Path ` set t"
  using tree_files_sound by (fastforce simp: treeFiles_def)

lemma plan_steps_spec:
  "plan_steps cand bf cf ps = Some ss \<Longrightarrow>
   (\<forall>s \<in> set ss. is_Path s \<in> set ps \<and> is_BeforeDigest s = fs_Digest (file_of bf (is_Path s))
        \<and> is_AfterDigest s = fs_Digest (file_of cf (is_Path s)))
   \<and> (\<forall>p \<in> set ps. p \<notin> is_Path ` set ss \<longrightarrow> fs_Digest (file_of bf p) = fs_Digest (file_of cf p))"
proof (induction ps arbitrary: ss)
  case (Cons p ps)
  show ?case
    using Cons.prems Cons.IH by (auto simp: Let_def split: if_splits option.splits)
qed simp

lemma BuildIntegrationPlan_spec:
  assumes "BuildIntegrationPlan sha enc now ctx live cand g l r = Inr plan"
  obtains bf cf where "treeFiles sha ctx live = Some bf" and "treeFiles sha ctx cand = Some cf"
    and "plan_steps cand bf cf (sort (remdups (map fst bf @ map fst cf))) = Some (ip_Steps plan)"
    and "AssertLease now ctx l r = None" and "ip_LeaseGeneration plan = le_FencingGeneration l"
    and "snapshotTree sha ctx live = Some (ip_BaseSnapshot plan)"
  using assms
  by (auto simp: BuildIntegrationPlan_def Let_def split: option.splits sum.splits if_splits)

lemma file_of_default: "p \<notin> fst ` set fs \<Longrightarrow> fs_Digest (file_of fs p) = []"
  by (metis file_of_def file_state.select_convs(2) map_of_eq_None_iff option.simps(4))

definition no_temps :: "tree_entry list \<Rightarrow> bool" where
  "no_temps t \<longleftrightarrow> list_all (\<lambda>e. \<not> is_temp (te_Path e)) t"

lemma plan_no_temps:
  assumes "BuildIntegrationPlan sha enc now ctx live cand g l r = Inr plan"
    and "no_temps live" and "no_temps cand"
  shows "list_all (\<lambda>s. \<not> is_temp (is_Path s) \<and> \<not> excluded (is_Path s)) (ip_Steps plan)"
proof -
  obtain bf cf where f: "treeFiles sha ctx live = Some bf" "treeFiles sha ctx cand = Some cf"
    and s: "plan_steps cand bf cf (sort (remdups (map fst bf @ map fst cf))) = Some (ip_Steps plan)"
    using BuildIntegrationPlan_spec [OF assms(1)] by blast
  have "is_Path ` set (ip_Steps plan) \<subseteq> fst ` set bf \<union> fst ` set cf"
    using plan_steps_spec [OF s] by auto
  then have "\<not> excluded (is_Path x) \<and> is_Path x \<in> te_Path ` set live \<union> te_Path ` set cand"
    if "x \<in> set (ip_Steps plan)" for x
    using that file_of_excluded [OF f(1)] file_of_excluded [OF f(2)] by blast
  then show ?thesis using assms(2,3) by (fastforce simp: list_all_iff no_temps_def)
qed

lemma plan_describes:
  assumes "BuildIntegrationPlan sha enc now ctx live cand g l r = Inr plan" and "\<not> excluded p"
  shows "(p \<notin> is_Path ` set (ip_Steps plan) \<longrightarrow> fdig sha live p = fdig sha cand p)
    \<and> (\<forall>s \<in> set (ip_Steps plan). is_Path s = p \<longrightarrow>
          is_BeforeDigest s = fdig sha live p \<and> is_AfterDigest s = fdig sha cand p)"
proof -
  obtain bf cf where f: "treeFiles sha ctx live = Some bf" "treeFiles sha ctx cand = Some cf"
    and s: "plan_steps cand bf cf (sort (remdups (map fst bf @ map fst cf))) = Some (ip_Steps plan)"
    using BuildIntegrationPlan_spec [OF assms(1)] by blast
  have d: "fs_Digest (file_of bf p) = fdig sha live p" "fs_Digest (file_of cf p) = fdig sha cand p"
    using file_of_digest f assms(2) by auto
  have "fs_Digest (file_of bf p) = fs_Digest (file_of cf p)"
    if "p \<notin> is_Path ` set (ip_Steps plan)"
    using that plan_steps_spec [OF s] file_of_default by (cases "p \<in> fst ` set bf \<union> fst ` set cf") auto
  then show ?thesis using plan_steps_spec [OF s] d by auto
qed

lemma begin_inv:
  assumes "integration_begin sha enc now rnd ctx live plan l r = Inr j"
    and "list_all (\<lambda>s. \<not> is_temp (is_Path s)) (ip_Steps plan)"
    and "integ_reach sha dsz (integ_init live j) st"
  shows "integ_inv sha plan live st"
  using integration_begin_ok [OF assms(1)] plan_okI [OF _ assms(2)] integ_inv_init [of j plan sha live]
    integ_inv_reach [OF _ _ assms(3)] by blast

text \<open>A run without failures, as a function: \<open>integ_next\<close> is one transition.\<close>

definition integ_next :: "(string \<Rightarrow> string) \<Rightarrow> nat \<Rightarrow> instant \<Rightarrow> integ_state \<Rightarrow> integ_state" where
  "integ_next sha dsz now st =
    (case ig_pc st of
       IG_Prepare \<Rightarrow> save_journal W_Done (ig_mem st) IG_Loop (IG_Failed WS_ErrRejected) st
     | IG_Loop \<Rightarrow>
         if ij_Cursor (ig_mem st) < length (integ_steps st)
         then (case applyIntegrationStep sha dsz IO_Ok (integ_steps st ! ij_Cursor (ig_mem st)) (ig_live st) of
                 (None, t) \<Rightarrow> st\<lparr>ig_live := t, ig_pc := IG_Advance\<rparr>
               | (Some e, t) \<Rightarrow> st\<lparr>ig_live := t, ig_pc := IG_Quarantine e\<rparr>)
         else st\<lparr>ig_pc := IG_Commit\<rparr>
     | IG_Advance \<Rightarrow> save_journal W_Done ((ig_mem st)\<lparr>ij_State := integrationApplying,
             ij_Cursor := ij_Cursor (ig_mem st) + 1, ij_UpdatedAt := now\<rparr>) IG_Loop (IG_Failed WS_ErrRejected) st
     | IG_Quarantine e \<Rightarrow> save_journal W_Done ((ig_mem st)\<lparr>ij_State := integrationQuarantined, ij_UpdatedAt := now\<rparr>)
           (IG_Failed e) (IG_Failed e) st
     | IG_Commit \<Rightarrow> save_journal W_Done ((ig_mem st)\<lparr>ij_State := integrationCommitted, ij_UpdatedAt := now\<rparr>)
           IG_Done (IG_Failed WS_ErrRejected) st
     | _ \<Rightarrow> st)"

lemma integ_next_step: "integ_next sha dsz now st = st \<or> integ_step sha dsz st (integ_next sha dsz now st)"
proof (cases "ig_pc st")
  case IG_Advance
  then show ?thesis using ig_advance [where w = W_Done and now = now] by (simp add: integ_next_def)
qed (auto simp: integ_next_def split: prod.split option.split intro: integ_step.intros)

fun integ_exec :: "(string \<Rightarrow> string) \<Rightarrow> nat \<Rightarrow> instant \<Rightarrow> nat \<Rightarrow> integ_state \<Rightarrow> integ_state" where
  "integ_exec sha dsz now 0 st = st"
| "integ_exec sha dsz now (Suc n) st = integ_exec sha dsz now n (integ_next sha dsz now st)"

lemma integ_exec_reach: "integ_reach sha dsz st (integ_exec sha dsz now n st)"
proof (induction n arbitrary: st)
  case 0
  then show ?case by (simp add: integ_reach_def)
next
  case (Suc n)
  then show ?case
    using integ_next_step [of sha dsz now st] unfolding integ_reach_def
    by (auto intro: converse_rtranclp_into_rtranclp)
qed

subsection \<open>Properties\<close>

text \<open>C5: An integration that ends makes the live files those of the candidate. If a plan was built from
  a live tree and a candidate tree, and was applied to that live tree under whatever failures, and
  the loop ended with a committed journal, then every regular file outside the excluded names is
  exactly the candidate's (same content and mode, or absent in both), and the excluded names are as
  they were. Names of temporary files are left aside.\<close>

theorem integration_done_exact:
  assumes "BuildIntegrationPlan sha enc now0 ctx0 live cand g l0 r0 = Inr plan"
    and "integration_begin sha enc now rnd ctx live plan l r = Inr j"
    and "no_temps live" and "no_temps cand"
    and "integ_reach sha dsz (integ_init live j) st" and "ig_pc st = IG_Done" and "\<not> is_temp p"
  shows "fdig sha (ig_live st) p = (if excluded p then fdig sha live p else fdig sha cand p)"
proof -
  have plan: "\<not> is_temp (is_Path s) \<and> \<not> excluded (is_Path s)" if "s \<in> set (ip_Steps plan)" for s
    using plan_no_temps [OF assms(1,3,4)] that by (auto simp: list_all_iff)
  have "integ_inv sha plan live st"
    by (rule begin_inv [OF assms(2) _ assms(5)]) (use plan in \<open>auto simp: list_all_iff\<close>)
  then have "applied_upto sha (ip_Steps plan) live (length (ip_Steps plan)) (ig_live st)"
    using assms(6) in_doubt_end by (auto simp: integ_inv_def disk_view_Has)
  then have "(p \<notin> is_Path ` set (ip_Steps plan) \<longrightarrow> fdig sha (ig_live st) p = fdig sha live p)
      \<and> (\<forall>s \<in> set (ip_Steps plan). is_Path s = p \<longrightarrow> fdig sha (ig_live st) p = is_AfterDigest s)"
    using assms(7) by (auto simp: applied_upto_def others_kept_def step_path_def in_set_conv_nth)
  then show ?thesis using plan_describes [OF assms(1)] plan by (cases "p \<in> is_Path ` set (ip_Steps plan)") auto
qed

definition live0 :: "tree_entry list" where
  "live0 = [\<lparr>te_Path = ''.git'', te_Perm = 493, te_Size = 96, te_Kind = Tree_Dir\<rparr>,
     \<lparr>te_Path = ''a'', te_Perm = 420, te_Size = 3, te_Kind = Tree_File ''one''\<rparr>,
     \<lparr>te_Path = ''b'', te_Perm = 420, te_Size = 1, te_Kind = Tree_File ''x''\<rparr>]"

definition cand0 :: "tree_entry list" where
  "cand0 = [\<lparr>te_Path = ''a'', te_Perm = 420, te_Size = 3, te_Kind = Tree_File ''ONE''\<rparr>,
     \<lparr>te_Path = ''d'', te_Perm = 448, te_Size = 64, te_Kind = Tree_Dir\<rparr>,
     \<lparr>te_Path = ''d/e'', te_Perm = 493, te_Size = 2, te_Kind = Tree_File ''hi''\<rparr>]"

definition gen0 :: ws_generation where
  "gen0 = \<lparr>wg_ID = ''gen_1'', wg_Path = ''/state/ws/gen_1'', wg_RepositoryID = ''repo'',
       wg_SourceFilesystem = ''fs'', wg_CandidateSnapshot = ''snap'', wg_FencingGeneration = 0,
       wg_State = activeState, wg_CreatedAt = 1\<rparr>"

definition repo0 :: ws_repo where "repo0 = snd (acq 5 ''a'' sample_repo)"

text \<open>A hash function for the examples: the first byte.\<close>

definition tiny_sha :: "string \<Rightarrow> string" where "tiny_sha s = take 1 s"

definition enc0 :: "integration_plan \<Rightarrow> string option" where
  "enc0 p = Some (ip_BaseSnapshot p @ concat (map is_Path (ip_Steps p)))"

definition plan0 :: integration_plan where
  "plan0 = projr (BuildIntegrationPlan tiny_sha enc0 6 Ctx_Live live0 cand0 gen0 sample_lease repo0)"

definition journal0 :: integration_journal where
  "journal0 = projr (integration_begin tiny_sha enc0 7 (Some ''r'') Ctx_Live live0 plan0 sample_lease repo0)"

lemma plan0_built:
  "BuildIntegrationPlan tiny_sha enc0 6 Ctx_Live live0 cand0 gen0 sample_lease repo0 = Inr plan0"
proof -
  have "is_ok (BuildIntegrationPlan tiny_sha enc0 6 Ctx_Live live0 cand0 gen0 sample_lease repo0)" by code_simp
  then show ?thesis by (auto simp: is_ok_iff plan0_def)
qed

lemma journal0_begun:
  "integration_begin tiny_sha enc0 7 (Some ''r'') Ctx_Live live0 plan0 sample_lease repo0 = Inr journal0"
proof -
  have "is_ok (integration_begin tiny_sha enc0 7 (Some ''r'') Ctx_Live live0 plan0 sample_lease repo0)" by code_simp
  then show ?thesis by (auto simp: is_ok_iff journal0_def)
qed

theorem integration_done_exact_witness:
  "\<exists>st. integ_reach tiny_sha 64 (integ_init live0 journal0) st \<and> ig_pc st = IG_Done
     \<and> fdig tiny_sha (ig_live st) ''d/e'' = fdig tiny_sha cand0 ''d/e''"
proof -
  let ?st = "integ_exec tiny_sha 64 8 9 (integ_init live0 journal0)"
  have r: "integ_reach tiny_sha 64 (integ_init live0 journal0) ?st" by (rule integ_exec_reach)
  have d: "ig_pc ?st = IG_Done" by code_simp
  have n: "no_temps live0" "no_temps cand0" "\<not> is_temp ''d/e''" "\<not> excluded ''d/e''" by code_simp+
  show ?thesis
    using integration_done_exact [OF plan0_built journal0_begun n(1,2) r d n(3)] r d n(4) by auto
qed

text \<open>C6: At every point of an integration, and so after a crash at any point, the live files and the
  journal on disk agree: without a journal file no file was touched, and a journal that is there is
  the plan's with a cursor such that the steps before it are applied, the steps behind the one it
  points to have not begun, every file outside the plan is as it was (names of temporary files
  aside), and it says COMMITTED only when every step is applied. A journal that does not parse is
  never left behind.\<close>

theorem integration_crash_consistent:
  assumes "integration_begin sha enc now rnd ctx live plan l r = Inr j"
    and "list_all (\<lambda>s. \<not> is_temp (is_Path s)) (ip_Steps plan)"
    and "integ_reach sha dsz (integ_init live j) st"
  shows "case ig_disk st of
       Slot_Absent \<Rightarrow> applied_upto sha (ip_Steps plan) live 0 (ig_live st)
     | Slot_Corrupt \<Rightarrow> False
     | Slot_Has d \<Rightarrow> ij_Plan d = plan \<and> ij_Cursor d \<le> length (ip_Steps plan)
         \<and> in_doubt sha (ip_Steps plan) live (ij_Cursor d) (ig_live st)
         \<and> (ij_State d = integrationCommitted \<longrightarrow>
              applied_upto sha (ip_Steps plan) live (length (ip_Steps plan)) (ig_live st))"
proof -
  have "disk_view sha plan live (ig_live st) (ig_disk st)"
    using begin_inv [OF assms] by (simp add: integ_inv_def)
  then show ?thesis using in_doubt_end [of sha "ip_Steps plan" live "ig_live st"]
    by (cases "ig_disk st") (auto simp: disk_view_def)
qed

theorem integration_crash_consistent_witness:
  "\<exists>st d. integ_reach tiny_sha 64 (integ_init live0 journal0) st \<and> ig_disk st = Slot_Has d
     \<and> ij_Cursor d = 1 \<and> in_doubt tiny_sha (ip_Steps plan0) live0 1 (ig_live st)"
proof -
  let ?st = "integ_exec tiny_sha 64 8 4 (integ_init live0 journal0)"
  have r: "integ_reach tiny_sha 64 (integ_init live0 journal0) ?st" by (rule integ_exec_reach)
  have n: "list_all (\<lambda>s. \<not> is_temp (is_Path s)) (ip_Steps plan0)" by code_simp
  have "(case ig_disk ?st of Slot_Has d \<Rightarrow> ij_Cursor d = 1 | _ \<Rightarrow> False)" by code_simp
  then obtain d where "ig_disk ?st = Slot_Has d" "ij_Cursor d = 1" by (auto split: slot.splits)
  then show ?thesis using integration_crash_consistent [OF journal0_begun n r] r by auto
qed

subsection \<open>Recovery\<close>

definition at_after :: "(string \<Rightarrow> string) \<Rightarrow> tree_entry list \<Rightarrow> integration_step \<Rightarrow> bool" where
  "at_after sha t s = (case fileStateAt sha t (is_Path s) of
     None \<Rightarrow> False | Some st \<Rightarrow> fs_Digest st = is_AfterDigest s)"

lemma at_after_fdig: "at_after sha t s \<Longrightarrow> fdig sha t (is_Path s) = is_AfterDigest s"
  by (auto simp: at_after_def split: option.splits dest: fileStateAt_digest)

lemma recover_loop_result:
  "recover_loop sha now w live ss j d = (b, j', d') \<Longrightarrow>
   (b \<longrightarrow> list_all (at_after sha live) ss \<and> ij_Plan j' = ij_Plan j)
   \<and> (list_all (at_after sha live) ss \<longrightarrow> (\<forall>k. w k = W_Done) \<longrightarrow> b)"
proof (induction ss arbitrary: j d)
  case (Cons s ss)
  show ?case
  proof (cases "at_after sha live s \<and> w (ij_Cursor j) = W_Done")
    case False
    then show ?thesis using Cons.prems by (auto simp: at_after_def Let_def split: option.splits if_splits)
  next
    case True
    let ?j = "j\<lparr>ij_Cursor := ij_Cursor j + 1, ij_State := integrationApplying, ij_UpdatedAt := now\<rparr>"
    have "recover_loop sha now w live ss ?j (Slot_Has ?j) = (b, j', d')"
      using Cons.prems True by (auto simp: at_after_def Let_def split: option.splits)
    then show ?thesis using Cons.IH [of ?j "Slot_Has ?j"] True by simp
  qed
qed auto

lemma recoverJournal_iff:
  "fst (recoverJournal sha now (\<lambda>_. W_Done) live j d) \<longleftrightarrow>
     (ij_State j = integrationPrepared \<or> ij_State j = integrationApplying)
     \<and> validIntegrationPlan (ij_Plan j) \<and> ij_Cursor j \<le> length (ip_Steps (ij_Plan j))
     \<and> list_all (at_after sha live) (drop (ij_Cursor j) (ip_Steps (ij_Plan j)))"
proof -
  obtain b j' d' where l: "recover_loop sha now (\<lambda>_. W_Done) live
      (drop (ij_Cursor j) (ip_Steps (ij_Plan j))) j d = (b, j', d')" by (metis prod.exhaust)
  have "b \<longleftrightarrow> list_all (at_after sha live) (drop (ij_Cursor j) (ip_Steps (ij_Plan j)))"
    using recover_loop_result [OF l] by blast
  then show ?thesis by (cases b) (auto simp: recoverJournal_def l not_le)
qed

lemma recoverJournal_commits:
  assumes "recoverJournal sha now w live j d = (True, d')"
  shows "\<exists>c. d' = Slot_Has c \<and> ij_State c = integrationCommitted \<and> ij_Plan c = ij_Plan j
     \<and> list_all (at_after sha live) (drop (ij_Cursor j) (ip_Steps (ij_Plan j)))"
proof -
  obtain b j' e where l: "recover_loop sha now w live
      (drop (ij_Cursor j) (ip_Steps (ij_Plan j))) j d = (b, j', e)" by (metis prod.exhaust)
  have b: "b" and d: "d' = Slot_Has (j'\<lparr>ij_State := integrationCommitted, ij_UpdatedAt := now\<rparr>)"
    using assms by (auto simp: recoverJournal_def l write_slot_def split: if_splits bool.splits)
  show ?thesis using recover_loop_result [OF l] b d by auto
qed

lemma recoverJournal_in_flight:
  "recoverJournal sha now w live j d = (True, d') \<Longrightarrow>
     ij_State j = integrationPrepared \<or> ij_State j = integrationApplying"
  by (simp add: recoverJournal_def split: if_splits)



text \<open>A journal that was prepared and then abandoned before its first step is not retried: recovery
  marks it quarantined, and every later recovery of the journal directory fails on it.\<close>

lemma untouched_journal_blocks_recovery:
  assumes "valid_steps [] (ip_Steps (ij_Plan j))" and "ip_Steps (ij_Plan j) = s # ss"
    and "ij_State j = integrationPrepared" and "ij_Cursor j = 0" and "validIntegrationPlan (ij_Plan j)"
    and "\<forall>st. fileStateAt sha live (is_Path s) = Some st \<longrightarrow> fs_Digest st = is_BeforeDigest s"
    and "fileStateAt sha live (is_Path s) \<noteq> None" and "\<forall>q. jsize q \<le> maxJSON"
  shows "\<exists>q. recoverJournals sha jsize now (\<lambda>_ _. W_Done) live [Slot_Has j] = (False, [Slot_Has q])
     \<and> (\<forall>w live' now'. recoverJournals sha jsize now' w live' [Slot_Has q] = (False, [Slot_Has q]))"
proof -
  let ?q = "j\<lparr>ij_State := integrationQuarantined, ij_UpdatedAt := now\<rparr>"
  have "is_BeforeDigest s \<noteq> is_AfterDigest s" using assms(1,2) by (auto split: if_splits)
  then have "recoverJournals sha jsize now (\<lambda>_ _. W_Done) live [Slot_Has j] = (False, [Slot_Has ?q])"
    using assms(2-) by (auto simp: recoverJournal_def Let_def not_less [symmetric] split: option.splits)
  moreover have "recoverJournals sha jsize now' w live' [Slot_Has ?q] = (False, [Slot_Has ?q])" for w live' now'
    using assms(8) by (simp add: recoverJournal_def integration_state_defs not_less)
  ultimately show ?thesis by blast
qed

text \<open>A plan that replaces a directory by a file of the same name cannot be applied: the step for the
  file comes first, and the directory is still there.\<close>

lemma directory_blocks_step:
  assumes "entry_at t (is_Path s) = Some e" and "is_dir e"
  shows "fst (applyIntegrationStep sha dsz io s t) \<noteq> None"
  using assms by (auto simp: applyIntegrationStep_def fileStateAt_def is_dir_def split: option.split)

text \<open>A journal longer than what \<open>readJSON\<close> reads stops every recovery, a committed one too.\<close>

lemma long_journal_blocks_recovery:
  "maxJSON < jsize j \<Longrightarrow> recoverJournals sha jsize now w live (Slot_Has j # fs) = (False, Slot_Has j # fs)"
  by simp

subsection \<open>Opening a repository\<close>

definition committed_slot :: "integration_journal slot \<Rightarrow> bool" where
  "committed_slot f = (case f of Slot_Has j \<Rightarrow> ij_State j = integrationCommitted | _ \<Rightarrow> False)"

lemma recoverJournals_committed:
  "recoverJournals sha jsize now w live fs = (True, fs') \<Longrightarrow> list_all committed_slot fs' \<and> length fs' = length fs"
proof (induction fs arbitrary: w fs')
  case (Cons f fs)
  obtain j where f: "f = Slot_Has j" using Cons.prems by (cases f) auto
  show ?case
  proof (cases "ij_State j = integrationCommitted")
    case True
    then show ?thesis using Cons f
      by (cases "recoverJournals sha jsize now (\<lambda>n. w (Suc n)) live fs")
         (auto simp: committed_slot_def split: if_splits)
  next
    case False
    obtain b f' where r: "recoverJournal sha now (w 0) live j f = (b, f')" by fastforce
    have b using Cons.prems f False r by (cases b) (auto split: if_splits)
    then have "committed_slot f'" using recoverJournal_commits [of sha now "w 0" live j f f'] r
      by (auto simp: committed_slot_def)
    then show ?thesis using Cons f False r \<open>b\<close>
      by (cases "recoverJournals sha jsize now (\<lambda>n. w (Suc n)) live fs") (auto split: if_splits)
  qed
qed simp

lemma recoverJournals_stuck:
  "Slot_Has j \<in> set fs \<Longrightarrow> ij_State j = integrationQuarantined
   \<Longrightarrow> \<not> fst (recoverJournals sha jsize now w live fs)"
proof (induction fs arbitrary: w)
  case (Cons f fs)
  show ?case
  proof (cases "f = Slot_Has j")
    case True
    then show ?thesis using Cons.prems(2) by (simp add: recoverJournal_def integration_state_defs)
  next
    case False
    then have "Slot_Has j \<in> set fs" using Cons.prems(1) by auto
    then show ?thesis using Cons.IH Cons.prems(2) by (simp split: slot.split prod.split bool.split)
  qed
qed simp

text \<open>A repository opens only with every integration resolved: \<open>OpenRepository\<close> succeeds only when
  afterwards every journal file holds a committed journal, the state directory lies outside the live
  root, and the repository is bound to the digest of its resolved path; one quarantined journal among
  the files refuses it.\<close>

theorem OpenRepository_resolved:
  assumes "OpenRepository sha jsize now w rr rs fsid made locked live journals fence dirs root stateRoot = (res, js)"
  shows "(\<forall>r. res = Inr r \<longrightarrow> list_all committed_slot js \<and> length js = length journals
             \<and> wr_open r \<and> wr_rootIdentity r = hex_encode (sha (wr_root r))
             \<and> (\<exists>st. rs = Some st \<and> \<not> pathWithin (wr_root r) (clean st)))
       \<and> (\<forall>j. Slot_Has j \<in> set journals \<longrightarrow> ij_State j = integrationQuarantined \<longrightarrow> res = Inl WS_ErrRejected)"
proof -
  obtain b js' where r: "recoverJournals sha jsize now w live journals = (b, js')" by fastforce
  then show ?thesis
    using assms recoverJournals_committed [of sha jsize now w live journals js']
      recoverJournals_stuck [of _ journals sha jsize now w live]
    by (cases b) (auto simp: OpenRepository_def Let_def split: if_splits option.splits)
qed

definition open0 :: "(ws_error + ws_repo) \<times> integration_journal slot list" where
  "open0 = OpenRepository tiny_sha (\<lambda>_. 900) 9 (\<lambda>_ _. W_Done) (Some ''/live/repo'') (Some ''/state'') (Some ''fs'')
     True True cand0 [Slot_Has (journal0\<lparr>ij_Cursor := 3, ij_State := integrationApplying\<rparr>)] Slot_Absent Map.empty
     ''/live/repo'' ''/state''"

theorem OpenRepository_resolved_witness: "is_ok (fst open0) \<and> list_all committed_slot (snd open0)"
proof -
  have 1: "is_ok (fst open0)" by code_simp
  then obtain r where "fst open0 = Inr r" by (auto simp: is_ok_iff)
  then have "open0 = (Inr r, snd open0)" by (metis prod.collapse)
  then show ?thesis using 1 OpenRepository_resolved [OF trans [OF open0_def [symmetric]]] by blast
qed

end
