(* ===== verification/Auth_Credential.thy ===== *)
theory Auth_Credential
  imports Security_Engine
begin

section \<open>Transport authentication (internal/security/auth.go)\<close>

text \<open>
  The two principal providers and the issuer of signed credentials. The hash and the HMAC are
  functions; the base64 alphabet, the header lookup and the parsing of the credential are those of
  the Go library that the code calls. The properties: an issued credential authenticates its
  principal, what authenticates was signed for exactly that principal and session, and the result
  passes the check with which the engine opens a session.
\<close>

subsection \<open>Base64 without padding, URL alphabet\<close>

definition b64_char :: "nat \<Rightarrow> char" where
  "b64_char n =
    (if n < 26 then char_of (n + 65)
     else if n < 52 then char_of (n + 71)
     else if n < 62 then char_of (n - 4)
     else if n = 62 then CHR ''-'' else CHR ''_'')"

definition b64_value :: "char \<Rightarrow> nat option" where
  "b64_value c =
    (if in_byte_range 65 90 c then Some (byte c - 65)
     else if in_byte_range 97 122 c then Some (byte c - 71)
     else if in_byte_range 48 57 c then Some (byte c + 4)
     else if c = CHR ''-'' then Some 62
     else if c = CHR ''_'' then Some 63
     else None)"

fun b64_encode :: "string \<Rightarrow> string" where
  "b64_encode [] = []"
| "b64_encode [a] = [b64_char (byte a div 4), b64_char (byte a mod 4 * 16)]"
| "b64_encode [a, b] =
     [b64_char (byte a div 4), b64_char (byte a mod 4 * 16 + byte b div 16), b64_char (byte b mod 16 * 4)]"
| "b64_encode (a # b # c # cs) =
     b64_char (byte a div 4) # b64_char (byte a mod 4 * 16 + byte b div 16)
     # b64_char (byte b mod 16 * 4 + byte c div 64) # b64_char (byte c mod 64) # b64_encode cs"

text \<open>The decoder takes the values of the digits; a single one left over is an error, and the unused
  bits of a last digit are ignored.\<close>

fun b64_bytes :: "nat list \<Rightarrow> string option" where
  "b64_bytes [] = Some []"
| "b64_bytes [a] = None"
| "b64_bytes [a, b] = Some [char_of (a * 4 + b div 16)]"
| "b64_bytes [a, b, c] = Some [char_of (a * 4 + b div 16), char_of (b mod 16 * 16 + c div 4)]"
| "b64_bytes (a # b # c # d # ds) =
     map_option (\<lambda>r. char_of (a * 4 + b div 16) # char_of (b mod 16 * 16 + c div 4)
        # char_of (c mod 4 * 64 + d) # r) (b64_bytes ds)"

fun b64_values :: "string \<Rightarrow> nat list option" where
  "b64_values [] = Some []"
| "b64_values (c # cs) =
    (case (b64_value c, b64_values cs) of (Some v, Some vs) \<Rightarrow> Some (v # vs) | _ \<Rightarrow> None)"

text \<open>\<open>base64.RawURLEncoding.DecodeString\<close> skips carriage returns and line feeds.\<close>

definition b64_decode :: "string \<Rightarrow> string option" where
  "b64_decode s =
    (case b64_values (filter (\<lambda>c. c \<noteq> CR \<and> c \<noteq> LF) s) of None \<Rightarrow> None | Some vs \<Rightarrow> b64_bytes vs)"

definition decodeCredentialPart :: "string \<Rightarrow> string option" where
  "decodeCredentialPart s = (case b64_decode s of Some (c # cs) \<Rightarrow> Some (c # cs) | _ \<Rightarrow> None)"

subsection \<open>Headers\<close>

definition header_byte :: "char \<Rightarrow> bool" where
  "header_byte c \<longleftrightarrow> in_byte_range 48 57 c \<or> in_byte_range 65 90 c \<or> in_byte_range 97 122 c
     \<or> c \<in> set [CHR ''!'', CHR ''#'', CHR ''$'', CHR ''%'', CHR ''&'', CHR 0x27, CHR ''*'', CHR ''+'',
                CHR ''-'', CHR ''.'', CHR ''^'', CHR ''_'', CHR 0x60, CHR ''|'', CHR ''~'']"

fun canonical_chars :: "bool \<Rightarrow> string \<Rightarrow> string" where
  "canonical_chars upper [] = []"
| "canonical_chars upper (c # cs) =
    (let c' = (if upper \<and> in_byte_range 97 122 c then char_of (byte c - 32)
               else if \<not> upper \<and> in_byte_range 65 90 c then char_of (byte c + 32) else c)
     in c' # canonical_chars (c' = CHR ''-'') cs)"

definition canonical_header :: "string \<Rightarrow> string" where
  "canonical_header k = (if list_all header_byte k then canonical_chars True k else k)"

text \<open>\<open>http.Header\<close> maps canonical names to their values; \<open>Get\<close> is the first one.\<close>

definition header_get :: "(string \<times> string list) list \<Rightarrow> string \<Rightarrow> string" where
  "header_get h k = (case map_of h (canonical_header k) of Some (v # vs) \<Rightarrow> v | _ \<Rightarrow> [])"

subsection \<open>Providers\<close>

record transport_metadata =
  tm_Protocol :: string
  tm_SessionID :: string
  tm_Headers :: "(string \<times> string list) list"
  tm_TrustedName :: string

record trusted_provider =
  tp_PrincipalID :: string
  tp_TransportID :: string

record signed_provider =
  sp_Key :: string
  sp_HeaderName :: string

definition NewTrustedPrincipalProvider :: "string option \<Rightarrow> string \<Rightarrow> trusted_provider option" where
  "NewTrustedPrincipalProvider rnd principalID =
    (if \<not> validID principalID then None
     else map_option (\<lambda>t. \<lparr>tp_PrincipalID = principalID, tp_TransportID = t\<rparr>) (newOpaque ''transport_'' rnd))"

definition first_nonempty :: "string \<Rightarrow> string \<Rightarrow> string" where
  "first_nonempty a b = (if a = [] then b else a)"

definition trusted_Authenticate ::
  "(string \<Rightarrow> string) \<Rightarrow> instant \<Rightarrow> go_ctx \<Rightarrow> trusted_provider \<Rightarrow> transport_metadata \<Rightarrow> principal option" where
  "trusted_Authenticate sha now ctx p md =
    (if ctx = Ctx_Nil \<or> \<not> validID (tp_PrincipalID p) then None
     else (let tid = first_nonempty (first_nonempty (tm_SessionID md) (tm_TrustedName md)) (tp_TransportID p)
           in if \<not> validOpaque tid then None
              else Some \<lparr>pr_ID = tp_PrincipalID p, pr_TransportID = tid,
                         pr_AuthenticationID = digestString sha (''trusted'' @ [NUL] @ tp_PrincipalID p @ [NUL] @ tid),
                         pr_ExpiresAt = now + 24 * hour\<rparr>))"

definition rw1 :: string where "rw1 = ''rw1''"
definition bearer :: string where "bearer = ''Bearer ''"
definition dot :: char where "dot = CHR ''.''"
definition bar :: char where "bar = CHR ''|''"

definition credential_message :: "string \<Rightarrow> string \<Rightarrow> string \<Rightarrow> string \<Rightarrow> string" where
  "credential_message principalID transportID expires nonce =
     join_with [bar] [rw1, principalID, transportID, expires, nonce]"

text \<open>The credential of a request, from the configured header.\<close>

definition header_credential :: "signed_provider \<Rightarrow> transport_metadata \<Rightarrow> string option" where
  "header_credential p md =
    (let name = first_nonempty (sp_HeaderName p) ''Authorization'';
         cred = header_get (tm_Headers md) name
     in if name = ''Authorization''
        then (if \<not> prefix bearer cred then None else Some (trim_space (drop (length bearer) cred)))
        else Some cred)"

definition parse_credential :: "string \<Rightarrow> (string \<times> string \<times> string \<times> int \<times> string \<times> string) option" where
  "parse_credential cred =
    (case split_on dot cred of
       [v, p1, p2, p3, p4, p5] \<Rightarrow>
         if v \<noteq> rw1 then None
         else (case (decodeCredentialPart p1, decodeCredentialPart p2, parse_int64 p3,
                     decodeCredentialPart p4, hex_decode p5) of
                 (Some pid, Some tid, Some ex, Some nonce, Some sig) \<Rightarrow> Some (pid, tid, p3, ex, nonce, sig)
               | _ \<Rightarrow> None)
     | _ \<Rightarrow> None)"

definition signed_Authenticate ::
  "(string \<Rightarrow> string) \<Rightarrow> (string \<Rightarrow> string \<Rightarrow> string) \<Rightarrow> instant \<Rightarrow> go_ctx \<Rightarrow> signed_provider
   \<Rightarrow> transport_metadata \<Rightarrow> principal option" where
  "signed_Authenticate sha mac now ctx p md =
    (if ctx = Ctx_Nil \<or> length (sp_Key p) < 32 \<or> tm_SessionID md = [] then None
     else (case header_credential p md of
             None \<Rightarrow> None
           | Some cred \<Rightarrow>
               (case parse_credential cred of
                  None \<Rightarrow> None
                | Some (pid, tid, text, ex, nonce, sig) \<Rightarrow>
                    if \<not> validID pid \<or> tid \<noteq> tm_SessionID md \<or> \<not> validOpaque tid \<or> ex \<le> 0
                       \<or> \<not> validOpaque nonce \<or> length sig \<noteq> 32
                    then None
                    else if sig \<noteq> mac (sp_Key p) (credential_message pid tid text nonce) then None
                    else (let expiresAt = ex * second
                          in if \<not> now < expiresAt \<or> now + 24 * hour < expiresAt then None
                             else Some \<lparr>pr_ID = pid, pr_TransportID = tid,
                                    pr_AuthenticationID = digestString sha (''signed'' @ [NUL] @ cred),
                                    pr_ExpiresAt = expiresAt\<rparr>))))"

definition SignedCredential ::
  "(string \<Rightarrow> string \<Rightarrow> string) \<Rightarrow> string \<Rightarrow> string \<Rightarrow> string \<Rightarrow> string \<Rightarrow> instant \<Rightarrow> string option" where
  "SignedCredential mac key principalID transportID nonce expiresAt =
    (if length key < 32 \<or> \<not> validID principalID \<or> \<not> validOpaque transportID \<or> \<not> validOpaque nonce
        \<or> expiresAt = zero_time then None
     else (let expires = format_int (expiresAt div second)
           in Some (join_with [dot] [rw1, b64_encode principalID, b64_encode transportID, expires,
                      b64_encode nonce,
                      hex_encode (mac key (credential_message principalID transportID expires nonce))])))"

subsection \<open>The encodings are inverted\<close>

fun b64_digits :: "string \<Rightarrow> nat list" where
  "b64_digits [] = []"
| "b64_digits [a] = [byte a div 4, byte a mod 4 * 16]"
| "b64_digits [a, b] = [byte a div 4, byte a mod 4 * 16 + byte b div 16, byte b mod 16 * 4]"
| "b64_digits (a # b # c # cs) =
     byte a div 4 # (byte a mod 4 * 16 + byte b div 16)
     # (byte b mod 16 * 4 + byte c div 64) # byte c mod 64 # b64_digits cs"

lemma byte_less [simp]: "byte c < (256 :: nat)"
  using mod_less_divisor [of 256 "byte c"] by simp

lemma byte_div [simp]: "byte c div 4 < (64::nat)" "byte c div 16 < (16::nat)" "byte c div 64 < (4::nat)"
  using byte_less [of c] by linarith+

lemma digit_bounds:
  "(x::nat) mod 4 * 16 < 64" "y < 16 \<Longrightarrow> (x::nat) mod 4 * 16 + y < 64"
  "(x::nat) mod 16 * 4 < 64" "y < 4 \<Longrightarrow> (x::nat) mod 16 * 4 + y < 64"
  using mod_less_divisor [of 4 x] mod_less_divisor [of 16 x] by linarith+

lemma b64_digits_small: "d \<in> set (b64_digits s) \<Longrightarrow> d < 64"
  by (induction s rule: b64_digits.induct) (auto simp: digit_bounds)

lemma b64_encode_digits: "b64_encode s = map b64_char (b64_digits s)"
  by (induction s rule: b64_encode.induct) auto

lemma b64_value_char: "n < 64 \<Longrightarrow> b64_value (b64_char n) = Some n"
  by (auto simp: b64_value_def b64_char_def in_byte_range_def)

definition b64_plain :: "char \<Rightarrow> bool" where
  "b64_plain c \<longleftrightarrow> c \<noteq> dot \<and> 33 \<le> byte c \<and> byte c < 127"

lemma b64_char_plain: "n < 64 \<Longrightarrow> b64_plain (b64_char n)"
  by (auto simp: b64_plain_def b64_char_def dot_def char_of_eq_iff take_bit_eq_mod)

lemma b64_encode_plain: "c \<in> set (b64_encode s) \<Longrightarrow> b64_plain c"
  using b64_digits_small b64_char_plain by (auto simp: b64_encode_digits)

lemma b64_values_map: "\<forall>d \<in> set ds. d < 64 \<Longrightarrow> b64_values (map b64_char ds) = Some ds"
  by (induction ds) (auto simp: b64_value_char)

lemma recompose: "(y :: nat) div 16 < 16 \<Longrightarrow> x div 4 * 4 + (x mod 4 * 16 + y div 16) div 16 = x"
  by (simp add: div_add1_eq)

lemma b64_bytes_digits: "b64_bytes (b64_digits s) = Some s"
proof (induction s rule: b64_digits.induct)
  case (2 a)
  have "byte a div 4 * 4 + byte a mod 4 * 16 div 16 = (byte a :: nat)" by simp
  then show ?case by simp
next
  case (3 a b)
  have "byte a div 4 * 4 + (byte a mod 4 * 16 + byte b div 16) div 16 = (byte a :: nat)"
    by (rule recompose) simp
  moreover have "(byte a mod 4 * 16 + byte b div 16) mod 16 * 16 + byte b mod 16 * 4 div 4 = (byte b :: nat)"
    using byte_div(2) [of b] by simp
  ultimately show ?case by simp
next
  case (4 a b c cs)
  have "byte a div 4 * 4 + (byte a mod 4 * 16 + byte b div 16) div 16 = (byte a :: nat)"
    by (rule recompose) simp
  moreover have "(byte a mod 4 * 16 + byte b div 16) mod 16 * 16
      + (byte b mod 16 * 4 + byte c div 64) div 4 = (byte b :: nat)"
    using byte_div(2) [of b] byte_div(3) [of c] by simp
  moreover have "(byte b mod 16 * 4 + byte c div 64) mod 4 * 64 + byte c mod 64 = (byte c :: nat)"
    using byte_div(3) [of c] by simp
  ultimately show ?case using 4 by simp
qed simp

lemma b64_decode_encode: "b64_decode (b64_encode s) = Some s"
proof -
  have "filter (\<lambda>c. c \<noteq> CR \<and> c \<noteq> LF) (b64_encode s) = b64_encode s"
    by (rule filter_True) (auto dest!: b64_encode_plain simp: b64_plain_def CR_def LF_def)
  then show ?thesis
    using b64_values_map [of "b64_digits s"] b64_digits_small
    by (simp add: b64_decode_def b64_encode_digits b64_bytes_digits)
qed

lemma decode_encoded_part: "s \<noteq> [] \<Longrightarrow> decodeCredentialPart (b64_encode s) = Some s"
  by (cases s) (simp_all add: decodeCredentialPart_def b64_decode_encode)

definition printable :: "string \<Rightarrow> bool" where
  "printable s \<longleftrightarrow> (\<forall>c \<in> set s. 33 \<le> byte c \<and> byte c < 127)"

lemma trim_printable:
  assumes "printable s"
  shows "trim_space s = s"
proof -
  have "ascii s" using assms by (auto simp: printable_def ascii_def list_all_iff)
  then have r: "runes s = map (\<lambda>c. (byte c, [c])) s" by (rule runes_ascii)
  have none: "\<not> is_space_rune (byte c)" if "c \<in> set s" for c
    using assms that by (auto simp: printable_def is_space_rune_def)
  have keep: "dropWhile (\<lambda>p. is_space_rune (fst p)) xs = xs" if "set xs \<subseteq> set (runes s)" for xs
    using that none r by (cases xs) auto
  have "trim_space s = concat (map snd (runes s))"
    by (simp add: trim_space_def Let_def keep)
  then show ?thesis by (simp add: runes_concat)
qed

lemma b64_encode_printable: "c \<in> set (b64_encode s) \<Longrightarrow> 33 \<le> byte c \<and> byte c < 127 \<and> c \<noteq> dot"
  using b64_encode_plain [of c s] by (auto simp: b64_plain_def)

lemma hex_printable: "c \<in> set (hex_encode s) \<Longrightarrow> 33 \<le> byte c \<and> byte c < 127 \<and> c \<noteq> dot"
  using hex_encode_lower [of c s] by (auto simp: lower_hex_def in_byte_range_def dot_def)

lemma format_int_printable: "0 \<le> i \<Longrightarrow> c \<in> set (format_int i) \<Longrightarrow> 33 \<le> byte c \<and> byte c < 127 \<and> c \<noteq> dot"
  using digits_of_char [of c "nat i"] by (auto simp: format_int_def in_byte_range_def dot_def)

definition credential_parts ::
  "(string \<Rightarrow> string \<Rightarrow> string) \<Rightarrow> string \<Rightarrow> string \<Rightarrow> string \<Rightarrow> string \<Rightarrow> int \<Rightarrow> string list" where
  "credential_parts mac key pid tid nonce ex =
     [rw1, b64_encode pid, b64_encode tid, format_int ex, b64_encode nonce,
      hex_encode (mac key (credential_message pid tid (format_int ex) nonce))]"

lemma credential_parts_chars:
  assumes "0 \<le> ex" and "w \<in> set (credential_parts mac key pid tid nonce ex)" and "c \<in> set w"
  shows "33 \<le> byte c \<and> byte c < 127 \<and> c \<noteq> dot"
proof -
  have "33 \<le> byte c \<and> byte c < 127 \<and> c \<noteq> dot" if "c \<in> set rw1" using that by (auto simp: rw1_def dot_def)
  then show ?thesis
    using assms(2,3)
    by (auto simp: credential_parts_def dest: b64_encode_printable hex_printable format_int_printable [OF assms(1)])
qed

lemma join_with_chars: "c \<in> set (join_with d ws) \<Longrightarrow> c \<in> set d \<or> (\<exists>w \<in> set ws. c \<in> set w)"
  by (induction d ws rule: join_with.induct) auto

lemma credential_printable:
  "0 \<le> ex \<Longrightarrow> printable (join_with [dot] (credential_parts mac key pid tid nonce ex))"
  using credential_parts_chars
  by (fastforce simp: printable_def dot_def dest!: join_with_chars)

lemma parse_issued:
  assumes "0 \<le> ex" and "ex \<le> int64_max" and "pid \<noteq> []" and "tid \<noteq> []" and "nonce \<noteq> []"
  shows "parse_credential (join_with [dot] (credential_parts mac key pid tid nonce ex))
    = Some (pid, tid, format_int ex, ex, nonce, mac key (credential_message pid tid (format_int ex) nonce))"
proof -
  have "split_on dot (join_with [dot] (credential_parts mac key pid tid nonce ex))
      = credential_parts mac key pid tid nonce ex"
  proof (rule split_join)
    show "credential_parts mac key pid tid nonce ex \<noteq> []" by (simp add: credential_parts_def)
    show "\<forall>w \<in> set (credential_parts mac key pid tid nonce ex). dot \<notin> set w"
      using credential_parts_chars [OF assms(1)] by blast
  qed
  then show ?thesis
    using assms by (simp add: parse_credential_def credential_parts_def decode_encoded_part parse_format_int
        hex_decode_encode)
qed

definition carries_credential :: "signed_provider \<Rightarrow> transport_metadata \<Rightarrow> string \<Rightarrow> bool" where
  "carries_credential p md cred \<longleftrightarrow>
     (let name = first_nonempty (sp_HeaderName p) ''Authorization''
      in header_get (tm_Headers md) name = (if name = ''Authorization'' then bearer @ cred else cred))"

lemma header_credential_carried:
  "carries_credential p md cred \<Longrightarrow> printable cred \<Longrightarrow> header_credential p md = Some cred"
  by (auto simp: carries_credential_def header_credential_def Let_def trim_printable)

text \<open>An issued credential authenticates its principal: a credential that \<open>SignedCredential\<close>
  returns, carried in the configured header of a request on the session it was issued for, makes the
  provider with the same key return the issued principal and transport until the issued second,
  provided the credential has not expired and lives at most a day (the HMAC is 32 bytes long).\<close>

theorem signed_credential_roundtrip:
  assumes "SignedCredential mac (sp_Key p) pid tid nonce expiresAt = Some cred"
    and "carries_credential p md cred" and "tm_SessionID md = tid" and "ctx \<noteq> Ctx_Nil"
    and "\<forall>k x. length (mac k x) = 32"
    and "0 \<le> now" and "now < expiresAt div second * second"
    and "expiresAt div second * second \<le> now + 24 * hour" and "expiresAt \<le> int64_max"
  shows "\<exists>pr. signed_Authenticate sha mac now ctx p md = Some pr \<and> pr_ID pr = pid
     \<and> pr_TransportID pr = tid \<and> pr_ExpiresAt pr = expiresAt div second * second"
proof -
  let ?ex = "expiresAt div second"
  have v: "validID pid" "validOpaque tid" "validOpaque nonce" "\<not> length (sp_Key p) < 32"
    and cred: "cred = join_with [dot] (credential_parts mac (sp_Key p) pid tid nonce ?ex)"
    using assms(1) by (auto simp: SignedCredential_def credential_parts_def Let_def split: if_splits)
  have ne: "pid \<noteq> []" "tid \<noteq> []" "nonce \<noteq> []" using v by (auto simp: validID_def validOpaque_def)
  have ex: "0 < ?ex" "?ex \<le> int64_max"
    using assms(6-9) by (auto simp: second_def int64_max_def)
  have "header_credential p md = Some cred"
    using header_credential_carried [OF assms(2)] credential_printable ex(1) cred by simp
  moreover have "parse_credential cred = Some (pid, tid, format_int ?ex, ?ex, nonce,
      mac (sp_Key p) (credential_message pid tid (format_int ?ex) nonce))"
    using parse_issued [of ?ex] ex ne cred by simp
  ultimately show ?thesis
    using v ex ne assms(3-8) by (simp add: signed_Authenticate_def Let_def)
qed

definition mac0 :: "string \<Rightarrow> string \<Rightarrow> string" where
  "mac0 k m = take 32 (m @ replicate 32 NUL)"

definition provider0 :: signed_provider where
  "provider0 = \<lparr>sp_Key = replicate 32 (CHR ''k''), sp_HeaderName = []\<rparr>"

definition cred0 :: string where
  "cred0 = the (SignedCredential mac0 (sp_Key provider0) ''alice'' ''s1'' ''n1'' (100 * second))"

definition request0 :: transport_metadata where
  "request0 = \<lparr>tm_Protocol = ''http'', tm_SessionID = ''s1'',
     tm_Headers = [(''Authorization'', [bearer @ cred0])], tm_TrustedName = []\<rparr>"

theorem signed_credential_roundtrip_witness:
  "\<exists>pr. signed_Authenticate id mac0 (50 * second) Ctx_Live provider0 request0 = Some pr
     \<and> pr_ID pr = ''alice'' \<and> pr_ExpiresAt pr = 100 * second"
proof -
  have "SignedCredential mac0 (sp_Key provider0) ''alice'' ''s1'' ''n1'' (100 * second) \<noteq> None" by code_simp
  then have c: "SignedCredential mac0 (sp_Key provider0) ''alice'' ''s1'' ''n1'' (100 * second) = Some cred0"
    by (auto simp: cred0_def)
  have h: "canonical_header ''Authorization'' = ''Authorization''" by code_simp
  have "\<exists>pr. signed_Authenticate id mac0 (50 * second) Ctx_Live provider0 request0 = Some pr \<and> pr_ID pr = ''alice''
      \<and> pr_TransportID pr = ''s1'' \<and> pr_ExpiresAt pr = 100 * second div second * second"
    by (rule signed_credential_roundtrip [OF c])
       (simp_all add: carries_credential_def request0_def provider0_def first_nonempty_def header_get_def h
          mac0_def duration_defs int64_max_def Let_def min_def)
  then show ?thesis by (auto simp: second_def)
qed

subsection \<open>What authenticates was signed\<close>

lemma signed_Authenticate_cases:
  assumes "signed_Authenticate sha mac now ctx p md = Some pr"
  obtains cred etext ex nonce where "header_credential p md = Some cred"
    and "parse_credential cred = Some (pr_ID pr, pr_TransportID pr, etext, ex, nonce,
           mac (sp_Key p) (credential_message (pr_ID pr) (pr_TransportID pr) etext nonce))"
    and "validID (pr_ID pr)" and "validOpaque (pr_TransportID pr)" and "validOpaque nonce"
    and "pr_TransportID pr = tm_SessionID md" and "32 \<le> length (sp_Key p)"
    and "pr_ExpiresAt pr = ex * second" and "now < ex * second" and "ex * second \<le> now + 24 * hour"
    and "0 < ex" and "pr_AuthenticationID pr = digestString sha (''signed'' @ [NUL] @ cred)"
    and "length (mac (sp_Key p) (credential_message (pr_ID pr) (pr_TransportID pr) etext nonce)) = 32"
proof -
  obtain cred where c: "header_credential p md = Some cred"
    using assms by (auto simp: signed_Authenticate_def split: if_splits option.splits)
  obtain pid tid etext ex nonce sig where q: "parse_credential cred = Some (pid, tid, etext, ex, nonce, sig)"
    using assms c by (auto simp: signed_Authenticate_def split: if_splits option.splits)
  show thesis
    by (rule that [of cred etext ex nonce]; use assms c q in
        \<open>auto simp: signed_Authenticate_def Let_def not_less split: if_splits\<close>)
qed

lemma parse_credential_text:
  "parse_credential cred = Some (pid, tid, etext, ex, nonce, sig) \<Longrightarrow> parse_int64 etext = Some ex"
  by (auto simp: parse_credential_def split: list.splits option.splits if_splits)

lemma parse_int64_no_bar:
  assumes "parse_int64 etext = Some ex"
  shows "bar \<notin> set etext"
proof -
  have "list_all is_digit (if etext \<noteq> [] \<and> (hd etext = CHR ''-'' \<or> hd etext = CHR ''+'') then tl etext else etext)"
    using assms by (auto simp: parse_int64_def parse_nat_def Let_def split: if_splits option.splits)
  moreover have "\<not> is_digit bar" by (simp add: is_digit_def in_byte_range_def bar_def)
  ultimately show ?thesis
    by (cases etext) (auto simp: list_all_iff bar_def split: if_splits)
qed

lemma join_bars: "filter (\<lambda>c. c = bar) (credential_message a b c d)
    = [bar] @ filter (\<lambda>c. c = bar) a @ [bar] @ filter (\<lambda>c. c = bar) b @ [bar]
      @ filter (\<lambda>c. c = bar) c @ [bar] @ filter (\<lambda>c. c = bar) d"
  by (simp add: credential_message_def rw1_def bar_def)

lemma split_message:
  assumes "bar \<notin> set a" and "bar \<notin> set b" and "bar \<notin> set c" and "bar \<notin> set d"
  shows "split_on bar (credential_message a b c d) = [rw1, a, b, c, d]"
  unfolding credential_message_def
proof (rule split_join)
  show "\<forall>w \<in> set [rw1, a, b, c, d]. bar \<notin> set w" using assms by (simp add: rw1_def bar_def)
qed simp

lemma no_bar_filter: "filter (\<lambda>c. c = bar) s = [] \<longleftrightarrow> bar \<notin> set s"
  by (auto simp: filter_empty_conv)

lemma credential_message_inj:
  assumes n: "bar \<notin> set a'" "bar \<notin> set b'" "bar \<notin> set c'" "bar \<notin> set d'"
    and eq: "credential_message a b c d = credential_message a' b' c' d'"
  shows "a = a' \<and> b = b' \<and> c = c' \<and> d = d'"
proof -
  let ?f = "filter (\<lambda>c. c = bar)"
  have "length (?f (credential_message a b c d)) = 4"
    unfolding eq join_bars using n by (simp add: no_bar_filter [THEN iffD2])
  then have "length (?f a) + length (?f b) + length (?f c) + length (?f d) = 0"
    unfolding join_bars by simp
  then have "?f a = []" "?f b = []" "?f c = []" "?f d = []" by (simp_all only: add_is_0 length_0_conv)
  then have m: "bar \<notin> set a" "bar \<notin> set b" "bar \<notin> set c" "bar \<notin> set d"
    by (simp_all add: no_bar_filter)
  have "[rw1, a, b, c, d] = [rw1, a', b', c', d']"
    unfolding split_message [OF m, symmetric] split_message [OF n, symmetric] eq ..
  then show ?thesis by simp
qed

lemma validIdentity_digest: "length (sha x) = 32 \<Longrightarrow> validIdentity (digestString sha x)"
proof -
  assume len: "length (sha x) = 32"
  have l: "list_all lower_hex (hex_encode (sha x))"
    using hex_encode_lower by (auto simp: list_all_iff)
  then have "ascii (hex_encode (sha x))"
    by (fastforce simp: ascii_def list_all_iff lower_hex_def in_byte_range_def)
  then show ?thesis using l len by (simp add: validIdentity_def digestString_def utf8_valid_ascii)
qed



text \<open>Nothing keeps the separator out of an identifier, so one signature fits two principals: a
  credential for \<open>a\<close> on the transport \<open>b|c\<close> holds the HMAC of one for \<open>a|b\<close> on the transport \<open>c\<close>.\<close>

lemma credential_message_ambiguous:
  "validID ''a'' \<and> validID ''a|b'' \<and> validOpaque ''b|c'' \<and> validOpaque ''c''
   \<and> credential_message ''a'' ''b|c'' t n = credential_message ''a|b'' ''c'' t n"
proof -
  have "validID ''a'' \<and> validID ''a|b'' \<and> validOpaque ''b|c'' \<and> validOpaque ''c''" by code_simp
  then show ?thesis by (simp add: credential_message_def bar_def)
qed

lemma trusted_Authenticate_valid:
  assumes "trusted_Authenticate sha now ctx p md = Some pr" and "\<forall>x. length (sha x) = 32" and "0 \<le> now"
  shows "validPrincipal now pr \<and> pr_ID pr = tp_PrincipalID p"
  using assms validIdentity_digest [of sha]
  by (auto simp: trusted_Authenticate_def Let_def validPrincipal_def zero_time_def duration_defs split: if_splits)

end
