(* ===== verification/Runtime_Manager.thy ===== *)
theory Runtime_Manager
  imports Workspace_Lease Security_Policy
begin

section \<open>Runtime lifecycle (internal/runtime/runtime.go)\<close>

text \<open>
  The manager of isolated runtimes: a map of runtime records in memory, their files on disk, and
  the containers behind an adapter. The world the adapters act on is a type parameter; the Apple
  container adapter and the Lima adapter are functions of the command runner, as in the source. Each
  method is one critical section; the workspace repository it asks for leases is an argument.
\<close>

subsection \<open>Data\<close>

datatype rt_error = RT_ErrRejected | RT_ErrUnsupported | RT_Workspace ws_error

definition StateCreating :: string where "StateCreating = ''CREATING''"
definition StateReady :: string where "StateReady = ''READY''"
definition StateRunning :: string where "StateRunning = ''RUNNING''"
definition StateStopping :: string where "StateStopping = ''STOPPING''"
definition StateStopped :: string where "StateStopped = ''STOPPED''"
definition StateFailed :: string where "StateFailed = ''FAILED''"
definition StateQuarantined :: string where "StateQuarantined = ''QUARANTINED''"

lemmas rt_state_defs = StateCreating_def StateReady_def StateRunning_def StateStopping_def
  StateStopped_def StateFailed_def StateQuarantined_def

record runtime_spec =
  rs_TaskID :: string
  rs_Generation :: ws_generation
  rs_Lease :: ws_lease
  rs_WorkspacePath :: string
  rs_LiveRepositoryPath :: string
  rs_Image :: string
  rs_CPU :: int
  rs_MemoryBytes :: int
  rs_Network :: string
  rs_MountReadOnly :: bool

record runtime =
  rt_ID :: string
  rt_Backend :: string
  rt_ExternalID :: string
  rt_TaskID :: string
  rt_GenerationID :: string
  rt_LeaseGeneration :: nat
  rt_WorkspacePath :: string
  rt_Image :: string
  rt_Network :: string
  rt_Identity :: string
  rt_State :: string
  rt_CreatedAt :: instant
  rt_UpdatedAt :: instant

record 'x adapter =
  ad_Name :: string
  ad_Create :: "runtime_spec \<Rightarrow> string \<Rightarrow> 'x \<Rightarrow> string option \<times> 'x"
  ad_Start :: "string \<Rightarrow> 'x \<Rightarrow> bool \<times> 'x"
  ad_Stop :: "string \<Rightarrow> 'x \<Rightarrow> bool \<times> 'x"
  ad_Delete :: "string \<Rightarrow> 'x \<Rightarrow> bool \<times> 'x"

record 'x rt_manager =
  rm_adapters :: "string \<rightharpoonup> 'x adapter"
  rm_runtimes :: "string \<rightharpoonup> runtime"
  rm_disk :: "string \<rightharpoonup> runtime"
  rm_world :: 'x

subsection \<open>Validation\<close>

definition validBackend :: "string \<Rightarrow> bool" where
  "validBackend v \<longleftrightarrow> v = ''apple-container'' \<or> v = ''lima'' \<or> v = ''test''"

definition validNetwork :: "string \<Rightarrow> bool" where "validNetwork v \<longleftrightarrow> v = NetworkNone"

definition validRuntime :: "runtime \<Rightarrow> bool" where
  "validRuntime r \<longleftrightarrow>
     rt_ID r \<noteq> [] \<and> validBackend (rt_Backend r) \<and> validNetwork (rt_Network r)
     \<and> (rt_ExternalID r \<noteq> [] \<or> rt_State r = StateCreating \<or> rt_State r = StateStopped
        \<or> rt_State r = StateFailed \<or> rt_State r = StateQuarantined)
     \<and> rt_TaskID r \<noteq> [] \<and> rt_GenerationID r \<noteq> [] \<and> 0 < rt_LeaseGeneration r
     \<and> is_abs (rt_WorkspacePath r) \<and> rt_Image r \<noteq> [] \<and> rt_Identity r = rt_ID r \<and> rt_State r \<noteq> []"

definition rt_sameOrWithin :: "string \<Rightarrow> string \<Rightarrow> bool" where
  "rt_sameOrWithin parent candidate \<longleftrightarrow> rel_inside (rel_from_abs parent candidate)"

definition runtimeID :: "(string \<Rightarrow> string) \<Rightarrow> runtime_spec \<Rightarrow> string \<Rightarrow> string" where
  "runtimeID sha spec backend =
     ''runtime_'' @ hex_encode (take 16 (sha (rs_TaskID spec @ '':'' @ wg_ID (rs_Generation spec) @ '':''
        @ digits_of (le_FencingGeneration (rs_Lease spec)) @ '':'' @ rs_WorkspacePath spec @ '':''
        @ backend @ '':'' @ rs_Network spec)))"

definition validateSpec :: "instant \<Rightarrow> go_ctx \<Rightarrow> ws_repo \<Rightarrow> runtime_spec \<Rightarrow> rt_error option" where
  "validateSpec now ctx r s =
    (if rs_TaskID s = [] \<or> contains_any (rs_TaskID s) [CHR ''/'', CHR 0x5C, NUL, CR, LF]
        \<or> wg_ID (rs_Generation s) = [] \<or> rs_WorkspacePath s = [] \<or> \<not> is_abs (rs_WorkspacePath s)
        \<or> clean (rs_WorkspacePath s) \<noteq> rs_WorkspacePath s \<or> \<not> is_abs (rs_LiveRepositoryPath s)
        \<or> clean (rs_LiveRepositoryPath s) \<noteq> rs_LiveRepositoryPath s \<or> rs_Image s = []
        \<or> contains_any (rs_Image s) [NUL, CR, LF] \<or> rs_CPU s \<le> 0 \<or> 256 < rs_CPU s
        \<or> rs_MemoryBytes s < 67108864 \<or> 1099511627776 < rs_MemoryBytes s
     then Some RT_ErrRejected
     else if \<not> validNetwork (rs_Network s) then Some RT_ErrRejected
     else if rt_sameOrWithin (rs_LiveRepositoryPath s) (rs_WorkspacePath s)
             \<or> rt_sameOrWithin (rs_WorkspacePath s) (rs_LiveRepositoryPath s)
     then Some RT_ErrRejected
     else if rs_WorkspacePath s \<noteq> wg_Path (rs_Generation s) then Some RT_ErrRejected
     else map_option RT_Workspace (AssertGeneration now ctx (rs_Generation s) (rs_Lease s) r))"

subsection \<open>Persistence\<close>

text \<open>\<open>w\<close> is whether the file operations of one call succeed up to and including the rename.\<close>

definition persist :: "bool \<Rightarrow> runtime \<Rightarrow> 'x rt_manager \<Rightarrow> bool \<times> 'x rt_manager" where
  "persist w rt m =
    (if \<not> validRuntime rt \<or> \<not> w then (False, m)
     else (True, m\<lparr>rm_disk := (rm_disk m)(rt_ID rt \<mapsto> rt)\<rparr>))"

definition put_runtime :: "string \<Rightarrow> runtime \<Rightarrow> 'x rt_manager \<Rightarrow> 'x rt_manager" where
  "put_runtime g rt m = m\<lparr>rm_runtimes := (rm_runtimes m)(g \<mapsto> rt)\<rparr>"

definition drop_runtime :: "string \<Rightarrow> 'x rt_manager \<Rightarrow> 'x rt_manager" where
  "drop_runtime g m = m\<lparr>rm_runtimes := (rm_runtimes m)(g := None)\<rparr>"

definition remove_file :: "string \<Rightarrow> 'x rt_manager \<Rightarrow> 'x rt_manager" where
  "remove_file i m = m\<lparr>rm_disk := (rm_disk m)(i := None)\<rparr>"

definition put_world :: "'x \<Rightarrow> 'x rt_manager \<Rightarrow> 'x rt_manager" where
  "put_world x m = m\<lparr>rm_world := x\<rparr>"

text \<open>\<open>load\<close> reads the files in directory order; a file that does not parse is \<open>None\<close>.\<close>

fun rt_load :: "runtime option list \<Rightarrow> (string \<rightharpoonup> runtime) \<Rightarrow> (string \<rightharpoonup> runtime) option" where
  "rt_load [] m = Some m"
| "rt_load (None # fs) m = None"
| "rt_load (Some rt # fs) m =
    (let rt' = (if rt_Network rt = [] then rt\<lparr>rt_Network := NetworkNone\<rparr> else rt)
     in if \<not> validRuntime rt' then None else rt_load fs (m(rt_GenerationID rt' \<mapsto> rt')))"

fun add_adapters :: "'x adapter option list \<Rightarrow> (string \<rightharpoonup> 'x adapter) \<Rightarrow> (string \<rightharpoonup> 'x adapter) option" where
  "add_adapters [] m = Some m"
| "add_adapters (None # as) m = None"
| "add_adapters (Some a # as) m =
    (if ad_Name a = [] then None else add_adapters as (m(ad_Name a \<mapsto> a)))"

definition NewManager ::
  "bool \<Rightarrow> bool \<Rightarrow> string \<Rightarrow> runtime option list \<Rightarrow> (string \<rightharpoonup> runtime) \<Rightarrow> 'x \<Rightarrow> 'x adapter option list
   \<Rightarrow> 'x rt_manager option" where
  "NewManager has_repo made stateRoot files disk world adapters =
    (if \<not> has_repo \<or> stateRoot = [] \<or> \<not> is_abs stateRoot \<or> \<not> made then None
     else (case (add_adapters adapters Map.empty, rt_load files Map.empty) of
             (Some as, Some rts) \<Rightarrow> Some \<lparr>rm_adapters = as, rm_runtimes = rts, rm_disk = disk, rm_world = world\<rparr>
           | _ \<Rightarrow> None))"

subsection \<open>Operations\<close>

definition runtimeFor ::
  "string \<Rightarrow> string \<Rightarrow> 'x rt_manager \<Rightarrow> rt_error + (runtime \<times> 'x adapter)" where
  "runtimeFor g expected m =
    (case rm_runtimes m g of
       None \<Rightarrow> Inl RT_ErrRejected
     | Some rt \<Rightarrow>
         if rt_State rt \<noteq> expected then Inl RT_ErrRejected
         else (case rm_adapters m (rt_Backend rt) of
                 None \<Rightarrow> Inl RT_ErrUnsupported
               | Some a \<Rightarrow> Inr (rt, a)))"

definition set_state :: "instant \<Rightarrow> string \<Rightarrow> runtime \<Rightarrow> runtime" where
  "set_state now s rt = rt\<lparr>rt_State := s, rt_UpdatedAt := now\<rparr>"

text \<open>Making room for a new runtime of a generation: a stopped one is deleted from its backend and
  from disk. \<open>removed\<close> is whether \<open>os.Remove\<close> succeeds (a missing file counts).\<close>

definition replace_stopped ::
  "instant \<Rightarrow> bool \<Rightarrow> bool \<Rightarrow> string \<Rightarrow> 'x rt_manager \<Rightarrow> bool \<times> 'x rt_manager" where
  "replace_stopped now w removed g m =
    (case rm_runtimes m g of
       None \<Rightarrow> (True, m)
     | Some existing \<Rightarrow>
         if rt_State existing \<noteq> StateStopped then (False, m)
         else (let (deleted, m1) =
                 (if rt_ExternalID existing = [] then (True, m)
                  else (case rm_adapters m (rt_Backend existing) of
                          None \<Rightarrow> (False, m)
                        | Some a \<Rightarrow> (case ad_Delete a (rt_ExternalID existing) (rm_world m) of
                                       (ok, x) \<Rightarrow> (ok, put_world x m))))
               in if \<not> deleted
                  then (let q = set_state now StateQuarantined existing
                        in (False, snd (persist w q (put_runtime g q m1))))
                  else if \<not> removed then (False, m1)
                  else (True, drop_runtime g (remove_file (rt_ID existing) m1))))"

definition new_runtime :: "(string \<Rightarrow> string) \<Rightarrow> instant \<Rightarrow> runtime_spec \<Rightarrow> string \<Rightarrow> runtime" where
  "new_runtime sha now spec backend =
     \<lparr>rt_ID = runtimeID sha spec backend, rt_Backend = backend, rt_ExternalID = [],
      rt_TaskID = rs_TaskID spec, rt_GenerationID = wg_ID (rs_Generation spec),
      rt_LeaseGeneration = le_FencingGeneration (rs_Lease spec), rt_WorkspacePath = rs_WorkspacePath spec,
      rt_Image = rs_Image spec, rt_Network = rs_Network spec, rt_Identity = runtimeID sha spec backend,
      rt_State = StateCreating, rt_CreatedAt = now, rt_UpdatedAt = now\<rparr>"

definition create_runtime ::
  "instant \<Rightarrow> bool \<Rightarrow> bool \<Rightarrow> 'x adapter \<Rightarrow> runtime_spec \<Rightarrow> runtime \<Rightarrow> 'x rt_manager
   \<Rightarrow> (rt_error + runtime) \<times> 'x rt_manager" where
  "create_runtime now w1 w2 a spec rt m =
    (let g = wg_ID (rs_Generation spec)
     in case persist w1 rt (put_runtime g rt m) of
          (False, m1) \<Rightarrow> (Inl RT_ErrRejected, drop_runtime g m1)
        | (True, m1) \<Rightarrow>
            (case ad_Create a spec (rt_ID rt) (rm_world m1) of
               (None, x) \<Rightarrow>
                 (let f = set_state now StateFailed rt
                  in (Inl RT_ErrRejected, put_runtime g f (snd (persist w2 f (put_world x m1)))))
             | (Some ext, x) \<Rightarrow>
                 (let ready = (set_state now StateReady rt)\<lparr>rt_ExternalID := ext\<rparr>
                  in case persist w2 ready (put_world x m1) of
                       (False, m2) \<Rightarrow> (Inl RT_ErrRejected, m2)
                     | (True, m2) \<Rightarrow> (Inr ready, put_runtime g ready m2))))"

definition default_network :: "runtime_spec \<Rightarrow> runtime_spec" where
  "default_network s = (if rs_Network s = [] then s\<lparr>rs_Network := NetworkNone\<rparr> else s)"

lemma default_network_generation [simp]: "rs_Generation (default_network s) = rs_Generation s"
  by (simp add: default_network_def)

definition rt_Create ::
  "(string \<Rightarrow> string) \<Rightarrow> instant \<Rightarrow> bool \<Rightarrow> bool \<Rightarrow> bool \<Rightarrow> bool \<Rightarrow> go_ctx \<Rightarrow> ws_repo \<Rightarrow> runtime_spec
   \<Rightarrow> string \<Rightarrow> 'x rt_manager \<Rightarrow> (rt_error + runtime) \<times> 'x rt_manager" where
  "rt_Create sha now w0 removed w1 w2 ctx r spec0 backend m =
    (if ctx = Ctx_Nil \<or> \<not> validBackend backend then (Inl RT_ErrRejected, m)
     else (let spec = default_network spec0
           in case rm_adapters m backend of
                None \<Rightarrow> (Inl RT_ErrUnsupported, m)
              | Some a \<Rightarrow>
                  (case validateSpec now ctx r spec of
                     Some e \<Rightarrow> (Inl e, m)
                   | None \<Rightarrow>
                       (case replace_stopped now w0 removed (wg_ID (rs_Generation spec)) m of
                          (False, m1) \<Rightarrow> (Inl RT_ErrRejected, m1)
                        | (True, m1) \<Rightarrow>
                            create_runtime now w1 w2 a spec (new_runtime sha now spec backend) m1))))"

definition lease_matches :: "instant \<Rightarrow> go_ctx \<Rightarrow> ws_repo \<Rightarrow> ws_lease \<Rightarrow> runtime \<Rightarrow> bool" where
  "lease_matches now ctx r l rt \<longleftrightarrow>
     le_GenerationID l = rt_GenerationID rt \<and> le_FencingGeneration l = rt_LeaseGeneration rt
     \<and> AssertLease now ctx l r = None"

definition rt_Start ::
  "instant \<Rightarrow> bool \<Rightarrow> go_ctx \<Rightarrow> ws_repo \<Rightarrow> string \<Rightarrow> ws_lease \<Rightarrow> 'x rt_manager
   \<Rightarrow> (rt_error + runtime) \<times> 'x rt_manager" where
  "rt_Start now w ctx r g l m =
    (case runtimeFor g StateReady m of
       Inl e \<Rightarrow> (Inl e, m)
     | Inr (rt, a) \<Rightarrow>
         if \<not> lease_matches now ctx r l rt then (Inl RT_ErrRejected, m)
         else (case ad_Start a (rt_ExternalID rt) (rm_world m) of
                 (False, x) \<Rightarrow>
                   (Inl RT_ErrRejected, snd (persist w (set_state now StateFailed rt) (put_world x m)))
               | (True, x) \<Rightarrow>
                   (let running = set_state now StateRunning rt
                    in case persist w running (put_runtime g running (put_world x m)) of
                         (False, m1) \<Rightarrow> (Inl RT_ErrRejected, m1)
                       | (True, m1) \<Rightarrow> (Inr running, m1))))"

definition rt_Stop ::
  "instant \<Rightarrow> bool \<Rightarrow> bool \<Rightarrow> go_ctx \<Rightarrow> ws_repo \<Rightarrow> string \<Rightarrow> ws_lease \<Rightarrow> 'x rt_manager
   \<Rightarrow> (rt_error + runtime) \<times> 'x rt_manager" where
  "rt_Stop now w1 w2 ctx r g l m =
    (case runtimeFor g StateRunning m of
       Inl e \<Rightarrow> (Inl e, m)
     | Inr (rt, a) \<Rightarrow>
         if \<not> lease_matches now ctx r l rt then (Inl RT_ErrRejected, m)
         else (let stopping = set_state now StateStopping rt
               in case persist w1 stopping m of
                    (False, m1) \<Rightarrow> (Inl RT_ErrRejected, m1)
                  | (True, m1) \<Rightarrow>
                      (case ad_Stop a (rt_ExternalID rt) (rm_world m1) of
                         (False, x) \<Rightarrow>
                           (Inl RT_ErrRejected,
                            snd (persist w2 (set_state now StateQuarantined stopping) (put_world x m1)))
                       | (True, x) \<Rightarrow>
                           (let stopped = set_state now StateStopped stopping
                            in case persist w2 stopped (put_runtime g stopped (put_world x m1)) of
                                 (False, m2) \<Rightarrow> (Inl RT_ErrRejected, m2)
                               | (True, m2) \<Rightarrow> (Inr stopped, m2)))))"

definition rt_Delete ::
  "instant \<Rightarrow> bool \<Rightarrow> go_ctx \<Rightarrow> ws_repo \<Rightarrow> string \<Rightarrow> ws_lease \<Rightarrow> 'x rt_manager
   \<Rightarrow> (rt_error + unit) \<times> 'x rt_manager" where
  "rt_Delete now removed ctx r g l m =
    (case runtimeFor g StateStopped m of
       Inl e \<Rightarrow> (Inl e, m)
     | Inr (rt, a) \<Rightarrow>
         if \<not> lease_matches now ctx r l rt then (Inl RT_ErrRejected, m)
         else (case (if rt_ExternalID rt = [] then (True, rm_world m)
                     else ad_Delete a (rt_ExternalID rt) (rm_world m)) of
                 (False, x) \<Rightarrow> (Inl RT_ErrRejected, put_world x m)
               | (True, x) \<Rightarrow>
                   (let m1 = drop_runtime g (put_world x m)
                    in if removed then (Inr (), remove_file (rt_ID rt) m1) else (Inl RT_ErrRejected, m1))))"

definition rt_Status :: "go_ctx \<Rightarrow> string \<Rightarrow> 'x rt_manager \<Rightarrow> rt_error + runtime" where
  "rt_Status ctx g m =
    (if ctx = Ctx_Nil \<or> g = [] then Inl RT_ErrRejected
     else (case rm_runtimes m g of None \<Rightarrow> Inl RT_ErrRejected | Some rt \<Rightarrow> Inr rt))"

text \<open>\<open>order\<close> is the order in which the loop over the map of runtimes visits its keys.\<close>

definition rt_Lookup :: "string list \<Rightarrow> go_ctx \<Rightarrow> string \<Rightarrow> 'x rt_manager \<Rightarrow> rt_error + runtime" where
  "rt_Lookup order ctx i m =
    (if ctx = Ctx_Nil \<or> i = [] then Inl RT_ErrRejected
     else (case find (\<lambda>rt. rt_ID rt = i) (List.map_filter (rm_runtimes m) order) of
             None \<Rightarrow> Inl RT_ErrRejected
           | Some rt \<Rightarrow> Inr rt))"

definition in_flight :: "string \<Rightarrow> bool" where
  "in_flight s \<longleftrightarrow> s = StateCreating \<or> s = StateRunning \<or> s = StateStopping"

definition recover_runtime ::
  "instant \<Rightarrow> go_ctx \<Rightarrow> ws_repo \<Rightarrow> string \<Rightarrow> runtime \<Rightarrow> 'x rt_manager \<Rightarrow> runtime \<times> 'x" where
  "recover_runtime now ctx r g rt m =
    (case (LoadGeneration ctx g r, CurrentLease ctx g r) of
       (Inr gen, Inr l) \<Rightarrow>
         if wg_Path gen \<noteq> rt_WorkspacePath rt \<or> le_FencingGeneration l \<noteq> rt_LeaseGeneration rt
         then (set_state now StateQuarantined rt, rm_world m)
         else if rt_ExternalID rt = [] then (set_state now StateStopped rt, rm_world m)
         else (case rm_adapters m (rt_Backend rt) of
                 None \<Rightarrow> (set_state now StateQuarantined rt, rm_world m)
               | Some a \<Rightarrow>
                   (case ad_Stop a (rt_ExternalID rt) (rm_world m) of
                      (False, x) \<Rightarrow> (set_state now StateQuarantined rt, x)
                    | (True, x) \<Rightarrow>
                        (case ad_Delete a (rt_ExternalID rt) x of
                           (False, x') \<Rightarrow> (set_state now StateQuarantined rt, x')
                         | (True, x') \<Rightarrow> ((set_state now StateStopped rt)\<lparr>rt_ExternalID := []\<rparr>, x'))))
     | _ \<Rightarrow> (set_state now StateQuarantined rt, rm_world m))"

fun rt_Recover ::
  "instant \<Rightarrow> (string \<Rightarrow> bool) \<Rightarrow> go_ctx \<Rightarrow> ws_repo \<Rightarrow> string list \<Rightarrow> 'x rt_manager
   \<Rightarrow> (rt_error + unit) \<times> 'x rt_manager" where
  "rt_Recover now w ctx r [] m = (Inr (), m)"
| "rt_Recover now w ctx r (g # gs) m =
    (case rm_runtimes m g of
       None \<Rightarrow> rt_Recover now w ctx r gs m
     | Some rt \<Rightarrow>
         if \<not> in_flight (rt_State rt) then rt_Recover now w ctx r gs m
         else (case recover_runtime now ctx r g rt m of
                 (rt', x) \<Rightarrow>
                   (case persist (w g) rt' (put_runtime g rt' (put_world x m)) of
                      (False, m1) \<Rightarrow> (Inl RT_ErrRejected, m1)
                    | (True, m1) \<Rightarrow> rt_Recover now w ctx r gs m1)))"

subsection \<open>Adapters\<close>

text \<open>\<open>run\<close> is the command runner: the executable, its arguments, the world. An adapter has no
  state of its own.\<close>

type_synonym 'x runner = "string \<Rightarrow> string list \<Rightarrow> 'x \<Rightarrow> bool \<times> 'x"

definition or_default :: "string \<Rightarrow> string \<Rightarrow> string" where
  "or_default v d = (if v \<noteq> [] then v else d)"

definition apple_create_args :: "runtime_spec \<Rightarrow> string \<Rightarrow> string list" where
  "apple_create_args s identity =
     [''create'', ''--name'', identity, ''--cpus'', format_int (rs_CPU s), ''--memory'',
      format_int (rs_MemoryBytes s), ''--network'', ''none'', ''--mount'',
      ''source='' @ rs_WorkspacePath s @ '',target=/workspace''
        @ (if rs_MountReadOnly s then '',readonly'' else []),
      rs_Image s, ''/bin/sleep'', ''infinity'']"

definition apple_adapter :: "'x runner \<Rightarrow> string \<Rightarrow> 'x adapter" where
  "apple_adapter run binary =
    (let b = or_default binary ''container''
     in \<lparr>ad_Name = ''apple-container'',
         ad_Create = (\<lambda>s identity x.
            if rs_Network s \<noteq> NetworkNone then (None, x)
            else (case run b (apple_create_args s identity) x of
                    (ok, x') \<Rightarrow> (if ok then Some identity else None, x'))),
         ad_Start = (\<lambda>i x. run b [''start'', i] x),
         ad_Stop = (\<lambda>i x. run b [''stop'', i] x),
         ad_Delete = (\<lambda>i x. run b [''rm'', i] x)\<rparr>)"

definition lima_adapter :: "'x runner \<Rightarrow> string \<Rightarrow> 'x adapter" where
  "lima_adapter run inst =
    (let i = or_default inst ''default''
     in \<lparr>ad_Name = ''lima'',
         ad_Create = (\<lambda>s identity x.
            if rs_Network s \<noteq> NetworkNone then (None, x)
            else (case run ''limactl'' [''shell'', ''--start'', i, ''--'', ''true''] x of
                    (ok, x') \<Rightarrow> (if ok then Some (''lima:'' @ i @ '':'' @ identity) else None, x'))),
         ad_Start = (\<lambda>_ x. (True, x)),
         ad_Stop = (\<lambda>_ x. (True, x)),
         ad_Delete = (\<lambda>_ x. (True, x))\<rparr>)"

text \<open>\<open>FakeAdapter\<close> records its calls; its world is that list and the error it is set to return.\<close>

record fake_world =
  fw_Calls :: "string list"
  fw_Err :: bool

definition fake_call :: "string \<Rightarrow> fake_world \<Rightarrow> bool \<times> fake_world" where
  "fake_call name x = (\<not> fw_Err x, x\<lparr>fw_Calls := fw_Calls x @ [name]\<rparr>)"

definition fake_adapter :: "string \<Rightarrow> fake_world adapter" where
  "fake_adapter name =
     \<lparr>ad_Name = or_default name ''test'',
      ad_Create = (\<lambda>s identity x. case fake_call ''create'' x of
                     (ok, x') \<Rightarrow> (if ok then Some ''fake-runtime'' else None, x')),
      ad_Start = (\<lambda>_. fake_call ''start''),
      ad_Stop = (\<lambda>_. fake_call ''stop''),
      ad_Delete = (\<lambda>_. fake_call ''delete'')\<rparr>"

subsection \<open>Sequences of operations\<close>

text \<open>The repository and the clock of an operation are whatever they are at that moment.\<close>

datatype rt_op =
    RO_Create "string \<Rightarrow> string" instant bool bool bool bool go_ctx ws_repo runtime_spec string
  | RO_Start instant bool go_ctx ws_repo string ws_lease
  | RO_Stop instant bool bool go_ctx ws_repo string ws_lease
  | RO_Delete instant bool go_ctx ws_repo string ws_lease
  | RO_Recover instant "string \<Rightarrow> bool" go_ctx ws_repo "string list"

fun rt_step :: "rt_op \<Rightarrow> 'x rt_manager \<Rightarrow> 'x rt_manager" where
  "rt_step (RO_Create sha now w0 removed w1 w2 ctx r spec backend) m
     = snd (rt_Create sha now w0 removed w1 w2 ctx r spec backend m)"
| "rt_step (RO_Start now w ctx r g l) m = snd (rt_Start now w ctx r g l m)"
| "rt_step (RO_Stop now w1 w2 ctx r g l) m = snd (rt_Stop now w1 w2 ctx r g l m)"
| "rt_step (RO_Delete now removed ctx r g l) m = snd (rt_Delete now removed ctx r g l m)"
| "rt_step (RO_Recover now w ctx r order) m = snd (rt_Recover now w ctx r order m)"

definition rt_run :: "rt_op list \<Rightarrow> 'x rt_manager \<Rightarrow> 'x rt_manager" where
  "rt_run ops m = foldl (\<lambda>m op. rt_step op m) m ops"

lemma rt_run_simps [simp]: "rt_run [] m = m" "rt_run (op # ops) m = rt_run ops (rt_step op m)"
  by (simp_all add: rt_run_def)

subsection \<open>Shape of the updates\<close>

lemma put_runtime_simps [simp]:
  "rm_runtimes (put_runtime g rt m) = (rm_runtimes m)(g \<mapsto> rt)" "rm_disk (put_runtime g rt m) = rm_disk m"
  "rm_adapters (put_runtime g rt m) = rm_adapters m" "rm_world (put_runtime g rt m) = rm_world m"
  by (simp_all add: put_runtime_def)

lemma drop_runtime_simps [simp]:
  "rm_runtimes (drop_runtime g m) = (rm_runtimes m)(g := None)" "rm_disk (drop_runtime g m) = rm_disk m"
  "rm_adapters (drop_runtime g m) = rm_adapters m" "rm_world (drop_runtime g m) = rm_world m"
  by (simp_all add: drop_runtime_def)

lemma remove_file_simps [simp]:
  "rm_runtimes (remove_file i m) = rm_runtimes m" "rm_disk (remove_file i m) = (rm_disk m)(i := None)"
  "rm_adapters (remove_file i m) = rm_adapters m" "rm_world (remove_file i m) = rm_world m"
  by (simp_all add: remove_file_def)

lemma put_world_simps [simp]:
  "rm_runtimes (put_world x m) = rm_runtimes m" "rm_disk (put_world x m) = rm_disk m"
  "rm_adapters (put_world x m) = rm_adapters m" "rm_world (put_world x m) = x"
  by (simp_all add: put_world_def)

lemma persist_simps [simp]:
  "rm_runtimes (snd (persist w rt m)) = rm_runtimes m" "rm_adapters (snd (persist w rt m)) = rm_adapters m"
  "rm_world (snd (persist w rt m)) = rm_world m"
  by (simp_all add: persist_def)

lemma persist_pair:
  "persist w rt m = (b, m') \<Longrightarrow> rm_runtimes m' = rm_runtimes m \<and> rm_adapters m' = rm_adapters m
     \<and> rm_world m' = rm_world m \<and> (b \<longrightarrow> validRuntime rt \<and> rm_disk m' = (rm_disk m)(rt_ID rt \<mapsto> rt))
     \<and> (\<not> b \<longrightarrow> m' = m)"
  by (auto simp: persist_def split: if_splits)

lemma set_state_simps [simp]:
  "rt_State (set_state now s rt) = s" "rt_GenerationID (set_state now s rt) = rt_GenerationID rt"
  "rt_ID (set_state now s rt) = rt_ID rt" "rt_ExternalID (set_state now s rt) = rt_ExternalID rt"
  "rt_LeaseGeneration (set_state now s rt) = rt_LeaseGeneration rt"
  "rt_WorkspacePath (set_state now s rt) = rt_WorkspacePath rt"
  "rt_Backend (set_state now s rt) = rt_Backend rt"
  by (simp_all add: set_state_def)

lemma new_runtime_simps [simp]:
  "rt_State (new_runtime sha now spec b) = StateCreating"
  "rt_GenerationID (new_runtime sha now spec b) = wg_ID (rs_Generation spec)"
  by (simp_all add: new_runtime_def)

lemma rt_state_distinct [simp]:
  "StateCreating \<noteq> StateReady" "StateCreating \<noteq> StateRunning" "StateCreating \<noteq> StateStopped"
  "StateReady \<noteq> StateCreating" "StateReady \<noteq> StateRunning" "StateReady \<noteq> StateStopped"
  "StateReady \<noteq> StateFailed" "StateReady \<noteq> StateQuarantined" "StateRunning \<noteq> StateCreating"
  "StateRunning \<noteq> StateReady" "StateRunning \<noteq> StateStopped" "StateRunning \<noteq> StateFailed"
  "StateRunning \<noteq> StateQuarantined" "StateStopped \<noteq> StateCreating" "StateStopped \<noteq> StateReady"
  "StateStopped \<noteq> StateRunning" "StateStopped \<noteq> StateFailed" "StateStopped \<noteq> StateQuarantined"
  "StateFailed \<noteq> StateStopped" "StateFailed \<noteq> StateReady" "StateFailed \<noteq> StateRunning"
  "StateQuarantined \<noteq> StateStopped" "StateQuarantined \<noteq> StateReady" "StateQuarantined \<noteq> StateRunning"
  by (simp_all add: rt_state_defs)

lemma in_flight_simps [simp]:
  "in_flight StateCreating" "in_flight StateRunning" "in_flight StateStopping" "\<not> in_flight StateReady"
  "\<not> in_flight StateStopped" "\<not> in_flight StateFailed" "\<not> in_flight StateQuarantined"
  by (simp_all add: in_flight_def rt_state_defs)

subsection \<open>The lifecycle the manager implements\<close>

text \<open>The abstract machine of one generation: no runtime, or a runtime in a state.\<close>

inductive lifecycle :: "string option \<Rightarrow> string option \<Rightarrow> bool" where
  lc_stay: "lifecycle s s"
| lc_new: "s = None \<or> s = Some StateStopped \<Longrightarrow>
     t = None \<or> t = Some StateCreating \<or> t = Some StateReady \<or> t = Some StateFailed \<Longrightarrow> lifecycle s t"
| lc_cleanup: "lifecycle (Some StateStopped) (Some StateQuarantined)"
| lc_start: "lifecycle (Some StateReady) (Some StateRunning)"
| lc_stop: "lifecycle (Some StateRunning) (Some StateStopped)"
| lc_recover: "in_flight s \<Longrightarrow> t = StateStopped \<or> t = StateQuarantined \<Longrightarrow> lifecycle (Some s) (Some t)"

inductive_simps lifecycle_failed: "lifecycle (Some StateFailed) t"
inductive_simps lifecycle_quarantined: "lifecycle (Some StateQuarantined) t"

definition rt_abs :: "'x rt_manager \<Rightarrow> string \<Rightarrow> string option" where
  "rt_abs m g = map_option rt_State (rm_runtimes m g)"

lemma replace_stopped_abs:
  assumes "replace_stopped now w removed g m = (b, m')"
  shows "rt_abs m' k = rt_abs m k \<or> (k = g \<and> rt_abs m g = Some StateStopped \<and> \<not> b \<and> rt_abs m' g = Some StateQuarantined)
      \<or> (k = g \<and> rt_abs m g = Some StateStopped \<and> b \<and> rt_abs m' g = None)"
    and "b \<Longrightarrow> rt_abs m' g = None \<and> (rt_abs m g = None \<or> rt_abs m g = Some StateStopped)"
  using assms
  by (auto simp: replace_stopped_def rt_abs_def Let_def split: option.splits if_splits prod.splits)

lemma create_runtime_abs:
  assumes "create_runtime now w1 w2 a spec rt m = (res, m')" and "rt_State rt = StateCreating"
  shows "k \<noteq> wg_ID (rs_Generation spec) \<Longrightarrow> rt_abs m' k = rt_abs m k"
    and "rt_abs m' (wg_ID (rs_Generation spec)) \<in> {None, Some StateCreating, Some StateReady, Some StateFailed}"
  using assms
  by (auto simp: create_runtime_def rt_abs_def Let_def persist_def split: prod.splits bool.splits option.splits if_splits)

lemma rt_Create_abs:
  "lifecycle (rt_abs m k) (rt_abs (snd (rt_Create sha now w0 removed w1 w2 ctx r spec0 backend m)) k)"
proof -
  let ?spec = "default_network spec0"
  let ?g = "wg_ID (rs_Generation ?spec)"
  show ?thesis
  proof (cases "ctx = Ctx_Nil \<or> \<not> validBackend backend \<or> rm_adapters m backend = None
      \<or> validateSpec now ctx r ?spec \<noteq> None")
    case True
    then show ?thesis by (auto simp: rt_Create_def Let_def lc_stay split: option.splits)
  next
    case False
    then obtain a where a: "rm_adapters m backend = Some a" by auto
    obtain b m1 where r: "replace_stopped now w0 removed ?g m = (b, m1)" by fastforce
    show ?thesis
    proof (cases b)
      case True
      obtain res m2 where c: "create_runtime now w1 w2 a ?spec (new_runtime sha now ?spec backend) m1 = (res, m2)"
        by fastforce
      have m2: "snd (rt_Create sha now w0 removed w1 w2 ctx r spec0 backend m) = m2"
        using False a r True c by (simp add: rt_Create_def Let_def)
      show ?thesis
      proof (cases "k = ?g")
        case True
        then show ?thesis
          using replace_stopped_abs(2) [OF r \<open>b\<close>] create_runtime_abs(2) [OF c] m2
          by (auto intro: lc_new)
      next
        case neq: False
        then have "rt_abs m2 k = rt_abs m k"
          using replace_stopped_abs(1) [OF r, of k] create_runtime_abs(1) [OF c _ neq] by simp
        then show ?thesis using m2 by (simp add: lc_stay)
      qed
    next
      case nb: False
      then have "snd (rt_Create sha now w0 removed w1 w2 ctx r spec0 backend m) = m1"
        using False a r by (simp add: rt_Create_def Let_def)
      then show ?thesis using replace_stopped_abs(1) [OF r, of k] nb by (auto intro: lc_stay lc_cleanup)
    qed
  qed
qed

lemma runtimeForD:
  "runtimeFor g s m = Inr (rt, a) \<Longrightarrow> rm_runtimes m g = Some rt \<and> rt_State rt = s \<and> rm_adapters m (rt_Backend rt) = Some a"
  by (auto simp: runtimeFor_def split: option.splits if_splits)

lemma rt_Start_abs: "lifecycle (rt_abs m k) (rt_abs (snd (rt_Start now w ctx r g l m)) k)"
  by (auto simp: rt_Start_def Let_def rt_abs_def lc_stay lc_start persist_def
      split: sum.splits prod.splits bool.splits if_splits dest!: runtimeForD)

lemma rt_Stop_abs: "lifecycle (rt_abs m k) (rt_abs (snd (rt_Stop now w1 w2 ctx r g l m)) k)"
  by (auto simp: rt_Stop_def Let_def rt_abs_def lc_stay lc_stop persist_def
      split: sum.splits prod.splits bool.splits if_splits dest!: runtimeForD)

lemma rt_Delete_abs: "lifecycle (rt_abs m k) (rt_abs (snd (rt_Delete now removed ctx r g l m)) k)"
  by (auto simp: rt_Delete_def Let_def rt_abs_def lc_stay intro: lc_new
      split: sum.splits prod.splits bool.splits if_splits dest!: runtimeForD)

lemma recover_runtime_state:
  assumes "recover_runtime now ctx r g rt m = (rt', x)"
  shows "(rt_State rt' = StateStopped \<or> rt_State rt' = StateQuarantined) \<and> rt_ID rt' = rt_ID rt
    \<and> rt_GenerationID rt' = rt_GenerationID rt
    \<and> (rt_State rt' = StateStopped \<longrightarrow> rt_ExternalID rt' = [])"
  using assms by (auto simp: recover_runtime_def split: sum.splits if_splits option.splits prod.splits bool.splits)

lemma rt_Recover_abs:
  "rt_Recover now w ctx r gs m = (res, m') \<Longrightarrow> rt_abs m' k = rt_abs m k
     \<or> (\<exists>s t. rt_abs m k = Some s \<and> in_flight s \<and> rt_abs m' k = Some t \<and> (t = StateStopped \<or> t = StateQuarantined))"
proof (induction gs arbitrary: m)
  case (Cons g gs)
  show ?case
  proof (cases "\<exists>rt. rm_runtimes m g = Some rt \<and> in_flight (rt_State rt)")
    case False
    then show ?thesis using Cons by (auto split: option.splits if_splits)
  next
    case True
    then obtain rt where rt: "rm_runtimes m g = Some rt" "in_flight (rt_State rt)" by blast
    obtain rt' x where q: "recover_runtime now ctx r g rt m = (rt', x)" by fastforce
    obtain b m1 where p: "persist (w g) rt' (put_runtime g rt' (put_world x m)) = (b, m1)" by fastforce
    have m1: "rt_abs m1 k = (if k = g then Some (rt_State rt') else rt_abs m k)"
      using persist_pair [OF p] by (simp add: rt_abs_def)
    have s: "rt_State rt' = StateStopped \<or> rt_State rt' = StateQuarantined"
      using recover_runtime_state [OF q] by blast
    have g: "rt_abs m g = Some (rt_State rt)" using rt by (simp add: rt_abs_def)
    show ?thesis
    proof (cases b)
      case True
      then have "rt_Recover now w ctx r gs m1 = (res, m')" using Cons.prems rt q p by simp
      then show ?thesis using Cons.IH [of m1] m1 s g rt(2) by (cases "k = g") auto
    next
      case False
      then have "m' = m1" using Cons.prems rt q p by simp
      then show ?thesis using m1 s g rt(2) by (cases "k = g") auto
    qed
  qed
qed simp

text \<open>C15: The manager refines the lifecycle machine: whatever an operation does (its adapter may fail,
  its writes may fail), the state of every generation's runtime in memory makes at most one
  transition of the machine, and over a whole sequence of operations the states follow it.\<close>

theorem runtime_refines_lifecycle:
  "lifecycle (rt_abs m g) (rt_abs (rt_step op m) g)
   \<and> lifecycle\<^sup>*\<^sup>* (rt_abs m g) (rt_abs (rt_run ops m) g)"
proof -
  have step: "lifecycle (rt_abs m g) (rt_abs (rt_step op m) g)" for op and m :: "'a rt_manager"
  proof (cases op)
    case (RO_Recover now w ctx r order)
    obtain res m' where q: "rt_Recover now w ctx r order m = (res, m')" by fastforce
    then show ?thesis using RO_Recover rt_Recover_abs [OF q, of g] by (auto intro: lc_stay lc_recover)
  qed (simp_all add: rt_Create_abs rt_Start_abs rt_Stop_abs rt_Delete_abs)
  have "lifecycle\<^sup>*\<^sup>* (rt_abs m g) (rt_abs (rt_run ops m) g)" for m :: "'a rt_manager"
    by (induction ops arbitrary: m) (auto intro: converse_rtranclp_into_rtranclp step)
  then show ?thesis using step by blast
qed

lemma failed_is_final: "rt_abs m g = Some StateFailed \<Longrightarrow> rt_abs (rt_run ops m) g = Some StateFailed"
proof -
  have "lifecycle\<^sup>*\<^sup>* s t \<Longrightarrow> s = Some StateFailed \<Longrightarrow> t = Some StateFailed" for s t
    by (induction rule: rtranclp_induct) (auto simp: lifecycle_failed)
  moreover have "lifecycle\<^sup>*\<^sup>* (rt_abs m g) (rt_abs (rt_run ops m) g)"
  proof (induction ops arbitrary: m)
    case (Cons op ops)
    have "lifecycle (rt_abs m g) (rt_abs (rt_step op m) g)"
    proof (cases op)
      case (RO_Recover now w ctx r order)
      obtain res m' where q: "rt_Recover now w ctx r order m = (res, m')" by fastforce
      then show ?thesis using RO_Recover rt_Recover_abs [OF q, of g] by (auto intro: lc_stay lc_recover)
    qed (simp_all add: rt_Create_abs rt_Start_abs rt_Stop_abs rt_Delete_abs)
    then show ?case using Cons.IH by (auto intro: converse_rtranclp_into_rtranclp)
  qed simp
  ultimately show "rt_abs m g = Some StateFailed \<Longrightarrow> rt_abs (rt_run ops m) g = Some StateFailed" by blast
qed

subsection \<open>Well-formed records\<close>

definition rt_wf :: "'x rt_manager \<Rightarrow> bool" where
  "rt_wf m \<longleftrightarrow>
     (\<forall>g rt. rm_runtimes m g = Some rt \<longrightarrow> rt_GenerationID rt = g \<and> validRuntime rt)
     \<and> (\<forall>i rt. rm_disk m i = Some rt \<longrightarrow> rt_ID rt = i \<and> validRuntime rt)"

lemma rt_wf_upd:
  assumes "rt_wf m"
  shows "rt_wf (put_world x m)" and "rt_wf (drop_runtime g m)" and "rt_wf (remove_file i m)"
    and "rt_wf (snd (persist w rt m))"
    and "rt_GenerationID rt = g \<Longrightarrow> validRuntime rt \<Longrightarrow> rt_wf (put_runtime g rt m)"
  using assms by (auto simp: rt_wf_def persist_def)

lemma rt_wf_persist: "rt_wf m \<Longrightarrow> persist w rt m = (b, m') \<Longrightarrow> rt_wf m'"
  using rt_wf_upd(4) [of m w rt] by simp

lemma rt_wfD: "rt_wf m \<Longrightarrow> rm_runtimes m g = Some rt \<Longrightarrow> rt_GenerationID rt = g \<and> validRuntime rt"
  by (simp add: rt_wf_def)

lemma validRuntime_set_state:
  "validRuntime rt \<Longrightarrow> s = StateStopped \<or> s = StateFailed \<or> s = StateQuarantined \<Longrightarrow> validRuntime (set_state now s rt)"
  by (auto simp: validRuntime_def set_state_def rt_state_defs)

lemma validRuntime_active:
  "validRuntime rt \<Longrightarrow> rt_State rt = StateReady \<or> rt_State rt = StateRunning \<Longrightarrow> s \<noteq> []
   \<Longrightarrow> validRuntime (set_state now s rt)"
  by (auto simp: validRuntime_def set_state_def rt_state_defs)

lemma state_names_nonempty [simp]: "StateRunning \<noteq> []" "StateStopping \<noteq> []" "StateReady \<noteq> []"
  by (simp_all add: rt_state_defs)

lemma replace_stopped_wf:
  assumes "rt_wf m" and "replace_stopped now w removed g m = (b, m')"
  shows "rt_wf m'"
proof (cases "rm_runtimes m g")
  case None
  then show ?thesis using assms by (simp add: replace_stopped_def)
next
  case (Some e)
  have q: "rt_wf (put_runtime g (set_state now StateQuarantined e) m1)" if "rt_wf m1" for m1 :: "'a rt_manager"
    using rt_wfD [OF assms(1) Some] that by (auto intro: rt_wf_upd(5) validRuntime_set_state)
  show ?thesis
    using assms Some q
    by (auto simp: replace_stopped_def Let_def intro: rt_wf_upd
        split: if_splits prod.splits option.splits)
qed

lemma create_runtime_wf:
  assumes wf: "rt_wf m" and c: "create_runtime now w1 w2 a spec rt m = (res, m')"
    and g: "rt_GenerationID rt = wg_ID (rs_Generation spec)"
  shows "rt_wf m'"
proof -
  let ?g = "wg_ID (rs_Generation spec)"
  obtain b m1 where p: "persist w1 rt (put_runtime ?g rt m) = (b, m1)" by fastforce
  show ?thesis
  proof (cases b)
    case False
    then have "m' = drop_runtime ?g (put_runtime ?g rt m)"
      using c p persist_pair [OF p] by (simp add: create_runtime_def Let_def)
    then show ?thesis using wf by (simp add: rt_wf_def)
  next
    case True
    have v: "validRuntime rt" using persist_pair [OF p] True by simp
    have wf1: "rt_wf m1" using rt_wf_persist [OF rt_wf_upd(5) [OF wf g v] p] .
    obtain ext x where e: "ad_Create a spec (rt_ID rt) (rm_world m1) = (ext, x)" by fastforce
    show ?thesis
    proof (cases ext)
      case None
      then show ?thesis
        using c p True e wf1 v g by (auto simp: create_runtime_def Let_def intro!: rt_wf_upd validRuntime_set_state)
    next
      case (Some i)
      let ?ready = "(set_state now StateReady rt)\<lparr>rt_ExternalID := i\<rparr>"
      obtain b2 m2 where p2: "persist w2 ?ready (put_world x m1) = (b2, m2)" by fastforce
      have wf2: "rt_wf m2" using rt_wf_persist [OF rt_wf_upd(1) [OF wf1] p2] .
      show ?thesis
        using c p True e Some p2 wf2 persist_pair [OF p2] g
        by (cases b2) (auto simp: create_runtime_def Let_def intro!: rt_wf_upd(5))
    qed
  qed
qed

lemma create_runtime_wf':
  "rt_wf m \<Longrightarrow> rt_GenerationID rt = wg_ID (rs_Generation spec)
   \<Longrightarrow> rt_wf (snd (create_runtime now w1 w2 a spec rt m))"
  using create_runtime_wf by (metis prod.collapse)

lemma rt_Create_wf: "rt_wf m \<Longrightarrow> rt_wf (snd (rt_Create sha now w0 removed w1 w2 ctx r spec0 backend m))"
proof -
  assume wf: "rt_wf m"
  show ?thesis
    using wf replace_stopped_wf [OF wf]
    by (auto simp: rt_Create_def Let_def intro!: create_runtime_wf' split: option.split prod.split bool.split)
qed

lemma rt_Start_wf: "rt_wf m \<Longrightarrow> rt_wf (snd (rt_Start now w ctx r g l m))"
proof -
  assume wf: "rt_wf m"
  have run: "rt_GenerationID rt = g \<and> validRuntime (set_state now StateRunning rt)"
    if "runtimeFor g StateReady m = Inr (rt, a)" for rt a
    using runtimeForD [OF that] rt_wfD [OF wf] by (auto intro: validRuntime_active)
  show ?thesis
    using wf run
    by (auto simp: rt_Start_def Let_def split: sum.split prod.split bool.split
        intro!: rt_wf_upd intro: rt_wf_persist [OF rt_wf_upd(5) [OF rt_wf_upd(1)]])
qed

lemma rt_Stop_wf: "rt_wf m \<Longrightarrow> rt_wf (snd (rt_Stop now w1 w2 ctx r g l m))"
proof -
  assume wf: "rt_wf m"
  have run: "rt_GenerationID rt = g \<and> validRuntime (set_state now StateStopped (set_state now StateStopping rt))"
    if "runtimeFor g StateRunning m = Inr (rt, a)" for rt a
    using runtimeForD [OF that] rt_wfD [OF wf, of g rt]
      validRuntime_set_state [OF validRuntime_active [of rt StateStopping now], of StateStopped now] by simp
  show ?thesis
    using wf run
    by (auto simp: rt_Stop_def Let_def split: sum.split prod.split bool.split
        intro!: rt_wf_upd intro: rt_wf_persist rt_wf_persist [OF rt_wf_upd(5) [OF rt_wf_upd(1)]])
qed

lemma rt_Delete_wf: "rt_wf m \<Longrightarrow> rt_wf (snd (rt_Delete now removed ctx r g l m))"
  by (auto simp: rt_Delete_def Let_def split: sum.split prod.split bool.split intro!: rt_wf_upd)

lemma recover_runtime_valid:
  assumes "validRuntime rt" and "recover_runtime now ctx r g rt m = (rt', x)"
  shows "validRuntime rt'"
proof -
  have "rt' = set_state now StateQuarantined rt \<or> rt' = set_state now StateStopped rt
      \<or> rt' = (set_state now StateStopped rt)\<lparr>rt_ExternalID := []\<rparr>"
    using assms(2)
    by (auto simp: recover_runtime_def split: sum.splits if_splits option.splits prod.splits bool.splits)
  moreover have "validRuntime ((set_state now StateStopped rt)\<lparr>rt_ExternalID := []\<rparr>)"
    using assms(1) by (auto simp: validRuntime_def set_state_def rt_state_defs)
  ultimately show ?thesis using validRuntime_set_state [OF assms(1)] by auto
qed

lemma rt_Recover_wf: "rt_wf m \<Longrightarrow> rt_wf (snd (rt_Recover now w ctx r gs m))"
proof (induction gs arbitrary: m)
  case (Cons g gs)
  have "rt_wf m1" if "rm_runtimes m g = Some rt" "recover_runtime now ctx r g rt m = (rt', x)"
      "persist (w g) rt' (put_runtime g rt' (put_world x m)) = (b, m1)" for rt rt' x b m1
  proof -
    have "rt_GenerationID rt' = g \<and> validRuntime rt'"
      using recover_runtime_valid [OF _ that(2)] recover_runtime_state [OF that(2)] rt_wfD [OF Cons.prems that(1)] by simp
    then show ?thesis
      using rt_wf_persist [OF rt_wf_upd(5) [OF rt_wf_upd(1) [OF Cons.prems]] that(3)] by blast
  qed
  then show ?case using Cons by (auto split: option.split prod.split bool.split)
qed simp

text \<open>C25: Every runtime record stays well-formed: from a well-formed manager every sequence of operations
  leads to a well-formed one, in which each record in memory belongs to the generation it is stored
  under, each file on disk holds the record of its name, and all of them satisfy \<open>validRuntime\<close>.\<close>

theorem runtime_records_wf:
  assumes "rt_wf m"
  shows "rt_wf (rt_run ops m)"
  using assms
proof (induction ops arbitrary: m)
  case (Cons op ops)
  have "rt_wf (rt_step op m)" using Cons.prems
    by (cases op) (simp_all add: rt_Create_wf rt_Start_wf rt_Stop_wf rt_Delete_wf rt_Recover_wf)
  then show ?case using Cons.IH by simp
qed simp

definition fake0 :: "fake_world rt_manager" where
  "fake0 = \<lparr>rm_adapters = [''test'' \<mapsto> fake_adapter []], rm_runtimes = Map.empty, rm_disk = Map.empty,
     rm_world = \<lparr>fw_Calls = [], fw_Err = False\<rparr>\<rparr>"

definition leased_repo :: ws_repo where "leased_repo = snd (acq 5 ''a'' sample_repo)"

definition spec0 :: runtime_spec where
  "spec0 = \<lparr>rs_TaskID = ''t1'',
     rs_Generation = \<lparr>wg_ID = ''gen_1'', wg_Path = ''/state/ws/gen_1'', wg_RepositoryID = ''repo'',
       wg_SourceFilesystem = ''fs'', wg_CandidateSnapshot = ''snap'', wg_FencingGeneration = 0,
       wg_State = activeState, wg_CreatedAt = 1\<rparr>,
     rs_Lease = sample_lease, rs_WorkspacePath = ''/state/ws/gen_1'', rs_LiveRepositoryPath = ''/live/repo'',
     rs_Image = ''img'', rs_CPU = 2, rs_MemoryBytes = 134217728, rs_Network = [], rs_MountReadOnly = False\<rparr>"

definition ops0 :: "rt_op list" where
  "ops0 = [RO_Create (\<lambda>s. take 3 s) 6 True True True True Ctx_Live leased_repo spec0 ''test'',
           RO_Start 7 True Ctx_Live leased_repo ''gen_1'' sample_lease,
           RO_Stop 8 True True Ctx_Live leased_repo ''gen_1'' sample_lease]"

theorem runtime_records_wf_witness:
  "rt_wf fake0 \<and> rt_abs (rt_run ops0 fake0) ''gen_1'' = Some StateStopped \<and> rt_wf (rt_run ops0 fake0)"
proof -
  have "rt_wf fake0" by (simp add: rt_wf_def fake0_def)
  moreover have "rt_abs (rt_run ops0 fake0) ''gen_1'' = Some StateStopped" by code_simp
  ultimately show ?thesis using runtime_records_wf by blast
qed

subsection \<open>Fencing\<close>

text \<open>A lease that does not hold any more leaves the manager and its world as they are.\<close>

lemma rt_unleased:
  assumes "AssertLease now ctx l r \<noteq> None"
  shows "\<not> is_ok (fst (rt_Start now w ctx r g l m)) \<and> snd (rt_Start now w ctx r g l m) = m"
    and "\<not> is_ok (fst (rt_Stop now w w2 ctx r g l m)) \<and> snd (rt_Stop now w w2 ctx r g l m) = m"
    and "\<not> is_ok (fst (rt_Delete now w ctx r g l m)) \<and> snd (rt_Delete now w ctx r g l m) = m"
  using assms
  by (auto simp: rt_Start_def rt_Stop_def rt_Delete_def lease_matches_def split: sum.split)

text \<open>When the adapter fails to start a runtime, the file says FAILED and the memory still READY, so
  the next start is attempted.\<close>

lemma failed_start_stays_ready:
  assumes "runtimeFor g StateReady m = Inr (rt, a)" and "lease_matches now ctx r l rt"
    and "ad_Start a (rt_ExternalID rt) (rm_world m) = (False, x)" and "validRuntime rt"
  shows "rt_abs (snd (rt_Start now True ctx r g l m)) g = Some StateReady
     \<and> map_option rt_State (rm_disk (snd (rt_Start now True ctx r g l m)) (rt_ID rt)) = Some StateFailed"
  using assms runtimeForD [OF assms(1)] validRuntime_set_state [OF assms(4), of StateFailed now]
  by (auto simp: rt_Start_def rt_abs_def persist_def)

text \<open>A container whose record could not be written after it was created is forgotten: recovery calls
  the runtime stopped without touching the adapter.\<close>

lemma unrecorded_container_leaks:
  assumes "LoadGeneration ctx g r = Inr gen" and "CurrentLease ctx g r = Inr l"
    and "wg_Path gen = rt_WorkspacePath rt" and "le_FencingGeneration l = rt_LeaseGeneration rt"
    and "rt_ExternalID rt = []"
  shows "recover_runtime now ctx r g rt m = (set_state now StateStopped rt, rm_world m)"
  using assms by (simp add: recover_runtime_def)

text \<open>What a successful \<open>Create\<close> makes: a runtime of the asserted generation without network, whose
  workspace and live repository are disjoint, on the command line of the Apple adapter the only
  mount.\<close>

lemma rt_Create_isolated:
  assumes "rt_Create sha now w0 removed w1 w2 ctx r spec0 backend m = (Inr rt, m')"
  shows "rt_Network rt = NetworkNone \<and> \<not> rt_sameOrWithin (rs_LiveRepositoryPath spec0) (rt_WorkspacePath rt)
     \<and> \<not> rt_sameOrWithin (rt_WorkspacePath rt) (rs_LiveRepositoryPath spec0)
     \<and> rt_WorkspacePath rt = wg_Path (rs_Generation spec0) \<and> rt_State rt = StateReady
     \<and> AssertLease now ctx (rs_Lease spec0) r = None"
  using assms
  by (auto simp: rt_Create_def create_runtime_def new_runtime_def set_state_def Let_def validateSpec_def
      validNetwork_def AssertGeneration_def default_network_def
      split: if_splits option.splits prod.splits bool.splits)

lemma apple_create_no_network:
  "ad_Create (apple_adapter run bin) s i x = (Some e, x') \<Longrightarrow>
   sublist [''--network'', ''none''] (apple_create_args s i)
   \<and> run (or_default bin ''container'') (apple_create_args s i) x = (True, x')
   \<and> rs_Network s = NetworkNone \<and> e = i"
proof -
  assume "ad_Create (apple_adapter run bin) s i x = (Some e, x')"
  moreover have "sublist [''--network'', ''none''] (apple_create_args s i)"
  proof -
    have "apple_create_args s i = take 7 (apple_create_args s i) @ [''--network'', ''none'']
        @ drop 9 (apple_create_args s i)"
      by (simp add: apple_create_args_def)
    then show ?thesis by (metis sublist_appendI)
  qed
  ultimately show ?thesis
    by (auto simp: apple_adapter_def Let_def split: if_splits prod.splits)
qed

end
