(* ===== verification/Task_State.thy ===== *)
theory Task_State
  imports Workspace_Lease
begin

section \<open>Task handoff records (internal/taskstate/taskstate.go)\<close>

text \<open>
  The persisted record of a development task, its validation, the inspection of the repository, and
  the store that keeps one JSON file per task. The time layout of the standard library is a
  parameter: \<open>fmt\<close> writes an instant, \<open>time_ok\<close> says what parses back; the length of the JSON text
  of a record is the parameter \<open>jsize\<close>. The contract both stores keep is the locale \<open>task_store\<close>.
\<close>

subsection \<open>Records\<close>

datatype ts_error = TS_ErrRejected | TS_ErrMainOnly

definition MainBranch :: string where "MainBranch = ''main''"
definition stateVersion :: int where "stateVersion = 2"
definition maxStateBytes :: nat where "maxStateBytes = 65536"
definition maxNextActionBytes :: nat where "maxNextActionBytes = 4096"
definition maxBranchBytes :: nat where "maxBranchBytes = 256"

record repository_state =
  rp_Branch :: string
  rp_Head :: string

record task_state =
  ts_Version :: int
  ts_TaskID :: string
  ts_RepoRootIdentity :: string
  ts_RepoFSIdentity :: string
  ts_Branch :: string
  ts_BaseSHA :: string
  ts_CurrentHeadSHA :: string
  ts_LastVerifiedSHA :: string
  ts_VerificationState :: string
  ts_FailedChecks :: "string list"
  ts_NextAction :: string
  ts_CreatedAt :: string
  ts_UpdatedAt :: string

definition RED :: string where "RED = ''RED''"
definition GREEN :: string where "GREEN = ''GREEN''"

subsection \<open>Validation\<close>

definition taskIDRE :: "string \<Rightarrow> bool" where
  "taskIDRE s \<longleftrightarrow> length s = 37 \<and> take 5 s = ''task_'' \<and> list_all lower_hex (drop 5 s)"

definition shaRE :: "string \<Rightarrow> bool" where
  "shaRE s \<longleftrightarrow> (length s = 40 \<or> length s = 64) \<and> list_all lower_hex s"

definition identityRE :: "string \<Rightarrow> bool" where
  "identityRE s \<longleftrightarrow> length s = 64 \<and> list_all lower_hex s"

definition secret_markers :: "string list" where
  "secret_markers = [''-----begin private key-----'', ''-----begin rsa private key-----'',
     ''-----begin openssh private key-----'', ''authorization: bearer '', ''github_pat_'', ''ghp_'', ''sk-proj-'']"

definition containsLikelySecret :: "string \<Rightarrow> bool" where
  "containsLikelySecret v \<longleftrightarrow> list_ex (\<lambda>k. sublist k (to_lower v)) secret_markers"

definition validBranch :: "string \<Rightarrow> bool" where
  "validBranch b \<longleftrightarrow> b \<noteq> [] \<and> length b \<le> maxBranchBytes \<and> utf8_valid b \<and> \<not> contains_any b [NUL, CR, LF]"

definition validRepositoryState :: "repository_state \<Rightarrow> bool" where
  "validRepositoryState s \<longleftrightarrow> validBranch (rp_Branch s) \<and> shaRE (rp_Head s)"

definition validNextAction :: "string \<Rightarrow> bool" where
  "validNextAction v \<longleftrightarrow>
     length v \<le> maxNextActionBytes \<and> utf8_valid v \<and> NUL \<notin> set v \<and> \<not> containsLikelySecret v"

definition valid_check :: "string \<Rightarrow> bool" where
  "valid_check c \<longleftrightarrow>
     \<not> (c = [] \<or> 256 < length c \<or> \<not> utf8_valid c \<or> NUL \<in> set c \<or> containsLikelySecret c)"

definition validateState :: "(string \<Rightarrow> bool) \<Rightarrow> task_state \<Rightarrow> bool" where
  "validateState time_ok s \<longleftrightarrow>
     ts_Version s = stateVersion \<and> taskIDRE (ts_TaskID s) \<and> identityRE (ts_RepoRootIdentity s)
     \<and> identityRE (ts_RepoFSIdentity s)
     \<and> ts_Branch s = MainBranch \<and> validBranch (ts_Branch s) \<and> shaRE (ts_BaseSHA s) \<and> shaRE (ts_CurrentHeadSHA s)
     \<and> (ts_LastVerifiedSHA s = [] \<or> shaRE (ts_LastVerifiedSHA s))
     \<and> (ts_VerificationState s = RED \<or> ts_VerificationState s = GREEN)
     \<and> length (ts_FailedChecks s) \<le> 128 \<and> validNextAction (ts_NextAction s)
     \<and> list_all valid_check (ts_FailedChecks s)
     \<and> time_ok (ts_CreatedAt s) \<and> time_ok (ts_UpdatedAt s)"

subsection \<open>Inspecting the repository\<close>

datatype inspection = Insp_Ok repository_state | Insp_MainOnly | Insp_Err

text \<open>The checks both stores make on what the inspector returns.\<close>

definition inspected :: "inspection \<Rightarrow> ts_error + repository_state" where
  "inspected i =
    (case i of
       Insp_MainOnly \<Rightarrow> Inl TS_ErrMainOnly
     | Insp_Err \<Rightarrow> Inl TS_ErrRejected
     | Insp_Ok s \<Rightarrow>
         if \<not> validRepositoryState s then Inl TS_ErrRejected
         else if rp_Branch s \<noteq> MainBranch then Inl TS_ErrMainOnly else Inr s)"

text \<open>\<open>runGit\<close> after the command: its output, if it succeeded.\<close>

definition runGit :: "string option \<Rightarrow> string option" where
  "runGit out =
    (case out of
       None \<Rightarrow> None
     | Some o1 \<Rightarrow> (let v = trim_space o1 in if v = [] \<or> NUL \<in> set v then None else Some v))"

text \<open>\<open>gitInspector.Snapshot\<close>: \<open>same k\<close> is whether the root still has the bound file system identity
  at the \<open>k\<close>th check, \<open>resolve\<close> resolves symbolic links, \<open>git\<close> gives the output of a command.\<close>

definition git_Snapshot ::
  "(nat \<Rightarrow> bool) \<Rightarrow> (string \<Rightarrow> string option) \<Rightarrow> (string list \<Rightarrow> string option) \<Rightarrow> go_ctx \<Rightarrow> string
   \<Rightarrow> string \<Rightarrow> inspection" where
  "git_Snapshot same resolve git ctx executable root =
    (if ctx = Ctx_Nil \<or> executable = [] \<or> \<not> is_abs executable \<or> \<not> same 0 then Insp_Err
     else (case runGit (git [''rev-parse'', ''--show-toplevel'']) of
             None \<Rightarrow> Insp_Err
           | Some toplevel \<Rightarrow>
               (case resolve toplevel of
                  None \<Rightarrow> Insp_Err
                | Some ctop \<Rightarrow>
                    if clean ctop \<noteq> clean root \<or> \<not> same 1 then Insp_Err
                    else (case runGit (git [''symbolic-ref'', ''--quiet'', ''--short'', ''HEAD'']) of
                            None \<Rightarrow> Insp_Err
                          | Some branch \<Rightarrow>
                              if \<not> validBranch branch \<or> \<not> same 2 then Insp_Err
                              else if branch \<noteq> MainBranch then Insp_MainOnly
                              else (case runGit (git [''rev-parse'', ''--verify'', ''HEAD^{commit}'']) of
                                      None \<Rightarrow> Insp_Err
                                    | Some head \<Rightarrow>
                                        let h = to_lower head
                                        in if \<not> shaRE h \<or> \<not> same 3 then Insp_Err
                                           else Insp_Ok \<lparr>rp_Branch = branch, rp_Head = h\<rparr>)))))"

subsection \<open>Building and moving a record\<close>

definition newTaskID :: "string option \<Rightarrow> string option" where
  "newTaskID rnd = map_option (\<lambda>b. ''task_'' @ hex_encode b) rnd"

definition new_task :: "string \<Rightarrow> string \<Rightarrow> string \<Rightarrow> string \<Rightarrow> repository_state \<Rightarrow> string \<Rightarrow> task_state" where
  "new_task taskID root fsid now rs nextAction =
     \<lparr>ts_Version = stateVersion, ts_TaskID = taskID, ts_RepoRootIdentity = root, ts_RepoFSIdentity = fsid,
      ts_Branch = rp_Branch rs, ts_BaseSHA = rp_Head rs, ts_CurrentHeadSHA = rp_Head rs,
      ts_LastVerifiedSHA = [], ts_VerificationState = RED, ts_FailedChecks = [],
      ts_NextAction = nextAction, ts_CreatedAt = now, ts_UpdatedAt = now\<rparr>"

definition moved :: "string \<Rightarrow> string \<Rightarrow> task_state \<Rightarrow> task_state" where
  "moved now head s = s\<lparr>ts_CurrentHeadSHA := head, ts_VerificationState := RED, ts_FailedChecks := [],
     ts_UpdatedAt := now\<rparr>"

subsection \<open>The JSON store\<close>

text \<open>A call's surroundings: the formatted clock reading, the inspection, and for each of the (at most
  four) attempts of \<open>Create\<close> the random bytes and the outcome of the write.\<close>

record ts_env =
  te_Now :: string
  te_Inspect :: inspection
  te_Random :: "nat \<Rightarrow> string option"
  te_Write :: "nat \<Rightarrow> write_outcome"

record json_store =
  js_repoIdentity :: string
  js_repoFSID :: string
  js_files :: "string \<Rightarrow> task_state slot"

definition newBoundWithInspector ::
  "(string \<Rightarrow> string) \<Rightarrow> bool \<Rightarrow> (string \<Rightarrow> string option) \<Rightarrow> (string \<Rightarrow> task_state slot) \<Rightarrow> string \<Rightarrow> string
   \<Rightarrow> string \<Rightarrow> json_store option" where
  "newBoundWithInspector sha has_inspector canon files repoRoot repoFSID stateRoot =
    (if \<not> has_inspector then None
     else if repoRoot = [] \<or> \<not> is_abs repoRoot \<or> clean repoRoot \<noteq> repoRoot \<or> \<not> identityRE repoFSID then None
     else if stateRoot = [] \<or> \<not> is_abs stateRoot \<or> pathWithin repoRoot (clean stateRoot) then None
     else (case canon stateRoot of
             None \<Rightarrow> None
           | Some cs \<Rightarrow>
               if pathWithin repoRoot cs then None
               else Some \<lparr>js_repoIdentity = hex_encode (sha repoRoot), js_repoFSID = repoFSID,
                          js_files = files\<rparr>))"

definition json_load ::
  "(string \<Rightarrow> bool) \<Rightarrow> (task_state \<Rightarrow> nat) \<Rightarrow> string \<Rightarrow> json_store \<Rightarrow> ts_error + task_state" where
  "json_load time_ok jsize i s =
    (if \<not> taskIDRE i then Inl TS_ErrRejected
     else (case js_files s i of
             Slot_Has st \<Rightarrow>
               if maxStateBytes < jsize st + 1 then Inl TS_ErrRejected
               else if \<not> validateState time_ok st \<or> ts_TaskID st \<noteq> i
                  \<or> ts_RepoRootIdentity st \<noteq> js_repoIdentity s then Inl TS_ErrRejected
               else if js_repoFSID s \<noteq> [] \<and> ts_RepoFSIdentity st \<noteq> js_repoFSID s then Inl TS_ErrRejected
               else Inr st
           | _ \<Rightarrow> Inl TS_ErrRejected))"

definition json_save ::
  "(string \<Rightarrow> bool) \<Rightarrow> (task_state \<Rightarrow> nat) \<Rightarrow> write_outcome \<Rightarrow> task_state \<Rightarrow> json_store \<Rightarrow> bool \<times> json_store" where
  "json_save time_ok jsize w st s =
    (if \<not> validateState time_ok st \<or> ts_RepoRootIdentity st \<noteq> js_repoIdentity s
        \<or> ts_RepoFSIdentity st \<noteq> js_repoFSID s then (False, s)
     else if maxStateBytes < jsize st + 1 then (False, s)
     else (w = W_Done, s\<lparr>js_files := (js_files s)(ts_TaskID st := write_slot w st (js_files s (ts_TaskID st)))\<rparr>))"

fun json_create_loop ::
  "(string \<Rightarrow> bool) \<Rightarrow> (task_state \<Rightarrow> nat) \<Rightarrow> ts_env \<Rightarrow> repository_state \<Rightarrow> string \<Rightarrow> nat \<Rightarrow> nat
   \<Rightarrow> json_store \<Rightarrow> (ts_error + task_state) \<times> json_store" where
  "json_create_loop time_ok jsize e rs nextAction k 0 s = (Inl TS_ErrRejected, s)"
| "json_create_loop time_ok jsize e rs nextAction k (Suc n) s =
    (case newTaskID (te_Random e k) of
       None \<Rightarrow> (Inl TS_ErrRejected, s)
     | Some i \<Rightarrow>
         (let st = new_task i (js_repoIdentity s) (js_repoFSID s) (te_Now e) rs nextAction
          in if \<not> validateState time_ok st then (Inl TS_ErrRejected, s)
             else if js_files s i \<noteq> Slot_Absent
             then json_create_loop time_ok jsize e rs nextAction (k + 1) n s
             else (case json_save time_ok jsize (te_Write e k) st s of
                     (True, s') \<Rightarrow> (Inr st, s')
                   | (False, s') \<Rightarrow> (Inl TS_ErrRejected, s'))))"

definition json_Create ::
  "(string \<Rightarrow> bool) \<Rightarrow> (task_state \<Rightarrow> nat) \<Rightarrow> ts_env \<Rightarrow> string \<Rightarrow> json_store \<Rightarrow> (ts_error + task_state) \<times> json_store" where
  "json_Create time_ok jsize e nextAction s =
    (if \<not> validNextAction nextAction then (Inl TS_ErrRejected, s)
     else (case inspected (te_Inspect e) of
             Inl err \<Rightarrow> (Inl err, s)
           | Inr rs \<Rightarrow> json_create_loop time_ok jsize e rs nextAction 0 4 s))"

definition json_Status ::
  "(string \<Rightarrow> bool) \<Rightarrow> (task_state \<Rightarrow> nat) \<Rightarrow> string \<Rightarrow> json_store \<Rightarrow> ts_error + task_state" where
  "json_Status time_ok jsize i s = json_load time_ok jsize i s"

definition json_Resume ::
  "(string \<Rightarrow> bool) \<Rightarrow> (task_state \<Rightarrow> nat) \<Rightarrow> ts_env \<Rightarrow> string \<Rightarrow> json_store \<Rightarrow> (ts_error + task_state) \<times> json_store" where
  "json_Resume time_ok jsize e i s =
    (case json_load time_ok jsize i s of
       Inl _ \<Rightarrow> (Inl TS_ErrRejected, s)
     | Inr st \<Rightarrow>
         (case inspected (te_Inspect e) of
            Inl err \<Rightarrow> (Inl err, s)
          | Inr rs \<Rightarrow>
              if rp_Branch rs \<noteq> ts_Branch st then (Inl TS_ErrRejected, s)
              else if rp_Head rs = ts_CurrentHeadSHA st then (Inr st, s)
              else (let st' = moved (te_Now e) (rp_Head rs) st
                    in case json_save time_ok jsize (te_Write e 0) st' s of
                         (True, s') \<Rightarrow> (Inr st', s')
                       | (False, s') \<Rightarrow> (Inl TS_ErrRejected, s'))))"

definition RequireMain :: "inspection \<Rightarrow> ts_error + unit" where
  "RequireMain i =
    (case i of
       Insp_MainOnly \<Rightarrow> Inl TS_ErrMainOnly
     | Insp_Err \<Rightarrow> Inl TS_ErrRejected
     | Insp_Ok s \<Rightarrow> if rp_Branch s \<noteq> MainBranch then Inl TS_ErrMainOnly else Inr ())"

subsection \<open>The contract of a store\<close>

datatype handoff = HO_Create ts_env string | HO_Resume ts_env string

text \<open>What a handoff never changes of a record, and what it may have become.\<close>

definition same_origin :: "task_state \<Rightarrow> task_state \<Rightarrow> bool" where
  "same_origin t u \<longleftrightarrow>
     ts_TaskID u = ts_TaskID t \<and> ts_RepoRootIdentity u = ts_RepoRootIdentity t
     \<and> ts_RepoFSIdentity u = ts_RepoFSIdentity t \<and> ts_Branch u = ts_Branch t \<and> ts_BaseSHA u = ts_BaseSHA t
     \<and> ts_LastVerifiedSHA u = ts_LastVerifiedSHA t \<and> ts_NextAction u = ts_NextAction t
     \<and> ts_CreatedAt u = ts_CreatedAt t"

definition handed_off :: "task_state \<Rightarrow> task_state \<Rightarrow> bool" where
  "handed_off t u \<longleftrightarrow>
     same_origin t u \<and> (u = t \<or> (ts_VerificationState u = RED \<and> ts_FailedChecks u = []))"

lemma handed_off_refl [simp]: "handed_off t t"
  by (simp add: handed_off_def same_origin_def)

lemma handed_off_trans: "handed_off t u \<Longrightarrow> handed_off u v \<Longrightarrow> handed_off t v"
  by (auto simp: handed_off_def same_origin_def)

lemma handed_off_moved: "handed_off t (moved now h t)"
  by (simp add: handed_off_def same_origin_def moved_def)

locale task_store =
  fixes view :: "'s \<Rightarrow> string \<Rightarrow> task_state option"
    and create :: "ts_env \<Rightarrow> string \<Rightarrow> 's \<Rightarrow> (ts_error + task_state) \<times> 's"
    and resume :: "ts_env \<Rightarrow> string \<Rightarrow> 's \<Rightarrow> (ts_error + task_state) \<times> 's"
  assumes create_view: "view (snd (create e a s)) j = view s j \<or> (view s j = None \<and>
            (\<exists>rs root fsid. inspected (te_Inspect e) = Inr rs
               \<and> view (snd (create e a s)) j = Some (new_task j root fsid (te_Now e) rs a)))"
    and create_ok: "create e a s = (Inr t, s') \<Longrightarrow> view s (ts_TaskID t) = None \<and> view s' (ts_TaskID t) = Some t"
    and resume_view: "view (snd (resume e i s)) j = view s j \<or> (j = i \<and>
            (\<exists>t rs. view s i = Some t \<and> inspected (te_Inspect e) = Inr rs \<and> rp_Head rs \<noteq> ts_CurrentHeadSHA t
               \<and> view (snd (resume e i s)) i = Some (moved (te_Now e) (rp_Head rs) t)))"
    and resume_ok: "resume e i s = (Inr t, s') \<Longrightarrow> view s' i = Some t
            \<and> (\<exists>rs. inspected (te_Inspect e) = Inr rs \<and> ts_CurrentHeadSHA t = rp_Head rs)"
begin

fun ho_step :: "handoff \<Rightarrow> 's \<Rightarrow> 's" where
  "ho_step (HO_Create e a) s = snd (create e a s)"
| "ho_step (HO_Resume e i) s = snd (resume e i s)"

fun ho_run :: "handoff list \<Rightarrow> 's \<Rightarrow> 's" where
  "ho_run [] s = s"
| "ho_run (op # ops) s = ho_run ops (ho_step op s)"

lemma step_keeps:
  assumes "view s i = Some t"
  shows "\<exists>u. view (ho_step op s) i = Some u \<and> handed_off t u"
proof (cases op)
  case (HO_Create e a)
  then show ?thesis using create_view [of e a s i] assms by auto
next
  case (HO_Resume e k)
  then show ?thesis using resume_view [of e k s i] assms by (auto intro: handed_off_moved)
qed

lemma run_keeps:
  "view s i = Some t \<Longrightarrow> \<exists>u. view (ho_run ops s) i = Some u \<and> handed_off t u"
proof (induction ops arbitrary: s t)
  case (Cons op ops)
  obtain u where u: "view (ho_step op s) i = Some u" "handed_off t u" using step_keeps [OF Cons.prems] by blast
  then show ?case using Cons.IH [OF u(1)] handed_off_trans by auto
qed simp

lemma created_survives:
  assumes "create e a s = (Inr t, s')"
  shows "view s (ts_TaskID t) = None \<and> (\<exists>u. view (ho_run ops s') (ts_TaskID t) = Some u \<and> handed_off t u)"
  using create_ok [OF assms] run_keeps by blast

lemma resume_reports_head:
  assumes "resume e i s = (Inr t, s')" and "view s i = Some t0"
  shows "handed_off t0 t \<and> (ts_CurrentHeadSHA t \<noteq> ts_CurrentHeadSHA t0 \<longrightarrow> ts_VerificationState t = RED)"
proof -
  have "view s' i = Some t" using resume_ok [OF assms(1)] by blast
  then show ?thesis
    using resume_view [of e i s i] assms by (auto simp: handed_off_moved) (simp_all add: moved_def)
qed

end

subsection \<open>The JSON store keeps it\<close>

definition json_view :: "(string \<Rightarrow> bool) \<Rightarrow> (task_state \<Rightarrow> nat) \<Rightarrow> json_store \<Rightarrow> string \<Rightarrow> task_state option" where
  "json_view time_ok jsize s i = (case json_load time_ok jsize i s of Inl _ \<Rightarrow> None | Inr t \<Rightarrow> Some t)"

lemma json_load_id: "json_load time_ok jsize i s = Inr t \<Longrightarrow> ts_TaskID t = i \<and> validateState time_ok t
    \<and> ts_RepoRootIdentity t = js_repoIdentity s \<and> taskIDRE i \<and> js_files s i = Slot_Has t"
  by (auto simp: json_load_def split: if_splits slot.splits)

lemma json_view_cong:
  "js_files s' i = js_files s i \<Longrightarrow> js_repoIdentity s' = js_repoIdentity s \<Longrightarrow> js_repoFSID s' = js_repoFSID s
   \<Longrightarrow> json_view time_ok jsize s' i = json_view time_ok jsize s i"
  by (cases "js_files s i") (simp_all add: json_view_def json_load_def)

lemma json_save_cases:
  assumes "json_save time_ok jsize w st s = (b, s')"
  obtains "s' = s" and "\<not> b"
  | v where "s' = s\<lparr>js_files := (js_files s)(ts_TaskID st := v)\<rparr>" and "v = Slot_Has st"
      and "json_view time_ok jsize s' (ts_TaskID st) = Some st"
proof (cases "json_save time_ok jsize w st s = (False, s) \<or> w = W_Failed")
  case True
  then show ?thesis using assms that(1)
    by (auto simp: json_save_def write_slot_def split: if_splits)
next
  case False
  then have "validateState time_ok st" "ts_RepoRootIdentity st = js_repoIdentity s"
      "ts_RepoFSIdentity st = js_repoFSID s" "\<not> maxStateBytes < jsize st + 1"
    and s': "s' = s\<lparr>js_files := (js_files s)(ts_TaskID st := Slot_Has st)\<rparr>"
    using assms by (auto simp: json_save_def write_slot_def split: if_splits write_outcome.splits)
  moreover from this(1) have "taskIDRE (ts_TaskID st)" by (simp add: validateState_def)
  ultimately have "json_view time_ok jsize s' (ts_TaskID st) = Some st"
    by (simp add: json_view_def json_load_def)
  then show ?thesis using that(2) s' by blast
qed

lemma json_save_view:
  assumes "json_save time_ok jsize w st s = (b, s')"
  shows "json_view time_ok jsize s' j = json_view time_ok jsize s j
      \<or> (j = ts_TaskID st \<and> json_view time_ok jsize s' j = Some st)"
    and "b \<Longrightarrow> json_view time_ok jsize s' (ts_TaskID st) = Some st"
proof -
  show "json_view time_ok jsize s' j = json_view time_ok jsize s j
      \<or> (j = ts_TaskID st \<and> json_view time_ok jsize s' j = Some st)"
    by (rule json_save_cases [OF assms]) (auto intro: json_view_cong)
  show "b \<Longrightarrow> json_view time_ok jsize s' (ts_TaskID st) = Some st"
    by (rule json_save_cases [OF assms]) auto
qed

lemma json_create_loop_view:
  "json_create_loop time_ok jsize e rs a k n s = (res, s') \<Longrightarrow>
   (json_view time_ok jsize s' j = json_view time_ok jsize s j
     \<or> (json_view time_ok jsize s j = None \<and>
        json_view time_ok jsize s' j = Some (new_task j (js_repoIdentity s) (js_repoFSID s) (te_Now e) rs a)))
   \<and> (\<forall>t. res = Inr t \<longrightarrow> json_view time_ok jsize s (ts_TaskID t) = None
            \<and> json_view time_ok jsize s' (ts_TaskID t) = Some t)"
proof (induction n arbitrary: k s)
  case (Suc n)
  show ?case
  proof (cases "newTaskID (te_Random e k)")
    case None
    then show ?thesis using Suc.prems by auto
  next
    case (Some i)
    let ?st = "new_task i (js_repoIdentity s) (js_repoFSID s) (te_Now e) rs a"
    have id: "ts_TaskID ?st = i" by (simp add: new_task_def)
    show ?thesis
    proof (cases "validateState time_ok ?st \<and> js_files s i = Slot_Absent")
      case False
      then show ?thesis using Suc Some by (auto simp: Let_def split: if_splits)
    next
      case True
      obtain b s1 where sv: "json_save time_ok jsize (te_Write e k) ?st s = (b, s1)" by fastforce
      have "json_view time_ok jsize s i = None" using True by (simp add: json_view_def json_load_def)
      then show ?thesis
        using json_save_view [OF sv] Suc.prems Some True sv id
        by (cases b) (auto simp: Let_def)
    qed
  qed
qed auto

interpretation json_tasks: task_store "json_view time_ok jsize" "json_Create time_ok jsize" "json_Resume time_ok jsize"
  for time_ok and jsize
proof (unfold_locales, goal_cases)
  case (1 e a s j)
  have "json_view time_ok jsize (snd (json_create_loop time_ok jsize e rs a 0 4 s)) j = json_view time_ok jsize s j
      \<or> (json_view time_ok jsize s j = None \<and> json_view time_ok jsize (snd (json_create_loop time_ok jsize e rs a 0 4 s)) j
          = Some (new_task j (js_repoIdentity s) (js_repoFSID s) (te_Now e) rs a))" for rs
    using json_create_loop_view [OF prod.collapse [symmetric], of time_ok jsize e rs a 0 4 s j] by blast
  then show ?case by (auto simp: json_Create_def split: sum.split)
next
  case (2 e a s t s')
  then show ?case
    using json_create_loop_view [of time_ok jsize e _ a 0 4 s "Inr t" s']
    by (auto simp: json_Create_def split: sum.splits if_splits)
next
  case (3 e i s j)
  show ?case
  proof (cases "json_load time_ok jsize i s")
    case (Inr st)
    have i: "ts_TaskID st = i" using json_load_id [OF Inr] by blast
    have v: "json_view time_ok jsize s i = Some st" using Inr by (simp add: json_view_def)
    show ?thesis
    proof (cases "inspected (te_Inspect e)")
      case (Inl err)
      then show ?thesis using Inr by (simp add: json_Resume_def)
    next
      case rs: (Inr rs)
      have m: "ts_TaskID (moved (te_Now e) (rp_Head rs) st) = i" using i by (simp add: moved_def)
      show ?thesis
        using Inr rs v m json_save_view(1) [of time_ok jsize "te_Write e 0" "moved (te_Now e) (rp_Head rs) st" s _ _ j]
        by (auto simp: json_Resume_def Let_def split: prod.split bool.split)
    qed
  qed (simp add: json_Resume_def)
next
  case (4 e i s t s')
  show ?case
  proof (cases "json_load time_ok jsize i s")
    case (Inr st)
    then show ?thesis
      using 4 json_load_id [OF Inr] json_save_view(2) [of time_ok jsize "te_Write e 0" t s True s']
      by (auto simp: json_Resume_def Let_def json_view_def moved_def split: sum.splits if_splits prod.splits bool.splits)
  qed (use 4 in \<open>simp add: json_Resume_def\<close>)
qed

end
