(* ===== verification/Task_Store_SQLite.thy ===== *)
theory Task_Store_SQLite
  imports Task_State "HOL-Library.AList"
begin

section \<open>The SQLite task store (internal/taskstate/sqlite_store.go)\<close>

text \<open>
  The production store. The tables are those of the schema: \<open>tasks\<close> by its primary key, and the
  rows of \<open>task_failed_checks\<close> by task (their foreign key), in the order of their position. A
  transaction commits, fails and leaves the tables, or commits and reports an error. The theory shows
  that the store keeps the contract \<open>task_store\<close>, that it agrees with the JSON store call by call,
  and what the migration of the JSON files preserves.
\<close>

subsection \<open>Tables\<close>

record task_row =
  tr_version :: int
  tr_task_id :: string
  tr_repo_root_identity :: string
  tr_repo_filesystem_identity :: string
  tr_branch :: string
  tr_base_sha :: string
  tr_current_head_sha :: string
  tr_last_verified_sha :: string
  tr_verification_state :: string
  tr_next_action :: string
  tr_created_at :: string
  tr_updated_at :: string

record sqlite_db =
  db_user_version :: int
  db_metadata :: "(string \<times> string) list"
  db_tasks :: "(string \<times> task_row \<times> (nat \<times> string) list) list"

record sqlite_store =
  sq_repoIdentity :: string
  sq_repoFSID :: string
  sq_open :: bool
  sq_db :: sqlite_db

definition task_at :: "sqlite_db \<Rightarrow> string \<Rightarrow> (task_row \<times> (nat \<times> string) list) option" where
  "task_at db i = map_of (db_tasks db) i"

definition sqliteSchemaVersion :: int where "sqliteSchemaVersion = 1"
definition migrationMarker :: string where "migrationMarker = ''legacy_json_migration''"

definition row_of :: "task_state \<Rightarrow> task_row" where
  "row_of s =
     \<lparr>tr_version = ts_Version s, tr_task_id = ts_TaskID s, tr_repo_root_identity = ts_RepoRootIdentity s,
      tr_repo_filesystem_identity = ts_RepoFSIdentity s, tr_branch = ts_Branch s, tr_base_sha = ts_BaseSHA s,
      tr_current_head_sha = ts_CurrentHeadSHA s, tr_last_verified_sha = ts_LastVerifiedSHA s,
      tr_verification_state = ts_VerificationState s, tr_next_action = ts_NextAction s,
      tr_created_at = ts_CreatedAt s, tr_updated_at = ts_UpdatedAt s\<rparr>"

definition state_of :: "task_row \<Rightarrow> string list \<Rightarrow> task_state" where
  "state_of r checks =
     \<lparr>ts_Version = tr_version r, ts_TaskID = tr_task_id r, ts_RepoRootIdentity = tr_repo_root_identity r,
      ts_RepoFSIdentity = tr_repo_filesystem_identity r, ts_Branch = tr_branch r, ts_BaseSHA = tr_base_sha r,
      ts_CurrentHeadSHA = tr_current_head_sha r, ts_LastVerifiedSHA = tr_last_verified_sha r,
      ts_VerificationState = tr_verification_state r, ts_FailedChecks = checks,
      ts_NextAction = tr_next_action r, ts_CreatedAt = tr_created_at r, ts_UpdatedAt = tr_updated_at r\<rparr>"

subsection \<open>Statements\<close>

definition check_rows :: "task_state \<Rightarrow> (nat \<times> string) list" where
  "check_rows s = enumerate 0 (ts_FailedChecks s)"

definition put_task :: "task_state \<Rightarrow> sqlite_db \<Rightarrow> sqlite_db" where
  "put_task s db = db\<lparr>db_tasks := AList.update (ts_TaskID s) (row_of s, check_rows s) (db_tasks db)\<rparr>"

definition insertSQLiteState :: "(string \<Rightarrow> bool) \<Rightarrow> task_state \<Rightarrow> sqlite_db \<Rightarrow> sqlite_db option" where
  "insertSQLiteState time_ok s db =
    (if \<not> validateState time_ok s then None
     else if task_at db (ts_TaskID s) \<noteq> None then None
     else Some (put_task s db))"

definition updateSQLiteState :: "(string \<Rightarrow> bool) \<Rightarrow> task_state \<Rightarrow> sqlite_db \<Rightarrow> sqlite_db option" where
  "updateSQLiteState time_ok s db =
    (if \<not> validateState time_ok s then None
     else if task_at db (ts_TaskID s) = None then None
     else Some (put_task s db))"

fun scan_checks :: "(nat \<times> string) list \<Rightarrow> string list \<Rightarrow> string list option" where
  "scan_checks [] acc = Some acc"
| "scan_checks ((position, check) # rows) acc =
    (if position \<noteq> length acc then None else scan_checks rows (acc @ [check]))"

definition loadSQLiteState :: "(string \<Rightarrow> bool) \<Rightarrow> string \<Rightarrow> sqlite_store \<Rightarrow> ts_error + task_state" where
  "loadSQLiteState time_ok i s =
    (case task_at (sq_db s) i of
       None \<Rightarrow> Inl TS_ErrRejected
     | Some (r, rows) \<Rightarrow>
         (case scan_checks rows [] of
            None \<Rightarrow> Inl TS_ErrRejected
          | Some checks \<Rightarrow>
              (let st = state_of r checks
               in if \<not> validateState time_ok st \<or> ts_RepoRootIdentity st \<noteq> sq_repoIdentity s
                     \<or> ts_RepoFSIdentity st \<noteq> sq_repoFSID s \<or> ts_TaskID st \<noteq> i
                  then Inl TS_ErrRejected else Inr st)))"

subsection \<open>Operations\<close>

definition commit :: "write_outcome \<Rightarrow> sqlite_db \<Rightarrow> sqlite_store \<Rightarrow> sqlite_store" where
  "commit w db s = (case w of W_Failed \<Rightarrow> s | _ \<Rightarrow> s\<lparr>sq_db := db\<rparr>)"

fun sqlite_create_loop ::
  "(string \<Rightarrow> bool) \<Rightarrow> ts_env \<Rightarrow> repository_state \<Rightarrow> string \<Rightarrow> nat \<Rightarrow> nat \<Rightarrow> sqlite_store
   \<Rightarrow> (ts_error + task_state) \<times> sqlite_store" where
  "sqlite_create_loop time_ok e rs nextAction k 0 s = (Inl TS_ErrRejected, s)"
| "sqlite_create_loop time_ok e rs nextAction k (Suc n) s =
    (case newTaskID (te_Random e k) of
       None \<Rightarrow> (Inl TS_ErrRejected, s)
     | Some i \<Rightarrow>
         (let st = new_task i (sq_repoIdentity s) (sq_repoFSID s) (te_Now e) rs nextAction
          in if \<not> validateState time_ok st then (Inl TS_ErrRejected, s)
             else (case insertSQLiteState time_ok st (sq_db s) of
                     None \<Rightarrow> sqlite_create_loop time_ok e rs nextAction (k + 1) n s
                   | Some db \<Rightarrow>
                       if te_Write e k = W_Done then (Inr st, commit W_Done db s)
                       else sqlite_create_loop time_ok e rs nextAction (k + 1) n (commit (te_Write e k) db s))))"

definition sqlite_Create ::
  "(string \<Rightarrow> bool) \<Rightarrow> go_ctx \<Rightarrow> ts_env \<Rightarrow> string \<Rightarrow> sqlite_store \<Rightarrow> (ts_error + task_state) \<times> sqlite_store" where
  "sqlite_Create time_ok ctx e nextAction s =
    (if ctx = Ctx_Nil \<or> \<not> validNextAction nextAction \<or> \<not> sq_open s then (Inl TS_ErrRejected, s)
     else (case inspected (te_Inspect e) of
             Inl err \<Rightarrow> (Inl err, s)
           | Inr rs \<Rightarrow> sqlite_create_loop time_ok e rs nextAction 0 4 s))"

definition sqlite_Status :: "(string \<Rightarrow> bool) \<Rightarrow> go_ctx \<Rightarrow> string \<Rightarrow> sqlite_store \<Rightarrow> ts_error + task_state" where
  "sqlite_Status time_ok ctx i s =
    (if ctx = Ctx_Nil \<or> \<not> sq_open s \<or> \<not> taskIDRE i then Inl TS_ErrRejected else loadSQLiteState time_ok i s)"

definition sqlite_Resume ::
  "(string \<Rightarrow> bool) \<Rightarrow> go_ctx \<Rightarrow> ts_env \<Rightarrow> string \<Rightarrow> sqlite_store \<Rightarrow> (ts_error + task_state) \<times> sqlite_store" where
  "sqlite_Resume time_ok ctx e i s =
    (if ctx = Ctx_Nil \<or> \<not> sq_open s \<or> \<not> taskIDRE i then (Inl TS_ErrRejected, s)
     else (case loadSQLiteState time_ok i s of
             Inl _ \<Rightarrow> (Inl TS_ErrRejected, s)
           | Inr st \<Rightarrow>
               (case inspected (te_Inspect e) of
                  Inl err \<Rightarrow> (Inl err, s)
                | Inr rs \<Rightarrow>
                    if rp_Branch rs \<noteq> ts_Branch st then (Inl TS_ErrRejected, s)
                    else if rp_Head rs = ts_CurrentHeadSHA st then (Inr st, s)
                    else (let st' = moved (te_Now e) (rp_Head rs) st
                          in case updateSQLiteState time_ok st' (sq_db s) of
                               None \<Rightarrow> (Inl TS_ErrRejected, s)
                             | Some db \<Rightarrow>
                                 (if te_Write e 0 = W_Done then Inr st' else Inl TS_ErrRejected,
                                  commit (te_Write e 0) db s)))))"

definition sqlite_RequireMain :: "go_ctx \<Rightarrow> inspection \<Rightarrow> sqlite_store \<Rightarrow> ts_error + unit" where
  "sqlite_RequireMain ctx i s =
    (if ctx = Ctx_Nil \<or> \<not> sq_open s then Inl TS_ErrRejected else RequireMain i)"

definition sqlite_Close :: "sqlite_store \<Rightarrow> sqlite_store" where
  "sqlite_Close s = s\<lparr>sq_open := False\<rparr>"

subsection \<open>Opening the database\<close>

definition formatMigrationNumber :: "nat \<Rightarrow> string" where
  "formatMigrationNumber n =
    (if n < 10 then ''00'' @ digits_of n else if n < 100 then ''0'' @ digits_of n else digits_of n)"

text \<open>The only migration is number one, which creates the tables that are not there.\<close>

definition applySQLiteMigrations :: "(string \<Rightarrow> bool) \<Rightarrow> sqlite_db \<Rightarrow> sqlite_db option" where
  "applySQLiteMigrations run db =
    (if db_user_version db < 0 \<or> sqliteSchemaVersion < db_user_version db then None
     else if db_user_version db = sqliteSchemaVersion then Some db
     else if run (''migrations/'' @ formatMigrationNumber 1 @ ''_initial.sql'')
     then Some (db\<lparr>db_user_version := 1\<rparr>) else None)"

definition validateMetadata :: "write_outcome \<Rightarrow> sqlite_store \<Rightarrow> bool \<times> sqlite_store" where
  "validateMetadata w s =
    (let md = db_metadata (sq_db s)
     in if md = []
        then (w = W_Done,
              commit w ((sq_db s)\<lparr>db_metadata := [(''repo_root_identity'', sq_repoIdentity s),
                 (''repo_filesystem_identity'', sq_repoFSID s), (migrationMarker, ''pending'')]\<rparr>) s)
        else (map_of md ''repo_root_identity'' = Some (sq_repoIdentity s)
                \<and> map_of md ''repo_filesystem_identity'' = Some (sq_repoFSID s)
                \<and> map_of md migrationMarker \<noteq> None \<and> map_of md migrationMarker \<noteq> Some [], s))"

subsection \<open>Migration of the JSON files\<close>

text \<open>What a directory lists: a name, the kind of the entry itself, and what opening it gives, which for a
  symbolic link is the file it leads to.\<close>

datatype entry_kind = EK_Regular | EK_Symlink | EK_Directory

type_synonym json_entry = "string \<times> entry_kind \<times> task_state slot"
type_synonym json_dir = "json_entry list"

definition readLegacyStateFile ::
  "(string \<Rightarrow> bool) \<Rightarrow> (task_state \<Rightarrow> nat) \<Rightarrow> task_state slot \<Rightarrow> sqlite_store \<Rightarrow> task_state option" where
  "readLegacyStateFile time_ok jsize f s =
    (case f of
       Slot_Has st \<Rightarrow>
         if maxStateBytes < jsize st + 1 \<or> \<not> validateState time_ok st
            \<or> ts_RepoRootIdentity st \<noteq> sq_repoIdentity s \<or> ts_RepoFSIdentity st \<noteq> sq_repoFSID s
         then None else Some st
     | _ \<Rightarrow> None)"

definition is_legacy :: "json_entry \<Rightarrow> bool" where
  "is_legacy f \<longleftrightarrow> fst (snd f) = EK_Regular \<and> suffix ''.json'' (fst f)"

fun migrate_files ::
  "(string \<Rightarrow> bool) \<Rightarrow> (task_state \<Rightarrow> nat) \<Rightarrow> sqlite_store \<Rightarrow> json_dir \<Rightarrow> sqlite_db \<Rightarrow> sqlite_db option" where
  "migrate_files time_ok jsize s [] db = Some db"
| "migrate_files time_ok jsize s (f # fs) db =
    (case readLegacyStateFile time_ok jsize (snd (snd f)) s of
       None \<Rightarrow> None
     | Some st \<Rightarrow>
         (case insertSQLiteState time_ok st db of
            None \<Rightarrow> None
          | Some db' \<Rightarrow> migrate_files time_ok jsize s fs db'))"

definition mark_complete :: "sqlite_db \<Rightarrow> sqlite_db" where
  "mark_complete db = db\<lparr>db_metadata := AList.update migrationMarker ''complete'' (db_metadata db)\<rparr>"

definition rename_file :: "string list \<Rightarrow> json_entry \<Rightarrow> json_entry" where
  "rename_file done f = (if fst f \<in> set done then (fst f @ ''.migrated'', snd f) else f)"

text \<open>\<open>w\<close> is the outcome of the transaction, \<open>renamed\<close> the number of files renamed before the first
  failure (or a crash), \<open>synced\<close> the directory sync.\<close>

definition migrateLegacyJSON ::
  "(string \<Rightarrow> bool) \<Rightarrow> (task_state \<Rightarrow> nat) \<Rightarrow> write_outcome \<Rightarrow> nat \<Rightarrow> bool \<Rightarrow> json_dir \<Rightarrow> sqlite_store
   \<Rightarrow> bool \<times> json_dir \<times> sqlite_store" where
  "migrateLegacyJSON time_ok jsize w renamed synced dir s =
    (let legacy = sort_key fst (filter is_legacy dir)
     in case map_of (db_metadata (sq_db s)) migrationMarker of
          None \<Rightarrow> (False, dir, s)
        | Some marker \<Rightarrow>
            if marker = ''complete'' then (legacy = [], dir, s)
            else if marker \<noteq> ''pending'' then (False, dir, s)
            else if legacy = [] then (w = W_Done, dir, commit w (mark_complete (sq_db s)) s)
            else if db_tasks (sq_db s) \<noteq> [] then (False, dir, s)
            else (case migrate_files time_ok jsize s legacy (sq_db s) of
                    None \<Rightarrow> (False, dir, s)
                  | Some db \<Rightarrow>
                      (let s' = commit w (mark_complete db) s
                       in if w \<noteq> W_Done then (False, dir, s')
                          else (let dir' = map (rename_file (map fst (take renamed legacy))) dir
                                in (length legacy \<le> renamed \<and> synced, dir', s')))))"

subsection \<open>Rows and records\<close>

lemma state_of_row [simp]: "state_of (row_of s) (ts_FailedChecks s) = s"
  by (simp add: state_of_def row_of_def)

lemma scan_enumerate: "scan_checks (enumerate (length acc) cs) acc = Some (acc @ cs)"
proof (induction cs arbitrary: acc)
  case (Cons c cs)
  then show ?case using Cons.IH [of "acc @ [c]"] by simp
qed simp

lemma scan_check_rows [simp]: "scan_checks (check_rows s) [] = Some (ts_FailedChecks s)"
  using scan_enumerate [of "[]" "ts_FailedChecks s"] by (simp add: check_rows_def)

lemma task_at_put [simp]:
  "task_at (put_task s db) i = (if i = ts_TaskID s then Some (row_of s, check_rows s) else task_at db i)"
  by (simp add: task_at_def put_task_def update_conv')

definition sqlite_view :: "(string \<Rightarrow> bool) \<Rightarrow> sqlite_store \<Rightarrow> string \<Rightarrow> task_state option" where
  "sqlite_view time_ok s i = (case loadSQLiteState time_ok i s of Inl _ \<Rightarrow> None | Inr t \<Rightarrow> Some t)"

lemma sqlite_view_cong:
  assumes "task_at (sq_db s') i = task_at (sq_db s) i" and "sq_repoIdentity s' = sq_repoIdentity s"
    and "sq_repoFSID s' = sq_repoFSID s"
  shows "sqlite_view time_ok s' i = sqlite_view time_ok s i"
proof (cases "task_at (sq_db s) i")
  case None
  then show ?thesis using assms by (simp add: sqlite_view_def loadSQLiteState_def)
next
  case (Some q)
  obtain r rows where q: "q = (r, rows)" by fastforce
  show ?thesis using assms Some q
    by (cases "scan_checks rows []") (simp_all add: sqlite_view_def loadSQLiteState_def)
qed

lemma load_put:
  assumes "validateState time_ok st" and "ts_RepoRootIdentity st = sq_repoIdentity s"
    and "ts_RepoFSIdentity st = sq_repoFSID s"
  shows "sqlite_view time_ok (s\<lparr>sq_db := put_task st db\<rparr>) j
    = (if j = ts_TaskID st then Some st else sqlite_view time_ok (s\<lparr>sq_db := db\<rparr>) j)"
proof (cases "j = ts_TaskID st")
  case True
  then show ?thesis using assms by (simp add: sqlite_view_def loadSQLiteState_def)
next
  case False
  then have "sqlite_view time_ok (s\<lparr>sq_db := put_task st db\<rparr>) j = sqlite_view time_ok (s\<lparr>sq_db := db\<rparr>) j"
    by (intro sqlite_view_cong) simp_all
  then show ?thesis using False by simp
qed

lemma sqlite_loadD: "loadSQLiteState time_ok i s = Inr t \<Longrightarrow> validateState time_ok t \<and> ts_TaskID t = i
    \<and> ts_RepoRootIdentity t = sq_repoIdentity s \<and> ts_RepoFSIdentity t = sq_repoFSID s \<and> task_at (sq_db s) i \<noteq> None"
  by (auto simp: loadSQLiteState_def Let_def split: option.splits if_splits)

lemma insert_some: "insertSQLiteState time_ok st db = Some db' \<longleftrightarrow>
    validateState time_ok st \<and> task_at db (ts_TaskID st) = None \<and> db' = put_task st db"
  by (cases "task_at db (ts_TaskID st)") (auto simp: insertSQLiteState_def)

lemma update_some: "updateSQLiteState time_ok st db = Some db' \<longleftrightarrow>
    validateState time_ok st \<and> task_at db (ts_TaskID st) \<noteq> None \<and> db' = put_task st db"
  by (cases "task_at db (ts_TaskID st)") (auto simp: updateSQLiteState_def)

lemma view_absent: "task_at (sq_db s) i = None \<Longrightarrow> sqlite_view time_ok s i = None"
  by (simp add: sqlite_view_def loadSQLiteState_def)

lemma commit_cases: "commit w db s = s \<or> commit w db s = s\<lparr>sq_db := db\<rparr>"
  by (cases w) (simp_all add: commit_def)

lemma commit_done [simp]: "commit W_Done db s = s\<lparr>sq_db := db\<rparr>"
  by (simp add: commit_def)

lemma sqlite_create_loop_view:
  "sqlite_create_loop time_ok e rs a k n s = (res, s') \<Longrightarrow>
   (sqlite_view time_ok s' j = sqlite_view time_ok s j
     \<or> (sqlite_view time_ok s j = None \<and>
        sqlite_view time_ok s' j = Some (new_task j (sq_repoIdentity s) (sq_repoFSID s) (te_Now e) rs a)))
   \<and> (\<forall>t. res = Inr t \<longrightarrow> sqlite_view time_ok s (ts_TaskID t) = None
            \<and> sqlite_view time_ok s' (ts_TaskID t) = Some t)
   \<and> (\<forall>j. task_at (sq_db s) j \<noteq> None \<longrightarrow> sqlite_view time_ok s' j = sqlite_view time_ok s j)"
proof (induction n arbitrary: k s)
  case (Suc n)
  show ?case
  proof (cases "newTaskID (te_Random e k)")
    case None
    then show ?thesis using Suc.prems by auto
  next
    case (Some i)
    let ?st = "new_task i (sq_repoIdentity s) (sq_repoFSID s) (te_Now e) rs a"
    have id: "ts_TaskID ?st = i" "ts_RepoRootIdentity ?st = sq_repoIdentity s"
        "ts_RepoFSIdentity ?st = sq_repoFSID s" by (simp_all add: new_task_def)
    show ?thesis
    proof (cases "validateState time_ok ?st \<and> task_at (sq_db s) i = None")
      case False
      then show ?thesis using Suc Some id by (auto simp: Let_def insertSQLiteState_def split: if_splits)
    next
      case True
      let ?s1 = "s\<lparr>sq_db := put_task ?st (sq_db s)\<rparr>"
      have view1: "sqlite_view time_ok ?s1 j = (if j = i then Some ?st else sqlite_view time_ok s j)" for j
        using load_put [of time_ok ?st s "sq_db s" j] True id by simp
      have none: "sqlite_view time_ok s i = None" using True by (simp add: view_absent)
      have ins: "insertSQLiteState time_ok ?st (sq_db s) = Some (put_task ?st (sq_db s))"
        using True id by (simp add: insert_some)
      show ?thesis
      proof (cases "te_Write e k")
        case W_Done
        then show ?thesis using Suc.prems Some True ins view1 none id by (auto simp: Let_def)
      next
        case W_Unsynced
        have "sqlite_create_loop time_ok e rs a (k + 1) n ?s1 = (res, s')"
          using Suc.prems Some True ins W_Unsynced by (simp add: Let_def commit_def)
        from Suc.IH [OF this]
        have ih: "sqlite_view time_ok s' j = sqlite_view time_ok ?s1 j \<or> (sqlite_view time_ok ?s1 j = None \<and>
              sqlite_view time_ok s' j = Some (new_task j (sq_repoIdentity s) (sq_repoFSID s) (te_Now e) rs a))"
          and ok: "\<forall>t. res = Inr t \<longrightarrow> sqlite_view time_ok ?s1 (ts_TaskID t) = None
              \<and> sqlite_view time_ok s' (ts_TaskID t) = Some t"
          and rows: "\<forall>j. task_at (sq_db ?s1) j \<noteq> None \<longrightarrow> sqlite_view time_ok s' j = sqlite_view time_ok ?s1 j"
          by simp_all
        have "sqlite_view time_ok s' j = sqlite_view time_ok s j" if "task_at (sq_db s) j \<noteq> None" for j
        proof -
          have "j \<noteq> i" using that True by auto
          then show ?thesis using rows that id view1 [of j] by simp
        qed
        moreover have "sqlite_view time_ok s (ts_TaskID t) = None" if "res = Inr t" for t
          using ok view1 [of "ts_TaskID t"] that none by (simp split: if_splits)
        ultimately show ?thesis using ih ok view1 [of j] none by (cases "j = i") simp_all
      next
        case W_Failed
        have "sqlite_create_loop time_ok e rs a (k + 1) n s = (res, s')"
          using Suc.prems Some True ins W_Failed by (simp add: Let_def commit_def)
        then show ?thesis using Suc.IH [of "k + 1" s] by blast
      qed
    qed
  qed
qed auto

subsection \<open>The SQLite store keeps the contract\<close>

lemma put_same_db [simp]: "(s :: sqlite_store)\<lparr>sq_db := sq_db s\<rparr> = s"
  by simp

lemma commit_update_view:
  assumes "updateSQLiteState time_ok st (sq_db s) = Some db" and "ts_RepoRootIdentity st = sq_repoIdentity s"
    and "ts_RepoFSIdentity st = sq_repoFSID s"
  shows "sqlite_view time_ok (commit w db s) j = sqlite_view time_ok s j
      \<or> (j = ts_TaskID st \<and> sqlite_view time_ok (commit w db s) j = Some st)"
    and "sqlite_view time_ok (commit W_Done db s) (ts_TaskID st) = Some st"
  using assms commit_cases [of w db s] load_put [of time_ok st s "sq_db s"]
  by (auto simp: update_some split: if_splits)

interpretation sqlite_tasks: task_store "sqlite_view time_ok" "sqlite_Create time_ok ctx" "sqlite_Resume time_ok ctx"
  for time_ok and ctx
proof (unfold_locales, goal_cases)
  case (1 e a s j)
  have "sqlite_view time_ok (snd (sqlite_create_loop time_ok e rs a 0 4 s)) j = sqlite_view time_ok s j
      \<or> (sqlite_view time_ok s j = None \<and> sqlite_view time_ok (snd (sqlite_create_loop time_ok e rs a 0 4 s)) j
          = Some (new_task j (sq_repoIdentity s) (sq_repoFSID s) (te_Now e) rs a))" for rs
    using sqlite_create_loop_view [OF prod.collapse [symmetric], of time_ok e rs a 0 4 s j] by blast
  then show ?case by (auto simp: sqlite_Create_def split: sum.split)
next
  case (2 e a s t s')
  then show ?case
    using sqlite_create_loop_view [of time_ok e _ a 0 4 s "Inr t" s']
    by (auto simp: sqlite_Create_def split: sum.splits if_splits)
next
  case (3 e i s j)
  show ?case
  proof (cases "loadSQLiteState time_ok i s")
    case (Inr st)
    have v: "sqlite_view time_ok s i = Some st" using Inr by (simp add: sqlite_view_def)
    show ?thesis
    proof (cases "inspected (te_Inspect e)")
      case rs: (Inr rs)
      have m: "ts_TaskID (moved (te_Now e) (rp_Head rs) st) = i"
          "ts_RepoRootIdentity (moved (te_Now e) (rp_Head rs) st) = sq_repoIdentity s"
          "ts_RepoFSIdentity (moved (te_Now e) (rp_Head rs) st) = sq_repoFSID s"
        using sqlite_loadD [OF Inr] by (simp_all add: moved_def)
      show ?thesis
        using Inr rs v m commit_update_view(1) [of time_ok "moved (te_Now e) (rp_Head rs) st" s _ "te_Write e 0" j]
        by (auto simp: sqlite_Resume_def Let_def split: option.split)
    qed (use Inr in \<open>simp add: sqlite_Resume_def\<close>)
  qed (simp add: sqlite_Resume_def)
next
  case (4 e i s t s')
  show ?case
  proof (cases "loadSQLiteState time_ok i s")
    case (Inr st)
    then show ?thesis
      using 4 sqlite_loadD [OF Inr] commit_update_view(2) [of time_ok t s]
      by (auto simp: sqlite_Resume_def Let_def sqlite_view_def moved_def
          split: sum.splits if_splits option.splits)
  qed (use 4 in \<open>simp add: sqlite_Resume_def split: if_splits\<close>)
qed

text \<open>C26: A task survives its handoffs: in either store, once a task can be read, it can be read after
  any sequence of \<open>Create\<close> and \<open>Resume\<close> calls, whatever fails in them, with the same identities,
  base commit, verified commit, next action and creation time; if anything else of it changed, it is
  RED without failed checks. A task that \<open>Create\<close> returns did not exist before.\<close>

theorem tasks_survive_handoffs:
  shows "(\<forall>t. sqlite_view time_ok s i = Some t \<longrightarrow>
            (\<exists>u. sqlite_view time_ok (sqlite_tasks.ho_run time_ok ctx ops s) i = Some u \<and> handed_off t u))
     \<and> (\<forall>t. json_view time_ok jsize j i = Some t \<longrightarrow>
            (\<exists>u. json_view time_ok jsize (json_tasks.ho_run time_ok jsize ops j) i = Some u \<and> handed_off t u))
     \<and> (\<forall>e a t s'. sqlite_Create time_ok ctx e a s = (Inr t, s') \<longrightarrow>
            sqlite_view time_ok s (ts_TaskID t) = None \<and> sqlite_view time_ok s' (ts_TaskID t) = Some t)"
  using sqlite_tasks.run_keeps json_tasks.run_keeps sqlite_tasks.create_ok by blast

subsection \<open>The stores agree\<close>

text \<open>A JSON store and a SQLite store hold the same tasks.\<close>

definition row_for :: "task_state slot \<Rightarrow> (task_row \<times> (nat \<times> string) list) option" where
  "row_for f = (case f of Slot_Has t \<Rightarrow> Some (row_of t, check_rows t) | _ \<Rightarrow> None)"

definition same_tasks :: "(string \<Rightarrow> bool) \<Rightarrow> json_store \<Rightarrow> sqlite_store \<Rightarrow> bool" where
  "same_tasks time_ok j s \<longleftrightarrow>
     js_repoIdentity j = sq_repoIdentity s \<and> js_repoFSID j = sq_repoFSID s \<and> js_repoFSID j \<noteq> [] \<and> sq_open s
     \<and> (\<forall>i. js_files j i \<noteq> Slot_Corrupt \<and> task_at (sq_db s) i = row_for (js_files j i))"

text \<open>A JSON file may not be longer than 64 KiB, a row may. A valid record can be too long for a file (128
  failed checks of 256 characters that are escaped), but a record without failed checks and with
  ordinary times is not, and those are what the stores write.\<close>

definition small_records :: "(string \<Rightarrow> bool) \<Rightarrow> (task_state \<Rightarrow> nat) \<Rightarrow> bool" where
  "small_records time_ok jsize \<longleftrightarrow>
     (\<forall>t. validateState time_ok t \<and> ts_FailedChecks t = [] \<and> length (ts_CreatedAt t) \<le> 64 \<and> length (ts_UpdatedAt t) \<le> 64
        \<longrightarrow> jsize t < maxStateBytes)"

definition files_fit :: "(task_state \<Rightarrow> nat) \<Rightarrow> json_store \<Rightarrow> bool" where
  "files_fit jsize j \<longleftrightarrow>
     (\<forall>i t. js_files j i = Slot_Has t \<longrightarrow> jsize t < maxStateBytes \<and> length (ts_CreatedAt t) \<le> 64)"

lemma same_tasks_load:
  assumes "same_tasks time_ok j s" and "files_fit jsize j" and "taskIDRE i"
  shows "loadSQLiteState time_ok i s = json_load time_ok jsize i j"
proof (cases "js_files j i")
  case (Slot_Has t)
  have "\<not> maxStateBytes < jsize t + 1" using assms(2) Slot_Has by (simp add: files_fit_def not_less Suc_le_eq)
  then show ?thesis using assms Slot_Has
    by (auto simp: loadSQLiteState_def json_load_def same_tasks_def row_for_def)
next
  case Slot_Absent
  then show ?thesis using assms by (simp add: loadSQLiteState_def json_load_def same_tasks_def row_for_def)
next
  case Slot_Corrupt
  then show ?thesis using assms by (simp add: same_tasks_def)
qed

lemma same_tasks_put:
  assumes "same_tasks time_ok j s"
  shows "same_tasks time_ok (j\<lparr>js_files := (js_files j)(ts_TaskID t := Slot_Has t)\<rparr>)
     (s\<lparr>sq_db := put_task t (sq_db s)\<rparr>)"
  using assms by (auto simp: same_tasks_def row_for_def)

lemma json_save_done:
  assumes "validateState time_ok t" and "ts_RepoRootIdentity t = js_repoIdentity j"
    and "ts_RepoFSIdentity t = js_repoFSID j" and "jsize t < maxStateBytes"
  shows "json_save time_ok jsize W_Done t j = (True, j\<lparr>js_files := (js_files j)(ts_TaskID t := Slot_Has t)\<rparr>)"
  using assms by (simp add: json_save_def write_slot_def)

lemma create_loops_agree:
  assumes "same_tasks time_ok j s" and "small_records time_ok jsize" and "\<forall>k. te_Write e k = W_Done"
    and "length (te_Now e) \<le> 64"
  shows "fst (sqlite_create_loop time_ok e rs a k n s) = fst (json_create_loop time_ok jsize e rs a k n j)
     \<and> same_tasks time_ok (snd (json_create_loop time_ok jsize e rs a k n j)) (snd (sqlite_create_loop time_ok e rs a k n s))"
  using assms
proof (induction n arbitrary: k)
  case (Suc n)
  show ?case
  proof (cases "newTaskID (te_Random e k)")
    case None
    then show ?thesis using Suc.prems by simp
  next
    case (Some i)
    have ids: "js_repoIdentity j = sq_repoIdentity s" "js_repoFSID j = sq_repoFSID s"
      using Suc.prems(1) by (simp_all add: same_tasks_def)
    let ?st = "new_task i (sq_repoIdentity s) (sq_repoFSID s) (te_Now e) rs a"
    have id: "ts_TaskID ?st = i" "ts_RepoRootIdentity ?st = js_repoIdentity j"
        "ts_RepoFSIdentity ?st = js_repoFSID j" by (simp_all add: new_task_def ids)
    have absent: "js_files j i = Slot_Absent \<longleftrightarrow> task_at (sq_db s) i = None"
      using Suc.prems(1) by (cases "js_files j i") (auto simp: same_tasks_def row_for_def)
    show ?thesis
    proof (cases "validateState time_ok ?st")
      case False
      then show ?thesis using Suc.prems Some ids by (simp add: Let_def)
    next
      case valid: True
      have fits: "jsize ?st < maxStateBytes"
        using Suc.prems(2,4) valid unfolding small_records_def by (simp add: new_task_def)
      show ?thesis
      proof (cases "js_files j i = Slot_Absent")
        case True
        then show ?thesis
          using Suc.prems Some ids id valid absent json_save_done [of time_ok ?st j jsize, OF valid id(2,3) fits] same_tasks_put [OF Suc.prems(1), of ?st]
          by (simp add: insertSQLiteState_def Let_def)
      next
        case False
        then show ?thesis using Suc Some ids id valid absent by (simp add: insertSQLiteState_def Let_def)
      qed
    qed
  qed
qed simp

lemma json_load_fits:
  assumes "files_fit jsize j" and "json_load time_ok jsize i j = Inr t"
  shows "length (ts_CreatedAt t) \<le> 64"
  using assms by (auto simp: json_load_def files_fit_def split: if_splits slot.splits)

lemma json_save_fits:
  assumes "files_fit jsize j" and "jsize t < maxStateBytes" and "length (ts_CreatedAt t) \<le> 64"
  shows "files_fit jsize (snd (json_save time_ok jsize w t j))"
  using assms by (cases w) (auto simp: json_save_def files_fit_def write_slot_def)

lemma json_create_loop_fits:
  assumes "small_records time_ok jsize" and "files_fit jsize j" and "length (te_Now e) \<le> 64"
  shows "files_fit jsize (snd (json_create_loop time_ok jsize e rs a k n j))"
proof (induction n arbitrary: k)
  case (Suc n)
  have "files_fit jsize (snd (json_save time_ok jsize w (new_task i (js_repoIdentity j) (js_repoFSID j) (te_Now e) rs a) j))"
    if "validateState time_ok (new_task i (js_repoIdentity j) (js_repoFSID j) (te_Now e) rs a)" for i w
    using that assms(1,3) by (intro json_save_fits [OF assms(2)]) (simp_all add: small_records_def new_task_def)
  then show ?case using Suc assms(2)
    by (auto simp: Let_def split: option.splits prod.splits bool.splits) (metis snd_conv)+
qed (use assms in simp)

lemma json_keeps_fit:
  assumes "small_records time_ok jsize" and "files_fit jsize j" and "length (te_Now e) \<le> 64"
  shows "files_fit jsize (snd (json_Create time_ok jsize e a j)) \<and> files_fit jsize (snd (json_Resume time_ok jsize e i j))"
proof -
  have "files_fit jsize (snd (json_Create time_ok jsize e a j))"
    using assms(2) json_create_loop_fits [OF assms] by (simp add: json_Create_def split: sum.split)
  moreover have "files_fit jsize (snd (json_Resume time_ok jsize e i j))"
  proof (cases "json_load time_ok jsize i j")
    case (Inr t)
    have save: "files_fit jsize (snd (json_save time_ok jsize w (moved (te_Now e) h t) j))" for w h
    proof (cases "validateState time_ok (moved (te_Now e) h t)")
      case True
      then show ?thesis using assms(1,3) json_load_fits [OF assms(2) Inr]
        by (intro json_save_fits [OF assms(2)]) (simp_all add: small_records_def moved_def)
    qed (use assms(2) in \<open>simp add: json_save_def\<close>)
    then show ?thesis using assms(2) Inr
      by (auto simp: json_Resume_def Let_def split: sum.splits prod.splits bool.splits) (metis snd_conv)+
  qed (use assms(2) in \<open>simp add: json_Resume_def\<close>)
  ultimately show ?thesis by simp
qed

text \<open>C27: The SQLite store does what the JSON store does, when nothing fails: on stores that hold the same
  tasks, in files that fit the size limit, when every write succeeds, the clock's text has at most 64
  characters and the JSON text of a valid record without failed checks fits the limit too, \<open>Create\<close>,
  \<open>Status\<close> and \<open>Resume\<close> return the same results and leave stores that hold the same tasks, in files that
  fit.\<close>

theorem stores_agree:
  assumes "same_tasks time_ok j s" and "small_records time_ok jsize" and "files_fit jsize j"
    and "\<forall>k. te_Write e k = W_Done" and "length (te_Now e) \<le> 64" and "ctx \<noteq> Ctx_Nil"
  shows "fst (sqlite_Create time_ok ctx e a s) = fst (json_Create time_ok jsize e a j)
     \<and> same_tasks time_ok (snd (json_Create time_ok jsize e a j)) (snd (sqlite_Create time_ok ctx e a s))
     \<and> files_fit jsize (snd (json_Create time_ok jsize e a j))
     \<and> sqlite_Status time_ok ctx i s = json_Status time_ok jsize i j
     \<and> fst (sqlite_Resume time_ok ctx e i s) = fst (json_Resume time_ok jsize e i j)
     \<and> same_tasks time_ok (snd (json_Resume time_ok jsize e i j)) (snd (sqlite_Resume time_ok ctx e i s))
     \<and> files_fit jsize (snd (json_Resume time_ok jsize e i j))"
proof -
  have op: "sq_open s" using assms(1) by (simp add: same_tasks_def)
  have load: "taskIDRE i \<Longrightarrow> loadSQLiteState time_ok i s = json_load time_ok jsize i j"
    using same_tasks_load [OF assms(1,3)] by blast
  have bad: "\<not> taskIDRE i \<Longrightarrow> json_load time_ok jsize i j = Inl TS_ErrRejected" by (simp add: json_load_def)
  have create: "fst (sqlite_Create time_ok ctx e a s) = fst (json_Create time_ok jsize e a j)
     \<and> same_tasks time_ok (snd (json_Create time_ok jsize e a j)) (snd (sqlite_Create time_ok ctx e a s))"
    using assms(1,6) op create_loops_agree [OF assms(1,2,4,5)]
    by (simp add: sqlite_Create_def json_Create_def split: sum.split)
  have "sqlite_Status time_ok ctx i s = json_Status time_ok jsize i j"
    using assms(6) op load bad by (auto simp: sqlite_Status_def json_Status_def)
  moreover have "fst (sqlite_Resume time_ok ctx e i s) = fst (json_Resume time_ok jsize e i j)
     \<and> same_tasks time_ok (snd (json_Resume time_ok jsize e i j)) (snd (sqlite_Resume time_ok ctx e i s))"
  proof (cases "taskIDRE i")
    case False
    then show ?thesis using assms(1) bad by (simp add: sqlite_Resume_def json_Resume_def)
  next
    case True
    show ?thesis
    proof (cases "json_load time_ok jsize i j")
      case (Inl err)
      then show ?thesis using True load op assms(1,6) by (simp add: sqlite_Resume_def json_Resume_def)
    next
      case (Inr st)
      have l: "loadSQLiteState time_ok i s = Inr st" using load [OF True] Inr by simp
      have d: "validateState time_ok st" "ts_TaskID st = i" "ts_RepoRootIdentity st = js_repoIdentity j"
          "ts_RepoFSIdentity st = js_repoFSID j" "task_at (sq_db s) i \<noteq> None"
        using sqlite_loadD [OF l] assms(1) by (auto simp: same_tasks_def)
      show ?thesis
      proof (cases "inspected (te_Inspect e)")
        case (Inl err)
        then show ?thesis using True Inr l op assms(1,6) by (simp add: sqlite_Resume_def json_Resume_def)
      next
        case rs: (Inr rs)
        let ?m = "moved (te_Now e) (rp_Head rs) st"
        have m: "ts_TaskID ?m = i" "ts_RepoRootIdentity ?m = js_repoIdentity j" "ts_RepoFSIdentity ?m = js_repoFSID j"
          using d by (simp_all add: moved_def)
        show ?thesis
        proof (cases "validateState time_ok ?m")
          case valid: True
          have "updateSQLiteState time_ok ?m (sq_db s) = Some (put_task ?m (sq_db s))"
            using valid m d(5) by (simp add: update_some)
          moreover have "jsize ?m < maxStateBytes"
            using json_load_fits [OF assms(3) Inr] assms(2,5) valid by (simp add: small_records_def moved_def)
          ultimately show ?thesis
            using True Inr l op rs assms json_save_done [OF valid m(2,3), of jsize] same_tasks_put [OF assms(1), of ?m] m(1)
            by (simp add: sqlite_Resume_def json_Resume_def Let_def)
        next
          case False
          then show ?thesis using True Inr l op rs assms
            by (simp add: sqlite_Resume_def json_Resume_def Let_def updateSQLiteState_def json_save_def)
        qed
      qed
    qed
  qed
  ultimately show ?thesis using create json_keeps_fit [OF assms(2,3,5)] by blast
qed

definition ident0 :: string where "ident0 = replicate 64 (CHR ''a'')"

definition head0 :: "nat \<Rightarrow> string" where "head0 n = replicate 40 (char_of (48 + n))"

definition env0 :: "nat \<Rightarrow> ts_env" where
  "env0 n = \<lparr>te_Now = digits_of n, te_Inspect = Insp_Ok \<lparr>rp_Branch = MainBranch, rp_Head = head0 n\<rparr>,
     te_Random = (\<lambda>_. Some (replicate 16 (char_of n))), te_Write = (\<lambda>_. W_Done)\<rparr>"

definition json0 :: json_store where
  "json0 = \<lparr>js_repoIdentity = ident0, js_repoFSID = ident0, js_files = (\<lambda>_. Slot_Absent)\<rparr>"

definition sqlite0 :: sqlite_store where
  "sqlite0 = \<lparr>sq_repoIdentity = ident0, sq_repoFSID = ident0, sq_open = True,
     sq_db = \<lparr>db_user_version = 1, db_metadata = [(migrationMarker, ''pending'')], db_tasks = []\<rparr>\<rparr>"

definition anytime :: "string \<Rightarrow> bool" where "anytime t \<longleftrightarrow> t \<noteq> []"

lemma same_tasks0: "same_tasks anytime json0 sqlite0"
  by (simp add: same_tasks_def json0_def sqlite0_def row_for_def task_at_def ident0_def)

text \<open>A bound for the length of the JSON text: every byte of a string may be escaped to six.\<close>

definition record_size :: "task_state \<Rightarrow> nat" where
  "record_size t =
     512 + 6 * (length (ts_TaskID t) + length (ts_RepoRootIdentity t) + length (ts_RepoFSIdentity t) + length (ts_Branch t)
       + length (ts_BaseSHA t) + length (ts_CurrentHeadSHA t) + length (ts_LastVerifiedSHA t) + length (ts_VerificationState t)
       + length (ts_NextAction t) + length (ts_CreatedAt t) + length (ts_UpdatedAt t))
     + sum_list (map (\<lambda>c. 10 + 6 * length c) (ts_FailedChecks t))"

lemma record_size_small: "small_records time_ok record_size"
proof -
  have "record_size t < maxStateBytes"
    if v: "validateState time_ok t" and f: "ts_FailedChecks t = []" and c: "length (ts_CreatedAt t) \<le> 64" "length (ts_UpdatedAt t) \<le> 64" for t
  proof -
    have "length (ts_TaskID t) = 37" "length (ts_RepoRootIdentity t) = 64" "length (ts_RepoFSIdentity t) = 64"
      "length (ts_Branch t) = 4" "length (ts_BaseSHA t) \<le> 64" "length (ts_CurrentHeadSHA t) \<le> 64"
      "length (ts_LastVerifiedSHA t) \<le> 64" "length (ts_VerificationState t) \<le> 5" "length (ts_NextAction t) \<le> 4096"
      using v by (auto simp: validateState_def taskIDRE_def identityRE_def shaRE_def MainBranch_def RED_def GREEN_def
          validNextAction_def maxNextActionBytes_def)
    then show ?thesis using f c by (simp add: record_size_def maxStateBytes_def)
  qed
  then show ?thesis by (simp add: small_records_def)
qed

theorem stores_agree_witness:
  "is_ok (fst (sqlite_Create anytime Ctx_Live (env0 1) ''go on'' sqlite0))
   \<and> fst (sqlite_Create anytime Ctx_Live (env0 1) ''go on'' sqlite0)
       = fst (json_Create anytime record_size (env0 1) ''go on'' json0)"
proof -
  have "is_ok (fst (sqlite_Create anytime Ctx_Live (env0 1) ''go on'' sqlite0))" by code_simp
  moreover have "\<forall>k. te_Write (env0 1) k = W_Done" by (simp add: env0_def)
  moreover have "length (te_Now (env0 1)) \<le> 64" by code_simp
  moreover have "files_fit record_size json0" by (simp add: files_fit_def json0_def)
  ultimately show ?thesis
    using stores_agree [OF same_tasks0 record_size_small, of "env0 1" Ctx_Live "''go on''"] by simp
qed

theorem tasks_survive_handoffs_witness:
  "\<exists>t s1. sqlite_Create anytime Ctx_Live (env0 1) ''go on'' sqlite0 = (Inr t, s1)
     \<and> (\<exists>u. sqlite_view anytime (sqlite_tasks.ho_run anytime Ctx_Live [HO_Resume (env0 2) (ts_TaskID t)] s1) (ts_TaskID t)
              = Some u \<and> handed_off t u)"
proof -
  have "is_ok (fst (sqlite_Create anytime Ctx_Live (env0 1) ''go on'' sqlite0))" by code_simp
  then obtain t where "fst (sqlite_Create anytime Ctx_Live (env0 1) ''go on'' sqlite0) = Inr t" by (auto simp: is_ok_iff)
  then obtain s1 where c: "sqlite_Create anytime Ctx_Live (env0 1) ''go on'' sqlite0 = (Inr t, s1)"
    by (metis prod.collapse)
  then have "sqlite_view anytime s1 (ts_TaskID t) = Some t" using tasks_survive_handoffs by blast
  then show ?thesis using tasks_survive_handoffs c by blast
qed

subsection \<open>What the migration preserves\<close>

lemma sorted_files: "set (sort_key fst (filter is_legacy dir)) = {f \<in> set dir. is_legacy f}"
  by auto

lemma migrate_files_view:
  assumes "migrate_files time_ok jsize s fs db = Some db'"
  shows "(\<forall>f \<in> set fs. \<exists>t. readLegacyStateFile time_ok jsize (snd (snd f)) s = Some t
            \<and> sqlite_view time_ok (s\<lparr>sq_db := db'\<rparr>) (ts_TaskID t) = Some t)
     \<and> (\<forall>i. task_at db i \<noteq> None \<longrightarrow> sqlite_view time_ok (s\<lparr>sq_db := db'\<rparr>) i = sqlite_view time_ok (s\<lparr>sq_db := db\<rparr>) i)
     \<and> (\<forall>i. task_at db' i \<noteq> None \<longrightarrow> task_at db i \<noteq> None
          \<or> (\<exists>f \<in> set fs. \<exists>t. readLegacyStateFile time_ok jsize (snd (snd f)) s = Some t \<and> ts_TaskID t = i))"
  using assms
proof (induction fs arbitrary: db)
  case (Cons f fs)
  obtain t where t: "readLegacyStateFile time_ok jsize (snd (snd f)) s = Some t"
    and ins: "insertSQLiteState time_ok t db = Some (put_task t db)"
    and rest: "migrate_files time_ok jsize s fs (put_task t db) = Some db'"
    using Cons.prems by (auto simp: insert_some split: option.splits)
  have v: "validateState time_ok t" "ts_RepoRootIdentity t = sq_repoIdentity s" "ts_RepoFSIdentity t = sq_repoFSID s"
    using t by (auto simp: readLegacyStateFile_def split: slot.splits if_splits)
  have absent: "task_at db (ts_TaskID t) = None" using ins by (simp add: insert_some)
  note ih = Cons.IH [OF rest]
  have "sqlite_view time_ok (s\<lparr>sq_db := db'\<rparr>) (ts_TaskID t) = Some t"
    using ih load_put [OF v, of db] by simp
  moreover have "sqlite_view time_ok (s\<lparr>sq_db := db'\<rparr>) i = sqlite_view time_ok (s\<lparr>sq_db := db\<rparr>) i"
    if "task_at db i \<noteq> None" for i
  proof -
    have "i \<noteq> ts_TaskID t" using that absent by auto
    then show ?thesis using ih that load_put [OF v, of db i] by simp
  qed
  moreover have "task_at db i \<noteq> None \<or> (\<exists>f \<in> set (f # fs). \<exists>t. readLegacyStateFile time_ok jsize (snd (snd f)) s = Some t \<and> ts_TaskID t = i)"
    if "task_at db' i \<noteq> None" for i
  proof (cases "i = ts_TaskID t")
    case False
    have "task_at (put_task t db) i \<noteq> None
        \<or> (\<exists>f \<in> set fs. \<exists>t. readLegacyStateFile time_ok jsize (snd (snd f)) s = Some t \<and> ts_TaskID t = i)"
      using ih that by blast
    then have "task_at db i \<noteq> None
        \<or> (\<exists>f \<in> set fs. \<exists>t. readLegacyStateFile time_ok jsize (snd (snd f)) s = Some t \<and> ts_TaskID t = i)"
      using False by (simp only: task_at_put if_False)
    then show ?thesis by (meson list.set_intros(2))
  qed (use t in auto)
  ultimately show ?case using ih t by (intro conjI) simp_all
qed auto

definition files_of :: "json_dir \<Rightarrow> string \<Rightarrow> task_state slot" where
  "files_of dir i = (case map_of dir (i @ ''.json'') of None \<Rightarrow> Slot_Absent | Some f \<Rightarrow> snd f)"

lemma legacy_view:
  assumes "json_view time_ok jsize j i = Some t" and "js_files j = files_of dir"
    and "map_of (map (\<lambda>f. (fst f, fst (snd f))) dir) (i @ ''.json'') = Some EK_Regular"
  shows "(i @ ''.json'', EK_Regular, Slot_Has t) \<in> set dir \<and> is_legacy (i @ ''.json'', EK_Regular, Slot_Has t) \<and> ts_TaskID t = i"
proof -
  have l: "json_load time_ok jsize i j = Inr t" using assms(1) by (simp add: json_view_def split: sum.splits)
  obtain f where f: "map_of dir (i @ ''.json'') = Some f" "snd f = Slot_Has t"
    using json_load_id [OF l] assms(2) by (auto simp: files_of_def split: option.splits)
  have "map_of (map (\<lambda>f. (fst f, fst (snd f))) dir) k = map_option fst (map_of dir k)" for k
    by (induction dir) auto
  then have "fst f = EK_Regular" using assms(3) f(1) by simp
  then have "f = (EK_Regular, Slot_Has t)" using f(2) by (metis prod.collapse)
  then show ?thesis using f(1) json_load_id [OF l] by (auto simp: is_legacy_def suffix_def dest: map_of_SomeD)
qed

lemma complete_view: "sqlite_view time_ok (s\<lparr>sq_db := mark_complete db\<rparr>) i = sqlite_view time_ok (s\<lparr>sq_db := db\<rparr>) i"
  by (rule sqlite_view_cong) (simp_all add: mark_complete_def task_at_def)

lemma complete_marker: "map_of (db_metadata (mark_complete db)) migrationMarker = Some ''complete''"
  by (simp add: mark_complete_def update_conv')

lemma migrated_not_legacy: "\<not> is_legacy (n @ ''.migrated'', f)"
  by (auto simp: is_legacy_def suffix_def dest!: arg_cong [where f = "\<lambda>s. last s"])

lemma rename_all:
  assumes "length (sort_key fst (filter is_legacy dir)) \<le> n"
  shows "filter is_legacy (map (rename_file (map fst (take n (sort_key fst (filter is_legacy dir))))) dir) = []"
proof -
  have "\<not> is_legacy (rename_file (map fst (take n (sort_key fst (filter is_legacy dir)))) f)" if "f \<in> set dir" for f
  proof (cases "is_legacy f")
    case True
    then have "fst f \<in> fst ` {f \<in> set dir. is_legacy f}" using that by blast
    then show ?thesis using assms migrated_not_legacy by (simp add: rename_file_def)
  next
    case False
    then show ?thesis using migrated_not_legacy by (auto simp: rename_file_def)
  qed
  then show ?thesis by (auto simp: filter_empty_conv)
qed


definition task0 :: task_state where
  "task0 = new_task (''task_'' @ hex_encode (replicate 16 (CHR ''x''))) ident0 ident0 ''t''
     \<lparr>rp_Branch = MainBranch, rp_Head = head0 1\<rparr> ''go on''"

definition dir0 :: json_dir where
  "dir0 = [(ts_TaskID task0 @ ''.json'', EK_Regular, Slot_Has task0), (''state.db'', EK_Regular, Slot_Corrupt)]"


text \<open>The JSON store follows a symbolic link, the migration skips it: the task behind the link is read before
  the migration and not found after it, and the migration succeeds.\<close>

definition dir_link :: json_dir where
  "dir_link = [(ts_TaskID task0 @ ''.json'', EK_Symlink, Slot_Has task0)]"

lemma symlinked_task_left_behind:
  "is_ok (json_load anytime record_size (ts_TaskID task0) (json0\<lparr>js_files := files_of dir_link\<rparr>))
   \<and> fst (migrateLegacyJSON anytime record_size W_Done 0 True dir_link sqlite0)
   \<and> \<not> is_ok (sqlite_Status anytime Ctx_Live (ts_TaskID task0) (snd (snd (migrateLegacyJSON anytime record_size W_Done 0 True dir_link sqlite0))))"
  by (intro conjI; code_simp)

text \<open>A crash between the commit and the last rename leaves JSON files beside a database that is marked
  as migrated, and then no later opening succeeds.\<close>

lemma interrupted_migration_sticks:
  assumes "map_of (db_metadata (sq_db s)) migrationMarker = Some ''pending''" and "db_tasks (sq_db s) = []"
    and "migrate_files time_ok jsize s (sort_key fst (filter is_legacy dir)) (sq_db s) = Some db"
    and "f \<in> set dir" and "is_legacy f"
  shows "\<exists>s'. migrateLegacyJSON time_ok jsize W_Done 0 False dir s = (False, dir, s')
     \<and> (\<forall>w n sy. migrateLegacyJSON time_ok jsize w n sy dir s' = (False, dir, s'))"
proof -
  let ?legacy = "sort_key fst (filter is_legacy dir)"
  have ne: "?legacy \<noteq> []" using assms(4,5) by (metis (no_types, lifting) empty_iff list.set(1) mem_Collect_eq sorted_files)
  have keep: "map (rename_file []) dir = dir" by (simp add: rename_file_def map_idI)
  let ?s = "s\<lparr>sq_db := mark_complete db\<rparr>"
  have "migrateLegacyJSON time_ok jsize W_Done 0 False dir s = (False, dir, ?s)"
    using assms(1-3) ne keep by (simp add: migrateLegacyJSON_def Let_def)
  moreover have "migrateLegacyJSON time_ok jsize w n sy dir ?s = (False, dir, ?s)" for w n sy
    using ne complete_marker by (simp add: migrateLegacyJSON_def Let_def)
  ultimately show ?thesis by blast
qed

end
