(* ===== verification/Event_Store.thy ===== *)
theory Event_Store
  imports Go_Paths "HOL-Library.AList" "HOL-Library.Product_Lexorder"
begin

section \<open>The event store (internal/events/store.go)\<close>

text \<open>
  Runs, their ordered events, artifacts and checkpoints in one SQLite database, with the artifact
  files beside it. A table is the list of its rows in the order of insertion; the timestamps of a row
  are text. The engine's part is an outcome per statement: a query answers or fails, a write happens,
  happens and reports an error, or does not happen. The theory shows that the log of a run is numbered
  without gaps and only grows until the run is collected, that an artifact is returned as it was stored
  or not at all, and that collection spares every run that is not finished.
\<close>

subsection \<open>Data\<close>

datatype ev_error = EV_ErrRejected | EV_ErrNotFound

record 't ev_run =
  er_ID :: string
  er_TaskID :: string
  er_RepositoryID :: string
  er_GenerationID :: string
  er_EnvironmentID :: string
  er_PolicyVersion :: string
  er_CandidateSnapshot :: string
  er_Status :: string
  er_CreatedAt :: 't
  er_UpdatedAt :: 't

record 't event =
  ev_RunID :: string
  ev_Sequence :: int
  ev_Type :: string
  ev_Payload :: string
  ev_CreatedAt :: 't

record 't artifact =
  ar_ID :: string
  ar_RunID :: string
  ar_Kind :: string
  ar_Path :: string
  ar_ContentDigest :: string
  ar_Size :: int
  ar_CreatedAt :: 't

record 't checkpoint =
  ck_ID :: string
  ck_RunID :: string
  ck_CandidateSnapshot :: string
  ck_EnvironmentID :: string
  ck_PolicyVersion :: string
  ck_State :: string
  ck_Payload :: string
  ck_CreatedAt :: 't

record events_db =
  ed_runs :: "string ev_run list"
  ed_events :: "string event list"
  ed_artifacts :: "string artifact list"
  ed_checkpoints :: "string checkpoint list"

record ev_store =
  es_open :: bool
  es_root :: string
  es_db :: events_db
  es_files :: "(string \<times> string) list"

text \<open>What the code takes from the platform: \<open>sy_show\<close> and \<open>sy_read\<close> are \<open>Format\<close> and \<open>Parse\<close> with
  the layout RFC3339Nano, \<open>sy_json\<close> is \<open>json.Valid\<close>, \<open>sy_sha\<close> is SHA-256. An environment is the
  outcome of one call: its context, the clock, the beginning of a transaction, the queries by number,
  and the write.\<close>

record ev_sys =
  sy_show :: "instant \<Rightarrow> string"
  sy_read :: "string \<Rightarrow> instant option"
  sy_json :: "string \<Rightarrow> bool"
  sy_sha :: "string \<Rightarrow> string"

record ev_env =
  ee_Ctx :: go_ctx
  ee_Now :: instant
  ee_Begin :: bool
  ee_Read :: "nat \<Rightarrow> bool"
  ee_Write :: write_outcome

subsection \<open>Validation\<close>

definition maxPayloadBytes :: nat where "maxPayloadBytes = 1048576"
definition maxPageSize :: int where "maxPageSize = 1000"

definition es_validOpaque :: "string \<Rightarrow> bool" where
  "es_validOpaque v \<longleftrightarrow> v \<noteq> [] \<and> length v \<le> 256 \<and> \<not> contains_any v (control_chars @ [slash, CHR 0x5C])"

definition es_validIdentity :: "string \<Rightarrow> bool" where
  "es_validIdentity v \<longleftrightarrow> length v = 64 \<and> list_all lower_hex v"

definition validStatus :: "string \<Rightarrow> bool" where
  "validStatus st \<longleftrightarrow> st = ''created'' \<or> st = ''running'' \<or> st = ''completed'' \<or> st = ''failed'' \<or> st = ''stopped''"

definition es_secret_markers :: "string list" where
  "es_secret_markers =
    [''-----begin private key-----'', ''ghp_'', ''github_pat_'', ''sk-proj-'',
     [CHR 0x22] @ ''password'' @ [CHR 0x22], [CHR 0x22] @ ''secret'' @ [CHR 0x22],
     [CHR 0x22] @ ''access_token'' @ [CHR 0x22], ''private_key'']"

definition es_containsSecret :: "string \<Rightarrow> bool" where
  "es_containsSecret v =
    (let lower = to_lower v
     in (sublist ''authorization'' lower \<and> sublist ''bearer'' lower)
        \<or> list_ex (\<lambda>m. sublist m lower) es_secret_markers)"

definition validPayload :: "ev_sys \<Rightarrow> string \<Rightarrow> bool" where
  "validPayload sys p \<longleftrightarrow>
    p \<noteq> [] \<and> length p \<le> maxPayloadBytes \<and> sy_json sys p \<and> NUL \<notin> set p \<and> \<not> es_containsSecret p"

definition validRun :: "instant ev_run \<Rightarrow> bool" where
  "validRun r \<longleftrightarrow> es_validOpaque (er_ID r) \<and> es_validOpaque (er_TaskID r) \<and> es_validIdentity (er_RepositoryID r)
     \<and> es_validOpaque (er_GenerationID r) \<and> es_validOpaque (er_EnvironmentID r) \<and> es_validOpaque (er_PolicyVersion r)
     \<and> es_validIdentity (er_CandidateSnapshot r) \<and> validStatus (er_Status r)
     \<and> er_CreatedAt r \<noteq> zero_time \<and> er_UpdatedAt r \<noteq> zero_time"

definition validCheckpoint :: "ev_sys \<Rightarrow> instant checkpoint \<Rightarrow> bool" where
  "validCheckpoint sys c \<longleftrightarrow> es_validOpaque (ck_ID c) \<and> es_validOpaque (ck_RunID c)
     \<and> es_validIdentity (ck_CandidateSnapshot c) \<and> es_validOpaque (ck_EnvironmentID c)
     \<and> es_validOpaque (ck_PolicyVersion c) \<and> es_validOpaque (ck_State c)
     \<and> validPayload sys (ck_Payload c) \<and> ck_CreatedAt c \<noteq> zero_time"

definition es_pathWithin :: "string \<Rightarrow> string \<Rightarrow> bool" where
  "es_pathWithin parent candidate \<longleftrightarrow> rel_inside (rel_from_abs parent candidate)"

subsection \<open>Rows\<close>

definition run_row :: "ev_sys \<Rightarrow> instant ev_run \<Rightarrow> string ev_run" where
  "run_row sys r =
     \<lparr>er_ID = er_ID r, er_TaskID = er_TaskID r, er_RepositoryID = er_RepositoryID r,
      er_GenerationID = er_GenerationID r, er_EnvironmentID = er_EnvironmentID r,
      er_PolicyVersion = er_PolicyVersion r, er_CandidateSnapshot = er_CandidateSnapshot r,
      er_Status = er_Status r, er_CreatedAt = sy_show sys (er_CreatedAt r),
      er_UpdatedAt = sy_show sys (er_UpdatedAt r)\<rparr>"

definition scan_run :: "ev_sys \<Rightarrow> string ev_run \<Rightarrow> instant ev_run option" where
  "scan_run sys r =
    (case (sy_read sys (er_CreatedAt r), sy_read sys (er_UpdatedAt r)) of
       (Some c, Some u) \<Rightarrow> Some
         \<lparr>er_ID = er_ID r, er_TaskID = er_TaskID r, er_RepositoryID = er_RepositoryID r,
          er_GenerationID = er_GenerationID r, er_EnvironmentID = er_EnvironmentID r,
          er_PolicyVersion = er_PolicyVersion r, er_CandidateSnapshot = er_CandidateSnapshot r,
          er_Status = er_Status r, er_CreatedAt = c, er_UpdatedAt = u\<rparr>
     | _ \<Rightarrow> None)"

definition scan_event :: "ev_sys \<Rightarrow> string event \<Rightarrow> instant event option" where
  "scan_event sys r =
    (case sy_read sys (ev_CreatedAt r) of
       None \<Rightarrow> None
     | Some t \<Rightarrow> Some \<lparr>ev_RunID = ev_RunID r, ev_Sequence = ev_Sequence r, ev_Type = ev_Type r,
                      ev_Payload = ev_Payload r, ev_CreatedAt = t\<rparr>)"

fun scan_all :: "('a \<Rightarrow> 'b option) \<Rightarrow> 'a list \<Rightarrow> 'b list option" where
  "scan_all f [] = Some []"
| "scan_all f (r # rs) =
    (case f r of None \<Rightarrow> None | Some x \<Rightarrow> (case scan_all f rs of None \<Rightarrow> None | Some xs \<Rightarrow> Some (x # xs)))"

definition checkpoint_row :: "ev_sys \<Rightarrow> instant checkpoint \<Rightarrow> string checkpoint" where
  "checkpoint_row sys c =
     \<lparr>ck_ID = ck_ID c, ck_RunID = ck_RunID c, ck_CandidateSnapshot = ck_CandidateSnapshot c,
      ck_EnvironmentID = ck_EnvironmentID c, ck_PolicyVersion = ck_PolicyVersion c,
      ck_State = ck_State c, ck_Payload = ck_Payload c, ck_CreatedAt = sy_show sys (ck_CreatedAt c)\<rparr>"

definition scan_checkpoint :: "ev_sys \<Rightarrow> string checkpoint \<Rightarrow> instant checkpoint option" where
  "scan_checkpoint sys c =
    (case sy_read sys (ck_CreatedAt c) of
       None \<Rightarrow> None
     | Some t \<Rightarrow> Some
         \<lparr>ck_ID = ck_ID c, ck_RunID = ck_RunID c, ck_CandidateSnapshot = ck_CandidateSnapshot c,
          ck_EnvironmentID = ck_EnvironmentID c, ck_PolicyVersion = ck_PolicyVersion c,
          ck_State = ck_State c, ck_Payload = ck_Payload c, ck_CreatedAt = t\<rparr>)"

subsection \<open>Statements\<close>

definition exec :: "write_outcome \<Rightarrow> (events_db \<Rightarrow> events_db) \<Rightarrow> ev_store \<Rightarrow> ev_store" where
  "exec w f s = (case w of W_Failed \<Rightarrow> s | _ \<Rightarrow> s\<lparr>es_db := f (es_db s)\<rparr>)"

definition run_exists :: "events_db \<Rightarrow> string \<Rightarrow> bool" where
  "run_exists db i = list_ex (\<lambda>r. er_ID r = i) (ed_runs db)"

definition find_run :: "events_db \<Rightarrow> string \<Rightarrow> string ev_run option" where
  "find_run db i = find (\<lambda>r. er_ID r = i) (ed_runs db)"

definition update_runs :: "string \<Rightarrow> (string ev_run \<Rightarrow> string ev_run) \<Rightarrow> events_db \<Rightarrow> events_db" where
  "update_runs i f db = db\<lparr>ed_runs := map (\<lambda>r. if er_ID r = i then f r else r) (ed_runs db)\<rparr>"

definition events_of :: "events_db \<Rightarrow> string \<Rightarrow> string event list" where
  "events_of db i = filter (\<lambda>e. ev_RunID e = i) (ed_events db)"

text \<open>\<open>COALESCE(MAX(sequence), 0) + 1\<close>.\<close>

definition next_sequence :: "events_db \<Rightarrow> string \<Rightarrow> int" where
  "next_sequence db i =
    (case map ev_Sequence (events_of db i) of [] \<Rightarrow> 0 | n # ns \<Rightarrow> foldl max n ns) + 1"

definition delete_run :: "string \<Rightarrow> events_db \<Rightarrow> events_db" where
  "delete_run i db =
     db\<lparr>ed_runs := filter (\<lambda>r. er_ID r \<noteq> i) (ed_runs db),
        ed_events := filter (\<lambda>e. ev_RunID e \<noteq> i) (ed_events db),
        ed_artifacts := filter (\<lambda>a. ar_RunID a \<noteq> i) (ed_artifacts db),
        ed_checkpoints := filter (\<lambda>c. ck_RunID c \<noteq> i) (ed_checkpoints db)\<rparr>"

subsection \<open>Opening and closing\<close>

definition dir_name :: "string \<Rightarrow> string" where
  "dir_name p = clean (rev (dropWhile (\<lambda>c. c \<noteq> slash) (rev p)))"

definition empty_events_db :: events_db where
  "empty_events_db = \<lparr>ed_runs = [], ed_events = [], ed_artifacts = [], ed_checkpoints = []\<rparr>"

text \<open>\<open>io\<close> tells which steps of \<open>Open\<close> and \<open>initialize\<close> succeed; the migration creates the tables that
  are not there and leaves the others.\<close>

definition es_initialize :: "(string \<Rightarrow> bool) \<Rightarrow> bool" where
  "es_initialize io = list_all io
    [''busy_timeout'', ''journal_mode=WAL'', ''synchronous=FULL'', ''foreign_keys=ON'',
     ''migrations/001_initial.sql'', ''integrity_check'', ''chmod'']"

definition es_Open ::
  "(string \<Rightarrow> bool) \<Rightarrow> string \<Rightarrow> events_db option \<Rightarrow> (string \<times> string) list \<Rightarrow> ev_error + ev_store" where
  "es_Open io path existing files =
    (if path = [] \<or> \<not> is_abs path then Inl EV_ErrRejected
     else if \<not> list_all io [''mkdir'', ''chmod root'', ''open'', ''chmod file'', ''sql open''] then Inl EV_ErrRejected
     else if \<not> es_initialize io then Inl EV_ErrRejected
     else Inr \<lparr>es_open = True, es_root = dir_name path,
               es_db = (case existing of None \<Rightarrow> empty_events_db | Some db \<Rightarrow> db), es_files = files\<rparr>)"

definition es_Close :: "ev_store \<Rightarrow> ev_store" where
  "es_Close s = s\<lparr>es_open := False\<rparr>"

subsection \<open>Runs\<close>

definition CreateRun :: "ev_sys \<Rightarrow> ev_env \<Rightarrow> instant ev_run \<Rightarrow> ev_store \<Rightarrow> ev_error option \<times> ev_store" where
  "CreateRun sys e r s =
    (if ee_Ctx e = Ctx_Nil \<or> \<not> es_open s \<or> \<not> validRun r then (Some EV_ErrRejected, s)
     else if run_exists (es_db s) (er_ID r) then (Some EV_ErrRejected, s)
     else (if ee_Write e = W_Done then None else Some EV_ErrRejected,
           exec (ee_Write e) (\<lambda>db. db\<lparr>ed_runs := ed_runs db @ [run_row sys r]\<rparr>) s))"

text \<open>The two \<open>UPDATE\<close> statements on a run: an error of the statement is \<open>ErrRejected\<close>, no row is
  \<open>ErrNotFound\<close>.\<close>

definition exec_update ::
  "ev_env \<Rightarrow> string \<Rightarrow> (string ev_run \<Rightarrow> string ev_run) \<Rightarrow> ev_store \<Rightarrow> ev_error option \<times> ev_store" where
  "exec_update e i f s =
    (if ee_Write e \<noteq> W_Done then Some EV_ErrRejected
     else if run_exists (es_db s) i then None else Some EV_ErrNotFound,
     exec (ee_Write e) (update_runs i f) s)"

definition UpdateRunStatus :: "ev_sys \<Rightarrow> ev_env \<Rightarrow> string \<Rightarrow> string \<Rightarrow> ev_store \<Rightarrow> ev_error option \<times> ev_store" where
  "UpdateRunStatus sys e i st s =
    (if ee_Ctx e = Ctx_Nil \<or> \<not> es_open s \<or> \<not> es_validOpaque i \<or> \<not> validStatus st then (Some EV_ErrRejected, s)
     else exec_update e i (\<lambda>r. r\<lparr>er_Status := st, er_UpdatedAt := sy_show sys (ee_Now e)\<rparr>) s)"

definition UpdateRunBinding ::
  "ev_sys \<Rightarrow> ev_env \<Rightarrow> string \<Rightarrow> string \<Rightarrow> string \<Rightarrow> string \<Rightarrow> ev_store \<Rightarrow> ev_error option \<times> ev_store" where
  "UpdateRunBinding sys e i cand env pol s =
    (if ee_Ctx e = Ctx_Nil \<or> \<not> es_open s \<or> \<not> es_validOpaque i \<or> cand = [] \<or> \<not> es_validOpaque env
        \<or> \<not> es_validOpaque pol then (Some EV_ErrRejected, s)
     else exec_update e i (\<lambda>r. r\<lparr>er_CandidateSnapshot := cand, er_EnvironmentID := env,
            er_PolicyVersion := pol, er_UpdatedAt := sy_show sys (ee_Now e)\<rparr>) s)"

definition GetRun :: "ev_sys \<Rightarrow> ev_env \<Rightarrow> string \<Rightarrow> ev_store \<Rightarrow> ev_error + instant ev_run" where
  "GetRun sys e i s =
    (if ee_Ctx e = Ctx_Nil \<or> \<not> es_open s \<or> \<not> es_validOpaque i then Inl EV_ErrRejected
     else (case (if ee_Read e 0 then find_run (es_db s) i else None) of
             None \<Rightarrow> Inl EV_ErrNotFound
           | Some r \<Rightarrow> (case scan_run sys r of None \<Rightarrow> Inl EV_ErrRejected | Some run \<Rightarrow> Inr run)))"

subsection \<open>Events\<close>

definition AppendEvent ::
  "ev_sys \<Rightarrow> ev_env \<Rightarrow> string \<Rightarrow> string \<Rightarrow> string \<Rightarrow> ev_store \<Rightarrow> (ev_error + instant event) \<times> ev_store" where
  "AppendEvent sys e i ty payload s =
    (if ee_Ctx e = Ctx_Nil \<or> \<not> es_open s \<or> \<not> es_validOpaque i \<or> \<not> es_validOpaque ty \<or> \<not> validPayload sys payload
     then (Inl EV_ErrRejected, s)
     else if \<not> ee_Begin e \<or> \<not> ee_Read e 0 then (Inl EV_ErrRejected, s)
     else if \<not> ee_Read e 1 \<or> \<not> run_exists (es_db s) i then (Inl EV_ErrNotFound, s)
     else (let n = next_sequence (es_db s) i;
               row = \<lparr>ev_RunID = i, ev_Sequence = n, ev_Type = ty, ev_Payload = payload,
                      ev_CreatedAt = sy_show sys (ee_Now e)\<rparr>
           in (if ee_Write e = W_Done
               then Inr \<lparr>ev_RunID = i, ev_Sequence = n, ev_Type = ty, ev_Payload = payload,
                         ev_CreatedAt = ee_Now e\<rparr>
               else Inl EV_ErrRejected,
               exec (ee_Write e) (\<lambda>db. db\<lparr>ed_events := ed_events db @ [row]\<rparr>) s)))"

definition page_rows :: "events_db \<Rightarrow> string \<Rightarrow> int \<Rightarrow> int \<Rightarrow> string event list" where
  "page_rows db i after limit =
    take (nat limit) (sort_key ev_Sequence (filter (\<lambda>e. after < ev_Sequence e) (events_of db i)))"

definition ListEvents ::
  "ev_sys \<Rightarrow> ev_env \<Rightarrow> string \<Rightarrow> int \<Rightarrow> int \<Rightarrow> ev_store \<Rightarrow> ev_error + instant event list" where
  "ListEvents sys e i after limit s =
    (if ee_Ctx e = Ctx_Nil \<or> \<not> es_open s \<or> \<not> es_validOpaque i \<or> after < 0 \<or> limit \<le> 0 \<or> maxPageSize < limit
     then Inl EV_ErrRejected
     else if \<not> ee_Read e 0 then Inl EV_ErrRejected
     else (case scan_all (scan_event sys) (page_rows (es_db s) i after limit) of
             None \<Rightarrow> Inl EV_ErrRejected | Some es \<Rightarrow> Inr es))"

subsection \<open>Artifacts\<close>

text \<open>What the file named by the caller shows: its size when \<open>Lstat\<close> finds a regular file, what the
  digest pass reads and what the later copy reads. The two passes may see different contents.\<close>

record artifact_source =
  as_Lstat :: "int option"
  as_Digest_read :: "string option"
  as_Copy_read :: "string option"

definition digestBytes :: "ev_sys \<Rightarrow> string \<Rightarrow> string" where
  "digestBytes sys c = hex_encode (sy_sha sys c)"

definition es_randomHex :: "string option \<Rightarrow> string" where
  "es_randomHex r = (case r of None \<Rightarrow> ''0'' | Some bytes \<Rightarrow> hex_encode bytes)"

definition artifact_id :: "string option \<Rightarrow> string" where
  "artifact_id r = ''artifact_'' @ es_randomHex r"

definition artifact_name :: "string \<Rightarrow> string \<Rightarrow> string" where
  "artifact_name i d = i @ ''-'' @ d"

definition AddArtifact ::
  "ev_sys \<Rightarrow> ev_env \<Rightarrow> string option \<Rightarrow> artifact_source \<Rightarrow> string \<Rightarrow> string \<Rightarrow> string \<Rightarrow> ev_store
   \<Rightarrow> (ev_error + instant artifact) \<times> ev_store" where
  "AddArtifact sys e rnd src i kind source s =
    (if ee_Ctx e = Ctx_Nil \<or> \<not> es_open s \<or> \<not> es_validOpaque i \<or> \<not> es_validOpaque kind \<or> source = []
        \<or> \<not> is_abs source then (Inl EV_ErrRejected, s)
     else (case (as_Lstat src, as_Digest_read src, as_Copy_read src) of
             (Some sz, Some c1, Some c2) \<Rightarrow>
               if 1073741824 < sz then (Inl EV_ErrRejected, s)
               else (let digest = digestBytes sys c1;
                         i' = artifact_id rnd;
                         dest = join_path (es_root s) (artifact_name i' digest);
                         s1 = s\<lparr>es_files := AList.update dest c2 (es_files s)\<rparr>;
                         row = \<lparr>ar_ID = i', ar_RunID = i, ar_Kind = kind, ar_Path = dest, ar_ContentDigest = digest,
                                ar_Size = int (length c1), ar_CreatedAt = sy_show sys (ee_Now e)\<rparr>;
                         ok = (ee_Write e = W_Done \<and> \<not> (run_exists (es_db s) i \<and> list_ex (\<lambda>a. ar_ID a = i') (ed_artifacts (es_db s))));
                         s2 = (if run_exists (es_db s) i \<and> \<not> list_ex (\<lambda>a. ar_ID a = i') (ed_artifacts (es_db s))
                               then exec (ee_Write e) (\<lambda>db. db\<lparr>ed_artifacts := ed_artifacts db @ [row]\<rparr>) s1 else s1)
                     in if ok
                        then (Inr \<lparr>ar_ID = i', ar_RunID = i, ar_Kind = kind, ar_Path = dest, ar_ContentDigest = digest,
                                   ar_Size = int (length c1), ar_CreatedAt = ee_Now e\<rparr>, s2)
                        else (Inl EV_ErrRejected, s2\<lparr>es_files := AList.delete dest (es_files s2)\<rparr>))
           | _ \<Rightarrow> (Inl EV_ErrRejected, s)))"

definition ReadArtifact :: "ev_sys \<Rightarrow> ev_env \<Rightarrow> string \<Rightarrow> ev_store \<Rightarrow> ev_error + string" where
  "ReadArtifact sys e i s =
    (if ee_Ctx e = Ctx_Nil \<or> \<not> es_open s \<or> \<not> es_validOpaque i then Inl EV_ErrRejected
     else (case (if ee_Read e 0 then find (\<lambda>a. ar_ID a = i) (ed_artifacts (es_db s)) else None) of
             None \<Rightarrow> Inl EV_ErrNotFound
           | Some a \<Rightarrow>
               if \<not> es_pathWithin (es_root s) (ar_Path a) then Inl EV_ErrRejected
               else (case map_of (es_files s) (ar_Path a) of
                       None \<Rightarrow> Inl EV_ErrRejected
                     | Some c \<Rightarrow> if int (length c) \<noteq> ar_Size a \<or> digestBytes sys c \<noteq> ar_ContentDigest a
                                 then Inl EV_ErrRejected else Inr c)))"

subsection \<open>Checkpoints\<close>

definition SaveCheckpoint :: "ev_sys \<Rightarrow> ev_env \<Rightarrow> instant checkpoint \<Rightarrow> ev_store \<Rightarrow> ev_error option \<times> ev_store" where
  "SaveCheckpoint sys e c s =
    (if ee_Ctx e = Ctx_Nil \<or> \<not> es_open s \<or> \<not> validCheckpoint sys c then (Some EV_ErrRejected, s)
     else if \<not> ee_Read e 0 \<or> \<not> run_exists (es_db s) (ck_RunID c) then (Some EV_ErrNotFound, s)
     else if list_ex (\<lambda>d. ck_ID d = ck_ID c) (ed_checkpoints (es_db s)) then (Some EV_ErrRejected, s)
     else (if ee_Write e = W_Done then None else Some EV_ErrRejected,
           exec (ee_Write e) (\<lambda>db. db\<lparr>ed_checkpoints := ed_checkpoints db @ [checkpoint_row sys c]\<rparr>) s))"

text \<open>\<open>ORDER BY created_at DESC, checkpoint_id DESC LIMIT 1\<close> compares text byte by byte.\<close>

definition latest_row :: "string checkpoint list \<Rightarrow> string checkpoint option" where
  "latest_row rows =
    (let sorted_rows = sort_key (\<lambda>c. (ck_CreatedAt c, ck_ID c)) rows
     in if sorted_rows = [] then None else Some (last sorted_rows))"

definition LatestCheckpoint :: "ev_sys \<Rightarrow> ev_env \<Rightarrow> string \<Rightarrow> ev_store \<Rightarrow> ev_error + instant checkpoint" where
  "LatestCheckpoint sys e i s =
    (if ee_Ctx e = Ctx_Nil \<or> \<not> es_open s \<or> \<not> es_validOpaque i then Inl EV_ErrRejected
     else (case (if ee_Read e 0 then latest_row (filter (\<lambda>c. ck_RunID c = i) (ed_checkpoints (es_db s))) else None) of
             None \<Rightarrow> Inl EV_ErrNotFound
           | Some r \<Rightarrow> (case scan_checkpoint sys r of None \<Rightarrow> Inl EV_ErrRejected | Some c \<Rightarrow> Inr c)))"

subsection \<open>Collection\<close>

definition collectable :: "string \<Rightarrow> string ev_run \<Rightarrow> bool" where
  "collectable before r \<longleftrightarrow>
     (er_Status r = ''completed'' \<or> er_Status r = ''failed'' \<or> er_Status r = ''stopped'') \<and> er_UpdatedAt r < before"

definition gc_ids :: "string \<Rightarrow> int \<Rightarrow> events_db \<Rightarrow> string list" where
  "gc_ids before limit db =
    map er_ID (take (nat limit) (sort_key er_UpdatedAt (filter (collectable before) (ed_runs db))))"

fun remove_paths :: "(string \<Rightarrow> bool) \<Rightarrow> string list \<Rightarrow> ev_store \<Rightarrow> bool \<times> ev_store" where
  "remove_paths rm [] s = (True, s)"
| "remove_paths rm (p # ps) s =
    (if map_of (es_files s) p = None then remove_paths rm ps s
     else if \<not> rm p then (False, s)
     else remove_paths rm ps (s\<lparr>es_files := AList.delete p (es_files s)\<rparr>))"

text \<open>One round per run: \<open>rd\<close> is whether the query of its artifacts answers, \<open>wr\<close> the outcome of the
  deletion, whose rows go with the run by the foreign keys, and \<open>rm\<close> which files can be removed.\<close>

fun gc_loop ::
  "(string \<Rightarrow> bool) \<Rightarrow> (string \<Rightarrow> write_outcome) \<Rightarrow> (string \<Rightarrow> bool) \<Rightarrow> string list \<Rightarrow> int \<Rightarrow> ev_store
   \<Rightarrow> (int \<times> ev_error option) \<times> ev_store" where
  "gc_loop rd wr rm [] deleted s = ((deleted, None), s)"
| "gc_loop rd wr rm (i # is) deleted s =
    (if \<not> rd i then ((deleted, Some EV_ErrRejected), s)
     else (let paths = map ar_Path (filter (\<lambda>a. ar_RunID a = i) (ed_artifacts (es_db s)));
               s1 = exec (wr i) (delete_run i) s
           in if wr i \<noteq> W_Done then ((deleted, Some EV_ErrRejected), s1)
              else (let count = (if run_exists (es_db s) i then 1 else 0)
                    in case remove_paths rm paths s1 of
                         (False, s2) \<Rightarrow> ((deleted + count, Some EV_ErrRejected), s2)
                       | (True, s2) \<Rightarrow> gc_loop rd wr rm is (deleted + count) s2)))"

definition GC ::
  "ev_sys \<Rightarrow> ev_env \<Rightarrow> (string \<Rightarrow> bool) \<Rightarrow> (string \<Rightarrow> write_outcome) \<Rightarrow> (string \<Rightarrow> bool) \<Rightarrow> instant \<Rightarrow> int \<Rightarrow> ev_store
   \<Rightarrow> (int \<times> ev_error option) \<times> ev_store" where
  "GC sys e rd wr rm before limit s =
    (if ee_Ctx e = Ctx_Nil \<or> \<not> es_open s \<or> before = zero_time \<or> limit \<le> 0 \<or> maxPageSize < limit
     then ((0, Some EV_ErrRejected), s)
     else if \<not> ee_Read e 0 then ((0, Some EV_ErrRejected), s)
     else gc_loop rd wr rm (gc_ids (sy_show sys before) limit (es_db s)) 0 s)"

subsection \<open>Invalidation hints\<close>

record fsevents = fe_stale :: bool
  fe_paths :: "string list"

definition NewFSEventsAdapter :: fsevents where "NewFSEventsAdapter = \<lparr>fe_stale = False, fe_paths = []\<rparr>"

definition fe_Handle :: "string list \<Rightarrow> fsevents \<Rightarrow> fsevents" where
  "fe_Handle ps f = f\<lparr>fe_stale := True, fe_paths := ps\<rparr>"

definition fe_Consume :: "fsevents \<Rightarrow> string list \<times> fsevents" where
  "fe_Consume f = (fe_paths f, f\<lparr>fe_stale := False, fe_paths := []\<rparr>)"

subsection \<open>Artifact paths\<close>

lemma es_pathWithin_child:
  "is_abs a \<Longrightarrow> clean a = a \<Longrightarrow> plain_comp b \<Longrightarrow> es_pathWithin a (join_path a b)"
  by (simp add: es_pathWithin_def join_path_within)

lemma es_randomHex_hex: "c \<in> set (es_randomHex r) \<Longrightarrow> lower_hex c"
  by (auto simp: es_randomHex_def hex_encode_lower split: option.splits)
     (simp add: lower_hex_def in_byte_range_def)

lemma artifact_id_chars: "c \<in> set (artifact_id r) \<Longrightarrow> c \<noteq> slash \<and> c \<noteq> CHR ''-''"
  by (auto simp: artifact_id_def slash_def dest!: es_randomHex_hex lower_hex_plain)

lemma artifact_name_plain: "plain_comp (artifact_name (artifact_id r) (digestBytes sys c))"
proof -
  have "slash \<notin> set (artifact_name (artifact_id r) (digestBytes sys c))"
    using artifact_id_chars [of slash r] hex_encode_lower [of slash "sy_sha sys c"] lower_hex_plain [of slash]
    by (auto simp: artifact_name_def digestBytes_def slash_def)
  then show ?thesis by (simp add: plain_comp_def artifact_name_def artifact_id_def)
qed

lemma artifact_name_inj:
  assumes "artifact_name (artifact_id r) d = artifact_name (artifact_id q) d'"
  shows "artifact_id r = artifact_id q"
proof -
  have "takeWhile (\<lambda>c. c \<noteq> CHR ''-'') (artifact_name (artifact_id x) e) = artifact_id x" for x e
    using artifact_id_chars by (simp add: artifact_name_def takeWhile_append2)
  then show ?thesis using assms by metis
qed

subsection \<open>Well-formed stores\<close>

text \<open>Run identifiers and artifact identifiers are distinct, the events of a run are numbered from one
  in the order they were written, every row belongs to a run, and the file of an artifact is named after
  it.\<close>

definition numbered :: "events_db \<Rightarrow> bool" where
  "numbered db \<longleftrightarrow> (\<forall>i. map ev_Sequence (events_of db i) = [1..int (length (events_of db i))])"

definition rows_owned :: "events_db \<Rightarrow> bool" where
  "rows_owned db \<longleftrightarrow>
     list_all (\<lambda>e. run_exists db (ev_RunID e)) (ed_events db)
     \<and> list_all (\<lambda>a. run_exists db (ar_RunID a)) (ed_artifacts db)
     \<and> list_all (\<lambda>c. run_exists db (ck_RunID c)) (ed_checkpoints db)"

definition artifact_ok :: "string \<Rightarrow> string artifact \<Rightarrow> bool" where
  "artifact_ok root a \<longleftrightarrow>
     (\<exists>sys r c. ar_ID a = artifact_id r \<and> ar_ContentDigest a = digestBytes sys c)
     \<and> ar_Path a = join_path root (artifact_name (ar_ID a) (ar_ContentDigest a))"

definition keys_distinct :: "events_db \<Rightarrow> bool" where
  "keys_distinct db \<longleftrightarrow> distinct (map er_ID (ed_runs db)) \<and> distinct (map ar_ID (ed_artifacts db))
     \<and> distinct (map ck_ID (ed_checkpoints db))"

definition store_wf :: "ev_store \<Rightarrow> bool" where
  "store_wf s \<longleftrightarrow> is_abs (es_root s) \<and> clean (es_root s) = es_root s \<and> keys_distinct (es_db s)
     \<and> numbered (es_db s) \<and> rows_owned (es_db s) \<and> (\<forall>a \<in> set (ed_artifacts (es_db s)). artifact_ok (es_root s) a)"

named_theorems ev_defs \<open>the components of a well-formed event store\<close>
lemmas [ev_defs] = store_wf_def keys_distinct_def rows_owned_def numbered_def

lemma run_exists_iff: "run_exists db i \<longleftrightarrow> i \<in> er_ID ` set (ed_runs db)"
  by (auto simp: run_exists_def list_ex_iff)

lemma run_exists_simps [simp]:
  "run_exists (db\<lparr>ed_events := es\<rparr>) i = run_exists db i"
  "run_exists (db\<lparr>ed_artifacts := as\<rparr>) i = run_exists db i"
  "run_exists (db\<lparr>ed_checkpoints := cs\<rparr>) i = run_exists db i"
  "run_exists (db\<lparr>ed_runs := ed_runs db @ [r]\<rparr>) i \<longleftrightarrow> run_exists db i \<or> i = er_ID r"
  by (auto simp: run_exists_def)

lemma events_of_simps [simp]:
  "events_of (db\<lparr>ed_runs := rs\<rparr>) i = events_of db i"
  "events_of (db\<lparr>ed_artifacts := as\<rparr>) i = events_of db i"
  "events_of (db\<lparr>ed_checkpoints := cs\<rparr>) i = events_of db i"
  "events_of (db\<lparr>ed_events := ed_events db @ [e]\<rparr>) i = events_of db i @ (if ev_RunID e = i then [e] else [])"
  by (simp_all add: events_of_def)

lemma map_ID_update:
  assumes "\<And>r. er_ID (f r) = er_ID r"
  shows "map er_ID (ed_runs (update_runs i f db)) = map er_ID (ed_runs db)"
  using assms by (simp add: update_runs_def)

lemma run_exists_update [simp]:
  assumes "\<And>r. er_ID (f r) = er_ID r"
  shows "run_exists (update_runs i f db) j = run_exists db j"
  using arg_cong [OF map_ID_update [of f i db, OF assms], of set] by (simp add: run_exists_iff)

lemma update_runs_other [simp]:
  "ed_events (update_runs i f db) = ed_events db" "ed_artifacts (update_runs i f db) = ed_artifacts db"
  "ed_checkpoints (update_runs i f db) = ed_checkpoints db" "events_of (update_runs i f db) j = events_of db j"
  by (simp_all add: update_runs_def events_of_def)

lemma foldl_max_int: "foldl max (a::int) xs = Max (insert a (set xs))"
proof (induction xs arbitrary: a)
  case (Cons x xs)
  have "Max (insert (max a x) (set xs)) = Max (insert a (insert x (set xs)))"
    by (cases "xs = []") (simp_all add: Max_insert max.assoc)
  then show ?case using Cons by simp
qed simp

lemma next_sequence_numbered:
  assumes "numbered db"
  shows "next_sequence db i = int (length (events_of db i)) + 1"
proof (cases "map ev_Sequence (events_of db i)")
  case Nil
  then show ?thesis by (simp add: next_sequence_def)
next
  case (Cons n ns)
  have "foldl max n ns = Max (set [1..int (length (events_of db i))])"
    using assms Cons by (simp add: foldl_max_int numbered_def)
  also have "\<dots> = int (length (events_of db i))"
    using Cons by (intro Max_eqI) (auto simp: Suc_le_eq)
  finally show ?thesis using Cons by (simp add: next_sequence_def)
qed

lemma upto_snoc_int: "[1..1 + int n] = [1..int n] @ [1 + int n]"
  using upto_rec2 [of 1 "1 + int n"] by simp

lemma numbered_append:
  assumes "numbered db" and "ev_Sequence e = next_sequence db (ev_RunID e)"
  shows "numbered (db\<lparr>ed_events := ed_events db @ [e]\<rparr>)"
  using assms next_sequence_numbered [OF assms(1)]
  by (auto simp: numbered_def upto_snoc_int add.commute)

lemma filter_run_events:
  "events_of (delete_run j db) i = (if i = j then [] else events_of db i)"
  by (auto simp: events_of_def delete_run_def intro!: filter_cong)

lemma numbered_delete: "numbered db \<Longrightarrow> numbered (delete_run j db)"
  by (simp add: numbered_def filter_run_events)

lemma run_exists_delete: "run_exists (delete_run j db) i \<longleftrightarrow> run_exists db i \<and> i \<noteq> j"
  by (auto simp: run_exists_iff delete_run_def)

lemma rows_owned_delete: "rows_owned db \<Longrightarrow> rows_owned (delete_run j db)"
  by (auto simp: rows_owned_def run_exists_delete list_all_iff) (auto simp: delete_run_def)

lemma keys_distinct_delete: "keys_distinct db \<Longrightarrow> keys_distinct (delete_run j db)"
  by (simp add: keys_distinct_def delete_run_def distinct_map_filter)

lemma exec_cases: "exec w f s = s \<or> exec w f s = s\<lparr>es_db := f (es_db s)\<rparr>"
  by (cases w) (simp_all add: exec_def)

lemma exec_wf:
  assumes "store_wf s" and "store_wf (s\<lparr>es_db := f (es_db s)\<rparr>)"
  shows "store_wf (exec w f s)"
  using assms exec_cases [of w f s] by (elim disjE) simp_all

lemma exec_fixed [simp]: "es_open (exec w f s) = es_open s" "es_root (exec w f s) = es_root s"
  "es_files (exec w f s) = es_files s"
  by (cases w; simp add: exec_def)+

lemma wf_files [simp]: "store_wf (s\<lparr>es_files := fs\<rparr>) = store_wf s"
  by (simp add: store_wf_def)

lemma wf_delete: "store_wf s \<Longrightarrow> store_wf (s\<lparr>es_db := delete_run j (es_db s)\<rparr>)"
  by (auto simp: store_wf_def keys_distinct_delete numbered_delete rows_owned_delete)
     (auto simp: delete_run_def)

lemma wf_update:
  assumes "store_wf s" and "\<And>r. er_ID (f r) = er_ID r"
  shows "store_wf (s\<lparr>es_db := update_runs i f (es_db s)\<rparr>)"
  using assms(1) map_ID_update [of f i "es_db s", OF assms(2)]
  by (simp add: ev_defs assms(2))

subsection \<open>Every operation keeps a store well-formed\<close>

datatype ev_op =
  Op_CreateRun ev_env "instant ev_run"
| Op_UpdateRunStatus ev_env string string
| Op_UpdateRunBinding ev_env string string string string
| Op_AppendEvent ev_env string string string
| Op_AddArtifact ev_env "string option" artifact_source string string string
| Op_SaveCheckpoint ev_env "instant checkpoint"
| Op_GC ev_env "string \<Rightarrow> bool" "string \<Rightarrow> write_outcome" "string \<Rightarrow> bool" instant int

fun ev_step :: "ev_sys \<Rightarrow> ev_store \<Rightarrow> ev_op \<Rightarrow> ev_store" where
  "ev_step sys s (Op_CreateRun e r) = snd (CreateRun sys e r s)"
| "ev_step sys s (Op_UpdateRunStatus e i st) = snd (UpdateRunStatus sys e i st s)"
| "ev_step sys s (Op_UpdateRunBinding e i c n p) = snd (UpdateRunBinding sys e i c n p s)"
| "ev_step sys s (Op_AppendEvent e i ty p) = snd (AppendEvent sys e i ty p s)"
| "ev_step sys s (Op_AddArtifact e rnd src i k p) = snd (AddArtifact sys e rnd src i k p s)"
| "ev_step sys s (Op_SaveCheckpoint e c) = snd (SaveCheckpoint sys e c s)"
| "ev_step sys s (Op_GC e rd wr rm b l) = snd (GC sys e rd wr rm b l s)"

lemma CreateRun_wf: "store_wf s \<Longrightarrow> store_wf (snd (CreateRun sys e r s))"
  by (auto simp: CreateRun_def intro!: exec_wf)
     (auto simp: ev_defs list_all_iff run_exists_iff run_row_def)

lemma exec_update_wf:
  assumes "store_wf s" and "\<And>r. er_ID (f r) = er_ID r"
  shows "store_wf (snd (exec_update e i f s))"
  using assms by (simp add: exec_update_def exec_wf wf_update)

lemma AppendEvent_wf: "store_wf s \<Longrightarrow> store_wf (snd (AppendEvent sys e i ty p s))"
  by (auto simp: AppendEvent_def Let_def intro!: exec_wf)
     (auto simp: store_wf_def keys_distinct_def rows_owned_def intro: numbered_append)

lemma AddArtifact_wf: "store_wf s \<Longrightarrow> store_wf (snd (AddArtifact sys e rnd src i k p s))"
  by (auto simp: AddArtifact_def Let_def intro!: exec_wf split: option.splits)
     (auto simp: ev_defs list_ex_iff artifact_ok_def)

lemma SaveCheckpoint_wf: "store_wf s \<Longrightarrow> store_wf (snd (SaveCheckpoint sys e c s))"
  by (auto simp: SaveCheckpoint_def intro!: exec_wf)
     (auto simp: ev_defs list_ex_iff checkpoint_row_def)

lemma remove_paths_fixed: "es_db (snd (remove_paths rm ps s)) = es_db s \<and> es_root (snd (remove_paths rm ps s)) = es_root s
   \<and> es_open (snd (remove_paths rm ps s)) = es_open s"
  by (induction rm ps s rule: remove_paths.induct) auto

lemma remove_paths_wf: "store_wf (snd (remove_paths rm ps s)) = store_wf s"
  using remove_paths_fixed [of rm ps s] by (simp add: store_wf_def)

lemma gc_loop_wf: "store_wf s \<Longrightarrow> store_wf (snd (gc_loop rd wr rm is d s))"
proof (induction rd wr rm "is" d s rule: gc_loop.induct)
  case (2 rd wr rm i "is" d s)
  let ?ps = "map ar_Path (filter (\<lambda>a. ar_RunID a = i) (ed_artifacts (es_db s)))"
  have "store_wf (exec (wr i) (delete_run i) s)" using 2 by (simp add: exec_wf wf_delete)
  then show ?case
    using 2 remove_paths_wf [of rm ?ps "exec (wr i) (delete_run i) s"]
    by (cases "remove_paths rm ?ps (exec (wr i) (delete_run i) s)") (auto simp: Let_def split: bool.splits)
qed simp

lemma ev_step_wf: "store_wf s \<Longrightarrow> store_wf (ev_step sys s op)"
  by (cases op) (simp_all add: CreateRun_wf AppendEvent_wf AddArtifact_wf SaveCheckpoint_wf
     UpdateRunStatus_def UpdateRunBinding_def GC_def gc_loop_wf exec_update_wf)

lemma ev_steps_wf: "store_wf s \<Longrightarrow> store_wf (foldl (ev_step sys) s ops)"
  by (rule foldl_invariant [where P = store_wf]) (simp_all add: ev_step_wf)

subsection \<open>A run that is not finished\<close>

definition unfinished :: "string \<Rightarrow> bool" where
  "unfinished st \<longleftrightarrow> \<not> (st = ''completed'' \<or> st = ''failed'' \<or> st = ''stopped'')"

definition live_run :: "events_db \<Rightarrow> string \<Rightarrow> bool" where
  "live_run db i \<longleftrightarrow> list_ex (\<lambda>r. er_ID r = i \<and> unfinished (er_Status r)) (ed_runs db)"

text \<open>What an operation leaves of run \<open>i\<close> and of the artifact \<open>a\<close>.\<close>

definition keeps_run :: "string \<Rightarrow> ev_store \<Rightarrow> ev_store \<Rightarrow> bool" where
  "keeps_run i s s' \<longleftrightarrow> live_run (es_db s') i \<and> prefix (events_of (es_db s) i) (events_of (es_db s') i)
     \<and> set (filter (\<lambda>a. ar_RunID a = i) (ed_artifacts (es_db s))) \<subseteq> set (ed_artifacts (es_db s'))
     \<and> set (filter (\<lambda>c. ck_RunID c = i) (ed_checkpoints (es_db s))) \<subseteq> set (ed_checkpoints (es_db s'))
     \<and> es_open s' = es_open s \<and> es_root s' = es_root s"

definition keeps_file :: "string artifact \<Rightarrow> ev_store \<Rightarrow> ev_store \<Rightarrow> bool" where
  "keeps_file a s s' \<longleftrightarrow> map_of (es_files s') (ar_Path a) = map_of (es_files s) (ar_Path a)"

lemma keeps_run_refl: "live_run (es_db s) i \<Longrightarrow> keeps_run i s s"
  by (auto simp: keeps_run_def)

lemma keeps_run_trans: "keeps_run i s t \<Longrightarrow> keeps_run i t u \<Longrightarrow> keeps_run i s u"
  unfolding keeps_run_def by (auto intro: prefix_order.trans)

lemma keeps_run_files [simp]: "keeps_run i s (t\<lparr>es_files := fs\<rparr>) = keeps_run i s t"
  "keeps_run i (s\<lparr>es_files := fs\<rparr>) t = keeps_run i s t"
  by (simp_all add: keeps_run_def)

lemma live_run_simps [simp]:
  "live_run (db\<lparr>ed_events := es\<rparr>) i = live_run db i"
  "live_run (db\<lparr>ed_artifacts := as\<rparr>) i = live_run db i"
  "live_run (db\<lparr>ed_checkpoints := cs\<rparr>) i = live_run db i"
  "live_run db i \<Longrightarrow> live_run (db\<lparr>ed_runs := ed_runs db @ rs\<rparr>) i"
  by (simp_all add: live_run_def)

lemma exec_keeps:
  assumes "live_run (es_db s) i" and "keeps_run i s (s\<lparr>es_db := f (es_db s)\<rparr>)"
  shows "keeps_run i s (exec w f s)"
  using assms keeps_run_refl exec_cases [of w f s] by metis

lemma update_keeps:
  assumes "live_run (es_db s) i" and "\<And>r. er_ID (f r) = er_ID r"
    and "i = j \<Longrightarrow> (\<And>r. unfinished (er_Status r) \<Longrightarrow> unfinished (er_Status (f r)))"
  shows "keeps_run i s (snd (exec_update e j f s))"
  unfolding exec_update_def snd_conv
proof (rule exec_keeps [OF assms(1)])
  obtain r where r: "r \<in> set (ed_runs (es_db s))" "er_ID r = i" "unfinished (er_Status r)"
    using assms(1) by (auto simp: live_run_def list_ex_iff)
  let ?r = "if er_ID r = j then f r else r"
  have "?r \<in> set (ed_runs (update_runs j f (es_db s)))" using r(1) by (auto simp: update_runs_def)
  moreover have "er_ID ?r = i \<and> unfinished (er_Status ?r)" using r assms(2,3) by auto
  ultimately have "live_run (update_runs j f (es_db s)) i" unfolding live_run_def list_ex_iff by blast
  then show "keeps_run i s (s\<lparr>es_db := update_runs j f (es_db s)\<rparr>)" by (auto simp: keeps_run_def)
qed

lemma delete_keeps:
  assumes "live_run (es_db s) i" and "i \<noteq> j"
  shows "keeps_run i s (s\<lparr>es_db := delete_run j (es_db s)\<rparr>)"
  using assms by (auto simp: keeps_run_def filter_run_events live_run_def list_ex_iff)
     (auto simp: delete_run_def)

lemma artifact_paths_differ:
  assumes "store_wf s" and "a \<in> set (ed_artifacts (es_db s))" and "b \<in> set (ed_artifacts (es_db s))"
    and "ar_RunID a \<noteq> ar_RunID b"
  shows "ar_Path a \<noteq> ar_Path b"
proof
  assume eq: "ar_Path a = ar_Path b"
  have "artifact_ok (es_root s) a" "artifact_ok (es_root s) b" and abs: "is_abs (es_root s)"
    using assms by (auto simp: store_wf_def)
  then obtain sa ra ca sb rb cb where
    a: "ar_ID a = artifact_id ra" "ar_ContentDigest a = digestBytes sa ca"
       "ar_Path a = join_path (es_root s) (artifact_name (ar_ID a) (ar_ContentDigest a))" and
    b: "ar_ID b = artifact_id rb" "ar_ContentDigest b = digestBytes sb cb"
       "ar_Path b = join_path (es_root s) (artifact_name (ar_ID b) (ar_ContentDigest b))"
    unfolding artifact_ok_def by auto
  have "artifact_name (ar_ID a) (ar_ContentDigest a) = artifact_name (ar_ID b) (ar_ContentDigest b)"
    using eq a b join_path_inj [OF abs artifact_name_plain artifact_name_plain] by metis
  then have "ar_ID a = ar_ID b" using a b artifact_name_inj by metis
  moreover have "distinct (map ar_ID (ed_artifacts (es_db s)))"
    using assms(1) by (simp add: store_wf_def keys_distinct_def)
  ultimately have "a = b" using assms(2,3) by (metis inj_on_def distinct_map)
  then show False using assms(4) by simp
qed

lemma remove_paths_file:
  "p \<notin> set ps \<Longrightarrow> map_of (es_files (snd (remove_paths rm ps s))) p = map_of (es_files s) p"
  by (induction rm ps s rule: remove_paths.induct) (auto simp: delete_conv')

lemma remove_paths_keeps: "keeps_run i s (snd (remove_paths rm ps t)) = keeps_run i s t"
  using remove_paths_fixed [of rm ps t] by (simp add: keeps_run_def)

lemma gc_loop_keeps:
  assumes "store_wf s" and "live_run (es_db s) i" and "i \<notin> set is"
  shows "keeps_run i s (snd (gc_loop rd wr rm is d s))
    \<and> (\<forall>a \<in> set (ed_artifacts (es_db s)). ar_RunID a = i \<longrightarrow> keeps_file a s (snd (gc_loop rd wr rm is d s)))"
  using assms
proof (induction rd wr rm "is" d s rule: gc_loop.induct)
  case (1 rd wr rm d s)
  then show ?case by (simp add: keeps_run_refl keeps_file_def)
next
  case (2 rd wr rm j "is" d s)
  let ?ps = "map ar_Path (filter (\<lambda>a. ar_RunID a = j) (ed_artifacts (es_db s)))"
  let ?s1 = "exec (wr j) (delete_run j) s"
  let ?s2 = "snd (remove_paths rm ?ps ?s1)"
  have wf1: "store_wf ?s1" using 2 by (simp add: exec_wf wf_delete)
  have k1: "keeps_run i s ?s1" using 2 by (intro exec_keeps delete_keeps) auto
  have k2: "keeps_run i s ?s2" using k1 by (simp add: remove_paths_keeps)
  have f2: "keeps_file a s ?s2" if "a \<in> set (ed_artifacts (es_db s))" "ar_RunID a = i" for a
  proof -
    have "ar_Path a \<notin> set ?ps" using artifact_paths_differ [OF 2(2)] that 2(4) by fastforce
    then show ?thesis by (simp add: keeps_file_def remove_paths_file)
  qed
  show ?case
  proof (cases "rd j \<and> wr j = W_Done")
    case False
    then show ?thesis using 2(3) k1 by (auto simp: Let_def keeps_run_refl keeps_file_def)
  next
    case True
    show ?thesis
    proof (cases "fst (remove_paths rm ?ps ?s1)")
      case False
      then show ?thesis using True k2 f2 by (cases "remove_paths rm ?ps ?s1") (auto simp: Let_def)
    next
      case okr: True
      let ?d = "d + (if run_exists (es_db s) j then 1 else 0)"
      have eq: "gc_loop rd wr rm (j # is) d s = gc_loop rd wr rm is ?d ?s2"
        using True okr by (cases "remove_paths rm ?ps ?s1") (simp add: Let_def)
      have IH: "keeps_run i ?s2 (snd (gc_loop rd wr rm is ?d ?s2))
        \<and> (\<forall>a \<in> set (ed_artifacts (es_db ?s2)). ar_RunID a = i
             \<longrightarrow> keeps_file a ?s2 (snd (gc_loop rd wr rm is ?d ?s2)))"
        using 2(1) [OF _ refl refl _ refl, of True ?s2] True okr wf1 k2 2(4)
        by (cases "remove_paths rm ?ps ?s1") (auto simp: keeps_run_def remove_paths_wf)
      have "keeps_file a ?s2 (snd (gc_loop rd wr rm is ?d ?s2))"
        if "a \<in> set (ed_artifacts (es_db s))" "ar_RunID a = i" for a
        using IH k2 that by (auto simp: keeps_run_def)
      then show ?thesis
        unfolding eq using keeps_run_trans [OF k2] IH f2 by (auto simp: keeps_file_def)
    qed
  qed
qed

lemma gc_ids_finished:
  assumes "keys_distinct db" and "live_run db i"
  shows "i \<notin> set (gc_ids b l db)"
proof
  assume "i \<in> set (gc_ids b l db)"
  then obtain r where r: "r \<in> set (ed_runs db)" "er_ID r = i" "collectable b r"
    by (auto simp: gc_ids_def dest!: in_set_takeD)
  obtain q where q: "q \<in> set (ed_runs db)" "er_ID q = i" "unfinished (er_Status q)"
    using assms(2) by (auto simp: live_run_def list_ex_iff)
  have "q = r" using assms(1) r q unfolding keys_distinct_def by (metis distinct_map inj_onD)
  then show False using r(3) q(3) by (auto simp: collectable_def unfinished_def)
qed

lemma AppendEvent_keeps: "live_run (es_db s) i \<Longrightarrow> keeps_run i s (snd (AppendEvent sys e j ty p s))"
  by (auto simp: AppendEvent_def Let_def keeps_run_refl intro!: exec_keeps)
     (auto simp: keeps_run_def)

lemma CreateRun_keeps: "live_run (es_db s) i \<Longrightarrow> keeps_run i s (snd (CreateRun sys e r s))"
  by (auto simp: CreateRun_def keeps_run_refl intro!: exec_keeps) (auto simp: keeps_run_def)

lemma SaveCheckpoint_keeps: "live_run (es_db s) i \<Longrightarrow> keeps_run i s (snd (SaveCheckpoint sys e c s))"
  by (auto simp: SaveCheckpoint_def keeps_run_refl intro!: exec_keeps) (auto simp: keeps_run_def)

lemma AddArtifact_keeps:
  assumes "live_run (es_db s) i"
  shows "keeps_run i s (snd (AddArtifact sys e rnd src j k p s))"
proof -
  have k: "keeps_run i s (exec w (\<lambda>db. db\<lparr>ed_artifacts := ed_artifacts db @ [a]\<rparr>) (s\<lparr>es_files := fs\<rparr>))" for w a fs
    using exec_keeps [of "s\<lparr>es_files := fs\<rparr>" i "\<lambda>db. db\<lparr>ed_artifacts := ed_artifacts db @ [a]\<rparr>" w] assms
    by (force simp: keeps_run_def)
  have r: "keeps_run i s (s\<lparr>es_files := fs\<rparr>)" for fs using assms by (simp add: keeps_run_refl)
  show ?thesis
    by (auto simp: AddArtifact_def Let_def keeps_run_refl assms k r split: option.splits)
qed

lemma AddArtifact_file:
  assumes "artifact_ok (es_root s) a" and "is_abs (es_root s)" and "ar_ID a \<noteq> artifact_id rnd"
  shows "keeps_file a s (snd (AddArtifact sys e rnd src j k p s))"
proof -
  obtain sa ra ca where a: "ar_ID a = artifact_id ra" "ar_ContentDigest a = digestBytes sa ca"
      "ar_Path a = join_path (es_root s) (artifact_name (ar_ID a) (ar_ContentDigest a))"
    using assms(1) by (auto simp: artifact_ok_def)
  have ne: "ar_Path a \<noteq> join_path (es_root s) (artifact_name (artifact_id rnd) (digestBytes sys c))" for c
    using a assms(3) join_path_inj [OF assms(2) artifact_name_plain artifact_name_plain] artifact_name_inj
    by metis
  then show ?thesis
    by (auto simp: ne AddArtifact_def Let_def keeps_file_def update_conv' delete_conv' split: option.splits)
qed

text \<open>An operation that leaves run \<open>i\<close> unfinished, and one that does not draw the identifier of an
  existing artifact again.\<close>

fun keeps_unfinished :: "string \<Rightarrow> ev_op \<Rightarrow> bool" where
  "keeps_unfinished i (Op_UpdateRunStatus e j st) \<longleftrightarrow> j = i \<longrightarrow> unfinished st"
| "keeps_unfinished i op \<longleftrightarrow> True"

fun fresh_artifact :: "string \<Rightarrow> ev_op \<Rightarrow> bool" where
  "fresh_artifact aid (Op_AddArtifact e rnd src i k p) \<longleftrightarrow> artifact_id rnd \<noteq> aid"
| "fresh_artifact aid op \<longleftrightarrow> True"

lemma ev_step_keeps:
  assumes "store_wf s" and "live_run (es_db s) i" and "keeps_unfinished i op"
  shows "keeps_run i s (ev_step sys s op)"
proof (cases op)
  case (Op_GC e rd wr rm b l)
  then show ?thesis
    using gc_loop_keeps [OF assms(1,2) gc_ids_finished] assms
    by (auto simp: GC_def keeps_run_refl store_wf_def)
next
  case (Op_UpdateRunStatus e j st)
  then show ?thesis using assms by (auto simp: UpdateRunStatus_def keeps_run_refl intro!: update_keeps)
next
  case (Op_UpdateRunBinding e j c n p)
  then show ?thesis using assms by (auto simp: UpdateRunBinding_def keeps_run_refl intro!: update_keeps)
qed (simp_all add: assms AppendEvent_keeps CreateRun_keeps SaveCheckpoint_keeps AddArtifact_keeps)

lemma exec_files: "keeps_file a s (exec w f s)" by (simp add: keeps_file_def)

lemma ev_step_file:
  assumes "store_wf s" and "a \<in> set (ed_artifacts (es_db s))" and "live_run (es_db s) (ar_RunID a)"
    and "fresh_artifact (ar_ID a) op"
  shows "keeps_file a s (ev_step sys s op)"
proof (cases op)
  case (Op_GC e rd wr rm b l)
  then show ?thesis
    using gc_loop_keeps [OF assms(1,3) gc_ids_finished] assms
    by (auto simp: GC_def store_wf_def) (auto simp: keeps_file_def)
next
  case (Op_AddArtifact e rnd src i k p)
  then show ?thesis using assms by (auto simp: store_wf_def intro!: AddArtifact_file)
qed (simp_all add: CreateRun_def UpdateRunStatus_def UpdateRunBinding_def AppendEvent_def SaveCheckpoint_def
      exec_update_def Let_def keeps_file_def)

lemma ev_steps_keep:
  assumes "store_wf s" and "live_run (es_db s) i" and "list_all (keeps_unfinished i) ops"
  shows "keeps_run i s (foldl (ev_step sys) s ops)"
  using assms
proof (induction ops arbitrary: s)
  case (Cons op ops)
  have k: "keeps_run i s (ev_step sys s op)" using Cons.prems by (simp add: ev_step_keeps)
  moreover have "keeps_run i (ev_step sys s op) (foldl (ev_step sys) (ev_step sys s op) ops)"
    using Cons k by (simp add: ev_step_wf keeps_run_def)
  ultimately show ?case using keeps_run_trans by simp
qed (simp add: keeps_run_refl)

lemma ev_steps_file:
  assumes "store_wf s" and "a \<in> set (ed_artifacts (es_db s))" and "live_run (es_db s) (ar_RunID a)"
    and "list_all (keeps_unfinished (ar_RunID a)) ops" and "list_all (fresh_artifact (ar_ID a)) ops"
  shows "keeps_file a s (foldl (ev_step sys) s ops)"
  using assms
proof (induction ops arbitrary: s)
  case (Cons op ops)
  have k: "keeps_run (ar_RunID a) s (ev_step sys s op)" using Cons.prems by (simp add: ev_step_keeps)
  then have "a \<in> set (ed_artifacts (es_db (ev_step sys s op)))" and "live_run (es_db (ev_step sys s op)) (ar_RunID a)"
    using Cons.prems(2) by (auto simp: keeps_run_def)
  then have "keeps_file a (ev_step sys s op) (foldl (ev_step sys) (ev_step sys s op) ops)"
    using Cons by (simp add: ev_step_wf)
  moreover have "keeps_file a s (ev_step sys s op)" using Cons.prems by (simp add: ev_step_file)
  ultimately show ?case by (simp add: keeps_file_def)
qed (simp add: keeps_file_def)

subsection \<open>The log of a run\<close>

lemma is_abs_clean: "is_abs (clean p)" if "is_abs p"
  using that by (simp add: clean_abs) (simp add: is_abs_def)

lemma dir_name_abs:
  assumes "is_abs p" shows "is_abs (dir_name p) \<and> clean (dir_name p) = dir_name p"
proof -
  let ?q = "rev (dropWhile (\<lambda>c. c \<noteq> slash) (rev p))"
  obtain q where p: "p = slash # q" using assms by (cases p) (auto simp: is_abs_def)
  have "dropWhile (\<lambda>c. c \<noteq> slash) (rev p) \<noteq> []" by (simp add: p dropWhile_eq_Nil_conv)
  moreover have "last (dropWhile (\<lambda>c. c \<noteq> slash) (rev p)) = slash"
    using calculation p last_appendR [of "dropWhile (\<lambda>c. c \<noteq> slash) (rev p)" "takeWhile (\<lambda>c. c \<noteq> slash) (rev p)"]
    by (metis takeWhile_dropWhile_id last_appendR last_rev list.sel(1))
  ultimately have "is_abs ?q" by (simp add: is_abs_def hd_rev)
  then show ?thesis by (simp add: dir_name_def is_abs_clean clean_idem_abs)
qed

lemma es_Open_wf: "es_Open io p None files = Inr s \<Longrightarrow> store_wf s"
  using dir_name_abs [of p]
  by (auto simp: es_Open_def ev_defs empty_events_db_def events_of_def split: if_splits)

definition sample_sys :: ev_sys where
  "sample_sys = \<lparr>sy_show = (\<lambda>t. digits_of (nat t)), sy_read = (\<lambda>t. map_option int (parse_nat t)),
     sy_json = (\<lambda>_. True), sy_sha = take 1\<rparr>"

definition good_env :: "instant \<Rightarrow> ev_env" where
  "good_env t = \<lparr>ee_Ctx = Ctx_Live, ee_Now = t, ee_Begin = True, ee_Read = (\<lambda>_. True), ee_Write = W_Done\<rparr>"

definition sample_run :: "string \<Rightarrow> string \<Rightarrow> instant ev_run" where
  "sample_run i st =
     \<lparr>er_ID = i, er_TaskID = ''task'', er_RepositoryID = replicate 64 CHR ''a'', er_GenerationID = ''gen'',
      er_EnvironmentID = ''env'', er_PolicyVersion = ''pol'', er_CandidateSnapshot = replicate 64 CHR ''b'',
      er_Status = st, er_CreatedAt = 1, er_UpdatedAt = 1\<rparr>"

definition sample_store :: ev_store where
  "sample_store = projr (es_Open (\<lambda>_. True) ''/s/events.db'' None [])"

definition sample_ops1 :: "ev_op list" where
  "sample_ops1 = [Op_CreateRun (good_env 1) (sample_run ''r1'' ''running''),
     Op_CreateRun (good_env 1) (sample_run ''r0'' ''failed''),
     Op_AppendEvent (good_env 2) ''r1'' ''loop.state'' ''x'']"

definition sample_ops2 :: "ev_op list" where
  "sample_ops2 = [Op_AppendEvent (good_env 3) ''r0'' ''loop.state'' ''y'',
     Op_AppendEvent (good_env 3) ''r1'' ''loop.state'' ''z'',
     Op_GC (good_env 9) (\<lambda>_. True) (\<lambda>_. W_Done) (\<lambda>_. True) 9 10]"

lemma sample_store_open: "es_Open (\<lambda>_. True) ''/s/events.db'' None [] = Inr sample_store"
proof -
  have "is_ok (es_Open (\<lambda>_. True) ''/s/events.db'' None [])" by code_simp
  then show ?thesis by (auto simp: sample_store_def is_ok_iff)
qed

text \<open>C19: The log of a run only grows. From an empty store, under any sequence of operations, the events
  of a run are numbered \<open>1..n\<close> in the order they were written; and as long as the run is not set to a
  finished status, no operation, collection of finished runs included, drops or changes an event of
  it, or a checkpoint.\<close>

theorem run_log_append_only:
  assumes "es_Open io p None files = Inr s0" and "s1 = foldl (ev_step sys) s0 ops1"
    and "live_run (es_db s1) i" and "list_all (keeps_unfinished i) ops2"
    and "s2 = foldl (ev_step sys) s1 ops2"
  shows "map ev_Sequence (events_of (es_db s2) i) = [1..int (length (events_of (es_db s2) i))]
    \<and> prefix (events_of (es_db s1) i) (events_of (es_db s2) i)
    \<and> set (filter (\<lambda>c. ck_RunID c = i) (ed_checkpoints (es_db s1))) \<subseteq> set (ed_checkpoints (es_db s2))
    \<and> live_run (es_db s2) i"
proof -
  have wf: "store_wf s1" using assms(1,2) es_Open_wf ev_steps_wf by blast
  then have "store_wf s2" using assms(5) ev_steps_wf by blast
  then have "numbered (es_db s2)" by (simp add: store_wf_def)
  moreover have "keeps_run i s1 s2" using ev_steps_keep [OF wf assms(3,4)] assms(5) by simp
  ultimately show ?thesis by (auto simp: keeps_run_def numbered_def)
qed

theorem run_log_append_only_witness:
  "map ev_Sequence (events_of (es_db (foldl (ev_step sample_sys) (foldl (ev_step sample_sys) sample_store sample_ops1) sample_ops2)) ''r1'')
     = [1..2]
   \<and> map er_ID (ed_runs (es_db (foldl (ev_step sample_sys) (foldl (ev_step sample_sys) sample_store sample_ops1) sample_ops2)))
     = [''r1'']"
proof -
  let ?s1 = "foldl (ev_step sample_sys) sample_store sample_ops1"
  let ?s2 = "foldl (ev_step sample_sys) ?s1 sample_ops2"
  have live: "live_run (es_db ?s1) ''r1''" by code_simp
  have k: "list_all (keeps_unfinished ''r1'') sample_ops2" by code_simp
  have "length (events_of (es_db ?s2) ''r1'') = 2" by code_simp
  moreover have "map er_ID (ed_runs (es_db ?s2)) = [''r1'']" by code_simp
  ultimately show ?thesis
    using run_log_append_only [OF sample_store_open refl live k refl] by simp
qed

subsection \<open>Artifacts\<close>

lemma AddArtifact_ok:
  assumes "fst (AddArtifact sys e rnd src i kind p s) = Inr a" and "run_exists (es_db s) i"
  defines "s' \<equiv> snd (AddArtifact sys e rnd src i kind p s)"
  shows "\<exists>c1 c2. as_Digest_read src = Some c1 \<and> as_Copy_read src = Some c2
    \<and> ar_ID a = artifact_id rnd \<and> es_open s'
    \<and> (\<exists>row \<in> set (ed_artifacts (es_db s')). ar_ID row = artifact_id rnd \<and> ar_RunID row = i
         \<and> ar_ContentDigest row = digestBytes sys c1 \<and> ar_Size row = int (length c1)
         \<and> ar_Path row = join_path (es_root s) (artifact_name (artifact_id rnd) (digestBytes sys c1))
         \<and> map_of (es_files s') (ar_Path row) = Some c2)"
  using assms(1,2) unfolding s'_def
  by (auto simp: AddArtifact_def Let_def exec_def update_conv' split: option.splits if_splits)

lemma artifact_id_opaque: "r = Some b \<Longrightarrow> length b = 16 \<Longrightarrow> es_validOpaque (artifact_id r)"
proof -
  assume r: "r = Some b" "length b = 16"
  have hex: "lower_hex c" if "c \<in> set (es_randomHex r)" for c using that es_randomHex_hex by blast
  have "\<not> (lower_hex NUL \<or> lower_hex CR \<or> lower_hex LF \<or> lower_hex slash \<or> lower_hex CHR 0x5C)" by code_simp
  then have "set (es_randomHex r) \<inter> set (control_chars @ [slash, CHR 0x5C]) = {}"
    using hex by (auto simp: control_chars_def)
  moreover have "set ''artifact_'' \<inter> set (control_chars @ [slash, CHR 0x5C]) = {}"
    by (simp add: control_chars_def ctrl_defs slash_def)
  moreover have "length (artifact_id r) = 41" using r by (simp add: artifact_id_def es_randomHex_def)
  ultimately show ?thesis
    unfolding es_validOpaque_def contains_any_iff artifact_id_def by auto
qed

lemma find_by_ID:
  assumes "distinct (map ar_ID as)" and "a \<in> set as"
  shows "find (\<lambda>b. ar_ID b = ar_ID a) as = Some a"
  using assms by (induction as) auto

lemma ReadArtifact_row:
  assumes "store_wf s" and "a \<in> set (ed_artifacts (es_db s))" and "es_open s" and "es_validOpaque (ar_ID a)"
    and "ee_Ctx e \<noteq> Ctx_Nil" and "ee_Read e 0" and "map_of (es_files s) (ar_Path a) = Some c"
  shows "ReadArtifact sys e (ar_ID a) s
    = (if int (length c) = ar_Size a \<and> digestBytes sys c = ar_ContentDigest a then Inr c else Inl EV_ErrRejected)"
proof -
  have "artifact_ok (es_root s) a" and root: "is_abs (es_root s)" "clean (es_root s) = es_root s"
    using assms(1,2) by (auto simp: store_wf_def)
  then obtain sa ra ca where "ar_ID a = artifact_id ra" "ar_ContentDigest a = digestBytes sa ca"
      "ar_Path a = join_path (es_root s) (artifact_name (ar_ID a) (ar_ContentDigest a))"
    by (auto simp: artifact_ok_def)
  then have "es_pathWithin (es_root s) (ar_Path a)"
    using es_pathWithin_child [OF root artifact_name_plain] by metis
  moreover have "find (\<lambda>b. ar_ID b = ar_ID a) (ed_artifacts (es_db s)) = Some a"
    using assms(1,2) by (intro find_by_ID) (simp_all add: store_wf_def keys_distinct_def)
  ultimately show ?thesis using assms(3-7) by (auto simp: ReadArtifact_def)
qed

text \<open>An artifact is read back as it was stored. When \<open>AddArtifact\<close> answers for an existing run, then
  after any further operations that leave the run unfinished and draw other identifiers,
  \<open>ReadArtifact\<close> returns the bytes that were copied, provided they are the bytes that were digested;
  when the file changed between the two passes it returns an error, or bytes with the recorded digest
  and size.\<close>

theorem artifact_roundtrip:
  assumes "es_Open io p None files = Inr s0" and "s1 = foldl (ev_step sys) s0 ops1" and "live_run (es_db s1) i"
    and "AddArtifact sys e rnd src i kind path s1 = (Inr a, s2)" and "rnd = Some b" and "length b = 16"
    and "list_all (keeps_unfinished i) ops2" and "list_all (fresh_artifact (ar_ID a)) ops2"
    and "s3 = foldl (ev_step sys) s2 ops2" and "ee_Ctx e' \<noteq> Ctx_Nil" and "ee_Read e' 0"
  shows "\<exists>c1 c2. as_Digest_read src = Some c1 \<and> as_Copy_read src = Some c2
    \<and> ReadArtifact sys e' (ar_ID a) s3
       = (if length c2 = length c1 \<and> digestBytes sys c2 = digestBytes sys c1 then Inr c2 else Inl EV_ErrRejected)"
proof -
  have wf1: "store_wf s1" using assms(1,2) es_Open_wf ev_steps_wf by blast
  have ex: "run_exists (es_db s1) i" using assms(3) by (auto simp: live_run_def run_exists_def list_ex_iff)
  have s2: "s2 = snd (AddArtifact sys e rnd src i kind path s1)" using assms(4) by simp
  have wf2: "store_wf s2" unfolding s2 using wf1 by (rule AddArtifact_wf)
  obtain c1 c2 row where c: "as_Digest_read src = Some c1" "as_Copy_read src = Some c2" "ar_ID a = artifact_id rnd"
      "es_open s2" and row: "row \<in> set (ed_artifacts (es_db s2))" "ar_ID row = ar_ID a" "ar_RunID row = i"
      "ar_ContentDigest row = digestBytes sys c1" "ar_Size row = int (length c1)"
      "map_of (es_files s2) (ar_Path row) = Some c2"
    using AddArtifact_ok [of sys e rnd src i kind path s1 a] assms(4) ex by auto
  have live2: "live_run (es_db s2) i"
    using AddArtifact_keeps [OF assms(3)] unfolding s2 by (auto simp: keeps_run_def)
  have k: "keeps_run i s2 s3" unfolding assms(9) by (rule ev_steps_keep [OF wf2 live2 assms(7)])
  have "keeps_file row s2 s3"
    unfolding assms(9) using ev_steps_file [OF wf2 row(1)] row(2,3) live2 assms(7,8) by simp
  then have "map_of (es_files s3) (ar_Path row) = Some c2" using row(6) by (simp add: keeps_file_def)
  moreover have "row \<in> set (ed_artifacts (es_db s3))" and "es_open s3" using k row c(4) by (auto simp: keeps_run_def)
  moreover have "store_wf s3" unfolding assms(9) using wf2 by (rule ev_steps_wf)
  moreover have "es_validOpaque (ar_ID row)" using artifact_id_opaque assms(5,6) c(3) row(2) by simp
  ultimately show ?thesis
    using ReadArtifact_row [of s3 row e' c2 sys] assms(10,11) c row by (auto simp: zless_nat_eq_int_zless)
qed

definition sample_source :: artifact_source where
  "sample_source = \<lparr>as_Lstat = Some 2, as_Digest_read = Some ''ok'', as_Copy_read = Some ''ok''\<rparr>"

definition sample_added :: "(ev_error + instant artifact) \<times> ev_store" where
  "sample_added = AddArtifact sample_sys (good_env 5) (Some (replicate 16 CHR ''q'')) sample_source ''r1'' ''log'' ''/x''
     (foldl (ev_step sample_sys) sample_store sample_ops1)"

theorem artifact_roundtrip_witness:
  "ReadArtifact sample_sys (good_env 7) (ar_ID (projr (fst sample_added)))
     (foldl (ev_step sample_sys) (snd sample_added) sample_ops2) = Inr ''ok''"
proof -
  have live: "live_run (es_db (foldl (ev_step sample_sys) sample_store sample_ops1)) ''r1''" by code_simp
  have "is_ok (fst sample_added)" by code_simp
  then have add: "AddArtifact sample_sys (good_env 5) (Some (replicate 16 CHR ''q'')) sample_source ''r1'' ''log'' ''/x''
      (foldl (ev_step sample_sys) sample_store sample_ops1) = (Inr (projr (fst sample_added)), snd sample_added)"
    unfolding sample_added_def [symmetric] by (metis is_ok_iff prod.collapse sum.sel(2))
  have k: "list_all (keeps_unfinished ''r1'') sample_ops2" by code_simp
  have f: "list_all (fresh_artifact (ar_ID (projr (fst sample_added)))) sample_ops2" by code_simp
  have ctx: "ee_Ctx (good_env 7) \<noteq> Ctx_Nil" "ee_Read (good_env 7) 0" by (simp_all add: good_env_def)
  show ?thesis
    using artifact_roundtrip [OF sample_store_open refl live add refl _ k f refl ctx]
    by (auto simp: sample_source_def)
qed

text \<open>A run that does not exist: the conditional insert writes no row and reports no error, so the call
  answers with an artifact that nobody can read, and leaves its file behind.\<close>

lemma AddArtifact_unknown_run:
  assumes "ee_Ctx e \<noteq> Ctx_Nil" and "ee_Write e = W_Done" and "es_open s" and "es_validOpaque i" and "es_validOpaque kind"
    and "is_abs path" and "as_Lstat src = Some n" and "n \<le> 1073741824" and "as_Digest_read src = Some c"
    and "as_Copy_read src = Some c" and "\<not> run_exists (es_db s) i"
  shows "is_ok (fst (AddArtifact sys e rnd src i kind path s))
    \<and> es_db (snd (AddArtifact sys e rnd src i kind path s)) = es_db s
    \<and> es_files (snd (AddArtifact sys e rnd src i kind path s))
        = AList.update (join_path (es_root s) (artifact_name (artifact_id rnd) (digestBytes sys c))) c (es_files s)"
  using assms by (auto simp: AddArtifact_def Let_def is_abs_def)

subsection \<open>The latest checkpoint\<close>

text \<open>RFC3339Nano text: the seconds, then the fraction without its trailing zeros, then \<open>Z\<close>. Text order
  is time order for fractions of equal length only: a checkpoint taken at a whole second comes after
  the one that follows it within that second.\<close>

definition pad9 :: "nat \<Rightarrow> string" where
  "pad9 n = replicate (9 - length (digits_of n)) CHR ''0'' @ digits_of n"

definition nano_suffix :: "nat \<Rightarrow> string" where
  "nano_suffix n =
    (if n = 0 then [] else CHR ''.'' # rev (dropWhile (\<lambda>c. c = CHR ''0'') (rev (pad9 n))))"

definition rfc3339nano :: "(int \<Rightarrow> string) \<Rightarrow> instant \<Rightarrow> string" where
  "rfc3339nano stamp t = stamp (t div second) @ nano_suffix (nat (t mod second)) @ ''Z''"

lemma text_order_prefix: "(w @ u < w @ v) \<longleftrightarrow> u < (v :: string)"
  by (induction w) simp_all

lemma whole_second_sorts_last:
  assumes "0 < n" and "n < 1000000000" and "t mod second = 0"
  shows "rfc3339nano stamp (t + n) < rfc3339nano stamp t"
proof -
  have s: "(t + n) div second = t div second" "(t + n) mod second = n"
    using assms by (simp_all add: second_def div_add1_eq mod_add_eq [symmetric] div_pos_pos_trivial)
  then show ?thesis
    using assms by (simp add: rfc3339nano_def text_order_prefix nano_suffix_def less_char_def)
qed

lemma LatestCheckpoint_misorders:
  assumes "ck_CreatedAt older = rfc3339nano stamp t" and "ck_CreatedAt newer = rfc3339nano stamp (t + n)"
    and "0 < n" and "n < 1000000000" and "t mod second = 0"
  shows "latest_row [older, newer] = Some older"
  using whole_second_sorts_last [OF assms(3-5), of stamp] assms(1,2)
  by (auto simp: latest_row_def)

end
