(* ===== verification/Paged_Log.thy ===== *)
theory Paged_Log
  imports RW_Prelude
begin

section \<open>Reading a log page by page\<close>

text \<open>
  A client that needs a whole log reads it in pages of a thousand and gives up after a number of pages
  (\<open>Controller.load\<close> in internal/loop/loop.go). The locale states what it relies on: the entries are
  numbered from one and a page is the next stretch of the log. The event store and the output of a
  process provide it.
\<close>

text \<open>One page: \<open>after\<close> becomes the number of the event being read, and the event is folded into the
  state; \<open>f\<close> refuses by \<open>None\<close>.\<close>

fun load_page :: "('e \<Rightarrow> int) \<Rightarrow> ('e \<Rightarrow> 'a \<Rightarrow> 'a option) \<Rightarrow> 'e list \<Rightarrow> int \<times> 'a \<Rightarrow> (int \<times> 'a) option" where
  "load_page seq f [] (after, st) = Some (after, st)"
| "load_page seq f (e # es) (after, st) =
    (case f e st of None \<Rightarrow> None | Some st' \<Rightarrow> load_page seq f es (seq e, st'))"

fun load_pages ::
  "(int \<Rightarrow> 'e list option) \<Rightarrow> ('e \<Rightarrow> int) \<Rightarrow> ('e \<Rightarrow> 'a \<Rightarrow> 'a option) \<Rightarrow> nat \<Rightarrow> int \<Rightarrow> 'a \<Rightarrow> 'a option" where
  "load_pages page seq f 0 after st = None"
| "load_pages page seq f (Suc n) after st =
    (case page after of
       None \<Rightarrow> None
     | Some es \<Rightarrow>
         (case load_page seq f es (after, st) of
            None \<Rightarrow> None
          | Some (after', st') \<Rightarrow>
              if length es < 1000 then Some st' else load_pages page seq f n after' st'))"

text \<open>The reference: the whole log folded at once.\<close>

fun fold_log :: "('e \<Rightarrow> 'a \<Rightarrow> 'a option) \<Rightarrow> 'e list \<Rightarrow> 'a \<Rightarrow> 'a option" where
  "fold_log f [] st = Some st"
| "fold_log f (e # es) st = (case f e st of None \<Rightarrow> None | Some st' \<Rightarrow> fold_log f es st')"

lemma fold_log_append: "fold_log f (es @ es') st
    = (case fold_log f es st of None \<Rightarrow> None | Some st' \<Rightarrow> fold_log f es' st')"
  by (induction es arbitrary: st) (auto split: option.split)

lemma load_page_fold: "load_page seq f es (after, st)
    = (case fold_log f es st of None \<Rightarrow> None
       | Some st' \<Rightarrow> Some (if es = [] then after else seq (last es), st'))"
  by (induction es arbitrary: after st) (auto split: option.split)

text \<open>What lies after entry \<open>k\<close> of a numbered log is the rest of the log.\<close>

lemma filter_after:
  "map f es = [1 + int m..int m + int (length es)] \<Longrightarrow> m \<le> k
     \<Longrightarrow> filter (\<lambda>e. int k < f e) es = drop (k - m) es"
proof (induction es arbitrary: m)
  case (Cons e es)
  have "[1 + int m..int m + int (length (e # es))] = (1 + int m) # [1 + int (Suc m)..int (Suc m) + int (length es)]"
    by (subst upto.simps) (simp add: add.commute add.left_commute)
  then have e: "f e = 1 + int m" and es: "map f es = [1 + int (Suc m)..int (Suc m) + int (length es)]"
    using Cons.prems(1) by auto
  show ?case
  proof (cases "m = k")
    case True
    have "\<forall>x \<in> set es. int k < f x"
    proof
      fix x assume "x \<in> set es"
      then have "f x \<in> set (map f es)" by simp
      then show "int k < f x" using es True by simp
    qed
    then show ?thesis using True e by simp
  next
    case False
    then show ?thesis using Cons.IH [OF es] Cons.prems(2) e by (simp add: Suc_diff_Suc [symmetric] Suc_le_eq)
  qed
qed simp

locale paged_log =
  fixes log :: "'s \<Rightarrow> 'e list" and page :: "'s \<Rightarrow> int \<Rightarrow> 'e list option" and seq :: "'e \<Rightarrow> int"
    and ok :: "'s \<Rightarrow> bool"
  assumes numbered: "ok s \<Longrightarrow> map seq (log s) = [1..int (length (log s))]"
    and paged: "ok s \<Longrightarrow> page s (int k) = Some (take 1000 (drop k (log s)))"
begin

lemma seq_last:
  assumes "ok s" and "k < length (log s)"
  shows "seq (last (take 1000 (drop k (log s)))) = int (min (k + 1000) (length (log s)))"
proof -
  let ?m = "min (k + 1000) (length (log s)) - 1"
  have "take 1000 (drop k (log s)) \<noteq> []" using assms(2) by simp
  then have "last (take 1000 (drop k (log s))) = log s ! (k + (min 1000 (length (log s) - k) - 1))"
    using assms(2) by (simp add: last_conv_nth min.commute)
  also have "k + (min 1000 (length (log s) - k) - 1) = ?m" using assms(2) by auto
  finally have "last (take 1000 (drop k (log s))) = log s ! ?m" .
  moreover have "seq (log s ! ?m) = map seq (log s) ! ?m" using assms(2) by (subst nth_map) auto
  moreover have "\<dots> = 1 + int ?m" using assms by (simp add: numbered nth_upto)
  ultimately show ?thesis using assms(2) by auto
qed

lemma load_pages_fold:
  assumes "ok s" and "k \<le> length (log s)"
  shows "load_pages (page s) seq f n (int k) st
    = (if length (log s) - k < 1000 * n then fold_log f (drop k (log s)) st else None)"
  using assms(2)
proof (induction n arbitrary: k st)
  case (Suc n)
  let ?es = "take 1000 (drop k (log s))"
  have split: "fold_log f (drop k (log s)) st
      = (case fold_log f ?es st of None \<Rightarrow> None | Some st' \<Rightarrow> fold_log f (drop (k + 1000) (log s)) st')"
  proof -
    have "?es @ drop (k + 1000) (log s) = drop k (log s)"
      using append_take_drop_id [of 1000 "drop k (log s)"] by (simp add: add.commute)
    then show ?thesis using fold_log_append [of f ?es "drop (k + 1000) (log s)" st] by simp
  qed
  show ?case
  proof (cases "fold_log f ?es st")
    case None
    then show ?thesis using split by (simp add: paged assms(1) load_page_fold)
  next
    case (Some st')
    show ?thesis
    proof (cases "length ?es < 1000")
      case True
      then show ?thesis using split Some by (auto simp: paged assms(1) load_page_fold)
    next
      case False
      then have "?es \<noteq> []" and k: "k + 1000 \<le> length (log s)" by auto
      then have "load_pages (page s) seq f (Suc n) (int k) st = load_pages (page s) seq f n (int (k + 1000)) st'"
        using seq_last [OF assms(1), of k] Some False by (simp add: paged assms(1) load_page_fold)
      then show ?thesis using Suc.IH [OF k, of st'] split Some k by auto
    qed
  qed
qed simp

text \<open>The log is folded whole when it is shorter than the pages allow, and refused otherwise.\<close>

lemma load_pages_log:
  "ok s \<Longrightarrow> load_pages (page s) seq f n 0 st = (if length (log s) < 1000 * n then fold_log f (log s) st else None)"
  using load_pages_fold [of s 0 f n st] by simp

end

end
