(* ===== verification/Event_Paging.thy ===== *)
theory Event_Paging
  imports Event_Store Paged_Log
begin

section \<open>The event store as a paged log\<close>

text \<open>The events of a run, listed in pages, satisfy the interface of \<open>Paged_Log\<close>.\<close>

definition readable :: "ev_sys \<Rightarrow> string \<Rightarrow> ev_store \<Rightarrow> bool" where
  "readable sys i s \<longleftrightarrow> list_all (\<lambda>r. sy_read sys (ev_CreatedAt r) \<noteq> None) (events_of (es_db s) i)"

definition log_of :: "ev_sys \<Rightarrow> string \<Rightarrow> ev_store \<Rightarrow> instant event list" where
  "log_of sys i s = map (the \<circ> scan_event sys) (events_of (es_db s) i)"

type_synonym log_view = "ev_sys \<times> ev_env \<times> string \<times> ev_store"

definition view_ok :: "log_view \<Rightarrow> bool" where
  "view_ok v = (case v of (sys, e, i, s) \<Rightarrow>
     store_wf s \<and> es_open s \<and> es_validOpaque i \<and> readable sys i s \<and> ee_Ctx e \<noteq> Ctx_Nil \<and> ee_Read e 0)"

definition view_log :: "log_view \<Rightarrow> instant event list" where
  "view_log v = (case v of (sys, e, i, s) \<Rightarrow> log_of sys i s)"

definition view_page :: "log_view \<Rightarrow> int \<Rightarrow> instant event list option" where
  "view_page v after = (case v of (sys, e, i, s) \<Rightarrow>
     (case ListEvents sys e i after 1000 s of Inl _ \<Rightarrow> None | Inr es \<Rightarrow> Some es))"

lemma scan_event_seq: "scan_event sys r \<noteq> None \<Longrightarrow> ev_Sequence (the (scan_event sys r)) = ev_Sequence r"
  by (auto simp: scan_event_def split: option.splits)

lemma scan_event_readable: "sy_read sys (ev_CreatedAt r) \<noteq> None \<longleftrightarrow> scan_event sys r \<noteq> None"
  by (auto simp: scan_event_def split: option.splits)

lemma scan_all_map: "list_all (\<lambda>r. f r \<noteq> None) rs \<Longrightarrow> scan_all f rs = Some (map (the \<circ> f) rs)"
  by (induction rs) auto

lemma sort_key_sorted: "sorted (map f xs) \<Longrightarrow> sort_key f xs = xs"
  by (induction xs) (auto simp: insort_is_Cons)

lemma page_rows_numbered:
  assumes "numbered db"
  shows "page_rows db i (int k) l = take (nat l) (drop k (events_of db i))"
proof -
  have "filter (\<lambda>e. int k < ev_Sequence e) (events_of db i) = drop k (events_of db i)"
    using assms filter_after [of ev_Sequence "events_of db i" 0 k] by (simp add: numbered_def)
  moreover have "sorted (map ev_Sequence (drop k (events_of db i)))"
    using assms by (simp add: numbered_def drop_map [symmetric] sorted_wrt_drop)
  ultimately show ?thesis by (simp add: page_rows_def sort_key_sorted)
qed

interpretation store_pages: paged_log view_log view_page ev_Sequence view_ok
proof unfold_locales
  fix v assume v: "view_ok v"
  obtain sys e i s where veq: "v = (sys, e, i, s)" by (cases v)
  have num: "numbered (es_db s)" and rd: "list_all (\<lambda>r. scan_event sys r \<noteq> None) (events_of (es_db s) i)"
    using v by (simp_all only: veq view_ok_def store_wf_def readable_def scan_event_readable prod.case)
  have "map ev_Sequence (log_of sys i s) = map ev_Sequence (events_of (es_db s) i)"
    using rd by (simp add: log_of_def list_all_iff scan_event_seq)
  also have "\<dots> = [1..int (length (log_of sys i s))]" using num by (simp add: log_of_def numbered_def)
  finally show "map ev_Sequence (view_log v) = [1..int (length (view_log v))]" by (simp add: veq view_log_def)
  fix k
  have "list_all (\<lambda>r. scan_event sys r \<noteq> None) (take 1000 (drop k (events_of (es_db s) i)))"
    using rd by (auto simp: list_all_iff dest: in_set_takeD in_set_dropD)
  then show "view_page v (int k) = Some (take 1000 (drop k (view_log v)))"
    using v by (simp add: veq view_page_def view_log_def view_ok_def ListEvents_def maxPageSize_def
        page_rows_numbered [OF num] scan_all_map log_of_def take_map drop_map)
qed

end
