(* ===== verification/Loop_Controller.thy ===== *)
theory Loop_Controller
  imports Event_Paging
begin

section \<open>The autonomous loop (internal/loop/loop.go)\<close>

text \<open>
  A persisted state machine: the model proposes, the authority executes, and every transition is an
  event of the run before the next one starts. The model and the authority are interfaces the
  application implements; they are parameters that act on a world of their own. JSON is the pair
  \<open>lv_Enc\<close>, \<open>lv_Dec\<close>. Each call of the event store has its own environment, numbered by the calls made
  so far, so a crash between a transition and its event is a write that fails. The trace records the
  calls of the authority and of the model with their outcomes; nothing reads it.

  The theory shows that a run always returns, that a completed run was verified after its last patch on
  the binding it is completed with, that an action that failed is not executed again, and that the
  state of a run survives its process as long as the binding does not move.
\<close>

subsection \<open>Data\<close>

datatype phase = Phase_Inspect | Phase_Hypothesis | Phase_Plan | Phase_Parallel | Phase_Patch
  | Phase_TargetedTest | Phase_DiagnoseRetry | Phase_FullVerify | Phase_Checkpoint | Phase_Completed
  | Phase_Failed | Phase_HumanCheckpoint | Phase_Unknown string

datatype err_kind = Err_Canceled | Err_Deadline | Err_Other

record go_error =
  ge_Kind :: err_kind
  ge_Text :: string

record binding =
  lb_RepositoryID :: string
  lb_CandidateSnapshot :: string
  lb_EnvironmentID :: string
  lb_PolicyVersion :: string

record action =
  ac_ID :: string
  ac_Kind :: string
  ac_Fingerprint :: string

record loop_plan =
  pn_Binding :: binding
  pn_Commands :: "action list"
  pn_Patch :: action
  pn_TargetedTest :: action
  pn_FullVerify :: action
  pn_Destructive :: bool
  pn_Ambiguous :: bool

record failure =
  lf_Phase :: phase
  lf_Action :: action
  lf_Class :: string
  lf_Diagnostic :: string

record loop_state =
  lo_Phase :: phase
  lo_Binding :: binding
  lo_Hypothesis :: string
  lo_Plan :: loop_plan
  lo_LastFailure :: failure
  lo_RetryCount :: int
  lo_FailedActions :: "string list"
  lo_CheckpointID :: string

datatype loop_error = LE_Rejected | LE_HumanCheckpoint | LE_RetryExhausted | LE_Context | LE_Load
  | LE_Cause go_error | LE_Store ev_error

definition zero_binding :: binding where
  "zero_binding = \<lparr>lb_RepositoryID = [], lb_CandidateSnapshot = [], lb_EnvironmentID = [], lb_PolicyVersion = []\<rparr>"

definition kind_action :: "string \<Rightarrow> action" where
  "kind_action k = \<lparr>ac_ID = [], ac_Kind = k, ac_Fingerprint = []\<rparr>"

definition zero_plan :: loop_plan where
  "zero_plan = \<lparr>pn_Binding = zero_binding, pn_Commands = [], pn_Patch = kind_action [], pn_TargetedTest = kind_action [],
     pn_FullVerify = kind_action [], pn_Destructive = False, pn_Ambiguous = False\<rparr>"

definition zero_failure :: failure where
  "zero_failure = \<lparr>lf_Phase = Phase_Unknown [], lf_Action = kind_action [], lf_Class = [], lf_Diagnostic = []\<rparr>"

text \<open>\<open>State{Phase: p, Binding: b}\<close>.\<close>

definition fresh_state :: "phase \<Rightarrow> binding \<Rightarrow> loop_state" where
  "fresh_state p b = \<lparr>lo_Phase = p, lo_Binding = b, lo_Hypothesis = [], lo_Plan = zero_plan,
     lo_LastFailure = zero_failure, lo_RetryCount = 0, lo_FailedActions = [], lo_CheckpointID = []\<rparr>"

definition zero_state :: loop_state where "zero_state = fresh_state (Phase_Unknown []) zero_binding"

record 'x loop_model =
  mo_Inspect :: "binding \<Rightarrow> 'x \<Rightarrow> (go_error + string) \<times> 'x"
  mo_Plan :: "binding \<Rightarrow> string \<Rightarrow> 'x \<Rightarrow> (go_error + loop_plan) \<times> 'x"
  mo_Diagnose :: "binding \<Rightarrow> failure \<Rightarrow> string list \<Rightarrow> 'x \<Rightarrow> (go_error + loop_plan) \<times> 'x"

text \<open>An authority may also implement \<open>BindingRefresher\<close>.\<close>

record 'x loop_authority =
  au_ParallelCommands :: "binding \<Rightarrow> action list \<Rightarrow> 'x \<Rightarrow> go_error option \<times> 'x"
  au_PatchCandidate :: "binding \<Rightarrow> action \<Rightarrow> 'x \<Rightarrow> go_error option \<times> 'x"
  au_TargetedTest :: "binding \<Rightarrow> action \<Rightarrow> 'x \<Rightarrow> go_error option \<times> 'x"
  au_FullVerify :: "binding \<Rightarrow> action \<Rightarrow> 'x \<Rightarrow> go_error option \<times> 'x"
  au_Checkpoint :: "binding \<Rightarrow> 'x \<Rightarrow> go_error option \<times> 'x"
  au_RefreshBinding :: "(binding \<Rightarrow> 'x \<Rightarrow> (go_error + binding) \<times> 'x) option"

record 'x loop_controller =
  lv_Sys :: ev_sys
  lv_Enc :: "loop_state \<Rightarrow> string"
  lv_Dec :: "string \<Rightarrow> loop_state option"
  lv_Env :: "nat \<Rightarrow> ev_env"
  lv_Ctx :: "'x \<Rightarrow> go_ctx"
  lv_Model :: "'x loop_model"
  lv_Authority :: "'x loop_authority"
  lv_MaxRetries :: int

datatype loop_call =
  Call_Parallel binding "action list" bool
| Call_Patch binding action bool
| Call_Refresh binding
| Call_TargetedTest binding action bool
| Call_FullVerify binding action bool
| Call_Checkpoint binding bool
| Call_Diagnose

record 'x loop_world =
  lw_store :: ev_store
  lw_ext :: 'x
  lw_ops :: nat
  lw_trace :: "loop_call list"

definition NewLoop :: "int \<Rightarrow> 'x loop_controller \<Rightarrow> 'x loop_controller option" where
  "NewLoop maxRetries c = (if maxRetries \<le> 0 \<or> 10 < maxRetries then None else Some (c\<lparr>lv_MaxRetries := maxRetries\<rparr>))"

subsection \<open>Validation\<close>

definition validBinding :: "binding \<Rightarrow> bool" where
  "validBinding b \<longleftrightarrow> lb_RepositoryID b \<noteq> [] \<and> lb_CandidateSnapshot b \<noteq> [] \<and> lb_EnvironmentID b \<noteq> []
     \<and> lb_PolicyVersion b \<noteq> []"

definition validAction :: "action \<Rightarrow> bool" where
  "validAction a \<longleftrightarrow> ac_ID a \<noteq> [] \<and> length (ac_ID a) \<le> 128 \<and> ac_Kind a \<noteq> [] \<and> length (ac_Kind a) \<le> 128
     \<and> ac_Fingerprint a \<noteq> [] \<and> length (ac_Fingerprint a) \<le> 128
     \<and> \<not> contains_any (ac_ID a @ ac_Kind a @ ac_Fingerprint a) control_chars"

definition validPlan :: "loop_plan \<Rightarrow> binding \<Rightarrow> bool" where
  "validPlan p b \<longleftrightarrow> pn_Binding p = b \<and> validAction (pn_Patch p) \<and> validAction (pn_TargetedTest p)
     \<and> validAction (pn_FullVerify p) \<and> pn_Commands p \<noteq> [] \<and> length (pn_Commands p) \<le> 64
     \<and> list_all validAction (pn_Commands p)"

definition firstAction :: "action list \<Rightarrow> string \<Rightarrow> action" where
  "firstAction as k = (case as of [] \<Rightarrow> kind_action k | a # _ \<Rightarrow> a)"

definition plan_actions :: "loop_plan \<Rightarrow> action list" where
  "plan_actions p = pn_Commands p @ [pn_Patch p, pn_TargetedTest p, pn_FullVerify p]"

definition repeatedPlan :: "loop_plan \<Rightarrow> string list \<Rightarrow> bool" where
  "repeatedPlan p failed = list_ex (\<lambda>a. ac_Fingerprint a \<in> set failed) (plan_actions p)"

definition classify :: "go_error \<Rightarrow> string" where
  "classify e = (case ge_Kind e of Err_Canceled \<Rightarrow> ''canceled'' | Err_Deadline \<Rightarrow> ''timeout'' | Err_Other \<Rightarrow> ''execution'')"

definition safeDiagnostic :: "go_error option \<Rightarrow> string" where
  "safeDiagnostic e = (case e of None \<Rightarrow> [] | Some x \<Rightarrow> take 1024 (ge_Text x))"

definition digestState :: "'x loop_controller \<Rightarrow> loop_state \<Rightarrow> string" where
  "digestState c st = hex_encode (sy_sha (lv_Sys c) (lv_Enc c st))"

definition terminalError :: "loop_state \<Rightarrow> loop_error option" where
  "terminalError st = (case lo_Phase st of Phase_Completed \<Rightarrow> None | Phase_HumanCheckpoint \<Rightarrow> Some LE_HumanCheckpoint
     | Phase_Failed \<Rightarrow> Some LE_RetryExhausted | _ \<Rightarrow> Some LE_Rejected)"

subsection \<open>Persistence\<close>

definition store_env :: "'x loop_controller \<Rightarrow> 'x loop_world \<Rightarrow> ev_env" where
  "store_env c w = lv_Env c (lw_ops w)"

definition store_result :: "'x loop_world \<Rightarrow> ev_store \<Rightarrow> 'x loop_world" where
  "store_result w s = w\<lparr>lw_store := s, lw_ops := lw_ops w + 1\<rparr>"

definition loop_state_type :: string where "loop_state_type = ''loop.state''"

definition loop_persist :: "'x loop_controller \<Rightarrow> string \<Rightarrow> loop_state \<Rightarrow> 'x loop_world \<Rightarrow> loop_error option \<times> 'x loop_world" where
  "loop_persist c i st w =
    (case AppendEvent (lv_Sys c) (store_env c w) i loop_state_type (lv_Enc c st) (lw_store w) of
       (Inl e, s) \<Rightarrow> (Some (LE_Store e), store_result w s)
     | (Inr _, s) \<Rightarrow> (None, store_result w s))"

text \<open>\<open>load\<close> folds the events of the run; the pages share one environment, as any page that fails makes
  it fail.\<close>

definition load_event :: "'x loop_controller \<Rightarrow> binding \<Rightarrow> instant event \<Rightarrow> loop_state \<Rightarrow> loop_state option" where
  "load_event c b ev st =
    (if ev_Type ev \<noteq> loop_state_type then Some st
     else (case lv_Dec c (ev_Payload ev) of
             None \<Rightarrow> None
           | Some candidate \<Rightarrow> if lo_Binding candidate \<noteq> b then None else Some candidate))"

definition loop_load :: "'x loop_controller \<Rightarrow> string \<Rightarrow> binding \<Rightarrow> ev_env \<Rightarrow> ev_store \<Rightarrow> loop_state option" where
  "loop_load c i b e s =
     load_pages (view_page (lv_Sys c, e, i, s)) ev_Sequence (load_event c b) 10 0 (fresh_state Phase_Inspect b)"

subsection \<open>The step of each phase\<close>

datatype loop_result = Stop loop_state "loop_error option" | Next binding loop_state

text \<open>\<open>fail\<close> and \<open>recordFailure\<close>: the first persists a failed state and reports the cause, the second
  leads to a diagnosis unless the action has no fingerprint or has failed before.\<close>

definition stop_persisted ::
  "'x loop_controller \<Rightarrow> string \<Rightarrow> loop_state \<Rightarrow> loop_error \<Rightarrow> 'x loop_world \<Rightarrow> loop_result \<times> 'x loop_world" where
  "stop_persisted c i st e w =
    (case loop_persist c i st w of
       (Some e', w') \<Rightarrow> (Stop zero_state (Some e'), w')
     | (None, w') \<Rightarrow> (Stop st (Some e), w'))"

definition loop_fail ::
  "'x loop_controller \<Rightarrow> string \<Rightarrow> loop_state \<Rightarrow> phase \<Rightarrow> action \<Rightarrow> string \<Rightarrow> go_error \<Rightarrow> 'x loop_world
   \<Rightarrow> loop_result \<times> 'x loop_world" where
  "loop_fail c i st p a cls cause w =
     stop_persisted c i
       (st\<lparr>lo_Phase := Phase_Failed,
           lo_LastFailure := \<lparr>lf_Phase = p, lf_Action = a, lf_Class = cls, lf_Diagnostic = safeDiagnostic (Some cause)\<rparr>\<rparr>)
       (LE_Cause cause) w"

definition recordFailure ::
  "'x loop_controller \<Rightarrow> string \<Rightarrow> binding \<Rightarrow> loop_state \<Rightarrow> failure \<Rightarrow> 'x loop_world \<Rightarrow> loop_result \<times> 'x loop_world" where
  "recordFailure c i b st f w =
    (let fp = ac_Fingerprint (lf_Action f)
     in if fp = [] \<or> fp \<in> set (lo_FailedActions st)
        then stop_persisted c i (st\<lparr>lo_Phase := Phase_Failed\<rparr>) LE_RetryExhausted w
        else (Next b (st\<lparr>lo_LastFailure := f, lo_FailedActions := lo_FailedActions st @ [fp],
                        lo_Phase := Phase_DiagnoseRetry\<rparr>), w))"

definition failed_call ::
  "'x loop_controller \<Rightarrow> string \<Rightarrow> binding \<Rightarrow> loop_state \<Rightarrow> phase \<Rightarrow> action \<Rightarrow> go_error \<Rightarrow> 'x loop_world
   \<Rightarrow> loop_result \<times> 'x loop_world" where
  "failed_call c i b st p a e w =
     recordFailure c i b st \<lparr>lf_Phase = p, lf_Action = a, lf_Class = classify e, lf_Diagnostic = safeDiagnostic (Some e)\<rparr> w"

definition called :: "'x loop_world \<Rightarrow> 'x \<Rightarrow> loop_call \<Rightarrow> 'x loop_world" where
  "called w x call = w\<lparr>lw_ext := x, lw_trace := lw_trace w @ [call]\<rparr>"

definition step_Inspect where
  "step_Inspect c i b st w =
    (case mo_Inspect (lv_Model c) b (lw_ext w) of
       (Inl e, x) \<Rightarrow> loop_fail c i st Phase_Inspect (kind_action ''inspect'') ''model'' e (w\<lparr>lw_ext := x\<rparr>)
     | (Inr h, x) \<Rightarrow>
         (if h = [] \<or> 4096 < length h then (Stop zero_state (Some LE_Rejected), w\<lparr>lw_ext := x\<rparr>)
          else (Next b (st\<lparr>lo_Hypothesis := h, lo_Phase := Phase_Hypothesis\<rparr>), w\<lparr>lw_ext := x\<rparr>)))"

definition step_Plan where
  "step_Plan c i b st w =
    (case mo_Plan (lv_Model c) b (lo_Hypothesis st) (lw_ext w) of
       (Inl e, x) \<Rightarrow> loop_fail c i st Phase_Plan (kind_action ''plan'') ''model'' e (w\<lparr>lw_ext := x\<rparr>)
     | (Inr p, x) \<Rightarrow>
         (if \<not> validPlan p b \<or> pn_Destructive p \<or> pn_Ambiguous p
          then stop_persisted c i (st\<lparr>lo_Phase := Phase_HumanCheckpoint\<rparr>) LE_HumanCheckpoint (w\<lparr>lw_ext := x\<rparr>)
          else (Next b (st\<lparr>lo_Plan := p, lo_Phase := Phase_Parallel\<rparr>), w\<lparr>lw_ext := x\<rparr>)))"

definition step_Parallel where
  "step_Parallel c i b st w =
    (let cmds = pn_Commands (lo_Plan st)
     in case au_ParallelCommands (lv_Authority c) b cmds (lw_ext w) of
          (Some e, x) \<Rightarrow> failed_call c i b st Phase_Parallel (firstAction cmds ''parallel'') e (called w x (Call_Parallel b cmds False))
        | (None, x) \<Rightarrow> (Next b (st\<lparr>lo_Phase := Phase_Patch\<rparr>), called w x (Call_Parallel b cmds True)))"

text \<open>A refreshed binding is put in the request, the state and the plan, and in the row of the run.\<close>

definition refresh_binding where
  "refresh_binding c i b st w =
    (case au_RefreshBinding (lv_Authority c) of
       None \<Rightarrow> (Next b (st\<lparr>lo_Phase := Phase_TargetedTest\<rparr>), w)
     | Some refresh \<Rightarrow>
         (case refresh b (lw_ext w) of
            (r, x) \<Rightarrow>
              if (case r of Inl _ \<Rightarrow> True | Inr b' \<Rightarrow> \<not> validBinding b')
              then recordFailure c i b st
                     \<lparr>lf_Phase = Phase_Patch, lf_Action = pn_Patch (lo_Plan st), lf_Class = ''binding'',
                      lf_Diagnostic = safeDiagnostic (case r of Inl e \<Rightarrow> Some e | Inr _ \<Rightarrow> None)\<rparr> (w\<lparr>lw_ext := x\<rparr>)
              else (let b' = projr r;
                        st' = st\<lparr>lo_Binding := b', lo_Plan := (lo_Plan st)\<lparr>pn_Binding := b'\<rparr>\<rparr>;
                        w1 = called w x (Call_Refresh b')
                    in case UpdateRunBinding (lv_Sys c) (store_env c w1) i (lb_CandidateSnapshot b') (lb_EnvironmentID b')
                              (lb_PolicyVersion b') (lw_store w1) of
                         (Some e, s) \<Rightarrow> (Stop zero_state (Some (LE_Store e)), store_result w1 s)
                       | (None, s) \<Rightarrow> (Next b' (st'\<lparr>lo_Phase := Phase_TargetedTest\<rparr>), store_result w1 s))))"

definition step_Patch where
  "step_Patch c i b st w =
    (let a = pn_Patch (lo_Plan st)
     in case au_PatchCandidate (lv_Authority c) b a (lw_ext w) of
          (Some e, x) \<Rightarrow> failed_call c i b st Phase_Patch a e (called w x (Call_Patch b a False))
        | (None, x) \<Rightarrow> refresh_binding c i b st (called w x (Call_Patch b a True)))"

definition step_TargetedTest where
  "step_TargetedTest c i b st w =
    (let a = pn_TargetedTest (lo_Plan st)
     in case au_TargetedTest (lv_Authority c) b a (lw_ext w) of
          (Some e, x) \<Rightarrow> failed_call c i b st Phase_TargetedTest a e (called w x (Call_TargetedTest b a False))
        | (None, x) \<Rightarrow> (Next b (st\<lparr>lo_Phase := Phase_FullVerify\<rparr>), called w x (Call_TargetedTest b a True)))"

definition step_FullVerify where
  "step_FullVerify c i b st w =
    (let a = pn_FullVerify (lo_Plan st)
     in case au_FullVerify (lv_Authority c) b a (lw_ext w) of
          (Some e, x) \<Rightarrow> failed_call c i b st Phase_FullVerify a e (called w x (Call_FullVerify b a False))
        | (None, x) \<Rightarrow> (Next b (st\<lparr>lo_Phase := Phase_Checkpoint\<rparr>), called w x (Call_FullVerify b a True)))"

definition step_DiagnoseRetry where
  "step_DiagnoseRetry c i b st w =
    (if lv_MaxRetries c \<le> lo_RetryCount st
     then stop_persisted c i (st\<lparr>lo_Phase := Phase_Failed\<rparr>) LE_RetryExhausted w
     else (case mo_Diagnose (lv_Model c) b (lo_LastFailure st) (lo_FailedActions st) (lw_ext w) of
             (Inl e, x) \<Rightarrow> loop_fail c i st Phase_DiagnoseRetry (lf_Action (lo_LastFailure st)) ''model'' e (called w x Call_Diagnose)
           | (Inr p, x) \<Rightarrow>
               (if \<not> validPlan p b \<or> pn_Destructive p \<or> pn_Ambiguous p \<or> repeatedPlan p (lo_FailedActions st)
                then stop_persisted c i (st\<lparr>lo_Phase := Phase_Failed\<rparr>) LE_RetryExhausted (called w x Call_Diagnose)
                else (Next b (st\<lparr>lo_Plan := p, lo_RetryCount := lo_RetryCount st + 1, lo_Phase := Phase_Parallel\<rparr>),
                      called w x Call_Diagnose))))"

definition loop_checkpoint :: "'x loop_controller \<Rightarrow> string \<Rightarrow> binding \<Rightarrow> loop_state \<Rightarrow> instant \<Rightarrow> instant checkpoint" where
  "loop_checkpoint c i b st now =
     \<lparr>ck_ID = lo_CheckpointID st, ck_RunID = i, ck_CandidateSnapshot = lb_CandidateSnapshot b,
      ck_EnvironmentID = lb_EnvironmentID b, ck_PolicyVersion = lb_PolicyVersion b, ck_State = ''checkpoint'',
      ck_Payload = lv_Enc c st, ck_CreatedAt = now\<rparr>"

definition step_Checkpoint where
  "step_Checkpoint c i b st w =
    (case au_Checkpoint (lv_Authority c) b (lw_ext w) of
       (Some e, x) \<Rightarrow> failed_call c i b st Phase_Checkpoint (kind_action ''checkpoint'') e (called w x (Call_Checkpoint b False))
     | (None, x) \<Rightarrow>
         (let w1 = called w x (Call_Checkpoint b True);
              st1 = st\<lparr>lo_CheckpointID := ''checkpoint_'' @ take 24 (digestState c st)\<rparr>
          in case SaveCheckpoint (lv_Sys c) (store_env c w1) (loop_checkpoint c i b st1 (ee_Now (store_env c w1))) (lw_store w1) of
               (Some e, s) \<Rightarrow> (Stop zero_state (Some (LE_Store e)), store_result w1 s)
             | (None, s) \<Rightarrow>
                 (let w2 = store_result w1 s
                  in case UpdateRunStatus (lv_Sys c) (store_env c w2) i ''completed'' (lw_store w2) of
                       (Some e, s') \<Rightarrow> (Stop zero_state (Some (LE_Store e)), store_result w2 s')
                     | (None, s') \<Rightarrow> (Next b (st1\<lparr>lo_Phase := Phase_Completed\<rparr>), store_result w2 s'))))"

definition loop_step ::
  "'x loop_controller \<Rightarrow> string \<Rightarrow> binding \<Rightarrow> loop_state \<Rightarrow> 'x loop_world \<Rightarrow> loop_result \<times> 'x loop_world" where
  "loop_step c i b st w =
    (case lo_Phase st of
       Phase_Inspect \<Rightarrow> step_Inspect c i b st w
     | Phase_Hypothesis \<Rightarrow> (Next b (st\<lparr>lo_Phase := Phase_Plan\<rparr>), w)
     | Phase_Plan \<Rightarrow> step_Plan c i b st w
     | Phase_Parallel \<Rightarrow> step_Parallel c i b st w
     | Phase_Patch \<Rightarrow> step_Patch c i b st w
     | Phase_TargetedTest \<Rightarrow> step_TargetedTest c i b st w
     | Phase_DiagnoseRetry \<Rightarrow> step_DiagnoseRetry c i b st w
     | Phase_FullVerify \<Rightarrow> step_FullVerify c i b st w
     | Phase_Checkpoint \<Rightarrow> step_Checkpoint c i b st w
     | Phase_Unknown _ \<Rightarrow> (Stop zero_state (Some LE_Rejected), w)
     | _ \<Rightarrow> (Stop st (terminalError st), w))"

text \<open>The loop of \<open>Run\<close>, with fuel: \<open>None\<close> is a loop that is still running.\<close>

fun loop_iter ::
  "nat \<Rightarrow> 'x loop_controller \<Rightarrow> string \<Rightarrow> binding \<Rightarrow> loop_state \<Rightarrow> 'x loop_world
   \<Rightarrow> ((loop_state \<times> loop_error option) \<times> 'x loop_world) option" where
  "loop_iter 0 c i b st w = None"
| "loop_iter (Suc n) c i b st w =
    (if ctx_err (lv_Ctx c (lw_ext w)) then Some ((st, Some LE_Context), w)
     else (case loop_step c i b st w of
             (Stop st' e, w') \<Rightarrow> Some ((st', e), w')
           | (Next b' st', w') \<Rightarrow>
               (case loop_persist c i st' w' of
                  (Some e, w'') \<Rightarrow> Some ((zero_state, Some e), w'')
                | (None, w'') \<Rightarrow> loop_iter n c i b' st' w'')))"

definition run_matches :: "instant ev_run \<Rightarrow> binding \<Rightarrow> bool" where
  "run_matches r b \<longleftrightarrow> er_RepositoryID r = lb_RepositoryID b \<and> er_CandidateSnapshot r = lb_CandidateSnapshot b
     \<and> er_EnvironmentID r = lb_EnvironmentID b \<and> er_PolicyVersion r = lb_PolicyVersion b"

definition RunLoop ::
  "nat \<Rightarrow> 'x loop_controller \<Rightarrow> string \<Rightarrow> binding \<Rightarrow> 'x loop_world
   \<Rightarrow> ((loop_state \<times> loop_error option) \<times> 'x loop_world) option" where
  "RunLoop n c i b w =
    (if lv_Ctx c (lw_ext w) = Ctx_Nil \<or> i = [] \<or> \<not> validBinding b then Some ((zero_state, Some LE_Rejected), w)
     else (case GetRun (lv_Sys c) (store_env c w) i (lw_store w) of
             Inl _ \<Rightarrow> Some ((zero_state, Some LE_Rejected), store_result w (lw_store w))
           | Inr r \<Rightarrow>
               (if \<not> run_matches r b then Some ((zero_state, Some LE_Rejected), store_result w (lw_store w))
                else (let w1 = store_result w (lw_store w)
                      in case loop_load c i b (store_env c w1) (lw_store w1) of
                           None \<Rightarrow> Some ((zero_state, Some LE_Load), store_result w1 (lw_store w1))
                         | Some st \<Rightarrow> loop_iter n c i b st (store_result w1 (lw_store w1))))))"

subsection \<open>The loop returns\<close>

named_theorems loop_defs \<open>the steps of the loop\<close>
lemmas [loop_defs] = step_Inspect_def step_Plan_def step_Parallel_def step_Patch_def refresh_binding_def
  step_TargetedTest_def step_FullVerify_def step_DiagnoseRetry_def step_Checkpoint_def
  failed_call_def recordFailure_def loop_fail_def stop_persisted_def

fun phase_rank :: "phase \<Rightarrow> nat" where
  "phase_rank Phase_Inspect = 10"
| "phase_rank Phase_Hypothesis = 9"
| "phase_rank Phase_Plan = 8"
| "phase_rank Phase_Parallel = 7"
| "phase_rank Phase_Patch = 6"
| "phase_rank Phase_TargetedTest = 5"
| "phase_rank Phase_FullVerify = 4"
| "phase_rank Phase_Checkpoint = 3"
| "phase_rank Phase_DiagnoseRetry = 2"
| "phase_rank _ = 1"

definition loop_rank :: "'x loop_controller \<Rightarrow> loop_state \<Rightarrow> nat" where
  "loop_rank c st = 10 * nat (lv_MaxRetries c - lo_RetryCount st) + phase_rank (lo_Phase st)"

lemma phase_rank_le: "phase_rank p \<le> 10" by (cases p) simp_all

lemma loop_step_rank:
  assumes "loop_step c i b st w = (Next b' st', w')"
  shows "loop_rank c st' < loop_rank c st"
proof (cases "lo_Phase st")
  case Phase_DiagnoseRetry
  then have "lo_RetryCount st < lv_MaxRetries c" "lo_RetryCount st' = lo_RetryCount st + 1" "lo_Phase st' = Phase_Parallel"
    using assms by (auto simp: loop_step_def loop_defs split: prod.splits sum.splits option.splits if_splits)
  then show ?thesis using Phase_DiagnoseRetry by (simp add: loop_rank_def)
qed (use assms in \<open>auto simp: loop_step_def loop_defs loop_rank_def Let_def
       split: prod.splits sum.splits option.splits if_splits\<close>)

lemma loop_iter_returns: "loop_rank c st \<le> n \<Longrightarrow> loop_iter (Suc n) c i b st w \<noteq> None"
proof (induction n arbitrary: b st w)
  case 0
  then show ?case by (cases "lo_Phase st") (auto simp: loop_rank_def)
next
  case (Suc n)
  show ?case
  proof (cases "loop_step c i b st w")
    case (Pair r w')
    show ?thesis
    proof (cases r)
      case (Stop st' e)
      then show ?thesis using Pair by simp
    next
      case (Next b' st')
      then have "loop_rank c st' \<le> n" using loop_step_rank [of c i b st w b' st' w'] Pair Suc.prems by simp
      then have "loop_iter (Suc n) c i b' st' w2 \<noteq> None" for w2 by (rule Suc.IH)
      then show ?thesis using Pair Next
        by (auto simp del: loop_iter.simps simp: loop_iter.simps(2) [of "Suc n"] split: prod.split option.split)
    qed
  qed
qed

lemma loop_iter_mono: "loop_iter n c i b st w = Some r \<Longrightarrow> n \<le> m \<Longrightarrow> loop_iter m c i b st w = Some r"
proof (induction n arbitrary: m b st w)
  case (Suc n)
  obtain k where m: "m = Suc k" "n \<le> k" using Suc.prems(2) by (cases m) auto
  show ?case using Suc.prems(1) Suc.IH m by (auto split: if_splits prod.splits loop_result.splits option.splits)
qed simp

definition loaded_retries :: "'x loop_controller \<Rightarrow> string \<Rightarrow> binding \<Rightarrow> 'x loop_world \<Rightarrow> int" where
  "loaded_retries c i b w =
    (case loop_load c i b (lv_Env c (lw_ops w + 1)) (lw_store w) of None \<Rightarrow> 0 | Some st \<Rightarrow> lo_RetryCount st)"

text \<open>\<open>Run\<close> either refuses before the loop, touching nothing but the count of store calls, or loads a state
  and loops from it.\<close>

lemma RunLoop_split:
  obtains (stopped) e k where "\<And>m. RunLoop m c i b w = Some ((zero_state, Some e), w\<lparr>lw_ops := k\<rparr>)"
  | (started) st where "loop_load c i b (lv_Env c (lw_ops w + 1)) (lw_store w) = Some st"
      and "\<And>m. RunLoop m c i b w = loop_iter m c i b st (w\<lparr>lw_ops := lw_ops w + 2\<rparr>)"
proof (cases "lv_Ctx c (lw_ext w) = Ctx_Nil \<or> i = [] \<or> \<not> validBinding b")
  case True
  then have "RunLoop m c i b w = Some ((zero_state, Some LE_Rejected), w\<lparr>lw_ops := lw_ops w\<rparr>)" for m
    by (simp add: RunLoop_def)
  then show ?thesis using stopped by blast
next
  case ok: False
  show ?thesis
  proof (cases "\<exists>r. GetRun (lv_Sys c) (store_env c w) i (lw_store w) = Inr r \<and> run_matches r b")
    case False
    then have "RunLoop m c i b w = Some ((zero_state, Some LE_Rejected), w\<lparr>lw_ops := lw_ops w + 1\<rparr>)" for m
      using ok by (auto simp: RunLoop_def store_result_def split: sum.split)
    then show ?thesis using stopped by blast
  next
    case True
    then show ?thesis
    proof (cases "loop_load c i b (lv_Env c (lw_ops w + 1)) (lw_store w)")
      case None
      then have "RunLoop m c i b w = Some ((zero_state, Some LE_Load), w\<lparr>lw_ops := lw_ops w + 2\<rparr>)" for m
        using ok True by (auto simp: RunLoop_def Let_def store_env_def store_result_def)
      then show ?thesis using stopped by blast
    next
      case (Some st)
      then have "RunLoop m c i b w = loop_iter m c i b st (w\<lparr>lw_ops := lw_ops w + 2\<rparr>)" for m
        using ok True by (auto simp: RunLoop_def Let_def store_env_def store_result_def)
      then show ?thesis using started Some by blast
    qed
  qed
qed

text \<open>C29: \<open>Run\<close> always returns, whatever the model, the authority and the store answer: with \<open>m\<close> retries
  left it makes at most \<open>10 m + 11\<close> rounds, so a run started afresh makes at most 111. The result does
  not depend on how much more fuel the loop is given.\<close>

theorem RunLoop_returns:
  assumes "10 * nat (lv_MaxRetries c - loaded_retries c i b w) + 11 \<le> n"
  shows "\<exists>r. \<forall>m \<ge> n. RunLoop m c i b w = Some r"
proof -
  obtain k where n: "n = Suc k" using assms by (cases n) auto
  have stable: "\<exists>r. \<forall>m \<ge> n. loop_iter m c i b st w' = Some r" if "loop_rank c st \<le> k" for st w'
    using loop_iter_returns [OF that] loop_iter_mono n by (metis not_None_eq)
  have rank: "loop_rank c st \<le> k"
    if "loop_load c i b (lv_Env c (lw_ops w + 1)) (lw_store w) = Some st" for st
    using assms that phase_rank_le [of "lo_Phase st"] n by (simp add: loop_rank_def loaded_retries_def)
  show ?thesis
  proof (cases rule: RunLoop_split [of c i b w])
    case (started st)
    then show ?thesis using stable [OF rank [OF started(1)], of "w\<lparr>lw_ops := lw_ops w + 2\<rparr>"] by simp
  qed auto
qed

subsection \<open>Invariants of the loop\<close>

text \<open>Every property of the loop below is an instance of this rule: \<open>I\<close> holds where a round starts, \<open>M\<close>
  between the step and its event, \<open>J\<close> where the loop returns.\<close>

lemma loop_iter_inv:
  assumes "loop_iter n c i b st w = Some ((stf, ef), wz)" and "I b st w"
    and step: "\<And>b st w r w'. I b st w \<Longrightarrow> loop_step c i b st w = (r, w')
        \<Longrightarrow> (case r of Next b' st' \<Rightarrow> M b' st' w' | Stop st' e \<Rightarrow> J st' e w')"
    and persisted: "\<And>b st w w'. M b st w \<Longrightarrow> loop_persist c i st w = (None, w') \<Longrightarrow> I b st w'"
    and lost: "\<And>b st w w' e. M b st w \<Longrightarrow> loop_persist c i st w = (Some e, w') \<Longrightarrow> J zero_state (Some e) w'"
    and canceled: "\<And>b st w. I b st w \<Longrightarrow> J st (Some LE_Context) w"
  shows "J stf ef wz"
  using assms(1,2)
proof (induction n arbitrary: b st w)
  case (Suc n)
  show ?case
  proof (cases "ctx_err (lv_Ctx c (lw_ext w))")
    case True
    then show ?thesis using Suc.prems canceled by auto
  next
    case False
    obtain r w' where s: "loop_step c i b st w = (r, w')" by fastforce
    note M = step [OF Suc.prems(2) s]
    show ?thesis
    proof (cases r)
      case (Stop st' e)
      then show ?thesis using Suc.prems(1) False s M by auto
    next
      case (Next b' st')
      obtain e w2 where p: "loop_persist c i st' w' = (e, w2)" by fastforce
      show ?thesis
      proof (cases e)
        case None
        then have "I b' st' w2" using persisted p M Next by auto
        moreover have "loop_iter n c i b' st' w2 = Some ((stf, ef), wz)"
          using Suc.prems(1) False s p None Next by simp
        ultimately show ?thesis by (rule Suc.IH [rotated])
      next
        case (Some e')
        then show ?thesis using Suc.prems(1) False s p Next lost M by auto
      qed
    qed
  qed
qed simp

lemma loop_persist_trace: "loop_persist c i st w = (e, w') \<Longrightarrow> lw_trace w' = lw_trace w"
  by (auto simp: loop_persist_def store_result_def split: prod.splits sum.splits)

lemma store_result_trace [simp]: "lw_trace (store_result w s) = lw_trace w" by (simp add: store_result_def)

lemma called_trace [simp]: "lw_trace (called w x call) = lw_trace w @ [call]" by (simp add: called_def)

subsubsection \<open>Bounds\<close>

definition is_diagnose :: "loop_call \<Rightarrow> bool" where "is_diagnose x \<longleftrightarrow> x = Call_Diagnose"

definition is_patch :: "loop_call \<Rightarrow> bool" where
  "is_patch x = (case x of Call_Patch _ _ _ \<Rightarrow> True | _ \<Rightarrow> False)"

definition count_calls :: "(loop_call \<Rightarrow> bool) \<Rightarrow> loop_call list \<Rightarrow> nat" where
  "count_calls P tr = length (filter P tr)"

lemma count_calls_simps [simp]: "count_calls P [] = 0"
  "count_calls P (tr @ tr') = count_calls P tr + count_calls P tr'"
  "count_calls P (x # tr) = (if P x then 1 else 0) + count_calls P tr"
  by (simp_all add: count_calls_def)

definition patches_left :: "'x loop_controller \<Rightarrow> loop_state \<Rightarrow> nat" where
  "patches_left c st = nat (lv_MaxRetries c - lo_RetryCount st) + (if 6 \<le> phase_rank (lo_Phase st) then 1 else 0)"

lemma step_diagnoses:
  assumes "loop_step c i b st w = (r, w')"
  shows "case r of
      Next b' st' \<Rightarrow> count_calls is_diagnose (lw_trace w') + nat (lv_MaxRetries c - lo_RetryCount st')
                       \<le> count_calls is_diagnose (lw_trace w) + nat (lv_MaxRetries c - lo_RetryCount st)
    | Stop st' e \<Rightarrow> count_calls is_diagnose (lw_trace w')
                       \<le> count_calls is_diagnose (lw_trace w) + nat (lv_MaxRetries c - lo_RetryCount st)"
  using assms
  by (cases "lo_Phase st")
     (auto simp: loop_step_def loop_defs loop_persist_def Let_def is_diagnose_def
       split: prod.splits sum.splits option.splits if_splits)

lemma step_patches:
  assumes "loop_step c i b st w = (r, w')"
  shows "case r of
      Next b' st' \<Rightarrow> count_calls is_patch (lw_trace w') + patches_left c st'
                       \<le> count_calls is_patch (lw_trace w) + patches_left c st
    | Stop st' e \<Rightarrow> count_calls is_patch (lw_trace w') \<le> count_calls is_patch (lw_trace w) + patches_left c st"
  using assms
  by (cases "lo_Phase st")
     (auto simp: loop_step_def loop_defs loop_persist_def Let_def is_patch_def patches_left_def
       split: prod.splits sum.splits option.splits if_splits)

lemma loop_iter_diagnoses:
  assumes "loop_iter n c i b st w = Some ((stf, ef), wz)"
  shows "count_calls is_diagnose (lw_trace wz)
    \<le> count_calls is_diagnose (lw_trace w) + nat (lv_MaxRetries c - lo_RetryCount st)" (is "_ \<le> ?k")
proof (rule loop_iter_inv [OF assms, where
    I = "\<lambda>_ st w. count_calls is_diagnose (lw_trace w) + nat (lv_MaxRetries c - lo_RetryCount st) \<le> ?k" and
    M = "\<lambda>_ st w. count_calls is_diagnose (lw_trace w) + nat (lv_MaxRetries c - lo_RetryCount st) \<le> ?k" and
    J = "\<lambda>_ _ w. count_calls is_diagnose (lw_trace w) \<le> ?k"])
  fix b st w r w' assume "count_calls is_diagnose (lw_trace w) + nat (lv_MaxRetries c - lo_RetryCount st) \<le> ?k"
    and "loop_step c i b st w = (r, w')"
  then show "case r of Next b' st' \<Rightarrow> count_calls is_diagnose (lw_trace w') + nat (lv_MaxRetries c - lo_RetryCount st') \<le> ?k
      | Stop st' e \<Rightarrow> count_calls is_diagnose (lw_trace w') \<le> ?k"
    using step_diagnoses [of c i b st w r w'] by (cases r) auto
qed (auto dest: loop_persist_trace)

lemma loop_iter_patches:
  assumes "loop_iter n c i b st w = Some ((stf, ef), wz)"
  shows "count_calls is_patch (lw_trace wz) \<le> count_calls is_patch (lw_trace w) + patches_left c st" (is "_ \<le> ?k")
proof (rule loop_iter_inv [OF assms, where
    I = "\<lambda>_ st w. count_calls is_patch (lw_trace w) + patches_left c st \<le> ?k" and
    M = "\<lambda>_ st w. count_calls is_patch (lw_trace w) + patches_left c st \<le> ?k" and
    J = "\<lambda>_ _ w. count_calls is_patch (lw_trace w) \<le> ?k"])
  fix b st w r w' assume "count_calls is_patch (lw_trace w) + patches_left c st \<le> ?k"
    and "loop_step c i b st w = (r, w')"
  then show "case r of Next b' st' \<Rightarrow> count_calls is_patch (lw_trace w') + patches_left c st' \<le> ?k
      | Stop st' e \<Rightarrow> count_calls is_patch (lw_trace w') \<le> ?k"
    using step_patches [of c i b st w r w'] by (cases r) auto
qed (auto dest: loop_persist_trace)

lemma patches_left_le: "patches_left c st \<le> nat (lv_MaxRetries c - lo_RetryCount st) + 1"
  by (simp add: patches_left_def)

text \<open>The budget is respected: a call of \<open>Run\<close> asks the model for a diagnosis at most once per retry
  left, and hands the authority at most one patch more than that.\<close>

theorem RunLoop_budget:
  assumes "RunLoop n c i b w = Some (r, w')"
  shows "count_calls is_diagnose (lw_trace w')
           \<le> count_calls is_diagnose (lw_trace w) + nat (lv_MaxRetries c - loaded_retries c i b w)
    \<and> count_calls is_patch (lw_trace w')
           \<le> count_calls is_patch (lw_trace w) + nat (lv_MaxRetries c - loaded_retries c i b w) + 1"
proof (cases rule: RunLoop_split [of c i b w])
  case (stopped e k)
  then show ?thesis using assms by auto
next
  case (started st)
  obtain stf ef where r: "r = (stf, ef)" by fastforce
  have it: "loop_iter n c i b st (w\<lparr>lw_ops := lw_ops w + 2\<rparr>) = Some ((stf, ef), w')"
    using assms started(2) r by simp
  have retries: "loaded_retries c i b w = lo_RetryCount st" using started(1) by (simp add: loaded_retries_def)
  show ?thesis
    using loop_iter_diagnoses [OF it] loop_iter_patches [OF it] patches_left_le [of c st] by (simp add: retries)
qed

subsubsection \<open>A failed action is not executed again\<close>

fun call_actions :: "loop_call \<Rightarrow> action list" where
  "call_actions (Call_Parallel _ as _) = as"
| "call_actions (Call_Patch _ a _) = [a]"
| "call_actions (Call_TargetedTest _ a _) = [a]"
| "call_actions (Call_FullVerify _ a _) = [a]"
| "call_actions _ = []"

text \<open>The fingerprint a failing call leaves behind: that of its first action.\<close>

fun call_failure :: "loop_call \<Rightarrow> string list" where
  "call_failure (Call_Parallel _ as False) = [ac_Fingerprint (firstAction as ''parallel'')]"
| "call_failure (Call_Patch _ a False) = [ac_Fingerprint a]"
| "call_failure (Call_TargetedTest _ a False) = [ac_Fingerprint a]"
| "call_failure (Call_FullVerify _ a False) = [ac_Fingerprint a]"
| "call_failure _ = []"

definition runs_any :: "string set \<Rightarrow> loop_call \<Rightarrow> bool" where
  "runs_any F x \<longleftrightarrow> (\<exists>a \<in> set (call_actions x). ac_Fingerprint a \<in> F)"

fun no_rerun :: "string set \<Rightarrow> loop_call list \<Rightarrow> bool" where
  "no_rerun F [] \<longleftrightarrow> True"
| "no_rerun F (x # xs) \<longleftrightarrow> \<not> runs_any F x \<and> no_rerun (F \<union> set (call_failure x)) xs"

definition failures :: "loop_call list \<Rightarrow> string set" where
  "failures tr = set (concat (map call_failure tr))"

lemma failures_append [simp]: "failures (tr @ tr') = failures tr \<union> failures tr'"
  by (simp add: failures_def)

lemma no_rerun_append: "no_rerun F (xs @ ys) \<longleftrightarrow> no_rerun F xs \<and> no_rerun (F \<union> failures xs) ys"
  by (induction xs arbitrary: F) (auto simp: failures_def Un_assoc)

text \<open>While a plan is being executed none of its actions has failed before.\<close>

definition plan_running :: "phase \<Rightarrow> bool" where
  "plan_running p \<longleftrightarrow> p = Phase_Parallel \<or> p = Phase_Patch \<or> p = Phase_TargetedTest \<or> p = Phase_FullVerify"

definition plan_fresh :: "loop_state \<Rightarrow> bool" where
  "plan_fresh st \<longleftrightarrow>
     (lo_Phase st \<in> {Phase_Inspect, Phase_Hypothesis, Phase_Plan} \<longrightarrow> lo_FailedActions st = [])
     \<and> (plan_running (lo_Phase st) \<longrightarrow> \<not> repeatedPlan (lo_Plan st) (lo_FailedActions st))"

lemma repeatedPlan_iff: "repeatedPlan p F \<longleftrightarrow> (\<exists>a \<in> set (plan_actions p). ac_Fingerprint a \<in> set F)"
  by (simp add: repeatedPlan_def list_ex_iff)

text \<open>The calls \<open>tr\<close> since the loop began rerun nothing, and the state knows every failure among them.\<close>

definition rerun_inv :: "string set \<Rightarrow> loop_call list \<Rightarrow> loop_state \<Rightarrow> 'x loop_world \<Rightarrow> bool" where
  "rerun_inv F0 tr0 st w \<longleftrightarrow> plan_fresh st \<and> (\<exists>tr. lw_trace w = tr0 @ tr \<and> no_rerun F0 tr
     \<and> F0 \<union> failures tr \<subseteq> set (lo_FailedActions st))"

definition rerun_done :: "string set \<Rightarrow> loop_call list \<Rightarrow> 'x loop_world \<Rightarrow> bool" where
  "rerun_done F0 tr0 w \<longleftrightarrow> (\<exists>tr. lw_trace w = tr0 @ tr \<and> no_rerun F0 tr)"

lemma rerun_inv_done: "rerun_inv F0 tr0 st w \<Longrightarrow> rerun_done F0 tr0 w"
  by (auto simp: rerun_inv_def rerun_done_def)

lemma rerun_inv_trace: "lw_trace w' = lw_trace w \<Longrightarrow> rerun_inv F0 tr0 st w' = rerun_inv F0 tr0 st w"
  by (simp add: rerun_inv_def)

lemma rerun_done_trace: "lw_trace w' = lw_trace w \<Longrightarrow> rerun_done F0 tr0 w' = rerun_done F0 tr0 w"
  by (simp add: rerun_done_def)

lemma rerun_store [simp]: "rerun_inv F0 tr0 st (store_result w s) = rerun_inv F0 tr0 st w"
  "rerun_done F0 tr0 (store_result w s) = rerun_done F0 tr0 w"
  by (simp_all add: rerun_inv_def rerun_done_def)

lemma rerun_call:
  assumes "rerun_inv F0 tr0 st w" and "lw_trace w' = lw_trace w @ [x]"
    and "\<not> runs_any (set (lo_FailedActions st)) x" and "plan_fresh st'"
    and "set (lo_FailedActions st) \<union> set (call_failure x) \<subseteq> set (lo_FailedActions st')"
  shows "rerun_inv F0 tr0 st' w'"
proof -
  obtain tr where tr: "lw_trace w = tr0 @ tr" "no_rerun F0 tr" "F0 \<union> failures tr \<subseteq> set (lo_FailedActions st)"
    using assms(1) by (auto simp: rerun_inv_def)
  have "\<not> runs_any (F0 \<union> failures tr) x" using assms(3) tr(3) unfolding runs_any_def by blast
  then have "no_rerun F0 (tr @ [x])" using tr(2) by (simp add: no_rerun_append)
  moreover have "F0 \<union> failures (tr @ [x]) \<subseteq> set (lo_FailedActions st')"
    using tr(3) assms(5) by (auto simp: failures_def)
  ultimately show ?thesis using assms(2,4) tr(1) unfolding rerun_inv_def by auto
qed

lemma rerun_call_done:
  assumes "rerun_inv F0 tr0 st w" and "lw_trace w' = lw_trace w @ [x]"
    and "\<not> runs_any (set (lo_FailedActions st)) x"
  shows "rerun_done F0 tr0 w'"
  using rerun_call [OF assms, of "st\<lparr>lo_Phase := Phase_DiagnoseRetry, lo_FailedActions := lo_FailedActions st @ call_failure x\<rparr>"]
  by (auto simp: plan_fresh_def plan_running_def intro!: rerun_inv_done)

definition rerun_ok :: "string set \<Rightarrow> loop_call list \<Rightarrow> loop_result \<times> 'x loop_world \<Rightarrow> bool" where
  "rerun_ok F0 tr0 q = (case q of (Next _ st, w) \<Rightarrow> rerun_inv F0 tr0 st w | (Stop _ _, w) \<Rightarrow> rerun_done F0 tr0 w)"

lemma stop_persisted_rerun: "rerun_done F0 tr0 w \<Longrightarrow> rerun_ok F0 tr0 (stop_persisted c i st e w)"
proof (cases "loop_persist c i st w")
  case (Pair e' w')
  assume "rerun_done F0 tr0 w"
  then have "rerun_done F0 tr0 w'" using rerun_done_trace [OF loop_persist_trace [OF Pair]] by blast
  then show ?thesis using Pair by (cases e') (simp_all add: stop_persisted_def rerun_ok_def)
qed

lemma loop_fail_rerun: "rerun_done F0 tr0 w \<Longrightarrow> rerun_ok F0 tr0 (loop_fail c i st p a cls e w)"
  by (simp add: loop_fail_def stop_persisted_rerun)

lemma recordFailure_rerun:
  assumes "rerun_inv F0 tr0 st w" and "lw_trace w' = lw_trace w @ [x]"
    and "\<not> runs_any (set (lo_FailedActions st)) x" and "set (call_failure x) \<subseteq> {ac_Fingerprint (lf_Action f)}"
  shows "rerun_ok F0 tr0 (recordFailure c i b st f w')"
proof (cases "ac_Fingerprint (lf_Action f) = [] \<or> ac_Fingerprint (lf_Action f) \<in> set (lo_FailedActions st)")
  case True
  then show ?thesis
    using rerun_call_done [OF assms(1-3)] by (auto simp: recordFailure_def Let_def stop_persisted_rerun)
next
  case False
  then show ?thesis
    using assms(4)
    by (auto simp: recordFailure_def Let_def rerun_ok_def plan_fresh_def plan_running_def
        intro!: rerun_call [OF assms(1-3)])
qed

lemma not_repeated_call:
  assumes "\<not> repeatedPlan p F" and "set (call_actions x) \<subseteq> set (plan_actions p)"
  shows "\<not> runs_any (set F) x"
  using assms by (auto simp: repeatedPlan_iff runs_any_def)

lemma step_Patch_rerun:
  assumes "rerun_inv F0 tr0 st w" and "lo_Phase st = Phase_Patch"
  shows "rerun_ok F0 tr0 (step_Patch c i b st w)"
proof -
  let ?a = "pn_Patch (lo_Plan st)"
  have fresh: "\<not> repeatedPlan (lo_Plan st) (lo_FailedActions st)"
    using assms by (auto simp: rerun_inv_def plan_fresh_def plan_running_def)
  have nr: "\<not> runs_any (set (lo_FailedActions st)) (Call_Patch b ?a ok)" for ok
    by (rule not_repeated_call [OF fresh]) (simp add: plan_actions_def)
  have patched: "rerun_inv F0 tr0 (st\<lparr>lo_Phase := Phase_TargetedTest\<rparr>) (called w x (Call_Patch b ?a True))" for x
    using fresh by (intro rerun_call [OF assms(1) _ nr]) (auto simp: plan_fresh_def)
  show ?thesis
  proof (cases "au_PatchCandidate (lv_Authority c) b ?a (lw_ext w)")
    case (Pair e x)
    show ?thesis
    proof (cases e)
      case (Some err)
      then show ?thesis
        using Pair recordFailure_rerun [OF assms(1) called_trace nr] by (simp add: step_Patch_def failed_call_def Let_def)
    next
      case None
      let ?w = "called w x (Call_Patch b ?a True)"
      have rec: "rerun_ok F0 tr0 (recordFailure c i b st f (?w\<lparr>lw_ext := y\<rparr>))" if "lf_Action f = ?a" for f y
        using that by (intro recordFailure_rerun [OF assms(1) _ nr [of True]]) simp_all
      have refreshed: "rerun_inv F0 tr0 (st\<lparr>lo_Binding := b', lo_Plan := (lo_Plan st)\<lparr>pn_Binding := b'\<rparr>, lo_Phase := Phase_TargetedTest\<rparr>)
          (called ?w y (Call_Refresh b'))" for b' y
        using fresh by (intro rerun_call [OF patched])
          (auto simp: plan_fresh_def repeatedPlan_iff plan_actions_def runs_any_def)
      show ?thesis
        using Pair None patched refreshed rec rerun_inv_done [OF refreshed]
        by (auto simp: step_Patch_def refresh_binding_def Let_def rerun_ok_def [where q = "(_, _)"]
            split: option.split prod.split sum.split)
    qed
  qed
qed

lemma loop_step_rerun:
  assumes "rerun_inv F0 tr0 st w"
  shows "rerun_ok F0 tr0 (loop_step c i b st w)"
proof -
  have fresh: "plan_running (lo_Phase st) \<Longrightarrow> \<not> repeatedPlan (lo_Plan st) (lo_FailedActions st)"
    using assms by (simp add: rerun_inv_def plan_fresh_def)
  have empty: "lo_Phase st \<in> {Phase_Inspect, Phase_Hypothesis, Phase_Plan} \<Longrightarrow> lo_FailedActions st = []"
    using assms by (simp add: rerun_inv_def plan_fresh_def)
  have same: "rerun_inv F0 tr0 st' (w\<lparr>lw_ext := x\<rparr>)"
    if "plan_fresh st'" "lo_FailedActions st' = lo_FailedActions st" for st' x
    using assms that by (auto simp: rerun_inv_def)
  have dn: "rerun_done F0 tr0 (w\<lparr>lw_ext := x\<rparr>)" for x
    using rerun_inv_done [OF assms] by (simp add: rerun_done_def)
  note call = rerun_call [OF assms called_trace] and call_done = rerun_call_done [OF assms called_trace]
  show ?thesis
  proof (cases "lo_Phase st")
    case Phase_Inspect
    then show ?thesis using empty
      by (auto simp: loop_step_def step_Inspect_def dn loop_fail_rerun split: prod.split sum.split)
         (auto simp: rerun_ok_def plan_fresh_def plan_running_def dn intro!: same)
  next
    case Phase_Plan
    then show ?thesis using empty
      by (auto simp: loop_step_def step_Plan_def dn loop_fail_rerun stop_persisted_rerun split: prod.split sum.split)
         (auto simp: rerun_ok_def plan_fresh_def repeatedPlan_iff intro!: same)
  next
    case Phase_Parallel
    have nr: "\<not> runs_any (set (lo_FailedActions st)) (Call_Parallel b (pn_Commands (lo_Plan st)) ok)" for ok
      by (rule not_repeated_call [OF fresh]) (auto simp: Phase_Parallel plan_running_def plan_actions_def)
    show ?thesis using Phase_Parallel fresh
      by (auto simp: loop_step_def step_Parallel_def Let_def failed_call_def rerun_ok_def [where q = "(_, _)"] plan_fresh_def
          plan_running_def nr intro!: recordFailure_rerun [OF assms called_trace] call split: prod.split option.split)
  next
    case Phase_Patch
    then show ?thesis using step_Patch_rerun [OF assms] by (simp add: loop_step_def)
  next
    case Phase_TargetedTest
    have nr: "\<not> runs_any (set (lo_FailedActions st)) (Call_TargetedTest b (pn_TargetedTest (lo_Plan st)) ok)" for ok
      by (rule not_repeated_call [OF fresh]) (auto simp: Phase_TargetedTest plan_running_def plan_actions_def)
    show ?thesis using Phase_TargetedTest fresh
      by (auto simp: loop_step_def step_TargetedTest_def Let_def failed_call_def rerun_ok_def [where q = "(_, _)"] plan_fresh_def
          plan_running_def nr intro!: recordFailure_rerun [OF assms called_trace] call split: prod.split option.split)
  next
    case Phase_FullVerify
    have nr: "\<not> runs_any (set (lo_FailedActions st)) (Call_FullVerify b (pn_FullVerify (lo_Plan st)) ok)" for ok
      by (rule not_repeated_call [OF fresh]) (auto simp: Phase_FullVerify plan_running_def plan_actions_def)
    show ?thesis using Phase_FullVerify fresh
      by (auto simp: loop_step_def step_FullVerify_def Let_def failed_call_def rerun_ok_def [where q = "(_, _)"] plan_fresh_def
          plan_running_def nr intro!: recordFailure_rerun [OF assms called_trace] call split: prod.split option.split)
  next
    case Phase_DiagnoseRetry
    have nr: "\<not> runs_any (set (lo_FailedActions st)) Call_Diagnose" by (simp add: runs_any_def)
    show ?thesis using Phase_DiagnoseRetry dn [of "lw_ext w"]
      by (auto simp: loop_step_def step_DiagnoseRetry_def loop_fail_rerun stop_persisted_rerun call_done [OF nr]
          split: prod.split sum.split)
         (auto simp: rerun_ok_def plan_fresh_def plan_running_def intro!: call [OF nr])
  next
    case Phase_Checkpoint
    have nr: "\<not> runs_any (set (lo_FailedActions st)) (Call_Checkpoint b ok)" for ok by (simp add: runs_any_def)
    have ok: "rerun_inv F0 tr0 (st\<lparr>lo_CheckpointID := k, lo_Phase := Phase_Completed\<rparr>) (called w x (Call_Checkpoint b True))" for k x
      by (rule call [OF nr]) (auto simp: plan_fresh_def plan_running_def)
    show ?thesis using Phase_Checkpoint
      by (auto simp: loop_step_def step_Checkpoint_def Let_def failed_call_def nr
          intro!: recordFailure_rerun [OF assms called_trace] split: prod.split option.split)
         (auto simp: rerun_ok_def rerun_inv_done [OF ok] ok)
  qed (use dn [of "lw_ext w"] empty assms in
        \<open>auto simp: loop_step_def rerun_ok_def rerun_inv_def plan_fresh_def plan_running_def\<close>)
qed

lemma loop_iter_rerun:
  assumes "loop_iter n c i b st w = Some ((stf, ef), wz)" and "plan_fresh st"
  shows "rerun_done (set (lo_FailedActions st)) (lw_trace w) wz"
proof (rule loop_iter_inv [OF assms(1), where
    I = "\<lambda>_. rerun_inv (set (lo_FailedActions st)) (lw_trace w)" and
    M = "\<lambda>_. rerun_inv (set (lo_FailedActions st)) (lw_trace w)" and
    J = "\<lambda>_ _. rerun_done (set (lo_FailedActions st)) (lw_trace w)"])
  show "rerun_inv (set (lo_FailedActions st)) (lw_trace w) st w"
    using assms(2) by (simp add: rerun_inv_def failures_def exI [of _ "[]"])
next
  fix b' st' w' r w2 assume "rerun_inv (set (lo_FailedActions st)) (lw_trace w) st' w'" "loop_step c i b' st' w' = (r, w2)"
  then show "case r of Next b' st' \<Rightarrow> rerun_inv (set (lo_FailedActions st)) (lw_trace w) st' w2
      | Stop st' e \<Rightarrow> rerun_done (set (lo_FailedActions st)) (lw_trace w) w2"
    using loop_step_rerun [of "set (lo_FailedActions st)" "lw_trace w" st' w' c i b'] by (auto simp: rerun_ok_def)
next
  fix b' st' w' w2 assume "rerun_inv (set (lo_FailedActions st)) (lw_trace w) st' w'" "loop_persist c i st' w' = (None, w2)"
  then show "rerun_inv (set (lo_FailedActions st)) (lw_trace w) st' w2"
    using rerun_inv_trace [OF loop_persist_trace] by blast
next
  fix b' st' w' w2 e assume "rerun_inv (set (lo_FailedActions st)) (lw_trace w) st' w'" "loop_persist c i st' w' = (Some e, w2)"
  then show "rerun_done (set (lo_FailedActions st)) (lw_trace w) w2"
    using rerun_done_trace [OF loop_persist_trace] rerun_inv_done by blast
qed (rule rerun_inv_done)

text \<open>An action that failed is not executed again. Whatever plans the model proposes, a call of \<open>Run\<close>
  hands the authority no action with a fingerprint that the loaded state lists as failed, or that failed
  earlier in the same call.\<close>

theorem failed_actions_not_rerun:
  assumes "loop_load c i b (lv_Env c (lw_ops w + 1)) (lw_store w) = Some st" and "plan_fresh st"
    and "RunLoop n c i b w = Some (r, w')"
  shows "\<exists>tr. lw_trace w' = lw_trace w @ tr \<and> no_rerun (set (lo_FailedActions st)) tr"
proof (cases rule: RunLoop_split [of c i b w])
  case (stopped e k)
  then show ?thesis using assms(3) by auto
next
  case (started st')
  obtain stf ef where r: "r = (stf, ef)" by fastforce
  have "loop_iter n c i b st (w\<lparr>lw_ops := lw_ops w + 2\<rparr>) = Some ((stf, ef), w')"
    using assms started r by simp
  from loop_iter_rerun [OF this assms(2)] show ?thesis by (simp add: rerun_done_def)
qed

subsection \<open>A completed run is verified\<close>

definition is_mutation :: "loop_call \<Rightarrow> bool" where
  "is_mutation x = (case x of Call_Parallel _ _ _ \<Rightarrow> True | Call_Patch _ _ _ \<Rightarrow> True | Call_Refresh _ \<Rightarrow> True | _ \<Rightarrow> False)"

text \<open>The calls after the last one that may have changed the candidate, and whether that one was a patch
  that succeeded (or the new binding read after it).\<close>

fun since_patch :: "loop_call list \<Rightarrow> loop_call list \<Rightarrow> loop_call list" where
  "since_patch acc [] = acc"
| "since_patch acc (x # xs) = (if is_mutation x then since_patch [] xs else since_patch (acc @ [x]) xs)"

fun patched :: "bool \<Rightarrow> loop_call list \<Rightarrow> bool" where
  "patched ok [] = ok"
| "patched ok (Call_Parallel _ _ _ # xs) = patched False xs"
| "patched ok (Call_Patch _ _ k # xs) = patched k xs"
| "patched ok (_ # xs) = patched ok xs"

definition tested :: "binding \<Rightarrow> loop_call list \<Rightarrow> bool" where
  "tested b tr = list_ex (\<lambda>x. case x of Call_TargetedTest b' _ ok \<Rightarrow> ok \<and> b' = b | _ \<Rightarrow> False) (since_patch [] tr)"

definition fully_verified :: "binding \<Rightarrow> loop_call list \<Rightarrow> bool" where
  "fully_verified b tr = list_ex (\<lambda>x. case x of Call_FullVerify b' _ ok \<Rightarrow> ok \<and> b' = b | _ \<Rightarrow> False) (since_patch [] tr)"

definition checkpointed :: "binding \<Rightarrow> loop_call list \<Rightarrow> bool" where
  "checkpointed b tr = list_ex (\<lambda>x. x = Call_Checkpoint b True) (since_patch [] tr)"

definition phase_proof :: "phase \<Rightarrow> binding \<Rightarrow> loop_call list \<Rightarrow> bool" where
  "phase_proof p b tr =
    (case p of
       Phase_TargetedTest \<Rightarrow> patched False tr
     | Phase_FullVerify \<Rightarrow> patched False tr \<and> tested b tr
     | Phase_Checkpoint \<Rightarrow> patched False tr \<and> tested b tr \<and> fully_verified b tr
     | Phase_Completed \<Rightarrow> patched False tr \<and> tested b tr \<and> fully_verified b tr \<and> checkpointed b tr
     | _ \<Rightarrow> True)"

lemma since_patch_append: "since_patch acc (xs @ ys) = since_patch (since_patch acc xs) ys"
  by (induction acc xs rule: since_patch.induct) auto

lemma patched_append: "patched ok (xs @ ys) = patched (patched ok xs) ys"
  by (induction ok xs rule: patched.induct) auto

named_theorems proof_simps \<open>how a call changes what a trace proves\<close>
lemmas [proof_simps] = tested_def fully_verified_def checkpointed_def since_patch_append patched_append is_mutation_def

lemma phase_proof_call: "phase_proof p b tr \<Longrightarrow> \<not> is_mutation x \<Longrightarrow> phase_proof p b (tr @ [x])"
  by (auto simp: phase_proof_def proof_simps split: phase.splits loop_call.splits)

definition late_phase :: "phase \<Rightarrow> bool" where
  "late_phase p \<longleftrightarrow> p = Phase_TargetedTest \<or> p = Phase_FullVerify \<or> p = Phase_Checkpoint \<or> p = Phase_Completed"

lemma phase_proof_early: "\<not> late_phase p \<Longrightarrow> phase_proof p b tr"
  by (cases p) (simp_all add: phase_proof_def late_phase_def)

text \<open>What a step does to the trace and to the claims of the phase.\<close>

lemma loop_step_trace:
  assumes "loop_step c i b st w = (r, w')"
  shows "\<exists>calls. lw_trace w' = lw_trace w @ calls \<and> (late_phase (lo_Phase st) \<longrightarrow> list_all (\<lambda>x. \<not> is_mutation x) calls)"
  using assms
  by (cases "lo_Phase st")
     (auto simp: loop_step_def loop_defs loop_persist_def Let_def late_phase_def is_mutation_def
       split: prod.splits sum.splits option.splits if_splits)

lemma phase_proof_calls:
  assumes "phase_proof p b tr" and "late_phase p \<longrightarrow> list_all (\<lambda>x. \<not> is_mutation x) calls"
  shows "phase_proof p b (tr @ calls)"
proof (cases "late_phase p")
  case True
  then have "list_all (\<lambda>x. \<not> is_mutation x) calls" using assms(2) by simp
  then show ?thesis
    using assms(1)
  proof (induction calls rule: rev_induct)
    case (snoc x calls)
    then show ?case using phase_proof_call [of p b "tr @ calls" x] by simp
  qed simp
qed (rule phase_proof_early)

lemma loop_step_proof:
  assumes "loop_step c i b st w = (r, w')" and "lo_Binding st = b" and "phase_proof (lo_Phase st) b (lw_trace w)"
  shows "case r of
      Next b' st' \<Rightarrow> lo_Binding st' = b' \<and> phase_proof (lo_Phase st') b' (lw_trace w')
    | Stop st' e \<Rightarrow> e = None \<longrightarrow> lo_Phase st' = Phase_Completed \<and> phase_proof Phase_Completed (lo_Binding st') (lw_trace w')"
  using assms
  by (cases "lo_Phase st")
     (auto simp: loop_step_def loop_defs loop_persist_def Let_def phase_proof_def proof_simps terminalError_def
       split: prod.splits sum.splits option.splits if_splits)

subsection \<open>What the store remembers\<close>

definition state_rows :: "string \<Rightarrow> ev_store \<Rightarrow> string event list" where
  "state_rows i s = filter (\<lambda>e. ev_Type e = loop_state_type) (events_of (es_db s) i)"

definition stored_state :: "'x loop_controller \<Rightarrow> string \<Rightarrow> ev_store \<Rightarrow> loop_state option" where
  "stored_state c i s = (if state_rows i s = [] then None else lv_Dec c (ev_Payload (last (state_rows i s))))"

definition log_ok :: "'x loop_controller \<Rightarrow> string \<Rightarrow> ev_store \<Rightarrow> bool" where
  "log_ok c i s \<longleftrightarrow> store_wf s \<and> readable (lv_Sys c) i s"

text \<open>What the theorems use of \<open>encoding/json\<close>: a known phase survives, an unknown one stays unknown (its
  bytes that are not UTF-8 are replaced by U+FFFD, which is in no name of a phase), and a binding in UTF-8
  survives. A refreshed binding is in UTF-8. The readings of the clock parse back.\<close>

definition utf8_binding :: "binding \<Rightarrow> bool" where
  "utf8_binding b \<longleftrightarrow> utf8_valid (lb_RepositoryID b) \<and> utf8_valid (lb_CandidateSnapshot b)
     \<and> utf8_valid (lb_EnvironmentID b) \<and> utf8_valid (lb_PolicyVersion b)"

definition json_keeps :: "'x loop_controller \<Rightarrow> bool" where
  "json_keeps c \<longleftrightarrow> (\<forall>st st'. lv_Dec c (lv_Enc c st) = Some st' \<longrightarrow>
     (lo_Phase st' = lo_Phase st \<or> (\<exists>u v. lo_Phase st = Phase_Unknown u \<and> lo_Phase st' = Phase_Unknown v))
     \<and> (utf8_binding (lo_Binding st) \<longrightarrow> lo_Binding st' = lo_Binding st))"

definition refresh_utf8 :: "'x loop_controller \<Rightarrow> bool" where
  "refresh_utf8 c \<longleftrightarrow> (\<forall>refresh b x b' x'. au_RefreshBinding (lv_Authority c) = Some refresh \<longrightarrow> refresh b x = (Inr b', x')
     \<longrightarrow> utf8_binding b')"

definition clock_reads :: "'x loop_controller \<Rightarrow> bool" where
  "clock_reads c \<longleftrightarrow> (\<forall>k. sy_read (lv_Sys c) (sy_show (lv_Sys c) (ee_Now (lv_Env c k))) \<noteq> None)"

lemma stored_state_cong: "events_of (es_db s') i = events_of (es_db s) i \<Longrightarrow> stored_state c i s' = stored_state c i s"
  by (simp add: stored_state_def state_rows_def)

lemma readable_cong: "events_of (es_db s') i = events_of (es_db s) i \<Longrightarrow> readable sys i s' = readable sys i s"
  by (simp add: readable_def)

lemma exec_update_events: "events_of (es_db (snd (exec_update e i f s))) j = events_of (es_db s) j"
  by (cases "ee_Write e") (simp_all add: exec_update_def exec_def)

lemma update_events:
  "events_of (es_db (snd (UpdateRunStatus sys e i st s))) j = events_of (es_db s) j"
  "events_of (es_db (snd (UpdateRunBinding sys e i x y z s))) j = events_of (es_db s) j"
  "events_of (es_db (snd (SaveCheckpoint sys e ck s))) j = events_of (es_db s) j"
  by (cases "ee_Write e"; simp add: UpdateRunStatus_def UpdateRunBinding_def SaveCheckpoint_def exec_update_events exec_def)+

lemma store_op_wf:
  "store_wf s \<Longrightarrow> store_wf (snd (UpdateRunStatus sys e i st s))"
  "store_wf s \<Longrightarrow> store_wf (snd (UpdateRunBinding sys e i x y z s))"
  "store_wf s \<Longrightarrow> store_wf (snd (SaveCheckpoint sys e ck s))"
  using ev_step_wf [of s sys "Op_UpdateRunStatus e i st"] ev_step_wf [of s sys "Op_UpdateRunBinding e i x y z"]
    ev_step_wf [of s sys "Op_SaveCheckpoint e ck"] by simp_all

lemma AppendEvent_rows:
  assumes "AppendEvent sys e i ty p s = (r, s')"
  shows "events_of (es_db s') i = events_of (es_db s) i \<and> \<not> is_ok r
    \<or> (\<exists>row. ev_Type row = ty \<and> ev_Payload row = p \<and> ev_CreatedAt row = sy_show sys (ee_Now e)
         \<and> events_of (es_db s') i = events_of (es_db s) i @ [row])"
  using assms
  by (cases "ee_Write e") (auto simp: AppendEvent_def Let_def exec_def split: if_splits)

lemma json_keepsD:
  assumes "json_keeps c" and "lv_Dec c (lv_Enc c st) = Some st'"
  shows "late_phase (lo_Phase st') \<longrightarrow> lo_Phase st' = lo_Phase st \<and> (utf8_binding (lo_Binding st) \<longrightarrow> lo_Binding st' = lo_Binding st)"
proof -
  have "lo_Phase st' = lo_Phase st \<or> (\<exists>v. lo_Phase st' = Phase_Unknown v)"
    and "utf8_binding (lo_Binding st) \<longrightarrow> lo_Binding st' = lo_Binding st"
    using assms unfolding json_keeps_def by blast+
  then show ?thesis by (auto simp: late_phase_def)
qed

lemma loop_persist_store:
  assumes "loop_persist c i st w = (e, w')" and "log_ok c i (lw_store w)" and "clock_reads c" and "json_keeps c"
  shows "log_ok c i (lw_store w')
    \<and> ((stored_state c i (lw_store w') = stored_state c i (lw_store w) \<and> e \<noteq> None)
       \<or> (case stored_state c i (lw_store w') of None \<Rightarrow> True
          | Some s \<Rightarrow> late_phase (lo_Phase s) \<longrightarrow>
              lo_Phase s = lo_Phase st \<and> (utf8_binding (lo_Binding st) \<longrightarrow> lo_Binding s = lo_Binding st)))"
proof -
  obtain r s where ap: "AppendEvent (lv_Sys c) (store_env c w) i loop_state_type (lv_Enc c st) (lw_store w) = (r, s)" by fastforce
  have w': "lw_store w' = s" and e: "e \<noteq> None \<longleftrightarrow> \<not> is_ok r"
    using assms(1) ap by (auto simp: loop_persist_def store_result_def split: sum.splits)
  have wf: "store_wf s" using AppendEvent_wf [of "lw_store w"] ap assms(2) by (metis log_ok_def snd_conv)
  from AppendEvent_rows [OF ap] show ?thesis
  proof (elim disjE exE conjE)
    assume same: "events_of (es_db s) i = events_of (es_db (lw_store w)) i" and "\<not> is_ok r"
    then show ?thesis
      using stored_state_cong [OF same, of c] readable_cong [OF same] wf w' e assms(2) by (simp add: log_ok_def)
  next
    fix row assume row: "ev_Type row = loop_state_type" "ev_Payload row = lv_Enc c st"
      "ev_CreatedAt row = sy_show (lv_Sys c) (ee_Now (store_env c w))"
      "events_of (es_db s) i = events_of (es_db (lw_store w)) i @ [row]"
    have "readable (lv_Sys c) i s"
      using row assms(2,3) by (simp add: readable_def log_ok_def store_env_def clock_reads_def)
    moreover have "state_rows i s = state_rows i (lw_store w) @ [row]" using row by (simp add: state_rows_def)
    then have "stored_state c i s = lv_Dec c (lv_Enc c st)"
      using row by (simp add: stored_state_def)
    ultimately show ?thesis
      using wf w' json_keepsD [OF assms(4)] by (auto simp: log_ok_def split: option.split)
  qed
qed

text \<open>A step leaves the stored state, or stores a state that claims nothing.\<close>

definition remembers :: "'x loop_controller \<Rightarrow> string \<Rightarrow> 'x loop_world \<Rightarrow> 'x loop_world \<Rightarrow> bool" where
  "remembers c i w w' \<longleftrightarrow> log_ok c i (lw_store w')
     \<and> (stored_state c i (lw_store w') = stored_state c i (lw_store w)
        \<or> (case stored_state c i (lw_store w') of None \<Rightarrow> True | Some s \<Rightarrow> \<not> late_phase (lo_Phase s)))"

lemma remembers_same: "log_ok c i (lw_store w) \<Longrightarrow> lw_store w' = lw_store w \<Longrightarrow> remembers c i w w'"
  by (simp add: remembers_def)

lemma remembers_result:
  assumes "remembers c i w w1" and "events_of (es_db s) i = events_of (es_db (lw_store w1)) i" and "store_wf s"
  shows "remembers c i w (store_result w1 s)"
  using assms stored_state_cong [OF assms(2), of c] readable_cong [OF assms(2)]
  by (simp add: remembers_def log_ok_def store_result_def)

lemma remembers_stop:
  assumes "log_ok c i (lw_store w)" and "lw_store w1 = lw_store w" and "clock_reads c" and "json_keeps c"
    and "\<not> late_phase (lo_Phase st)"
  shows "remembers c i w (snd (stop_persisted c i st e w1))"
proof (cases "loop_persist c i st w1")
  case (Pair e' w2)
  have "remembers c i w w2"
    using loop_persist_store [OF Pair _ assms(3,4)] assms(1,2,5) by (auto simp: remembers_def split: option.splits)
  then show ?thesis using Pair by (simp add: stop_persisted_def split: option.split)
qed

lemma remembers_failure:
  assumes "log_ok c i (lw_store w)" and "lw_store w1 = lw_store w" and "clock_reads c" and "json_keeps c"
  shows "remembers c i w (snd (recordFailure c i b st f w1))"
  using remembers_stop [OF assms, of "st\<lparr>lo_Phase := Phase_Failed\<rparr>"] remembers_same [OF assms(1,2)]
  by (simp add: recordFailure_def Let_def late_phase_def)

lemma remembers_fail:
  assumes "log_ok c i (lw_store w)" and "lw_store w1 = lw_store w" and "clock_reads c" and "json_keeps c"
  shows "remembers c i w (snd (loop_fail c i st p a cls e w1))"
  unfolding loop_fail_def by (rule remembers_stop [OF assms]) (simp add: late_phase_def)

lemma called_store [simp]: "lw_store (called w x call) = lw_store w" by (simp add: called_def)

lemma step_Checkpoint_remembers:
  assumes "log_ok c i (lw_store w)" and "clock_reads c" and "json_keeps c"
  shows "remembers c i w (snd (step_Checkpoint c i b st w))"
proof (cases "au_Checkpoint (lv_Authority c) b (lw_ext w)")
  case (Pair e x)
  show ?thesis
  proof (cases e)
    case (Some err)
    then show ?thesis using Pair remembers_failure [OF assms(1) called_store assms(2,3)]
      by (simp add: step_Checkpoint_def failed_call_def)
  next
    case None
    let ?w1 = "called w x (Call_Checkpoint b True)"
    let ?st1 = "st\<lparr>lo_CheckpointID := ''checkpoint_'' @ take 24 (digestState c st)\<rparr>"
    obtain e1 s1 where sc: "SaveCheckpoint (lv_Sys c) (store_env c ?w1)
        (loop_checkpoint c i b ?st1 (ee_Now (store_env c ?w1))) (lw_store ?w1) = (e1, s1)" by fastforce
    have wf: "store_wf (lw_store w)" using assms(1) by (simp add: log_ok_def)
    have r1: "remembers c i w (store_result ?w1 s1)"
      using sc remembers_result [OF remembers_same [OF assms(1) called_store]] update_events(3) store_op_wf(3) [OF wf]
      by (metis called_store snd_conv)
    let ?w2 = "store_result ?w1 s1"
    obtain e2 s2 where us: "UpdateRunStatus (lv_Sys c) (store_env c ?w2) i ''completed'' (lw_store ?w2) = (e2, s2)" by fastforce
    have wf1: "store_wf (lw_store ?w2)" using r1 by (simp add: remembers_def log_ok_def)
    have r2: "remembers c i w (store_result ?w2 s2)"
      using us remembers_result [OF r1] update_events(1) store_op_wf(1) [OF wf1] by (metis snd_conv)
    show ?thesis
      using Pair None sc us r1 r2 by (cases e1; cases e2) (simp_all add: step_Checkpoint_def Let_def)
  qed
qed

lemma refresh_binding_remembers:
  assumes "log_ok c i (lw_store w)" and "clock_reads c" and "json_keeps c"
  shows "remembers c i w (snd (refresh_binding c i b st (called w x call)))"
proof (cases "au_RefreshBinding (lv_Authority c)")
  case None
  then show ?thesis using remembers_same [OF assms(1)] by (simp add: refresh_binding_def)
next
  case (Some refresh)
  let ?w = "called w x call"
  obtain r y where rf: "refresh b (lw_ext ?w) = (r, y)" by fastforce
  show ?thesis
  proof (cases "case r of Inl _ \<Rightarrow> True | Inr b' \<Rightarrow> \<not> validBinding b'")
    case True
    then show ?thesis using Some rf remembers_failure [OF assms(1) _ assms(2,3), of "?w\<lparr>lw_ext := y\<rparr>"]
      by (simp add: refresh_binding_def)
  next
    case False
    let ?b = "projr r" let ?w1 = "called ?w y (Call_Refresh ?b)"
    obtain e s where ub: "UpdateRunBinding (lv_Sys c) (store_env c ?w1) i (lb_CandidateSnapshot ?b) (lb_EnvironmentID ?b)
        (lb_PolicyVersion ?b) (lw_store ?w1) = (e, s)" by fastforce
    have wf: "store_wf (lw_store w)" using assms(1) by (simp add: log_ok_def)
    have "lw_store ?w1 = lw_store w" by simp
    then have "remembers c i w (store_result ?w1 s)"
      using ub remembers_result [OF remembers_same [OF assms(1)]] update_events(2) store_op_wf(2) [OF wf]
      by (metis snd_conv)
    then show ?thesis using Some rf False ub by (cases e) (simp_all add: refresh_binding_def Let_def)
  qed
qed

lemma loop_step_remembers:
  assumes "log_ok c i (lw_store w)" and "clock_reads c" and "json_keeps c"
  shows "remembers c i w (snd (loop_step c i b st w))"
proof -
  note stop = remembers_stop [OF assms(1) _ assms(2,3)] and failed = remembers_failure [OF assms(1) _ assms(2,3)]
    and fail = remembers_fail [OF assms(1) _ assms(2,3)]
  have same: "remembers c i w w" "remembers c i w (w\<lparr>lw_ext := x\<rparr>)" "remembers c i w (called w x call)" for x call
    by (rule remembers_same [OF assms(1)], simp)+
  show ?thesis
  proof (cases "lo_Phase st")
    case Phase_Patch
    then show ?thesis
      using refresh_binding_remembers [OF assms]
      by (auto simp: loop_step_def step_Patch_def Let_def failed_call_def failed split: prod.split option.split)
  next
    case Phase_Checkpoint
    then show ?thesis using step_Checkpoint_remembers [OF assms] by (simp add: loop_step_def)
  qed (auto simp: loop_step_def step_Inspect_def step_Plan_def step_Parallel_def step_TargetedTest_def
        step_FullVerify_def step_DiagnoseRetry_def failed_call_def Let_def late_phase_def
        stop failed fail same split: prod.split sum.split option.split)
qed

subsection \<open>Loading and resuming\<close>

text \<open>\<open>log_of\<close> is the log as it is read back; \<open>loop_load\<close> folds it whole.\<close>

lemma loop_load_fold:
  assumes "view_ok (lv_Sys c, e, i, s)"
  shows "loop_load c i b e s =
    (if length (log_of (lv_Sys c) i s) < 10000
     then fold_log (load_event c b) (log_of (lv_Sys c) i s) (fresh_state Phase_Inspect b) else None)"
  using store_pages.load_pages_log [OF assms, of "load_event c b" 10 "fresh_state Phase_Inspect b"]
  by (simp add: loop_load_def view_log_def)

definition log_states :: "'x loop_controller \<Rightarrow> 't event list \<Rightarrow> loop_state option list" where
  "log_states c es = map (\<lambda>e. lv_Dec c (ev_Payload e)) (filter (\<lambda>e. ev_Type e = loop_state_type) es)"

lemma fold_log_load:
  "fold_log (load_event c b) es st =
    (if list_all (\<lambda>q. q \<noteq> None \<and> lo_Binding (the q) = b) (log_states c es)
     then Some (if log_states c es = [] then st else the (last (log_states c es))) else None)"
proof (induction es arbitrary: st)
  case (Cons e es)
  then show ?case by (auto simp: load_event_def log_states_def split: option.split)
qed (simp add: log_states_def)

lemma log_states_of:
  assumes "readable sys i s"
  shows "log_states c (log_of sys i s) = log_states c (events_of (es_db s) i)"
proof -
  have "scan_event sys r \<noteq> None \<Longrightarrow> ev_Type (the (scan_event sys r)) = ev_Type r
      \<and> ev_Payload (the (scan_event sys r)) = ev_Payload r" for r
    by (auto simp: scan_event_def split: option.splits)
  then have "log_states c (map (the \<circ> scan_event sys) rs) = log_states c rs"
    if "list_all (\<lambda>r. scan_event sys r \<noteq> None) rs" for rs
    using that by (induction rs) (auto simp: log_states_def)
  then show ?thesis using assms unfolding log_of_def readable_def scan_event_readable by blast
qed

lemma stored_state_last:
  "stored_state c i s = (if log_states c (events_of (es_db s) i) = [] then None else last (log_states c (events_of (es_db s) i)))"
  by (simp add: stored_state_def log_states_def state_rows_def last_map)

lemma loop_load_NoneI: "\<not> (es_open s \<and> es_validOpaque i \<and> ee_Ctx e \<noteq> Ctx_Nil \<and> ee_Read e 0) \<Longrightarrow> loop_load c i b e s = None"
  by (auto simp: loop_load_def view_page_def ListEvents_def eval_nat_numeral)

text \<open>Resuming a run. When the store can be read, \<open>load\<close> returns a state exactly when the log of the
  run has fewer than ten thousand events and every state in it decodes to one with the binding of the
  request; it is then the last state that was appended, or the initial state of a run that has none.\<close>

theorem loop_load_exact:
  assumes "view_ok (lv_Sys c, e, i, s)"
  shows "loop_load c i b e s = Some st \<longleftrightarrow>
      length (events_of (es_db s) i) < 10000
      \<and> list_all (\<lambda>q. q \<noteq> None \<and> lo_Binding (the q) = b) (log_states c (events_of (es_db s) i))
      \<and> st = (if log_states c (events_of (es_db s) i) = [] then fresh_state Phase_Inspect b
              else the (stored_state c i s))"
proof -
  have "readable (lv_Sys c) i s" using assms by (simp add: view_ok_def)
  note st = log_states_of [OF this, of c]
  have "length (log_of (lv_Sys c) i s) = length (events_of (es_db s) i)" by (simp add: log_of_def)
  then show ?thesis
    by (auto simp: loop_load_fold [OF assms] fold_log_load st stored_state_last)
qed

lemma loop_load_state:
  assumes "loop_load c i b e s = Some st" and "log_ok c i s"
  shows "lo_Binding st = b \<and> (stored_state c i s = Some st \<or> stored_state c i s = None \<and> st = fresh_state Phase_Inspect b)"
proof -
  have "view_ok (lv_Sys c, e, i, s)"
    using assms loop_load_NoneI [of s i e c b] by (auto simp: view_ok_def log_ok_def)
  from loop_load_fold [OF this, of b] assms(1)
  have l: "fold_log (load_event c b) (log_of (lv_Sys c) i s) (fresh_state Phase_Inspect b) = Some st"
    by (simp split: if_splits)
  have r: "readable (lv_Sys c) i s" using assms(2) by (simp add: log_ok_def)
  let ?L = "log_states c (events_of (es_db s) i)"
  have all: "list_all (\<lambda>q. q \<noteq> None \<and> lo_Binding (the q) = b) ?L"
    and st: "st = (if ?L = [] then fresh_state Phase_Inspect b else the (last ?L))"
    using l by (simp_all add: fold_log_load log_states_of [OF r, of c] split: if_splits)
  show ?thesis
  proof (cases "?L = []")
    case True
    then show ?thesis using st by (simp add: stored_state_last fresh_state_def)
  next
    case False
    then have "last ?L \<noteq> None \<and> lo_Binding (the (last ?L)) = b" using all by (simp add: list_all_iff)
    then show ?thesis using st False by (auto simp: stored_state_last)
  qed
qed

text \<open>A binding that moved: once a state with another binding is in the log, the run is refused. The code
  itself appends such states: the events before a patch carry the binding the patch replaces.\<close>

lemma moved_binding_not_resumable:
  assumes "log_ok c i (lw_store w)" and "cand \<in> set (log_states c (events_of (es_db (lw_store w)) i))"
    and "cand = Some q" and "lo_Binding q \<noteq> b"
  shows "\<exists>e k. \<forall>n. RunLoop n c i b w = Some ((zero_state, Some e), w\<lparr>lw_ops := k\<rparr>)"
proof (cases rule: RunLoop_split [of c i b w])
  case (started st)
  have v: "view_ok (lv_Sys c, lv_Env c (lw_ops w + 1), i, lw_store w)"
    using assms(1) started(1) loop_load_NoneI [of "lw_store w" i "lv_Env c (lw_ops w + 1)" c b]
    by (auto simp: view_ok_def log_ok_def)
  have r: "readable (lv_Sys c) i (lw_store w)" using assms(1) by (simp add: log_ok_def)
  have "list_all (\<lambda>q. q \<noteq> None \<and> lo_Binding (the q) = b) (log_states c (events_of (es_db (lw_store w)) i))"
    using started(1) loop_load_fold [OF v, of b] by (simp add: fold_log_load log_states_of [OF r, of c] split: if_splits)
  then show ?thesis using assms(2-4) by (auto simp: list_all_iff)
qed blast

subsection \<open>Completion across processes\<close>

definition history_ok :: "'x loop_controller \<Rightarrow> string \<Rightarrow> 'x loop_world \<Rightarrow> bool" where
  "history_ok c i w \<longleftrightarrow> log_ok c i (lw_store w)
     \<and> (case stored_state c i (lw_store w) of None \<Rightarrow> True | Some s \<Rightarrow> phase_proof (lo_Phase s) (lo_Binding s) (lw_trace w))"

definition synced :: "'x loop_controller \<Rightarrow> string \<Rightarrow> binding \<Rightarrow> loop_state \<Rightarrow> 'x loop_world \<Rightarrow> bool" where
  "synced c i b st w \<longleftrightarrow> lo_Binding st = b \<and> phase_proof (lo_Phase st) b (lw_trace w) \<and> log_ok c i (lw_store w)
     \<and> utf8_binding b
     \<and> (case stored_state c i (lw_store w) of None \<Rightarrow> True
        | Some s \<Rightarrow> late_phase (lo_Phase s) \<longrightarrow> lo_Phase s = lo_Phase st \<and> lo_Binding s = b)"

definition completed_ok :: "loop_state \<Rightarrow> loop_error option \<Rightarrow> 'x loop_world \<Rightarrow> bool" where
  "completed_ok st e w \<longleftrightarrow> (e = None \<longrightarrow> lo_Phase st = Phase_Completed \<and> phase_proof Phase_Completed (lo_Binding st) (lw_trace w))"

lemma synced_history: "synced c i b st w \<Longrightarrow> history_ok c i w"
  using phase_proof_early by (auto simp: synced_def history_ok_def split: option.splits)

lemma loop_step_binding:
  assumes "loop_step c i b st w = (Next b' st', w')"
  shows "b' = b \<or> (\<exists>refresh x x'. au_RefreshBinding (lv_Authority c) = Some refresh \<and> refresh b x = (Inr b', x'))"
proof (cases "lo_Phase st")
  case Phase_Patch
  then show ?thesis
    using assms by (auto simp: loop_step_def step_Patch_def refresh_binding_def failed_call_def recordFailure_def stop_persisted_def
        Let_def split: prod.splits option.splits sum.splits if_splits)
qed (use assms in \<open>auto simp: loop_step_def step_Inspect_def step_Plan_def step_Parallel_def step_TargetedTest_def
    step_FullVerify_def step_DiagnoseRetry_def step_Checkpoint_def failed_call_def loop_fail_def recordFailure_def stop_persisted_def
    Let_def split: prod.splits option.splits sum.splits if_splits\<close>)

lemma step_history:
  assumes "synced c i b st w" and "clock_reads c" and "json_keeps c" and "loop_step c i b st w = (r, w')"
  shows "history_ok c i w'"
proof -
  have rem: "remembers c i w w'"
    using loop_step_remembers [of c i w b st] assms by (simp add: synced_def)
  obtain calls where tr: "lw_trace w' = lw_trace w @ calls"
      "late_phase (lo_Phase st) \<longrightarrow> list_all (\<lambda>x. \<not> is_mutation x) calls"
    using loop_step_trace [OF assms(4)] by blast
  have "phase_proof (lo_Phase st) b (lw_trace w')"
    unfolding tr(1) using assms(1) tr(2) by (intro phase_proof_calls) (auto simp: synced_def)
  then show ?thesis
    using rem assms(1) phase_proof_early by (auto simp: remembers_def history_ok_def synced_def split: option.splits)
qed

lemma loop_iter_history:
  assumes "loop_iter n c i b st w = Some ((stf, ef), wz)" and "synced c i b st w" and "clock_reads c" and "json_keeps c"
    and "refresh_utf8 c"
  shows "history_ok c i wz \<and> completed_ok stf ef wz"
proof (rule loop_iter_inv [OF assms(1), where I = "synced c i" and
    M = "\<lambda>b st w. lo_Binding st = b \<and> utf8_binding b \<and> phase_proof (lo_Phase st) b (lw_trace w) \<and> history_ok c i w" and
    J = "\<lambda>st e w. history_ok c i w \<and> completed_ok st e w"])
  fix b st w r w' assume s: "synced c i b st w" and "loop_step c i b st w = (r, w')"
  then show "case r of
      Next b' st' \<Rightarrow> lo_Binding st' = b' \<and> utf8_binding b' \<and> phase_proof (lo_Phase st') b' (lw_trace w') \<and> history_ok c i w'
    | Stop st' e \<Rightarrow> history_ok c i w' \<and> completed_ok st' e w'"
    using step_history [OF s assms(3,4)] loop_step_proof [of c i b st w r w'] loop_step_binding [of c i b st w _ _ w'] assms(5)
    by (fastforce simp: synced_def completed_ok_def refresh_utf8_def split: loop_result.splits)
next
  fix b st w w' assume "lo_Binding st = b \<and> utf8_binding b \<and> phase_proof (lo_Phase st) b (lw_trace w) \<and> history_ok c i w"
    and p: "loop_persist c i st w = (None, w')"
  then show "synced c i b st w'"
    using loop_persist_store [OF p _ assms(3,4)] loop_persist_trace [OF p]
    by (auto simp: synced_def history_ok_def split: option.splits)
next
  fix b st w w' e assume "lo_Binding st = b \<and> utf8_binding b \<and> phase_proof (lo_Phase st) b (lw_trace w) \<and> history_ok c i w"
    and p: "loop_persist c i st w = (Some e, w')"
  then show "history_ok c i w' \<and> completed_ok zero_state (Some e) w'"
    using loop_persist_store [OF p _ assms(3,4)] loop_persist_trace [OF p] phase_proof_early
    by (auto simp: completed_ok_def history_ok_def split: option.splits)
qed (use assms(2) synced_history in \<open>auto simp: completed_ok_def\<close>)

text \<open>The worlds a run goes through while only the loop writes its log: it starts with an empty log, \<open>Run\<close>
  is called any number of times, with any binding in UTF-8 and any failures of the store (a crash is a write
  that fails), and others may change the store but not the events of this run.\<close>

inductive loop_reach :: "'x loop_controller \<Rightarrow> string \<Rightarrow> 'x loop_world \<Rightarrow> bool" for c i where
  reach_new: "store_wf (lw_store w) \<Longrightarrow> events_of (es_db (lw_store w)) i = [] \<Longrightarrow> lw_trace w = [] \<Longrightarrow> loop_reach c i w"
| reach_run: "loop_reach c i w \<Longrightarrow> utf8_binding b \<Longrightarrow> RunLoop n c i b w = Some (r, w') \<Longrightarrow> loop_reach c i w'"
| reach_other: "loop_reach c i w \<Longrightarrow> store_wf s \<Longrightarrow> events_of (es_db s) i = events_of (es_db (lw_store w)) i
    \<Longrightarrow> loop_reach c i (w\<lparr>lw_store := s, lw_ext := x, lw_ops := k\<rparr>)"

lemma fresh_state_simps [simp]: "lo_Phase (fresh_state p b) = p" "lo_Binding (fresh_state p b) = b"
  "lo_FailedActions (fresh_state p b) = []" "lo_RetryCount (fresh_state p b) = 0"
  by (simp_all add: fresh_state_def)

lemma RunLoop_history:
  assumes "RunLoop n c i b w = Some ((st, e), w')" and "history_ok c i w" and "clock_reads c" and "json_keeps c"
    and "refresh_utf8 c" and "utf8_binding b"
  shows "history_ok c i w' \<and> completed_ok st e w'"
proof (cases rule: RunLoop_split [of c i b w])
  case (stopped e k)
  then show ?thesis using assms by (auto simp: history_ok_def completed_ok_def split: option.splits)
next
  case (started st0)
  have "log_ok c i (lw_store w)" using assms(2) by (simp add: history_ok_def)
  note st0 = loop_load_state [OF started(1) this]
  have "phase_proof (lo_Phase st0) b (lw_trace w)"
  proof (cases "stored_state c i (lw_store w)")
    case None
    then have "st0 = fresh_state Phase_Inspect b" using st0 by simp
    then show ?thesis by (simp add: phase_proof_early late_phase_def)
  next
    case (Some s)
    then show ?thesis using st0 assms(2) by (simp add: history_ok_def)
  qed
  then have "synced c i b st0 (w\<lparr>lw_ops := lw_ops w + 2\<rparr>)"
    using assms(2,6) st0 by (auto simp: synced_def history_ok_def split: option.splits)
  then show ?thesis using loop_iter_history [OF _ _ assms(3,4,5)] assms(1) started(2) by simp
qed

lemma loop_reach_history:
  assumes "loop_reach c i w" and "clock_reads c" and "json_keeps c" and "refresh_utf8 c"
  shows "history_ok c i w"
  using assms(1)
proof induction
  case (reach_new w)
  then show ?case by (simp add: history_ok_def log_ok_def readable_def stored_state_def state_rows_def)
next
  case (reach_run w b n r w')
  then show ?case using RunLoop_history [OF _ _ assms(2,3,4)] by (cases r) blast
next
  case (reach_other w s x k)
  then show ?case
    using stored_state_cong [OF reach_other(3), of c] readable_cong [OF reach_other(3)]
    by (simp add: history_ok_def log_ok_def split: option.splits)
qed


subsection \<open>A run\<close>

text \<open>Sample: the first patch fails, the second plan is verified and completed. States are encoded by their
  phase; a state with another binding has no code.\<close>

fun phase_code :: "phase \<Rightarrow> string" where
  "phase_code Phase_Inspect = ''A''"
| "phase_code Phase_Hypothesis = ''B''"
| "phase_code Phase_Plan = ''C''"
| "phase_code Phase_Parallel = ''D''"
| "phase_code Phase_Patch = ''E''"
| "phase_code Phase_TargetedTest = ''F''"
| "phase_code Phase_DiagnoseRetry = ''G''"
| "phase_code Phase_FullVerify = ''H''"
| "phase_code Phase_Checkpoint = ''I''"
| "phase_code Phase_Completed = ''J''"
| "phase_code Phase_Failed = ''K''"
| "phase_code Phase_HumanCheckpoint = ''L''"
| "phase_code (Phase_Unknown s) = CHR ''U'' # hex_encode s"

definition code_phases :: "(string \<times> phase) list" where
  "code_phases = map (\<lambda>p. (phase_code p, p)) [Phase_Inspect, Phase_Hypothesis, Phase_Plan, Phase_Parallel, Phase_Patch,
     Phase_TargetedTest, Phase_DiagnoseRetry, Phase_FullVerify, Phase_Checkpoint, Phase_Completed, Phase_Failed,
     Phase_HumanCheckpoint]"

definition code_phase :: "string \<Rightarrow> phase" where
  "code_phase s = (case map_of code_phases s of Some p \<Rightarrow> p | None \<Rightarrow> Phase_Unknown (the (hex_decode (tl s))))"

definition loop_binding :: binding where
  "loop_binding = \<lparr>lb_RepositoryID = ''r'', lb_CandidateSnapshot = replicate 64 CHR ''a'', lb_EnvironmentID = ''n'', lb_PolicyVersion = ''p''\<rparr>"

definition loop_enc :: "loop_state \<Rightarrow> string" where
  "loop_enc st = (if lo_Binding st = loop_binding then phase_code (lo_Phase st) else ''Z'')"

definition loop_dec :: "string \<Rightarrow> loop_state option" where
  "loop_dec s = (if s = ''Z'' then None else Some (fresh_state (code_phase s) loop_binding))"

lemma code_phase_code: "code_phase (phase_code p) = p"
  by (cases p) (simp_all add: code_phase_def code_phases_def hex_decode_encode)

lemma loop_dec_enc: "loop_dec (loop_enc st)
    = (if lo_Binding st = loop_binding then Some (fresh_state (lo_Phase st) loop_binding) else None)"
proof -
  have "phase_code p \<noteq> ''Z''" for p by (cases p) simp_all
  then show ?thesis by (simp add: loop_dec_def loop_enc_def code_phase_code)
qed

definition sample_action :: "string \<Rightarrow> action" where
  "sample_action f = \<lparr>ac_ID = f, ac_Kind = ''k'', ac_Fingerprint = f\<rparr>"

definition sample_plan :: "string \<Rightarrow> loop_plan" where
  "sample_plan f = \<lparr>pn_Binding = loop_binding, pn_Commands = [sample_action ''c''], pn_Patch = sample_action f,
     pn_TargetedTest = sample_action ''t'', pn_FullVerify = sample_action ''v'', pn_Destructive = False, pn_Ambiguous = False\<rparr>"

definition sample_authority :: "unit loop_authority" where
  "sample_authority = \<lparr>au_ParallelCommands = (\<lambda>_ _ x. (None, x)),
     au_PatchCandidate = (\<lambda>_ a x. (if ac_ID a = ''p1'' then Some \<lparr>ge_Kind = Err_Other, ge_Text = ''bad''\<rparr> else None, x)),
     au_TargetedTest = (\<lambda>_ _ x. (None, x)), au_FullVerify = (\<lambda>_ _ x. (None, x)), au_Checkpoint = (\<lambda>_ x. (None, x)),
     au_RefreshBinding = None\<rparr>"

definition sample_loop :: "unit loop_controller" where
  "sample_loop = \<lparr>lv_Sys = sample_sys, lv_Enc = loop_enc, lv_Dec = loop_dec, lv_Env = (\<lambda>k. good_env (int k)),
     lv_Ctx = (\<lambda>_. Ctx_Live),
     lv_Model = \<lparr>mo_Inspect = (\<lambda>_ x. (Inr ''h'', x)), mo_Plan = (\<lambda>_ _ x. (Inr (sample_plan ''p1''), x)),
                 mo_Diagnose = (\<lambda>_ _ _ x. (Inr (sample_plan ''p2''), x))\<rparr>,
     lv_Authority = sample_authority, lv_MaxRetries = 3\<rparr>"

definition sample_world :: "unit loop_world" where
  "sample_world = \<lparr>lw_store = sample_store\<lparr>es_db := (es_db sample_store)\<lparr>ed_runs :=
       [\<lparr>er_ID = ''r1'', er_TaskID = ''t'', er_RepositoryID = ''r'', er_GenerationID = ''g'', er_EnvironmentID = ''n'',
         er_PolicyVersion = ''p'', er_CandidateSnapshot = replicate 64 CHR ''a'', er_Status = ''running'', er_CreatedAt = ''1'',
         er_UpdatedAt = ''1''\<rparr>]\<rparr>\<rparr>, lw_ext = (), lw_ops = 5, lw_trace = []\<rparr>"

definition sample_outcome where
  "sample_outcome = the (RunLoop 41 sample_loop ''r1'' loop_binding sample_world)"

lemma sample_outcome_facts: "RunLoop 41 sample_loop ''r1'' loop_binding sample_world \<noteq> None
   \<and> snd (fst sample_outcome) = None \<and> length (lw_trace (snd sample_outcome)) = 8"
  by code_simp

lemma sample_ran: "RunLoop 41 sample_loop ''r1'' loop_binding sample_world
    = Some ((fst (fst sample_outcome), None), snd sample_outcome)"
  using sample_outcome_facts by (auto simp: sample_outcome_def prod_eq_iff)

lemma sample_loaded: "loop_load sample_loop ''r1'' loop_binding (lv_Env sample_loop (lw_ops sample_world + 1))
    (lw_store sample_world) = Some (fresh_state Phase_Inspect loop_binding)"
proof -
  have "events_of (es_db (lw_store sample_world)) ''r1'' = []" by code_simp
  moreover have "es_open (lw_store sample_world)" "es_validOpaque ''r1''" by code_simp+
  ultimately have "view_page (sample_sys, good_env 6, ''r1'', lw_store sample_world) 0 = Some []"
    by (simp add: view_page_def ListEvents_def good_env_def maxPageSize_def page_rows_def)
  then show ?thesis by (simp add: loop_load_def sample_loop_def sample_world_def eval_nat_numeral)
qed

lemma sample_retries: "loaded_retries sample_loop ''r1'' loop_binding sample_world = 0"
  using sample_loaded by (simp add: loaded_retries_def)

lemma sample_wf: "store_wf (lw_store sample_world)"
proof -
  have "es_db sample_store = empty_events_db"
    by code_simp
  then show ?thesis
    using es_Open_wf [OF sample_store_open]
    by (simp add: ev_defs sample_world_def empty_events_db_def events_of_def)
qed

lemma sample_no_events: "events_of (es_db (lw_store sample_world)) ''r1'' = []"
  by code_simp

lemma sample_json: "json_keeps sample_loop"
  by (simp add: json_keeps_def sample_loop_def loop_dec_enc)

lemma sample_refresh: "refresh_utf8 sample_loop"
  by (simp add: refresh_utf8_def sample_loop_def sample_authority_def)

lemma sample_utf8: "utf8_binding loop_binding"
  by code_simp

lemma sample_clock: "clock_reads sample_loop"
  by (simp add: clock_reads_def sample_loop_def sample_sys_def good_env_def parse_nat_def digits_of_digits)

theorem RunLoop_returns_witness:
  "\<exists>r. \<forall>m \<ge> 41. RunLoop m sample_loop ''r1'' loop_binding sample_world = Some r"
  by (rule RunLoop_returns) (simp add: sample_retries, simp add: sample_loop_def)

theorem RunLoop_budget_witness:
  "count_calls is_diagnose (lw_trace (snd sample_outcome)) \<le> 3
   \<and> count_calls is_patch (lw_trace (snd sample_outcome)) \<le> 4"
  using RunLoop_budget [OF sample_ran] by (simp add: sample_retries) (simp add: sample_loop_def sample_world_def)

theorem failed_actions_not_rerun_witness:
  "\<exists>tr. lw_trace (snd sample_outcome) = tr \<and> no_rerun {} tr"
  using failed_actions_not_rerun [OF sample_loaded _ sample_ran]
  by (simp add: plan_fresh_def plan_running_def) (simp add: sample_world_def)

theorem loop_load_exact_witness:
  "loop_load sample_loop ''r1'' loop_binding (good_env 6) (lw_store sample_world)
     = Some (fresh_state Phase_Inspect loop_binding)"
proof -
  have "es_open (lw_store sample_world)" "es_validOpaque ''r1''" by code_simp+
  then have v: "view_ok (lv_Sys sample_loop, good_env 6, ''r1'', lw_store sample_world)"
    using sample_wf by (simp add: view_ok_def readable_def sample_no_events good_env_def)
  show ?thesis unfolding loop_load_exact [OF v] by (simp add: sample_no_events log_states_def)
qed


text \<open>\<open>AppendEvent\<close> takes an event of any type from any caller. One event that claims a completed state makes
  the next \<open>Run\<close> return it without an error, although nothing was patched, tested or verified.\<close>

lemma forged_state_completes:
  "case AppendEvent sample_sys (good_env 5) ''r1'' ''loop.state'' (loop_enc (fresh_state Phase_Completed loop_binding)) (lw_store sample_world) of
     (r, s) \<Rightarrow> is_ok r
       \<and> (case RunLoop 41 sample_loop ''r1'' loop_binding (sample_world\<lparr>lw_store := s\<rparr>) of
             Some ((st, e), w) \<Rightarrow> lo_Phase st = Phase_Completed \<and> e = None \<and> lw_trace w = [] | None \<Rightarrow> False)"
  by code_simp

end
