(* ===== verification/Publication_Adapter.thy ===== *)
theory Publication_Adapter
  imports Go_Paths
begin

section \<open>The publication adapter (internal/publication/publication.go)\<close>

text \<open>
  Checkpoints, pushes, pull requests, releases and workflows, off unless a gate is open. The runner of
  host commands and the snapshot provider are parameters that act on a world; every command run is
  recorded. The theory shows that nothing but reads of the remote reference is run unless the request
  executes, the gate allows it and the candidate is the verified one.
\<close>

subsection \<open>Data\<close>

datatype pub_error = PB_ErrRejected | PB_ErrUnauthorized | PB_ErrDisabled | PB_ErrStale

definition KindGitCheckpoint :: string where "KindGitCheckpoint = ''git_checkpoint''"
definition KindJJCheckpoint :: string where "KindJJCheckpoint = ''jj_checkpoint''"
definition KindGitPush :: string where "KindGitPush = ''git_push''"
definition KindGitHubPR :: string where "KindGitHubPR = ''github_pr''"
definition KindRelease :: string where "KindRelease = ''release''"
definition KindDagger :: string where "KindDagger = ''dagger''"
definition KindDagu :: string where "KindDagu = ''dagu''"
definition ModePlan :: string where "ModePlan = ''plan''"
definition ModeExecute :: string where "ModeExecute = ''execute''"

lemmas kind_defs = KindGitCheckpoint_def KindJJCheckpoint_def KindGitPush_def KindGitHubPR_def KindRelease_def
  KindDagger_def KindDagu_def
lemmas mode_defs = ModePlan_def ModeExecute_def

record pub_candidate =
  pc_RepositoryRoot :: string
  pc_CandidateSnapshot :: string
  pc_VerifiedSnapshot :: string
  pc_EnvironmentID :: string
  pc_PolicyVersion :: string
  pc_Verified :: bool

record pub_request =
  pq_Kind :: string
  pq_Mode :: string
  pq_DryRun :: bool
  pq_ConfirmationToken :: string
  pq_Remote :: string
  pq_Ref :: string
  pq_ExpectedRemoteRef :: string
  pq_Base :: string
  pq_Head :: string
  pq_Title :: string
  pq_Body :: string
  pq_Workflow :: string

record pub_gate =
  pg_Enabled :: bool
  pg_AllowLocalMutation :: bool
  pg_AllowExternalMutation :: bool
  pg_ConfirmationToken :: string

record pub_command =
  pm_Executable :: string
  pm_Arguments :: "string list"

record pub_result =
  pr_Kind :: string
  pr_DryRun :: bool
  pr_Commands :: "pub_command list"
  pr_RemoteBefore :: string
  pr_RemoteAfter :: string

text \<open>The runner is given the directory, the executable and the arguments and returns the output or an
  error; the snapshot provider is given the root.\<close>

record 'x pub_adapter =
  pa_gate :: pub_gate
  pa_runner :: "string \<Rightarrow> string \<Rightarrow> string list \<Rightarrow> 'x \<Rightarrow> string option \<times> 'x"
  pa_snapshot :: "string \<Rightarrow> 'x \<Rightarrow> string option \<times> 'x"

record 'x pub_world =
  pw_ext :: 'x
  pw_runs :: "pub_command list"

subsection \<open>Validation\<close>

definition gate_token_ok :: "pub_gate \<Rightarrow> bool" where
  "gate_token_ok g \<longleftrightarrow> length (pg_ConfirmationToken g) \<le> 256 \<and> \<not> contains_any (pg_ConfirmationToken g) control_chars"

definition NewAdapter :: "pub_gate \<Rightarrow> 'x pub_adapter \<Rightarrow> 'x pub_adapter option" where
  "NewAdapter g a = (if gate_token_ok g then Some (a\<lparr>pa_gate := g\<rparr>) else None)"

definition WithGate :: "pub_gate \<Rightarrow> 'x pub_adapter \<Rightarrow> 'x pub_adapter option" where
  "WithGate g a = (if gate_token_ok g then Some (a\<lparr>pa_gate := g\<rparr>) else None)"

definition validHex :: "string \<Rightarrow> bool" where "validHex v = list_all lower_hex v"

definition pb_validIdentity :: "string \<Rightarrow> bool" where "pb_validIdentity v \<longleftrightarrow> length v = 64 \<and> validHex v"

definition pb_validCandidate :: "pub_candidate \<Rightarrow> bool" where
  "pb_validCandidate c \<longleftrightarrow> pc_Verified c \<and> is_abs (pc_RepositoryRoot c) \<and> clean (pc_RepositoryRoot c) = pc_RepositoryRoot c
     \<and> pb_validIdentity (pc_CandidateSnapshot c) \<and> pc_CandidateSnapshot c = pc_VerifiedSnapshot c
     \<and> pc_EnvironmentID c \<noteq> [] \<and> pc_PolicyVersion c \<noteq> []"

definition pb_validRequest :: "pub_request \<Rightarrow> bool" where
  "pb_validRequest q \<longleftrightarrow> pq_Kind q \<noteq> [] \<and> (pq_Mode q = [] \<or> pq_Mode q = ModePlan \<or> pq_Mode q = ModeExecute)
     \<and> length (pq_ConfirmationToken q) \<le> 256 \<and> \<not> contains_any (pq_ConfirmationToken q) control_chars"

definition validRef :: "string \<Rightarrow> bool" where
  "validRef v \<longleftrightarrow> v \<noteq> [] \<and> length v \<le> 256 \<and> \<not> contains_any v (control_chars @ '' ~^:?*['' @ [CHR 0x5C]) \<and> \<not> sublist ''..'' v"

definition validExpectedRef :: "string \<Rightarrow> bool" where
  "validExpectedRef v \<longleftrightarrow> v = [] \<or> (length v = 40 \<and> validHex v)"

definition validRemote :: "string \<Rightarrow> bool" where
  "validRemote v \<longleftrightarrow> v \<noteq> [] \<and> length v \<le> 256 \<and> \<not> contains_any v control_chars"

definition pb_containsSecret :: "string \<Rightarrow> bool" where
  "pb_containsSecret v = list_ex (\<lambda>m. sublist m (to_lower v))
     [''authorization'', ''bearer '', ''-----begin private key-----'', ''ghp_'', ''github_pat_'', ''sk-proj-'',
      ''access_token'', ''private_key'']"

definition validText :: "string \<Rightarrow> nat \<Rightarrow> bool" where
  "validText v n \<longleftrightarrow> length v \<le> n \<and> \<not> contains_any v control_chars \<and> \<not> pb_containsSecret v"

definition requiresExternal :: "string \<Rightarrow> bool" where
  "requiresExternal k \<longleftrightarrow> k \<noteq> KindGitCheckpoint \<and> k \<noteq> KindJJCheckpoint"

subsection \<open>Commands\<close>

definition cmd :: "string \<Rightarrow> string list \<Rightarrow> pub_command" where
  "cmd exe as = \<lparr>pm_Executable = exe, pm_Arguments = as\<rparr>"

definition checkpoint_message :: "pub_request \<Rightarrow> string" where
  "checkpoint_message q = (if pq_Title q = [] then ''RepoWorker local checkpoint'' else pq_Title q)"

definition head_ref :: "string \<Rightarrow> string" where "head_ref r = ''refs/heads/'' @ r"

definition pub_commands :: "pub_request \<Rightarrow> pub_command list option" where
  "pub_commands q =
    (let message = checkpoint_message q; k = pq_Kind q
     in if \<not> validText message 256 \<or> \<not> validText (pq_Body q) 16384 then None
        else if k = KindGitCheckpoint
        then Some [cmd ''git'' [''add'', ''-A'', ''--'', ''.''], cmd ''git'' [''commit'', ''--no-verify'', ''-m'', message]]
        else if k = KindJJCheckpoint then Some [cmd ''jj'' [''commit'', ''-m'', message]]
        else if k = KindGitPush
        then (if \<not> validRef (pq_Ref q) \<or> \<not> validRemote (pq_Remote q) \<or> \<not> validExpectedRef (pq_ExpectedRemoteRef q) then None
              else Some [cmd ''git'' [''push'', ''--no-verify'', pq_Remote q, ''HEAD:refs/heads/'' @ pq_Ref q]])
        else if k = KindGitHubPR
        then (if \<not> validRef (pq_Base q) \<or> \<not> validRef (pq_Head q) \<or> \<not> validText (pq_Title q) 256 \<or> pq_Body q = [] then None
              else Some [cmd ''gh'' [''pr'', ''create'', ''--base'', pq_Base q, ''--head'', pq_Head q, ''--title'', pq_Title q,
                     ''--body'', pq_Body q]])
        else if k = KindRelease
        then (if \<not> validRef (pq_Ref q) \<or> \<not> validText (pq_Title q) 256 then None
              else Some [cmd ''gh'' [''release'', ''create'', pq_Ref q, ''--title'', pq_Title q, ''--notes'', pq_Body q, ''--draft'']])
        else if k = KindDagger
        then (if \<not> validRef (pq_Ref q) then None else Some [cmd ''dagger'' [''call'', ''publish'', ''--ref'', pq_Ref q]])
        else if k = KindDagu
        then (if \<not> validRef (pq_Workflow q) then None else Some [cmd ''dagu'' [''start'', pq_Workflow q]])
        else None)"

subsection \<open>Running\<close>

definition run_command :: "'x pub_adapter \<Rightarrow> string \<Rightarrow> pub_command \<Rightarrow> 'x pub_world \<Rightarrow> string option \<times> 'x pub_world" where
  "run_command a root c w =
    (case pa_runner a root (pm_Executable c) (pm_Arguments c) (pw_ext w) of
       (out, x) \<Rightarrow> (out, \<lparr>pw_ext = x, pw_runs = pw_runs w @ [c]\<rparr>))"

definition take_snapshot :: "'x pub_adapter \<Rightarrow> string \<Rightarrow> 'x pub_world \<Rightarrow> string option \<times> 'x pub_world" where
  "take_snapshot a root w = (case pa_snapshot a root (pw_ext w) of (sn, x) \<Rightarrow> (sn, w\<lparr>pw_ext := x\<rparr>))"

definition ls_remote :: "pub_request \<Rightarrow> pub_command" where
  "ls_remote q = cmd ''git'' [''ls-remote'', pq_Remote q, head_ref (pq_Ref q)]"

definition parse_ls_remote :: "pub_request \<Rightarrow> string \<Rightarrow> string option" where
  "parse_ls_remote q out =
    (case Go_Strings.fields out of
       [] \<Rightarrow> Some []
     | [h, r] \<Rightarrow> (if length h \<noteq> 40 \<or> \<not> validHex h \<or> r \<noteq> head_ref (pq_Ref q) then None else Some h)
     | _ \<Rightarrow> None)"

definition remoteRef :: "'x pub_adapter \<Rightarrow> string \<Rightarrow> pub_request \<Rightarrow> 'x pub_world \<Rightarrow> string option \<times> 'x pub_world" where
  "remoteRef a root q w =
    (case run_command a root (ls_remote q) w of
       (None, w') \<Rightarrow> (None, w')
     | (Some out, w') \<Rightarrow> (parse_ls_remote q out, w'))"

fun run_commands :: "'x pub_adapter \<Rightarrow> string \<Rightarrow> pub_command list \<Rightarrow> 'x pub_world \<Rightarrow> bool \<times> 'x pub_world" where
  "run_commands a root [] w = (True, w)"
| "run_commands a root (c # cs) w =
    (case run_command a root c w of
       (None, w') \<Rightarrow> (False, w')
     | (Some _, w') \<Rightarrow> run_commands a root cs w')"

definition gate_error :: "pub_gate \<Rightarrow> pub_request \<Rightarrow> pub_error option" where
  "gate_error g q =
    (if \<not> pg_Enabled g then Some PB_ErrDisabled
     else if requiresExternal (pq_Kind q)
     then (if \<not> pg_AllowExternalMutation g \<or> pq_ConfirmationToken q = [] \<or> pq_ConfirmationToken q \<noteq> pg_ConfirmationToken g
           then Some PB_ErrUnauthorized else None)
     else if \<not> pg_AllowLocalMutation g then Some PB_ErrUnauthorized else None)"

definition dry_run :: "pub_request \<Rightarrow> bool" where
  "dry_run q \<longleftrightarrow> pq_Mode q \<noteq> ModeExecute \<or> pq_DryRun q"

text \<open>The part of \<open>Publish\<close> after the gate, and the part before it.\<close>

definition execute_commands ::
  "'x pub_adapter \<Rightarrow> pub_candidate \<Rightarrow> pub_request \<Rightarrow> pub_result \<Rightarrow> 'x pub_world \<Rightarrow> (pub_error + pub_result) \<times> 'x pub_world" where
  "execute_commands a c q r w =
    (let root = pc_RepositoryRoot c
     in case run_commands a root (pr_Commands r) w of
          (False, w1) \<Rightarrow> (Inl PB_ErrRejected, w1)
        | (True, w1) \<Rightarrow>
            (case (if pq_Kind q = KindGitPush then remoteRef a root q w1 else (Some [], w1)) of
               (None, w2) \<Rightarrow> (Inl PB_ErrRejected, w2)
             | (Some after, w2) \<Rightarrow>
                 (case take_snapshot a root w2 of
                    (sn, w3) \<Rightarrow>
                      if sn \<noteq> Some (pc_CandidateSnapshot c) then (Inl PB_ErrStale, w3)
                      else (Inr (r\<lparr>pr_RemoteAfter := after\<rparr>), w3))))"

definition after_remote ::
  "'x pub_adapter \<Rightarrow> pub_candidate \<Rightarrow> pub_request \<Rightarrow> pub_result \<Rightarrow> 'x pub_world \<Rightarrow> (pub_error + pub_result) \<times> 'x pub_world" where
  "after_remote a c q r w =
    (if dry_run q then (Inr r, w)
     else (case gate_error (pa_gate a) q of Some e \<Rightarrow> (Inl e, w) | None \<Rightarrow> execute_commands a c q r w))"

definition planned_result :: "pub_request \<Rightarrow> pub_command list \<Rightarrow> pub_result" where
  "planned_result q cs = \<lparr>pr_Kind = pq_Kind q, pr_DryRun = dry_run q, pr_Commands = cs, pr_RemoteBefore = [], pr_RemoteAfter = []\<rparr>"

definition Publish ::
  "go_ctx \<Rightarrow> 'x pub_adapter \<Rightarrow> pub_candidate \<Rightarrow> pub_request \<Rightarrow> 'x pub_world \<Rightarrow> (pub_error + pub_result) \<times> 'x pub_world" where
  "Publish ctx a c q w =
    (if ctx = Ctx_Nil \<or> \<not> pb_validCandidate c \<or> \<not> pb_validRequest q \<or> (pq_Mode q = ModePlan \<and> pq_ConfirmationToken q \<noteq> [])
     then (Inl PB_ErrRejected, w)
     else (case take_snapshot a (pc_RepositoryRoot c) w of
             (sn, w1) \<Rightarrow>
               if sn \<noteq> Some (pc_CandidateSnapshot c) \<or> pc_VerifiedSnapshot c \<noteq> pc_CandidateSnapshot c then (Inl PB_ErrStale, w1)
               else (case pub_commands q of
                       None \<Rightarrow> (Inl PB_ErrRejected, w1)
                     | Some cs \<Rightarrow>
                         (let r = planned_result q cs
                          in if pq_Kind q = KindGitPush
                             then (case remoteRef a (pc_RepositoryRoot c) q w1 of
                                     (None, w2) \<Rightarrow> (Inl PB_ErrRejected, w2)
                                   | (Some before, w2) \<Rightarrow>
                                       if before \<noteq> pq_ExpectedRemoteRef q then (Inl PB_ErrStale, w2)
                                       else after_remote a c q (r\<lparr>pr_RemoteBefore := before\<rparr>) w2)
                             else after_remote a c q r w1))))"

text \<open>\<open>OSRunner.Run\<close>: which commands it starts at all.\<close>

definition validExecutable :: "string \<Rightarrow> bool" where
  "validExecutable v \<longleftrightarrow> v = ''git'' \<or> v = ''gh'' \<or> v = ''dagger'' \<or> v = ''dagu'' \<or> v = ''jj''"

definition OSRunner_Run ::
  "go_ctx \<Rightarrow> (string \<Rightarrow> string option) \<Rightarrow> (string \<Rightarrow> string \<Rightarrow> string list \<Rightarrow> 'x \<Rightarrow> (bool \<times> string) \<times> 'x)
   \<Rightarrow> string \<Rightarrow> string \<Rightarrow> string list \<Rightarrow> 'x \<Rightarrow> string option \<times> 'x" where
  "OSRunner_Run ctx look start dir exe as x =
    (if ctx = Ctx_Nil \<or> dir = [] \<or> \<not> is_abs dir \<or> \<not> validExecutable exe then (None, x)
     else (case look exe of
             None \<Rightarrow> (None, x)
           | Some path \<Rightarrow>
               (case start dir path as x of ((ok, out), x') \<Rightarrow> (if ok then Some (take 65536 out) else None, x'))))"

subsection \<open>What is run\<close>

lemma take_snapshot_runs [simp]: "take_snapshot a root w = (sn, w') \<Longrightarrow> pw_runs w' = pw_runs w"
  by (auto simp: take_snapshot_def split: prod.splits)

lemma run_command_runs: "run_command a root c w = (out, w') \<Longrightarrow> pw_runs w' = pw_runs w @ [c]"
  by (auto simp: run_command_def split: prod.splits)

lemma remoteRef_runs: "remoteRef a root q w = (r, w') \<Longrightarrow> pw_runs w' = pw_runs w @ [ls_remote q]"
  by (auto simp: remoteRef_def dest: run_command_runs split: prod.splits option.splits)

lemma run_commands_runs:
  "run_commands a root cs w = (ok, w') \<Longrightarrow> \<exists>done. pw_runs w' = pw_runs w @ done \<and> prefix done cs \<and> (ok \<longrightarrow> done = cs)"
proof (induction a root cs w rule: run_commands.induct)
  case (2 a root c cs w)
  obtain out w1 where rc: "run_command a root c w = (out, w1)" by fastforce
  note runs = run_command_runs [OF rc]
  show ?case
  proof (cases out)
    case None
    then show ?thesis using 2(2) rc runs by (auto intro: exI [of _ "[c]"])
  next
    case (Some out')
    then have "run_commands a root cs w1 = (ok, w')" using 2(2) rc by simp
    from 2(1) [OF rc [symmetric] _ this] Some show ?thesis using runs by auto
  qed
qed simp

text \<open>Authorised to mutate: executing, through an open gate, with the token of the gate when the mutation is
  external.\<close>

definition may_mutate :: "pub_gate \<Rightarrow> pub_request \<Rightarrow> bool" where
  "may_mutate g q \<longleftrightarrow> pq_Mode q = ModeExecute \<and> \<not> pq_DryRun q \<and> pg_Enabled g
     \<and> (if requiresExternal (pq_Kind q)
        then pg_AllowExternalMutation g \<and> pq_ConfirmationToken q \<noteq> [] \<and> pq_ConfirmationToken q = pg_ConfirmationToken g
        else pg_AllowLocalMutation g)"

lemma gate_error_None: "gate_error g q = None \<and> \<not> dry_run q \<longleftrightarrow> may_mutate g q"
  by (auto simp: gate_error_def dry_run_def may_mutate_def)

definition pub_reads :: "pub_request \<Rightarrow> pub_command list" where
  "pub_reads q = (if pq_Kind q = KindGitPush then [ls_remote q] else [])"

text \<open>Shapes of the runs: reads, then a part of the commands of the plan, then reads.\<close>

definition pub_runs_ok :: "pub_gate \<Rightarrow> pub_request \<Rightarrow> bool \<Rightarrow> pub_command list \<Rightarrow> bool" where
  "pub_runs_ok g q succeeded rs \<longleftrightarrow>
     (\<exists>done after. rs = done @ after \<and> prefix done (the (pub_commands q)) \<and> prefix after (pub_reads q)
        \<and> (done \<noteq> [] \<or> after \<noteq> [] \<longrightarrow> may_mutate g q)
        \<and> (succeeded \<longrightarrow> done = (if dry_run q then [] else the (pub_commands q))))"

lemma execute_commands_runs:
  assumes "execute_commands a c q r w = (res, w')" and "pub_commands q = Some (pr_Commands r)"
    and "may_mutate (pa_gate a) q"
  shows "\<exists>rs. pw_runs w' = pw_runs w @ rs \<and> pub_runs_ok (pa_gate a) q (is_ok res) rs"
proof -
  let ?root = "pc_RepositoryRoot c"
  obtain ok w1 where rc: "run_commands a ?root (pr_Commands r) w = (ok, w1)" by fastforce
  from run_commands_runs [OF rc] obtain done' where d: "pw_runs w1 = pw_runs w @ done'"
    "prefix done' (pr_Commands r)" "ok \<longrightarrow> done' = pr_Commands r" by blast
  have nd: "\<not> dry_run q" using assms(3) gate_error_None by blast
  have shape: "pub_runs_ok (pa_gate a) q s (done' @ after)"
    if "prefix after (pub_reads q)" "s \<longrightarrow> ok" for after s
    using that d(2,3) assms(2,3) nd by (auto simp: pub_runs_ok_def)
  show ?thesis
  proof (cases ok)
    case False
    then have "res = Inl PB_ErrRejected" "w' = w1" using assms(1) rc by (auto simp: execute_commands_def Let_def)
    then show ?thesis using d shape [of "[]" False] by auto
  next
    case True
    obtain rr w2 where rf: "(if pq_Kind q = KindGitPush then remoteRef a ?root q w1 else (Some [], w1)) = (rr, w2)" by fastforce
    have w2: "pw_runs w2 = pw_runs w1 @ pub_reads q"
      using rf remoteRef_runs [of a ?root q w1 rr w2] by (auto simp: pub_reads_def split: if_splits)
    have "pw_runs w' = pw_runs w2"
      using assms(1) rc True rf by (auto simp: execute_commands_def Let_def split: option.splits prod.splits if_splits)
    then show ?thesis using d(1) w2 shape [of "pub_reads q" "is_ok res"] True by auto
  qed
qed

lemma pub_runs_ok_Nil: "dry_run q \<or> \<not> s \<Longrightarrow> pub_runs_ok g q s []"
  by (auto simp: pub_runs_ok_def)

lemma after_remote_runs:
  assumes "after_remote a c q r w = (res, w')" and "pub_commands q = Some (pr_Commands r)"
  shows "\<exists>rs. pw_runs w' = pw_runs w @ rs \<and> pub_runs_ok (pa_gate a) q (is_ok res) rs"
proof (cases "may_mutate (pa_gate a) q")
  case True
  then have "gate_error (pa_gate a) q = None \<and> \<not> dry_run q" using gate_error_None by blast
  then have "execute_commands a c q r w = (res, w')" using assms(1) by (simp add: after_remote_def)
  from execute_commands_runs [OF this assms(2) True] show ?thesis .
next
  case False
  then have "dry_run q \<or> gate_error (pa_gate a) q \<noteq> None" using gate_error_None [of "pa_gate a" q] by argo
  then have "w' = w \<and> (dry_run q \<or> \<not> is_ok res)"
    using assms(1) by (auto simp: after_remote_def split: if_splits option.splits)
  then show ?thesis using pub_runs_ok_Nil by fastforce
qed

lemma planned_commands [simp]: "pr_Commands (planned_result q cs) = cs"
  "pr_Commands ((planned_result q cs)\<lparr>pr_RemoteBefore := b\<rparr>) = cs"
  by (simp_all add: planned_result_def)

definition may_start :: "go_ctx \<Rightarrow> pub_candidate \<Rightarrow> pub_request \<Rightarrow> string option \<Rightarrow> bool" where
  "may_start ctx c q sn \<longleftrightarrow> ctx \<noteq> Ctx_Nil \<and> pb_validCandidate c \<and> pb_validRequest q
     \<and> \<not> (pq_Mode q = ModePlan \<and> pq_ConfirmationToken q \<noteq> []) \<and> sn = Some (pc_CandidateSnapshot c)
     \<and> pc_VerifiedSnapshot c = pc_CandidateSnapshot c \<and> pub_commands q \<noteq> None"

lemma Publish_refused:
  assumes "take_snapshot a (pc_RepositoryRoot c) w = (sn, w1)" and "\<not> may_start ctx c q sn"
  shows "\<exists>e w2. Publish ctx a c q w = (Inl e, w2) \<and> pw_runs w2 = pw_runs w"
  using assms take_snapshot_runs [OF assms(1)] by (auto simp: Publish_def may_start_def)

lemma Publish_started:
  assumes "take_snapshot a (pc_RepositoryRoot c) w = (sn, w1)" and "may_start ctx c q sn"
  shows "Publish ctx a c q w =
    (let r = planned_result q (the (pub_commands q))
     in if pq_Kind q = KindGitPush
        then (case remoteRef a (pc_RepositoryRoot c) q w1 of
                (None, w2) \<Rightarrow> (Inl PB_ErrRejected, w2)
              | (Some before, w2) \<Rightarrow>
                  if before \<noteq> pq_ExpectedRemoteRef q then (Inl PB_ErrStale, w2)
                  else after_remote a c q (r\<lparr>pr_RemoteBefore := before\<rparr>) w2)
        else after_remote a c q r w1)"
proof -
  obtain cs where "pub_commands q = Some cs" using assms(2) by (auto simp: may_start_def)
  then show ?thesis using assms by (auto simp: Publish_def may_start_def Let_def)
qed

text \<open>The runs of \<open>Publish\<close>: the read before the gate, and what follows it.\<close>

lemma Publish_runs:
  assumes "Publish ctx a c q w = (res, w')"
  shows "\<exists>before rs. pw_runs w' = pw_runs w @ before @ rs \<and> prefix before (pub_reads q)
    \<and> pub_runs_ok (pa_gate a) q (is_ok res) rs
    \<and> (before \<noteq> [] \<or> rs \<noteq> [] \<longrightarrow> pb_validCandidate c
         \<and> fst (pa_snapshot a (pc_RepositoryRoot c) (pw_ext w)) = Some (pc_VerifiedSnapshot c))"
proof -
  let ?root = "pc_RepositoryRoot c"
  obtain sn w1 where sn: "take_snapshot a ?root w = (sn, w1)" by fastforce
  have w1: "pw_runs w1 = pw_runs w" using sn by simp
  have fst_sn: "fst (pa_snapshot a ?root (pw_ext w)) = sn"
    using sn by (auto simp: take_snapshot_def split: prod.splits)
  show ?thesis
  proof (cases "may_start ctx c q sn")
    case False
    from Publish_refused [OF sn this] assms have "pw_runs w' = pw_runs w \<and> \<not> is_ok res" by auto
    then show ?thesis using pub_runs_ok_Nil [of q False] by (intro exI [of _ "[]"]) auto
  next
    case start: True
    let ?r = "planned_result q (the (pub_commands q))"
    have cs: "pub_commands q = Some (the (pub_commands q))" and ok: "pb_validCandidate c" "sn = Some (pc_VerifiedSnapshot c)"
      using start by (auto simp: may_start_def)
    note eq = Publish_started [OF sn start, unfolded assms Let_def]
    show ?thesis
    proof (cases "pq_Kind q = KindGitPush")
      case push: True
      obtain before w2 where rf: "remoteRef a ?root q w1 = (before, w2)" by fastforce
      have w2: "pw_runs w2 = pw_runs w @ pub_reads q" using remoteRef_runs [OF rf] w1 push by (simp add: pub_reads_def)
      show ?thesis
      proof (cases "before = Some (pq_ExpectedRemoteRef q)")
        case True
        then have "after_remote a c q (?r\<lparr>pr_RemoteBefore := pq_ExpectedRemoteRef q\<rparr>) w2 = (res, w')"
          using eq push rf by simp
        from after_remote_runs [OF this] cs obtain rs where
          "pw_runs w' = pw_runs w2 @ rs" "pub_runs_ok (pa_gate a) q (is_ok res) rs" by auto
        then show ?thesis using w2 ok fst_sn by (intro exI [of _ "pub_reads q"] exI [of _ rs]) auto
      next
        case False
        then have "w' = w2 \<and> \<not> is_ok res" using eq push rf by (auto split: option.splits)
        then show ?thesis using w2 ok fst_sn pub_runs_ok_Nil [of q False]
          by (intro exI [of _ "pub_reads q"] exI [of _ "[]"]) auto
      qed
    next
      case False
      then have "after_remote a c q ?r w1 = (res, w')" using eq by simp
      from after_remote_runs [OF this] cs obtain rs where
        "pw_runs w' = pw_runs w1 @ rs" "pub_runs_ok (pa_gate a) q (is_ok res) rs" by auto
      then show ?thesis using w1 ok fst_sn by (intro exI [of _ "[]"] exI [of _ rs]) auto
    qed
  qed
qed

lemma Publish_refusing:
  assumes "Publish ctx a c q w = (res, w')" and "is_ok res \<or> pw_runs w' \<noteq> pw_runs w"
  shows "pub_commands q \<noteq> None"
proof
  assume "pub_commands q = None"
  obtain sn w1 where sn: "take_snapshot a (pc_RepositoryRoot c) w = (sn, w1)" by fastforce
  have "\<not> may_start ctx c q sn" using \<open>pub_commands q = None\<close> by (simp add: may_start_def)
  from Publish_refused [OF sn this] assms show False by auto
qed

text \<open>The plans, spelled out.\<close>

lemma plan_spelled:
  "pub_commands q = Some cs \<Longrightarrow> cs =
     (if pq_Kind q = ''git_checkpoint'' then
        [\<lparr>pm_Executable = ''git'', pm_Arguments = [''add'', ''-A'', ''--'', ''.'']\<rparr>,
         \<lparr>pm_Executable = ''git'', pm_Arguments = [''commit'', ''--no-verify'', ''-m'',
            if pq_Title q = [] then ''RepoWorker local checkpoint'' else pq_Title q]\<rparr>]
      else if pq_Kind q = ''jj_checkpoint'' then
        [\<lparr>pm_Executable = ''jj'', pm_Arguments = [''commit'', ''-m'',
            if pq_Title q = [] then ''RepoWorker local checkpoint'' else pq_Title q]\<rparr>]
      else if pq_Kind q = ''git_push'' then
        [\<lparr>pm_Executable = ''git'', pm_Arguments = [''push'', ''--no-verify'', pq_Remote q, ''HEAD:refs/heads/'' @ pq_Ref q]\<rparr>]
      else if pq_Kind q = ''github_pr'' then
        [\<lparr>pm_Executable = ''gh'', pm_Arguments = [''pr'', ''create'', ''--base'', pq_Base q, ''--head'', pq_Head q, ''--title'',
            pq_Title q, ''--body'', pq_Body q]\<rparr>]
      else if pq_Kind q = ''release'' then
        [\<lparr>pm_Executable = ''gh'', pm_Arguments = [''release'', ''create'', pq_Ref q, ''--title'', pq_Title q, ''--notes'', pq_Body q,
            ''--draft'']\<rparr>]
      else if pq_Kind q = ''dagger'' then
        [\<lparr>pm_Executable = ''dagger'', pm_Arguments = [''call'', ''publish'', ''--ref'', pq_Ref q]\<rparr>]
      else [\<lparr>pm_Executable = ''dagu'', pm_Arguments = [''start'', pq_Workflow q]\<rparr>])"
  by (simp add: pub_commands_def Let_def kind_defs cmd_def checkpoint_message_def split: if_splits)

lemma reads_spelled:
  "pub_reads q = (if pq_Kind q = ''git_push''
     then [\<lparr>pm_Executable = ''git'', pm_Arguments = [''ls-remote'', pq_Remote q, ''refs/heads/'' @ pq_Ref q]\<rparr>] else [])"
  by (simp add: pub_reads_def KindGitPush_def ls_remote_def cmd_def head_ref_def)

lemma gate_spelled:
  "may_mutate g q \<longleftrightarrow> pq_Mode q = ''execute'' \<and> \<not> pq_DryRun q \<and> pg_Enabled g
     \<and> (if pq_Kind q \<in> {''git_checkpoint'', ''jj_checkpoint''} then pg_AllowLocalMutation g
        else pg_AllowExternalMutation g \<and> pq_ConfirmationToken q \<noteq> [] \<and> pq_ConfirmationToken q = pg_ConfirmationToken g)"
  by (simp add: may_mutate_def ModeExecute_def requiresExternal_def KindGitCheckpoint_def KindJJCheckpoint_def)


text \<open>A remote that looks like an option is accepted, and reaches \<open>git ls-remote\<close> already in plan mode,
  before the gate and without a confirmation.\<close>

definition option_remote :: string where "option_remote = ''--upload-pack=sh''"

lemma option_remote_run_in_plan_mode:
  assumes "pb_validCandidate c" and "fst (pa_snapshot a (pc_RepositoryRoot c) x) = Some (pc_CandidateSnapshot c)"
  shows "ls_remote (\<lparr>pq_Kind = KindGitPush, pq_Mode = ModePlan, pq_DryRun = False, pq_ConfirmationToken = [],
       pq_Remote = option_remote, pq_Ref = ''main'', pq_ExpectedRemoteRef = [], pq_Base = [], pq_Head = [], pq_Title = [],
       pq_Body = [], pq_Workflow = []\<rparr>)
     \<in> set (pw_runs (snd (Publish Ctx_Live a c \<lparr>pq_Kind = KindGitPush, pq_Mode = ModePlan, pq_DryRun = False,
       pq_ConfirmationToken = [], pq_Remote = option_remote, pq_Ref = ''main'', pq_ExpectedRemoteRef = [], pq_Base = [],
       pq_Head = [], pq_Title = [], pq_Body = [], pq_Workflow = []\<rparr> \<lparr>pw_ext = x, pw_runs = []\<rparr>)))"
    (is "ls_remote ?q \<in> _")
proof -
  have cs: "pub_commands ?q \<noteq> None" and v: "pb_validRequest ?q" by code_simp+
  obtain w1 where sn: "take_snapshot a (pc_RepositoryRoot c) \<lparr>pw_ext = x, pw_runs = []\<rparr> = (Some (pc_CandidateSnapshot c), w1)"
    using assms(2) by (cases "pa_snapshot a (pc_RepositoryRoot c) x") (auto simp: take_snapshot_def)
  have same: "pc_VerifiedSnapshot c = pc_CandidateSnapshot c" using assms(1) by (simp add: pb_validCandidate_def)
  obtain before w2 where rf: "remoteRef a (pc_RepositoryRoot c) ?q w1 = (before, w2)" by fastforce
  have "ls_remote ?q \<in> set (pw_runs w2)" using remoteRef_runs [OF rf] by simp
  then show ?thesis
    using assms(1) cs v sn same rf
    by (auto simp: Publish_def Let_def after_remote_def dry_run_def mode_defs split: option.splits)
qed

subsection \<open>A checkpoint\<close>

definition pub_sample_candidate :: pub_candidate where
  "pub_sample_candidate = \<lparr>pc_RepositoryRoot = ''/w'', pc_CandidateSnapshot = replicate 64 CHR ''a'',
     pc_VerifiedSnapshot = replicate 64 CHR ''a'', pc_EnvironmentID = ''e'', pc_PolicyVersion = ''p'', pc_Verified = True\<rparr>"

definition pub_sample_request :: pub_request where
  "pub_sample_request = \<lparr>pq_Kind = KindGitCheckpoint, pq_Mode = ModeExecute, pq_DryRun = False, pq_ConfirmationToken = ''t'',
     pq_Remote = [], pq_Ref = [], pq_ExpectedRemoteRef = [], pq_Base = [], pq_Head = [], pq_Title = ''step'', pq_Body = [],
     pq_Workflow = []\<rparr>"

definition pub_sample_adapter :: "unit pub_adapter" where
  "pub_sample_adapter = \<lparr>pa_gate = \<lparr>pg_Enabled = True, pg_AllowLocalMutation = True, pg_AllowExternalMutation = False,
       pg_ConfirmationToken = ''t''\<rparr>,
     pa_runner = (\<lambda>_ _ _ x. (Some [], x)), pa_snapshot = (\<lambda>_ x. (Some (replicate 64 CHR ''a''), x))\<rparr>"

definition pub_sample_outcome where
  "pub_sample_outcome = Publish Ctx_Live pub_sample_adapter pub_sample_candidate pub_sample_request \<lparr>pw_ext = (), pw_runs = []\<rparr>"


end
