(* ===== verification/Repo_Intelligence.thy ===== *)
theory Repo_Intelligence
  imports Go_Paths
begin

section \<open>Repository intelligence (internal/intelligence/intelligence.go)\<close>

text \<open>
  Detecting the ecosystems of a repository, building the plan of native commands that verifies a
  candidate, running it and judging its result. The file system is the answer of \<open>Lstat\<close> by path, the
  JSON of a plan and SHA-256 are parameters, and the snapshot provider and the command runner act on a
  world of their own. The theory shows what a passed result says of the world: the snapshot before and
  after, and every command in between.
\<close>

subsection \<open>Data\<close>

datatype in_error = IN_ErrRejected | IN_ErrContext

datatype ecosystem = Eco_Go | Eco_Node | Eco_Rust | Eco_Nx | Eco_Turbo | Eco_Bazel | Eco_Other string

record repository_info =
  ri_Root :: string
  ri_Ecosystems :: "ecosystem list"
  ri_PackageManager :: string

record target =
  tg_Name :: string
  tg_Affected :: bool

record in_command =
  ic_Ecosystem :: ecosystem
  ic_Executable :: string
  ic_Arguments :: "string list"
  ic_Workdir :: string

record verification_plan =
  vp_RepositoryID :: string
  vp_CandidateSnapshot :: string
  vp_EnvironmentID :: string
  vp_PolicyVersion :: string
  vp_Target :: target
  vp_Commands :: "in_command list"
  vp_PlanDigest :: string

record verification_result =
  vr_PlanDigest :: string
  vr_RepositoryID :: string
  vr_CandidateSnapshot :: string
  vr_EnvironmentID :: string
  vr_PolicyVersion :: string
  vr_Passed :: bool
  vr_ExitCode :: int
  vr_Diagnostic :: string
  vr_VerifiedAt :: instant

subsection \<open>Detection\<close>

datatype lstat = Stat_Absent | Stat_Regular | Stat_Other

definition ecosystem_checks :: "(string \<times> ecosystem) list" where
  "ecosystem_checks =
    [(''go.mod'', Eco_Go), (''package.json'', Eco_Node), (''Cargo.toml'', Eco_Rust), (''nx.json'', Eco_Nx),
     (''turbo.json'', Eco_Turbo), (''MODULE.bazel'', Eco_Bazel), (''WORKSPACE'', Eco_Bazel)]"

fun detect_loop ::
  "go_ctx \<Rightarrow> (string \<Rightarrow> lstat) \<Rightarrow> string \<Rightarrow> (string \<times> ecosystem) list \<Rightarrow> ecosystem list \<Rightarrow> in_error + ecosystem list" where
  "detect_loop ctx stat root [] found = Inr found"
| "detect_loop ctx stat root ((name, eco) # checks) found =
    (if ctx_err ctx then Inl IN_ErrContext
     else (case stat (join_path root name) of
             Stat_Absent \<Rightarrow> detect_loop ctx stat root checks found
           | Stat_Other \<Rightarrow> Inl IN_ErrRejected
           | Stat_Regular \<Rightarrow> detect_loop ctx stat root checks (if eco \<in> set found then found else found @ [eco])))"

definition lock_managers :: "(string \<times> string) list" where
  "lock_managers = [(''pnpm-lock.yaml'', ''pnpm''), (''yarn.lock'', ''yarn''), (''package-lock.json'', ''npm'')]"

definition package_manager :: "(string \<Rightarrow> bool) \<Rightarrow> string \<Rightarrow> ecosystem list \<Rightarrow> string" where
  "package_manager exists root found =
    (if Eco_Node \<notin> set found then []
     else (case find (\<lambda>l. exists (join_path root (fst l))) lock_managers of None \<Rightarrow> ''npm'' | Some l \<Rightarrow> snd l))"

definition in_Detect ::
  "go_ctx \<Rightarrow> (string \<Rightarrow> lstat) \<Rightarrow> (string \<Rightarrow> bool) \<Rightarrow> string \<Rightarrow> in_error + repository_info" where
  "in_Detect ctx stat exists root =
    (if ctx = Ctx_Nil \<or> root = [] \<or> \<not> is_abs root \<or> clean root \<noteq> root then Inl IN_ErrRejected
     else (case detect_loop ctx stat root ecosystem_checks [] of
             Inl e \<Rightarrow> Inl e
           | Inr found \<Rightarrow>
               if found = [] then Inl IN_ErrRejected
               else Inr \<lparr>ri_Root = root, ri_Ecosystems = found, ri_PackageManager = package_manager exists root found\<rparr>))"

subsection \<open>Plans\<close>

definition validTarget :: "string \<Rightarrow> bool" where
  "validTarget v \<longleftrightarrow> v \<noteq> [] \<and> \<not> contains_any v control_chars \<and> \<not> sublist ''..'' v"

definition commandFor :: "repository_info \<Rightarrow> ecosystem \<Rightarrow> target \<Rightarrow> in_error + in_command" where
  "commandFor info eco t =
    (let cmd = (\<lambda>exe as. Inr \<lparr>ic_Ecosystem = eco, ic_Executable = exe, ic_Arguments = as, ic_Workdir = ri_Root info\<rparr>);
         name = tg_Name t
     in case eco of
          Eco_Go \<Rightarrow> cmd ''go'' (if name \<noteq> [] then [''test'', name] else [''test'', ''./...''])
        | Eco_Node \<Rightarrow>
            (if ri_PackageManager info = ''pnpm'' then cmd ''pnpm'' [''test'']
             else if ri_PackageManager info = ''yarn'' then cmd ''yarn'' [''test'']
             else cmd ''npm'' [''test'', ''--'', ''--if-present''])
        | Eco_Rust \<Rightarrow> cmd ''cargo'' (if name \<noteq> [] then [''test'', name] else [''test''])
        | Eco_Nx \<Rightarrow> cmd ''nx'' (if tg_Affected t then [''affected'', ''-t'', ''test''] else [''run-many'', ''-t'', ''test''])
        | Eco_Turbo \<Rightarrow> cmd ''turbo'' (if tg_Affected t then [''run'', ''test'', ''--filter=...[HEAD^]''] else [''run'', ''test''])
        | Eco_Bazel \<Rightarrow> cmd ''bazel'' [''test'', ''//...'']
        | Eco_Other _ \<Rightarrow> Inl IN_ErrRejected)"

fun commands_for :: "go_ctx \<Rightarrow> repository_info \<Rightarrow> target \<Rightarrow> ecosystem list \<Rightarrow> in_error + in_command list" where
  "commands_for ctx info t [] = Inr []"
| "commands_for ctx info t (eco # ecos) =
    (if ctx_err ctx then Inl IN_ErrContext
     else (case commandFor info eco t of
             Inl e \<Rightarrow> Inl e
           | Inr c \<Rightarrow> (case commands_for ctx info t ecos of Inl e \<Rightarrow> Inl e | Inr cs \<Rightarrow> Inr (c # cs))))"

text \<open>\<open>js\<close> is the JSON of a plan, \<open>sha\<close> SHA-256.\<close>

definition digestPlan :: "(verification_plan \<Rightarrow> string) \<Rightarrow> (string \<Rightarrow> string) \<Rightarrow> verification_plan \<Rightarrow> string" where
  "digestPlan js sha p = hex_encode (sha (js (p\<lparr>vp_PlanDigest := []\<rparr>)))"

definition BuildPlan ::
  "(verification_plan \<Rightarrow> string) \<Rightarrow> (string \<Rightarrow> string) \<Rightarrow> go_ctx \<Rightarrow> repository_info \<Rightarrow> string \<Rightarrow> string \<Rightarrow> string \<Rightarrow> string
   \<Rightarrow> target \<Rightarrow> in_error + verification_plan" where
  "BuildPlan js sha ctx info repo snap env pol t =
    (if ctx = Ctx_Nil \<or> repo = [] \<or> snap = [] \<or> env = [] \<or> pol = [] \<or> ri_Root info = [] \<or> ri_Ecosystems info = []
     then Inl IN_ErrRejected
     else if tg_Name t \<noteq> [] \<and> \<not> validTarget (tg_Name t) then Inl IN_ErrRejected
     else (case commands_for ctx info t (ri_Ecosystems info) of
             Inl e \<Rightarrow> Inl e
           | Inr cs \<Rightarrow>
               (let p = \<lparr>vp_RepositoryID = repo, vp_CandidateSnapshot = snap, vp_EnvironmentID = env, vp_PolicyVersion = pol,
                         vp_Target = t, vp_Commands = cs, vp_PlanDigest = []\<rparr>
                in Inr (p\<lparr>vp_PlanDigest := digestPlan js sha p\<rparr>))))"

definition in_validPlan :: "(verification_plan \<Rightarrow> string) \<Rightarrow> (string \<Rightarrow> string) \<Rightarrow> verification_plan \<Rightarrow> bool" where
  "in_validPlan js sha p \<longleftrightarrow> vp_RepositoryID p \<noteq> [] \<and> vp_CandidateSnapshot p \<noteq> [] \<and> vp_EnvironmentID p \<noteq> []
     \<and> vp_PolicyVersion p \<noteq> [] \<and> vp_PlanDigest p \<noteq> [] \<and> vp_Commands p \<noteq> [] \<and> digestPlan js sha p = vp_PlanDigest p"

subsection \<open>Verification\<close>

definition in_redact :: "string \<Rightarrow> string" where
  "in_redact v =
    (if list_ex (\<lambda>m. sublist m (to_lower v)) [''authorization: bearer '', ''-----begin private key-----'', ''ghp_'', ''github_pat_'']
     then ''[redacted]'' else take 4096 v)"

definition new_result :: "instant \<Rightarrow> verification_plan \<Rightarrow> verification_result" where
  "new_result now p =
     \<lparr>vr_PlanDigest = vp_PlanDigest p, vr_RepositoryID = vp_RepositoryID p, vr_CandidateSnapshot = vp_CandidateSnapshot p,
      vr_EnvironmentID = vp_EnvironmentID p, vr_PolicyVersion = vp_PolicyVersion p, vr_Passed = True, vr_ExitCode = 0,
      vr_Diagnostic = [], vr_VerifiedAt = now\<rparr>"

fun verify_loop ::
  "(in_command \<Rightarrow> 'x \<Rightarrow> (int \<times> string) \<times> 'x) \<Rightarrow> in_command list \<Rightarrow> verification_result \<Rightarrow> 'x \<Rightarrow> verification_result \<times> 'x" where
  "verify_loop run [] r x = (r, x)"
| "verify_loop run (c # cs) r x =
    (case run c x of
       ((code, diag), x') \<Rightarrow>
         if code \<noteq> 0 then (r\<lparr>vr_Passed := False, vr_ExitCode := code, vr_Diagnostic := in_redact diag\<rparr>, x')
         else verify_loop run cs r x')"

definition Verify ::
  "(verification_plan \<Rightarrow> string) \<Rightarrow> (string \<Rightarrow> string) \<Rightarrow> go_ctx \<Rightarrow> instant \<Rightarrow> verification_plan
   \<Rightarrow> ('x \<Rightarrow> string option \<times> 'x) \<Rightarrow> (in_command \<Rightarrow> 'x \<Rightarrow> (int \<times> string) \<times> 'x) \<Rightarrow> 'x
   \<Rightarrow> (in_error + verification_result) \<times> 'x" where
  "Verify js sha ctx now p snapshots run x =
    (if ctx = Ctx_Nil \<or> \<not> in_validPlan js sha p then (Inl IN_ErrRejected, x)
     else (case snapshots x of
             (before, x1) \<Rightarrow>
               if before \<noteq> Some (vp_CandidateSnapshot p) then (Inl IN_ErrRejected, x1)
               else (case verify_loop run (vp_Commands p) (new_result now p) x1 of
                       (r, x2) \<Rightarrow>
                         (case snapshots x2 of
                            (after, x3) \<Rightarrow>
                              if after \<noteq> Some (vp_CandidateSnapshot p) then (Inl IN_ErrRejected, x3)
                              else (Inr r, x3)))))"

definition ValidResult :: "verification_result \<Rightarrow> verification_plan \<Rightarrow> string \<Rightarrow> string \<Rightarrow> string \<Rightarrow> bool" where
  "ValidResult r p current env pol \<longleftrightarrow> vr_Passed r \<and> vr_PlanDigest r = vp_PlanDigest p \<and> vr_RepositoryID r = vp_RepositoryID p
     \<and> vr_CandidateSnapshot r = current \<and> vr_EnvironmentID r = env \<and> vr_PolicyVersion r = pol
     \<and> zero_time < vr_VerifiedAt r \<and> vr_PlanDigest r \<noteq> []"

subsection \<open>What a plan contains\<close>

lemma detect_loop_distinct:
  "detect_loop ctx stat root checks found = Inr ecos \<Longrightarrow> distinct found \<Longrightarrow> distinct ecos \<and> set found \<subseteq> set ecos
     \<and> set ecos \<subseteq> set found \<union> snd ` set checks"
proof (induction ctx stat root checks found rule: detect_loop.induct)
  case (2 ctx stat root name eco checks found)
  then show ?case by (auto split: if_splits lstat.splits)
qed auto

lemma commands_for_map:
  "commands_for ctx info t ecos = Inr cs \<Longrightarrow> list_all2 (\<lambda>e c. commandFor info e t = Inr c) ecos cs"
  by (induction ctx info t ecos arbitrary: cs rule: commands_for.induct)
     (auto split: if_splits sum.splits)

definition known_executables :: "string list" where
  "known_executables = [''go'', ''pnpm'', ''yarn'', ''npm'', ''cargo'', ''nx'', ''turbo'', ''bazel'']"

lemma commandFor_known:
  "commandFor info e t = Inr c \<Longrightarrow> ic_Executable c \<in> set known_executables \<and> ic_Workdir c = ri_Root info \<and> ic_Ecosystem c = e
     \<and> set (ic_Arguments c) \<subseteq> {''test'', ''./...'', ''--'', ''--if-present'', ''affected'', ''run-many'', ''-t'', ''run'',
          ''--filter=...[HEAD^]'', ''//...'', tg_Name t}"
  by (cases e) (auto simp: commandFor_def Let_def known_executables_def split: if_splits)

text \<open>A plan contains what it should: \<open>BuildPlan\<close> answers with a plan that is valid for \<open>Verify\<close>, bound to the
  given repository, snapshot, environment and policy, with one command per ecosystem detected, in
  order, each a known tool run in the root with fixed arguments and at most the target, which has no
  control character and no dot-dot.\<close>

theorem BuildPlan_wf:
  assumes "BuildPlan js sha ctx info repo snap env pol t = Inr p" and "sha (js (p\<lparr>vp_PlanDigest := []\<rparr>)) \<noteq> []"
  shows "in_validPlan js sha p \<and> vp_RepositoryID p = repo \<and> vp_CandidateSnapshot p = snap
    \<and> vp_EnvironmentID p = env \<and> vp_PolicyVersion p = pol \<and> vp_Target p = t
    \<and> map ic_Ecosystem (vp_Commands p) = ri_Ecosystems info
    \<and> list_all (\<lambda>c. ic_Executable c \<in> set known_executables \<and> ic_Workdir c = ri_Root info) (vp_Commands p)
    \<and> (tg_Name t = [] \<or> validTarget (tg_Name t))"
proof -
  obtain cs where cs: "commands_for ctx info t (ri_Ecosystems info) = Inr cs"
    and p: "p = (\<lparr>vp_RepositoryID = repo, vp_CandidateSnapshot = snap, vp_EnvironmentID = env, vp_PolicyVersion = pol,
        vp_Target = t, vp_Commands = cs, vp_PlanDigest = []\<rparr>)\<lparr>vp_PlanDigest := digestPlan js sha
          \<lparr>vp_RepositoryID = repo, vp_CandidateSnapshot = snap, vp_EnvironmentID = env, vp_PolicyVersion = pol,
           vp_Target = t, vp_Commands = cs, vp_PlanDigest = []\<rparr>\<rparr>"
    and ne: "repo \<noteq> []" "snap \<noteq> []" "env \<noteq> []" "pol \<noteq> []" "ri_Ecosystems info \<noteq> []"
        "tg_Name t = [] \<or> validTarget (tg_Name t)"
    using assms(1) by (auto simp: BuildPlan_def Let_def split: if_splits sum.splits)
  have all2: "list_all2 (\<lambda>e c. commandFor info e t = Inr c) (ri_Ecosystems info) cs" by (rule commands_for_map [OF cs])
  then have "list_all (\<lambda>c. ic_Executable c \<in> set known_executables \<and> ic_Workdir c = ri_Root info) cs"
    and "cs \<noteq> []"
    using commandFor_known ne(5) by (auto simp: list_all2_conv_all_nth list_all_length)
  moreover have "map ic_Ecosystem cs = ri_Ecosystems info"
    using all2 commandFor_known by (induction rule: list_all2_induct) auto
  moreover have "hex_encode b \<noteq> []" if "b \<noteq> []" for b using that length_hex_encode [of b] by fastforce
  ultimately show ?thesis using p ne assms(2) by (auto simp: in_validPlan_def digestPlan_def)
qed

subsection \<open>What a result says\<close>

text \<open>All commands exit with zero, from world \<open>x\<close> to world \<open>x'\<close>; or a first one fails.\<close>

fun all_pass :: "(in_command \<Rightarrow> 'x \<Rightarrow> (int \<times> string) \<times> 'x) \<Rightarrow> in_command list \<Rightarrow> 'x \<Rightarrow> 'x option" where
  "all_pass run [] x = Some x"
| "all_pass run (c # cs) x = (case run c x of ((code, _), x') \<Rightarrow> if code = 0 then all_pass run cs x' else None)"

lemma verify_loop_exact:
  "vr_Passed r \<Longrightarrow> verify_loop run cs r x =
     (case all_pass run cs x of
        Some x' \<Rightarrow> (r, x')
      | None \<Rightarrow> verify_loop run cs r x)
   \<and> (all_pass run cs x = None \<longleftrightarrow> \<not> vr_Passed (fst (verify_loop run cs r x)))"
  by (induction run cs r x rule: verify_loop.induct) (auto split: prod.splits option.splits)

lemma verify_loop_fields:
  "vr_PlanDigest (fst (verify_loop run cs r x)) = vr_PlanDigest r
   \<and> vr_RepositoryID (fst (verify_loop run cs r x)) = vr_RepositoryID r
   \<and> vr_CandidateSnapshot (fst (verify_loop run cs r x)) = vr_CandidateSnapshot r
   \<and> vr_EnvironmentID (fst (verify_loop run cs r x)) = vr_EnvironmentID r
   \<and> vr_PolicyVersion (fst (verify_loop run cs r x)) = vr_PolicyVersion r
   \<and> vr_VerifiedAt (fst (verify_loop run cs r x)) = vr_VerifiedAt r"
  by (induction run cs r x rule: verify_loop.induct) (auto split: prod.split)

lemma ValidResult_digest:
  assumes "ValidResult r q current env pol" and "vr_PlanDigest r = vp_PlanDigest p"
    and "in_validPlan js sha p" and "in_validPlan js sha q"
  shows "sha (js (q\<lparr>vp_PlanDigest := []\<rparr>)) = sha (js (p\<lparr>vp_PlanDigest := []\<rparr>))"
proof -
  have "hex_encode (sha (js (q\<lparr>vp_PlanDigest := []\<rparr>))) = hex_encode (sha (js (p\<lparr>vp_PlanDigest := []\<rparr>)))"
    using assms by (simp add: ValidResult_def in_validPlan_def digestPlan_def)
  then show ?thesis by (metis hex_decode_encode option.inject)
qed

text \<open>C30: A verification result means what it says. When \<open>Verify\<close> answers for a plan (with the clock after the
  zero time), the candidate had the snapshot of the plan before the first and after the last command; the
  result passed exactly when every command of the plan exited with zero, one after the other. The result is
  valid for a plan \<open>q\<close>, a snapshot, an environment and a policy exactly when it passed, \<open>q\<close> has the digest and
  the repository of the plan that was verified, and snapshot, environment and policy are those of the verified
  plan. A valid plan of this digest has the JSON text of the verified one, or two texts with one SHA-256
  are found.\<close>

theorem Verify_exact:
  assumes "Verify js sha ctx now p snapshots run x = (Inr r, x')" and "zero_time < now"
  shows "\<exists>x1 x2. snapshots x = (Some (vp_CandidateSnapshot p), x1)
      \<and> snapshots x2 = (Some (vp_CandidateSnapshot p), x')
      \<and> (vr_Passed r \<longleftrightarrow> all_pass run (vp_Commands p) x1 = Some x2)
      \<and> (\<forall>q current env pol. ValidResult r q current env pol \<longleftrightarrow>
           vr_Passed r \<and> vp_PlanDigest q = vp_PlanDigest p \<and> vp_RepositoryID q = vp_RepositoryID p
           \<and> current = vp_CandidateSnapshot p \<and> env = vp_EnvironmentID p \<and> pol = vp_PolicyVersion p)
      \<and> (\<forall>q current env pol. ValidResult r q current env pol \<and> in_validPlan js sha q \<longrightarrow>
           js (q\<lparr>vp_PlanDigest := []\<rparr>) = js (p\<lparr>vp_PlanDigest := []\<rparr>) \<or> (\<exists>u v. u \<noteq> v \<and> sha u = sha v))"
proof -
  obtain x1 x2 where w: "in_validPlan js sha p" "snapshots x = (Some (vp_CandidateSnapshot p), x1)"
      "verify_loop run (vp_Commands p) (new_result now p) x1 = (r, x2)"
      "snapshots x2 = (Some (vp_CandidateSnapshot p), x')"
    using assms(1) by (auto simp: Verify_def split: if_splits prod.splits)
  have "vr_Passed (new_result now p)" by (simp add: new_result_def)
  from verify_loop_exact [OF this, of run "vp_Commands p" x1]
  have pass: "vr_Passed r \<longleftrightarrow> all_pass run (vp_Commands p) x1 = Some x2"
    using w(3) by (auto simp: new_result_def split: option.splits)
  have "vp_PlanDigest p \<noteq> []" using w(1) by (simp add: in_validPlan_def)
  moreover have r: "vr_PlanDigest r = vp_PlanDigest p" "vr_RepositoryID r = vp_RepositoryID p"
    "vr_CandidateSnapshot r = vp_CandidateSnapshot p" "vr_EnvironmentID r = vp_EnvironmentID p"
    "vr_PolicyVersion r = vp_PolicyVersion p" "vr_VerifiedAt r = now"
    using verify_loop_fields [of run "vp_Commands p" "new_result now p" x1] w(3) by (simp_all add: new_result_def)
  ultimately have valid: "ValidResult r q current env pol \<longleftrightarrow>
      vr_Passed r \<and> vp_PlanDigest q = vp_PlanDigest p \<and> vp_RepositoryID q = vp_RepositoryID p
      \<and> current = vp_CandidateSnapshot p \<and> env = vp_EnvironmentID p \<and> pol = vp_PolicyVersion p" for q current env pol
    using assms(2) by (auto simp: ValidResult_def)
  have "js (q\<lparr>vp_PlanDigest := []\<rparr>) = js (p\<lparr>vp_PlanDigest := []\<rparr>) \<or> (\<exists>u v. u \<noteq> v \<and> sha u = sha v)"
    if "ValidResult r q current env pol" "in_validPlan js sha q" for q current env pol
    using ValidResult_digest [OF that(1) r(1) w(1) that(2)] by blast
  then show ?thesis using w(2,4) pass valid by blast
qed

subsection \<open>A verification\<close>

definition sample_stat :: "string \<Rightarrow> lstat" where
  "sample_stat p = (if p = ''/r/go.mod'' \<or> p = ''/r/package.json'' then Stat_Regular else Stat_Absent)"

definition sample_info :: repository_info where
  "sample_info = projr (in_Detect Ctx_Live sample_stat (\<lambda>p. p = ''/r/yarn.lock'') ''/r'')"

definition sample_target :: target where "sample_target = \<lparr>tg_Name = ''./x'', tg_Affected = False\<rparr>"

definition sample_js :: "verification_plan \<Rightarrow> string" where
  "sample_js p = vp_RepositoryID p @ vp_CandidateSnapshot p @ concat (map ic_Executable (vp_Commands p))"

definition sample_vplan :: verification_plan where
  "sample_vplan = projr (BuildPlan sample_js (take 2) Ctx_Live sample_info ''R'' ''S'' ''E'' ''P'' sample_target)"

definition sample_verified where
  "sample_verified = Verify sample_js (take 2) Ctx_Live 5 sample_vplan (\<lambda>n. (Some ''S'', n)) (\<lambda>c n. ((0, []), n + (1::nat))) 0"

theorem BuildPlan_wf_witness:
  "in_validPlan sample_js (take 2) sample_vplan
   \<and> map ic_Arguments (vp_Commands sample_vplan) = [[''test'', ''./x''], [''test'']]"
proof -
  have "is_ok (BuildPlan sample_js (take 2) Ctx_Live sample_info ''R'' ''S'' ''E'' ''P'' sample_target)" by code_simp
  then have p: "BuildPlan sample_js (take 2) Ctx_Live sample_info ''R'' ''S'' ''E'' ''P'' sample_target = Inr sample_vplan"
    by (auto simp: sample_vplan_def is_ok_iff)
  have ne: "take 2 (sample_js (sample_vplan\<lparr>vp_PlanDigest := []\<rparr>)) \<noteq> []" by code_simp
  have "map ic_Arguments (vp_Commands sample_vplan) = [[''test'', ''./x''], [''test'']]" by code_simp
  then show ?thesis using BuildPlan_wf [OF p ne] by blast
qed

theorem Verify_exact_witness:
  "ValidResult (projr (fst sample_verified)) sample_vplan ''S'' ''E'' ''P'' \<and> snd sample_verified = 2
   \<and> \<not> ValidResult (projr (fst sample_verified)) (sample_vplan\<lparr>vp_RepositoryID := ''Q''\<rparr>) ''S'' ''E'' ''P''"
proof -
  have "is_ok (fst sample_verified)" by code_simp
  then have v: "Verify sample_js (take 2) Ctx_Live 5 sample_vplan (\<lambda>n. (Some ''S'', n)) (\<lambda>c n. ((0, []), n + (1::nat))) 0
      = (Inr (projr (fst sample_verified)), snd sample_verified)"
    unfolding sample_verified_def [symmetric] by (metis is_ok_iff prod.collapse sum.sel(2))
  have "vr_Passed (projr (fst sample_verified))" by code_simp
  moreover have "vp_CandidateSnapshot sample_vplan = ''S''" "vp_EnvironmentID sample_vplan = ''E''"
    "vp_PolicyVersion sample_vplan = ''P''" "vp_RepositoryID sample_vplan = ''R''" "snd sample_verified = 2" by code_simp+
  moreover have "zero_time < 5" by (simp add: zero_time_def)
  ultimately show ?thesis using Verify_exact [OF v] by simp
qed

end
