(* ===== verification/Process_Output.thy ===== *)
theory Process_Output
  imports Go_Paths Paged_Log
begin

section \<open>The output of a process (internal/process/process.go)\<close>

text \<open>
  What a supervised process prints is kept in numbered chunks: in memory up to a limit, and in a spill
  file once the limit is passed. The JSON of a chunk is a pair of functions; the outcomes of opening and
  writing the file are arguments. The theory shows that a reader sees exactly the chunks that are kept,
  that all are kept unless the output is marked as truncated, and what escapes that mark.
\<close>

subsection \<open>Data\<close>

definition DefaultChunkBytes :: int where "DefaultChunkBytes = 32768"
definition DefaultMemoryBytes :: int where "DefaultMemoryBytes = 262144"

record chunk =
  ck_Cursor :: nat
  ck_Stream :: string
  ck_Data :: string

text \<open>The part of a \<open>Process\<close> that holds its output; \<open>po_spill\<close> is the content of the spill file once it
  is open.\<close>

record process_buf =
  po_next :: nat
  po_memory :: "chunk list"
  po_memoryBytes :: int
  po_memoryLimit :: int
  po_chunkBytes :: int
  po_spillPath :: string
  po_spill :: "string option"
  po_Truncated :: bool

definition new_buf :: "int \<Rightarrow> int \<Rightarrow> process_buf" where
  "new_buf memory_bytes chunk_bytes =
     \<lparr>po_next = 0, po_memory = [], po_memoryBytes = 0,
      po_memoryLimit = (if memory_bytes \<le> 0 then DefaultMemoryBytes else memory_bytes),
      po_chunkBytes = (if chunk_bytes \<le> 0 \<or> DefaultChunkBytes < chunk_bytes then DefaultChunkBytes else chunk_bytes),
      po_spillPath = [], po_spill = None, po_Truncated = False\<rparr>"

subsection \<open>Appending\<close>

text \<open>A write that fails leaves a prefix of the line in the file (\<open>Some k\<close>), and nobody looks at its error.\<close>

definition writeChunk :: "(chunk \<Rightarrow> string) \<Rightarrow> (nat \<Rightarrow> nat option) \<Rightarrow> chunk \<Rightarrow> string \<Rightarrow> string" where
  "writeChunk enc wr c file =
    (let line = enc c @ [LF]
     in file @ (case wr (ck_Cursor c) of None \<Rightarrow> line | Some k \<Rightarrow> take k line))"

definition spill_name :: "string \<Rightarrow> string \<Rightarrow> string" where
  "spill_name root stamp = join_path root (''.process-spill-'' @ stamp @ ''.jsonl'')"

definition open_spill :: "(chunk \<Rightarrow> string) \<Rightarrow> (nat \<Rightarrow> nat option) \<Rightarrow> string \<Rightarrow> process_buf \<Rightarrow> process_buf" where
  "open_spill enc wr path p =
     p\<lparr>po_spill := Some (fold (writeChunk enc wr) (po_memory p) []), po_spillPath := path, po_memory := [],
       po_memoryBytes := 0\<rparr>"

definition appendChunk ::
  "(chunk \<Rightarrow> string) \<Rightarrow> bool \<Rightarrow> (nat \<Rightarrow> nat option) \<Rightarrow> string \<Rightarrow> string \<Rightarrow> string \<Rightarrow> string \<Rightarrow> process_buf \<Rightarrow> process_buf" where
  "appendChunk enc opened wr stamp stream data root p0 =
    (if data = [] then p0
     else (let p = p0\<lparr>po_next := po_next p0 + 1\<rparr>;
               c = \<lparr>ck_Cursor = po_next p, ck_Stream = stream, ck_Data = data\<rparr>
           in if po_spill p \<noteq> None \<or> po_memoryLimit p < po_memoryBytes p + int (length data)
              then (let p' = (if po_spill p = None \<and> opened then open_spill enc wr (spill_name root stamp) p else p)
                    in case po_spill p' of
                         Some file \<Rightarrow> p'\<lparr>po_spill := Some (writeChunk enc wr c file)\<rparr>
                       | None \<Rightarrow> p'\<lparr>po_Truncated := True\<rparr>)
              else p\<lparr>po_memory := po_memory p @ [c], po_memoryBytes := po_memoryBytes p + int (length data)\<rparr>))"

subsection \<open>Reading\<close>

text \<open>The lines of a \<open>bufio.Scanner\<close>: a carriage return at the end of a line is dropped, and a line of
  65536 bytes ends the scan with an error (\<open>None\<close>).\<close>

definition drop_cr :: "string \<Rightarrow> string" where
  "drop_cr l = (if l \<noteq> [] \<and> last l = CR then butlast l else l)"

definition max_token :: nat where "max_token = 65536"

function scan_tokens :: "string \<Rightarrow> string option list" where
  "scan_tokens s =
    (if s = [] then []
     else (let l = takeWhile (\<lambda>c. c \<noteq> LF) s
           in if max_token \<le> length l then [None]
              else Some (drop_cr l) # scan_tokens (drop (length l + 1) s)))"
  by pat_completeness auto
termination by (relation "measure length") auto

declare scan_tokens.simps [simp del]

text \<open>The loop over the scanner tests the limit after it has scanned a line; an error of the scanner is
  seen after the loop.\<close>

fun read_spill :: "(string \<Rightarrow> chunk option) \<Rightarrow> nat \<Rightarrow> nat \<Rightarrow> string option list \<Rightarrow> chunk list \<Rightarrow> chunk list option" where
  "read_spill dec after limit [] res = Some res"
| "read_spill dec after limit (None # ts) res = None"
| "read_spill dec after limit (Some t # ts) res =
    (if limit \<le> length res then Some res
     else (case dec t of
             None \<Rightarrow> None
           | Some c \<Rightarrow> read_spill dec after limit ts (if after < ck_Cursor c then res @ [c] else res)))"

fun read_memory :: "nat \<Rightarrow> nat \<Rightarrow> chunk list \<Rightarrow> chunk list \<Rightarrow> chunk list" where
  "read_memory after limit [] res = res"
| "read_memory after limit (c # cs) res =
    (if limit \<le> length res then res
     else read_memory after limit cs (if after < ck_Cursor c then res @ [c] else res))"

definition process_Read ::
  "(string \<Rightarrow> chunk option) \<Rightarrow> bool \<Rightarrow> nat \<Rightarrow> int \<Rightarrow> process_buf \<Rightarrow> chunk list option" where
  "process_Read dec opened after limit p =
    (if limit \<le> 0 \<or> 1024 < limit then None
     else (case (if po_spillPath p = [] then Some []
                 else if \<not> opened then None
                 else read_spill dec after (nat limit) (scan_tokens (case po_spill p of Some f \<Rightarrow> f | None \<Rightarrow> [])) []) of
             None \<Rightarrow> None
           | Some res \<Rightarrow> Some (read_memory after (nat limit) (po_memory p) res)))"

subsection \<open>Lines and chunks\<close>

text \<open>The codec of chunks as the code relies on it: a chunk is read back from its line, the line has no line
  break, and it is short enough for the scanner.\<close>

definition good_line :: "(chunk \<Rightarrow> string) \<Rightarrow> (string \<Rightarrow> chunk option) \<Rightarrow> chunk \<Rightarrow> bool" where
  "good_line enc dec c \<longleftrightarrow> dec (enc c) = Some c \<and> LF \<notin> set (enc c) \<and> drop_cr (enc c) = enc c \<and> length (enc c) < max_token"

definition lines_of :: "(chunk \<Rightarrow> string) \<Rightarrow> chunk list \<Rightarrow> string" where
  "lines_of enc cs = concat (map (\<lambda>c. enc c @ [LF]) cs)"

lemma takeWhile_line: "LF \<notin> set l \<Longrightarrow> takeWhile (\<lambda>c. c \<noteq> LF) (l @ LF # s) = l"
  by (induction l) auto

lemma scan_tokens_line:
  "LF \<notin> set l \<Longrightarrow> length l < max_token \<Longrightarrow> scan_tokens (l @ LF # s) = Some (drop_cr l) # scan_tokens s"
  by (subst scan_tokens.simps) (simp add: takeWhile_line Let_def)

lemma scan_tokens_long:
  "LF \<notin> set l \<Longrightarrow> max_token \<le> length l \<Longrightarrow> scan_tokens (l @ LF # s) = [None]"
  by (subst scan_tokens.simps) (simp add: takeWhile_line Let_def)

lemma scan_tokens_Nil [simp]: "scan_tokens [] = []"
  by (subst scan_tokens.simps) simp

lemma scan_tokens_lines:
  "list_all (good_line enc dec) cs \<Longrightarrow>
     scan_tokens (lines_of enc cs @ s) = map (\<lambda>c. Some (enc c)) cs @ scan_tokens s"
  by (induction cs) (auto simp: lines_of_def good_line_def scan_tokens_line)

lemma read_spill_lines:
  "list_all (good_line enc dec) cs \<Longrightarrow> length res \<le> limit \<Longrightarrow>
     read_spill dec after limit (map (\<lambda>c. Some (enc c)) cs) res
       = Some (take limit (res @ filter (\<lambda>c. after < ck_Cursor c) cs))"
  by (induction cs arbitrary: res) (auto simp: good_line_def take_Cons')

lemma read_memory_take:
  "length res \<le> limit \<Longrightarrow>
     read_memory after limit cs res = take limit (res @ filter (\<lambda>c. after < ck_Cursor c) cs)"
  by (induction cs arbitrary: res) (auto simp: take_Cons')

lemma writeChunk_done: "wr (ck_Cursor c) = None \<Longrightarrow> writeChunk enc wr c f = f @ enc c @ [LF]"
  by (simp add: writeChunk_def Let_def)

lemma fold_writeChunk: "fold (writeChunk enc (\<lambda>_. None)) cs f = f @ lines_of enc cs"
  by (induction cs arbitrary: f) (auto simp: writeChunk_done lines_of_def)

lemma lines_of_snoc: "lines_of enc (cs @ [c]) = lines_of enc cs @ enc c @ [LF]"
  by (simp add: lines_of_def)

text \<open>The root of the spill files is absolute, as \<open>New\<close> of the supervisor checks.\<close>

lemma spill_name_nonempty [simp]: "is_abs root \<Longrightarrow> spill_name root stamp \<noteq> []"
  by (auto simp: spill_name_def join_path_def clean_def is_abs_def)

subsection \<open>What is kept\<close>

lemma subseq_set: "subseq xs ys \<Longrightarrow> set xs \<subseteq> set ys"
  by (induction rule: list_emb.induct) auto

text \<open>A buffer holds the chunks \<open>cs\<close>: all in memory, or all in the file.\<close>

definition holds :: "(chunk \<Rightarrow> string) \<Rightarrow> process_buf \<Rightarrow> chunk list \<Rightarrow> bool" where
  "holds enc p cs \<longleftrightarrow>
     (case po_spill p of
        None \<Rightarrow> po_memory p = cs \<and> po_spillPath p = []
      | Some f \<Rightarrow> f = lines_of enc cs \<and> po_memory p = [] \<and> po_spillPath p \<noteq> [])"

lemma holds_read:
  assumes "holds enc p cs" and "list_all (good_line enc dec) cs" and "0 < limit" and "limit \<le> 1024"
  shows "process_Read dec True after limit p = Some (take (nat limit) (filter (\<lambda>c. after < ck_Cursor c) cs))"
  using assms scan_tokens_lines [OF assms(2), of "[]"] read_spill_lines [OF assms(2), of "[]"]
  by (auto simp: process_Read_def holds_def read_memory_take split: option.splits)

text \<open>The history of a buffer: for every piece of output its stream and data, whether a spill file could be
  opened then, and the stamp of its name. Writes succeed.\<close>

record output_event =
  oe_Stream :: string
  oe_Data :: string
  oe_opened :: bool
  oe_stamp :: string

definition collect1 :: "(chunk \<Rightarrow> string) \<Rightarrow> string \<Rightarrow> process_buf \<Rightarrow> output_event \<Rightarrow> process_buf" where
  "collect1 enc root p e = appendChunk enc (oe_opened e) (\<lambda>_. None) (oe_stamp e) (oe_Stream e) (oe_Data e) root p"

definition collect :: "(chunk \<Rightarrow> string) \<Rightarrow> string \<Rightarrow> output_event list \<Rightarrow> process_buf \<Rightarrow> process_buf" where
  "collect enc root es p = foldl (collect1 enc root) p es"

text \<open>The chunks of a history: every piece that is not empty, numbered on from \<open>n\<close>.\<close>

fun emitted :: "nat \<Rightarrow> output_event list \<Rightarrow> chunk list" where
  "emitted n [] = []"
| "emitted n (e # es) =
    (if oe_Data e = [] then emitted n es
     else \<lparr>ck_Cursor = n + 1, ck_Stream = oe_Stream e, ck_Data = oe_Data e\<rparr> # emitted (n + 1) es)"

lemma collect1_empty: "oe_Data e = [] \<Longrightarrow> collect1 enc root p e = p"
  by (simp add: collect1_def appendChunk_def)

text \<open>One piece of output is kept, or the mark is set.\<close>

lemma collect1_holds:
  fixes p :: process_buf
  assumes "holds enc p cs" and "oe_Data e \<noteq> []" and "is_abs root"
  defines "c \<equiv> \<lparr>ck_Cursor = po_next p + 1, ck_Stream = oe_Stream e, ck_Data = oe_Data e\<rparr>"
  shows "po_next (collect1 enc root p e) = po_next p + 1
    \<and> (holds enc (collect1 enc root p e) (cs @ [c]) \<and> po_Truncated (collect1 enc root p e) = po_Truncated p
       \<or> holds enc (collect1 enc root p e) cs \<and> po_Truncated (collect1 enc root p e))"
  using assms
  by (auto simp: collect1_def appendChunk_def Let_def holds_def open_spill_def fold_writeChunk writeChunk_done
      lines_of_snoc split: option.splits)

lemma collect_holds:
  "is_abs root \<Longrightarrow> holds enc p cs \<Longrightarrow>
     \<exists>kept. holds enc (collect enc root es p) (cs @ kept) \<and> subseq kept (emitted (po_next p) es)
       \<and> (\<not> po_Truncated (collect enc root es p) \<longrightarrow> \<not> po_Truncated p \<and> kept = emitted (po_next p) es)"
proof (induction es arbitrary: p cs)
  case (Cons e es)
  have step: "collect enc root (e # es) p = collect enc root es (collect1 enc root p e)"
    by (simp add: collect_def)
  show ?case
  proof (cases "oe_Data e = []")
    case True
    then show ?thesis using Cons.IH [OF Cons.prems(1,2)] by (simp add: step collect1_empty)
  next
    case False
    let ?c = "\<lparr>ck_Cursor = po_next p + 1, ck_Stream = oe_Stream e, ck_Data = oe_Data e\<rparr>"
    let ?p = "collect1 enc root p e"
    note one = collect1_holds [OF Cons.prems(2) False Cons.prems(1)]
    from one have "holds enc ?p (cs @ [?c]) \<and> po_Truncated ?p = po_Truncated p \<or> holds enc ?p cs \<and> po_Truncated ?p"
      by blast
    then show ?thesis
    proof
      assume k: "holds enc ?p (cs @ [?c]) \<and> po_Truncated ?p = po_Truncated p"
      from Cons.IH [OF Cons.prems(1) conjunct1 [OF k]] obtain kept where "holds enc (collect enc root es ?p) ((cs @ [?c]) @ kept)"
        "subseq kept (emitted (po_next ?p) es)"
        "\<not> po_Truncated (collect enc root es ?p) \<longrightarrow> \<not> po_Truncated ?p \<and> kept = emitted (po_next ?p) es" by blast
      then show ?thesis using one k False by (intro exI [of _ "?c # kept"]) (auto simp: step)
    next
      assume k: "holds enc ?p cs \<and> po_Truncated ?p"
      from Cons.IH [OF Cons.prems(1) conjunct1 [OF k]] obtain kept where "holds enc (collect enc root es ?p) (cs @ kept)"
        "subseq kept (emitted (po_next ?p) es)"
        "\<not> po_Truncated (collect enc root es ?p) \<longrightarrow> \<not> po_Truncated ?p \<and> kept = emitted (po_next ?p) es" by blast
      then show ?thesis using one k False by (intro exI [of _ kept]) (auto simp: step)
    qed
  qed
qed (auto simp: collect_def intro: exI [of _ "[]"])

lemma holds_new: "holds enc (new_buf m n) []"
  by (simp add: holds_def new_buf_def)

lemma new_buf_start [simp]: "po_next (new_buf m n) = 0" "\<not> po_Truncated (new_buf m n)"
  by (simp_all add: new_buf_def)

subsection \<open>Reading what was kept\<close>

text \<open>A reader sees the output. Whatever a process printed and whether or not a spill file could be opened,
  as long as writes to it succeed and its lines fit the scanner, reading after a cursor returns the kept
  chunks after it, in order and up to the limit; what is kept is a part of the output in its order, and
  all of it unless the output is marked as truncated.\<close>

theorem output_exact:
  assumes "is_abs root" and "list_all (good_line enc dec) (emitted 0 es)"
  shows "\<exists>kept. subseq kept (emitted 0 es)
    \<and> (kept = emitted 0 es \<or> po_Truncated (collect enc root es (new_buf m n)))
    \<and> (\<forall>after limit. process_Read dec True after limit (collect enc root es (new_buf m n))
         = (if limit \<le> 0 \<or> 1024 < limit then None
            else Some (take (nat limit) (filter (\<lambda>c. after < ck_Cursor c) kept))))"
proof -
  from collect_holds [OF assms(1) holds_new, of enc es m n] obtain kept where
    h: "holds enc (collect enc root es (new_buf m n)) kept" and k: "subseq kept (emitted 0 es)"
    and t: "\<not> po_Truncated (collect enc root es (new_buf m n)) \<longrightarrow> kept = emitted 0 es" by auto
  have "list_all (good_line enc dec) kept"
    using assms(2) subseq_set [OF k] by (auto simp: list_all_iff)
  from holds_read [OF h this] show ?thesis
    using k t by (intro exI [of _ kept]) (auto simp: process_Read_def not_le)
qed

text \<open>The memory a buffer uses.\<close>

definition buf_bounded :: "process_buf \<Rightarrow> bool" where
  "buf_bounded p \<longleftrightarrow> 0 \<le> po_memoryLimit p \<and> po_memoryBytes p = sum_list (map (\<lambda>c. int (length (ck_Data c))) (po_memory p))
     \<and> po_memoryBytes p \<le> po_memoryLimit p \<and> (po_spill p \<noteq> None \<longrightarrow> po_memory p = [])
     \<and> list_all (\<lambda>c. ck_Data c \<noteq> [] \<and> ck_Cursor c \<le> po_next p) (po_memory p)"

lemma appendChunk_bounded:
  "buf_bounded p \<Longrightarrow> buf_bounded (appendChunk enc opened wr stamp stream data root p)"
  by (auto simp: buf_bounded_def appendChunk_def Let_def open_spill_def list_all_iff split: option.split)

lemma new_buf_bounded: "buf_bounded (new_buf m n)"
  by (simp add: buf_bounded_def new_buf_def DefaultMemoryBytes_def)

text \<open>However much a process prints and whatever fails, the output kept in memory stays within the limit,
  its counter is exact, and once a spill file is open nothing stays in memory.\<close>

theorem output_memory_bounded:
  "buf_bounded (foldl (\<lambda>p (opened, wr, stamp, stream, data). appendChunk enc opened wr stamp stream data root p)
     (new_buf m n) history)"
  by (rule foldl_invariant) (auto simp: new_buf_bounded intro: appendChunk_bounded)

subsection \<open>The output as a paged log\<close>

text \<open>A client that reads after the last cursor it saw, a thousand chunks at a time, folds the whole output.\<close>

record output_view =
  ov_enc :: "chunk \<Rightarrow> string"
  ov_dec :: "string \<Rightarrow> chunk option"
  ov_root :: string
  ov_history :: "output_event list"
  ov_buf :: process_buf

definition output_ok :: "output_view \<Rightarrow> bool" where
  "output_ok v \<longleftrightarrow> holds (ov_enc v) (ov_buf v) (emitted 0 (ov_history v))
     \<and> list_all (good_line (ov_enc v) (ov_dec v)) (emitted 0 (ov_history v))"

definition output_log :: "output_view \<Rightarrow> chunk list" where
  "output_log v = emitted 0 (ov_history v)"

definition output_page :: "output_view \<Rightarrow> int \<Rightarrow> chunk list option" where
  "output_page v after = process_Read (ov_dec v) True (nat after) 1000 (ov_buf v)"

definition chunk_seq :: "chunk \<Rightarrow> int" where "chunk_seq c = int (ck_Cursor c)"

lemma emitted_numbered: "map chunk_seq (emitted n es) = [1 + int n..int n + int (length (emitted n es))]"
proof (induction n es rule: emitted.induct)
  case (2 n e es)
  have "[1 + int n..int n + int (Suc (length (emitted (n + 1) es)))]
      = (1 + int n) # [2 + int n..int n + int (Suc (length (emitted (n + 1) es)))]"
    by (subst upto.simps) (simp add: add.commute)
  then show ?case using 2 by (simp add: chunk_seq_def algebra_simps)
qed simp

lemma emitted_after: "filter (\<lambda>c. k < ck_Cursor c) (emitted 0 es) = drop k (emitted 0 es)"
  using filter_after [of chunk_seq "emitted 0 es" 0 k] emitted_numbered [of 0 es]
  by (simp add: chunk_seq_def)

interpretation process_pages: paged_log output_log output_page chunk_seq output_ok
proof unfold_locales
  fix v assume v: "output_ok v"
  show "map chunk_seq (output_log v) = [1..int (length (output_log v))]"
    using emitted_numbered [of 0 "ov_history v"] by (simp add: output_log_def)
  fix k
  have "process_Read (ov_dec v) True k 1000 (ov_buf v)
      = Some (take (nat 1000) (filter (\<lambda>c. k < ck_Cursor c) (emitted 0 (ov_history v))))"
    by (rule holds_read) (use v in \<open>auto simp: output_ok_def\<close>)
  then show "output_page v (int k) = Some (take 1000 (drop k (output_log v)))"
    by (simp add: output_page_def output_log_def emitted_after)
qed

lemma collect_view_ok:
  assumes "is_abs root" and "list_all (good_line enc dec) (emitted 0 es)"
    and "\<not> po_Truncated (collect enc root es (new_buf m n))"
  shows "output_ok \<lparr>ov_enc = enc, ov_dec = dec, ov_root = root, ov_history = es, ov_buf = collect enc root es (new_buf m n)\<rparr>"
  using collect_holds [OF assms(1) holds_new, of enc es m n] assms(2,3) by (auto simp: output_ok_def)

text \<open>Paging through the output of a process loses nothing: unless the output was truncated, reading a
  thousand chunks after the last cursor until a short page folds over every chunk of the output, once
  and in order.\<close>

theorem output_pages_complete:
  assumes "is_abs root" and "list_all (good_line enc dec) (emitted 0 es)"
    and "\<not> po_Truncated (collect enc root es (new_buf m n))" and "length (emitted 0 es) < 1000 * pages"
  shows "load_pages (\<lambda>after. process_Read dec True (nat after) 1000 (collect enc root es (new_buf m n)))
           chunk_seq f pages 0 st
         = fold_log f (emitted 0 es) st"
  using process_pages.load_pages_log [OF collect_view_ok [OF assms(1-3)], of f pages st] assms(4)
  by (simp add: output_page_def [abs_def] output_log_def)

subsection \<open>What escapes the mark\<close>

text \<open>A chunk whose line does not fit the scanner blocks every reader that has to pass it; control bytes make a
  line six times as long as the chunk, which may have 32768 bytes.\<close>

lemma long_line_blocks_reading:
  assumes "holds enc p (cs @ c # cs')" and "po_spill p \<noteq> None" and "list_all (good_line enc dec) cs"
    and "LF \<notin> set (enc c)" and "max_token \<le> length (enc c)" and "0 < limit" and "length cs < nat limit"
  shows "process_Read dec opened after limit p = None"
proof -
  have len: "length (filter (\<lambda>c. after < ck_Cursor c) cs) < nat limit"
    using assms(7) le_less_trans length_filter_le by blast
  have "read_spill dec after n (map (\<lambda>c. Some (enc c)) cs @ [None]) res = None"
    if "length res + length cs \<le> n" "list_all (good_line enc dec) cs" for n res
    using that by (induction cs arbitrary: res) (auto simp: good_line_def)
  from this [of "[]" "nat limit"]
  have "read_spill dec after (nat limit) (scan_tokens (lines_of enc cs @ lines_of enc (c # cs'))) [] = None"
    using scan_tokens_lines [OF assms(3)] assms(3-7) by (simp add: lines_of_def scan_tokens_long)
  then show ?thesis
    using assms(1,2) by (auto simp: process_Read_def holds_def lines_of_def split: option.splits)
qed

text \<open>The errors of writing the spill file are ignored: the output is not marked and reading fails, or the chunk
  is missing.\<close>

lemma failed_write_not_marked:
  assumes "po_spill p = Some f" and "data \<noteq> []" and "wr (po_next p + 1) = Some 0"
  shows "po_Truncated (appendChunk enc opened wr stamp stream data root p) = po_Truncated p
    \<and> po_spill (appendChunk enc opened wr stamp stream data root p) = Some f"
  using assms by (simp add: appendChunk_def Let_def writeChunk_def)

subsection \<open>A process that prints\<close>

definition demo_enc :: "chunk \<Rightarrow> string" where
  "demo_enc c = replicate (ck_Cursor c) (CHR ''#'') @ (if ck_Stream c = ''stdout'' then ''o'' else ''e'') @ ck_Data c"

definition demo_dec :: "string \<Rightarrow> chunk option" where
  "demo_dec s = (let n = length (takeWhile (\<lambda>c. c = CHR ''#'') s); r = dropWhile (\<lambda>c. c = CHR ''#'') s
     in case r of [] \<Rightarrow> None
        | k # d \<Rightarrow> Some \<lparr>ck_Cursor = n, ck_Stream = (if k = CHR ''o'' then ''stdout'' else ''stderr''), ck_Data = d\<rparr>)"

definition demo_events :: "output_event list" where
  "demo_events = map (\<lambda>(s, d). \<lparr>oe_Stream = s, oe_Data = d, oe_opened = True, oe_stamp = ''t''\<rparr>)
     [(''stdout'', ''ab''), (''stderr'', ''c''), (''stdout'', []), (''stdout'', ''defg''), (''stderr'', ''h'')]"

lemma demo_good: "list_all (good_line demo_enc demo_dec) (emitted 0 demo_events)"
  by code_simp

definition demo_buf :: process_buf where "demo_buf = collect demo_enc ''/s'' demo_events (new_buf 4 0)"

lemma demo_not_truncated: "\<not> po_Truncated (collect demo_enc ''/s'' demo_events (new_buf 4 0))" and
  demo_spilled: "po_spillPath (collect demo_enc ''/s'' demo_events (new_buf 4 0)) = ''/s/.process-spill-t.jsonl''"
  by code_simp+

theorem output_exact_witness:
  "map_option (map ck_Data) (process_Read demo_dec True 1 2 demo_buf) = Some [''c'', ''defg'']
   \<and> process_Read demo_dec True 0 0 demo_buf = None"
proof -
  have "is_abs ''/s''" by code_simp
  from output_exact [OF this demo_good, of 4 0] obtain kept where
    k: "kept = emitted 0 demo_events" and
    r: "\<And>after limit. process_Read demo_dec True after limit demo_buf
      = (if limit \<le> 0 \<or> 1024 < limit then None
         else Some (take (nat limit) (filter (\<lambda>c. after < ck_Cursor c) kept)))"
    using demo_not_truncated unfolding demo_buf_def by blast
  have "map ck_Data (take 2 (filter (\<lambda>c. 1 < ck_Cursor c) (emitted 0 demo_events))) = [''c'', ''defg'']" by code_simp
  then show ?thesis using r [of 1 2] r [of 0 0] k by simp
qed

theorem output_pages_complete_witness:
  "load_pages (\<lambda>after. process_Read demo_dec True (nat after) 1000 (collect demo_enc ''/s'' demo_events (new_buf 4 0)))
     chunk_seq (\<lambda>c st. Some (st @ ck_Data c)) 1 0 [] = Some ''abcdefgh''"
proof -
  have a: "is_abs ''/s''" by code_simp
  have l: "length (emitted 0 demo_events) < 1000 * 1" by code_simp
  have "fold_log (\<lambda>c st. Some (st @ ck_Data c)) (emitted 0 demo_events) [] = Some ''abcdefgh''" by code_simp
  then show ?thesis using output_pages_complete [OF a demo_good demo_not_truncated l, of "\<lambda>c st. Some (st @ ck_Data c)" "[]"]
    by simp
qed

end
