(* ===== verification/Process_Supervisor.thy ===== *)
theory Process_Supervisor
  imports Process_Output Security_Policy
begin

section \<open>Supervised processes (internal/process/process.go, internal/process/container.go)\<close>

text \<open>
  How a process is started in a container, and how it is supervised: the child, the two pipes, their
  readers, the goroutine that waits for the child and the one that selects between its end and the end
  of the context, as one step relation over every interleaving. The theory shows which command line is
  started, what the outcome of a process means, that the output is what the child wrote in its order,
  and two ways in which the code does not do what it means to.
\<close>

subsection \<open>Specifications\<close>

record process_spec =
  ps_TaskID :: string
  ps_WorkspaceGeneration :: string
  ps_LeaseGeneration :: nat
  ps_RuntimeID :: string
  ps_Execution :: compiled_execution
  ps_Environment :: "string list"
  ps_Interactive :: bool
  ps_PTY :: bool
  ps_Timeout :: duration
  ps_MemoryBytes :: int
  ps_ChunkBytes :: int

definition DefaultTimeout :: duration where "DefaultTimeout = 10 * minute"

definition ValidateSpec :: "process_spec \<Rightarrow> bool" where
  "ValidateSpec s \<longleftrightarrow>
     (let x = ps_Execution s
      in xs_Executable x \<noteq> [] \<and> xs_Backend x \<noteq> [] \<and> is_abs (xs_CWD x) \<and> clean (xs_CWD x) = xs_CWD x
         \<and> \<not> contains_any (xs_CWD x) control_chars \<and> \<not> (ps_PTY s \<and> \<not> ps_Interactive s)
         \<and> ValidateEnvironment (ps_Environment s))"

subsection \<open>The command line in a container\<close>

definition containerPath :: string where
  "containerPath = ''/workspace/node_modules/.bin:/workspace/.venv/bin:/workspace/bin:/usr/local/go/bin:/go/bin:/usr/local/cargo/bin:/root/.local/bin:/usr/local/sbin:/usr/local/bin:/usr/sbin:/usr/bin:/sbin:/bin''"

definition containerBaselineEnvironment :: "string list" where
  "containerBaselineEnvironment =
    [''PATH='' @ containerPath, ''HOME=/tmp'', ''TMPDIR=/tmp'', ''GOPATH=/go'', ''GOMODCACHE=/go/pkg/mod'',
     ''GOCACHE=/tmp/go-build'', ''LC_ALL=C'', ''GIT_TERMINAL_PROMPT=0'', ''GIT_CONFIG_NOSYSTEM=1'',
     ''GIT_CONFIG_GLOBAL=/dev/null'']"

definition isDevelopmentShell :: "string \<Rightarrow> bool" where
  "isDevelopmentShell executable \<longleftrightarrow> to_lower (base_name executable) \<in> {''sh'', ''bash'', ''zsh''}"

definition containerShellArguments :: "string \<Rightarrow> string list \<Rightarrow> string list" where
  "containerShellArguments executable as =
    (case as of
       a # b # rest \<Rightarrow>
         (if a = ''-lc'' \<and> isDevelopmentShell executable
          then a # (''PATH='' @ [CHR 0x27] @ containerPath @ [CHR 0x27] @ ''; export PATH; '' @ b) # rest else as)
     | _ \<Rightarrow> as)"

definition sameEnvironment :: "string list \<Rightarrow> string list \<Rightarrow> bool" where
  "sameEnvironment left right \<longleftrightarrow>
     length left = length right \<and> list_all (\<lambda>i. left ! i = right ! i) [0..<length left]"

definition containsDotDot :: "string \<Rightarrow> bool" where
  "containsDotDot path \<longleftrightarrow> ''..'' \<in> set (split_on slash path)"

definition safeWorkspaceCWD :: "string \<Rightarrow> bool" where
  "safeWorkspaceCWD path \<longleftrightarrow>
     path = ''/workspace''
     \<or> (length ''/workspace/'' < length path \<and> take (length ''/workspace/'') path = ''/workspace/'' \<and> \<not> containsDotDot path)"

text \<open>What is handed to the operating system.\<close>

record host_command =
  hc_Binary :: string
  hc_Args :: "string list"
  hc_Env :: "string list"
  hc_Dir :: string
  hc_PTY :: bool

definition env_args :: "string list \<Rightarrow> string list" where
  "env_args vs = concat (map (\<lambda>v. [''--env'', v]) vs)"

definition or_container :: "string \<Rightarrow> string" where
  "or_container binary = (if binary = [] then ''container'' else binary)"

text \<open>\<open>resolve\<close> maps the identity of a runtime to the identity of its container.\<close>

definition container_command ::
  "go_ctx \<Rightarrow> string \<Rightarrow> (string \<Rightarrow> string option) \<Rightarrow> process_spec \<Rightarrow> host_command option" where
  "container_command ctx binary resolve s =
    (let x = ps_Execution s
     in if ctx = Ctx_Nil \<or> xs_Backend x \<noteq> ''apple-container'' then None
        else if \<not> sameEnvironment (ps_Environment s) (xs_Environment x) then None
        else if \<not> ValidateUserEnvironment (ps_Environment s) 64 16384 then None
        else if \<not> safeWorkspaceCWD (xs_CWD x) then None
        else if ps_RuntimeID s = [] \<or> ps_WorkspaceGeneration s = [] \<or> ps_LeaseGeneration s = 0 then None
        else (case resolve (ps_RuntimeID s) of
                None \<Rightarrow> None
              | Some containerID \<Rightarrow>
                  (let b = or_container binary
                   in if containerID = [] \<or> base_name b \<noteq> ''container'' \<or> \<not> is_abs b \<or> ps_PTY s then None
                      else Some \<lparr>hc_Binary = b,
                        hc_Args = [''exec'', ''--workdir'', xs_CWD x] @ env_args containerBaselineEnvironment
                          @ env_args (ps_Environment s) @ [containerID, xs_Executable x]
                          @ containerShellArguments (xs_Executable x) (xs_Arguments x),
                        hc_Env = [''PATH=/usr/bin:/bin:/opt/homebrew/bin'', ''LC_ALL=C''],
                        hc_Dir = [], hc_PTY = False\<rparr>)))"

text \<open>Opening the pipes and starting the command is the answer of the host, which may change its world.\<close>

definition container_Start ::
  "(host_command \<Rightarrow> 'x \<Rightarrow> bool \<times> 'x) \<Rightarrow> string \<Rightarrow> (string \<Rightarrow> string option) \<Rightarrow> go_ctx \<Rightarrow> process_spec \<Rightarrow> 'x
   \<Rightarrow> host_command option \<times> 'x" where
  "container_Start host binary resolve ctx s x =
    (case container_command ctx binary resolve s of
       None \<Rightarrow> (None, x)
     | Some c \<Rightarrow> (case host c x of (ok, x') \<Rightarrow> (if ok then Some c else None, x')))"

definition local_command :: "process_spec \<Rightarrow> host_command" where
  "local_command s = \<lparr>hc_Binary = xs_Executable (ps_Execution s), hc_Args = xs_Arguments (ps_Execution s),
     hc_Env = ps_Environment s, hc_Dir = xs_CWD (ps_Execution s), hc_PTY = ps_PTY s\<rparr>"

definition local_Start ::
  "(host_command \<Rightarrow> 'x \<Rightarrow> bool \<times> 'x) \<Rightarrow> go_ctx \<Rightarrow> process_spec \<Rightarrow> 'x \<Rightarrow> host_command option \<times> 'x" where
  "local_Start host ctx s x =
    (case host (local_command s) x of (ok, x') \<Rightarrow> (if ok then Some (local_command s) else None, x'))"

subsection \<open>Starting under supervision\<close>

text \<open>A process that was started: what runs, how long, and its empty output. \<open>starter\<close> is the starter of the
  supervisor.\<close>

record started =
  st_command :: host_command
  st_timeout :: duration
  st_buf :: process_buf
  st_usePTY :: bool

definition supervisor_Start ::
  "(go_ctx \<Rightarrow> process_spec \<Rightarrow> 'x \<Rightarrow> host_command option \<times> 'x) \<Rightarrow> go_ctx \<Rightarrow> process_spec \<Rightarrow> 'x \<Rightarrow> started option \<times> 'x" where
  "supervisor_Start starter ctx s x =
    (if ctx = Ctx_Nil \<or> \<not> ValidateSpec s then (None, x)
     else (case starter ctx s x of
             (None, x') \<Rightarrow> (None, x')
           | (Some c, x') \<Rightarrow>
               (Some \<lparr>st_command = c, st_timeout = (if ps_Timeout s \<le> 0 then DefaultTimeout else ps_Timeout s),
                      st_buf = new_buf (ps_MemoryBytes s) (ps_ChunkBytes s), st_usePTY = ps_PTY s\<rparr>, x')))"

definition NewSupervisor :: "bool \<Rightarrow> string \<Rightarrow> bool" where
  "NewSupervisor made spillRoot \<longleftrightarrow> spillRoot \<noteq> [] \<and> is_abs spillRoot \<and> made"

subsection \<open>Signals\<close>

text \<open>The process a signal is sent to: the group of a pid, or the process alone. A signal is a \<open>syscall.Signal\<close>
  or another \<open>os.Signal\<close>.\<close>

datatype signal_target = To_Group nat | To_Process nat

definition local_Signal :: "nat option \<Rightarrow> bool \<Rightarrow> signal_target option" where
  "local_Signal pid is_syscall =
    (case pid of None \<Rightarrow> None | Some n \<Rightarrow> Some (if is_syscall then To_Group n else To_Process n))"

definition container_Signal :: "bool \<Rightarrow> nat option \<Rightarrow> bool \<Rightarrow> signal_target option" where
  "container_Signal processGroup pid is_syscall =
    (case pid of None \<Rightarrow> None
     | Some n \<Rightarrow> Some (if is_syscall \<and> processGroup then To_Group n else To_Process n))"

definition SIGINT :: int where "SIGINT = 2"
definition SIGKILL :: int where "SIGKILL = 9"
definition SIGTERM :: int where "SIGTERM = 15"

subsection \<open>Which command is started\<close>

lemma sameEnvironment_iff: "sameEnvironment l r \<longleftrightarrow> l = r"
  by (auto simp: sameEnvironment_def list_all_iff intro: nth_equalityI)

definition cwd_in_workspace :: "string \<Rightarrow> bool" where
  "cwd_in_workspace path \<longleftrightarrow> path = ''/workspace'' \<or> (prefix ''/workspace/'' path \<and> ''..'' \<notin> set (split_on slash path))"

lemma safeWorkspaceCWD_in: "safeWorkspaceCWD path \<Longrightarrow> cwd_in_workspace path"
  unfolding safeWorkspaceCWD_def cwd_in_workspace_def containsDotDot_def using take_is_prefix by metis

definition passed_to_container :: "string \<Rightarrow> bool" where
  "passed_to_container v \<longleftrightarrow> (\<exists>name val. v = name @ CHR ''='' # val \<and> validEnvironmentName name
     \<and> \<not> protectedEnvironmentName name \<and> \<not> containsSensitiveEnvironmentMarker name)"

lemma user_environment_named:
  assumes "ValidateUserEnvironment vs n b"
  shows "\<forall>v \<in> set vs. passed_to_container v"
proof -
  have "validate_env_loop True b 0 vs" "0 \<le> b"
    using assms by (auto simp: ValidateUserEnvironment_def validateEnvironment_def split: if_splits)
  from validate_env_loop_spec [OF this] show ?thesis unfolding passed_to_container_def by fastforce
qed

lemma CompileExecution_ok:
  assumes "CompileExecution p r = Inr x"
  shows "x = r" and "xs_Executable r \<noteq> []" and "xs_Executable r \<in> set (xp_AllowedExecutables p)"
    and "int (length (xs_Arguments r)) \<le> default_if_not_positive 128 (xp_MaxArguments p)" and "args_valid (xs_Arguments r)"
    and "total_bytes (xs_Arguments r) \<le> default_if_not_positive 65536 (xp_MaxArgBytes p)"
proof -
  have "x = \<lparr>xs_Backend = xs_Backend r, xs_Executable = xs_Executable r, xs_Arguments = xs_Arguments r, xs_CWD = xs_CWD r,
      xs_Environment = xs_Environment r\<rparr>"
    using assms unfolding CompileExecution_def by (simp split: if_split_asm)
  then show "x = r" by simp
  show "xs_Executable r \<noteq> []" and "xs_Executable r \<in> set (xp_AllowedExecutables p)"
    and "int (length (xs_Arguments r)) \<le> default_if_not_positive 128 (xp_MaxArguments p)" and "args_valid (xs_Arguments r)"
    and "total_bytes (xs_Arguments r) \<le> default_if_not_positive 65536 (xp_MaxArgBytes p)"
    using assms unfolding CompileExecution_def by (simp_all add: not_less split: if_split_asm)
qed


lemma containerShellArguments_shape:
  "containerShellArguments exe as = as
   \<or> (\<exists>b rest. isDevelopmentShell exe \<and> as = ''-lc'' # b # rest
        \<and> containerShellArguments exe as
          = ''-lc'' # (''PATH='' @ [CHR 0x27] @ containerPath @ [CHR 0x27] @ ''; export PATH; '' @ b) # rest)"
  by (auto simp: containerShellArguments_def split: list.splits)

text \<open>The comment of \<open>ValidateUserEnvironment\<close> says that the variables of the adapter cannot be overridden, but
  five of the ten are not protected.\<close>

lemma baseline_not_protected:
  "filter (\<lambda>v. \<not> protectedEnvironmentName (fst (cut_at (CHR ''='') v))) containerBaselineEnvironment
   = [''GOPATH=/go'', ''GOMODCACHE=/go/pkg/mod'', ''GOCACHE=/tmp/go-build'', ''GIT_TERMINAL_PROMPT=0'',
      ''GIT_CONFIG_NOSYSTEM=1'']"
  by code_simp

lemma baseline_overridable: "ValidateUserEnvironment [''GIT_CONFIG_NOSYSTEM=0''] 64 16384"
  by code_simp

text \<open>A signal to a process in a container reaches the client process alone: no code sets the flag that
  selects its group.\<close>

lemma container_Signal_never_group: "container_Signal False pid sys \<noteq> Some (To_Group n)"
  by (auto simp: container_Signal_def split: option.split)

subsection \<open>A command in a container\<close>

definition demo_spec :: process_spec where
  "demo_spec = \<lparr>ps_TaskID = ''g'', ps_WorkspaceGeneration = ''g'', ps_LeaseGeneration = 3, ps_RuntimeID = ''r'',
     ps_Execution = \<lparr>xs_Backend = ''apple-container'', xs_Executable = ''sh'', xs_Arguments = [''-lc'', ''ls''],
        xs_CWD = ''/workspace/a'', xs_Environment = [''A=1'']\<rparr>,
     ps_Environment = [''A=1''], ps_Interactive = False, ps_PTY = False, ps_Timeout = 0, ps_MemoryBytes = 0, ps_ChunkBytes = 0\<rparr>"

definition demo_start where
  "demo_start = container_Start (\<lambda>c n. (True, n + (1::nat))) ''/bin/container'' (\<lambda>r. if r = ''r'' then Some ''rw-1'' else None)
     Ctx_Live demo_spec 0"

definition demo_exec_policy :: execution_policy where
  "demo_exec_policy = \<lparr>xp_AllowedExecutables = [''sh'', ''go''], xp_MaxArgBytes = 0, xp_MaxArguments = 8,
     xp_MaxEnvironmentBytes = 0, xp_MaxEnvironmentItems = 0\<rparr>"


subsection \<open>Supervision\<close>

text \<open>What \<open>Wait\<close> of a child returns, and the exit code of it.\<close>

datatype wait_error = WE_None | WE_Exit int | WE_Other

fun exitCode :: "wait_error \<Rightarrow> int" where
  "exitCode WE_None = 0"
| "exitCode (WE_Exit n) = n"
| "exitCode WE_Other = - 1"

record outcome =
  oc_ExitCode :: int
  oc_TimedOut :: bool
  oc_Canceled :: bool
  oc_Truncated :: bool
  oc_SpillPath :: string

datatype run_ctx = RC_Live | RC_Deadline | RC_Canceled

datatype group_signal = GS_Term | GS_Kill

text \<open>Where the goroutine of \<open>supervise\<close> is: in its select, between the two signals, waiting for the child it
  has killed, waiting for the readers, done.\<close>

datatype sup_pc = SP_Select | SP_Grace | SP_Killed | SP_Drain | SP_Done outcome

text \<open>The state of a supervised process. \<open>sv_pty\<close> tells a terminal from two pipes, \<open>sv_pipe\<close> is what was written to a stream and not read, \<open>sv_writers\<close>
  holds while some process has the write ends open, \<open>sv_closed\<close> once \<open>Wait\<close> has closed the read ends.
  \<open>sv_written\<close>, \<open>sv_events\<close> and \<open>sv_signals\<close> record the history.\<close>

record sup_state =
  sv_pty :: bool
  sv_buf :: process_buf
  sv_pipe :: "string \<Rightarrow> string"
  sv_reading :: "string \<Rightarrow> bool"
  sv_writers :: bool
  sv_closed :: bool
  sv_child :: "wait_error option"
  sv_waited :: "wait_error option"
  sv_ctx :: run_ctx
  sv_pc :: sup_pc
  sv_written :: "string \<Rightarrow> string"
  sv_events :: "output_event list"
  sv_signals :: "group_signal list"

definition StreamStdout :: string where "StreamStdout = ''stdout''"
definition StreamStderr :: string where "StreamStderr = ''stderr''"
definition StreamPTY :: string where "StreamPTY = ''pty''"

definition streams_of :: "bool \<Rightarrow> string list" where
  "streams_of usePTY = (if usePTY then [StreamPTY] else [StreamStdout, StreamStderr])"

definition sup_init :: "bool \<Rightarrow> process_buf \<Rightarrow> sup_state" where
  "sup_init usePTY b =
     \<lparr>sv_pty = usePTY, sv_buf = b, sv_pipe = (\<lambda>_. []), sv_reading = (\<lambda>s. s \<in> set (streams_of usePTY)), sv_writers = True,
      sv_closed = False, sv_child = None, sv_waited = None, sv_ctx = RC_Live, sv_pc = SP_Select,
      sv_written = (\<lambda>_. []), sv_events = [], sv_signals = []\<rparr>"

definition final_outcome :: "wait_error \<Rightarrow> sup_state \<Rightarrow> outcome" where
  "final_outcome e st =
     \<lparr>oc_ExitCode = exitCode e, oc_TimedOut = (sv_ctx st = RC_Deadline), oc_Canceled = (sv_ctx st = RC_Canceled),
      oc_Truncated = po_Truncated (sv_buf st), oc_SpillPath = po_spillPath (sv_buf st)\<rparr>"

text \<open>The steps. A descendant of the child may hold the write ends after the child has exited, so writing does
  not need a running child. \<open>Wait\<close> of a command whose pipes were made with \<open>StdoutPipe\<close> closes them when
  the command has exited; the file of a terminal it does not close. The select on \<open>p.done\<close> between the two signals cannot be taken, because \<open>done\<close>
  is closed by the same goroutine, later.\<close>

inductive sup_step :: "(chunk \<Rightarrow> string) \<Rightarrow> string \<Rightarrow> (nat \<Rightarrow> nat option) \<Rightarrow> sup_state \<Rightarrow> sup_state \<Rightarrow> bool"
  for enc :: "chunk \<Rightarrow> string" and root :: string and wr :: "nat \<Rightarrow> nat option" where
  sup_write: "sv_writers st \<Longrightarrow> \<not> sv_closed st \<Longrightarrow>
     sup_step enc root wr st (st\<lparr>sv_pipe := (sv_pipe st)(s := sv_pipe st s @ d),
                                 sv_written := (sv_written st)(s := sv_written st s @ d)\<rparr>)"
| sup_read: "sv_reading st s \<Longrightarrow> \<not> sv_closed st \<Longrightarrow> 0 < k \<Longrightarrow> k \<le> length (sv_pipe st s) \<Longrightarrow>
     int k \<le> po_chunkBytes (sv_buf st) \<Longrightarrow>
     sup_step enc root wr st
       (st\<lparr>sv_buf := appendChunk enc opened wr stamp s (take k (sv_pipe st s)) root (sv_buf st),
           sv_pipe := (sv_pipe st)(s := drop k (sv_pipe st s)),
           sv_events := sv_events st @ [\<lparr>oe_Stream = s, oe_Data = take k (sv_pipe st s), oe_opened = opened,
                                         oe_stamp = stamp\<rparr>]\<rparr>)"
| sup_reader_ends: "sv_reading st s \<Longrightarrow> sv_closed st \<or> (sv_pipe st s = [] \<and> \<not> sv_writers st) \<Longrightarrow>
     sup_step enc root wr st (st\<lparr>sv_reading := (sv_reading st)(s := False)\<rparr>)"
| sup_exit: "sv_child st = None \<Longrightarrow> sup_step enc root wr st (st\<lparr>sv_child := Some e\<rparr>)"
| sup_writers_end: "sv_child st \<noteq> None \<Longrightarrow> sup_step enc root wr st (st\<lparr>sv_writers := False\<rparr>)"
| sup_wait_returns: "sv_child st = Some e \<Longrightarrow> sv_waited st = None \<Longrightarrow>
     sup_step enc root wr st (st\<lparr>sv_waited := Some e, sv_closed := \<not> sv_pty st\<rparr>)"
| sup_ctx_ends: "sv_ctx st = RC_Live \<Longrightarrow> c \<noteq> RC_Live \<Longrightarrow> sup_step enc root wr st (st\<lparr>sv_ctx := c\<rparr>)"
| sup_select_wait: "sv_pc st = SP_Select \<Longrightarrow> sv_waited st \<noteq> None \<Longrightarrow>
     sup_step enc root wr st (st\<lparr>sv_pc := SP_Drain\<rparr>)"
| sup_select_ctx: "sv_pc st = SP_Select \<Longrightarrow> sv_ctx st \<noteq> RC_Live \<Longrightarrow>
     sup_step enc root wr st (st\<lparr>sv_pc := SP_Grace, sv_signals := sv_signals st @ [GS_Term]\<rparr>)"
| sup_kill: "sv_pc st = SP_Grace \<Longrightarrow>
     sup_step enc root wr st (st\<lparr>sv_pc := SP_Killed, sv_signals := sv_signals st @ [GS_Kill]\<rparr>)"
| sup_killed_wait: "sv_pc st = SP_Killed \<Longrightarrow> sv_waited st \<noteq> None \<Longrightarrow>
     sup_step enc root wr st (st\<lparr>sv_pc := SP_Drain\<rparr>)"
| sup_finish: "sv_pc st = SP_Drain \<Longrightarrow> sv_waited st = Some e \<Longrightarrow> (\<And>s. \<not> sv_reading st s) \<Longrightarrow>
     sup_step enc root wr st (st\<lparr>sv_pc := SP_Done (final_outcome e st)\<rparr>)"

inductive_cases sup_stepE: "sup_step enc root wr st st'"

definition sup_reach :: "(chunk \<Rightarrow> string) \<Rightarrow> string \<Rightarrow> (nat \<Rightarrow> nat option) \<Rightarrow> sup_state \<Rightarrow> sup_state \<Rightarrow> bool" where
  "sup_reach enc root wr = (sup_step enc root wr)\<^sup>*\<^sup>*"

text \<open>\<open>Wait\<close> of a handle: the outcome once it is there; \<open>pick_done\<close> is the choice of a select that has both.\<close>

definition process_Wait :: "go_ctx \<Rightarrow> bool \<Rightarrow> sup_state \<Rightarrow> (outcome option) option" where
  "process_Wait ctx pick_done st =
    (if ctx = Ctx_Nil then Some None
     else (case sv_pc st of
             SP_Done out \<Rightarrow> Some (if ctx_err ctx \<and> \<not> pick_done then None else Some out)
           | _ \<Rightarrow> (if ctx_err ctx then Some None else None)))"

definition process_Cancel :: "sup_state \<Rightarrow> sup_state" where
  "process_Cancel st = (if sv_ctx st = RC_Live then st\<lparr>sv_ctx := RC_Canceled\<rparr> else st)"

subsection \<open>What the output is\<close>

definition captured :: "string \<Rightarrow> output_event list \<Rightarrow> string" where
  "captured s es = concat (map oe_Data (filter (\<lambda>e. oe_Stream e = s) es))"

lemma captured_snoc [simp]: "captured s (es @ [e]) = captured s es @ (if oe_Stream e = s then oe_Data e else [])"
  by (simp add: captured_def)

lemma appendChunk_chunkBytes [simp]:
  "po_chunkBytes (appendChunk enc opened wr stamp stream data root p) = po_chunkBytes p"
  by (auto simp: appendChunk_def Let_def open_spill_def split: option.split)

definition output_inv :: "process_buf \<Rightarrow> sup_state \<Rightarrow> bool" where
  "output_inv b st \<longleftrightarrow> (\<forall>s. captured s (sv_events st) @ sv_pipe st s = sv_written st s)
     \<and> po_chunkBytes (sv_buf st) = po_chunkBytes b
     \<and> list_all (\<lambda>e. oe_Data e \<noteq> [] \<and> int (length (oe_Data e)) \<le> po_chunkBytes b) (sv_events st)"

lemma output_inv_step: "sup_step enc root wr st st' \<Longrightarrow> output_inv b st \<Longrightarrow> output_inv b st'"
proof (induction rule: sup_step.induct)
  case (sup_write st s d)
  then show ?case by (auto simp: output_inv_def)
next
  case (sup_read st s k opened stamp)
  have "take k (sv_pipe st s) \<noteq> []" using sup_read(3,4) by auto
  moreover have "captured s (sv_events st) @ take k (sv_pipe st s) @ drop k (sv_pipe st s) = sv_written st s"
    using sup_read by (simp add: output_inv_def)
  ultimately show ?case using sup_read by (auto simp: output_inv_def)
qed (auto simp: output_inv_def)

lemma sup_reach_inv:
  assumes "sup_reach enc root wr st st'" and "P st"
    and "\<And>st st'. sup_step enc root wr st st' \<Longrightarrow> P st \<Longrightarrow> P st'"
  shows "P st'"
  using assms(1) unfolding sup_reach_def by (induction rule: rtranclp_induct) (use assms(2,3) in blast)+

lemma collect_inv_step:
  "sup_step enc root (\<lambda>_. None) st st' \<Longrightarrow> sv_buf st = collect enc root (sv_events st) b
     \<Longrightarrow> sv_buf st' = collect enc root (sv_events st') b"
  by (induction rule: sup_step.induct) (auto simp: collect_def collect1_def)

text \<open>The output of a supervised process is what it wrote. In every state that any interleaving of child,
  readers, waiting and signals reaches, the pieces read from a stream are, one after the other, a prefix
  of what was written to it, and all of it once the pipe is empty; each piece has between one byte and
  the chunk size; and the buffer is the one that collects exactly these pieces.\<close>

theorem supervised_output:
  assumes "sup_reach enc root (\<lambda>_. None) (sup_init usePTY (new_buf m n)) st"
  shows "captured s (sv_events st) @ sv_pipe st s = sv_written st s
    \<and> list_all (\<lambda>e. 0 < length (oe_Data e) \<and> length (oe_Data e) \<le> 32768) (sv_events st)
    \<and> sv_buf st = collect enc root (sv_events st) (new_buf m n)"
proof -
  have "output_inv (new_buf m n) st"
    by (rule sup_reach_inv [OF assms _ output_inv_step]) (auto simp: output_inv_def sup_init_def captured_def)
  moreover have "po_chunkBytes (new_buf m n) \<le> 32768"
    by (simp add: new_buf_def DefaultChunkBytes_def)
  moreover have "sv_buf st = collect enc root (sv_events st) (new_buf m n)"
    by (rule sup_reach_inv [OF assms _ collect_inv_step]) (simp_all add: sup_init_def collect_def)
  ultimately show ?thesis by (auto simp: output_inv_def list_all_iff)
qed

subsection \<open>What an outcome means\<close>

definition pc_inv :: "sup_state \<Rightarrow> bool" where
  "pc_inv st \<longleftrightarrow>
     (\<forall>e. sv_waited st = Some e \<longrightarrow> sv_child st = Some e)
     \<and> (sv_signals st \<noteq> [] \<longrightarrow> sv_ctx st \<noteq> RC_Live)
     \<and> (case sv_pc st of
          SP_Select \<Rightarrow> sv_signals st = []
        | SP_Grace \<Rightarrow> sv_signals st = [GS_Term]
        | SP_Killed \<Rightarrow> sv_signals st = [GS_Term, GS_Kill]
        | SP_Drain \<Rightarrow> sv_waited st \<noteq> None \<and> sv_signals st \<in> {[], [GS_Term, GS_Kill]}
        | SP_Done out \<Rightarrow> sv_waited st \<noteq> None \<and> sv_signals st \<in> {[], [GS_Term, GS_Kill]}
            \<and> (\<forall>s. \<not> sv_reading st s) \<and> oc_ExitCode out = exitCode (the (sv_waited st))
            \<and> oc_Truncated out = po_Truncated (sv_buf st) \<and> oc_SpillPath out = po_spillPath (sv_buf st)
            \<and> (oc_TimedOut out \<longrightarrow> sv_ctx st = RC_Deadline) \<and> (oc_Canceled out \<longrightarrow> sv_ctx st = RC_Canceled)
            \<and> (sv_signals st \<noteq> [] \<longrightarrow> oc_TimedOut out \<or> oc_Canceled out))"

lemma pc_inv_step: "sup_step enc root wr st st' \<Longrightarrow> pc_inv st \<Longrightarrow> pc_inv st'"
proof (induction rule: sup_step.induct)
  case (sup_finish st e)
  then show ?case by (cases "sv_ctx st") (auto simp: pc_inv_def final_outcome_def)
qed (auto simp: pc_inv_def split: sup_pc.splits)

text \<open>An outcome means what it says. When a supervised process is done, the child has exited and its exit
  code is the one reported, nobody reads any more, the truncation mark and the spill file are those of
  the buffer, timed out and canceled are claimed only when the context ended that way, and a process
  for which neither is claimed was not signalled by the supervisor; one that was got first the polite
  signal and then the other.\<close>

theorem process_outcome_exact:
  assumes "sup_reach enc root wr (sup_init usePTY b) st" and "sv_pc st = SP_Done out"
  shows "\<exists>e. sv_child st = Some e \<and> oc_ExitCode out = exitCode e \<and> (\<forall>s. \<not> sv_reading st s)
    \<and> oc_Truncated out = po_Truncated (sv_buf st) \<and> oc_SpillPath out = po_spillPath (sv_buf st)
    \<and> (oc_TimedOut out \<longrightarrow> sv_ctx st = RC_Deadline) \<and> (oc_Canceled out \<longrightarrow> sv_ctx st = RC_Canceled)
    \<and> (if oc_TimedOut out \<or> oc_Canceled out then sv_signals st \<in> {[], [GS_Term, GS_Kill]} else sv_signals st = [])"
proof -
  have "pc_inv st"
    by (rule sup_reach_inv [OF assms(1) _ pc_inv_step]) (simp_all add: pc_inv_def sup_init_def)
  then show ?thesis using assms(2) by (auto simp: pc_inv_def)
qed

subsection \<open>Finishing\<close>

lemma sup_reach_step: "sup_reach enc root wr st0 st \<Longrightarrow> sup_step enc root wr st st' \<Longrightarrow> sup_reach enc root wr st0 st'"
  unfolding sup_reach_def by (rule rtranclp.rtrancl_into_rtrancl)

lemma sup_reach_refl: "sup_reach enc root wr st st"
  by (simp add: sup_reach_def)

lemma sup_reach_trans: "sup_reach enc root wr a b \<Longrightarrow> sup_reach enc root wr b c \<Longrightarrow> sup_reach enc root wr a c"
  unfolding sup_reach_def by (rule rtranclp_trans)

text \<open>Once the child has exited and its pipes have no writers, one reader after the other can end.\<close>

definition settled :: "sup_state \<Rightarrow> sup_state \<Rightarrow> bool" where
  "settled st st' \<longleftrightarrow> sv_waited st' = sv_waited st \<and> sv_pc st' = sv_pc st \<and> sv_ctx st' = sv_ctx st \<and> \<not> sv_writers st'
     \<and> 0 < po_chunkBytes (sv_buf st')"

lemma reader_can_drain:
  "\<not> sv_writers st \<Longrightarrow> sv_reading st s \<Longrightarrow> 0 < po_chunkBytes (sv_buf st) \<Longrightarrow>
   \<exists>st'. sup_reach enc root wr st st' \<and> settled st st' \<and> sv_reading st' = (sv_reading st)(s := False)"
proof (induction "length (sv_pipe st s)" arbitrary: st)
  case 0
  then have "sup_step enc root wr st (st\<lparr>sv_reading := (sv_reading st)(s := False)\<rparr>)" by (intro sup_reader_ends) auto
  then show ?case using 0 sup_reach_step [OF sup_reach_refl] by (fastforce simp: settled_def)
next
  case (Suc n)
  show ?case
  proof (cases "sv_closed st")
    case True
    then have "sup_step enc root wr st (st\<lparr>sv_reading := (sv_reading st)(s := False)\<rparr>)"
      using Suc.prems by (intro sup_reader_ends) auto
    then show ?thesis using Suc.prems sup_reach_step [OF sup_reach_refl] by (fastforce simp: settled_def)
  next
    case False
    let ?st = "st\<lparr>sv_buf := appendChunk enc False wr [] s (take 1 (sv_pipe st s)) root (sv_buf st),
        sv_pipe := (sv_pipe st)(s := drop 1 (sv_pipe st s)),
        sv_events := sv_events st @ [\<lparr>oe_Stream = s, oe_Data = take 1 (sv_pipe st s), oe_opened = False, oe_stamp = []\<rparr>]\<rparr>"
    have step: "sup_step enc root wr st ?st"
      by (rule sup_read) (use False Suc.prems Suc.hyps(2) in auto)
    have "\<exists>st'. sup_reach enc root wr ?st st' \<and> settled ?st st' \<and> sv_reading st' = (sv_reading ?st)(s := False)"
      by (rule Suc.hyps(1)) (use Suc.prems Suc.hyps(2) in auto)
    then show ?thesis
      using sup_reach_trans [OF sup_reach_step [OF sup_reach_refl step]] by (fastforce simp: settled_def)
  qed
qed

lemma readers_can_drain:
  "\<not> sv_writers st \<Longrightarrow> 0 < po_chunkBytes (sv_buf st) \<Longrightarrow> (\<forall>s. sv_reading st s \<longrightarrow> s \<in> set ss) \<Longrightarrow>
   \<exists>st'. sup_reach enc root wr st st' \<and> settled st st' \<and> (\<forall>s. \<not> sv_reading st' s)"
proof (induction ss arbitrary: st)
  case Nil
  then show ?case using sup_reach_refl by (fastforce simp: settled_def)
next
  case (Cons s ss)
  show ?case
  proof (cases "sv_reading st s")
    case True
    from reader_can_drain [OF Cons.prems(1) True Cons.prems(2)] obtain st1 where
      1: "sup_reach enc root wr st st1" "settled st st1" "sv_reading st1 = (sv_reading st)(s := False)" by blast
    have "\<exists>st'. sup_reach enc root wr st1 st' \<and> settled st1 st' \<and> (\<forall>s. \<not> sv_reading st' s)"
      by (rule Cons.IH) (use 1 Cons.prems in \<open>auto simp: settled_def\<close>)
    then show ?thesis using sup_reach_trans [OF 1(1)] 1(2) by (fastforce simp: settled_def)
  next
    case False
    then show ?thesis using Cons by auto
  qed
qed

lemma can_reach_drain:
  assumes "sv_waited st \<noteq> None" and "\<And>out. sv_pc st \<noteq> SP_Done out"
  shows "\<exists>st'. sup_reach enc root wr st st' \<and> sv_pc st' = SP_Drain \<and> sv_waited st' \<noteq> None
    \<and> sv_reading st' = sv_reading st \<and> sv_buf st' = sv_buf st \<and> sv_writers st' = sv_writers st"
proof (cases "sv_pc st")
  case SP_Select
  then show ?thesis using sup_reach_step [OF sup_reach_refl sup_select_wait [OF SP_Select assms(1)]] assms(1) by fastforce
next
  case SP_Grace
  let ?st = "st\<lparr>sv_pc := SP_Killed, sv_signals := sv_signals st @ [GS_Kill]\<rparr>"
  have "sup_reach enc root wr st ?st" by (rule sup_reach_step [OF sup_reach_refl sup_kill [OF SP_Grace]])
  moreover have "sup_step enc root wr ?st (?st\<lparr>sv_pc := SP_Drain\<rparr>)" using assms(1) by (intro sup_killed_wait) auto
  ultimately have "sup_reach enc root wr st (?st\<lparr>sv_pc := SP_Drain\<rparr>)" by (rule sup_reach_step)
  then show ?thesis using assms(1) by fastforce
next
  case SP_Killed
  then show ?thesis using sup_reach_step [OF sup_reach_refl sup_killed_wait [OF SP_Killed assms(1)]] assms(1) by fastforce
next
  case SP_Drain
  then show ?thesis using sup_reach_refl assms(1) by fastforce
qed (use assms(2) in blast)

definition shape_inv :: "bool \<Rightarrow> process_buf \<Rightarrow> sup_state \<Rightarrow> bool" where
  "shape_inv usePTY b st \<longleftrightarrow> (\<forall>s. sv_reading st s \<longrightarrow> s \<in> set (streams_of usePTY))
     \<and> po_chunkBytes (sv_buf st) = po_chunkBytes b"

lemma shape_inv_step: "sup_step enc root wr st st' \<Longrightarrow> shape_inv usePTY b st \<Longrightarrow> shape_inv usePTY b st'"
  by (induction rule: sup_step.induct) (auto simp: shape_inv_def)

text \<open>A process whose child has exited can always be finished: from every state reached so far, whatever was
  signalled and whoever still holds its pipes, some continuation ends in an outcome, so the supervisor
  is never stuck.\<close>

theorem supervision_can_finish:
  assumes "sup_reach enc root wr (sup_init usePTY (new_buf m n)) st" and "sv_child st = Some e"
  shows "\<exists>st' out. sup_reach enc root wr st st' \<and> sv_pc st' = SP_Done out"
proof (cases "\<exists>out. sv_pc st = SP_Done out")
  case True
  then show ?thesis using sup_reach_refl by blast
next
  case False
  have shape: "shape_inv usePTY (new_buf m n) st"
    by (rule sup_reach_inv [OF assms(1) _ shape_inv_step]) (simp_all add: shape_inv_def sup_init_def)
  have pos: "0 < po_chunkBytes (new_buf m n)" by (simp add: new_buf_def DefaultChunkBytes_def)
  let ?w = "st\<lparr>sv_writers := False\<rparr>"
  have w: "sup_reach enc root wr st ?w"
    by (rule sup_reach_step [OF sup_reach_refl sup_writers_end]) (simp add: assms(2))
  have "\<exists>st1. sup_reach enc root wr ?w st1 \<and> sv_waited st1 \<noteq> None \<and> sv_pc st1 = sv_pc st
      \<and> sv_reading st1 = sv_reading st \<and> sv_buf st1 = sv_buf st \<and> \<not> sv_writers st1"
  proof (cases "sv_waited st")
    case None
    have "sup_step enc root wr ?w (?w\<lparr>sv_waited := Some e, sv_closed := \<not> sv_pty ?w\<rparr>)"
      by (rule sup_wait_returns) (use None assms(2) in auto)
    then show ?thesis using sup_reach_step [OF sup_reach_refl] by fastforce
  next
    case (Some e')
    then show ?thesis using sup_reach_refl by (intro exI [of _ ?w]) auto
  qed
  then obtain st1 where 1: "sup_reach enc root wr ?w st1" "sv_waited st1 \<noteq> None" "sv_pc st1 = sv_pc st"
      "sv_reading st1 = sv_reading st" "sv_buf st1 = sv_buf st" "\<not> sv_writers st1" by blast
  from can_reach_drain [OF 1(2)] False 1(3) obtain st2 where 2: "sup_reach enc root wr st1 st2" "sv_pc st2 = SP_Drain"
      "sv_waited st2 \<noteq> None" "sv_reading st2 = sv_reading st1" "sv_buf st2 = sv_buf st1" "sv_writers st2 = sv_writers st1"
    by metis
  have "\<exists>st3. sup_reach enc root wr st2 st3 \<and> settled st2 st3 \<and> (\<forall>s. \<not> sv_reading st3 s)"
    by (rule readers_can_drain [where ss = "streams_of usePTY"]) (use 1 2 shape pos in \<open>auto simp: shape_inv_def\<close>)
  then obtain st3 where 3: "sup_reach enc root wr st2 st3" "settled st2 st3" "\<forall>s. \<not> sv_reading st3 s" by blast
  obtain e3 where e3: "sv_waited st3 = Some e3" using 2(3) 3(2) by (auto simp: settled_def)
  have "sup_step enc root wr st3 (st3\<lparr>sv_pc := SP_Done (final_outcome e3 st3)\<rparr>)"
    by (rule sup_finish) (use 2(2) 3 e3 in \<open>auto simp: settled_def\<close>)
  then have "sup_reach enc root wr st (st3\<lparr>sv_pc := SP_Done (final_outcome e3 st3)\<rparr>)"
    using w 1(1) 2(1) 3(1) sup_reach_trans sup_reach_step by metis
  then show ?thesis by fastforce
qed

subsection \<open>Two runs\<close>

text \<open>A child prints one byte and exits. Either its reader gets the byte before \<open>Wait\<close> closes the pipes, or not:
  then the outcome is a success without the byte, and nothing marks the output as truncated. The
  documentation of \<open>StdoutPipe\<close> asks to read to the end before calling \<open>Wait\<close>.\<close>

definition run_printed :: sup_state where
  "run_printed = (sup_init False (new_buf 0 0))\<lparr>sv_pipe := (\<lambda>_. [])(''stdout'' := ''x''),
     sv_written := (\<lambda>_. [])(''stdout'' := ''x''), sv_child := Some WE_None, sv_writers := False\<rparr>"

definition run_read :: sup_state where
  "run_read = run_printed\<lparr>sv_buf := appendChunk ck_Data True (\<lambda>_. None) ''t'' ''stdout'' ''x'' ''/s'' (new_buf 0 0),
     sv_pipe := (\<lambda>_. []), sv_events := [\<lparr>oe_Stream = ''stdout'', oe_Data = ''x'', oe_opened = True, oe_stamp = ''t''\<rparr>]\<rparr>"

definition finished_run :: "sup_state \<Rightarrow> sup_state" where
  "finished_run st = (let d = st\<lparr>sv_waited := Some WE_None, sv_closed := True, sv_pc := SP_Drain, sv_reading := (\<lambda>_. False)\<rparr>
     in d\<lparr>sv_pc := SP_Done (final_outcome WE_None d)\<rparr>)"

lemma reach_printed: "sup_reach enc root wr (sup_init False (new_buf 0 0)) run_printed"
proof -
  let ?a = "sup_init False (new_buf 0 0)"
  let ?b = "?a\<lparr>sv_pipe := (sv_pipe ?a)(''stdout'' := sv_pipe ?a ''stdout'' @ ''x''),
      sv_written := (sv_written ?a)(''stdout'' := sv_written ?a ''stdout'' @ ''x'')\<rparr>"
  let ?c = "?b\<lparr>sv_child := Some WE_None\<rparr>"
  have 1: "sup_step enc root wr ?a ?b" by (rule sup_write) (simp_all add: sup_init_def)
  have 2: "sup_step enc root wr ?b ?c" by (rule sup_exit) (simp add: sup_init_def)
  have 3: "sup_step enc root wr ?c (?c\<lparr>sv_writers := False\<rparr>)" by (rule sup_writers_end) simp
  have "?c\<lparr>sv_writers := False\<rparr> = run_printed" by (simp add: run_printed_def sup_init_def)
  then show ?thesis using sup_reach_step [OF sup_reach_step [OF sup_reach_step [OF sup_reach_refl 1] 2] 3] by simp
qed

lemma reach_read: "sup_reach ck_Data ''/s'' (\<lambda>_. None) (sup_init False (new_buf 0 0)) run_read"
proof (rule sup_reach_step [OF reach_printed])
  have e: "(\<lambda>_. [])(''stdout'' := ''x'', ''stdout'' := []) = (\<lambda>_. [])" by (auto simp: fun_eq_iff)
  have "sup_step ck_Data ''/s'' (\<lambda>_. None) run_printed (run_printed\<lparr>
      sv_buf := appendChunk ck_Data True (\<lambda>_. None) ''t'' ''stdout'' (take 1 (sv_pipe run_printed ''stdout'')) ''/s'' (sv_buf run_printed),
      sv_pipe := (sv_pipe run_printed)(''stdout'' := drop 1 (sv_pipe run_printed ''stdout'')),
      sv_events := sv_events run_printed @ [\<lparr>oe_Stream = ''stdout'', oe_Data = take 1 (sv_pipe run_printed ''stdout''),
        oe_opened = True, oe_stamp = ''t''\<rparr>]\<rparr>)"
    by (rule sup_read)
       (auto simp: run_printed_def sup_init_def streams_of_def StreamStdout_def new_buf_def DefaultChunkBytes_def)
  then show "sup_step ck_Data ''/s'' (\<lambda>_. None) run_printed run_read"
    using e by (simp add: run_read_def run_printed_def sup_init_def)
qed

lemma reach_finished:
  assumes "sup_reach enc root wr a st" and "st = run_printed \<or> st = run_read"
  shows "sup_reach enc root wr a (finished_run st)"
proof -
  have st: "sv_child st = Some WE_None" "sv_waited st = None" "sv_pc st = SP_Select" "\<not> sv_pty st"
    "sv_reading st = (\<lambda>s. s = ''stdout'' \<or> s = ''stderr'')"
    using assms(2) by (auto simp: run_read_def run_printed_def sup_init_def streams_of_def StreamStdout_def StreamStderr_def)
  let ?w = "st\<lparr>sv_waited := Some WE_None, sv_closed := \<not> sv_pty st\<rparr>"
  let ?d = "?w\<lparr>sv_pc := SP_Drain\<rparr>"
  let ?o = "?d\<lparr>sv_reading := (sv_reading ?d)(''stdout'' := False)\<rparr>"
  let ?e = "?o\<lparr>sv_reading := (sv_reading ?o)(''stderr'' := False)\<rparr>"
  have 1: "sup_step enc root wr st ?w" by (rule sup_wait_returns) (simp_all add: st)
  have 2: "sup_step enc root wr ?w ?d" by (rule sup_select_wait) (simp_all add: st)
  have 3: "sup_step enc root wr ?d ?o" by (rule sup_reader_ends) (simp_all add: st)
  have 4: "sup_step enc root wr ?o ?e" by (rule sup_reader_ends) (simp_all add: st)
  have none: "sv_reading ?e = (\<lambda>_. False)" by (auto simp: st fun_eq_iff)
  have 5: "sup_step enc root wr ?e (?e\<lparr>sv_pc := SP_Done (final_outcome WE_None ?e)\<rparr>)"
    by (rule sup_finish) (use none in \<open>auto simp: fun_eq_iff\<close>)
  have "?e\<lparr>sv_pc := SP_Done (final_outcome WE_None ?e)\<rparr> = finished_run st"
    using none st by (simp add: finished_run_def Let_def)
  then show ?thesis
    using sup_reach_step [OF sup_reach_step [OF sup_reach_step [OF sup_reach_step [OF sup_reach_step
      [OF assms(1) 1] 2] 3] 4] 5] by simp
qed

lemma output_can_be_lost:
  "\<exists>st out. sup_reach enc root wr (sup_init False (new_buf 0 0)) st \<and> sv_pc st = SP_Done out
     \<and> oc_ExitCode out = 0 \<and> \<not> oc_TimedOut out \<and> \<not> oc_Canceled out \<and> \<not> oc_Truncated out
     \<and> sv_written st ''stdout'' = ''x'' \<and> sv_events st = []"
  using reach_finished [OF reach_printed]
  by (intro exI conjI) (auto simp: finished_run_def run_printed_def sup_init_def final_outcome_def new_buf_def Let_def)

text \<open>A process that the supervisor signals at all is sent the second signal too, even when it ended within the
  grace period and its pid may belong to another process by then.\<close>

lemma kill_not_avoided:
  assumes "sup_reach enc root wr (sup_init usePTY b) st" and "sv_pc st = SP_Done out" and "sv_signals st \<noteq> []"
  shows "GS_Kill \<in> set (sv_signals st)"
proof -
  have "pc_inv st"
    by (rule sup_reach_inv [OF assms(1) _ pc_inv_step]) (simp_all add: pc_inv_def sup_init_def)
  then show ?thesis using assms(2,3) by (auto simp: pc_inv_def)
qed

theorem supervised_output_witness:
  "captured ''stdout'' (sv_events run_read) = sv_written run_read ''stdout''
   \<and> sv_buf run_read = collect ck_Data ''/s'' (sv_events run_read) (new_buf 0 0)"
  using supervised_output [OF reach_read, of "''stdout''"] by (simp add: run_read_def)

theorem process_outcome_exact_witness:
  "\<exists>out. sv_pc (finished_run run_read) = SP_Done out \<and> oc_ExitCode out = 0 \<and> sv_signals (finished_run run_read) = []"
proof -
  have d: "sv_pc (finished_run run_read) = SP_Done (final_outcome WE_None (run_read\<lparr>sv_waited := Some WE_None,
      sv_closed := True, sv_pc := SP_Drain, sv_reading := (\<lambda>_. False)\<rparr>))" (is "_ = SP_Done ?out")
    by (simp add: finished_run_def Let_def)
  have "\<not> oc_TimedOut ?out" "\<not> oc_Canceled ?out" "sv_child (finished_run run_read) = Some WE_None"
    by (simp_all add: final_outcome_def finished_run_def run_read_def run_printed_def sup_init_def Let_def)
  then show ?thesis using process_outcome_exact [OF reach_finished [OF reach_read] d] d by auto
qed

theorem supervision_can_finish_witness:
  "\<exists>st' out. sup_reach ck_Data ''/s'' (\<lambda>_. None) run_read st' \<and> sv_pc st' = SP_Done out"
  by (rule supervision_can_finish [OF reach_read, of WE_None]) (simp add: run_read_def run_printed_def)

end
