(* ===== verification/Record_Codec.thy ===== *)
theory Record_Codec
  imports Go_Strings
begin

section \<open>Records as text\<close>

text \<open>
  Which instants the layout \<open>RFC3339Nano\<close> of the standard library writes and reads back, and a concrete
  encoding of lists of strings and of integers, the codec of the instances where the program uses JSON
  or a time layout.
\<close>

subsection \<open>Instants\<close>

text \<open>From the start of year 1 to the end of year 9999, UTC.\<close>

definition rfc3339_instant :: "instant \<Rightarrow> bool" where
  "rfc3339_instant t \<longleftrightarrow> zero_time \<le> t \<and> t < 253402300800000000000"

definition text_of_int :: "int \<Rightarrow> string" where "text_of_int = format_int"

definition int_of_text :: "string \<Rightarrow> int option" where
  "int_of_text s =
    (if s \<noteq> [] \<and> hd s = CHR ''-'' then map_option (\<lambda>n. - int n) (parse_nat (tl s)) else map_option int (parse_nat s))"

lemma int_of_text_of: "int_of_text (text_of_int t) = Some t"
proof (cases "t < 0")
  case True
  then show ?thesis
    by (simp add: int_of_text_def text_of_int_def format_int_def parse_nat_def digits_of_digits value_digits_of)
next
  case False
  then show ?thesis using digits_of_head [of "nat t"]
    by (simp add: int_of_text_def text_of_int_def format_int_def parse_nat_def digits_of_digits value_digits_of)
qed

subsection \<open>Lists of strings\<close>

definition put_string :: "string \<Rightarrow> string" where
  "put_string s = digits_of (length s) @ CHR '':'' # s"

definition get_string :: "string \<Rightarrow> (string \<times> string) option" where
  "get_string x =
    (case (parse_nat (takeWhile is_digit x), dropWhile is_digit x) of
       (Some n, c # r) \<Rightarrow> if c = CHR '':'' \<and> n \<le> length r then Some (take n r, drop n r) else None
     | _ \<Rightarrow> None)"

definition put_strings :: "string list \<Rightarrow> string" where
  "put_strings xs = concat (map put_string xs)"

fun get_strings :: "nat \<Rightarrow> string \<Rightarrow> (string list \<times> string) option" where
  "get_strings 0 x = Some ([], x)"
| "get_strings (Suc n) x =
    (case get_string x of
       None \<Rightarrow> None
     | Some (s, r) \<Rightarrow> map_option (\<lambda>(ss, r'). (s # ss, r')) (get_strings n r))"

lemma get_put_string: "get_string (put_string s @ r) = Some (s, r)"
proof -
  have d: "\<not> is_digit (CHR '':'')" by code_simp
  have all: "\<And>c. c \<in> set (digits_of (length s)) \<Longrightarrow> is_digit c" using digits_of_digits by (auto simp: list_all_iff)
  have t: "takeWhile is_digit (put_string s @ r) = digits_of (length s)"
    using all d by (simp add: put_string_def takeWhile_append2)
  have dr: "dropWhile is_digit (put_string s @ r) = CHR '':'' # s @ r"
    using all d by (simp add: put_string_def dropWhile_append2)
  have "parse_nat (digits_of (length s)) = Some (length s)"
    by (simp add: parse_nat_def digits_of_digits value_digits_of)
  then show ?thesis by (simp add: get_string_def t dr)
qed

lemma get_put_strings: "get_strings (length xs) (put_strings xs @ r) = Some (xs, r)"
  by (induction xs) (simp_all add: put_strings_def get_put_string)

end
