(* ===== verification/Environment_Cache.thy ===== *)
theory Environment_Cache
  imports Security_Policy Record_Codec
begin

section \<open>Environments and their cache (internal/environment/environment.go)\<close>

text \<open>
  Detecting the toolchain of a repository, the identity of an environment, the manager that keeps one
  generation per environment, and the cache of artifacts. The files of a repository are functions of
  their path, the files of the two directories are maps, and the outcome of every write is an argument.
  JSON and SHA-256 are parameters. The theory shows that the same environment always gets the same
  generation, also after a restart, and that a cache hit is what was put, or refused.
\<close>

subsection \<open>Data\<close>

datatype env_error = EN_ErrRejected | EN_ErrCacheMiss | EN_ErrContext | EN_Installer

definition ToolchainGo :: string where "ToolchainGo = ''go''"
definition ToolchainNode :: string where "ToolchainNode = ''node''"
definition ToolchainRust :: string where "ToolchainRust = ''rust''"
definition ToolchainNx :: string where "ToolchainNx = ''nx''"
definition ToolchainTurbo :: string where "ToolchainTurbo = ''turbo''"
definition ToolchainBazel :: string where "ToolchainBazel = ''bazel''"

record toolchain =
  tc_Kind :: string
  tc_Version :: string
  tc_Manifest :: string
  tc_Identity :: string

record environment_spec =
  nv_RepositoryID :: string
  nv_WorkspaceID :: string
  nv_Platform :: string
  nv_Toolchain :: toolchain
  nv_LockfileDigest :: string
  nv_PolicyVersion :: string
  nv_Image :: string

record env_generation =
  eg_ID :: string
  eg_Identity :: string
  eg_Spec :: environment_spec
  eg_State :: string
  eg_CreatedAt :: instant

record cache_binding =
  cb_ToolchainIdentity :: string
  cb_Platform :: string
  cb_LockfileDigest :: string
  cb_PolicyVersion :: string

record cache_artifact =
  ca_Key :: string
  ca_Binding :: cache_binding
  ca_ContentDigest :: string
  ca_Path :: string
  ca_Size :: nat
  ca_CreatedAt :: instant

subsection \<open>Files\<close>

text \<open>What \<open>Lstat\<close> says of a path, and what reading it gives.\<close>

datatype env_stat = ES_Absent | ES_Other | ES_Regular nat

text \<open>An \<open>os.WriteFile\<close> that fails may have truncated the file and written a part.\<close>

datatype file_write = FW_Done | FW_Partial nat | FW_None

definition write_bytes :: "file_write \<Rightarrow> string \<Rightarrow> string option \<Rightarrow> string option" where
  "write_bytes w data old = (case w of FW_Done \<Rightarrow> Some data | FW_Partial k \<Rightarrow> Some (take k data) | FW_None \<Rightarrow> old)"

subsection \<open>Validation and digests\<close>

definition env_validIdentity :: "string \<Rightarrow> bool" where
  "env_validIdentity v \<longleftrightarrow> length v = 64 \<and> list_all lower_hex v"

definition env_validOpaque :: "string \<Rightarrow> bool" where
  "env_validOpaque v \<longleftrightarrow> v \<noteq> [] \<and> length v \<le> 256 \<and> \<not> contains_any v (control_chars @ [slash, CHR 0x5C])"

definition validSpec :: "environment_spec \<Rightarrow> bool" where
  "validSpec s \<longleftrightarrow> env_validIdentity (nv_RepositoryID s) \<and> env_validOpaque (nv_WorkspaceID s) \<and> nv_Platform s \<noteq> []
     \<and> tc_Identity (nv_Toolchain s) \<noteq> [] \<and> env_validIdentity (nv_LockfileDigest s) \<and> nv_PolicyVersion s \<noteq> []
     \<and> nv_Image s \<noteq> [] \<and> \<not> contains_any (nv_Image s) control_chars"

definition env_validBinding :: "cache_binding \<Rightarrow> bool" where
  "env_validBinding b \<longleftrightarrow> env_validIdentity (cb_ToolchainIdentity b) \<and> cb_Platform b \<noteq> []
     \<and> env_validIdentity (cb_LockfileDigest b) \<and> cb_PolicyVersion b \<noteq> []"

definition env_digest :: "(string \<Rightarrow> string) \<Rightarrow> string \<Rightarrow> string" where
  "env_digest sha data = hex_encode (sha data)"

definition env_pathWithin :: "string \<Rightarrow> string \<Rightarrow> bool" where
  "env_pathWithin parent candidate \<longleftrightarrow> rel_inside (rel_from_abs parent candidate)"

subsection \<open>Toolchains and lock files\<close>

definition toolchain_checks :: "(string \<times> string) list" where
  "toolchain_checks =
    [(''go.mod'', ToolchainGo), (''package.json'', ToolchainNode), (''Cargo.toml'', ToolchainRust), (''nx.json'', ToolchainNx),
     (''turbo.json'', ToolchainTurbo), (''MODULE.bazel'', ToolchainBazel), (''WORKSPACE'', ToolchainBazel)]"

fun go_line_version :: "string list \<Rightarrow> string option" where
  "go_line_version [] = None"
| "go_line_version (l # ls) =
    (case Go_Strings.fields l of
       [a, b] \<Rightarrow> (if a = ''go'' then Some b else go_line_version ls)
     | _ \<Rightarrow> go_line_version ls)"

definition detectVersion :: "string \<Rightarrow> string \<Rightarrow> string" where
  "detectVersion kind data =
    (case (if kind = ToolchainGo then go_line_version (split_on LF data) else None) of
       Some v \<Rightarrow> v
     | None \<Rightarrow>
         if kind = ToolchainNode \<and> sublist ''packageManager'' data then ''package-manager-declared''
         else if kind = ToolchainRust \<and> sublist ''channel'' data then ''toolchain-declared''
         else ''manifest-detected'')"

fun detect_toolchain ::
  "(string \<Rightarrow> string) \<Rightarrow> go_ctx \<Rightarrow> (string \<Rightarrow> env_stat) \<Rightarrow> (string \<Rightarrow> string option) \<Rightarrow> string \<Rightarrow> (string \<times> string) list
   \<Rightarrow> env_error + toolchain" where
  "detect_toolchain sha ctx stat rd root [] = Inl EN_ErrRejected"
| "detect_toolchain sha ctx stat rd root ((name, kind) # checks) =
    (if ctx_err ctx then Inl EN_ErrContext
     else (case stat (join_path root name) of
             ES_Absent \<Rightarrow> detect_toolchain sha ctx stat rd root checks
           | ES_Other \<Rightarrow> Inl EN_ErrRejected
           | ES_Regular n \<Rightarrow>
               if 1048576 < n then Inl EN_ErrRejected
               else (case rd (join_path root name) of
                       None \<Rightarrow> Inl EN_ErrRejected
                     | Some data \<Rightarrow>
                         (let version = detectVersion kind data; manifest = env_digest sha data
                          in Inr \<lparr>tc_Kind = kind, tc_Version = version, tc_Manifest = manifest,
                                  tc_Identity = env_digest sha (kind @ NUL # version @ NUL # manifest)\<rparr>))))"

definition clean_root :: "go_ctx \<Rightarrow> string \<Rightarrow> bool" where
  "clean_root ctx root \<longleftrightarrow> ctx \<noteq> Ctx_Nil \<and> root \<noteq> [] \<and> is_abs root \<and> clean root = root"

definition env_Detect ::
  "(string \<Rightarrow> string) \<Rightarrow> go_ctx \<Rightarrow> (string \<Rightarrow> env_stat) \<Rightarrow> (string \<Rightarrow> string option) \<Rightarrow> string \<Rightarrow> env_error + toolchain" where
  "env_Detect sha ctx stat rd root =
    (if \<not> clean_root ctx root then Inl EN_ErrRejected else detect_toolchain sha ctx stat rd root toolchain_checks)"

definition known_lockfiles :: "string list" where
  "known_lockfiles = [''go.mod'', ''go.sum'', ''package-lock.json'', ''pnpm-lock.yaml'', ''yarn.lock'', ''Cargo.lock'',
     ''rust-toolchain.toml'', ''MODULE.bazel.lock'', ''nx.json'', ''turbo.json'', ''WORKSPACE.bazel'']"

fun present_lockfiles :: "go_ctx \<Rightarrow> (string \<Rightarrow> env_stat) \<Rightarrow> string \<Rightarrow> string list \<Rightarrow> env_error + string list" where
  "present_lockfiles ctx stat root [] = Inr []"
| "present_lockfiles ctx stat root (name # names) =
    (if ctx_err ctx then Inl EN_ErrContext
     else (case stat (join_path root name) of
             ES_Absent \<Rightarrow> present_lockfiles ctx stat root names
           | ES_Other \<Rightarrow> Inl EN_ErrRejected
           | ES_Regular n \<Rightarrow>
               if 16777216 < n then Inl EN_ErrRejected
               else map_sum id (\<lambda>ps. name # ps) (present_lockfiles ctx stat root names)))"

fun lockfile_bytes :: "(string \<Rightarrow> string option) \<Rightarrow> string \<Rightarrow> string list \<Rightarrow> string option" where
  "lockfile_bytes rd root [] = Some []"
| "lockfile_bytes rd root (name # names) =
    (case (rd (join_path root name), lockfile_bytes rd root names) of
       (Some data, Some rest) \<Rightarrow> Some (name @ NUL # data @ NUL # rest)
     | _ \<Rightarrow> None)"

definition HashLockfiles ::
  "(string \<Rightarrow> string) \<Rightarrow> go_ctx \<Rightarrow> (string \<Rightarrow> env_stat) \<Rightarrow> (string \<Rightarrow> string option) \<Rightarrow> string \<Rightarrow> env_error + string" where
  "HashLockfiles sha ctx stat rd root =
    (if \<not> clean_root ctx root then Inl EN_ErrRejected
     else (case present_lockfiles ctx stat root known_lockfiles of
             Inl e \<Rightarrow> Inl e
           | Inr present \<Rightarrow>
               (case lockfile_bytes rd root (sort present) of
                  None \<Rightarrow> Inl EN_ErrRejected
                | Some data \<Rightarrow> Inr (env_digest sha data))))"

subsection \<open>The manager\<close>

text \<open>\<open>js\<close> and \<open>jg\<close> are the JSON of a specification and of a generation, \<open>ug\<close> reads a generation back.\<close>

record env_codec =
  ec_sha :: "string \<Rightarrow> string"
  ec_spec :: "environment_spec \<Rightarrow> string"
  ec_gen :: "env_generation \<Rightarrow> string"
  ec_ungen :: "string \<Rightarrow> env_generation option"

record env_manager =
  em_gens :: "string \<rightharpoonup> env_generation"
  em_files :: "string \<rightharpoonup> string"

definition environmentIdentity :: "env_codec \<Rightarrow> environment_spec \<Rightarrow> string" where
  "environmentIdentity c s = env_digest (ec_sha c) (ec_spec c s)"

definition environment_id :: "env_codec \<Rightarrow> environment_spec \<Rightarrow> string" where
  "environment_id c s = ''env_'' @ take 32 (environmentIdentity c s)"

definition env_Create ::
  "env_codec \<Rightarrow> instant \<Rightarrow> file_write \<Rightarrow> go_ctx \<Rightarrow> environment_spec \<Rightarrow> env_manager \<Rightarrow> (env_error + env_generation) \<times> env_manager" where
  "env_Create c now w ctx s m =
    (if ctx = Ctx_Nil \<or> \<not> validSpec s then (Inl EN_ErrRejected, m)
     else (let identity = environmentIdentity c s; i = environment_id c s
           in case em_gens m i of
                Some g \<Rightarrow>
                  (if eg_Identity g = identity \<and> eg_Spec g = s \<and> eg_State g = ''READY'' then Inr g
                   else Inl EN_ErrRejected, m)
              | None \<Rightarrow>
                  (let g = \<lparr>eg_ID = i, eg_Identity = identity, eg_Spec = s, eg_State = ''READY'', eg_CreatedAt = now\<rparr>;
                       f = i @ ''.json'';
                       m' = m\<lparr>em_files := (em_files m)(f := write_bytes w (ec_gen c g @ [LF]) (em_files m f))\<rparr>
                   in if w = FW_Done then (Inr g, m'\<lparr>em_gens := (em_gens m')(i \<mapsto> g)\<rparr>) else (Inl EN_ErrRejected, m'))))"

definition validGeneration :: "env_generation \<Rightarrow> bool" where
  "validGeneration g \<longleftrightarrow> env_validOpaque (eg_ID g) \<and> prefix ''env_'' (eg_ID g) \<and> env_validIdentity (eg_Identity g)
     \<and> validSpec (eg_Spec g) \<and> eg_State g = ''READY'' \<and> eg_CreatedAt g \<noteq> zero_time"

text \<open>\<open>order\<close> lists the names of the directory as \<open>ReadDir\<close> does; at most 64 KiB of a file are decoded.\<close>

fun load_generations ::
  "env_codec \<Rightarrow> (string \<rightharpoonup> string) \<Rightarrow> string list \<Rightarrow> (string \<rightharpoonup> env_generation) \<Rightarrow> (string \<rightharpoonup> env_generation) option" where
  "load_generations c files [] gens = Some gens"
| "load_generations c files (name # names) gens =
    (if \<not> suffix ''.json'' name then load_generations c files names gens
     else (case files name of
             None \<Rightarrow> None
           | Some data \<Rightarrow>
               (case ec_ungen c (take 65536 data) of
                  None \<Rightarrow> None
                | Some g \<Rightarrow>
                    if \<not> validGeneration g \<or> name \<noteq> eg_ID g @ ''.json'' \<or> eg_Identity g \<noteq> environmentIdentity c (eg_Spec g)
                    then None
                    else load_generations c files names (gens(eg_ID g \<mapsto> g)))))"

definition NewEnvManager ::
  "env_codec \<Rightarrow> bool \<Rightarrow> string \<Rightarrow> string list \<Rightarrow> (string \<rightharpoonup> string) \<Rightarrow> env_manager option" where
  "NewEnvManager c made root order files =
    (if root = [] \<or> \<not> is_abs root \<or> \<not> made then None
     else map_option (\<lambda>gens. \<lparr>em_gens = gens, em_files = files\<rparr>) (load_generations c files order Map.empty))"

text \<open>Installing hands the identity, the packages and the allowed domains to the installer, which may be absent.\<close>

definition env_Install ::
  "(string \<Rightarrow> string list \<Rightarrow> string list \<Rightarrow> 'x \<Rightarrow> bool \<times> 'x) option \<Rightarrow> go_ctx \<Rightarrow> env_generation \<Rightarrow> string list
   \<Rightarrow> compiled_policy \<Rightarrow> 'x \<Rightarrow> env_error option \<times> 'x" where
  "env_Install installer ctx g packages p x =
    (case installer of
       None \<Rightarrow> (Some EN_ErrRejected, x)
     | Some install \<Rightarrow>
         if ctx = Ctx_Nil \<or> eg_State g \<noteq> ''READY'' \<or> \<not> validSpec (eg_Spec g) \<or> np_Mode (cpl_Network p) \<noteq> NetworkRegistry
            \<or> np_RegistryDomain (cpl_Network p) = [] \<or> packages = [] then (Some EN_ErrRejected, x)
         else if list_ex (\<lambda>q. q = [] \<or> contains_any q control_chars) packages then (Some EN_ErrRejected, x)
         else (case install (eg_Identity g) packages (np_RegistryDomain (cpl_Network p)) x of
                 (ok, x') \<Rightarrow> (if ok then None else Some EN_Installer, x')))"

definition fake_Install :: "string \<Rightarrow> string list \<Rightarrow> string list \<Rightarrow> string list \<Rightarrow> bool \<times> string list" where
  "fake_Install identity packages domains calls =
     (True, calls @ [identity @ '':'' @ join_with '','' packages @ '':'' @ join_with '','' domains])"

subsection \<open>The cache\<close>

text \<open>The files of the cache by path: regular ones with their content, and whatever else may be there.\<close>

datatype cache_entry = CE_File string | CE_Other

record cache =
  ch_root :: string
  ch_files :: "string \<rightharpoonup> cache_entry"

record cache_codec =
  cc_sha :: "string \<Rightarrow> string"
  cc_key :: "cache_binding \<times> string \<Rightarrow> string"
  cc_art :: "cache_artifact \<Rightarrow> string"
  cc_unart :: "string \<Rightarrow> cache_artifact option"

definition NewCache :: "bool \<Rightarrow> string \<Rightarrow> (string \<rightharpoonup> cache_entry) \<Rightarrow> cache option" where
  "NewCache made root files =
    (if root = [] \<or> \<not> is_abs root \<or> \<not> made then None else Some \<lparr>ch_root = root, ch_files = files\<rparr>)"

definition CacheKey :: "cache_codec \<Rightarrow> cache_binding \<Rightarrow> string \<Rightarrow> string option" where
  "CacheKey c b name =
    (if \<not> env_validBinding b \<or> name = [] \<or> contains_any name control_chars then None
     else Some (env_digest (cc_sha c) (cc_key c (b, name))))"

definition cache_meta :: "string \<Rightarrow> cache \<Rightarrow> string" where
  "cache_meta key h = join_path (ch_root h) (key @ ''.json'')"

definition cache_blob :: "string \<Rightarrow> string \<Rightarrow> cache \<Rightarrow> string" where
  "cache_blob key digest h = join_path (ch_root h) (key @ ''-'' @ digest)"

definition put_file :: "string \<Rightarrow> cache_entry option \<Rightarrow> cache \<Rightarrow> cache" where
  "put_file path e h = h\<lparr>ch_files := (ch_files h)(path := e)\<rparr>"

definition write_meta :: "file_write \<Rightarrow> string \<Rightarrow> string \<Rightarrow> cache \<Rightarrow> cache" where
  "write_meta w path data h =
    (case w of FW_Done \<Rightarrow> put_file path (Some (CE_File data)) h
     | FW_Partial k \<Rightarrow> put_file path (Some (CE_File (take k data))) h
     | FW_None \<Rightarrow> h)"

text \<open>The source is read twice, for its digest and for the copy: \<open>digested\<close> and \<open>copied\<close> are what was read.\<close>

definition cache_Put ::
  "cache_codec \<Rightarrow> instant \<Rightarrow> env_stat \<Rightarrow> string option \<Rightarrow> string option \<Rightarrow> file_write \<Rightarrow> go_ctx \<Rightarrow> string \<Rightarrow> cache_binding
   \<Rightarrow> string \<Rightarrow> cache \<Rightarrow> (env_error + cache_artifact) \<times> cache" where
  "cache_Put c now stat digested copied w ctx key b source h =
    (if ctx = Ctx_Nil \<or> \<not> env_validIdentity key \<or> \<not> env_validBinding b \<or> source = [] \<or> \<not> is_abs source
     then (Inl EN_ErrRejected, h)
     else (case (stat, digested) of
             (ES_Regular n, Some data) \<Rightarrow>
               if 1073741824 < n then (Inl EN_ErrRejected, h)
               else (let digest = env_digest (cc_sha c) data; path = cache_blob key digest h
                     in case copied of
                          None \<Rightarrow> (Inl EN_ErrRejected, h)
                        | Some content \<Rightarrow>
                            (let h1 = put_file path (Some (CE_File content)) h;
                                 a = \<lparr>ca_Key = key, ca_Binding = b, ca_ContentDigest = digest, ca_Path = path,
                                      ca_Size = length data, ca_CreatedAt = now\<rparr>;
                                 h2 = write_meta w (cache_meta key h) (cc_art c a @ [LF]) h1
                             in (if w = FW_Done then Inr a else Inl EN_ErrRejected, h2)))
           | _ \<Rightarrow> (Inl EN_ErrRejected, h)))"

definition cache_Get ::
  "cache_codec \<Rightarrow> go_ctx \<Rightarrow> string \<Rightarrow> cache_binding \<Rightarrow> cache \<Rightarrow> env_error + cache_artifact" where
  "cache_Get c ctx key b h =
    (if ctx = Ctx_Nil \<or> \<not> env_validIdentity key \<or> \<not> env_validBinding b then Inl EN_ErrRejected
     else (case (case ch_files h (cache_meta key h) of Some (CE_File data) \<Rightarrow> cc_unart c data | _ \<Rightarrow> None) of
             None \<Rightarrow> Inl EN_ErrCacheMiss
           | Some a \<Rightarrow>
               if ca_Key a \<noteq> key \<or> ca_Binding a \<noteq> b \<or> \<not> is_abs (ca_Path a) \<or> \<not> env_pathWithin (ch_root h) (ca_Path a)
               then Inl EN_ErrRejected
               else (case ch_files h (ca_Path a) of
                       Some (CE_File content) \<Rightarrow>
                         if length content \<noteq> ca_Size a \<or> env_digest (cc_sha c) content \<noteq> ca_ContentDigest a
                         then Inl EN_ErrRejected else Inr a
                     | _ \<Rightarrow> Inl EN_ErrRejected)))"

text \<open>\<open>order\<close> lists the entries; removing one may fail.\<close>

fun delete_entries :: "(string \<Rightarrow> bool) \<Rightarrow> string list \<Rightarrow> cache \<Rightarrow> bool \<times> cache" where
  "delete_entries removable [] h = (True, h)"
| "delete_entries removable (name # names) h =
    (let path = join_path (ch_root h) name
     in if removable path then delete_entries removable names (put_file path None h) else (False, h))"

definition cache_DeleteAll :: "bool \<Rightarrow> (string \<Rightarrow> bool) \<Rightarrow> string list \<Rightarrow> cache \<Rightarrow> bool \<times> cache" where
  "cache_DeleteAll listed removable order h = (if listed then delete_entries removable order h else (False, h))"

subsection \<open>One generation per environment\<close>

definition env_wf :: "env_codec \<Rightarrow> env_manager \<Rightarrow> bool" where
  "env_wf c m \<longleftrightarrow> (\<forall>i g. em_gens m i = Some g \<longrightarrow>
     eg_ID g = i \<and> environment_id c (eg_Spec g) = i \<and> eg_Identity g = environmentIdentity c (eg_Spec g)
     \<and> validSpec (eg_Spec g) \<and> eg_State g = ''READY'')"

lemma env_Create_cases:
  assumes "env_Create c now w ctx s m = (res, m')"
  shows "m' = m \<or> (em_gens m (environment_id c s) = None \<and> validSpec s
    \<and> (\<exists>g. g = \<lparr>eg_ID = environment_id c s, eg_Identity = environmentIdentity c s, eg_Spec = s, eg_State = ''READY'', eg_CreatedAt = now\<rparr>
        \<and> em_files m' = (em_files m)(environment_id c s @ ''.json'' :=
             write_bytes w (ec_gen c g @ [LF]) (em_files m (environment_id c s @ ''.json'')))
        \<and> (if w = FW_Done then res = Inr g \<and> em_gens m' = (em_gens m)(environment_id c s \<mapsto> g)
           else em_gens m' = em_gens m)))"
  using assms by (auto simp: env_Create_def Let_def split: if_splits option.splits)

lemma env_Create_mono:
  "em_gens m i = Some g \<Longrightarrow> em_gens (snd (env_Create c now w ctx s m)) i = Some g"
  by (auto simp: env_Create_def Let_def split: option.split)

lemma env_Create_wf: "env_wf c m \<Longrightarrow> env_wf c (snd (env_Create c now w ctx s m))"
  by (auto simp: env_wf_def env_Create_def Let_def split: option.split)

lemma env_Create_result:
  assumes "env_Create c now w ctx s m = (Inr g, m')"
  shows "em_gens m' (environment_id c s) = Some g \<and> eg_Spec g = s \<and> eg_Identity g = environmentIdentity c s
    \<and> eg_State g = ''READY'' \<and> validSpec s"
  using assms by (auto simp: env_Create_def Let_def split: if_splits option.splits)

lemma env_Create_again:
  assumes "em_gens m (environment_id c s) = Some g" and "eg_Spec g = s" and "eg_Identity g = environmentIdentity c s"
    and "eg_State g = ''READY''" and "validSpec s" and "ctx \<noteq> Ctx_Nil"
  shows "env_Create c now w ctx s m = (Inr g, m)"
  using assms by (simp add: env_Create_def Let_def)

record env_call =
  ek_now :: instant
  ek_write :: file_write
  ek_ctx :: go_ctx
  ek_spec :: environment_spec

definition env_step :: "env_codec \<Rightarrow> env_manager \<Rightarrow> env_call \<Rightarrow> env_manager" where
  "env_step c m k = snd (env_Create c (ek_now k) (ek_write k) (ek_ctx k) (ek_spec k) m)"

definition env_run :: "env_codec \<Rightarrow> env_call list \<Rightarrow> env_manager \<Rightarrow> env_manager" where
  "env_run c ks m = foldl (env_step c) m ks"

text \<open>An environment has one generation. The generation that \<open>Create\<close> returns is the specification's, with
  the identity of its JSON; and whatever is created afterwards, asking for the same specification again
  returns the same generation and changes nothing.\<close>

theorem env_create_stable:
  assumes "env_Create c now w ctx s m = (Inr g, m')" and "ctx2 \<noteq> Ctx_Nil"
  shows "eg_Spec g = s \<and> eg_Identity g = environmentIdentity c s
    \<and> env_Create c now2 w2 ctx2 s (env_run c ks m') = (Inr g, env_run c ks m')"
proof -
  note r = env_Create_result [OF assms(1)]
  have "em_gens (env_run c ks m') (environment_id c s) = Some g"
    unfolding env_run_def
    by (rule foldl_invariant) (use r in \<open>auto simp: env_step_def intro: env_Create_mono\<close>)
  from env_Create_again [OF this] show ?thesis using r assms(2) by auto
qed

subsection \<open>Restarting\<close>

text \<open>What is needed of the codec: digests have 32 bytes, and the generation of a specification whose strings are
  UTF-8 is read back from what was written of it, when the clock's reading can be written. A file is read
  up to 64 KiB, so only shorter ones come back.\<close>

definition gen_of :: "env_codec \<Rightarrow> environment_spec \<Rightarrow> instant \<Rightarrow> env_generation" where
  "gen_of c s t = \<lparr>eg_ID = environment_id c s, eg_Identity = environmentIdentity c s, eg_Spec = s, eg_State = ''READY'',
     eg_CreatedAt = t\<rparr>"

definition text_spec :: "environment_spec \<Rightarrow> bool" where
  "text_spec s \<longleftrightarrow> list_all utf8_valid [nv_RepositoryID s, nv_WorkspaceID s, nv_Platform s, tc_Kind (nv_Toolchain s),
     tc_Version (nv_Toolchain s), tc_Manifest (nv_Toolchain s), tc_Identity (nv_Toolchain s), nv_LockfileDigest s,
     nv_PolicyVersion s, nv_Image s]"

definition codec_law :: "env_codec \<Rightarrow> bool" where
  "codec_law c \<longleftrightarrow> (\<forall>x. length (ec_sha c x) = 32)
     \<and> (\<forall>s t. text_spec s \<longrightarrow> rfc3339_instant t \<longrightarrow> ec_ungen c (ec_gen c (gen_of c s t) @ [LF]) = Some (gen_of c s t))"

definition codec_ok :: "env_codec \<Rightarrow> env_generation \<Rightarrow> bool" where
  "codec_ok c g \<longleftrightarrow> length (ec_sha c (ec_spec c (eg_Spec g))) = 32 \<and> ec_ungen c (take 65536 (ec_gen c g @ [LF])) = Some g"

lemma codec_law_ok:
  assumes "codec_law c" and "text_spec s" and "rfc3339_instant t" and "length (ec_gen c (gen_of c s t)) < 65536"
  shows "codec_ok c (gen_of c s t)"
  using assms by (simp add: codec_law_def codec_ok_def)

definition env_disk :: "env_codec \<Rightarrow> env_manager \<Rightarrow> bool" where
  "env_disk c m \<longleftrightarrow> (\<forall>f d. em_files m f = Some d \<longleftrightarrow>
     (\<exists>g. em_gens m (eg_ID g) = Some g \<and> f = eg_ID g @ ''.json'' \<and> d = ec_gen c g @ [LF]))"

definition env_dated :: "env_codec \<Rightarrow> env_manager \<Rightarrow> bool" where
  "env_dated c m \<longleftrightarrow> (\<forall>i g. em_gens m i = Some g \<longrightarrow> eg_CreatedAt g \<noteq> zero_time \<and> codec_ok c g)"

text \<open>A call whose write happens completely or not at all, at a time that can be written; and if its
  specification is accepted, its strings are UTF-8 and its file is shorter than 64 KiB. \<open>validSpec\<close> checks
  neither.\<close>

definition call_ok :: "env_codec \<Rightarrow> env_call \<Rightarrow> bool" where
  "call_ok c k \<longleftrightarrow> ek_now k \<noteq> zero_time \<and> rfc3339_instant (ek_now k) \<and> (ek_write k = FW_Done \<or> ek_write k = FW_None)
     \<and> (validSpec (ek_spec k) \<longrightarrow>
          text_spec (ek_spec k) \<and> length (ec_gen c (gen_of c (ek_spec k) (ek_now k))) < 65536)"

definition env_inv :: "env_codec \<Rightarrow> env_manager \<Rightarrow> bool" where
  "env_inv c m \<longleftrightarrow> env_wf c m \<and> env_disk c m \<and> env_dated c m"

lemma env_inv_step:
  assumes "env_inv c m" and "call_ok c k" and "codec_law c"
  shows "env_inv c (env_step c m k)"
proof -
  obtain res m' where e: "env_Create c (ek_now k) (ek_write k) (ek_ctx k) (ek_spec k) m = (res, m')" by fastforce
  let ?i = "environment_id c (ek_spec k)"
  let ?g = "gen_of c (ek_spec k) (ek_now k)"
  have wf': "env_wf c m'" using env_Create_wf [of c m "ek_now k" "ek_write k" "ek_ctx k" "ek_spec k"] assms(1) e
    by (simp add: env_inv_def)
  from env_Create_cases [OF e] consider "m' = m"
    | "em_gens m ?i = None" "validSpec (ek_spec k)" "em_files m' = (em_files m)(?i @ ''.json'' := write_bytes (ek_write k) (ec_gen c ?g @ [LF])
          (em_files m (?i @ ''.json'')))"
      "if ek_write k = FW_Done then em_gens m' = (em_gens m)(?i \<mapsto> ?g) else em_gens m' = em_gens m"
    by (auto simp: gen_of_def split: if_splits)
  then have "env_disk c m' \<and> env_dated c m'"
  proof cases
    case 1
    then show ?thesis using assms(1) by (simp add: env_inv_def)
  next
    case 2
    show ?thesis
    proof (cases "ek_write k = FW_Done")
      case True
      then have "em_gens m' = (em_gens m)(?i \<mapsto> ?g)" "em_files m' = (em_files m)(?i @ ''.json'' \<mapsto> ec_gen c ?g @ [LF])"
        using 2 by (auto simp: write_bytes_def)
      moreover have "codec_ok c ?g"
        using assms(2) 2(2) by (intro codec_law_ok [OF assms(3)]) (simp_all add: call_ok_def)
      moreover have "eg_ID ?g = ?i" "eg_CreatedAt ?g \<noteq> zero_time" using assms(2) by (simp_all add: gen_of_def call_ok_def)
      ultimately show ?thesis using assms(1) 2(1) by (auto simp: env_inv_def env_disk_def env_dated_def)
    next
      case False
      then have "ek_write k = FW_None" using assms(2) by (simp add: call_ok_def)
      then have "em_files m' = em_files m" "em_gens m' = em_gens m" using 2(3,4) by (simp_all add: write_bytes_def)
      then show ?thesis using assms(1) by (simp add: env_inv_def env_disk_def env_dated_def)
    qed
  qed
  then show ?thesis using wf' e by (simp add: env_inv_def env_step_def)
qed

lemma identity_valid:
  assumes "codec_ok c g"
  shows "env_validIdentity (environmentIdentity c (eg_Spec g))" and "env_validOpaque (environment_id c (eg_Spec g))"
proof -
  let ?h = "hex_encode (ec_sha c (ec_spec c (eg_Spec g)))"
  have hex: "\<And>x. x \<in> set ?h \<Longrightarrow> lower_hex x" by (rule hex_encode_lower)
  have len: "length ?h = 64" using assms by (simp add: codec_ok_def)
  show "env_validIdentity (environmentIdentity c (eg_Spec g))"
    using hex len by (simp add: env_validIdentity_def environmentIdentity_def env_digest_def list_all_iff)
  have no: "\<not> contains_any (take 32 ?h) (control_chars @ [slash, CHR 0x5C])"
  proof -
    have "lower_hex x \<Longrightarrow> x \<notin> set (control_chars @ [slash, CHR 0x5C])" for x
      by (auto simp: lower_hex_def in_byte_range_def control_chars_def NUL_def CR_def LF_def slash_def)
    then show ?thesis using hex by (auto simp: contains_any_def list_ex_iff dest: in_set_takeD)
  qed
  moreover have "\<not> contains_any ''env_'' (control_chars @ [slash, CHR 0x5C])" by code_simp
  ultimately show "env_validOpaque (environment_id c (eg_Spec g))"
    using len by (auto simp: env_validOpaque_def environment_id_def environmentIdentity_def env_digest_def contains_any_def)
qed

lemma load_generations_step:
  assumes "files f = Some d" and "ec_ungen c (take 65536 d) = Some g" and "validGeneration g" and "f = eg_ID g @ ''.json''"
    and "eg_Identity g = environmentIdentity c (eg_Spec g)"
  shows "load_generations c files (f # fs) gens = load_generations c files fs (gens(eg_ID g \<mapsto> g))"
proof -
  have "suffix ''.json'' f" unfolding assms(4) suffix_def by blast
  then show ?thesis using assms by simp
qed

lemma load_generations_inv:
  assumes "env_inv c m"
  shows "list_all (\<lambda>f. em_files m f \<noteq> None) order \<Longrightarrow>
    load_generations c (em_files m) order gens
      = Some (\<lambda>i. if i @ ''.json'' \<in> set order \<and> em_gens m i \<noteq> None then em_gens m i else gens i)"
proof (induction order arbitrary: gens)
  case (Cons f fs)
  then obtain d where d: "em_files m f = Some d" by auto
  then obtain g where g: "em_gens m (eg_ID g) = Some g" "f = eg_ID g @ ''.json''" "d = ec_gen c g @ [LF]"
    using assms by (auto simp: env_inv_def env_disk_def)
  have wf: "env_wf c m" and dt: "env_dated c m" using assms by (simp_all add: env_inv_def)
  from wf [unfolded env_wf_def, rule_format, OF g(1)] dt [unfolded env_dated_def, rule_format, OF g(1)]
  have ok: "eg_Identity g = environmentIdentity c (eg_Spec g)" "eg_ID g = environment_id c (eg_Spec g)"
      "validSpec (eg_Spec g)" "eg_State g = ''READY''" "eg_CreatedAt g \<noteq> zero_time" "codec_ok c g" by metis+
  have valid: "validGeneration g"
    unfolding validGeneration_def
  proof (intro conjI)
    show "env_validOpaque (eg_ID g)" "env_validIdentity (eg_Identity g)"
      unfolding ok(1,2) by (rule identity_valid [OF ok(6)])+
    show "prefix ''env_'' (eg_ID g)" unfolding ok(2) environment_id_def by simp
  qed (use ok(3-5) in simp_all)
  have "ec_ungen c (take 65536 d) = Some g" using ok(6) g(3) by (simp add: codec_ok_def)
  with d valid g(2) ok(1)
  have "load_generations c (em_files m) (f # fs) gens = load_generations c (em_files m) fs (gens(eg_ID g \<mapsto> g))"
    by (intro load_generations_step)
  also have "\<dots> = Some (\<lambda>i. if i @ ''.json'' \<in> set fs \<and> em_gens m i \<noteq> None then em_gens m i
      else (gens(eg_ID g \<mapsto> g)) i)"
    using Cons.prems by (intro Cons.IH) simp
  also have "(\<lambda>i. if i @ ''.json'' \<in> set fs \<and> em_gens m i \<noteq> None then em_gens m i else (gens(eg_ID g \<mapsto> g)) i)
      = (\<lambda>i. if i @ ''.json'' \<in> set (f # fs) \<and> em_gens m i \<noteq> None then em_gens m i else gens i)"
    using g(1,2) by (intro ext) simp
  finally show ?case .
qed simp


text \<open>A write that stops half way leaves a file that does not decode, and every later manager is refused, though
  a retry in the same process would repair it.\<close>

lemma partial_write_blocks_restart:
  assumes "env_Create c now (FW_Partial k) ctx s m = (res, m')" and "em_gens m (environment_id c s) = None"
    and "validSpec s" and "ctx \<noteq> Ctx_Nil" and "\<And>g. ec_ungen c (take 65536 (take k (ec_gen c g @ [LF]))) = None"
  shows "load_generations c (em_files m') [environment_id c s @ ''.json''] gens = None"
proof -
  have "suffix ''.json'' (environment_id c s @ ''.json'')" unfolding suffix_def by blast
  then show ?thesis using assms by (auto simp: env_Create_def Let_def write_bytes_def)
qed

text \<open>The digest of the lock files joins names and contents with a byte that contents may have: one file can
  stand for two.\<close>

lemma lockfile_digest_ambiguous:
  "lockfile_bytes (\<lambda>p. Some (if p = ''/r/go.mod'' then ''X'' else ''Y'')) ''/r'' [''go.mod'', ''go.sum'']
   = lockfile_bytes (\<lambda>p. Some (''X'' @ NUL # ''go.sum'' @ NUL # ''Y'')) ''/r'' [''go.mod'']"
  by code_simp

subsection \<open>The cache returns what was put\<close>

definition hex_text :: "string \<Rightarrow> bool" where "hex_text v \<longleftrightarrow> list_all lower_hex v"

lemma identity_hex: "env_validIdentity v \<Longrightarrow> hex_text v \<and> length v = 64"
  by (simp add: env_validIdentity_def hex_text_def)

lemma digest_hex: "hex_text (env_digest sha data)"
  by (auto simp: hex_text_def env_digest_def list_all_iff hex_encode_lower)

lemma hex_no_slash: "hex_text v \<Longrightarrow> slash \<notin> set v"
  unfolding hex_text_def list_all_iff using lower_hex_plain by blast

lemma plain_compI: "slash \<notin> set v \<Longrightarrow> 2 < length v \<or> CHR ''-'' \<in> set v \<Longrightarrow> plain_comp v"
  unfolding plain_comp_def by auto

lemma meta_name_plain: "hex_text v \<Longrightarrow> plain_comp (v @ ''.json'')"
  by (rule plain_compI) (simp_all add: hex_no_slash, simp add: slash_def)

lemma blob_name_plain: "hex_text v \<Longrightarrow> hex_text d \<Longrightarrow> plain_comp (v @ ''-'' @ d)"
  by (rule plain_compI) (simp_all add: hex_no_slash, simp add: slash_def)

lemma cache_names_distinct:
  assumes "length k = 64" and "length k' = (64::nat)"
  shows "k @ ''.json'' \<noteq> k' @ ''-'' @ d"
    and "k \<noteq> k' \<Longrightarrow> k @ ''.json'' \<noteq> k' @ ''.json''"
    and "k \<noteq> k' \<Longrightarrow> k @ ''-'' @ d \<noteq> k' @ ''-'' @ d'"
  using assms by simp_all

lemma cache_paths_distinct:
  assumes "is_abs (ch_root h)" and "env_validIdentity k" and "env_validIdentity k'" and "hex_text d" and "hex_text d'"
  shows "cache_meta k h \<noteq> cache_blob k' d h"
    and "k \<noteq> k' \<Longrightarrow> cache_meta k h \<noteq> cache_meta k' h"
    and "k \<noteq> k' \<Longrightarrow> cache_blob k d h \<noteq> cache_blob k' d' h"
proof -
  have k: "hex_text k" "hex_text k'" and l: "length k = 64" "length k' = 64"
    using identity_hex assms(2,3) by blast+
  show "cache_meta k h \<noteq> cache_blob k' d h"
    unfolding cache_meta_def cache_blob_def
    using join_path_inj [OF assms(1) meta_name_plain [OF k(1)] blob_name_plain [OF k(2) assms(4)]]
      cache_names_distinct(1) [OF l] by blast
  show "k \<noteq> k' \<Longrightarrow> cache_meta k h \<noteq> cache_meta k' h"
    unfolding cache_meta_def
    using join_path_inj [OF assms(1) meta_name_plain [OF k(1)] meta_name_plain [OF k(2)]]
      cache_names_distinct(2) [OF l] by blast
  show "k \<noteq> k' \<Longrightarrow> cache_blob k d h \<noteq> cache_blob k' d' h"
    unfolding cache_blob_def
    using join_path_inj [OF assms(1) blob_name_plain [OF k(1) assms(4)] blob_name_plain [OF k(2) assms(5)]]
      cache_names_distinct(3) [OF l] by blast
qed

lemma join_path_abs: "is_abs a \<Longrightarrow> plain_comp b \<Longrightarrow> is_abs (join_path a b)"
  by (simp add: join_path_child clean_abs is_abs_append) (simp add: is_abs_def)

record cache_put =
  kp_now :: instant
  kp_stat :: env_stat
  kp_digested :: "string option"
  kp_copied :: "string option"
  kp_write :: file_write
  kp_ctx :: go_ctx
  kp_key :: string
  kp_binding :: cache_binding
  kp_source :: string

definition run_put :: "cache_codec \<Rightarrow> cache_put \<Rightarrow> cache \<Rightarrow> (env_error + cache_artifact) \<times> cache" where
  "run_put c k h = cache_Put c (kp_now k) (kp_stat k) (kp_digested k) (kp_copied k) (kp_write k) (kp_ctx k) (kp_key k)
     (kp_binding k) (kp_source k) h"

lemma run_put_root [simp]: "ch_root (snd (run_put c k h)) = ch_root h"
  by (auto simp: run_put_def cache_Put_def Let_def put_file_def write_meta_def
      split: env_stat.split option.split file_write.split)

lemma run_put_other:
  assumes "is_abs (ch_root h)" and "env_validIdentity key" and "hex_text d" and "kp_key k \<noteq> key"
  shows "ch_files (snd (run_put c k h)) (cache_meta key h) = ch_files h (cache_meta key h)
    \<and> ch_files (snd (run_put c k h)) (cache_blob key d h) = ch_files h (cache_blob key d h)"
proof (cases "env_validIdentity (kp_key k)")
  case False
  then show ?thesis by (simp add: run_put_def cache_Put_def)
next
  case True
  have "cache_meta key h \<noteq> cache_meta (kp_key k) h" "cache_meta (kp_key k) h \<noteq> cache_blob key d h"
    "\<And>data. cache_meta key h \<noteq> cache_blob (kp_key k) (env_digest (cc_sha c) data) h"
    "\<And>data. cache_blob key d h \<noteq> cache_blob (kp_key k) (env_digest (cc_sha c) data) h"
    using cache_paths_distinct [OF assms(1,2) True assms(3) digest_hex] cache_paths_distinct [OF assms(1) True assms(2,3,3)]
      cache_paths_distinct [OF assms(1,2) True digest_hex assms(3)] assms(4) by metis+
  moreover have "cache_meta key (put_file p e h') = cache_meta key h'" "cache_blob key d (put_file p e h') = cache_blob key d h'"
    for key d p e h' by (simp_all add: cache_meta_def cache_blob_def put_file_def)
  ultimately show ?thesis
    by (auto simp: run_put_def cache_Put_def Let_def write_meta_def put_file_def
        split: env_stat.split option.split file_write.split)
qed

lemma cache_Put_files:
  assumes "run_put c k h = (Inr a, h1)" and "is_abs (ch_root h)"
  shows "\<exists>data content. kp_digested k = Some data \<and> kp_copied k = Some content
    \<and> env_validIdentity (kp_key k) \<and> env_validBinding (kp_binding k)
    \<and> ch_files h1 (cache_meta (kp_key k) h) = Some (CE_File (cc_art c a @ [LF]))
    \<and> ch_files h1 (cache_blob (kp_key k) (env_digest (cc_sha c) data) h) = Some (CE_File content)
    \<and> ca_Key a = kp_key k \<and> ca_Binding a = kp_binding k \<and> ca_ContentDigest a = env_digest (cc_sha c) data
    \<and> ca_Path a = cache_blob (kp_key k) (env_digest (cc_sha c) data) h \<and> ca_Size a = length data"
proof -
  obtain n data content where e: "kp_stat k = ES_Regular n" "kp_digested k = Some data" "kp_copied k = Some content"
    "env_validIdentity (kp_key k)" "env_validBinding (kp_binding k)" "kp_write k = FW_Done"
    using assms(1) by (auto simp: run_put_def cache_Put_def Let_def split: if_splits env_stat.splits option.splits)
  let ?d = "env_digest (cc_sha c) data"
  have ne: "cache_meta (kp_key k) h \<noteq> cache_blob (kp_key k) ?d h"
    by (rule cache_paths_distinct(1) [OF assms(2) e(4,4) digest_hex digest_hex])
  have "a = \<lparr>ca_Key = kp_key k, ca_Binding = kp_binding k, ca_ContentDigest = ?d, ca_Path = cache_blob (kp_key k) ?d h,
        ca_Size = length data, ca_CreatedAt = kp_now k\<rparr>"
    and "h1 = put_file (cache_meta (kp_key k) h) (Some (CE_File (cc_art c a @ [LF])))
        (put_file (cache_blob (kp_key k) ?d h) (Some (CE_File content)) h)"
    using assms(1) e by (auto simp: run_put_def cache_Put_def Let_def write_meta_def split: if_splits)
  then show ?thesis using e ne by (auto simp: put_file_def)
qed

text \<open>The cache returns what was put, or refuses it. After an artifact is put under a key, and whatever is put
  under other keys then, getting it with the same binding returns it exactly when the copy in the cache
  has the length and the digest of what was digested; a copy that changed in between, or another
  binding, is refused.\<close>

theorem cache_roundtrip:
  assumes "run_put c k h = (Inr a, h1)" and "is_abs (ch_root h)" and "clean (ch_root h) = ch_root h"
    and "cc_unart c (cc_art c a @ [LF]) = Some a" and "list_all (\<lambda>k'. kp_key k' \<noteq> kp_key k) others" and "ctx \<noteq> Ctx_Nil"
    and "env_validBinding b"
  shows "cache_Get c ctx (kp_key k) b (foldl (\<lambda>h k'. snd (run_put c k' h)) h1 others)
    = (if b = kp_binding k \<and> length (the (kp_copied k)) = length (the (kp_digested k))
          \<and> env_digest (cc_sha c) (the (kp_copied k)) = env_digest (cc_sha c) (the (kp_digested k))
       then Inr a else Inl EN_ErrRejected)"
proof -
  from cache_Put_files [OF assms(1,2)] obtain data content where
    p: "kp_digested k = Some data" "kp_copied k = Some content" "env_validIdentity (kp_key k)"
    "ch_files h1 (cache_meta (kp_key k) h) = Some (CE_File (cc_art c a @ [LF]))"
    "ch_files h1 (cache_blob (kp_key k) (env_digest (cc_sha c) data) h) = Some (CE_File content)"
    "ca_Key a = kp_key k" "ca_Binding a = kp_binding k" "ca_ContentDigest a = env_digest (cc_sha c) data"
    "ca_Path a = cache_blob (kp_key k) (env_digest (cc_sha c) data) h" "ca_Size a = length data" by blast
  let ?d = "env_digest (cc_sha c) data"
  let ?H = "foldl (\<lambda>h k'. snd (run_put c k' h)) h1 others"
  have r1: "ch_root h1 = ch_root h" using assms(1) run_put_root [of c k h] by simp
  have same: "cache_meta key h' = cache_meta key h" "cache_blob key d h' = cache_blob key d h" if "ch_root h' = ch_root h"
    for key d h' using that by (simp_all add: cache_meta_def cache_blob_def)
  have inv: "ch_root ?H = ch_root h \<and> ch_files ?H (cache_meta (kp_key k) h) = Some (CE_File (cc_art c a @ [LF]))
      \<and> ch_files ?H (cache_blob (kp_key k) ?d h) = Some (CE_File content)"
  proof (rule foldl_invariant)
    show "ch_root h1 = ch_root h \<and> ch_files h1 (cache_meta (kp_key k) h) = Some (CE_File (cc_art c a @ [LF]))
      \<and> ch_files h1 (cache_blob (kp_key k) ?d h) = Some (CE_File content)" using r1 p(4,5) by simp
  next
    fix h' :: cache and k' assume k': "k' \<in> set others"
      and i: "ch_root h' = ch_root h \<and> ch_files h' (cache_meta (kp_key k) h) = Some (CE_File (cc_art c a @ [LF]))
        \<and> ch_files h' (cache_blob (kp_key k) ?d h) = Some (CE_File content)"
    have ne: "kp_key k' \<noteq> kp_key k" using assms(5) k' by (simp add: list_all_iff)
    have abs: "is_abs (ch_root h')" using i assms(2) by simp
    from run_put_other [OF abs p(3) digest_hex ne, of c "cc_sha c" data] i same [of h']
    show "ch_root (snd (run_put c k' h')) = ch_root h
      \<and> ch_files (snd (run_put c k' h')) (cache_meta (kp_key k) h) = Some (CE_File (cc_art c a @ [LF]))
      \<and> ch_files (snd (run_put c k' h')) (cache_blob (kp_key k) ?d h) = Some (CE_File content)" by simp
  qed
  have plain: "plain_comp (kp_key k @ ''-'' @ ?d)"
    using blob_name_plain identity_hex [OF p(3)] digest_hex by blast
  have within: "is_abs (cache_blob (kp_key k) ?d h)" "env_pathWithin (ch_root h) (cache_blob (kp_key k) ?d h)"
    using join_path_within [OF assms(2,3) plain] join_path_abs [OF assms(2) plain]
    by (simp_all only: cache_blob_def env_pathWithin_def)
  show ?thesis using inv same [of ?H] within assms(4,6,7) p
    by (auto simp: cache_Get_def Let_def)
qed

text \<open>A hit is never taken on trust.\<close>

lemma cache_hit_verified:
  assumes "cache_Get c ctx key b h = Inr a"
  shows "\<exists>content. ch_files h (ca_Path a) = Some (CE_File content) \<and> length content = ca_Size a
    \<and> env_digest (cc_sha c) content = ca_ContentDigest a \<and> ca_Key a = key \<and> ca_Binding a = b
    \<and> env_pathWithin (ch_root h) (ca_Path a)"
  using assms by (auto simp: cache_Get_def split: if_splits option.splits cache_entry.splits)

lemma install_gated:
  assumes "env_Install (Some install) ctx g packages p x = (r, x')" and "x' \<noteq> x"
  shows "np_Mode (cpl_Network p) = NetworkRegistry \<and> np_RegistryDomain (cpl_Network p) \<noteq> [] \<and> packages \<noteq> []
    \<and> list_all (\<lambda>q. q \<noteq> [] \<and> \<not> contains_any q control_chars) packages
    \<and> x' = snd (install (eg_Identity g) packages (np_RegistryDomain (cpl_Network p)) x)"
  using assms by (auto simp: env_Install_def list_ex_iff list_all_iff split: if_splits prod.splits)

subsection \<open>An environment and an artifact\<close>

definition demo_identity :: string where "demo_identity = replicate 64 CHR ''a''"

definition demo_env_spec :: environment_spec where
  "demo_env_spec = \<lparr>nv_RepositoryID = demo_identity, nv_WorkspaceID = ''w'', nv_Platform = ''p'',
     nv_Toolchain = \<lparr>tc_Kind = ToolchainGo, tc_Version = ''1'', tc_Manifest = ''m'', tc_Identity = ''i''\<rparr>,
     nv_LockfileDigest = demo_identity, nv_PolicyVersion = ''v'', nv_Image = ''img''\<rparr>"

definition demo_sha :: "string \<Rightarrow> string" where "demo_sha s = take 32 (s @ replicate 32 CHR ''x'')"

definition spec_fields :: "environment_spec \<Rightarrow> string list" where
  "spec_fields s = [nv_RepositoryID s, nv_WorkspaceID s, nv_Platform s, tc_Kind (nv_Toolchain s),
     tc_Version (nv_Toolchain s), tc_Manifest (nv_Toolchain s), tc_Identity (nv_Toolchain s), nv_LockfileDigest s,
     nv_PolicyVersion s, nv_Image s]"

definition gen_fields :: "env_generation \<Rightarrow> string list" where
  "gen_fields g = [eg_ID g, eg_Identity g, eg_State g, text_of_int (eg_CreatedAt g)] @ spec_fields (eg_Spec g)"

fun gen_of_fields :: "string list \<Rightarrow> env_generation option" where
  "gen_of_fields [i, d, st, t, r, w, p, tk, tv, tm, ti, l, v, im] =
    map_option (\<lambda>n. \<lparr>eg_ID = i, eg_Identity = d,
       eg_Spec = \<lparr>nv_RepositoryID = r, nv_WorkspaceID = w, nv_Platform = p,
         nv_Toolchain = \<lparr>tc_Kind = tk, tc_Version = tv, tc_Manifest = tm, tc_Identity = ti\<rparr>,
         nv_LockfileDigest = l, nv_PolicyVersion = v, nv_Image = im\<rparr>, eg_State = st, eg_CreatedAt = n\<rparr>) (int_of_text t)"
| "gen_of_fields _ = None"

definition demo_ungen :: "string \<Rightarrow> env_generation option" where
  "demo_ungen x = (case get_strings 14 x of Some (fs, r) \<Rightarrow> if r = [LF] then gen_of_fields fs else None | None \<Rightarrow> None)"

definition demo_env_codec :: env_codec where
  "demo_env_codec = \<lparr>ec_sha = demo_sha, ec_spec = (\<lambda>s. put_strings (spec_fields s)), ec_gen = (\<lambda>g. put_strings (gen_fields g)),
     ec_ungen = demo_ungen\<rparr>"

lemma demo_ungen_gen: "demo_ungen (put_strings (gen_fields g) @ [LF]) = Some g"
proof -
  have "length (gen_fields g) = 14" by (simp add: gen_fields_def spec_fields_def)
  then have "get_strings 14 (put_strings (gen_fields g) @ [LF]) = Some (gen_fields g, [LF])" using get_put_strings by metis
  moreover have "gen_of_fields (gen_fields g) = Some g"
    by (simp add: gen_fields_def spec_fields_def int_of_text_of)
  ultimately show ?thesis by (simp add: demo_ungen_def)
qed

lemma demo_codec_law: "codec_law demo_env_codec"
  by (simp add: codec_law_def demo_env_codec_def demo_ungen_gen demo_sha_def min_def)

definition demo_created where
  "demo_created = env_Create demo_env_codec 5 FW_Done Ctx_Live demo_env_spec \<lparr>em_gens = Map.empty, em_files = Map.empty\<rparr>"

definition demo_call :: env_call where
  "demo_call = \<lparr>ek_now = 5, ek_write = FW_Done, ek_ctx = Ctx_Live, ek_spec = demo_env_spec\<rparr>"

lemma demo_created_ok:
  "env_Create demo_env_codec 5 FW_Done Ctx_Live demo_env_spec \<lparr>em_gens = Map.empty, em_files = Map.empty\<rparr>
   = (Inr (projr (fst demo_created)), snd demo_created)"
proof -
  have "is_ok (fst demo_created)" by code_simp
  then show ?thesis unfolding demo_created_def [symmetric] by (metis is_ok_iff prod.collapse sum.sel(2))
qed

theorem env_create_stable_witness:
  "env_Create demo_env_codec 9 FW_None Ctx_Live demo_env_spec (env_run demo_env_codec [demo_call] (snd demo_created))
     = (Inr (projr (fst demo_created)), env_run demo_env_codec [demo_call] (snd demo_created))"
proof -
  have "Ctx_Live \<noteq> Ctx_Nil" by simp
  from env_create_stable [OF demo_created_ok this] show ?thesis by blast
qed

lemma demo_run_files:
  "dom (em_files (env_run demo_env_codec [demo_call] \<lparr>em_gens = Map.empty, em_files = Map.empty\<rparr>))
     = {environment_id demo_env_codec demo_env_spec @ ''.json''}"
proof -
  let ?m0 = "\<lparr>em_gens = Map.empty, em_files = Map.empty\<rparr>"
  let ?f = "environment_id demo_env_codec demo_env_spec @ ''.json''"
  have run: "env_run demo_env_codec [demo_call] ?m0 = snd demo_created"
    by (simp add: env_run_def env_step_def demo_call_def demo_created_def)
  have "em_gens (snd demo_created) (environment_id demo_env_codec demo_env_spec) \<noteq> None"
    using env_Create_result [OF demo_created_ok] by simp
  then have "snd demo_created \<noteq> ?m0" by auto
  with env_Create_cases [OF demo_created_ok] obtain g where
    "em_files (snd demo_created) = (em_files ?m0)(?f := write_bytes FW_Done (ec_gen demo_env_codec g @ [LF]) (em_files ?m0 ?f))"
    by blast
  then have "em_files (snd demo_created) = Map.empty(?f \<mapsto> ec_gen demo_env_codec g @ [LF])"
    by (simp only: write_bytes_def file_write.case env_manager.select_convs)
  then show ?thesis unfolding run by simp
qed


definition demo_binding :: cache_binding where
  "demo_binding = \<lparr>cb_ToolchainIdentity = demo_identity, cb_Platform = ''p'', cb_LockfileDigest = demo_identity, cb_PolicyVersion = ''v''\<rparr>"

definition demo_put :: cache_put where
  "demo_put = \<lparr>kp_now = 5, kp_stat = ES_Regular 2, kp_digested = Some ''hi'', kp_copied = Some ''hi'', kp_write = FW_Done,
     kp_ctx = Ctx_Live, kp_key = demo_identity, kp_binding = demo_binding, kp_source = ''/src''\<rparr>"

definition demo_cache :: cache where "demo_cache = \<lparr>ch_root = ''/c'', ch_files = Map.empty\<rparr>"

definition demo_artifact :: cache_artifact where
  "demo_artifact = \<lparr>ca_Key = demo_identity, ca_Binding = demo_binding, ca_ContentDigest = env_digest (take 2) ''hi'',
     ca_Path = cache_blob demo_identity (env_digest (take 2) ''hi'') demo_cache, ca_Size = 2, ca_CreatedAt = 5\<rparr>"

definition demo_cache_codec :: cache_codec where
  "demo_cache_codec = \<lparr>cc_sha = take 2, cc_key = snd, cc_art = (\<lambda>a. ca_Key a),
     cc_unart = (\<lambda>s. if s = demo_identity @ [LF] then Some demo_artifact else None)\<rparr>"

theorem cache_roundtrip_witness:
  "cache_Get demo_cache_codec Ctx_Live demo_identity demo_binding
     (snd (run_put demo_cache_codec (demo_put\<lparr>kp_key := replicate 64 CHR ''b''\<rparr>)
       (snd (run_put demo_cache_codec demo_put demo_cache)))) = Inr demo_artifact"
proof -
  let ?h1 = "snd (run_put demo_cache_codec demo_put demo_cache)"
  have "fst (run_put demo_cache_codec demo_put demo_cache) = Inr demo_artifact" by code_simp
  then have p: "run_put demo_cache_codec demo_put demo_cache = (Inr demo_artifact, ?h1)" by (metis prod.collapse)
  have h: "is_abs (ch_root demo_cache)" "clean (ch_root demo_cache) = ch_root demo_cache"
    "cc_unart demo_cache_codec (cc_art demo_cache_codec demo_artifact @ [LF]) = Some demo_artifact"
    "list_all (\<lambda>k'. kp_key k' \<noteq> kp_key demo_put) [demo_put\<lparr>kp_key := replicate 64 CHR ''b''\<rparr>]"
    "Ctx_Live \<noteq> Ctx_Nil" "env_validBinding demo_binding" by code_simp+
  have k: "kp_key demo_put = demo_identity" "kp_binding demo_put = demo_binding" "kp_copied demo_put = kp_digested demo_put"
    by (simp_all add: demo_put_def)
  from cache_roundtrip [OF p h] k show ?thesis by simp
qed

end
