(* ===== verification/Repo_Paths.thy ===== *)
theory Repo_Paths
  imports Go_Paths
begin

section \<open>Paths of a repository (internal/repo/repo.go)\<close>

text \<open>
  Which relative paths a tool may name: the cleaning of a path and the policy of protected and generated
  names. The theory shows that a cleaned path has no way out of the root, and that the policy is closed
  under descending: nothing below a protected directory is available.
\<close>

definition isWindowsVolumePath :: "string \<Rightarrow> bool" where
  "isWindowsVolumePath p \<longleftrightarrow>
     (case p of a # b # _ \<Rightarrow> (in_byte_range 97 122 a \<or> in_byte_range 65 90 a) \<and> b = CHR '':'' | _ \<Rightarrow> False)"

definition cleanRelativePath :: "string \<Rightarrow> string option" where
  "cleanRelativePath input =
    (if input = [] \<or> NUL \<in> set input \<or> is_abs input \<or> CHR 0x5C \<in> set input \<or> isWindowsVolumePath input then None
     else if ''..'' \<in> set (split_on slash input) then None
     else if clean input = ''..'' \<or> prefix ''../'' (clean input) then None
     else Some (clean input))"

definition containsGitDirectory :: "string \<Rightarrow> bool" where
  "containsGitDirectory p \<longleftrightarrow> ''.git'' \<in> set (split_on slash (clean p))"

definition protected_basenames :: "string list" where
  "protected_basenames =
    [''.netrc'', ''.npmrc'', ''.pypirc'', ''.ssh'', ''.aws'', ''.gnupg'',
     ''id_rsa'', ''id_dsa'', ''id_ecdsa'', ''id_ed25519'', ''private_key'', ''privatekey'', ''authorized_keys'',
     ''credentials.json'', ''credentials.yaml'', ''credentials.yml'',
     ''secret.json'', ''secret.yaml'', ''secret.yml'', ''secrets.json'', ''secrets.yaml'', ''secrets.yml'',
     ''token.json'', ''token.yaml'', ''token.yml'', ''tokens.json'', ''tokens.yaml'', ''tokens.yml'']"

definition containsSensitiveKeyword :: "string \<Rightarrow> bool" where
  "containsSensitiveKeyword name \<longleftrightarrow> sublist ''credential'' name \<or> sublist ''secret'' name \<or> sublist ''token'' name"

definition source_extensions :: "string list" where
  "source_extensions =
    [''.c'', ''.cc'', ''.cpp'', ''.cs'', ''.go'', ''.h'', ''.hpp'', ''.java'', ''.js'', ''.jsx'', ''.kt'', ''.kts'', ''.m'', ''.mm'', ''.php'',
     ''.py'', ''.rb'', ''.rs'', ''.scala'', ''.sh'', ''.swift'', ''.ts'', ''.tsx'', ''.zsh'']"

definition isSourceCodePath :: "string \<Rightarrow> bool" where
  "isSourceCodePath name \<longleftrightarrow> to_lower (ext_of name) \<in> set source_extensions"

definition protected_component :: "string \<Rightarrow> bool" where
  "protected_component component =
    (let name = to_lower component; extension = to_lower (ext_of name)
     in name = ''.git'' \<or> name = ''.env'' \<or> prefix ''.env.'' name \<or> name \<in> set protected_basenames
        \<or> extension \<in> {''.key'', ''.pem'', ''.p12'', ''.pfx'', ''.token''}
        \<or> (containsSensitiveKeyword name \<and> \<not> isSourceCodePath name))"

definition isProtected :: "string \<Rightarrow> bool" where
  "isProtected p = (if p = ''.'' then False else list_ex protected_component (split_on slash p))"

definition isUnavailable :: "string \<Rightarrow> bool" where
  "isUnavailable p \<longleftrightarrow> p = ''.cache'' \<or> prefix ''.cache/'' p \<or> p = ''bin/repoworker'' \<or> isProtected p"

subsection \<open>Cleaned paths\<close>

lemma foldl_clean_step_no_up:
  "\<forall>c \<in> set cs. slash \<notin> set c \<and> c \<noteq> ''..'' \<Longrightarrow> list_all plain_comp acc
     \<Longrightarrow> list_all plain_comp (foldl (clean_step r) acc cs)"
  by (induction cs arbitrary: acc) (auto simp: clean_step_def plain_comp_def split: list.split)

lemma clean_comps_no_up:
  "''..'' \<notin> set (split_on slash p) \<Longrightarrow> list_all plain_comp (clean_comps p)"
  unfolding clean_comps_def list_all_rev_iff
  by (rule foldl_clean_step_no_up) (use split_on_no_sep in fastforce)+

text \<open>The path of a cleaned input: the root itself, or names of files below it.\<close>

lemma cleanRelativePath_shape:
  assumes "cleanRelativePath input = Some p"
  shows "p = ''.'' \<or> (p = join_with [slash] (clean_comps input) \<and> split_on slash p = clean_comps input
    \<and> clean_comps input \<noteq> [] \<and> list_all plain_comp (clean_comps input))"
proof -
  have rel: "\<not> is_abs input" "input \<noteq> []" and up: "''..'' \<notin> set (split_on slash input)" and p: "p = clean input"
    using assms by (auto simp: cleanRelativePath_def split: if_splits)
  have plain: "list_all plain_comp (clean_comps input)" by (rule clean_comps_no_up [OF up])
  show ?thesis
  proof (cases "clean_comps input = []")
    case True
    then show ?thesis using p rel by (simp add: clean_def)
  next
    case False
    have "split_on slash (join_with [slash] (clean_comps input)) = clean_comps input"
      by (rule split_join) (use plain False in \<open>auto simp: list_all_iff plain_comp_def\<close>)
    then show ?thesis using p rel plain False by (simp add: clean_def)
  qed
qed

text \<open>Plain names are a cleaned path.\<close>

lemma split_plain:
  "list_all plain_comp cs \<Longrightarrow> cs \<noteq> [] \<Longrightarrow> split_on slash (join_with [slash] cs) = cs"
  by (rule split_join) (auto simp: list_all_iff plain_comp_def)

lemma join_plain_relative:
  assumes "list_all plain_comp cs" and "cs \<noteq> []"
  shows "join_with [slash] cs \<noteq> []" and "join_with [slash] cs \<noteq> ''.''" and "\<not> is_abs (join_with [slash] cs)"
proof -
  have s: "split_on slash (join_with [slash] cs) = cs" by (rule split_plain [OF assms])
  show ne: "join_with [slash] cs \<noteq> []"
  proof
    assume "join_with [slash] cs = []"
    then have "cs = [[]]" using s by simp
    then show False using assms(1) by (simp add: plain_comp_def)
  qed
  show "join_with [slash] cs \<noteq> ''.''"
  proof
    assume "join_with [slash] cs = ''.''"
    then have "cs = [''.'']" using s by (simp add: slash_def)
    then show False using assms(1) by (simp add: plain_comp_def)
  qed
  show "\<not> is_abs (join_with [slash] cs)"
  proof
    assume "is_abs (join_with [slash] cs)"
    then obtain t where "join_with [slash] cs = slash # t" by (cases "join_with [slash] cs") (auto simp: is_abs_def)
    then have "cs = [] # split_on slash t" using s by simp
    then show False using assms(1) by (simp add: plain_comp_def)
  qed
qed

lemma cleanRelativePath_plain:
  assumes "list_all plain_comp cs" and "cs \<noteq> []" and "cleanRelativePath (join_with [slash] cs) = Some r"
  shows "r = join_with [slash] cs"
proof -
  have "clean_comps (join_with [slash] cs) = cs"
    using foldl_clean_step_id [OF assms(1)] by (simp add: clean_comps_def split_plain [OF assms(1,2)])
  then show ?thesis
    using assms(2,3) join_plain_relative [OF assms(1,2)] by (auto simp: cleanRelativePath_def clean_def split: if_splits)
qed

lemma cleanRelativePath_dot: "cleanRelativePath ''.'' = Some ''.''"
  by code_simp

lemma cleanRelativePath_idem:
  assumes "cleanRelativePath h = Some p" and "cleanRelativePath p = Some q"
  shows "q = p"
proof (cases "p = ''.''")
  case True
  then show ?thesis using assms(2) cleanRelativePath_dot by simp
next
  case False
  then have "p = join_with [slash] (clean_comps h)" "list_all plain_comp (clean_comps h)" "clean_comps h \<noteq> []"
    using cleanRelativePath_shape [OF assms(1)] by blast+
  then show ?thesis using cleanRelativePath_plain [of "clean_comps h" q] assms(2) by simp
qed

lemma clean_comps_append_rel:
  assumes "is_abs root" and "list_all plain_comp cs" and "cs \<noteq> []"
  shows "clean_comps (root @ slash # join_with [slash] cs) = clean_comps root @ cs"
proof -
  have abs: "is_abs (root @ slash # join_with [slash] cs) = is_abs root" using assms(1) by (auto simp: is_abs_def)
  have "split_on slash (join_with [slash] cs) = cs"
    by (rule split_join) (use assms(2,3) in \<open>auto simp: list_all_iff plain_comp_def\<close>)
  then show ?thesis using abs foldl_clean_step_id [OF assms(2)]
    by (simp add: clean_comps_def split_on_append2)
qed

text \<open>A cleaned path does not leave the root. Whatever relative path a tool names, cleaning it refuses it or
  gives the root or a path made of plain names only, and joining it to any root stays inside the root.\<close>

theorem clean_path_confined:
  assumes "cleanRelativePath input = Some p" and "is_abs root"
  shows "(p = ''.'' \<or> list_all plain_comp (split_on slash p)) \<and> \<not> is_abs p
    \<and> rel_inside (rel_from_abs root (join_path root p))"
proof -
  have dot: "clean_comps (root @ slash # ''.'') = clean_comps root"
  proof -
    have "is_abs (root @ slash # ''.'') = is_abs root" using assms(2) by (auto simp: is_abs_def)
    moreover have "split_on slash ''.'' = [''.'']" by (simp add: slash_def)
    ultimately show ?thesis by (simp add: clean_comps_def split_on_append2) (simp add: clean_step_def)
  qed
  have pre: "prefix (clean_comps root) (clean_comps (root @ slash # p))"
    using cleanRelativePath_shape [OF assms(1)] dot clean_comps_append_rel [OF assms(2)] by (auto simp: slash_def)
  have abs: "is_abs (root @ slash # p)" using assms(2) by (auto simp: is_abs_def)
  have plain: "p = ''.'' \<or> list_all plain_comp (split_on slash p)"
    using cleanRelativePath_shape [OF assms(1)] by metis
  then have ne: "p \<noteq> []" by (auto simp: plain_comp_def)
  have absc: "is_abs (clean (root @ slash # p))" using abs by (simp add: clean_abs) (simp add: is_abs_def)
  have "clean_comps (clean (root @ slash # p)) = clean_comps (root @ slash # p)"
    using clean_eq_iff_comps [OF absc abs] clean_idem_abs [OF abs] by metis
  moreover have "join_path root p = clean (root @ slash # p)"
    using assms(2) ne by (simp add: join_path_def is_abs_def)
  ultimately have "rel_inside (rel_from_abs root (join_path root p))"
    using rel_inside_iff_prefix [OF assms(2) absc] pre by simp
  moreover have "\<not> is_abs p"
  proof
    assume "is_abs p"
    then have "[] \<in> set (split_on slash p)" and "p \<noteq> ''.''" by (cases p; auto simp: is_abs_def slash_def)+
    then have "list_all plain_comp (split_on slash p)" using plain by argo
    with \<open>[] \<in> set (split_on slash p)\<close> show False by (auto simp: list_all_iff plain_comp_def)
  qed
  ultimately show ?thesis using plain by blast
qed

text \<open>What is below a protected name is protected.\<close>

lemma isProtected_below: "isProtected p \<Longrightarrow> isProtected (p @ slash # q)"
proof -
  assume a: "isProtected p"
  have "p @ slash # q \<noteq> ''.''" by (cases p) (auto simp: slash_def)
  then show ?thesis using a by (auto simp: isProtected_def split_on_append2 split: if_splits)
qed

lemma cache_below: "isUnavailable p \<Longrightarrow> p \<noteq> ''bin/repoworker'' \<Longrightarrow> isUnavailable (p @ slash # q)"
  using isProtected_below [of p q] by (auto simp: isUnavailable_def slash_def)

lemma git_never_available:
  "c \<in> set (split_on slash p) \<Longrightarrow> to_lower c = ''.git'' \<Longrightarrow> p \<noteq> ''.'' \<Longrightarrow> isUnavailable p"
  by (auto simp: isUnavailable_def isProtected_def list_ex_iff protected_component_def Let_def)

theorem clean_path_confined_witness:
  "cleanRelativePath ''a//./b'' = Some ''a/b'' \<and> rel_inside (rel_from_abs ''/r'' (join_path ''/r'' ''a/b''))
   \<and> cleanRelativePath ''a/../../b'' = None"
proof -
  have c: "cleanRelativePath ''a//./b'' = Some ''a/b''" and r: "is_abs ''/r''" and n: "cleanRelativePath ''a/../../b'' = None"
    by code_simp+
  show ?thesis using clean_path_confined [OF c r] c n by blast
qed

end
