(* ===== verification/Repo_Disk.thy ===== *)
theory Repo_Disk
  imports Repo_Paths
begin

section \<open>Files below a repository root (internal/repo/repo.go)\<close>

text \<open>
  The part of the disk below the root a \<open>Workspace\<close> holds open, and how the workspace opens files there:
  one component at a time, never through a symbolic link, never onto another device. The theory shows that
  what is opened is the node the cleaned path names, and what a read can give back.
\<close>

subsection \<open>Nodes\<close>

text \<open>\<open>nm_opens\<close> says that the permissions let the process open the node. A directory has its entries in the
  order of the file system, each name once.\<close>

record node_meta =
  nm_dev :: nat
  nm_ino :: nat
  nm_perm :: nat
  nm_opens :: bool

datatype node =
    Dir_Node node_meta "(string \<times> node) list"
  | Regular_Node node_meta string
  | Symlink_Node node_meta
  | Special_Node node_meta

fun meta_of :: "node \<Rightarrow> node_meta" where
  "meta_of (Dir_Node m _) = m"
| "meta_of (Regular_Node m _) = m"
| "meta_of (Symlink_Node m) = m"
| "meta_of (Special_Node m) = m"

fun is_dir_node :: "node \<Rightarrow> bool" where
  "is_dir_node (Dir_Node _ _) = True"
| "is_dir_node _ = False"

fun is_regular_node :: "node \<Rightarrow> bool" where
  "is_regular_node (Regular_Node _ _) = True"
| "is_regular_node _ = False"

fun is_symlink_node :: "node \<Rightarrow> bool" where
  "is_symlink_node (Symlink_Node _) = True"
| "is_symlink_node _ = False"

text \<open>The node at a list of names, when every name but the last is a directory.\<close>

fun node_at :: "node \<Rightarrow> string list \<Rightarrow> node option" where
  "node_at n [] = Some n"
| "node_at (Dir_Node _ es) (c # cs) = (case map_of es c of None \<Rightarrow> None | Some x \<Rightarrow> node_at x cs)"
| "node_at _ (c # cs) = None"

text \<open>Changing the entries of the directory at a list of names.\<close>

fun update_dir :: "((string \<times> node) list \<Rightarrow> (string \<times> node) list) \<Rightarrow> string list \<Rightarrow> node \<Rightarrow> node" where
  "update_dir f [] (Dir_Node m es) = Dir_Node m (f es)"
| "update_dir f (c # cs) (Dir_Node m es) =
    Dir_Node m (map (\<lambda>(n, x). if n = c then (n, update_dir f cs x) else (n, x)) es)"
| "update_dir f _ n = n"

definition put_name :: "string \<Rightarrow> node \<Rightarrow> (string \<times> node) list \<Rightarrow> (string \<times> node) list" where
  "put_name name n es = (name, n) # filter (\<lambda>p. fst p \<noteq> name) es"

definition drop_name :: "string \<Rightarrow> (string \<times> node) list \<Rightarrow> (string \<times> node) list" where
  "drop_name name es = filter (\<lambda>p. fst p \<noteq> name) es"

lemma map_of_put [simp]: "map_of (put_name name n es) c = (if c = name then Some n else map_of es c)"
proof (cases "c = name")
  case False
  then have "map_of (filter (\<lambda>p. fst p \<noteq> name) es) c = map_of es c" by (induction es) auto
  then show ?thesis using False by (simp add: put_name_def)
qed (simp add: put_name_def)

lemma map_of_drop [simp]: "map_of (drop_name name es) c = (if c = name then None else map_of es c)"
  by (induction es) (auto simp: drop_name_def)

lemma map_of_map_at:
  "map_of (map (\<lambda>(n, x). if n = c then (n, g x) else (n, x)) es) k
     = (if k = c then map_option g (map_of es k) else map_of es k)"
  by (induction es) auto

lemma node_at_append: "node_at n (ps @ qs) = (case node_at n ps of None \<Rightarrow> None | Some x \<Rightarrow> node_at x qs)"
  by (induction n ps rule: node_at.induct) (auto split: option.splits)

text \<open>The directory itself has the new entries; everything that is neither above nor below it is unchanged.\<close>

lemma node_at_update_same:
  "node_at d ps = Some (Dir_Node m es) \<Longrightarrow> node_at (update_dir f ps d) ps = Some (Dir_Node m (f es))"
proof (induction f ps d rule: update_dir.induct)
  case (2 f c cs m' es')
  then show ?case by (auto simp: map_of_map_at split: option.splits dest: map_of_SomeD)
qed (auto elim: node_at.elims)

lemma node_at_update_other:
  "\<not> prefix ps qs \<Longrightarrow> \<not> prefix qs ps \<Longrightarrow> node_at (update_dir f ps d) qs = node_at d qs"
proof (induction f ps d arbitrary: qs rule: update_dir.induct)
  case (2 f c cs m es)
  then show ?case by (cases qs) (auto simp: map_of_map_at split: option.splits dest: map_of_SomeD)
qed auto

text \<open>Below the directory only the entries that changed are different.\<close>

lemma node_at_update_below:
  assumes "node_at d ps = Some (Dir_Node m es)"
  shows "node_at (update_dir f ps d) (ps @ c # cs) = (case map_of (f es) c of None \<Rightarrow> None | Some x \<Rightarrow> node_at x cs)"
  using node_at_update_same [OF assms, of f] by (simp add: node_at_append)

subsection \<open>The workspace\<close>

record repo_ws =
  rp_root :: string
  rp_open :: bool
  rp_identity :: string
  rp_maxSearchFiles :: nat
  rp_maxSearchBytes :: nat

definition maxFileBytes :: nat where "maxFileBytes = 1048576"

definition filesystemIdentity :: "(string \<Rightarrow> string) \<Rightarrow> node \<Rightarrow> string" where
  "filesystemIdentity sha root =
     hex_encode (sha (digits_of (nm_dev (meta_of root)) @ '':'' @ digits_of (nm_ino (meta_of root))))"

text \<open>\<open>resolved\<close> is what \<open>EvalSymlinks\<close> gives and \<open>opened\<close> the directory that is open then.\<close>

definition repo_New :: "(string \<Rightarrow> string) \<Rightarrow> string option \<Rightarrow> node option \<Rightarrow> string \<Rightarrow> repo_ws option" where
  "repo_New sha resolved opened root =
    (if root = [] \<or> \<not> is_abs root then None
     else (case resolved of
             None \<Rightarrow> None
           | Some canonical \<Rightarrow>
               if containsGitDirectory canonical then None
               else (case opened of
                       None \<Rightarrow> None
                     | Some n \<Rightarrow>
                         if \<not> is_dir_node n then None
                         else Some \<lparr>rp_root = clean canonical, rp_open = True, rp_identity = filesystemIdentity sha n,
                                    rp_maxSearchFiles = 10000, rp_maxSearchBytes = 67108864\<rparr>)))"

definition repo_Close :: "repo_ws \<Rightarrow> repo_ws" where
  "repo_Close w = w\<lparr>rp_open := False\<rparr>"

definition DuplicateRoot :: "repo_ws \<Rightarrow> bool \<Rightarrow> bool" where
  "DuplicateRoot w dup_ok \<longleftrightarrow> rp_open w \<and> dup_ok"

text \<open>One \<open>openat\<close> without following a link; \<open>directory\<close> is the flag \<open>O_DIRECTORY\<close>.\<close>

definition open_at :: "bool \<Rightarrow> node \<Rightarrow> string \<Rightarrow> node option" where
  "open_at directory dir name =
    (case dir of
       Dir_Node _ es \<Rightarrow>
         (case map_of es name of
            None \<Rightarrow> None
          | Some n \<Rightarrow>
              if is_symlink_node n \<or> (directory \<and> \<not> is_dir_node n) \<or> \<not> nm_opens (meta_of n) then None else Some n)
     | _ \<Rightarrow> None)"

fun open_components :: "nat \<Rightarrow> node \<Rightarrow> string list \<Rightarrow> node option" where
  "open_components rootDev current [] = Some current"
| "open_components rootDev current (c # cs) =
    (case open_at (cs \<noteq> []) current c of
       None \<Rightarrow> None
     | Some n \<Rightarrow> if nm_dev (meta_of n) \<noteq> rootDev then None else open_components rootDev n cs)"

definition openExistingRelative :: "repo_ws \<Rightarrow> node \<Rightarrow> string \<Rightarrow> bool \<Rightarrow> (node \<times> string) option" where
  "openExistingRelative w disk input allowRoot =
    (case cleanRelativePath input of
       None \<Rightarrow> None
     | Some p \<Rightarrow>
         if (\<not> allowRoot \<and> p = ''.'') \<or> isUnavailable p then None
         else if \<not> rp_open w then None
         else if \<not> nm_opens (meta_of disk) then None
         else if p = ''.'' then Some (disk, ''.'')
         else map_option (\<lambda>n. (n, p)) (open_components (nm_dev (meta_of disk)) disk (split_on slash p)))"

definition readTextOpenFile :: "node \<Rightarrow> string option" where
  "readTextOpenFile n =
    (case n of
       Regular_Node _ content \<Rightarrow>
         if maxFileBytes < length content \<or> \<not> utf8_valid content \<or> NUL \<in> set content then None else Some content
     | _ \<Rightarrow> None)"

definition repo_Read :: "repo_ws \<Rightarrow> node \<Rightarrow> string \<Rightarrow> (string \<times> string) option" where
  "repo_Read w disk p =
    (case openExistingRelative w disk p False of
       None \<Rightarrow> None
     | Some (file, relativePath) \<Rightarrow> map_option (\<lambda>content. (relativePath, content)) (readTextOpenFile file))"

subsection \<open>What is opened\<close>

lemma open_at_Some:
  "open_at b dir name = Some n \<longleftrightarrow>
     (\<exists>m es. dir = Dir_Node m es \<and> map_of es name = Some n) \<and> \<not> is_symlink_node n \<and> (b \<longrightarrow> is_dir_node n) \<and> nm_opens (meta_of n)"
  by (cases dir) (auto simp: open_at_def split: option.splits)

lemma open_components_node:
  "open_components dv d cs = Some n \<Longrightarrow> node_at d cs = Some n"
  by (induction dv d cs rule: open_components.induct) (auto simp: open_at_Some split: option.splits if_splits)

text \<open>On the way nothing is a link and nothing is on another device.\<close>

lemma open_components_way:
  "open_components dv d cs = Some n \<Longrightarrow> ps \<noteq> [] \<Longrightarrow> prefix ps cs \<Longrightarrow>
     \<exists>x. node_at d ps = Some x \<and> nm_dev (meta_of x) = dv \<and> \<not> is_symlink_node x"
proof (induction dv d cs arbitrary: ps rule: open_components.induct)
  case (2 dv d c cs)
  from "2.prems"(1) obtain x where x: "open_at (cs \<noteq> []) d c = Some x" "nm_dev (meta_of x) = dv" "open_components dv x cs = Some n"
    by (auto split: option.splits if_splits)
  obtain qs where ps: "ps = c # qs" "prefix qs cs" using "2.prems"(2,3) by (cases ps) auto
  obtain m es where d: "d = Dir_Node m es" "map_of es c = Some x" and nl: "\<not> is_symlink_node x"
    using x(1) by (auto simp: open_at_Some)
  show ?case
  proof (cases "qs = []")
    case True
    then show ?thesis using ps d x(2) nl by simp
  next
    case False
    show ?thesis using "2.IH" [OF x(1) _ x(3) False ps(2)] x(2) ps(1) d by auto
  qed
qed simp

lemma openExisting_cases:
  assumes "openExistingRelative w disk input allowRoot = Some (n, p)"
  shows "cleanRelativePath input = Some p \<and> \<not> isUnavailable p \<and> rp_open w
    \<and> (p = ''.'' \<and> allowRoot \<and> n = disk
       \<or> p \<noteq> ''.'' \<and> open_components (nm_dev (meta_of disk)) disk (split_on slash p) = Some n)"
  using assms by (auto simp: openExistingRelative_def split: option.splits if_splits)

text \<open>A read stays inside the root. What reading gives is the text of the regular file at the cleaned path,
  below the root, with no symbolic link and no other device on the way, under no protected or generated
  name, valid UTF-8 without null bytes and at most one megabyte.\<close>

theorem read_confined:
  assumes "repo_Read w disk input = Some (p, content)"
  shows "cleanRelativePath input = Some p \<and> \<not> isUnavailable p \<and> list_all plain_comp (split_on slash p)
    \<and> (\<exists>m. node_at disk (split_on slash p) = Some (Regular_Node m content))
    \<and> (\<forall>ps. ps \<noteq> [] \<longrightarrow> prefix ps (split_on slash p) \<longrightarrow>
         (\<exists>x. node_at disk ps = Some x \<and> nm_dev (meta_of x) = nm_dev (meta_of disk) \<and> \<not> is_symlink_node x))
    \<and> utf8_valid content \<and> NUL \<notin> set content \<and> length content \<le> maxFileBytes"
proof -
  from assms obtain n where o: "openExistingRelative w disk input False = Some (n, p)" and t: "readTextOpenFile n = Some content"
    by (auto simp: repo_Read_def split: option.splits)
  obtain m where n: "n = Regular_Node m content" and ok: "utf8_valid content" "NUL \<notin> set content" "length content \<le> maxFileBytes"
    using t by (cases n) (auto simp: readTextOpenFile_def split: if_splits)
  have p: "cleanRelativePath input = Some p" "\<not> isUnavailable p" "p \<noteq> ''.''"
    and c: "open_components (nm_dev (meta_of disk)) disk (split_on slash p) = Some n"
    using openExisting_cases [OF o] by auto
  have plain: "list_all plain_comp (split_on slash p)" using cleanRelativePath_shape [OF p(1)] p(3) by metis
  have way: "\<forall>ps. ps \<noteq> [] \<longrightarrow> prefix ps (split_on slash p) \<longrightarrow>
      (\<exists>x. node_at disk ps = Some x \<and> nm_dev (meta_of x) = nm_dev (meta_of disk) \<and> \<not> is_symlink_node x)"
    using open_components_way [OF c] by blast
  show ?thesis using p(1,2) plain open_components_node [OF c] n way ok by blast
qed

lemma closed_repo_opens_nothing: "openExistingRelative (repo_Close w) disk p r = None"
  by (auto simp: openExistingRelative_def repo_Close_def split: option.splits)

end
