(* ===== verification/Patch_Text.thy ===== *)
theory Patch_Text
  imports Repo_Paths
begin

section \<open>Unified diffs (internal/repo/repo.go)\<close>

text \<open>
  Parsing a single-file unified diff and applying its hunks to a text. The theory shows that applying
  succeeds exactly when the old sides of the hunks stand in the file at their places, and then replaces
  them by the new sides and changes nothing else; that a printed patch is parsed back; and that the
  reversed patch restores the file.
\<close>

subsection \<open>Data\<close>

record patch_line =
  pl_kind :: char
  pl_text :: string

record hunk =
  hk_oldStart :: int
  hk_oldCount :: int
  hk_lines :: "patch_line list"

record patch =
  pt_path :: string
  pt_hunks :: "hunk list"

abbreviation minus_kind :: char where "minus_kind \<equiv> CHR ''-''"
abbreviation plus_kind :: char where "plus_kind \<equiv> CHR ''+''"
abbreviation space_kind :: char where "space_kind \<equiv> CHR '' ''"

subsection \<open>Parsing\<close>

definition strip_prefix :: "string \<Rightarrow> string \<Rightarrow> string option" where
  "strip_prefix p s = (if prefix p s then Some (drop (length p) s) else None)"

text \<open>The regular expression of a hunk header. The parts are digits between other characters, so the greedy
  match is the only one.\<close>

definition match_digits :: "string \<Rightarrow> (string \<times> string) option" where
  "match_digits s =
    (let d = takeWhile is_digit s in if d = [] then None else Some (d, dropWhile is_digit s))"

definition match_count :: "string \<Rightarrow> string \<times> string" where
  "match_count s =
    (case s of
       c # r \<Rightarrow> (if c = CHR '','' then (case match_digits r of Some (d, t) \<Rightarrow> (d, t) | None \<Rightarrow> ([], s)) else ([], s))
     | [] \<Rightarrow> ([], s))"

definition hunkHeader :: "string \<Rightarrow> (string \<times> string \<times> string \<times> string) option" where
  "hunkHeader s =
    (case strip_prefix ''@@ -'' s of
       None \<Rightarrow> None
     | Some s1 \<Rightarrow>
         (case match_digits s1 of
            None \<Rightarrow> None
          | Some (a, s2) \<Rightarrow>
              (case match_count s2 of
                 (b, s3) \<Rightarrow>
                   (case strip_prefix '' +'' s3 of
                      None \<Rightarrow> None
                    | Some s4 \<Rightarrow>
                        (case match_digits s4 of
                           None \<Rightarrow> None
                         | Some (c, s5) \<Rightarrow>
                             (case match_count s5 of
                                (d, s6) \<Rightarrow> if s6 = '' @@'' then Some (a, b, c, d) else None))))))"

definition hunkRange :: "string \<Rightarrow> string \<Rightarrow> (int \<times> int) option" where
  "hunkRange startText countText =
    (case parse_int64 startText of
       None \<Rightarrow> None
     | Some start \<Rightarrow>
         if start < 0 then None
         else if countText = [] then Some (start, 1)
         else (case parse_int64 countText of
                 None \<Rightarrow> None
               | Some count \<Rightarrow> if count < 0 then None else Some (start, count)))"

definition patchPath :: "string \<Rightarrow> string \<Rightarrow> string option" where
  "patchPath headerPath expected =
    (if contains_any headerPath [CHR 0x09, CR] then None
     else (case strip_prefix expected headerPath of
             None \<Rightarrow> None
           | Some p \<Rightarrow>
               (case cleanRelativePath p of
                  None \<Rightarrow> None
                | Some c \<Rightarrow> if c = ''.'' \<or> isUnavailable c then None else Some c)))"

definition valid_kind :: "char \<Rightarrow> bool" where
  "valid_kind k \<longleftrightarrow> k = space_kind \<or> k = plus_kind \<or> k = minus_kind"

text \<open>The lines of one hunk: up to the next header or the end.\<close>

fun hunk_body :: "string list \<Rightarrow> (patch_line list \<times> string list) option" where
  "hunk_body [] = Some ([], [])"
| "hunk_body (l # ls) =
    (if prefix ''@@ '' l then Some ([], l # ls)
     else (case l of
             [] \<Rightarrow> None
           | k # rest \<Rightarrow>
               if \<not> valid_kind k then None
               else (case hunk_body ls of
                       None \<Rightarrow> None
                     | Some (body, tail) \<Rightarrow> Some (\<lparr>pl_kind = k, pl_text = rest\<rparr> # body, tail))))"

lemma hunk_body_length: "hunk_body ls = Some (body, tail) \<Longrightarrow> length tail \<le> length ls"
  by (induction ls arbitrary: body tail) (auto split: if_splits list.splits option.splits)

definition old_lines :: "patch_line list \<Rightarrow> string list" where
  "old_lines ls = map pl_text (filter (\<lambda>l. pl_kind l \<noteq> plus_kind) ls)"

definition new_lines :: "patch_line list \<Rightarrow> string list" where
  "new_lines ls = map pl_text (filter (\<lambda>l. pl_kind l \<noteq> minus_kind) ls)"

function parse_hunks :: "string list \<Rightarrow> hunk list option" where
  "parse_hunks [] = Some []"
| "parse_hunks (l # ls) =
    (case hunkHeader l of
       None \<Rightarrow> None
     | Some (a, b, c, d) \<Rightarrow>
         (case (hunkRange a b, hunkRange c d) of
            (Some (oldStart, oldCount), Some (newStart, newCount)) \<Rightarrow>
              if oldStart = 0 \<or> newStart = 0 then None
              else (case hunk_body ls of
                      None \<Rightarrow> None
                    | Some (body, tail) \<Rightarrow>
                        if body = [] \<or> int (length (old_lines body)) \<noteq> oldCount \<or> int (length (new_lines body)) \<noteq> newCount
                        then None
                        else (case parse_hunks tail of
                                None \<Rightarrow> None
                              | Some hs \<Rightarrow> Some (\<lparr>hk_oldStart = oldStart, hk_oldCount = oldCount, hk_lines = body\<rparr> # hs)))
          | _ \<Rightarrow> None))"
  by pat_completeness auto
termination by (relation "measure length") (auto dest: hunk_body_length)

text \<open>The text without its last line break, in lines.\<close>

definition text_lines :: "string \<Rightarrow> string list" where
  "text_lines s = split_on LF (butlast s)"

definition ends_in_newline :: "string \<Rightarrow> bool" where
  "ends_in_newline s \<longleftrightarrow> s \<noteq> [] \<and> last s = LF"

definition parsePatch :: "string \<Rightarrow> patch option" where
  "parsePatch input =
    (if \<not> ends_in_newline input then None
     else (case text_lines input of
             l0 # l1 # rest \<Rightarrow>
               (if rest = [] then None
                else (case (strip_prefix ''--- '' l0, strip_prefix ''+++ '' l1) of
                        (Some h0, Some h1) \<Rightarrow>
                          (case (patchPath h0 ''a/'', patchPath h1 ''b/'') of
                             (Some oldPath, Some newPath) \<Rightarrow>
                               if oldPath \<noteq> newPath then None
                               else map_option (\<lambda>hs. \<lparr>pt_path = oldPath, pt_hunks = hs\<rparr>) (parse_hunks rest)
                           | _ \<Rightarrow> None)
                      | _ \<Rightarrow> None))
           | _ \<Rightarrow> None))"

subsection \<open>Applying\<close>

text \<open>The loop over the lines of a hunk: \<open>position\<close> in the original lines, the lines so far and the number of
  old lines.\<close>

fun apply_lines :: "string list \<Rightarrow> patch_line list \<Rightarrow> nat \<Rightarrow> string list \<Rightarrow> nat \<Rightarrow> (nat \<times> string list \<times> nat) option" where
  "apply_lines original [] position updated oldLines = Some (position, updated, oldLines)"
| "apply_lines original (l # ls) position updated oldLines =
    (if pl_kind l \<noteq> plus_kind \<and> (length original \<le> position \<or> original ! position \<noteq> pl_text l) then None
     else (let p' = (if pl_kind l \<noteq> plus_kind then position + 1 else position);
               n' = (if pl_kind l \<noteq> plus_kind then oldLines + 1 else oldLines);
               u' = (if pl_kind l \<noteq> minus_kind then updated @ [pl_text l] else updated)
           in apply_lines original ls p' u' n'))"

fun apply_loop :: "string list \<Rightarrow> hunk list \<Rightarrow> nat \<Rightarrow> string list \<Rightarrow> string list option" where
  "apply_loop original [] cursor updated = Some (updated @ drop cursor original)"
| "apply_loop original (h # hs) cursor updated =
    (let start = hk_oldStart h - 1
     in if start < int cursor \<or> int (length original) < start then None
        else (case apply_lines original (hk_lines h) (nat start)
                (updated @ drop cursor (take (nat start) original)) 0 of
                None \<Rightarrow> None
              | Some (position, updated', oldLines) \<Rightarrow>
                  if int oldLines \<noteq> hk_oldCount h then None else apply_loop original hs position updated'))"

definition join_lines :: "string list \<Rightarrow> string" where
  "join_lines ls = join_with [LF] ls @ [LF]"

definition applyHunks :: "string \<Rightarrow> hunk list \<Rightarrow> string option" where
  "applyHunks content hunks =
    (if \<not> ends_in_newline content then None
     else map_option join_lines (apply_loop (text_lines content) hunks 0 []))"

subsection \<open>What applying means\<close>

text \<open>The reference: the old text is cut at the places the hunks name, the old side of each hunk stands there,
  and the new text has the new sides instead; \<open>c\<close> is the number of lines before the rest.\<close>

inductive spliced :: "nat \<Rightarrow> hunk list \<Rightarrow> string list \<Rightarrow> string list \<Rightarrow> bool" where
  spliced_done: "spliced c [] rest rest"
| spliced_hunk: "int c + int (length gap) = hk_oldStart h - 1 \<Longrightarrow> int (length (old_lines (hk_lines h))) = hk_oldCount h \<Longrightarrow>
     spliced (c + length gap + length (old_lines (hk_lines h))) hs tail tail' \<Longrightarrow>
     spliced c (h # hs) (gap @ old_lines (hk_lines h) @ tail) (gap @ new_lines (hk_lines h) @ tail')"

inductive_cases spliced_NilE: "spliced c [] a b"
inductive_cases spliced_ConsE: "spliced c (h # hs) a b"
inductive_simps spliced_Nil [simp]: "spliced c [] a b"

lemma old_lines_simps [simp]:
  "old_lines [] = []" "old_lines (l # ls) = (if pl_kind l = plus_kind then [] else [pl_text l]) @ old_lines ls"
  "new_lines [] = []" "new_lines (l # ls) = (if pl_kind l = minus_kind then [] else [pl_text l]) @ new_lines ls"
  by (simp_all add: old_lines_def new_lines_def)

lemma prefix_drop_Cons:
  "prefix (x # xs) (drop p ys) \<longleftrightarrow> p < length ys \<and> ys ! p = x \<and> prefix xs (drop (p + 1) ys)"
proof (cases "p < length ys")
  case True
  then have "drop p ys = ys ! p # drop (p + 1) ys" by (simp add: Cons_nth_drop_Suc)
  then show ?thesis using True by auto
qed simp

lemma apply_lines_spec:
  "apply_lines original ls position updated n =
    (if prefix (old_lines ls) (drop position original)
     then Some (position + length (old_lines ls), updated @ new_lines ls, n + length (old_lines ls)) else None)"
  by (induction original ls position updated n rule: apply_lines.induct)
     (auto simp: Let_def prefix_drop_Cons simp del: drop_Suc)

lemma apply_loop_spec:
  "c \<le> length original \<Longrightarrow>
     apply_loop original hs c updated = Some res \<longleftrightarrow> (\<exists>new. spliced c hs (drop c original) new \<and> res = updated @ new)"
proof (induction hs arbitrary: c updated)
  case Nil
  then show ?case by auto
next
  case (Cons h hs)
  let ?s = "nat (hk_oldStart h - 1)"
  let ?old = "old_lines (hk_lines h)"
  show ?case
  proof (cases "hk_oldStart h - 1 < int c \<or> int (length original) < hk_oldStart h - 1")
    case True
    have "\<not> spliced c (h # hs) (drop c original) new" for new
    proof
      assume "spliced c (h # hs) (drop c original) new"
      then obtain gap tail where "int c + int (length gap) = hk_oldStart h - 1" "drop c original = gap @ ?old @ tail"
        by (rule spliced_ConsE) blast
      moreover from this(2) have "length gap \<le> length original - c" by (metis length_append length_drop le_add1)
      ultimately show False using True Cons.prems by linarith
    qed
    then show ?thesis using True by simp
  next
    case False
    then have s: "c \<le> ?s" "?s \<le> length original" "hk_oldStart h - 1 = int ?s" by auto
    let ?gap = "drop c (take ?s original)"
    have gap: "drop c original = ?gap @ drop ?s original" "length ?gap = ?s - c"
      using s by (simp_all add: drop_take) (metis append_take_drop_id drop_drop le_add_diff_inverse2 drop_take)
    have step: "apply_loop original (h # hs) c updated =
      (if prefix ?old (drop ?s original) \<and> int (length ?old) = hk_oldCount h
       then apply_loop original hs (?s + length ?old) (updated @ ?gap @ new_lines (hk_lines h)) else None)"
      using False by (simp add: Let_def apply_lines_spec)
    show ?thesis
    proof (cases "prefix ?old (drop ?s original) \<and> int (length ?old) = hk_oldCount h")
      case True
      then obtain tail where tail: "drop ?s original = ?old @ tail" by (auto simp: prefix_def)
      have le: "?s + length ?old \<le> length original"
        using arg_cong [OF tail, of length] s(2) by simp
      have rest: "drop (?s + length ?old) original = tail" using tail by (metis drop_drop append_eq_conv_conj add.commute)
      have "(\<exists>new. spliced (?s + length ?old) hs tail new \<and> res = (updated @ ?gap @ new_lines (hk_lines h)) @ new)
          \<longleftrightarrow> (\<exists>new. spliced c (h # hs) (drop c original) new \<and> res = updated @ new)"
      proof
        assume "\<exists>new. spliced (?s + length ?old) hs tail new \<and> res = (updated @ ?gap @ new_lines (hk_lines h)) @ new"
        then obtain new where n: "spliced (?s + length ?old) hs tail new" "res = (updated @ ?gap @ new_lines (hk_lines h)) @ new"
          by blast
        have "spliced c (h # hs) (?gap @ ?old @ tail) (?gap @ new_lines (hk_lines h) @ new)"
          by (rule spliced_hunk) (use True n(1) gap(2) s in auto)
        then show "\<exists>new. spliced c (h # hs) (drop c original) new \<and> res = updated @ new"
          using n(2) gap(1) tail by auto
      next
        assume "\<exists>new. spliced c (h # hs) (drop c original) new \<and> res = updated @ new"
        then obtain new where n: "spliced c (h # hs) (drop c original) new" "res = updated @ new" by blast
        from n(1) obtain g t t' where g: "int c + int (length g) = hk_oldStart h - 1" "drop c original = g @ ?old @ t"
          "new = g @ new_lines (hk_lines h) @ t'" "spliced (c + length g + length ?old) hs t t'"
          by (rule spliced_ConsE) blast
        have len: "length g = length ?gap" using g(1) s gap(2) by linarith
        then have "g = ?gap" "?old @ t = drop ?s original" using g(2) gap(1) by (metis append_eq_append_conv)+
        then have "t = tail" "c + length g = ?s" using tail g(1) s by auto
        then show "\<exists>new. spliced (?s + length ?old) hs tail new \<and> res = (updated @ ?gap @ new_lines (hk_lines h)) @ new"
          using g n(2) \<open>g = ?gap\<close> by auto
      qed
      then show ?thesis using True step Cons.IH [OF le] rest by simp
    next
      case no: False
      have "\<not> spliced c (h # hs) (drop c original) new" for new
      proof
        assume "spliced c (h # hs) (drop c original) new"
        then obtain g t where g: "int c + int (length g) = hk_oldStart h - 1" "int (length ?old) = hk_oldCount h"
          "drop c original = g @ ?old @ t"
          by (rule spliced_ConsE) blast
        have "length g = length ?gap" using g(1) s gap(2) by linarith
        then have "?old @ t = drop ?s original" using g(3) gap(1) by (metis append_eq_append_conv)
        then have "prefix ?old (drop ?s original)" by (metis prefixI)
        then show False using no g(2) by simp
      qed
      moreover have "apply_loop original (h # hs) c updated = None" unfolding step using no by (rule if_not_P)
      ultimately show ?thesis by simp
    qed
  qed
qed

text \<open>C21: A patch is applied exactly. Applying hunks to a text answers with a text if and only if the old side of
  every hunk stands in the text at the line its header names, with the count it names and after the hunk
  before; and the answer has the new sides in their place and every other line unchanged.\<close>

theorem apply_patch_exact:
  "applyHunks content hunks = Some out \<longleftrightarrow>
     ends_in_newline content \<and> (\<exists>new. spliced 0 hunks (text_lines content) new \<and> out = join_lines new)"
  using apply_loop_spec [of 0 "text_lines content" hunks "[]"] by (auto simp: applyHunks_def)

subsection \<open>The reversed patch\<close>

definition reverse_kind :: "char \<Rightarrow> char" where
  "reverse_kind k = (if k = plus_kind then minus_kind else if k = minus_kind then plus_kind else k)"

definition reverse_line :: "patch_line \<Rightarrow> patch_line" where
  "reverse_line l = l\<lparr>pl_kind := reverse_kind (pl_kind l)\<rparr>"

text \<open>\<open>off\<close> is how much longer the new text is before the hunk.\<close>

fun reverse_hunks :: "int \<Rightarrow> hunk list \<Rightarrow> hunk list" where
  "reverse_hunks off [] = []"
| "reverse_hunks off (h # hs) =
    \<lparr>hk_oldStart = hk_oldStart h + off, hk_oldCount = int (length (new_lines (hk_lines h))),
     hk_lines = map reverse_line (hk_lines h)\<rparr>
    # reverse_hunks (off + int (length (new_lines (hk_lines h))) - int (length (old_lines (hk_lines h)))) hs"

lemma reverse_sides [simp]:
  "old_lines (map reverse_line ls) = new_lines ls" "new_lines (map reverse_line ls) = old_lines ls"
  by (induction ls) (auto simp: reverse_line_def reverse_kind_def)

lemma spliced_reverse:
  "spliced c hs a b \<Longrightarrow> 0 \<le> int c + off \<Longrightarrow> spliced (nat (int c + off)) (reverse_hunks off hs) b a"
proof (induction arbitrary: off rule: spliced.induct)
  case (spliced_hunk c gap h hs tail tail')
  let ?old = "old_lines (hk_lines h)" and ?new = "new_lines (hk_lines h)"
  let ?r = "\<lparr>hk_oldStart = hk_oldStart h + off, hk_oldCount = int (length ?new), hk_lines = map reverse_line (hk_lines h)\<rparr>"
  let ?off = "off + int (length ?new) - int (length ?old)"
  have pos: "0 \<le> int (c + length gap + length ?old) + ?off" using spliced_hunk.prems by simp
  have eq: "nat (int (c + length gap + length ?old) + ?off) = nat (int c + off) + length gap + length ?new"
    using spliced_hunk.prems by simp
  have "spliced (nat (int c + off) + length gap + length (old_lines (hk_lines ?r))) (reverse_hunks ?off hs) tail' tail"
    using spliced_hunk.IH [OF pos] eq by simp
  then have "spliced (nat (int c + off)) (?r # reverse_hunks ?off hs) (gap @ old_lines (hk_lines ?r) @ tail')
      (gap @ new_lines (hk_lines ?r) @ tail)"
    by (intro spliced.spliced_hunk) (use spliced_hunk.prems spliced_hunk.hyps(1) in auto)
  then show ?case by simp
qed simp

definition plain_texts :: "hunk list \<Rightarrow> bool" where
  "plain_texts hs \<longleftrightarrow> list_all (\<lambda>h. list_all (\<lambda>l. LF \<notin> set (pl_text l)) (hk_lines h)) hs"

lemma spliced_no_break:
  "spliced c hs a b \<Longrightarrow> plain_texts hs \<Longrightarrow> \<forall>l \<in> set a. LF \<notin> set l \<Longrightarrow> \<forall>l \<in> set b. LF \<notin> set l"
  by (induction rule: spliced.induct) (auto simp: plain_texts_def list_all_iff new_lines_def)

lemma text_lines_join:
  assumes "ls \<noteq> []" and "\<forall>l \<in> set ls. LF \<notin> set l"
  shows "text_lines (join_lines ls) = ls" and "ends_in_newline (join_lines ls)"
proof -
  show "text_lines (join_lines ls) = ls"
    unfolding text_lines_def join_lines_def butlast_snoc by (rule split_join) (use assms in auto)
  show "ends_in_newline (join_lines ls)" by (simp add: ends_in_newline_def join_lines_def)
qed

lemma join_text_lines: "ends_in_newline s \<Longrightarrow> join_lines (text_lines s) = s"
  unfolding join_lines_def text_lines_def join_split ends_in_newline_def by (metis append_butlast_last_id)

lemma text_lines_plain: "\<forall>l \<in> set (text_lines s). LF \<notin> set l"
  by (auto simp: text_lines_def dest: split_on_no_sep)

text \<open>A patch can be undone. When a patch whose lines hold no line break turns a text into another that is
  not a single line break, applying the reversed patch to that gives the first text back.\<close>

theorem reverse_patch_restores:
  assumes "applyHunks content hunks = Some out" and "plain_texts hunks" and "out \<noteq> [LF]"
  shows "applyHunks out (reverse_hunks 0 hunks) = Some content"
proof -
  from assms(1) obtain new where c: "ends_in_newline content" and s: "spliced 0 hunks (text_lines content) new"
    and out: "out = join_lines new" unfolding apply_patch_exact by blast
  have ne: "new \<noteq> []" using assms(3) out by (auto simp: join_lines_def)
  have plain: "\<forall>l \<in> set new. LF \<notin> set l" by (rule spliced_no_break [OF s assms(2) text_lines_plain])
  have "spliced 0 (reverse_hunks 0 hunks) new (text_lines content)" using spliced_reverse [OF s, of 0] by simp
  then show ?thesis
    unfolding apply_patch_exact using text_lines_join [OF ne plain] join_text_lines [OF c] out by auto
qed

subsection \<open>Printing and parsing\<close>

definition print_range :: "int \<Rightarrow> int \<Rightarrow> string" where
  "print_range start count = format_int start @ '','' @ format_int count"

definition print_header :: "int \<Rightarrow> hunk \<Rightarrow> string" where
  "print_header newStart h =
     ''@@ -'' @ print_range (hk_oldStart h) (hk_oldCount h) @ '' +''
       @ print_range newStart (int (length (new_lines (hk_lines h)))) @ '' @@''"

fun print_hunks :: "int \<Rightarrow> hunk list \<Rightarrow> string list" where
  "print_hunks off [] = []"
| "print_hunks off (h # hs) =
    print_header (max 1 (hk_oldStart h + off)) h # map (\<lambda>l. pl_kind l # pl_text l) (hk_lines h)
      @ print_hunks (off + int (length (new_lines (hk_lines h))) - hk_oldCount h) hs"

definition print_patch :: "patch \<Rightarrow> string" where
  "print_patch p = join_lines ((''--- a/'' @ pt_path p) # (''+++ b/'' @ pt_path p) # print_hunks 0 (pt_hunks p))"

text \<open>Hunks that can be written: with lines, numbers of 64 bits and no line break inside a line.\<close>

definition hunk_ok :: "int \<Rightarrow> hunk \<Rightarrow> bool" where
  "hunk_ok off h \<longleftrightarrow> 1 \<le> hk_oldStart h \<and> hk_oldStart h \<le> int64_max \<and> max 1 (hk_oldStart h + off) \<le> int64_max
     \<and> hk_lines h \<noteq> [] \<and> hk_oldCount h = int (length (old_lines (hk_lines h))) \<and> hk_oldCount h \<le> int64_max
     \<and> int (length (new_lines (hk_lines h))) \<le> int64_max
     \<and> list_all (\<lambda>l. valid_kind (pl_kind l) \<and> LF \<notin> set (pl_text l)) (hk_lines h)"

fun hunks_ok :: "int \<Rightarrow> hunk list \<Rightarrow> bool" where
  "hunks_ok off [] = True"
| "hunks_ok off (h # hs) \<longleftrightarrow> hunk_ok off h
     \<and> hunks_ok (off + int (length (new_lines (hk_lines h))) - hk_oldCount h) hs"

definition patch_ok :: "patch \<Rightarrow> bool" where
  "patch_ok p \<longleftrightarrow> cleanRelativePath (pt_path p) = Some (pt_path p) \<and> pt_path p \<noteq> ''.'' \<and> \<not> isUnavailable (pt_path p)
     \<and> \<not> contains_any (pt_path p) [CHR 0x09, CR, LF] \<and> pt_hunks p \<noteq> [] \<and> hunks_ok 0 (pt_hunks p)"

lemma strip_prefix_append [simp]: "strip_prefix p (p @ s) = Some s"
  by (simp add: strip_prefix_def)

lemma format_nat: "0 \<le> i \<Longrightarrow> format_int i = digits_of (nat i)"
  by (simp add: format_int_def)

lemma match_format:
  assumes "0 \<le> i" and "s = [] \<or> \<not> is_digit (hd s)"
  shows "match_digits (format_int i @ s) = Some (format_int i, s)"
proof -
  have d: "\<forall>c \<in> set (format_int i). is_digit c" and ne: "format_int i \<noteq> []"
    using assms(1) digits_of_digits [of "nat i"] by (auto simp: format_nat list_all_iff)
  have "takeWhile is_digit s = []" "dropWhile is_digit s = s" using assms(2) by (cases s; auto)+
  then have "takeWhile is_digit (format_int i @ s) = format_int i" "dropWhile is_digit (format_int i @ s) = s"
    using d by (simp_all add: takeWhile_append2 dropWhile_append2)
  then show ?thesis using ne by (simp add: match_digits_def)
qed

lemma match_count_format:
  "0 \<le> i \<Longrightarrow> s = [] \<or> \<not> is_digit (hd s) \<Longrightarrow> match_count ('','' @ format_int i @ s) = (format_int i, s)"
  by (simp add: match_count_def match_format)

lemma not_digits [simp]: "\<not> is_digit (CHR '','')" "\<not> is_digit (CHR '' '')"
  by code_simp+

lemma hunkHeader_print:
  assumes "0 \<le> a" and "0 \<le> b" and "0 \<le> c" and "0 \<le> d"
  shows "hunkHeader (''@@ -'' @ print_range a b @ '' +'' @ print_range c d @ '' @@'')
    = Some (format_int a, format_int b, format_int c, format_int d)"
proof -
  have 1: "match_digits (print_range a b @ '' +'' @ print_range c d @ '' @@'')
      = Some (format_int a, '','' @ format_int b @ '' +'' @ print_range c d @ '' @@'')"
    using match_format [OF assms(1), of "'','' @ format_int b @ '' +'' @ print_range c d @ '' @@''"]
    by (simp add: print_range_def)
  have 2: "match_count ('','' @ format_int b @ '' +'' @ print_range c d @ '' @@'')
      = (format_int b, '' +'' @ print_range c d @ '' @@'')"
    using match_count_format [OF assms(2), of "'' +'' @ print_range c d @ '' @@''"] by simp
  have 3: "match_digits (print_range c d @ '' @@'') = Some (format_int c, '','' @ format_int d @ '' @@'')"
    using match_format [OF assms(3), of "'','' @ format_int d @ '' @@''"] by (simp add: print_range_def)
  have 4: "match_count ('','' @ format_int d @ '' @@'') = (format_int d, '' @@'')"
    using match_count_format [OF assms(4), of "'' @@''"] by simp
  show ?thesis
    unfolding hunkHeader_def strip_prefix_append option.case 1 prod.case 2 3 4 by simp
qed

lemma hunkRange_format:
  "0 \<le> a \<Longrightarrow> a \<le> int64_max \<Longrightarrow> 0 \<le> b \<Longrightarrow> b \<le> int64_max \<Longrightarrow> hunkRange (format_int a) (format_int b) = Some (a, b)"
  by (simp add: hunkRange_def parse_format_int) (simp add: format_nat)

lemma hunk_body_print:
  assumes "list_all (\<lambda>l. valid_kind (pl_kind l)) ls" and "tail = [] \<or> prefix ''@@ '' (hd tail)"
  shows "hunk_body (map (\<lambda>l. pl_kind l # pl_text l) ls @ tail) = Some (ls, tail)"
  using assms(1)
proof (induction ls)
  case Nil
  then show ?case using assms(2) by (cases tail) auto
next
  case (Cons l ls)
  then have "pl_kind l \<noteq> CHR ''@''" by (auto simp: valid_kind_def)
  then show ?case using Cons by simp
qed

lemma parse_hunks_print: "hunks_ok off hs \<Longrightarrow> parse_hunks (print_hunks off hs) = Some hs"
proof (induction off hs rule: print_hunks.induct)
  case (2 off h hs)
  let ?off = "off + int (length (new_lines (hk_lines h))) - hk_oldCount h"
  have ok: "hunk_ok off h" and rest: "parse_hunks (print_hunks ?off hs) = Some hs" using 2 by simp_all
  have hd: "print_hunks ?off hs = [] \<or> prefix ''@@ '' (hd (print_hunks ?off hs))"
    by (cases hs) (auto simp: print_header_def)
  have body: "hunk_body (map (\<lambda>l. pl_kind l # pl_text l) (hk_lines h) @ print_hunks ?off hs)
      = Some (hk_lines h, print_hunks ?off hs)"
    by (rule hunk_body_print [OF _ hd]) (use ok in \<open>auto simp: hunk_ok_def list_all_iff\<close>)
  have head: "hunkHeader (print_header (max 1 (hk_oldStart h + off)) h)
      = Some (format_int (hk_oldStart h), format_int (hk_oldCount h), format_int (max 1 (hk_oldStart h + off)),
              format_int (int (length (new_lines (hk_lines h)))))"
    unfolding print_header_def by (rule hunkHeader_print) (use ok in \<open>auto simp: hunk_ok_def\<close>)
  have r1: "hunkRange (format_int (hk_oldStart h)) (format_int (hk_oldCount h)) = Some (hk_oldStart h, hk_oldCount h)"
    and r2: "hunkRange (format_int (max 1 (hk_oldStart h + off))) (format_int (int (length (new_lines (hk_lines h)))))
      = Some (max 1 (hk_oldStart h + off), int (length (new_lines (hk_lines h))))"
    by (rule hunkRange_format; use ok in \<open>simp add: hunk_ok_def\<close>)+
  have nonzero: "\<not> (hk_oldStart h = 0 \<or> max 1 (hk_oldStart h + off) = 0)" using ok by (auto simp: hunk_ok_def)
  have counts: "\<not> (hk_lines h = [] \<or> int (length (old_lines (hk_lines h))) \<noteq> hk_oldCount h
      \<or> int (length (new_lines (hk_lines h))) \<noteq> int (length (new_lines (hk_lines h))))"
    using ok by (auto simp: hunk_ok_def)
  show ?case
    unfolding print_hunks.simps parse_hunks.simps append_Cons head option.case prod.case r1 r2 body rest
      if_not_P [OF nonzero] if_not_P [OF counts] by simp
qed simp

text \<open>A printed patch is parsed back: for a path that may be patched and hunks with at least one line, numbers
  of 64 bits and no line break inside a line.\<close>

theorem parse_print_patch:
  assumes "patch_ok p"
  shows "parsePatch (print_patch p) = Some p"
proof -
  let ?ls = "(''--- a/'' @ pt_path p) # (''+++ b/'' @ pt_path p) # print_hunks 0 (pt_hunks p)"
  have digits: "LF \<notin> set (format_int i)" for i
    using digits_of_char [of LF "nat i"] digits_of_char [of LF "nat (- i)"] by (auto simp: format_int_def LF_def in_byte_range_def)
  have hunks: "\<forall>l \<in> set (print_hunks off hs). LF \<notin> set l" if "hunks_ok off hs" for off hs
    using that digits
    by (induction off hs rule: print_hunks.induct)
       (auto simp: print_header_def print_range_def hunk_ok_def list_all_iff valid_kind_def LF_def)
  have "LF \<notin> set (pt_path p)" using assms by (auto simp: patch_ok_def contains_any_iff)
  then have "\<forall>l \<in> set ?ls. LF \<notin> set l"
    using hunks [of 0 "pt_hunks p"] assms by (auto simp: patch_ok_def LF_def)
  then have lines: "text_lines (print_patch p) = ?ls" "ends_in_newline (print_patch p)"
    unfolding print_patch_def using text_lines_join [of ?ls] by auto
  have path: "patchPath (pre @ pt_path p) pre = Some (pt_path p)" if "pre = ''a/'' \<or> pre = ''b/''" for pre
  proof -
    have "\<not> contains_any (pre @ pt_path p) [CHR 0x09, CR]"
      using that assms by (auto simp: patch_ok_def contains_any_iff CR_def)
    then show ?thesis using assms by (simp add: patchPath_def patch_ok_def)
  qed
  have ne: "print_hunks 0 (pt_hunks p) \<noteq> []" using assms by (cases "pt_hunks p") (auto simp: patch_ok_def)
  have pre: "strip_prefix ''--- '' (''--- a/'' @ pt_path p) = Some (''a/'' @ pt_path p)"
    "strip_prefix ''+++ '' (''+++ b/'' @ pt_path p) = Some (''b/'' @ pt_path p)"
    by (simp_all add: strip_prefix_def)
  show ?thesis
    using lines ne pre path [of "''a/''"] path [of "''b/''"] parse_hunks_print [of 0 "pt_hunks p"] assms
    by (simp add: parsePatch_def patch_ok_def)
qed

subsection \<open>Patches that were parsed\<close>

lemma hunk_body_texts:
  "hunk_body ls = Some (body, tail) \<Longrightarrow> \<forall>l \<in> set ls. LF \<notin> set l
     \<Longrightarrow> list_all (\<lambda>l. LF \<notin> set (pl_text l)) body \<and> (\<forall>l \<in> set tail. LF \<notin> set l)"
proof (induction ls arbitrary: body tail)
  case (Cons l ls)
  then show ?case by (fastforce split: if_splits list.splits option.splits)
qed simp

lemma parse_hunks_plain:
  "parse_hunks ls = Some hs \<Longrightarrow> \<forall>l \<in> set ls. LF \<notin> set l \<Longrightarrow> plain_texts hs"
proof (induction ls arbitrary: hs rule: parse_hunks.induct)
  case (2 l ls)
  from "2.prems"(1) obtain a b c d oldStart oldCount newStart newCount body tail hs' where
    p: "hunkHeader l = Some (a, b, c, d)" "hunkRange a b = Some (oldStart, oldCount)" "hunkRange c d = Some (newStart, newCount)"
    "\<not> (oldStart = 0 \<or> newStart = 0)" "hunk_body ls = Some (body, tail)"
    "\<not> (body = [] \<or> int (length (old_lines body)) \<noteq> oldCount \<or> int (length (new_lines body)) \<noteq> newCount)"
    "parse_hunks tail = Some hs'"
    "hs = \<lparr>hk_oldStart = oldStart, hk_oldCount = oldCount, hk_lines = body\<rparr> # hs'"
    by (auto split: option.splits prod.splits if_splits)
  have t: "list_all (\<lambda>l. LF \<notin> set (pl_text l)) body" "\<forall>l \<in> set tail. LF \<notin> set l"
    using hunk_body_texts [OF p(5)] "2.prems"(2) by auto
  have "plain_texts hs'"
    by (rule "2.IH" [OF p(1) refl refl refl _ p(2) _ p(3) _ p(4) p(5) _ p(6) p(7) t(2)]) simp_all
  then show ?case using t(1) p(8) by (simp add: plain_texts_def)
qed (simp add: plain_texts_def)

lemma parsePatch_plain: "parsePatch input = Some p \<Longrightarrow> plain_texts (pt_hunks p)"
proof -
  assume "parsePatch input = Some p"
  then obtain l0 l1 rest where l: "text_lines input = l0 # l1 # rest" and h: "parse_hunks rest = Some (pt_hunks p)"
    by (auto simp: parsePatch_def split: if_splits list.splits option.splits)
  show ?thesis by (rule parse_hunks_plain [OF h]) (use text_lines_plain [of input] l in auto)
qed

text \<open>The path of a parsed patch is one that may be patched.\<close>

lemma parsePatch_path:
  "parsePatch input = Some p \<Longrightarrow>
     (\<exists>h. cleanRelativePath h = Some (pt_path p)) \<and> pt_path p \<noteq> ''.'' \<and> \<not> isUnavailable (pt_path p)"
  by (auto simp: parsePatch_def patchPath_def split: if_splits list.splits option.splits)

text \<open>Unified diffs number an insertion with no old line by the line before it: \<open>-2,0\<close> inserts after line 2,
  where \<open>patch\<close> and \<open>git apply\<close> put it. The code inserts before line 2; and an insertion at the top, \<open>-0,0\<close>,
  is refused.\<close>

definition insert_after_2 :: string where
  "insert_after_2 = ''--- a/f'' @ [LF] @ ''+++ b/f'' @ [LF] @ ''@@ -2,0 +3 @@'' @ [LF] @ ''+x'' @ [LF]"

lemma insertion_one_line_early:
  "map_option (\<lambda>p. applyHunks (join_lines [''a'', ''b'', ''c'']) (pt_hunks p)) (parsePatch insert_after_2)
     = Some (Some (join_lines [''a'', ''x'', ''b'', ''c'']))"
  "parse_hunks [''@@ -0,0 +1 @@'', ''+x''] = None"
  by code_simp+

text \<open>Deleting every line leaves one empty line, which is no reversible change: the reversed patch does not apply.\<close>

lemma deleting_all_leaves_a_line:
  "applyHunks (join_lines [''a'']) [\<lparr>hk_oldStart = 1, hk_oldCount = 1, hk_lines = [\<lparr>pl_kind = minus_kind, pl_text = ''a''\<rparr>]\<rparr>]
     = Some [LF]"
  by code_simp

subsection \<open>Instances\<close>

definition demo_hunks :: "hunk list" where
  "demo_hunks =
    [\<lparr>hk_oldStart = 1, hk_oldCount = 2, hk_lines =
        [\<lparr>pl_kind = space_kind, pl_text = ''a''\<rparr>, \<lparr>pl_kind = minus_kind, pl_text = ''b''\<rparr>, \<lparr>pl_kind = plus_kind, pl_text = ''x''\<rparr>,
         \<lparr>pl_kind = plus_kind, pl_text = ''y''\<rparr>]\<rparr>,
     \<lparr>hk_oldStart = 4, hk_oldCount = 1, hk_lines = [\<lparr>pl_kind = minus_kind, pl_text = ''d''\<rparr>]\<rparr>]"

definition demo_patch :: patch where
  "demo_patch = \<lparr>pt_path = ''a/b.go'', pt_hunks = demo_hunks\<rparr>"

theorem reverse_patch_restores_witness:
  "applyHunks (join_lines [''a'', ''b'', ''c'', ''d'']) demo_hunks = Some (join_lines [''a'', ''x'', ''y'', ''c''])
   \<and> applyHunks (join_lines [''a'', ''x'', ''y'', ''c'']) (reverse_hunks 0 demo_hunks)
       = Some (join_lines [''a'', ''b'', ''c'', ''d''])"
proof -
  have a: "applyHunks (join_lines [''a'', ''b'', ''c'', ''d'']) demo_hunks = Some (join_lines [''a'', ''x'', ''y'', ''c''])"
    and p: "plain_texts demo_hunks" and n: "join_lines [''a'', ''x'', ''y'', ''c''] \<noteq> [LF]"
    by code_simp+
  show ?thesis using a reverse_patch_restores [OF a p n] by blast
qed

theorem parse_print_patch_witness:
  "parsePatch (print_patch demo_patch) = Some demo_patch \<and> length (print_patch demo_patch) = 73"
proof -
  have ok: "patch_ok demo_patch" and len: "length (print_patch demo_patch) = 73" by code_simp+
  show ?thesis using parse_print_patch [OF ok] len by blast
qed

end
