(* ===== verification/Repo_Edit.thy ===== *)
theory Repo_Edit
  imports Repo_Disk Patch_Text
begin

section \<open>Changing files below a repository root (internal/repo/repo.go)\<close>

text \<open>
  Applying a patch to a file, creating a file and deleting one. Another process can change the disk between
  the steps of an operation, so an operation takes the disk as it finds it at each of them: \<open>d0\<close> where it
  reads and stages, \<open>d1\<close> where it checks again and \<open>d2\<close> where it renames. The directory an operation works in
  is held by a descriptor: at every step it is the directory with the device and inode that was opened,
  wherever it is by then. The temporary name is random, and nobody else touches it. The theory shows what the
  operations change and that they change nothing else.
\<close>

subsection \<open>The parent of a file\<close>

definition dir_comps :: "string \<Rightarrow> string list" where
  "dir_comps p = (if p = ''.'' then [] else split_on slash p)"

definition repo_openParentDirectory :: "repo_ws \<Rightarrow> node \<Rightarrow> string \<Rightarrow> (string list \<times> string) option" where
  "repo_openParentDirectory w disk input =
    (case cleanRelativePath input of
       None \<Rightarrow> None
     | Some p \<Rightarrow>
         if p = ''.'' \<or> isUnavailable p then None
         else (let cs = split_on slash p;
                   parentPath = (if butlast cs = [] then ''.'' else join_with [slash] (butlast cs));
                   baseName = last cs
               in if baseName = [] \<or> baseName = ''.'' then None
                  else (case openExistingRelative w disk parentPath True of
                          None \<Rightarrow> None
                        | Some (n, q) \<Rightarrow> if is_dir_node n then Some (dir_comps q, baseName) else None)))"

subsection \<open>Staging\<close>

text \<open>What the system calls answer: the random bytes of each attempt, whether the temporary file can be
  created, written, changed in mode, synced and closed, whether it is renamed or linked, whether it is
  removed, whether a new name is removed again, and whether the directory is synced. The last two are the
  answers of the second look and of the rename in a directory that is no longer below the root.\<close>

record write_io =
  wi_random :: "string option list"
  wi_create :: bool
  wi_staged :: bool
  wi_ino :: nat
  wi_move :: bool
  wi_unlink :: bool
  wi_undo :: bool
  wi_sync :: bool
  wi_away_check :: bool
  wi_away_move :: bool

definition temp_name :: "string \<Rightarrow> string" where
  "temp_name r = ''.repoworker-'' @ hex_encode r"

fun tempAttempts :: "(string \<times> node) list \<Rightarrow> string option list \<Rightarrow> bool \<Rightarrow> string option" where
  "tempAttempts es [] create_ok = None"
| "tempAttempts es (None # rs) create_ok = None"
| "tempAttempts es (Some r # rs) create_ok =
    (if map_of es (temp_name r) \<noteq> None then tempAttempts es rs create_ok
     else if create_ok then Some (temp_name r) else None)"

definition createTempAt :: "(string \<times> node) list \<Rightarrow> string option list \<Rightarrow> bool \<Rightarrow> string option" where
  "createTempAt es rs create_ok = tempAttempts es (take 8 rs) create_ok"

lemma tempAttempts_name:
  "tempAttempts es rs ok = Some temp \<Longrightarrow> (\<exists>r. temp = temp_name r) \<and> map_of es temp = None"
  by (induction es rs ok rule: tempAttempts.induct) (auto split: if_splits)

lemma createTempAt_name:
  "createTempAt es rs ok = Some temp \<Longrightarrow> (\<exists>r. temp = temp_name r) \<and> map_of es temp = None"
  unfolding createTempAt_def by (rule tempAttempts_name)

fun entries_of :: "node option \<Rightarrow> (string \<times> node) list" where
  "entries_of (Some (Dir_Node _ es)) = es"
| "entries_of _ = []"

fun is_some_dir :: "node option \<Rightarrow> bool" where
  "is_some_dir (Some n) = is_dir_node n"
| "is_some_dir None = False"

definition staged_node :: "node \<Rightarrow> write_io \<Rightarrow> nat \<Rightarrow> string \<Rightarrow> node" where
  "staged_node disk io perm content =
     Regular_Node \<lparr>nm_dev = nm_dev (meta_of disk), nm_ino = wi_ino io, nm_perm = perm, nm_opens = True\<rparr> content"

definition sameFileIdentity :: "node_meta \<Rightarrow> node_meta \<Rightarrow> bool" where
  "sameFileIdentity left right \<longleftrightarrow> nm_dev left = nm_dev right \<and> nm_ino left = nm_ino right"

definition verifyPreimageAt :: "node \<Rightarrow> string \<Rightarrow> node_meta \<Rightarrow> string \<Rightarrow> bool" where
  "verifyPreimageAt dir baseName original originalContent =
    (case open_at False dir baseName of
       None \<Rightarrow> False
     | Some n \<Rightarrow> sameFileIdentity (meta_of n) original \<and> nm_perm (meta_of n) = nm_perm original
                  \<and> readTextOpenFile n = Some originalContent)"

text \<open>A rename replaces a file or a link of the name, not a directory.\<close>

definition can_replace :: "node \<Rightarrow> string list \<Rightarrow> string \<Rightarrow> bool" where
  "can_replace disk parent baseName \<longleftrightarrow>
     (case node_at disk parent of
        Some (Dir_Node _ es) \<Rightarrow> (case map_of es baseName of Some n \<Rightarrow> \<not> is_dir_node n | None \<Rightarrow> True)
      | _ \<Rightarrow> False)"

definition drop_temp :: "write_io \<Rightarrow> string \<Rightarrow> string list \<Rightarrow> node \<Rightarrow> node" where
  "drop_temp io temp parent disk = (if wi_unlink io then update_dir (drop_name temp) parent disk else disk)"

definition move_temp :: "string \<Rightarrow> string \<Rightarrow> node \<Rightarrow> string list \<Rightarrow> node \<Rightarrow> node" where
  "move_temp temp baseName staged parent disk = update_dir (\<lambda>es. put_name baseName staged (drop_name temp es)) parent disk"

text \<open>A descriptor of a directory: the place of the directory opened as \<open>ps\<close> on \<open>d0\<close> on a later disk, found by
  device and inode. It is \<open>None\<close> when the directory is not below the root any more.\<close>

fun dir_paths :: "node \<Rightarrow> string list list" where
  "dir_paths (Dir_Node m es) = [] # concat (map (\<lambda>(c, n). map (\<lambda>ps. c # ps) (dir_paths n)) es)"
| "dir_paths _ = []"

definition is_the_dir :: "node_meta \<Rightarrow> node option \<Rightarrow> bool" where
  "is_the_dir held n \<longleftrightarrow> (case n of Some (Dir_Node m es) \<Rightarrow> sameFileIdentity m held | _ \<Rightarrow> False)"

definition fd_path :: "node \<Rightarrow> string list \<Rightarrow> node \<Rightarrow> string list option" where
  "fd_path d0 ps d =
    (case node_at d0 ps of
       Some (Dir_Node held es) \<Rightarrow> find (\<lambda>qs. is_the_dir held (node_at d qs)) (dir_paths d)
     | _ \<Rightarrow> None)"

definition unstage :: "write_io \<Rightarrow> string \<Rightarrow> string list option \<Rightarrow> node \<Rightarrow> node" where
  "unstage io temp place disk = (case place of None \<Rightarrow> disk | Some ps \<Rightarrow> drop_temp io temp ps disk)"

definition writeAtomicAt ::
  "write_io \<Rightarrow> node \<Rightarrow> node \<Rightarrow> node \<Rightarrow> string list \<Rightarrow> string \<Rightarrow> string \<Rightarrow> node_meta \<Rightarrow> string \<Rightarrow> bool \<times> node" where
  "writeAtomicAt io d0 d1 d2 parent baseName content original originalContent =
    (case createTempAt (entries_of (node_at d0 parent)) (wi_random io) (wi_create io) of
       None \<Rightarrow> (False, d2)
     | Some temp \<Rightarrow>
         if \<not> wi_staged io then (False, unstage io temp (fd_path d0 parent d2) d2)
         else if \<not> (case fd_path d0 parent d1 of
                      None \<Rightarrow> wi_away_check io
                    | Some ps \<Rightarrow> (case node_at d1 ps of
                                    None \<Rightarrow> False
                                  | Some dir \<Rightarrow> verifyPreimageAt dir baseName original originalContent))
         then (False, unstage io temp (fd_path d0 parent d2) d2)
         else (case fd_path d0 parent d2 of
                 None \<Rightarrow> (wi_away_move io, d2)
               | Some ps \<Rightarrow>
                   if \<not> (wi_move io \<and> can_replace d2 ps baseName) then (False, drop_temp io temp ps d2)
                   else (wi_sync io, move_temp temp baseName (staged_node d2 io (nm_perm original) content) ps d2)))"

subsection \<open>Operations\<close>

definition maxPatchBytes :: nat where "maxPatchBytes = 262144"

definition ApplyPatch :: "repo_ws \<Rightarrow> write_io \<Rightarrow> node \<Rightarrow> node \<Rightarrow> node \<Rightarrow> string \<Rightarrow> string option \<times> node" where
  "ApplyPatch w io d0 d1 d2 input =
    (if input = [] \<or> maxPatchBytes < length input \<or> \<not> utf8_valid input then (None, d2)
     else (case parsePatch input of
             None \<Rightarrow> (None, d2)
           | Some p \<Rightarrow>
               (case openExistingRelative w d0 (pt_path p) False of
                  None \<Rightarrow> (None, d2)
                | Some (target, relativePath) \<Rightarrow>
                    if \<not> is_regular_node target then (None, d2)
                    else (case readTextOpenFile target of
                            None \<Rightarrow> (None, d2)
                          | Some content \<Rightarrow>
                              (case applyHunks content (pt_hunks p) of
                                 None \<Rightarrow> (None, d2)
                               | Some updated \<Rightarrow>
                                   if updated = content then (None, d2)
                                   else (case repo_openParentDirectory w d0 (pt_path p) of
                                           None \<Rightarrow> (None, d2)
                                         | Some (parent, baseName) \<Rightarrow>
                                             (case writeAtomicAt io d0 d1 d2 parent baseName updated (meta_of target) content of
                                                (ok, d) \<Rightarrow> (if ok then Some relativePath else None, d))))))))"

definition CreateFile :: "repo_ws \<Rightarrow> write_io \<Rightarrow> node \<Rightarrow> node \<Rightarrow> string \<Rightarrow> string \<Rightarrow> string option \<times> node" where
  "CreateFile w io d0 d1 path content =
    (if maxFileBytes < length content \<or> \<not> utf8_valid content \<or> NUL \<in> set content then (None, d1)
     else (case cleanRelativePath path of
             None \<Rightarrow> (None, d1)
           | Some p \<Rightarrow>
               if p = ''.'' \<or> isUnavailable p then (None, d1)
               else (case repo_openParentDirectory w d0 p of
                       None \<Rightarrow> (None, d1)
                     | Some (parent, baseName) \<Rightarrow>
                         (case createTempAt (entries_of (node_at d0 parent)) (wi_random io) (wi_create io) of
                            None \<Rightarrow> (None, d1)
                          | Some temp \<Rightarrow>
                              if \<not> wi_staged io then (None, unstage io temp (fd_path d0 parent d1) d1)
                              else (case fd_path d0 parent d1 of
                                      None \<Rightarrow> (if wi_away_move io then Some p else None, d1)
                                    | Some ps \<Rightarrow>
                                        if \<not> (wi_move io \<and> map_of (entries_of (node_at d1 ps)) baseName = None)
                                        then (None, drop_temp io temp ps d1)
                                        else (let new = staged_node d1 io 420 content
                                              in if \<not> wi_unlink io
                                                 then (None, if wi_undo io then d1 else update_dir (put_name baseName new) ps d1)
                                                 else (if wi_sync io then Some p else None,
                                                       move_temp temp baseName new ps d1)))))))"

definition DeleteFile :: "repo_ws \<Rightarrow> write_io \<Rightarrow> node \<Rightarrow> node \<Rightarrow> string \<Rightarrow> string option \<times> node" where
  "DeleteFile w io d0 d1 path =
    (case cleanRelativePath path of
       None \<Rightarrow> (None, d1)
     | Some p \<Rightarrow>
         if p = ''.'' \<or> isUnavailable p then (None, d1)
         else (case repo_openParentDirectory w d0 p of
                 None \<Rightarrow> (None, d1)
               | Some (parent, baseName) \<Rightarrow>
                   (case node_at d0 parent of
                      None \<Rightarrow> (None, d1)
                    | Some dir \<Rightarrow>
                        (case open_at False dir baseName of
                           None \<Rightarrow> (None, d1)
                         | Some target \<Rightarrow>
                             if \<not> is_regular_node target \<or> nm_dev (meta_of target) \<noteq> nm_dev (meta_of d0) then (None, d1)
                             else (case fd_path d0 parent d1 of
                                     None \<Rightarrow> (if wi_away_move io then Some p else None, d1)
                                   | Some ps \<Rightarrow>
                                       if \<not> (wi_unlink io \<and> map_of (entries_of (node_at d1 ps)) baseName \<noteq> None
                                              \<and> can_replace d1 ps baseName)
                                       then (None, d1)
                                       else (if wi_sync io then Some p else None, update_dir (drop_name baseName) ps d1))))))"

subsection \<open>Where the parent and the name of a file are\<close>

lemma openParentDirectory_path:
  assumes "repo_openParentDirectory w disk p = Some (parent, baseName)" and "cleanRelativePath p = Some q"
  shows "parent @ [baseName] = split_on slash q \<and> list_all plain_comp (split_on slash q) \<and> is_some_dir (node_at disk parent)"
proof -
  have q: "q \<noteq> ''.''" using assms by (auto simp: repo_openParentDirectory_def)
  then have plain: "list_all plain_comp (split_on slash q)" using cleanRelativePath_shape [OF assms(2)] by metis
  let ?cs = "split_on slash q"
  let ?pp = "if butlast ?cs = [] then ''.'' else join_with [slash] (butlast ?cs)"
  from assms q obtain n r where o: "openExistingRelative w disk ?pp True = Some (n, r)" and n: "is_dir_node n"
    and e: "parent = dir_comps r" "baseName = last ?cs"
    by (auto simp: repo_openParentDirectory_def Let_def split: if_splits option.splits)
  have butlast: "list_all plain_comp (butlast ?cs)" using plain by (auto simp: list_all_iff dest: in_set_butlastD)
  have r: "cleanRelativePath ?pp = Some r" using openExisting_cases [OF o] by simp
  have parent: "r = ?pp \<and> parent = butlast ?cs"
  proof (cases "butlast ?cs = []")
    case True
    then show ?thesis using r e(1) cleanRelativePath_dot by (simp add: dir_comps_def)
  next
    case False
    then show ?thesis using r e(1) cleanRelativePath_plain [OF butlast False] split_plain [OF butlast False]
      join_plain_relative(2) [OF butlast False] by (simp add: dir_comps_def)
  qed
  have "node_at disk parent = Some n"
    using openExisting_cases [OF o] e(1) open_components_node by (auto simp: dir_comps_def)
  then show ?thesis using n parent e(2) plain append_butlast_last_id [of ?cs] by simp
qed

subsection \<open>What else changes: nothing\<close>

lemma is_some_dir_iff: "is_some_dir n \<longleftrightarrow> (\<exists>m es. n = Some (Dir_Node m es))"
  by (cases n) (auto elim: is_dir_node.elims)

lemma is_the_dirD: "is_the_dir held n \<Longrightarrow> \<exists>m es. n = Some (Dir_Node m es) \<and> sameFileIdentity m held"
  by (auto simp: is_the_dir_def split: option.splits node.splits)

lemma fd_path_dir:
  assumes "fd_path d0 ps d = Some qs"
  shows "\<exists>m es. node_at d qs = Some (Dir_Node m es)"
proof -
  obtain held where "find (\<lambda>qs. is_the_dir held (node_at d qs)) (dir_paths d) = Some qs"
    using assms by (auto simp: fd_path_def split: option.splits node.splits)
  then have "is_the_dir held (node_at d qs)" by (auto simp: find_Some_iff)
  then show ?thesis by (auto dest: is_the_dirD)
qed

lemma dir_paths_complete: "node_at d ps = Some (Dir_Node m es) \<Longrightarrow> ps \<in> set (dir_paths d)"
proof (induction d ps rule: node_at.induct)
  case (2 m' es' c cs)
  then obtain x where x: "map_of es' c = Some x" "node_at x cs = Some (Dir_Node m es)"
    by (auto split: option.splits)
  then have "cs \<in> set (dir_paths x)" using 2 by blast
  then show ?case using map_of_SomeD [OF x(1)] by force
qed auto

text \<open>The directory opened as \<open>ps\<close> on \<open>d0\<close> has kept its name on a later disk: it is the directory there, and
  no other directory has its device and inode.\<close>

definition keeps_dir :: "node \<Rightarrow> node \<Rightarrow> string list \<Rightarrow> bool" where
  "keeps_dir d0 d ps \<longleftrightarrow>
     (\<forall>held es. node_at d0 ps = Some (Dir_Node held es) \<longrightarrow> (\<forall>qs. is_the_dir held (node_at d qs) \<longleftrightarrow> qs = ps))"

lemma find_only:
  assumes "\<And>y. P y \<longleftrightarrow> y = x" and "x \<in> set xs"
  shows "find P xs = Some x"
proof (cases "find P xs")
  case None
  then show ?thesis using assms by (auto simp: find_None_iff)
next
  case (Some y)
  then have "P y" by (auto simp: find_Some_iff)
  then show ?thesis using Some assms(1) by simp
qed

lemma fd_path_keeps:
  assumes "keeps_dir d0 d ps" and "is_some_dir (node_at d0 ps)"
  shows "fd_path d0 ps d = Some ps"
proof -
  obtain held es where h: "node_at d0 ps = Some (Dir_Node held es)" using assms(2) by (auto simp: is_some_dir_iff)
  have only: "is_the_dir held (node_at d qs) \<longleftrightarrow> qs = ps" for qs using assms(1) h by (auto simp: keeps_dir_def)
  then have "\<exists>m es. node_at d ps = Some (Dir_Node m es)" using is_the_dirD by blast
  then have "ps \<in> set (dir_paths d)" using dir_paths_complete by blast
  then show ?thesis using h find_only [OF only] by (simp add: fd_path_def)
qed

lemma can_replace_dir: "can_replace d ps c \<Longrightarrow> \<exists>m es. node_at d ps = Some (Dir_Node m es)"
  by (auto simp: can_replace_def split: option.splits node.splits)

text \<open>Changing only the entries with the names in \<open>N\<close> leaves every path alone that does not go through one
  of them and is not above the directory.\<close>

lemma update_dir_frame:
  assumes dir: "node_at d ps = Some (Dir_Node m es)" and f: "\<And>c. c \<notin> N \<Longrightarrow> map_of (f es) c = map_of es c"
    and above: "\<not> prefix qs ps" and names: "\<And>c. c \<in> N \<Longrightarrow> \<not> prefix (ps @ [c]) qs"
  shows "node_at (update_dir f ps d) qs = node_at d qs"
proof (cases "prefix ps qs")
  case True
  then obtain c cs where qs: "qs = ps @ c # cs" using above by (metis append_Nil2 neq_Nil_conv prefixE prefix_order.order_refl)
  then have "c \<notin> N" using names by (auto simp: prefix_def)
  then show ?thesis unfolding qs node_at_update_below [OF dir] using f dir by (simp add: node_at_append)
next
  case False
  then show ?thesis by (rule node_at_update_other [OF _ above])
qed

lemma prefix_snoc_above: "\<not> prefix qs (ps @ [c]) \<Longrightarrow> \<not> prefix qs ps"
  by (auto simp: prefix_def)

lemma update_dir_no_dir:
  "\<not> is_some_dir (node_at d ps) \<Longrightarrow> node_at d qs = Some (Regular_Node m x)
     \<Longrightarrow> node_at (update_dir f ps d) qs = Some (Regular_Node m x)"
proof (induction f ps d arbitrary: qs rule: update_dir.induct)
  case (2 f c cs m' es)
  show ?case
  proof (cases qs)
    case (Cons q list)
    have step: "node_at (update_dir f cs b) list = Some (Regular_Node m x)"
      if "map_of es c = Some b" "\<not> is_some_dir (node_at b cs)" "node_at b list = Some (Regular_Node m x)" for b
      using "2.IH" [OF map_of_SomeD [OF that(1)] refl refl that(2,3)] .
    show ?thesis
      using "2.prems" Cons step by (cases "map_of es q") (auto simp: map_of_map_at)
  qed (use 2 in simp)
qed auto

lemma move_temp_there:
  assumes "node_at d ps = Some (Dir_Node m es)"
  shows "node_at (move_temp temp base n ps d) (ps @ [base]) = Some n"
  unfolding move_temp_def node_at_update_below [OF assms] by simp

lemma move_temp_frame:
  assumes "node_at d ps = Some (Dir_Node m es)" and "\<not> prefix qs ps"
    and "\<not> prefix (ps @ [base]) qs" and "\<not> prefix (ps @ [temp]) qs"
  shows "node_at (move_temp temp base n ps d) qs = node_at d qs"
  unfolding move_temp_def by (rule update_dir_frame [where N = "{base, temp}", OF assms(1)]) (use assms in auto)

lemma drop_temp_frame:
  assumes "node_at d ps = Some (Dir_Node m es)" and "\<not> prefix qs ps" and "\<not> prefix (ps @ [temp]) qs"
  shows "node_at (drop_temp io temp ps d) qs = node_at d qs"
  unfolding drop_temp_def
  by (cases "wi_unlink io") (use assms in \<open>auto intro!: update_dir_frame [where N = "{temp}", OF assms(1)] split: if_splits\<close>)

lemma writeAtomicAt_done:
  assumes "writeAtomicAt io d0 d1 d2 parent base content original old = (True, d)"
    and "fd_path d0 parent d1 = Some parent" and "fd_path d0 parent d2 = Some parent"
  obtains r n1 m1 es1 m es where "d = move_temp (temp_name r) base (staged_node d2 io (nm_perm original) content) parent d2"
    and "node_at d1 parent = Some (Dir_Node m1 es1)" and "map_of es1 base = Some n1"
    and "sameFileIdentity (meta_of n1) original" and "nm_perm (meta_of n1) = nm_perm original"
    and "readTextOpenFile n1 = Some old" and "node_at d2 parent = Some (Dir_Node m es)"
    and "map_of (entries_of (node_at d0 parent)) (temp_name r) = None"
proof -
  from assms obtain temp dir1 where t: "createTempAt (entries_of (node_at d0 parent)) (wi_random io) (wi_create io) = Some temp"
    and v: "node_at d1 parent = Some dir1" "verifyPreimageAt dir1 base original old" and c: "can_replace d2 parent base"
    and d: "d = move_temp temp base (staged_node d2 io (nm_perm original) content) parent d2"
    by (auto simp: writeAtomicAt_def split: option.splits if_splits)
  obtain r where r: "temp = temp_name r" "map_of (entries_of (node_at d0 parent)) temp = None" using createTempAt_name [OF t] by blast
  from v(2) obtain n1 where n1: "open_at False dir1 base = Some n1" "sameFileIdentity (meta_of n1) original"
    "nm_perm (meta_of n1) = nm_perm original" "readTextOpenFile n1 = Some old"
    by (auto simp: verifyPreimageAt_def split: option.splits)
  from n1(1) obtain m1 es1 where "dir1 = Dir_Node m1 es1" "map_of es1 base = Some n1" by (auto simp: open_at_Some)
  moreover obtain m es where "node_at d2 parent = Some (Dir_Node m es)" using can_replace_dir [OF c] by blast
  ultimately show ?thesis using that d v(1) n1(2-4) r by blast
qed

lemma move_temp_gone:
  assumes "node_at d ps = Some (Dir_Node m es)" and "temp \<noteq> base" and "prefix (ps @ [temp]) qs"
  shows "node_at (move_temp temp base n ps d) qs = None"
proof -
  obtain cs where "qs = ps @ temp # cs" using assms(3) by (auto simp: prefix_def)
  then show ?thesis using assms(2) unfolding move_temp_def by (simp add: node_at_update_below [OF assms(1)])
qed

lemma readText_regular: "readTextOpenFile n = Some c \<Longrightarrow> n = Regular_Node (meta_of n) c"
  by (cases n) (auto simp: readTextOpenFile_def split: if_splits)

text \<open>C20: A patch changes one file, from the text it was computed from, and nothing else. When a patch is
  accepted and the directory of the file kept its name meanwhile, the file its header names held a text the
  hunks apply to; just before the replacement the file of that name still had the identity, the mode and the
  text it was read with; afterwards it holds the patched text with that mode. The temporary name, which
  named nothing when the operation began, names nothing afterwards, and every other path is as it was just
  before the replacement.\<close>

theorem apply_patch_on_disk:
  assumes "ApplyPatch w io d0 d1 d2 input = (Some p, d)"
    and "keeps_dir d0 d1 (butlast (split_on slash p))" and "keeps_dir d0 d2 (butlast (split_on slash p))"
  shows "\<exists>pt content updated m m1 m2 temp.
    parsePatch input = Some pt \<and> pt_path pt = p \<and> \<not> isUnavailable p
    \<and> node_at d0 (split_on slash p) = Some (Regular_Node m content)
    \<and> applyHunks content (pt_hunks pt) = Some updated \<and> updated \<noteq> content
    \<and> node_at d1 (split_on slash p) = Some (Regular_Node m1 content) \<and> sameFileIdentity m1 m \<and> nm_perm m1 = nm_perm m
    \<and> node_at d (split_on slash p) = Some (Regular_Node m2 updated) \<and> nm_perm m2 = nm_perm m
    \<and> node_at d0 (butlast (split_on slash p) @ [temp]) = None
    \<and> (\<forall>qs. \<not> prefix qs (split_on slash p) \<longrightarrow> \<not> prefix (split_on slash p) qs \<longrightarrow>
         node_at d qs = (if prefix (butlast (split_on slash p) @ [temp]) qs then None else node_at d2 qs))"
proof -
  from assms(1) obtain pt target content updated parent base where
    pt: "parsePatch input = Some pt" and o: "openExistingRelative w d0 (pt_path pt) False = Some (target, p)"
    and t: "readTextOpenFile target = Some content" and u: "applyHunks content (pt_hunks pt) = Some updated" "updated \<noteq> content"
    and par: "repo_openParentDirectory w d0 (pt_path pt) = Some (parent, base)"
    and wr: "writeAtomicAt io d0 d1 d2 parent base updated (meta_of target) content = (True, d)"
    by (auto simp: ApplyPatch_def split: if_splits option.splits prod.splits)
  have p: "cleanRelativePath (pt_path pt) = Some p" "\<not> isUnavailable p"
    and at0: "node_at d0 (split_on slash p) = Some target"
    using openExisting_cases [OF o] open_components_node by auto
  have path: "pt_path pt = p" using parsePatch_path [OF pt] cleanRelativePath_idem [OF _ p(1)] by metis
  have cs: "split_on slash p = parent @ [base]" and isdir: "is_some_dir (node_at d0 parent)"
    using openParentDirectory_path [OF par p(1)] by simp_all
  have fd: "fd_path d0 parent d1 = Some parent" "fd_path d0 parent d2 = Some parent"
    using assms(2,3) isdir by (auto simp: cs intro: fd_path_keeps)
  from wr fd obtain r n1 m1 es1 m es where
    d: "d = move_temp (temp_name r) base (staged_node d2 io (nm_perm (meta_of target)) updated) parent d2"
    and at1: "node_at d1 parent = Some (Dir_Node m1 es1)" "map_of es1 base = Some n1"
    and same: "sameFileIdentity (meta_of n1) (meta_of target)" "nm_perm (meta_of n1) = nm_perm (meta_of target)"
    and old: "readTextOpenFile n1 = Some content" and at2: "node_at d2 parent = Some (Dir_Node m es)"
    and new: "map_of (entries_of (node_at d0 parent)) (temp_name r) = None"
    by (rule writeAtomicAt_done)
  have n1: "node_at d1 (split_on slash p) = Some (Regular_Node (meta_of n1) content)"
    unfolding cs using at1 readText_regular [OF old] by (simp add: node_at_append)
  have n0: "node_at d0 (split_on slash p) = Some (Regular_Node (meta_of target) content)"
    using at0 readText_regular [OF t] by simp
  have n: "node_at d (split_on slash p) = Some (staged_node d2 io (nm_perm (meta_of target)) updated)"
    unfolding cs d by (rule move_temp_there [OF at2])
  have fresh: "node_at d0 (butlast (split_on slash p) @ [temp_name r]) = None"
    using new isdir by (auto simp: cs node_at_append is_some_dir_iff)
  have "temp_name r \<noteq> base" using new isdir at0 by (auto simp: cs node_at_append is_some_dir_iff)
  then have frame: "\<forall>qs. \<not> prefix qs (split_on slash p) \<longrightarrow> \<not> prefix (split_on slash p) qs \<longrightarrow>
      node_at d qs = (if prefix (butlast (split_on slash p) @ [temp_name r]) qs then None else node_at d2 qs)"
    unfolding cs d butlast_snoc using move_temp_frame [OF at2 prefix_snoc_above] move_temp_gone [OF at2] by auto
  show ?thesis
    using pt path p(2) n0 u n1 same n fresh frame unfolding staged_node_def by (intro exI conjI) (assumption | simp)+
qed

text \<open>A refused patch leaves the files alone. When applying answers with an error while the directory can be
  synced, the disk is as the others left it, but that the temporary file may be gone from it.\<close>

theorem refused_patch_keeps_files:
  assumes "ApplyPatch w io d0 d1 d2 input = (None, d)" and "wi_sync io"
  shows "d = d2 \<or> (\<exists>place temp. d = drop_temp io (temp_name temp) place d2)"
proof (cases "\<exists>parent base updated original content.
    writeAtomicAt io d0 d1 d2 parent base updated original content = (False, d)")
  case True
  then obtain parent base updated original content where
    wr: "writeAtomicAt io d0 d1 d2 parent base updated original content = (False, d)" by blast
  show ?thesis
  proof (cases "createTempAt (entries_of (node_at d0 parent)) (wi_random io) (wi_create io)")
    case None
    then show ?thesis using wr by (simp add: writeAtomicAt_def)
  next
    case (Some temp)
    obtain r where "temp = temp_name r" using createTempAt_name [OF Some] by blast
    then show ?thesis
      using wr Some assms(2)
      by (cases "fd_path d0 parent d2") (auto simp: writeAtomicAt_def unstage_def split: if_splits)
  qed
next
  case False
  then show ?thesis using assms(1) by (auto simp: ApplyPatch_def split: if_splits option.splits prod.splits)
qed

text \<open>Creating a file overwrites nothing. Whatever the answer, every regular file that is on the disk when the
  new name is linked is unchanged, but for the temporary name; and an accepted creation leaves the content at
  the cleaned path, where its directory kept its name.\<close>

theorem create_never_overwrites:
  assumes "CreateFile w io d0 d1 path content = (r, d)"
  shows "(\<exists>parent temp. \<forall>qs m c. node_at d1 qs = Some (Regular_Node m c) \<longrightarrow> \<not> prefix (parent @ [temp_name temp]) qs
           \<longrightarrow> node_at d qs = Some (Regular_Node m c))
    \<and> (\<forall>p. r = Some p \<longrightarrow> cleanRelativePath path = Some p \<and> \<not> isUnavailable p
           \<and> (keeps_dir d0 d1 (butlast (split_on slash p)) \<longrightarrow>
                (\<exists>m. node_at d (split_on slash p) = Some (Regular_Node m content))))"
proof (cases "d = d1 \<and> r = None")
  case False
  from assms obtain p parent base temp where p: "cleanRelativePath path = Some p" "\<not> isUnavailable p"
    and par: "repo_openParentDirectory w d0 p = Some (parent, base)"
    and t: "createTempAt (entries_of (node_at d0 parent)) (wi_random io) (wi_create io) = Some temp"
    using False by (auto simp: CreateFile_def split: if_splits option.splits)
  obtain x where x: "temp = temp_name x" using createTempAt_name [OF t] by blast
  obtain p' where "cleanRelativePath p = Some p'" using par by (auto simp: repo_openParentDirectory_def split: option.splits)
  then have same: "cleanRelativePath p = Some p" using cleanRelativePath_idem [OF p(1)] by metis
  have cs: "split_on slash p = parent @ [base]" and isdir: "is_some_dir (node_at d0 parent)"
    using openParentDirectory_path [OF par same] by simp_all
  let ?new = "staged_node d1 io 420 content"
  consider (away) "d = d1" "fd_path d0 parent d1 = None"
    | (below) ps where "fd_path d0 parent d1 = Some ps"
        "(d = drop_temp io temp ps d1 \<and> r = None) \<or> (d = d1 \<and> r = None)
         \<or> (map_of (entries_of (node_at d1 ps)) base = None
            \<and> (d = update_dir (put_name base ?new) ps d1 \<and> r = None
               \<or> d = move_temp temp base ?new ps d1 \<and> (r = None \<or> r = Some p)))"
    using assms False p par t
    by (cases "fd_path d0 parent d1") (auto simp: CreateFile_def unstage_def Let_def split: if_splits)
  then show ?thesis
  proof cases
    case away
    moreover have "r = None \<or> r = Some p" using assms p par t by (auto simp: CreateFile_def Let_def split: if_splits option.splits)
    ultimately show ?thesis using p fd_path_keeps [OF _ isdir] by (auto simp: cs)
  next
    case below
    obtain m' es where dir: "node_at d1 ps = Some (Dir_Node m' es)" using fd_path_dir [OF below(1)] by blast
    have keep: "node_at d qs = Some (Regular_Node m c)"
      if at: "node_at d1 qs = Some (Regular_Node m c)" and nt: "\<not> prefix (ps @ [temp]) qs" for qs m c
    proof -
      have above: "\<not> prefix qs ps"
      proof
        assume "prefix qs ps"
        then obtain s where "ps = qs @ s" by (auto simp: prefix_def)
        then show False using dir at by (cases s) (auto simp: node_at_append)
      qed
      have base: "\<not> prefix (ps @ [base]) qs" if "map_of (entries_of (node_at d1 ps)) base = None"
        using that dir at by (auto simp: prefix_def node_at_append)
      show ?thesis
        using below(2) drop_temp_frame [OF dir above nt] move_temp_frame [OF dir above base nt]
          update_dir_frame [where N = "{base}" and f = "put_name base ?new", OF dir _ above] base at by auto
    qed
    have made: "\<exists>m. node_at d (split_on slash p) = Some (Regular_Node m content)"
      if "r = Some q" "keeps_dir d0 d1 (butlast (split_on slash p))" for q
    proof -
      have "ps = parent" using that(2) below(1) fd_path_keeps [OF _ isdir] by (simp add: cs)
      moreover have "d = move_temp temp base ?new ps d1" using below(2) that by auto
      ultimately show ?thesis unfolding cs using move_temp_there dir by (auto simp: staged_node_def)
    qed
    have "r = None \<or> r = Some p" using below(2) by blast
    then show ?thesis using keep p made unfolding x by auto
  qed
qed auto

text \<open>Deleting takes away one regular file of the root's device and nothing else, where its directory kept its
  name.\<close>

lemma delete_one_file:
  assumes "DeleteFile w io d0 d1 path = (Some p, d)" and "keeps_dir d0 d1 (butlast (split_on slash p))"
  shows "cleanRelativePath path = Some p \<and> \<not> isUnavailable p
    \<and> (\<exists>m c. node_at d0 (split_on slash p) = Some (Regular_Node m c) \<and> nm_dev m = nm_dev (meta_of d0))
    \<and> node_at d (split_on slash p) = None
    \<and> (\<forall>qs. \<not> prefix qs (split_on slash p) \<longrightarrow> \<not> prefix (split_on slash p) qs \<longrightarrow> node_at d qs = node_at d1 qs)"
proof -
  from assms(1) obtain parent base dir target where p: "cleanRelativePath path = Some p" "\<not> isUnavailable p"
    and par: "repo_openParentDirectory w d0 p = Some (parent, base)" and at0: "node_at d0 parent = Some dir"
    and o: "open_at False dir base = Some target" and reg: "is_regular_node target" "nm_dev (meta_of target) = nm_dev (meta_of d0)"
    by (auto simp: DeleteFile_def split: if_splits option.splits)
  obtain p' where "cleanRelativePath p = Some p'" using par by (auto simp: repo_openParentDirectory_def split: option.splits)
  then have cs: "split_on slash p = parent @ [base]" and isdir: "is_some_dir (node_at d0 parent)"
    using openParentDirectory_path [OF par] cleanRelativePath_idem [OF p(1)] by metis+
  have fd: "fd_path d0 parent d1 = Some parent" using assms(2) isdir by (auto simp: cs intro: fd_path_keeps)
  have can: "can_replace d1 parent base" and d: "d = update_dir (drop_name base) parent d1"
    using assms(1) p par at0 o reg fd by (auto simp: DeleteFile_def split: if_splits)
  obtain m es where dir: "dir = Dir_Node m es" "map_of es base = Some target" using o by (auto simp: open_at_Some)
  obtain m1 es1 where at1: "node_at d1 parent = Some (Dir_Node m1 es1)" using can_replace_dir [OF can] by blast
  obtain c where c: "target = Regular_Node (meta_of target) c" using reg(1) by (cases target) auto
  have "node_at d0 (split_on slash p) = Some (Regular_Node (meta_of target) c)"
    unfolding cs using at0 dir c by (simp add: node_at_append)
  moreover have "node_at d (split_on slash p) = None" unfolding cs d node_at_update_below [OF at1] by simp
  moreover have "node_at d qs = node_at d1 qs" if "\<not> prefix qs (split_on slash p)" "\<not> prefix (split_on slash p) qs" for qs
    unfolding d
    by (rule update_dir_frame [where N = "{base}", OF at1])
      (use that prefix_snoc_above in \<open>auto simp: cs split: if_splits\<close>)
  ultimately show ?thesis using p reg(2) by blast
qed

subsection \<open>Instances\<close>

definition demo_meta :: "nat \<Rightarrow> nat \<Rightarrow> node_meta" where
  "demo_meta ino perm = \<lparr>nm_dev = 1, nm_ino = ino, nm_perm = perm, nm_opens = True\<rparr>"

definition demo_disk :: "string \<Rightarrow> node" where
  "demo_disk content =
     Dir_Node (demo_meta 2 493)
       [(''link'', Symlink_Node (demo_meta 4 511)), (''s'', Dir_Node (demo_meta 5 493) [(''f'', Regular_Node (demo_meta 3 420) content)])]"

definition demo_ws :: repo_ws where
  "demo_ws = \<lparr>rp_root = ''/r'', rp_open = True, rp_identity = ''i'', rp_maxSearchFiles = 10000, rp_maxSearchBytes = 67108864\<rparr>"

definition demo_io :: write_io where
  "demo_io = \<lparr>wi_random = [Some ''q''], wi_create = True, wi_staged = True, wi_ino = 9, wi_move = True, wi_unlink = True,
     wi_undo = True, wi_sync = True, wi_away_check = False, wi_away_move = False\<rparr>"

definition one_line_patch :: "string \<Rightarrow> string \<Rightarrow> string" where
  "one_line_patch old new =
     join_lines [''--- a/s/f'', ''+++ b/s/f'', ''@@ -1 +1 @@'', CHR ''-'' # old, CHR ''+'' # new]"

theorem read_confined_witness:
  "repo_Read demo_ws (demo_disk ''a'') ''s//f'' = Some (''s/f'', ''a'') \<and> \<not> isUnavailable ''s/f''
   \<and> repo_Read demo_ws (demo_disk ''a'') ''link'' = None"
proof -
  have r: "repo_Read demo_ws (demo_disk ''a'') ''s//f'' = Some (''s/f'', ''a'')"
    and l: "repo_Read demo_ws (demo_disk ''a'') ''link'' = None" by code_simp+
  show ?thesis using r l read_confined [OF r] by blast
qed

lemma demo_keeps: "keeps_dir (demo_disk c) (demo_disk c') [''s'']"
  unfolding keeps_dir_def
proof (intro allI impI)
  fix held es qs assume at: "node_at (demo_disk c) [''s''] = Some (Dir_Node held es)"
  have h: "held = demo_meta 5 493" using at by (simp add: demo_disk_def)
  have m: "sameFileIdentity (demo_meta i x) held \<longleftrightarrow> i = 5" for i x by (simp add: h sameFileIdentity_def demo_meta_def)
  show "is_the_dir held (node_at (demo_disk c') qs) \<longleftrightarrow> qs = [''s'']"
  proof (cases qs)
    case Nil
    then show ?thesis by (simp add: is_the_dir_def demo_disk_def m)
  next
    case (Cons q cs)
    have "\<not> is_the_dir held (node_at (Symlink_Node x) cs)" for x by (cases cs) (auto simp: is_the_dir_def)
    moreover have "\<not> is_the_dir held (node_at (Regular_Node x y) cs)" for x y cs by (cases cs) (auto simp: is_the_dir_def)
    ultimately show ?thesis
      using Cons by (cases cs) (auto simp: is_the_dir_def demo_disk_def m split: if_splits)
  qed
qed

theorem apply_patch_on_disk_witness:
  "\<exists>d. ApplyPatch demo_ws demo_io (demo_disk [CHR ''a'', LF]) (demo_disk [CHR ''a'', LF]) (demo_disk [CHR ''a'', LF]) (one_line_patch ''a'' ''b'') = (Some ''s/f'', d)
     \<and> (\<exists>m content. node_at (demo_disk [CHR ''a'', LF]) [''s'', ''f''] = Some (Regular_Node m content))
     \<and> node_at d [''link''] = node_at (demo_disk [CHR ''a'', LF]) [''link'']"
proof -
  let ?d = "demo_disk [CHR ''a'', LF]" and ?p = "one_line_patch ''a'' ''b''"
  obtain d where d: "ApplyPatch demo_ws demo_io ?d ?d ?d ?p = (Some ''s/f'', d)"
  proof -
    have "fst (ApplyPatch demo_ws demo_io ?d ?d ?d ?p) = Some ''s/f''" by code_simp
    then show ?thesis using that by (metis prod.collapse)
  qed
  have s: "split_on slash ''s/f'' = [''s'', ''f'']" by code_simp
  then have k: "keeps_dir ?d ?d (butlast (split_on slash ''s/f''))" using demo_keeps by simp
  have n: "\<not> prefix [''link''] [''s'', ''f'']" "\<not> prefix [''s'', ''f''] [''link'']" "\<not> prefix [''s'', t] [''link'']" for t
    by (simp_all add: prefix_def)
  show ?thesis
    using d apply_patch_on_disk [OF d k k] n unfolding s by (auto intro!: exI [of _ d])
qed

text \<open>Nothing bounds what a patch leaves: it may put a null byte into a file, or make it longer than a megabyte,
  and from then on the workspace neither reads nor patches the file, where \<open>CreateFile\<close> refuses such a
  content.\<close>

lemma patch_makes_unreadable:
  "let d = snd (ApplyPatch demo_ws demo_io (demo_disk [CHR ''a'', LF]) (demo_disk [CHR ''a'', LF]) (demo_disk [CHR ''a'', LF])
             (one_line_patch ''a'' [NUL]))
   in repo_Read demo_ws d ''s/f'' = None \<and> node_at d [''s'', ''f''] = Some (Regular_Node (demo_meta 9 420) [NUL, LF])
      \<and> CreateFile demo_ws demo_io d d ''s/g'' [NUL, LF] = (None, d)"
  by code_simp

theorem refused_patch_keeps_files_witness:
  "\<exists>d. ApplyPatch demo_ws demo_io (demo_disk [CHR ''a'', LF]) (demo_disk [CHR ''c'', LF]) (demo_disk [CHR ''c'', LF])
        (one_line_patch ''a'' ''b'') = (None, d)
     \<and> (d = demo_disk [CHR ''c'', LF] \<or> (\<exists>place temp. d = drop_temp demo_io (temp_name temp) place (demo_disk [CHR ''c'', LF])))"
proof -
  let ?a = "demo_disk [CHR ''a'', LF]" and ?c = "demo_disk [CHR ''c'', LF]" and ?p = "one_line_patch ''a'' ''b''"
  obtain d where d: "ApplyPatch demo_ws demo_io ?a ?c ?c ?p = (None, d)"
  proof -
    have "fst (ApplyPatch demo_ws demo_io ?a ?c ?c ?p) = None" by code_simp
    then show ?thesis using that by (metis prod.collapse)
  qed
  have "wi_sync demo_io" by code_simp
  then show ?thesis using d refused_patch_keeps_files [OF d] by blast
qed

theorem create_never_overwrites_witness:
  "\<exists>d. CreateFile demo_ws demo_io (demo_disk ''a'') (demo_disk ''a'') ''s/g'' ''b'' = (Some ''s/g'', d)
     \<and> (\<exists>m. node_at d [''s'', ''g''] = Some (Regular_Node m ''b''))
     \<and> fst (CreateFile demo_ws demo_io (demo_disk ''a'') (demo_disk ''a'') ''s/f'' ''b'') = None"
proof -
  let ?d = "demo_disk ''a''"
  obtain d where d: "CreateFile demo_ws demo_io ?d ?d ''s/g'' ''b'' = (Some ''s/g'', d)"
  proof -
    have "fst (CreateFile demo_ws demo_io ?d ?d ''s/g'' ''b'') = Some ''s/g''" by code_simp
    then show ?thesis using that by (metis prod.collapse)
  qed
  have s: "split_on slash ''s/g'' = [''s'', ''g'']" and n: "fst (CreateFile demo_ws demo_io ?d ?d ''s/f'' ''b'') = None"
    by code_simp+
  have "keeps_dir ?d ?d (butlast (split_on slash ''s/g''))" unfolding s using demo_keeps by simp
  then have "\<exists>m. node_at d (split_on slash ''s/g'') = Some (Regular_Node m ''b'')" using create_never_overwrites [OF d] by blast
  then show ?thesis using d s n by auto
qed

end
