(* ===== verification/Repo_Search.thy ===== *)
theory Repo_Search
  imports Repo_Disk "HOL-Library.Multiset"
begin

section \<open>Searching and snapshots of a repository (internal/repo/repo.go)\<close>

text \<open>
  The walk over the available files below the root, which \<open>searchDirectory\<close> and \<open>snapshotDirectory\<close> share,
  and what they do at a file. The theory shows that the matches of a search are real and bounded, that a
  snapshot lists exactly the available files, and that its identifier determines it.
\<close>

subsection \<open>Walking\<close>

datatype 'a walk = Walk_On 'a | Walk_Stop 'a | Walk_Reject

primrec node_weight :: "node \<Rightarrow> nat" where
  "node_weight (Dir_Node m es) = Suc (sum_list (map (\<lambda>p. Suc (snd p)) (map (map_prod id node_weight) es)))"
| "node_weight (Regular_Node m c) = 1"
| "node_weight (Symlink_Node m) = 1"
| "node_weight (Special_Node m) = 1"

definition entries_weight :: "(string \<times> node) list \<Rightarrow> nat" where
  "entries_weight es = sum_list (map (\<lambda>p. Suc (node_weight (snd p))) es)"

lemma entries_weight_simps [simp]:
  "entries_weight [] = 0" "entries_weight ((c, n) # es) = Suc (node_weight n) + entries_weight es"
  by (simp_all add: entries_weight_def)

lemma entries_weight_sort [simp]: "entries_weight (sort_key f es) = entries_weight es"
proof -
  have "mset (map (\<lambda>p. Suc (node_weight (snd p))) (sort_key f es)) = mset (map (\<lambda>p. Suc (node_weight (snd p))) es)" by simp
  then show ?thesis unfolding entries_weight_def by (metis sum_mset_sum_list)
qed

lemma node_weight_dir [simp]: "node_weight (Dir_Node m es) = Suc (entries_weight es)"
  by (simp add: entries_weight_def comp_def split_def)

declare node_weight.simps(1) [simp del]

definition child_path :: "string \<Rightarrow> string \<Rightarrow> string" where
  "child_path relativeDir name = (if relativeDir = ''.'' then name else relativeDir @ slash # name)"

text \<open>One directory, its entries in the order of their names. \<open>cancelled\<close> says at which paths the context is
  found done. A link ends a strict walk and is passed over by the other. A child is opened again from the
  root; the node that is opened is the entry (\<open>opened_child\<close> below).\<close>

function walk_entries ::
  "repo_ws \<Rightarrow> node \<Rightarrow> (string \<Rightarrow> bool) \<Rightarrow> bool \<Rightarrow> (string \<Rightarrow> node \<Rightarrow> 'a \<Rightarrow> 'a walk) \<Rightarrow> string
     \<Rightarrow> (string \<times> node) list \<Rightarrow> 'a \<Rightarrow> 'a walk" where
  "walk_entries w disk cancelled strict visit rel [] acc = Walk_On acc"
| "walk_entries w disk cancelled strict visit rel ((name, n) # es) acc =
    (let p = child_path rel name
     in if cancelled p then Walk_Reject
        else if isUnavailable p then walk_entries w disk cancelled strict visit rel es acc
        else if is_symlink_node n
        then (if strict then Walk_Reject else walk_entries w disk cancelled strict visit rel es acc)
        else (case openExistingRelative w disk p True of
                None \<Rightarrow> Walk_Reject
              | Some _ \<Rightarrow>
                  (case visit p n acc of
                     Walk_On acc1 \<Rightarrow>
                       (case n of
                          Dir_Node _ ces \<Rightarrow>
                            (case walk_entries w disk cancelled strict visit p (sort_key fst ces) acc1 of
                               Walk_On acc2 \<Rightarrow> walk_entries w disk cancelled strict visit rel es acc2
                             | r \<Rightarrow> r)
                        | _ \<Rightarrow> walk_entries w disk cancelled strict visit rel es acc1)
                   | r \<Rightarrow> r)))"
  by pat_completeness auto
termination
  by (relation "measure (\<lambda>(_, _, _, _, _, _, es, _). entries_weight es)") auto

definition walk_directory ::
  "repo_ws \<Rightarrow> node \<Rightarrow> (string \<Rightarrow> bool) \<Rightarrow> bool \<Rightarrow> (string \<Rightarrow> node \<Rightarrow> 'a \<Rightarrow> 'a walk) \<Rightarrow> string \<Rightarrow> node \<Rightarrow> 'a \<Rightarrow> 'a walk" where
  "walk_directory w disk cancelled strict visit rel n acc =
    (case n of
       Dir_Node _ es \<Rightarrow> walk_entries w disk cancelled strict visit rel (sort_key fst es) acc
     | _ \<Rightarrow> Walk_Reject)"

subsection \<open>What a walk visits\<close>

function walk_list :: "string \<Rightarrow> (string \<times> node) list \<Rightarrow> (string \<times> node) list" where
  "walk_list rel [] = []"
| "walk_list rel ((name, n) # es) =
    (let p = child_path rel name
     in if isUnavailable p \<or> is_symlink_node n then walk_list rel es
        else (p, n) # (case n of Dir_Node _ ces \<Rightarrow> walk_list p (sort_key fst ces) | _ \<Rightarrow> []) @ walk_list rel es)"
  by pat_completeness auto
termination
  by (relation "measure (\<lambda>(_, es). entries_weight es)") auto

fun visits :: "(string \<Rightarrow> node \<Rightarrow> 'a \<Rightarrow> 'a walk) \<Rightarrow> (string \<times> node) list \<Rightarrow> 'a \<Rightarrow> 'a walk" where
  "visits visit [] acc = Walk_On acc"
| "visits visit ((p, n) # ps) acc = (case visit p n acc of Walk_On acc1 \<Rightarrow> visits visit ps acc1 | r \<Rightarrow> r)"

lemma visits_append:
  "visits visit (xs @ ys) acc = (case visits visit xs acc of Walk_On acc1 \<Rightarrow> visits visit ys acc1 | r \<Rightarrow> r)"
  by (induction visit xs acc rule: visits.induct) (auto split: walk.splits)

text \<open>A walk is refused or visits the nodes of the list one after the other.\<close>

lemma walk_visits:
  "walk_entries w disk cancelled strict visit rel es acc = Walk_Reject
   \<or> walk_entries w disk cancelled strict visit rel es acc = visits visit (walk_list rel es) acc"
proof (induction es arbitrary: rel acc rule: measure_induct_rule [where f = entries_weight])
  case (less es)
  show ?case
  proof (cases es)
    case (Cons e es')
    obtain name n where e: "e = (name, n)" by (cases e)
    let ?p = "child_path rel name" and ?walk = "walk_entries w disk cancelled strict visit"
    have rest: "?walk rel es' a = Walk_Reject \<or> ?walk rel es' a = visits visit (walk_list rel es') a" for a
      by (rule less) (simp add: Cons e)
    show ?thesis
    proof (cases "cancelled ?p \<or> isUnavailable ?p \<or> is_symlink_node n \<or> openExistingRelative w disk ?p True = None")
      case True
      then show ?thesis using rest [of acc] by (cases strict) (auto simp: Let_def Cons e)
    next
      case False
      then obtain x where c: "\<not> cancelled ?p" "\<not> isUnavailable ?p" "\<not> is_symlink_node n"
        and x: "openExistingRelative w disk ?p True = Some x" by auto
      show ?thesis
      proof (cases n)
        case (Dir_Node m ces)
        have "?walk ?p (sort_key fst ces) a = Walk_Reject
            \<or> ?walk ?p (sort_key fst ces) a = visits visit (walk_list ?p (sort_key fst ces)) a" for a
          by (rule less) (simp add: Cons e Dir_Node)
        then have sub: "?walk ?p (sort_key fst ces) a = Walk_Reject
            \<or> ?walk ?p (sort_key fst ces) a = visits visit (walk_list ?p (sort_key fst ces)) a" for a .
        show ?thesis
        proof (cases "visit ?p n acc")
          case (Walk_On a1)
          show ?thesis
          proof (cases "?walk ?p (sort_key fst ces) a1")
            case on: (Walk_On a2)
            have "visits visit (walk_list ?p (sort_key fst ces)) a1 = Walk_On a2" using on sub [of a1] by simp
            then show ?thesis using on rest [of a2] c x Dir_Node Walk_On by (simp add: Let_def Cons e visits_append)
          next
            case stop: (Walk_Stop a2)
            have "visits visit (walk_list ?p (sort_key fst ces)) a1 = Walk_Stop a2" using stop sub [of a1] by simp
            then show ?thesis using stop c x Dir_Node Walk_On by (simp add: Let_def Cons e visits_append)
          qed (use c x Dir_Node Walk_On in \<open>simp add: Let_def Cons e\<close>)
        qed (use c x in \<open>simp_all add: Let_def Cons e\<close>)
      qed (use rest c x in \<open>cases "visit ?p n acc"; simp add: Let_def Cons e\<close>)+
    qed
  qed simp
qed

text \<open>A property that every visit keeps holds at the end of the walk.\<close>

lemma visits_invariant:
  assumes "P acc" and "\<And>p n a. (p, n) \<in> set xs \<Longrightarrow> P a \<Longrightarrow> (case visit p n a of Walk_On b \<Rightarrow> P b | Walk_Stop b \<Rightarrow> P b | Walk_Reject \<Rightarrow> True)"
  shows "case visits visit xs acc of Walk_On b \<Rightarrow> P b | Walk_Stop b \<Rightarrow> P b | Walk_Reject \<Rightarrow> True"
  using assms
proof (induction visit xs acc rule: visits.induct)
  case (2 visit p n ps acc)
  have v: "case visit p n acc of Walk_On b \<Rightarrow> P b | Walk_Stop b \<Rightarrow> P b | Walk_Reject \<Rightarrow> True" using "2.prems" by simp
  show ?case
  proof (cases "visit p n acc")
    case (Walk_On b)
    have "case visits visit ps b of Walk_On b \<Rightarrow> P b | Walk_Stop b \<Rightarrow> P b | Walk_Reject \<Rightarrow> True"
      by (rule "2.IH" [OF Walk_On]) (use v Walk_On "2.prems"(2) in auto)
    then show ?thesis using Walk_On by simp
  qed (use v in auto)
qed simp

subsection \<open>Which nodes those are\<close>

text \<open>A tree of files: each directory has each name once, and names are names.\<close>

primrec node_wf :: "node \<Rightarrow> bool" where
  "node_wf (Dir_Node m es) \<longleftrightarrow> distinct (map fst es) \<and> list_all plain_comp (map fst es)
     \<and> list_all snd (map (map_prod id node_wf) es)"
| "node_wf (Regular_Node m c) \<longleftrightarrow> True"
| "node_wf (Symlink_Node m) \<longleftrightarrow> True"
| "node_wf (Special_Node m) \<longleftrightarrow> True"

lemma node_wf_dir [simp]:
  "node_wf (Dir_Node m es) \<longleftrightarrow> distinct (map fst es) \<and> list_all (\<lambda>p. plain_comp (fst p) \<and> node_wf (snd p)) es"
  by (auto simp: list_all_iff)

declare node_wf.simps(1) [simp del]

definition rel_path :: "string list \<Rightarrow> string" where
  "rel_path cs = (if cs = [] then ''.'' else join_with [slash] cs)"

lemma join_with_snoc: "cs \<noteq> [] \<Longrightarrow> join_with d (cs @ [c]) = join_with d cs @ d @ c"
proof (induction cs)
  case (Cons a cs)
  then show ?case by (cases cs) auto
qed simp

lemma child_rel_path: "list_all plain_comp cs \<Longrightarrow> child_path (rel_path cs) c = rel_path (cs @ [c])"
  using join_plain_relative(2) [of cs] by (cases "cs = []") (auto simp: child_path_def rel_path_def join_with_snoc)

lemma rel_path_inj:
  "list_all plain_comp cs \<Longrightarrow> list_all plain_comp ds \<Longrightarrow> rel_path cs = rel_path ds \<Longrightarrow> cs = ds"
proof -
  assume p: "list_all plain_comp cs" "list_all plain_comp ds" and eq: "rel_path cs = rel_path ds"
  show "cs = ds"
  proof (cases "cs = [] \<or> ds = []")
    case True
    then show ?thesis using p eq join_plain_relative(2) [OF p(1)] join_plain_relative(2) [OF p(2)]
      by (auto simp: rel_path_def split: if_splits)
  next
    case False
    then show ?thesis using split_plain p eq by (metis rel_path_def)
  qed
qed

lemma split_rel_path: "list_all plain_comp cs \<Longrightarrow> cs \<noteq> [] \<Longrightarrow> split_on slash (rel_path cs) = cs"
  by (simp add: rel_path_def split_plain)

text \<open>The way from a directory down to a node leads over available names that are no links.\<close>

fun way_open :: "string list \<Rightarrow> node \<Rightarrow> string list \<Rightarrow> bool" where
  "way_open cs d [] = True"
| "way_open cs d (x # xs) =
    (case node_at d [x] of
       None \<Rightarrow> False
     | Some n \<Rightarrow> \<not> isUnavailable (rel_path (cs @ [x])) \<and> \<not> is_symlink_node n \<and> way_open (cs @ [x]) n xs)"

lemma distinct_sort [simp]: "distinct (map fst (sort_key fst es)) = distinct (map fst es)"
  by (simp add: distinct_map)

lemma map_of_sort: "distinct (map fst es) \<Longrightarrow> map_of (sort_key fst es) = map_of es"
  by (subst map_of_inject_set) (simp_all add: distinct_map)

lemma way_open_sort:
  "distinct (map fst es) \<Longrightarrow> way_open cs (Dir_Node m (sort_key fst es)) xs = way_open cs (Dir_Node m es) xs
     \<and> node_at (Dir_Node m (sort_key fst es)) (y # ys) = node_at (Dir_Node m es) (y # ys)"
  by (cases xs) (simp_all add: map_of_sort)

lemma way_open_leaf: "\<not> is_dir_node x \<Longrightarrow> way_open cs x ys \<Longrightarrow> ys = []"
  by (cases ys; cases x) auto

lemma walk_list_set:
  "list_all plain_comp cs \<Longrightarrow> rel = rel_path cs \<Longrightarrow> distinct (map fst es) \<Longrightarrow>
   list_all (\<lambda>p. plain_comp (fst p) \<and> node_wf (snd p)) es \<Longrightarrow>
   (p, n) \<in> set (walk_list rel es) \<longleftrightarrow>
     (\<exists>xs. xs \<noteq> [] \<and> way_open cs (Dir_Node m es) xs \<and> node_at (Dir_Node m es) xs = Some n \<and> p = rel_path (cs @ xs))"
proof (induction rel es arbitrary: cs m rule: walk_list.induct)
  case (1 rel)
  then show ?case by (auto simp: neq_Nil_conv)
next
  case (2 rel name x es)
  let ?p = "child_path rel name" and ?q = "\<lambda>m es xs. way_open cs (Dir_Node m es) xs \<and> node_at (Dir_Node m es) xs = Some n"
  have p: "?p = rel_path (cs @ [name])" using 2 child_rel_path by simp
  have plain: "list_all plain_comp (cs @ [name])" using 2 by simp
  have rest: "(p, n) \<in> set (walk_list rel es) \<longleftrightarrow> (\<exists>xs. xs \<noteq> [] \<and> ?q m es xs \<and> p = rel_path (cs @ xs))"
    by (cases "isUnavailable ?p \<or> is_symlink_node x") (use 2 in auto)
  have fresh: "\<not> ?q m es (name # xs)" for xs
  proof -
    have "map_of es name = None" using "2.prems"(3) by (simp add: map_of_eq_None_iff)
    then show ?thesis by simp
  qed
  have other: "?q m ((name, x) # es) (c # xs) \<longleftrightarrow> ?q m es (c # xs)" if "c \<noteq> name" for c xs
    using that by simp
  show ?case
  proof (cases "isUnavailable ?p \<or> is_symlink_node x")
    case True
    have no: "\<not> ?q m ((name, x) # es) (name # xs)" for xs using True p by auto
    have "(\<exists>xs. xs \<noteq> [] \<and> ?q m ((name, x) # es) xs \<and> p = rel_path (cs @ xs))
        \<longleftrightarrow> (\<exists>xs. xs \<noteq> [] \<and> ?q m es xs \<and> p = rel_path (cs @ xs))"
      using no fresh other by (metis list.exhaust)
    then show ?thesis using rest True by (auto simp: Let_def)
  next
    case False
    let ?sub = "case x of Dir_Node _ ces \<Rightarrow> walk_list ?p (sort_key fst ces) | _ \<Rightarrow> []"
    have sub: "(p, n) \<in> set ?sub \<longleftrightarrow>
        (\<exists>ys. ys \<noteq> [] \<and> way_open (cs @ [name]) x ys \<and> node_at x ys = Some n \<and> p = rel_path (cs @ name # ys))"
    proof (cases "is_dir_node x")
      case True
      then obtain m' ces where Dir_Node: "x = Dir_Node m' ces" by (auto elim: is_dir_node.elims)
      have wf: "distinct (map fst ces)" "list_all (\<lambda>p. plain_comp (fst p) \<and> node_wf (snd p)) ces"
        using "2.prems"(4) Dir_Node by simp_all
      have "(p, n) \<in> set (walk_list ?p (sort_key fst ces)) \<longleftrightarrow>
        (\<exists>xs. xs \<noteq> [] \<and> way_open (cs @ [name]) (Dir_Node m' (sort_key fst ces)) xs
           \<and> node_at (Dir_Node m' (sort_key fst ces)) xs = Some n \<and> p = rel_path ((cs @ [name]) @ xs))"
        by (rule "2.IH"(2) [OF refl False Dir_Node plain p]) (use wf in \<open>auto simp: list_all_iff\<close>)
      moreover have "ys \<noteq> [] \<and> way_open (cs @ [name]) (Dir_Node m' (sort_key fst ces)) ys
           \<and> node_at (Dir_Node m' (sort_key fst ces)) ys = Some n \<and> p = rel_path ((cs @ [name]) @ ys)
         \<longleftrightarrow> ys \<noteq> [] \<and> way_open (cs @ [name]) x ys \<and> node_at x ys = Some n \<and> p = rel_path (cs @ name # ys)" for ys
        using Dir_Node way_open_sort [OF wf(1)] by (cases ys) simp_all
      ultimately show ?thesis using Dir_Node by simp
    next
      case leaf: False
      have "way_open (cs @ [name]) x ys \<Longrightarrow> ys = []" for ys by (rule way_open_leaf [OF leaf])
      moreover have "?sub = []" using leaf by (cases x) simp_all
      ultimately show ?thesis by auto
    qed
    have "(\<exists>xs. xs \<noteq> [] \<and> ?q m ((name, x) # es) xs \<and> p = rel_path (cs @ xs)) \<longleftrightarrow>
        (p, n) = (?p, x) \<or> (\<exists>ys. ys \<noteq> [] \<and> way_open (cs @ [name]) x ys \<and> node_at x ys = Some n \<and> p = rel_path (cs @ name # ys))
        \<or> (\<exists>xs. xs \<noteq> [] \<and> ?q m es xs \<and> p = rel_path (cs @ xs))" (is "?l \<longleftrightarrow> ?r1 \<or> ?r2 \<or> ?r3")
    proof
      assume ?l
      then obtain c ys where xs: "?q m ((name, x) # es) (c # ys)" "p = rel_path (cs @ c # ys)" by (metis list.exhaust)
      show "?r1 \<or> ?r2 \<or> ?r3"
      proof (cases "c = name")
        case True
        then show ?thesis using xs p by (cases "ys = []") auto
      next
        case False
        then show ?thesis using xs other [OF False] by blast
      qed
    next
      assume r: "?r1 \<or> ?r2 \<or> ?r3"
      have "?l" if ?r1 using that False p by (intro exI [of _ "[name]"]) auto
      moreover have "?l" if ?r2
      proof -
        obtain ys where "way_open (cs @ [name]) x ys" "node_at x ys = Some n" "p = rel_path (cs @ name # ys)" using \<open>?r2\<close> by blast
        then show ?l using False p by (intro exI [of _ "name # ys"]) auto
      qed
      moreover have "?l" if ?r3
      proof -
        obtain c ys where xs: "?q m es (c # ys)" "p = rel_path (cs @ c # ys)" using \<open>?r3\<close> by (metis list.exhaust)
        then show ?l using fresh other [of c ys] by (metis list.distinct(1))
      qed
      ultimately show ?l using r by blast
    qed
    then show ?thesis using sub rest False by (auto simp: Let_def)
  qed
qed

lemma node_wf_at: "node_wf d \<Longrightarrow> node_at d cs = Some n \<Longrightarrow> node_wf n \<and> list_all plain_comp cs"
proof (induction d cs rule: node_at.induct)
  case (2 m es c cs)
  then obtain x where x: "map_of es c = Some x" "node_at x cs = Some n" by (auto split: option.splits)
  then have "plain_comp c \<and> node_wf x" using "2.prems"(1) map_of_SomeD [OF x(1)] by (fastforce simp: list_all_iff)
  then show ?case using "2.IH" [OF x(1)] x(2) by simp
qed auto

lemma way_open_last: "way_open cs d xs \<Longrightarrow> xs \<noteq> [] \<Longrightarrow> \<not> isUnavailable (rel_path (cs @ xs))"
proof (induction cs d xs rule: way_open.induct)
  case (2 cs d x xs)
  then show ?case by (cases "xs = []") (auto split: option.splits)
qed simp

text \<open>A child that is opened from the root is the node of its path.\<close>

lemma opened_child:
  assumes "openExistingRelative w disk (rel_path cs) True = Some (n, p)" and "list_all plain_comp cs"
  shows "node_at disk cs = Some n \<and> p = rel_path cs"
proof -
  have c: "cleanRelativePath (rel_path cs) = Some p" using openExisting_cases [OF assms(1)] by simp
  have p: "p = rel_path cs"
    using c cleanRelativePath_plain [OF assms(2), of p] cleanRelativePath_dot by (cases "cs = []") (auto simp: rel_path_def)
  show ?thesis
  proof (cases "cs = []")
    case True
    then show ?thesis using openExisting_cases [OF assms(1)] p by (auto simp: rel_path_def slash_def split: if_splits)
  next
    case False
    then have "p \<noteq> ''.''" using p join_plain_relative(2) [OF assms(2)] by (simp add: rel_path_def)
    then show ?thesis
      using openExisting_cases [OF assms(1)] p split_rel_path [OF assms(2) False] open_components_node by auto
  qed
qed

text \<open>What a path that was opened is.\<close>

lemma opened_path:
  assumes "openExistingRelative w disk input r = Some (n, p)"
  obtains cs where "list_all plain_comp cs" and "p = rel_path cs" and "node_at disk cs = Some n" and "\<not> isUnavailable p"
proof (cases "p = ''.''")
  case True
  then show ?thesis using that [of "[]"] openExisting_cases [OF assms] by (auto simp: rel_path_def)
next
  case False
  then have "p = join_with [slash] (clean_comps input)" "split_on slash p = clean_comps input" "clean_comps input \<noteq> []"
    "list_all plain_comp (clean_comps input)"
    using openExisting_cases [OF assms] cleanRelativePath_shape by blast+
  then show ?thesis using that [of "clean_comps input"] openExisting_cases [OF assms] False open_components_node
    by (auto simp: rel_path_def)
qed

text \<open>The nodes that are visited below a directory are those whose way leads over available names.\<close>

lemma walk_list_dir:
  assumes "list_all plain_comp cs" and "node_at disk cs = Some (Dir_Node m es)" and "node_wf disk"
  shows "(p, n) \<in> set (walk_list (rel_path cs) (sort_key fst es)) \<longleftrightarrow>
    (\<exists>xs. xs \<noteq> [] \<and> way_open cs (Dir_Node m es) xs \<and> node_at (Dir_Node m es) xs = Some n \<and> p = rel_path (cs @ xs))"
proof -
  have wf: "distinct (map fst es)" "list_all (\<lambda>p. plain_comp (fst p) \<and> node_wf (snd p)) es"
    using node_wf_at [OF assms(3,2)] by auto
  have "(p, n) \<in> set (walk_list (rel_path cs) (sort_key fst es)) \<longleftrightarrow>
    (\<exists>xs. xs \<noteq> [] \<and> way_open cs (Dir_Node m (sort_key fst es)) xs \<and> node_at (Dir_Node m (sort_key fst es)) xs = Some n
       \<and> p = rel_path (cs @ xs))"
    by (rule walk_list_set [OF assms(1) refl]) (use wf in \<open>auto simp: list_all_iff\<close>)
  moreover have "xs \<noteq> [] \<and> way_open cs (Dir_Node m (sort_key fst es)) xs \<and> node_at (Dir_Node m (sort_key fst es)) xs = Some n
      \<and> p = rel_path (cs @ xs) \<longleftrightarrow>
    xs \<noteq> [] \<and> way_open cs (Dir_Node m es) xs \<and> node_at (Dir_Node m es) xs = Some n \<and> p = rel_path (cs @ xs)" for xs
    using way_open_sort [OF wf(1)] by (cases xs) simp_all
  ultimately show ?thesis by simp
qed

subsection \<open>Searching\<close>

record repo_match =
  mt_Path :: string
  mt_Line :: nat
  mt_Text :: string
  mt_Truncated :: bool

record search_acc =
  sa_matches :: "repo_match list"
  sa_truncated :: bool
  sa_files :: nat
  sa_bytes :: nat
  sa_output :: nat

definition maxQueryBytes :: nat where "maxQueryBytes = 512"
definition maxMatches :: nat where "maxMatches = 100"
definition maxMatchTextBytes :: nat where "maxMatchTextBytes = 4096"
definition maxSearchOutputBytes :: nat where "maxSearchOutputBytes = 262144"

lemmas search_bounds = maxQueryBytes_def maxMatches_def maxMatchTextBytes_def maxSearchOutputBytes_def

fun find_sub :: "string \<Rightarrow> string \<Rightarrow> nat option" where
  "find_sub q [] = (if q = [] then Some 0 else None)"
| "find_sub q (c # cs) = (if prefix q (c # cs) then Some 0 else map_option Suc (find_sub q cs))"

text \<open>Dropping bytes at the end until the rest is valid.\<close>

function trim_invalid :: "string \<Rightarrow> string" where
  "trim_invalid s = (if s = [] \<or> utf8_valid s then s else trim_invalid (butlast s))"
  by pat_completeness auto
termination by (relation "measure length") auto

declare trim_invalid.simps [simp del]

definition rune_start :: "char \<Rightarrow> bool" where
  "rune_start c \<longleftrightarrow> \<not> in_byte_range 128 191 c"

definition matchPreview :: "string \<Rightarrow> string \<Rightarrow> string \<times> bool" where
  "matchPreview line q =
    (if length line \<le> maxMatchTextBytes then (line, False)
     else (let matchIndex = (case find_sub q line of None \<Rightarrow> 0 | Some i \<Rightarrow> i);
               s = matchIndex - (maxMatchTextBytes - length q) div 2;
               fits = s + maxMatchTextBytes \<le> length line;
               start = (if fits then s else length line - maxMatchTextBytes);
               stop = (if fits then s + maxMatchTextBytes else length line)
           in (trim_invalid (dropWhile (\<lambda>c. \<not> rune_start c) (drop start (take stop line))), True)))"

definition match_cost :: "repo_match \<Rightarrow> nat" where
  "match_cost m = length (mt_Path m) + length (mt_Text m) + 64"

fun search_lines ::
  "string \<Rightarrow> string \<Rightarrow> nat \<Rightarrow> nat \<Rightarrow> nat \<Rightarrow> string list \<Rightarrow> repo_match list \<Rightarrow> nat \<Rightarrow> repo_match list \<times> nat \<times> bool" where
  "search_lines q rel matchLimit outputLimit i [] matches used = (matches, used, False)"
| "search_lines q rel matchLimit outputLimit i (l # ls) matches used =
    (if \<not> sublist q l then search_lines q rel matchLimit outputLimit (i + 1) ls matches used
     else (case matchPreview l q of
             (preview, previewTruncated) \<Rightarrow>
               (let m = \<lparr>mt_Path = rel, mt_Line = i + 1, mt_Text = preview, mt_Truncated = previewTruncated\<rparr>
                in if length matches = matchLimit \<or> outputLimit < used + match_cost m then (matches, used, True)
                   else search_lines q rel matchLimit outputLimit (i + 1) ls (matches @ [m]) (used + match_cost m))))"

definition searchTextOpenFile :: "string \<Rightarrow> node \<Rightarrow> string \<Rightarrow> nat \<Rightarrow> nat \<Rightarrow> (repo_match list \<times> nat \<times> bool) option" where
  "searchTextOpenFile q file rel matchLimit outputLimit =
    (if matchLimit = 0 \<or> outputLimit = 0 then Some ([], 0, True)
     else map_option (\<lambda>content. search_lines q rel matchLimit outputLimit 0 (split_on LF content) [] 0) (readTextOpenFile file))"

fun file_size :: "node \<Rightarrow> nat" where
  "file_size (Regular_Node _ content) = length content"
| "file_size _ = 0"

definition searchOpenedFile :: "repo_ws \<Rightarrow> string \<Rightarrow> string \<Rightarrow> node \<Rightarrow> search_acc \<Rightarrow> search_acc walk" where
  "searchOpenedFile w q rel file acc =
    (if \<not> is_regular_node file then Walk_On acc
     else if maxFileBytes < file_size file then Walk_On acc
     else if rp_maxSearchFiles w \<le> sa_files acc \<or> rp_maxSearchBytes w < sa_bytes acc + file_size file
     then Walk_Stop (acc\<lparr>sa_truncated := True\<rparr>)
     else (let acc1 = acc\<lparr>sa_files := sa_files acc + 1, sa_bytes := sa_bytes acc + file_size file\<rparr>
           in case searchTextOpenFile q file rel (maxMatches - length (sa_matches acc)) (maxSearchOutputBytes - sa_output acc) of
                None \<Rightarrow> Walk_On acc1
              | Some (ms, used, truncated) \<Rightarrow>
                  (let acc2 = acc1\<lparr>sa_matches := sa_matches acc @ ms, sa_output := sa_output acc + used\<rparr>
                   in if truncated \<or> length (sa_matches acc2) = maxMatches \<or> maxSearchOutputBytes \<le> sa_output acc2
                      then Walk_Stop (acc2\<lparr>sa_truncated := True\<rparr>) else Walk_On acc2)))"

definition search_visit :: "repo_ws \<Rightarrow> string \<Rightarrow> string \<Rightarrow> node \<Rightarrow> search_acc \<Rightarrow> search_acc walk" where
  "search_visit w q rel n acc = (if is_dir_node n then Walk_On acc else searchOpenedFile w q rel n acc)"

definition searchDirectory ::
  "repo_ws \<Rightarrow> node \<Rightarrow> (string \<Rightarrow> bool) \<Rightarrow> string \<Rightarrow> string \<Rightarrow> node \<Rightarrow> search_acc \<Rightarrow> search_acc walk" where
  "searchDirectory w disk cancelled q rel dir acc = walk_directory w disk cancelled False (search_visit w q) rel dir acc"

definition empty_search :: search_acc where
  "empty_search = \<lparr>sa_matches = [], sa_truncated = False, sa_files = 0, sa_bytes = 0, sa_output = 0\<rparr>"

definition repo_Search ::
  "repo_ws \<Rightarrow> node \<Rightarrow> go_ctx \<Rightarrow> (string \<Rightarrow> bool) \<Rightarrow> string \<Rightarrow> string \<Rightarrow> (repo_match list \<times> bool) option" where
  "repo_Search w disk ctx cancelled q scope =
    (if ctx = Ctx_Nil \<or> q = [] \<or> maxQueryBytes < length q \<or> \<not> utf8_valid q then None
     else if ctx_err ctx then None
     else (case openExistingRelative w disk (if scope = [] then ''.'' else scope) True of
             None \<Rightarrow> None
           | Some (file, rel) \<Rightarrow>
               if \<not> is_dir_node file \<and> \<not> is_regular_node file then None
               else (case (if is_dir_node file then searchDirectory w disk cancelled q rel file empty_search
                           else searchOpenedFile w q rel file empty_search) of
                       Walk_On acc \<Rightarrow> Some (sa_matches acc, sa_truncated acc)
                     | Walk_Stop acc \<Rightarrow> Some (sa_matches acc, sa_truncated acc)
                     | Walk_Reject \<Rightarrow> None)))"

text \<open>A preview is a part of its line of at most four kilobytes.\<close>

lemma trim_invalid_prefix: "prefix (trim_invalid s) s"
proof (induction s rule: trim_invalid.induct)
  case (1 s)
  then show ?case
    using prefix_order.trans [of "trim_invalid (butlast s)" "butlast s" s] prefixeq_butlast [of s]
    by (cases "s = [] \<or> utf8_valid s") (simp_all add: trim_invalid.simps [of s])
qed

lemma sublist_drop_take: "sublist (drop i (take j l)) l"
  using sublist_order.order.trans [OF sublist_drop sublist_take] .

lemma matchPreview_part:
  "sublist (fst (matchPreview l q)) l \<and> length (fst (matchPreview l q)) \<le> maxMatchTextBytes
   \<and> (\<not> snd (matchPreview l q) \<longrightarrow> fst (matchPreview l q) = l)"
proof (cases "length l \<le> maxMatchTextBytes")
  case False
  let ?m = "case find_sub q l of None \<Rightarrow> 0 | Some i \<Rightarrow> i"
  let ?s = "?m - (maxMatchTextBytes - length q) div 2"
  let ?fits = "?s + maxMatchTextBytes \<le> length l"
  define i where "i = (if ?fits then ?s else length l - maxMatchTextBytes)"
  define j where "j = (if ?fits then ?s + maxMatchTextBytes else length l)"
  let ?w = "drop i (take j l)"
  let ?t = "trim_invalid (dropWhile (\<lambda>c. \<not> rune_start c) ?w)"
  have s: "matchPreview l q = (?t, True)" using False by (simp add: matchPreview_def Let_def i_def j_def)
  have "j \<le> i + maxMatchTextBytes"
  proof (cases ?fits)
    case True
    show ?thesis unfolding i_def j_def if_P [OF True] by (rule order_refl)
  next
    case nofit: False
    show ?thesis unfolding i_def j_def if_not_P [OF nofit] using False by simp
  qed
  then have len: "length ?w \<le> maxMatchTextBytes" by simp
  have pre: "prefix ?t (dropWhile (\<lambda>c. \<not> rune_start c) ?w)" by (rule trim_invalid_prefix)
  have suf: "suffix (dropWhile (\<lambda>c. \<not> rune_start c) ?w) ?w" by (rule suffix_dropWhile)
  have "sublist ?t ?w"
    by (rule sublist_order.order.trans [OF prefix_imp_sublist [OF pre] suffix_imp_sublist [OF suf]])
  then have "sublist ?t l" by (rule sublist_order.order.trans [OF _ sublist_drop_take])
  moreover have "length ?t \<le> maxMatchTextBytes"
    using prefix_length_le [OF pre] suffix_length_le [OF suf] len by linarith
  ultimately show ?thesis by (simp add: s)
qed (simp add: matchPreview_def)

text \<open>A match that is true of a text.\<close>

definition match_at :: "string \<Rightarrow> string \<Rightarrow> string \<Rightarrow> repo_match \<Rightarrow> bool" where
  "match_at q rel content m \<longleftrightarrow> mt_Path m = rel \<and> 1 \<le> mt_Line m \<and> mt_Line m \<le> length (split_on LF content)
     \<and> sublist q (split_on LF content ! (mt_Line m - 1)) \<and> sublist (mt_Text m) (split_on LF content ! (mt_Line m - 1))
     \<and> length (mt_Text m) \<le> maxMatchTextBytes \<and> (\<not> mt_Truncated m \<longrightarrow> mt_Text m = split_on LF content ! (mt_Line m - 1))"

lemma search_lines_spec:
  assumes "search_lines q rel ml ol i ls ms used = (ms', used', tr)" and "drop i (split_on LF content) = ls"
    and "list_all (match_at q rel content) ms" and "length ms \<le> ml" and "used \<le> ol"
    and "sum_list (map match_cost ms) = used"
  shows "list_all (match_at q rel content) ms' \<and> length ms' \<le> ml \<and> used' \<le> ol \<and> sum_list (map match_cost ms') = used'"
  using assms
proof (induction q rel ml ol i ls ms used rule: search_lines.induct)
  case (2 q rel ml ol i l ls ms used)
  have i: "i < length (split_on LF content)" "split_on LF content ! i = l" "drop (i + 1) (split_on LF content) = ls"
    using "2.prems"(2) by (metis drop_all linorder_not_le list.distinct(1), metis nth_via_drop,
      metis drop_drop drop_Suc_Cons drop0 One_nat_def add.commute)
  obtain preview tr' where p: "matchPreview l q = (preview, tr')" by (cases "matchPreview l q")
  let ?m = "\<lparr>mt_Path = rel, mt_Line = i + 1, mt_Text = preview, mt_Truncated = tr'\<rparr>"
  show ?case
  proof (cases "sublist q l")
    case False
    then show ?thesis using "2.IH"(1) "2.prems" i(3) by simp
  next
    case True
    show ?thesis
    proof (cases "length ms = ml \<or> ol < used + match_cost ?m")
      case True
      then show ?thesis using "2.prems" \<open>sublist q l\<close> p by (simp add: Let_def)
    next
      case False
      have "match_at q rel content ?m"
        using matchPreview_part [of l q] p \<open>sublist q l\<close> i by (simp add: match_at_def)
      then show ?thesis
        by (intro "2.IH"(2) [OF _ p [symmetric] refl]) (use "2.prems" \<open>sublist q l\<close> p False i(3) in \<open>auto simp: Let_def\<close>)
    qed
  qed
qed simp

text \<open>What the accumulator keeps: the matches are true of available files of the disk, and within the bounds.\<close>

definition acc_ok :: "node \<Rightarrow> string \<Rightarrow> search_acc \<Rightarrow> bool" where
  "acc_ok disk q acc \<longleftrightarrow> length (sa_matches acc) \<le> maxMatches
     \<and> sum_list (map match_cost (sa_matches acc)) = sa_output acc \<and> sa_output acc \<le> maxSearchOutputBytes
     \<and> (\<forall>m \<in> set (sa_matches acc). \<not> isUnavailable (mt_Path m) \<and>
          (\<exists>cs meta content. list_all plain_comp cs \<and> mt_Path m = rel_path cs
             \<and> node_at disk cs = Some (Regular_Node meta content) \<and> match_at q (mt_Path m) content m))"

lemma searchTextOpenFile_spec:
  assumes "searchTextOpenFile q opened rel ml ol = Some (ms, used, tr)"
  shows "length ms \<le> ml \<and> used \<le> ol \<and> sum_list (map match_cost ms) = used
    \<and> (\<forall>m \<in> set ms. \<exists>meta content. opened = Regular_Node meta content \<and> match_at q rel content m)"
proof (cases "ml = 0 \<or> ol = 0")
  case True
  then show ?thesis using assms by (auto simp: searchTextOpenFile_def)
next
  case False
  then obtain content where c: "readTextOpenFile opened = Some content"
    and s: "search_lines q rel ml ol 0 (split_on LF content) [] 0 = (ms, used, tr)"
    using assms by (auto simp: searchTextOpenFile_def)
  obtain meta where "opened = Regular_Node meta content" using c by (cases opened) (auto simp: readTextOpenFile_def split: if_splits)
  then show ?thesis using search_lines_spec [OF s, of content] by (auto simp: list_all_iff)
qed

lemma searchOpenedFile_ok:
  assumes ok: "acc_ok disk q acc" and cs: "list_all plain_comp cs" and at: "node_at disk cs = Some n"
    and av: "\<not> isUnavailable (rel_path cs)"
  shows "case searchOpenedFile w q (rel_path cs) n acc of
      Walk_On b \<Rightarrow> acc_ok disk q b | Walk_Stop b \<Rightarrow> acc_ok disk q b | Walk_Reject \<Rightarrow> True"
proof -
  have *: "acc_ok disk q (acc\<lparr>sa_files := f, sa_bytes := b, sa_matches := sa_matches acc @ ms, sa_output := sa_output acc + used, sa_truncated := t\<rparr>)"
    if "searchTextOpenFile q n (rel_path cs) (maxMatches - length (sa_matches acc)) (maxSearchOutputBytes - sa_output acc) = Some (ms, used, tr)"
    for f b ms used tr t
    unfolding acc_ok_def
    using searchTextOpenFile_spec [OF that] ok cs at av by (fastforce simp: acc_ok_def match_at_def)
  have plain: "acc_ok disk q (acc\<lparr>sa_files := f, sa_bytes := b\<rparr>)" "acc_ok disk q (acc\<lparr>sa_truncated := t\<rparr>)" for f b t
    using ok by (auto simp: acc_ok_def)
  show ?thesis
    using ok * [where t = "sa_truncated acc"] * [where t = True] plain
    by (auto simp: searchOpenedFile_def Let_def split: option.splits)
qed

text \<open>C31: A search answers with true matches, within its bounds: at most a hundred, of at most 256 kilobytes together;
  each is a line, with its number, of a regular file that the policy makes available, the line contains the
  query, and the text is a part of it of at most four kilobytes, the whole line unless it is marked.\<close>

theorem search_sound:
  assumes "repo_Search w disk ctx cancelled q scope = Some (matches, truncated)" and "node_wf disk" and "is_dir_node disk"
  shows "length matches \<le> 100 \<and> sum_list (map match_cost matches) \<le> 262144
    \<and> (\<forall>m \<in> set matches. \<exists>cs meta content. list_all plain_comp cs \<and> mt_Path m = rel_path cs \<and> \<not> isUnavailable (mt_Path m)
         \<and> node_at disk cs = Some (Regular_Node meta content) \<and> match_at q (mt_Path m) content m)"
proof -
  from assms(1) obtain opened rel acc where o: "openExistingRelative w disk (if scope = [] then ''.'' else scope) True = Some (opened, rel)"
    and s: "(if is_dir_node opened then searchDirectory w disk cancelled q rel opened empty_search
             else searchOpenedFile w q rel opened empty_search) \<in> {Walk_On acc, Walk_Stop acc}"
    and m: "matches = sa_matches acc"
    by (auto simp: repo_Search_def split: if_splits option.splits walk.splits)
  obtain cs where cs: "list_all plain_comp cs" "rel = rel_path cs" "node_at disk cs = Some opened" "\<not> isUnavailable rel"
    by (rule opened_path [OF o])
  have empty: "acc_ok disk q empty_search" by (simp add: acc_ok_def empty_search_def)
  have "acc_ok disk q acc"
  proof (cases "is_dir_node opened")
    case False
    then show ?thesis using s searchOpenedFile_ok [OF empty cs(1,3), of w] cs(2,4) by auto
  next
    case True
    then obtain meta es where opened: "opened = Dir_Node meta es" by (auto elim: is_dir_node.elims)
    have dir: "node_at disk cs = Some (Dir_Node meta es)" using cs(3) opened by simp
    have visited: "case search_visit w q p n a of
        Walk_On b \<Rightarrow> acc_ok disk q b | Walk_Stop b \<Rightarrow> acc_ok disk q b | Walk_Reject \<Rightarrow> True"
      if listed: "(p, n) \<in> set (walk_list rel (sort_key fst es))" and acc: "acc_ok disk q a" for p n a
    proof -
      obtain xs where xs: "xs \<noteq> []" "way_open cs (Dir_Node meta es) xs" "node_at (Dir_Node meta es) xs = Some n" "p = rel_path (cs @ xs)"
        using iffD1 [OF walk_list_dir [OF cs(1) dir assms(2)] listed [unfolded cs(2)]] by blast
      then have at: "node_at disk (cs @ xs) = Some n" using dir by (simp add: node_at_append)
      have "list_all plain_comp (cs @ xs)" using node_wf_at [OF assms(2) at] by simp
      then show ?thesis
        using searchOpenedFile_ok [OF acc _ at, of w] way_open_last [OF xs(2,1)] xs(4) acc by (simp add: search_visit_def)
    qed
    have "case visits (search_visit w q) (walk_list rel (sort_key fst es)) empty_search of
        Walk_On b \<Rightarrow> acc_ok disk q b | Walk_Stop b \<Rightarrow> acc_ok disk q b | Walk_Reject \<Rightarrow> True"
      by (rule visits_invariant [where P = "acc_ok disk q", OF empty visited])
    then show ?thesis
      using s True walk_visits [of w disk cancelled False "search_visit w q" rel "sort_key fst es" empty_search]
      by (auto simp: searchDirectory_def walk_directory_def opened)
  qed
  then show ?thesis unfolding m acc_ok_def by (auto simp: search_bounds)
qed

subsection \<open>Snapshots\<close>

record snapshot_entry =
  sn_Path :: string
  sn_Type :: string
  sn_Digest :: string
  sn_Mode :: nat
  sn_Size :: nat

record snapshot_manifest =
  sm_SnapshotID :: string
  sm_Entries :: "snapshot_entry list"

definition maxSnapshotEntries :: nat where "maxSnapshotEntries = 100000"
definition maxSnapshotBytes :: nat where "maxSnapshotBytes = 2147483648"

definition sized :: "string \<Rightarrow> string" where
  "sized s = digits_of (length s) @ '':'' @ s"

definition snapshot_line :: "snapshot_entry \<Rightarrow> string" where
  "snapshot_line e =
     sized (sn_Path e) @ ''|'' @ sized (sn_Type e) @ ''|'' @ sized (sn_Digest e) @ ''|'' @ digits_of (sn_Mode e) @ ''|''
       @ digits_of (sn_Size e) @ [LF]"

definition snapshot_bytes :: "snapshot_entry list \<Rightarrow> string" where
  "snapshot_bytes es = ''m3-snapshot-v1'' @ [LF] @ concat (map snapshot_line es)"

definition snapshotManifestID :: "(string \<Rightarrow> string) \<Rightarrow> snapshot_entry list \<Rightarrow> string" where
  "snapshotManifestID sha es = hex_encode (sha (snapshot_bytes es))"

definition digestOpenFile :: "(string \<Rightarrow> string) \<Rightarrow> node \<Rightarrow> string" where
  "digestOpenFile sha n = hex_encode (sha (case n of Regular_Node _ content \<Rightarrow> content | _ \<Rightarrow> []))"

definition entry_of :: "(string \<Rightarrow> string) \<Rightarrow> string \<Rightarrow> node \<Rightarrow> snapshot_entry" where
  "entry_of sha p n =
    (if is_dir_node n
     then \<lparr>sn_Path = p, sn_Type = ''directory'', sn_Digest = [], sn_Mode = nm_perm (meta_of n), sn_Size = 0\<rparr>
     else \<lparr>sn_Path = p, sn_Type = ''regular'', sn_Digest = digestOpenFile sha n, sn_Mode = nm_perm (meta_of n),
           sn_Size = file_size n\<rparr>)"

text \<open>The accumulator: the entries so far and the bytes of their files.\<close>

definition snapshot_visit ::
  "(string \<Rightarrow> string) \<Rightarrow> string \<Rightarrow> node \<Rightarrow> snapshot_entry list \<times> nat \<Rightarrow> (snapshot_entry list \<times> nat) walk" where
  "snapshot_visit sha p n acc =
    (case acc of (entries, bytes) \<Rightarrow>
       if maxSnapshotEntries \<le> length entries then Walk_Reject
       else if is_dir_node n then Walk_On (entries @ [entry_of sha p n], bytes)
       else if \<not> is_regular_node n \<or> maxSnapshotBytes < bytes + file_size n then Walk_Reject
       else Walk_On (entries @ [entry_of sha p n], bytes + file_size n))"

definition snapshotDirectory ::
  "(string \<Rightarrow> string) \<Rightarrow> repo_ws \<Rightarrow> node \<Rightarrow> (string \<Rightarrow> bool) \<Rightarrow> node \<Rightarrow> string \<Rightarrow> snapshot_entry list \<times> nat
     \<Rightarrow> (snapshot_entry list \<times> nat) walk" where
  "snapshotDirectory sha w disk cancelled dir rel acc = walk_directory w disk cancelled True (snapshot_visit sha) rel dir acc"

definition repo_Snapshot ::
  "(string \<Rightarrow> string) \<Rightarrow> repo_ws \<Rightarrow> node \<Rightarrow> go_ctx \<Rightarrow> (string \<Rightarrow> bool) \<Rightarrow> snapshot_manifest option" where
  "repo_Snapshot sha w disk ctx cancelled =
    (if ctx = Ctx_Nil then None
     else (case openExistingRelative w disk ''.'' True of
             None \<Rightarrow> None
           | Some (root, _) \<Rightarrow>
               (case snapshotDirectory sha w disk cancelled root ''.'' ([], 0) of
                  Walk_On (entries, _) \<Rightarrow> Some \<lparr>sm_SnapshotID = snapshotManifestID sha entries, sm_Entries = entries\<rparr>
                | _ \<Rightarrow> None)))"

lemma visits_snapshot:
  "visits (snapshot_visit sha) xs (es, b) = Walk_On (es', b') \<Longrightarrow> es' = es @ map (\<lambda>(p, n). entry_of sha p n) xs"
proof (induction xs arbitrary: es b)
  case (Cons x xs)
  obtain p n where x: "x = (p, n)" by (cases x)
  from Cons.prems obtain r where r: "snapshot_visit sha p n (es, b) = Walk_On r" "visits (snapshot_visit sha) xs r = Walk_On (es', b')"
    by (auto simp: x split: walk.splits)
  then obtain b1 where "r = (es @ [entry_of sha p n], b1)" by (auto simp: snapshot_visit_def split: if_splits)
  then have "visits (snapshot_visit sha) xs (es @ [entry_of sha p n], b1) = Walk_On (es', b')" using r(2) by simp
  from Cons.IH [OF this] show ?case by (simp add: x)
qed simp

text \<open>What a snapshot refuses: a link at an available name ends a strict walk, and anything but a directory or a
  regular file ends the snapshot.\<close>

function links_absent :: "string \<Rightarrow> (string \<times> node) list \<Rightarrow> bool" where
  "links_absent rel [] = True"
| "links_absent rel ((name, n) # es) =
    ((isUnavailable (child_path rel name)
      \<or> (\<not> is_symlink_node n
         \<and> (case n of Dir_Node _ ces \<Rightarrow> links_absent (child_path rel name) (sort_key fst ces) | _ \<Rightarrow> True)))
     \<and> links_absent rel es)"
  by pat_completeness auto
termination
  by (relation "measure (\<lambda>(_, es). entries_weight es)") auto

lemma links_absent_member:
  "links_absent rel es \<Longrightarrow> (name, n) \<in> set es \<Longrightarrow> \<not> isUnavailable (child_path rel name) \<Longrightarrow>
     \<not> is_symlink_node n \<and> (\<forall>m ces. n = Dir_Node m ces \<longrightarrow> links_absent (child_path rel name) (sort_key fst ces))"
  by (induction es) auto

lemma strict_walk_links:
  "walk_entries w disk cancelled True visit rel es acc = Walk_On r \<Longrightarrow> links_absent rel es"
proof (induction es arbitrary: rel acc r rule: measure_induct_rule [where f = entries_weight])
  case (less es)
  show ?case
  proof (cases es)
    case (Cons e es')
    obtain name n where e: "e = (name, n)" by (cases e)
    let ?p = "child_path rel name"
    have rest: "walk_entries w disk cancelled True visit rel es' a = Walk_On r' \<Longrightarrow> links_absent rel es'" for a r'
      by (rule less.IH) (simp_all add: Cons e)
    show ?thesis
    proof (cases "isUnavailable ?p")
      case True
      then show ?thesis using less.prems rest by (auto simp: Cons e Let_def split: if_splits)
    next
      case False
      show ?thesis
      proof (cases n)
        case (Dir_Node m ces)
        have sub: "walk_entries w disk cancelled True visit ?p (sort_key fst ces) a = Walk_On r'
            \<Longrightarrow> links_absent ?p (sort_key fst ces)" for a r'
          by (rule less.IH) (simp_all add: Cons e Dir_Node)
        show ?thesis using less.prems False rest sub
          by (auto simp: Cons e Let_def Dir_Node split: if_splits option.splits walk.splits)
      qed (use less.prems False rest in \<open>auto simp: Cons e Let_def split: if_splits option.splits walk.splits\<close>)
    qed
  qed simp
qed

text \<open>Where no link is at an available name, the nodes that are visited are those whose path is available: the
  path and all its beginnings are neither protected nor generated names.\<close>

definition available_path :: "string list \<Rightarrow> bool" where
  "available_path xs \<longleftrightarrow> (\<forall>ps. ps \<noteq> [] \<longrightarrow> prefix ps xs \<longrightarrow> \<not> isUnavailable (rel_path ps))"

lemma links_absent_way:
  assumes "links_absent (rel_path cs) (sort_key fst es)" and "list_all plain_comp cs" and "node_wf (Dir_Node m es)"
    and "node_at (Dir_Node m es) xs = Some n" and "\<forall>ps. ps \<noteq> [] \<longrightarrow> prefix ps xs \<longrightarrow> \<not> isUnavailable (rel_path (cs @ ps))"
  shows "way_open cs (Dir_Node m es) xs"
  using assms
proof (induction xs arbitrary: cs m es)
  case (Cons x xs)
  obtain y where y: "map_of es x = Some y" "node_at y xs = Some n" using Cons.prems(4) by (auto split: option.splits)
  have x: "plain_comp x" "node_wf y" using Cons.prems(3) map_of_SomeD [OF y(1)] by (fastforce simp: list_all_iff)+
  have un: "\<not> isUnavailable (rel_path (cs @ [x]))" using Cons.prems(5) by (auto simp: prefix_def)
  then have un': "\<not> isUnavailable (child_path (rel_path cs) x)" using child_rel_path [OF Cons.prems(2)] by simp
  have mem: "(x, y) \<in> set (sort_key fst es)" using map_of_SomeD [OF y(1)] by simp
  note link = links_absent_member [OF Cons.prems(1) mem un']
  have "way_open (cs @ [x]) y xs"
  proof (cases y)
    case (Dir_Node m' es')
    have "\<forall>ps. ps \<noteq> [] \<longrightarrow> prefix ps xs \<longrightarrow> \<not> isUnavailable (rel_path ((cs @ [x]) @ ps))"
      using Cons.prems(5) by (auto simp: prefix_def)
    moreover have "list_all plain_comp (cs @ [x])" using Cons.prems(2) x(1) by simp
    moreover have "links_absent (rel_path (cs @ [x])) (sort_key fst es')"
      using link Dir_Node child_rel_path [OF Cons.prems(2)] by simp
    ultimately show ?thesis using Cons.IH [of "cs @ [x]" es' m'] x(2) y(2) by (simp add: Dir_Node)
  qed (use y(2) in \<open>cases xs; simp\<close>)+
  then show ?case using y(1) un link by simp
qed simp

lemma way_open_available:
  "way_open cs d xs \<Longrightarrow> ps \<noteq> [] \<Longrightarrow> prefix ps xs \<Longrightarrow> \<not> isUnavailable (rel_path (cs @ ps))"
proof (induction cs d xs arbitrary: ps rule: way_open.induct)
  case (2 cs d x xs)
  obtain qs where ps: "ps = x # qs" "prefix qs xs" using "2.prems"(2,3) by (cases ps) auto
  obtain y where y: "node_at d [x] = Some y" "\<not> isUnavailable (rel_path (cs @ [x]))" "way_open (cs @ [x]) y xs"
    using "2.prems"(1) by (auto split: option.splits)
  show ?case using "2.IH" [OF y(1,3) _ ps(2)] y(2) ps(1) by (cases "qs = []") simp_all
qed simp

lemma visits_kinds:
  "visits (snapshot_visit sha) xs acc = Walk_On r \<Longrightarrow> (p, n) \<in> set xs \<Longrightarrow> is_dir_node n \<or> is_regular_node n"
proof (induction xs arbitrary: acc)
  case (Cons x xs)
  obtain q n' where x: "x = (q, n')" by (cases x)
  obtain a where "snapshot_visit sha q n' acc = Walk_On a" "visits (snapshot_visit sha) xs a = Walk_On r"
    using Cons.prems(1) by (auto simp: x split: walk.splits)
  then show ?case using Cons by (auto simp: x snapshot_visit_def split: prod.splits if_splits)
qed simp

lemma snapshot_entries:
  assumes "repo_Snapshot sha w disk ctx cancelled = Some m" and "node_wf disk"
  shows "set (sm_Entries m) = {entry_of sha (rel_path xs) n | xs n. xs \<noteq> [] \<and> available_path xs \<and> node_at disk xs = Some n}"
    and "xs \<noteq> [] \<Longrightarrow> available_path xs \<Longrightarrow> node_at disk xs = Some n \<Longrightarrow> is_dir_node n \<or> is_regular_node n"
    and "sm_SnapshotID m = snapshotManifestID sha (sm_Entries m)"
proof -
  from assms(1) obtain root p b where o: "openExistingRelative w disk (rel_path []) True = Some (root, p)"
    and s: "snapshotDirectory sha w disk cancelled root (rel_path []) ([], 0) = Walk_On (sm_Entries m, b)"
    and id: "sm_SnapshotID m = snapshotManifestID sha (sm_Entries m)"
    by (auto simp: repo_Snapshot_def rel_path_def split: if_splits option.splits walk.splits)
  have root: "root = disk" using opened_child [OF o] by simp
  obtain meta es where d: "disk = Dir_Node meta es" using s unfolding root by (cases disk) (auto simp: snapshotDirectory_def walk_directory_def)
  let ?xs = "walk_list (rel_path []) (sort_key fst es)"
  have walk: "walk_entries w disk cancelled True (snapshot_visit sha) (rel_path []) (sort_key fst es) ([], 0) = Walk_On (sm_Entries m, b)"
    using s unfolding root by (simp add: snapshotDirectory_def walk_directory_def d)
  then have v: "visits (snapshot_visit sha) ?xs ([], 0) = Walk_On (sm_Entries m, b)"
    using walk_visits [of w disk cancelled True "snapshot_visit sha" "rel_path []" "sort_key fst es" "([], 0)"] by simp
  then have e: "sm_Entries m = map (\<lambda>(p, n). entry_of sha p n) ?xs" using visits_snapshot by fastforce
  have at: "node_at disk [] = Some (Dir_Node meta es)" by (simp add: d)
  have way: "way_open [] disk xs \<longleftrightarrow> available_path xs" if "node_at disk xs = Some n" for xs n
    using that links_absent_way [OF strict_walk_links [OF walk], of meta xs n] way_open_available [of "[]" disk xs] assms(2)
    unfolding d available_path_def by auto
  have mem: "(q, n) \<in> set ?xs \<longleftrightarrow> (\<exists>xs. xs \<noteq> [] \<and> available_path xs \<and> node_at disk xs = Some n \<and> q = rel_path xs)" for q n
    using walk_list_dir [OF _ at assms(2), of q n] way d by auto
  show "set (sm_Entries m) = {entry_of sha (rel_path xs) n | xs n. xs \<noteq> [] \<and> available_path xs \<and> node_at disk xs = Some n}"
    unfolding e set_map using mem by (intro set_eqI iffI) (force, blast)
  show "is_dir_node n \<or> is_regular_node n" if "xs \<noteq> []" "available_path xs" "node_at disk xs = Some n"
    using visits_kinds [OF v, of "rel_path xs" n] mem that by blast
  show "sm_SnapshotID m = snapshotManifestID sha (sm_Entries m)" by (rule id)
qed

text \<open>C22: A snapshot is complete. When a snapshot of a tree that does not change meanwhile is taken, then every
  node at an available path is a directory or a regular file (a link or a special file there makes the
  snapshot fail); there is an entry for each of them and no other: a directory with its path and mode, a
  regular file with its path, its mode, its size and the hex SHA-256 of its content; and the identifier is
  computed from these entries.\<close>

theorem snapshot_complete:
  assumes "repo_Snapshot sha w disk ctx cancelled = Some m" and "node_wf disk"
  shows "(\<forall>xs n. xs \<noteq> [] \<longrightarrow> available_path xs \<longrightarrow> node_at disk xs = Some n \<longrightarrow> is_dir_node n \<or> is_regular_node n)
    \<and> (\<forall>e. e \<in> set (sm_Entries m) \<longleftrightarrow>
         (\<exists>xs meta es. xs \<noteq> [] \<and> available_path xs \<and> node_at disk xs = Some (Dir_Node meta es)
            \<and> e = \<lparr>sn_Path = rel_path xs, sn_Type = ''directory'', sn_Digest = [], sn_Mode = nm_perm meta, sn_Size = 0\<rparr>)
         \<or> (\<exists>xs meta content. xs \<noteq> [] \<and> available_path xs \<and> node_at disk xs = Some (Regular_Node meta content)
            \<and> e = \<lparr>sn_Path = rel_path xs, sn_Type = ''regular'', sn_Digest = hex_encode (sha content),
                   sn_Mode = nm_perm meta, sn_Size = length content\<rparr>))
    \<and> sm_SnapshotID m = snapshotManifestID sha (sm_Entries m)"
proof -
  have dir: "entry_of sha p (Dir_Node meta es) =
      \<lparr>sn_Path = p, sn_Type = ''directory'', sn_Digest = [], sn_Mode = nm_perm meta, sn_Size = 0\<rparr>" for p meta es
    by (simp add: entry_of_def)
  have reg: "entry_of sha p (Regular_Node meta c) =
      \<lparr>sn_Path = p, sn_Type = ''regular'', sn_Digest = hex_encode (sha c), sn_Mode = nm_perm meta, sn_Size = length c\<rparr>" for p meta c
    by (simp add: entry_of_def digestOpenFile_def)
  have kind: "(\<exists>meta es. n = Dir_Node meta es) \<or> (\<exists>meta c. n = Regular_Node meta c)" if "is_dir_node n \<or> is_regular_node n" for n
    using that by (cases n) auto
  note ent = snapshot_entries [OF assms]
  have "e \<in> set (sm_Entries m) \<longleftrightarrow>
      (\<exists>xs meta es. xs \<noteq> [] \<and> available_path xs \<and> node_at disk xs = Some (Dir_Node meta es) \<and> e = entry_of sha (rel_path xs) (Dir_Node meta es))
      \<or> (\<exists>xs meta c. xs \<noteq> [] \<and> available_path xs \<and> node_at disk xs = Some (Regular_Node meta c) \<and> e = entry_of sha (rel_path xs) (Regular_Node meta c))"
    (is "_ \<longleftrightarrow> ?r") for e
  proof
    assume "e \<in> set (sm_Entries m)"
    then obtain xs n where xs: "xs \<noteq> []" "available_path xs" "node_at disk xs = Some n" "e = entry_of sha (rel_path xs) n"
      using ent(1) by blast
    then show ?r using kind [OF ent(2) [OF xs(1-3)]] by metis
  next
    assume ?r
    then show "e \<in> set (sm_Entries m)" unfolding ent(1) by blast
  qed
  then show ?thesis unfolding dir reg using ent(2,3) by blast
qed

subsection \<open>The identifier determines the snapshot\<close>

lemma sized_inj:
  assumes "sized s @ x = sized t @ y"
  shows "s = t \<and> x = y"
proof -
  have c: "CHR '':'' \<notin> set (digits_of n)" for n
    using digits_of_char [of "CHR '':''" n] by (auto simp: in_byte_range_def)
  have "digits_of (length s) = digits_of (length t) \<and> s @ x = t @ y"
    using until_sep [OF c [of "length s"] c [of "length t"], of "s @ x" "t @ y"] assms by (simp add: sized_def)
  then show ?thesis using digits_of_inj append_eq_append_conv by blast
qed

lemma digits_sep_inj:
  assumes "digits_of m @ c # x = digits_of n @ c # y" and "\<not> is_digit c"
  shows "m = n \<and> x = y"
proof -
  have "c \<notin> set (digits_of k)" for k using digits_of_digits [of k] assms(2) by (auto simp: list_all_iff)
  then have "digits_of m = digits_of n \<and> x = y" using until_sep [OF _ _ assms(1)] by blast
  then show ?thesis using digits_of_inj by blast
qed

lemma snapshot_line_inj:
  assumes "snapshot_line e @ x = snapshot_line f @ y"
  shows "e = f \<and> x = y"
proof -
  have nd: "\<not> is_digit (CHR ''|'')" "\<not> is_digit LF" by code_simp+
  from assms have 0: "sized (sn_Path e) @ CHR ''|'' # sized (sn_Type e) @ CHR ''|'' # sized (sn_Digest e) @ CHR ''|''
        # digits_of (sn_Mode e) @ CHR ''|'' # digits_of (sn_Size e) @ LF # x
      = sized (sn_Path f) @ CHR ''|'' # sized (sn_Type f) @ CHR ''|'' # sized (sn_Digest f) @ CHR ''|''
        # digits_of (sn_Mode f) @ CHR ''|'' # digits_of (sn_Size f) @ LF # y"
    by (simp add: snapshot_line_def)
  note 1 = sized_inj [OF 0]
  note 2 = sized_inj [OF 1 [THEN conjunct2, THEN list.inject [THEN iffD1], THEN conjunct2]]
  note 3 = sized_inj [OF 2 [THEN conjunct2, THEN list.inject [THEN iffD1], THEN conjunct2]]
  note 4 = digits_sep_inj [OF 3 [THEN conjunct2, THEN list.inject [THEN iffD1], THEN conjunct2] nd(1)]
  note 5 = digits_sep_inj [OF 4 [THEN conjunct2] nd(2)]
  show ?thesis using 1 2 3 4 5 by (auto intro: snapshot_entry.equality)
qed

text \<open>The identifier of a snapshot determines it. Two snapshots with one identifier have the same entries, or
  two different byte strings have the same SHA-256 digest.\<close>

theorem snapshot_id_injective:
  assumes "snapshotManifestID sha es = snapshotManifestID sha fs"
  shows "es = fs \<or> (snapshot_bytes es \<noteq> snapshot_bytes fs \<and> sha (snapshot_bytes es) = sha (snapshot_bytes fs))"
proof -
  have lines: "concat (map snapshot_line es) = concat (map snapshot_line fs) \<Longrightarrow> es = fs"
  proof (induction es arbitrary: fs)
    case Nil
    then show ?case by (cases fs) (auto simp: snapshot_line_def)
  next
    case (Cons e es)
    then obtain f fs' where fs: "fs = f # fs'" by (cases fs) (auto simp: snapshot_line_def)
    have "e = f \<and> concat (map snapshot_line es) = concat (map snapshot_line fs')"
      using Cons.prems by (intro snapshot_line_inj) (simp add: fs)
    then show ?case using Cons.IH fs by blast
  qed
  have "sha (snapshot_bytes es) = sha (snapshot_bytes fs)"
    using assms unfolding snapshotManifestID_def by (metis hex_decode_encode option.inject)
  then show ?thesis using lines by (auto simp: snapshot_bytes_def)
qed

subsection \<open>One name stops the walk\<close>

text \<open>A walk opens each child by its path, and cleaning a path refuses what may be a path of another system: one
  available entry whose name has a backslash, or a colon after one letter at the root, makes every search and
  every snapshot fail.\<close>

lemma backslash_stops_walk:
  assumes "(name, n) \<in> set es" and "CHR 0x5C \<in> set name" and "\<not> isUnavailable (child_path rel name)" and "\<not> is_symlink_node n"
  shows "\<exists>es' es''. es = es' @ (name, n) # es''
    \<and> walk_entries w disk cancelled strict visit rel ((name, n) # es'') acc = Walk_Reject"
proof -
  obtain es' es'' where "es = es' @ (name, n) # es''" using split_list [OF assms(1)] by blast
  moreover have "cleanRelativePath (child_path rel name) = None"
    using assms(2) by (simp add: cleanRelativePath_def child_path_def)
  ultimately show ?thesis using assms(3,4) by (auto simp: Let_def openExistingRelative_def)
qed

subsection \<open>Instances\<close>

definition tree_meta :: "nat \<Rightarrow> node_meta" where
  "tree_meta ino = \<lparr>nm_dev = 1, nm_ino = ino, nm_perm = 420, nm_opens = True\<rparr>"

definition demo_tree :: node where
  "demo_tree = Dir_Node (tree_meta 2)
     [(''z'', Dir_Node (tree_meta 3) [(''b'', Regular_Node (tree_meta 4) [CHR ''o'', LF, CHR ''n'']), (''.env'', Regular_Node (tree_meta 5) ''n'')]),
      (''a'', Regular_Node (tree_meta 6) ''n'')]"

definition tree_ws :: repo_ws where
  "tree_ws = \<lparr>rp_root = ''/r'', rp_open = True, rp_identity = ''i'', rp_maxSearchFiles = 10000, rp_maxSearchBytes = 67108864\<rparr>"

theorem search_sound_witness:
  "map_option (\<lambda>r. map (\<lambda>m. (mt_Path m, mt_Line m)) (fst r)) (repo_Search tree_ws demo_tree Ctx_Live (\<lambda>_. False) ''n'' '''')
     = Some [(''a'', 1), (''z/b'', 2)]
   \<and> (\<exists>ms t. repo_Search tree_ws demo_tree Ctx_Live (\<lambda>_. False) ''n'' '''' = Some (ms, t) \<and> length ms \<le> 100)"
proof -
  have wf: "node_wf demo_tree" "is_dir_node demo_tree" by code_simp+
  have v: "map_option (\<lambda>r. map (\<lambda>m. (mt_Path m, mt_Line m)) (fst r)) (repo_Search tree_ws demo_tree Ctx_Live (\<lambda>_. False) ''n'' '''')
     = Some [(''a'', 1), (''z/b'', 2)]" by code_simp
  then obtain ms t where s: "repo_Search tree_ws demo_tree Ctx_Live (\<lambda>_. False) ''n'' '''' = Some (ms, t)" by auto
  show ?thesis using v s search_sound [OF s wf] by blast
qed

theorem snapshot_complete_witness:
  "\<exists>m. repo_Snapshot (take 1) tree_ws demo_tree Ctx_Live (\<lambda>_. False) = Some m
     \<and> map sn_Path (sm_Entries m) = [''a'', ''z'', ''z/b'']
     \<and> \<lparr>sn_Path = ''a'', sn_Type = ''regular'', sn_Digest = hex_encode ''n'', sn_Mode = 420, sn_Size = 1\<rparr> \<in> set (sm_Entries m)
     \<and> sm_SnapshotID m = snapshotManifestID (take 1) (sm_Entries m)"
proof -
  have wf: "node_wf demo_tree" by code_simp
  have v: "map_option (\<lambda>m. map sn_Path (sm_Entries m)) (repo_Snapshot (take 1) tree_ws demo_tree Ctx_Live (\<lambda>_. False))
     = Some [''a'', ''z'', ''z/b'']" by code_simp
  then obtain m where m: "repo_Snapshot (take 1) tree_ws demo_tree Ctx_Live (\<lambda>_. False) = Some m" by auto
  have a: "rel_path [''a''] = ''a''" "\<not> isUnavailable ''a''" "node_at demo_tree [''a''] = Some (Regular_Node (tree_meta 6) ''n'')" by code_simp+
  have "available_path [''a'']" using a(1,2) by (auto simp: available_path_def prefix_Cons)
  then have "\<lparr>sn_Path = ''a'', sn_Type = ''regular'', sn_Digest = hex_encode (take 1 ''n''), sn_Mode = nm_perm (tree_meta 6),
      sn_Size = length ''n''\<rparr> \<in> set (sm_Entries m)"
    using snapshot_complete [OF m wf] a by (metis list.distinct(1))
  then show ?thesis using v m snapshot_complete [OF m wf] by (auto simp: tree_meta_def)
qed

text \<open>A link, or a special file, at an available name makes the snapshot fail.\<close>

lemma snapshot_refuses_others:
  "repo_Snapshot (take 1) tree_ws (Dir_Node (tree_meta 2) [(''l'', Symlink_Node (tree_meta 3))]) Ctx_Live (\<lambda>_. False) = None
   \<and> repo_Snapshot (take 1) tree_ws (Dir_Node (tree_meta 2) [(''f'', Special_Node (tree_meta 3))]) Ctx_Live (\<lambda>_. False) = None"
  by code_simp

theorem snapshot_id_injective_witness:
  "snapshotManifestID (\<lambda>_. []) [] = snapshotManifestID (\<lambda>_. []) [entry_of id ''a'' (Dir_Node (tree_meta 2) [])]
   \<and> snapshot_bytes [] \<noteq> snapshot_bytes [entry_of id ''a'' (Dir_Node (tree_meta 2) [])]"
proof -
  have e: "snapshotManifestID (\<lambda>_. []) [] = snapshotManifestID (\<lambda>_. []) [entry_of id ''a'' (Dir_Node (tree_meta 2) [])]"
    by (simp add: snapshotManifestID_def)
  show ?thesis using e snapshot_id_injective [OF e] by blast
qed

end
