(* ===== verification/Git_Status.thy ===== *)
theory Git_Status
  imports Repo_Disk
begin

section \<open>The status of the repository (internal/repo/git_status.go)\<close>

text \<open>
  What \<open>git\<close> prints is an argument: a function from its command line to its output and whether it ended
  well. The theory shows that the summary is sorted, bounded and names available paths only, that it counts
  every change, and that all commands are read-only ones at the workspace's root.
\<close>

definition maxGitStdoutBytes :: nat where "maxGitStdoutBytes = 65536"
definition maxGitChangedPathEntries :: nat where "maxGitChangedPathEntries = 256"
definition maxGitChangedPathBytes :: nat where "maxGitChangedPathBytes = 16384"

record git_status =
  gt_RepositoryIdentity :: string
  gt_TrustedRoot :: string
  gt_Branch :: string
  gt_Head :: string
  gt_Dirty :: bool
  gt_ChangedPaths :: "string list"
  gt_ChangedCount :: nat
  gt_Truncated :: bool

subsection \<open>The output of git status\<close>

definition validPorcelainStatus :: "string \<Rightarrow> bool" where
  "validPorcelainStatus s \<longleftrightarrow>
     length s = 2 \<and> (s = ''??'' \<or> s = ''!!'' \<or> (s ! 0 \<in> set '' MARD?CU'' \<and> s ! 1 \<in> set '' MD?RACU''))"

definition slash_for_backslash :: "string \<Rightarrow> string" where
  "slash_for_backslash s = map (\<lambda>c. if c = CHR 0x5C then slash else c) s"

definition renamed :: "string \<Rightarrow> bool" where
  "renamed s \<longleftrightarrow> s ! 0 \<in> {CHR ''R'', CHR ''C''} \<or> s ! 1 \<in> {CHR ''R'', CHR ''C''}"

text \<open>One entry: two letters of status, a blank and a path.\<close>

definition porcelain_entry :: "string \<Rightarrow> string option" where
  "porcelain_entry part =
    (if length part < 4 \<or> part ! 2 \<noteq> CHR '' '' then None
     else if \<not> validPorcelainStatus (take 2 part) then None
     else (let path = drop 3 part
           in if path = [] \<or> \<not> utf8_valid path \<or> contains_any path control_chars then None
              else (case cleanRelativePath path of
                      None \<Rightarrow> None
                    | Some p \<Rightarrow>
                        if p = ''.'' \<or> isUnavailable p then None
                        else Some (take 2 part @ '' '' @ slash_for_backslash p))))"

text \<open>The entries; that of a rename or copy is followed by the old path.\<close>

fun porcelain_entries :: "string list \<Rightarrow> string list option" where
  "porcelain_entries [] = Some []"
| "porcelain_entries (part # ps) =
    (if part = [] then porcelain_entries ps
     else (case porcelain_entry part of
             None \<Rightarrow> None
           | Some e \<Rightarrow>
               if renamed (take 2 part)
               then (case ps of
                       [] \<Rightarrow> None
                     | q # ps' \<Rightarrow> if q = [] then None else map_option (\<lambda>es. e # es) (porcelain_entries ps'))
               else map_option (\<lambda>es. e # es) (porcelain_entries ps)))"

fun bounded_paths :: "string list \<Rightarrow> string list \<Rightarrow> nat \<Rightarrow> string list \<times> bool" where
  "bounded_paths [] bounded returned = (bounded, False)"
| "bounded_paths (p # ps) bounded returned =
    (if maxGitChangedPathEntries \<le> length bounded \<or> maxGitChangedPathBytes < returned + length p then (bounded, True)
     else bounded_paths ps (bounded @ [p]) (returned + length p))"

definition parsePorcelainStatus :: "string \<Rightarrow> (string list \<times> nat \<times> bool) option" where
  "parsePorcelainStatus output =
    (if output = [] then Some ([], 0, False)
     else (case split_on NUL output of
             [] \<Rightarrow> None
           | head # parts \<Rightarrow>
               if \<not> prefix ''## '' head then None
               else (case porcelain_entries parts of
                       None \<Rightarrow> None
                     | Some paths \<Rightarrow>
                         (case bounded_paths (sort paths) [] 0 of
                            (bounded, trimmed) \<Rightarrow> Some (bounded, length paths, maxGitChangedPathEntries < length paths \<or> trimmed)))))"

subsection \<open>The commands\<close>

text \<open>\<open>git\<close> answers None when it cannot be started.\<close>

type_synonym git_program = "string list \<Rightarrow> (string \<times> bool) option"

definition git_arguments :: "string \<Rightarrow> string list \<Rightarrow> string list" where
  "git_arguments root args = [''-C'', root, ''--no-optional-locks''] @ args"

definition runGitStatusCommand :: "git_program \<Rightarrow> string \<Rightarrow> string list \<Rightarrow> string option" where
  "runGitStatusCommand git root args =
    (case git (git_arguments root args) of
       None \<Rightarrow> None
     | Some (output, ok) \<Rightarrow> if maxGitStdoutBytes < length output then None else if \<not> ok then None else Some output)"

definition head_digit :: "char \<Rightarrow> bool" where
  "head_digit c \<longleftrightarrow> is_digit c \<or> in_byte_range 97 102 c \<or> in_byte_range 65 70 c"

definition branch_args :: "string list" where "branch_args = [''symbolic-ref'', ''--quiet'', ''--short'', ''HEAD'']"
definition head_args :: "string list" where "head_args = [''rev-parse'', ''--verify'', ''HEAD'']"
definition status_args :: "string list" where
  "status_args = [''status'', ''--porcelain=v1'', ''-z'', ''--branch'', ''--untracked-files=all'']"

definition repo_GitStatus :: "(string \<Rightarrow> string) \<Rightarrow> git_program \<Rightarrow> go_ctx \<Rightarrow> repo_ws \<Rightarrow> node \<Rightarrow> git_status option" where
  "repo_GitStatus sha git ctx w disk =
    (if ctx = Ctx_Nil \<or> \<not> rp_open w \<or> rp_root w = [] then None
     else if filesystemIdentity sha disk \<noteq> rp_identity w then None
     else (case runGitStatusCommand git (rp_root w) branch_args of
             None \<Rightarrow> None
           | Some branch \<Rightarrow>
               if trim_space branch = [] then None
               else (case runGitStatusCommand git (rp_root w) head_args of
                       None \<Rightarrow> None
                     | Some head \<Rightarrow>
                         if length (trim_space head) \<noteq> 40 \<or> \<not> list_all head_digit (trim_space head) then None
                         else (case runGitStatusCommand git (rp_root w) status_args of
                                 None \<Rightarrow> None
                               | Some output \<Rightarrow>
                                   (case parsePorcelainStatus output of
                                      None \<Rightarrow> None
                                    | Some (changed, count, truncated) \<Rightarrow>
                                        Some \<lparr>gt_RepositoryIdentity = rp_identity w, gt_TrustedRoot = rp_identity w,
                                              gt_Branch = trim_space branch, gt_Head = to_lower (trim_space head),
                                              gt_Dirty = (count \<noteq> 0), gt_ChangedPaths = changed, gt_ChangedCount = count,
                                              gt_Truncated = truncated\<rparr>)))))"

subsection \<open>What the summary says\<close>

lemma bounded_paths_prefix:
  "bounded_paths ps bounded returned = (out, trimmed) \<Longrightarrow>
     (\<exists>qs. prefix qs ps \<and> out = bounded @ qs \<and> (trimmed \<longleftrightarrow> qs \<noteq> ps))
     \<and> (length bounded \<le> maxGitChangedPathEntries \<longrightarrow> length out \<le> maxGitChangedPathEntries)
     \<and> (returned \<le> maxGitChangedPathBytes \<longrightarrow> returned = sum_list (map length bounded) \<longrightarrow>
          sum_list (map length out) \<le> maxGitChangedPathBytes)"
proof (induction ps bounded returned rule: bounded_paths.induct)
  case (2 p ps bounded returned)
  show ?case
  proof (cases "maxGitChangedPathEntries \<le> length bounded \<or> maxGitChangedPathBytes < returned + length p")
    case True
    then show ?thesis using "2.prems" by auto
  next
    case False
    then have r: "bounded_paths ps (bounded @ [p]) (returned + length p) = (out, trimmed)" using "2.prems" by simp
    obtain qs where qs: "prefix qs ps" "out = (bounded @ [p]) @ qs" "trimmed \<longleftrightarrow> qs \<noteq> ps" using "2.IH" [OF False r] by blast
    have "prefix (p # qs) (p # ps)" "out = bounded @ p # qs" "trimmed \<longleftrightarrow> p # qs \<noteq> p # ps" using qs by auto
    moreover have "length out \<le> maxGitChangedPathEntries" using "2.IH" [OF False r] False by auto
    moreover have "returned = sum_list (map length bounded) \<Longrightarrow> sum_list (map length out) \<le> maxGitChangedPathBytes"
      using "2.IH" [OF False r] False by auto
    ultimately show ?thesis by blast
  qed
qed auto

text \<open>A cleaned path has no characters but those of the input and slashes.\<close>

lemma foldl_clean_step_set:
  "set (foldl (clean_step r) acc cs) \<subseteq> set acc \<union> set cs"
proof (induction cs arbitrary: acc)
  case (Cons c cs)
  have "set (clean_step r acc c) \<subseteq> insert c (set acc)" by (auto simp: clean_step_def split: list.split)
  then show ?case using Cons [of "clean_step r acc c"] by auto
qed simp

lemma split_on_chars: "w \<in> set (split_on d s) \<Longrightarrow> set w \<subseteq> set s"
  by (induction s arbitrary: w) (auto split: if_splits list.splits, blast+)

lemma join_chars: "set (join_with d ws) \<subseteq> set d \<union> \<Union> (set ` set ws)"
  by (induction d ws rule: join_with.induct) auto

lemma cleanRelativePath_chars:
  assumes "cleanRelativePath input = Some p" and "p \<noteq> ''.''"
  shows "set p \<subseteq> insert slash (set input)"
proof -
  have p: "p = join_with [slash] (clean_comps input)" using cleanRelativePath_shape [OF assms(1)] assms(2) by blast
  have "set (clean_comps input) \<subseteq> set (split_on slash input)"
    using foldl_clean_step_set [of _ "[]"] by (force simp: clean_comps_def)
  then have "\<Union> (set ` set (clean_comps input)) \<subseteq> set input" using split_on_chars by blast
  then have "insert slash (\<Union> (set ` set (clean_comps input))) \<subseteq> insert slash (set input)" by blast
  moreover have "set p \<subseteq> insert slash (\<Union> (set ` set (clean_comps input)))"
    using join_chars [of "[slash]" "clean_comps input"] p by simp
  ultimately show ?thesis by (rule subset_trans [rotated])
qed

lemma porcelain_entry_shape:
  assumes "porcelain_entry part = Some e"
  shows "\<exists>s p. validPorcelainStatus s \<and> e = s @ '' '' @ p \<and> \<not> isUnavailable p \<and> list_all plain_comp (split_on slash p)"
proof -
  from assms obtain p where v: "validPorcelainStatus (take 2 part)" and c: "cleanRelativePath (drop 3 part) = Some p"
    and p: "p \<noteq> ''.''" "\<not> isUnavailable p" and e: "e = take 2 part @ '' '' @ slash_for_backslash p"
    by (auto simp: porcelain_entry_def Let_def split: if_splits option.splits)
  have "CHR 0x5C \<notin> set p"
  proof -
    have "CHR 0x5C \<notin> set (drop 3 part)" using c by (auto simp: cleanRelativePath_def)
    then show ?thesis using cleanRelativePath_chars [OF c p(1)] by (auto simp: slash_def)
  qed
  then have "slash_for_backslash p = p" by (auto simp: slash_for_backslash_def intro: map_idI)
  then show ?thesis using v p e cleanRelativePath_shape [OF c] by metis
qed

lemma porcelain_entries_shape:
  "porcelain_entries parts = Some es \<Longrightarrow> e \<in> set es \<Longrightarrow>
     \<exists>s p. validPorcelainStatus s \<and> e = s @ '' '' @ p \<and> \<not> isUnavailable p \<and> list_all plain_comp (split_on slash p)"
proof (induction parts arbitrary: es rule: porcelain_entries.induct)
  case (2 part ps)
  then show ?case using porcelain_entry_shape by (fastforce split: if_splits option.splits list.splits)
qed simp

text \<open>The status is a bounded, sorted list of available paths. What is returned is the beginning of the sorted list
  of all changed paths, at most 256 of at most 16 kilobytes together, with the number of all, and truncated is
  said exactly when some are left out; each path is written behind its status, with plain names only and
  under no protected name.\<close>

theorem git_status_bounded:
  assumes "parsePorcelainStatus output = Some (paths, count, truncated)"
  shows "sorted paths \<and> length paths \<le> 256 \<and> sum_list (map length paths) \<le> 16384
    \<and> length paths \<le> count \<and> (truncated \<longleftrightarrow> length paths < count)
    \<and> (\<forall>e \<in> set paths. \<exists>s p. validPorcelainStatus s \<and> e = s @ '' '' @ p \<and> \<not> isUnavailable p \<and> list_all plain_comp (split_on slash p))"
proof (cases "output = []")
  case True
  then show ?thesis using assms by (simp add: parsePorcelainStatus_def)
next
  case False
  then obtain head parts all trimmed where parts: "porcelain_entries parts = Some all" "count = length all"
    and b: "bounded_paths (sort all) [] 0 = (paths, trimmed)" "truncated \<longleftrightarrow> maxGitChangedPathEntries < length all \<or> trimmed"
    using assms by (auto simp: parsePorcelainStatus_def split: if_splits option.splits list.splits prod.splits)
  obtain qs where qs: "prefix qs (sort all)" "paths = qs" "trimmed \<longleftrightarrow> qs \<noteq> sort all" using bounded_paths_prefix [OF b(1)] by auto
  have len: "length paths \<le> 256" "sum_list (map length paths) \<le> 16384"
    using bounded_paths_prefix [OF b(1)] by (simp_all add: maxGitChangedPathEntries_def maxGitChangedPathBytes_def)
  have le: "length paths \<le> count" using prefix_length_le [OF qs(1)] qs(2) parts(2) by simp
  have trimmed: "trimmed \<longleftrightarrow> length paths < count"
  proof
    assume "trimmed"
    then have "strict_prefix qs (sort all)" using qs by (simp add: strict_prefix_def)
    then show "length paths < count" using qs(2) parts(2) by (auto dest: prefix_length_less)
  qed (use qs parts(2) in auto)
  have "sorted paths" using qs(1,2) sorted_append [of qs] by (auto simp: prefix_def) (metis sorted_append sorted_sort)
  moreover have "set paths \<subseteq> set all" using qs(1,2) set_mono_prefix by fastforce
  then have "\<forall>e \<in> set paths. \<exists>s p. validPorcelainStatus s \<and> e = s @ '' '' @ p \<and> \<not> isUnavailable p \<and> list_all plain_comp (split_on slash p)"
    using porcelain_entries_shape [OF parts(1)] by blast
  moreover have "truncated \<longleftrightarrow> length paths < count"
    using b(2) trimmed len(1) parts(2) by (auto simp: maxGitChangedPathEntries_def)
  ultimately show ?thesis using len le by blast
qed

text \<open>The commands are three fixed ones, with the workspace's root behind \<open>-C\<close> and without locks.\<close>

lemma git_commands_fixed:
  assumes "\<And>args. args \<in> {branch_args, head_args, status_args} \<Longrightarrow> git (git_arguments (rp_root w) args) = git' (git_arguments (rp_root w) args)"
  shows "repo_GitStatus sha git ctx w disk = repo_GitStatus sha git' ctx w disk"
proof -
  have same: "runGitStatusCommand git (rp_root w) args = runGitStatusCommand git' (rp_root w) args"
    if "args \<in> {branch_args, head_args, status_args}" for args
    unfolding runGitStatusCommand_def assms [OF that] by (rule refl)
  have "runGitStatusCommand git (rp_root w) branch_args = runGitStatusCommand git' (rp_root w) branch_args"
    "runGitStatusCommand git (rp_root w) head_args = runGitStatusCommand git' (rp_root w) head_args"
    "runGitStatusCommand git (rp_root w) status_args = runGitStatusCommand git' (rp_root w) status_args"
    by (rule same, blast)+
  then show ?thesis unfolding repo_GitStatus_def by (simp only:)
qed

text \<open>One changed file with a protected name, as a fresh \<open>.env\<close>, takes the whole status away: where reading and
  searching pass over such a file, the parser refuses the output.\<close>

lemma protected_change_hides_status:
  assumes "cleanRelativePath p = Some q" and "isUnavailable q"
  shows "porcelain_entries (xs @ (''?? '' @ p) # ys) = Some es \<Longrightarrow> list_all (\<lambda>x. \<not> renamed (take 2 x)) xs \<Longrightarrow> False"
proof (induction xs arbitrary: es)
  case Nil
  have "porcelain_entry (''?? '' @ p) = None" using assms by (simp add: porcelain_entry_def Let_def)
  then show ?case using Nil by simp
next
  case (Cons x xs)
  then show ?case by (auto split: if_splits option.splits)
qed

theorem git_status_bounded_witness:
  "parsePorcelainStatus (''## main'' @ [NUL] @ '' M b'' @ [NUL] @ ''R  a/x'' @ [NUL] @ ''old'' @ [NUL])
     = Some (['' M b'', ''R  a/x''], 2, False) \<and> sorted ['' M b'', ''R  a/x'']"
proof -
  have p: "parsePorcelainStatus (''## main'' @ [NUL] @ '' M b'' @ [NUL] @ ''R  a/x'' @ [NUL] @ ''old'' @ [NUL])
     = Some (['' M b'', ''R  a/x''], 2, False)" by code_simp
  show ?thesis using p git_status_bounded [OF p] by blast
qed

end
