(* ===== verification/Plane_State.thy ===== *)
theory Plane_State
  imports Security_Engine Request_Replay Integration_Journal Runtime_Manager Event_Store Environment_Cache
    Repo_Intelligence Publication_Adapter Process_Supervisor Loop_Controller Repo_Edit Repo_Search
begin

section \<open>The control plane: state and authority (internal/controlplane/plane.go)\<close>

text \<open>
  The composition root holds one of every component. Its state is the record of theirs and of its own maps;
  an operation is a function of the state that calls the components' models in the order of the code. What
  the platform answers to a call is read from a stream \<open>cpl_Env\<close>, one entry per call: the clock, random
  bytes, the outcomes of writes, the live tree as it is found, and what others have done to the candidate
  trees meanwhile. The operations of one plane are sequences of such calls.
\<close>

subsection \<open>Data\<close>

datatype plane_error =
    PL_ErrRejected | PL_ErrStale | PL_Workspace ws_error | PL_Runtime rt_error | PL_Publication pub_error
  | PL_Events ev_error | PL_Process

record workspace_record =
  wk_Generation :: ws_generation
  wk_Lease :: ws_lease

record process_record =
  pj_ID :: string
  pj_GenerationID :: string
  pj_RuntimeID :: string
  pj_Process :: started

record verification_record =
  vd_Plan :: verification_plan
  vd_Result :: verification_result

record loop_config =
  lc_GenerationID :: string
  lc_RuntimeID :: string
  lc_Patch :: string
  lc_Target :: target

text \<open>The answers of the platform to one call.\<close>

record call_env =
  cx_Now :: instant
  cx_Random :: "string option"
  cx_Write1 :: write_outcome
  cx_Write2 :: write_outcome
  cx_File :: file_write
  cx_Ok1 :: bool
  cx_Ok2 :: bool
  cx_Ok3 :: bool
  cx_Ok4 :: bool
  cx_Order :: "string list"
  cx_Live :: "tree_entry list"
  cx_Live2 :: "tree_entry list"
  cx_Size :: "tree_entry \<Rightarrow> nat"
  cx_Edit :: "string \<Rightarrow> tree_entry list \<Rightarrow> tree_entry list"
  cx_Outcome :: "outcome option"
  cx_Chunks :: "chunk list option"
  cx_Events :: ev_env
  cx_Root :: "string option \<times> node option"
  cx_Disk0 :: node
  cx_Disk1 :: node
  cx_Disk2 :: node
  cx_Io :: write_io

text \<open>What the code takes from libraries and from the host.\<close>

record 'x plane_sys =
  px_Sha :: "string \<Rightarrow> string"
  px_IntegrationJSON :: "integration_plan \<Rightarrow> string option"
  px_VerificationJSON :: "verification_plan \<Rightarrow> string"
  px_RequestJSON :: "pub_request \<Rightarrow> string"
  px_ConfigJSON :: "loop_config \<Rightarrow> string"
  px_ConfigRead :: "string \<Rightarrow> loop_config \<Rightarrow> loop_config option"
  px_ErrorJSON :: "string \<Rightarrow> string"
  px_Codec :: env_codec
  px_EventSys :: ev_sys
  px_Platform :: string
  px_ContainerBinary :: string
  px_Host :: "host_command \<Rightarrow> 'x \<Rightarrow> bool \<times> 'x"
  px_Look :: "string \<Rightarrow> string option"
  px_Exec :: "string \<Rightarrow> string \<Rightarrow> string list \<Rightarrow> 'x \<Rightarrow> (bool \<times> string) \<times> 'x"
  px_StateJSON :: "loop_state \<Rightarrow> string"
  px_StateRead :: "string \<Rightarrow> loop_state option"

record 'x plane =
  cpl_Engine :: engine
  cpl_Store :: ws_repo
  cpl_Runtimes :: "'x rt_manager"
  cpl_Environment :: env_manager
  cpl_Events :: ev_store
  cpl_Replay :: replay_cache
  cpl_Operator :: "operator_authority option"
  cpl_RepositoryID :: string
  cpl_FilesystemID :: string
  cpl_PrincipalID :: string
  cpl_Session :: session
  cpl_TrustedRef :: string
  cpl_Workspaces :: "string \<rightharpoonup> workspace_record"
  cpl_RuntimeMap :: "string \<rightharpoonup> runtime"
  cpl_Processes :: "string \<rightharpoonup> process_record"
  cpl_Verifications :: "(string \<times> verification_record) list"
  cpl_Environments :: "string \<rightharpoonup> env_generation"
  cpl_Pending :: "string \<rightharpoonup> confirmation_binding"
  cpl_Image :: string
  cpl_Env :: "nat \<Rightarrow> call_env"
  cpl_Tick :: nat

type_synonym ('a, 'x) plane_op = "'x plane \<Rightarrow> (plane_error + 'a) \<times> 'x plane"

subsection \<open>Sequences of calls\<close>

definition pret :: "'a \<Rightarrow> ('a, 'x) plane_op" where
  "pret a p = (Inr a, p)"

definition pfail :: "plane_error \<Rightarrow> ('a, 'x) plane_op" where
  "pfail e p = (Inl e, p)"

definition pbind :: "('a, 'x) plane_op \<Rightarrow> ('a \<Rightarrow> ('b, 'x) plane_op) \<Rightarrow> ('b, 'x) plane_op" where
  "pbind m f p = (case m p of (Inl e, p1) \<Rightarrow> (Inl e, p1) | (Inr a, p1) \<Rightarrow> f a p1)"

text \<open>A guard with its error; an error replaced; an operation whose error is dropped; one that runs when
  another has failed.\<close>

definition guarding :: "bool \<Rightarrow> plane_error \<Rightarrow> (unit, 'x) plane_op" where
  "guarding b e p = (if b then (Inr (), p) else (Inl e, p))"

definition as_error :: "plane_error \<Rightarrow> ('a, 'x) plane_op \<Rightarrow> ('a, 'x) plane_op" where
  "as_error e m p = (case m p of (Inl _, p1) \<Rightarrow> (Inl e, p1) | (Inr a, p1) \<Rightarrow> (Inr a, p1))"

definition dropping :: "('a, 'x) plane_op \<Rightarrow> (unit, 'x) plane_op" where
  "dropping m p = (Inr (), snd (m p))"

definition on_error :: "('a, 'x) plane_op \<Rightarrow> (unit, 'x) plane_op \<Rightarrow> ('a, 'x) plane_op" where
  "on_error m h p = (case m p of (Inl e, p1) \<Rightarrow> (Inl e, snd (h p1)) | (Inr a, p1) \<Rightarrow> (Inr a, p1))"

definition reading :: "('x plane \<Rightarrow> 'a) \<Rightarrow> ('a, 'x) plane_op" where
  "reading g p = (Inr (g p), p)"

definition updating :: "('x plane \<Rightarrow> 'x plane) \<Rightarrow> (unit, 'x) plane_op" where
  "updating g p = (Inr (), g p)"

lemmas plane_op_defs = pret_def pfail_def guarding_def as_error_def dropping_def on_error_def reading_def updating_def

text \<open>One call of the platform: the next entry of the stream, after what others did to the trees.\<close>

definition edit_trees :: "(string \<Rightarrow> tree_entry list \<Rightarrow> tree_entry list) \<Rightarrow> ws_repo \<Rightarrow> ws_repo" where
  "edit_trees g r = r\<lparr>wr_dirs := (\<lambda>i. map_option (\<lambda>d. d\<lparr>gd_tree := g i (gd_tree d)\<rparr>) (wr_dirs r i))\<rparr>"

definition calling :: "(call_env \<Rightarrow> ('a, 'x) plane_op) \<Rightarrow> ('a, 'x) plane_op" where
  "calling f p =
    (let e = cpl_Env p (cpl_Tick p)
     in f e (p\<lparr>cpl_Tick := cpl_Tick p + 1, cpl_Store := edit_trees (cx_Edit e) (cpl_Store p)\<rparr>))"

text \<open>A call of one component, which answers with its own error.\<close>

definition on_store :: "(ws_error \<Rightarrow> plane_error) \<Rightarrow> (ws_repo \<Rightarrow> (ws_error + 'a) \<times> ws_repo) \<Rightarrow> ('a, 'x) plane_op" where
  "on_store err f p =
    (case f (cpl_Store p) of
       (Inl e, r) \<Rightarrow> (Inl (err e), p\<lparr>cpl_Store := r\<rparr>)
     | (Inr a, r) \<Rightarrow> (Inr a, p\<lparr>cpl_Store := r\<rparr>))"

definition on_runtimes ::
  "(rt_error \<Rightarrow> plane_error) \<Rightarrow> (ws_repo \<Rightarrow> 'x rt_manager \<Rightarrow> (rt_error + 'a) \<times> 'x rt_manager) \<Rightarrow> ('a, 'x) plane_op" where
  "on_runtimes err f p =
    (case f (cpl_Store p) (cpl_Runtimes p) of
       (Inl e, m) \<Rightarrow> (Inl (err e), p\<lparr>cpl_Runtimes := m\<rparr>)
     | (Inr a, m) \<Rightarrow> (Inr a, p\<lparr>cpl_Runtimes := m\<rparr>))"

definition on_engine :: "(engine \<Rightarrow> (sec_error + 'a) \<times> engine) \<Rightarrow> ('a, 'x) plane_op" where
  "on_engine f p =
    (case f (cpl_Engine p) of
       (Inl e, en) \<Rightarrow> (Inl PL_ErrRejected, p\<lparr>cpl_Engine := en\<rparr>)
     | (Inr a, en) \<Rightarrow> (Inr a, p\<lparr>cpl_Engine := en\<rparr>))"

definition rejected :: "'e \<Rightarrow> plane_error" where "rejected e = PL_ErrRejected"

definition of_result :: "plane_error \<Rightarrow> 'e + 'a \<Rightarrow> ('a, 'x) plane_op" where
  "of_result err r = (case r of Inl _ \<Rightarrow> pfail err | Inr a \<Rightarrow> pret a)"

subsection \<open>Helpers\<close>

definition digestText :: "(string \<Rightarrow> string) \<Rightarrow> string \<Rightarrow> string" where
  "digestText sha v = hex_encode (sha v)"

definition confirmationPendingKey :: "string \<Rightarrow> string \<Rightarrow> string" where
  "confirmationPendingKey cls generationID = cls @ [NUL] @ generationID"

definition plane_containsSecret :: "string \<Rightarrow> bool" where
  "plane_containsSecret v = list_ex (\<lambda>m. sublist m (to_lower v))
     [''authorization:'', ''bearer '', ''-----begin private key-----'', ''ghp_'', ''github_pat_'', ''access_token'', ''private_key'']"

definition randomID :: "string \<Rightarrow> string option \<Rightarrow> string option" where
  "randomID pre rnd = map_option (\<lambda>b. pre @ hex_encode b) rnd"

definition signalValue :: "int \<Rightarrow> int option" where
  "signalValue sig = (if sig = SIGINT \<or> sig = SIGTERM \<or> sig = SIGKILL then Some sig else None)"

definition no_execution :: execution_spec where
  "no_execution = \<lparr>xs_Backend = [], xs_Executable = [], xs_Arguments = [], xs_CWD = [], xs_Environment = []\<rparr>"

definition no_binding :: confirmation_binding where
  "no_binding = \<lparr>cb_Action = [], cb_RepositoryID = [], cb_PrincipalID = [], cb_SessionID = [], cb_GenerationID = [],
     cb_FencingGeneration = 0, cb_CandidateSnapshot = [], cb_PlanDigest = []\<rparr>"

text \<open>The environment a caller supplies: a map, its keys in order. \<open>sofar\<close> counts the bytes so far.\<close>

definition maxSuppliedBytes :: nat where "maxSuppliedBytes = 16384"

fun supplied_loop :: "(string \<times> string) list \<Rightarrow> nat \<Rightarrow> string list option" where
  "supplied_loop [] sofar = Some []"
| "supplied_loop ((key, v) # kvs) sofar =
    (if contains_any key [CHR ''='', NUL, CR, LF] \<or> maxSuppliedBytes < length key + length v + 1
        \<or> maxSuppliedBytes < sofar + length key + length v + 1 then None
     else map_option (\<lambda>r. (key @ ''='' @ v) # r) (supplied_loop kvs (sofar + length key + length v + 1)))"

definition suppliedEnvironmentValues :: "(string \<times> string) list \<Rightarrow> string list option" where
  "suppliedEnvironmentValues kvs =
    (if kvs = [] then Some []
     else if 64 < length kvs then None
     else (case supplied_loop (sort_key fst kvs) 0 of
             None \<Rightarrow> None
           | Some r \<Rightarrow> if ValidateUserEnvironment r 64 16384 then Some r else None))"

subsection \<open>Authority\<close>

definition authority_binding :: "ws_generation \<Rightarrow> 'x plane \<Rightarrow> sec_binding" where
  "authority_binding gen p =
     \<lparr>bd_RepositoryID = cpl_RepositoryID p, bd_FilesystemID = cpl_FilesystemID p,
      bd_LiveRepository = wr_root (cpl_Store p), bd_TaskWorkspace = wg_Path gen, bd_WorkspaceID = wg_ID gen\<rparr>"

definition authority_request ::
  "string \<Rightarrow> string \<Rightarrow> string \<Rightarrow> execution_spec \<Rightarrow> string \<Rightarrow> confirmation_binding \<Rightarrow> 'x plane \<Rightarrow> sec_request" where
  "authority_request capability target path execution token cb p =
     \<lparr>rq_SessionID = ss_ID (cpl_Session p), rq_PrincipalID = cpl_PrincipalID p, rq_RepositoryID = cpl_RepositoryID p,
      rq_Nonce = ss_Nonce (cpl_Session p), rq_Capability = capability, rq_Target = target, rq_Path = path,
      rq_TrustedIntegrationRef = cpl_TrustedRef p, rq_ConfirmationToken = token, rq_ConfirmationBinding = cb,
      rq_Execution = execution\<rparr>"

definition next_nonce :: "string \<Rightarrow> 'x plane \<Rightarrow> 'x plane" where
  "next_nonce n p = p\<lparr>cpl_Session := (cpl_Session p)\<lparr>ss_Nonce := n\<rparr>\<rparr>"

definition authorizeDecision ::
  "'x plane_sys \<Rightarrow> go_ctx \<Rightarrow> string \<Rightarrow> string \<Rightarrow> string \<Rightarrow> execution_spec \<Rightarrow> string \<Rightarrow> confirmation_binding
     \<Rightarrow> ws_generation \<Rightarrow> (decision, 'x) plane_op" where
  "authorizeDecision s ctx capability target path execution token cb gen =
    calling (\<lambda>e p.
      case Authorize (px_Sha s) (cx_Now e) (cx_Random e) ctx
             (authority_request capability target path execution token cb p) (authority_binding gen p) (cpl_Engine p) of
        (Inl _, en) \<Rightarrow> (Inl PL_ErrRejected, p\<lparr>cpl_Engine := en\<rparr>)
      | (Inr d, en) \<Rightarrow>
          if \<not> dc_Allowed d then (Inl PL_ErrRejected, p\<lparr>cpl_Engine := en\<rparr>)
          else (Inr d, next_nonce (dc_NextNonce d) (p\<lparr>cpl_Engine := en\<rparr>)))"

definition plane_authorize ::
  "'x plane_sys \<Rightarrow> go_ctx \<Rightarrow> string \<Rightarrow> string \<Rightarrow> ws_generation \<Rightarrow> (unit, 'x) plane_op" where
  "plane_authorize s ctx capability target gen =
    pbind (authorizeDecision s ctx capability target [] no_execution [] no_binding gen) (\<lambda>_. pret ())"

definition authorizeWithBinding ::
  "'x plane_sys \<Rightarrow> go_ctx \<Rightarrow> string \<Rightarrow> string \<Rightarrow> string \<Rightarrow> confirmation_binding \<Rightarrow> ws_generation \<Rightarrow> (unit, 'x) plane_op" where
  "authorizeWithBinding s ctx capability target token cb gen =
    pbind (authorizeDecision s ctx capability target [] no_execution token cb gen) (\<lambda>_. pret ())"

definition AcceptMCPRequest ::
  "replay_order \<Rightarrow> go_ctx \<Rightarrow> string \<Rightarrow> string \<Rightarrow> nat \<Rightarrow> (unit, 'x) plane_op" where
  "AcceptMCPRequest ord ctx mcpSessionID requestID seq =
    (if ctx = Ctx_Nil then pfail PL_ErrRejected
     else calling (\<lambda>e p.
       let call = \<lparr>rl_transportID = ss_TransportID (cpl_Session p), rl_authSessionID = ss_ID (cpl_Session p),
                   rl_principalID = ss_PrincipalID (cpl_Session p), rl_mcpSessionID = mcpSessionID,
                   rl_requestID = requestID, rl_sequence = seq\<rparr>
       in case Accept ord (cx_Now e) call (cpl_Replay p) of
            (Inl _, c) \<Rightarrow> (Inl PL_ErrRejected, p\<lparr>cpl_Replay := c\<rparr>)
          | (Inr _, c) \<Rightarrow> (Inr (), p\<lparr>cpl_Replay := c\<rparr>)))"

subsection \<open>Pending confirmations\<close>

definition rememberConfirmationBinding :: "string \<Rightarrow> confirmation_binding \<Rightarrow> (unit, 'x) plane_op" where
  "rememberConfirmationBinding cls cb =
    updating (\<lambda>p. p\<lparr>cpl_Pending := (cpl_Pending p)(confirmationPendingKey cls (cb_GenerationID cb) \<mapsto> cb)\<rparr>)"

definition plane_IssueOperatorConfirmation :: "op_context \<Rightarrow> operator_request \<Rightarrow> (confirmation, 'x) plane_op" where
  "plane_IssueOperatorConfirmation c r =
    (\<lambda>p. let key = confirmationPendingKey (or_Class r) (cb_GenerationID (or_Binding r))
         in if cpl_Operator p = None \<or> cpl_Pending p key \<noteq> Some (or_Binding r)
               \<or> cb_RepositoryID (or_Binding r) \<noteq> cpl_RepositoryID p \<or> cb_PrincipalID (or_Binding r) \<noteq> cpl_PrincipalID p
               \<or> cb_SessionID (or_Binding r) \<noteq> ss_ID (cpl_Session p)
            then (Inl PL_ErrRejected, p)
            else calling (\<lambda>e q. on_engine (IssueOperatorConfirmation (cx_Now e) (cx_Random e) c (cpl_Operator q) r) q)
                   (p\<lparr>cpl_Pending := (cpl_Pending p)(key := None)\<rparr>))"

end
