(* ===== verification/Plane_Operations.thy ===== *)
theory Plane_Operations
  imports Plane_State
begin

section \<open>The control plane: workspaces, integration, runtimes, processes (internal/controlplane/plane.go)\<close>

text \<open>
  The operations of the plane, each as the sequence of calls of its components that the code makes.
\<close>

subsection \<open>Workspaces\<close>

definition leaseTTL :: duration where "leaseTTL = 30 * minute"

definition remember_workspace :: "string \<Rightarrow> workspace_record \<Rightarrow> (unit, 'x) plane_op" where
  "remember_workspace i record = updating (\<lambda>p. p\<lparr>cpl_Workspaces := (cpl_Workspaces p)(i \<mapsto> record)\<rparr>)"

definition acquire_lease :: "go_ctx \<Rightarrow> string \<Rightarrow> (ws_lease, 'x) plane_op" where
  "acquire_lease ctx i =
    calling (\<lambda>e p. on_store rejected (AcquireLease (cx_Now e) (cx_Write1 e) (cx_Write2 e) ctx i (cpl_PrincipalID p) leaseTTL) p)"

definition release_lease :: "(ws_error \<Rightarrow> plane_error) \<Rightarrow> go_ctx \<Rightarrow> ws_lease \<Rightarrow> (unit, 'x) plane_op" where
  "release_lease err ctx l = calling (\<lambda>e. on_store err (ReleaseLease (cx_Ok1 e) (cx_Ok2 e) ctx l))"

definition discard_generation :: "(ws_error \<Rightarrow> plane_error) \<Rightarrow> go_ctx \<Rightarrow> string \<Rightarrow> (unit, 'x) plane_op" where
  "discard_generation err ctx i = calling (\<lambda>e. on_store err (DiscardGeneration (cx_Ok1 e) (cx_Ok2 e) ctx i))"

definition ensureWorkspace :: "go_ctx \<Rightarrow> string \<Rightarrow> (workspace_record, 'x) plane_op" where
  "ensureWorkspace ctx i =
    pbind (reading (\<lambda>p. cpl_Workspaces p i)) (\<lambda>known.
      case known of
        Some record \<Rightarrow> pret record
      | None \<Rightarrow>
          pbind (\<lambda>p. of_result PL_ErrRejected (LoadGeneration ctx i (cpl_Store p)) p) (\<lambda>generation.
          pbind (acquire_lease ctx i) (\<lambda>l.
            let record = \<lparr>wk_Generation = generation, wk_Lease = l\<rparr>
            in pbind (remember_workspace i record) (\<lambda>_. pret record))))"

definition WorkspaceStatus :: "go_ctx \<Rightarrow> string \<Rightarrow> (workspace_record, 'x) plane_op" where
  "WorkspaceStatus ctx i =
    (if ctx = Ctx_Nil then pfail PL_ErrRejected
     else pbind (reading (\<lambda>p. cpl_Workspaces p i)) (\<lambda>known.
       case known of
         Some record \<Rightarrow> pret record
       | None \<Rightarrow> as_error PL_ErrRejected (ensureWorkspace ctx i)))"

definition CreateWorkspace :: "'x plane_sys \<Rightarrow> go_ctx \<Rightarrow> string \<Rightarrow> (workspace_record, 'x) plane_op" where
  "CreateWorkspace s ctx taskID =
    pbind (guarding (taskID \<noteq> []) PL_ErrRejected) (\<lambda>_.
    pbind (calling (\<lambda>e. on_store rejected (Materialize (px_Sha s) (cx_Now e) (cx_Random e) (cx_Ok1 e) (cx_Ok2 e) (cx_Live e)
             (cx_Live2 e) (cx_Size e) (cx_Ok3 e) (cx_Write1 e) (cx_Ok4 e) ctx))) (\<lambda>generation.
    pbind (acquire_lease ctx (wg_ID generation)) (\<lambda>l.
    pbind (on_error (plane_authorize s ctx CapabilityWorkspaceWrite TargetTaskWorkspace generation)
            (pbind (dropping (release_lease rejected ctx l)) (\<lambda>_.
              dropping (discard_generation rejected ctx (wg_ID generation))))) (\<lambda>_.
      let record = \<lparr>wk_Generation = generation, wk_Lease = l\<rparr>
      in pbind (remember_workspace (wg_ID generation) record) (\<lambda>_. pret record)))))"

definition DiscardWorkspace :: "'x plane_sys \<Rightarrow> go_ctx \<Rightarrow> string \<Rightarrow> (unit, 'x) plane_op" where
  "DiscardWorkspace s ctx i =
    pbind (reading (\<lambda>p. cpl_Workspaces p i)) (\<lambda>known.
      case known of
        None \<Rightarrow> pfail PL_ErrRejected
      | Some record \<Rightarrow>
          pbind (updating (\<lambda>p. p\<lparr>cpl_Workspaces := (cpl_Workspaces p)(i := None)\<rparr>)) (\<lambda>_.
          pbind (plane_authorize s ctx CapabilityWorkspaceWrite TargetTaskWorkspace (wk_Generation record)) (\<lambda>_.
          pbind (release_lease rejected ctx (wk_Lease record)) (\<lambda>_.
            discard_generation PL_Workspace ctx i))))"

subsection \<open>The candidate\<close>

text \<open>What is at a path below the workspaces: the tree of the generation of that name.\<close>

definition below_root :: "string \<Rightarrow> string \<Rightarrow> string" where
  "below_root root q = drop (length root + 1) q"

definition path_tree :: "string \<Rightarrow> 'x plane \<Rightarrow> tree_entry list option" where
  "path_tree root p =
    (let base = wr_workspaceRoot (cpl_Store p); i = below_root base root
     in if root \<noteq> join_path base i then None else map_option gd_tree (wr_dirs (cpl_Store p) i))"

definition SnapshotPath :: "(string \<Rightarrow> string) \<Rightarrow> go_ctx \<Rightarrow> string \<Rightarrow> 'x plane \<Rightarrow> string option" where
  "SnapshotPath sha ctx root p =
    (if ctx = Ctx_Nil \<or> root = [] \<or> \<not> is_abs root \<or> clean root \<noteq> root then None
     else (case path_tree root p of None \<Rightarrow> None | Some t \<Rightarrow> snapshotTree sha ctx t))"

definition candidateSnapshot :: "'x plane_sys \<Rightarrow> go_ctx \<Rightarrow> string \<Rightarrow> (string, 'x) plane_op" where
  "candidateSnapshot s ctx root =
    calling (\<lambda>e p. case SnapshotPath (px_Sha s) ctx root p of None \<Rightarrow> (Inl PL_ErrRejected, p) | Some d \<Rightarrow> (Inr d, p))"

definition verified_for :: "string \<Rightarrow> verification_record \<Rightarrow> bool" where
  "verified_for current v =
     ValidResult (vd_Result v) (vd_Plan v) current (vp_EnvironmentID (vd_Plan v)) (vp_PolicyVersion (vd_Plan v))"

definition hasVerifiedCandidate :: "'x plane_sys \<Rightarrow> go_ctx \<Rightarrow> workspace_record \<Rightarrow> (bool, 'x) plane_op" where
  "hasVerifiedCandidate s ctx record p =
    (case candidateSnapshot s ctx (wg_Path (wk_Generation record)) p of
       (Inl _, p1) \<Rightarrow> (Inr False, p1)
     | (Inr current, p1) \<Rightarrow> (Inr (list_ex (\<lambda>(_, v). verified_for current v) (cpl_Verifications p1)), p1))"

subsection \<open>Integration\<close>

definition integration_binding ::
  "'x plane_sys \<Rightarrow> string \<Rightarrow> workspace_record \<Rightarrow> integration_plan \<Rightarrow> 'x plane \<Rightarrow> confirmation_binding" where
  "integration_binding s i record plan p =
     \<lparr>cb_Action = digestText (px_Sha s) (''repository.integrate:'' @ ip_PlanDigest plan), cb_RepositoryID = cpl_RepositoryID p,
      cb_PrincipalID = cpl_PrincipalID p, cb_SessionID = ss_ID (cpl_Session p), cb_GenerationID = i,
      cb_FencingGeneration = le_FencingGeneration (wk_Lease record),
      cb_CandidateSnapshot = wg_CandidateSnapshot (wk_Generation record), cb_PlanDigest = ip_PlanDigest plan\<rparr>"

definition integration_plan_of :: "'x plane_sys \<Rightarrow> go_ctx \<Rightarrow> workspace_record \<Rightarrow> (integration_plan, 'x) plane_op" where
  "integration_plan_of s ctx record =
    calling (\<lambda>e p. case path_tree (wg_Path (wk_Generation record)) p of
        None \<Rightarrow> (Inl PL_ErrRejected, p)
      | Some cand \<Rightarrow>
          of_result PL_ErrRejected (BuildIntegrationPlan (px_Sha s) (px_IntegrationJSON s) (cx_Now e) ctx (cx_Live e) cand
            (wk_Generation record) (wk_Lease record) (cpl_Store p)) p)"

definition plane_IntegrationPlan :: "'x plane_sys \<Rightarrow> go_ctx \<Rightarrow> string \<Rightarrow> (integration_plan, 'x) plane_op" where
  "plane_IntegrationPlan s ctx i =
    pbind (WorkspaceStatus ctx i) (\<lambda>record.
    pbind (plane_authorize s ctx CapabilityWorkspaceRead TargetTaskWorkspace (wk_Generation record)) (\<lambda>_.
    pbind (integration_plan_of s ctx record) (\<lambda>plan.
    pbind (hasVerifiedCandidate s ctx record) (\<lambda>verified.
    pbind (\<lambda>p. if verified
               then rememberConfirmationBinding ConfirmationDestructive (integration_binding s i record plan p) p
               else (Inr (), p)) (\<lambda>_.
      pret plan)))))"

definition IntegrationConfirmationBinding :: "'x plane_sys \<Rightarrow> go_ctx \<Rightarrow> string \<Rightarrow> (confirmation_binding, 'x) plane_op" where
  "IntegrationConfirmationBinding s ctx i =
    pbind (as_error PL_ErrStale (WorkspaceStatus ctx i)) (\<lambda>record.
    pbind (hasVerifiedCandidate s ctx record) (\<lambda>verified.
    pbind (guarding verified PL_ErrStale) (\<lambda>_.
    pbind (integration_plan_of s ctx record) (\<lambda>plan.
    pbind (reading (integration_binding s i record plan)) (\<lambda>cb.
    pbind (rememberConfirmationBinding ConfirmationDestructive cb) (\<lambda>_.
      pret cb))))))"

text \<open>\<open>Integrate\<close> up to the start of the journalled loop, whose steps are \<open>integ_step\<close>; the live tree is the one
  found then.\<close>

definition Integrate :: "'x plane_sys \<Rightarrow> go_ctx \<Rightarrow> string \<Rightarrow> string \<Rightarrow> (integ_state, 'x) plane_op" where
  "Integrate s ctx i token =
    pbind (WorkspaceStatus ctx i) (\<lambda>record.
    pbind (hasVerifiedCandidate s ctx record) (\<lambda>verified.
    pbind (guarding verified PL_ErrStale) (\<lambda>_.
    pbind (integration_plan_of s ctx record) (\<lambda>plan.
    pbind (reading (integration_binding s i record plan)) (\<lambda>cb.
    pbind (authorizeWithBinding s ctx CapabilityIntegrate TargetLiveRepository token cb (wk_Generation record)) (\<lambda>_.
      calling (\<lambda>e p.
        case integration_begin (px_Sha s) (px_IntegrationJSON s) (cx_Now e) (cx_Random e) ctx (cx_Live e) plan
               (wk_Lease record) (cpl_Store p) of
          Inl err \<Rightarrow> (Inl (PL_Workspace err), p)
        | Inr j \<Rightarrow> (Inr (integ_init (cx_Live e) j), p))))))))"

subsection \<open>Runtimes\<close>

definition remember_runtime :: "string \<Rightarrow> runtime \<Rightarrow> (unit, 'x) plane_op" where
  "remember_runtime i rt = updating (\<lambda>p. p\<lparr>cpl_RuntimeMap := (cpl_RuntimeMap p)(i \<mapsto> rt)\<rparr>)"

definition release_runtime :: "go_ctx \<Rightarrow> ws_lease \<Rightarrow> (unit, 'x) plane_op" where
  "release_runtime ctx l =
    calling (\<lambda>e p. on_store rejected (ReleaseRuntime (cx_Now e) (cx_Ok1 e) (cx_Ok2 e) ctx l (cpl_PrincipalID p)) p)"

definition runtime_spec_of :: "string \<Rightarrow> workspace_record \<Rightarrow> string \<Rightarrow> int \<Rightarrow> int \<Rightarrow> 'x plane \<Rightarrow> runtime_spec" where
  "runtime_spec_of i record img cpu memoryBytes p =
     \<lparr>rs_TaskID = i, rs_Generation = wk_Generation record, rs_Lease = wk_Lease record,
      rs_WorkspacePath = wg_Path (wk_Generation record), rs_LiveRepositoryPath = wr_root (cpl_Store p),
      rs_Image = img, runtime_spec.rs_CPU = cpu, runtime_spec.rs_MemoryBytes = memoryBytes,
      rs_Network = NetworkNone, rs_MountReadOnly = False\<rparr>"

definition RuntimeCreate ::
  "'x plane_sys \<Rightarrow> go_ctx \<Rightarrow> string \<Rightarrow> string \<Rightarrow> string \<Rightarrow> int \<Rightarrow> int \<Rightarrow> string list \<Rightarrow> (runtime, 'x) plane_op" where
  "RuntimeCreate s ctx i image0 backend0 cpu0 memory0 network =
    pbind (WorkspaceStatus ctx i) (\<lambda>record.
      let backend = (if backend0 = [] then ''apple-container'' else backend0);
          cpu = (if cpu0 = 0 then 2 else cpu0);
          memoryBytes = (if memory0 = 0 then 536870912 else memory0)
      in pbind (guarding (length network \<le> 1) PL_ErrRejected) (\<lambda>_.
         pbind (guarding (network = [] \<or> hd network = NetworkNone) PL_ErrRejected) (\<lambda>_.
         pbind (plane_authorize s ctx CapabilityRuntimeCreate TargetRuntime (wk_Generation record)) (\<lambda>_.
         pbind (calling (\<lambda>e p. on_store rejected (ReserveRuntime (cx_Now e) (cx_Write1 e) ctx (wk_Lease record) (cpl_PrincipalID p)) p)) (\<lambda>_.
         pbind (on_error
                  (calling (\<lambda>e p. on_runtimes rejected (\<lambda>r. rt_Create (px_Sha s) (cx_Now e) (cx_Ok1 e) (cx_Ok2 e) (cx_Ok3 e) (cx_Ok4 e) ctx r
                     (runtime_spec_of i record (if image0 = [] then cpl_Image p else image0) cpu memoryBytes p) backend) p))
                  (release_runtime ctx (wk_Lease record))) (\<lambda>created.
         pbind (remember_runtime i created) (\<lambda>_. pret created)))))))"

definition RuntimeStart :: "'x plane_sys \<Rightarrow> go_ctx \<Rightarrow> string \<Rightarrow> (runtime, 'x) plane_op" where
  "RuntimeStart s ctx i =
    pbind (WorkspaceStatus ctx i) (\<lambda>record.
    pbind (plane_authorize s ctx CapabilityRuntimeCreate TargetRuntime (wk_Generation record)) (\<lambda>_.
    pbind (calling (\<lambda>e. on_runtimes rejected (\<lambda>r. rt_Start (cx_Now e) (cx_Ok1 e) ctx r i (wk_Lease record)))) (\<lambda>rt.
    pbind (remember_runtime i rt) (\<lambda>_. pret rt))))"

definition RuntimeStop :: "'x plane_sys \<Rightarrow> go_ctx \<Rightarrow> string \<Rightarrow> (runtime, 'x) plane_op" where
  "RuntimeStop s ctx i =
    pbind (WorkspaceStatus ctx i) (\<lambda>record.
    pbind (plane_authorize s ctx CapabilityRuntimeCreate TargetRuntime (wk_Generation record)) (\<lambda>_.
    pbind (calling (\<lambda>e. on_runtimes rejected (\<lambda>r. rt_Stop (cx_Now e) (cx_Ok1 e) (cx_Ok2 e) ctx r i (wk_Lease record)))) (\<lambda>rt.
    pbind (dropping (release_runtime ctx (wk_Lease record))) (\<lambda>_.
    pbind (remember_runtime i rt) (\<lambda>_. pret rt)))))"

definition RuntimeStatus :: "'x plane_sys \<Rightarrow> go_ctx \<Rightarrow> string \<Rightarrow> (runtime, 'x) plane_op" where
  "RuntimeStatus s ctx i =
    pbind (WorkspaceStatus ctx i) (\<lambda>record.
    pbind (plane_authorize s ctx CapabilityWorkspaceRead TargetRuntime (wk_Generation record)) (\<lambda>_.
      on_runtimes PL_Runtime (\<lambda>_ m. (rt_Status ctx i m, m))))"

subsection \<open>Processes\<close>

definition lookup_runtime :: "go_ctx \<Rightarrow> string \<Rightarrow> (runtime, 'x) plane_op" where
  "lookup_runtime ctx i = calling (\<lambda>e p. of_result PL_ErrRejected (rt_Lookup (cx_Order e) ctx i (cpl_Runtimes p)) p)"

text \<open>Which container a runtime is: the resolver that \<open>Open\<close> gives to the starter.\<close>

definition resolve_container :: "string list \<Rightarrow> go_ctx \<Rightarrow> 'x plane \<Rightarrow> string \<Rightarrow> string option" where
  "resolve_container ord ctx p i =
    (case rt_Lookup ord ctx i (cpl_Runtimes p) of
       Inl _ \<Rightarrow> None
     | Inr rt \<Rightarrow> if rt_State rt \<noteq> StateRunning \<or> rt_Backend rt \<noteq> ''apple-container'' then None else Some (rt_ExternalID rt))"

definition start_supervised :: "'x plane_sys \<Rightarrow> go_ctx \<Rightarrow> process_spec \<Rightarrow> (started, 'x) plane_op" where
  "start_supervised s ctx spec =
    calling (\<lambda>e p.
      case supervisor_Start (container_Start (px_Host s) (px_ContainerBinary s) (resolve_container (cx_Order e) ctx p)) ctx spec
             (rm_world (cpl_Runtimes p)) of
        (None, x) \<Rightarrow> (Inl PL_ErrRejected, p\<lparr>cpl_Runtimes := put_world x (cpl_Runtimes p)\<rparr>)
      | (Some h, x) \<Rightarrow> (Inr h, p\<lparr>cpl_Runtimes := put_world x (cpl_Runtimes p)\<rparr>))"

definition process_spec_of :: "string \<Rightarrow> string \<Rightarrow> workspace_record \<Rightarrow> compiled_execution \<Rightarrow> duration \<Rightarrow> process_spec" where
  "process_spec_of i rid record x timeout =
     \<lparr>ps_TaskID = i, ps_WorkspaceGeneration = i, ps_LeaseGeneration = le_FencingGeneration (wk_Lease record),
      ps_RuntimeID = rid, ps_Execution = x, ps_Environment = xs_Environment x, ps_Interactive = False, ps_PTY = False,
      ps_Timeout = timeout, ps_MemoryBytes = 0, ps_ChunkBytes = 0\<rparr>"

definition ProcessStartWithEnvironment ::
  "'x plane_sys \<Rightarrow> go_ctx \<Rightarrow> string \<Rightarrow> string \<Rightarrow> string \<Rightarrow> string list \<Rightarrow> string \<Rightarrow> duration \<Rightarrow> (string \<times> string) list
     \<Rightarrow> (string, 'x) plane_op" where
  "ProcessStartWithEnvironment s ctx i rid executable as cwd timeout supplied =
    pbind (WorkspaceStatus ctx i) (\<lambda>record.
    pbind (lookup_runtime ctx rid) (\<lambda>rt.
    pbind (guarding (rt_GenerationID rt = i \<and> rt_State rt = StateRunning
             \<and> rt_LeaseGeneration rt = le_FencingGeneration (wk_Lease record)) PL_ErrRejected) (\<lambda>_.
    pbind (\<lambda>p. case suppliedEnvironmentValues supplied of None \<Rightarrow> (Inl PL_ErrRejected, p) | Some env \<Rightarrow> (Inr env, p)) (\<lambda>env.
    pbind (authorizeDecision s ctx CapabilityExecute TargetRuntime []
             \<lparr>xs_Backend = rt_Backend rt, xs_Executable = executable, xs_Arguments = as,
              xs_CWD = (if cwd = [] then ''/workspace'' else cwd), xs_Environment = env\<rparr> [] no_binding (wk_Generation record)) (\<lambda>d.
    pbind (\<lambda>p. case dc_Execution d of
                None \<Rightarrow> (Inl PL_ErrRejected, p)
              | Some x \<Rightarrow> start_supervised s ctx (process_spec_of i rid record x timeout) p) (\<lambda>h.
    calling (\<lambda>e p. case randomID ''proc_'' (cx_Random e) of
        None \<Rightarrow> (Inl PL_ErrRejected, p)
      | Some j \<Rightarrow> (Inr j, p\<lparr>cpl_Processes := (cpl_Processes p)
          (j \<mapsto> \<lparr>pj_ID = j, pj_GenerationID = i, pj_RuntimeID = rid, pj_Process = h\<rparr>)\<rparr>))))))))"

definition ProcessStart ::
  "'x plane_sys \<Rightarrow> go_ctx \<Rightarrow> string \<Rightarrow> string \<Rightarrow> string \<Rightarrow> string list \<Rightarrow> string \<Rightarrow> duration \<Rightarrow> (string, 'x) plane_op" where
  "ProcessStart s ctx i rid executable as cwd timeout =
     ProcessStartWithEnvironment s ctx i rid executable as cwd timeout []"

definition processContext :: "go_ctx \<Rightarrow> string \<Rightarrow> (process_record \<times> workspace_record, 'x) plane_op" where
  "processContext ctx j =
    (if ctx = Ctx_Nil then pfail PL_ErrRejected
     else pbind (reading (\<lambda>p. cpl_Processes p j)) (\<lambda>known.
       case known of
         None \<Rightarrow> pfail PL_ErrRejected
       | Some record \<Rightarrow>
           pbind (as_error PL_ErrRejected (WorkspaceStatus ctx (pj_GenerationID record))) (\<lambda>generation.
           pbind (guarding (wg_ID (wk_Generation generation) = pj_GenerationID record) PL_ErrRejected) (\<lambda>_.
             pret (record, generation)))))"

text \<open>What a process does is told by its supervision; reading, signalling and waiting take its answer from the
  stream.\<close>

definition controlled :: "'x plane_sys \<Rightarrow> go_ctx \<Rightarrow> string \<Rightarrow> string \<Rightarrow> (process_record, 'x) plane_op" where
  "controlled s ctx capability j =
    pbind (as_error PL_ErrRejected (processContext ctx j)) (\<lambda>(record, generation).
    pbind (plane_authorize s ctx capability TargetRuntime (wk_Generation generation)) (\<lambda>_. pret record))"

definition plane_ProcessRead :: "'x plane_sys \<Rightarrow> go_ctx \<Rightarrow> string \<Rightarrow> (chunk list, 'x) plane_op" where
  "plane_ProcessRead s ctx j =
    pbind (controlled s ctx CapabilityWorkspaceRead j) (\<lambda>_.
      calling (\<lambda>e p. case cx_Chunks e of None \<Rightarrow> (Inl PL_Process, p) | Some cs \<Rightarrow> (Inr cs, p)))"

definition plane_ProcessCancel :: "'x plane_sys \<Rightarrow> go_ctx \<Rightarrow> string \<Rightarrow> (unit, 'x) plane_op" where
  "plane_ProcessCancel s ctx j = pbind (controlled s ctx CapabilityProcessControl j) (\<lambda>_. pret ())"

definition plane_ProcessSignal :: "'x plane_sys \<Rightarrow> go_ctx \<Rightarrow> string \<Rightarrow> int \<Rightarrow> (int, 'x) plane_op" where
  "plane_ProcessSignal s ctx j sig =
    pbind (controlled s ctx CapabilityProcessControl j) (\<lambda>_.
      case signalValue sig of
        None \<Rightarrow> pfail PL_ErrRejected
      | Some v \<Rightarrow> calling (\<lambda>e p. if cx_Ok1 e then (Inr v, p) else (Inl PL_Process, p)))"

definition plane_ProcessWait :: "'x plane_sys \<Rightarrow> go_ctx \<Rightarrow> string \<Rightarrow> (outcome, 'x) plane_op" where
  "plane_ProcessWait s ctx j =
    pbind (controlled s ctx CapabilityProcessControl j) (\<lambda>_.
      calling (\<lambda>e p. case cx_Outcome e of None \<Rightarrow> (Inl PL_Process, p) | Some out \<Rightarrow> (Inr out, p)))"

subsection \<open>Planning a verification\<close>

text \<open>The files of a candidate as the detectors see them, by their paths below its root.\<close>

definition tree_lstat :: "string \<Rightarrow> tree_entry list \<Rightarrow> string \<Rightarrow> lstat" where
  "tree_lstat root t q =
    (case entry_at t (below_root root q) of None \<Rightarrow> Stat_Absent | Some e \<Rightarrow> if is_regular e then Stat_Regular else Stat_Other)"

definition tree_env_stat :: "string \<Rightarrow> tree_entry list \<Rightarrow> string \<Rightarrow> env_stat" where
  "tree_env_stat root t q =
    (case entry_at t (below_root root q) of None \<Rightarrow> ES_Absent | Some e \<Rightarrow> if is_regular e then ES_Regular (te_Size e) else ES_Other)"

definition tree_read :: "string \<Rightarrow> tree_entry list \<Rightarrow> string \<Rightarrow> string option" where
  "tree_read root t q = content_at t (below_root root q)"

definition tree_exists :: "string \<Rightarrow> tree_entry list \<Rightarrow> string \<Rightarrow> bool" where
  "tree_exists root t q \<longleftrightarrow> entry_at t (below_root root q) \<noteq> None"

text \<open>A reading of the candidate: what is found there at one call.\<close>

definition examine :: "ws_generation \<Rightarrow> (string \<Rightarrow> tree_entry list \<Rightarrow> 'e + 'a) \<Rightarrow> ('a, 'x) plane_op" where
  "examine g f =
    calling (\<lambda>e p. case path_tree (wg_Path g) p of
        None \<Rightarrow> (Inl PL_ErrRejected, p)
      | Some t \<Rightarrow> of_result PL_ErrRejected (f (wg_Path g) t) p)"

definition refresh_record :: "'x plane_sys \<Rightarrow> go_ctx \<Rightarrow> string \<Rightarrow> workspace_record \<Rightarrow> (workspace_record, 'x) plane_op" where
  "refresh_record s ctx i record =
    pbind (calling (\<lambda>e. on_store (\<lambda>_. PL_ErrStale) (RefreshGeneration (px_Sha s) (cx_Now e) (cx_Write1 e) ctx (wk_Generation record) (wk_Lease record)))) (\<lambda>g.
      let record' = record\<lparr>wk_Generation := g\<rparr>
      in pbind (remember_workspace i record') (\<lambda>_. pret record'))"

definition create_environment :: "'x plane_sys \<Rightarrow> go_ctx \<Rightarrow> environment_spec \<Rightarrow> (env_generation, 'x) plane_op" where
  "create_environment s ctx spec =
    calling (\<lambda>e p. case env_Create (px_Codec s) (cx_Now e) (cx_File e) ctx spec (cpl_Environment p) of
        (Inl _, m) \<Rightarrow> (Inl PL_ErrRejected, p\<lparr>cpl_Environment := m\<rparr>)
      | (Inr g, m) \<Rightarrow> (Inr g, p\<lparr>cpl_Environment := m\<rparr>))"

definition remember_verification :: "string \<Rightarrow> verification_record \<Rightarrow> 'x plane \<Rightarrow> 'x plane" where
  "remember_verification d v p =
     p\<lparr>cpl_Verifications := (d, v) # filter (\<lambda>kv. fst kv \<noteq> d) (cpl_Verifications p)\<rparr>"

definition zero_result :: verification_result where
  "zero_result = \<lparr>vr_PlanDigest = [], vr_RepositoryID = [], vr_CandidateSnapshot = [], vr_EnvironmentID = [], vr_PolicyVersion = [],
     vr_Passed = False, vr_ExitCode = 0, vr_Diagnostic = [], vr_VerifiedAt = zero_time\<rparr>"

definition PlanVerification :: "'x plane_sys \<Rightarrow> go_ctx \<Rightarrow> string \<Rightarrow> target \<Rightarrow> (verification_plan, 'x) plane_op" where
  "PlanVerification s ctx i t =
    pbind (WorkspaceStatus ctx i) (\<lambda>record0.
    pbind (plane_authorize s ctx CapabilityWorkspaceRead TargetTaskWorkspace (wk_Generation record0)) (\<lambda>_.
    pbind (candidateSnapshot s ctx (wg_Path (wk_Generation record0))) (\<lambda>current.
    pbind (if current \<noteq> wg_CandidateSnapshot (wk_Generation record0) then refresh_record s ctx i record0 else pret record0) (\<lambda>record.
      let g = wk_Generation record
      in pbind (examine g (\<lambda>root tree. in_Detect ctx (tree_lstat root tree) (tree_exists root tree) root)) (\<lambda>info.
         pbind (examine g (\<lambda>root tree. env_Detect (px_Sha s) ctx (tree_env_stat root tree) (tree_read root tree) root)) (\<lambda>toolchain.
         pbind (candidateSnapshot s ctx (wg_Path g)) (\<lambda>snapshot.
         pbind (examine g (\<lambda>root tree. HashLockfiles (px_Sha s) ctx (tree_env_stat root tree) (tree_read root tree) root)) (\<lambda>lockfiles.
         pbind (\<lambda>p. create_environment s ctx \<lparr>nv_RepositoryID = cpl_RepositoryID p, nv_WorkspaceID = wg_ID g, nv_Platform = px_Platform s,
                  nv_Toolchain = toolchain, nv_LockfileDigest = lockfiles, nv_PolicyVersion = PolicyVersion, nv_Image = cpl_Image p\<rparr> p) (\<lambda>env.
         pbind (\<lambda>p. of_result PL_ErrRejected (BuildPlan (px_VerificationJSON s) (px_Sha s) ctx info (cpl_RepositoryID p) snapshot
                  (eg_Identity env) PolicyVersion t) p) (\<lambda>plan.
         pbind (updating (\<lambda>p. (remember_verification (vp_PlanDigest plan) \<lparr>vd_Plan = plan, vd_Result = zero_result\<rparr> p)
                  \<lparr>cpl_Environments := (cpl_Environments p)(eg_Identity env \<mapsto> env)\<rparr>)) (\<lambda>_.
           pret plan)))))))))))"

subsection \<open>Events\<close>

definition on_events :: "(ev_error \<Rightarrow> plane_error) \<Rightarrow> (ev_env \<Rightarrow> ev_store \<Rightarrow> (ev_error + 'a) \<times> ev_store) \<Rightarrow> ('a, 'x) plane_op" where
  "on_events err f =
    calling (\<lambda>e p. case f (cx_Events e) (cpl_Events p) of
        (Inl x, ev) \<Rightarrow> (Inl (err x), p\<lparr>cpl_Events := ev\<rparr>)
      | (Inr a, ev) \<Rightarrow> (Inr a, p\<lparr>cpl_Events := ev\<rparr>))"

definition with_error :: "'e option \<times> 's \<Rightarrow> ('e + unit) \<times> 's" where
  "with_error r = (case r of (None, s) \<Rightarrow> (Inr (), s) | (Some e, s) \<Rightarrow> (Inl e, s))"

definition EventsCreate :: "'x plane_sys \<Rightarrow> go_ctx \<Rightarrow> string \<Rightarrow> string \<Rightarrow> string \<Rightarrow> (instant ev_run, 'x) plane_op" where
  "EventsCreate s ctx taskID i environmentID =
    pbind (WorkspaceStatus ctx i) (\<lambda>record.
    pbind (calling (\<lambda>e p. case randomID ''run_'' (cx_Random e) of
        None \<Rightarrow> (Inl PL_ErrRejected, p)
      | Some j \<Rightarrow> (Inr \<lparr>er_ID = j, er_TaskID = taskID, er_RepositoryID = cpl_RepositoryID p, er_GenerationID = i,
          er_EnvironmentID = environmentID, er_PolicyVersion = PolicyVersion,
          er_CandidateSnapshot = wg_CandidateSnapshot (wk_Generation record), er_Status = ''created'',
          er_CreatedAt = cx_Now e, er_UpdatedAt = cx_Now e\<rparr>, p))) (\<lambda>run.
    pbind (on_events (\<lambda>_. PL_ErrRejected) (\<lambda>e ev. with_error (CreateRun (px_EventSys s) (e\<lparr>ee_Ctx := ctx\<rparr>) run ev))) (\<lambda>_.
      pret run)))"

definition plane_AppendEvent :: "'x plane_sys \<Rightarrow> go_ctx \<Rightarrow> string \<Rightarrow> string \<Rightarrow> string \<Rightarrow> (instant event, 'x) plane_op" where
  "plane_AppendEvent s ctx runID eventType payload =
    (if plane_containsSecret eventType \<or> plane_containsSecret payload then pfail PL_ErrRejected
     else on_events PL_Events (\<lambda>e. AppendEvent (px_EventSys s) (e\<lparr>ee_Ctx := ctx\<rparr>) runID eventType payload))"

definition plane_ListEvents :: "'x plane_sys \<Rightarrow> go_ctx \<Rightarrow> string \<Rightarrow> int \<Rightarrow> int \<Rightarrow> (instant event list, 'x) plane_op" where
  "plane_ListEvents s ctx runID after limit =
     on_events PL_Events (\<lambda>e ev. (ListEvents (px_EventSys s) (e\<lparr>ee_Ctx := ctx\<rparr>) runID after limit ev, ev))"

end
