(* ===== verification/Plane_Automation.thy ===== *)
theory Plane_Automation
  imports Plane_Operations
begin

section \<open>The control plane: verification, publication and the loop (internal/controlplane/automation.go)\<close>

text \<open>
  Verification as supervised processes of the runtime, publication of a verified candidate, and the loop
  controller with the plane as its authority. A loop is run here from its launch to its end; the calls of
  other clients in between are the edits of the trees that every call allows.
\<close>

subsection \<open>The runner of verification commands\<close>

definition plane_pathWithin :: "string \<Rightarrow> string \<Rightarrow> bool" where
  "plane_pathWithin parent candidate \<longleftrightarrow> rel_inside (rel_from_abs parent candidate)"

fun diagnostic_loop :: "chunk list \<Rightarrow> string \<Rightarrow> string" where
  "diagnostic_loop [] acc = acc"
| "diagnostic_loop (c # cs) acc =
    (if 4096 \<le> length acc then acc else diagnostic_loop cs (acc @ take (4096 - length acc) (ck_Data c)))"

definition boundedDiagnostic :: "chunk list \<Rightarrow> string" where
  "boundedDiagnostic cs = diagnostic_loop cs []"

definition container_cwd :: "string \<Rightarrow> string \<Rightarrow> string" where
  "container_cwd root workdir =
    (case rel_from_abs root workdir of
       None \<Rightarrow> ''/workspace''
     | Some rel \<Rightarrow> if rel = ''.'' then ''/workspace'' else ''/workspace/'' @ rel)"

definition verification_outcome :: "outcome \<Rightarrow> string \<Rightarrow> int \<times> string" where
  "verification_outcome out diagnostic =
    (oc_ExitCode out,
     if oc_TimedOut out then ''verification timed out: '' @ diagnostic
     else if oc_Canceled out then ''verification canceled: '' @ diagnostic
     else diagnostic)"

definition verification_Run ::
  "'x plane_sys \<Rightarrow> go_ctx \<Rightarrow> string \<Rightarrow> string \<Rightarrow> string \<Rightarrow> in_command \<Rightarrow> 'x plane \<Rightarrow> (int \<times> string) \<times> 'x plane" where
  "verification_Run s ctx i rid root c p =
    (if ctx = Ctx_Nil \<or> \<not> is_abs (ic_Workdir c) \<or> \<not> plane_pathWithin root (ic_Workdir c)
     then ((-1, ''verification command rejected''), p)
     else (case ProcessStart s ctx i rid (ic_Executable c) (ic_Arguments c) (container_cwd root (ic_Workdir c)) 0 p of
             (Inl _, p1) \<Rightarrow> ((-1, ''supervised process rejected''), p1)
           | (Inr j, p1) \<Rightarrow>
               (case plane_ProcessWait s ctx j p1 of
                  (Inl _, p2) \<Rightarrow> ((-1, ''supervised process wait failed''), p2)
                | (Inr out, p2) \<Rightarrow>
                    (case plane_ProcessRead s ctx j p2 of
                       (r, p3) \<Rightarrow>
                         (verification_outcome out (boundedDiagnostic (case r of Inl _ \<Rightarrow> [] | Inr cs \<Rightarrow> cs)), p3)))))"

subsection \<open>Verification\<close>

definition snapshot_provider ::
  "'x plane_sys \<Rightarrow> go_ctx \<Rightarrow> string \<Rightarrow> 'x plane \<Rightarrow> string option \<times> 'x plane" where
  "snapshot_provider s ctx root p =
    (case candidateSnapshot s ctx root p of (Inl _, p1) \<Rightarrow> (None, p1) | (Inr d, p1) \<Rightarrow> (Some d, p1))"

definition verify_candidate ::
  "'x plane_sys \<Rightarrow> go_ctx \<Rightarrow> string \<Rightarrow> string \<Rightarrow> workspace_record \<Rightarrow> verification_plan \<Rightarrow> (verification_result, 'x) plane_op" where
  "verify_candidate s ctx i rid record plan =
    calling (\<lambda>e p.
      case Verify (px_VerificationJSON s) (px_Sha s) ctx (cx_Now e) plan (snapshot_provider s ctx (wg_Path (wk_Generation record)))
             (verification_Run s ctx i rid (wg_Path (wk_Generation record))) p of
        (Inr r, p1) \<Rightarrow> (Inr r, p1)
      | (Inl _, p1) \<Rightarrow>
          (case candidateSnapshot s ctx (wg_Path (wk_Generation record)) p1 of
             (Inl _, p2) \<Rightarrow> (Inl PL_ErrRejected, p2)
           | (Inr later, p2) \<Rightarrow>
               (Inl (if later \<noteq> vp_CandidateSnapshot plan then PL_ErrStale else PL_ErrRejected), p2)))"

definition RunVerification ::
  "'x plane_sys \<Rightarrow> go_ctx \<Rightarrow> string \<Rightarrow> string \<Rightarrow> string \<Rightarrow> (verification_result, 'x) plane_op" where
  "RunVerification s ctx planDigest i rid =
    (if ctx = Ctx_Nil \<or> planDigest = [] \<or> i = [] \<or> rid = [] then pfail PL_ErrRejected
     else pbind (as_error PL_ErrRejected (WorkspaceStatus ctx i)) (\<lambda>record.
          pbind (\<lambda>p. case map_of (cpl_Verifications p) planDigest of
                  None \<Rightarrow> (Inl PL_ErrStale, p)
                | Some v \<Rightarrow>
                    if vp_RepositoryID (vd_Plan v) \<noteq> cpl_RepositoryID p
                       \<or> vp_CandidateSnapshot (vd_Plan v) \<noteq> wg_CandidateSnapshot (wk_Generation record)
                    then (Inl PL_ErrStale, p) else (Inr v, p)) (\<lambda>v.
          pbind (lookup_runtime ctx rid) (\<lambda>rt.
          pbind (guarding (rt_GenerationID rt = i \<and> rt_State rt = StateRunning) PL_ErrRejected) (\<lambda>_.
          pbind (candidateSnapshot s ctx (wg_Path (wk_Generation record))) (\<lambda>current.
          pbind (guarding (current = vp_CandidateSnapshot (vd_Plan v)) PL_ErrStale) (\<lambda>_.
          pbind (verify_candidate s ctx i rid record (vd_Plan v)) (\<lambda>result.
          pbind (updating (remember_verification planDigest (v\<lparr>vd_Result := result\<rparr>))) (\<lambda>_.
            pret result)))))))))"

definition VerificationStatus :: "go_ctx \<Rightarrow> string \<Rightarrow> (verification_record, 'x) plane_op" where
  "VerificationStatus ctx planDigest p =
    (if ctx = Ctx_Nil then (Inl PL_ErrRejected, p)
     else (case map_of (cpl_Verifications p) planDigest of None \<Rightarrow> (Inl PL_ErrRejected, p) | Some v \<Rightarrow> (Inr v, p)))"

subsection \<open>Publication\<close>

definition publicationConfirmationBinding ::
  "'x plane_sys \<Rightarrow> string \<Rightarrow> string \<Rightarrow> workspace_record \<Rightarrow> pub_request \<Rightarrow> 'x plane \<Rightarrow> confirmation_binding" where
  "publicationConfirmationBinding s i planDigest record q p =
     \<lparr>cb_Action = digestText (px_Sha s) (''repository.publish:'' @ px_RequestJSON s (q\<lparr>pq_ConfirmationToken := []\<rparr>)),
      cb_RepositoryID = cpl_RepositoryID p, cb_PrincipalID = cpl_PrincipalID p, cb_SessionID = ss_ID (cpl_Session p),
      cb_GenerationID = i, cb_FencingGeneration = le_FencingGeneration (wk_Lease record),
      cb_CandidateSnapshot = wg_CandidateSnapshot (wk_Generation record), cb_PlanDigest = planDigest\<rparr>"

definition publicationCandidate ::
  "'x plane_sys \<Rightarrow> go_ctx \<Rightarrow> string \<Rightarrow> string \<Rightarrow> (pub_candidate \<times> verification_record, 'x) plane_op" where
  "publicationCandidate s ctx i planDigest =
    pbind (as_error PL_ErrRejected (WorkspaceStatus ctx i)) (\<lambda>record.
    pbind (as_error PL_ErrStale (VerificationStatus ctx planDigest)) (\<lambda>v.
    pbind (\<lambda>p. guarding (vp_RepositoryID (vd_Plan v) = cpl_RepositoryID p \<and> vr_Passed (vd_Result v)) PL_ErrStale p) (\<lambda>_.
    pbind (as_error PL_ErrStale (candidateSnapshot s ctx (wg_Path (wk_Generation record)))) (\<lambda>current.
    pbind (guarding (verified_for current v) PL_ErrStale) (\<lambda>_.
      pret (\<lparr>pc_RepositoryRoot = wg_Path (wk_Generation record), pc_CandidateSnapshot = current,
             pc_VerifiedSnapshot = vr_CandidateSnapshot (vd_Result v), pc_EnvironmentID = vr_EnvironmentID (vd_Result v),
             pc_PolicyVersion = vr_PolicyVersion (vd_Result v), pc_Verified = True\<rparr>, v))))))"

text \<open>The adapter that \<open>Open\<close> makes: the commands of the host, and the snapshot of a path.\<close>

definition no_gate :: pub_gate where
  "no_gate = \<lparr>pg_Enabled = False, pg_AllowLocalMutation = False, pg_AllowExternalMutation = False, pg_ConfirmationToken = []\<rparr>"

definition host_runner ::
  "'x plane_sys \<Rightarrow> go_ctx \<Rightarrow> string \<Rightarrow> string \<Rightarrow> string list \<Rightarrow> 'x plane \<Rightarrow> string option \<times> 'x plane" where
  "host_runner s ctx dir exe as p =
    (case OSRunner_Run ctx (px_Look s) (px_Exec s) dir exe as (rm_world (cpl_Runtimes p)) of
       (out, x) \<Rightarrow> (out, p\<lparr>cpl_Runtimes := put_world x (cpl_Runtimes p)\<rparr>))"

definition plane_adapter :: "'x plane_sys \<Rightarrow> go_ctx \<Rightarrow> pub_gate \<Rightarrow> 'x plane pub_adapter" where
  "plane_adapter s ctx gate =
     \<lparr>pa_gate = gate, pa_runner = host_runner s ctx,
      pa_snapshot = snapshot_provider s ctx\<rparr>"

definition publishing ::
  "go_ctx \<Rightarrow> 'x plane pub_adapter \<Rightarrow> pub_candidate \<Rightarrow> pub_request \<Rightarrow> (pub_result, 'x) plane_op" where
  "publishing ctx a c q p =
    (case Publish ctx a c q \<lparr>pw_ext = p, pw_runs = []\<rparr> of
       (Inl e, w) \<Rightarrow> (Inl (PL_Publication e), pw_ext w)
     | (Inr r, w) \<Rightarrow> (Inr r, pw_ext w))"

definition PublicationPlan ::
  "'x plane_sys \<Rightarrow> go_ctx \<Rightarrow> string \<Rightarrow> string \<Rightarrow> pub_request \<Rightarrow> (pub_result, 'x) plane_op" where
  "PublicationPlan s ctx i planDigest q0 =
    (let q = q0\<lparr>pq_Mode := ModePlan, pq_DryRun := False, pq_ConfirmationToken := []\<rparr>
     in pbind (publicationCandidate s ctx i planDigest) (\<lambda>(c, _).
        pbind (publishing ctx (plane_adapter s ctx no_gate) c q) (\<lambda>result.
        pbind (\<lambda>p. case WorkspaceStatus ctx i p of
                (Inl _, p1) \<Rightarrow> (Inr (), p1)
              | (Inr record, p1) \<Rightarrow>
                  rememberConfirmationBinding ConfirmationPublication (publicationConfirmationBinding s i planDigest record q p1) p1) (\<lambda>_.
          pret result))))"

definition local_kind :: "string \<Rightarrow> bool" where
  "local_kind k \<longleftrightarrow> k = KindGitCheckpoint \<or> k = KindJJCheckpoint"

definition PublicationExecute ::
  "'x plane_sys \<Rightarrow> go_ctx \<Rightarrow> string \<Rightarrow> string \<Rightarrow> pub_request \<Rightarrow> (pub_result, 'x) plane_op" where
  "PublicationExecute s ctx i planDigest q0 =
    pbind (as_error PL_ErrRejected (WorkspaceStatus ctx i)) (\<lambda>record.
    pbind (as_error PL_ErrStale (VerificationStatus ctx planDigest)) (\<lambda>v.
    pbind (guarding (vp_CandidateSnapshot (vd_Plan v) = wg_CandidateSnapshot (wk_Generation record) \<and> vr_Passed (vd_Result v)) PL_ErrStale) (\<lambda>_.
    pbind (guarding (pq_ConfirmationToken q0 \<noteq> []) PL_ErrRejected) (\<lambda>_.
    pbind (publicationCandidate s ctx i planDigest) (\<lambda>(c, _).
    pbind (reading (publicationConfirmationBinding s i planDigest record q0)) (\<lambda>cb.
    pbind (authorizeWithBinding s ctx CapabilityPublish TargetLiveRepository (pq_ConfirmationToken q0) cb (wk_Generation record)) (\<lambda>_.
      let q = q0\<lparr>pq_Mode := ModeExecute, pq_DryRun := False\<rparr>;
          gate = \<lparr>pg_Enabled = True, pg_AllowLocalMutation = local_kind (pq_Kind q),
                  pg_AllowExternalMutation = \<not> local_kind (pq_Kind q), pg_ConfirmationToken = pq_ConfirmationToken q\<rparr>
      in case WithGate gate (plane_adapter s ctx no_gate) of
           None \<Rightarrow> pfail PL_ErrRejected
         | Some a \<Rightarrow> publishing ctx a c q)))))))"

definition PublicationConfirmationBinding ::
  "'x plane_sys \<Rightarrow> go_ctx \<Rightarrow> string \<Rightarrow> string \<Rightarrow> pub_request \<Rightarrow> (confirmation_binding, 'x) plane_op" where
  "PublicationConfirmationBinding s ctx i planDigest q =
    pbind (as_error PL_ErrRejected (WorkspaceStatus ctx i)) (\<lambda>record.
    pbind (publicationCandidate s ctx i planDigest) (\<lambda>_.
    pbind (reading (publicationConfirmationBinding s i planDigest record q)) (\<lambda>cb.
    pbind (rememberConfirmationBinding ConfirmationPublication cb) (\<lambda>_.
      pret cb))))"

end
