(* ===== verification/Plane_Loop.thy ===== *)
theory Plane_Loop
  imports Plane_Automation
begin

section \<open>The control plane: autonomous loops (internal/controlplane/automation.go)\<close>

text \<open>
  Starting, resuming and showing loops, and the model and the authority that the plane gives to the loop
  controller. The authority acts on the plane and keeps the plan it verifies with.
\<close>

subsection \<open>Patching a candidate\<close>

text \<open>The tree of a disk, in the order of a walk; \<open>size_of\<close> gives the size of a directory.\<close>

fun node_kind :: "node \<Rightarrow> tree_kind" where
  "node_kind (Dir_Node _ _) = Tree_Dir"
| "node_kind (Regular_Node _ content) = Tree_File content"
| "node_kind (Symlink_Node _) = Tree_Symlink"
| "node_kind (Special_Node _) = Tree_Other"

definition node_entry :: "(tree_entry \<Rightarrow> nat) \<Rightarrow> string \<Rightarrow> node \<Rightarrow> tree_entry" where
  "node_entry size_of p n =
    (let e = \<lparr>te_Path = p, te_Perm = nm_perm (meta_of n), te_Size = 0, te_Kind = node_kind n\<rparr>
     in e\<lparr>te_Size := (case node_kind n of Tree_File content \<Rightarrow> length content | _ \<Rightarrow> size_of e)\<rparr>)"

function tree_of_entries :: "(tree_entry \<Rightarrow> nat) \<Rightarrow> string \<Rightarrow> (string \<times> node) list \<Rightarrow> tree_entry list" where
  "tree_of_entries size_of rel [] = []"
| "tree_of_entries size_of rel ((name, n) # es) =
    (let p = child_path rel name
     in node_entry size_of p n # (case n of Dir_Node _ ces \<Rightarrow> tree_of_entries size_of p (sort_key fst ces) | _ \<Rightarrow> [])
          @ tree_of_entries size_of rel es)"
  by pat_completeness auto
termination
  by (relation "measure (\<lambda>(_, _, es). entries_weight es)") auto

definition tree_of_disk :: "(tree_entry \<Rightarrow> nat) \<Rightarrow> node \<Rightarrow> tree_entry list" where
  "tree_of_disk size_of disk = tree_of_entries size_of ''.'' (sort_key fst (entries_of (Some disk)))"

definition put_tree :: "string \<Rightarrow> tree_entry list \<Rightarrow> 'x plane \<Rightarrow> 'x plane" where
  "put_tree root t p =
    (let base = wr_workspaceRoot (cpl_Store p)
     in p\<lparr>cpl_Store := edit_trees (\<lambda>i old. if i = below_root base root then t else old) (cpl_Store p)\<rparr>)"

definition apply_candidate_patch :: "'x plane_sys \<Rightarrow> string \<Rightarrow> string \<Rightarrow> (unit, 'x) plane_op" where
  "apply_candidate_patch s root patch =
    calling (\<lambda>e p.
      case repo_New (px_Sha s) (fst (cx_Root e)) (snd (cx_Root e)) root of
        None \<Rightarrow> (Inl PL_ErrRejected, p)
      | Some w \<Rightarrow>
          (case ApplyPatch w (cx_Io e) (cx_Disk0 e) (cx_Disk1 e) (cx_Disk2 e) patch of
             (None, d) \<Rightarrow> (Inl PL_ErrRejected, put_tree root (tree_of_disk (cx_Size e) d) p)
           | (Some _, d) \<Rightarrow> (Inr (), put_tree root (tree_of_disk (cx_Size e) d) p)))"

subsection \<open>The model\<close>

definition loopModel_plan :: "'x plane_sys \<Rightarrow> binding \<Rightarrow> string \<Rightarrow> loop_plan" where
  "loopModel_plan s b patch =
    (let check = (\<lambda>name. \<lparr>ac_ID = name @ ''-verification'', ac_Kind = ''verification'',
                          ac_Fingerprint = digestText (px_Sha s) (name @ '':'' @ lb_CandidateSnapshot b)\<rparr>)
     in \<lparr>pn_Binding = b, pn_Commands = [check ''preflight''],
         pn_Patch = \<lparr>ac_ID = ''candidate-patch'', ac_Kind = ''candidate_patch'', ac_Fingerprint = digestText (px_Sha s) patch\<rparr>,
         pn_TargetedTest = check ''targeted'', pn_FullVerify = check ''full'', pn_Destructive = False, pn_Ambiguous = False\<rparr>)"

definition loopModel :: "'x plane_sys \<Rightarrow> binding \<Rightarrow> string \<Rightarrow> 'y loop_model" where
  "loopModel s b patch =
     \<lparr>mo_Inspect = (\<lambda>_ x. (Inr ''execute the bounded candidate verification workflow'', x)),
      mo_Plan = (\<lambda>_ _ x. (Inr (loopModel_plan s b patch), x)),
      mo_Diagnose = (\<lambda>_ _ _ x. (Inr (loopModel_plan s b patch), x))\<rparr>"

subsection \<open>The authority\<close>

record loop_job =
  jl_Run :: "instant ev_run"
  jl_Config :: loop_config
  jl_Plan :: verification_plan

text \<open>The errors of the plane that reach the controller, as Go errors.\<close>

definition plane_go_error :: "plane_error \<Rightarrow> go_error" where
  "plane_go_error e = \<lparr>ge_Kind = Err_Other,
     ge_Text = (if e = PL_ErrStale then ''control plane candidate is stale'' else ''control plane request rejected'')\<rparr>"

definition workspace_go_error :: "go_ctx \<Rightarrow> ws_error \<Rightarrow> go_error" where
  "workspace_go_error ctx e =
    (case e of
       WS_ErrRejected \<Rightarrow> \<lparr>ge_Kind = Err_Other, ge_Text = ''workspace request rejected''\<rparr>
     | WS_ErrLeaseBusy \<Rightarrow> \<lparr>ge_Kind = Err_Other, ge_Text = ''workspace lease unavailable''\<rparr>
     | WS_ErrStaleFence \<Rightarrow> \<lparr>ge_Kind = Err_Other, ge_Text = ''workspace fence is stale''\<rparr>
     | WS_ErrContext \<Rightarrow>
         if ctx = Ctx_Deadline then \<lparr>ge_Kind = Err_Deadline, ge_Text = ''context deadline exceeded''\<rparr>
         else \<lparr>ge_Kind = Err_Canceled, ge_Text = ''context canceled''\<rparr>)"

type_synonym 'x authority_world = "'x plane \<times> verification_plan"

text \<open>A call of the plane by the authority, which forgets the result; \<open>live\<close> is the context of the loop as it
  is at each call.\<close>

definition authority_call ::
  "(nat \<Rightarrow> go_ctx) \<Rightarrow> (go_ctx \<Rightarrow> verification_plan \<Rightarrow> ('a, 'x) plane_op) \<Rightarrow> 'x authority_world \<Rightarrow> go_error option \<times> 'x authority_world" where
  "authority_call live f w =
    (case f (live (cpl_Tick (fst w))) (snd w) (fst w) of
       (Inl e, p) \<Rightarrow> (Some (plane_go_error e), (p, snd w))
     | (Inr _, p) \<Rightarrow> (None, (p, snd w)))"

definition PatchCandidate :: "'x plane_sys \<Rightarrow> go_ctx \<Rightarrow> string \<Rightarrow> string \<Rightarrow> action \<Rightarrow> (unit, 'x) plane_op" where
  "PatchCandidate s ctx i patch a =
    (if ac_Kind a \<noteq> ''candidate_patch'' \<or> patch = [] then pret ()
     else pbind (as_error PL_ErrRejected (WorkspaceStatus ctx i)) (\<lambda>record.
          pbind (calling (\<lambda>e p. guarding (AssertGeneration (cx_Now e) ctx (wk_Generation record) (wk_Lease record) (cpl_Store p) = None)
                   PL_ErrRejected p)) (\<lambda>_.
          pbind (apply_candidate_patch s (wg_Path (wk_Generation record)) patch) (\<lambda>_.
          pbind (as_error PL_ErrRejected (refresh_record s ctx i record)) (\<lambda>_. pret ())))))"

definition passing_verification :: "'x plane_sys \<Rightarrow> go_ctx \<Rightarrow> string \<Rightarrow> string \<Rightarrow> verification_plan \<Rightarrow> (unit, 'x) plane_op" where
  "passing_verification s ctx i rid plan =
    pbind (RunVerification s ctx (vp_PlanDigest plan) i rid) (\<lambda>result.
      guarding (vr_Passed result) PL_ErrRejected)"

definition RefreshBinding ::
  "'x plane_sys \<Rightarrow> (nat \<Rightarrow> go_ctx) \<Rightarrow> string \<Rightarrow> target \<Rightarrow> 'x authority_world \<Rightarrow> (go_error + binding) \<times> 'x authority_world" where
  "RefreshBinding s live i t w =
    (case PlanVerification s (live (cpl_Tick (fst w))) i t (fst w) of
       (Inl e, p) \<Rightarrow> (Inl (plane_go_error e), (p, snd w))
     | (Inr plan, p) \<Rightarrow>
         (Inr \<lparr>lb_RepositoryID = vp_RepositoryID plan, lb_CandidateSnapshot = vp_CandidateSnapshot plan,
               lb_EnvironmentID = vp_EnvironmentID plan, lb_PolicyVersion = vp_PolicyVersion plan\<rparr>, (p, plan)))"

definition loop_Checkpoint ::
  "'x plane_sys \<Rightarrow> (nat \<Rightarrow> go_ctx) \<Rightarrow> string \<Rightarrow> binding \<Rightarrow> 'x authority_world \<Rightarrow> go_error option \<times> 'x authority_world" where
  "loop_Checkpoint s live i b w =
    (let ctx = live (cpl_Tick (fst w))
     in case WorkspaceStatus ctx i (fst w) of
          (Inl _, p) \<Rightarrow> (Some (plane_go_error PL_ErrStale), (p, snd w))
        | (Inr record, p) \<Rightarrow>
            if wg_CandidateSnapshot (wk_Generation record) \<noteq> lb_CandidateSnapshot b
            then (Some (plane_go_error PL_ErrStale), (p, snd w))
            else (case calling (\<lambda>e q. (Inr (AssertGeneration (cx_Now e) ctx (wk_Generation record) (wk_Lease record) (cpl_Store q)), q)) p of
                    (Inl _, p1) \<Rightarrow> (None, (p1, snd w))
                  | (Inr r, p1) \<Rightarrow> (map_option (workspace_go_error ctx) r, (p1, snd w))))"

definition loopAuthority ::
  "'x plane_sys \<Rightarrow> (nat \<Rightarrow> go_ctx) \<Rightarrow> loop_config \<Rightarrow> target \<Rightarrow> ('x authority_world) loop_authority" where
  "loopAuthority s live c t =
    (let i = lc_GenerationID c; rid = lc_RuntimeID c;
         tested = authority_call live (\<lambda>ctx plan. passing_verification s ctx i rid plan)
     in \<lparr>au_ParallelCommands = (\<lambda>_ as w. if as = [] then (Some (plane_go_error PL_ErrRejected), w)
           else authority_call live (\<lambda>ctx plan. RunVerification s ctx (vp_PlanDigest plan) i rid) w),
         au_PatchCandidate = (\<lambda>_ a. authority_call live (\<lambda>ctx _. PatchCandidate s ctx i (lc_Patch c) a)),
         au_TargetedTest = (\<lambda>_ _. tested),
         au_FullVerify = (\<lambda>_ _. tested),
         au_Checkpoint = loop_Checkpoint s live i,
         au_RefreshBinding = Some (\<lambda>_. RefreshBinding s live i t)\<rparr>)"

subsection \<open>Running a loop\<close>

definition boundedLoopError :: "string option \<Rightarrow> string" where
  "boundedLoopError err =
    (case err of
       None \<Rightarrow> ''autonomous loop stopped''
     | Some t \<Rightarrow>
         (let detail = trim_space t
          in if detail = [] \<or> 256 < length detail \<or> contains_any detail [NUL, CR, LF] \<or> plane_containsSecret detail
             then ''autonomous loop stopped'' else ''autonomous loop stopped: '' @ detail))"

definition plan_binding :: "verification_plan \<Rightarrow> binding" where
  "plan_binding plan = \<lparr>lb_RepositoryID = vp_RepositoryID plan, lb_CandidateSnapshot = vp_CandidateSnapshot plan,
     lb_EnvironmentID = vp_EnvironmentID plan, lb_PolicyVersion = vp_PolicyVersion plan\<rparr>"

definition plane_controller ::
  "'x plane_sys \<Rightarrow> (nat \<Rightarrow> go_ctx) \<Rightarrow> (nat \<Rightarrow> ev_env) \<Rightarrow> loop_job \<Rightarrow> ('x authority_world) loop_controller" where
  "plane_controller s live env j =
     \<lparr>lv_Sys = px_EventSys s, lv_Enc = px_StateJSON s, lv_Dec = px_StateRead s, lv_Env = env,
      lv_Ctx = (\<lambda>w. live (cpl_Tick (fst w))), lv_Model = loopModel s (plan_binding (jl_Plan j)) (lc_Patch (jl_Config j)),
      lv_Authority = loopAuthority s live (jl_Config j) (vp_Target (jl_Plan j)), lv_MaxRetries = 2\<rparr>"

definition loop_world_of :: "loop_job \<Rightarrow> 'x plane \<Rightarrow> ('x authority_world) loop_world" where
  "loop_world_of j p = \<lparr>lw_store = cpl_Events p, lw_ext = (p, jl_Plan j), lw_ops = 0, lw_trace = []\<rparr>"

definition plane_of_world :: "('x authority_world) loop_world \<Rightarrow> 'x plane" where
  "plane_of_world w = (fst (lw_ext w))\<lparr>cpl_Events := lw_store w\<rparr>"

definition canceled_error :: "loop_error \<Rightarrow> bool" where
  "canceled_error e \<longleftrightarrow> (case e of LE_Cause c \<Rightarrow> ge_Kind c = Err_Canceled | _ \<Rightarrow> False)"

text \<open>The body of the goroutine, with the fuel of the loop; \<open>text_of\<close> gives the texts of the loop's errors.\<close>

definition loop_body ::
  "nat \<Rightarrow> 'x plane_sys \<Rightarrow> (loop_error \<Rightarrow> string) \<Rightarrow> (nat \<Rightarrow> go_ctx) \<Rightarrow> (nat \<Rightarrow> ev_env) \<Rightarrow> loop_job \<Rightarrow> 'x plane
     \<Rightarrow> ((loop_state \<times> loop_error option) \<times> 'x plane) option" where
  "loop_body n s text_of live env j p =
    (let i = er_ID (jl_Run j)
     in case RunLoop n (plane_controller s live env j) i (plan_binding (jl_Plan j)) (loop_world_of j p) of
          None \<Rightarrow> None
        | Some ((st, r), w) \<Rightarrow>
            (let p1 = plane_of_world w
             in case r of
                  None \<Rightarrow> Some ((st, r), p1)
                | Some e \<Rightarrow>
                    if canceled_error e \<or> ctx_err (live (cpl_Tick p1)) then Some ((st, r), p1)
                    else (let p2 = snd (on_events PL_Events (\<lambda>x. AppendEvent (px_EventSys s) (x\<lparr>ee_Ctx := Ctx_Live\<rparr>) i ''loop.error''
                                      (px_ErrorJSON s (boundedLoopError (Some (text_of e))))) p1);
                              p3 = snd (on_events PL_Events (\<lambda>x ev. with_error (UpdateRunStatus (px_EventSys s) (x\<lparr>ee_Ctx := Ctx_Live\<rparr>) i ''failed'' ev)) p2)
                          in Some ((st, r), p3))))"

subsection \<open>Starting and resuming\<close>

definition append_config :: "'x plane_sys \<Rightarrow> go_ctx \<Rightarrow> string \<Rightarrow> loop_config \<Rightarrow> (unit, 'x) plane_op" where
  "append_config s ctx i c =
    pbind (on_events (\<lambda>_. PL_ErrRejected) (\<lambda>x. AppendEvent (px_EventSys s) (x\<lparr>ee_Ctx := ctx\<rparr>) i ''loop.config'' (px_ConfigJSON s c)))
      (\<lambda>_. pret ())"

definition set_running :: "'x plane_sys \<Rightarrow> go_ctx \<Rightarrow> instant ev_run \<Rightarrow> (instant ev_run, 'x) plane_op" where
  "set_running s ctx run =
    pbind (on_events (\<lambda>_. PL_ErrRejected) (\<lambda>x ev. with_error (UpdateRunStatus (px_EventSys s) (x\<lparr>ee_Ctx := ctx\<rparr>) (er_ID run) ''running'' ev)))
      (\<lambda>_. pret (run\<lparr>er_Status := ''running''\<rparr>))"

definition StartLoop ::
  "'x plane_sys \<Rightarrow> go_ctx \<Rightarrow> string \<Rightarrow> string \<Rightarrow> string \<Rightarrow> string \<Rightarrow> verification_plan \<Rightarrow> (loop_job, 'x) plane_op" where
  "StartLoop s ctx taskID i rid patch plan =
    pbind (\<lambda>p. guarding (ctx \<noteq> Ctx_Nil \<and> taskID \<noteq> [] \<and> rid \<noteq> [] \<and> vp_PlanDigest plan \<noteq> []
             \<and> vp_RepositoryID plan = cpl_RepositoryID p) PL_ErrRejected p) (\<lambda>_.
    pbind (as_error PL_ErrRejected (WorkspaceStatus ctx i)) (\<lambda>record.
    pbind (as_error PL_ErrStale (candidateSnapshot s ctx (wg_Path (wk_Generation record)))) (\<lambda>current.
    pbind (guarding (current = vp_CandidateSnapshot plan) PL_ErrStale) (\<lambda>_.
    pbind (guarding (\<not> plane_containsSecret patch) PL_ErrRejected) (\<lambda>_.
    pbind (updating (remember_verification (vp_PlanDigest plan) \<lparr>vd_Plan = plan, vd_Result = zero_result\<rparr>)) (\<lambda>_.
    pbind (as_error PL_ErrRejected (EventsCreate s ctx taskID i (vp_EnvironmentID plan))) (\<lambda>run.
      let c = \<lparr>lc_GenerationID = i, lc_RuntimeID = rid, lc_Patch = patch, lc_Target = vp_Target plan\<rparr>
      in pbind (append_config s ctx (er_ID run) c) (\<lambda>_.
         pbind (set_running s ctx run) (\<lambda>run'.
           pret \<lparr>jl_Run = run', jl_Config = c, jl_Plan = plan\<rparr>)))))))))"

text \<open>The configuration that the first page of the events leaves, each read into the one before; \<open>None\<close> is
  one that cannot be read.\<close>

definition no_config :: loop_config where
  "no_config = \<lparr>lc_GenerationID = [], lc_RuntimeID = [], lc_Patch = [], lc_Target = \<lparr>tg_Name = [], tg_Affected = False\<rparr>\<rparr>"

fun last_config :: "(string \<Rightarrow> loop_config \<Rightarrow> loop_config option) \<Rightarrow> 't event list \<Rightarrow> loop_config \<Rightarrow> loop_config option" where
  "last_config rd [] c = Some c"
| "last_config rd (ev # evs) c =
    (if ev_Type ev = ''loop.config''
     then (case rd (ev_Payload ev) c of None \<Rightarrow> None | Some c' \<Rightarrow> last_config rd evs c')
     else last_config rd evs c)"

definition get_run :: "'x plane_sys \<Rightarrow> go_ctx \<Rightarrow> string \<Rightarrow> (instant ev_run, 'x) plane_op" where
  "get_run s ctx i = on_events (\<lambda>_. PL_ErrRejected) (\<lambda>x ev. (GetRun (px_EventSys s) (x\<lparr>ee_Ctx := ctx\<rparr>) i ev, ev))"

definition first_page :: "'x plane_sys \<Rightarrow> go_ctx \<Rightarrow> string \<Rightarrow> (instant event list, 'x) plane_op" where
  "first_page s ctx i = as_error PL_ErrRejected (plane_ListEvents s ctx i 0 1000)"

definition renew_runtime ::
  "'x plane_sys \<Rightarrow> go_ctx \<Rightarrow> string \<Rightarrow> workspace_record \<Rightarrow> loop_config \<Rightarrow> runtime \<Rightarrow> (loop_config, 'x) plane_op" where
  "renew_runtime s ctx i record c rt =
    (if rt_State rt = StateRunning \<and> rt_LeaseGeneration rt = le_FencingGeneration (wk_Lease record) then pret c
     else pbind (guarding (rt_State rt = StateStopped \<and> rt_Image rt \<noteq> []) PL_ErrRejected) (\<lambda>_.
          pbind (as_error PL_ErrRejected (RuntimeCreate s ctx (lc_GenerationID c) (rt_Image rt) (rt_Backend rt) 2 536870912 [])) (\<lambda>made.
          pbind (as_error PL_ErrRejected (RuntimeStart s ctx (lc_GenerationID c))) (\<lambda>running.
          pbind (guarding (rt_ID made = rt_ID running) PL_ErrRejected) (\<lambda>_.
          pbind (append_config s ctx i (c\<lparr>lc_RuntimeID := rt_ID running\<rparr>)) (\<lambda>_.
            pret (c\<lparr>lc_RuntimeID := rt_ID running\<rparr>)))))))"

text \<open>Resuming: a run that is completed is only returned.\<close>

definition ResumeLoop :: "'x plane_sys \<Rightarrow> go_ctx \<Rightarrow> string \<Rightarrow> (instant ev_run + loop_job, 'x) plane_op" where
  "ResumeLoop s ctx i =
    pbind (guarding (ctx \<noteq> Ctx_Nil \<and> i \<noteq> []) PL_ErrRejected) (\<lambda>_.
    pbind (get_run s ctx i) (\<lambda>run.
      if er_Status run = ''completed'' then pret (Inl run)
      else if er_Status run = ''failed'' \<or> er_Status run = ''stopped'' then pfail PL_ErrRejected
      else pbind (first_page s ctx i) (\<lambda>page.
           pbind (\<lambda>p. case last_config (px_ConfigRead s) page no_config of None \<Rightarrow> (Inl PL_ErrRejected, p) | Some c \<Rightarrow> (Inr c, p)) (\<lambda>c.
           pbind (guarding (lc_GenerationID c \<noteq> [] \<and> lc_RuntimeID c \<noteq> []) PL_ErrRejected) (\<lambda>_.
           pbind (as_error PL_ErrStale (WorkspaceStatus ctx (lc_GenerationID c))) (\<lambda>record.
           pbind (\<lambda>p. guarding (wg_RepositoryID (wk_Generation record) = cpl_RepositoryID p
                    \<and> wg_CandidateSnapshot (wk_Generation record) = er_CandidateSnapshot run) PL_ErrStale p) (\<lambda>_.
           pbind (lookup_runtime ctx (lc_RuntimeID c)) (\<lambda>rt.
           pbind (guarding (rt_GenerationID rt = lc_GenerationID c) PL_ErrRejected) (\<lambda>_.
           pbind (renew_runtime s ctx i record c rt) (\<lambda>c'.
           pbind (as_error PL_ErrStale (PlanVerification s ctx (lc_GenerationID c') (lc_Target c'))) (\<lambda>plan.
           pbind (guarding (vp_CandidateSnapshot plan = er_CandidateSnapshot run \<and> vp_EnvironmentID plan = er_EnvironmentID run) PL_ErrStale) (\<lambda>_.
           pbind (set_running s ctx run) (\<lambda>run'.
             pret (Inr \<lparr>jl_Run = run', jl_Config = c', jl_Plan = plan\<rparr>))))))))))))))"

fun last_state :: "(string \<Rightarrow> loop_state option) \<Rightarrow> 't event list \<Rightarrow> loop_state \<Rightarrow> loop_state option" where
  "last_state rd [] st = Some st"
| "last_state rd (ev # evs) st =
    (if ev_Type ev \<noteq> loop_state_type then last_state rd evs st
     else (case rd (ev_Payload ev) of None \<Rightarrow> None | Some st' \<Rightarrow> last_state rd evs st'))"

definition LoopStatus :: "'x plane_sys \<Rightarrow> go_ctx \<Rightarrow> string \<Rightarrow> (instant ev_run \<times> loop_state, 'x) plane_op" where
  "LoopStatus s ctx i =
    pbind (guarding (ctx \<noteq> Ctx_Nil \<and> i \<noteq> []) PL_ErrRejected) (\<lambda>_.
    pbind (get_run s ctx i) (\<lambda>run.
    pbind (first_page s ctx i) (\<lambda>page.
      \<lambda>p. case last_state (px_StateRead s) page (zero_state\<lparr>lo_Phase := Phase_Inspect\<rparr>) of
            None \<Rightarrow> (Inl PL_ErrRejected, p)
          | Some st \<Rightarrow> (Inr (run, st), p))))"

end
