(* ===== verification/Plane_Session.thy ===== *)
theory Plane_Session
  imports Plane_Loop
begin

section \<open>Opening a plane, and what its operations do to the authority (internal/controlplane/plane.go)\<close>

text \<open>
  How a plane is composed and closed, the operations of an open plane as one step relation, and the
  interface through which everything about the engine and the session is proved: a property of the two
  that every authorisation and every confirmation keeps is kept by every operation of the plane.
\<close>

subsection \<open>Opening and closing\<close>

record plane_config =
  cg_RepositoryRoot :: string
  cg_StateRoot :: string
  cg_Image :: string
  cg_HasProvider :: bool
  cg_Operator :: "operator_authority option"

text \<open>What the constructors of the components give: the root that is read, the principal, the isolated
  repository after its recovery, the main task, the memory, the events, the cache, the environments, the
  runtimes after theirs, the scheduler, the path of the container binary, the supervisor.\<close>

record 'x plane_parts =
  pp_Root :: "repo_ws option"
  pp_Principal :: "principal option"
  pp_Isolated :: "ws_repo option"
  pp_Tasks :: bool
  pp_Memory :: bool
  pp_Events :: "ev_store option"
  pp_Cache :: bool
  pp_Environment :: "env_manager option"
  pp_Runtimes :: "'x rt_manager option"
  pp_Scheduler :: bool
  pp_Binary :: "string option"
  pp_Processes :: bool

definition default_image :: string where "default_image = ''repoworker-dev:local''"

definition plane_session ::
  "'x plane_sys \<Rightarrow> instant \<Rightarrow> string option \<Rightarrow> string option \<Rightarrow> string option \<Rightarrow> go_ctx \<Rightarrow> principal \<Rightarrow> ws_repo
     \<Rightarrow> (string \<times> session \<times> engine) option" where
  "plane_session s now r1 r2 r3 ctx pr repo =
    (case NewEngine defaultPolicy of
       Inl _ \<Rightarrow> None
     | Inr e0 \<Rightarrow>
         (case EnrollRepository (px_Sha s) now r1 ctx (pr_ID pr) (wr_rootIdentity repo) (wr_filesystemID repo) e0 of
            (Inl _, _) \<Rightarrow> None
          | (Inr (_, ref), e1) \<Rightarrow>
              (case OpenAuthenticatedSession now r2 r3 ctx pr (wr_rootIdentity repo) (24 * hour) e1 of
                 (Inl _, _) \<Rightarrow> None
               | (Inr ss, e2) \<Rightarrow> Some (ref, ss, e2))))"

definition plane_Open ::
  "'x plane_sys \<Rightarrow> instant \<Rightarrow> string option \<Rightarrow> string option \<Rightarrow> string option \<Rightarrow> (nat \<Rightarrow> call_env) \<Rightarrow> go_ctx
     \<Rightarrow> plane_config \<Rightarrow> 'x plane_parts \<Rightarrow> 'x plane option" where
  "plane_Open s now r1 r2 r3 env ctx c parts =
    (if ctx = Ctx_Nil \<or> cg_RepositoryRoot c = [] \<or> cg_StateRoot c = [] \<or> \<not> cg_HasProvider c \<or> \<not> is_abs (cg_RepositoryRoot c)
        \<or> \<not> is_abs (cg_StateRoot c) \<or> clean (cg_RepositoryRoot c) = clean (cg_StateRoot c) then None
     else (case (pp_Root parts, pp_Principal parts, pp_Isolated parts, pp_Events parts, pp_Environment parts, pp_Runtimes parts,
                 pp_Binary parts) of
       (Some _, Some pr, Some repo, Some events, Some environments, Some runtimes, Some binary) \<Rightarrow>
         if \<not> pp_Tasks parts \<or> \<not> pp_Memory parts \<or> \<not> pp_Cache parts \<or> \<not> pp_Scheduler parts \<or> \<not> is_abs binary
            \<or> \<not> pp_Processes parts then None
         else (case (plane_session s now r1 r2 r3 ctx pr repo, NewRequestReplayCache 0 0) of
                 (Some (ref, ss, e), Inr replay) \<Rightarrow>
                   Some \<lparr>cpl_Engine = e, cpl_Store = repo, cpl_Runtimes = runtimes, cpl_Environment = environments,
                     cpl_Events = events, cpl_Replay = replay, cpl_Operator = cg_Operator c,
                     cpl_RepositoryID = wr_rootIdentity repo, cpl_FilesystemID = wr_filesystemID repo,
                     cpl_PrincipalID = pr_ID pr, cpl_Session = ss, cpl_TrustedRef = ref, cpl_Workspaces = Map.empty,
                     cpl_RuntimeMap = Map.empty, cpl_Processes = Map.empty, cpl_Verifications = [],
                     cpl_Environments = Map.empty, cpl_Pending = Map.empty,
                     cpl_Image = (if cg_Image c = [] then default_image else cg_Image c), cpl_Env = env, cpl_Tick = 0\<rparr>
               | _ \<Rightarrow> None)
     | _ \<Rightarrow> None))"

text \<open>Closing waits for the loops and closes the stores; the memory store and the root are not in the state.\<close>

definition plane_Close :: "'x plane \<Rightarrow> 'x plane" where
  "plane_Close p = p\<lparr>cpl_Events := es_Close (cpl_Events p), cpl_Store := Workspace_Lease.Close (cpl_Store p)\<rparr>"

subsection \<open>The steps of an open plane\<close>

inductive plane_step :: "'x plane_sys \<Rightarrow> 'x plane \<Rightarrow> 'x plane \<Rightarrow> bool" for s :: "'x plane_sys" where
  Step_Accept: "plane_step s p (snd (AcceptMCPRequest ord ctx sid rid n p))"
| Step_Confirm: "plane_step s p (snd (plane_IssueOperatorConfirmation oc r p))"
| Step_Create: "plane_step s p (snd (CreateWorkspace s ctx taskID p))"
| Step_Status: "plane_step s p (snd (WorkspaceStatus ctx i p))"
| Step_Discard: "plane_step s p (snd (DiscardWorkspace s ctx i p))"
| Step_IntegrationPlan: "plane_step s p (snd (plane_IntegrationPlan s ctx i p))"
| Step_IntegrationBinding: "plane_step s p (snd (IntegrationConfirmationBinding s ctx i p))"
| Step_Integrate: "plane_step s p (snd (Integrate s ctx i token p))"
| Step_RuntimeCreate: "plane_step s p (snd (RuntimeCreate s ctx i img backend cpu mem net p))"
| Step_RuntimeStart: "plane_step s p (snd (RuntimeStart s ctx i p))"
| Step_RuntimeStop: "plane_step s p (snd (RuntimeStop s ctx i p))"
| Step_RuntimeStatus: "plane_step s p (snd (RuntimeStatus s ctx i p))"
| Step_ProcessStart: "plane_step s p (snd (ProcessStartWithEnvironment s ctx i rid exe as cwd timeout supplied p))"
| Step_ProcessRead: "plane_step s p (snd (plane_ProcessRead s ctx j p))"
| Step_ProcessCancel: "plane_step s p (snd (plane_ProcessCancel s ctx j p))"
| Step_ProcessSignal: "plane_step s p (snd (plane_ProcessSignal s ctx j sig p))"
| Step_ProcessWait: "plane_step s p (snd (plane_ProcessWait s ctx j p))"
| Step_PlanVerification: "plane_step s p (snd (PlanVerification s ctx i t p))"
| Step_RunVerification: "plane_step s p (snd (RunVerification s ctx d i rid p))"
| Step_EventsCreate: "plane_step s p (snd (EventsCreate s ctx taskID i environmentID p))"
| Step_AppendEvent: "plane_step s p (snd (plane_AppendEvent s ctx runID ty payload p))"
| Step_ListEvents: "plane_step s p (snd (plane_ListEvents s ctx runID n limit p))"
| Step_PublicationPlan: "plane_step s p (snd (PublicationPlan s ctx i d q p))"
| Step_PublicationBinding: "plane_step s p (snd (PublicationConfirmationBinding s ctx i d q p))"
| Step_PublicationExecute: "plane_step s p (snd (PublicationExecute s ctx i d q p))"
| Step_StartLoop: "plane_step s p (snd (StartLoop s ctx taskID i rid patch plan p))"
| Step_ResumeLoop: "plane_step s p (snd (ResumeLoop s ctx runID p))"
| Step_LoopStatus: "plane_step s p (snd (LoopStatus s ctx runID p))"
| Step_Loop: "loop_body n s text_of live env j p = Some (r, p') \<Longrightarrow> plane_step s p p'"

definition plane_reach :: "'x plane_sys \<Rightarrow> 'x plane \<Rightarrow> 'x plane \<Rightarrow> bool" where
  "plane_reach s = (plane_step s)\<^sup>*\<^sup>*"

subsection \<open>Operations that keep a property\<close>

named_theorems keeps_intros \<open>sequences of calls keep what the calls keep\<close>

definition keeps :: "('w \<Rightarrow> bool) \<Rightarrow> ('w \<Rightarrow> 'a \<times> 'w) \<Rightarrow> bool" where
  "keeps J m \<longleftrightarrow> (\<forall>p. J p \<longrightarrow> J (snd (m p)))"

lemma keepsI: "(\<And>p. J p \<Longrightarrow> J (snd (m p))) \<Longrightarrow> keeps J m" by (simp add: keeps_def)

lemma keepsD: "keeps J m \<Longrightarrow> J p \<Longrightarrow> J (snd (m p))" by (simp add: keeps_def)

lemma keeps_snd: "keeps J m \<Longrightarrow> J p \<Longrightarrow> m p = (r, p') \<Longrightarrow> J p'" using keepsD [of J m p] by simp

lemma keeps_pret [keeps_intros]: "keeps J (pret a)" by (simp add: keeps_def pret_def)
lemma keeps_pfail [keeps_intros]: "keeps J (pfail e)" by (simp add: keeps_def pfail_def)
lemma keeps_guarding [keeps_intros]: "keeps J (guarding b e)" by (simp add: keeps_def guarding_def)
lemma keeps_reading [keeps_intros]: "keeps J (reading g)" by (simp add: keeps_def reading_def)

lemma keeps_pbind [keeps_intros]: "keeps J m \<Longrightarrow> (\<And>a. keeps J (f a)) \<Longrightarrow> keeps J (pbind m f)"
  by (auto simp: keeps_def pbind_def split: prod.splits sum.splits)

lemma keeps_as_error [keeps_intros]: "keeps J m \<Longrightarrow> keeps J (as_error e m)"
  by (auto simp: keeps_def as_error_def split: prod.splits sum.splits)

lemma keeps_dropping [keeps_intros]: "keeps J m \<Longrightarrow> keeps J (dropping m)"
  by (simp add: keeps_def dropping_def)

lemma keeps_on_error [keeps_intros]: "keeps J m \<Longrightarrow> keeps J h \<Longrightarrow> keeps J (on_error m h)"
  by (auto simp: keeps_def on_error_def split: prod.splits sum.splits)

lemma keeps_updating [keeps_intros]: "(\<And>p. J p \<Longrightarrow> J (g p)) \<Longrightarrow> keeps J (updating g)"
  by (simp add: keeps_def updating_def)

lemma keeps_of_result [keeps_intros]: "keeps J (\<lambda>p. of_result e (r p) p)"
  by (auto simp: keeps_def of_result_def pret_def pfail_def split: sum.splits)

lemma keeps_if [keeps_intros]: "keeps J m \<Longrightarrow> keeps J m' \<Longrightarrow> keeps J (if b then m else m')" by simp

lemma keeps_option [keeps_intros]:
  "keeps J m \<Longrightarrow> (\<And>a. keeps J (f a)) \<Longrightarrow> keeps J (case x of None \<Rightarrow> m | Some a \<Rightarrow> f a)"
  by (cases x) simp_all

lemma keeps_prod [keeps_intros]: "(\<And>a b. keeps J (f a b)) \<Longrightarrow> keeps J (case x of (a, b) \<Rightarrow> f a b)"
  by (cases x) simp

text \<open>A property of the authority: of the engine and the session, while the random bytes are as \<open>R\<close> says.\<close>

definition authority_inv :: "(string option \<Rightarrow> bool) \<Rightarrow> (engine \<Rightarrow> session \<Rightarrow> bool) \<Rightarrow> 'x plane \<Rightarrow> bool" where
  "authority_inv R I p \<longleftrightarrow> I (cpl_Engine p) (cpl_Session p) \<and> (\<forall>n. R (cx_Random (cpl_Env p n)))"

lemma authority_inv_others [simp]:
  "authority_inv R I (p\<lparr>cpl_Store := a\<rparr>) = authority_inv R I p"
  "authority_inv R I (p\<lparr>cpl_Runtimes := b\<rparr>) = authority_inv R I p"
  "authority_inv R I (p\<lparr>cpl_Environment := c\<rparr>) = authority_inv R I p"
  "authority_inv R I (p\<lparr>cpl_Events := d\<rparr>) = authority_inv R I p"
  "authority_inv R I (p\<lparr>cpl_Replay := e\<rparr>) = authority_inv R I p"
  "authority_inv R I (p\<lparr>cpl_Workspaces := f\<rparr>) = authority_inv R I p"
  "authority_inv R I (p\<lparr>cpl_RuntimeMap := g\<rparr>) = authority_inv R I p"
  "authority_inv R I (p\<lparr>cpl_Processes := h\<rparr>) = authority_inv R I p"
  "authority_inv R I (p\<lparr>cpl_Verifications := i\<rparr>) = authority_inv R I p"
  "authority_inv R I (p\<lparr>cpl_Environments := j\<rparr>) = authority_inv R I p"
  "authority_inv R I (p\<lparr>cpl_Pending := k\<rparr>) = authority_inv R I p"
  "authority_inv R I (p\<lparr>cpl_Tick := l\<rparr>) = authority_inv R I p"
  by (simp_all add: authority_inv_def)

lemma keeps_calling [keeps_intros]:
  fixes f :: "call_env \<Rightarrow> ('a, 'x) plane_op"
  assumes "\<And>e. R (cx_Random e) \<Longrightarrow> keeps (authority_inv R I) (f e)"
  shows "keeps (authority_inv R I) (calling f)"
proof (rule keepsI)
  fix p :: "'x plane" assume p: "authority_inv R I p"
  then have "R (cx_Random (cpl_Env p (cpl_Tick p)))" by (simp add: authority_inv_def)
  from keepsD [OF assms [OF this]] p show "authority_inv R I (snd (calling f p))" by (simp add: calling_def Let_def)
qed

lemma keeps_on_store [keeps_intros]: "keeps (authority_inv R I) (on_store err f)"
  and keeps_on_store' [keeps_intros]: "keeps (authority_inv R I) (\<lambda>p. on_store err (g p) p)"
  by (auto simp: keeps_def on_store_def split: prod.splits sum.splits)

lemma keeps_on_runtimes [keeps_intros]: "keeps (authority_inv R I) (on_runtimes err f)"
  and keeps_on_runtimes' [keeps_intros]: "keeps (authority_inv R I) (\<lambda>p. on_runtimes err (h p) p)"
  by (auto simp: keeps_def on_runtimes_def split: prod.splits sum.splits)

lemma keeps_on_events [keeps_intros]: "keeps (authority_inv R I) (on_events err f)"
  unfolding on_events_def by (rule keeps_calling) (auto simp: keeps_def split: prod.splits sum.splits)

subsection \<open>Operations that ask for no authority\<close>

lemma keeps_remember_workspace [keeps_intros]: "keeps (authority_inv R I) (remember_workspace i record)"
  unfolding remember_workspace_def by (intro keeps_intros) simp

lemma keeps_acquire_lease [keeps_intros]: "keeps (authority_inv R I) (acquire_lease ctx i)"
  unfolding acquire_lease_def by (intro keeps_intros)

lemma keeps_release_lease [keeps_intros]: "keeps (authority_inv R I) (release_lease err ctx l)"
  unfolding release_lease_def by (intro keeps_intros)

lemma keeps_discard_generation [keeps_intros]: "keeps (authority_inv R I) (discard_generation err ctx i)"
  unfolding discard_generation_def by (intro keeps_intros)

lemma keeps_ensureWorkspace [keeps_intros]: "keeps (authority_inv R I) (ensureWorkspace ctx i)"
  unfolding ensureWorkspace_def Let_def by (intro keeps_intros)

lemma keeps_WorkspaceStatus [keeps_intros]: "keeps (authority_inv R I) (WorkspaceStatus ctx i)"
  unfolding WorkspaceStatus_def by (intro keeps_intros)

lemma keeps_candidateSnapshot [keeps_intros]: "keeps (authority_inv R I) (candidateSnapshot s ctx root)"
  unfolding candidateSnapshot_def by (intro keeps_intros) (auto simp: keeps_def split: option.splits)

lemma keeps_hasVerifiedCandidate [keeps_intros]: "keeps (authority_inv R I) (hasVerifiedCandidate s ctx record)"
  using keeps_candidateSnapshot [of R I s ctx "wg_Path (wk_Generation record)"]
  by (auto simp: keeps_def hasVerifiedCandidate_def split: prod.splits sum.splits)

lemma keeps_integration_plan_of [keeps_intros]: "keeps (authority_inv R I) (integration_plan_of s ctx record)"
  unfolding integration_plan_of_def
  by (intro keeps_intros) (auto simp: keeps_def of_result_def pret_def pfail_def split: option.splits sum.splits)

lemma keeps_rememberConfirmationBinding [keeps_intros]:
  "keeps (authority_inv R I) (rememberConfirmationBinding cls cb)"
  "keeps (authority_inv R I) (\<lambda>p. rememberConfirmationBinding cls (g p) p)"
  by (simp_all add: keeps_def rememberConfirmationBinding_def updating_def)

lemma keeps_IntegrationConfirmationBinding [keeps_intros]:
  "keeps (authority_inv R I) (IntegrationConfirmationBinding s ctx i)"
  unfolding IntegrationConfirmationBinding_def by (intro keeps_intros)

lemma keeps_remember_runtime [keeps_intros]: "keeps (authority_inv R I) (remember_runtime i rt)"
  unfolding remember_runtime_def by (intro keeps_intros) simp

lemma keeps_release_runtime [keeps_intros]: "keeps (authority_inv R I) (release_runtime ctx l)"
  unfolding release_runtime_def by (intro keeps_intros)

lemma keeps_lookup_runtime [keeps_intros]: "keeps (authority_inv R I) (lookup_runtime ctx i)"
  unfolding lookup_runtime_def by (intro keeps_intros)

lemma keeps_start_supervised [keeps_intros]: "keeps (authority_inv R I) (start_supervised s ctx spec)"
  unfolding start_supervised_def by (intro keeps_intros) (auto simp: keeps_def split: prod.splits option.splits)

lemma keeps_processContext [keeps_intros]: "keeps (authority_inv R I) (processContext ctx j)"
  unfolding processContext_def by (intro keeps_intros)

lemma keeps_examine [keeps_intros]: "keeps (authority_inv R I) (examine g f)"
  unfolding examine_def
  by (intro keeps_intros) (auto simp: keeps_def of_result_def pret_def pfail_def split: option.splits sum.splits)

lemma keeps_refresh_record [keeps_intros]: "keeps (authority_inv R I) (refresh_record s ctx i record)"
  unfolding refresh_record_def Let_def by (intro keeps_intros)

lemma keeps_create_environment [keeps_intros]: "keeps (authority_inv R I) (create_environment s ctx spec)"
  and keeps_create_environment' [keeps_intros]: "keeps (authority_inv R I) (\<lambda>p. create_environment s ctx (g p) p)"
proof -
  have *: "keeps (authority_inv R I) (create_environment s ctx sp)" for sp
    unfolding create_environment_def by (intro keeps_intros) (auto simp: keeps_def split: prod.splits sum.splits)
  show "keeps (authority_inv R I) (create_environment s ctx spec)" by (rule *)
  show "keeps (authority_inv R I) (\<lambda>p. create_environment s ctx (g p) p)"
    using * by (simp add: keeps_def)
qed

lemma inv_remember_verification [simp]: "authority_inv R I (remember_verification d v p) = authority_inv R I p"
  by (simp add: remember_verification_def)

lemma keeps_EventsCreate [keeps_intros]: "keeps (authority_inv R I) (EventsCreate s ctx taskID i e)"
  unfolding EventsCreate_def by (intro keeps_intros) (auto simp: keeps_def split: option.splits)

lemma keeps_plane_AppendEvent [keeps_intros]: "keeps (authority_inv R I) (plane_AppendEvent s ctx i ty pl)"
  unfolding plane_AppendEvent_def by (intro keeps_intros)

lemma keeps_plane_ListEvents [keeps_intros]: "keeps (authority_inv R I) (plane_ListEvents s ctx i n l)"
  unfolding plane_ListEvents_def by (intro keeps_intros)

lemma keeps_AcceptMCPRequest [keeps_intros]: "keeps (authority_inv R I) (AcceptMCPRequest ord ctx a b n)"
  unfolding AcceptMCPRequest_def Let_def by (intro keeps_intros) (auto simp: keeps_def split: prod.splits sum.splits)

subsection \<open>The generic parts: verification, publication, the loop\<close>

lemma keeps_verify_loop: "(\<And>c. keeps J (run c)) \<Longrightarrow> J x \<Longrightarrow> J (snd (verify_loop run cs r x))"
proof (induction cs arbitrary: x)
  case (Cons c cs)
  obtain code diag y where y: "run c x = ((code, diag), y)" by (cases "run c x") force
  have J: "J y" by (rule keeps_snd [OF Cons.prems y])
  show ?case using J Cons.IH [OF Cons.prems(1) J] by (simp only: verify_loop.simps y prod.case split: if_split) simp
qed simp

lemma keeps_Verify:
  assumes "keeps J snaps" and "\<And>c. keeps J (run c)"
  shows "keeps J (Verify js sha ctx now p snaps run)"
proof (rule keepsI)
  fix x assume x: "J x"
  obtain before x1 where 1: "snaps x = (before, x1)" by fastforce
  have J1: "J x1" by (rule keeps_snd [OF assms(1) x 1])
  obtain r x2 where 2: "verify_loop run (vp_Commands p) (new_result now p) x1 = (r, x2)" by fastforce
  have J2: "J x2" using keeps_verify_loop [of J run x1 "vp_Commands p" "new_result now p", OF assms(2) J1] by (simp add: 2)
  obtain later x3 where 3: "snaps x2 = (later, x3)" by fastforce
  have J3: "J x3" by (rule keeps_snd [OF assms(1) J2 3])
  show "J (snd (Verify js sha ctx now p snaps run x))"
    using x J1 J3 by (simp add: Verify_def 1 2 3)
qed

abbreviation on_ext :: "('x \<Rightarrow> bool) \<Rightarrow> 'x pub_world \<Rightarrow> bool" where "on_ext J w \<equiv> J (pw_ext w)"

lemma keeps_run_command: "(\<And>d x as. keeps J (pa_runner a d x as)) \<Longrightarrow> keeps (on_ext J) (run_command a root c)"
  by (auto simp: keeps_def run_command_def split: prod.splits) (metis snd_conv)

lemma keeps_take_snapshot: "(\<And>r. keeps J (pa_snapshot a r)) \<Longrightarrow> keeps (on_ext J) (take_snapshot a root)"
  by (auto simp: keeps_def take_snapshot_def split: prod.splits) (metis snd_conv)

lemma keeps_remoteRef: "(\<And>d x as. keeps J (pa_runner a d x as)) \<Longrightarrow> keeps (on_ext J) (remoteRef a root q)"
  using keeps_run_command [of J a root "ls_remote q"]
  by (auto simp: keeps_def remoteRef_def split: prod.splits option.splits)

lemma keeps_run_commands:
  "(\<And>d x as. keeps J (pa_runner a d x as)) \<Longrightarrow> J (pw_ext w) \<Longrightarrow> J (pw_ext (snd (run_commands a root cs w)))"
proof (induction cs arbitrary: w)
  case (Cons c cs)
  obtain r y where y: "run_command a root c w = (r, y)" by fastforce
  have "J (pw_ext y)" by (rule keeps_snd [OF keeps_run_command [OF Cons.prems(1)] Cons.prems(2) y])
  then show ?case using Cons.IH [OF Cons.prems(1), of y] by (simp add: y split: option.split)
qed simp

lemma keeps_execute_commands:
  assumes "\<And>d x as. keeps J (pa_runner a d x as)" and "\<And>r. keeps J (pa_snapshot a r)"
  shows "keeps (on_ext J) (execute_commands a c q r)"
proof (rule keepsI)
  fix w :: "'a pub_world" assume w: "J (pw_ext w)"
  let ?root = "pc_RepositoryRoot c"
  obtain ok w1 where 1: "run_commands a ?root (pr_Commands r) w = (ok, w1)" by fastforce
  have J1: "J (pw_ext w1)" using keeps_run_commands [of J a, OF assms(1) w] 1 by (metis snd_conv)
  obtain ref w2 where 2: "(if pq_Kind q = KindGitPush then remoteRef a ?root q w1 else (Some [], w1)) = (ref, w2)" by fastforce
  have J2: "J (pw_ext w2)"
    using 2 J1 keeps_snd [OF keeps_remoteRef [OF assms(1)] J1] by (auto split: if_splits)
  obtain sn w3 where 3: "take_snapshot a ?root w2 = (sn, w3)" by fastforce
  have J3: "J (pw_ext w3)" by (rule keeps_snd [OF keeps_take_snapshot [OF assms(2)] J2 3])
  show "J (pw_ext (snd (execute_commands a c q r w)))"
    using J1 J2 J3 unfolding execute_commands_def Let_def 1 prod.case 2 by (cases ok; cases ref; simp add: 3)
qed

lemma keeps_Publish:
  assumes "\<And>d x as. keeps J (pa_runner a d x as)" and "\<And>r. keeps J (pa_snapshot a r)"
  shows "keeps (on_ext J) (Publish ctx a c q)"
proof (rule keepsI)
  fix w :: "'a pub_world" assume w: "J (pw_ext w)"
  let ?root = "pc_RepositoryRoot c"
  have after: "J (pw_ext (snd (after_remote a c q r w')))" if "J (pw_ext w')" for r w'
    using keepsD [OF keeps_execute_commands [OF assms], of w'] that by (simp add: after_remote_def split: option.splits)
  obtain sn w1 where 1: "take_snapshot a ?root w = (sn, w1)" by fastforce
  have J1: "J (pw_ext w1)" by (rule keeps_snd [OF keeps_take_snapshot [OF assms(2)] w 1])
  obtain ref w2 where 2: "remoteRef a ?root q w1 = (ref, w2)" by fastforce
  have J2: "J (pw_ext w2)" by (rule keeps_snd [OF keeps_remoteRef [OF assms(1)] J1 2])
  show "J (pw_ext (snd (Publish ctx a c q w)))"
    using w J1 J2 by (simp add: Publish_def Let_def 1 2 after split: option.splits)
qed

abbreviation on_loop :: "('x \<Rightarrow> bool) \<Rightarrow> 'x loop_world \<Rightarrow> bool" where "on_loop J w \<equiv> J (lw_ext w)"

lemma called_ext [simp]: "lw_ext (called w x c) = x" by (simp add: called_def)
lemma store_result_ext [simp]: "lw_ext (store_result w s) = lw_ext w" by (simp add: store_result_def)

lemma loop_persist_ext: "lw_ext (snd (loop_persist c i st w)) = lw_ext w"
  by (auto simp: loop_persist_def split: prod.splits sum.splits)

lemma stop_persisted_ext [simp]: "lw_ext (snd (stop_persisted c i st e w)) = lw_ext w"
  using loop_persist_ext [of c i st w] by (auto simp: stop_persisted_def split: prod.splits option.splits)

lemma loop_fail_ext [simp]: "lw_ext (snd (loop_fail c i st p a cls e w)) = lw_ext w"
  by (simp add: loop_fail_def)

lemma recordFailure_ext [simp]: "lw_ext (snd (recordFailure c i b st f w)) = lw_ext w"
  by (simp add: recordFailure_def Let_def)

lemma failed_call_ext [simp]: "lw_ext (snd (failed_call c i b st p a e w)) = lw_ext w"
  by (simp add: failed_call_def)

definition model_keeps :: "('x \<Rightarrow> bool) \<Rightarrow> 'x loop_controller \<Rightarrow> bool" where
  "model_keeps J c \<longleftrightarrow>
     (\<forall>b. keeps J (mo_Inspect (lv_Model c) b)) \<and> (\<forall>b h. keeps J (mo_Plan (lv_Model c) b h))
     \<and> (\<forall>b f as. keeps J (mo_Diagnose (lv_Model c) b f as))"

definition authority_keeps :: "('x \<Rightarrow> bool) \<Rightarrow> 'x loop_controller \<Rightarrow> bool" where
  "authority_keeps J c \<longleftrightarrow>
     (\<forall>b as. keeps J (au_ParallelCommands (lv_Authority c) b as)) \<and> (\<forall>b a. keeps J (au_PatchCandidate (lv_Authority c) b a))
     \<and> (\<forall>b a. keeps J (au_TargetedTest (lv_Authority c) b a)) \<and> (\<forall>b a. keeps J (au_FullVerify (lv_Authority c) b a))
     \<and> (\<forall>b. keeps J (au_Checkpoint (lv_Authority c) b))
     \<and> (\<forall>f. au_RefreshBinding (lv_Authority c) = Some f \<longrightarrow> (\<forall>b. keeps J (f b)))"

lemma keeps_refresh_binding:
  assumes "authority_keeps J c" and "J (lw_ext w)"
  shows "J (lw_ext (snd (refresh_binding c i b st w)))"
proof (cases "au_RefreshBinding (lv_Authority c)")
  case None
  then show ?thesis using assms(2) by (simp add: refresh_binding_def)
next
  case (Some f)
  obtain r x where f: "f b (lw_ext w) = (r, x)" by fastforce
  have "J x" using assms Some keeps_snd [of J "f b", OF _ assms(2) f] by (simp add: authority_keeps_def)
  then show ?thesis by (simp add: refresh_binding_def Some f Let_def split: prod.splits option.splits)
qed

lemma model_callE:
  assumes "model_keeps J c" and "J (lw_ext w)"
  shows "mo_Inspect (lv_Model c) b (lw_ext w) = (r1, x) \<Longrightarrow> J x"
    and "mo_Plan (lv_Model c) b h (lw_ext w) = (r2, x) \<Longrightarrow> J x"
    and "mo_Diagnose (lv_Model c) b f as (lw_ext w) = (r3, x) \<Longrightarrow> J x"
  using assms by (auto simp: model_keeps_def keeps_def) (metis snd_conv)+

lemma authority_callE:
  assumes "authority_keeps J c" and "J (lw_ext w)"
  shows "au_ParallelCommands (lv_Authority c) b as (lw_ext w) = (r, x) \<Longrightarrow> J x"
    and "au_PatchCandidate (lv_Authority c) b a (lw_ext w) = (r, x) \<Longrightarrow> J x"
    and "au_TargetedTest (lv_Authority c) b a (lw_ext w) = (r, x) \<Longrightarrow> J x"
    and "au_FullVerify (lv_Authority c) b a (lw_ext w) = (r, x) \<Longrightarrow> J x"
    and "au_Checkpoint (lv_Authority c) b (lw_ext w) = (r, x) \<Longrightarrow> J x"
  using assms unfolding authority_keeps_def keeps_def by (metis snd_conv)+

lemma loop_step_ext:
  assumes m: "model_keeps J c" and a: "authority_keeps J c" and w: "J (lw_ext w)"
  shows "J (lw_ext (snd (loop_step c i b st w)))"
proof -
  note calls = model_callE [OF m w] authority_callE [OF a w] keeps_refresh_binding [OF a]
  show ?thesis
    by (cases "lo_Phase st")
      (auto simp: loop_step_def step_Inspect_def step_Plan_def step_Parallel_def step_Patch_def step_TargetedTest_def
          step_FullVerify_def step_DiagnoseRetry_def step_Checkpoint_def Let_def w calls
        split: prod.splits sum.splits option.splits)
qed

lemma loop_iter_ext:
  assumes m: "model_keeps J c" and a: "authority_keeps J c"
  shows "J (lw_ext w) \<Longrightarrow> loop_iter n c i b st w = Some (r, w') \<Longrightarrow> J (lw_ext w')"
proof (induction n arbitrary: b st w)
  case (Suc n)
  obtain res w1 where step: "loop_step c i b st w = (res, w1)" by fastforce
  have J1: "J (lw_ext w1)" using loop_step_ext [OF m a Suc.prems(1), of i b st] by (simp add: step)
  show ?case
  proof (cases res)
    case (Stop st' e)
    then show ?thesis using Suc.prems J1 by (auto simp: step split: if_splits)
  next
    case (Next b' st')
    obtain e w2 where p: "loop_persist c i st' w1 = (e, w2)" by fastforce
    have "J (lw_ext w2)" using loop_persist_ext [of c i st' w1] J1 by (simp add: p)
    then show ?thesis using Suc.prems Suc.IH [of w2 b' st'] by (auto simp: step Next p split: if_splits option.splits)
  qed
qed simp

lemma RunLoop_ext:
  assumes "model_keeps J c" and "authority_keeps J c" and "J (lw_ext w)" and "RunLoop n c i b w = Some (r, w')"
  shows "J (lw_ext w')"
  using assms(3,4) by (auto simp: RunLoop_def Let_def split: if_splits sum.splits option.splits
    dest!: loop_iter_ext [where J = J, OF assms(1,2), rotated])

subsection \<open>Publication, events and loops\<close>

lemma keeps_VerificationStatus [keeps_intros]: "keeps J (VerificationStatus ctx d)"
  by (auto simp: keeps_def VerificationStatus_def split: option.splits)

lemma keeps_snapshot_provider [keeps_intros]: "keeps (authority_inv R I) (snapshot_provider s ctx root)"
  using keeps_candidateSnapshot [of R I s ctx root] by (auto simp: keeps_def snapshot_provider_def split: prod.splits sum.splits)

lemma keeps_publicationCandidate [keeps_intros]: "keeps (authority_inv R I) (publicationCandidate s ctx i d)"
  unfolding publicationCandidate_def by (intro keeps_intros) (simp add: keeps_def guarding_def)

lemma keeps_publishing [keeps_intros]: "keeps (authority_inv R I) (publishing ctx (plane_adapter s ctx' g) c q)"
proof (rule keepsI)
  fix p :: "'a plane" assume p: "authority_inv R I p"
  have a: "keeps (authority_inv R I) (pa_runner (plane_adapter s ctx' g) d x as)"
    "keeps (authority_inv R I) (pa_snapshot (plane_adapter s ctx' g) root)" for d x as root
    using keeps_snapshot_provider [of R I s ctx' root]
    by (auto simp: plane_adapter_def keeps_def host_runner_def split: prod.splits)
  show "authority_inv R I (snd (publishing ctx (plane_adapter s ctx' g) c q p))"
    using keepsD [OF keeps_Publish [of "authority_inv R I" "plane_adapter s ctx' g", OF a], of "\<lparr>pw_ext = p, pw_runs = []\<rparr>" ctx c q] p
    by (auto simp: publishing_def split: prod.splits sum.splits)
qed

lemma keeps_PublicationPlan: "keeps (authority_inv R I) (PublicationPlan s ctx i d q)"
proof -
  have "keeps (authority_inv R I) (\<lambda>p. case WorkspaceStatus ctx i p of
      (Inl _, p1) \<Rightarrow> (Inr (), p1)
    | (Inr record, p1) \<Rightarrow> rememberConfirmationBinding ConfirmationPublication (publicationConfirmationBinding s i d record q' p1) p1)" for q'
    using keeps_WorkspaceStatus [of R I ctx i]
    by (auto simp: keeps_def rememberConfirmationBinding_def updating_def split: prod.splits sum.splits)
  then show ?thesis unfolding PublicationPlan_def Let_def by (intro keeps_intros)
qed

lemma keeps_PublicationConfirmationBinding: "keeps (authority_inv R I) (PublicationConfirmationBinding s ctx i d q)"
  unfolding PublicationConfirmationBinding_def by (intro keeps_intros)

lemma keeps_get_run [keeps_intros]: "keeps (authority_inv R I) (get_run s ctx i)"
  unfolding get_run_def by (intro keeps_intros)

lemma keeps_first_page [keeps_intros]: "keeps (authority_inv R I) (first_page s ctx i)"
  unfolding first_page_def by (intro keeps_intros)

lemma keeps_append_config [keeps_intros]: "keeps (authority_inv R I) (append_config s ctx i c)"
  unfolding append_config_def by (intro keeps_intros)

lemma keeps_set_running [keeps_intros]: "keeps (authority_inv R I) (set_running s ctx run)"
  unfolding set_running_def by (intro keeps_intros)

lemma keeps_StartLoop: "keeps (authority_inv R I) (StartLoop s ctx taskID i rid patch plan)"
  unfolding StartLoop_def Let_def by (intro keeps_intros) (simp_all add: keeps_def guarding_def)

lemma keeps_LoopStatus: "keeps (authority_inv R I) (LoopStatus s ctx i)"
  unfolding LoopStatus_def by (intro keeps_intros) (auto simp: keeps_def split: option.splits)

lemma keeps_apply_candidate_patch [keeps_intros]: "keeps (authority_inv R I) (apply_candidate_patch s root patch)"
  unfolding apply_candidate_patch_def
  by (intro keeps_intros) (auto simp: keeps_def put_tree_def Let_def split: prod.splits option.splits)

lemma keeps_PatchCandidate [keeps_intros]: "keeps (authority_inv R I) (PatchCandidate s ctx i patch a)"
  unfolding PatchCandidate_def by (intro keeps_intros) (auto simp: keeps_def guarding_def)

lemma keeps_authority_call:
  "(\<And>ctx plan. keeps J (f ctx plan)) \<Longrightarrow> keeps (\<lambda>w. J (fst w)) (authority_call live f)"
  by (auto simp: keeps_def authority_call_def split: prod.splits sum.splits) (metis snd_conv)+

lemma keeps_loop_Checkpoint:
  fixes s :: "'a plane_sys"
  shows "keeps (\<lambda>w. authority_inv R I (fst w)) (loop_Checkpoint s live i b)"
proof (rule keepsI)
  fix w :: "'a authority_world" assume w: "authority_inv R I (fst w)"
  let ?ctx = "live (cpl_Tick (fst w))"
  obtain r p where 1: "WorkspaceStatus ?ctx i (fst w) = (r, p)" by fastforce
  have p: "authority_inv R I p" by (rule keeps_snd [OF keeps_WorkspaceStatus w 1])
  have c: "keeps (authority_inv R I) (calling (\<lambda>e q. (Inr (AssertGeneration (cx_Now e) ?ctx g l (cpl_Store q)), q)))" for g l
    by (intro keeps_intros) (simp add: keeps_def)
  show "authority_inv R I (fst (snd (loop_Checkpoint s live i b w)))"
    using p by (auto simp: loop_Checkpoint_def Let_def 1 split: sum.splits prod.splits dest: keeps_snd [OF c p])
qed

text \<open>A decision that is returned allows.\<close>

lemma Authorize_allowed_flag: "Authorize sha now rnd ctx r b e = (Inr d, e') \<Longrightarrow> dc_Allowed d"
  by (auto simp: authorize_parts Let_def split: if_splits option.splits sum.splits prod.splits bool.splits)

subsection \<open>The interface of the authority\<close>

locale authority_invariant =
  fixes s :: "'x plane_sys" and R :: "string option \<Rightarrow> bool" and I :: "engine \<Rightarrow> session \<Rightarrow> bool"
  assumes allowed: "I e ss \<Longrightarrow> R rnd \<Longrightarrow> rq_SessionID r = ss_ID ss \<Longrightarrow> rq_Nonce r = ss_Nonce ss
      \<Longrightarrow> Authorize (px_Sha s) now rnd ctx r b e = (Inr d, e') \<Longrightarrow> I e' (ss\<lparr>ss_Nonce := dc_NextNonce d\<rparr>)"
    and denied: "I e ss \<Longrightarrow> R rnd \<Longrightarrow> rq_SessionID r = ss_ID ss \<Longrightarrow> rq_Nonce r = ss_Nonce ss
      \<Longrightarrow> Authorize (px_Sha s) now rnd ctx r b e = (Inl err, e') \<Longrightarrow> I e' ss"
    and issued: "I e ss \<Longrightarrow> R rnd \<Longrightarrow> I (snd (IssueOperatorConfirmation now rnd c a q e)) ss"
begin

lemma keeps_authorizeDecision [keeps_intros]:
  "keeps (authority_inv R I) (authorizeDecision s ctx capability target path execution token cb gen)"
  unfolding authorizeDecision_def
proof (rule keeps_calling, rule keepsI)
  fix e :: call_env and p :: "'x plane"
  assume R: "R (cx_Random e)" and p: "authority_inv R I p"
  let ?r = "authority_request capability target path execution token cb p"
  have r: "rq_SessionID ?r = ss_ID (cpl_Session p)" "rq_Nonce ?r = ss_Nonce (cpl_Session p)"
    by (simp_all add: authority_request_def)
  have I: "I (cpl_Engine p) (cpl_Session p)" using p by (simp add: authority_inv_def)
  show "authority_inv R I (snd (case Authorize (px_Sha s) (cx_Now e) (cx_Random e) ctx ?r (authority_binding gen p) (cpl_Engine p) of
      (Inl _, en) \<Rightarrow> (Inl PL_ErrRejected, p\<lparr>cpl_Engine := en\<rparr>)
    | (Inr d, en) \<Rightarrow> if \<not> dc_Allowed d then (Inl PL_ErrRejected, p\<lparr>cpl_Engine := en\<rparr>)
        else (Inr d, next_nonce (dc_NextNonce d) (p\<lparr>cpl_Engine := en\<rparr>))))"
  proof (cases "Authorize (px_Sha s) (cx_Now e) (cx_Random e) ctx ?r (authority_binding gen p) (cpl_Engine p)")
    case (Pair res en)
    show ?thesis
    proof (cases res)
      case (Inl err)
      then show ?thesis using Pair denied [OF I R r] p by (simp add: authority_inv_def)
    next
      case (Inr d)
      moreover have "dc_Allowed d" using Authorize_allowed_flag Pair Inr by blast
      ultimately show ?thesis using Pair allowed [OF I R r] p by (simp add: authority_inv_def next_nonce_def)
    qed
  qed
qed

lemma keeps_plane_authorize [keeps_intros]: "keeps (authority_inv R I) (plane_authorize s ctx c t g)"
  unfolding plane_authorize_def by (intro keeps_intros)

lemma keeps_authorizeWithBinding [keeps_intros]: "keeps (authority_inv R I) (authorizeWithBinding s ctx c t token cb g)"
  unfolding authorizeWithBinding_def by (intro keeps_intros)

lemma keeps_IssueOperatorConfirmation: "keeps (authority_inv R I :: 'x plane \<Rightarrow> bool) (plane_IssueOperatorConfirmation c r)"
proof (rule keepsI)
  fix p :: "'x plane" assume p: "authority_inv R I p"
  let ?p = "p\<lparr>cpl_Pending := (cpl_Pending p)(confirmationPendingKey (or_Class r) (cb_GenerationID (or_Binding r)) := None)\<rparr>"
  have k: "keeps (authority_inv R I) (calling (\<lambda>e (q :: 'x plane). on_engine (IssueOperatorConfirmation (cx_Now e) (cx_Random e) c (cpl_Operator q) r) q))"
  proof (rule keeps_calling, rule keepsI)
    fix e :: call_env and q :: "'x plane" assume "R (cx_Random e)" and "authority_inv R I q"
    then show "authority_inv R I (snd (on_engine (IssueOperatorConfirmation (cx_Now e) (cx_Random e) c (cpl_Operator q) r) q))"
      using issued [of "cpl_Engine q" "cpl_Session q" "cx_Random e" "cx_Now e" c "cpl_Operator q" r]
      by (auto simp: on_engine_def authority_inv_def split: prod.splits sum.splits)
  qed
  show "authority_inv R I (snd (plane_IssueOperatorConfirmation c r p))"
    using p keepsD [OF k, of ?p] by (simp add: plane_IssueOperatorConfirmation_def Let_def)
qed

lemma keeps_CreateWorkspace: "keeps (authority_inv R I) (CreateWorkspace s ctx taskID)"
  unfolding CreateWorkspace_def Let_def by (intro keeps_intros)

lemma keeps_DiscardWorkspace: "keeps (authority_inv R I) (DiscardWorkspace s ctx i)"
  unfolding DiscardWorkspace_def by (intro keeps_intros) simp

lemma keeps_plane_IntegrationPlan: "keeps (authority_inv R I) (plane_IntegrationPlan s ctx i)"
  unfolding plane_IntegrationPlan_def
  by (intro keeps_intros) (simp add: keeps_def rememberConfirmationBinding_def updating_def)

lemma keeps_Integrate: "keeps (authority_inv R I) (Integrate s ctx i token)"
  unfolding Integrate_def by (intro keeps_intros) (auto simp: keeps_def split: sum.splits)

lemma keeps_RuntimeCreate [keeps_intros]: "keeps (authority_inv R I) (RuntimeCreate s ctx i img backend cpu mem net)"
  unfolding RuntimeCreate_def Let_def by (intro keeps_intros)

lemma keeps_RuntimeStart [keeps_intros]: "keeps (authority_inv R I) (RuntimeStart s ctx i)"
  unfolding RuntimeStart_def by (intro keeps_intros)

lemma keeps_RuntimeStop: "keeps (authority_inv R I) (RuntimeStop s ctx i)"
  unfolding RuntimeStop_def by (intro keeps_intros)

lemma keeps_RuntimeStatus: "keeps (authority_inv R I) (RuntimeStatus s ctx i)"
  unfolding RuntimeStatus_def by (intro keeps_intros)

lemma keeps_ProcessStartWithEnvironment [keeps_intros]:
  "keeps (authority_inv R I) (ProcessStartWithEnvironment s ctx i rid exe as cwd timeout env)"
proof -
  have start: "keeps (authority_inv R I) (\<lambda>p. case x of None \<Rightarrow> (Inl PL_ErrRejected, p) | Some x \<Rightarrow> start_supervised s ctx (h x) p)" for x h
    using keeps_start_supervised [of R I s ctx] by (cases x) (auto simp: keeps_def)
  show ?thesis
    unfolding ProcessStartWithEnvironment_def
    by (intro keeps_intros start) (auto simp: keeps_def split: option.splits)
qed

lemma keeps_controlled [keeps_intros]: "keeps (authority_inv R I) (controlled s ctx c j)"
  unfolding controlled_def by (intro keeps_intros)

lemma keeps_plane_ProcessRead [keeps_intros]: "keeps (authority_inv R I) (plane_ProcessRead s ctx j)"
  unfolding plane_ProcessRead_def by (intro keeps_intros) (auto simp: keeps_def split: option.splits)

lemma keeps_plane_ProcessCancel: "keeps (authority_inv R I) (plane_ProcessCancel s ctx j)"
  unfolding plane_ProcessCancel_def by (intro keeps_intros)

lemma keeps_plane_ProcessSignal: "keeps (authority_inv R I) (plane_ProcessSignal s ctx j sig)"
  unfolding plane_ProcessSignal_def by (intro keeps_intros) (auto simp: keeps_def)

lemma keeps_plane_ProcessWait [keeps_intros]: "keeps (authority_inv R I) (plane_ProcessWait s ctx j)"
  unfolding plane_ProcessWait_def by (intro keeps_intros) (auto simp: keeps_def split: option.splits)

lemma keeps_PlanVerification [keeps_intros]: "keeps (authority_inv R I) (PlanVerification s ctx i t)"
  unfolding PlanVerification_def Let_def
  by (intro keeps_intros) simp_all

lemma keeps_verification_Run: "keeps (authority_inv R I) (verification_Run s ctx i rid root c)"
proof (rule keepsI)
  fix p :: "'x plane" assume p: "authority_inv R I p"
  let ?start = "ProcessStart s ctx i rid (ic_Executable c) (ic_Arguments c) (container_cwd root (ic_Workdir c)) 0"
  obtain r p1 where 1: "?start p = (r, p1)" by fastforce
  have J1: "authority_inv R I p1"
    using keeps_snd [OF keeps_ProcessStartWithEnvironment p] 1 by (simp add: ProcessStart_def)
  show "authority_inv R I (snd (verification_Run s ctx i rid root c p))"
  proof (cases r)
    case (Inl _) then show ?thesis using p J1 by (simp add: verification_Run_def 1)
  next
    case (Inr j)
    obtain r2 p2 where 2: "plane_ProcessWait s ctx j p1 = (r2, p2)" by fastforce
    have J2: "authority_inv R I p2" by (rule keeps_snd [OF keeps_plane_ProcessWait J1 2])
    obtain r3 p3 where 3: "plane_ProcessRead s ctx j p2 = (r3, p3)" by fastforce
    have J3: "authority_inv R I p3" by (rule keeps_snd [OF keeps_plane_ProcessRead J2 3])
    show ?thesis using p J2 J3 Inr by (simp add: verification_Run_def 1 2 3 split: sum.splits)
  qed
qed

lemma keeps_verify_candidate [keeps_intros]: "keeps (authority_inv R I) (verify_candidate s ctx i rid record plan)"
  unfolding verify_candidate_def
proof (rule keeps_calling, rule keepsI)
  fix e :: call_env and p :: "'x plane" assume p: "authority_inv R I p"
  let ?v = "Verify (px_VerificationJSON s) (px_Sha s) ctx (cx_Now e) plan
     (snapshot_provider s ctx (wg_Path (wk_Generation record))) (verification_Run s ctx i rid (wg_Path (wk_Generation record)))"
  obtain r p1 where 1: "?v p = (r, p1)" by fastforce
  have J1: "authority_inv R I p1" by (rule keeps_snd [OF keeps_Verify [OF keeps_snapshot_provider keeps_verification_Run] p 1])
  obtain r2 p2 where 2: "candidateSnapshot s ctx (wg_Path (wk_Generation record)) p1 = (r2, p2)" by fastforce
  have J2: "authority_inv R I p2" by (rule keeps_snd [OF keeps_candidateSnapshot J1 2])
  show "authority_inv R I (snd (case ?v p of (Inl b, p1) \<Rightarrow>
        (case candidateSnapshot s ctx (wg_Path (wk_Generation record)) p1 of (Inl b, p2) \<Rightarrow> (Inl PL_ErrRejected, p2)
         | (Inr later, p2) \<Rightarrow> (Inl (if later \<noteq> vp_CandidateSnapshot plan then PL_ErrStale else PL_ErrRejected), p2))
      | (Inr r, p1) \<Rightarrow> (Inr r, p1)))"
    using J1 J2 by (simp add: 1 2 split: sum.split)
qed

lemma keeps_RunVerification [keeps_intros]: "keeps (authority_inv R I) (RunVerification s ctx d i rid)"
  unfolding RunVerification_def
  by (intro keeps_intros) (auto simp: keeps_def split: option.splits)

lemma keeps_PublicationExecute: "keeps (authority_inv R I) (PublicationExecute s ctx i d q)"
proof -
  have ex: "keeps (authority_inv R I) (case WithGate g (plane_adapter s ctx no_gate) of None \<Rightarrow> pfail e | Some a \<Rightarrow> publishing ctx a c q')" for g c q' e
    using keeps_publishing [of R I ctx s ctx g c q'] by (simp add: WithGate_def plane_adapter_def keeps_pfail)
  show ?thesis
    supply keeps_option [keeps_intros del]
    unfolding PublicationExecute_def Let_def by (intro keeps_intros ex)
qed

lemma keeps_renew_runtime [keeps_intros]: "keeps (authority_inv R I) (renew_runtime s ctx i record c rt)"
  unfolding renew_runtime_def by (intro keeps_intros)

lemma keeps_ResumeLoop: "keeps (authority_inv R I) (ResumeLoop s ctx i)"
  unfolding ResumeLoop_def by (intro keeps_intros) (auto simp: keeps_def guarding_def split: option.splits)

lemma keeps_RefreshBinding: "keeps (\<lambda>w. authority_inv R I (fst w)) (RefreshBinding s live i t)"
proof (rule keepsI)
  fix w :: "'x authority_world" assume w: "authority_inv R I (fst w)"
  show "authority_inv R I (fst (snd (RefreshBinding s live i t w)))"
    by (auto simp: RefreshBinding_def split: prod.splits sum.splits dest: keeps_snd [OF keeps_PlanVerification w])
qed

lemma plane_controller_keeps:
  "model_keeps (\<lambda>w. authority_inv R I (fst w)) (plane_controller s live env j)"
  "authority_keeps (\<lambda>w. authority_inv R I (fst w)) (plane_controller s live env j)"
proof -
  have v: "keeps (authority_inv R I) (passing_verification s ctx i rid plan)" for ctx i rid plan
    unfolding passing_verification_def by (intro keeps_intros)
  note calls = keeps_authority_call [OF keeps_RunVerification] keeps_authority_call [OF keeps_PatchCandidate]
    keeps_authority_call [OF v] keeps_loop_Checkpoint keeps_RefreshBinding
  show "model_keeps (\<lambda>w. authority_inv R I (fst w)) (plane_controller s live env j)"
    by (simp add: model_keeps_def plane_controller_def loopModel_def keeps_def)
  have "keeps (\<lambda>w. authority_inv R I (fst w)) (\<lambda>w. if as = [] then (Some e, w)
      else authority_call live (\<lambda>ctx plan. RunVerification s ctx (vp_PlanDigest plan) i rid) w)" for as :: "action list" and e i rid
    using calls(1) by (simp add: keeps_def)
  then show "authority_keeps (\<lambda>w. authority_inv R I (fst w)) (plane_controller s live env j)"
    by (auto simp: authority_keeps_def plane_controller_def loopAuthority_def Let_def intro: calls)
qed

lemma keeps_loop_body:
  assumes "authority_inv R I p" and "loop_body n s text_of live env j p = Some (r, p')"
  shows "authority_inv R I p'"
proof -
  let ?c = "plane_controller s live env j"
  obtain st e w where run: "RunLoop n ?c (er_ID (jl_Run j)) (plan_binding (jl_Plan j)) (loop_world_of j p) = Some ((st, e), w)"
    using assms(2) by (auto simp: loop_body_def Let_def split: option.splits)
  have "authority_inv R I (fst (lw_ext w))"
    by (rule RunLoop_ext [OF plane_controller_keeps _ run]) (simp add: loop_world_of_def assms(1))
  then have p1: "authority_inv R I (plane_of_world w)" by (simp add: plane_of_world_def)
  have ev: "authority_inv R I q \<Longrightarrow> authority_inv R I (snd (on_events err f q))" for err f and q :: "'x plane"
    using keepsD [OF keeps_on_events] by blast
  show ?thesis
    using assms(2) p1 ev [OF ev [OF p1]] by (auto simp: loop_body_def Let_def run split: option.splits if_splits)
qed

text \<open>Every operation keeps the property, and so does everything that can happen to an open plane.\<close>

lemma plane_step_keeps: "plane_step s p p' \<Longrightarrow> authority_inv R I p \<Longrightarrow> authority_inv R I p'"
proof (induction rule: plane_step.induct)
qed (auto intro: keepsD keeps_intros keeps_loop_body keeps_IssueOperatorConfirmation keeps_CreateWorkspace keeps_DiscardWorkspace
    keeps_plane_IntegrationPlan keeps_Integrate keeps_RuntimeStop keeps_RuntimeStatus keeps_plane_ProcessCancel
    keeps_plane_ProcessSignal keeps_PublicationPlan keeps_PublicationConfirmationBinding keeps_PublicationExecute keeps_StartLoop
    keeps_ResumeLoop keeps_LoopStatus)

lemma plane_reach_keeps: "plane_reach s p p' \<Longrightarrow> authority_inv R I p \<Longrightarrow> authority_inv R I p'"
  unfolding plane_reach_def by (induction rule: rtranclp_induct) (auto intro: plane_step_keeps)

end

end
