(* ===== verification/Plane_Authority.thy ===== *)
theory Plane_Authority
  imports Plane_Session
begin

section \<open>The authority of a plane over its whole life (internal/controlplane/plane.go)\<close>

text \<open>
  What holds of the engine and of the session of a plane through every sequence of its operations, each an
  interpretation of the interface of \<open>Plane_Session\<close>: the identity the plane was opened with and the
  end of its session never change, a confirmation is spent once, and a session whose nonce the plane has
  lost is never usable again.
\<close>

subsection \<open>What a decision does to the engine\<close>

lemma decision_cases:
  assumes "Authorize sha now rnd ctx r b e = (res, e')"
  shows "eng_policy e' = eng_policy e" and "eng_enrollments e' = eng_enrollments e"
  using authorize_step [of sha now rnd ctx r b e] assms by simp_all

lemma decision_confirmations:
  assumes "Authorize sha now rnd ctx r b e = (res, e')" and "eng_confirmations e t = None"
  shows "eng_confirmations e' t = None"
  using authorize_step [of sha now rnd ctx r b e] assms by auto

text \<open>A decision that is allowed moves the session to the nonce it returns.\<close>

lemma checked_next_nonce: "fst (authorize_checked sha now r b n e) = Inr d \<Longrightarrow> dc_NextNonce d = n"
  by (auto simp: authorize_checked_def authorize_finish_def deny_def Let_def split: if_splits sum.splits prod.splits bool.splits)

lemma decision_allowed:
  assumes a: "Authorize sha now rnd ctx r b e = (Inr d, e')"
  obtains st where "eng_sessions e (rq_SessionID r) = Some st" "ss_Nonce st = rq_Nonce r" "now < ss_ExpiresAt st"
    "eng_sessions e' = (eng_sessions e)(ss_ID st \<mapsto> st\<lparr>ss_Nonce := dc_NextNonce d\<rparr>)"
    "nonce_accepted now rnd ctx r b e" "newOpaque ''nonce_'' rnd = Some (dc_NextNonce d)"
proof -
  have acc: "nonce_accepted now rnd ctx r b e"
    using Authorize_allowed_accepted [of sha now rnd ctx r b e] a by simp
  then obtain st bytes where st: "eng_sessions e (rq_SessionID r) = Some st" "rnd = Some bytes" "rq_Nonce r = ss_Nonce st"
    and eq: "Authorize sha now rnd ctx r b e = authorize_checked sha now r b (opaque ''nonce_'' bytes)
       (e\<lparr>eng_sessions := (eng_sessions e)(ss_ID st \<mapsto> st\<lparr>ss_Nonce := opaque ''nonce_'' bytes\<rparr>)\<rparr>)"
    by (rule Authorize_accepted)
  have n: "dc_NextNonce d = opaque ''nonce_'' bytes"
    by (rule checked_next_nonce [of sha now r b _ "e\<lparr>eng_sessions := (eng_sessions e)(ss_ID st \<mapsto> st\<lparr>ss_Nonce := opaque ''nonce_'' bytes\<rparr>)\<rparr>"])
       (simp add: eq [symmetric] a)
  have "eng_sessions e' = (eng_sessions e)(ss_ID st \<mapsto> st\<lparr>ss_Nonce := dc_NextNonce d\<rparr>)"
    using checked_eng(1) [of sha now r b "opaque ''nonce_'' bytes"
      "e\<lparr>eng_sessions := (eng_sessions e)(ss_ID st \<mapsto> st\<lparr>ss_Nonce := opaque ''nonce_'' bytes\<rparr>)\<rparr>"]
    by (simp add: eq [symmetric] a n)
  moreover have "now < ss_ExpiresAt st" using acc st(1) by (auto simp: nonce_accepted_def split: option.splits)
  ultimately show thesis using that [OF st(1) _ _ _ acc] st n by simp
qed

lemma decision_policy:
  assumes a: "Authorize sha now rnd ctx r b e = (Inr d, e')"
  shows "rq_Capability r \<in> set (pol_Capabilities (eng_policy e))"
    and "is_ok (Compile (eng_policy e) b)" and "validateTarget r b"
    and "requiredConfirmation (rq_Capability r) = ConfirmationNone \<or> confirmation_matches now r e"
    and "rq_Capability r = CapabilityExecute \<Longrightarrow> is_ok (CompileExecution (pol_Execution (eng_policy e)) (rq_Execution r))"
proof -
  obtain st bytes where eq: "Authorize sha now rnd ctx r b e = authorize_checked sha now r b (opaque ''nonce_'' bytes)
       (e\<lparr>eng_sessions := (eng_sessions e)(ss_ID st \<mapsto> st\<lparr>ss_Nonce := opaque ''nonce_'' bytes\<rparr>)\<rparr>)"
    using Authorize_accepted [OF Authorize_allowed_accepted [of sha now rnd ctx r b e]] a by (metis fst_conv is_ok_simps(2))
  have ok: "is_ok (fst (authorize_checked sha now r b (opaque ''nonce_'' bytes)
       (e\<lparr>eng_sessions := (eng_sessions e)(ss_ID st \<mapsto> st\<lparr>ss_Nonce := opaque ''nonce_'' bytes\<rparr>)\<rparr>)))"
    by (simp add: eq [symmetric] a)
  show "rq_Capability r \<in> set (pol_Capabilities (eng_policy e))"
    and "is_ok (Compile (eng_policy e) b)" and "validateTarget r b"
    and "requiredConfirmation (rq_Capability r) = ConfirmationNone \<or> confirmation_matches now r e"
    and "rq_Capability r = CapabilityExecute \<Longrightarrow> is_ok (CompileExecution (pol_Execution (eng_policy e)) (rq_Execution r))"
    using ok unfolding checked_ok by (simp_all add: confirmation_matches_def)
qed

lemma accepted_ok:
  assumes "nonce_accepted now rnd ctx r b e" and "rq_Capability r \<in> set (pol_Capabilities (eng_policy e))"
    and "is_ok (Compile (eng_policy e) b)" and "validateTarget r b"
    and "requiredConfirmation (rq_Capability r) = ConfirmationNone \<or> confirmation_matches now r e"
    and "\<not> needs_trusted_ref (rq_Capability r)
      \<or> validateTrustedRefLocked sha (rq_RepositoryID r) (rq_TrustedIntegrationRef r) e"
    and "rq_Capability r \<noteq> CapabilityExecute"
  shows "is_ok (fst (Authorize sha now rnd ctx r b e))"
  by (rule Authorize_accepted [OF assms(1), of sha])
     (use assms(2-) in \<open>simp add: checked_ok confirmation_matches_def validateTrustedRefLocked_def\<close>)

text \<open>A token that has confirmed something is gone.\<close>

lemma decision_spends:
  assumes a: "Authorize sha now rnd ctx r b e = (Inr d, e')"
    and c: "requiredConfirmation (rq_Capability r) \<noteq> ConfirmationNone"
  shows "eng_confirmations e' (rq_ConfirmationToken r) = None"
proof -
  obtain st bytes where eq: "Authorize sha now rnd ctx r b e = authorize_checked sha now r b (opaque ''nonce_'' bytes)
       (e\<lparr>eng_sessions := (eng_sessions e)(ss_ID st \<mapsto> st\<lparr>ss_Nonce := opaque ''nonce_'' bytes\<rparr>)\<rparr>)"
    using Authorize_accepted [OF Authorize_allowed_accepted [of sha now rnd ctx r b e]] a by (metis fst_conv is_ok_simps(2))
  show ?thesis using checked_allowed_consumes [OF _ c, of sha now b] eq a by (metis fst_conv is_ok_simps(2) snd_conv)
qed

subsection \<open>A nonce the plane has lost\<close>

definition nonce_lost :: "engine \<Rightarrow> session \<Rightarrow> bool" where
  "nonce_lost e ss \<longleftrightarrow> (\<exists>st. eng_sessions e (ss_ID ss) = Some st \<and> ss_Nonce st \<noteq> ss_Nonce ss)"

lemma lost_refused:
  assumes "nonce_lost e ss" and "rq_SessionID r = ss_ID ss" and "rq_Nonce r = ss_Nonce ss"
  shows "\<not> nonce_accepted now rnd ctx r b e"
  using assms by (auto simp: nonce_accepted_def nonce_lost_def split: option.splits)

interpretation lost: authority_invariant s "\<lambda>_. True" nonce_lost for s :: "'x plane_sys"
proof (unfold_locales, goal_cases)
  case (1 e ss rnd r now ctx b d e')
  then show ?case using lost_refused [OF 1(1,3,4)] Authorize_allowed_accepted [of "px_Sha s" now rnd ctx r b e] by simp
next
  case (2 e ss rnd r now ctx b err e')
  then show ?case
    using lost_refused [OF 2(1,3,4), of now rnd ctx b] authorize_step [of "px_Sha s" now rnd ctx r b e] by (auto simp: nonce_lost_def)
next
  case (3 e ss rnd now c a q)
  then show ?case using issue_step [of now rnd c a q e] by (auto simp: nonce_lost_def)
qed

text \<open>The call of the engine that a decision makes.\<close>

definition next_call :: "'x plane \<Rightarrow> call_env" where
  "next_call p = cpl_Env p (cpl_Tick p)"

definition decided ::
  "'x plane_sys \<Rightarrow> go_ctx \<Rightarrow> string \<Rightarrow> string \<Rightarrow> string \<Rightarrow> execution_spec \<Rightarrow> string \<Rightarrow> confirmation_binding
     \<Rightarrow> ws_generation \<Rightarrow> 'x plane \<Rightarrow> (sec_error + decision) \<times> engine" where
  "decided s ctx c t path ex token cb g p =
     Authorize (px_Sha s) (cx_Now (next_call p)) (cx_Random (next_call p)) ctx
       (authority_request c t path ex token cb p) (authority_binding g p) (cpl_Engine p)"

lemma request_after_call [simp]:
  "authority_request c t path ex token cb (p\<lparr>cpl_Tick := n, cpl_Store := r\<rparr>) = authority_request c t path ex token cb p"
  "authority_binding g (p\<lparr>cpl_Tick := n, cpl_Store := edit_trees f (cpl_Store p)\<rparr>) = authority_binding g p"
  by (simp_all add: authority_request_def authority_binding_def edit_trees_def)

lemma authorizeDecision_cases:
  obtains (refused) err en where "decided s ctx c t path ex token cb g p = (Inl err, en)"
      "fst (authorizeDecision s ctx c t path ex token cb g p) = Inl PL_ErrRejected"
      "cpl_Engine (snd (authorizeDecision s ctx c t path ex token cb g p)) = en"
      "cpl_Session (snd (authorizeDecision s ctx c t path ex token cb g p)) = cpl_Session p"
  | (allowed) d en where "decided s ctx c t path ex token cb g p = (Inr d, en)"
      "fst (authorizeDecision s ctx c t path ex token cb g p) = Inr d"
      "cpl_Engine (snd (authorizeDecision s ctx c t path ex token cb g p)) = en"
      "cpl_Session (snd (authorizeDecision s ctx c t path ex token cb g p)) = (cpl_Session p)\<lparr>ss_Nonce := dc_NextNonce d\<rparr>"
proof -
  obtain res en where d: "decided s ctx c t path ex token cb g p = (res, en)" by fastforce
  note unfolded = d [unfolded decided_def] authorizeDecision_def calling_def Let_def next_call_def [symmetric]
  show thesis
  proof (cases res)
    case (Inl err)
    show ?thesis by (rule refused [of err en]) (simp_all add: unfolded Inl, simp add: decided_def unfolded Inl)
  next
    case (Inr a)
    have "dc_Allowed a" using Authorize_allowed_flag d Inr by (simp add: decided_def)
    then show ?thesis by - (rule allowed [of a en], simp_all add: unfolded Inr next_nonce_def, simp add: decided_def unfolded Inr)
  qed
qed

lemma lost_decision_refused:
  assumes "nonce_lost (cpl_Engine p) (cpl_Session p)"
  shows "fst (authorizeDecision s ctx c t path ex token cb g p) = Inl PL_ErrRejected"
proof (cases s ctx c t path ex token cb g p rule: authorizeDecision_cases)
  case (allowed d en)
  from decision_allowed [OF allowed(1) [unfolded decided_def]]
  have "nonce_accepted (cx_Now (next_call p)) (cx_Random (next_call p)) ctx (authority_request c t path ex token cb p)
      (authority_binding g p) (cpl_Engine p)" by metis
  moreover have "\<not> nonce_accepted now rnd ctx (authority_request c t path ex token cb p) b (cpl_Engine p)" for now rnd b
    by (rule lost_refused [OF assms]) (simp_all add: authority_request_def)
  ultimately show ?thesis by blast
qed

text \<open>a request that the plane makes with the nonce of its session and that is refused for what it asks
  for (a capability, a target, a confirmation, an execution) locks the plane: the engine has moved the
  session to a new nonce, the plane has kept the old one, and whatever the plane does from then on, every
  request that needs authority is refused.\<close>

theorem refused_request_locks_plane:
  assumes wf: "engine_wf (cpl_Engine p)"
    and accepted: "nonce_accepted (cx_Now (next_call p)) (cx_Random (next_call p)) ctx
      (authority_request c t path ex token cb p) (authority_binding g p) (cpl_Engine p)"
    and fresh: "newOpaque ''nonce_'' (cx_Random (next_call p)) \<noteq> Some (ss_Nonce (cpl_Session p))"
    and refused: "authorizeDecision s ctx c t path ex token cb g p = (Inl PL_ErrRejected, p1)"
    and reach: "plane_reach s p1 p2"
  shows "fst (authorizeDecision s ctx' c' t' path' ex' token' cb' g' p2) = Inl PL_ErrRejected"
proof -
  let ?r = "authority_request c t path ex token cb p"
  from accepted obtain st bytes where st: "eng_sessions (cpl_Engine p) (rq_SessionID ?r) = Some st"
      "cx_Random (next_call p) = Some bytes"
    and eq: "Authorize (px_Sha s) (cx_Now (next_call p)) (cx_Random (next_call p)) ctx ?r (authority_binding g p) (cpl_Engine p)
      = authorize_checked (px_Sha s) (cx_Now (next_call p)) ?r (authority_binding g p) (opaque ''nonce_'' bytes)
          ((cpl_Engine p)\<lparr>eng_sessions := (eng_sessions (cpl_Engine p))(ss_ID st \<mapsto> st\<lparr>ss_Nonce := opaque ''nonce_'' bytes\<rparr>)\<rparr>)"
    by (rule Authorize_accepted)
  have id: "ss_ID st = ss_ID (cpl_Session p)" using wf st(1) by (simp add: engine_wf_def authority_request_def)
  have sessions: "eng_sessions (snd (decided s ctx c t path ex token cb g p))
      = (eng_sessions (cpl_Engine p))(ss_ID st \<mapsto> st\<lparr>ss_Nonce := opaque ''nonce_'' bytes\<rparr>)"
    by (simp add: decided_def eq)
  have "nonce_lost (cpl_Engine p1) (cpl_Session p1)"
  proof (cases s ctx c t path ex token cb g p rule: authorizeDecision_cases)
    case (refused err en)
    then show ?thesis using sessions id fresh st(2) assms(4) by (simp add: nonce_lost_def)
  qed (use assms(4) in simp)
  then have "authority_inv (\<lambda>_. True) nonce_lost p1" by (simp add: authority_inv_def)
  from lost.plane_reach_keeps [OF reach this] have "nonce_lost (cpl_Engine p2) (cpl_Session p2)"
    by (simp add: authority_inv_def)
  then show ?thesis by (rule lost_decision_refused)
qed

subsection \<open>A confirmation is spent once\<close>

definition token_gone :: "string \<Rightarrow> engine \<Rightarrow> session \<Rightarrow> bool" where
  "token_gone t e ss \<longleftrightarrow> eng_confirmations e t = None"

interpretation spent: authority_invariant s "\<lambda>rnd. newOpaque ''confirm_'' rnd \<noteq> Some t" "token_gone t"
  for s :: "'x plane_sys" and t
proof (unfold_locales, goal_cases)
  case (1 e ss rnd r now ctx b d e')
  then show ?case using decision_confirmations [OF 1(5)] by (simp add: token_gone_def)
next
  case (2 e ss rnd r now ctx b err e')
  then show ?case using decision_confirmations [OF 2(5)] by (simp add: token_gone_def)
next
  case (3 e ss rnd now c a q)
  then show ?case using issue_step [of now rnd c a q e] by (auto simp: token_gone_def)
qed

text \<open>C2: a confirmation that has authorised an integration or a publication authorises nothing more, at
  any later time of the plane, as long as the random bytes of its tokens do not repeat it.\<close>

theorem confirmation_spent_once:
  assumes used: "authorizeWithBinding s ctx c t token cb g p = (Inr (), p1)"
    and c: "requiredConfirmation c \<noteq> ConfirmationNone"
    and reach: "plane_reach s p1 p2"
    and fresh: "\<And>n. newOpaque ''confirm_'' (cx_Random (cpl_Env p1 n)) \<noteq> Some token"
    and c': "requiredConfirmation c' \<noteq> ConfirmationNone"
  shows "fst (authorizeWithBinding s ctx' c' t' token cb' g' p2) = Inl PL_ErrRejected"
proof -
  have "token_gone token (cpl_Engine p1) (cpl_Session p1)"
  proof (cases s ctx c t "[]::string" no_execution token cb g p rule: authorizeDecision_cases)
    case (allowed d en)
    have "eng_confirmations en token = None"
      using decision_spends [OF allowed(1) [unfolded decided_def]] c by (simp add: authority_request_def)
    then show ?thesis using allowed used
      by (auto simp: authorizeWithBinding_def pbind_def pret_def token_gone_def split: prod.splits)
  qed (use used in \<open>auto simp: authorizeWithBinding_def pbind_def split: prod.splits\<close>)
  then have "authority_inv (\<lambda>rnd. newOpaque ''confirm_'' rnd \<noteq> Some token) (token_gone token) p1"
    using fresh by (simp add: authority_inv_def)
  from spent.plane_reach_keeps [OF reach this] have gone: "eng_confirmations (cpl_Engine p2) token = None"
    by (simp add: authority_inv_def token_gone_def)
  show ?thesis
  proof (cases s ctx' c' t' "[]::string" no_execution token cb' g' p2 rule: authorizeDecision_cases)
    case (allowed d en)
    then show ?thesis
      using decision_policy(4) [OF allowed(1) [unfolded decided_def]] c' gone
      by (simp add: authority_request_def confirmation_matches_def)
  qed (auto simp: authorizeWithBinding_def pbind_def split: prod.splits)
qed

subsection \<open>The identity a plane was opened with\<close>

definition session_as_opened :: "engine \<Rightarrow> session \<Rightarrow> engine \<Rightarrow> session \<Rightarrow> bool" where
  "session_as_opened e0 ss0 e ss \<longleftrightarrow> engine_wf e \<and> eng_policy e = eng_policy e0 \<and> eng_enrollments e = eng_enrollments e0
     \<and> ss_ID ss = ss_ID ss0
     \<and> (\<exists>st. eng_sessions e (ss_ID ss0) = Some st \<and> st\<lparr>ss_Nonce := []\<rparr> = ss0\<lparr>ss_Nonce := []\<rparr>)"

lemma session_fields:
  fixes st ss0 :: session
  shows
  "st\<lparr>ss_Nonce := []\<rparr> = ss0\<lparr>ss_Nonce := []\<rparr> \<longleftrightarrow> ss_ID st = ss_ID ss0 \<and> ss_PrincipalID st = ss_PrincipalID ss0
     \<and> ss_RepositoryID st = ss_RepositoryID ss0 \<and> ss_TransportID st = ss_TransportID ss0
     \<and> ss_AuthenticationID st = ss_AuthenticationID ss0 \<and> ss_ExpiresAt st = ss_ExpiresAt ss0"
  by (cases st; cases ss0) auto

lemma as_opened_decision:
  assumes inv: "session_as_opened e0 ss0 e ss" and a: "Authorize sha now rnd ctx r b e = (res, e')"
  shows "session_as_opened e0 ss0 e' ss"
proof -
  have wf: "engine_wf e'" using engine_wf_step [of e sha "Op_Authorize now rnd ctx r b"] inv a by (simp add: session_as_opened_def)
  have "\<exists>st. eng_sessions e' (ss_ID ss0) = Some st \<and> st\<lparr>ss_Nonce := []\<rparr> = ss0\<lparr>ss_Nonce := []\<rparr>"
    using authorize_step [of sha now rnd ctx r b e] a inv
    by (auto simp: session_as_opened_def session_fields engine_wf_def split: if_splits)
  then show ?thesis using inv wf decision_cases [OF a] by (simp add: session_as_opened_def)
qed

interpretation opened: authority_invariant s "\<lambda>_. True" "session_as_opened e0 ss0" for s :: "'x plane_sys" and e0 ss0
proof (unfold_locales, goal_cases)
  case (1 e ss rnd r now ctx b d e')
  then show ?case using as_opened_decision [OF 1(1,5)] by (simp add: session_as_opened_def)
next
  case (2 e ss rnd r now ctx b err e')
  then show ?case using as_opened_decision [OF 2(1,5)] by simp
next
  case (3 e ss rnd now c a q)
  have "engine_wf (snd (IssueOperatorConfirmation now rnd c a q e))"
    using engine_wf_step [of e id "Op_Issue now rnd c a q"] 3 by (simp add: session_as_opened_def)
  then show ?case using issue_step [of now rnd c a q e] 3 by (auto simp: session_as_opened_def)
qed

lemma plane_session_opened:
  assumes "plane_session s now r1 r2 r3 ctx pr repo = Some (ref, ss, e)"
  shows "session_as_opened e ss e ss \<and> eng_policy e = defaultPolicy \<and> ss_ExpiresAt ss = min (pr_ExpiresAt pr) (now + 24 * hour)"
proof -
  obtain e0 where e0: "NewEngine defaultPolicy = Inr e0" using assms by (auto simp: plane_session_def split: sum.splits)
  let ?enroll = "EnrollRepository (px_Sha s) now r1 ctx (pr_ID pr) (wr_rootIdentity repo) (wr_filesystemID repo)"
  let ?open = "OpenAuthenticatedSession now r2 r3 ctx pr (wr_rootIdentity repo) (24 * hour)"
  obtain en e1 where e1: "?enroll e0 = (Inr (en, ref), e1)" and e2: "?open e1 = (Inr ss, e)"
    using assms by (auto simp: plane_session_def e0 split: sum.splits prod.splits)
  have wf0: "engine_wf e0" by (rule NewEngine_wf [OF e0])
  have wf1: "engine_wf e1"
    using engine_wf_step [OF wf0, of "px_Sha s" "Op_Enroll now r1 ctx (pr_ID pr) (wr_rootIdentity repo) (wr_filesystemID repo)"]
    by (simp add: e1)
  have wf: "engine_wf e"
    using engine_wf_step [OF wf1, of "px_Sha s" "Op_Open now r2 r3 ctx pr (wr_rootIdentity repo) (24 * hour)"] by (simp add: e2)
  have p0: "eng_policy e0 = defaultPolicy" using e0 by (auto simp: NewEngine_def split: if_splits)
  have p1: "eng_policy e1 = defaultPolicy"
    using enroll_step [of "px_Sha s" now r1 ctx "pr_ID pr" "wr_rootIdentity repo" "wr_filesystemID repo" e0] p0 by (auto simp: e1)
  have s2: "eng_sessions e (ss_ID ss) = Some ss \<and> eng_policy e = eng_policy e1 \<and> ss_ExpiresAt ss = min (pr_ExpiresAt pr) (now + 24 * hour)"
    using e2 by (auto simp: OpenAuthenticatedSession_def Let_def min_def split: if_splits option.splits)
  then show ?thesis using wf p1 by (simp add: session_as_opened_def)
qed

lemma plane_Open_parts:
  assumes "plane_Open s now r1 r2 r3 env ctx cfg parts = Some p0"
  obtains pr repo where "pp_Principal parts = Some pr" "pp_Isolated parts = Some repo"
    "plane_session s now r1 r2 r3 ctx pr repo = Some (cpl_TrustedRef p0, cpl_Session p0, cpl_Engine p0)"
    "cpl_Env p0 = env" "cpl_Store p0 = repo"
  using assms by (auto simp: plane_Open_def split: if_splits option.splits prod.splits sum.splits)

lemma authorizeDecision_env [simp]: "cpl_Env (snd (authorizeDecision s ctx c t path ex token cb g p)) = cpl_Env p"
  by (auto simp: authorizeDecision_def calling_def Let_def next_nonce_def split: prod.splits sum.splits)

lemma authorizeWithBinding_snd [simp]:
  "snd (authorizeWithBinding s ctx c t token cb g p) = snd (authorizeDecision s ctx c t [] no_execution token cb g p)"
  by (auto simp: authorizeWithBinding_def pbind_def pret_def split: prod.splits sum.splits)

text \<open>C1: at any time of its life a plane lets through only what the default policy allows, and only before
  its session has ended, which is when the principal that opened it expires and at the latest 24 hours
  after the opening: the capability is one of the policy's, an execution is one its
  execution policy compiles, and an integration or a publication has a stored confirmation of its class for
  exactly the binding claimed, which has not expired.\<close>

theorem plane_allows_only_policy:
  assumes opened: "plane_Open s now r1 r2 r3 env octx cfg parts = Some p0"
    and reach: "plane_reach s p0 p"
    and allowed: "authorizeDecision s ctx c t path ex token cb g p = (Inr d, p1)"
  shows "(\<exists>pr. pp_Principal parts = Some pr \<and> cx_Now (next_call p) < min (pr_ExpiresAt pr) (now + 24 * hour))
    \<and> c \<in> set (pol_Capabilities defaultPolicy)
    \<and> (c \<noteq> CapabilityExecute \<or> is_ok (CompileExecution (pol_Execution defaultPolicy) ex))
    \<and> (requiredConfirmation c = ConfirmationNone
       \<or> (\<exists>cf. eng_confirmations (cpl_Engine p) token = Some cf \<and> cf_Class cf = requiredConfirmation c \<and> cf_Binding cf = cb
             \<and> cx_Now (next_call p) < cf_ExpiresAt cf))"
proof -
  let ?e = "cpl_Engine p0" and ?ss = "cpl_Session p0"
  obtain pr repo where pr: "pp_Principal parts = Some pr"
    and sess: "plane_session s now r1 r2 r3 octx pr repo = Some (cpl_TrustedRef p0, ?ss, ?e)"
    by (rule plane_Open_parts [OF opened])
  note start = plane_session_opened [OF sess]
  have "authority_inv (\<lambda>_. True) (session_as_opened ?e ?ss) p0" using start by (simp add: authority_inv_def)
  from opened.plane_reach_keeps [OF reach this] have inv: "session_as_opened ?e ?ss (cpl_Engine p) (cpl_Session p)"
    by (simp add: authority_inv_def)
  let ?r = "authority_request c t path ex token cb p"
  obtain en where dec: "Authorize (px_Sha s) (cx_Now (next_call p)) (cx_Random (next_call p)) ctx ?r (authority_binding g p) (cpl_Engine p) = (Inr d, en)"
  proof (cases s ctx c t path ex token cb g p rule: authorizeDecision_cases)
    case (allowed d' en)
    then show thesis using assms(3) that by (simp add: decided_def)
  qed (use assms(3) in simp)
  obtain st where st: "eng_sessions (cpl_Engine p) (rq_SessionID ?r) = Some st" "cx_Now (next_call p) < ss_ExpiresAt st"
    by (rule decision_allowed [OF dec])
  have "ss_ExpiresAt st = ss_ExpiresAt ?ss" using inv st(1) by (auto simp: session_as_opened_def session_fields authority_request_def)
  moreover have "eng_policy (cpl_Engine p) = defaultPolicy" using inv start by (simp add: session_as_opened_def)
  ultimately show ?thesis
    using st(2) start pr decision_policy [OF dec]
    by (auto simp: authority_request_def confirmation_matches_def split: option.splits)
qed

subsection \<open>A plane\<close>

definition demo_event_env :: ev_env where
  "demo_event_env = \<lparr>ee_Ctx = Ctx_Live, ee_Now = 7, ee_Begin = True, ee_Read = (\<lambda>_. True), ee_Write = W_Done\<rparr>"

definition demo_env :: call_env where
  "demo_env = \<lparr>cx_Now = 6, cx_Random = rnd16 9, cx_Write1 = W_Done, cx_Write2 = W_Done, cx_File = FW_Done, cx_Ok1 = True,
     cx_Ok2 = True, cx_Ok3 = True, cx_Ok4 = True, cx_Order = [''gen_1''], cx_Live = live0, cx_Live2 = live0, cx_Size = (\<lambda>_. 64),
     cx_Edit = (\<lambda>_ t. t), cx_Outcome = None, cx_Chunks = None, cx_Events = demo_event_env, cx_Root = (None, None),
     cx_Disk0 = demo_disk ''a'', cx_Disk1 = demo_disk ''a'', cx_Disk2 = demo_disk ''a'', cx_Io = demo_io\<rparr>"

definition demo_sys :: "unit plane_sys" where
  "demo_sys = \<lparr>px_Sha = tiny_sha, px_IntegrationJSON = enc0, px_VerificationJSON = sample_js, px_RequestJSON = pq_Kind,
     px_ConfigJSON = lc_GenerationID, px_ConfigRead = (\<lambda>_ _. None), px_ErrorJSON = (\<lambda>t. t), px_Codec = demo_env_codec,
     px_EventSys = sample_sys, px_Platform = ''p'', px_ContainerBinary = ''/bin/container'', px_Host = (\<lambda>_ x. (True, x)),
     px_Look = (\<lambda>_. None), px_Exec = (\<lambda>_ _ _ x. ((False, []), x)), px_StateJSON = lo_CheckpointID, px_StateRead = (\<lambda>_. None)\<rparr>"

definition demo_dir :: gen_dir where
  "demo_dir = \<lparr>gd_generation = Slot_Has (gen0\<lparr>wg_RepositoryID := sample_identity, wg_SourceFilesystem := sample_identity\<rparr>),
     gd_lease = Slot_Absent, gd_runtime = Slot_Absent, gd_real = True, gd_tree = cand0\<rparr>"

definition demo_repo :: ws_repo where
  "demo_repo = \<lparr>wr_root = ''/live/repo'', wr_rootIdentity = sample_identity, wr_filesystemID = sample_identity,
     wr_workspaceRoot = ''/state/ws'', wr_open = True, wr_fence = Slot_Absent, wr_dirs = [''gen_1'' \<mapsto> demo_dir],
     wr_quarantine = []\<rparr>"

definition demo_parts :: "unit plane_parts" where
  "demo_parts = \<lparr>pp_Root = Some demo_ws, pp_Principal = Some sample_principal, pp_Isolated = Some demo_repo, pp_Tasks = True,
     pp_Memory = True, pp_Events = Some sample_store, pp_Cache = True,
     pp_Environment = Some \<lparr>em_gens = Map.empty, em_files = Map.empty\<rparr>,
     pp_Runtimes = Some \<lparr>rm_adapters = Map.empty, rm_runtimes = Map.empty, rm_disk = Map.empty, rm_world = ()\<rparr>,
     pp_Scheduler = True, pp_Binary = Some ''/bin/container'', pp_Processes = True\<rparr>"

definition demo_config :: plane_config where
  "demo_config = \<lparr>cg_RepositoryRoot = ''/live/repo'', cg_StateRoot = ''/state'', cg_Image = [], cg_HasProvider = True,
     cg_Operator = Some (AuthenticatedOperatorAuthority ''operator'')\<rparr>"

definition demo_enrollment :: enrollment where
  "demo_enrollment = \<lparr>en_RepositoryID = sample_identity, en_FilesystemID = sample_identity,
     en_TrustedRefDigest = digestString tiny_sha (opaque ''ref_'' (replicate 16 (char_of (4::nat)))), en_EnrolledAt = 1\<rparr>"

definition demo_session :: session where
  "demo_session = \<lparr>ss_ID = sample_sid, ss_PrincipalID = ''agent'', ss_RepositoryID = sample_identity, ss_TransportID = ''transport'',
     ss_AuthenticationID = sample_identity, ss_Nonce = sample_nonce, ss_ExpiresAt = 1 + 24 * hour\<rparr>"

definition demo_engine :: engine where
  "demo_engine = \<lparr>eng_policy = defaultPolicy, eng_enrollments = [sample_identity \<mapsto> demo_enrollment],
     eng_sessions = [sample_sid \<mapsto> demo_session], eng_confirmations = Map.empty,
     eng_audit = [\<lparr>ae_At = 1, ae_PrincipalID = ''agent'', ae_SessionID = [], ae_RepositoryID = sample_identity, ae_Capability = [],
                 ae_Outcome = ''enrolled'', ae_Detail = redact ''repository enrolled''\<rparr>]\<rparr>"

definition demo_plane :: "unit plane" where
  "demo_plane = \<lparr>cpl_Engine = demo_engine, cpl_Store = demo_repo,
     cpl_Runtimes = \<lparr>rm_adapters = Map.empty, rm_runtimes = Map.empty, rm_disk = Map.empty, rm_world = ()\<rparr>,
     cpl_Environment = \<lparr>em_gens = Map.empty, em_files = Map.empty\<rparr>, cpl_Events = sample_store,
     cpl_Replay = \<lparr>rc_max = defaultReplayEntries, rc_ttl = defaultReplayTTL, rc_entries = []\<rparr>,
     cpl_Operator = Some (AuthenticatedOperatorAuthority ''operator''), cpl_RepositoryID = sample_identity,
     cpl_FilesystemID = sample_identity, cpl_PrincipalID = ''agent'', cpl_Session = demo_session,
     cpl_TrustedRef = opaque ''ref_'' (replicate 16 (char_of (4::nat))), cpl_Workspaces = Map.empty, cpl_RuntimeMap = Map.empty,
     cpl_Processes = Map.empty, cpl_Verifications = [], cpl_Environments = Map.empty, cpl_Pending = Map.empty,
     cpl_Image = default_image, cpl_Env = (\<lambda>_. demo_env), cpl_Tick = 0\<rparr>"

lemma demo_session_opened:
  "plane_session demo_sys 1 (rnd16 4) (rnd16 1) (rnd16 2) Ctx_Live sample_principal demo_repo
   = Some (opaque ''ref_'' (replicate 16 (char_of (4::nat))), demo_session, demo_engine)"
proof -
  have v: "validID ''agent''" "validIdentity sample_identity" "validPrincipal 1 sample_principal" "\<not> hour \<le> 0"
    "\<not> 1000 * hour < 1 + 24 * hour" by code_simp+
  show ?thesis
    by (simp add: plane_session_def sample_engine_new EnrollRepository_def OpenAuthenticatedSession_def v demo_repo_def
        sample_principal_def [symmetric] appendAuditLocked_def Let_def rnd16_def)
       (simp add: sample_principal_def demo_session_def demo_engine_def demo_enrollment_def sample_engine_def demo_sys_def
        sample_sid_def sample_nonce_def v)
qed

lemma demo_plane_opened:
  "plane_Open demo_sys 1 (rnd16 4) (rnd16 1) (rnd16 2) (\<lambda>_. demo_env) Ctx_Live demo_config demo_parts = Some demo_plane"
proof -
  have v: "is_abs ''/live/repo''" "is_abs ''/state''" "clean ''/live/repo'' \<noteq> clean ''/state''" "is_abs ''/bin/container''" by code_simp+
  have r: "NewRequestReplayCache 0 0 = Inr \<lparr>rc_max = defaultReplayEntries, rc_ttl = defaultReplayTTL, rc_entries = []\<rparr>"
    by code_simp
  show ?thesis
    by (simp add: plane_Open_def demo_config_def demo_parts_def v r demo_session_opened del: One_nat_def)
       (simp add: demo_plane_def demo_repo_def sample_principal_def)
qed

text \<open>A request to run a program that is not on the list, and then one to read the workspace.\<close>

definition perl :: execution_spec where
  "perl = \<lparr>xs_Backend = ''apple-container'', xs_Executable = ''perl'', xs_Arguments = [], xs_CWD = ''/workspace'', xs_Environment = []\<rparr>"

definition demo_refused where
  "demo_refused = authorizeDecision demo_sys Ctx_Live CapabilityExecute TargetRuntime [] perl [] no_binding gen0 demo_plane"

definition demo_reading where
  "demo_reading = authorizeDecision demo_sys Ctx_Live CapabilityWorkspaceRead TargetTaskWorkspace [] no_execution [] no_binding gen0"

text \<open>What the plane asks with its nonce is accepted, whatever confirmations are stored.\<close>

lemma demo_next_call [simp]: "next_call demo_plane = demo_env" by (simp add: next_call_def demo_plane_def)

definition demo_with :: "(string \<rightharpoonup> confirmation) \<Rightarrow> unit plane" where
  "demo_with cfs = demo_plane\<lparr>cpl_Engine := demo_engine\<lparr>eng_confirmations := cfs\<rparr>\<rparr>"

lemma demo_with_none: "demo_with Map.empty = demo_plane"
  by (simp add: demo_with_def demo_plane_def demo_engine_def)

lemma demo_accepted:
  "nonce_accepted (cx_Now (next_call (demo_with cfs))) (cx_Random (next_call (demo_with cfs))) Ctx_Live
     (authority_request c t path ex token cb (demo_with cfs)) (authority_binding gen0 (demo_with cfs)) (cpl_Engine (demo_with cfs))"
proof -
  have h: "6 < 1 + 24 * hour" by code_simp
  have n: "sample_nonce \<noteq> []" "sample_identity \<noteq> []" by (simp_all add: sample_nonce_def opaque_def sample_identity_def)
  show ?thesis
    by (simp add: nonce_accepted_def demo_with_def next_call_def demo_plane_def demo_engine_def demo_session_def demo_enrollment_def
        demo_env_def authority_request_def authority_binding_def rnd16_def h n)
qed

lemma demo_compiles: "is_ok (Compile (eng_policy (cpl_Engine (demo_with cfs))) (authority_binding gen0 (demo_with cfs)))"
proof -
  have "is_ok (Compile defaultPolicy \<lparr>bd_RepositoryID = sample_identity, bd_FilesystemID = sample_identity,
      bd_LiveRepository = ''/live/repo'', bd_TaskWorkspace = ''/state/ws/gen_1'', bd_WorkspaceID = ''gen_1''\<rparr>)" by code_simp
  then show ?thesis
    by (simp add: demo_with_def demo_plane_def demo_engine_def authority_binding_def demo_repo_def gen0_def)
qed

lemma demo_reading_ok: "is_ok (fst (demo_reading demo_plane))"
proof -
  let ?r = "authority_request CapabilityWorkspaceRead TargetTaskWorkspace [] no_execution [] no_binding demo_plane"
  have 2: "rq_Capability ?r \<in> set (pol_Capabilities (eng_policy (cpl_Engine demo_plane)))"
    by (simp add: authority_request_def demo_plane_def demo_engine_def defaultPolicy_def)
  have 5: "requiredConfirmation (rq_Capability ?r) = ConfirmationNone" and 6: "\<not> needs_trusted_ref (rq_Capability ?r)"
    and 7: "rq_Capability ?r \<noteq> CapabilityExecute"
    by (simp_all add: authority_request_def requiredConfirmation_def needs_trusted_ref_def capability_defs)
  have "\<not> sameOrWithin ''/live/repo'' ''/state/ws/gen_1''" "\<not> sameOrWithin ''/state/ws/gen_1'' ''/live/repo''" by code_simp+
  then have 4: "validateTarget ?r (authority_binding gen0 demo_plane)"
    by (simp add: validateTarget_def authority_request_def authority_binding_def demo_plane_def demo_repo_def gen0_def
        capability_defs target_defs)
  note ok = accepted_ok [OF demo_accepted [of Map.empty, unfolded demo_with_none] 2
      demo_compiles [of Map.empty, unfolded demo_with_none] 4 disjI1 [OF 5] disjI1 [OF 6] 7, of "px_Sha demo_sys"]
  show ?thesis unfolding demo_reading_def
    by (cases demo_sys Ctx_Live CapabilityWorkspaceRead TargetTaskWorkspace "[]::string" no_execution "[]::string" no_binding
        gen0 demo_plane rule: authorizeDecision_cases) (use ok in \<open>simp_all add: decided_def\<close>)
qed

lemma demo_request_refused: "fst demo_refused = Inl PL_ErrRejected"
proof (cases demo_sys Ctx_Live CapabilityExecute TargetRuntime "[]::string" perl "[]::string" no_binding gen0 demo_plane
    rule: authorizeDecision_cases)
  case (allowed d en)
  have "\<not> is_ok (CompileExecution (pol_Execution defaultPolicy) perl)" by code_simp
  then show ?thesis
    using decision_policy(5) [OF allowed(1) [unfolded decided_def]]
    by (simp add: authority_request_def demo_plane_def demo_engine_def)
qed (simp add: demo_refused_def)

theorem plane_allows_only_policy_witness:
  "is_ok (fst (demo_reading demo_plane)) \<and> (\<exists>expiry. cx_Now (next_call demo_plane) < min expiry (1 + 24 * hour))"
proof -
  have ok: "is_ok (fst (demo_reading demo_plane))" by (rule demo_reading_ok)
  then obtain d p1 where d: "demo_reading demo_plane = (Inr d, p1)" by (metis is_ok_iff prod.collapse)
  have "plane_reach demo_sys demo_plane demo_plane" by (simp add: plane_reach_def)
  from plane_allows_only_policy [OF demo_plane_opened this d [unfolded demo_reading_def]] ok show ?thesis by blast
qed

lemma demo_wf: "engine_wf (cpl_Engine demo_plane)"
proof -
  obtain pr repo where sess: "plane_session demo_sys 1 (rnd16 4) (rnd16 1) (rnd16 2) Ctx_Live pr repo
      = Some (cpl_TrustedRef demo_plane, cpl_Session demo_plane, cpl_Engine demo_plane)"
    by (rule plane_Open_parts [OF demo_plane_opened])
  show ?thesis using plane_session_opened [OF sess] by (simp add: session_as_opened_def)
qed

theorem refused_request_locks_plane_witness:
  "is_ok (fst (demo_reading demo_plane)) \<and> fst demo_refused = Inl PL_ErrRejected
   \<and> fst (demo_reading (snd (WorkspaceStatus Ctx_Live ''gen_1'' (snd demo_refused)))) = Inl PL_ErrRejected"
proof -
  note ok = demo_reading_ok
  note refused = demo_request_refused
  then have p1: "demo_refused = (Inl PL_ErrRejected, snd demo_refused)" by (metis prod.collapse)
  note acc = demo_accepted [of Map.empty, unfolded demo_with_none]
  have "newOpaque ''nonce_'' (rnd16 9) \<noteq> Some sample_nonce" by code_simp
  then have fresh: "newOpaque ''nonce_'' (cx_Random (next_call demo_plane)) \<noteq> Some (ss_Nonce (cpl_Session demo_plane))"
    by (simp add: demo_env_def) (simp add: demo_plane_def demo_session_def)
  have reach: "plane_reach demo_sys (snd demo_refused) (snd (WorkspaceStatus Ctx_Live ''gen_1'' (snd demo_refused)))"
    unfolding plane_reach_def by (rule r_into_rtranclp, rule Step_Status)
  show ?thesis
    using ok refused refused_request_locks_plane [OF demo_wf acc fresh p1 [unfolded demo_refused_def], folded demo_refused_def, OF reach]
    by (simp add: demo_reading_def)
qed

text \<open>A publication that an operator has confirmed.\<close>

definition demo_claim :: confirmation_binding where
  "demo_claim = no_binding\<lparr>cb_SessionID := sample_sid\<rparr>"

definition demo_cfs :: "string \<rightharpoonup> confirmation" where
  "demo_cfs = [''tok'' \<mapsto> \<lparr>cf_Token = ''tok'', cf_Class = ConfirmationPublication, cf_Binding = demo_claim, cf_ExpiresAt = hour\<rparr>]"

definition demo_confirmed :: "unit plane" where
  "demo_confirmed = demo_with demo_cfs"

definition demo_publish where
  "demo_publish = authorizeWithBinding demo_sys Ctx_Live CapabilityPublish TargetLiveRepository ''tok'' demo_claim gen0"

lemma demo_publish_ok: "fst (demo_publish demo_confirmed) = Inr ()"
proof -
  let ?p = demo_confirmed
  let ?r = "authority_request CapabilityPublish TargetLiveRepository [] no_execution ''tok'' demo_claim ?p"
  have 2: "rq_Capability ?r \<in> set (pol_Capabilities (eng_policy (cpl_Engine ?p)))"
    by (simp add: authority_request_def demo_confirmed_def demo_with_def demo_plane_def demo_engine_def defaultPolicy_def)
  have h: "6 < hour" by code_simp
  have 5: "confirmation_matches (cx_Now (next_call ?p)) ?r (cpl_Engine ?p)"
    by (simp add: confirmation_matches_def authority_request_def demo_confirmed_def demo_cfs_def demo_with_def next_call_def demo_plane_def
        demo_session_def demo_env_def demo_claim_def requiredConfirmation_def capability_defs h)
  have 6: "validateTrustedRefLocked (px_Sha demo_sys) (rq_RepositoryID ?r) (rq_TrustedIntegrationRef ?r) (cpl_Engine ?p)"
    by (simp add: validateTrustedRefLocked_def authority_request_def demo_confirmed_def demo_with_def demo_plane_def
        demo_engine_def demo_enrollment_def demo_sys_def opaque_def)
  have 7: "rq_Capability ?r \<noteq> CapabilityExecute" by (simp add: authority_request_def capability_defs)
  have "\<not> sameOrWithin ''/live/repo'' ''/state/ws/gen_1''" "\<not> sameOrWithin ''/state/ws/gen_1'' ''/live/repo''" by code_simp+
  then have 4: "validateTarget ?r (authority_binding gen0 ?p)"
    by (simp add: validateTarget_def authority_request_def authority_binding_def demo_confirmed_def demo_with_def demo_plane_def
        demo_repo_def gen0_def capability_defs target_defs)
  note ok = accepted_ok [OF demo_accepted [of demo_cfs, folded demo_confirmed_def] 2 demo_compiles [of demo_cfs, folded demo_confirmed_def] 4
      disjI2 [OF 5] disjI2 [OF 6] 7]
  show ?thesis unfolding demo_publish_def
    by (cases demo_sys Ctx_Live CapabilityPublish TargetLiveRepository "[]::string" no_execution "''tok''" demo_claim
        gen0 ?p rule: authorizeDecision_cases)
      (use ok in \<open>auto simp: decided_def authorizeWithBinding_def pbind_def pret_def split: prod.splits\<close>)
qed

theorem confirmation_spent_once_witness:
  "fst (demo_publish demo_confirmed) = Inr () \<and> fst (demo_publish (snd (demo_publish demo_confirmed))) = Inl PL_ErrRejected"
proof -
  note ok = demo_publish_ok
  then have p1: "demo_publish demo_confirmed = (Inr (), snd (demo_publish demo_confirmed))" by (metis prod.collapse)
  have c: "requiredConfirmation CapabilityPublish \<noteq> ConfirmationNone" by code_simp
  have reach: "plane_reach demo_sys (snd (demo_publish demo_confirmed)) (snd (demo_publish demo_confirmed))" by (simp add: plane_reach_def)
  have tok: "newOpaque ''confirm_'' (cx_Random demo_env) \<noteq> Some ''tok''" by code_simp
  have "cpl_Env demo_plane = (\<lambda>_. demo_env)" by (simp add: demo_plane_def)
  then have "cpl_Env (snd (demo_publish demo_confirmed)) n = demo_env" for n
    by (simp add: demo_publish_def demo_confirmed_def demo_with_def)
  with tok have fresh: "newOpaque ''confirm_'' (cx_Random (cpl_Env (snd (demo_publish demo_confirmed)) n)) \<noteq> Some ''tok''" for n
    by simp
  show ?thesis
    using ok confirmation_spent_once [OF p1 [unfolded demo_publish_def] c, folded demo_publish_def, OF reach fresh c]
    by (simp add: demo_publish_def)
qed

end
