(* ===== verification/Go_Replace.thy ===== *)
theory Go_Replace
  imports Go_Paths
begin

section \<open>Replacing in texts (strings.ReplaceAll, regexp)\<close>

text \<open>
  The replacement of all matches of a pattern, as \<open>strings.ReplaceAll\<close> and the \<open>ReplaceAll\<close> functions of
  \<open>regexp\<close> do it, and what it does to the words of a text. The last part is on runes: an ASCII byte is a
  rune of its own wherever it stands.
\<close>

subsection \<open>Replacing from the left\<close>

text \<open>
  The leftmost match that is not empty is replaced and the search goes on after it. A matcher says how
  long the match at the head of a text is, if there is one; its first argument tells whether the head is
  the beginning of the whole text (\<open>^\<close>).
\<close>

type_synonym matcher = "bool \<Rightarrow> string \<Rightarrow> nat option"

function replace_scan :: "matcher \<Rightarrow> (string \<Rightarrow> string) \<Rightarrow> bool \<Rightarrow> string \<Rightarrow> string" where
  "replace_scan m r start [] = []"
| "replace_scan m r start (c # cs) =
    (case m start (c # cs) of
       Some (Suc n) \<Rightarrow> r (c # take n cs) @ replace_scan m r False (drop n cs)
     | _ \<Rightarrow> c # replace_scan m r False cs)"
  by pat_completeness auto
termination by (relation "measure (\<lambda>(m, r, start, s). length s)") auto

definition literal :: "string \<Rightarrow> matcher" where
  "literal old start s = (if prefix old s then Some (length old) else None)"

definition ReplaceAll :: "string \<Rightarrow> string \<Rightarrow> string \<Rightarrow> string" where
  "ReplaceAll s old new = replace_scan (literal old) (\<lambda>_. new) True s"

subsection \<open>What a replacement cannot bring back\<close>

lemma sublist_across:
  assumes "d \<notin> set w" and "sublist w (a @ d # b)"
  shows "sublist w a \<or> sublist w b"
proof -
  have "prefix u (d # b) \<Longrightarrow> set u \<subseteq> set w \<Longrightarrow> u = []" for u using assms(1) by (cases u) auto
  moreover from assms(2) have "sublist w a \<or> sublist w (d # b)
      \<or> (\<exists>u v. w = u @ v \<and> suffix u a \<and> prefix v (d # b))" by (simp add: sublist_append)
  ultimately show ?thesis
    using assms(1) by (auto simp: sublist_Cons_right) (metis append_Nil2 suffix_imp_sublist Un_upper2 set_append)
qed

text \<open>A replacement is a bracketed word after a part of what it replaces.\<close>

definition bracketed :: "(string \<Rightarrow> string) \<Rightarrow> string \<Rightarrow> bool" where
  "bracketed r w \<longleftrightarrow>
     w \<noteq> [] \<and> CHR ''['' \<notin> set w \<and> CHR '']'' \<notin> set w
     \<and> (\<forall>x. \<exists>pre mid. r x = pre @ CHR ''['' # mid @ [CHR '']''] \<and> prefix pre x \<and> \<not> sublist w mid)"

lemma bracketedE:
  assumes "bracketed r w"
  obtains pre mid where "r x = pre @ CHR ''['' # mid @ [CHR '']'']" "prefix pre x" "\<not> sublist w mid"
  using assms unfolding bracketed_def by blast

lemma bracketed_chars: "bracketed r w \<Longrightarrow> CHR ''['' \<notin> set w \<and> CHR '']'' \<notin> set w \<and> w \<noteq> []"
  by (simp add: bracketed_def)

lemma prefix_before: "d \<notin> set w \<Longrightarrow> prefix w (a @ d # b) \<Longrightarrow> prefix w a"
  by (induction a arbitrary: w) (auto simp: prefix_Cons)

lemma scan_match:
  "m start (c # cs) = Some (Suc n) \<Longrightarrow>
     replace_scan m r start (c # cs) = r (c # take n cs) @ replace_scan m r False (drop n cs)"
  by simp

lemma scan_step:
  "\<forall>n. m start (c # cs) \<noteq> Some (Suc n) \<Longrightarrow> replace_scan m r start (c # cs) = c # replace_scan m r False cs"
  by (auto split: option.split nat.split)

text \<open>The scan of a text, with the matcher fixed.\<close>

lemma scan_induct [case_names Nil match step]:
  assumes "\<And>start. P start []"
    and "\<And>start c cs n. m start (c # cs) = Some (Suc n) \<Longrightarrow> P False (drop n cs) \<Longrightarrow> P start (c # cs)"
    and "\<And>start c cs. \<forall>n. m start (c # cs) \<noteq> Some (Suc n) \<Longrightarrow> P False cs \<Longrightarrow> P start (c # cs)"
  shows "P start s"
proof (induction "length s" arbitrary: start s rule: less_induct)
  case less
  show ?case
  proof (cases s)
    case (Cons c cs)
    show ?thesis
    proof (cases "\<exists>n. m start (c # cs) = Some (Suc n)")
      case True
      then obtain n where "m start (c # cs) = Some (Suc n)" by blast
      moreover have "P False (drop n cs)" by (rule less) (simp add: Cons)
      ultimately show ?thesis unfolding Cons by (rule assms(2))
    next
      case False
      moreover have "P False cs" by (rule less) (simp add: Cons)
      ultimately show ?thesis unfolding Cons by (intro assms(3)) auto
    qed
  qed (simp add: assms(1))
qed

declare replace_scan.simps(2) [simp del]

lemma scan_prefix:
  assumes r: "\<And>x. \<exists>pre rest. r x = pre @ CHR ''['' # rest \<and> prefix pre x"
  shows "CHR ''['' \<notin> set w \<Longrightarrow> prefix w (replace_scan m r start s) \<Longrightarrow> prefix w s"
proof (induction start s arbitrary: w rule: scan_induct [where m = m])
  case (match start c cs n)
  obtain pre rest where r: "r (c # take n cs) = pre @ CHR ''['' # rest" "prefix pre (c # take n cs)"
    using r by blast
  have "prefix w pre"
    using match(4) prefix_before [OF match(3), of pre "rest @ replace_scan m r False (drop n cs)"]
    by (simp add: scan_match [of m, OF match(1)] r)
  also have "prefix pre (c # cs)"
    using r(2) take_is_prefix [of n cs] by (metis Cons_prefix_Cons prefix_order.trans)
  finally show ?case .
next
  case (step start c cs)
  then show ?case by (cases w) (auto simp: scan_step)
qed simp

lemma scan_sublist:
  assumes r: "bracketed r w"
  shows "sublist w (replace_scan m r start s) \<Longrightarrow> sublist w s"
proof (induction start s rule: scan_induct [where m = m])
  case (match start c cs n)
  obtain pre mid where x: "r (c # take n cs) = pre @ CHR ''['' # mid @ [CHR '']'']" "prefix pre (c # take n cs)"
      "\<not> sublist w mid"
    by (rule bracketedE [OF r])
  note ch = bracketed_chars [OF r]
  have "sublist w (pre @ CHR ''['' # mid @ CHR '']'' # replace_scan m r False (drop n cs))"
    using match(3) by (simp add: scan_match [of m, OF match(1)] x)
  then consider "sublist w pre" | "sublist w (replace_scan m r False (drop n cs))"
    using sublist_across ch x(3) by metis
  then show ?case
  proof cases
    case 1
    moreover have "prefix pre (c # cs)"
      using x(2) take_is_prefix [of n cs] by (metis Cons_prefix_Cons prefix_order.trans)
    ultimately show ?thesis by (meson prefix_imp_sublist sublist_order.order.trans)
  next
    case 2
    then have "sublist w (drop n cs)" by (rule match(2))
    then show ?thesis by (meson sublist_Cons_right sublist_drop sublist_order.order.trans)
  qed
next
  case (step start c cs)
  obtain pre mid where "\<And>x. \<exists>pre rest. r x = pre @ CHR ''['' # rest \<and> prefix pre x"
    using r unfolding bracketed_def by metis
  note pre = scan_prefix [OF this, of w]
  have "prefix w (replace_scan m r start (c # cs)) \<Longrightarrow> prefix w (c # cs)"
    using pre bracketed_chars [OF r] by blast
  then show ?case
    using step by (auto simp: scan_step sublist_Cons_right)
qed (use bracketed_chars [OF r] in simp)

text \<open>A text is gone that starts a match wherever it stands.\<close>

lemma pattern_gone:
  assumes r: "bracketed (\<lambda>_. new) p"
    and m: "\<And>start t. prefix p t \<Longrightarrow> \<exists>n. m start t = Some (Suc n)"
  shows "\<not> sublist p (replace_scan m (\<lambda>_. new) start s)"
proof (induction start s rule: scan_induct [where m = m])
  case Nil
  then show ?case using bracketed_chars [OF r] by simp
next
  case (match start c cs n)
  obtain pre mid where x: "new = pre @ CHR ''['' # mid @ [CHR '']'']" "prefix pre ([] :: string)" "\<not> sublist p mid"
    by (rule bracketedE [OF r])
  show ?case
  proof
    assume "sublist p (replace_scan m (\<lambda>_. new) start (c # cs))"
    then have "sublist p ([] @ CHR ''['' # mid @ CHR '']'' # replace_scan m (\<lambda>_. new) False (drop n cs))"
      using x by (simp add: scan_match [of m, OF match(1)])
    then show False using sublist_across bracketed_chars [OF r] x(3) match(2) by (metis sublist_Nil_right)
  qed
next
  case (step start c cs)
  have "\<not> prefix p (c # cs)" using step(1) m by blast
  moreover have "\<And>x :: string. \<exists>pre rest. new = pre @ CHR ''['' # rest \<and> prefix pre x"
    using r by (metis (no_types, lifting) Nil_prefix bracketed_def prefix_bot.bot_unique)
  ultimately have "\<not> prefix p (replace_scan m (\<lambda>_. new) start (c # cs))"
    using scan_prefix [of "\<lambda>_. new" p] bracketed_chars [OF r] by blast
  then show ?case
    using step(2) by (simp add: scan_step [of m, OF step(1)] sublist_Cons_right)
qed

text \<open>So a text that was searched for is gone.\<close>

lemma literal_gone:
  assumes r: "bracketed (\<lambda>_. new) p"
  shows "\<not> sublist p (replace_scan (literal p) (\<lambda>_. new) start s)"
  by (rule pattern_gone [OF r])
    (use bracketed_chars [OF r] in \<open>auto simp: literal_def neq_Nil_conv\<close>)

subsection \<open>Runes around an ASCII byte\<close>

lemma decode_rune_before_ascii:
  "byte a < 128 \<Longrightarrow> decode_rune (c # cs @ a # b) = decode_rune (c # cs)
     \<and> snd (decode_rune (c # cs)) \<le> Suc (length cs)"
proof -
  assume a: "byte a < 128"
  consider "byte c < 128" | "\<not> byte c < 128" "194 \<le> byte c" "byte c \<le> 223"
    | "\<not> byte c < 128" "\<not> byte c \<le> 223" "224 \<le> byte c" "byte c \<le> 239"
    | "\<not> byte c < 128" "\<not> byte c \<le> 223" "\<not> byte c \<le> 239" "240 \<le> byte c" "byte c \<le> 244"
    | "\<not> byte c < 128" "\<not> (194 \<le> byte c \<and> byte c \<le> 223)" "\<not> (224 \<le> byte c \<and> byte c \<le> 239)"
      "\<not> (240 \<le> byte c \<and> byte c \<le> 244)"
    by linarith
  then show ?thesis
  proof cases
    case 2
    then show ?thesis using a by (cases cs) (simp_all add: decode_rune.simps(2) in_byte_range_def)
  next
    case 3
    then show ?thesis using a
      by (cases cs; cases "tl cs"; cases b) (simp_all add: decode_rune.simps(2) in_byte_range_def Let_def)
  next
    case 4
    then show ?thesis using a
      by (cases cs; cases "tl cs"; cases "tl (tl cs)"; cases b; cases "tl b")
        (simp_all add: decode_rune.simps(2) in_byte_range_def Let_def)
  next
    case 5
    then have "decode_rune (c # t) = (rune_error, 1)" for t
      by (simp only: decode_rune.simps(2) Let_def if_False)
    then show ?thesis by simp
  qed simp
qed

lemma runes_before_ascii: "byte a < 128 \<Longrightarrow> runes (s @ a # b) = runes s @ (byte a, [a]) # runes b"
proof (induction s rule: runes.induct)
  case (2 c cs)
  note d = decode_rune_before_ascii [OF 2(2), of c cs b]
  have t: "take (snd (decode_rune (c # cs))) (c # cs @ a # b) = take (snd (decode_rune (c # cs))) (c # cs)"
    "drop (snd (decode_rune (c # cs))) (c # cs @ a # b) = drop (snd (decode_rune (c # cs))) (c # cs) @ a # b"
    using d by (simp_all add: take_Cons' drop_Cons')
  show ?case using 2(1) [OF refl 2(2)] d by (simp add: Let_def t)
qed simp

end
