(* ===== verification/Memory_Store.thy ===== *)
theory Memory_Store
  imports Security_Policy Go_Replace Record_Codec "HOL-Library.Product_Lexorder"
begin

section \<open>The memory store (internal/memory/store.go)\<close>

text \<open>
  An append-only store of entries in SQLite with a full-text index. The database is a table of rows, an
  index, and the counter of \<open>AUTOINCREMENT\<close>; whether a text matches a query of the index and how it ranks
  are parameters, and so are the hash and the format of times. The outcomes of the statements are
  arguments. The theory shows that a client's query reaches the index as a conjunction of literal
  words, that the store only grows, and that what was appended is found.
\<close>

subsection \<open>Data\<close>

definition mem_maxQueryBytes :: nat where "mem_maxQueryBytes = 512"
definition maxContentBytes :: nat where "maxContentBytes = 1048576"
definition maxSearchLimit :: int where "maxSearchLimit = 100"

datatype mem_error = Mem_Rejected

record mem_entry =
  me_ID :: string
  me_RepositoryID :: string
  me_Content :: string
  me_CreatedAt :: instant

record mem_row =
  mr_rowid :: nat
  mr_ID :: string
  mr_RepositoryID :: string
  mr_Content :: string
  mr_CreatedAt :: string

record memory_db =
  md_rows :: "mem_row list"
  md_fts :: "(nat \<times> string) list"
  md_sequence :: nat

record memory_store =
  mm_open :: bool
  mm_db :: memory_db

definition empty_memory :: memory_db where
  "empty_memory = \<lparr>md_rows = [], md_fts = [], md_sequence = 0\<rparr>"

subsection \<open>Validation\<close>

definition mem_validIdentity :: "string \<Rightarrow> bool" where
  "mem_validIdentity v \<longleftrightarrow> length v = 64 \<and> utf8_valid v \<and> list_all (\<lambda>c. c \<in> set ''0123456789abcdef'') v"

definition mem_validContent :: "string \<Rightarrow> bool" where
  "mem_validContent v \<longleftrightarrow> v \<noteq> [] \<and> length v \<le> maxContentBytes \<and> utf8_valid v \<and> NUL \<notin> set v"

definition mem_validQuery :: "string \<Rightarrow> bool" where
  "mem_validQuery v \<longleftrightarrow> v \<noteq> [] \<and> length v \<le> mem_maxQueryBytes \<and> utf8_valid v \<and> NUL \<notin> set v \<and> trim_space v \<noteq> []"

definition dquote :: char where "dquote = CHR 0x22"

definition quoteQuery :: "string \<Rightarrow> string" where
  "quoteQuery query =
     join_with '' AND ''
       (map (\<lambda>part. [dquote] @ ReplaceAll part [dquote] [dquote, dquote] @ [dquote]) (Go_Strings.fields query))"

definition newMemoryID :: "(string \<Rightarrow> string) \<Rightarrow> string option \<Rightarrow> string option" where
  "newMemoryID sha random = map_option (\<lambda>data. ''mem_'' @ hex_encode (take 16 (sha data))) random"

subsection \<open>Opening and closing\<close>

text \<open>
  The steps of \<open>Open\<close> and of \<open>initialize\<close>: \<open>ok n\<close> is the outcome of the \<open>n\<close>-th one. The file is created when
  it is absent; the migration creates what does not exist, so it keeps a database that is there.
\<close>

definition mem_initialize :: "(nat \<Rightarrow> bool) \<Rightarrow> string \<Rightarrow> string \<Rightarrow> memory_db slot \<Rightarrow> memory_db option" where
  "mem_initialize ok mode integrity f =
    (if \<not> ok 6 then None
     else if \<not> ok 7 \<or> to_lower mode \<noteq> ''wal'' then None
     else if \<not> ok 8 then None
     else if \<not> ok 9 then None
     else if \<not> ok 10 then None
     else if \<not> ok 11 then None
     else if \<not> ok 12 \<or> integrity \<noteq> ''ok'' then None
     else (case f of Slot_Absent \<Rightarrow> Some empty_memory | Slot_Has db \<Rightarrow> Some db | Slot_Corrupt \<Rightarrow> None))"

definition memory_Open ::
  "(nat \<Rightarrow> bool) \<Rightarrow> string \<Rightarrow> string \<Rightarrow> string \<Rightarrow> memory_db slot \<Rightarrow> mem_error + memory_store" where
  "memory_Open ok mode integrity path f =
    (if path = [] \<or> \<not> is_abs path then Inl Mem_Rejected
     else if \<not> ok 0 \<or> \<not> ok 1 \<or> \<not> ok 2 \<or> \<not> ok 3 \<or> \<not> ok 4 \<or> \<not> ok 5 then Inl Mem_Rejected
     else (case mem_initialize ok mode integrity f of
             None \<Rightarrow> Inl Mem_Rejected
           | Some db \<Rightarrow> Inr \<lparr>mm_open = True, mm_db = db\<rparr>))"

definition memory_Close :: "memory_store \<Rightarrow> memory_store" where
  "memory_Close s = s\<lparr>mm_open := False\<rparr>"

subsection \<open>Appending\<close>

text \<open>The world of one \<open>Append\<close>: the random bytes, the clock, the outcomes of the transaction's steps (begin,
  insert, select, index, rows affected), and the outcome of the commit.\<close>

record append_world =
  aw_random :: "string option"
  aw_now :: instant
  aw_ok :: "nat \<Rightarrow> bool"
  aw_commit :: write_outcome

definition insert_entry :: "mem_row \<Rightarrow> memory_db \<Rightarrow> memory_db option" where
  "insert_entry r db =
    (if mr_ID r \<in> set (map mr_ID (md_rows db)) then None
     else Some (db\<lparr>md_rows := md_rows db @ [r], md_sequence := mr_rowid r\<rparr>))"

definition index_entry :: "nat \<Rightarrow> string \<Rightarrow> memory_db \<Rightarrow> memory_db" where
  "index_entry rowid content db = db\<lparr>md_fts := md_fts db @ [(rowid, content)]\<rparr>"

definition memory_Append ::
  "(string \<Rightarrow> string) \<Rightarrow> (instant \<Rightarrow> string) \<Rightarrow> go_ctx \<Rightarrow> string \<Rightarrow> string \<Rightarrow> append_world \<Rightarrow> memory_store
     \<Rightarrow> (mem_error + mem_entry) \<times> memory_store" where
  "memory_Append sha fmt ctx repositoryID content w s =
    (if ctx = Ctx_Nil \<or> \<not> mm_open s \<or> \<not> mem_validIdentity repositoryID \<or> \<not> mem_validContent content
     then (Inl Mem_Rejected, s)
     else (case newMemoryID sha (aw_random w) of
             None \<Rightarrow> (Inl Mem_Rejected, s)
           | Some i \<Rightarrow>
               (let e = \<lparr>me_ID = i, me_RepositoryID = repositoryID, me_Content = content, me_CreatedAt = aw_now w\<rparr>;
                    r = \<lparr>mr_rowid = md_sequence (mm_db s) + 1, mr_ID = i, mr_RepositoryID = repositoryID,
                         mr_Content = content, mr_CreatedAt = fmt (aw_now w)\<rparr>
                in if \<not> aw_ok w 0 \<or> \<not> aw_ok w 1 then (Inl Mem_Rejected, s)
                   else (case insert_entry r (mm_db s) of
                           None \<Rightarrow> (Inl Mem_Rejected, s)
                         | Some db1 \<Rightarrow>
                             if \<not> aw_ok w 2 \<or> \<not> aw_ok w 3 \<or> \<not> aw_ok w 4 then (Inl Mem_Rejected, s)
                             else (let db2 = index_entry (mr_rowid r) content db1
                                   in case aw_commit w of
                                        W_Failed \<Rightarrow> (Inl Mem_Rejected, s)
                                      | W_Unsynced \<Rightarrow> (Inl Mem_Rejected, s\<lparr>mm_db := db2\<rparr>)
                                      | W_Done \<Rightarrow> (Inr e, s\<lparr>mm_db := db2\<rparr>))))))"

subsection \<open>Searching\<close>

text \<open>The join of the index and the table, in the order of the query.\<close>

definition joined :: "(string \<Rightarrow> string \<Rightarrow> bool) \<Rightarrow> string \<Rightarrow> string \<Rightarrow> memory_db \<Rightarrow> mem_row list" where
  "joined matches repositoryID q db =
     concat (map (\<lambda>(rowid, content).
        if matches q content then filter (\<lambda>r. mr_rowid r = rowid \<and> mr_RepositoryID r = repositoryID) (md_rows db) else [])
       (md_fts db))"

definition scan_row :: "(string \<Rightarrow> instant option) \<Rightarrow> mem_row \<Rightarrow> mem_entry option" where
  "scan_row parse r =
     map_option (\<lambda>t. \<lparr>me_ID = mr_ID r, me_RepositoryID = mr_RepositoryID r, me_Content = mr_Content r, me_CreatedAt = t\<rparr>)
       (parse (mr_CreatedAt r))"

fun scan_rows :: "(string \<Rightarrow> instant option) \<Rightarrow> (mem_row \<Rightarrow> 'r) \<Rightarrow> mem_row list \<Rightarrow> (mem_entry \<times> 'r) list option" where
  "scan_rows parse rank [] = Some []"
| "scan_rows parse rank (r # rs) =
    (case scan_row parse r of
       None \<Rightarrow> None
     | Some e \<Rightarrow> map_option (Cons (e, rank r)) (scan_rows parse rank rs))"

definition memory_Search ::
  "(string \<Rightarrow> instant option) \<Rightarrow> (string \<Rightarrow> string \<Rightarrow> bool) \<Rightarrow> (memory_db \<Rightarrow> string \<Rightarrow> nat \<Rightarrow> 'r :: linorder) \<Rightarrow> bool
     \<Rightarrow> go_ctx \<Rightarrow> string \<Rightarrow> string \<Rightarrow> int \<Rightarrow> memory_store \<Rightarrow> mem_error + (mem_entry \<times> 'r) list" where
  "memory_Search parse matches bm25 readable ctx repositoryID query limit s =
    (if ctx = Ctx_Nil \<or> \<not> mm_open s \<or> \<not> mem_validIdentity repositoryID \<or> \<not> mem_validQuery query
        \<or> limit \<le> 0 \<or> maxSearchLimit < limit
     then Inl Mem_Rejected
     else if ctx_err ctx \<or> \<not> readable then Inl Mem_Rejected
     else (let q = quoteQuery query;
               rank = (\<lambda>r. bm25 (mm_db s) q (mr_rowid r));
               rows = take (nat limit) (sort_key (\<lambda>r. (rank r, mr_CreatedAt r, mr_ID r)) (joined matches repositoryID q (mm_db s)))
           in case scan_rows parse rank rows of None \<Rightarrow> Inl Mem_Rejected | Some res \<Rightarrow> Inr res))"

subsection \<open>The query language of the index\<close>

text \<open>
  A reader of the part of the language of FTS5 queries that the store produces, written from its
  documentation: a string stands in double quotes, a quote inside it is doubled, and \<open>AND\<close> stands
  between strings.
\<close>

fun fts_string :: "string \<Rightarrow> (string \<times> string) option" where
  "fts_string [] = None"
| "fts_string (c # cs) =
    (if c = dquote
     then (case cs of
             d # ds \<Rightarrow> if d = dquote then map_option (\<lambda>(w, rest). (dquote # w, rest)) (fts_string ds) else Some ([], cs)
           | [] \<Rightarrow> Some ([], []))
     else map_option (\<lambda>(w, rest). (c # w, rest)) (fts_string cs))"

lemma fts_string_shorter: "fts_string s = Some (w, rest) \<Longrightarrow> length rest < length s"
  by (induction s arbitrary: w rest rule: fts_string.induct) (force split: if_splits list.splits)+

function fts_and :: "string \<Rightarrow> string list option" where
  "fts_and s =
    (case s of
       [] \<Rightarrow> None
     | c # cs \<Rightarrow>
         if c \<noteq> dquote then None
         else (case fts_string cs of
                 None \<Rightarrow> None
               | Some (w, rest) \<Rightarrow>
                   if rest = [] then Some [w]
                   else if prefix '' AND '' rest then map_option (Cons w) (fts_and (drop 5 rest))
                   else None))"
  by pat_completeness auto
termination
  by (relation "measure length") (auto dest: fts_string_shorter)

declare fts_and.simps [simp del]

definition double_quotes :: "string \<Rightarrow> string" where
  "double_quotes s = concat (map (\<lambda>c. if c = dquote then [dquote, dquote] else [c]) s)"

lemma ReplaceAll_quotes: "ReplaceAll s [dquote] [dquote, dquote] = double_quotes s"
proof -
  have "replace_scan (literal [dquote]) (\<lambda>_. [dquote, dquote]) start s = double_quotes s" for start
    by (induction s arbitrary: start) (auto simp: double_quotes_def replace_scan.simps literal_def)
  then show ?thesis by (simp add: ReplaceAll_def)
qed

lemma fts_string_quoted:
  "rest = [] \<or> hd rest \<noteq> dquote \<Longrightarrow> fts_string (double_quotes w @ dquote # rest) = Some (w, rest)"
proof (induction w)
  case Nil
  then show ?case by (cases rest) (auto simp: double_quotes_def)
next
  case (Cons c w)
  then show ?case by (auto simp: double_quotes_def)
qed

lemma fts_and_quoted:
  "ws \<noteq> [] \<Longrightarrow> fts_and (join_with '' AND '' (map (\<lambda>w. dquote # double_quotes w @ [dquote]) ws)) = Some ws"
proof (induction ws)
  case (Cons w ws)
  show ?case
  proof (cases ws)
    case Nil
    then show ?thesis using fts_string_quoted [of "[]" w] by (subst fts_and.simps) simp
  next
    case (Cons v vs)
    let ?rest = "'' AND '' @ join_with '' AND '' (map (\<lambda>w. dquote # double_quotes w @ [dquote]) ws)"
    have "fts_string (double_quotes w @ dquote # ?rest) = Some (w, ?rest)"
      by (rule fts_string_quoted) (simp add: dquote_def)
    then show ?thesis
      using Cons.IH Cons by (subst fts_and.simps) (simp add: Cons)
  qed
qed simp

lemma runes_nonempty: "p \<in> set (runes s) \<Longrightarrow> snd p \<noteq> []"
proof (induction s rule: runes.induct)
  case (2 c cs)
  then show ?case using decode_rune_width [of c cs] by (auto simp: Let_def)
qed simp

lemma fields_aux_some:
  "w \<noteq> [] \<or> (\<exists>p \<in> set ps. \<not> is_space_rune (fst p) \<and> snd p \<noteq> []) \<Longrightarrow> fields_aux w ps \<noteq> []"
proof (induction w ps rule: fields_aux.induct)
  case (2 w p ps)
  then show ?case by (cases "is_space_rune (fst p)"; cases "w = []"; cases "snd p = []") auto
qed auto

lemma fields_some:
  assumes "trim_space v \<noteq> []"
  shows "Go_Strings.fields v \<noteq> []"
proof -
  have "\<exists>p \<in> set (runes v). \<not> is_space_rune (fst p)"
  proof (rule ccontr)
    assume "\<not> (\<exists>p \<in> set (runes v). \<not> is_space_rune (fst p))"
    then have "dropWhile (\<lambda>p. is_space_rune (fst p)) (runes v) = []" by (simp add: dropWhile_eq_Nil_conv)
    then have "trim_space v = []" unfolding trim_space_def Let_def by (simp only:) simp
    then show False using assms by simp
  qed
  then show ?thesis unfolding Go_Strings.fields_def using runes_nonempty by (intro fields_aux_some) blast
qed

text \<open>C39: A query reaches the index as what it says. Whatever a client sends, the index reads it as the
  conjunction of the query's words, each a literal string with its quotes kept, and never as another
  operator of its query language.\<close>

theorem query_is_literal:
  assumes "mem_validQuery query"
  shows "fts_and (quoteQuery query) = Some (Go_Strings.fields query) \<and> Go_Strings.fields query \<noteq> []"
proof -
  have "Go_Strings.fields query \<noteq> []" using assms fields_some by (simp add: mem_validQuery_def)
  then show ?thesis by (simp add: quoteQuery_def ReplaceAll_quotes fts_and_quoted)
qed

lemma query_is_literal_witness:
  "mem_validQuery ''a\" OR  content:b*''
   \<and> fts_and (quoteQuery ''a\" OR  content:b*'') = Some [''a\"'', ''OR'', ''content:b*'']"
proof -
  have v: "mem_validQuery ''a\" OR  content:b*''" by code_simp
  have "Go_Strings.fields ''a\" OR  content:b*'' = [''a\"'', ''OR'', ''content:b*'']" by code_simp
  then show ?thesis using query_is_literal [OF v] v by simp
qed

subsection \<open>The table and its index\<close>

definition memory_inv :: "(instant \<Rightarrow> string) \<Rightarrow> memory_db \<Rightarrow> bool" where
  "memory_inv fmt db \<longleftrightarrow>
     sorted_wrt (<) (map mr_rowid (md_rows db)) \<and> list_all (\<lambda>r. mr_rowid r \<le> md_sequence db) (md_rows db)
     \<and> distinct (map mr_ID (md_rows db)) \<and> md_fts db = map (\<lambda>r. (mr_rowid r, mr_Content r)) (md_rows db)
     \<and> list_all (\<lambda>r. mem_validIdentity (mr_RepositoryID r) \<and> mem_validContent (mr_Content r)
           \<and> mr_CreatedAt r \<in> fmt ` Collect rfc3339_instant) (md_rows db)"

definition append_run ::
  "(string \<Rightarrow> string) \<Rightarrow> (instant \<Rightarrow> string) \<Rightarrow> (go_ctx \<times> string \<times> string \<times> append_world) list \<Rightarrow> memory_store \<Rightarrow> memory_store"
where
  "append_run sha fmt ops s = foldl (\<lambda>s (ctx, repo, content, w). snd (memory_Append sha fmt ctx repo content w s)) s ops"

definition row_for_entry :: "(instant \<Rightarrow> string) \<Rightarrow> nat \<Rightarrow> mem_entry \<Rightarrow> mem_row" where
  "row_for_entry fmt n e =
     \<lparr>mr_rowid = n, mr_ID = me_ID e, mr_RepositoryID = me_RepositoryID e, mr_Content = me_Content e,
      mr_CreatedAt = fmt (me_CreatedAt e)\<rparr>"

text \<open>An append changes nothing, or adds one row with the next number and its line of the index.\<close>

lemma memory_Append_cases:
  assumes "memory_Append sha fmt ctx repo content w s = (r, s')"
  obtains (none) e where "r = Inl e" "s' = s"
  | (added) e n where "n = md_sequence (mm_db s) + 1" "me_RepositoryID e = repo" "me_Content e = content"
      "me_CreatedAt e = aw_now w" "mem_validIdentity repo" "mem_validContent content"
      "me_ID e \<notin> set (map mr_ID (md_rows (mm_db s)))" "r = Inr e \<or> r = Inl Mem_Rejected" "mm_open s"
      "s' = s\<lparr>mm_db := \<lparr>md_rows = md_rows (mm_db s) @ [row_for_entry fmt n e],
                          md_fts = md_fts (mm_db s) @ [(n, content)], md_sequence = n\<rparr>\<rparr>"
proof (cases "s' = s \<and> (\<exists>e. r = Inl e)")
  case True
  then show ?thesis using none by blast
next
  case False
  have g: "\<not> (ctx = Ctx_Nil \<or> \<not> mm_open s \<or> \<not> mem_validIdentity repo \<or> \<not> mem_validContent content)"
    using assms False by (auto simp: memory_Append_def split: if_splits)
  obtain i where i: "newMemoryID sha (aw_random w) = Some i"
    using assms False by (cases "newMemoryID sha (aw_random w)") (auto simp: memory_Append_def split: if_splits)
  let ?e = "\<lparr>me_ID = i, me_RepositoryID = repo, me_Content = content, me_CreatedAt = aw_now w\<rparr>"
  let ?n = "md_sequence (mm_db s) + 1"
  have new: "i \<notin> set (map mr_ID (md_rows (mm_db s)))"
    using assms False g by (auto simp: memory_Append_def i Let_def insert_entry_def split: if_splits)
  have ok: "aw_ok w 0 \<and> aw_ok w 1 \<and> aw_ok w 2 \<and> aw_ok w 3 \<and> aw_ok w 4" "aw_commit w \<noteq> W_Failed"
    using assms False g new by (auto simp: memory_Append_def i Let_def insert_entry_def split: if_splits)
  have "s' = s\<lparr>mm_db := \<lparr>md_rows = md_rows (mm_db s) @ [row_for_entry fmt ?n ?e],
                          md_fts = md_fts (mm_db s) @ [(?n, content)], md_sequence = ?n\<rparr>\<rparr>
      \<and> (r = Inr ?e \<or> r = Inl Mem_Rejected)"
    using assms g new ok
    by (cases "aw_commit w") (auto simp: memory_Append_def i Let_def insert_entry_def index_entry_def row_for_entry_def)
  then show ?thesis using g new by (intro added [of ?n ?e]) simp_all
qed

lemma memory_Append_inv:
  assumes "memory_inv fmt (mm_db s)" and "rfc3339_instant (aw_now w)"
  shows "memory_inv fmt (mm_db (snd (memory_Append sha fmt ctx repo content w s)))
    \<and> prefix (md_rows (mm_db s)) (md_rows (mm_db (snd (memory_Append sha fmt ctx repo content w s))))"
proof -
  obtain r s' where rs: "memory_Append sha fmt ctx repo content w s = (r, s')" by fastforce
  then show ?thesis
  proof (cases rule: memory_Append_cases)
    case (added e n)
    then show ?thesis
      using assms rs by (fastforce simp: memory_inv_def sorted_wrt_append row_for_entry_def list_all_iff)
  qed (use assms rs in simp)
qed

text \<open>The clock of every later append stands in the years that a time layout can write.\<close>

definition clocks_ok :: "(go_ctx \<times> string \<times> string \<times> append_world) list \<Rightarrow> bool" where
  "clocks_ok ops \<longleftrightarrow> list_all (\<lambda>(ctx, repo, content, w). rfc3339_instant (aw_now w)) ops"

lemma append_run_inv:
  "memory_inv fmt (mm_db s) \<Longrightarrow> clocks_ok ops \<Longrightarrow>
     memory_inv fmt (mm_db (append_run sha fmt ops s)) \<and> prefix (md_rows (mm_db s)) (md_rows (mm_db (append_run sha fmt ops s)))"
proof (induction ops arbitrary: s)
  case (Cons op ops)
  obtain ctx repo content w where op: "op = (ctx, repo, content, w)" by (cases op)
  have w: "rfc3339_instant (aw_now w)" and ops: "clocks_ok ops" using Cons.prems(2) by (simp_all add: clocks_ok_def op)
  note one = memory_Append_inv [OF Cons.prems(1) w, of sha ctx repo content]
  show ?case
    using Cons.IH [OF conjunct1 [OF one] ops] one
    by (auto simp: append_run_def op intro: prefix_order.trans)
qed (simp add: append_run_def)

lemma joined_filter:
  assumes "memory_inv fmt db"
  shows "joined matches repo q db = filter (\<lambda>r. mr_RepositoryID r = repo \<and> matches q (mr_Content r)) (md_rows db)"
proof -
  have d: "distinct (map mr_rowid (md_rows db))"
    using assms by (simp add: memory_inv_def strict_sorted_iff)
  have one: "filter (\<lambda>r'. mr_rowid r' = mr_rowid r \<and> P r') rs = (if P r then [r] else [])"
    if "distinct (map mr_rowid rs)" "r \<in> set rs" for r rs and P :: "mem_row \<Rightarrow> bool"
    using that by (induction rs) (auto simp: filter_empty_conv, (metis imageI)+)
  have singles: "concat (map (\<lambda>r. if P r \<and> Q r then [r] else []) rs) = filter (\<lambda>r. Q r \<and> P r) rs"
    for P Q and rs :: "mem_row list"
    by (induction rs) auto
  have "joined matches repo q db = concat (map (\<lambda>r. if matches q (mr_Content r) \<and> mr_RepositoryID r = repo then [r] else []) (md_rows db))"
    using assms unfolding joined_def memory_inv_def
    by (auto simp: one [OF d] comp_def intro!: arg_cong [of _ _ concat])
  also have "\<dots> = filter (\<lambda>r. mr_RepositoryID r = repo \<and> matches q (mr_Content r)) (md_rows db)"
    by (simp add: singles)
  finally show ?thesis .
qed

subsection \<open>What a search finds\<close>

lemma scan_rows_exact:
  assumes "\<And>t. rfc3339_instant t \<Longrightarrow> parse (fmt t) = Some t"
  shows "list_all (\<lambda>r. mr_CreatedAt r \<in> fmt ` Collect rfc3339_instant) rows \<Longrightarrow>
    \<exists>es. scan_rows parse rank rows = Some (map2 Pair es (map rank rows)) \<and> length es = length rows
      \<and> list_all2 (\<lambda>e r. r = row_for_entry fmt (mr_rowid r) e \<and> rfc3339_instant (me_CreatedAt e)) es rows"
proof (induction rows)
  case (Cons r rows)
  then obtain es where es: "scan_rows parse rank rows = Some (map2 Pair es (map rank rows))" "length es = length rows"
    "list_all2 (\<lambda>e r. r = row_for_entry fmt (mr_rowid r) e \<and> rfc3339_instant (me_CreatedAt e)) es rows" by auto
  from Cons.prems obtain t where t: "mr_CreatedAt r = fmt t" "rfc3339_instant t" by auto
  let ?e = "\<lparr>me_ID = mr_ID r, me_RepositoryID = mr_RepositoryID r, me_Content = mr_Content r, me_CreatedAt = t\<rparr>"
  have "scan_row parse r = Some ?e" by (simp add: scan_row_def t assms)
  moreover have "r = row_for_entry fmt (mr_rowid r) ?e" by (simp add: row_for_entry_def t(1) [symmetric])
  ultimately show ?case using es t(2) by (intro exI [of _ "?e # es"]) simp
qed simp

text \<open>The rows a search returns.\<close>

definition search_rows ::
  "(string \<Rightarrow> string \<Rightarrow> bool) \<Rightarrow> (memory_db \<Rightarrow> string \<Rightarrow> nat \<Rightarrow> 'r :: linorder) \<Rightarrow> string \<Rightarrow> string \<Rightarrow> memory_db \<Rightarrow> mem_row list"
where
  "search_rows matches bm25 repo q db =
     sort_key (\<lambda>r. (bm25 db q (mr_rowid r), mr_CreatedAt r, mr_ID r))
       (filter (\<lambda>r. mr_RepositoryID r = repo \<and> matches q (mr_Content r)) (md_rows db))"

lemma memory_Search_rows:
  assumes inv: "memory_inv fmt (mm_db s)" and codec: "\<And>t. rfc3339_instant t \<Longrightarrow> parse (fmt t) = Some t"
    and res: "memory_Search parse matches bm25 readable ctx repo query limit s = Inr res"
  shows "length res = min (nat limit) (length (search_rows matches bm25 repo (quoteQuery query) (mm_db s)))
    \<and> list_all2 (\<lambda>e r. r = row_for_entry fmt (mr_rowid r) e \<and> rfc3339_instant (me_CreatedAt e)) (map fst res)
        (take (nat limit) (search_rows matches bm25 repo (quoteQuery query) (mm_db s)))"
proof -
  let ?rows = "take (nat limit) (search_rows matches bm25 repo (quoteQuery query) (mm_db s))"
  let ?rank = "\<lambda>r. bm25 (mm_db s) (quoteQuery query) (mr_rowid r)"
  have "set ?rows \<subseteq> set (md_rows (mm_db s))"
    by (auto simp: search_rows_def dest: in_set_takeD)
  then have "list_all (\<lambda>r. mr_CreatedAt r \<in> fmt ` Collect rfc3339_instant) ?rows"
    using inv by (auto simp: memory_inv_def list_all_iff)
  from scan_rows_exact [OF codec this, of ?rank] obtain es where
    es: "scan_rows parse ?rank ?rows = Some (map2 Pair es (map ?rank ?rows))" "length es = length ?rows"
      "list_all2 (\<lambda>e r. r = row_for_entry fmt (mr_rowid r) e \<and> rfc3339_instant (me_CreatedAt e)) es ?rows" by blast
  have "res = map2 Pair es (map ?rank ?rows)"
    using res es(1) joined_filter [OF inv]
    by (auto simp: memory_Search_def Let_def search_rows_def split: if_splits option.splits)
  then show ?thesis using es(2,3) by (simp add: map_fst_zip)
qed

lemma row_for_entry_inj:
  assumes "\<And>t. rfc3339_instant t \<Longrightarrow> parse (fmt t) = Some t" and "row_for_entry fmt a x = row_for_entry fmt b y"
    and "rfc3339_instant (me_CreatedAt x)" and "rfc3339_instant (me_CreatedAt y)"
  shows "x = y"
proof -
  have "fmt (me_CreatedAt x) = fmt (me_CreatedAt y)" using assms(2) by (simp add: row_for_entry_def)
  then have "Some (me_CreatedAt x) = Some (me_CreatedAt y)" using assms(1) [OF assms(3)] assms(1) [OF assms(4)] by metis
  then show ?thesis using assms(2) by (intro mem_entry.equality) (simp_all add: row_for_entry_def)
qed

text \<open>C38: What was appended is found. After an append that returned an entry, whatever is appended later and
  whichever of those appends fail, a search of the same repository whose query the content matches
  returns that very entry, or as many matches as the limit allows (and then the entry may be missing); and
  a search returns nothing of another repository and no entry that does not match. The clock of every
  append stands between the years 1 and 9999, where the time layout reads back what it wrote.\<close>

theorem memory_recalls:
  assumes "memory_inv fmt (mm_db s)" and codec: "\<And>t. rfc3339_instant t \<Longrightarrow> parse (fmt t) = Some t"
    and "memory_Append sha fmt ctx repo content w s = (Inr e, s1)"
    and "memory_Search parse matches bm25 readable ctx' repo query limit (append_run sha fmt later s1) = Inr res"
    and "matches (quoteQuery query) content" and "rfc3339_instant (aw_now w)" and "clocks_ok later"
  shows "me_RepositoryID e = repo \<and> me_Content e = content
    \<and> (e \<in> set (map fst res) \<or> length res = nat limit)
    \<and> list_all (\<lambda>(x, rank). me_RepositoryID x = repo \<and> matches (quoteQuery query) (me_Content x)) res"
  using assms(3)
proof (cases rule: memory_Append_cases)
  case (added e' n)
  let ?s = "append_run sha fmt later s1"
  let ?rows = "search_rows matches bm25 repo (quoteQuery query) (mm_db ?s)"
  have e: "e' = e" using added by simp
  have inv1: "memory_inv fmt (mm_db s1)" using memory_Append_inv [OF assms(1,6)] assms(3) by (metis snd_conv)
  note inv = append_run_inv [OF inv1 assms(7), of sha]
  note rows = memory_Search_rows [OF conjunct1 [OF inv] codec assms(4)]
  have mem: "row_for_entry fmt n e \<in> set ?rows"
    using set_mono_prefix [OF conjunct2 [OF inv]] added assms(5)
    by (auto simp: e search_rows_def row_for_entry_def)
  have now: "rfc3339_instant (me_CreatedAt e)" using added assms(6) by (simp add: e)
  have same: "row_for_entry fmt a x = row_for_entry fmt b e \<Longrightarrow> rfc3339_instant (me_CreatedAt x) \<Longrightarrow> x = e" for a b x
    using row_for_entry_inj [OF codec] now by blast
  have "e \<in> set (map fst res) \<or> length res = nat limit"
  proof (cases "length ?rows \<le> nat limit")
    case True
    then have l: "list_all2 (\<lambda>x r. r = row_for_entry fmt (mr_rowid r) x \<and> rfc3339_instant (me_CreatedAt x)) (map fst res) ?rows"
      using rows by simp
    from mem obtain i where i: "i < length ?rows" "?rows ! i = row_for_entry fmt n e" by (metis in_set_conv_nth)
    have r: "?rows ! i = row_for_entry fmt (mr_rowid (?rows ! i)) (map fst res ! i) \<and> rfc3339_instant (me_CreatedAt (map fst res ! i))"
      using list_all2_nthD2 [OF l i(1)] .
    have "map fst res ! i = e" by (rule same [OF trans [OF conjunct1 [OF r, symmetric] i(2)] conjunct2 [OF r]])
    moreover have "i < length (map fst res)" using i(1) list_all2_lengthD [OF l] by linarith
    ultimately show ?thesis by (metis nth_mem)
  qed (use rows in simp)
  moreover have "list_all (\<lambda>(x, rank). me_RepositoryID x = repo \<and> matches (quoteQuery query) (me_Content x)) res"
  proof -
    have "me_RepositoryID x = repo \<and> matches (quoteQuery query) (me_Content x)" if "x \<in> set (map fst res)" for x
    proof -
      from that obtain i where i: "i < length (map fst res)" "map fst res ! i = x" by (metis in_set_conv_nth)
      let ?r = "take (nat limit) ?rows ! i"
      have r: "?r = row_for_entry fmt (mr_rowid ?r) x"
        by (rule conjunct1 [OF list_all2_nthD [OF conjunct2 [OF rows] i(1), unfolded i(2)]])
      have "i < length (take (nat limit) ?rows)" using i(1) list_all2_lengthD [OF conjunct2 [OF rows]] by linarith
      from nth_mem [OF this] have "?r \<in> set ?rows" by (rule in_set_takeD)
      then have "mr_RepositoryID ?r = repo \<and> matches (quoteQuery query) (mr_Content ?r)" by (simp add: search_rows_def)
      moreover have "mr_RepositoryID ?r = me_RepositoryID x" "mr_Content ?r = me_Content x"
        using arg_cong [OF r, of mr_RepositoryID] arg_cong [OF r, of mr_Content] by (simp_all add: row_for_entry_def)
      ultimately show ?thesis by simp
    qed
    then show ?thesis by (force simp: list_all_iff)
  qed
  ultimately show ?thesis using added e by simp
qed simp

text \<open>An example: two notes of one repository, and a search for the second.\<close>

definition mem_sha :: "string \<Rightarrow> string" where "mem_sha s = s @ replicate (32 - length s) NUL"

definition mem_repo :: string where "mem_repo = replicate 64 (CHR ''a'')"

definition mem_world :: "char \<Rightarrow> instant \<Rightarrow> append_world" where
  "mem_world c t = \<lparr>aw_random = Some (replicate 16 c), aw_now = t, aw_ok = \<lambda>_. True, aw_commit = W_Done\<rparr>"

definition mem_start :: memory_store where "mem_start = \<lparr>mm_open = True, mm_db = empty_memory\<rparr>"

definition mem_first :: memory_store where
  "mem_first = snd (memory_Append mem_sha text_of_int Ctx_Live mem_repo ''workspace'' (mem_world (CHR ''1'') 5) mem_start)"

definition mem_second :: memory_store where
  "mem_second = snd (memory_Append mem_sha text_of_int Ctx_Live mem_repo ''candidate snapshot'' (mem_world (CHR ''2'') 6) mem_first)"

definition mem_matches :: "string \<Rightarrow> string \<Rightarrow> bool" where
  "mem_matches q content \<longleftrightarrow> (case fts_and q of None \<Rightarrow> False | Some ws \<Rightarrow> list_all (\<lambda>w. sublist w content) ws)"

definition mem_note :: mem_entry where
  "mem_note = \<lparr>me_ID = ''mem_'' @ hex_encode (replicate 16 (CHR ''2'')), me_RepositoryID = mem_repo,
     me_Content = ''candidate snapshot'', me_CreatedAt = 6\<rparr>"

lemma memory_recalls_witness:
  "memory_Append mem_sha text_of_int Ctx_Live mem_repo ''candidate snapshot'' (mem_world (CHR ''2'') 6) mem_first
     = (Inr mem_note, mem_second)
   \<and> memory_Search int_of_text mem_matches (\<lambda>_ _ n. n) True Ctx_Live mem_repo ''snapshot'' 10 mem_second
     = Inr [(mem_note, 2)]
   \<and> me_Content mem_note = ''candidate snapshot''"
proof -
  have i: "memory_inv text_of_int (mm_db mem_first)"
    using memory_Append_inv [of text_of_int mem_start "mem_world (CHR ''1'') 5"]
    by (simp add: mem_first_def mem_start_def memory_inv_def empty_memory_def mem_world_def rfc3339_instant_def zero_time_def)
  have a: "memory_Append mem_sha text_of_int Ctx_Live mem_repo ''candidate snapshot'' (mem_world (CHR ''2'') 6) mem_first
     = (Inr mem_note, mem_second)" by code_simp
  have se: "memory_Search int_of_text mem_matches (\<lambda>_ _ n. n) True Ctx_Live mem_repo ''snapshot'' 10 mem_second
     = Inr [(mem_note, 2)]" by code_simp
  have m: "mem_matches (quoteQuery ''snapshot'') ''candidate snapshot''" by code_simp
  show ?thesis
    using memory_recalls [OF i int_of_text_of a, where later = "[]", unfolded append_run_def foldl.simps, OF se m] a se
    by (simp add: clocks_ok_def mem_world_def rfc3339_instant_def zero_time_def)
qed

end
