(* ===== verification/MCP_Transport.thy ===== *)
theory MCP_Transport
  imports Plane_Authority
begin

section \<open>Requests on their way to a tool (cmd/repoworker/mcp_replay_transport.go, controlplane_tools.go)\<close>

text \<open>
  A request of the transport gets its replay metadata from the server: an identity derived from the
  request's own id and content, and the connection's next sequence number. The guard before the tools reads
  them back and asks the plane. Messages are those of the MCP library; JSON is a record of functions. The
  theory shows that a client cannot choose the metadata, and that a call that was accepted is not
  accepted again.
\<close>

subsection \<open>Messages and JSON\<close>

definition mcpSecurityRequestIDKey :: string where
  "mcpSecurityRequestIDKey = ''repoworker/request_id''"

definition mcpSecurityRequestSequenceKey :: string where
  "mcpSecurityRequestSequenceKey = ''repoworker/request_sequence''"

text \<open>A value of the metadata, as far as the guard tells them apart; \<open>MV_Float m e\<close> is the number \<open>m * 2^e\<close>.\<close>

datatype meta_value =
    MV_String string | MV_Int int | MV_Int64 int | MV_Uint64 nat | MV_Float int int | MV_Number string | MV_Other string

type_synonym meta = "string \<rightharpoonup> meta_value"

datatype rpc_id = ID_String string | ID_Int int

text \<open>A message: a request with its method, its id (\<open>None\<close> for a notification) and its parameters, or something
  else.\<close>

datatype rpc_message = Rpc_Request string "rpc_id option" string | Rpc_Other string

text \<open>
  \<open>encoding/json\<close> as the transport uses it: reading an object (\<open>null\<close> is the empty one), a string, and
  metadata into an empty map (\<open>None\<close> is the nil map, and an error may leave a part); writing metadata and an
  object; the round trip of a value; the identity of a request.
\<close>

record json_lib =
  jl_object :: "string \<Rightarrow> (string \<rightharpoonup> string) option"
  jl_string :: "string \<Rightarrow> string option"
  jl_meta :: "string \<Rightarrow> meta option"
  jl_put_meta :: "meta \<Rightarrow> string option"
  jl_put_object :: "(string \<rightharpoonup> string) \<Rightarrow> string option"
  jl_canonical :: "string \<Rightarrow> string option"
  jl_identity :: "rpc_id \<Rightarrow> string \<Rightarrow> string option \<Rightarrow> string option"

definition mutatingMCPTools :: "string list" where
  "mutatingMCPTools =
    [''workspace_create'', ''workspace_discard'', ''workspace_integrate'', ''runtime_create'', ''runtime_start'',
     ''runtime_stop'', ''process_run'', ''process_signal'', ''process_cancel'', ''verification_run'', ''run_create'',
     ''run_event_append'', ''loop_start'', ''loop_resume'', ''publication_execute'']"

subsection \<open>The transport\<close>

definition replayRequestIdentity ::
  "(string \<Rightarrow> string) \<Rightarrow> json_lib \<Rightarrow> rpc_id \<Rightarrow> string \<Rightarrow> string option \<Rightarrow> string" where
  "replayRequestIdentity sha j i name rawArguments =
    (let canonicalArguments =
           (case rawArguments of
              None \<Rightarrow> None
            | Some raw \<Rightarrow> if raw = [] then Some raw else (case jl_canonical j raw of None \<Rightarrow> Some raw | Some c \<Rightarrow> Some c));
         payload = (case jl_identity j i name canonicalArguments of None \<Rightarrow> [] | Some s \<Rightarrow> s)
     in ''rpc-'' @ hex_encode (sha payload))"

text \<open>The counter of a connection is a \<open>uint64\<close>.\<close>

definition transport_sequence :: "nat \<Rightarrow> nat" where
  "transport_sequence n = (n + 1) mod 2 ^ 64"

definition secured_meta :: "string \<Rightarrow> nat \<Rightarrow> meta option \<Rightarrow> meta" where
  "secured_meta requestID n m =
    (case m of None \<Rightarrow> Map.empty | Some m \<Rightarrow> m)
      (mcpSecurityRequestIDKey \<mapsto> MV_String requestID, mcpSecurityRequestSequenceKey \<mapsto> MV_Uint64 n)"

definition transport_Read ::
  "(string \<Rightarrow> string) \<Rightarrow> json_lib \<Rightarrow> unit + rpc_message \<Rightarrow> nat \<Rightarrow> (unit + rpc_message) \<times> nat" where
  "transport_Read sha j received sequence =
    (case received of
       Inr (Rpc_Request method (Some i) params) \<Rightarrow>
         if method \<noteq> ''tools/call'' then (received, sequence)
         else (case jl_object j params of
                 None \<Rightarrow> (received, sequence)
               | Some ps \<Rightarrow>
                   (case Option.bind (ps ''name'') (jl_string j) of
                      None \<Rightarrow> (received, sequence)
                    | Some name \<Rightarrow>
                        if name \<notin> set mutatingMCPTools then (received, sequence)
                        else (let requestID = replayRequestIdentity sha j i name (ps ''arguments'');
                                  n = transport_sequence sequence;
                                  m = (case ps ''_meta'' of None \<Rightarrow> Some Map.empty | Some raw \<Rightarrow> jl_meta j raw)
                              in case jl_put_meta j (secured_meta requestID n m) of
                                   None \<Rightarrow> (Inl (), n)
                                 | Some encoded \<Rightarrow>
                                     (case jl_put_object j (ps(''_meta'' \<mapsto> encoded)) of
                                        None \<Rightarrow> (Inl (), n)
                                      | Some params' \<Rightarrow> (Inr (Rpc_Request method (Some i) params'), n)))))
     | _ \<Rightarrow> (received, sequence))"

text \<open>Without a transport there is no connection.\<close>

definition transport_Connect :: "bool \<Rightarrow> 'c option \<Rightarrow> ('c \<times> nat) option" where
  "transport_Connect has_delegate conn = (if \<not> has_delegate then None else map_option (\<lambda>c. (c, 0)) conn)"

subsection \<open>The guard\<close>

definition float_nat :: "int \<Rightarrow> int \<Rightarrow> nat option" where
  "float_nat m e =
    (if 0 \<le> e then Some (nat (m * 2 ^ nat e))
     else if 2 ^ nat (- e) dvd m then Some (nat (m div 2 ^ nat (- e))) else None)"

definition sequence_of :: "meta_value option \<Rightarrow> nat" where
  "sequence_of v =
    (case v of
       Some (MV_Int n) \<Rightarrow> if 0 < n then nat n else 0
     | Some (MV_Int64 n) \<Rightarrow> if 0 < n then nat n else 0
     | Some (MV_Uint64 n) \<Rightarrow> n
     | Some (MV_Float m e) \<Rightarrow>
         (case float_nat m e of
            Some n \<Rightarrow> if 0 < m \<and> n \<le> 2 ^ 63 then n else 0
          | None \<Rightarrow> 0)
     | Some (MV_Number s) \<Rightarrow> (case parse_int64 s of Some n \<Rightarrow> if 0 < n then nat n else 0 | None \<Rightarrow> 0)
     | _ \<Rightarrow> 0)"

definition mcpReplayMetadata :: "meta \<Rightarrow> string \<times> nat \<times> bool" where
  "mcpReplayMetadata m =
    (case m mcpSecurityRequestIDKey of
       Some (MV_String requestID) \<Rightarrow>
         if requestID = [] \<or> 128 < length requestID \<or> contains_any requestID (control_chars @ [slash, CHR 0x5C])
         then ([], 0, False)
         else (let n = sequence_of (m mcpSecurityRequestSequenceKey) in (requestID, n, n \<noteq> 0))
     | _ \<Rightarrow> ([], 0, False))"

text \<open>A tool call as the library hands it to the guard; the session has an id, which is empty on standard
  input, or it stands for its address.\<close>

record tool_request =
  tr_Name :: string
  tr_Meta :: meta
  tr_Session :: "(string \<times> string) option"

definition session_name :: "string \<times> string \<Rightarrow> string" where
  "session_name s = (if fst s = [] then ''stdio:'' @ snd s else fst s)"

definition replay_guard ::
  "replay_order \<Rightarrow> go_ctx \<Rightarrow> string \<Rightarrow> tool_request option \<Rightarrow> ('a, 'x) plane_op \<Rightarrow> ('a, 'x) plane_op" where
  "replay_guard ord ctx method request next =
    (if method \<noteq> ''tools/call'' then next
     else (case request of
             None \<Rightarrow> next
           | Some r \<Rightarrow>
               if tr_Name r \<notin> set mutatingMCPTools then next
               else (let (requestID, n, ok) = mcpReplayMetadata (tr_Meta r)
                     in if \<not> ok then pfail PL_ErrRejected
                        else (case tr_Session r of
                                None \<Rightarrow> pfail PL_ErrRejected
                              | Some s \<Rightarrow>
                                  pbind (as_error PL_ErrRejected (AcceptMCPRequest ord ctx (session_name s) requestID n))
                                    (\<lambda>_. next)))))"

subsection \<open>What the guard reads\<close>

lemma rpc_identity_ok:
  assumes "length (sha s) = 32"
  shows "let i = ''rpc-'' @ hex_encode (sha s) in
    i \<noteq> [] \<and> length i = 68 \<and> \<not> contains_any i (control_chars @ [slash, CHR 0x5C])"
proof -
  have "c \<in> set (hex_encode (sha s)) \<Longrightarrow> c \<notin> set (control_chars @ [slash, CHR 0x5C])" for c
    by (drule hex_encode_lower) (auto simp: lower_hex_def in_byte_range_def control_chars_def ctrl_defs slash_def)
  then show ?thesis
    using assms by (auto simp: contains_any_iff control_chars_def ctrl_defs slash_def)
qed

lemma rpc_identity_utf8: "utf8_valid (''rpc-'' @ hex_encode s)"
proof -
  have "byte c < 128" if "c \<in> set (hex_encode s)" for c
    using hex_encode_lower [OF that] by (auto simp: lower_hex_def in_byte_range_def)
  then have "ascii (''rpc-'' @ hex_encode s)" by (auto simp: ascii_def list_all_iff)
  then show ?thesis by (rule utf8_valid_ascii)
qed

lemma transport_Read_secured:
  assumes "transport_Read sha j (Inr (Rpc_Request ''tools/call'' (Some i) params)) n = (Inr (Rpc_Request method i' params'), n')"
    and "jl_object j params = Some ps" and "Option.bind (ps ''name'') (jl_string j) = Some name"
    and "name \<in> set mutatingMCPTools"
  obtains m encoded where "n' = transport_sequence n" "method = ''tools/call''" "i' = Some i"
    "jl_put_meta j (secured_meta (replayRequestIdentity sha j i name (ps ''arguments'')) n' m) = Some encoded"
    "jl_put_object j (ps(''_meta'' \<mapsto> encoded)) = Some params'"
  using assms by (auto simp: transport_Read_def Let_def split: option.splits)

text \<open>
  What the code relies on when the library reads a call the transport wrote: the name is the same, and each
  entry of the metadata is there in the form \<open>norm\<close> that JSON gives it. A number loses its type: one
  below \<open>2 ^ 53\<close> is read as the float of the same value. A string that is UTF-8 is read as it is, and
  what is read from JSON has keys in UTF-8.
\<close>

definition reads_back ::
  "json_lib \<Rightarrow> (string \<Rightarrow> (string \<times> meta) option) \<Rightarrow> (meta_value \<Rightarrow> meta_value) \<Rightarrow> bool" where
  "reads_back j lib_call norm \<longleftrightarrow>
     (\<forall>s. utf8_valid s \<longrightarrow> norm (MV_String s) = MV_String s)
     \<and> (\<forall>n. n \<le> 2 ^ 53 \<longrightarrow> norm (MV_Uint64 n) = MV_Float (int n) 0)
     \<and> (\<forall>raw m k. jl_meta j raw = Some m \<longrightarrow> k \<in> dom m \<longrightarrow> utf8_valid k)
     \<and> (\<forall>ps m encoded params name. (\<forall>k \<in> dom m. utf8_valid k) \<longrightarrow> jl_put_meta j m = Some encoded
          \<longrightarrow> jl_put_object j (ps(''_meta'' \<mapsto> encoded)) = Some params \<longrightarrow> Option.bind (ps ''name'') (jl_string j) = Some name
          \<longrightarrow> (\<exists>m'. lib_call params = Some (name, m') \<and> (\<forall>k v. m k = Some v \<longrightarrow> m' k = Some (norm v))))"

lemma security_keys_utf8: "utf8_valid mcpSecurityRequestIDKey" "utf8_valid mcpSecurityRequestSequenceKey"
  by code_simp+

text \<open>C33: A client cannot choose its replay metadata. Whatever metadata a call of a mutating tool carries, the
  guard behind the transport reads the identity that the server derived from the request (the hash of its
  id, the tool's name and its canonical arguments) and the connection's next sequence number, as long as
  that is at most \<open>2 ^ 53\<close>; every other entry the client put there is still there, in its JSON form.\<close>

theorem metadata_not_forged:
  assumes "transport_Read sha j (Inr (Rpc_Request ''tools/call'' (Some i) params)) n = (Inr (Rpc_Request method i' params'), n')"
    and "jl_object j params = Some ps" and "Option.bind (ps ''name'') (jl_string j) = Some name"
    and "name \<in> set mutatingMCPTools" and "reads_back j lib_call norm" and "\<And>s. length (sha s) = 32" and "n < 2 ^ 53"
  shows "n' = n + 1 \<and> (\<exists>m arguments payload. lib_call params' = Some (name, m)
    \<and> mcpReplayMetadata m = (''rpc-'' @ hex_encode (sha payload), n + 1, True)
    \<and> payload = (case jl_identity j i name arguments of None \<Rightarrow> [] | Some s \<Rightarrow> s)
    \<and> arguments = (case ps ''arguments'' of None \<Rightarrow> None
         | Some raw \<Rightarrow> Some (if raw = [] then raw else (case jl_canonical j raw of None \<Rightarrow> raw | Some c \<Rightarrow> c)))
    \<and> (\<forall>client raw k v. ps ''_meta'' = Some raw \<and> jl_meta j raw = Some client
         \<and> k \<notin> {''repoworker/request_id'', ''repoworker/request_sequence''} \<and> client k = Some v \<longrightarrow> m k = Some (norm v)))"
proof -
  have n': "transport_sequence n = n + 1" using assms(7) by (simp add: transport_sequence_def)
  let ?m = "case ps ''_meta'' of None \<Rightarrow> Some Map.empty | Some raw \<Rightarrow> jl_meta j raw"
  let ?id = "replayRequestIdentity sha j i name (ps ''arguments'')"
  let ?s = "secured_meta ?id (n + 1) ?m"
  obtain encoded where e: "jl_put_meta j ?s = Some encoded" "jl_put_object j (ps(''_meta'' \<mapsto> encoded)) = Some params'" "n' = n + 1"
    using assms(1-4) n' by (auto simp: transport_Read_def Let_def split: option.splits)
  note rb = assms(5) [unfolded reads_back_def]
  have "\<forall>k \<in> dom ?s. utf8_valid k"
    using rb security_keys_utf8 by (auto simp: secured_meta_def split: option.splits if_splits)
  with rb e(1,2) assms(3) obtain m where
    m: "lib_call params' = Some (name, m)" "\<forall>k v. ?s k = Some v \<longrightarrow> m k = Some (norm v)" by blast
  have keys: "mcpSecurityRequestIDKey \<noteq> mcpSecurityRequestSequenceKey"
    by (simp add: mcpSecurityRequestIDKey_def mcpSecurityRequestSequenceKey_def)
  have idok: "?id \<noteq> []" "length ?id = 68" "\<not> contains_any ?id (control_chars @ [slash, CHR 0x5C])"
    using rpc_identity_ok [of sha] assms(6) by (simp_all add: replayRequestIdentity_def Let_def)
  have "utf8_valid ?id" unfolding replayRequestIdentity_def Let_def by (rule rpc_identity_utf8)
  then have mid: "m mcpSecurityRequestIDKey = Some (MV_String ?id)"
    using m(2) rb keys by (auto simp: secured_meta_def)
  have mseq: "m mcpSecurityRequestSequenceKey = Some (MV_Float (int (n + 1)) 0)"
    using m(2) rb assms(7) by (auto simp: secured_meta_def)
  have "float_nat (int (n + 1)) 0 = Some (n + 1)" by (simp add: float_nat_def nat_add_distrib)
  then have "sequence_of (Some (MV_Float (int (n + 1)) 0)) = n + 1"
    using assms(7) by (simp add: sequence_of_def)
  then have read: "mcpReplayMetadata m = (?id, n + 1, True)"
    using idok mid mseq by (simp add: mcpReplayMetadata_def Let_def)
  have kept: "\<forall>client raw k v. ps ''_meta'' = Some raw \<and> jl_meta j raw = Some client
         \<and> k \<notin> {''repoworker/request_id'', ''repoworker/request_sequence''} \<and> client k = Some v \<longrightarrow> m k = Some (norm v)"
    using m(2) by (auto simp: secured_meta_def mcpSecurityRequestIDKey_def mcpSecurityRequestSequenceKey_def)
  let ?args = "case ps ''arguments'' of None \<Rightarrow> None
         | Some raw \<Rightarrow> Some (if raw = [] then raw else (case jl_canonical j raw of None \<Rightarrow> raw | Some c \<Rightarrow> c))"
  have "?id = ''rpc-'' @ hex_encode (sha (case jl_identity j i name ?args of None \<Rightarrow> [] | Some s \<Rightarrow> s))"
    by (simp add: replayRequestIdentity_def Let_def split: option.split)
  with read have read': "mcpReplayMetadata m = (''rpc-'' @ hex_encode (sha (case jl_identity j i name ?args of None \<Rightarrow> [] | Some s \<Rightarrow> s)), n + 1, True)"
    by simp
  show ?thesis
    by (rule conjI [OF e(3)], rule exI [of _ m], rule exI [of _ ?args],
        rule exI [of _ "case jl_identity j i name ?args of None \<Rightarrow> [] | Some s \<Rightarrow> s"], intro conjI m(1) read' refl kept)
qed

subsection \<open>What the guard lets through\<close>

lemma AcceptMCPRequest_accept:
  fixes p :: "'x plane"
  defines "t \<equiv> cx_Now (cpl_Env p (cpl_Tick p))"
  assumes "AcceptMCPRequest ord ctx sid rid n p = (Inr (), p1)"
  obtains r where "rl_requestID r = rid" "fst (cache_offer ord t r (cpl_Replay p))"
    "cpl_Replay p1 = snd (cache_offer ord t r (cpl_Replay p))"
proof -
  define r where "r = \<lparr>rl_transportID = ss_TransportID (cpl_Session p), rl_authSessionID = ss_ID (cpl_Session p),
                   rl_principalID = ss_PrincipalID (cpl_Session p), rl_mcpSessionID = sid, rl_requestID = rid, rl_sequence = n\<rparr>"
  obtain x c where a: "Accept ord t r (cpl_Replay p) = (x, c)" by fastforce
  have "is_ok x \<and> cpl_Replay p1 = c"
  proof -
    let ?q = "p\<lparr>cpl_Tick := cpl_Tick p + 1, cpl_Store := edit_trees (cx_Edit (cpl_Env p (cpl_Tick p))) (cpl_Store p)\<rparr>"
    have "ctx \<noteq> Ctx_Nil" using assms(2) by (auto simp: AcceptMCPRequest_def pfail_def)
    then have "AcceptMCPRequest ord ctx sid rid n p
        = (case x of Inl _ \<Rightarrow> (Inl PL_ErrRejected, ?q\<lparr>cpl_Replay := c\<rparr>) | Inr _ \<Rightarrow> (Inr (), ?q\<lparr>cpl_Replay := c\<rparr>))"
      using a by (cases x) (simp_all add: AcceptMCPRequest_def calling_def Let_def t_def r_def)
    then show ?thesis using assms(2) by (cases x) auto
  qed
  then have "fst (cache_offer ord t r (cpl_Replay p))" "cpl_Replay p1 = snd (cache_offer ord t r (cpl_Replay p))"
    using a by (simp_all add: cache_offer_def)
  moreover have "rl_requestID r = rid" by (simp add: r_def)
  ultimately show ?thesis by (intro that)
qed

text \<open>What a refusal leaves: the plane, apart from the cache, the calls of the platform it made, and what
  others did to the trees meanwhile.\<close>

definition untouched :: "'x plane \<Rightarrow> 'x plane \<Rightarrow> bool" where
  "untouched p q \<longleftrightarrow>
     q = p\<lparr>cpl_Replay := cpl_Replay q, cpl_Tick := cpl_Tick q, cpl_Store := cpl_Store q\<rparr>
     \<and> (\<exists>g. cpl_Store q = edit_trees g (cpl_Store p))"

lemma edit_trees_id [simp]: "edit_trees (\<lambda>_ t. t) r = r"
proof -
  have "(\<lambda>i. map_option (\<lambda>d. d\<lparr>gd_tree := gd_tree d\<rparr>) (wr_dirs r i)) = wr_dirs r"
    by (rule ext) (simp add: option.map_ident)
  then show ?thesis by (simp add: edit_trees_def)
qed

lemma untouched_refl [simp]: "untouched p p"
  unfolding untouched_def by (intro conjI exI [of _ "\<lambda>_ t. t"]) simp_all

lemma AcceptMCPRequest_refuse:
  fixes p :: "'x plane"
  assumes "\<And>r. rl_requestID r = rid \<Longrightarrow> \<not> fst (cache_offer ord (cx_Now (cpl_Env p (cpl_Tick p))) r (cpl_Replay p))"
  shows "\<exists>p'. AcceptMCPRequest ord ctx sid rid n p = (Inl PL_ErrRejected, p') \<and> untouched p p'"
proof -
  let ?r = "\<lparr>rl_transportID = ss_TransportID (cpl_Session p), rl_authSessionID = ss_ID (cpl_Session p),
             rl_principalID = ss_PrincipalID (cpl_Session p), rl_mcpSessionID = sid, rl_requestID = rid, rl_sequence = n\<rparr>"
  obtain x c where a: "Accept ord (cx_Now (cpl_Env p (cpl_Tick p))) ?r (cpl_Replay p) = (x, c)" by fastforce
  then have "\<not> is_ok x" using assms [of ?r] by (simp add: cache_offer_def)
  then obtain e where "x = Inl e" by (cases x) auto
  then show ?thesis
    using a by (cases "ctx = Ctx_Nil") (auto simp: AcceptMCPRequest_def calling_def Let_def pfail_def, auto simp: untouched_def)
qed

text \<open>A call that was let through is not let through again. After the plane accepted an identity, any call of
  a mutating tool with that identity, in any session and with any sequence number, is refused before
  it reaches its tool, until the time to live has passed, whatever other calls were offered in between,
  as long as they are fewer than the cache has room for.\<close>

lemma guarded_call_once:
  fixes p p2 :: "'x plane"
  assumes "cache_wf mx ttl (cpl_Replay p)" and "t = cx_Now (cpl_Env p (cpl_Tick p))" and "zero_time < t"
    and "AcceptMCPRequest ord ctx sid rid n p = (Inr (), p1)"
    and "\<forall>(now, q) \<in> set later. zero_time < now \<and> now < t + ttl"
    and "young t (cache_seen (cpl_Replay p)) + Suc (length later) \<le> mx"
    and "cpl_Replay p2 = accept_all ord later (cpl_Replay p1)" and "cx_Now (cpl_Env p2 (cpl_Tick p2)) < t + ttl"
    and "tr_Name r \<in> set mutatingMCPTools" and "tr_Meta r mcpSecurityRequestIDKey = Some (MV_String rid)"
  shows "\<exists>p3. untouched p2 p3
    \<and> (\<forall>next. replay_guard ord ctx' ''tools/call'' (Some r) next p2 = (Inl PL_ErrRejected, p3))"
proof -
  obtain q where q: "rl_requestID q = rid" "fst (cache_offer ord t q (cpl_Replay p))"
    "cpl_Replay p1 = snd (cache_offer ord t q (cpl_Replay p))"
    using AcceptMCPRequest_accept [OF assms(4)] assms(2) by blast
  have refuse: "\<not> fst (cache_offer ord (cx_Now (cpl_Env p2 (cpl_Tick p2))) q' (cpl_Replay p2))"
    if "rl_requestID q' = rid" for q'
    using request_cache.no_replay [OF assms(1) assms(3) q(2) assms(5,6,8), of q'] that q(1,3) assms(7)
    by (simp add: offers_accept_all key_clash_def call_key_def)
  obtain rid' n' ok where m: "mcpReplayMetadata (tr_Meta r) = (rid', n', ok)" by (metis prod_cases3)
  show ?thesis
  proof (cases "ok \<and> tr_Session r \<noteq> None")
    case True
    then obtain s where s: "tr_Session r = Some s" by blast
    have "rid' = rid" using m True assms(10) by (auto simp: mcpReplayMetadata_def Let_def split: if_splits)
    then obtain p3 where "AcceptMCPRequest ord ctx' (session_name s) rid' n' p2 = (Inl PL_ErrRejected, p3)"
      "untouched p2 p3"
      using AcceptMCPRequest_refuse [of rid ord p2 ctx' "session_name s" n'] refuse by blast
    then show ?thesis
      using m s True assms(9) by (intro exI [of _ p3]) (simp add: replay_guard_def pbind_def as_error_def)
  next
    case False
    then show ?thesis
      using m assms(9) by (intro exI [of _ p2]; cases "tr_Session r") (auto simp: replay_guard_def pfail_def)
  qed
qed

subsection \<open>Examples\<close>

definition zero_sha :: "string \<Rightarrow> string" where "zero_sha s = replicate 32 NUL"

definition rpc_zero :: string where "rpc_zero = ''rpc-'' @ hex_encode (replicate 32 NUL)"

text \<open>A small library: the three entries of the metadata on three lines, strings in hexadecimal and numbers in
  decimal, and the name and the metadata of a call in hexadecimal on two lines. Other values it does not
  write.\<close>

definition tiny_put_value :: "meta_value option \<Rightarrow> string option" where
  "tiny_put_value v =
    (case v of
       None \<Rightarrow> Some ''-''
     | Some (MV_String s) \<Rightarrow> Some (CHR ''s'' # hex_encode s)
     | Some (MV_Uint64 n) \<Rightarrow> Some (CHR ''n'' # digits_of n)
     | _ \<Rightarrow> None)"

definition tiny_get_value :: "string \<Rightarrow> meta_value option" where
  "tiny_get_value w =
    (case w of
       [] \<Rightarrow> None
     | c # cs \<Rightarrow>
         if c = CHR ''s'' then map_option MV_String (hex_decode cs)
         else if c = CHR ''n'' then map_option (\<lambda>n. MV_Float (int n) 0) (parse_nat cs) else None)"

definition tiny_norm :: "meta_value \<Rightarrow> meta_value" where
  "tiny_norm v = (case v of MV_Uint64 n \<Rightarrow> MV_Float (int n) 0 | v \<Rightarrow> v)"

definition tiny_keys :: "string list" where
  "tiny_keys = [mcpSecurityRequestIDKey, mcpSecurityRequestSequenceKey, ''progress'']"

definition tiny_put_meta :: "meta \<Rightarrow> string option" where
  "tiny_put_meta m =
    (if dom m \<subseteq> set tiny_keys \<and> (\<forall>k \<in> set tiny_keys. tiny_put_value (m k) \<noteq> None)
     then Some (join_with [LF] (map (\<lambda>k. the (tiny_put_value (m k))) tiny_keys)) else None)"

definition tiny_get_meta :: "string \<Rightarrow> meta" where
  "tiny_get_meta s = (\<lambda>k. Option.bind (map_of (zip tiny_keys (split_on LF s)) k) tiny_get_value)"

definition tiny_put_object :: "(string \<rightharpoonup> string) \<Rightarrow> string option" where
  "tiny_put_object ps =
    (case (ps ''name'', ps ''_meta'') of
       (Some n, Some m) \<Rightarrow> Some (join_with [LF] [hex_encode n, hex_encode m]) | _ \<Rightarrow> None)"

definition tiny_fields :: "string \<Rightarrow> (string \<times> string) option" where
  "tiny_fields s =
    (case split_on LF s of
       [n, m] \<Rightarrow> (case (hex_decode n, hex_decode m) of (Some n, Some m) \<Rightarrow> Some (n, m) | _ \<Rightarrow> None)
     | _ \<Rightarrow> None)"

definition tiny_json :: json_lib where
  "tiny_json =
     \<lparr>jl_object = \<lambda>s. map_option (\<lambda>(n, m). [''name'' \<mapsto> n, ''_meta'' \<mapsto> m]) (tiny_fields s), jl_string = Some,
      jl_meta = \<lambda>s. Some (tiny_get_meta s), jl_put_meta = tiny_put_meta, jl_put_object = tiny_put_object,
      jl_canonical = Some, jl_identity = \<lambda>i name args. Some (name @ (case i of ID_String s \<Rightarrow> s | ID_Int n \<Rightarrow> format_int n))\<rparr>"

definition tiny_lib_call :: "string \<Rightarrow> (string \<times> meta) option" where
  "tiny_lib_call s = map_option (\<lambda>(n, m). (n, tiny_get_meta m)) (tiny_fields s)"

lemma hex_no_LF: "LF \<notin> set (hex_encode s)"
  using hex_encode_lower [of LF s] by (auto simp: lower_hex_def in_byte_range_def LF_def)

lemma digits_no_LF: "LF \<notin> set (digits_of n)"
  using digits_of_char [of LF n] by (auto simp: in_byte_range_def LF_def)

lemma tiny_value:
  assumes "tiny_put_value v = Some w"
  shows "LF \<notin> set w" and "tiny_get_value w = map_option tiny_norm v"
proof -
  have "LF \<notin> set w \<and> tiny_get_value w = map_option tiny_norm v"
    using assms hex_no_LF digits_no_LF
    by (auto simp: tiny_put_value_def tiny_get_value_def tiny_norm_def hex_decode_encode parse_nat_def digits_of_digits
        value_digits_of LF_def split: option.splits meta_value.splits)
  then show "LF \<notin> set w" and "tiny_get_value w = map_option tiny_norm v" by auto
qed

lemma tiny_fields_put: "tiny_put_object ps = Some s \<Longrightarrow> \<exists>n m. ps ''name'' = Some n \<and> ps ''_meta'' = Some m \<and> tiny_fields s = Some (n, m)"
  by (auto simp: tiny_put_object_def tiny_fields_def split_on_append split_on_plain hex_no_LF hex_decode_encode split: option.splits)

lemma tiny_meta:
  assumes "tiny_put_meta m = Some s" and "m k = Some v"
  shows "tiny_get_meta s k = Some (tiny_norm v)"
proof -
  let ?put = "\<lambda>k. the (tiny_put_value (m k))"
  have m: "dom m \<subseteq> set tiny_keys" "\<forall>k \<in> set tiny_keys. tiny_put_value (m k) = Some (?put k)"
    and s: "s = join_with [LF] (map ?put tiny_keys)"
    using assms(1) by (auto simp: tiny_put_meta_def split: if_splits)
  have "\<forall>w \<in> set (map ?put tiny_keys). LF \<notin> set w" using m(2) tiny_value(1) by fastforce
  then have "split_on LF s = map ?put tiny_keys" unfolding s by (intro split_join) (simp_all add: tiny_keys_def)
  then have z: "zip tiny_keys (split_on LF s) = map (\<lambda>k. (k, ?put k)) tiny_keys"
    by (simp add: zip_map2 zip_same_conv_map)
  have k: "k \<in> set tiny_keys" using m(1) assms(2) by auto
  then have "map_of (zip tiny_keys (split_on LF s)) k = Some (?put k)" unfolding z by (simp add: map_of_map_restrict)
  moreover have "tiny_get_value (?put k) = Some (tiny_norm v)"
    using tiny_value(2) [OF m(2) [rule_format, OF k]] assms(2) by simp
  ultimately show ?thesis by (simp add: tiny_get_meta_def)
qed

lemma tiny_reads_back: "reads_back tiny_json tiny_lib_call tiny_norm"
proof -
  have keys: "list_all utf8_valid tiny_keys" by code_simp
  have "utf8_valid k" if "k \<in> dom (tiny_get_meta s)" for s k
  proof -
    have "map_of (zip tiny_keys (split_on LF s)) k \<noteq> None" using that by (auto simp: tiny_get_meta_def bind_eq_Some_conv)
    then have "k \<in> set tiny_keys" by (auto dest!: map_of_SomeD set_zip_leftD)
    then show ?thesis using keys by (auto simp: list_all_iff)
  qed
  moreover have "\<exists>m'. tiny_lib_call params = Some (name, m') \<and> (\<forall>k v. m k = Some v \<longrightarrow> m' k = Some (tiny_norm v))"
    if "tiny_put_meta m = Some encoded" "tiny_put_object (ps(''_meta'' \<mapsto> encoded)) = Some params" "ps ''name'' = Some name"
    for ps m encoded params name
    using tiny_fields_put [OF that(2)] that(1,3) tiny_meta [OF that(1)] by (auto simp: tiny_lib_call_def)
  ultimately show ?thesis
    unfolding reads_back_def by (simp add: tiny_json_def tiny_norm_def)
qed

text \<open>A client that sends an identity of its own.\<close>

definition client_call :: string where
  "client_call = the (tiny_put_object [''name'' \<mapsto> ''run_create'',
     ''_meta'' \<mapsto> join_with [LF] [CHR ''s'' # hex_encode ''forged'', ''n7'', CHR ''s'' # hex_encode ''half'']])"

definition secured_call :: "(unit + rpc_message) \<times> nat" where
  "secured_call = transport_Read zero_sha tiny_json (Inr (Rpc_Request ''tools/call'' (Some (ID_Int 7)) client_call)) 0"

lemma client_fields:
  "tiny_fields client_call = Some (''run_create'', join_with [LF] [CHR ''s'' # hex_encode ''forged'', ''n7'', CHR ''s'' # hex_encode ''half''])"
  by code_simp

lemma metadata_not_forged_witness:
  "\<exists>params m. secured_call = (Inr (Rpc_Request ''tools/call'' (Some (ID_Int 7)) params), 1)
     \<and> tiny_lib_call params = Some (''run_create'', m) \<and> mcpReplayMetadata m = (rpc_zero, 1, True)
     \<and> m ''progress'' = Some (MV_String ''half'')"
proof -
  let ?raw = "join_with [LF] [CHR ''s'' # hex_encode ''forged'', ''n7'', CHR ''s'' # hex_encode ''half'']"
  let ?ps = "[''name'' \<mapsto> ''run_create'', ''_meta'' \<mapsto> ?raw]"
  let ?m = "secured_meta rpc_zero 1 (Some (tiny_get_meta ?raw))"
  have o: "jl_object tiny_json client_call = Some ?ps" "Option.bind (?ps ''name'') (jl_string tiny_json) = Some ''run_create''"
    using client_fields by (simp_all add: tiny_json_def)
  have "tiny_get_meta ?raw ''progress'' = Some (MV_String ''half'')" by code_simp
  have id: "replayRequestIdentity zero_sha tiny_json (ID_Int 7) ''run_create'' None = rpc_zero"
    by (simp add: replayRequestIdentity_def zero_sha_def rpc_zero_def)
  have dom: "dom (tiny_get_meta s) \<subseteq> set tiny_keys" for s
    by (auto simp: tiny_get_meta_def bind_eq_Some_conv dest!: map_of_SomeD set_zip_leftD)
  then have "dom ?m \<subseteq> set tiny_keys" by (auto simp: secured_meta_def tiny_keys_def split: if_splits)
  moreover have "\<forall>k \<in> set tiny_keys. tiny_put_value (?m k) \<noteq> None"
    using \<open>tiny_get_meta ?raw ''progress'' = _\<close>
    by (simp add: tiny_keys_def secured_meta_def tiny_put_value_def mcpSecurityRequestIDKey_def mcpSecurityRequestSequenceKey_def)
  ultimately obtain encoded where enc: "jl_put_meta tiny_json ?m = Some encoded" by (simp add: tiny_json_def tiny_put_meta_def)
  obtain params where par: "jl_put_object tiny_json (?ps(''_meta'' \<mapsto> encoded)) = Some params"
    by (simp add: tiny_json_def tiny_put_object_def)
  have rd: "transport_Read zero_sha tiny_json (Inr (Rpc_Request ''tools/call'' (Some (ID_Int 7)) client_call)) 0
      = (Inr (Rpc_Request ''tools/call'' (Some (ID_Int 7)) params), 1)"
    using o enc par id by (simp add: transport_Read_def Let_def transport_sequence_def mutatingMCPTools_def)
      (simp add: tiny_json_def)
  have mut: "''run_create'' \<in> set mutatingMCPTools" by (simp add: mutatingMCPTools_def)
  have "\<And>s. length (zero_sha s) = 32" by (simp add: zero_sha_def)
  from metadata_not_forged [OF rd o mut tiny_reads_back this] obtain m where
    m: "tiny_lib_call params = Some (''run_create'', m)" "\<exists>p. mcpReplayMetadata m = (''rpc-'' @ hex_encode (zero_sha p), 1, True)"
      "\<forall>client raw k v. ?ps ''_meta'' = Some raw \<and> jl_meta tiny_json raw = Some client
         \<and> k \<notin> {''repoworker/request_id'', ''repoworker/request_sequence''} \<and> client k = Some v \<longrightarrow> m k = Some (tiny_norm v)"
    by auto
  have "m ''progress'' = Some (tiny_norm (MV_String ''half''))"
    by (rule m(3) [rule_format, of "?raw" "tiny_get_meta ?raw"]) (use \<open>tiny_get_meta ?raw ''progress'' = _\<close> in \<open>simp add: tiny_json_def\<close>)
  then show ?thesis using rd m(1,2) by (auto simp: secured_call_def zero_sha_def rpc_zero_def tiny_norm_def)
qed

definition demo_accept where
  "demo_accept = AcceptMCPRequest rev Ctx_Live ''stdio:1'' ''rpc-1'' 1 demo_plane"

definition demo_again :: tool_request where
  "demo_again = \<lparr>tr_Name = ''workspace_integrate'',
     tr_Meta = [mcpSecurityRequestIDKey \<mapsto> MV_String ''rpc-1'', mcpSecurityRequestSequenceKey \<mapsto> MV_Float 9 0],
     tr_Session = Some ([], ''2'')\<rparr>"

lemma demo_accept_ok: "fst demo_accept = Inr ()"
proof -
  have "call_valid \<lparr>rl_transportID = ''transport'', rl_authSessionID = sample_sid, rl_principalID = ''agent'',
      rl_mcpSessionID = ''stdio:1'', rl_requestID = ''rpc-1'', rl_sequence = 1\<rparr>" by code_simp
  then show ?thesis
    by (simp add: demo_accept_def AcceptMCPRequest_def calling_def Let_def Accept_def demo_plane_def demo_session_def drop_expired_def)
qed

end
