(* ===== verification/Verify_Diagnostic.thy ===== *)
theory Verify_Diagnostic
  imports Go_Replace
begin

section \<open>The output of a fixed command (internal/verify/runner.go)\<close>

text \<open>
  What a verification command prints is captured up to a limit, and a failed command's output is shown to
  the client only after it went through \<open>sanitizeDiagnostic\<close>. The theory models the capture, the tests
  that suppress a diagnostic, the replacement of paths (\<open>strings.ReplaceAll\<close> and the three regular
  expressions as scanners from the left), the trimming and the cut at the end. It shows what a
  diagnostic that is shown cannot contain.
\<close>

subsection \<open>The bounded capture\<close>

definition CaptureLimit :: nat where "CaptureLimit = 32768"
definition DiagnosticLimit :: nat where "DiagnosticLimit = 12288"

record boundedCapture =
  bc_data :: string
  bc_limit :: nat
  bc_truncated :: bool

definition new_capture :: "nat \<Rightarrow> boundedCapture" where
  "new_capture limit = \<lparr>bc_data = [], bc_limit = limit, bc_truncated = False\<rparr>"

text \<open>\<open>Write\<close> reports every byte as written, so that the command is not stopped by a full capture.\<close>

definition capture_Write :: "string \<Rightarrow> boundedCapture \<Rightarrow> nat \<times> boundedCapture" where
  "capture_Write data c =
    (let remaining = int (bc_limit c) - int (length (bc_data c));
         c1 = (if 0 < remaining
               then c\<lparr>bc_data := bc_data c @ take (if remaining < int (length data) then nat remaining else length data) data\<rparr>
               else c);
         c2 = (if remaining < int (length data) then c1\<lparr>bc_truncated := True\<rparr> else c1)
     in (length data, c2))"

definition capture_all :: "string list \<Rightarrow> boundedCapture \<Rightarrow> boundedCapture" where
  "capture_all ws c = foldl (\<lambda>c w. snd (capture_Write w c)) c ws"

lemma capture_Write_take:
  fixes c :: boundedCapture and w :: string
  assumes "bc_data c = take (bc_limit c) s" and "bc_truncated c \<longleftrightarrow> bc_limit c < length s"
  defines "c' \<equiv> snd (capture_Write w c)"
  shows "bc_limit c' = bc_limit c \<and> bc_data c' = take (bc_limit c) (s @ w)
    \<and> (bc_truncated c' \<longleftrightarrow> bc_limit c < length (s @ w))"
  using assms by (auto simp: capture_Write_def Let_def min_def nat_diff_distrib' split: if_splits)

lemma capture_all_take:
  fixes c :: boundedCapture
  assumes "bc_data c = take (bc_limit c) s" and "bc_truncated c \<longleftrightarrow> bc_limit c < length s"
  shows "bc_data (capture_all ws c) = take (bc_limit c) (s @ concat ws)
    \<and> (bc_truncated (capture_all ws c) \<longleftrightarrow> bc_limit c < length (s @ concat ws))"
  using assms
proof (induction ws arbitrary: c s)
  case (Cons w ws)
  note step = capture_Write_take [OF Cons.prems, of w]
  show ?case
    using Cons.IH [of "snd (capture_Write w c)" "s @ w"] step by (simp add: capture_all_def)
qed (simp add: capture_all_def)

text \<open>However the output arrives, the capture holds exactly its first bytes, and it is marked as
  truncated if and only if there were more.\<close>

theorem capture_exact:
  "bc_data (capture_all ws (new_capture n)) = take n (concat ws)
   \<and> (bc_truncated (capture_all ws (new_capture n)) \<longleftrightarrow> n < length (concat ws))"
  using capture_all_take [of "new_capture n" "[]" ws] by (simp add: new_capture_def)

subsection \<open>The patterns\<close>

text \<open>The character classes of the patterns; a byte outside ASCII is in every negated class.\<close>

definition re_space :: "char \<Rightarrow> bool" where
  "re_space c \<longleftrightarrow> byte c \<in> {9, 10, 12, 13, 32}"

definition quote :: char where "quote = CHR 0x22"

definition path_char :: "char \<Rightarrow> bool" where
  "path_char c \<longleftrightarrow> \<not> re_space c \<and> c \<noteq> quote \<and> c \<notin> set ''<>'' \<and> byte c \<noteq> 39"

definition fdPathPattern :: matcher where
  "fdPathPattern start s =
    (if prefix ''/dev/fd/'' s
     then (let t = drop 8 s; ds = takeWhile is_digit t; u = drop (length ds) t
           in if ds = [] then None
              else Some (8 + length ds
                + (case u of [] \<Rightarrow> 0
                   | c # cs \<Rightarrow> (if c = slash then 1 + length (takeWhile path_char cs) else 0))))
     else None)"

definition ascii_letter :: "char \<Rightarrow> bool" where
  "ascii_letter c \<longleftrightarrow> in_byte_range 65 90 c \<or> in_byte_range 97 122 c"

fun windowsPathPattern :: matcher where
  "windowsPathPattern start (a # b # c # cs) =
    (if ascii_letter a \<and> b = CHR '':'' \<and> c = CHR 0x5C then Some (3 + length (takeWhile path_char cs)) else None)"
| "windowsPathPattern start _ = None"

definition path_opener :: "char \<Rightarrow> bool" where
  "path_opener c \<longleftrightarrow> re_space c \<or> c = quote \<or> byte c = 39 \<or> c = CHR ''(''"

definition abs_char :: "char \<Rightarrow> bool" where
  "abs_char c \<longleftrightarrow> path_char c \<and> c \<noteq> CHR '')''"

definition absolutePathPattern :: matcher where
  "absolutePathPattern start s =
    (case s of
       [] \<Rightarrow> None
     | c # cs \<Rightarrow>
         if start \<and> c = slash then Some (1 + length (takeWhile abs_char cs))
         else if path_opener c
         then (case cs of
                 [] \<Rightarrow> None
               | d # ds \<Rightarrow> if d = slash then Some (2 + length (takeWhile abs_char ds)) else None)
         else None)"

definition REDACTED_PATH :: string where "REDACTED_PATH = ''[REDACTED_PATH]''"
definition REDACTED_FD :: string where "REDACTED_FD = ''[REDACTED_FD]''"

definition redact_match :: "string \<Rightarrow> string" where
  "redact_match w =
    (case w of
       c # _ \<Rightarrow> if c \<in> {CHR '' '', CHR 0x09, CR, LF, quote, CHR 0x27, CHR ''(''} then [c] @ REDACTED_PATH else REDACTED_PATH
     | [] \<Rightarrow> REDACTED_PATH)"

subsection \<open>\<open>sanitizeDiagnostic\<close>\<close>

definition secret_output_markers :: "string list" where
  "secret_output_markers =
    [''-----begin private key-----'', ''-----begin rsa private key-----'', ''-----begin openssh private key-----'',
     ''authorization:'', ''github_pat_'', ''ghp_'', ''sk-proj-'', ''api_key='', ''password='', ''token='']"

definition forbidden_control :: "char \<Rightarrow> bool" where
  "forbidden_control c \<longleftrightarrow> byte c = 0 \<or> (byte c < 32 \<and> byte c \<notin> {9, 10, 13}) \<or> byte c = 127"

definition suppressed_output :: "string \<Rightarrow> bool" where
  "suppressed_output data \<longleftrightarrow>
     \<not> utf8_valid data \<or> list_ex forbidden_control data
     \<or> list_ex (\<lambda>m. sublist m (to_lower data)) secret_output_markers"

text \<open>Longest first; up to twelve paths, \<open>sort.Slice\<close> is an insertion sort, which keeps the order of
  paths of one length. Callers pass two paths.\<close>

definition longest_first :: "string list \<Rightarrow> string list" where
  "longest_first ps = sort_key (\<lambda>p. - int (length p)) ps"

definition redact_path :: "string \<Rightarrow> string \<Rightarrow> string" where
  "redact_path p d = (if p \<in> {'''', ''.'', [slash]} then d else ReplaceAll d p REDACTED_PATH)"

definition redact_patterns :: "string \<Rightarrow> string" where
  "redact_patterns d =
    (let d1 = replace_scan fdPathPattern (\<lambda>_. REDACTED_FD) True d;
         d2 = replace_scan windowsPathPattern (\<lambda>_. REDACTED_PATH) True d1
     in replace_scan absolutePathPattern redact_match True d2)"

primrec rune_cut :: "nat \<Rightarrow> string \<Rightarrow> nat" where
  "rune_cut 0 s = 0"
| "rune_cut (Suc n) s = (if utf8_valid (take (Suc n) s) then Suc n else rune_cut n s)"

text \<open>The home directory is \<open>None\<close> where \<open>os.UserHomeDir\<close> fails.\<close>

definition sanitizeDiagnostic :: "string option \<Rightarrow> string \<Rightarrow> string list \<Rightarrow> string \<times> bool \<times> bool" where
  "sanitizeDiagnostic home data redactions =
    (if data = [] then ([], False, False)
     else if suppressed_output data then ([], False, True)
     else (let paths = redactions @ (case home of Some h \<Rightarrow> if h \<noteq> [] then [h] else [] | None \<Rightarrow> []);
               d = trim_space (redact_patterns (fold redact_path (longest_first paths) data))
           in if DiagnosticLimit < length d then (take (rune_cut DiagnosticLimit d) d, True, False)
              else (d, False, False)))"

subsection \<open>What the patterns leave\<close>

text \<open>No path is left behind an opening character.\<close>

definition path_open :: "string \<Rightarrow> bool" where
  "path_open s \<longleftrightarrow> (\<exists>c. path_opener c \<and> sublist [c, slash] s)"

lemma path_open_Cons: "path_open (c # s) \<longleftrightarrow> path_opener c \<and> (\<exists>t. s = slash # t) \<or> path_open s"
  by (cases s) (auto simp: path_open_def sublist_Cons_right)

lemma path_open_Nil [simp]: "\<not> path_open []"
  by (simp add: path_open_def)

lemma path_open_sublist: "sublist s t \<Longrightarrow> path_open s \<Longrightarrow> path_open t"
  unfolding path_open_def by (meson sublist_order.order.trans)

lemma slash_not_opener [simp]: "\<not> path_opener slash"
  by (simp add: path_opener_def slash_def re_space_def quote_def)

lemma redact_match_shape: "\<exists>pre. redact_match w = pre @ REDACTED_PATH \<and> (pre = [] \<or> (\<exists>c. pre = [c]))"
  by (auto simp: redact_match_def split: list.split)

lemma path_open_redacted: "path_open (redact_match w @ s) \<Longrightarrow> path_open s"
proof -
  have "path_open (REDACTED_PATH @ s) \<Longrightarrow> path_open s"
    by (simp add: REDACTED_PATH_def path_open_Cons path_opener_def re_space_def quote_def slash_def)
  moreover have "\<not> (\<exists>t. REDACTED_PATH @ s = slash # t)" by (simp add: REDACTED_PATH_def slash_def)
  ultimately show "path_open (redact_match w @ s) \<Longrightarrow> path_open s"
    using redact_match_shape [of w] by (auto simp: path_open_Cons)
qed

lemma redact_match_head: "redact_match w @ s \<noteq> slash # t"
proof (cases w)
  case (Cons c cs)
  then show ?thesis
    by (auto simp: redact_match_def REDACTED_PATH_def slash_def ctrl_defs quote_def)
qed (simp add: redact_match_def REDACTED_PATH_def slash_def)

lemma absolute_scan_head:
  "replace_scan absolutePathPattern redact_match False s = slash # t \<Longrightarrow> \<exists>u. s = slash # u"
proof (cases s)
  case (Cons c cs)
  assume h: "replace_scan absolutePathPattern redact_match False s = slash # t"
  show ?thesis
  proof (cases "\<exists>n. absolutePathPattern False (c # cs) = Some (Suc n)")
    case True
    then show ?thesis using h redact_match_head by (auto simp: Cons scan_match)
  next
    case False
    then show ?thesis using h by (simp add: Cons scan_step)
  qed
qed simp

lemma absolute_gone: "\<not> path_open (replace_scan absolutePathPattern redact_match start s)"
proof (induction start s rule: scan_induct [where m = absolutePathPattern])
  case (match start c cs n)
  then show ?case using path_open_redacted by (auto simp: scan_match)
next
  case (step start c cs)
  have "\<not> (path_opener c \<and> (\<exists>t. replace_scan absolutePathPattern redact_match False cs = slash # t))"
    using step(1) by (auto dest!: absolute_scan_head simp: absolutePathPattern_def split: if_splits)
  then show ?case using step by (simp add: scan_step path_open_Cons)
qed simp

subsection \<open>Letters and runes\<close>

definition ascii_lower :: "char \<Rightarrow> char" where
  "ascii_lower c = (if in_byte_range 65 90 c then char_of (byte c + 32) else c)"

lemma to_lower_before_ascii: "byte a < 128 \<Longrightarrow> to_lower (s @ a # b) = to_lower s @ ascii_lower a # to_lower b"
  by (simp add: to_lower_def runes_before_ascii lower_rune_def ascii_lower_def in_byte_range_def bad_rune_def rune_error_def)

lemma to_lower_ascii_part: "ascii w \<Longrightarrow> to_lower (w @ b) = map ascii_lower w @ to_lower b"
  using to_lower_before_ascii [of _ "[]"] by (induction w) (auto simp: to_lower_def)

lemma to_lower_sublist:
  assumes "ascii w" and "w \<noteq> []" and "sublist w s"
  shows "sublist (map ascii_lower w) (to_lower s)"
proof -
  obtain a b where s: "s = a @ w @ b" using assms(3) by (auto simp: sublist_def)
  obtain c v where w: "w = c # v" using assms(2) by (cases w) auto
  have "to_lower s = to_lower a @ ascii_lower c # to_lower (v @ b)"
    using assms(1) by (simp add: s w to_lower_before_ascii)
  then have "to_lower s = to_lower a @ map ascii_lower w @ to_lower b"
    using assms(1) to_lower_ascii_part [of v b] by (simp add: w)
  then show ?thesis by (metis sublist_appendI)
qed

lemma trim_space_sublist: "sublist (trim_space s) s"
proof -
  obtain a where a: "runes s = a @ dropWhile (\<lambda>p. is_space_rune (fst p)) (runes s)" by (metis takeWhile_dropWhile_id)
  let ?d = "dropWhile (\<lambda>p. is_space_rune (fst p)) (runes s)"
  obtain b where b: "?d = rev (dropWhile (\<lambda>p. is_space_rune (fst p)) (rev ?d)) @ b"
    by (metis takeWhile_dropWhile_id rev_append rev_rev_ident)
  have "s = concat (map snd a) @ trim_space s @ concat (map snd b)"
    using runes_concat [of s] a b unfolding trim_space_def Let_def by (metis concat_append map_append)
  then show ?thesis by (metis sublist_appendI)
qed

subsection \<open>What a diagnostic shows\<close>

text \<open>Words that a replacement text does not contain.\<close>

definition not_in_marks :: "string \<Rightarrow> bool" where
  "not_in_marks w \<longleftrightarrow> w \<noteq> [] \<and> CHR ''['' \<notin> set w \<and> CHR '']'' \<notin> set w
     \<and> \<not> sublist w ''REDACTED_PATH'' \<and> \<not> sublist w ''REDACTED_FD''"

lemma bracketed_const:
  assumes "not_in_marks w"
  shows "bracketed (\<lambda>_. REDACTED_PATH) w" and "bracketed (\<lambda>_. REDACTED_FD) w"
proof -
  have "REDACTED_PATH = [] @ CHR ''['' # ''REDACTED_PATH'' @ [CHR '']'']"
    and "REDACTED_FD = [] @ CHR ''['' # ''REDACTED_FD'' @ [CHR '']'']"
    by (simp_all add: REDACTED_PATH_def REDACTED_FD_def)
  then show "bracketed (\<lambda>_. REDACTED_PATH) w" and "bracketed (\<lambda>_. REDACTED_FD) w"
    using assms unfolding bracketed_def not_in_marks_def by (metis Nil_prefix)+
qed

lemma bracketed_match: "not_in_marks w \<Longrightarrow> bracketed redact_match w"
proof -
  assume w: "not_in_marks w"
  have "\<exists>pre. redact_match x = pre @ CHR ''['' # ''REDACTED_PATH'' @ [CHR '']''] \<and> prefix pre x" for x
    by (auto simp: redact_match_def REDACTED_PATH_def split: list.split)
  then show ?thesis using w unfolding bracketed_def not_in_marks_def by blast
qed

lemma redact_path_sublist: "not_in_marks w \<Longrightarrow> sublist w (redact_path p d) \<Longrightarrow> sublist w d"
  by (auto simp: redact_path_def ReplaceAll_def dest: scan_sublist [OF bracketed_const(1)] split: if_splits)

lemma redact_paths_sublist: "not_in_marks w \<Longrightarrow> sublist w (fold redact_path ps d) \<Longrightarrow> sublist w d"
  by (induction ps arbitrary: d) (auto dest: redact_path_sublist)

lemma redact_paths_gone:
  "not_in_marks p \<Longrightarrow> p \<notin> {''.'', [slash]} \<Longrightarrow> p \<in> set ps \<Longrightarrow> \<not> sublist p (fold redact_path ps d)"
proof (induction ps arbitrary: d)
  case (Cons q ps)
  show ?case
  proof (cases "p = q")
    case True
    then have "redact_path q d = replace_scan (literal p) (\<lambda>_. REDACTED_PATH) True d"
      using Cons.prems by (auto simp: redact_path_def ReplaceAll_def not_in_marks_def)
    with literal_gone [OF bracketed_const(1) [OF Cons.prems(1)], of True d]
    have "\<not> sublist p (redact_path q d)" by simp
    then show ?thesis using redact_paths_sublist [OF Cons.prems(1)] by auto
  next
    case False
    then show ?thesis using Cons by simp
  qed
qed simp

lemma redact_patterns_sublist: "not_in_marks w \<Longrightarrow> sublist w (redact_patterns d) \<Longrightarrow> sublist w d"
  unfolding redact_patterns_def Let_def
  by (drule scan_sublist [OF bracketed_match, rotated], assumption,
      drule scan_sublist [OF bracketed_const(1), rotated], assumption,
      drule scan_sublist [OF bracketed_const(2), rotated])

lemma rune_cut_le: "rune_cut n s \<le> n"
  by (induction n) auto

lemma rune_cut_valid: "utf8_valid (take (rune_cut n s) s)"
  by (induction n) (auto simp: utf8_valid_def)

text \<open>The steps of a diagnostic that is shown.\<close>

lemma sanitizeDiagnostic_shown:
  assumes "sanitizeDiagnostic home data redactions = (d, tr, False)" and "d \<noteq> []"
  defines "ps \<equiv> longest_first (redactions @ (case home of Some h \<Rightarrow> if h \<noteq> [] then [h] else [] | None \<Rightarrow> []))"
  shows "\<not> suppressed_output data" and "sublist d (redact_patterns (fold redact_path ps data))"
    and "length d \<le> DiagnosticLimit" and "tr \<longrightarrow> utf8_valid d"
proof -
  let ?t = "trim_space (redact_patterns (fold redact_path ps data))"
  have sd: "sanitizeDiagnostic home data redactions =
      (if data = [] then ([], False, False) else if suppressed_output data then ([], False, True)
       else if DiagnosticLimit < length ?t then (take (rune_cut DiagnosticLimit ?t) ?t, True, False)
       else (?t, False, False))"
    by (simp only: sanitizeDiagnostic_def Let_def ps_def)
  have d: "\<not> suppressed_output data"
    "(d, tr) = (if DiagnosticLimit < length ?t then (take (rune_cut DiagnosticLimit ?t) ?t, True) else (?t, False))"
    using sd assms(1,2) by (cases "data = []"; cases "suppressed_output data"; cases "DiagnosticLimit < length ?t"; simp)+
  show "\<not> suppressed_output data" by (rule d)
  have "prefix d ?t" using d(2) by (auto simp: take_is_prefix split: if_splits)
  then show "sublist d (redact_patterns (fold redact_path ps data))"
    by (meson prefix_imp_sublist sublist_order.order.trans trim_space_sublist)
  show "length d \<le> DiagnosticLimit"
    using d(2) rune_cut_le [of DiagnosticLimit ?t] by (auto split: if_splits)
  show "tr \<longrightarrow> utf8_valid d"
    using d(2) by (auto simp: rune_cut_valid split: if_splits)
qed

lemma lowered_not_in_marks:
  assumes "map ascii_lower w \<in> set secret_output_markers"
  shows "not_in_marks w" and "ascii w"
proof -
  let ?m = "map ascii_lower w"
  have "\<forall>m \<in> set secret_output_markers. m \<noteq> [] \<and> CHR ''['' \<notin> set m \<and> CHR '']'' \<notin> set m \<and> ascii m
      \<and> \<not> sublist m (map ascii_lower ''REDACTED_PATH'') \<and> \<not> sublist m (map ascii_lower ''REDACTED_FD'')"
    by code_simp
  then have m: "?m \<noteq> []" "CHR ''['' \<notin> set ?m" "CHR '']'' \<notin> set ?m" "ascii ?m"
      "\<not> sublist ?m (map ascii_lower ''REDACTED_PATH'')" "\<not> sublist ?m (map ascii_lower ''REDACTED_FD'')"
    using assms by blast+
  have b: "ascii_lower (CHR ''['') = CHR ''[''" "ascii_lower (CHR '']'') = CHR '']''" by code_simp+
  have "sublist w x \<Longrightarrow> sublist ?m (map ascii_lower x)" for x by (auto simp: sublist_def) (metis map_append)
  then show "not_in_marks w"
    using m b unfolding not_in_marks_def by (metis (no_types, lifting) imageI list.map_disc_iff list.set_map)
  have "byte (ascii_lower c) < 128 \<Longrightarrow> byte c < 128" for c
    by (auto simp: ascii_lower_def in_byte_range_def split: if_splits)
  then show "ascii w" using m(4) by (auto simp: ascii_def list_all_iff)
qed

text \<open>What the patterns for file descriptors and for Windows paths leave.\<close>

lemma fd_path_gone:
  assumes "is_digit n"
  shows "\<not> sublist (''/dev/fd/'' @ [n]) (redact_patterns d)"
proof -
  let ?p = "''/dev/fd/'' @ [n]"
  have n: "n \<notin> {CHR ''['', CHR '']''}" using assms by (auto simp: is_digit_def in_byte_range_def)
  have p: "not_in_marks ?p" unfolding not_in_marks_def using n by (auto simp: sublist_code)
  have "\<exists>k. fdPathPattern start t = Some (Suc k)" if "prefix ?p t" for start t
    using that assms by (auto simp: fdPathPattern_def prefix_def Let_def)
  from pattern_gone [OF bracketed_const(2) [OF p], of fdPathPattern, OF this]
  show ?thesis
    using scan_sublist [OF bracketed_match [OF p]] scan_sublist [OF bracketed_const(1) [OF p]]
    unfolding redact_patterns_def Let_def by blast
qed

lemma windows_path_gone:
  assumes "ascii_letter a"
  shows "\<not> sublist [a, CHR '':'', CHR 0x5C] (redact_patterns d)"
proof -
  let ?p = "[a, CHR '':'', CHR 0x5C]"
  have n: "a \<notin> {CHR ''['', CHR '']''}" using assms by (auto simp: ascii_letter_def in_byte_range_def)
  have p: "not_in_marks ?p" unfolding not_in_marks_def using n by (auto simp: sublist_code)
  have "\<exists>k. windowsPathPattern start t = Some (Suc k)" if "prefix ?p t" for start t
    using that assms by (auto simp: prefix_def)
  from pattern_gone [OF bracketed_const(1) [OF p], of windowsPathPattern, OF this]
  show ?thesis
    using scan_sublist [OF bracketed_match [OF p]] unfolding redact_patterns_def Let_def by blast
qed

lemma control_not_in_marks: "forbidden_control c \<Longrightarrow> not_in_marks [c]"
proof -
  assume c: "forbidden_control c"
  have "list_all (\<lambda>x. \<not> forbidden_control x) (''REDACTED_PATH'' @ ''REDACTED_FD'' @ ''[]'')" by code_simp
  then have "c \<notin> set (''REDACTED_PATH'' @ ''REDACTED_FD'' @ ''[]'')" using c unfolding list_all_iff by blast
  then show ?thesis unfolding not_in_marks_def by (auto simp: sublist_code)
qed


text \<open>The order of the steps leaves one way out: a blank outside ASCII does not count as an opening
  character, and trimming removes it afterwards, so that the shown text begins with the path.\<close>

lemma trim_exposes_path:
  "sanitizeDiagnostic None ([CHR 0xC2, CHR 0xA0] @ ''/etc/passwd'') [] = (''/etc/passwd'', False, False)"
  by code_simp


end
