(* ===== verification/Verify_Runner.thy ===== *)
theory Verify_Runner
  imports Verify_Diagnostic
begin

section \<open>The runner of fixed commands (internal/verify/runner.go)\<close>

text \<open>
  A verification preset runs in two processes: \<open>Run\<close> starts the worker itself again as a helper with the
  repository's root on descriptor 3 and a control pipe on descriptor 4, and \<open>RunInternal\<close>, in the helper,
  checks where it is, prepares the caches and replaces itself with the command. The answers of the
  kernel to the helper are a record of functions on a state \<open>'x\<close>; what happens to the helper from the
  point of view of \<open>Run\<close> is an argument. The theory shows which commands can run with which environment,
  and that the stage of failure a client reads is the one at which the run failed.
\<close>

subsection \<open>The presets\<close>

definition InternalPresetEnvironment :: string where
  "InternalPresetEnvironment = ''M3_REPOWORKER_INTERNAL_FIXED_PRESET''"

definition internalRootFD :: int where "internalRootFD = 3"

type_synonym preset = string

definition PresetFmt :: preset where "PresetFmt = ''fmt''"
definition PresetTest :: preset where "PresetTest = ''test''"
definition PresetTestRace :: preset where "PresetTestRace = ''test-race''"
definition PresetVet :: preset where "PresetVet = ''vet''"
definition PresetMCPIntegration :: preset where "PresetMCPIntegration = ''mcp-integration''"
definition PresetVerify :: preset where "PresetVerify = ''verify''"
definition PresetGoModTidy :: preset where "PresetGoModTidy = ''go-mod-tidy''"

lemmas preset_defs = PresetFmt_def PresetTest_def PresetTestRace_def PresetVet_def PresetMCPIntegration_def
  PresetVerify_def PresetGoModTidy_def

record commandDefinition =
  cd_executable :: string
  cd_arguments :: "string list"
  cd_timeout :: duration
  cd_network :: bool

definition make_target :: "string \<Rightarrow> int \<Rightarrow> commandDefinition" where
  "make_target target minutes =
     \<lparr>cd_executable = ''make'', cd_arguments = [target], cd_timeout = minutes * minute, cd_network = False\<rparr>"

definition commandDefinitions :: "preset \<Rightarrow> commandDefinition option" where
  "commandDefinitions = map_of
    [(PresetFmt, make_target ''fmt-check'' 2),
     (PresetTest, make_target ''test'' 5),
     (PresetTestRace, make_target ''test-race'' 10),
     (PresetVet, make_target ''vet'' 5),
     (PresetMCPIntegration, make_target ''mcp-integration'' 5),
     (PresetVerify, make_target ''verify'' 15),
     (PresetGoModTidy, \<lparr>cd_executable = ''go'', cd_arguments = [''mod'', ''tidy''], cd_timeout = 10 * minute,
        cd_network = True\<rparr>)]"

definition VerificationPreset :: "string \<Rightarrow> preset \<times> bool" where
  "VerificationPreset check =
    (if check \<in> {PresetFmt, PresetTest, PresetTestRace, PresetVet, PresetMCPIntegration, PresetVerify}
     then (check, True) else ('''', False))"

text \<open>An environment is a map from names to values.\<close>

type_synonym environ = "string \<Rightarrow> string option"

definition Getenv :: "environ \<Rightarrow> string \<Rightarrow> string" where
  "Getenv env name = (case env name of None \<Rightarrow> [] | Some v \<Rightarrow> v)"

definition InternalRequest :: "environ \<Rightarrow> preset \<times> bool" where
  "InternalRequest env =
    (case env InternalPresetEnvironment of None \<Rightarrow> ([], False) | Some v \<Rightarrow> (v, v \<noteq> []))"

subsection \<open>Stages and outcomes\<close>

definition StageResolve :: string where "StageResolve = ''resolve''"
definition StageStart :: string where "StageStart = ''start''"
definition StageExecution :: string where "StageExecution = ''execution''"
definition StageTimeout :: string where "StageTimeout = ''timeout''"
definition StageSanitize :: string where "StageSanitize = ''sanitize''"

lemmas stage_defs = StageResolve_def StageStart_def StageExecution_def StageTimeout_def StageSanitize_def

record Outcome =
  vo_ExitCode :: int
  vo_TimedOut :: bool
  vo_FailureStage :: string
  vo_Diagnostic :: string
  vo_Truncated :: bool

definition zero_outcome :: Outcome where
  "zero_outcome = \<lparr>vo_ExitCode = 0, vo_TimedOut = False, vo_FailureStage = [], vo_Diagnostic = [], vo_Truncated = False\<rparr>"

definition stage_outcome :: "string \<Rightarrow> Outcome" where
  "stage_outcome stage = zero_outcome\<lparr>vo_ExitCode := - 1, vo_FailureStage := stage\<rparr>"

text \<open>\<open>os.UserHomeDir\<close>.\<close>

definition userHomeDir :: "environ \<Rightarrow> string option" where
  "userHomeDir env = (let h = Getenv env ''HOME'' in if h = [] then None else Some h)"

definition failedOutcome :: "environ \<Rightarrow> int \<Rightarrow> string \<Rightarrow> boundedCapture \<Rightarrow> string list \<Rightarrow> Outcome" where
  "failedOutcome env exitCode stage c redactions =
    (let (diagnostic, sanitizedTruncated, suppressed) = sanitizeDiagnostic (userHomeDir env) (bc_data c) redactions
     in \<lparr>vo_ExitCode = exitCode, vo_TimedOut = False,
         vo_FailureStage = (if suppressed then StageSanitize else stage),
         vo_Diagnostic = (if suppressed then [] else diagnostic),
         vo_Truncated = (bc_truncated c \<or> sanitizedTruncated)\<rparr>)"

text \<open>The control pipe: at most 64 bytes are read; \<open>None\<close> is an error of reading.\<close>

definition readControlStage :: "string option \<Rightarrow> string" where
  "readControlStage content =
    (case content of
       None \<Rightarrow> StageSanitize
     | Some s \<Rightarrow>
         (let stage = trim_space (take 64 s)
          in if stage \<in> {'''', StageResolve, StageStart} then stage else StageSanitize))"

subsection \<open>Environments\<close>

definition home_entry :: "environ \<Rightarrow> string list" where
  "home_entry env =
    (let h = Getenv env ''HOME'' in if h \<noteq> [] \<and> is_abs h \<and> clean h = h then [''HOME='' @ h] else [])"

definition helperEnvironment :: "environ \<Rightarrow> string list" where
  "helperEnvironment env = [''PATH='' @ Getenv env ''PATH'', ''LC_ALL=C'', ''LANG=C''] @ home_entry env"

record cachePaths =
  cp_goBuild :: string
  cp_goMod :: string
  cp_goPath :: string

definition no_cache :: cachePaths where
  "no_cache = \<lparr>cp_goBuild = [], cp_goMod = [], cp_goPath = []\<rparr>"

definition commandEnvironment :: "environ \<Rightarrow> preset \<Rightarrow> cachePaths \<Rightarrow> string list" where
  "commandEnvironment env p cache =
    (case commandDefinitions p of
       None \<Rightarrow> []
     | Some d \<Rightarrow>
         if \<not> is_abs (cp_goBuild cache) \<or> \<not> is_abs (cp_goMod cache) \<or> \<not> is_abs (cp_goPath cache) then []
         else [''PATH='' @ Getenv env ''PATH'', ''LC_ALL=C'', ''LANG=C'', ''GIT_CONFIG_NOSYSTEM=1'',
               ''GIT_CONFIG_GLOBAL=/dev/null'', ''GIT_TERMINAL_PROMPT=0'', ''GIT_OPTIONAL_LOCKS=0'',
               ''GOCACHE='' @ cp_goBuild cache, ''GOMODCACHE='' @ cp_goMod cache, ''GOPATH='' @ cp_goPath cache]
              @ home_entry env
              @ (if cd_network d
                 then [''GOPROXY=https://proxy.golang.org'', ''GOSUMDB=sum.golang.org'', ''GOPRIVATE='',
                       ''GONOPROXY=none'', ''GONOSUMDB='']
                 else [''GOPROXY=off'']))"

subsection \<open>The process that starts the helper\<close>

datatype verify_error = V_Rejected | V_Context

text \<open>How \<open>command.Wait\<close> ended; the exit code of a process killed by a signal is -1.\<close>

datatype wait_result = Wait_OK | Wait_Exit int | Wait_Failed

text \<open>What the select of \<open>runWithTimeout\<close> saw: the end of the helper, or the end of the run's context, with
  the caller's context at that moment (\<open>Ctx_Live\<close> when it was the timeout).\<close>

datatype run_end = Waited wait_result | Done go_ctx

text \<open>The world of \<open>Run\<close>: \<open>root.Stat\<close> (\<open>None\<close> on an error, else whether it is a directory),
  \<open>os.Executable\<close>, \<open>filepath.EvalSymlinks\<close>, whether the pipe and the process could be made, the writes to
  standard output and error, what the control pipe held at the end, and the end of the run.\<close>

record run_world =
  rn_root :: "bool option"
  rn_executable :: "string option"
  rn_symlinks :: "string \<Rightarrow> string option"
  rn_pipe :: bool
  rn_started :: bool
  rn_output :: "string list"
  rn_control :: "string option"
  rn_end :: run_end

record launch =
  la_path :: string
  la_environment :: "string list"
  la_own_group :: bool

definition helper_launch :: "environ \<Rightarrow> preset \<Rightarrow> string \<Rightarrow> launch" where
  "helper_launch env p executable =
     \<lparr>la_path = executable,
      la_environment = helperEnvironment env @ [InternalPresetEnvironment @ ''='' @ p]
        @ concat (map (\<lambda>name. case env name of Some v \<Rightarrow> if v \<noteq> [] then [name @ ''='' @ v] else [] | None \<Rightarrow> [])
                    [''GOCACHE'', ''GOMODCACHE'', ''GOPATH'']),
      la_own_group = True\<rparr>"

definition finish_run :: "environ \<Rightarrow> run_world \<Rightarrow> string list \<Rightarrow> Outcome \<times> verify_error option" where
  "finish_run env w redactions =
    (let c = capture_all (rn_output w) (new_capture CaptureLimit)
     in case rn_end w of
          Waited r \<Rightarrow>
            (let stage = readControlStage (rn_control w);
                 stage' = (if stage = [] then StageExecution else stage)
             in case r of
                  Wait_OK \<Rightarrow> (zero_outcome, None)
                | Wait_Exit n \<Rightarrow> (failedOutcome env n stage' c redactions, None)
                | Wait_Failed \<Rightarrow> (failedOutcome env (- 1) stage' c redactions, None))
        | Done ctx \<Rightarrow>
            if ctx_err ctx then (failedOutcome env (- 1) StageExecution c redactions, Some V_Context)
            else ((failedOutcome env (- 1) StageTimeout c redactions)\<lparr>vo_TimedOut := True\<rparr>, None))"

definition runWithTimeout ::
  "environ \<Rightarrow> run_world \<Rightarrow> go_ctx \<Rightarrow> preset \<Rightarrow> string list \<Rightarrow> duration
     \<Rightarrow> launch option \<times> Outcome \<times> verify_error option" where
  "runWithTimeout env w ctx p redactions timeout =
    (if ctx = Ctx_Nil \<or> timeout \<le> 0 \<or> commandDefinitions p = None \<or> rn_root w \<noteq> Some True
     then (None, zero_outcome, Some V_Rejected)
     else (case rn_executable w of
             None \<Rightarrow> (None, stage_outcome StageResolve, None)
           | Some exe0 \<Rightarrow>
               if \<not> is_abs exe0 then (None, stage_outcome StageResolve, None)
               else (case rn_symlinks w exe0 of
                       None \<Rightarrow> (None, stage_outcome StageResolve, None)
                     | Some exe \<Rightarrow>
                         if \<not> is_abs exe then (None, stage_outcome StageResolve, None)
                         else if \<not> rn_pipe w then (None, stage_outcome StageStart, None)
                         else if \<not> rn_started w
                         then (Some (helper_launch env p exe),
                               failedOutcome env (- 1) StageStart (new_capture CaptureLimit) redactions, None)
                         else (Some (helper_launch env p exe), finish_run env w redactions))))"

definition Run ::
  "environ \<Rightarrow> run_world \<Rightarrow> go_ctx \<Rightarrow> preset \<Rightarrow> string list
     \<Rightarrow> launch option \<times> Outcome \<times> verify_error option" where
  "Run env w ctx p redactions =
    (case commandDefinitions p of
       None \<Rightarrow> (None, zero_outcome, Some V_Rejected)
     | Some d \<Rightarrow> runWithTimeout env w ctx p redactions (cd_timeout d))"

subsection \<open>The helper\<close>

record file_stat =
  st_Dev :: nat
  st_Ino :: nat
  st_dir :: bool

datatype open_result = Opened int | No_Entry | Open_Failed

datatype mkdir_result = Made | Exists | Mkdir_Failed

text \<open>The kernel as the helper sees it. Every call may change the state, on which later answers depend.
  \<open>k_Open\<close> and \<open>k_Openat\<close> open directories and follow no symbolic link at the end of a path; \<open>k_Lstat\<close> tells
  whether a path is a directory and no link; \<open>k_Exec\<close> answers \<open>True\<close> when the process was replaced.\<close>

record 'x kernel =
  k_Fstat :: "int \<Rightarrow> 'x \<Rightarrow> file_stat option \<times> 'x"
  k_Fchdir :: "int \<Rightarrow> 'x \<Rightarrow> bool \<times> 'x"
  k_Open :: "string \<Rightarrow> 'x \<Rightarrow> int option \<times> 'x"
  k_Openat :: "int \<Rightarrow> string \<Rightarrow> 'x \<Rightarrow> open_result \<times> 'x"
  k_Mkdirat :: "int \<Rightarrow> string \<Rightarrow> 'x \<Rightarrow> mkdir_result \<times> 'x"
  k_Close :: "int \<Rightarrow> 'x \<Rightarrow> bool \<times> 'x"
  k_Getwd :: "'x \<Rightarrow> string option \<times> 'x"
  k_MkdirAll :: "string \<Rightarrow> 'x \<Rightarrow> bool \<times> 'x"
  k_Chmod :: "string \<Rightarrow> 'x \<Rightarrow> bool \<times> 'x"
  k_Lstat :: "string \<Rightarrow> 'x \<Rightarrow> bool option \<times> 'x"
  k_EvalSymlinks :: "string \<Rightarrow> 'x \<Rightarrow> string option \<times> 'x"
  k_LookPath :: "string \<Rightarrow> 'x \<Rightarrow> string option \<times> 'x"
  k_Exec :: "string \<Rightarrow> string list \<Rightarrow> string list \<Rightarrow> 'x \<Rightarrow> bool \<times> 'x"

definition same_file :: "file_stat \<Rightarrow> file_stat \<Rightarrow> bool" where
  "same_file a b \<longleftrightarrow> st_Dev a = st_Dev b \<and> st_Ino a = st_Ino b"

definition closing :: "'x kernel \<Rightarrow> int \<Rightarrow> 'a \<times> 'x \<Rightarrow> 'a \<times> 'x" where
  "closing k fd r = (fst r, snd (k_Close k fd (snd r)))"

definition currentDirectoryMatches :: "'x kernel \<Rightarrow> file_stat \<Rightarrow> 'x \<Rightarrow> bool \<times> 'x" where
  "currentDirectoryMatches k expected x =
    (case k_Open k ''.'' x of
       (None, x1) \<Rightarrow> (False, x1)
     | (Some fd, x1) \<Rightarrow>
         closing k fd (case k_Fstat k fd x1 of
             (None, x2) \<Rightarrow> (False, x2)
           | (Some current, x2) \<Rightarrow> (same_file current expected, x2)))"

definition verifyRootPath :: "'x kernel \<Rightarrow> int \<Rightarrow> string \<Rightarrow> file_stat \<Rightarrow> 'x \<Rightarrow> bool \<times> 'x" where
  "verifyRootPath k rootFD path expected x =
    (if \<not> is_abs path then (False, x)
     else (case k_Open k path x of
             (None, x1) \<Rightarrow> (False, x1)
           | (Some fd, x1) \<Rightarrow>
               closing k fd (case k_Fstat k fd x1 of
                   (None, x2) \<Rightarrow> (False, x2)
                 | (Some pathStat, x2) \<Rightarrow>
                     (case k_Fstat k rootFD x2 of
                        (None, x3) \<Rightarrow> (False, x3)
                      | (Some opened, x3) \<Rightarrow> (same_file opened expected \<and> same_file pathStat expected, x3)))))"

definition verifiedWorkingDirectory :: "'x kernel \<Rightarrow> int \<Rightarrow> file_stat \<Rightarrow> 'x \<Rightarrow> string option \<times> 'x" where
  "verifiedWorkingDirectory k rootFD expected x =
    (case currentDirectoryMatches k expected x of
       (False, x1) \<Rightarrow> (None, x1)
     | (True, x1) \<Rightarrow>
         (case k_Getwd k x1 of
            (None, x2) \<Rightarrow> (None, x2)
          | (Some cwd, x2) \<Rightarrow>
              if \<not> is_abs cwd then (None, x2)
              else (case verifyRootPath k rootFD cwd expected x2 of
                      (False, x3) \<Rightarrow> (None, x3)
                    | (True, x3) \<Rightarrow> (Some (clean cwd), x3))))"

definition verifyDirectoryPath :: "'x kernel \<Rightarrow> string \<Rightarrow> int \<Rightarrow> nat \<Rightarrow> 'x \<Rightarrow> bool \<times> 'x" where
  "verifyDirectoryPath k path openedFD rootDevice x =
    (if \<not> is_abs path then (False, x)
     else (case k_Open k path x of
             (None, x1) \<Rightarrow> (False, x1)
           | (Some fd, x1) \<Rightarrow>
               closing k fd (case k_Fstat k fd x1 of
                   (None, x2) \<Rightarrow> (False, x2)
                 | (Some p, x2) \<Rightarrow>
                     (case k_Fstat k openedFD x2 of
                        (None, x3) \<Rightarrow> (False, x3)
                      | (Some opened, x3) \<Rightarrow>
                          (st_dir p \<and> st_dir opened \<and> st_Dev p = rootDevice \<and> st_Dev opened = rootDevice
                             \<and> same_file p opened, x3)))))"

definition open_retry :: "'x kernel \<Rightarrow> int \<Rightarrow> string \<Rightarrow> 'x \<Rightarrow> int option \<times> 'x" where
  "open_retry k parentFD name x =
    (case k_Openat k parentFD name x of
       (Opened fd, x1) \<Rightarrow> (Some fd, x1)
     | (Open_Failed, x1) \<Rightarrow> (None, x1)
     | (No_Entry, x1) \<Rightarrow>
         (case k_Mkdirat k parentFD name x1 of
            (Mkdir_Failed, x2) \<Rightarrow> (None, x2)
          | (_, x2) \<Rightarrow>
              (case k_Openat k parentFD name x2 of
                 (Opened fd, x3) \<Rightarrow> (Some fd, x3)
               | (_, x3) \<Rightarrow> (None, x3))))"

definition openOrCreateDirectoryAt :: "'x kernel \<Rightarrow> int \<Rightarrow> string \<Rightarrow> nat \<Rightarrow> 'x \<Rightarrow> int option \<times> 'x" where
  "openOrCreateDirectoryAt k parentFD name rootDevice x =
    (case open_retry k parentFD name x of
       (None, x1) \<Rightarrow> (None, x1)
     | (Some fd, x1) \<Rightarrow>
         (case k_Fstat k fd x1 of
            (Some st, x2) \<Rightarrow>
              if st_dir st \<and> st_Dev st = rootDevice then (Some fd, x2) else closing k fd (None, x2)
          | (None, x2) \<Rightarrow> closing k fd (None, x2)))"

text \<open>
  \<open>configuredCacheDirectories\<close>: \<open>Inl\<close> is an error; a value that is not usable ends the loop without one and
  leaves no cache (\<open>no_cache\<close>), after earlier values have been created.
\<close>

definition usable_cache_value :: "string \<Rightarrow> bool" where
  "usable_cache_value v \<longleftrightarrow> v \<noteq> [] \<and> is_abs v \<and> clean v = v \<and> \<not> contains_any v (control_chars @ '':'')"

definition private_cache_directory :: "'x kernel \<Rightarrow> string \<Rightarrow> 'x \<Rightarrow> bool \<times> 'x" where
  "private_cache_directory k v x =
    (case k_MkdirAll k v x of
       (False, x1) \<Rightarrow> (False, x1)
     | (True, x1) \<Rightarrow>
         (case k_Chmod k v x1 of
            (False, x2) \<Rightarrow> (False, x2)
          | (True, x2) \<Rightarrow>
              (case k_Lstat k v x2 of
                 (Some True, x3) \<Rightarrow> (case k_EvalSymlinks k v x3 of (c, x4) \<Rightarrow> (c = Some v, x4))
               | (_, x3) \<Rightarrow> (False, x3))))"

fun configured_values :: "'x kernel \<Rightarrow> environ \<Rightarrow> string list \<Rightarrow> 'x \<Rightarrow> (unit + string list option) \<times> 'x" where
  "configured_values k env [] x = (Inr (Some []), x)"
| "configured_values k env (name # names) x =
    (let v = Getenv env name
     in if \<not> usable_cache_value v then (Inr None, x)
        else (case private_cache_directory k v x of
                (False, x1) \<Rightarrow> (Inl (), x1)
              | (True, x1) \<Rightarrow>
                  (case configured_values k env names x1 of
                     (Inr (Some vs), x2) \<Rightarrow> (Inr (Some (v # vs)), x2)
                   | (r, x2) \<Rightarrow> (r, x2))))"

definition configuredCacheDirectories :: "'x kernel \<Rightarrow> environ \<Rightarrow> 'x \<Rightarrow> (unit + cachePaths) \<times> 'x" where
  "configuredCacheDirectories k env x =
    (case configured_values k env [''GOCACHE'', ''GOMODCACHE'', ''GOPATH''] x of
       (Inr (Some vs), x1) \<Rightarrow> (Inr \<lparr>cp_goBuild = vs ! 0, cp_goMod = vs ! 1, cp_goPath = vs ! 2\<rparr>, x1)
     | (Inr None, x1) \<Rightarrow> (Inr no_cache, x1)
     | (Inl e, x1) \<Rightarrow> (Inl e, x1))"

fun ensure_children :: "'x kernel \<Rightarrow> nat \<Rightarrow> string \<Rightarrow> int \<Rightarrow> string list \<Rightarrow> cachePaths \<Rightarrow> 'x \<Rightarrow> cachePaths option \<times> 'x" where
  "ensure_children k dev cacheRoot cacheFD [] res x = (Some res, x)"
| "ensure_children k dev cacheRoot cacheFD (name # names) res x =
    (case openOrCreateDirectoryAt k cacheFD name dev x of
       (None, x1) \<Rightarrow> (None, x1)
     | (Some childFD, x1) \<Rightarrow>
         (let absolutePath = join_path cacheRoot name
          in case verifyDirectoryPath k absolutePath childFD dev x1 of
               (False, x2) \<Rightarrow> closing k childFD (None, x2)
             | (True, x2) \<Rightarrow>
                 (let res' = (if name = ''go-build'' then res\<lparr>cp_goBuild := absolutePath\<rparr>
                              else if name = ''go-mod'' then res\<lparr>cp_goMod := absolutePath\<rparr>
                              else if name = ''go-path'' then res\<lparr>cp_goPath := absolutePath\<rparr> else res)
                  in case k_Close k childFD x2 of
                       (False, x3) \<Rightarrow> (None, x3)
                     | (True, x3) \<Rightarrow> ensure_children k dev cacheRoot cacheFD names res' x3)))"

definition ensureCacheDirectories ::
  "'x kernel \<Rightarrow> int \<Rightarrow> nat \<Rightarrow> string \<Rightarrow> 'x \<Rightarrow> cachePaths option \<times> 'x" where
  "ensureCacheDirectories k rootFD rootDevice verifiedCWD x =
    (if \<not> is_abs verifiedCWD then (None, x)
     else (case openOrCreateDirectoryAt k rootFD ''.cache'' rootDevice x of
             (None, x1) \<Rightarrow> (None, x1)
           | (Some cacheFD, x1) \<Rightarrow>
               (let cacheRoot = join_path verifiedCWD ''.cache''
                in closing k cacheFD
                    (case verifyDirectoryPath k cacheRoot cacheFD rootDevice x1 of
                       (False, x2) \<Rightarrow> (None, x2)
                     | (True, x2) \<Rightarrow>
                         (case ensure_children k rootDevice cacheRoot cacheFD [''go-build'', ''go-mod'', ''go-path''] no_cache x2 of
                            (None, x3) \<Rightarrow> (None, x3)
                          | (Some res, x3) \<Rightarrow>
                              (if cp_goBuild res = [] \<or> cp_goMod res = [] \<or> cp_goPath res = [] then None else Some res,
                               x3))))))"

definition resolveExecutable :: "'x kernel \<Rightarrow> string \<Rightarrow> 'x \<Rightarrow> string option \<times> 'x" where
  "resolveExecutable k name x =
    (case k_LookPath k name x of
       (None, x1) \<Rightarrow> (None, x1)
     | (Some path, x1) \<Rightarrow>
         if \<not> is_abs path then (None, x1)
         else (case k_EvalSymlinks k path x1 of
                 (None, x2) \<Rightarrow> (None, x2)
               | (Some path', x2) \<Rightarrow> (if is_abs path' then Some path' else None, x2)))"

text \<open>The helper ends with an exit code, after it has written a stage to the control pipe, or it becomes the
  command.\<close>

datatype helper_end = Helper_Exit int string | Helper_Exec string "string list" "string list"

definition helper_fail :: "string \<Rightarrow> helper_end" where
  "helper_fail stage = Helper_Exit 125 stage"

text \<open>The checks before the caches: the inherited root is a directory, it becomes the working directory, and
  the working directory's name leads to it.\<close>

definition enter_root :: "'x kernel \<Rightarrow> 'x \<Rightarrow> (file_stat \<times> string) option \<times> 'x" where
  "enter_root k x =
    (case k_Fstat k internalRootFD x of
       (None, x1) \<Rightarrow> (None, x1)
     | (Some rootStat, x1) \<Rightarrow>
         if \<not> st_dir rootStat then (None, x1)
         else (case k_Fchdir k internalRootFD x1 of
                 (False, x2) \<Rightarrow> (None, x2)
               | (True, x2) \<Rightarrow>
                   (case currentDirectoryMatches k rootStat x2 of
                      (False, x3) \<Rightarrow> (None, x3)
                    | (True, x3) \<Rightarrow>
                        (case verifiedWorkingDirectory k internalRootFD rootStat x3 of
                           (None, x4) \<Rightarrow> (None, x4)
                         | (Some cwd, x4) \<Rightarrow> (Some (rootStat, cwd), x4)))))"

definition prepare_caches :: "'x kernel \<Rightarrow> environ \<Rightarrow> file_stat \<Rightarrow> string \<Rightarrow> 'x \<Rightarrow> cachePaths option \<times> 'x" where
  "prepare_caches k env rootStat verifiedCWD x =
    (case openOrCreateDirectoryAt k internalRootFD ''.cache'' (st_Dev rootStat) x of
       (None, x1) \<Rightarrow> (None, x1)
     | (Some cacheRootFD, x1) \<Rightarrow>
         (case k_Close k cacheRootFD x1 of
            (False, x2) \<Rightarrow> (None, x2)
          | (True, x2) \<Rightarrow>
              (case configuredCacheDirectories k env x2 of
                 (Inl _, x3) \<Rightarrow> (None, x3)
               | (Inr cache, x3) \<Rightarrow>
                   if cache = no_cache
                   then ensureCacheDirectories k internalRootFD (st_Dev rootStat) verifiedCWD x3
                   else (Some cache, x3))))"

definition RunInternal :: "'x kernel \<Rightarrow> environ \<Rightarrow> preset \<Rightarrow> 'x \<Rightarrow> helper_end \<times> 'x" where
  "RunInternal k env p x =
    (case commandDefinitions p of
       None \<Rightarrow> (helper_fail StageResolve, x)
     | Some d \<Rightarrow>
         (case enter_root k x of
            (None, x1) \<Rightarrow> (helper_fail StageStart, x1)
          | (Some (rootStat, cwd), x1) \<Rightarrow>
              (case prepare_caches k env rootStat cwd x1 of
                 (None, x2) \<Rightarrow> (helper_fail StageStart, x2)
               | (Some cache, x2) \<Rightarrow>
                   (case resolveExecutable k (cd_executable d) x2 of
                      (None, x3) \<Rightarrow> (helper_fail StageResolve, x3)
                    | (Some exe, x3) \<Rightarrow>
                        (let args = exe # cd_arguments d;
                             cenv = commandEnvironment env p cache @ [InternalPresetEnvironment @ ''='' @ p]
                         in case k_Exec k exe args cenv x3 of
                              (True, x4) \<Rightarrow> (Helper_Exec exe args cenv, x4)
                            | (False, x4) \<Rightarrow> (helper_fail StageStart, x4))))))"

subsection \<open>What the helper can become\<close>

definition cache_absolute :: "cachePaths \<Rightarrow> bool" where
  "cache_absolute c \<longleftrightarrow> is_abs (cp_goBuild c) \<and> is_abs (cp_goMod c) \<and> is_abs (cp_goPath c)"

lemma is_abs_Nil [simp]: "\<not> is_abs []"
  by (simp add: is_abs_def)

lemma configured_values_usable:
  "configured_values k env names x = (Inr (Some vs), x') \<Longrightarrow>
     length vs = length names \<and> list_all usable_cache_value vs"
  by (induction k env names x arbitrary: vs x' rule: configured_values.induct)
    (auto simp: Let_def split: if_splits prod.splits bool.splits sum.splits option.splits)

definition configured_caches :: "environ \<Rightarrow> cachePaths" where
  "configured_caches env =
     \<lparr>cp_goBuild = Getenv env ''GOCACHE'', cp_goMod = Getenv env ''GOMODCACHE'', cp_goPath = Getenv env ''GOPATH''\<rparr>"

lemma configured_values_where:
  assumes "configuredCacheDirectories k env x = (Inr c, x')" and "c \<noteq> no_cache"
  shows "c = configured_caches env"
proof -
  have vs: "configured_values k env names x = (Inr (Some vs), x') \<Longrightarrow> vs = map (Getenv env) names" for names vs x x'
    by (induction k env names x arbitrary: vs x' rule: configured_values.induct)
      (auto simp: Let_def split: if_splits prod.splits bool.splits sum.splits option.splits)
  show ?thesis
    using assms by (auto simp del: configured_values.simps simp: configuredCacheDirectories_def configured_caches_def
        dest!: vs split: prod.splits sum.splits option.splits)
qed

lemma configured_absolute:
  assumes "configuredCacheDirectories k env x = (Inr c, x')" and "c \<noteq> no_cache"
  shows "cache_absolute c"
proof -
  obtain vs where vs: "configured_values k env [''GOCACHE'', ''GOMODCACHE'', ''GOPATH''] x = (Inr (Some vs), x')"
    and c: "c = \<lparr>cp_goBuild = vs ! 0, cp_goMod = vs ! 1, cp_goPath = vs ! 2\<rparr>"
    using assms by (auto simp del: configured_values.simps simp: configuredCacheDirectories_def
        split: prod.splits sum.splits option.splits)
  from configured_values_usable [OF vs] show ?thesis
    by (auto simp: c cache_absolute_def usable_cache_value_def list_all_length)
qed

text \<open>Where the caches of a command lie: in the configured directories, or below the working directory.\<close>

definition set_cache :: "string \<Rightarrow> string \<Rightarrow> cachePaths \<Rightarrow> cachePaths" where
  "set_cache root name c =
    (if name = ''go-build'' then c\<lparr>cp_goBuild := join_path root name\<rparr>
     else if name = ''go-mod'' then c\<lparr>cp_goMod := join_path root name\<rparr>
     else if name = ''go-path'' then c\<lparr>cp_goPath := join_path root name\<rparr> else c)"

definition local_caches :: "string \<Rightarrow> cachePaths" where
  "local_caches cwd =
    (let root = join_path cwd ''.cache''
     in \<lparr>cp_goBuild = join_path root ''go-build'', cp_goMod = join_path root ''go-mod'', cp_goPath = join_path root ''go-path''\<rparr>)"

lemma ensure_children_set:
  "ensure_children k dev root fd names res x = (Some res', x') \<Longrightarrow>
     res' = fold (set_cache root) names res \<and> (\<forall>name \<in> set names. is_abs (join_path root name))"
proof (induction k dev root fd names res x arbitrary: res' x' rule: ensure_children.induct)
  case (2 k dev root fd name names res x)
  from 2(2) obtain child x1 x2 x3 where
    o: "openOrCreateDirectoryAt k fd name dev x = (Some child, x1)"
    and v: "verifyDirectoryPath k (join_path root name) child dev x1 = (True, x2)"
    and c: "k_Close k child x2 = (True, x3)"
    by (auto simp: Let_def closing_def split: prod.splits option.splits bool.splits)
  have a: "is_abs (join_path root name)"
    using v by (auto simp: verifyDirectoryPath_def split: if_splits)
  show ?case
    using 2(1) [OF o [symmetric] refl refl v [symmetric] _ refl c [symmetric]] 2(2) a
    by (simp add: o v c Let_def set_cache_def split: if_splits)
qed simp

lemma ensured_caches:
  assumes "ensureCacheDirectories k fd dev cwd x = (Some c, x')"
  shows "c = local_caches cwd \<and> cache_absolute c"
proof -
  let ?root = "join_path cwd ''.cache''"
  obtain cacheFD x1 x2 res x3 where
    e: "ensure_children k dev ?root cacheFD [''go-build'', ''go-mod'', ''go-path''] no_cache x2 = (Some res, x3)"
    and c: "c = res"
    using assms by (auto simp del: ensure_children.simps simp: ensureCacheDirectories_def Let_def closing_def
        split: if_splits prod.splits option.splits bool.splits)
  from ensure_children_set [OF e] show ?thesis
    by (simp add: c set_cache_def no_cache_def local_caches_def Let_def cache_absolute_def)
qed

lemma prepare_caches_where:
  assumes "prepare_caches k env st cwd x = (Some c, x')"
  shows "cache_absolute c" and "c = configured_caches env \<or> c = local_caches cwd"
  using assms by (auto simp: prepare_caches_def dest: configured_absolute configured_values_where ensured_caches
      split: if_splits prod.splits option.splits bool.splits sum.splits)

lemma resolveExecutable_Some:
  "resolveExecutable k name y = (Some exe, y2) \<Longrightarrow> \<exists>path y1. k_LookPath k name y = (Some path, y1) \<and> is_abs path
     \<and> k_EvalSymlinks k path y1 = (Some exe, y2) \<and> is_abs exe"
  by (auto simp: resolveExecutable_def split: prod.splits option.splits if_splits)

text \<open>The two ends of the helper, with what led to them.\<close>

lemma RunInternal_cases:
  assumes "RunInternal k env p x = (h, x')"
  obtains (unknown) "commandDefinitions p = None" "h = helper_fail StageResolve"
  | (unresolved) d y where "commandDefinitions p = Some d" "h = helper_fail StageResolve"
      "fst (resolveExecutable k (cd_executable d) y) = None"
  | (unprepared) d where "commandDefinitions p = Some d" "h = helper_fail StageStart"
      "fst (enter_root k x) = None \<or> (\<exists>root cwd y. fst (enter_root k x) = Some (root, cwd) \<and> fst (prepare_caches k env root cwd y) = None)
       \<or> (\<exists>exe args cenv y. \<not> fst (k_Exec k exe args cenv y))"
  | (exec) d cache exe root cwd path x1 y y1 y2 cenv where "commandDefinitions p = Some d"
      "enter_root k x = (Some (root, cwd), x1)" "cache_absolute cache" "cache = configured_caches env \<or> cache = local_caches cwd"
      "k_LookPath k (cd_executable d) y = (Some path, y1)" "is_abs path" "k_EvalSymlinks k path y1 = (Some exe, y2)" "is_abs exe"
      "cenv = commandEnvironment env p cache @ [InternalPresetEnvironment @ ''='' @ p]"
      "k_Exec k exe (exe # cd_arguments d) cenv y2 = (True, x')" "h = Helper_Exec exe (exe # cd_arguments d) cenv"
proof (cases "commandDefinitions p")
  case None
  then show ?thesis using assms unknown by (auto simp: RunInternal_def)
next
  case d: (Some d)
  obtain r1 x1 where 1: "enter_root k x = (r1, x1)" by fastforce
  show ?thesis
  proof (cases r1)
    case None
    then show ?thesis using assms unprepared 1 d by (auto simp: RunInternal_def)
  next
    case (Some rc)
    obtain st cwd where rc: "rc = (st, cwd)" by fastforce
    obtain r2 x2 where 2: "prepare_caches k env st cwd x1 = (r2, x2)" by fastforce
    have in_root: "enter_root k x = (Some (st, cwd), x1)" using 1 Some rc by simp
    note so_far = assms [unfolded RunInternal_def] d in_root 2
    show ?thesis
    proof (cases r2)
      case None
      then have "h = helper_fail StageStart" "fst (prepare_caches k env st cwd x1) = None" using so_far by auto
      then show ?thesis using unprepared [OF d] in_root by (metis fst_conv)
    next
      case cache: (Some cache)
      obtain r3 x3 where 3: "resolveExecutable k (cd_executable d) x2 = (r3, x3)" by fastforce
      show ?thesis
      proof (cases r3)
        case None
        then show ?thesis using so_far cache 3 unresolved [OF d, of x2] by auto
      next
        case exe: (Some exe)
        let ?env = "commandEnvironment env p cache @ [InternalPresetEnvironment @ ''='' @ p]"
        obtain b x4 where 4: "k_Exec k exe (exe # cd_arguments d) ?env x3 = (b, x4)" by fastforce
        show ?thesis
        proof (cases b)
          case False
          then have "h = helper_fail StageStart" "\<not> fst (k_Exec k exe (exe # cd_arguments d) ?env x3)"
            using so_far cache 3 exe 4 by (auto simp: Let_def)
          then show ?thesis using unprepared [OF d] by blast
        next
          case True
          then have h: "h = Helper_Exec exe (exe # cd_arguments d) ?env" "x' = x4"
            using so_far cache 3 exe 4 by (auto simp: Let_def)
          from resolveExecutable_Some 3 exe obtain path y1 where
            "k_LookPath k (cd_executable d) x2 = (Some path, y1)" "is_abs path"
            "k_EvalSymlinks k path y1 = (Some exe, x3)" "is_abs exe" by metis
          then show ?thesis
            using exec [OF d in_root prepare_caches_where [OF 2 [unfolded cache]], of x2 path y1 exe x3 ?env] 4 True h by simp
        qed
      qed
    qed
  qed
qed

subsection \<open>What runs and what is reported\<close>

text \<open>The presets as a table: the program, its arguments, and whether it may load modules from the network.\<close>

lemma preset_table:
  "commandDefinitions p = Some d \<Longrightarrow> (p, cd_executable d, cd_arguments d, cd_network d) \<in>
     {(''fmt'', ''make'', [''fmt-check''], False), (''test'', ''make'', [''test''], False),
      (''test-race'', ''make'', [''test-race''], False), (''vet'', ''make'', [''vet''], False),
      (''mcp-integration'', ''make'', [''mcp-integration''], False), (''verify'', ''make'', [''verify''], False),
      (''go-mod-tidy'', ''go'', [''mod'', ''tidy''], True)}"
  by (auto simp: commandDefinitions_def make_target_def preset_defs split: if_splits)

lemma preset_make:
  assumes "commandDefinitions p = Some d" and "p \<noteq> PresetGoModTidy"
  obtains target where "cd_executable d = ''make''" "cd_arguments d = [target]" "\<not> cd_network d"
    "(p, target) \<in> {(''fmt'', ''fmt-check''), (''test'', ''test''), (''test-race'', ''test-race''), (''vet'', ''vet''),
       (''mcp-integration'', ''mcp-integration''), (''verify'', ''verify'')}"
  using assms by (auto simp: commandDefinitions_def make_target_def preset_defs split: if_splits)

text \<open>C35: What the helper becomes is fixed. Whatever the kernel answers, the process that replaces the helper
  is the preset's program (\<open>make\<close>, or \<open>go\<close> for \<open>go-mod-tidy\<close>), as the search of the path and the
  resolution of links gave it, with exactly the preset's arguments; its environment is the listed one, value
  by value, with the caches in the configured directories or below the verified working directory, and
  modules come from the network only for \<open>go-mod-tidy\<close>.\<close>

theorem fixed_command:
  assumes "RunInternal k env p x = (Helper_Exec exe args cenv, x')"
  shows "\<exists>prog as network build modules gopath root cwd path x1 y y1 y2.
    (p, prog, as, network) \<in>
      {(''fmt'', ''make'', [''fmt-check''], False), (''test'', ''make'', [''test''], False),
       (''test-race'', ''make'', [''test-race''], False), (''vet'', ''make'', [''vet''], False),
       (''mcp-integration'', ''make'', [''mcp-integration''], False), (''verify'', ''make'', [''verify''], False),
       (''go-mod-tidy'', ''go'', [''mod'', ''tidy''], True)}
    \<and> enter_root k x = (Some (root, cwd), x1)
    \<and> k_LookPath k prog y = (Some path, y1) \<and> is_abs path \<and> k_EvalSymlinks k path y1 = (Some exe, y2) \<and> is_abs exe
    \<and> k_Exec k exe args cenv y2 = (True, x') \<and> args = exe # as
    \<and> (build = Getenv env ''GOCACHE'' \<and> modules = Getenv env ''GOMODCACHE'' \<and> gopath = Getenv env ''GOPATH''
       \<or> build = join_path (join_path cwd ''.cache'') ''go-build'' \<and> modules = join_path (join_path cwd ''.cache'') ''go-mod''
          \<and> gopath = join_path (join_path cwd ''.cache'') ''go-path'')
    \<and> is_abs build \<and> is_abs modules \<and> is_abs gopath
    \<and> cenv = [''PATH='' @ Getenv env ''PATH'', ''LC_ALL=C'', ''LANG=C'', ''GIT_CONFIG_NOSYSTEM=1'',
          ''GIT_CONFIG_GLOBAL=/dev/null'', ''GIT_TERMINAL_PROMPT=0'', ''GIT_OPTIONAL_LOCKS=0'', ''GOCACHE='' @ build,
          ''GOMODCACHE='' @ modules, ''GOPATH='' @ gopath]
        @ (let home = Getenv env ''HOME'' in if is_abs home \<and> clean home = home then [''HOME='' @ home] else [])
        @ (if network then [''GOPROXY=https://proxy.golang.org'', ''GOSUMDB=sum.golang.org'', ''GOPRIVATE='', ''GONOPROXY=none'',
             ''GONOSUMDB=''] else [''GOPROXY=off''])
        @ [''M3_REPOWORKER_INTERNAL_FIXED_PRESET='' @ p]"
  using assms
proof (cases rule: RunInternal_cases)
  case (exec d cache exe' root cwd path x1 y y1 y2 cenv')
  have h: "exe' = exe" "args = exe # cd_arguments d" "cenv' = cenv" using exec(11) by simp_all
  have home: "home_entry env = (let home = Getenv env ''HOME'' in if is_abs home \<and> clean home = home then [''HOME='' @ home] else [])"
    by (auto simp: home_entry_def Let_def)
  show ?thesis
    by (rule exI [of _ "cd_executable d"], rule exI [of _ "cd_arguments d"], rule exI [of _ "cd_network d"],
        rule exI [of _ "cp_goBuild cache"], rule exI [of _ "cp_goMod cache"], rule exI [of _ "cp_goPath cache"],
        rule exI [of _ root], rule exI [of _ cwd], rule exI [of _ path], rule exI [of _ x1], rule exI [of _ y],
        rule exI [of _ y1], rule exI [of _ y2], intro conjI preset_table [OF exec(1)])
      (use exec h home in \<open>auto simp: cache_absolute_def commandEnvironment_def configured_caches_def local_caches_def
         Let_def InternalPresetEnvironment_def\<close>)
qed (simp_all add: helper_fail_def)

text \<open>How the world of \<open>Run\<close> goes on from the helper, when the run was not ended before: the helper stopped by
  itself and left its stage in the control pipe, or the command it became ended and closed the pipe without
  a word. (\<open>Wait\<close> gives no exit code 0 with an error. No third process kills the helper.)\<close>

definition helper_world :: "helper_end \<Rightarrow> run_world \<Rightarrow> bool" where
  "helper_world h w =
    (case rn_end w of
       Done _ \<Rightarrow> True
     | Waited r \<Rightarrow>
         (case h of
            Helper_Exit n stage \<Rightarrow> r = (if n = 0 then Wait_OK else Wait_Exit n) \<and> rn_control w = Some stage
          | Helper_Exec _ _ _ \<Rightarrow> r \<noteq> Wait_Exit 0 \<and> rn_control w = Some []))"

lemma readControlStage_stage:
  "readControlStage (Some []) = []" "readControlStage (Some StageResolve) = StageResolve"
  "readControlStage (Some StageStart) = StageStart"
  by (simp_all add: readControlStage_def) (code_simp+)

text \<open>The output that is withheld: it is not text, or holds a control byte or a marker of a secret.\<close>

definition withheld :: "string \<Rightarrow> bool" where
  "withheld s \<longleftrightarrow> s \<noteq> [] \<and>
     (\<not> utf8_valid s \<or> (\<exists>c \<in> set s. byte c < 32 \<and> byte c \<noteq> 9 \<and> byte c \<noteq> 10 \<and> byte c \<noteq> 13 \<or> byte c = 127)
      \<or> (\<exists>m \<in> {''-----begin private key-----'', ''-----begin rsa private key-----'',
           ''-----begin openssh private key-----'', ''authorization:'', ''github_pat_'', ''ghp_'', ''sk-proj-'', ''api_key='',
           ''password='', ''token=''}. sublist m (to_lower s)))"

lemma suppressed_withheld: "s \<noteq> [] \<Longrightarrow> suppressed_output s \<longleftrightarrow> withheld s"
proof -
  have f: "forbidden_control = (\<lambda>c. byte c < 32 \<and> byte c \<noteq> 9 \<and> byte c \<noteq> 10 \<and> byte c \<noteq> 13 \<or> byte c = 127)"
    by (rule ext) (auto simp: forbidden_control_def)
  show "s \<noteq> [] \<Longrightarrow> suppressed_output s \<longleftrightarrow> withheld s"
    by (simp only: suppressed_output_def withheld_def secret_output_markers_def list_ex_iff list.set simp_thms f)
qed

lemma sanitize_withholds: "snd (snd (sanitizeDiagnostic home s redactions)) \<longleftrightarrow> withheld s"
proof (cases "s = []")
  case True
  then show ?thesis by (simp add: sanitizeDiagnostic_def withheld_def)
next
  case False
  then show ?thesis using suppressed_withheld [OF False] by (simp add: sanitizeDiagnostic_def Let_def)
qed

lemma failedOutcome_stage:
  "vo_ExitCode (failedOutcome env n stage c redactions) = n
   \<and> \<not> vo_TimedOut (failedOutcome env n stage c redactions)
   \<and> vo_FailureStage (failedOutcome env n stage c redactions) = (if withheld (bc_data c) then StageSanitize else stage)"
proof -
  obtain d t b where s: "sanitizeDiagnostic (userHomeDir env) (bc_data c) redactions = (d, t, b)" by (metis prod.exhaust)
  then have "b \<longleftrightarrow> withheld (bc_data c)" using sanitize_withholds [of "userHomeDir env" "bc_data c" redactions] by simp
  then show ?thesis by (simp add: failedOutcome_def s)
qed

lemma captured: "bc_data (capture_all ws (new_capture CaptureLimit)) = take 32768 (concat ws)"
  using capture_exact [of ws CaptureLimit] by (simp add: CaptureLimit_def)

text \<open>The end of a run that was not rejected, with the reason read off the world.\<close>

lemma Run_accepted:
  assumes "Run env w ctx p redactions = (l, oc, err)" and "err \<noteq> Some V_Rejected"
  shows "(l, oc, err) =
    (if \<not> (\<exists>e e'. rn_executable w = Some e \<and> is_abs e \<and> rn_symlinks w e = Some e' \<and> is_abs e')
     then (None, stage_outcome StageResolve, None)
     else if \<not> rn_pipe w then (None, stage_outcome StageStart, None)
     else if \<not> rn_started w then (l, failedOutcome env (- 1) StageStart (new_capture CaptureLimit) redactions, None)
     else (l, finish_run env w redactions))"
  using assms by (auto simp: Run_def runWithTimeout_def split: option.splits if_splits)

text \<open>C36: The stage a client reads is the one at which the run failed, in every case of a run that was not
  rejected. The worker did not find its own program: \<open>resolve\<close>; no pipe or no helper could be made:
  \<open>start\<close>; the helper stopped: exit code 125 with \<open>resolve\<close> exactly when it did not find the preset's
  program and \<open>start\<close> when it could not enter the root, prepare the caches or become the program; the
  command failed: its exit code and \<open>execution\<close>; the time was over: \<open>timeout\<close>; the caller gave up:
  \<open>execution\<close> with the error of its context; success has no stage. Once a process was started, the stage is
  \<open>sanitize\<close> instead exactly when the captured output must be withheld.\<close>

theorem stage_truthful:
  assumes "RunInternal k henv p x = (h, x')" and "helper_world h w"
    and "Run env w ctx p redactions = (l, oc, err)" and "err \<noteq> Some V_Rejected"
    and "shown = (\<lambda>stage. if withheld (take 32768 (concat (rn_output w))) then ''sanitize'' else stage)"
  shows "if \<not> (\<exists>e e'. rn_executable w = Some e \<and> is_abs e \<and> rn_symlinks w e = Some e' \<and> is_abs e')
    then l = None \<and> err = None \<and> vo_ExitCode oc = - 1 \<and> \<not> vo_TimedOut oc \<and> vo_FailureStage oc = ''resolve''
    else if \<not> rn_pipe w \<or> \<not> rn_started w
    then err = None \<and> vo_ExitCode oc = - 1 \<and> \<not> vo_TimedOut oc \<and> vo_FailureStage oc = ''start''
    else case rn_end w of
      Done c \<Rightarrow> vo_ExitCode oc = - 1
        \<and> (if ctx_err c then err = Some V_Context \<and> \<not> vo_TimedOut oc \<and> vo_FailureStage oc = shown ''execution''
            else err = None \<and> vo_TimedOut oc \<and> vo_FailureStage oc = shown ''timeout'')
    | Waited r \<Rightarrow> err = None \<and> \<not> vo_TimedOut oc
        \<and> (case h of
             Helper_Exit n stage \<Rightarrow> n = 125 \<and> vo_ExitCode oc = 125 \<and> vo_FailureStage oc = shown stage
               \<and> (stage = ''resolve'' \<and> (\<exists>d y. commandDefinitions p = Some d \<and> fst (resolveExecutable k (cd_executable d) y) = None)
                  \<or> stage = ''start'' \<and> (fst (enter_root k x) = None
                     \<or> (\<exists>root cwd y. fst (enter_root k x) = Some (root, cwd) \<and> fst (prepare_caches k henv root cwd y) = None)
                     \<or> (\<exists>exe args cenv y. \<not> fst (k_Exec k exe args cenv y))))
           | Helper_Exec _ _ _ \<Rightarrow>
               (case r of
                  Wait_OK \<Rightarrow> vo_ExitCode oc = 0 \<and> vo_FailureStage oc = [] \<and> vo_Diagnostic oc = []
                | Wait_Exit n \<Rightarrow> n \<noteq> 0 \<and> vo_ExitCode oc = n \<and> vo_FailureStage oc = shown ''execution''
                | Wait_Failed \<Rightarrow> vo_ExitCode oc = - 1 \<and> vo_FailureStage oc = shown ''execution''))"
proof -
  note run = Run_accepted [OF assms(3,4)]
  have quiet: "\<not> withheld (bc_data (new_capture CaptureLimit))" by (simp add: new_capture_def withheld_def)
  have p: "commandDefinitions p \<noteq> None"
    using assms(3,4) by (cases "commandDefinitions p") (simp_all add: Run_def)
  let ?found = "\<exists>e e'. rn_executable w = Some e \<and> is_abs e \<and> rn_symlinks w e = Some e' \<and> is_abs e'"
  consider "\<not> ?found" | "?found" "\<not> rn_pipe w \<or> \<not> rn_started w" | "?found" "rn_pipe w" "rn_started w" by blast
  then show ?thesis
  proof cases
    case 1
    then show ?thesis using run by (simp add: stage_outcome_def zero_outcome_def StageResolve_def)
  next
    case 2
    then show ?thesis
      using run quiet failedOutcome_stage [of env "- 1" StageStart "new_capture CaptureLimit" redactions]
      by (cases "rn_pipe w") (simp_all add: stage_outcome_def zero_outcome_def StageStart_def del: not_ex)
  next
    case 3
    then have fin: "(oc, err) = finish_run env w redactions" using run by simp
    show ?thesis
    proof (cases "rn_end w")
      case (Done c)
      then show ?thesis
        using fin 3 by (auto simp: finish_run_def Let_def failedOutcome_stage captured assms(5) stage_defs)
    next
      case (Waited r)
      show ?thesis
        using assms(1)
      proof (cases rule: RunInternal_cases)
        case unknown
        then show ?thesis using p by simp
      next
        case (unresolved d y)
        then show ?thesis
          using fin 3 Waited assms(2)
          by (auto simp: finish_run_def Let_def failedOutcome_stage captured assms(5) helper_world_def helper_fail_def
              readControlStage_stage) (auto simp: stage_defs)
      next
        case (unprepared d)
        then show ?thesis
          using fin 3 Waited assms(2)
          by (auto simp: finish_run_def Let_def failedOutcome_stage captured assms(5) helper_world_def helper_fail_def
              readControlStage_stage) (auto simp: stage_defs)
      next
        case (exec d cache exe root cwd path x1 y y1 y2 cenv)
        then show ?thesis
          using fin 3 Waited assms(2)
          by (auto simp: finish_run_def Let_def failedOutcome_stage captured assms(5) helper_world_def
              readControlStage_stage zero_outcome_def stage_defs split: wait_result.splits)
      qed
    qed
  qed
qed

text \<open>A run with exit code 0 is a run of the command, which ended with success before the time was over.\<close>

lemma passed_ran:
  assumes "RunInternal k henv p x = (h, x')" and "helper_world h w"
    and "Run env w ctx p redactions = (l, oc, None)" and "vo_ExitCode oc = 0"
  shows "rn_started w \<and> rn_end w = Waited Wait_OK \<and> (\<exists>exe args cenv. h = Helper_Exec exe args cenv)"
proof -
  note run = Run_accepted [OF assms(3)]
  have s: "rn_started w" "(oc, None) = finish_run env w redactions"
    using run assms(4) by (auto simp: stage_outcome_def failedOutcome_stage split: if_splits)
  have e: "rn_end w = Waited Wait_OK \<or> (\<exists>n. rn_end w = Waited (Wait_Exit n) \<and> n = 0)"
    using s(2) assms(4)
    by (auto simp: finish_run_def Let_def failedOutcome_stage split: run_end.splits wait_result.splits if_splits)
  show ?thesis
    using assms(1)
    by (cases rule: RunInternal_cases) (use s(1) e assms(2) in \<open>auto simp: helper_world_def helper_fail_def split: if_splits\<close>)
qed

subsection \<open>An example\<close>

text \<open>A kernel that answers as it should.\<close>

definition calm_kernel :: "unit kernel" where
  "calm_kernel =
     \<lparr>k_Fstat = \<lambda>fd x. (Some \<lparr>st_Dev = 1, st_Ino = (if fd = 6 then 7 else 5), st_dir = True\<rparr>, x), k_Fchdir = \<lambda>fd x. (True, x),
      k_Open = \<lambda>path x. (Some (if path \<in> {''.'', ''/repo''} then 5 else 6), x), k_Openat = \<lambda>fd name x. (Opened 6, x),
      k_Mkdirat = \<lambda>fd name x. (Exists, x), k_Close = \<lambda>fd x. (True, x), k_Getwd = \<lambda>x. (Some ''/repo'', x),
      k_MkdirAll = \<lambda>path x. (True, x), k_Chmod = \<lambda>path x. (True, x), k_Lstat = \<lambda>path x. (Some True, x),
      k_EvalSymlinks = \<lambda>path x. (Some path, x), k_LookPath = \<lambda>name x. (Some (''/bin/'' @ name), x),
      k_Exec = \<lambda>exe args env x. (True, x)\<rparr>"

definition calm_env :: environ where
  "calm_env = [''PATH'' \<mapsto> ''/bin'', ''HOME'' \<mapsto> ''/home/u'', ''API_KEY'' \<mapsto> ''secret'']"

definition calm_end :: helper_end where
  "calm_end = Helper_Exec ''/bin/make'' [''/bin/make'', ''vet'']
     [''PATH=/bin'', ''LC_ALL=C'', ''LANG=C'', ''GIT_CONFIG_NOSYSTEM=1'', ''GIT_CONFIG_GLOBAL=/dev/null'',
      ''GIT_TERMINAL_PROMPT=0'', ''GIT_OPTIONAL_LOCKS=0'', ''GOCACHE=/repo/.cache/go-build'',
      ''GOMODCACHE=/repo/.cache/go-mod'', ''GOPATH=/repo/.cache/go-path'', ''HOME=/home/u'', ''GOPROXY=off'',
      ''M3_REPOWORKER_INTERNAL_FIXED_PRESET=vet'']"

lemma calm_run: "RunInternal calm_kernel calm_env ''vet'' () = (calm_end, ())"
  by code_simp

text \<open>The command has failed with exit code 2 after it had printed two lines.\<close>

definition calm_world :: run_world where
  "calm_world =
     \<lparr>rn_root = Some True, rn_executable = Some ''/opt/repoworker'', rn_symlinks = Some, rn_pipe = True,
      rn_started = True, rn_output = [''vet: /repo/x.go '', ''failed''], rn_control = Some [], rn_end = Waited (Wait_Exit 2)\<rparr>"

lemma fixed_command_witness:
  "RunInternal calm_kernel calm_env ''vet'' () = (calm_end, ())
   \<and> k_LookPath calm_kernel ''make'' () = (Some ''/bin/make'', ())
   \<and> (\<exists>prog path y y1 y2. k_LookPath calm_kernel prog y = (Some path, y1) \<and> k_EvalSymlinks calm_kernel path y1 = (Some ''/bin/make'', y2))"
proof -
  have "\<exists>prog path y y1 y2. k_LookPath calm_kernel prog y = (Some path, y1) \<and> k_EvalSymlinks calm_kernel path y1 = (Some ''/bin/make'', y2)"
    using fixed_command [OF calm_run [unfolded calm_end_def]] by (elim exE conjE) (intro exI conjI, assumption+)
  then show ?thesis using calm_run by (simp add: calm_kernel_def)
qed

lemma stage_truthful_witness:
  "fst (snd (Run calm_env calm_world Ctx_Live ''vet'' [''/repo'']))
     = \<lparr>vo_ExitCode = 2, vo_TimedOut = False, vo_FailureStage = ''execution'',
        vo_Diagnostic = ''vet: [REDACTED_PATH]/x.go failed'', vo_Truncated = False\<rparr>
   \<and> \<not> withheld (concat (rn_output calm_world))"
proof -
  let ?o = "\<lparr>vo_ExitCode = 2, vo_TimedOut = False, vo_FailureStage = ''execution'',
        vo_Diagnostic = ''vet: [REDACTED_PATH]/x.go failed'', vo_Truncated = False\<rparr>"
  have r: "Run calm_env calm_world Ctx_Live ''vet'' [''/repo''] = (Some (helper_launch calm_env ''vet'' ''/opt/repoworker''), ?o, None)"
    by code_simp
  have w: "helper_world calm_end calm_world" by (simp add: helper_world_def calm_end_def calm_world_def)
  have "is_abs ''/opt/repoworker''" by code_simp
  then have "vo_FailureStage ?o = (if withheld (take 32768 (concat (rn_output calm_world))) then ''sanitize'' else ''execution'')"
    using stage_truthful [OF calm_run w r _ refl] by (simp add: calm_end_def calm_world_def)
  then have "\<not> withheld (take 32768 (concat (rn_output calm_world)))" by (auto split: if_splits)
  then show ?thesis using r by (simp add: calm_world_def)
qed

end
