(* ===== verification/MCP_Tools.thy ===== *)
theory MCP_Tools
  imports MCP_Transport Git_Status Verify_Runner Task_Store_SQLite
begin

section \<open>The tools of the server (cmd/repoworker/main.go, controlplane_tools.go)\<close>

text \<open>
  Every tool is a handler: it takes the input of one call, calls the repository, the task store, the fixed
  runner or the plane, and hides every error but one behind a rejection. Two servers are built from the
  handlers: one over a repository and a task store, and the production server over a plane, where a
  replay guard stands before them. What the platform answers to one call is an argument.
\<close>

subsection \<open>Errors\<close>

datatype tool_error = Tool_Rejected | Tool_MainOnly

definition safe_task_error :: "ts_error \<Rightarrow> tool_error" where
  "safe_task_error e = (case e of TS_ErrMainOnly \<Rightarrow> Tool_MainOnly | TS_ErrRejected \<Rightarrow> Tool_Rejected)"

definition safe_some :: "'a option \<Rightarrow> tool_error + 'a" where
  "safe_some r = (case r of None \<Rightarrow> Inl Tool_Rejected | Some a \<Rightarrow> Inr a)"

definition safe_task :: "ts_error + 'a \<Rightarrow> tool_error + 'a" where
  "safe_task r = (case r of Inl e \<Rightarrow> Inl (safe_task_error e) | Inr a \<Rightarrow> Inr a)"

definition tool_map :: "('a \<Rightarrow> 'b) \<Rightarrow> tool_error + 'a \<Rightarrow> tool_error + 'b" where
  "tool_map f r = (case r of Inl e \<Rightarrow> Inl e | Inr a \<Rightarrow> Inr (f a))"

subsection \<open>The repository and its tasks\<close>

record repo_server =
  sr_Workspace :: repo_ws
  sr_Disk :: node
  sr_Tasks :: sqlite_store
  sr_StateRoot :: string

text \<open>The world of one call: the hash, what the operation sees of the disk (others may change it), the files whose
  visit finds the context canceled, git, the times the store accepts, the world of the task store, the
  outcomes of writing a file, the environment, and the world of a run.\<close>

record tool_world =
  tw_Sha :: "string \<Rightarrow> string"
  tw_See :: "node \<Rightarrow> node \<times> node \<times> node"
  tw_Cancelled :: "string \<Rightarrow> bool"
  tw_Git :: git_program
  tw_TimeOk :: "string \<Rightarrow> bool"
  tw_Task :: ts_env
  tw_Io :: write_io
  tw_DupOk :: bool
  tw_Environ :: environ
  tw_Run :: run_world

record verify_output =
  vu_Check :: string
  vu_Passed :: bool
  vu_ExitCode :: int
  vu_TimedOut :: bool
  vu_FailureStage :: string
  vu_Diagnostic :: string
  vu_Truncated :: bool

datatype repo_call =
    RT_status | RT_git_status | RT_read string | RT_search string string | RT_snapshot | RT_apply_patch string
  | RT_create_file string string | RT_delete_file string | RT_verify string | RT_tidy
  | RT_task_create string | RT_task_status string | RT_task_resume string

datatype repo_result =
    RR_status string | RR_git git_status | RR_read string string | RR_search "repo_match list" bool
  | RR_snapshot snapshot_manifest | RR_changed string bool | RR_verify verify_output | RR_task task_state

definition requireMain :: "go_ctx \<Rightarrow> tool_world \<Rightarrow> repo_server \<Rightarrow> tool_error + unit" where
  "requireMain ctx w s =
    (if ctx = Ctx_Nil then Inl Tool_Rejected
     else safe_task (sqlite_RequireMain ctx (te_Inspect (tw_Task w)) (sr_Tasks s)))"

definition verify_output_of :: "string \<Rightarrow> Outcome \<Rightarrow> verify_output" where
  "verify_output_of check out =
     \<lparr>vu_Check = check, vu_Passed = (vo_ExitCode out = 0 \<and> \<not> vo_TimedOut out), vu_ExitCode = vo_ExitCode out,
      vu_TimedOut = vo_TimedOut out, vu_FailureStage = vo_FailureStage out, vu_Diagnostic = vo_Diagnostic out,
      vu_Truncated = vo_Truncated out\<rparr>"

text \<open>Running a preset on a duplicate of the root; its path and the state directory are hidden.\<close>

definition run_preset :: "go_ctx \<Rightarrow> preset \<Rightarrow> string \<Rightarrow> tool_world \<Rightarrow> repo_server \<Rightarrow> tool_error + verify_output" where
  "run_preset ctx p check w s =
    (if \<not> DuplicateRoot (sr_Workspace s) (tw_DupOk w) then Inl Tool_Rejected
     else (case Run (tw_Environ w) (tw_Run w) ctx p [rp_root (sr_Workspace s), sr_StateRoot s] of
             (_, _, Some _) \<Rightarrow> Inl Tool_Rejected
           | (_, out, None) \<Rightarrow> Inr (verify_output_of check out)))"

definition repo_verify :: "go_ctx \<Rightarrow> string \<Rightarrow> tool_world \<Rightarrow> repo_server \<Rightarrow> tool_error + verify_output" where
  "repo_verify ctx check w s =
    (case requireMain ctx w s of
       Inl e \<Rightarrow> Inl e
     | Inr _ \<Rightarrow>
         (case VerificationPreset check of
            (_, False) \<Rightarrow> Inl Tool_Rejected
          | (p, True) \<Rightarrow> run_preset ctx p check w s))"

definition repo_go_mod_tidy :: "go_ctx \<Rightarrow> tool_world \<Rightarrow> repo_server \<Rightarrow> tool_error + verify_output" where
  "repo_go_mod_tidy ctx w s =
    (case requireMain ctx w s of Inl e \<Rightarrow> Inl e | Inr _ \<Rightarrow> run_preset ctx PresetGoModTidy [] w s)"

text \<open>Reading.\<close>

definition repo_git_status :: "go_ctx \<Rightarrow> tool_world \<Rightarrow> repo_server \<Rightarrow> tool_error + repo_result" where
  "repo_git_status ctx w s =
     tool_map RR_git (safe_some (repo_GitStatus (tw_Sha w) (tw_Git w) ctx (sr_Workspace s) (fst (tw_See w (sr_Disk s)))))"

definition repo_read :: "string \<Rightarrow> tool_world \<Rightarrow> repo_server \<Rightarrow> tool_error + repo_result" where
  "repo_read p w s =
     tool_map (\<lambda>(path, content). RR_read path content) (safe_some (repo_Read (sr_Workspace s) (fst (tw_See w (sr_Disk s))) p))"

definition repo_search :: "go_ctx \<Rightarrow> string \<Rightarrow> string \<Rightarrow> tool_world \<Rightarrow> repo_server \<Rightarrow> tool_error + repo_result" where
  "repo_search ctx q p w s =
     tool_map (\<lambda>(ms, truncated). RR_search ms truncated)
       (safe_some (repo_Search (sr_Workspace s) (fst (tw_See w (sr_Disk s))) ctx (tw_Cancelled w) q p))"

definition repo_snapshot :: "go_ctx \<Rightarrow> tool_world \<Rightarrow> repo_server \<Rightarrow> tool_error + repo_result" where
  "repo_snapshot ctx w s =
     tool_map RR_snapshot (safe_some (repo_Snapshot (tw_Sha w) (sr_Workspace s) (fst (tw_See w (sr_Disk s))) ctx (tw_Cancelled w)))"

text \<open>Changing the repository, on the main branch only.\<close>

definition editing ::
  "go_ctx \<Rightarrow> (node \<times> node \<times> node \<Rightarrow> string option \<times> node) \<Rightarrow> tool_world \<Rightarrow> repo_server \<Rightarrow> (tool_error + repo_result) \<times> repo_server"
where
  "editing ctx edit w s =
    (case requireMain ctx w s of
       Inl e \<Rightarrow> (Inl e, s)
     | Inr _ \<Rightarrow>
         (case edit (tw_See w (sr_Disk s)) of
            (None, d) \<Rightarrow> (Inl Tool_Rejected, s\<lparr>sr_Disk := d\<rparr>)
          | (Some path, d) \<Rightarrow> (Inr (RR_changed path True), s\<lparr>sr_Disk := d\<rparr>)))"

text \<open>The tasks.\<close>

definition repo_task_create :: "go_ctx \<Rightarrow> string \<Rightarrow> tool_world \<Rightarrow> repo_server \<Rightarrow> (tool_error + repo_result) \<times> repo_server" where
  "repo_task_create ctx next_action w s =
    (case sqlite_Create (tw_TimeOk w) ctx (tw_Task w) next_action (sr_Tasks s) of
       (r, t) \<Rightarrow> (tool_map RR_task (safe_task r), s\<lparr>sr_Tasks := t\<rparr>))"

definition repo_task_status :: "go_ctx \<Rightarrow> string \<Rightarrow> tool_world \<Rightarrow> repo_server \<Rightarrow> (tool_error + repo_result)" where
  "repo_task_status ctx i w s = tool_map RR_task (safe_task (sqlite_Status (tw_TimeOk w) ctx i (sr_Tasks s)))"

definition repo_task_resume :: "go_ctx \<Rightarrow> string \<Rightarrow> tool_world \<Rightarrow> repo_server \<Rightarrow> (tool_error + repo_result) \<times> repo_server" where
  "repo_task_resume ctx i w s =
    (case sqlite_Resume (tw_TimeOk w) ctx (tw_Task w) i (sr_Tasks s) of
       (r, t) \<Rightarrow> (tool_map RR_task (safe_task r), s\<lparr>sr_Tasks := t\<rparr>))"

text \<open>The handlers of \<open>newServerForComponents\<close>.\<close>

definition components_call :: "go_ctx \<Rightarrow> repo_call \<Rightarrow> tool_world \<Rightarrow> repo_server \<Rightarrow> (tool_error + repo_result) \<times> repo_server" where
  "components_call ctx c w s =
    (case c of
       RT_status \<Rightarrow> (Inr (RR_status ''ok''), s)
     | RT_git_status \<Rightarrow> (repo_git_status ctx w s, s)
     | RT_read p \<Rightarrow> (repo_read p w s, s)
     | RT_search q p \<Rightarrow> (repo_search ctx q p w s, s)
     | RT_snapshot \<Rightarrow> (repo_snapshot ctx w s, s)
     | RT_apply_patch patch \<Rightarrow> editing ctx (\<lambda>(d0, d1, d2). ApplyPatch (sr_Workspace s) (tw_Io w) d0 d1 d2 patch) w s
     | RT_create_file path content \<Rightarrow> editing ctx (\<lambda>(d0, d1, d2). CreateFile (sr_Workspace s) (tw_Io w) d0 d1 path content) w s
     | RT_delete_file path \<Rightarrow> editing ctx (\<lambda>(d0, d1, d2). DeleteFile (sr_Workspace s) (tw_Io w) d0 d1 path) w s
     | RT_verify check \<Rightarrow> (tool_map RR_verify (repo_verify ctx check w s), s)
     | RT_tidy \<Rightarrow> (tool_map RR_verify (repo_go_mod_tidy ctx w s), s)
     | RT_task_create next_action \<Rightarrow> repo_task_create ctx next_action w s
     | RT_task_status i \<Rightarrow> (repo_task_status ctx i w s, s)
     | RT_task_resume i \<Rightarrow> repo_task_resume ctx i w s)"

subsection \<open>What a client sees of the plane's records\<close>

record workspace_output =
  wo_GenerationID :: string
  wo_RepositoryID :: string
  wo_CandidateSnapshot :: string
  wo_FencingGeneration :: nat
  wo_State :: string
  wo_CreatedAt :: instant
  wo_Lease :: ws_lease

record runtime_output =
  ro_ID :: string
  ro_Backend :: string
  ro_Network :: string
  ro_TaskID :: string
  ro_GenerationID :: string
  ro_LeaseGeneration :: nat
  ro_Identity :: string
  ro_State :: string
  ro_CreatedAt :: instant
  ro_UpdatedAt :: instant

record outcome_output =
  oo_ExitCode :: int
  oo_TimedOut :: bool
  oo_Canceled :: bool
  oo_Truncated :: bool

record plan_output =
  po_RepositoryID :: string
  po_CandidateSnapshot :: string
  po_EnvironmentID :: string
  po_PolicyVersion :: string
  po_Target :: target
  po_Commands :: "in_command list"
  po_PlanDigest :: string

definition publicWorkspace :: "workspace_record \<Rightarrow> workspace_output" where
  "publicWorkspace record =
    (let g = wk_Generation record
     in \<lparr>wo_GenerationID = wg_ID g, wo_RepositoryID = wg_RepositoryID g, wo_CandidateSnapshot = wg_CandidateSnapshot g,
         wo_FencingGeneration = wg_FencingGeneration g, wo_State = wg_State g, wo_CreatedAt = wg_CreatedAt g,
         wo_Lease = wk_Lease record\<rparr>)"

definition publicRuntime :: "runtime \<Rightarrow> runtime_output" where
  "publicRuntime r =
     \<lparr>ro_ID = rt_ID r, ro_Backend = rt_Backend r, ro_Network = rt_Network r, ro_TaskID = rt_TaskID r,
      ro_GenerationID = rt_GenerationID r, ro_LeaseGeneration = rt_LeaseGeneration r, ro_Identity = rt_Identity r,
      ro_State = rt_State r, ro_CreatedAt = rt_CreatedAt r, ro_UpdatedAt = rt_UpdatedAt r\<rparr>"

text \<open>The working directory of every command is shown as the mount point.\<close>

definition publicVerificationPlan :: "verification_plan \<Rightarrow> plan_output" where
  "publicVerificationPlan v =
     \<lparr>po_RepositoryID = vp_RepositoryID v, po_CandidateSnapshot = vp_CandidateSnapshot v, po_EnvironmentID = vp_EnvironmentID v,
      po_PolicyVersion = vp_PolicyVersion v, po_Target = vp_Target v,
      po_Commands = map (\<lambda>c. c\<lparr>ic_Workdir := ''/workspace''\<rparr>) (vp_Commands v), po_PlanDigest = vp_PlanDigest v\<rparr>"

definition public_outcome :: "outcome \<Rightarrow> outcome_output" where
  "public_outcome out =
     \<lparr>oo_ExitCode = oc_ExitCode out, oo_TimedOut = oc_TimedOut out, oo_Canceled = oc_Canceled out,
      oo_Truncated = oc_Truncated out\<rparr>"

record publication_input =
  pi_GenerationID :: string
  pi_PlanDigest :: string
  pi_Kind :: string
  pi_Remote :: string
  pi_Ref :: string
  pi_ExpectedRemoteRef :: string
  pi_Base :: string
  pi_Head :: string
  pi_Title :: string
  pi_Body :: string
  pi_Workflow :: string
  pi_ConfirmationToken :: string

text \<open>The request has no mode and no dry run: the plane sets both.\<close>

definition publication_request :: "publication_input \<Rightarrow> pub_request" where
  "publication_request i =
     \<lparr>pq_Kind = pi_Kind i, pq_Mode = [], pq_DryRun = False, pq_ConfirmationToken = pi_ConfirmationToken i, pq_Remote = pi_Remote i,
      pq_Ref = pi_Ref i, pq_ExpectedRemoteRef = pi_ExpectedRemoteRef i, pq_Base = pi_Base i, pq_Head = pi_Head i,
      pq_Title = pi_Title i, pq_Body = pi_Body i, pq_Workflow = pi_Workflow i\<rparr>"

subsection \<open>The handlers of the production server\<close>

datatype plane_call =
    PT_workspace_create string | PT_workspace_status string | PT_workspace_discard string
  | PT_workspace_integration_plan string | PT_workspace_integrate string string
  | PT_runtime_create string string string int int string | PT_runtime_start string | PT_runtime_stop string
  | PT_runtime_status string
  | PT_process_run string string string "string list" string "(string \<times> string) list" int | PT_process_read string
  | PT_process_signal string int | PT_process_cancel string | PT_process_wait string
  | PT_verification_plan string string bool | PT_verification_run string string string | PT_verification_status string
  | PT_run_create string string string | PT_run_event_append string string string | PT_run_events string int int
  | PT_loop_start string string string string string | PT_loop_resume string | PT_loop_status string
  | PT_publication_plan publication_input | PT_publication_execute publication_input

datatype plane_result =
    PR_workspace workspace_output | PR_status string | PR_plan integration_plan | PR_integration integ_state
  | PR_runtime runtime_output | PR_process string | PR_chunks "chunk list" | PR_outcome outcome_output
  | PR_verification_plan plan_output | PR_verification verification_result
  | PR_verification_status plan_output verification_result | PR_run "instant ev_run" | PR_event "instant event"
  | PR_events "instant event list" | PR_loop "instant ev_run" loop_state | PR_publication pub_result

type_synonym 'x tool_handler = "'x plane \<Rightarrow> (tool_error + plane_result) \<times> 'x plane"

text \<open>No error of the plane is the one of the task store, so all are hidden.\<close>

definition answering :: "('a \<Rightarrow> plane_result) \<Rightarrow> ('a, 'x) plane_op \<Rightarrow> 'x tool_handler" where
  "answering f m p = (case m p of (Inl _, p1) \<Rightarrow> (Inl Tool_Rejected, p1) | (Inr a, p1) \<Rightarrow> (Inr (f a), p1))"

definition refusing :: "'x tool_handler" where "refusing p = (Inl Tool_Rejected, p)"

definition workspace_handler :: "'x plane_sys \<Rightarrow> go_ctx \<Rightarrow> plane_call \<Rightarrow> 'x tool_handler" where
  "workspace_handler s ctx c =
    (case c of
       PT_workspace_create task \<Rightarrow> answering (PR_workspace \<circ> publicWorkspace) (CreateWorkspace s ctx task)
     | PT_workspace_status i \<Rightarrow> answering (PR_workspace \<circ> publicWorkspace) (WorkspaceStatus ctx i)
     | PT_workspace_discard i \<Rightarrow> answering (\<lambda>_. PR_status ''discarded'') (DiscardWorkspace s ctx i)
     | PT_workspace_integration_plan i \<Rightarrow> answering PR_plan (plane_IntegrationPlan s ctx i)
     | PT_workspace_integrate i token \<Rightarrow> answering PR_integration (Integrate s ctx i token)
     | _ \<Rightarrow> refusing)"

definition parseRuntimeNetwork :: "string \<Rightarrow> string option" where
  "parseRuntimeNetwork v =
    (if v = [] then Some NetworkNone
     else if v \<noteq> NetworkNone \<and> v \<noteq> NetworkRegistry \<and> v \<noteq> NetworkFull then None else Some v)"

definition runtime_handler :: "'x plane_sys \<Rightarrow> go_ctx \<Rightarrow> plane_call \<Rightarrow> 'x tool_handler" where
  "runtime_handler s ctx c =
    (case c of
       PT_runtime_create i img backend cpu mem network \<Rightarrow>
         (case parseRuntimeNetwork network of
            None \<Rightarrow> refusing
          | Some net \<Rightarrow> answering (PR_runtime \<circ> publicRuntime) (RuntimeCreate s ctx i img backend cpu mem [net]))
     | PT_runtime_start i \<Rightarrow> answering (PR_runtime \<circ> publicRuntime) (RuntimeStart s ctx i)
     | PT_runtime_stop i \<Rightarrow> answering (PR_runtime \<circ> publicRuntime) (RuntimeStop s ctx i)
     | PT_runtime_status i \<Rightarrow> answering (PR_runtime \<circ> publicRuntime) (RuntimeStatus s ctx i)
     | _ \<Rightarrow> refusing)"

text \<open>A process outlives the request that starts it.\<close>

definition without_cancel :: "go_ctx \<Rightarrow> go_ctx" where
  "without_cancel ctx = (if ctx_err ctx then Ctx_Live else ctx)"

definition process_handler :: "'x plane_sys \<Rightarrow> go_ctx \<Rightarrow> plane_call \<Rightarrow> 'x tool_handler" where
  "process_handler s ctx c =
    (case c of
       PT_process_run i rid exe as cwd env secs \<Rightarrow>
         (if secs < 0 \<or> 3600 < secs then refusing
          else answering PR_process (ProcessStartWithEnvironment s (without_cancel ctx) i rid exe as cwd (secs * second) env))
     | PT_process_read j \<Rightarrow> answering PR_chunks (plane_ProcessRead s ctx j)
     | PT_process_signal j sig \<Rightarrow> answering (\<lambda>_. PR_status ''signaled'') (plane_ProcessSignal s ctx j sig)
     | PT_process_cancel j \<Rightarrow> answering (\<lambda>_. PR_status ''canceled'') (plane_ProcessCancel s ctx j)
     | PT_process_wait j \<Rightarrow> answering (PR_outcome \<circ> public_outcome) (plane_ProcessWait s ctx j)
     | _ \<Rightarrow> refusing)"

definition verification_handler :: "'x plane_sys \<Rightarrow> go_ctx \<Rightarrow> plane_call \<Rightarrow> 'x tool_handler" where
  "verification_handler s ctx c =
    (case c of
       PT_verification_plan i name affected \<Rightarrow>
         answering (PR_verification_plan \<circ> publicVerificationPlan)
           (PlanVerification s ctx i \<lparr>tg_Name = name, tg_Affected = affected\<rparr>)
     | PT_verification_run d i rid \<Rightarrow> answering PR_verification (RunVerification s ctx d i rid)
     | PT_verification_status d \<Rightarrow>
         answering (\<lambda>r. PR_verification_status (publicVerificationPlan (vd_Plan r)) (vd_Result r)) (VerificationStatus ctx d)
     | _ \<Rightarrow> refusing)"

definition run_handler :: "'x plane_sys \<Rightarrow> go_ctx \<Rightarrow> plane_call \<Rightarrow> 'x tool_handler" where
  "run_handler s ctx c =
    (case c of
       PT_run_create task i environment \<Rightarrow> answering PR_run (EventsCreate s ctx task i environment)
     | PT_run_event_append run ty payload \<Rightarrow> answering PR_event (plane_AppendEvent s ctx run ty payload)
     | PT_run_events run after limit \<Rightarrow>
         answering PR_events (plane_ListEvents s ctx run after (if limit = 0 then 100 else limit))
     | _ \<Rightarrow> refusing)"

definition loop_handler :: "'x plane_sys \<Rightarrow> go_ctx \<Rightarrow> plane_call \<Rightarrow> 'x tool_handler" where
  "loop_handler s ctx c =
    (case c of
       PT_loop_start task i rid d patch \<Rightarrow>
         answering (PR_run \<circ> jl_Run)
           (pbind (VerificationStatus ctx d) (\<lambda>record. StartLoop s ctx task i rid patch (vd_Plan record)))
     | PT_loop_resume run \<Rightarrow>
         answering (\<lambda>r. PR_run (case r of Inl run \<Rightarrow> run | Inr job \<Rightarrow> jl_Run job)) (ResumeLoop s ctx run)
     | PT_loop_status run \<Rightarrow> answering (\<lambda>(run, st). PR_loop run st) (LoopStatus s ctx run)
     | _ \<Rightarrow> refusing)"

definition publication_handler :: "'x plane_sys \<Rightarrow> go_ctx \<Rightarrow> plane_call \<Rightarrow> 'x tool_handler" where
  "publication_handler s ctx c =
    (case c of
       PT_publication_plan i \<Rightarrow>
         answering PR_publication (PublicationPlan s ctx (pi_GenerationID i) (pi_PlanDigest i) (publication_request i))
     | PT_publication_execute i \<Rightarrow>
         answering PR_publication (PublicationExecute s ctx (pi_GenerationID i) (pi_PlanDigest i) (publication_request i))
     | _ \<Rightarrow> refusing)"

subsection \<open>The production server\<close>

definition plane_handler :: "'x plane_sys \<Rightarrow> go_ctx \<Rightarrow> plane_call \<Rightarrow> 'x tool_handler" where
  "plane_handler s ctx c =
    (case c of
       PT_workspace_create _ \<Rightarrow> workspace_handler s ctx c
     | PT_workspace_status _ \<Rightarrow> workspace_handler s ctx c
     | PT_workspace_discard _ \<Rightarrow> workspace_handler s ctx c
     | PT_workspace_integration_plan _ \<Rightarrow> workspace_handler s ctx c
     | PT_workspace_integrate _ _ \<Rightarrow> workspace_handler s ctx c
     | PT_runtime_create _ _ _ _ _ _ \<Rightarrow> runtime_handler s ctx c
     | PT_runtime_start _ \<Rightarrow> runtime_handler s ctx c
     | PT_runtime_stop _ \<Rightarrow> runtime_handler s ctx c
     | PT_runtime_status _ \<Rightarrow> runtime_handler s ctx c
     | PT_process_run _ _ _ _ _ _ _ \<Rightarrow> process_handler s ctx c
     | PT_process_read _ \<Rightarrow> process_handler s ctx c
     | PT_process_signal _ _ \<Rightarrow> process_handler s ctx c
     | PT_process_cancel _ \<Rightarrow> process_handler s ctx c
     | PT_process_wait _ \<Rightarrow> process_handler s ctx c
     | PT_verification_plan _ _ _ \<Rightarrow> verification_handler s ctx c
     | PT_verification_run _ _ _ \<Rightarrow> verification_handler s ctx c
     | PT_verification_status _ \<Rightarrow> verification_handler s ctx c
     | PT_run_create _ _ _ \<Rightarrow> run_handler s ctx c
     | PT_run_event_append _ _ _ \<Rightarrow> run_handler s ctx c
     | PT_run_events _ _ _ \<Rightarrow> run_handler s ctx c
     | PT_loop_start _ _ _ _ _ \<Rightarrow> loop_handler s ctx c
     | PT_loop_resume _ \<Rightarrow> loop_handler s ctx c
     | PT_loop_status _ \<Rightarrow> loop_handler s ctx c
     | PT_publication_plan _ \<Rightarrow> publication_handler s ctx c
     | PT_publication_execute _ \<Rightarrow> publication_handler s ctx c)"

record 'x prod_server =
  pv_Plane :: "'x plane"
  pv_Repo :: repo_server

datatype prod_call = Repo_Call repo_call | Plane_Call plane_call

datatype prod_result = Repo_Status string string string string | Repo_Result repo_result | Plane_Result plane_result

text \<open>The repository tools of the production server only read the live repository, or run a preset in it.\<close>

definition prod_repo :: "go_ctx \<Rightarrow> repo_call \<Rightarrow> tool_world \<Rightarrow> 'x prod_server \<Rightarrow> tool_error + prod_result" where
  "prod_repo ctx c w v =
    (case c of
       RT_status \<Rightarrow> Inr (Repo_Status ''ok'' (cpl_RepositoryID (pv_Plane v)) (cpl_PrincipalID (pv_Plane v)) (ss_ID (cpl_Session (pv_Plane v))))
     | RT_git_status \<Rightarrow> tool_map Repo_Result (repo_git_status ctx w (pv_Repo v))
     | RT_read p \<Rightarrow> tool_map Repo_Result (repo_read p w (pv_Repo v))
     | RT_search q p \<Rightarrow> tool_map Repo_Result (repo_search ctx q p w (pv_Repo v))
     | RT_snapshot \<Rightarrow> tool_map Repo_Result (repo_snapshot ctx w (pv_Repo v))
     | RT_verify check \<Rightarrow> tool_map (Repo_Result \<circ> RR_verify) (repo_verify ctx check w (pv_Repo v))
     | _ \<Rightarrow> Inl Tool_Rejected)"

definition plane_tool_name :: "plane_call \<Rightarrow> string" where
  "plane_tool_name c =
    (case c of
       PT_workspace_create _ \<Rightarrow> ''workspace_create''
     | PT_workspace_status _ \<Rightarrow> ''workspace_status''
     | PT_workspace_discard _ \<Rightarrow> ''workspace_discard''
     | PT_workspace_integration_plan _ \<Rightarrow> ''workspace_integration_plan''
     | PT_workspace_integrate _ _ \<Rightarrow> ''workspace_integrate''
     | PT_runtime_create _ _ _ _ _ _ \<Rightarrow> ''runtime_create''
     | PT_runtime_start _ \<Rightarrow> ''runtime_start''
     | PT_runtime_stop _ \<Rightarrow> ''runtime_stop''
     | PT_runtime_status _ \<Rightarrow> ''runtime_status''
     | PT_process_run _ _ _ _ _ _ _ \<Rightarrow> ''process_run''
     | PT_process_read _ \<Rightarrow> ''process_read''
     | PT_process_signal _ _ \<Rightarrow> ''process_signal''
     | PT_process_cancel _ \<Rightarrow> ''process_cancel''
     | PT_process_wait _ \<Rightarrow> ''process_wait''
     | PT_verification_plan _ _ _ \<Rightarrow> ''verification_plan''
     | PT_verification_run _ _ _ \<Rightarrow> ''verification_run''
     | PT_verification_status _ \<Rightarrow> ''verification_status''
     | PT_run_create _ _ _ \<Rightarrow> ''run_create''
     | PT_run_event_append _ _ _ \<Rightarrow> ''run_event_append''
     | PT_run_events _ _ _ \<Rightarrow> ''run_events''
     | PT_loop_start _ _ _ _ _ \<Rightarrow> ''loop_start''
     | PT_loop_resume _ \<Rightarrow> ''loop_resume''
     | PT_loop_status _ \<Rightarrow> ''loop_status''
     | PT_publication_plan _ \<Rightarrow> ''publication_plan''
     | PT_publication_execute _ \<Rightarrow> ''publication_execute'')"

text \<open>The tools with their annotations: read-only, idempotent, destructive, open world.\<close>

definition production_tools :: "(string \<times> bool \<times> bool \<times> bool \<times> bool) list" where
  "production_tools =
    [(''repo_status'', True, True, False, False),
     (''repo_git_status'', True, True, False, False),
     (''repo_read'', True, True, False, False),
     (''repo_search'', True, True, False, False),
     (''repo_snapshot'', True, True, False, False),
     (''repo_verify'', True, True, False, False),
     (''workspace_create'', False, False, False, False),
     (''workspace_status'', True, True, False, False),
     (''workspace_discard'', False, True, True, False),
     (''workspace_integration_plan'', True, True, False, False),
     (''workspace_integrate'', False, False, True, False),
     (''runtime_create'', False, False, False, False),
     (''runtime_start'', False, False, True, False),
     (''runtime_stop'', False, True, True, False),
     (''runtime_status'', True, True, False, False),
     (''process_run'', False, False, True, False),
     (''process_read'', True, True, False, False),
     (''process_signal'', False, True, True, False),
     (''process_cancel'', False, True, True, False),
     (''process_wait'', True, True, False, False),
     (''verification_plan'', True, True, False, False),
     (''verification_run'', False, True, True, False),
     (''verification_status'', True, True, False, False),
     (''run_create'', False, False, False, False),
     (''run_event_append'', False, False, False, False),
     (''run_events'', True, True, False, False),
     (''loop_start'', False, False, True, False),
     (''loop_resume'', False, True, True, False),
     (''loop_status'', True, True, False, False),
     (''publication_plan'', True, True, False, False),
     (''publication_execute'', False, False, True, True)]"

text \<open>A call of a tool of the plane, with the metadata and the session the library read from it.\<close>

definition server_call ::
  "'x plane_sys \<Rightarrow> replay_order \<Rightarrow> go_ctx \<Rightarrow> tool_world \<Rightarrow> meta \<Rightarrow> (string \<times> string) option \<Rightarrow> prod_call
     \<Rightarrow> 'x prod_server \<Rightarrow> (tool_error + prod_result) \<times> 'x prod_server" where
  "server_call s ord ctx w m session c v =
    (case c of
       Repo_Call rc \<Rightarrow> (prod_repo ctx rc w v, v)
     | Plane_Call pc \<Rightarrow>
         (case replay_guard ord ctx ''tools/call'' (Some \<lparr>tr_Name = plane_tool_name pc, tr_Meta = m, tr_Session = session\<rparr>)
                 (\<lambda>p. case plane_handler s ctx pc p of (a, p1) \<Rightarrow> (Inr a, p1)) (pv_Plane v) of
            (Inl _, p1) \<Rightarrow> (Inl Tool_Rejected, v\<lparr>pv_Plane := p1\<rparr>)
          | (Inr a, p1) \<Rightarrow> (tool_map Plane_Result a, v\<lparr>pv_Plane := p1\<rparr>)))"

subsection \<open>What the handlers keep\<close>

text \<open>The guarded tools are those that are not annotated as read-only.\<close>

lemma guarded_tools:
  "list_all (\<lambda>(name, read_only, _). name \<in> set mutatingMCPTools \<longleftrightarrow> \<not> read_only) production_tools"
  "set mutatingMCPTools \<subseteq> set (map fst production_tools)"
  by code_simp+

lemma plane_tools_registered: "plane_tool_name c \<in> set (map fst production_tools)"
  by (cases c) (simp_all add: plane_tool_name_def production_tools_def)

text \<open>Only on the main branch. Whatever a client asks the server over a repository, the live files change
  only while the repository is on its main branch, and only by the three editing tools.\<close>

theorem edits_only_on_main:
  assumes "sr_Disk (snd (components_call ctx c w s)) \<noteq> sr_Disk s"
  shows "(\<exists>rs. te_Inspect (tw_Task w) = Insp_Ok rs \<and> rp_Branch rs = MainBranch)
    \<and> (\<exists>p q. c \<in> {RT_apply_patch p, RT_create_file p q, RT_delete_file p})"
proof -
  have main: "\<exists>rs. te_Inspect (tw_Task w) = Insp_Ok rs \<and> rp_Branch rs = MainBranch"
    if "requireMain ctx w s = Inr ()"
    using that
    by (auto simp: requireMain_def safe_task_def sqlite_RequireMain_def RequireMain_def split: if_splits sum.splits inspection.splits)
  have ed: "requireMain ctx w s = Inr ()" if "sr_Disk (snd (editing ctx f w s)) \<noteq> sr_Disk s" for f
    using that by (auto simp: editing_def split: sum.splits)
  show ?thesis
    using assms by (cases c) (auto simp: components_call_def repo_task_create_def repo_task_resume_def split: prod.splits dest!: ed main)
qed

subsection \<open>Verification end to end\<close>

text \<open>C34: A verification that passed was run. When the tool reports a check as passed, the repository was on its
  main branch, the helper was started and became \<open>make\<close>, as the search of the path and the resolution of
  links gave it, with the one target that is fixed for this check and without access to modules on the
  network, and that command ended by itself with success: a run that was not started, ran out of time,
  was given up by its caller or failed is never reported as passed.\<close>

theorem passed_check_ran:
  assumes "RunInternal k henv (fst (VerificationPreset check)) x = (h, x')" and "helper_world h (tw_Run w)"
    and "repo_verify ctx check w s = Inr out" and "vu_Passed out"
  shows "(\<exists>rs. te_Inspect (tw_Task w) = Insp_Ok rs \<and> rp_Branch rs = MainBranch)
    \<and> rn_started (tw_Run w) \<and> rn_end (tw_Run w) = Waited Wait_OK
    \<and> (\<exists>target path exe cenv y y1 y2. h = Helper_Exec exe [exe, target] cenv
         \<and> (check, target) \<in> {(''fmt'', ''fmt-check''), (''test'', ''test''), (''test-race'', ''test-race''), (''vet'', ''vet''),
              (''mcp-integration'', ''mcp-integration''), (''verify'', ''verify'')}
         \<and> k_LookPath k ''make'' y = (Some path, y1) \<and> k_EvalSymlinks k path y1 = (Some exe, y2) \<and> is_abs exe
         \<and> k_Exec k exe [exe, target] cenv y2 = (True, x')
         \<and> ''GOPROXY=off'' \<in> set cenv \<and> (\<forall>e \<in> set cenv. prefix ''GOPROXY='' e \<longrightarrow> e = ''GOPROXY=off''))"
proof -
  have p: "VerificationPreset check = (check, True)"
    and m: "requireMain ctx w s = Inr ()"
    using assms(3) by (auto simp: repo_verify_def VerificationPreset_def split: sum.splits prod.splits bool.splits if_splits)
  have main: "\<exists>rs. te_Inspect (tw_Task w) = Insp_Ok rs \<and> rp_Branch rs = MainBranch"
    using m by (auto simp: requireMain_def safe_task_def sqlite_RequireMain_def RequireMain_def split: if_splits sum.splits inspection.splits)
  have "run_preset ctx check check w s = Inr out" using assms(3) by (simp add: repo_verify_def m p)
  then obtain l oc where run: "Run (tw_Environ w) (tw_Run w) ctx check [rp_root (sr_Workspace s), sr_StateRoot s] = (l, oc, None)"
    and out: "out = verify_output_of check oc"
    by (auto simp: run_preset_def split: if_splits prod.splits option.splits)
  have "vo_ExitCode oc = 0" using assms(4) by (simp add: out verify_output_of_def)
  with passed_ran [OF assms(1) [unfolded p fst_conv] assms(2) run] obtain exe args cenv where
    h: "rn_started (tw_Run w)" "rn_end (tw_Run w) = Waited Wait_OK" "h = Helper_Exec exe args cenv" by blast
  show ?thesis
    using assms(1) [unfolded p fst_conv]
  proof (cases rule: RunInternal_cases)
    case (exec d cache exe' root cwd path x1 y y1 y2 cenv')
    have np: "check \<noteq> PresetGoModTidy" using p by (auto simp: VerificationPreset_def preset_defs split: if_splits)
    obtain target where t: "cd_executable d = ''make''" "cd_arguments d = [target]" "\<not> cd_network d"
      "(check, target) \<in> {(''fmt'', ''fmt-check''), (''test'', ''test''), (''test-race'', ''test-race''), (''vet'', ''vet''),
          (''mcp-integration'', ''mcp-integration''), (''verify'', ''verify'')}"
      by (rule preset_make [OF exec(1) np])
    have proxy: "''GOPROXY=off'' \<in> set cenv' \<and> (\<forall>e \<in> set cenv'. prefix ''GOPROXY='' e \<longrightarrow> e = ''GOPROXY=off'')"
      using exec(1,3) t(3) by (auto simp: exec(9) commandEnvironment_def cache_absolute_def home_entry_def Let_def
          InternalPresetEnvironment_def)
    have h': "h = Helper_Exec exe' [exe', target] cenv'" "k_Exec k exe' [exe', target] cenv' y2 = (True, x')"
      "k_LookPath k ''make'' y = (Some path, y1)"
      using exec(5,10,11) t(1,2) by simp_all
    show ?thesis
      by (intro conjI main h(1,2), rule exI [of _ target], rule exI [of _ path], rule exI [of _ exe'], rule exI [of _ cenv'],
          rule exI [of _ y], rule exI [of _ y1], rule exI [of _ y2], intro conjI h' t(4) exec(7,8))
        (rule proxy [THEN conjunct1], rule proxy [THEN conjunct2])
  qed (use h(3) in \<open>simp_all add: helper_fail_def\<close>)
qed

subsection \<open>Replayed calls\<close>


subsection \<open>Examples\<close>

definition tools_accept where
  "tools_accept = AcceptMCPRequest rev Ctx_Live ''stdio:1'' ''rpc-1'' 1 demo_plane"

definition tools_again :: meta where
  "tools_again = [mcpSecurityRequestIDKey \<mapsto> MV_String ''rpc-1'', mcpSecurityRequestSequenceKey \<mapsto> MV_Float 9 0]"

lemma tools_accept_ok: "fst tools_accept = Inr ()"
proof -
  have "call_valid \<lparr>rl_transportID = ''transport'', rl_authSessionID = sample_sid, rl_principalID = ''agent'',
      rl_mcpSessionID = ''stdio:1'', rl_requestID = ''rpc-1'', rl_sequence = 1\<rparr>" by code_simp
  then show ?thesis
    by (simp add: tools_accept_def AcceptMCPRequest_def calling_def Let_def Accept_def demo_plane_def demo_session_def drop_expired_def)
qed

text \<open>A repository server whose repository is on its main branch.\<close>

definition tools_server :: repo_server where
  "tools_server = \<lparr>sr_Workspace = demo_ws, sr_Disk = demo_disk ''a'', sr_Tasks = sqlite0, sr_StateRoot = ''/state''\<rparr>"

definition tools_world :: tool_world where
  "tools_world = \<lparr>tw_Sha = tiny_sha, tw_See = (\<lambda>d. (d, d, d)), tw_Cancelled = (\<lambda>_. False), tw_Git = (\<lambda>_. None),
     tw_TimeOk = (\<lambda>_. True), tw_Task = env0 1, tw_Io = demo_io, tw_DupOk = True, tw_Environ = calm_env,
     tw_Run = calm_world\<lparr>rn_end := Waited Wait_OK\<rparr>\<rparr>"

definition tools_prod :: "unit prod_server" where
  "tools_prod = \<lparr>pv_Plane = snd tools_accept, pv_Repo = tools_server\<rparr>"


definition tools_verified where
  "tools_verified = repo_verify Ctx_Live ''vet'' tools_world tools_server"

lemma passed_check_ran_witness:
  "tools_verified = Inr (verify_output_of ''vet'' zero_outcome)
   \<and> (\<exists>target exe cenv. calm_end = Helper_Exec exe [exe, target] cenv \<and> ''GOPROXY=off'' \<in> set cenv)"
proof -
  have v: "tools_verified = Inr (verify_output_of ''vet'' zero_outcome)" by code_simp
  have p: "RunInternal calm_kernel calm_env (fst (VerificationPreset ''vet'')) () = (calm_end, ())"
    using calm_run by (simp add: VerificationPreset_def preset_defs)
  have h: "helper_world calm_end (tw_Run tools_world)"
    by (simp add: helper_world_def calm_end_def tools_world_def calm_world_def)
  have "vu_Passed (verify_output_of ''vet'' zero_outcome)" by (simp add: verify_output_of_def zero_outcome_def)
  from passed_check_ran [OF p h v [unfolded tools_verified_def] this]
  have "\<exists>target exe cenv. calm_end = Helper_Exec exe [exe, target] cenv \<and> ''GOPROXY=off'' \<in> set cenv"
    by (elim exE conjE) (intro exI conjI, assumption+)
  then show ?thesis using v by blast
qed

definition tools_edited where
  "tools_edited = components_call Ctx_Live (RT_delete_file ''s/f'') tools_world tools_server"

lemma edits_only_on_main_witness:
  "fst tools_edited = Inr (RR_changed ''s/f'' True)
   \<and> (\<exists>rs. te_Inspect (tw_Task tools_world) = Insp_Ok rs \<and> rp_Branch rs = MainBranch)"
proof -
  have "fst tools_edited = Inr (RR_changed ''s/f'' True)" by code_simp
  moreover have "node_at (sr_Disk (snd tools_edited)) [''s'', ''f''] = None"
    "node_at (sr_Disk tools_server) [''s'', ''f''] \<noteq> None" by code_simp+
  then have "sr_Disk (snd (components_call Ctx_Live (RT_delete_file ''s/f'') tools_world tools_server)) \<noteq> sr_Disk tools_server"
    unfolding tools_edited_def by metis
  from edits_only_on_main [OF this] show ?thesis using calculation by blast
qed

end
