(* ===== verification/Operator_Server.thy ===== *)
theory Operator_Server
  imports Operator_Channel
begin

section \<open>The life of the operator's server (internal/operator/channel.go)\<close>

text \<open>
  The server behind the operator's socket: how it takes the socket, the loop that accepts connections,
  one handler per connection, and the closing. The handlers run side by side. What a handler does is cut
  at the two places where it takes a lock, the check of the signature with the nonce table and the
  approval, and a run is any interleaving of these steps with new connections and with the closing.
\<close>

subsection \<open>The socket\<close>

text \<open>What stands at the path: nothing, a socket on which somebody listens, one that was left behind, or
  something else.\<close>

datatype sock_entry = Sock_Absent | Sock_Live | Sock_Dead | Sock_Other

record start_world =
  sw_parent :: bool
  sw_lstat :: bool
  sw_dial :: bool
  sw_remove :: bool
  sw_listen :: bool
  sw_chmod :: bool
  sw_private :: bool

text \<open>Only a live socket can be dialled.\<close>

definition clear_path :: "start_world \<Rightarrow> sock_entry \<Rightarrow> bool \<times> sock_entry" where
  "clear_path w e =
    (if \<not> sw_lstat w then (False, e)
     else (case e of
             Sock_Absent \<Rightarrow> (True, Sock_Absent)
           | Sock_Other \<Rightarrow> (False, e)
           | _ \<Rightarrow>
               if e = Sock_Live \<and> sw_dial w then (False, e)
               else if \<not> sw_remove w then (False, e)
               else (True, Sock_Absent)))"

definition take_socket :: "start_world \<Rightarrow> bool \<Rightarrow> sock_entry \<Rightarrow> bool \<times> sock_entry" where
  "take_socket w usable e =
    (if \<not> usable then (False, e)
     else if \<not> sw_parent w then (False, e)
     else (case clear_path w e of
             (False, e1) \<Rightarrow> (False, e1)
           | (True, e1) \<Rightarrow>
               if \<not> sw_listen w then (False, e1)
               else if \<not> sw_chmod w then (False, Sock_Absent)
               else if \<not> sw_private w then (False, Sock_Absent)
               else (True, Sock_Live)))"

subsection \<open>Connections\<close>

datatype conn_phase = Conn_Reading | Conn_Verified wire_request | Conn_Done string

text \<open>The state of a server with the state behind \<open>approve\<close>. The last two fields only record what
  happened: the requests that came before the nonce table, and those that were approved.\<close>

record 'x op_run =
  ol_Server :: op_server
  ol_State :: 'x
  ol_Path :: sock_entry
  ol_Listening :: bool
  ol_Accepting :: bool
  ol_Conns :: "conn_phase list"
  ol_Closing :: bool
  ol_Returned :: bool
  ol_Attempts :: "(instant \<times> wire_request) list"
  ol_Approved :: "wire_request list"

definition idle_server :: "op_server \<Rightarrow> 'x \<Rightarrow> sock_entry \<Rightarrow> 'x op_run" where
  "idle_server s st e =
     \<lparr>ol_Server = s, ol_State = st, ol_Path = e, ol_Listening = False, ol_Accepting = False, ol_Conns = [],
      ol_Closing = False, ol_Returned = False, ol_Attempts = [], ol_Approved = []\<rparr>"

definition op_Start :: "start_world \<Rightarrow> bool \<Rightarrow> 'x op_run \<Rightarrow> bool \<times> 'x op_run" where
  "op_Start w has_approve r =
    (case take_socket w (sv_path (ol_Server r) \<noteq> [] \<and> has_approve) (ol_Path r) of
       (False, e) \<Rightarrow> (False, r\<lparr>ol_Path := e\<rparr>)
     | (True, e) \<Rightarrow> (True, r\<lparr>ol_Path := e, ol_Listening := True, ol_Accepting := True\<rparr>))"

text \<open>The first part of \<open>handle\<close>, up to the end of \<open>verify\<close>; and the second, from \<open>approve\<close> on.\<close>

definition request_of :: "(string \<Rightarrow> wire_request option) \<Rightarrow> string \<Rightarrow> wire_request option" where
  "request_of dec input = Option.bind (readBoundedFrame input) dec"

definition operator_ctx :: "wire_request \<Rightarrow> op_context" where
  "operator_ctx q = WithOperatorAuthentication \<lparr>oc_ctx = Ctx_Live, oc_operator = None\<rparr> (wr_OperatorID q)"

definition operator_ask :: "wire_request \<Rightarrow> operator_request" where
  "operator_ask q = \<lparr>or_Binding = wr_Binding q, or_Class = wr_Class q, or_TTL = wr_TTLSeconds q * second\<rparr>"

definition read_conn ::
  "(string \<Rightarrow> string \<Rightarrow> string) \<Rightarrow> (signature_payload \<Rightarrow> string option) \<Rightarrow> (wire_response \<Rightarrow> string option) \<Rightarrow> nonce_order
     \<Rightarrow> instant \<Rightarrow> wire_request option \<Rightarrow> op_server \<Rightarrow> conn_phase \<times> op_server" where
  "read_conn mac enc encr ord now request s =
    (case request of
       None \<Rightarrow> (Conn_Done (writeResponse encr rejected_response), s)
     | Some q \<Rightarrow>
         (case verify mac enc ord now q s of
            (False, s') \<Rightarrow> (Conn_Done (writeResponse encr rejected_response), s')
          | (True, s') \<Rightarrow> (Conn_Verified q, s')))"

definition approve_conn ::
  "(wire_response \<Rightarrow> string option) \<Rightarrow> (op_context \<Rightarrow> operator_request \<Rightarrow> 'x \<Rightarrow> ('e + confirmation) \<times> 'x) \<Rightarrow> wire_request
     \<Rightarrow> 'x \<Rightarrow> conn_phase \<times> 'x" where
  "approve_conn encr approve q st =
    (case approve (operator_ctx q) (operator_ask q) st of
       (Inl _, st') \<Rightarrow> (Conn_Done (writeResponse encr rejected_response), st')
     | (Inr cf, st') \<Rightarrow> (Conn_Done (writeResponse encr \<lparr>wresp_Confirmation = Some cf, wresp_Error = []\<rparr>), st'))"

text \<open>One after the other they are the whole handler.\<close>

lemma handle_in_two_steps:
  "channel_handle mac enc dec encr ord now approve input s st =
    (case read_conn mac enc encr ord now (request_of dec input) s of
       (Conn_Verified q, s') \<Rightarrow>
         (case approve_conn encr approve q st of (Conn_Done out, st') \<Rightarrow> (out, s', st'))
     | (Conn_Done out, s') \<Rightarrow> (out, s', st))"
  by (simp add: channel_handle_def read_conn_def approve_conn_def request_of_def operator_ctx_def operator_ask_def Let_def
      split: option.splits prod.splits bool.splits sum.splits)

text \<open>What the first \<open>Close\<close> does; \<open>removed\<close> is whether the path could be removed.\<close>

definition op_Close :: "bool \<Rightarrow> 'x op_run \<Rightarrow> 'x op_run" where
  "op_Close removed r =
     r\<lparr>ol_Closing := True, ol_Listening := False,
       ol_Path := (if removed then Sock_Absent else if ol_Listening r then Sock_Dead else ol_Path r)\<rparr>"

subsection \<open>The steps of a run\<close>

text \<open>A handler ends its reading with a request or with none, for whatever reason: a long frame, the
  deadline, bytes that are no request. The loop ends with any error of \<open>AcceptUnix\<close>. Only the first
  \<open>Close\<close> does something, and each returns when the loop and all handlers have ended.\<close>

inductive channel_step ::
  "(string \<Rightarrow> string \<Rightarrow> string) \<Rightarrow> (signature_payload \<Rightarrow> string option) \<Rightarrow> (string \<Rightarrow> wire_request option)
     \<Rightarrow> (wire_response \<Rightarrow> string option) \<Rightarrow> nonce_order
     \<Rightarrow> (op_context \<Rightarrow> operator_request \<Rightarrow> 'x \<Rightarrow> ('e + confirmation) \<times> 'x) \<Rightarrow> 'x op_run \<Rightarrow> 'x op_run \<Rightarrow> bool"
  for mac enc dec encr ord approve where
  Chan_Accept:
    "ol_Listening r \<Longrightarrow> ol_Accepting r
       \<Longrightarrow> channel_step mac enc dec encr ord approve r (r\<lparr>ol_Conns := ol_Conns r @ [Conn_Reading]\<rparr>)"
| Chan_Stop:
    "ol_Accepting r \<Longrightarrow> channel_step mac enc dec encr ord approve r (r\<lparr>ol_Accepting := False\<rparr>)"
| Chan_Read:
    "i < length (ol_Conns r) \<Longrightarrow> ol_Conns r ! i = Conn_Reading
       \<Longrightarrow> read_conn mac enc encr ord now (request_of dec input) (ol_Server r) = (c, s)
       \<Longrightarrow> channel_step mac enc dec encr ord approve r
             (r\<lparr>ol_Server := s, ol_Conns := (ol_Conns r)[i := c],
                ol_Attempts := ol_Attempts r @ (case request_of dec input of None \<Rightarrow> [] | Some q \<Rightarrow> [(now, q)])\<rparr>)"
| Chan_Approve:
    "i < length (ol_Conns r) \<Longrightarrow> ol_Conns r ! i = Conn_Verified q
       \<Longrightarrow> approve_conn encr approve q (ol_State r) = (c, st)
       \<Longrightarrow> channel_step mac enc dec encr ord approve r
             (r\<lparr>ol_State := st, ol_Conns := (ol_Conns r)[i := c], ol_Approved := ol_Approved r @ [q]\<rparr>)"
| Chan_Close:
    "\<not> ol_Closing r \<Longrightarrow> channel_step mac enc dec encr ord approve r (op_Close removed r)"
| Chan_Return:
    "ol_Closing r \<Longrightarrow> \<not> ol_Accepting r \<Longrightarrow> list_all (\<lambda>c. \<exists>out. c = Conn_Done out) (ol_Conns r)
       \<Longrightarrow> channel_step mac enc dec encr ord approve r (r\<lparr>ol_Returned := True\<rparr>)"

subsection \<open>Taking the socket\<close>

text \<open>A start takes the place of a dead socket only, or of a live one that does not answer; it never touches
  anything else, and a server that starts is the one that listens.\<close>

lemma start_respects_others:
  assumes "op_Start w has_approve r = (b, r')"
  shows "b \<Longrightarrow> ol_Path r' = Sock_Live \<and> ol_Path r \<noteq> Sock_Other \<and> (ol_Path r = Sock_Live \<longrightarrow> \<not> sw_dial w)"
    and "ol_Path r = Sock_Other \<Longrightarrow> ol_Path r' = Sock_Other"
    and "ol_Path r = Sock_Live \<Longrightarrow> sw_dial w \<Longrightarrow> ol_Path r' = Sock_Live"
  using assms by (auto simp: op_Start_def take_socket_def clear_path_def split: if_splits sock_entry.splits prod.splits bool.splits)

text \<open>But closing does not ask who listens: a server whose start was refused because another one listens
  removes the socket of the other one when it is closed.\<close>

lemma close_takes_foreign_socket:
  fixes mac enc dec encr ord and approve :: "op_context \<Rightarrow> operator_request \<Rightarrow> 'x \<Rightarrow> ('e + confirmation) \<times> 'x"
  assumes "op_Start w True (idle_server s st Sock_Live) = (False, r)" and "sw_dial w"
  shows "ol_Path r = Sock_Live \<and> (\<exists>r'. channel_step mac enc dec encr ord approve r r' \<and> ol_Path r' = Sock_Absent)"
proof -
  have "ol_Path r = Sock_Live" "\<not> ol_Closing r"
    using assms by (auto simp: op_Start_def take_socket_def clear_path_def idle_server_def split: if_splits prod.splits bool.splits)
  then show ?thesis by (intro conjI exI [of _ "op_Close True r"] Chan_Close) (simp_all add: op_Close_def)
qed

subsection \<open>What the nonce table lets through\<close>

text \<open>The requests among \<open>attempts\<close> that pass \<open>verify\<close>, in their order.\<close>

fun verified_among ::
  "(string \<Rightarrow> string \<Rightarrow> string) \<Rightarrow> (signature_payload \<Rightarrow> string option) \<Rightarrow> nonce_order
     \<Rightarrow> (instant \<times> wire_request) list \<Rightarrow> op_server \<Rightarrow> wire_request list" where
  "verified_among mac enc ord [] s = []"
| "verified_among mac enc ord ((now, q) # as) s =
    (case verify mac enc ord now q s of (b, s') \<Rightarrow> (if b then [q] else []) @ verified_among mac enc ord as s')"

lemma verified_among_snoc:
  "verified_among mac enc ord (as @ [(now, q)]) s =
     verified_among mac enc ord as s
     @ (if fst (verify mac enc ord now q (verify_all mac enc ord as s)) then [q] else [])"
proof (induction as arbitrary: s)
  case (Cons a as)
  obtain t r where "a = (t, r)" by fastforce
  then show ?case using Cons by (cases "verify mac enc ord t r s") (simp add: verify_all_def)
qed (simp add: verify_all_def split: prod.splits)

lemma verify_keeps_identity:
  "sv_key (snd (verify mac enc ord now q s)) = sv_key s"
  "sv_operatorID (snd (verify mac enc ord now q s)) = sv_operatorID s"
  by (simp_all add: verify_def Let_def)

lemma signed_ok_identity:
  "sv_key s = sv_key s' \<Longrightarrow> sv_operatorID s = sv_operatorID s' \<Longrightarrow> signed_ok mac enc q s = signed_ok mac enc q s'"
  by (simp add: signed_ok_def cong: option.case_cong)

lemma verify_signed: "fst (verify mac enc ord now q s) \<Longrightarrow> signed_ok mac enc q s"
  by (auto simp: verify_def split: if_splits)

lemma verified_among_signed: "q \<in> set (verified_among mac enc ord as s) \<Longrightarrow> signed_ok mac enc q s"
proof (induction as arbitrary: s)
  case (Cons a as)
  obtain t r where a: "a = (t, r)" by fastforce
  obtain b s' where v: "verify mac enc ord t r s = (b, s')" by fastforce
  have "signed_ok mac enc q s' = signed_ok mac enc q s"
    using verify_keeps_identity [of mac enc ord t r s] v by (intro signed_ok_identity) auto
  then show ?case
    using Cons verify_signed [of mac enc ord t r s] v by (auto simp: a split: if_splits)
qed simp

lemma verified_among_position:
  assumes "q \<in> set (verified_among mac enc ord as s)"
  shows "\<exists>before now after. as = before @ (now, q) # after \<and> fst (verify mac enc ord now q (verify_all mac enc ord before s))"
  using assms
proof (induction as arbitrary: s)
  case (Cons a as)
  obtain t r where a: "a = (t, r)" by fastforce
  obtain b s' where v: "verify mac enc ord t r s = (b, s')" by fastforce
  show ?case
  proof (cases "b \<and> q = r")
    case True
    then show ?thesis using a v by (intro exI [of _ "[]"] exI [of _ t] exI [of _ as]) (simp add: verify_all_def)
  next
    case False
    then have "q \<in> set (verified_among mac enc ord as s')" using Cons.prems a v by (auto split: if_splits)
    from Cons.IH [OF this] obtain before now after where
      "as = before @ (now, q) # after" "fst (verify mac enc ord now q (verify_all mac enc ord before s'))" by blast
    then show ?thesis using a v by (intro exI [of _ "a # before"] exI [of _ now] exI [of _ after]) (simp add: verify_all_def)
  qed
qed simp

lemma young_length: "young t m \<le> length m"
  by (simp add: young_def)

lemma verify_grows: "server_wf s \<Longrightarrow> length (sv_seen (snd (verify mac enc ord now q s))) \<le> Suc (length (sv_seen s))"
proof -
  let ?live = "drop_expired id op_replayTTL now (sv_seen s)"
  have "length (evict_oldest ord id [] maxReplayNonces ?live) \<le> length ?live"
    by (simp add: evict_oldest_def delete_key_def)
  then have "length (evict_oldest ord id [] maxReplayNonces ?live) \<le> length (sv_seen s)" "length ?live \<le> length (sv_seen s)"
    using length_drop_expired [of id op_replayTTL now "sv_seen s"] by simp_all
  then show ?thesis by (auto simp: verify_def Let_def)
qed

text \<open>Within the lifetime of an entry, and as long as the table has room, every nonce passes once.\<close>

lemma verified_nonces_distinct:
  assumes "server_wf s" and "\<forall>(now, q) \<in> set as. zero_time < now \<and> lo \<le> now \<and> now < lo + op_replayTTL"
    and "length (sv_seen s) + length as \<le> maxReplayNonces"
  shows "distinct (map wr_Nonce (verified_among mac enc ord as s))"
  using assms
proof (induction as arbitrary: s)
  case (Cons a as)
  obtain t r where a: "a = (t, r)" by fastforce
  obtain b s' where v: "verify mac enc ord t r s = (b, s')" by fastforce
  have t: "zero_time < t" "lo \<le> t" using Cons.prems(2) a by auto
  have wf': "server_wf s'" using verify_wf [OF Cons.prems(1) t(1), of mac enc ord r] v by simp
  have len: "length (sv_seen s') + length as \<le> maxReplayNonces"
    using verify_grows [OF Cons.prems(1), of mac enc ord t r] v Cons.prems(3) by (simp add: a)
  have rest: "distinct (map wr_Nonce (verified_among mac enc ord as s'))"
    using Cons.IH [OF wf' _ len] Cons.prems(2) by auto
  show ?case
  proof (cases b)
    case True
    have "wr_Nonce q \<noteq> wr_Nonce r" if "q \<in> set (verified_among mac enc ord as s')" for q
    proof
      assume eq: "wr_Nonce q = wr_Nonce r"
      from verified_among_position [OF that] obtain before now after where
        as: "as = before @ (now, q) # after" and ok: "fst (verify mac enc ord now q (verify_all mac enc ord before s'))" by blast
      have "\<not> fst (verify mac enc ord now q (operator_nonces.offers mac enc ord before (snd (verify mac enc ord t r s))))"
      proof (rule operator_nonces.no_replay [OF Cons.prems(1) t(1)])
        show "fst (verify mac enc ord t r s)" using v True by simp
        show "\<forall>(now, q) \<in> set before. zero_time < now \<and> now < t + op_replayTTL"
        proof clarify
          fix u x assume "(u, x) \<in> set before"
          then have "(u, x) \<in> set (a # as)" using as by simp
          then have "zero_time < u \<and> u < lo + op_replayTTL" using Cons.prems(2) by fast
          then show "zero_time < u \<and> u < t + op_replayTTL" using t(2) by simp
        qed
        show "young t (sv_seen s) + Suc (length before) \<le> maxReplayNonces"
          using Cons.prems(3) young_length [of t "sv_seen s"] by (simp add: a as)
        show "now < t + op_replayTTL" using Cons.prems(2) t as by (auto simp: a)
        show "wr_Nonce r = wr_Nonce q" by (simp add: eq)
      qed
      then show False using ok v by (simp add: offers_verify_all)
    qed
    then have "wr_Nonce r \<notin> wr_Nonce ` set (verified_among mac enc ord as s')" by (metis imageE)
    then show ?thesis using rest True v by (simp add: a)
  qed (use rest v a in simp)
qed simp

subsection \<open>What every run keeps\<close>

definition conn_pending :: "conn_phase \<Rightarrow> wire_request list" where
  "conn_pending c = (case c of Conn_Verified q \<Rightarrow> [q] | _ \<Rightarrow> [])"

abbreviation pending :: "conn_phase list \<Rightarrow> wire_request multiset" where
  "pending cs \<equiv> mset (concat (map conn_pending cs))"

lemma pending_update:
  "i < length cs \<Longrightarrow> pending (cs[i := c]) + mset (conn_pending (cs ! i)) = pending cs + mset (conn_pending c)"
proof (induction cs arbitrary: i)
  case (Cons x xs)
  show ?case
  proof (cases i)
    case (Suc j)
    then have "pending (xs[j := c]) + mset (conn_pending (xs ! j)) = pending xs + mset (conn_pending c)"
      using Cons by simp
    then show ?thesis using Suc by (simp add: union_assoc)
  qed simp
qed simp

text \<open>What was approved, or waits for its approval, passed \<open>verify\<close>, each request as often as it passed.\<close>

definition channel_inv ::
  "(string \<Rightarrow> string \<Rightarrow> string) \<Rightarrow> (signature_payload \<Rightarrow> string option) \<Rightarrow> nonce_order
     \<Rightarrow> (op_context \<Rightarrow> operator_request \<Rightarrow> 'x \<Rightarrow> ('e + confirmation) \<times> 'x) \<Rightarrow> op_server \<Rightarrow> 'x \<Rightarrow> 'x op_run \<Rightarrow> bool" where
  "channel_inv mac enc ord approve s0 st0 r \<longleftrightarrow>
     ol_Server r = verify_all mac enc ord (ol_Attempts r) s0
     \<and> mset (ol_Approved r) + pending (ol_Conns r) = mset (verified_among mac enc ord (ol_Attempts r) s0)
     \<and> ol_State r = foldl (\<lambda>st q. snd (approve (operator_ctx q) (operator_ask q) st)) st0 (ol_Approved r)
     \<and> (ol_Closing r \<longrightarrow> \<not> ol_Listening r)
     \<and> (ol_Returned r \<longrightarrow> ol_Closing r \<and> \<not> ol_Accepting r \<and> list_all (\<lambda>c. \<exists>out. c = Conn_Done out) (ol_Conns r))"

lemma channel_inv_idle: "channel_inv mac enc ord approve s0 st0 (idle_server s0 st0 e)"
  by (simp add: channel_inv_def idle_server_def verify_all_def)

lemma channel_inv_start:
  "channel_inv mac enc ord approve s0 st0 r \<Longrightarrow> \<not> ol_Closing r \<Longrightarrow> channel_inv mac enc ord approve s0 st0 (snd (op_Start w b r))"
  by (auto simp: channel_inv_def op_Start_def split: prod.splits bool.splits)

lemma all_done_nth: "list_all (\<lambda>c. \<exists>out. c = Conn_Done out) cs \<Longrightarrow> i < length cs \<Longrightarrow> \<exists>out. cs ! i = Conn_Done out"
  by (simp add: list_all_length)

lemma read_conn_pending:
  assumes "read_conn mac enc encr ord now request s = (c, s')"
  shows "conn_pending c = (case request of None \<Rightarrow> [] | Some q \<Rightarrow> if fst (verify mac enc ord now q s) then [q] else [])"
    and "s' = (case request of None \<Rightarrow> s | Some q \<Rightarrow> snd (verify mac enc ord now q s))"
  using assms by (auto simp: read_conn_def conn_pending_def split: option.splits prod.splits bool.splits)

lemma approve_conn_pending:
  assumes "approve_conn encr approve q st = (c, st')"
  shows "conn_pending c = []" and "st' = snd (approve (operator_ctx q) (operator_ask q) st)"
  using assms by (auto simp: approve_conn_def conn_pending_def split: prod.splits sum.splits)

lemma channel_inv_step:
  assumes "channel_step mac enc dec encr ord approve r r'" and "channel_inv mac enc ord approve s0 st0 r"
  shows "channel_inv mac enc ord approve s0 st0 r'"
  using assms
proof cases
  case (Chan_Read i now input c s)
  have p: "pending ((ol_Conns r)[i := c]) = pending (ol_Conns r) + mset (conn_pending c)"
    using pending_update [of i "ol_Conns r" c] Chan_Read(2,3) by (simp add: conn_pending_def)
  have nr: "\<not> ol_Returned r"
    using assms(2) Chan_Read(2,3) all_done_nth [of "ol_Conns r" i] by (auto simp: channel_inv_def)
  show ?thesis
  proof (cases "request_of dec input")
    case None
    then show ?thesis
      using assms(2) read_conn_pending [OF Chan_Read(4)] p nr unfolding Chan_Read(1) channel_inv_def by simp
  next
    case (Some q)
    then show ?thesis
      using assms(2) read_conn_pending [OF Chan_Read(4)] p nr
      unfolding Chan_Read(1) channel_inv_def by (auto simp: verified_among_snoc verify_all_def union_assoc)
  qed
next
  case (Chan_Approve i q c st)
  have p: "pending ((ol_Conns r)[i := c]) + {#q#} = pending (ol_Conns r)"
    using pending_update [of i "ol_Conns r" c] Chan_Approve(2,3) approve_conn_pending [OF Chan_Approve(4)]
    by (simp add: conn_pending_def)
  have nr: "\<not> ol_Returned r"
    using assms(2) Chan_Approve(2,3) all_done_nth [of "ol_Conns r" i] by (auto simp: channel_inv_def)
  show ?thesis
    using assms(2) p [symmetric] nr approve_conn_pending [OF Chan_Approve(4)]
    unfolding Chan_Approve(1) channel_inv_def by (auto simp: ac_simps)
next
  case Chan_Accept
  then show ?thesis using assms(2) by (auto simp: channel_inv_def conn_pending_def)
next
  case Chan_Stop
  then show ?thesis using assms(2) by (auto simp: channel_inv_def)
next
  case (Chan_Close removed)
  then show ?thesis using assms(2) by (auto simp: channel_inv_def op_Close_def)
next
  case Chan_Return
  then show ?thesis using assms(2) by (auto simp: channel_inv_def)
qed

lemma channel_inv_run:
  "(channel_step mac enc dec encr ord approve)\<^sup>*\<^sup>* r r' \<Longrightarrow> channel_inv mac enc ord approve s0 st0 r
     \<Longrightarrow> channel_inv mac enc ord approve s0 st0 r'"
  by (induction rule: rtranclp_induct) (auto dest: channel_inv_step)

lemma returned_stays_quiet:
  assumes "(channel_step mac enc dec encr ord approve)\<^sup>*\<^sup>* r r'" and "ol_Returned r"
    and "channel_inv mac enc ord approve s0 st0 r"
  shows "ol_Approved r' = ol_Approved r \<and> ol_State r' = ol_State r \<and> ol_Returned r'"
  using assms
proof (induction rule: rtranclp_induct)
  case (step y z)
  have q: "\<not> ol_Accepting y" "list_all (\<lambda>c. \<exists>out. c = Conn_Done out) (ol_Conns y)"
    using channel_inv_run [OF step(1) step.prems(2)] step.IH step.prems by (simp_all add: channel_inv_def)
  have ih: "ol_Approved y = ol_Approved r" "ol_State y = ol_State r" "ol_Returned y" using step.IH step.prems by simp_all
  from step(2) show ?case
  proof cases
    case (Chan_Read i now input c s)
    then show ?thesis using all_done_nth [OF q(2) Chan_Read(2)] by simp
  next
    case (Chan_Approve i q c st)
    then show ?thesis using all_done_nth [OF q(2) Chan_Approve(2)] by simp
  qed (use ih q(1) in \<open>simp_all add: op_Close_def\<close>)
qed simp

lemma distinct_part:
  assumes "mset ys \<subseteq># mset xs" and "distinct (map f xs)"
  shows "distinct (map f ys)"
proof -
  have "mset (map f ys) \<subseteq># mset (map f xs)" using image_mset_subseteq_mono [OF assms(1), of f] by simp
  then have le: "count (mset (map f ys)) x \<le> count (mset (map f xs)) x" for x by (rule mset_subset_eq_count)
  have one: "count (mset (map f xs)) x \<le> 1" for x
    using assms(2) [unfolded distinct_count_atmost_1] by simp
  show ?thesis
    unfolding distinct_count_atmost_1
  proof
    fix x
    show "count (mset (map f ys)) x = (if x \<in> set (map f ys) then 1 else 0)"
    proof (cases "x \<in> set (map f ys)")
      case True
      then have "x \<in># mset (map f ys)" by (simp del: mset_map)
      then have "0 < count (mset (map f ys)) x" by (rule count_greater_zero_iff [THEN iffD2])
      then have "count (mset (map f ys)) x = 1" using le [of x] one [of x] by linarith
      then show ?thesis using True by (simp del: mset_map)
    next
      case False
      then show ?thesis by (simp add: count_eq_zero_iff)
    qed
  qed
qed

subsection \<open>The life of a server\<close>


text \<open>The connections that are still open can only run out: each can come to its end by itself.\<close>

definition same_phase :: "'x op_run \<Rightarrow> 'x op_run \<Rightarrow> bool" where
  "same_phase r r' \<longleftrightarrow> ol_Closing r' = ol_Closing r \<and> ol_Accepting r' = ol_Accepting r"

lemma verified_can_finish:
  assumes "i < length (ol_Conns r)" and "ol_Conns r ! i = Conn_Verified q"
  shows "\<exists>r' out. channel_step mac enc dec encr ord approve r r' \<and> ol_Conns r' = (ol_Conns r)[i := Conn_Done out] \<and> same_phase r r'"
proof -
  obtain c st where a: "approve_conn encr approve q (ol_State r) = (c, st)" by fastforce
  then obtain out where c: "c = Conn_Done out" by (auto simp: approve_conn_def split: prod.splits sum.splits)
  let ?r = "r\<lparr>ol_State := st, ol_Conns := (ol_Conns r)[i := c], ol_Approved := ol_Approved r @ [q]\<rparr>"
  have "channel_step mac enc dec encr ord approve r ?r" by (rule Chan_Approve [OF assms a])
  then show ?thesis by (intro exI [of _ ?r] exI [of _ out]) (simp add: c same_phase_def)
qed

lemma reading_can_finish:
  assumes "i < length (ol_Conns r)" and "ol_Conns r ! i = Conn_Reading"
  shows "\<exists>r' out. channel_step mac enc dec encr ord approve r r' \<and> ol_Conns r' = (ol_Conns r)[i := Conn_Done out] \<and> same_phase r r'"
proof -
  have none: "request_of dec [] = None"
    by (simp add: request_of_def readBoundedFrame_def read_frame_loop.simps ReadSlice_def bufferBytes_def)
  have "read_conn mac enc encr ord 0 (request_of dec []) (ol_Server r) = (Conn_Done (writeResponse encr rejected_response), ol_Server r)"
    by (simp add: read_conn_def none)
  from Chan_Read [OF assms this, of approve]
  have "channel_step mac enc dec encr ord approve r
      (r\<lparr>ol_Conns := (ol_Conns r)[i := Conn_Done (writeResponse encr rejected_response)]\<rparr>)"
    by (simp add: none)
  then show ?thesis by (intro exI conjI) (assumption, simp_all add: same_phase_def)
qed

lemma conns_can_finish:
  assumes "n \<le> length (ol_Conns r)"
  shows "\<exists>r'. (channel_step mac enc dec encr ord approve)\<^sup>*\<^sup>* r r' \<and> same_phase r r' \<and> length (ol_Conns r') = length (ol_Conns r)
     \<and> (\<forall>i < n. \<exists>out. ol_Conns r' ! i = Conn_Done out)"
  using assms
proof (induction n)
  case 0
  then show ?case by (intro exI [of _ r]) (simp add: same_phase_def)
next
  case (Suc n)
  then obtain r1 where r1: "(channel_step mac enc dec encr ord approve)\<^sup>*\<^sup>* r r1" "same_phase r r1"
      "length (ol_Conns r1) = length (ol_Conns r)" "\<forall>i < n. \<exists>out. ol_Conns r1 ! i = Conn_Done out" by fastforce
  have n: "n < length (ol_Conns r1)" using Suc.prems r1(3) by simp
  show ?case
  proof (cases "\<exists>out. ol_Conns r1 ! n = Conn_Done out")
    case True
    then show ?thesis using r1 by (intro exI [of _ r1]) (auto simp: less_Suc_eq)
  next
    case False
    then obtain r2 out where s: "channel_step mac enc dec encr ord approve r1 r2" "ol_Conns r2 = (ol_Conns r1)[n := Conn_Done out]"
        "same_phase r1 r2"
      using reading_can_finish [OF n] verified_can_finish [OF n] by (metis conn_phase.exhaust)
    show ?thesis
      using rtranclp.rtrancl_into_rtrancl [OF r1(1) s(1)] r1 s(2,3) n
      by (intro exI [of _ r2]) (auto simp: same_phase_def less_Suc_eq nth_list_update)
  qed
qed

text \<open>So a server that is closing always can come to its end.\<close>

lemma closing_can_return:
  assumes "ol_Closing r"
  shows "\<exists>r'. (channel_step mac enc dec encr ord approve)\<^sup>*\<^sup>* r r' \<and> ol_Returned r'"
proof -
  obtain r1 where r1: "(channel_step mac enc dec encr ord approve)\<^sup>*\<^sup>* r r1" "same_phase r r1"
      "\<forall>i < length (ol_Conns r1). \<exists>out. ol_Conns r1 ! i = Conn_Done out"
    using conns_can_finish [OF order_refl, of mac enc dec encr ord approve r] by metis
  have "(channel_step mac enc dec encr ord approve)\<^sup>*\<^sup>* r1 (r1\<lparr>ol_Accepting := False\<rparr>)"
  proof (cases "ol_Accepting r1")
    case True
    then show ?thesis by (intro r_into_rtranclp Chan_Stop)
  next
    case False
    then have "r1\<lparr>ol_Accepting := False\<rparr> = r1" by simp
    then show ?thesis by (metis rtranclp.rtrancl_refl)
  qed
  moreover have "channel_step mac enc dec encr ord approve (r1\<lparr>ol_Accepting := False\<rparr>) (r1\<lparr>ol_Accepting := False, ol_Returned := True\<rparr>)"
    using Chan_Return [of "r1\<lparr>ol_Accepting := False\<rparr>" mac enc dec encr ord approve] r1(2,3) assms
    by (simp add: same_phase_def list_all_length)
  ultimately show ?thesis using r1(1) by (intro exI [of _ "r1\<lparr>ol_Accepting := False, ol_Returned := True\<rparr>"]) auto
qed

subsection \<open>An example\<close>

definition chan_start :: start_world where
  "chan_start = \<lparr>sw_parent = True, sw_lstat = True, sw_dial = False, sw_remove = True, sw_listen = True, sw_chmod = True,
     sw_private = True\<rparr>"

definition chan_open :: "nat op_run" where
  "chan_open = snd (op_Start chan_start True (idle_server sample_server 0 Sock_Dead))"

lemma chan_open_ok: "op_Start chan_start True (idle_server sample_server 0 Sock_Dead) = (True, chan_open)"
  by (simp add: chan_open_def op_Start_def take_socket_def clear_path_def chan_start_def idle_server_def sample_server_def)

text \<open>Two connections with the same request: the second is refused.\<close>

lemma chan_twice:
  "\<exists>r. (channel_step sample_mac sample_enc (\<lambda>f. Some sample_wire) (\<lambda>r. Some ''x'') rev count_approve)\<^sup>*\<^sup>* chan_open r
     \<and> ol_Attempts r = [(5, sample_wire), (6, sample_wire)] \<and> ol_Approved r = [sample_wire]"
proof -
  let ?dec = "\<lambda>f :: string. Some sample_wire" and ?encr = "\<lambda>r :: wire_response. Some ''x''"
  let ?step = "channel_step sample_mac sample_enc ?dec ?encr rev count_approve"
  have q: "request_of ?dec (''{}'' @ [LF]) = Some sample_wire" by code_simp
  have sv: "ol_Server chan_open = sample_server" and seen: "sv_seen sample_server = []"
    by (simp_all add: chan_open_def op_Start_def take_socket_def clear_path_def chan_start_def idle_server_def sample_server_def)
  let ?s1 = "sample_server\<lparr>sv_seen := [(''n1'', 5)]\<rparr>"
  have v1: "verify sample_mac sample_enc rev 5 sample_wire sample_server = (True, ?s1)"
    using sample_wire_ok seen
    by (simp add: verify_def drop_expired_def evict_oldest_def maxReplayNonces_def Let_def sample_wire_def)
  have "signed_ok sample_mac sample_enc sample_wire ?s1"
    using sample_wire_ok signed_ok_identity [of ?s1 sample_server] by simp
  then have v2: "verify sample_mac sample_enc rev 6 sample_wire ?s1 = (False, ?s1)"
    by (simp add: verify_def drop_expired_def Let_def sample_wire_def op_replayTTL_def duration_defs)
  define r1 where "r1 = chan_open\<lparr>ol_Conns := [Conn_Reading]\<rparr>"
  define r2 where "r2 = r1\<lparr>ol_Conns := [Conn_Reading, Conn_Reading]\<rparr>"
  define r3 where "r3 = r2\<lparr>ol_Server := ?s1, ol_Conns := [Conn_Verified sample_wire, Conn_Reading], ol_Attempts := [(5, sample_wire)]\<rparr>"
  define out where "out = writeResponse ?encr rejected_response"
  define r4 where "r4 = r3\<lparr>ol_Server := ?s1, ol_Conns := [Conn_Verified sample_wire, Conn_Done out],
      ol_Attempts := [(5, sample_wire), (6, sample_wire)]\<rparr>"
  define r5 where "r5 = r4\<lparr>ol_State := Suc (ol_State r4), ol_Conns := [Conn_Done out, Conn_Done out], ol_Approved := [sample_wire]\<rparr>"
  have o: "ol_Listening chan_open" "ol_Accepting chan_open" "ol_Conns chan_open = []" "ol_Attempts chan_open = []"
      "ol_Approved chan_open = []"
    by (simp_all add: chan_open_def op_Start_def take_socket_def clear_path_def chan_start_def idle_server_def sample_server_def)
  have "?step chan_open r1" using Chan_Accept [OF o(1,2), of sample_mac sample_enc ?dec ?encr rev count_approve] o(3) by (simp add: r1_def)
  moreover have "?step r1 r2"
    using Chan_Accept [of r1 sample_mac sample_enc ?dec ?encr rev count_approve] o by (simp add: r1_def r2_def)
  moreover have "?step r2 r3"
    using Chan_Read [of 0 r2 sample_mac sample_enc ?encr rev 5 ?dec "''{}'' @ [LF]" _ _ count_approve] o v1 q sv
    by (simp add: r1_def r2_def r3_def read_conn_def)
  moreover have "?step r3 r4"
    using Chan_Read [of 1 r3 sample_mac sample_enc ?encr rev 6 ?dec "''{}'' @ [LF]" _ _ count_approve] o v2 q
    by (simp add: r1_def r2_def r3_def r4_def read_conn_def out_def)
  moreover have "?step r4 r5"
    using Chan_Approve [of 0 r4 sample_wire ?encr count_approve _ _ sample_mac sample_enc ?dec rev] o
    by (simp add: r1_def r2_def r3_def r4_def r5_def approve_conn_def count_approve_def out_def)
  ultimately have "?step\<^sup>*\<^sup>* chan_open r5" by (meson rtranclp.rtrancl_into_rtrancl rtranclp.rtrancl_refl)
  then show ?thesis by (intro exI [of _ r5]) (simp add: r5_def r4_def)
qed


end
