(* ===== verification/Server_Main.thy ===== *)
theory Server_Main
  imports MCP_Tools Operator_Server Auth_Credential
begin

section \<open>Starting the program (cmd/repoworker/main.go)\<close>

text \<open>
  The program is the helper of a fixed command, the operator's command, or the server; which one is decided by
  the environment and the arguments. The theory models that decision, the key that the server and the
  operator share, the operator's command up to the call of the channel, and how the server is put
  together and taken down. Parsing the flags is the library's: its result is an argument.
\<close>

subsection \<open>The operator's key\<close>

text \<open>What is at the path of the key: nothing, a private regular file, or anything else (\<open>KF_Other\<close>: a link, a
  directory, a file that others may read).\<close>

datatype key_file = KF_Absent | KF_Private string | KF_Other

text \<open>The outcomes: of making the directory and its mode, whether it is then a private directory, whether the
  key can be examined and read, the random bytes, whether the file can be created, how it is written,
  closed and removed.\<close>

record key_world =
  kw_mkdir :: bool
  kw_chmod :: bool
  kw_private :: bool
  kw_lstat :: bool
  kw_read :: bool
  kw_random :: "string option"
  kw_create :: bool
  kw_write :: "nat option"
  kw_close :: bool
  kw_remove :: bool

definition create_key :: "key_world \<Rightarrow> string option \<times> key_file" where
  "create_key w =
    (case kw_random w of
       None \<Rightarrow> (None, KF_Absent)
     | Some bytes \<Rightarrow>
         if \<not> kw_create w then (None, KF_Absent)
         else (let left = (case kw_write w of None \<Rightarrow> bytes | Some k \<Rightarrow> take k bytes)
               in if kw_write w \<noteq> None \<or> \<not> kw_close w
                  then (None, if kw_remove w then KF_Absent else KF_Private left)
                  else (Some bytes, KF_Private bytes)))"

definition ensureOperatorKey :: "key_world \<Rightarrow> string \<Rightarrow> key_file \<Rightarrow> string option \<times> key_file" where
  "ensureOperatorKey w stateRoot f =
    (if stateRoot = [] \<or> \<not> is_abs stateRoot \<or> clean stateRoot \<noteq> stateRoot then (None, f)
     else if \<not> kw_mkdir w then (None, f)
     else if \<not> kw_chmod w then (None, f)
     else if \<not> kw_private w then (None, f)
     else if \<not> kw_lstat w then (None, f)
     else (case f of
             KF_Other \<Rightarrow> (None, f)
           | KF_Private key \<Rightarrow> (if \<not> kw_read w \<or> length key < 32 then None else Some key, f)
           | KF_Absent \<Rightarrow> create_key w))"

definition key_starts :: "(key_world \<times> string) list \<Rightarrow> key_file \<Rightarrow> key_file" where
  "key_starts ws f = foldl (\<lambda>f (w, root). snd (ensureOperatorKey w root f)) f ws"

text \<open>A random key has 32 bytes.\<close>

definition key_random_ok :: "key_world \<Rightarrow> bool" where
  "key_random_ok w \<longleftrightarrow> (case kw_random w of None \<Rightarrow> True | Some b \<Rightarrow> length b = 32)"

lemma ensureOperatorKey_result:
  assumes "ensureOperatorKey w root f = (Some key, f')" and "key_random_ok w"
  shows "f' = KF_Private key \<and> 32 \<le> length key"
  using assms
  by (auto simp: ensureOperatorKey_def create_key_def key_random_ok_def Let_def split: if_splits key_file.splits option.splits)

lemma key_starts_private: "key_starts ws (KF_Private key) = KF_Private key"
  by (induction ws) (auto simp: key_starts_def ensureOperatorKey_def)

text \<open>The key is stable. Once a start of the server has obtained a key, it has at least 32 bytes and it is on
  disk, and every later start, whatever failed in between, obtains this key or none.\<close>

theorem operator_key_stable:
  assumes "ensureOperatorKey w root f = (Some key, f')" and "key_random_ok w"
  shows "32 \<le> length key \<and> f' = KF_Private key
    \<and> fst (ensureOperatorKey w' root' (key_starts ws f')) \<in> {None, Some key}"
  using ensureOperatorKey_result [OF assms] key_starts_private [of ws key]
  by (auto simp: ensureOperatorKey_def)

definition key_calm :: key_world where
  "key_calm = \<lparr>kw_mkdir = True, kw_chmod = True, kw_private = True, kw_lstat = True, kw_read = True,
     kw_random = Some (replicate 32 (CHR ''k'')), kw_create = True, kw_write = None, kw_close = True, kw_remove = True\<rparr>"

lemma operator_key_stable_witness:
  "ensureOperatorKey key_calm ''/state'' KF_Absent = (Some (replicate 32 (CHR ''k'')), KF_Private (replicate 32 (CHR ''k'')))
   \<and> fst (ensureOperatorKey (key_calm\<lparr>kw_random := Some (replicate 32 (CHR ''z''))\<rparr>) ''/state''
        (key_starts [(key_calm\<lparr>kw_read := False\<rparr>, ''/state'')] (KF_Private (replicate 32 (CHR ''k'')))))
       \<in> {None, Some (replicate 32 (CHR ''k''))}"
proof -
  have e: "ensureOperatorKey key_calm ''/state'' KF_Absent = (Some (replicate 32 (CHR ''k'')), KF_Private (replicate 32 (CHR ''k'')))"
    by code_simp
  have "key_random_ok key_calm" by code_simp
  then show ?thesis using operator_key_stable [OF e] e by blast
qed

subsection \<open>The operator's command\<close>

record approve_flags =
  af_socket :: string
  af_keyFile :: string
  af_operatorID :: string
  af_class :: string
  af_ttl :: duration
  af_action :: string
  af_operation :: string
  af_repositoryID :: string
  af_principalID :: string
  af_sessionID :: string
  af_generationID :: string
  af_fencing :: nat
  af_candidate :: string
  af_plan :: string

definition default_approve_flags :: approve_flags where
  "default_approve_flags =
     \<lparr>af_socket = [], af_keyFile = [], af_operatorID = ''local-operator'', af_class = ''destructive'', af_ttl = 10 * minute,
      af_action = [], af_operation = [], af_repositoryID = [], af_principalID = [], af_sessionID = [], af_generationID = [],
      af_fencing = 0, af_candidate = [], af_plan = []\<rparr>"

text \<open>The request the flags stand for; the shortcut computes the action from the plan.\<close>

definition approve_request :: "(string \<Rightarrow> string) \<Rightarrow> approve_flags \<Rightarrow> operator_request option" where
  "approve_request sha f =
    (if af_operation f \<noteq> [] \<and> af_operation f \<noteq> ''integrate'' then None
     else (let action = (if af_action f = [] \<and> af_operation f = ''integrate'' \<and> af_plan f \<noteq> []
                         then hex_encode (sha (''repository.integrate:'' @ af_plan f)) else af_action f)
           in if action = [] \<or> af_repositoryID f = [] \<or> af_principalID f = [] \<or> af_sessionID f = [] \<or> af_generationID f = []
                 \<or> af_candidate f = [] \<or> af_plan f = [] \<or> af_fencing f = 0 then None
              else Some \<lparr>or_Binding = \<lparr>cb_Action = action, cb_RepositoryID = af_repositoryID f, cb_PrincipalID = af_principalID f,
                           cb_SessionID = af_sessionID f, cb_GenerationID = af_generationID f, cb_FencingGeneration = af_fencing f,
                           cb_CandidateSnapshot = af_candidate f, cb_PlanDigest = af_plan f\<rparr>,
                         or_Class = af_class f, or_TTL = af_ttl f\<rparr>))"

text \<open>\<open>runOperatorApprove\<close> with the parsed flags, the key file (whether it can be read), the call of the
  channel, and whether the token can be printed; the result is the printed token.\<close>

definition runOperatorApprove ::
  "(string \<Rightarrow> string) \<Rightarrow> approve_flags option \<Rightarrow> key_file \<Rightarrow> bool
     \<Rightarrow> (string \<Rightarrow> string \<Rightarrow> string \<Rightarrow> operator_request \<Rightarrow> op_error + confirmation) \<Rightarrow> bool \<Rightarrow> string option" where
  "runOperatorApprove sha flags f can_read approve printed =
    (case flags of
       None \<Rightarrow> None
     | Some fl \<Rightarrow>
         (case approve_request sha fl of
            None \<Rightarrow> None
          | Some r \<Rightarrow>
              (case f of
                 KF_Private key \<Rightarrow>
                   if \<not> can_read \<or> length key < 32 then None
                   else if or_Class r \<noteq> ConfirmationDestructive \<and> or_Class r \<noteq> ConfirmationPublication then None
                   else (case approve (af_socket fl) key (af_operatorID fl) r of
                           Inl _ \<Rightarrow> None
                         | Inr cf \<Rightarrow> if printed then Some (cf_Token cf @ [LF]) else None)
               | _ \<Rightarrow> None)))"

text \<open>The flags an operator copies from the plan that a client was shown.\<close>

definition integrate_flags :: "string \<Rightarrow> workspace_record \<Rightarrow> integration_plan \<Rightarrow> 'x plane \<Rightarrow> approve_flags" where
  "integrate_flags i record plan p =
     default_approve_flags\<lparr>af_operation := ''integrate'', af_repositoryID := cpl_RepositoryID p, af_principalID := cpl_PrincipalID p,
       af_sessionID := ss_ID (cpl_Session p), af_generationID := i, af_fencing := le_FencingGeneration (wk_Lease record),
       af_candidate := wg_CandidateSnapshot (wk_Generation record), af_plan := ip_PlanDigest plan\<rparr>"

text \<open>The operator confirms what the plane asked for. After a client has planned the integration of a verified
  candidate, the operator's command with the values of that plan sends exactly the binding that the
  plane has remembered, in the class for which it was remembered, so that the plane's comparison of the
  two succeeds; any other plan digest gives another binding.\<close>

theorem approval_matches_plan:
  fixes p p' :: "'x plane"
  assumes "rememberConfirmationBinding ConfirmationDestructive (integration_binding s i record plan p) p = (Inr (), p')"
    and "approve_request (px_Sha s) (integrate_flags i record plan p) = Some r"
  shows "cpl_Pending p' (confirmationPendingKey (or_Class r) (cb_GenerationID (or_Binding r))) = Some (or_Binding r)
    \<and> cb_RepositoryID (or_Binding r) = cpl_RepositoryID p' \<and> cb_PrincipalID (or_Binding r) = cpl_PrincipalID p'
    \<and> cb_SessionID (or_Binding r) = ss_ID (cpl_Session p')
    \<and> (\<forall>other r'. approve_request (px_Sha s) ((integrate_flags i record plan p)\<lparr>af_plan := other\<rparr>) = Some r'
         \<and> other \<noteq> ip_PlanDigest plan \<longrightarrow> or_Binding r' \<noteq> or_Binding r)"
proof -
  have p': "p' = p\<lparr>cpl_Pending := (cpl_Pending p)(confirmationPendingKey ConfirmationDestructive i \<mapsto> integration_binding s i record plan p)\<rparr>"
    using assms(1) by (simp add: rememberConfirmationBinding_def updating_def integration_binding_def)
  have b: "or_Binding r = integration_binding s i record plan p" and c: "or_Class r = ConfirmationDestructive"
    using assms(2)
    by (auto simp: approve_request_def integrate_flags_def default_approve_flags_def integration_binding_def digestText_def
        ConfirmationDestructive_def Let_def split: if_splits)
  have "cb_PlanDigest (or_Binding r') = other"
    if "approve_request (px_Sha s) ((integrate_flags i record plan p)\<lparr>af_plan := other\<rparr>) = Some r'" for other r'
    using that by (auto simp: approve_request_def Let_def split: if_splits)
  moreover have "cb_PlanDigest (or_Binding r) = ip_PlanDigest plan" by (simp add: b integration_binding_def)
  ultimately have "\<forall>other r'. approve_request (px_Sha s) ((integrate_flags i record plan p)\<lparr>af_plan := other\<rparr>) = Some r'
         \<and> other \<noteq> ip_PlanDigest plan \<longrightarrow> or_Binding r' \<noteq> or_Binding r" by metis
  then show ?thesis using b c by (simp add: p' integration_binding_def)
qed

text \<open>An example: the plan of generation \<open>gen_1\<close> in the plane of the earlier examples.\<close>

definition main_record :: workspace_record where
  "main_record = \<lparr>wk_Generation = gen0, wk_Lease = \<lparr>le_GenerationID = ''gen_1'', le_Owner = ''agent'', le_FencingGeneration = 1,
     le_ExpiresAt = hour\<rparr>\<rparr>"

definition main_plan :: integration_plan where
  "main_plan = \<lparr>ip_RepositoryID = sample_identity, ip_SourceFilesystem = sample_identity, ip_GenerationID = ''gen_1'',
     ip_LeaseGeneration = 1, ip_BaseSnapshot = ''base'', ip_CandidateSnapshot = ''snap'', ip_Steps = [], ip_PlanDigest = ''plan''\<rparr>"

definition main_remembered :: "unit plane" where
  "main_remembered =
     snd (rememberConfirmationBinding ConfirmationDestructive (integration_binding demo_sys ''gen_1'' main_record main_plan demo_plane) demo_plane)"

definition main_request :: operator_request where
  "main_request = the (approve_request (px_Sha demo_sys) (integrate_flags ''gen_1'' main_record main_plan demo_plane))"

lemma approval_matches_plan_witness:
  "approve_request (px_Sha demo_sys) (integrate_flags ''gen_1'' main_record main_plan demo_plane) = Some main_request
   \<and> cpl_Pending main_remembered (confirmationPendingKey (or_Class main_request) (cb_GenerationID (or_Binding main_request)))
       = Some (or_Binding main_request)"
proof -
  have r: "rememberConfirmationBinding ConfirmationDestructive (integration_binding demo_sys ''gen_1'' main_record main_plan demo_plane) demo_plane
      = (Inr (), main_remembered)"
    by (simp add: main_remembered_def rememberConfirmationBinding_def updating_def)
  have "sample_identity \<noteq> []" "sample_sid \<noteq> []" by code_simp+
  then have "approve_request (px_Sha demo_sys) (integrate_flags ''gen_1'' main_record main_plan demo_plane) \<noteq> None"
    by (simp add: approve_request_def integrate_flags_def default_approve_flags_def main_record_def main_plan_def gen0_def
        demo_plane_def demo_session_def demo_sys_def tiny_sha_def hex_encode_def)
  then have a: "approve_request (px_Sha demo_sys) (integrate_flags ''gen_1'' main_record main_plan demo_plane) = Some main_request"
    by (auto simp: main_request_def)
  from approval_matches_plan [OF r a] a show ?thesis by blast
qed

subsection \<open>Starting\<close>

datatype startup =
    Start_Helper preset | Start_Approve "string list" | Start_Fatal string | Start_Serve string string trusted_provider

text \<open>The decision of \<open>main\<close>. The flags are the repository root, the state directory and the principal;
  \<open>default_dir\<close> is the state directory of the task store, if there is one.\<close>

definition main_start ::
  "environ \<Rightarrow> string list \<Rightarrow> (string list \<Rightarrow> (string \<times> string \<times> string) option) \<Rightarrow> string option \<Rightarrow> string option \<Rightarrow> startup" where
  "main_start env args parse default_dir rnd =
    (case InternalRequest env of
       (p, True) \<Rightarrow> Start_Helper p
     | (_, False) \<Rightarrow>
         if 1 < length args \<and> args ! 1 = ''operator-approve'' then Start_Approve (drop 2 args)
         else (case parse (drop 1 args) of
                 None \<Rightarrow> Start_Fatal ''invalid startup configuration''
               | Some (repoRoot, stateRoot, trusted) \<Rightarrow>
                   (case if stateRoot = [] then default_dir else Some stateRoot of
                      None \<Rightarrow> Start_Fatal ''invalid startup configuration''
                    | Some resolved \<Rightarrow>
                        if trusted = [] then Start_Fatal ''missing explicit transport authentication configuration''
                        else (case NewTrustedPrincipalProvider rnd trusted of
                                None \<Rightarrow> Start_Fatal ''invalid transport authentication configuration''
                              | Some provider \<Rightarrow> Start_Serve repoRoot resolved provider))))"

subsection \<open>Serving\<close>

datatype serve_end = Serve_Rejected | Serve_Done | Serve_Error

datatype serve_result = Run_EOF | Run_Nil | Run_Failed

text \<open>\<open>runWithProviderAndSocket\<close>: \<open>open_plane\<close> opens the plane with the operator's authority, \<open>sw\<close> and \<open>e\<close>
  are what the operator's server finds when it takes its socket, and \<open>run\<close> is the run of the server on the plane, which ends at the end of
  the input, without an error, or with another error. The result is the end, the plane if one was
  opened, with the operator's server if it was started, and the key file.\<close>

definition runWithProviderAndSocket ::
  "key_world \<Rightarrow> string \<Rightarrow> (operator_authority \<Rightarrow> 'x plane option) \<Rightarrow> string \<Rightarrow> start_world \<Rightarrow> sock_entry
     \<Rightarrow> (op_server \<Rightarrow> 'x plane \<Rightarrow> serve_result \<times> 'x plane) \<Rightarrow> key_file
     \<Rightarrow> serve_end \<times> ('x plane \<times> op_server option) option \<times> key_file" where
  "runWithProviderAndSocket w stateRoot open_plane socketPath sw e run f =
    (case ensureOperatorKey w stateRoot f of
       (None, f1) \<Rightarrow> (Serve_Rejected, None, f1)
     | (Some key, f1) \<Rightarrow>
         (case NewAuthenticatedOperatorAuthority ''local-operator'' of
            Inl _ \<Rightarrow> (Serve_Rejected, None, f1)
          | Inr authority \<Rightarrow>
              (case open_plane authority of
                 None \<Rightarrow> (Serve_Rejected, None, f1)
               | Some p \<Rightarrow>
                   (case NewServer socketPath key (operator_id authority) True of
                      Inl _ \<Rightarrow> (Serve_Rejected, Some (plane_Close p, None), f1)
                    | Inr srv \<Rightarrow>
                        if \<not> fst (take_socket sw True e) then (Serve_Rejected, Some (plane_Close p, None), f1)
                        else (case run srv p of
                                (r, p1) \<Rightarrow>
                                  (case r of Run_EOF \<Rightarrow> Serve_Done | Run_Nil \<Rightarrow> Serve_Done | Run_Failed \<Rightarrow> Serve_Error,
                                   Some (plane_Close p1, Some srv), f1))))))"

text \<open>Whatever happens, a plane that was opened is closed, and the server runs only on a plane opened with the
  operator's authority, beside an operator's server with the key on disk.\<close>

lemma serving_closes:
  assumes "runWithProviderAndSocket w stateRoot open_plane socketPath sw e run f = (r, Some (p, srv), f')"
  shows "\<not> wr_open (cpl_Store p) \<and> \<not> es_open (cpl_Events p)
    \<and> (\<exists>a. NewAuthenticatedOperatorAuthority ''local-operator'' = Inr a \<and> open_plane a \<noteq> None)
    \<and> (r \<noteq> Serve_Rejected \<longrightarrow> srv \<noteq> None)
    \<and> (\<forall>sv. srv = Some sv \<longrightarrow> fst (ensureOperatorKey w stateRoot f) = Some (sv_key sv) \<and> 32 \<le> length (sv_key sv))"
proof -
  obtain key f1 where k: "ensureOperatorKey w stateRoot f = (Some key, f1)"
    using assms by (auto simp: runWithProviderAndSocket_def split: prod.splits option.splits)
  obtain a where a: "NewAuthenticatedOperatorAuthority ''local-operator'' = Inr a"
    using assms by (auto simp: runWithProviderAndSocket_def k split: sum.splits)
  obtain q where q: "open_plane a = Some q"
    using assms by (auto simp: runWithProviderAndSocket_def k a split: option.splits)
  show ?thesis
  proof (cases "NewServer socketPath key (operator_id a) True")
    case (Inl err)
    then show ?thesis using assms k a q
      by (auto simp: runWithProviderAndSocket_def plane_Close_def Workspace_Lease.Close_def es_Close_def)
  next
    case (Inr sv)
    have sv: "sv_key sv = key" "32 \<le> length key"
      using Inr by (auto simp: NewServer_def split: if_splits sum.splits)
    show ?thesis
    proof (cases "fst (take_socket sw True e)")
      case False
      then show ?thesis using assms k a q Inr
        by (auto simp: runWithProviderAndSocket_def plane_Close_def Workspace_Lease.Close_def es_Close_def)
    next
      case True
      obtain z p1 where "run sv q = (z, p1)" by fastforce
      then show ?thesis using assms k a q Inr True sv
        by (auto simp: runWithProviderAndSocket_def plane_Close_def Workspace_Lease.Close_def es_Close_def)
    qed
  qed
qed

end
