(* ===== verification/Task_Store_Open.thy ===== *)
theory Task_Store_Open
  imports Task_Store_SQLite
begin

section \<open>Opening a task store (internal/taskstate: New and what it calls)\<close>

text \<open>
  How the production store comes to be: the canonical directory of the repository and the check that it is
  still the one that was opened, the program for git, the directory of the state, the database file and
  the steps of its initialisation. What the host answers is a record; the steps of the database are
  outcomes.
\<close>

subsection \<open>The host\<close>

text \<open>\<open>ho_Stat\<close> opens a directory without following a link and reads its device and inode.\<close>

record host =
  ho_ConfigDir :: "string option"
  ho_MkdirAll :: "string \<Rightarrow> bool"
  ho_EvalSymlinks :: "string \<Rightarrow> string option"
  ho_IsDir :: "string \<Rightarrow> bool"
  ho_Stat :: "string \<Rightarrow> (nat \<times> nat) option"
  ho_Chmod :: "string \<Rightarrow> bool"
  ho_LookGit :: "string option"
  ho_Abs :: "string \<Rightarrow> string option"
  ho_Private :: "string \<Rightarrow> bool"

definition DefaultStateDir :: "host \<Rightarrow> string option" where
  "DefaultStateDir h =
    (case ho_ConfigDir h of
       None \<Rightarrow> None
     | Some base \<Rightarrow> if base = [] then None else Some (join_path (join_path base ''m3-repoworker'') ''tasks''))"

definition canonicalDirectory :: "host \<Rightarrow> string \<Rightarrow> bool \<Rightarrow> string option" where
  "canonicalDirectory h path create =
    (if path = [] \<or> \<not> is_abs path then None
     else if create \<and> \<not> ho_MkdirAll h path then None
     else (case ho_EvalSymlinks h path of
             None \<Rightarrow> None
           | Some canonical \<Rightarrow> if \<not> ho_IsDir h canonical then None else Some (clean canonical)))"

definition filesystemIdentityAtPath :: "(string \<Rightarrow> string) \<Rightarrow> host \<Rightarrow> string \<Rightarrow> string option" where
  "filesystemIdentityAtPath sha h path =
    (if path = [] \<or> \<not> is_abs path then None
     else map_option (\<lambda>(dev, ino). hex_encode (sha (digits_of dev @ '':'' @ digits_of ino))) (ho_Stat h path))"

definition pathMatchesFilesystemIdentity :: "(string \<Rightarrow> string) \<Rightarrow> host \<Rightarrow> string \<Rightarrow> string \<Rightarrow> bool" where
  "pathMatchesFilesystemIdentity sha h path expected \<longleftrightarrow>
     identityRE expected \<and> filesystemIdentityAtPath sha h path = Some expected"

text \<open>The program for git: absolute, with all links resolved.\<close>

definition resolveGit :: "host \<Rightarrow> string option" where
  "resolveGit h =
    (case ho_LookGit h of
       None \<Rightarrow> None
     | Some g \<Rightarrow>
         (case if is_abs g then Some g else ho_Abs h g of
            None \<Rightarrow> None
          | Some a \<Rightarrow>
              (case ho_EvalSymlinks h a of
                 None \<Rightarrow> None
               | Some r \<Rightarrow> if is_abs r then Some r else None)))"

subsection \<open>The database\<close>

text \<open>The steps of the database: the settings, what they read back, the migration of the schema, the metadata,
  the JSON files, the checks and the modes.\<close>

record open_world =
  ow_open :: bool
  ow_timeout :: bool
  ow_journal :: "string option"
  ow_settings :: bool
  ow_migrate :: "string \<Rightarrow> bool"
  ow_synchronous :: "int option"
  ow_foreign_keys :: "int option"
  ow_metadata :: write_outcome
  ow_move :: write_outcome
  ow_renamed :: nat
  ow_synced :: bool
  ow_integrity :: "string option"
  ow_violations :: "string list option"
  ow_modes :: "string \<Rightarrow> bool"

definition validatePragmas :: "open_world \<Rightarrow> bool" where
  "validatePragmas w \<longleftrightarrow> ow_synchronous w = Some 2 \<and> ow_foreign_keys w = Some 1"

definition integrityCheck :: "open_world \<Rightarrow> bool" where
  "integrityCheck w \<longleftrightarrow>
     (case ow_integrity w of None \<Rightarrow> False | Some r \<Rightarrow> to_lower r = ''ok'') \<and> ow_violations w = Some []"

text \<open>A file that is not there needs no mode.\<close>

definition enforceSQLitePermissions :: "open_world \<Rightarrow> string \<Rightarrow> bool" where
  "enforceSQLitePermissions w path \<longleftrightarrow> list_all (ow_modes w) [path, path @ ''-wal'', path @ ''-shm'']"

definition initialize ::
  "(string \<Rightarrow> bool) \<Rightarrow> (task_state \<Rightarrow> nat) \<Rightarrow> open_world \<Rightarrow> string \<Rightarrow> json_dir \<Rightarrow> sqlite_store \<Rightarrow> bool \<times> json_dir \<times> sqlite_store" where
  "initialize time_ok jsize w path dir s =
    (if \<not> sq_open s then (False, dir, s)
     else if \<not> ow_timeout w then (False, dir, s)
     else if \<not> (case ow_journal w of None \<Rightarrow> False | Some m \<Rightarrow> to_lower m = ''wal'') then (False, dir, s)
     else if \<not> ow_settings w then (False, dir, s)
     else (case applySQLiteMigrations (ow_migrate w) (sq_db s) of
             None \<Rightarrow> (False, dir, s)
           | Some db \<Rightarrow>
               if \<not> validatePragmas w then (False, dir, s\<lparr>sq_db := db\<rparr>)
               else (case validateMetadata (ow_metadata w) (s\<lparr>sq_db := db\<rparr>) of
                       (False, s1) \<Rightarrow> (False, dir, s1)
                     | (True, s1) \<Rightarrow>
                         (case migrateLegacyJSON time_ok jsize (ow_move w) (ow_renamed w) (ow_synced w) dir s1 of
                            (False, dir', s2) \<Rightarrow> (False, dir', s2)
                          | (True, dir', s2) \<Rightarrow>
                              (integrityCheck w \<and> enforceSQLitePermissions w path, dir', s2)))))"

subsection \<open>The store\<close>

record task_home =
  th_repoRoot :: string
  th_stateRoot :: string
  th_database :: string
  th_git :: string
  th_store :: sqlite_store

text \<open>\<open>newSQLiteWithInspector\<close>; \<open>files\<close> and \<open>db\<close> are what stands in a directory and in its database before.\<close>

definition newSQLiteWithInspector ::
  "(string \<Rightarrow> string) \<Rightarrow> (string \<Rightarrow> bool) \<Rightarrow> (task_state \<Rightarrow> nat) \<Rightarrow> host \<Rightarrow> open_world \<Rightarrow> (string \<Rightarrow> json_dir) \<Rightarrow> (string \<Rightarrow> sqlite_db)
     \<Rightarrow> string \<Rightarrow> string \<Rightarrow> string \<Rightarrow> string option \<Rightarrow> task_home option" where
  "newSQLiteWithInspector sha time_ok jsize h w files db repoRoot repoFSID stateRoot inspector =
    (case inspector of
       None \<Rightarrow> None
     | Some git \<Rightarrow>
         if repoRoot = [] \<or> \<not> is_abs repoRoot \<or> clean repoRoot \<noteq> repoRoot \<or> \<not> identityRE repoFSID then None
         else if stateRoot = [] \<or> \<not> is_abs stateRoot \<or> pathWithin repoRoot (clean stateRoot) then None
         else (case canonicalDirectory h stateRoot True of
                 None \<Rightarrow> None
               | Some state \<Rightarrow>
                   if pathWithin repoRoot state then None
                   else (let digest = hex_encode (sha repoRoot);
                             stateDir = join_path state digest
                         in if \<not> ho_MkdirAll h stateDir \<or> \<not> ho_Chmod h stateDir then None
                            else (case ho_EvalSymlinks h stateDir of
                                    None \<Rightarrow> None
                                  | Some dir \<Rightarrow>
                                      if clean dir \<noteq> clean stateDir then None
                                      else (let path = join_path dir ''state.db''
                                            in if \<not> ho_Private h path \<or> \<not> ow_open w then None
                                               else (case initialize time_ok jsize w path (files dir)
                                                         \<lparr>sq_repoIdentity = digest, sq_repoFSID = repoFSID, sq_open = True, sq_db = db path\<rparr> of
                                                       (False, _, _) \<Rightarrow> None
                                                     | (True, _, s) \<Rightarrow>
                                                         Some \<lparr>th_repoRoot = repoRoot, th_stateRoot = state, th_database = path, th_git = git,
                                                               th_store = s\<rparr>))))))"

definition New ::
  "(string \<Rightarrow> string) \<Rightarrow> (string \<Rightarrow> bool) \<Rightarrow> (task_state \<Rightarrow> nat) \<Rightarrow> host \<Rightarrow> open_world \<Rightarrow> (string \<Rightarrow> json_dir) \<Rightarrow> (string \<Rightarrow> sqlite_db)
     \<Rightarrow> string \<Rightarrow> string \<Rightarrow> string \<Rightarrow> task_home option" where
  "New sha time_ok jsize h w files db repoRoot repoFSID stateRoot =
    (case canonicalDirectory h repoRoot False of
       None \<Rightarrow> None
     | Some root \<Rightarrow>
         if \<not> pathMatchesFilesystemIdentity sha h root repoFSID then None
         else (case resolveGit h of
                 None \<Rightarrow> None
               | Some git \<Rightarrow> newSQLiteWithInspector sha time_ok jsize h w files db root repoFSID stateRoot (Some git)))"

definition NewSQLiteWithInspector ::
  "(string \<Rightarrow> string) \<Rightarrow> (string \<Rightarrow> bool) \<Rightarrow> (task_state \<Rightarrow> nat) \<Rightarrow> host \<Rightarrow> open_world \<Rightarrow> (string \<Rightarrow> json_dir) \<Rightarrow> (string \<Rightarrow> sqlite_db)
     \<Rightarrow> string \<Rightarrow> string \<Rightarrow> string \<Rightarrow> string option \<Rightarrow> task_home option" where
  "NewSQLiteWithInspector sha time_ok jsize h w files db repoRoot repoFSID stateRoot inspector =
    (case canonicalDirectory h repoRoot False of
       None \<Rightarrow> None
     | Some root \<Rightarrow>
         if \<not> identityRE repoFSID \<or> inspector = None then None
         else newSQLiteWithInspector sha time_ok jsize h w files db root repoFSID stateRoot inspector)"

text \<open>The store of JSON files, for tests.\<close>

definition NewWithInspector ::
  "(string \<Rightarrow> string) \<Rightarrow> host \<Rightarrow> bool \<Rightarrow> (string \<Rightarrow> task_state slot) \<Rightarrow> string \<Rightarrow> string \<Rightarrow> json_store option" where
  "NewWithInspector sha h has_inspector files repoRoot stateRoot =
    (case canonicalDirectory h repoRoot False of
       None \<Rightarrow> None
     | Some root \<Rightarrow>
         newBoundWithInspector sha has_inspector (\<lambda>s. canonicalDirectory h s True) files root (hex_encode (sha root)) stateRoot)"

subsection \<open>What a store that opened is bound to\<close>

text \<open>A database that was initialised belongs to the repository of the store, and its old tasks have moved.\<close>

definition belongs :: "sqlite_store \<Rightarrow> bool" where
  "belongs s \<longleftrightarrow>
     map_of (db_metadata (sq_db s)) ''repo_root_identity'' = Some (sq_repoIdentity s)
     \<and> map_of (db_metadata (sq_db s)) ''repo_filesystem_identity'' = Some (sq_repoFSID s)"

lemma migrate_files_metadata: "migrate_files time_ok jsize s fs db = Some db' \<Longrightarrow> db_metadata db' = db_metadata db"
  by (induction fs arbitrary: db) (auto simp: insertSQLiteState_def put_task_def split: option.splits if_splits)

lemma mark_complete_metadata:
  "map_of (db_metadata (mark_complete db)) k = (if k = migrationMarker then Some ''complete'' else map_of (db_metadata db) k)"
  by (simp add: mark_complete_def update_conv)

lemma validateMetadata_belongs:
  assumes "validateMetadata w s = (True, s')"
  shows "belongs s' \<and> sq_repoIdentity s' = sq_repoIdentity s \<and> sq_repoFSID s' = sq_repoFSID s"
  using assms
  by (auto simp: validateMetadata_def belongs_def commit_def migrationMarker_def Let_def split: if_splits write_outcome.splits)

lemma migrateLegacyJSON_belongs:
  assumes "migrateLegacyJSON time_ok jsize w n b dir s = (True, dir', s')" and "belongs s"
  shows "belongs s' \<and> sq_repoIdentity s' = sq_repoIdentity s \<and> sq_repoFSID s' = sq_repoFSID s
    \<and> map_of (db_metadata (sq_db s')) migrationMarker = Some ''complete''"
proof -
  have k: "''repo_root_identity'' \<noteq> migrationMarker" "''repo_filesystem_identity'' \<noteq> migrationMarker"
    by (simp_all add: migrationMarker_def)
  obtain m where m: "map_of (db_metadata (sq_db s)) migrationMarker = Some m"
    using assms(1) by (auto simp: migrateLegacyJSON_def Let_def split: option.splits)
  show ?thesis
  proof (cases "m = ''complete''")
    case True
    then show ?thesis using assms m by (auto simp: migrateLegacyJSON_def Let_def)
  next
    case False
    then obtain db where db: "s' = commit W_Done (mark_complete db) s" "db_metadata db = db_metadata (sq_db s)"
      using assms(1) m
      by (auto simp: migrateLegacyJSON_def Let_def split: if_splits option.splits dest: migrate_files_metadata)
    then show ?thesis using assms(2) k by (simp add: belongs_def commit_def mark_complete_metadata)
  qed
qed

text \<open>When a store opens, what stood in the JSON files is in its database.\<close>

lemma readLegacy_same:
  "sq_repoIdentity s' = sq_repoIdentity s \<Longrightarrow> sq_repoFSID s' = sq_repoFSID s
     \<Longrightarrow> readLegacyStateFile time_ok jsize f s' = readLegacyStateFile time_ok jsize f s"
  by (cases f) (simp_all add: readLegacyStateFile_def)

lemma migrateLegacyJSON_moves:
  assumes "migrateLegacyJSON time_ok jsize w n b dir s = (True, dir', s')" and "f \<in> set dir" and "is_legacy f"
  shows "\<exists>t. readLegacyStateFile time_ok jsize (snd (snd f)) s = Some t \<and> sqlite_view time_ok s' (ts_TaskID t) = Some t"
proof -
  let ?legacy = "sort_key fst (filter is_legacy dir)"
  have mem: "f \<in> set ?legacy" using assms(2,3) by simp
  then have "?legacy \<noteq> []" by (metis empty_iff empty_set)
  then obtain db where db: "migrate_files time_ok jsize s ?legacy (sq_db s) = Some db"
    and s': "s' = s\<lparr>sq_db := mark_complete db\<rparr>"
    using assms(1) by (auto simp: migrateLegacyJSON_def Let_def split: option.splits if_splits)
  then obtain t where "readLegacyStateFile time_ok jsize (snd (snd f)) s = Some t"
      "sqlite_view time_ok (s\<lparr>sq_db := db\<rparr>) (ts_TaskID t) = Some t"
    using migrate_files_view [OF db] mem by blast
  then show ?thesis using s' complete_view by auto
qed

lemma initialize_belongs:
  assumes "initialize time_ok jsize w path dir s = (True, dir', s')"
  shows "belongs s' \<and> sq_repoIdentity s' = sq_repoIdentity s \<and> sq_repoFSID s' = sq_repoFSID s
    \<and> map_of (db_metadata (sq_db s')) migrationMarker = Some ''complete''
    \<and> (\<forall>f \<in> set dir. is_legacy f \<longrightarrow>
         (\<exists>t. readLegacyStateFile time_ok jsize (snd (snd f)) s' = Some t \<and> sqlite_view time_ok s' (ts_TaskID t) = Some t))"
proof -
  obtain db s1 where s1: "validateMetadata (ow_metadata w) (s\<lparr>sq_db := db\<rparr>) = (True, s1)"
      "migrateLegacyJSON time_ok jsize (ow_move w) (ow_renamed w) (ow_synced w) dir s1 = (True, dir', s')"
    using assms by (auto simp: initialize_def split: if_splits option.splits prod.splits bool.splits)
  note b = migrateLegacyJSON_belongs [OF s1(2)] validateMetadata_belongs [OF s1(1)]
  have "readLegacyStateFile time_ok jsize g s' = readLegacyStateFile time_ok jsize g s1" for g
    using b by (intro readLegacy_same) simp_all
  then show ?thesis using b migrateLegacyJSON_moves [OF s1(2)] by simp
qed

lemma digest_component: "length (sha x) = 32 \<Longrightarrow> plain_comp (hex_encode (sha x))"
proof -
  assume "length (sha x) = 32"
  then have "length (hex_encode (sha x)) = 64" by simp
  moreover have "slash \<notin> set (hex_encode (sha x))" using hex_encode_lower lower_hex_plain by blast
  ultimately show ?thesis by (auto simp: plain_comp_def simp del: length_hex_encode)
qed

text \<open>Below a directory that is not in the repository, under the digest of the repository's path, the
  repository itself could stand only if its path held its own digest.\<close>

lemma state_outside:
  assumes "is_abs root" and "is_abs state" and "\<not> pathWithin root state" and "plain_comp d" and "d \<notin> set (clean_comps root)"
    and "is_abs dir" and "clean dir = clean (join_path state d)"
  shows "\<not> pathWithin root (join_path dir ''state.db'')"
proof -
  have db: "plain_comp ''state.db''" by (simp add: plain_comp_def slash_def)
  have sd: "is_abs (join_path state d)" and c1: "clean_comps (join_path state d) = clean_comps state @ [d]"
    using clean_eq_iff_comps [of "clean (state @ slash # d)" "state @ slash # d"] clean_idem_abs [of "state @ slash # d"]
      assms(2) is_abs_append [OF assms(2), of "slash # d"] clean_abs [of "state @ slash # d"]
    by (simp_all add: join_path_child [OF assms(2,4)] clean_comps_child [OF assms(2,4)]) (simp_all add: is_abs_def)
  have "clean_comps dir = clean_comps state @ [d]" using clean_eq_iff_comps [OF assms(6) sd] assms(7) c1 by simp
  then have c2: "is_abs (join_path dir ''state.db'')" "clean_comps (join_path dir ''state.db'') = clean_comps state @ [d, ''state.db'']"
    using clean_eq_iff_comps [of "clean (dir @ slash # ''state.db'')" "dir @ slash # ''state.db''"] clean_idem_abs [of "dir @ slash # ''state.db''"]
      assms(6) is_abs_append [OF assms(6), of "slash # ''state.db''"] clean_abs [of "dir @ slash # ''state.db''"]
    by (simp_all add: join_path_child [OF assms(6) db] clean_comps_child [OF assms(6) db]) (simp_all add: is_abs_def)
  have np: "\<not> prefix (clean_comps root) (clean_comps state)"
    using assms(3) by (simp add: pathWithin_def rel_inside_iff_prefix [OF assms(1,2)])
  have "\<not> prefix (clean_comps root) (clean_comps state @ [d, ''state.db''])"
  proof
    assume "prefix (clean_comps root) (clean_comps state @ [d, ''state.db''])"
    then have "clean_comps root = clean_comps state @ [d] \<or> clean_comps root = clean_comps state @ [d, ''state.db'']"
      using np by (auto simp: prefix_append prefix_Cons)
    then show False using assms(5) by auto
  qed
  then show ?thesis by (simp add: pathWithin_def rel_inside_iff_prefix [OF assms(1) c2(1)] c2(2))
qed

text \<open>C40: A store that opens is the store of this repository and stands outside it: the directory has the device
  and the inode of the repository that was opened, the database carries this identity and that of its
  path and is marked as migrated, and every regular JSON file in its directory holds a valid task of this
  repository that is read from the store. Neither the client nor the state directory can make the database
  lie below the repository, as long as the repository's path does not contain its own digest as a
  component. (Resolving the links of an absolute path gives an absolute one, and a digest has 32 bytes.)\<close>

theorem task_store_bound:
  assumes "New sha time_ok jsize h w files db repoRoot repoFSID stateRoot = Some o'"
    and "\<And>p q. ho_EvalSymlinks h p = Some q \<Longrightarrow> is_abs p \<Longrightarrow> is_abs q" and "\<And>x. length (sha x) = 32"
    and "hex_encode (sha (th_repoRoot o')) \<notin> set (clean_comps (th_repoRoot o'))"
  shows "canonicalDirectory h repoRoot False = Some (th_repoRoot o')
    \<and> filesystemIdentityAtPath sha h (th_repoRoot o') = Some repoFSID
    \<and> sq_repoIdentity (th_store o') = hex_encode (sha (th_repoRoot o')) \<and> sq_repoFSID (th_store o') = repoFSID
    \<and> belongs (th_store o') \<and> map_of (db_metadata (sq_db (th_store o'))) migrationMarker = Some ''complete''
    \<and> (\<exists>dir. th_database o' = join_path dir ''state.db''
         \<and> clean dir = clean (join_path (th_stateRoot o') (hex_encode (sha (th_repoRoot o'))))
         \<and> (\<forall>f \<in> set (files dir). fst (snd f) = EK_Regular \<and> suffix ''.json'' (fst f) \<longrightarrow>
              (\<exists>t. readLegacyStateFile time_ok jsize (snd (snd f)) (th_store o') = Some t
                 \<and> sqlite_view time_ok (th_store o') (ts_TaskID t) = Some t)))
    \<and> \<not> pathWithin (th_repoRoot o') (th_database o') \<and> is_abs (th_git o')"
proof -
  obtain root git where root: "canonicalDirectory h repoRoot False = Some root"
      "pathMatchesFilesystemIdentity sha h root repoFSID" and git: "resolveGit h = Some git"
    and new: "newSQLiteWithInspector sha time_ok jsize h w files db root repoFSID stateRoot (Some git) = Some o'"
    using assms(1) by (auto simp: New_def split: option.splits if_splits)
  have abs: "is_abs root" "is_abs stateRoot"
    using new by (auto simp: newSQLiteWithInspector_def split: if_splits)
  obtain state where state: "canonicalDirectory h stateRoot True = Some state" "\<not> pathWithin root state"
    using new by (auto simp: newSQLiteWithInspector_def split: if_splits option.splits)
  let ?d = "hex_encode (sha root)"
  obtain dir dirs' s where dir: "ho_EvalSymlinks h (join_path state ?d) = Some dir" "clean dir = clean (join_path state ?d)"
    and ini: "initialize time_ok jsize w (join_path dir ''state.db'') (files dir)
        \<lparr>sq_repoIdentity = ?d, sq_repoFSID = repoFSID, sq_open = True, sq_db = db (join_path dir ''state.db'')\<rparr> = (True, dirs', s)"
    and o: "o' = \<lparr>th_repoRoot = root, th_stateRoot = state, th_database = join_path dir ''state.db'', th_git = git, th_store = s\<rparr>"
    using new state by (auto simp: newSQLiteWithInspector_def Let_def split: if_splits option.splits prod.splits bool.splits)
  have d: "plain_comp ?d" using digest_component [of sha root] assms(3) [of root] by blast
  obtain c where "ho_EvalSymlinks h stateRoot = Some c" "state = clean c"
    using state(1) by (auto simp: canonicalDirectory_def split: if_splits option.splits)
  then have sa: "is_abs state" using assms(2) abs(2) clean_abs by (metis is_abs_def list.sel(1) list.distinct(1))
  have "is_abs (join_path state ?d)"
    using clean_abs [OF is_abs_append [OF sa, of "slash # ?d"]] by (simp add: join_path_child [OF sa d]) (simp add: is_abs_def)
  then have da: "is_abs dir" using assms(2) dir(1) by blast
  have "\<not> pathWithin root (join_path dir ''state.db'')"
    using state_outside [OF abs(1) sa state(2) d _ da dir(2)] assms(4) by (simp add: o)
  moreover have "is_abs git" using git by (auto simp: resolveGit_def split: option.splits if_splits)
  moreover have "\<exists>dir. th_database o' = join_path dir ''state.db''
         \<and> clean dir = clean (join_path (th_stateRoot o') (hex_encode (sha (th_repoRoot o'))))
         \<and> (\<forall>f \<in> set (files dir). fst (snd f) = EK_Regular \<and> suffix ''.json'' (fst f) \<longrightarrow>
              (\<exists>t. readLegacyStateFile time_ok jsize (snd (snd f)) (th_store o') = Some t
                 \<and> sqlite_view time_ok (th_store o') (ts_TaskID t) = Some t))"
    using initialize_belongs [OF ini] dir(2) by (intro exI [of _ dir]) (auto simp: o is_legacy_def)
  moreover note initialize_belongs [OF ini] root
  ultimately show ?thesis by (simp add: o pathMatchesFilesystemIdentity_def)
qed

subsection \<open>An example\<close>

definition flat_sha :: "string \<Rightarrow> string" where "flat_sha s = replicate 32 NUL"

definition open_host :: host where
  "open_host =
     \<lparr>ho_ConfigDir = Some ''/home/u/.config'', ho_MkdirAll = (\<lambda>_. True), ho_EvalSymlinks = Some, ho_IsDir = (\<lambda>_. True),
      ho_Stat = (\<lambda>_. Some (1, 2)), ho_Chmod = (\<lambda>_. True), ho_LookGit = Some ''/usr/bin/git'', ho_Abs = Some,
      ho_Private = (\<lambda>_. True)\<rparr>"

definition open_calm :: open_world where
  "open_calm =
     \<lparr>ow_open = True, ow_timeout = True, ow_journal = Some ''WAL'', ow_settings = True, ow_migrate = (\<lambda>_. True),
      ow_synchronous = Some 2, ow_foreign_keys = Some 1, ow_metadata = W_Done, ow_move = W_Done, ow_renamed = 0,
      ow_synced = True, ow_integrity = Some ''ok'', ow_violations = Some [], ow_modes = (\<lambda>_. True)\<rparr>"

definition fresh_db :: sqlite_db where
  "fresh_db = \<lparr>db_user_version = 0, db_metadata = [], db_tasks = []\<rparr>"

text \<open>The directory of the database holds the file of one task.\<close>

definition old_task :: task_state where
  "old_task = task0\<lparr>ts_RepoRootIdentity := hex_encode (flat_sha []), ts_RepoFSIdentity := hex_encode (flat_sha [])\<rparr>"

definition old_files :: json_dir where
  "old_files = [(ts_TaskID old_task @ ''.json'', EK_Regular, Slot_Has old_task)]"

definition fresh_home :: "task_home option" where
  "fresh_home =
     New flat_sha anytime record_size open_host (open_calm\<lparr>ow_renamed := 1\<rparr>) (\<lambda>_. old_files) (\<lambda>_. fresh_db) ''/repo'' (hex_encode (flat_sha [])) ''/state''"

lemma task_store_bound_witness:
  "\<exists>t. fresh_home = Some t \<and> belongs (th_store t) \<and> \<not> pathWithin (th_repoRoot t) (th_database t)
     \<and> (\<exists>u. sqlite_view anytime (th_store t) (ts_TaskID u) = Some u)"
proof -
  have "fresh_home \<noteq> None" by code_simp
  then obtain t where t: "fresh_home = Some t" by blast
  have "hex_encode (flat_sha (th_repoRoot (the fresh_home))) \<notin> set (clean_comps (th_repoRoot (the fresh_home)))" by code_simp
  then have d: "hex_encode (flat_sha (th_repoRoot t)) \<notin> set (clean_comps (th_repoRoot t))" by (simp add: t)
  have "is_abs q" if "ho_EvalSymlinks open_host p = Some q" "is_abs p" for p q using that by (simp add: open_host_def)
  moreover have "length (flat_sha x) = 32" for x by (simp add: flat_sha_def)
  moreover have "fst (snd (hd old_files)) = EK_Regular \<and> suffix ''.json'' (fst (hd old_files))" "hd old_files \<in> set old_files"
    by (simp_all add: old_files_def suffix_def)
  ultimately show ?thesis using task_store_bound [OF t [unfolded fresh_home_def] _ _ d] t by blast
qed

end
