(* ===== verification/Spec2Isabelle.thy ===== *)
theory Spec2Isabelle
  imports Request_Replay Operator_Channel Job_Scheduler Integration_Journal Auth_Credential
    Runtime_Manager Task_Store_SQLite Loop_Controller Publication_Adapter Repo_Intelligence
    Process_Supervisor Environment_Cache Repo_Edit Repo_Search Git_Status Plane_Authority Memory_Store Server_Main Task_Store_Open
begin

text \<open>
  RepoWorker: a verification development for the Go program under \<open>src/\<close>.

  \<^bold>\<open>The program.\<close> RepoWorker lets a remote agent work on one local repository through the Model Context
  Protocol without giving it the host. A control plane (\<open>internal/controlplane\<close>) authenticates the
  transport, opens a session with the security engine, keeps copies of the repository (generations)
  under leases, runs containers over a copy, verifies a candidate, and integrates or publishes it only
  with a confirmation of an independent operator. The parts call one another as follows: every request
  passes the replay cache and then \<open>Authorize\<close>; runtimes and integrations ask the workspace repository
  whether the lease is still the current one; the loop controller drives model and authority and keeps
  its state in the event store; the operator channel is the only way to a confirmation. The server
  (\<open>cmd/repoworker\<close>) gives each operation of the plane to clients as a tool, behind a guard against replayed
  calls, and can run a fixed list of checks in the repository through a helper process of its own.

  \<^bold>\<open>The theories and the code.\<close> The state of a component is a record, its errors a datatype of its own,
  and an operation a function of the state that returns a result and the new state.

  \<^item> \<open>RW_Prelude\<close>: results, Go contexts and instants, map iteration orders, the fold of an operation over a
    list, slots of stored files and the outcome of writing one. \<open>Go_Strings\<close> and \<open>Go_Paths\<close>: what the source
    uses of \<open>strings\<close>, \<open>encoding/hex\<close> and \<open>path/filepath\<close>, on byte strings.
  \<^item> \<open>Security_Policy\<close>, \<open>Security_Engine\<close> (\<open>internal/security/policy.go\<close>): \<open>Compile\<close>, \<open>CompileExecution\<close>, the
    validators; the engine with enrolments, sessions, confirmations and audit trail, \<open>Authorize\<close> with
    every early return. \<open>Auth_Credential\<close> (\<open>auth.go\<close>): both principal providers and the credential format.
    \<open>Replay_Window\<close> and \<open>Request_Replay\<close> (\<open>request_replay.go\<close>): the interface of a bounded window of
    identities with a time to live, and the cache that implements it.
  \<^item> \<open>Operator_Channel\<close>, \<open>Operator_Server\<close> (\<open>internal/operator/channel.go\<close>): framing, signatures, the nonce table
    (a second implementation of the window), the handling of a request; taking the socket, the accept loop
    and the handlers side by side, and closing.
  \<^item> \<open>Job_Graph\<close>, \<open>Job_Scheduler\<close> (\<open>internal/scheduler/scheduler.go\<close>): validation of a job graph by depth
    first search; the run as an inductive step relation over every order in which results and the
    cancellation arrive.
  \<^item> \<open>Workspace_Tree\<close>, \<open>Workspace_Lease\<close> (\<open>internal/workspace/workspace.go\<close>): snapshots of trees; generations,
    leases, fences, reservations, recovery. \<open>Integration_Journal\<close> (\<open>integration.go\<close>): plans, the journalled
    loop as a step relation in which the process may die after any file operation, recovery.
  \<^item> \<open>Runtime_Manager\<close> (\<open>internal/runtime/runtime.go\<close>): the lifecycle of runtimes, in memory and on disk,
    over adapters that act on a world.
  \<^item> \<open>Task_State\<close>, \<open>Task_Store_SQLite\<close>, \<open>Task_Store_Open\<close> (\<open>internal/taskstate\<close>): both task stores and the
    migration between them; how the production store is opened and what it is bound to.
  \<^item> \<open>Event_Store\<close>, \<open>Event_Paging\<close> (\<open>internal/events/store.go\<close>): runs, their numbered events, checkpoints and
    artifacts, collection; reading a log in pages.
  \<^item> \<open>Loop_Controller\<close> (\<open>internal/loop/loop.go\<close>): the phases of a run over the event store.
  \<^item> \<open>Publication_Adapter\<close> (\<open>internal/publication/publication.go\<close>) and \<open>Repo_Intelligence\<close>
    (\<open>internal/intelligence/intelligence.go\<close>): gated host commands; plans that verify a candidate.
  \<^item> \<open>Process_Output\<close>, \<open>Process_Supervisor\<close> (\<open>internal/process\<close>): the output of a process in memory and in its
    spill file, reading it in pages; specifications, the command line in a container, supervision as a step
    relation over every order in which output, exit, cancellation and deadline arrive.
  \<^item> \<open>Environment_Cache\<close> (\<open>internal/environment/environment.go\<close>): toolchains, lock files, environment generations
    on disk, the artifact cache.
  \<^item> \<open>Repo_Paths\<close>, \<open>Repo_Disk\<close>, \<open>Repo_Search\<close>, \<open>Patch_Text\<close>, \<open>Repo_Edit\<close> (\<open>internal/repo/repo.go\<close>) and
    \<open>Git_Status\<close> (\<open>git_status.go\<close>): which paths may be named; the tree below the root and how files are opened;
    searching and snapshots by one walk; unified diffs; patching, creating and deleting, with the disk as
    each step finds it; the summary of \<open>git status\<close>.
  \<^item> \<open>Plane_State\<close>, \<open>Plane_Operations\<close>, \<open>Plane_Automation\<close>, \<open>Plane_Loop\<close> (\<open>internal/controlplane\<close>): the
    composition of all of them. An operation is a sequence of calls of the components; what the platform
    answers is a stream in the state, one entry per call, in which others may also edit the candidates.
    \<open>Plane_Session\<close> has opening, closing and every step of an open plane, and the interface for what they
    keep; \<open>Plane_Authority\<close> interprets it.
  \<^item> \<open>Go_Replace\<close>: replacing matches of a pattern from the left. \<open>Verify_Diagnostic\<close>, \<open>Verify_Runner\<close>
    (\<open>internal/verify/runner.go\<close>): what is shown of a command's output; the process that starts the helper,
    and the helper that enters the repository, prepares the caches and becomes the fixed command, over a
    kernel that is a record of system calls.
  \<^item> \<open>Memory_Store\<close> (\<open>internal/memory/store.go\<close>): entries, the full text index and the query it is given.
  \<^item> \<open>MCP_Transport\<close> (\<open>mcp_replay_transport.go\<close> and the guard of \<open>controlplane_tools.go\<close>): the identity and the
    sequence number of a call, and the guard that reads them. \<open>MCP_Tools\<close> (\<open>controlplane_tools.go\<close>, \<open>main.go\<close>):
    the handlers of the two servers and the tools with their annotations. \<open>Server_Main\<close> (\<open>main.go\<close>): the
    operator's key and command, the start of the program, serving and its end.

  \<^bold>\<open>Interfaces.\<close> A locale states each contract on which a client relies and is interpreted on the
  definitions of the provider: the window of identities (cache and nonce table), the guarded store of
  leases, the paged log, the runs of operations that keep an invariant. The interpretation discharges
  the laws for the code, and the properties rest on its facts.

  \<^bold>\<open>What the lemmas show.\<close> Safety of authority: nonces and confirmations are used once, revocation is final,
  a decision is allowed exactly under its guards, replayed requests and signatures are refused, only
  authentic operator requests reach the approval, publication runs nothing that is not authorised.
  Workspaces: fences increase, a superseded lease is rejected for ever, leases exclude one another,
  recovery is complete; an integration ends exactly on the candidate, is consistent at every crash
  point, and recovery commits exactly what is complete. Scheduling: limits at every moment, dependency
  order, progress, no spurious failure. Runtimes refine a lifecycle machine. The two task stores agree,
  keep their tasks, and the migration loses none. A run of the loop completes only when it was tested,
  verified and checkpointed on the binding it completes with; it returns within its budget, and never
  repeats an action that failed; its log is append only. A verification result means what it says.
  Processes run only what their policy allows, end with the outcome that was seen, and can always end.
  Repositories: no read, search or snapshot leaves the root or shows a protected name; a patch is applied
  exactly or not at all, from the text it was computed from, and can be undone; a snapshot is complete.
  The server: the identity of a call cannot be chosen by the client and a replayed tool has no effect; a
  check reported as passed is the fixed command, run with success on the main branch; what is shown of
  its output names no path that is hidden; the operator signs exactly what the plane waits for.

  \<^bold>\<open>What is a parameter.\<close> SHA-256, HMAC, JSON and time formats are functions given to the definitions; a
  theorem names what it needs of them (that a format is undone by its parser, that two different
  messages of its statement have different digests). Clock readings and random bytes are arguments, one
  per critical section of the code. Outcomes of file and database operations are arguments too: every
  write is done, done but not synced, or failed. The iteration order of a Go map is an arbitrary order
  given to the definition. Host commands, containers, the model and the authority of the loop act on a
  world of an arbitrary type. The library of the protocol is what a call carries (its metadata, its
  session); the parsing of flags, the matching and the ranking of the full text index are parameters.

  \<^bold>\<open>Bounds and fuel.\<close> Recursions that are not structural have a measure: the unvisited jobs of a graph, the
  rest of a log, the bytes left of a frame. The loop of a run carries fuel; ten rounds per retry left and
  eleven more are enough, which is a theorem and not an assumption. Step relations have no bound. Fences
  are kept below \<open>2 ^ 64\<close> as the code checks them; resource requests are 64-bit words where their sum may
  wrap.

  \<^bold>\<open>What is not modelled.\<close> Sockets, deadlines, file permissions and process groups of the host; the SQLite
  engine beyond the documented effect of the statements; schemas, titles and descriptions of tools; other
  calls of a plane while its loop runs.
\<close>

end
